(* ===== verification/Prelude.thy ===== *)
theory Prelude
  imports Main "HOL-Library.Word" "HOL-Library.Char_ord" "HOL-Library.List_Lexorder"
    "HOL-Library.Product_Lexorder"
begin

text \<open>
  Shared vocabulary of the development: the fixed-width integer types of the C++ sources,
  byte strings, the little-endian encodings that the serialisers write by shifting and
  masking, slices of byte vectors, and conversions between \<open>std::string\<close> and bytes.

  A C++ \<open>uint8_t\<close>, \<open>uint16_t\<close>, \<open>uint32_t\<close> or \<open>uint64_t\<close> is a word of that width, so
  arithmetic wraps; a signed \<open>int32_t\<close> or \<open>int64_t\<close> is the word with the same bits, read
  with \<^const>\<open>sint\<close>. A \<open>std::vector<uint8_t>\<close> is a list of bytes; \<open>std::array<byte, 32>\<close>
  is a list of bytes whose length the well-formedness predicates fix. \<open>size_t\<close> has 64 bits.
\<close>

unbundle bit_operations_syntax

type_synonym u8 = "8 word"
type_synonym u16 = "16 word"
type_synonym u32 = "32 word"
type_synonym u64 = "64 word"
type_synonym bytes = "u8 list"
type_synonym Hash256 = "u8 list"

named_theorems codec_simps \<open>lengths and slices of encoded data\<close>
named_theorems frame_simps \<open>fields an operation leaves unchanged\<close>

section \<open>Strings as bytes\<close>

definition bytes_of_string :: "string \<Rightarrow> bytes" where
  "bytes_of_string s = map (\<lambda>c. word_of_nat (of_char c)) s"

definition string_of_bytes :: "bytes \<Rightarrow> string" where
  "string_of_bytes bs = map (\<lambda>b. char_of (unat b)) bs"

section \<open>Results\<close>

text \<open>Go on with the value of a computation, or stop with its error.\<close>

definition result_then :: "'e + 'a \<Rightarrow> ('a \<Rightarrow> 'e + 'b) \<Rightarrow> 'e + 'b" where
  "result_then x f = (case x of Inl e \<Rightarrow> Inl e | Inr a \<Rightarrow> f a)"

section \<open>Slices\<close>

text \<open>The range \<open>[bs.begin() + off, bs.begin() + off + n)\<close> of a vector.\<close>

definition slice :: "nat \<Rightarrow> nat \<Rightarrow> 'a list \<Rightarrow> 'a list" where
  "slice off n bs = take n (drop off bs)"

section \<open>Little-endian integers\<close>

text \<open>
  \<open>for (int i = 0; i < n; ++i) out.push_back(static_cast<uint8_t>(w >> (i * 8)));\<close>
\<close>

definition le_bytes :: "nat \<Rightarrow> 'a::len word \<Rightarrow> bytes" where
  "le_bytes n w = map (\<lambda>i. ucast (drop_bit (8 * i) w)) [0..<n]"

text \<open>
  \<open>w = 0; for (int i = 0; i < n; ++i) w |= static_cast<T>(bytes[offset++]) << (i * 8);\<close>
\<close>

fun le_accum :: "'a::len word \<Rightarrow> nat \<Rightarrow> bytes \<Rightarrow> 'a word" where
  "le_accum acc i [] = acc"
| "le_accum acc i (b # bs) = le_accum (acc OR push_bit (8 * i) (ucast b)) (Suc i) bs"

definition le_word :: "bytes \<Rightarrow> 'a::len word" where
  "le_word bs = le_accum 0 0 bs"

section \<open>Lemmas\<close>

lemma result_then_simps [simp]: "result_then (Inr a) f = f a" "result_then (Inl e) f = Inl e"
  by (simp_all add: result_then_def)

lemma result_then_Inr: "result_then x f = Inr b \<longleftrightarrow> (\<exists>a. x = Inr a \<and> f a = Inr b)"
  by (cases x) simp_all

lemma of_char_less [simp]: "(of_char c :: nat) < 256"
  by (metis char_of_quasi_inj mod_less_divisor of_char_mod_256 zero_less_numeral)

lemma string_of_bytes_of_string [simp]: "string_of_bytes (bytes_of_string s) = s"
  by (simp add: string_of_bytes_def bytes_of_string_def comp_def unat_of_nat take_bit_eq_mod
      map_idI)

lemma unat_u8_less [simp]: "unat (b :: u8) < 256"
  using unsigned_less [of b] by simp

lemma bytes_of_string_of_bytes [simp]: "bytes_of_string (string_of_bytes bs) = bs"
proof -
  have "word_of_nat (of_char (char_of (unat b) :: char)) = b" for b :: u8
    by (simp add: of_char_of)
  then show ?thesis
    by (simp add: string_of_bytes_def bytes_of_string_def comp_def)
qed

lemma length_bytes_of_string [simp]: "length (bytes_of_string s) = length s"
  by (simp add: bytes_of_string_def)

lemma length_string_of_bytes [simp]: "length (string_of_bytes bs) = length bs"
  by (simp add: string_of_bytes_def)

lemma bytes_of_string_inject [simp]: "bytes_of_string s = bytes_of_string t \<longleftrightarrow> s = t"
  by (metis string_of_bytes_of_string)

lemma length_slice [simp]: "length (slice off n bs) = min n (length bs - off)"
  by (simp add: slice_def min.commute)

lemma slice_append_skip [codec_simps]:
  "length xs \<le> off \<Longrightarrow> slice off n (xs @ ys) = slice (off - length xs) n ys"
  by (simp add: slice_def)

lemma slice_append_take [codec_simps]: "length xs = n \<Longrightarrow> slice 0 n (xs @ ys) = xs"
  by (simp add: slice_def)

lemma slice_all [codec_simps]: "length xs = n \<Longrightarrow> slice 0 n xs = xs"
  by (simp add: slice_def)

lemma slice_Cons_skip [codec_simps]: "0 < off \<Longrightarrow> slice off n (x # xs) = slice (off - 1) n xs"
  by (cases off) (simp_all add: slice_def)

lemma slice_0 [simp]: "slice off 0 xs = []"
  by (simp add: slice_def)

lemma length_le_bytes [simp]: "length (le_bytes n w) = n"
  by (simp add: le_bytes_def)

lemma nth_le_bytes: "i < n \<Longrightarrow> le_bytes n w ! i = ucast (drop_bit (8 * i) w)"
  by (simp add: le_bytes_def)

lemma bit_le_accum:
  fixes acc :: "'a::len word"
  shows "bit (le_accum acc i bs) k \<longleftrightarrow>
     bit acc k \<or>
     (k < LENGTH('a) \<and> 8 * i \<le> k \<and> k div 8 - i < length bs \<and> bit (bs ! (k div 8 - i)) (k mod 8))"
proof (induction bs arbitrary: acc i)
  case Nil
  then show ?case by simp
next
  case (Cons b bs)
  have head: "bit (push_bit (8 * i) (ucast b :: 'a word)) k \<longleftrightarrow>
      k < LENGTH('a) \<and> 8 * i \<le> k \<and> k div 8 = i \<and> bit b (k mod 8)"
  proof (cases "8 * i \<le> k \<and> k < LENGTH('a)")
    case True
    have "bit b (k - 8 * i) \<longleftrightarrow> k div 8 = i \<and> bit b (k mod 8)"
    proof (cases "k div 8 = i")
      case True
      then have "k - 8 * i = k mod 8" by presburger
      with True show ?thesis by simp
    next
      case False
      with \<open>8 * i \<le> k \<and> k < LENGTH('a)\<close> have "8 \<le> k - 8 * i" by linarith
      then have "\<not> bit b (k - 8 * i)" using bit_imp_le_length [of b "k - 8 * i"] by auto
      with False show ?thesis by simp
    qed
    with True show ?thesis by (auto simp: bit_push_bit_iff bit_ucast_iff)
  next
    case False
    then show ?thesis by (auto simp: bit_push_bit_iff bit_ucast_iff)
  qed
  show ?case
    unfolding le_accum.simps Cons.IH bit_or_iff head
    by (cases "k div 8 = i") (auto simp: nth_Cons' Suc_diff_Suc)
qed

lemma le_word_le_bytes:
  fixes w :: "'a::len word"
  assumes "LENGTH('a) = 8 * n"
  shows "le_word (le_bytes n w) = w"
proof (rule bit_word_eqI)
  fix k assume k: "k < LENGTH('a)"
  then have d: "k div 8 < n" using assms by linarith
  have "8 * (k div 8) + k mod 8 = k" by simp
  then show "bit (le_word (le_bytes n w) :: 'a word) k = bit w k"
    using k d by (simp add: le_word_def bit_le_accum nth_le_bytes bit_ucast_iff bit_drop_bit_eq)
qed

lemma le_word_le_bytes_u16 [simp]: "le_word (le_bytes 2 (w :: u16)) = w"
  by (rule le_word_le_bytes) simp

lemma le_word_le_bytes_u32 [simp]: "le_word (le_bytes 4 (w :: u32)) = w"
  by (rule le_word_le_bytes) simp

lemma le_word_le_bytes_u64 [simp]: "le_word (le_bytes 8 (w :: u64)) = w"
  by (rule le_word_le_bytes) simp

lemma le_bytes_le_word:
  assumes "LENGTH('a::len) = 8 * length bs"
  shows "le_bytes (length bs) (le_word bs :: 'a word) = bs"
proof (rule nth_equalityI)
  show "length (le_bytes (length bs) (le_word bs :: 'a word)) = length bs" by simp
  fix i assume "i < length (le_bytes (length bs) (le_word bs :: 'a word))"
  then have i: "i < length bs" by simp
  show "le_bytes (length bs) (le_word bs :: 'a word) ! i = bs ! i"
  proof (rule bit_word_eqI)
    fix k :: nat assume k: "k < LENGTH(8)"
    then have "(8 * i + k) div 8 = i" "(8 * i + k) mod 8 = k" by simp_all
    then show "bit (le_bytes (length bs) (le_word bs :: 'a word) ! i) k = bit (bs ! i) k"
      using i k assms
      by (simp add: nth_le_bytes bit_ucast_iff bit_drop_bit_eq le_word_def bit_le_accum)
  qed
qed

text \<open>Lengths written as a fixed-width integer are recovered when they fit.\<close>

lemma unat_of_nat_u32 [simp]: "n < 2 ^ 32 \<Longrightarrow> unat (word_of_nat n :: u32) = n"
  by (simp add: unat_of_nat take_bit_eq_mod)

lemma unat_of_nat_u16 [simp]: "n < 2 ^ 16 \<Longrightarrow> unat (word_of_nat n :: u16) = n"
  by (simp add: unat_of_nat take_bit_eq_mod)

lemma unat_of_nat_u64 [simp]: "n < 2 ^ 64 \<Longrightarrow> unat (word_of_nat n :: u64) = n"
  by (simp add: unat_of_nat take_bit_eq_mod)

end
