(* ===== verification/Containers.thy ===== *)
theory Containers
  imports Prelude
begin

text \<open>
  The standard containers the sources use, and the interfaces the components rely on.

  \<open>std::map\<close> is an association list in increasing key order, \<open>std::set\<close> a strictly
  increasing list, so that iterating over either visits the elements in the order the C++
  iterator does. The locale \<open>keyed_store\<close> is what a client of a map relies on (what a find
  returns after a store or an erase); its lemma \<open>fold_group\<close> is the one fact that all the
  ledger's lookup indices are built on. The locales \<open>codec\<close> and \<open>trailing_codec\<close> are the
  contract of a \<open>to_bytes\<close>/\<open>from_bytes\<close> pair, and \<open>invariant_machine\<close> the contract of a
  component whose operations all keep an invariant.
\<close>

section \<open>Definitions\<close>

text \<open>\<open>m[k] = v\<close> on a \<open>std::map\<close>.\<close>

fun omap_set :: "'k::linorder \<Rightarrow> 'v \<Rightarrow> ('k \<times> 'v) list \<Rightarrow> ('k \<times> 'v) list" where
  "omap_set k v [] = [(k, v)]"
| "omap_set k v ((k', v') # m) =
     (if k < k' then (k, v) # (k', v') # m
      else if k = k' then (k, v) # m
      else (k', v') # omap_set k v m)"

text \<open>\<open>m.erase(k)\<close>\<close>

definition omap_erase :: "'k \<Rightarrow> ('k \<times> 'v) list \<Rightarrow> ('k \<times> 'v) list" where
  "omap_erase k m = filter (\<lambda>p. fst p \<noteq> k) m"

text \<open>\<open>m.insert({k, v})\<close>, which keeps the value of a key that is present.\<close>

definition omap_insert :: "'k::linorder \<Rightarrow> 'v \<Rightarrow> ('k \<times> 'v) list \<Rightarrow> ('k \<times> 'v) list" where
  "omap_insert k v m = (case map_of m k of None \<Rightarrow> omap_set k v m | Some _ \<Rightarrow> m)"

text \<open>Keys in strictly increasing order: what every \<open>std::map\<close> value satisfies.\<close>

definition omap_ok :: "('k::linorder \<times> 'v) list \<Rightarrow> bool" where
  "omap_ok m \<longleftrightarrow> sorted_wrt (<) (map fst m)"

text \<open>A map all of whose values satisfy a predicate.\<close>

definition omap_all :: "('v \<Rightarrow> bool) \<Rightarrow> ('k::linorder \<times> 'v) list \<Rightarrow> bool" where
  "omap_all P m \<longleftrightarrow> omap_ok m \<and> list_all (\<lambda>p. P (snd p)) m"

text \<open>The value read by \<open>m[k]\<close>: a missing key gives a default-constructed value.\<close>

definition opt_or :: "'v \<Rightarrow> 'v option \<Rightarrow> 'v" where
  "opt_or d x = (case x of None \<Rightarrow> d | Some v \<Rightarrow> v)"

text \<open>\<open>std::set\<close>: \<open>insert\<close> and \<open>erase\<close>.\<close>

fun oset_insert :: "'a::linorder \<Rightarrow> 'a list \<Rightarrow> 'a list" where
  "oset_insert x [] = [x]"
| "oset_insert x (y # ys) =
     (if x < y then x # y # ys else if x = y then y # ys else y # oset_insert x ys)"

definition oset_erase :: "'a \<Rightarrow> 'a list \<Rightarrow> 'a list" where
  "oset_erase x s = filter (\<lambda>y. y \<noteq> x) s"

definition oset_ok :: "'a::linorder list \<Rightarrow> bool" where
  "oset_ok s \<longleftrightarrow> sorted_wrt (<) s"

section \<open>Interfaces\<close>

locale keyed_store =
  fixes empty :: 'm
    and find :: "'m \<Rightarrow> 'k \<Rightarrow> 'v option"
    and put :: "'k \<Rightarrow> 'v \<Rightarrow> 'm \<Rightarrow> 'm"
    and del :: "'k \<Rightarrow> 'm \<Rightarrow> 'm"
  assumes find_empty: "find empty k = None"
    and find_put: "find (put k v m) = (find m)(k \<mapsto> v)"
    and find_del: "find (del k m) = (find m)(k := None)"
begin

text \<open>
  Updating one keyed entry per element of a list: the entry of \<open>k\<close> afterwards is the fold
  over the elements that carry the key \<open>k\<close> only, in their order.
\<close>

lemma fold_group:
  "opt_or d (find (fold (\<lambda>e m. case key e of None \<Rightarrow> m
       | Some k \<Rightarrow> put k (upd e (opt_or d (find m k))) m) es start) k)
   = fold upd (filter (\<lambda>e. key e = Some k) es) (opt_or d (find start k))"
proof (induction es arbitrary: start)
  case Nil
  then show ?case by simp
next
  case (Cons e es)
  then show ?case by (cases "key e") (auto simp: find_put opt_or_def)
qed

lemma fold_group_present:
  "find (fold (\<lambda>e m. case key e of None \<Rightarrow> m
       | Some k \<Rightarrow> put k (upd e (opt_or d (find m k))) m) es start) k = None
   \<longleftrightarrow> find start k = None \<and> (\<forall>e \<in> set es. key e \<noteq> Some k)"
proof (induction es arbitrary: start)
  case Nil
  then show ?case by simp
next
  case (Cons e es)
  then show ?case by (cases "key e") (auto simp: find_put)
qed

lemma put_del_other: "k \<noteq> k' \<Longrightarrow> find (del k (put k' v m)) k' = Some v"
  by (simp add: find_put find_del)

end

locale codec =
  fixes enc :: "'a \<Rightarrow> bytes"
    and dec :: "bytes \<Rightarrow> 'a option"
    and wf :: "'a \<Rightarrow> bool"
  assumes dec_enc: "wf x \<Longrightarrow> dec (enc x) = Some x"
begin

lemma enc_inject: "wf x \<Longrightarrow> wf y \<Longrightarrow> enc x = enc y \<Longrightarrow> x = y"
  by (metis dec_enc option.inject)

lemma dec_map_enc: "list_all wf xs \<Longrightarrow> List.map_filter dec (map enc xs) = xs"
  by (induction xs) (simp_all add: dec_enc map_filter_simps)

end

locale trailing_codec =
  fixes enc :: "'a \<Rightarrow> bytes"
    and dec :: "bytes \<Rightarrow> 'a option"
    and wf :: "'a \<Rightarrow> bool"
  assumes dec_enc_append: "wf x \<Longrightarrow> dec (enc x @ rest) = Some x"
begin

text \<open>No well-formed encoding is a proper prefix of another.\<close>

lemma enc_prefix_free: "wf x \<Longrightarrow> wf y \<Longrightarrow> enc x @ r = enc y @ s \<Longrightarrow> x = y"
  by (metis dec_enc_append option.inject)

end

sublocale trailing_codec \<subseteq> codec enc dec wf
  by unfold_locales (metis dec_enc_append append_Nil2)

locale invariant_machine =
  fixes step :: "'s \<Rightarrow> 'op \<Rightarrow> 's"
    and inv :: "'s \<Rightarrow> bool"
  assumes step_inv: "inv s \<Longrightarrow> inv (step s x)"
begin

lemma run_inv: "inv s \<Longrightarrow> inv (foldl step s xs)"
  by (induction xs arbitrary: s) (auto intro: step_inv)

end

section \<open>Lemmas on maps\<close>

lemma opt_or_simps [simp]: "opt_or d None = d" "opt_or d (Some v) = v"
  by (simp_all add: opt_or_def)

lemma find_omap_set [simp]: "map_of (omap_set k v m) = (map_of m)(k \<mapsto> v)"
  by (induction k v m rule: omap_set.induct) (auto simp: fun_eq_iff)

lemma find_omap_erase [simp]: "map_of (omap_erase k m) = (map_of m)(k := None)"
  by (induction m) (auto simp: omap_erase_def fun_eq_iff)

interpretation om: keyed_store "[] :: ('k::linorder \<times> 'v) list" map_of omap_set omap_erase
  by unfold_locales (simp_all add: fun_eq_iff)

lemma keys_omap_set [simp]: "fst ` set (omap_set k v m) = insert k (fst ` set m)"
  by (induction k v m rule: omap_set.induct) auto

lemma omap_set_not_Nil [simp]: "omap_set k v m \<noteq> []"
  by (cases m) (auto split: if_splits)

lemma omap_ok_Nil [simp, intro]: "omap_ok []"
  by (simp add: omap_ok_def)

lemma omap_ok_set [simp, intro]: "omap_ok m \<Longrightarrow> omap_ok (omap_set k v m)"
proof (induction k v m rule: omap_set.induct)
  case (2 k v k' v' m)
  have "\<forall>x \<in> set (map fst (omap_set k v m)). x = k \<or> x \<in> fst ` set m"
    using keys_omap_set [of k v m] by auto
  with 2 show ?case by (force simp: omap_ok_def)
qed (simp add: omap_ok_def)

lemma omap_ok_erase [simp, intro]: "omap_ok m \<Longrightarrow> omap_ok (omap_erase k m)"
  by (induction m) (auto simp: omap_ok_def omap_erase_def)

lemma find_erase_all: "map_of (fold omap_erase ks m) k = (if k \<in> set ks then None else map_of m k)"
  by (induction ks arbitrary: m) auto

lemma omap_ok_erase_all: "omap_ok m \<Longrightarrow> omap_ok (fold omap_erase ks m)"
  by (induction ks arbitrary: m) auto

lemma set_omap_set: "set (omap_set k v m) \<subseteq> insert (k, v) (set m)"
  by (induction k v m rule: omap_set.induct) auto

lemma omap_all_Nil [simp, intro]: "omap_all P []"
  by (simp add: omap_all_def)

lemma omap_all_set [intro]: "omap_all P m \<Longrightarrow> P v \<Longrightarrow> omap_all P (omap_set k v m)"
  using set_omap_set [of k v m] by (fastforce simp: omap_all_def list_all_iff)

lemma omap_all_erase [intro]: "omap_all P m \<Longrightarrow> omap_all P (omap_erase k m)"
  by (auto simp: omap_all_def list_all_iff omap_erase_def intro: omap_ok_erase [unfolded omap_erase_def])

lemma omap_all_find: "omap_all P m \<Longrightarrow> map_of m k = Some v \<Longrightarrow> P v"
  by (auto simp: omap_all_def list_all_iff dest!: map_of_SomeD)

lemma omap_all_at: "omap_all P m \<Longrightarrow> P d \<Longrightarrow> P (opt_or d (map_of m k))"
  by (cases "map_of m k") (auto dest: omap_all_find)

lemma omap_all_map:
  assumes "omap_all P m" "\<And>p. p \<in> set m \<Longrightarrow> fst (f p) = fst p \<and> (P (snd p) \<longrightarrow> Q (snd (f p)))"
  shows "omap_all Q (map f m)"
proof -
  have keys: "map fst (map f m) = map fst m" using assms(2) by simp
  have "omap_ok (map f m)" using assms(1) unfolding omap_all_def omap_ok_def keys by simp
  with assms show ?thesis by (auto simp: omap_all_def list_all_iff)
qed

lemma omap_ok_distinct: "omap_ok m \<Longrightarrow> distinct (map fst m)"
  by (auto simp: omap_ok_def strict_sorted_iff)

lemma omap_find_iff: "omap_ok m \<Longrightarrow> map_of m k = Some v \<longleftrightarrow> (k, v) \<in> set m"
  by (simp add: omap_ok_distinct)

text \<open>The number of entries.\<close>

lemma length_omap_set: "length (omap_set k v m) \<le> length m + 1"
  by (induction k v m rule: omap_set.induct) auto

lemma length_omap_set_new: "map_of m k = None \<Longrightarrow> length (omap_set k v m) = Suc (length m)"
  by (induction m) (auto split: if_splits)

lemma length_omap_set_old: "omap_ok m \<Longrightarrow> map_of m k = Some x \<Longrightarrow> length (omap_set k v m) = length m"
proof (induction m)
  case (Cons a m)
  then have "k \<in> fst ` set (a # m)" by (metis domI dom_map_of_conv_image_fst)
  with Cons show ?case by (cases a) (auto simp: omap_ok_def split: if_splits)
qed simp

lemma length_omap_erase: "length (omap_erase k m) \<le> length m"
  by (simp add: omap_erase_def)

lemma length_omap_erase_present: "map_of m k \<noteq> None \<Longrightarrow> length (omap_erase k m) < length m"
  unfolding omap_erase_def by (auto dest!: map_of_SomeD intro!: length_filter_less)

lemma length_erase_all: "length (fold omap_erase ks m) \<le> length m"
  by (induction ks arbitrary: m) (auto intro: order_trans [OF _ length_omap_erase])

lemma omap_set_last: "(\<forall>k' \<in> fst ` set m. k' < k) \<Longrightarrow> omap_set k v m = m @ [(k, v)]"
  by (induction m) auto

lemma omap_ok_filter: "omap_ok m \<Longrightarrow> omap_ok (filter P m)"
  by (induction m) (auto simp: omap_ok_def)

lemma omap_ok_inject:
  assumes "omap_ok m" "omap_ok m'" "map_of m = map_of m'"
  shows "m = m'"
  using assms
proof (induction m arbitrary: m')
  case Nil
  then show ?case by (cases m') (auto simp: fun_eq_iff split: if_splits)
next
  case (Cons p m)
  obtain k v where p: "p = (k, v)" by force
  have "map_of m' k = Some v" using fun_cong [OF Cons.prems(3), of k] p by simp
  then obtain k' v' n where m': "m' = (k', v') # n" by (cases m') auto
  have lo: "\<forall>x \<in> set m. k < fst x" and lo': "\<forall>x \<in> set n. k' < fst x"
    using Cons.prems(1,2) by (auto simp: omap_ok_def p m')
  have "\<not> k < k'"
  proof
    assume "k < k'"
    with lo' have "k \<notin> fst ` set m'" by (force simp: m')
    with \<open>map_of m' k = Some v\<close> show False by (simp add: map_of_eq_None_iff [symmetric])
  qed
  moreover have "\<not> k' < k"
  proof
    assume "k' < k"
    with lo have "k' \<notin> fst ` set (p # m)" by (force simp: p)
    then have "map_of (p # m) k' = None" by (simp only: map_of_eq_None_iff simp_thms)
    with fun_cong [OF Cons.prems(3), of k'] show False by (simp add: m')
  qed
  ultimately have k: "k' = k" by simp
  have v: "v' = v" using \<open>map_of m' k = Some v\<close> by (simp add: m' k)
  have none: "map_of m k = None" "map_of n k = None"
    using lo lo' k by (force simp: map_of_eq_None_iff)+
  have "map_of m = map_of n"
  proof
    fix x show "map_of m x = map_of n x"
      using fun_cong [OF Cons.prems(3), of x] none by (cases "x = k") (auto simp: p m' k)
  qed
  with Cons.IH [of n] Cons.prems(1,2) show ?case
    by (simp add: p m' k v omap_ok_def)
qed

section \<open>Lemmas on sets\<close>

lemma set_oset_insert [simp]: "set (oset_insert x s) = insert x (set s)"
  by (induction x s rule: oset_insert.induct) auto

lemma set_oset_erase [simp]: "set (oset_erase x s) = set s - {x}"
  by (auto simp: oset_erase_def)

lemma oset_ok_Nil [simp, intro]: "oset_ok []"
  by (simp add: oset_ok_def)

lemma oset_ok_insert [simp, intro]: "oset_ok s \<Longrightarrow> oset_ok (oset_insert x s)"
  by (induction x s rule: oset_insert.induct) (auto simp: oset_ok_def)

lemma oset_ok_erase [simp, intro]: "oset_ok s \<Longrightarrow> oset_ok (oset_erase x s)"
  by (simp add: oset_ok_def oset_erase_def sorted_wrt_filter)

lemma oset_ok_length: "oset_ok s \<Longrightarrow> length s = card (set s)"
  by (simp add: oset_ok_def strict_sorted_iff distinct_card)

lemma oset_ok_eq: "oset_ok s \<Longrightarrow> s = sorted_list_of_set (set s)"
  by (simp add: oset_ok_def strict_sorted_iff sorted_list_of_set.idem_if_sorted_distinct)

end
