(* ===== verification/Common.thy ===== *)
theory Common
  imports Containers
begin

text \<open>
  The identifier types and text encodings of \<open>include/cashew/common.hpp\<close> and
  \<open>src/common.cpp\<close>: \<open>NodeID\<close>, \<open>HumanID\<close>, \<open>NetworkID\<close> and \<open>ContentHash\<close> with their
  orders, hexadecimal, and base64.

  \<open>hex_to_hash\<close> reads each pair of characters with \<open>std::stoul(_, nullptr, 16)\<close>, whose
  behaviour (leading white space, a sign, an optional \<open>0x\<close> prefix, then the longest run of
  hexadecimal digits, \<open>std::invalid_argument\<close> when there is none) is \<open>stoul16\<close> below.
  The character classes are those of the C locale.
\<close>

section \<open>Identifiers\<close>

datatype NodeID = NodeID (node_bytes: Hash256)
datatype HumanID = HumanID (human_bytes: Hash256)
datatype NetworkID = NetworkID (network_bytes: Hash256)
datatype ContentHash = ContentHash (content_bytes: Hash256)

instantiation NodeID :: linorder
begin

definition less_eq_NodeID :: "NodeID \<Rightarrow> NodeID \<Rightarrow> bool" where
  "less_eq_NodeID a b \<longleftrightarrow> node_bytes a \<le> node_bytes b"

definition less_NodeID :: "NodeID \<Rightarrow> NodeID \<Rightarrow> bool" where
  "less_NodeID a b \<longleftrightarrow> node_bytes a < node_bytes b"

instance
  by standard (auto simp: less_eq_NodeID_def less_NodeID_def NodeID.expand)

end

instantiation HumanID :: linorder
begin

definition less_eq_HumanID :: "HumanID \<Rightarrow> HumanID \<Rightarrow> bool" where
  "less_eq_HumanID a b \<longleftrightarrow> human_bytes a \<le> human_bytes b"

definition less_HumanID :: "HumanID \<Rightarrow> HumanID \<Rightarrow> bool" where
  "less_HumanID a b \<longleftrightarrow> human_bytes a < human_bytes b"

instance
  by standard (auto simp: less_eq_HumanID_def less_HumanID_def HumanID.expand)

end

instantiation ContentHash :: linorder
begin

definition less_eq_ContentHash :: "ContentHash \<Rightarrow> ContentHash \<Rightarrow> bool" where
  "less_eq_ContentHash a b \<longleftrightarrow> content_bytes a \<le> content_bytes b"

definition less_ContentHash :: "ContentHash \<Rightarrow> ContentHash \<Rightarrow> bool" where
  "less_ContentHash a b \<longleftrightarrow> content_bytes a < content_bytes b"

instance
  by standard (auto simp: less_eq_ContentHash_def less_ContentHash_def ContentHash.expand)

end

text \<open>\<open>Hash256{}\<close>: all zero.\<close>

definition zero_hash :: Hash256 where
  "zero_hash = replicate 32 0"

section \<open>Hexadecimal\<close>

datatype hex_error = InvalidHexLength | InvalidArgument

definition hex_digits :: string where
  "hex_digits = ''0123456789abcdef''"

definition hash_to_hex :: "Hash256 \<Rightarrow> string" where
  "hash_to_hex hash =
     concat (map (\<lambda>b. [hex_digits ! (unat b div 16), hex_digits ! (unat b mod 16)]) hash)"

text \<open>The value of a hexadecimal digit of either case.\<close>

definition hex_value :: "char \<Rightarrow> nat option" where
  "hex_value c = (let n = (of_char c :: nat) in
     if 48 \<le> n \<and> n \<le> 57 then Some (n - 48)
     else if 97 \<le> n \<and> n \<le> 102 then Some (n - 87)
     else if 65 \<le> n \<and> n \<le> 70 then Some (n - 55)
     else None)"

definition is_space :: "char \<Rightarrow> bool" where
  "is_space c \<longleftrightarrow> (let n = (of_char c :: nat) in n = 32 \<or> (9 \<le> n \<and> n \<le> 13))"

fun hex_run :: "nat \<Rightarrow> string \<Rightarrow> nat" where
  "hex_run acc [] = acc"
| "hex_run acc (c # cs) =
     (case hex_value c of None \<Rightarrow> acc | Some d \<Rightarrow> hex_run (acc * 16 + d) cs)"

definition starts_hex :: "string \<Rightarrow> bool" where
  "starts_hex s = (case s of [] \<Rightarrow> False | c # _ \<Rightarrow> hex_value c \<noteq> None)"

definition skip_0x :: "string \<Rightarrow> string" where
  "skip_0x s = (case s of
       a # b # r \<Rightarrow>
         (if a = CHR ''0'' \<and> (b = CHR ''x'' \<or> b = CHR ''X'') \<and> starts_hex r then r else s)
     | _ \<Rightarrow> s)"

definition stoul16 :: "string \<Rightarrow> u64 option" where
  "stoul16 s =
     (let s1 = dropWhile is_space s;
          neg = (s1 \<noteq> [] \<and> hd s1 = CHR ''-'');
          s2 = (if s1 \<noteq> [] \<and> (hd s1 = CHR ''-'' \<or> hd s1 = CHR ''+'') then tl s1 else s1);
          s3 = skip_0x s2
      in if \<not> starts_hex s3 then None
         else let v = word_of_nat (hex_run 0 s3) in Some (if neg then - v else v))"

fun hex_pairs :: "string \<Rightarrow> hex_error + bytes" where
  "hex_pairs (a # b # r) =
     (case stoul16 [a, b] of
        None \<Rightarrow> Inl InvalidArgument
      | Some v \<Rightarrow> (case hex_pairs r of Inl e \<Rightarrow> Inl e | Inr bs \<Rightarrow> Inr (ucast v # bs)))"
| "hex_pairs _ = Inr []"

definition hex_to_hash :: "string \<Rightarrow> hex_error + Hash256" where
  "hex_to_hash hex = (if length hex \<noteq> 32 * 2 then Inl InvalidHexLength else hex_pairs hex)"

definition NodeID_to_string :: "NodeID \<Rightarrow> string" where
  "NodeID_to_string n = hash_to_hex (node_bytes n)"

definition NodeID_from_string :: "string \<Rightarrow> hex_error + NodeID" where
  "NodeID_from_string s = map_sum id NodeID (hex_to_hash s)"

definition HumanID_to_string :: "HumanID \<Rightarrow> string" where
  "HumanID_to_string n = hash_to_hex (human_bytes n)"

definition HumanID_from_string :: "string \<Rightarrow> hex_error + HumanID" where
  "HumanID_from_string s = map_sum id HumanID (hex_to_hash s)"

definition NetworkID_to_string :: "NetworkID \<Rightarrow> string" where
  "NetworkID_to_string n = hash_to_hex (network_bytes n)"

definition NetworkID_from_string :: "string \<Rightarrow> hex_error + NetworkID" where
  "NetworkID_from_string s = map_sum id NetworkID (hex_to_hash s)"

definition ContentHash_to_string :: "ContentHash \<Rightarrow> string" where
  "ContentHash_to_string n = hash_to_hex (content_bytes n)"

definition ContentHash_from_string :: "string \<Rightarrow> hex_error + ContentHash" where
  "ContentHash_from_string s = map_sum id ContentHash (hex_to_hash s)"

section \<open>Base64\<close>

definition base64_chars :: string where
  "base64_chars = ''ABCDEFGHIJKLMNOPQRSTUVWXYZabcdefghijklmnopqrstuvwxyz0123456789+/''"

text \<open>The four six-bit indices computed from \<open>char_array_3\<close>.\<close>

definition b64_quad :: "u8 \<Rightarrow> u8 \<Rightarrow> u8 \<Rightarrow> u8 list" where
  "b64_quad a b c =
     [drop_bit 2 (a AND 0xfc),
      push_bit 4 (a AND 0x03) + drop_bit 4 (b AND 0xf0),
      push_bit 2 (b AND 0x0f) + drop_bit 6 (c AND 0xc0),
      c AND 0x3f]"

definition b64_emit :: "u8 list \<Rightarrow> string" where
  "b64_emit xs = map (\<lambda>x. base64_chars ! unat x) xs"

text \<open>The main loop: \<open>pend\<close> is the part of \<open>char_array_3\<close> filled so far.\<close>

fun b64_encode_loop :: "bytes \<Rightarrow> string \<Rightarrow> bytes \<Rightarrow> bytes \<times> string" where
  "b64_encode_loop pend result [] = (pend, result)"
| "b64_encode_loop pend result (x # xs) =
     (let p = pend @ [x] in
      if length p = 3 then b64_encode_loop [] (result @ b64_emit (b64_quad (p ! 0) (p ! 1) (p ! 2))) xs
      else b64_encode_loop p result xs)"

text \<open>The code after the loop: a short last group, zero filled, and the padding.\<close>

fun b64_encode_tail :: "bytes \<times> string \<Rightarrow> string" where
  "b64_encode_tail (pend, result) =
     (let i = length pend in
      if i = 0 then result
      else let p = pend @ replicate (3 - i) 0 in
           result @ b64_emit (take (i + 1) (b64_quad (p ! 0) (p ! 1) (p ! 2)))
             @ replicate (3 - i) (CHR ''=''))"

definition base64_encode :: "bytes \<Rightarrow> string" where
  "base64_encode data = b64_encode_tail (b64_encode_loop [] [] data)"

definition is_base64 :: "char \<Rightarrow> bool" where
  "is_base64 c \<longleftrightarrow> (let n = (of_char c :: nat) in
     (48 \<le> n \<and> n \<le> 57) \<or> (65 \<le> n \<and> n \<le> 90) \<or> (97 \<le> n \<and> n \<le> 122) \<or>
     c = CHR ''+'' \<or> c = CHR ''/'')"

text \<open>\<open>static_cast<byte>(std::string(base64_chars).find(c))\<close>; \<open>npos\<close> becomes 255.\<close>

definition b64_find :: "char \<Rightarrow> u8" where
  "b64_find c = (let n = length (takeWhile (\<lambda>d. d \<noteq> c) base64_chars) in
     if n < length base64_chars then word_of_nat n else 255)"

definition b64_triple :: "u8 \<Rightarrow> u8 \<Rightarrow> u8 \<Rightarrow> u8 \<Rightarrow> u8 list" where
  "b64_triple a b c d =
     [push_bit 2 a + drop_bit 4 (b AND 0x30),
      push_bit 4 (b AND 0xf) + drop_bit 2 (c AND 0x3c),
      push_bit 6 (c AND 0x3) + d]"

text \<open>
  The decoding loop: \<open>pend\<close> is the part of \<open>char_array_4\<close> filled so far. It stops at the
  first \<open>=\<close> or character outside the alphabet.
\<close>

fun b64_decode_loop :: "string \<Rightarrow> bytes \<Rightarrow> string \<Rightarrow> string \<times> bytes" where
  "b64_decode_loop pend result [] = (pend, result)"
| "b64_decode_loop pend result (c # cs) =
     (if c = CHR ''='' \<or> \<not> is_base64 c then (pend, result)
      else let p = pend @ [c] in
        if length p = 4
        then b64_decode_loop []
               (result @ b64_triple (b64_find (p ! 0)) (b64_find (p ! 1))
                  (b64_find (p ! 2)) (b64_find (p ! 3))) cs
        else b64_decode_loop p result cs)"

text \<open>
  The tail writes \<open>i - 1\<close> bytes, which depend on the \<open>i\<close> characters read only; the slots of
  \<open>char_array_4\<close> beyond them are filled with 0 here.
\<close>

fun b64_decode_tail :: "string \<times> bytes \<Rightarrow> bytes" where
  "b64_decode_tail (pend, result) =
     (let i = length pend in
      if i = 0 then result
      else let q = map b64_find pend @ replicate (4 - i) 0 in
           result @ take (i - 1) (b64_triple (q ! 0) (q ! 1) (q ! 2) (q ! 3)))"

definition base64_decode :: "string \<Rightarrow> bytes" where
  "base64_decode encoded = b64_decode_tail (b64_decode_loop [] [] encoded)"

text \<open>
  The reference definition of base64 (RFC 4648, section 4): a group of 24 bits, read as one
  number, is written as four base-64 digits; a short last group is padded with zero bits and
  its missing digits are written as \<open>=\<close>.
\<close>

definition sextet :: "nat \<Rightarrow> nat \<Rightarrow> char" where
  "sextet n i = base64_chars ! (n div 64 ^ (3 - i) mod 64)"

definition group24 :: "u8 \<Rightarrow> u8 \<Rightarrow> u8 \<Rightarrow> nat" where
  "group24 a b c = unat a * 65536 + unat b * 256 + unat c"

fun rfc4648 :: "bytes \<Rightarrow> string" where
  "rfc4648 [] = []"
| "rfc4648 [a] = map (sextet (group24 a 0 0)) [0, 1] @ ''==''"
| "rfc4648 [a, b] = map (sextet (group24 a b 0)) [0, 1, 2] @ ''=''"
| "rfc4648 (a # b # c # r) = map (sextet (group24 a b c)) [0, 1, 2, 3] @ rfc4648 r"

section \<open>Hexadecimal: lemmas\<close>

lemma nibble_bounds [simp]: "unat (b :: u8) div 16 < 16" "unat (b :: u8) mod 16 < 16"
  by (simp_all add: less_mult_imp_div_less)

lemma less_16_cases: "(n::nat) < 16 \<Longrightarrow> n \<in> {0, 1, 2, 3, 4, 5, 6, 7, 8, 9, 10, 11, 12, 13, 14, 15}"
  by (simp only: insert_iff empty_iff) arith

lemma hex_value_digit [simp]: "n < 16 \<Longrightarrow> hex_value (hex_digits ! n) = Some n"
  by (drule less_16_cases) (auto simp: hex_value_def hex_digits_def)

lemma is_space_digit [simp]: "n < 16 \<Longrightarrow> \<not> is_space (hex_digits ! n)"
  by (drule less_16_cases) (auto simp: is_space_def hex_digits_def)

lemma sign_digit [simp]: "n < 16 \<Longrightarrow> hex_digits ! n \<noteq> CHR ''-'' \<and> hex_digits ! n \<noteq> CHR ''+''"
  by (drule less_16_cases) (auto simp: hex_digits_def)

lemma prefix_digit [simp]: "n < 16 \<Longrightarrow> hex_digits ! n \<noteq> CHR ''x'' \<and> hex_digits ! n \<noteq> CHR ''X''"
  by (drule less_16_cases) (auto simp: hex_digits_def)

lemma stoul16_digits:
  "m < 16 \<Longrightarrow> n < 16 \<Longrightarrow>
   stoul16 [hex_digits ! m, hex_digits ! n] = Some (word_of_nat (m * 16 + n))"
  by (simp add: stoul16_def skip_0x_def starts_hex_def)

lemma hex_pairs_hash_to_hex: "hex_pairs (hash_to_hex h) = Inr h"
proof (induction h)
  case Nil
  then show ?case by (simp add: hash_to_hex_def)
next
  case (Cons b h)
  have v: "stoul16 [hex_digits ! (unat b div 16), hex_digits ! (unat b mod 16)]
      = Some (word_of_nat (unat b))"
    by (simp add: stoul16_digits div_mult_mod_eq del: unsigned_of_nat of_nat_add of_nat_mult)
  have "(ucast (word_of_nat (unat b) :: u64) :: u8) = b"
    by (simp add: unsigned_ucast_eq ucast_up_ucast_id is_up take_bit_word_eq_self)
  with Cons v show ?case
    by (simp add: hash_to_hex_def)
qed

lemma hash_to_hex_inject: "hash_to_hex h = hash_to_hex h' \<Longrightarrow> h = h'"
  by (metis Inr_inject hex_pairs_hash_to_hex)

lemma length_hash_to_hex [simp]: "length (hash_to_hex h) = 2 * length h"
  by (induction h) (simp_all add: hash_to_hex_def)

lemma length_hex_pairs: "hex_pairs s = Inr bs \<Longrightarrow> length bs = length s div 2"
  by (induction s arbitrary: bs rule: hex_pairs.induct) (auto split: option.splits sum.splits)

lemma hex_digits_nth: "c \<in> set hex_digits \<Longrightarrow> \<exists>n < 16. c = hex_digits ! n"
proof -
  assume "c \<in> set hex_digits"
  then obtain n where "n < length hex_digits" "c = hex_digits ! n" by (metis in_set_conv_nth)
  moreover have "length hex_digits = 16" by (simp add: hex_digits_def)
  ultimately show ?thesis by auto
qed

lemma hash_to_hex_hex_pairs:
  "set s \<subseteq> set hex_digits \<Longrightarrow> even (length s) \<Longrightarrow>
   \<exists>bs. hex_pairs s = Inr bs \<and> hash_to_hex bs = s"
proof (induction s rule: hex_pairs.induct)
  case (1 a b r)
  from "1.prems" obtain m n where mn: "m < 16" "n < 16" "a = hex_digits ! m" "b = hex_digits ! n"
    by (auto dest!: hex_digits_nth)
  from mn have v: "stoul16 [a, b] = Some (word_of_nat (m * 16 + n))"
    by (simp add: stoul16_digits)
  from 1 v obtain bs where bs: "hex_pairs r = Inr bs" "hash_to_hex bs = r" by auto
  have u: "unat (ucast (word_of_nat (m * 16 + n) :: u64) :: u8) = m * 16 + n"
    using mn by (simp add: unsigned_ucast_eq take_bit_nat_eq_self unsigned_of_nat
        del: of_nat_add of_nat_mult)
  have "hash_to_hex (ucast (word_of_nat (m * 16 + n) :: u64) # bs) = a # b # r"
    using bs(2) mn u by (simp add: hash_to_hex_def del: of_nat_add of_nat_mult)
  with v bs show ?case by simp
qed (simp_all add: hash_to_hex_def)

section \<open>Base64: lemmas\<close>

lemma b64_alphabet:
  "list_all (\<lambda>n. b64_find (base64_chars ! n) = word_of_nat n \<and> is_base64 (base64_chars ! n) \<and>
     base64_chars ! n \<noteq> CHR ''='') [0..<64]"
  by code_simp

lemma b64_alphabet_nth:
  assumes "n < 64"
  shows "b64_find (base64_chars ! n) = word_of_nat n" "is_base64 (base64_chars ! n)"
    "base64_chars ! n \<noteq> CHR ''=''"
  using b64_alphabet assms by (auto simp: list_all_iff)

lemma low_bits:
  "(x :: u8) AND 0x3f = take_bit 6 x" "(x :: u8) AND 0x0f = take_bit 4 x"
  "(x :: u8) AND 0x03 = take_bit 2 x"
  by (simp_all add: take_bit_eq_mask mask_eq_exp_minus_1)

lemma high_bits:
  "drop_bit 2 ((x :: u8) AND 0xfc) = take_bit 6 (drop_bit 2 x)"
  "drop_bit 4 ((x :: u8) AND 0xf0) = take_bit 4 (drop_bit 4 x)"
  "drop_bit 6 ((x :: u8) AND 0xc0) = take_bit 2 (drop_bit 6 x)"
  "drop_bit 4 ((x :: u8) AND 0x30) = take_bit 2 (drop_bit 4 x)"
  "drop_bit 2 ((x :: u8) AND 0x3c) = take_bit 4 (drop_bit 2 x)"
  by (simp_all add: drop_bit_and low_bits [symmetric])

lemma unat_drop_u8: "unat (drop_bit n (x :: u8)) = unat x div 2 ^ n"
  by (simp only: unsigned_drop_bit_eq) (simp add: drop_bit_eq_div take_bit_eq_mod)

lemma unat_take_u8: "unat (take_bit n (x :: u8)) = unat x mod 2 ^ n"
  by (simp only: unsigned_take_bit_eq) (simp add: take_bit_eq_mod)

lemma unat_push_u8: "unat (push_bit n (x :: u8)) = unat x * 2 ^ n mod 256"
  by (simp only: unsigned_push_bit_eq) (simp add: push_bit_eq_mult take_bit_eq_mod)

lemmas unat_u8_ops = unat_drop_u8 unat_take_u8 unat_push_u8 unat_word_ariths

lemma b64_quad_unat:
  "map unat (b64_quad a b c) =
     [unat a div 4, unat a mod 4 * 16 + unat b div 16, unat b mod 16 * 4 + unat c div 64,
      unat c mod 64]"
proof -
  have fits: "A div 4 mod 64 = A div 4" "A div 16 mod 16 = A div 16" "A div 64 mod 4 = A div 64"
    "A mod 4 * 16 mod 256 = A mod 4 * 16" "A mod 16 * 4 mod 256 = A mod 16 * 4"
    if "A < 256" for A :: nat
    using that by (simp_all add: less_mult_imp_div_less)
  have sums: "(A mod 4 * 16 + B div 16) mod 256 = A mod 4 * 16 + B div 16"
    "(A mod 16 * 4 + B div 64) mod 256 = A mod 16 * 4 + B div 64"
    if "B < 256" for A B :: nat
  proof -
    have "A mod 4 * 16 \<le> 48" "B div 16 < 16" "A mod 16 * 4 \<le> 60" "B div 64 < 4"
      using that by (simp_all add: less_mult_imp_div_less mod_less_eq_dividend)
    then show "(A mod 4 * 16 + B div 16) mod 256 = A mod 4 * 16 + B div 16"
      "(A mod 16 * 4 + B div 64) mod 256 = A mod 16 * 4 + B div 64" by simp_all
  qed
  show ?thesis
    by (simp add: b64_quad_def low_bits high_bits unat_u8_ops fits sums)
qed

lemma b64_triple_unat:
  assumes "unat x < 64" "unat y < 64" "unat z < 64" "unat w < 64"
  shows "map unat (b64_triple x y z w) =
     [unat x * 4 + unat y div 16, unat y mod 16 * 16 + unat z div 4, unat z mod 4 * 64 + unat w]"
  using assms by (simp add: b64_triple_def low_bits high_bits unat_u8_ops)

lemma radix_mod: "q < k \<Longrightarrow> (x * k + q) mod (k * m) = x mod m * k + q" for q k m :: nat
  by (simp add: mod_mult2_eq)

lemma radix_less: "q < k \<Longrightarrow> 0 < m \<Longrightarrow> x mod m * k + q < m * k" for q k m :: nat
proof -
  assume "q < k" "0 < m"
  then have "x mod m * k + q < Suc (x mod m) * k" by simp
  also have "\<dots> \<le> m * k" using \<open>0 < m\<close> by (intro mult_le_mono1) (simp add: Suc_leI)
  finally show ?thesis .
qed

lemma group24_digits:
  "group24 a b c div 64 ^ 3 mod 64 = unat a div 4"
  "group24 a b c div 64 ^ 2 mod 64 = unat a mod 4 * 16 + unat b div 16"
  "group24 a b c div 64 ^ 1 mod 64 = unat b mod 16 * 4 + unat c div 64"
  "group24 a b c mod 64 = unat c mod 64"
proof -
  define A B C where abc: "A = unat a" "B = unat b" "C = unat c"
  have lt: "A < 256" "B < 256" "C < 256" by (simp_all add: abc)
  have g: "group24 a b c = A * 65536 + B * 256 + C" by (simp add: group24_def abc)
  have t3: "(A * 65536 + B * 256 + C) div 65536 = A" using lt by (intro div_nat_eqI) simp_all
  have t2: "(A * 65536 + B * 256 + C) div 256 = A * 256 + B" using lt by (intro div_nat_eqI) simp_all
  have "group24 a b c div 64 ^ 3 = group24 a b c div 65536 div 4"
    by (simp add: div_mult2_eq [symmetric])
  then show "group24 a b c div 64 ^ 3 mod 64 = unat a div 4"
    using lt by (simp add: g t3 abc [symmetric])
  have "group24 a b c div 64 ^ 2 = group24 a b c div 256 div 16"
    by (simp add: div_mult2_eq [symmetric])
  also have "\<dots> = A * 16 + B div 16" by (simp add: g t2)
  finally show "group24 a b c div 64 ^ 2 mod 64 = unat a mod 4 * 16 + unat b div 16"
    using lt radix_mod [of "B div 16" 16 A 4]
    by (simp add: abc [symmetric] less_mult_imp_div_less)
  have "(A * 65536 + B * 256 + C) div 64 = A * 1024 + B * 4 + C div 64" by simp
  moreover have "A * 1024 + B * 4 + C div 64 = (A * 256 + B) * 4 + C div 64" by simp
  moreover have "(A * 256 + B) mod 16 = B mod 16" by (simp add: mod_add_eq [symmetric])
  ultimately show "group24 a b c div 64 ^ 1 mod 64 = unat b mod 16 * 4 + unat c div 64"
    using lt radix_mod [of "C div 64" 4 "A * 256 + B" 16]
    by (simp add: g abc [symmetric] less_mult_imp_div_less)
  have "A * 65536 + B * 256 + C = C + (A * 1024 + B * 4) * 64" by simp
  then show "group24 a b c mod 64 = unat c mod 64"
    by (simp only: g abc [symmetric] mod_mult_self1)
qed

lemma b64_emit_quad:
  "b64_emit (b64_quad a b c) = map (sextet (group24 a b c)) [0, 1, 2, 3]"
proof -
  have "b64_emit (b64_quad a b c) = map (\<lambda>n. base64_chars ! n) (map unat (b64_quad a b c))"
    by (simp add: b64_emit_def)
  then show ?thesis
    using group24_digits [of a b c] by (simp add: b64_quad_unat sextet_def)
qed

lemma b64_emit_take: "b64_emit (take n xs) = take n (b64_emit xs)"
  by (simp add: b64_emit_def take_map)

lemma b64_encode_eq: "b64_encode_tail (b64_encode_loop [] res data) = res @ rfc4648 data"
  by (induction data arbitrary: res rule: rfc4648.induct)
    (simp_all add: Let_def b64_emit_quad b64_emit_take numeral_2_eq_2)

lemma map_unat_inject: "map unat xs = map unat ys \<longleftrightarrow> xs = (ys :: u8 list)"
  by (rule inj_map_eq_map) (auto simp: inj_on_def word_unat_eq_iff)

lemma b64_triple_quad:
  "b64_triple (b64_quad a b c ! 0) (b64_quad a b c ! 1) (b64_quad a b c ! 2) (b64_quad a b c ! 3)
   = [a, b, c]"
proof -
  let ?q = "b64_quad a b c"
  have len: "length ?q = 4" by (simp add: b64_quad_def)
  have lt: "unat a < 256" "unat b < 256" "unat c < 256" by simp_all
  have q: "unat (?q ! 0) = unat a div 4" "unat (?q ! 1) = unat a mod 4 * 16 + unat b div 16"
    "unat (?q ! 2) = unat b mod 16 * 4 + unat c div 64" "unat (?q ! 3) = unat c mod 64"
    using arg_cong [OF b64_quad_unat [of a b c], of "\<lambda>xs. xs ! 0"]
      arg_cong [OF b64_quad_unat [of a b c], of "\<lambda>xs. xs ! 1"]
      arg_cong [OF b64_quad_unat [of a b c], of "\<lambda>xs. xs ! 2"]
      arg_cong [OF b64_quad_unat [of a b c], of "\<lambda>xs. xs ! 3"] len
    by (simp_all add: nth_map)
  have b: "unat (?q ! 0) < 64" "unat (?q ! 1) < 64" "unat (?q ! 2) < 64" "unat (?q ! 3) < 64"
    unfolding q using lt radix_less [of "unat b div 16" 16 4 "unat a"]
      radix_less [of "unat c div 64" 4 16 "unat b"]
    by (simp_all add: less_mult_imp_div_less)
  have ta: "unat a div 4 * 4 + (unat a mod 4 * 16 + unat b div 16) div 16 = unat a"
    using lt by (simp add: div_mult_mod_eq less_mult_imp_div_less)
  have "(unat a mod 4 * 16 + unat b div 16) mod 16 = unat b div 16"
    using lt by (simp add: less_mult_imp_div_less)
  moreover have "(unat b mod 16 * 4 + unat c div 64) div 4 = unat b mod 16"
    using lt by (simp add: less_mult_imp_div_less)
  ultimately have tb: "(unat a mod 4 * 16 + unat b div 16) mod 16 * 16 +
      (unat b mod 16 * 4 + unat c div 64) div 4 = unat b"
    by (simp only: div_mult_mod_eq)
  have "(unat b mod 16 * 4 + unat c div 64) mod 4 = unat c div 64"
    using lt by (simp add: less_mult_imp_div_less)
  then have tc: "(unat b mod 16 * 4 + unat c div 64) mod 4 * 64 + unat c mod 64 = unat c"
    by (simp only: div_mult_mod_eq)
  have "map unat (b64_triple (?q ! 0) (?q ! 1) (?q ! 2) (?q ! 3)) = map unat [a, b, c]"
    unfolding b64_triple_unat [OF b] unfolding q by (simp only: ta tb tc list.map)
  then show ?thesis by (simp only: map_unat_inject)
qed

lemma b64_quad_less: "x \<in> set (b64_quad a b c) \<Longrightarrow> unat x < 64"
proof -
  assume "x \<in> set (b64_quad a b c)"
  then have "unat x \<in> set (map unat (b64_quad a b c))" by simp
  then show ?thesis
    using radix_less [of "unat b div 16" 16 4 "unat a"] radix_less [of "unat c div 64" 4 16 "unat b"]
    unfolding b64_quad_unat by (auto simp: less_mult_imp_div_less)
qed

lemma b64_alphabet_char:
  assumes "unat x < 64"
  shows "b64_find (base64_chars ! unat x) = x" "is_base64 (base64_chars ! unat x)"
    "base64_chars ! unat x \<noteq> CHR ''=''"
  using b64_alphabet_nth [OF assms] by simp_all

lemma b64_quad_nth: "b64_quad a b c =
   [b64_quad a b c ! 0, b64_quad a b c ! 1, b64_quad a b c ! 2, b64_quad a b c ! 3]"
  by (simp add: b64_quad_def)

lemma b64_decode_emit:
  "b64_decode_loop [] res (b64_emit (b64_quad a b c) @ cs) = b64_decode_loop [] (res @ [a, b, c]) cs"
proof -
  let ?q = "b64_quad a b c"
  have less: "unat (?q ! 0) < 64" "unat (?q ! 1) < 64" "unat (?q ! 2) < 64" "unat (?q ! 3) < 64"
    by (auto intro!: b64_quad_less [of _ a b c] nth_mem simp: b64_quad_def)
  have "b64_emit ?q = map (\<lambda>x. base64_chars ! unat x) [?q ! 0, ?q ! 1, ?q ! 2, ?q ! 3]"
    unfolding b64_emit_def by (subst b64_quad_nth) (rule refl)
  then show ?thesis
    using b64_alphabet_char [OF less(1)] b64_alphabet_char [OF less(2)]
      b64_alphabet_char [OF less(3)] b64_alphabet_char [OF less(4)] b64_triple_quad [of a b c]
    by (simp add: Let_def)
qed

lemma b64_triple_take:
  "take 1 (b64_triple x y 0 0) = take 1 (b64_triple x y z w)"
  "take 2 (b64_triple x y z 0) = take 2 (b64_triple x y z w)"
  by (simp_all add: b64_triple_def)

lemma b64_decode_emit_short:
  assumes "n = 1 \<or> n = 2"
  shows "b64_decode_tail (b64_decode_loop [] res (take (Suc n) (b64_emit (b64_quad a b c)) @ CHR ''='' # cs))
    = res @ take n [a, b, c]"
proof -
  let ?q = "b64_quad a b c"
  have less: "unat (?q ! 0) < 64" "unat (?q ! 1) < 64" "unat (?q ! 2) < 64"
    by (auto intro!: b64_quad_less [of _ a b c] nth_mem simp: b64_quad_def)
  have e: "b64_emit ?q = map (\<lambda>x. base64_chars ! unat x) [?q ! 0, ?q ! 1, ?q ! 2, ?q ! 3]"
    unfolding b64_emit_def by (subst b64_quad_nth) (rule refl)
  note t = b64_triple_take(1) [of "?q ! 0" "?q ! 1" "?q ! 2" "?q ! 3"]
    b64_triple_take(2) [of "?q ! 0" "?q ! 1" "?q ! 2" "?q ! 3"]
  have t1: "take 1 (b64_triple (?q ! 0) (?q ! 1) 0 0) = [a]"
    and t2: "take 2 (b64_triple (?q ! 0) (?q ! 1) (?q ! 2) 0) = [a, b]"
    unfolding t b64_triple_quad by simp_all
  from assms show ?thesis
  proof
    assume "n = 1"
    then show ?thesis
      using b64_alphabet_char [OF less(1)] b64_alphabet_char [OF less(2)] t1
      by (simp add: e Let_def numeral_2_eq_2)
  next
    assume "n = 2"
    then show ?thesis
      using b64_alphabet_char [OF less(1)] b64_alphabet_char [OF less(2)]
        b64_alphabet_char [OF less(3)] t2
      by (simp add: e Let_def numeral_2_eq_2)
  qed
qed

lemma b64_decode_rfc: "b64_decode_tail (b64_decode_loop [] res (rfc4648 data)) = res @ data"
proof (induction data arbitrary: res rule: rfc4648.induct)
  case 1
  then show ?case by simp
next
  case (2 a)
  have "map (sextet (group24 a 0 0)) [0, 1] = take (Suc 1) (b64_emit (b64_quad a 0 0))"
    by (simp add: b64_emit_quad)
  then show ?case using b64_decode_emit_short [of 1 res a 0 0 "''=''"] by simp
next
  case (3 a b)
  have "map (sextet (group24 a b 0)) [0, 1, 2] = take (Suc 2) (b64_emit (b64_quad a b 0))"
    by (simp add: b64_emit_quad)
  then show ?case using b64_decode_emit_short [of 2 res a b 0 "[]"] by simp
next
  case (4 a b c r)
  then show ?case
    using b64_decode_emit [of res a b c "rfc4648 r"] by (simp add: b64_emit_quad)
qed

section \<open>Properties\<close>

text \<open>
  printing a 32-byte hash as hexadecimal and reading it back returns the hash.
\<close>

theorem hex_to_hash_of_hash_to_hex:
  "length h = 32 \<Longrightarrow> hex_to_hash (hash_to_hex h) = Inr h"
  by (simp add: hex_to_hash_def hex_pairs_hash_to_hex)

theorem hex_to_hash_of_hash_to_hex_witness:
  "length (replicate 32 (0xAB :: u8)) = 32 \<and>
   hex_to_hash (hash_to_hex (replicate 32 0xAB)) = Inr (replicate 32 0xAB)"
  using hex_to_hash_of_hash_to_hex [of "replicate 32 0xAB"] by simp

text \<open>
  on a string of exactly 64 lower-case hexadecimal digits \<open>hex_to_hash\<close> succeeds with a
  32-byte hash that prints as the same string.
\<close>

theorem hash_to_hex_of_hex_to_hash:
  assumes "length s = 64" "set s \<subseteq> set hex_digits"
  shows "\<exists>h. hex_to_hash s = Inr h \<and> length h = 32 \<and> hash_to_hex h = s"
  using hash_to_hex_hex_pairs [OF assms(2)] assms(1)
  by (auto simp: hex_to_hash_def dest: length_hex_pairs)

theorem hash_to_hex_of_hex_to_hash_witness:
  "\<exists>h. hex_to_hash (replicate 64 (CHR ''a'')) = Inr h \<and> length h = 32 \<and>
     hash_to_hex h = replicate 64 (CHR ''a'')"
  by (rule hash_to_hex_of_hex_to_hash) (simp_all add: hex_digits_def)

text \<open>
  \<open>hex_to_hash\<close> is laxer than a hexadecimal parser: it accepts the 64 characters
  \<open>-1-1...-1\<close>, none of whose pairs is a hexadecimal byte, and returns the hash of all
  \<open>0xff\<close> bytes, the same as for the proper spelling \<open>ff...ff\<close>; so two different strings
  name one identifier.
\<close>

theorem hex_to_hash_accepts_signs:
  "hex_to_hash (concat (replicate 32 ''-1'')) = Inr (replicate 32 0xff) \<and>
   hex_to_hash (concat (replicate 32 ''ff'')) = Inr (replicate 32 0xff)"
  by code_simp

text \<open>
  \<open>base64_encode\<close> computes the base64 encoding of RFC 4648 (padding included) on every
  byte string.
\<close>

theorem base64_encode_rfc4648: "base64_encode data = rfc4648 data"
  by (simp add: base64_encode_def b64_encode_eq)

text \<open>
  \<open>base64_decode\<close> inverts \<open>base64_encode\<close> on every byte string.
\<close>

theorem base64_decode_encode: "base64_decode (base64_encode data) = data"
  by (simp add: base64_encode_def base64_decode_def b64_encode_eq b64_decode_rfc)

end
