(* ===== verification/Serialization.thy ===== *)
theory Serialization
  imports Common
begin

text \<open>
  \<open>Serializable\<close> and \<open>BinarySerializer\<close> of \<open>src/utils/serialization.cpp\<close>: the tagged values
  that messages are built from, their accessors, and the binary format.

  A signed integer and a double are the words with the same bits. The offset of the decoder
  is a position in the input; the bounds checks of strings and binary data are in 64-bit
  arithmetic, as in the code. Creating a string or vector whose length does not fit the
  address space throws \<open>std::length_error\<close>; whether \<open>reserve\<close> gets the memory for an array of a
  given length is the parameter \<open>rsv\<close>. The decoder recurses once per nesting level; the
  recursion has a fuel argument, and \<open>None\<close> means that it ran out. \<open>deserialize\<close> gives it more
  fuel than the input has bytes, which is always enough.
\<close>

datatype Serializable =
    SNull
  | SBool bool
  | SInt u64
  | SUInt u64
  | SFloat u64
  | SString string
  | SBinary bytes
  | SArray "Serializable list"
  | SMap "(string \<times> Serializable) list"

datatype SerializableType = TNull | TBool | TInt | TUInt | TFloat | TString | TBinary | TArray | TMap

datatype ser_error = NotTheType | OutOfRange | EndOfData | UnknownType | LengthError | AllocFailed

section \<open>Serializable\<close>

fun ser_type :: "Serializable \<Rightarrow> SerializableType" where
  "ser_type SNull = TNull"
| "ser_type (SBool _) = TBool"
| "ser_type (SInt _) = TInt"
| "ser_type (SUInt _) = TUInt"
| "ser_type (SFloat _) = TFloat"
| "ser_type (SString _) = TString"
| "ser_type (SBinary _) = TBinary"
| "ser_type (SArray _) = TArray"
| "ser_type (SMap _) = TMap"

definition as_bool :: "Serializable \<Rightarrow> ser_error + bool" where
  "as_bool s = (case s of SBool b \<Rightarrow> Inr b | _ \<Rightarrow> Inl NotTheType)"

definition as_int :: "Serializable \<Rightarrow> ser_error + u64" where
  "as_int s = (case s of SInt i \<Rightarrow> Inr i | _ \<Rightarrow> Inl NotTheType)"

definition as_uint :: "Serializable \<Rightarrow> ser_error + u64" where
  "as_uint s = (case s of SUInt i \<Rightarrow> Inr i | _ \<Rightarrow> Inl NotTheType)"

definition as_float :: "Serializable \<Rightarrow> ser_error + u64" where
  "as_float s = (case s of SFloat d \<Rightarrow> Inr d | _ \<Rightarrow> Inl NotTheType)"

definition as_string :: "Serializable \<Rightarrow> ser_error + string" where
  "as_string s = (case s of SString x \<Rightarrow> Inr x | _ \<Rightarrow> Inl NotTheType)"

definition as_binary :: "Serializable \<Rightarrow> ser_error + bytes" where
  "as_binary s = (case s of SBinary b \<Rightarrow> Inr b | _ \<Rightarrow> Inl NotTheType)"

definition as_array :: "Serializable \<Rightarrow> ser_error + Serializable list" where
  "as_array s = (case s of SArray xs \<Rightarrow> Inr xs | _ \<Rightarrow> Inl NotTheType)"

definition as_map :: "Serializable \<Rightarrow> ser_error + (string \<times> Serializable) list" where
  "as_map s = (case s of SMap m \<Rightarrow> Inr m | _ \<Rightarrow> Inl NotTheType)"

text \<open>
  The non-const subscripts return a reference; what they leave in the container before the
  caller assigns through it, and the assignment itself, are separate functions.
\<close>

definition index_ref :: "nat \<Rightarrow> Serializable \<Rightarrow> Serializable list" where
  "index_ref i s =
     (let arr = (case s of SArray xs \<Rightarrow> xs | _ \<Rightarrow> []) in
      if i \<ge> length arr then arr @ replicate (i + 1 - length arr) SNull else arr)"

definition set_index :: "nat \<Rightarrow> Serializable \<Rightarrow> Serializable \<Rightarrow> Serializable" where
  "set_index i v s = SArray ((index_ref i s)[i := v])"

definition at_index :: "Serializable \<Rightarrow> nat \<Rightarrow> ser_error + Serializable" where
  "at_index s i =
     (case s of
        SArray arr \<Rightarrow> if i \<ge> length arr then Inl OutOfRange else Inr (arr ! i)
      | _ \<Rightarrow> Inl NotTheType)"

definition key_ref :: "string \<Rightarrow> Serializable \<Rightarrow> (string \<times> Serializable) list" where
  "key_ref k s = omap_insert k SNull (case s of SMap m \<Rightarrow> m | _ \<Rightarrow> [])"

definition set_key :: "string \<Rightarrow> Serializable \<Rightarrow> Serializable \<Rightarrow> Serializable" where
  "set_key k v s = SMap (omap_set k v (key_ref k s))"

definition at_key :: "Serializable \<Rightarrow> string \<Rightarrow> ser_error + Serializable" where
  "at_key s k =
     (case s of
        SMap m \<Rightarrow> (case map_of m k of None \<Rightarrow> Inl OutOfRange | Some v \<Rightarrow> Inr v)
      | _ \<Rightarrow> Inl NotTheType)"

definition ser_push_back :: "Serializable \<Rightarrow> Serializable \<Rightarrow> Serializable" where
  "ser_push_back v s = SArray ((case s of SArray xs \<Rightarrow> xs | _ \<Rightarrow> []) @ [v])"

definition ser_size :: "Serializable \<Rightarrow> nat" where
  "ser_size s = (case s of SArray xs \<Rightarrow> length xs | SMap m \<Rightarrow> length m | _ \<Rightarrow> 0)"

section \<open>Encoding\<close>

fun encode_type :: "SerializableType \<Rightarrow> bytes" where
  "encode_type TNull = [0]"
| "encode_type TBool = [1]"
| "encode_type TInt = [2]"
| "encode_type TUInt = [3]"
| "encode_type TFloat = [4]"
| "encode_type TString = [5]"
| "encode_type TBinary = [6]"
| "encode_type TArray = [7]"
| "encode_type TMap = [8]"

definition encode_int :: "u64 \<Rightarrow> bytes" where
  "encode_int v = map (\<lambda>i. ucast (signed_drop_bit (i * 8) v AND 0xFF)) [0..<8]"

definition encode_uint :: "u64 \<Rightarrow> bytes" where
  "encode_uint v = map (\<lambda>i. ucast (drop_bit (i * 8) v AND 0xFF)) [0..<8]"

definition encode_float :: "u64 \<Rightarrow> bytes" where
  "encode_float bits = encode_uint bits"

definition encode_string :: "string \<Rightarrow> bytes" where
  "encode_string v = encode_uint (word_of_nat (length v)) @ bytes_of_string v"

definition encode_binary :: "bytes \<Rightarrow> bytes" where
  "encode_binary v = encode_uint (word_of_nat (length v)) @ v"

fun serialize :: "Serializable \<Rightarrow> bytes"
  and serialize_items :: "Serializable list \<Rightarrow> bytes"
  and serialize_entries :: "(string \<times> Serializable) list \<Rightarrow> bytes" where
  "serialize SNull = encode_type TNull"
| "serialize (SBool b) = encode_type TBool @ [if b then 1 else 0]"
| "serialize (SInt i) = encode_type TInt @ encode_int i"
| "serialize (SUInt i) = encode_type TUInt @ encode_uint i"
| "serialize (SFloat d) = encode_type TFloat @ encode_float d"
| "serialize (SString x) = encode_type TString @ encode_string x"
| "serialize (SBinary x) = encode_type TBinary @ encode_binary x"
| "serialize (SArray xs) = encode_type TArray @ encode_uint (word_of_nat (length xs)) @ serialize_items xs"
| "serialize (SMap m) = encode_type TMap @ encode_uint (word_of_nat (length m)) @ serialize_entries m"
| "serialize_items [] = []"
| "serialize_items (v # vs) = serialize v @ serialize_items vs"
| "serialize_entries [] = []"
| "serialize_entries ((k, v) # es) = encode_string k @ serialize v @ serialize_entries es"

section \<open>Decoding\<close>

text \<open>A decoding step returns the error it throws, or a value and the next offset.\<close>

type_synonym 'a decoded = "(ser_error + 'a \<times> nat) option"

definition fail :: "ser_error \<Rightarrow> 'a decoded" where
  "fail err = Some (Inl err)"

definition yield :: "'a \<Rightarrow> nat \<Rightarrow> 'a decoded" where
  "yield v off = Some (Inr (v, off))"

definition and_then :: "'a decoded \<Rightarrow> ('a \<Rightarrow> nat \<Rightarrow> 'b decoded) \<Rightarrow> 'b decoded" where
  "and_then r f = (case r of None \<Rightarrow> None | Some (Inl err) \<Rightarrow> Some (Inl err) | Some (Inr (v, off)) \<Rightarrow> f v off)"

definition decode_uint :: "bytes \<Rightarrow> nat \<Rightarrow> u64 decoded" where
  "decode_uint inp off =
     (if off + 8 > length inp then fail EndOfData else yield (le_word (slice off 8 inp)) (off + 8))"

definition decode_int :: "bytes \<Rightarrow> nat \<Rightarrow> u64 decoded" where
  "decode_int inp off =
     (if off + 8 > length inp then fail EndOfData else yield (le_word (slice off 8 inp)) (off + 8))"

definition decode_float :: "bytes \<Rightarrow> nat \<Rightarrow> u64 decoded" where
  "decode_float inp off = decode_uint inp off"

definition decode_binary :: "bytes \<Rightarrow> nat \<Rightarrow> bytes decoded" where
  "decode_binary inp off0 = and_then (decode_uint inp off0) (\<lambda>len off.
     if word_of_nat off + len > (word_of_nat (length inp) :: u64) then fail EndOfData
     else if off + unat len > length inp then fail LengthError
     else yield (slice off (unat len) inp) (off + unat len))"

definition decode_string :: "bytes \<Rightarrow> nat \<Rightarrow> string decoded" where
  "decode_string inp off0 = and_then (decode_uint inp off0) (\<lambda>len off.
     if word_of_nat off + len > (word_of_nat (length inp) :: u64) then fail EndOfData
     else if off + unat len > length inp then fail LengthError
     else yield (string_of_bytes (slice off (unat len) inp)) (off + unat len))"

function (sequential) decode_value :: "(u64 \<Rightarrow> bool) \<Rightarrow> nat \<Rightarrow> bytes \<Rightarrow> nat \<Rightarrow> Serializable decoded"
  and decode_items :: "(u64 \<Rightarrow> bool) \<Rightarrow> nat \<Rightarrow> nat \<Rightarrow> bytes \<Rightarrow> nat \<Rightarrow> Serializable list decoded"
  and decode_entries :: "(u64 \<Rightarrow> bool) \<Rightarrow> nat \<Rightarrow> nat \<Rightarrow> bytes \<Rightarrow> nat \<Rightarrow> (string \<times> Serializable) list
    \<Rightarrow> (string \<times> Serializable) list decoded" where
  "decode_value rsv 0 inp off = None"
| "decode_value rsv (Suc fuel) inp off =
     (if off \<ge> length inp then fail EndOfData
      else if inp ! off = 0 then yield SNull (off + 1)
      else if inp ! off = 1 then
        (if off + 1 \<ge> length inp then fail EndOfData else yield (SBool (inp ! (off + 1) \<noteq> 0)) (off + 2))
      else if inp ! off = 2 then and_then (decode_int inp (off + 1)) (\<lambda>v. yield (SInt v))
      else if inp ! off = 3 then and_then (decode_uint inp (off + 1)) (\<lambda>v. yield (SUInt v))
      else if inp ! off = 4 then and_then (decode_float inp (off + 1)) (\<lambda>v. yield (SFloat v))
      else if inp ! off = 5 then and_then (decode_string inp (off + 1)) (\<lambda>v. yield (SString v))
      else if inp ! off = 6 then and_then (decode_binary inp (off + 1)) (\<lambda>v. yield (SBinary v))
      else if inp ! off = 7 then
        and_then (decode_uint inp (off + 1)) (\<lambda>len o1.
          if \<not> rsv len then fail AllocFailed
          else and_then (decode_items rsv fuel (unat len) inp o1) (\<lambda>v. yield (SArray v)))
      else if inp ! off = 8 then
        and_then (decode_uint inp (off + 1)) (\<lambda>len o1.
          and_then (decode_entries rsv fuel (unat len) inp o1 []) (\<lambda>v. yield (SMap v)))
      else fail UnknownType)"
| "decode_items rsv fuel 0 inp off = yield [] off"
| "decode_items rsv fuel (Suc n) inp off =
     and_then (decode_value rsv fuel inp off) (\<lambda>v o1.
       and_then (decode_items rsv fuel n inp o1) (\<lambda>vs. yield (v # vs)))"
| "decode_entries rsv fuel 0 inp off m = yield m off"
| "decode_entries rsv fuel (Suc n) inp off m =
     and_then (decode_string inp off) (\<lambda>k o1.
       and_then (decode_value rsv fuel inp o1) (\<lambda>v o2.
         decode_entries rsv fuel n inp o2 (omap_set k v m)))"
  by pat_completeness auto

termination
  by (relation "measures [
      \<lambda>x. case x of Inl (rsv, fuel, inp, off) \<Rightarrow> 2 * fuel | Inr (Inl (rsv, fuel, n, inp, off)) \<Rightarrow> 2 * fuel + 1
        | Inr (Inr (rsv, fuel, n, inp, off, m)) \<Rightarrow> 2 * fuel + 1,
      \<lambda>x. case x of Inl _ \<Rightarrow> 0 | Inr (Inl (rsv, fuel, n, inp, off)) \<Rightarrow> n | Inr (Inr (rsv, fuel, n, inp, off, m)) \<Rightarrow> n]")
    simp_all

definition deserialize :: "(u64 \<Rightarrow> bool) \<Rightarrow> bytes \<Rightarrow> (ser_error + Serializable) option" where
  "deserialize rsv data =
     map_option (map_sum id fst) (decode_value rsv (Suc (length data)) data 0)"

section \<open>Well-formed values\<close>

text \<open>Maps in key order, and memory for every array.\<close>

fun wf_ser :: "(u64 \<Rightarrow> bool) \<Rightarrow> Serializable \<Rightarrow> bool"
  and wf_items :: "(u64 \<Rightarrow> bool) \<Rightarrow> Serializable list \<Rightarrow> bool"
  and wf_entries :: "(u64 \<Rightarrow> bool) \<Rightarrow> (string \<times> Serializable) list \<Rightarrow> bool" where
  "wf_ser rsv (SArray xs) \<longleftrightarrow> rsv (word_of_nat (length xs)) \<and> wf_items rsv xs"
| "wf_ser rsv (SMap m) \<longleftrightarrow> omap_ok m \<and> wf_entries rsv m"
| "wf_ser rsv _ \<longleftrightarrow> True"
| "wf_items rsv [] \<longleftrightarrow> True"
| "wf_items rsv (v # vs) \<longleftrightarrow> wf_ser rsv v \<and> wf_items rsv vs"
| "wf_entries rsv [] \<longleftrightarrow> True"
| "wf_entries rsv ((k, v) # es) \<longleftrightarrow> wf_ser rsv v \<and> wf_entries rsv es"

section \<open>Encoding of integers and strings\<close>

lemma byte_mask: "ucast (w AND 0xFF) = (ucast w :: u8)" for w :: u64
proof -
  have "(0xFF :: u64) = mask 8" by (simp add: mask_eq_exp_minus_1)
  then have "ucast (w AND 0xFF) = (ucast (w AND mask 8) :: u8)" by (rule arg_cong)
  also have "\<dots> = ucast w"
    by (rule bit_word_eqI) (auto simp: bit_ucast_iff bit_and_iff bit_mask_iff simp del: mask_numeral)
  finally show ?thesis .
qed

lemma encode_uint_le_bytes: "encode_uint v = le_bytes 8 v"
  by (simp add: encode_uint_def le_bytes_def byte_mask mult.commute)

lemma encode_int_le_bytes: "encode_int v = le_bytes 8 v"
proof -
  have "ucast (signed_drop_bit (i * 8) v AND 0xFF) = (ucast (drop_bit (8 * i) v) :: u8)" if "i < 8" for i
  proof -
    have "ucast (signed_drop_bit (i * 8) v) = (ucast (drop_bit (8 * i) v) :: u8)"
    proof (rule bit_word_eqI)
      fix n :: nat assume n: "n < LENGTH(8)"
      with that have "8 * i + n < 64" by simp
      with n show "bit (ucast (signed_drop_bit (i * 8) v) :: u8) n \<longleftrightarrow> bit (ucast (drop_bit (8 * i) v) :: u8) n"
        by (auto simp: bit_ucast_iff bit_signed_drop_bit_iff bit_drop_bit_eq mult.commute)
    qed
    then show ?thesis by (simp only: byte_mask)
  qed
  then show ?thesis by (simp add: encode_int_def le_bytes_def)
qed

lemma length_encode [simp]:
  "length (encode_uint w) = 8" "length (encode_int w) = 8" "length (encode_float w) = 8"
  "length (encode_string x) = 8 + length x" "length (encode_binary b) = 8 + length b"
  by (simp_all add: encode_uint_def encode_int_def encode_float_def encode_string_def encode_binary_def)

lemma and_then_simps [simp]:
  "and_then (yield v off) f = f v off" "and_then (fail err) f = fail err" "and_then None f = None"
  by (simp_all add: and_then_def yield_def fail_def)

lemma decode_uint_at:
  "decode_uint (pre @ encode_uint w @ rest) (length pre) = yield w (length pre + 8)"
  by (simp add: decode_uint_def slice_append_skip slice_append_take encode_uint_le_bytes)

lemma decode_int_at:
  "decode_int (pre @ encode_int w @ rest) (length pre) = yield w (length pre + 8)"
  by (simp add: decode_int_def slice_append_skip slice_append_take encode_int_le_bytes)

lemma off_len_ok:
  assumes "off + n \<le> len" "len < 2 ^ 64"
  shows "word_of_nat off + word_of_nat n \<le> (word_of_nat len :: u64)"
proof -
  have "off + n < 2 ^ 64" using assms by linarith
  then have "unat (word_of_nat (off + n) :: u64) = off + n" by (rule unat_of_nat_u64)
  moreover have "unat (word_of_nat len :: u64) = len" using assms(2) by (rule unat_of_nat_u64)
  ultimately show ?thesis
    unfolding word_le_nat_alt of_nat_add [symmetric] using assms(1) by (simp only:)
qed

lemma decode_binary_at:
  assumes "length (pre @ encode_binary b @ rest) < 2 ^ 64"
  shows "decode_binary (pre @ encode_binary b @ rest) (length pre) = yield b (length pre + 8 + length b)"
proof -
  let ?inp = "pre @ encode_binary b @ rest"
  have u: "decode_uint ?inp (length pre) = yield (word_of_nat (length b)) (length pre + 8)"
    using decode_uint_at [of pre "word_of_nat (length b)" "b @ rest"] by (simp add: encode_binary_def)
  have "length b < 2 ^ 64" using assms by simp
  then have n: "unat (word_of_nat (length b) :: u64) = length b" by (rule unat_of_nat_u64)
  have "word_of_nat (length pre + 8) + word_of_nat (length b) \<le> (word_of_nat (length ?inp) :: u64)"
    by (rule off_len_ok [OF _ assms]) simp
  then have "\<not> word_of_nat (length pre + 8) + word_of_nat (length b) > (word_of_nat (length ?inp) :: u64)"
    by simp
  moreover have "slice (length pre + 8) (length b) ?inp = b"
    by (simp add: encode_binary_def slice_append_skip slice_append_take)
  ultimately show ?thesis
    unfolding decode_binary_def u and_then_simps n by (simp only: if_False) simp
qed

lemma decode_string_binary:
  "decode_string inp off = and_then (decode_binary inp off) (\<lambda>b. yield (string_of_bytes b))"
  by (auto simp: decode_string_def decode_binary_def and_then_def yield_def fail_def
      split: option.splits sum.splits)

lemma encode_string_binary: "encode_string x = encode_binary (bytes_of_string x)"
  by (simp add: encode_string_def encode_binary_def)

lemma decode_string_at:
  assumes "length (pre @ encode_string x @ rest) < 2 ^ 64"
  shows "decode_string (pre @ encode_string x @ rest) (length pre) = yield x (length pre + 8 + length x)"
  using decode_binary_at [of pre "bytes_of_string x" rest] assms
  by (simp add: decode_string_binary encode_string_binary)

section \<open>Round trip\<close>

lemma decode_tag:
  "decode_value rsv (Suc fuel) (pre @ t # body) (length pre) =
     (if t = 0 then yield SNull (length pre + 1)
      else if t = 1 then
        (case body of [] \<Rightarrow> fail EndOfData | b # _ \<Rightarrow> yield (SBool (b \<noteq> 0)) (length pre + 2))
      else if t = 2 then and_then (decode_int (pre @ t # body) (length pre + 1)) (\<lambda>v. yield (SInt v))
      else if t = 3 then and_then (decode_uint (pre @ t # body) (length pre + 1)) (\<lambda>v. yield (SUInt v))
      else if t = 4 then and_then (decode_float (pre @ t # body) (length pre + 1)) (\<lambda>v. yield (SFloat v))
      else if t = 5 then and_then (decode_string (pre @ t # body) (length pre + 1)) (\<lambda>v. yield (SString v))
      else if t = 6 then and_then (decode_binary (pre @ t # body) (length pre + 1)) (\<lambda>v. yield (SBinary v))
      else if t = 7 then
        and_then (decode_uint (pre @ t # body) (length pre + 1)) (\<lambda>len o1.
          if \<not> rsv len then fail AllocFailed
          else and_then (decode_items rsv fuel (unat len) (pre @ t # body) o1) (\<lambda>v. yield (SArray v)))
      else if t = 8 then
        and_then (decode_uint (pre @ t # body) (length pre + 1)) (\<lambda>len o1.
          and_then (decode_entries rsv fuel (unat len) (pre @ t # body) o1 []) (\<lambda>v. yield (SMap v)))
      else fail UnknownType)"
proof -
  have "(pre @ t # body) ! length pre = t" "\<not> length pre \<ge> length (pre @ t # body)"
    by simp_all
  moreover have "(if length pre + 1 \<ge> length (pre @ t # body) then fail EndOfData
      else yield (SBool ((pre @ t # body) ! (length pre + 1) \<noteq> 0)) (length pre + 2)) =
      (case body of [] \<Rightarrow> fail EndOfData | b # _ \<Rightarrow> yield (SBool (b \<noteq> 0)) (length pre + 2))"
    by (cases body) (simp_all add: nth_append)
  ultimately show ?thesis by (simp only: decode_value.simps if_False)
qed

lemma after_tag:
  "length (pre @ [t]) = length pre + 1" "(pre @ [t]) @ xs = pre @ t # xs"
  "length pre + 1 + 8 = length pre + 9"
  by simp_all

lemmas uint_after_tag = decode_uint_at [of "pre @ [t]" for pre t, unfolded after_tag]
lemmas int_after_tag = decode_int_at [of "pre @ [t]" for pre t, unfolded after_tag]
lemmas binary_after_tag = decode_binary_at [of "pre @ [t]" for pre t, unfolded after_tag]
lemmas string_after_tag = decode_string_at [of "pre @ [t]" for pre t, unfolded after_tag]

lemma serialize_not_Nil: "1 \<le> length (serialize v)"
  by (cases v) simp_all

lemma length_serialize_items: "length vs \<le> length (serialize_items vs)"
proof (induction vs)
  case (Cons v vs)
  then show ?case using serialize_not_Nil [of v] by simp
qed simp

lemma length_serialize_entries: "length es \<le> length (serialize_entries es)"
proof (induction es)
  case (Cons p es)
  then show ?case by (cases p) simp
qed simp

lemma decode_scalar_at:
  assumes "ser_type v \<noteq> TArray" "ser_type v \<noteq> TMap"
    and "length pre + length (serialize v) + length rest < 2 ^ 64" "length (serialize v) < fuel"
  shows "decode_value rsv fuel (pre @ serialize v @ rest) (length pre) =
    yield v (length pre + length (serialize v))"
proof -
  obtain f where "fuel = Suc f" using assms(4) by (cases fuel) auto
  with assms show ?thesis
    by (cases v) (simp_all add: decode_tag int_after_tag [simplified] uint_after_tag [simplified]
        string_after_tag [simplified] binary_after_tag [simplified] decode_float_def encode_float_def
        add.assoc del: decode_value.simps)
qed

lemma decode_array_at:
  assumes "\<And>p. length p = length pre + 9 \<Longrightarrow>
      decode_items rsv f (length xs) (p @ serialize_items xs @ rest) (length p) =
        yield xs (length p + length (serialize_items xs))"
    and "rsv (word_of_nat (length xs))" "length xs < 2 ^ 64"
  shows "decode_value rsv (Suc f) (pre @ serialize (SArray xs) @ rest) (length pre) =
    yield (SArray xs) (length pre + length (serialize (SArray xs)))"
proof -
  let ?w = "word_of_nat (length xs) :: u64"
  have "unat ?w = length xs" using assms(3) by (rule unat_of_nat_u64)
  moreover have "decode_uint (pre @ 7 # encode_uint ?w @ serialize_items xs @ rest) (length pre + 1) =
      yield ?w (length pre + 9)"
    by (rule uint_after_tag)
  moreover have "decode_items rsv f (length xs) (pre @ 7 # encode_uint ?w @ serialize_items xs @ rest)
      (length pre + 9) = yield xs (length pre + 9 + length (serialize_items xs))"
    using assms(1) [of "pre @ 7 # encode_uint ?w"] by simp
  ultimately show ?thesis using assms(2) by (simp add: decode_tag add.assoc)
qed

lemma decode_map_at:
  assumes "\<And>p. length p = length pre + 9 \<Longrightarrow>
      decode_entries rsv f (length m) (p @ serialize_entries m @ rest) (length p) [] =
        yield m (length p + length (serialize_entries m))"
    and "length m < 2 ^ 64"
  shows "decode_value rsv (Suc f) (pre @ serialize (SMap m) @ rest) (length pre) =
    yield (SMap m) (length pre + length (serialize (SMap m)))"
proof -
  let ?w = "word_of_nat (length m) :: u64"
  have "unat ?w = length m" using assms(2) by (rule unat_of_nat_u64)
  moreover have "decode_uint (pre @ 8 # encode_uint ?w @ serialize_entries m @ rest) (length pre + 1) =
      yield ?w (length pre + 9)"
    by (rule uint_after_tag)
  moreover have "decode_entries rsv f (length m) (pre @ 8 # encode_uint ?w @ serialize_entries m @ rest)
      (length pre + 9) [] = yield m (length pre + 9 + length (serialize_entries m))"
    using assms(1) [of "pre @ 8 # encode_uint ?w"] by simp
  ultimately show ?thesis by (simp add: decode_tag add.assoc)
qed

lemma decode_entry_at:
  assumes "\<And>p. length p = length pre + 8 + length k \<Longrightarrow>
      decode_value rsv fuel (p @ serialize v @ serialize_entries es @ rest) (length p) =
        yield v (length p + length (serialize v))"
    and "\<And>p. length p = length pre + 8 + length k + length (serialize v) \<Longrightarrow>
      decode_entries rsv fuel (length es) (p @ serialize_entries es @ rest) (length p) (m @ [(k, v)]) =
        yield (m @ (k, v) # es) (length p + length (serialize_entries es))"
    and "omap_ok (m @ (k, v) # es)"
    and "length pre + length (serialize_entries ((k, v) # es)) + length rest < 2 ^ 64"
  shows "decode_entries rsv fuel (Suc (length es)) (pre @ serialize_entries ((k, v) # es) @ rest) (length pre) m =
    yield (m @ (k, v) # es) (length pre + length (serialize_entries ((k, v) # es)))"
proof -
  have "decode_string (pre @ serialize_entries ((k, v) # es) @ rest) (length pre) =
      yield k (length pre + 8 + length k)"
    using decode_string_at [of pre k "serialize v @ serialize_entries es @ rest"] assms(4) by simp
  moreover have "omap_set k v m = m @ [(k, v)]"
    using assms(3) by (intro omap_set_last) (auto simp: omap_ok_def sorted_wrt_append)
  ultimately show ?thesis
    using assms(1) [of "pre @ encode_string k"] assms(2) [of "pre @ encode_string k @ serialize v"]
    by (simp add: add.assoc)
qed

lemma decode_at:
  "wf_ser rsv v \<Longrightarrow> length pre + length (serialize v) + length rest < 2 ^ 64 \<Longrightarrow>
     length (serialize v) < fuel \<Longrightarrow>
     decode_value rsv fuel (pre @ serialize v @ rest) (length pre) = yield v (length pre + length (serialize v))"
  "wf_items rsv vs \<Longrightarrow> length pre + length (serialize_items vs) + length rest < 2 ^ 64 \<Longrightarrow>
     length (serialize_items vs) < fuel \<Longrightarrow>
     decode_items rsv fuel (length vs) (pre @ serialize_items vs @ rest) (length pre) =
       yield vs (length pre + length (serialize_items vs))"
  "wf_entries rsv es \<Longrightarrow> omap_ok (m @ es) \<Longrightarrow>
     length pre + length (serialize_entries es) + length rest < 2 ^ 64 \<Longrightarrow>
     length (serialize_entries es) < fuel \<Longrightarrow>
     decode_entries rsv fuel (length es) (pre @ serialize_entries es @ rest) (length pre) m =
       yield (m @ es) (length pre + length (serialize_entries es))"
proof (induction v and vs and es arbitrary: pre rest fuel and pre rest fuel and m pre rest fuel
    rule: serialize_serialize_items_serialize_entries.induct)
  case (8 xs)
  then obtain f where f: "fuel = Suc f" by (cases fuel) auto
  have "length xs < 2 ^ 64" using 8(3) length_serialize_items [of xs] by (simp del: One_nat_def)
  then show ?case unfolding f using 8(2-) f by (intro decode_array_at 8(1)) simp_all
next
  case (9 m)
  then obtain f where f: "fuel = Suc f" by (cases fuel) auto
  have "length m < 2 ^ 64" using 9(3) length_serialize_entries [of m] by (simp del: One_nat_def)
  then show ?case unfolding f using 9(2-) f by (intro decode_map_at 9(1) [of "[]", simplified]) simp_all
next
  case (11 v vs)
  then show ?case
    using 11(1) [of pre "serialize_items vs @ rest" fuel] 11(2) [of "pre @ serialize v" rest fuel]
    by (simp add: add.assoc)
next
  case (13 k v es)
  have "decode_entries rsv fuel (Suc (length es)) (pre @ serialize_entries ((k, v) # es) @ rest) (length pre) m =
      yield (m @ (k, v) # es) (length pre + length (serialize_entries ((k, v) # es)))"
    using 13(3-) by (intro decode_entry_at 13(1) 13(2) [of "m @ [(k, v)]", simplified]) simp_all
  then show ?case by simp
qed (rule decode_scalar_at; simp; fail | simp)+

section \<open>The decoder always ends\<close>

lemma decode_uint_bounds:
  "decode_uint inp off = Some (Inr (w, o1)) \<Longrightarrow> o1 = off + 8 \<and> o1 \<le> length inp"
  "decode_uint inp off \<noteq> None"
  by (auto simp: decode_uint_def yield_def fail_def split: if_splits)

lemma decode_int_bounds:
  "decode_int inp off = Some (Inr (w, o1)) \<Longrightarrow> o1 = off + 8 \<and> o1 \<le> length inp"
  "decode_int inp off \<noteq> None"
  by (auto simp: decode_int_def yield_def fail_def split: if_splits)

lemma decode_binary_bounds:
  "decode_binary inp off = Some (Inr (b, o1)) \<Longrightarrow> off + 8 \<le> o1 \<and> o1 \<le> length inp"
  "decode_binary inp off \<noteq> None"
  using decode_uint_bounds [of inp off]
  by (auto simp: decode_binary_def and_then_def yield_def fail_def not_le
      split: option.splits sum.splits if_splits)

lemma decode_string_bounds:
  "decode_string inp off = Some (Inr (b, o1)) \<Longrightarrow> off + 8 \<le> o1 \<and> o1 \<le> length inp"
  "decode_string inp off \<noteq> None"
  using decode_binary_bounds [of inp off]
  by (auto simp: decode_string_binary and_then_def yield_def split: option.splits sum.splits)

lemma and_then_Done:
  "and_then r f = Some (Inr (x, o2)) \<longleftrightarrow> (\<exists>v o1. r = Some (Inr (v, o1)) \<and> f v o1 = Some (Inr (x, o2)))"
  by (auto simp: and_then_def split: option.splits sum.splits)

lemma and_then_None:
  "and_then r f = None \<longleftrightarrow> r = None \<or> (\<exists>v o1. r = Some (Inr (v, o1)) \<and> f v o1 = None)"
  by (auto simp: and_then_def split: option.splits sum.splits)

lemma yield_Done [simp]: "yield v off = Some (Inr (x, o1)) \<longleftrightarrow> x = v \<and> o1 = off" "yield v off \<noteq> None"
  by (auto simp: yield_def)

lemma fail_Done [simp]: "fail err \<noteq> Some (Inr p)" "fail err \<noteq> None"
  by (simp_all add: fail_def)

text \<open>Decoding a value consumes at least one byte and stays inside the input.\<close>

lemma decode_progress:
  "decode_value rsv fuel inp off = Some (Inr (v, o1)) \<Longrightarrow> off < o1 \<and> o1 \<le> length inp"
  "decode_items rsv fuel n inp off = Some (Inr (vs, o1)) \<Longrightarrow> off \<le> length inp \<Longrightarrow> off \<le> o1 \<and> o1 \<le> length inp"
  "decode_entries rsv fuel n inp off m = Some (Inr (es, o1)) \<Longrightarrow> off \<le> length inp \<Longrightarrow> off \<le> o1 \<and> o1 \<le> length inp"
proof (induction rsv fuel inp off and rsv fuel n inp off and rsv fuel n inp off m
    arbitrary: v o1 and vs o1 and es o1
    rule: decode_value_decode_items_decode_entries.induct)
  case (2 rsv fuel inp off)
  from 2(3) show ?case
    by (fastforce simp: and_then_Done decode_float_def split: if_splits
        dest: decode_uint_bounds(1) decode_int_bounds(1) decode_binary_bounds(1) decode_string_bounds(1)
          2(1) 2(2))
next
  case (4 rsv fuel n inp off)
  from 4(3,4) show ?case by (fastforce simp: and_then_Done dest: 4(1,2))
next
  case (6 rsv fuel n inp off m)
  from 6(3,4) show ?case by (fastforce simp: and_then_Done dest: 6(1,2) decode_string_bounds(1))
qed simp_all

lemma decode_total:
  "length inp - off < fuel \<Longrightarrow> decode_value rsv fuel inp off \<noteq> None"
  "off \<le> length inp \<Longrightarrow> length inp - off < fuel \<Longrightarrow> decode_items rsv fuel n inp off \<noteq> None"
  "off \<le> length inp \<Longrightarrow> length inp - off < fuel \<Longrightarrow> decode_entries rsv fuel n inp off m \<noteq> None"
proof (induction rsv fuel inp off and rsv fuel n inp off and rsv fuel n inp off m
    rule: decode_value_decode_items_decode_entries.induct)
  case (2 rsv fuel inp off)
  have rest: "o1 \<le> length inp \<and> length inp - o1 < fuel"
    if "\<not> off \<ge> length inp" "decode_uint inp (off + 1) = Some (Inr (w, o1))" for w o1
    using decode_uint_bounds(1) [OF that(2)] that(1) 2(3) by linarith
  show ?case
    using 2(1,2) rest
    by (auto simp: and_then_None decode_float_def decode_uint_bounds(2) decode_int_bounds(2)
        decode_binary_bounds(2) decode_string_bounds(2) simp del: not_None_eq)
next
  case (4 rsv fuel n inp off)
  have "length inp - o1 < fuel \<and> o1 \<le> length inp" if "decode_value rsv fuel inp off = Some (Inr (v, o1))" for v o1
    using decode_progress(1) [OF that] 4(4) by linarith
  then show ?case using 4 by (auto simp: and_then_None simp del: not_None_eq)
next
  case (6 rsv fuel n inp off m)
  have key: "length inp - o1 < fuel \<and> o1 \<le> length inp" if "decode_string inp off = Some (Inr (k, o1))" for k o1
    using decode_string_bounds(1) [OF that] 6(4) by linarith
  have val: "length inp - o2 < fuel \<and> o2 \<le> length inp"
    if "decode_string inp off = Some (Inr (k, o1))" "decode_value rsv fuel inp o1 = Some (Inr (v, o2))" for k o1 v o2
    using decode_progress(1) [OF that(2)] key [OF that(1)] by linarith
  show ?case using 6(1,2) key val by (auto simp: and_then_None decode_string_bounds(2) simp del: not_None_eq)
qed simp_all

lemma deserialize_encoding:
  assumes "wf_ser rsv v" "length (serialize v) < 2 ^ 64"
  shows "deserialize rsv (serialize v) = Some (Inr v)"
proof -
  have "decode_value rsv (Suc (length (serialize v))) (serialize v) 0 = yield v (length (serialize v))"
    using decode_at(1) [of rsv v "[]" "[]" "Suc (length (serialize v))"] assms
    by (simp del: decode_value.simps)
  then show ?thesis by (simp add: deserialize_def yield_def del: decode_value.simps)
qed

definition deserialize_ok :: "(u64 \<Rightarrow> bool) \<Rightarrow> bytes \<Rightarrow> Serializable option" where
  "deserialize_ok rsv data = (case deserialize rsv data of Some (Inr v) \<Rightarrow> Some v | _ \<Rightarrow> None)"

interpretation serc: codec serialize "deserialize_ok rsv"
  "\<lambda>v. wf_ser rsv v \<and> length (serialize v) < 2 ^ 64" for rsv
proof
  fix v assume "wf_ser rsv v \<and> length (serialize v) < 2 ^ 64"
  then show "deserialize_ok rsv (serialize v) = Some v"
    by (simp add: deserialize_ok_def deserialize_encoding)
qed

section \<open>Truncated input\<close>

text \<open>
  More input does not change a result, unless the result is that the input has ended (or that the fuel
  has).
\<close>

definition extends_result :: "'a decoded \<Rightarrow> 'a decoded \<Rightarrow> bool" where
  "extends_result r r' \<longleftrightarrow> r = None \<or> r = fail EndOfData \<or> r' = r"

lemma extends_result_simps [simp]:
  "extends_result None r" "extends_result (fail EndOfData) r" "extends_result r r"
  by (simp_all add: extends_result_def)

lemma extends_and_then:
  assumes "extends_result r r'" "\<And>v off. r = yield v off \<Longrightarrow> extends_result (f v off) (f' v off)"
  shows "extends_result (and_then r f) (and_then r' f')"
proof (cases r)
  case (Some x)
  show ?thesis
  proof (cases x)
    case (Inl err)
    then show ?thesis using assms(1) Some by (auto simp: extends_result_def and_then_def fail_def)
  next
    case (Inr p)
    then obtain v off where r: "r = yield v off" using Some by (cases p) (auto simp: yield_def)
    then have "r' = yield v off" using assms(1) by (auto simp: extends_result_def yield_def fail_def)
    with r assms(2) [OF r] show ?thesis by simp
  qed
qed simp

lemma slice_inside: "off + n \<le> length inp \<Longrightarrow> slice off n (inp @ rest) = slice off n inp"
  by (simp add: slice_def)

lemma extends_uint: "extends_result (decode_uint inp off) (decode_uint (inp @ rest) off)"
  by (simp add: decode_uint_def slice_inside)

lemma extends_int: "extends_result (decode_int inp off) (decode_int (inp @ rest) off)"
  by (simp add: decode_int_def slice_inside)

text \<open>A sum that wraps around does so whatever the length of the input is.\<close>

lemma in_range_more:
  assumes "\<not> word_of_nat off + len > (word_of_nat n :: u64)" "n \<le> n'" "n' < 2 ^ 64"
  shows "\<not> word_of_nat off + len > (word_of_nat n' :: u64)" "off + unat len \<le> n' \<Longrightarrow> off + unat len \<le> n"
proof -
  have u: "unat (word_of_nat n :: u64) = n" "unat (word_of_nat n' :: u64) = n'"
    using assms(2,3) by (simp_all only: unat_of_nat_u64)
  then have "(word_of_nat n :: u64) \<le> word_of_nat n'" using assms(2) unfolding word_le_nat_alt by (simp only:)
  with assms(1) show "\<not> word_of_nat off + len > (word_of_nat n' :: u64)" by simp
  assume le: "off + unat len \<le> n'"
  have "word_of_nat off + len = (word_of_nat (off + unat len) :: u64)" by simp
  moreover have "unat (word_of_nat (off + unat len) :: u64) = off + unat len"
    using le assms(3) by (intro unat_of_nat_u64) linarith
  ultimately show "off + unat len \<le> n" using assms(1) u(1) by (simp only: not_less word_le_nat_alt)
qed

lemma extends_binary:
  assumes "length (inp @ rest) < 2 ^ 64"
  shows "extends_result (decode_binary inp off) (decode_binary (inp @ rest) off)"
  unfolding decode_binary_def
proof (rule extends_and_then [OF extends_uint])
  fix len o1
  let ?step = "\<lambda>inp. if word_of_nat o1 + len > (word_of_nat (length inp) :: u64) then fail EndOfData
    else if o1 + unat len > length inp then fail LengthError
    else yield (slice o1 (unat len) inp) (o1 + unat len)"
  show "extends_result (?step inp) (?step (inp @ rest))"
  proof (cases "word_of_nat o1 + len > (word_of_nat (length inp) :: u64)")
    case False
    from in_range_more [OF this _ assms] have "\<not> word_of_nat o1 + len > (word_of_nat (length (inp @ rest)) :: u64)"
      "o1 + unat len > length inp \<Longrightarrow> o1 + unat len > length (inp @ rest)" by (simp, force)
    with False show ?thesis
      by (cases "o1 + unat len > length inp") (simp_all only: if_False if_True extends_result_simps, simp add: slice_inside)
  qed (simp only: if_True extends_result_simps)
qed

lemma extends_string:
  "length (inp @ rest) < 2 ^ 64 \<Longrightarrow> extends_result (decode_string inp off) (decode_string (inp @ rest) off)"
  unfolding decode_string_binary by (intro extends_and_then extends_binary) simp_all

lemma extends_decode:
  "length (inp @ rest) < 2 ^ 64 \<Longrightarrow> fuel \<le> fuel' \<Longrightarrow>
     extends_result (decode_value rsv fuel inp off) (decode_value rsv fuel' (inp @ rest) off)"
  "length (inp @ rest) < 2 ^ 64 \<Longrightarrow> fuel \<le> fuel' \<Longrightarrow>
     extends_result (decode_items rsv fuel n inp off) (decode_items rsv fuel' n (inp @ rest) off)"
  "length (inp @ rest) < 2 ^ 64 \<Longrightarrow> fuel \<le> fuel' \<Longrightarrow>
     extends_result (decode_entries rsv fuel n inp off m) (decode_entries rsv fuel' n (inp @ rest) off m)"
proof (induction rsv fuel inp off and rsv fuel n inp off and rsv fuel n inp off m
    arbitrary: fuel' and fuel' and fuel' rule: decode_value_decode_items_decode_entries.induct)
  case (2 rsv fuel inp off)
  obtain f where f: "fuel' = Suc f" "fuel \<le> f" using 2(4) by (cases fuel') auto
  show ?case
  proof (cases "off < length inp")
    case True
    then have t: "(inp @ rest) ! off = inp ! off" by (simp add: nth_append)
    have items: "extends_result (decode_items rsv fuel (unat len) inp o1) (decode_items rsv f (unat len) (inp @ rest) o1)"
      if "inp ! off = 7" "decode_uint inp (off + 1) = yield len o1" "rsv len" for len o1
      using that True 2(3) by (intro 2(1)) (simp_all add: f(2))
    have entries: "extends_result (decode_entries rsv fuel (unat len) inp o1 []) (decode_entries rsv f (unat len) (inp @ rest) o1 [])"
      if "inp ! off = 8" "decode_uint inp (off + 1) = yield len o1" for len o1
      using that True 2(3) by (intro 2(2)) (simp_all add: f(2))
    have str: "extends_result (and_then (decode_string inp o1) g) (and_then (decode_string (inp @ rest) o1) g)"
      "extends_result (and_then (decode_binary inp o1) h) (and_then (decode_binary (inp @ rest) o1) h)"
      "extends_result (and_then (decode_uint inp o1) k) (and_then (decode_uint (inp @ rest) o1) k)"
      "extends_result (and_then (decode_int inp o1) k) (and_then (decode_int (inp @ rest) o1) k)"
      for o1 and g h :: "_ \<Rightarrow> nat \<Rightarrow> Serializable decoded" and k
      by (intro extends_and_then extends_string [OF 2(3)] extends_binary [OF 2(3)] extends_uint extends_int; simp)+
    have arr: "extends_result
        (and_then (decode_uint inp (off + 1)) (\<lambda>len o1. if \<not> rsv len then fail AllocFailed
           else and_then (decode_items rsv fuel (unat len) inp o1) (\<lambda>v. yield (SArray v))))
        (and_then (decode_uint (inp @ rest) (off + 1)) (\<lambda>len o1. if \<not> rsv len then fail AllocFailed
           else and_then (decode_items rsv f (unat len) (inp @ rest) o1) (\<lambda>v. yield (SArray v))))" if "inp ! off = 7"
      using items [OF that] by (intro extends_and_then extends_uint) (auto intro!: extends_and_then)
    have map: "extends_result
        (and_then (decode_uint inp (off + 1)) (\<lambda>len o1.
           and_then (decode_entries rsv fuel (unat len) inp o1 []) (\<lambda>v. yield (SMap v))))
        (and_then (decode_uint (inp @ rest) (off + 1)) (\<lambda>len o1.
           and_then (decode_entries rsv f (unat len) (inp @ rest) o1 []) (\<lambda>v. yield (SMap v))))" if "inp ! off = 8"
      using entries [OF that] by (intro extends_and_then extends_uint) (auto intro!: extends_and_then)
    have b: "off + 1 < length inp \<Longrightarrow> (inp @ rest) ! (off + 1) = inp ! (off + 1)" by (simp add: nth_append)
    show ?thesis
      unfolding f decode_value.simps t decode_float_def using True str arr map b by (auto simp del: Suc_eq_plus1 add_2_eq_Suc')
  qed (simp add: f)
next
  case (4 rsv fuel n inp off)
  then show ?case by (simp only: decode_items.simps) (intro extends_and_then 4(1) 4(2); simp)
next
  case (6 rsv fuel n inp off m)
  then show ?case by (simp only: decode_entries.simps) (intro extends_and_then extends_string 6(1) 6(2); simp)
qed simp_all

section \<open>Properties\<close>

text \<open>
  C31: values survive serialisation: a value whose maps are in key order and whose encoding has
  fewer than \<open>2^64\<close> bytes is returned by \<open>deserialize\<close> from the bytes \<open>serialize\<close> wrote, as long
  as the memory for its arrays is granted.
\<close>

theorem deserialize_serialize:
  assumes "wf_ser rsv v" "length (serialize v) < 2 ^ 64"
  shows "deserialize rsv (serialize v) = Some (Inr v)"
  using assms by (rule deserialize_encoding)

text \<open>A nested sample value.\<close>

definition sample_value :: Serializable where
  "sample_value = SMap [(''a'', SArray [SInt (- 1), SBool True, SNull]), (''b'', SString ''x'')]"

theorem deserialize_serialize_witness:
  "deserialize (\<lambda>n. n < 1000) (serialize sample_value) = Some (Inr sample_value)"
  by (rule deserialize_serialize) (simp_all add: sample_value_def omap_ok_def)

text \<open>
  C34: a truncated message is always detected. Whatever proper prefix of the encoding of a value arrives,
  \<open>deserialize\<close> throws the end-of-data error, and neither returns a value nor fails in another way; the
  value is one that would arrive whole (maps in key order, memory for the arrays, an encoding of fewer
  than \<open>2^64\<close> bytes).
\<close>

theorem truncated_rejected:
  assumes "wf_ser rsv v" "length (serialize v) < 2 ^ 64" "n < length (serialize v)"
  shows "deserialize rsv (take n (serialize v)) = Some (Inl EndOfData)"
proof -
  let ?p = "take n (serialize v)" and ?all = "serialize v"
  have len: "length ?p = n" using assms(3) by simp
  have whole: "decode_value rsv (Suc (length ?all)) ?all 0 = yield v (length ?all)"
    using decode_at(1) [of rsv v "[]" "[]" "Suc (length ?all)"] assms(1,2) by (simp del: decode_value.simps)
  have "extends_result (decode_value rsv (Suc (length ?p)) ?p 0) (decode_value rsv (Suc (length ?all)) (?p @ drop n ?all) 0)"
    by (rule extends_decode(1)) (use assms(2,3) in simp_all)
  then have "extends_result (decode_value rsv (Suc (length ?p)) ?p 0) (yield v (length ?all))"
    unfolding append_take_drop_id whole .
  moreover have "decode_value rsv (Suc (length ?p)) ?p 0 \<noteq> None" by (rule decode_total(1)) simp
  moreover have "decode_value rsv (Suc (length ?p)) ?p 0 \<noteq> yield v (length ?all)"
    using decode_progress(1) [of rsv "Suc (length ?p)" ?p 0 v "length ?all"] len assms(3) unfolding yield_def by linarith
  ultimately show ?thesis
    by (auto simp: extends_result_def deserialize_def fail_def simp del: decode_value.simps)
qed

theorem truncated_rejected_witness:
  "deserialize (\<lambda>n. n < 1000) (take 20 (serialize sample_value)) = Some (Inl EndOfData)"
  by (rule truncated_rejected) (simp_all add: sample_value_def omap_ok_def)

text \<open>
  \<open>deserialize\<close> ends on every input, with a value or an exception: the recursion never needs
  more nesting levels than the input has bytes.
\<close>

theorem deserialize_total: "deserialize rsv data \<noteq> None"
  using decode_total(1) [of data 0 "Suc (length data)" rsv] by (simp add: deserialize_def del: decode_value.simps)

text \<open>
  the bounds check of a string length wraps around: a string whose length field is
  \<open>2^64 - 1\<close> passes the check \<open>offset + len > size\<close> and fails only when the string is created,
  with \<open>std::length_error\<close> instead of the decoder's own end-of-data error.
\<close>

theorem string_length_wraps: "deserialize rsv (5 # encode_uint (- 1)) = Some (Inl LengthError)"
proof -
  have "decode_uint (5 # encode_uint (- 1)) (Suc 0) = yield (- 1) 9"
    using uint_after_tag [of "[]" 5 "- 1" "[]"] by simp
  moreover have "unat (- 1 :: u64) = 2 ^ 64 - 1"
    by (simp add: unsigned_minus_1_eq_mask mask_eq_exp_minus_1)
  ultimately have "decode_value rsv (Suc (length (5 # encode_uint (- 1)))) (5 # encode_uint (- 1)) 0 =
      fail LengthError"
    using decode_tag [of rsv "length (5 # encode_uint (- 1))" "[]" 5 "encode_uint (- 1)"]
    by (simp add: decode_string_def del: decode_value.simps)
  then show ?thesis by (simp add: deserialize_def fail_def del: decode_value.simps)
qed

text \<open>
  subscripting behaves as a map and as an array: after \<open>s[k] = v\<close> reading key \<open>k\<close> gives
  \<open>v\<close> and every other key of a map is as before; after \<open>s[i] = v\<close> reading index \<open>i\<close> gives \<open>v\<close>,
  the other elements of an array are as before and the gap up to \<open>i\<close> is null.
\<close>

theorem subscript_laws:
  "at_key (set_key k v s) k = Inr v \<and>
   (k' \<noteq> k \<longrightarrow> ser_type s = TMap \<longrightarrow> at_key (set_key k v s) k' = at_key s k') \<and>
   at_index (set_index i v s) i = Inr v \<and>
   (j \<noteq> i \<longrightarrow> ser_type s = TArray \<longrightarrow> j < ser_size s \<longrightarrow> at_index (set_index i v s) j = at_index s j) \<and>
   (ser_type s = TArray \<longrightarrow> ser_size s \<le> j \<longrightarrow> j < i \<longrightarrow> at_index (set_index i v s) j = Inr SNull)"
proof -
  have keys: "at_key (set_key k v s) k = Inr v"
    "k' \<noteq> k \<longrightarrow> ser_type s = TMap \<longrightarrow> at_key (set_key k v s) k' = at_key s k'"
    by (cases s; simp add: at_key_def set_key_def key_ref_def omap_insert_def split: option.split)+
  have ref: "i < length (index_ref i s)" by (simp add: index_ref_def Let_def)
  have old: "index_ref i (SArray xs) ! j = xs ! j" if "j < length xs" for xs
    using that by (simp add: index_ref_def Let_def nth_append)
  have gap: "index_ref i (SArray xs) ! j = SNull" if "length xs \<le> j" "j < i" for xs
    using that by (simp add: index_ref_def Let_def nth_append)
  have "at_index (set_index i v s) i = Inr v"
    using ref by (simp add: at_index_def set_index_def)
  moreover have "j \<noteq> i \<longrightarrow> ser_type s = TArray \<longrightarrow> j < ser_size s \<longrightarrow> at_index (set_index i v s) j = at_index s j"
    using old by (cases s) (auto simp: at_index_def set_index_def ser_size_def index_ref_def Let_def)
  moreover have "ser_type s = TArray \<longrightarrow> ser_size s \<le> j \<longrightarrow> j < i \<longrightarrow> at_index (set_index i v s) j = Inr SNull"
    using gap ref by (cases s) (auto simp: at_index_def set_index_def ser_size_def)
  ultimately show ?thesis using keys by blast
qed

end
