(* ===== verification/Keys.thy ===== *)
theory Keys
  imports Common
begin

text \<open>
  Participation keys: \<open>src/core/keys/key.hpp\<close> and \<open>src/core/keys/key.cpp\<close>. The theory holds
  the key, transfer and vouch records with their binary codecs, and \<open>KeyManager\<close> with its
  inventory, transfer and vouching operations; \<open>KeyStore\<close> (files) is not modelled.

  \<open>enum class KeyType : uint8_t\<close> is its underlying byte, since the decoders cast any byte to
  it. Integers are written in the host's byte order, little-endian on every supported
  platform. BLAKE3 is the parameter \<open>H\<close>; Ed25519 is the parameters \<open>sign\<close> and \<open>verify\<close>.
  The process-wide atomic counter of \<open>Key::create\<close> is an argument and a result. The mutex
  makes each public operation one step.
\<close>

type_synonym KeyType = u8

definition IDENTITY :: KeyType where [simp]: "IDENTITY = 1"
definition NODE :: KeyType where [simp]: "NODE = 2"
definition NETWORK :: KeyType where [simp]: "NETWORK = 3"
definition SERVICE :: KeyType where [simp]: "SERVICE = 4"
definition ROUTING :: KeyType where [simp]: "ROUTING = 5"

record Key =
  key_type :: KeyType
  key_owner :: NodeID
  issued_timestamp :: u64
  last_used_timestamp :: u64
  key_source :: string
  key_nonce :: u64

record KeyTransfer =
  tr_key_id :: string
  tr_from :: NodeID
  tr_to :: NodeID
  tr_key_type :: KeyType
  tr_timestamp :: u64
  tr_reason :: string
  tr_signature :: bytes

record KeyVouch =
  vo_voucher :: NodeID
  vo_vouchee :: NodeID
  vo_key_type :: KeyType
  vo_key_count :: u32
  vo_timestamp :: u64
  vo_statement :: string
  vo_signature :: bytes

record KeyManager =
  km_keys :: "(string \<times> Key) list"
  km_index :: "(NodeID \<times> string list) list"
  km_transfers :: "KeyTransfer list"
  km_vouches :: "KeyVouch list"
  km_vouch_counts :: "(NodeID \<times> u32) list"

definition key_type_to_string :: "KeyType \<Rightarrow> string" where
  "key_type_to_string t =
     (if t = IDENTITY then ''identity'' else if t = NODE then ''node''
      else if t = NETWORK then ''network'' else if t = SERVICE then ''service''
      else if t = ROUTING then ''routing'' else ''unknown'')"

definition key_type_from_string :: "string \<Rightarrow> KeyType option" where
  "key_type_from_string s =
     (if s = ''identity'' then Some IDENTITY else if s = ''node'' then Some NODE
      else if s = ''network'' then Some NETWORK else if s = ''service'' then Some SERVICE
      else if s = ''routing'' then Some ROUTING else None)"

section \<open>Key\<close>

definition DECAY_PERIOD_SECONDS :: u64 where
  "DECAY_PERIOD_SECONDS = 86400 * 30"

definition Key_create :: "u64 \<Rightarrow> KeyType \<Rightarrow> NodeID \<Rightarrow> u64 \<Rightarrow> string \<Rightarrow> Key \<times> u64" where
  "Key_create ctr t own issued src =
     (\<lparr>key_type = t, key_owner = own, issued_timestamp = issued, last_used_timestamp = issued,
       key_source = src, key_nonce = ctr\<rparr>, ctr + 1)"

definition mark_used :: "Key \<Rightarrow> u64 \<Rightarrow> Key" where
  "mark_used k now = k\<lparr>last_used_timestamp := now\<rparr>"

definition has_decayed :: "Key \<Rightarrow> u64 \<Rightarrow> bool" where
  "has_decayed k now \<longleftrightarrow> (let age = now - last_used_timestamp k in age \<ge> DECAY_PERIOD_SECONDS)"

definition time_until_decay :: "Key \<Rightarrow> u64 \<Rightarrow> u64" where
  "time_until_decay k now =
     (if has_decayed k now then 0
      else let age = now - last_used_timestamp k in DECAY_PERIOD_SECONDS - age)"

text \<open>
  \<open>read_scalar\<close> and \<open>read_blob\<close>: the next \<open>n\<close> bytes and the rest of the input, or nothing
  when fewer remain. The offset of the source is the position of the rest.
\<close>

definition read_blob :: "nat \<Rightarrow> bytes \<Rightarrow> (bytes \<times> bytes) option" where
  "read_blob n bs = (if n \<le> length bs then Some (take n bs, drop n bs) else None)"

definition read_scalar :: "nat \<Rightarrow> bytes \<Rightarrow> ('a::len word \<times> bytes) option" where
  "read_scalar n bs =
     (if n \<le> length bs then Some (le_word (take n bs), drop n bs) else None)"

definition Key_serialize :: "Key \<Rightarrow> bytes" where
  "Key_serialize k =
     [key_type k] @ node_bytes (key_owner k) @ le_bytes 8 (issued_timestamp k)
     @ le_bytes 8 (last_used_timestamp k)
     @ le_bytes 4 (word_of_nat (length (key_source k)) :: u32)
     @ bytes_of_string (key_source k) @ le_bytes 8 (key_nonce k)"

definition Key_deserialize :: "bytes \<Rightarrow> Key option" where
  "Key_deserialize data =
     (case read_scalar 1 data of None \<Rightarrow> None | Some (t :: u8, data) \<Rightarrow>
     (case read_blob 32 data of None \<Rightarrow> None | Some (own, data) \<Rightarrow>
     (case read_scalar 8 data of None \<Rightarrow> None | Some (issued :: u64, data) \<Rightarrow>
     (case read_scalar 8 data of None \<Rightarrow> None | Some (used :: u64, data) \<Rightarrow>
     (case read_scalar 4 data of None \<Rightarrow> None | Some (len :: u32, data) \<Rightarrow>
     (case read_blob (unat len) data of None \<Rightarrow> None | Some (src, data) \<Rightarrow>
     (case read_scalar 8 data of None \<Rightarrow> None | Some (nonce :: u64, data) \<Rightarrow>
        Some \<lparr>key_type = t, key_owner = NodeID own, issued_timestamp = issued,
          last_used_timestamp = used, key_source = string_of_bytes src, key_nonce = nonce\<rparr>)))))))"

text \<open>A \<open>uint64_t\<close> written in decimal by \<open>operator<<\<close>.\<close>

fun decimal :: "nat \<Rightarrow> string" where
  "decimal n = (if n < 10 then [''0123456789'' ! n] else decimal (n div 10) @ [''0123456789'' ! (n mod 10)])"

definition key_id_material :: "Key \<Rightarrow> string" where
  "key_id_material k =
     key_type_to_string (key_type k) @ ''_'' @ hash_to_hex (node_bytes (key_owner k)) @ ''_''
     @ decimal (unat (issued_timestamp k)) @ ''_'' @ decimal (unat (key_nonce k))"

definition get_key_id :: "(bytes \<Rightarrow> Hash256) \<Rightarrow> Key \<Rightarrow> string" where
  "get_key_id H k = hash_to_hex (H (bytes_of_string (key_id_material k)))"

section \<open>KeyTransfer and KeyVouch\<close>

text \<open>The fields before the signature: what \<open>verify_signature\<close> rebuilds.\<close>

definition KeyTransfer_message :: "KeyTransfer \<Rightarrow> bytes" where
  "KeyTransfer_message t =
     le_bytes 4 (word_of_nat (length (tr_key_id t)) :: u32) @ bytes_of_string (tr_key_id t)
     @ node_bytes (tr_from t) @ node_bytes (tr_to t) @ [tr_key_type t]
     @ le_bytes 8 (tr_timestamp t)
     @ le_bytes 4 (word_of_nat (length (tr_reason t)) :: u32) @ bytes_of_string (tr_reason t)"

definition KeyTransfer_to_bytes :: "KeyTransfer \<Rightarrow> bytes" where
  "KeyTransfer_to_bytes t =
     le_bytes 4 (word_of_nat (length (tr_key_id t)) :: u32) @ bytes_of_string (tr_key_id t)
     @ node_bytes (tr_from t) @ node_bytes (tr_to t) @ [tr_key_type t]
     @ le_bytes 8 (tr_timestamp t)
     @ le_bytes 4 (word_of_nat (length (tr_reason t)) :: u32) @ bytes_of_string (tr_reason t)
     @ tr_signature t"

definition KeyTransfer_from_bytes :: "bytes \<Rightarrow> KeyTransfer option" where
  "KeyTransfer_from_bytes data =
     (case read_scalar 4 data of None \<Rightarrow> None | Some (idlen :: u32, data) \<Rightarrow>
     (case read_blob (unat idlen) data of None \<Rightarrow> None | Some (kid, data) \<Rightarrow>
     (case read_blob 32 data of None \<Rightarrow> None | Some (frm, data) \<Rightarrow>
     (case read_blob 32 data of None \<Rightarrow> None | Some (to, data) \<Rightarrow>
     (case read_scalar 1 data of None \<Rightarrow> None | Some (t :: u8, data) \<Rightarrow>
     (case read_scalar 8 data of None \<Rightarrow> None | Some (ts :: u64, data) \<Rightarrow>
     (case read_scalar 4 data of None \<Rightarrow> None | Some (rlen :: u32, data) \<Rightarrow>
     (case read_blob (unat rlen) data of None \<Rightarrow> None | Some (reason, data) \<Rightarrow>
     (case read_blob 64 data of None \<Rightarrow> None | Some (sig, data) \<Rightarrow>
        Some \<lparr>tr_key_id = string_of_bytes kid, tr_from = NodeID frm, tr_to = NodeID to,
          tr_key_type = t, tr_timestamp = ts, tr_reason = string_of_bytes reason,
          tr_signature = sig\<rparr>)))))))))"

definition KeyTransfer_verify_signature ::
  "(bytes \<Rightarrow> bytes \<Rightarrow> bytes \<Rightarrow> bool) \<Rightarrow> KeyTransfer \<Rightarrow> bytes \<Rightarrow> bool" where
  "KeyTransfer_verify_signature verify t pk = verify (KeyTransfer_message t) (tr_signature t) pk"

definition KeyVouch_message :: "KeyVouch \<Rightarrow> bytes" where
  "KeyVouch_message v =
     node_bytes (vo_voucher v) @ node_bytes (vo_vouchee v) @ [vo_key_type v]
     @ le_bytes 4 (vo_key_count v) @ le_bytes 8 (vo_timestamp v)
     @ le_bytes 4 (word_of_nat (length (vo_statement v)) :: u32)
     @ bytes_of_string (vo_statement v)"

definition KeyVouch_to_bytes :: "KeyVouch \<Rightarrow> bytes" where
  "KeyVouch_to_bytes v =
     node_bytes (vo_voucher v) @ node_bytes (vo_vouchee v) @ [vo_key_type v]
     @ le_bytes 4 (vo_key_count v) @ le_bytes 8 (vo_timestamp v)
     @ le_bytes 4 (word_of_nat (length (vo_statement v)) :: u32)
     @ bytes_of_string (vo_statement v) @ vo_signature v"

definition KeyVouch_from_bytes :: "bytes \<Rightarrow> KeyVouch option" where
  "KeyVouch_from_bytes data =
     (case read_blob 32 data of None \<Rightarrow> None | Some (voucher, data) \<Rightarrow>
     (case read_blob 32 data of None \<Rightarrow> None | Some (vouchee, data) \<Rightarrow>
     (case read_scalar 1 data of None \<Rightarrow> None | Some (t :: u8, data) \<Rightarrow>
     (case read_scalar 4 data of None \<Rightarrow> None | Some (cnt :: u32, data) \<Rightarrow>
     (case read_scalar 8 data of None \<Rightarrow> None | Some (ts :: u64, data) \<Rightarrow>
     (case read_scalar 4 data of None \<Rightarrow> None | Some (slen :: u32, data) \<Rightarrow>
     (case read_blob (unat slen) data of None \<Rightarrow> None | Some (st, data) \<Rightarrow>
     (case read_blob 64 data of None \<Rightarrow> None | Some (sig, data) \<Rightarrow>
        Some \<lparr>vo_voucher = NodeID voucher, vo_vouchee = NodeID vouchee, vo_key_type = t,
          vo_key_count = cnt, vo_timestamp = ts, vo_statement = string_of_bytes st,
          vo_signature = sig\<rparr>))))))))"

definition KeyVouch_verify_signature ::
  "(bytes \<Rightarrow> bytes \<Rightarrow> bytes \<Rightarrow> bool) \<Rightarrow> KeyVouch \<Rightarrow> bytes \<Rightarrow> bool" where
  "KeyVouch_verify_signature verify v pk = verify (KeyVouch_message v) (vo_signature v) pk"

section \<open>KeyManager\<close>

definition KeyManager_init :: KeyManager where
  "KeyManager_init = \<lparr>km_keys = [], km_index = [], km_transfers = [], km_vouches = [],
     km_vouch_counts = []\<rparr>"

definition add_key :: "(bytes \<Rightarrow> Hash256) \<Rightarrow> Key \<Rightarrow> KeyManager \<Rightarrow> KeyManager" where
  "add_key H k m =
     (let kid = get_key_id H k in
      m\<lparr>km_keys := omap_insert kid k (km_keys m),
        km_index := omap_set (key_owner k)
          (opt_or [] (map_of (km_index m) (key_owner k)) @ [kid]) (km_index m)\<rparr>)"

definition remove_key :: "string \<Rightarrow> KeyManager \<Rightarrow> bool \<times> KeyManager" where
  "remove_key kid m =
     (case map_of (km_keys m) kid of
        None \<Rightarrow> (False, m)
      | Some k \<Rightarrow>
          (True, m\<lparr>km_index := omap_set (key_owner k)
                     (filter (\<lambda>i. i \<noteq> kid) (opt_or [] (map_of (km_index m) (key_owner k))))
                     (km_index m),
                   km_keys := omap_erase kid (km_keys m)\<rparr>))"

definition get_key :: "KeyManager \<Rightarrow> string \<Rightarrow> Key option" where
  "get_key m kid = map_of (km_keys m) kid"

definition get_keys_by_type :: "KeyManager \<Rightarrow> KeyType \<Rightarrow> Key list" where
  "get_keys_by_type m t = filter (\<lambda>k. key_type k = t) (map snd (km_keys m))"

definition get_keys_by_owner :: "KeyManager \<Rightarrow> NodeID \<Rightarrow> Key list" where
  "get_keys_by_owner m own =
     (case map_of (km_index m) own of
        None \<Rightarrow> []
      | Some kids \<Rightarrow> List.map_filter (map_of (km_keys m)) kids)"

text \<open>The counting loop over an owner's identifiers, as \<open>count_keys\<close> and \<open>create_transfer\<close> run it.\<close>

fun count_loop :: "(string \<times> Key) list \<Rightarrow> KeyType \<Rightarrow> u32 \<Rightarrow> string list \<Rightarrow> u32" where
  "count_loop keys t n [] = n"
| "count_loop keys t n (kid # kids) =
     (case map_of keys kid of
        None \<Rightarrow> count_loop keys t n kids
      | Some k \<Rightarrow> count_loop keys t (if key_type k = t then n + 1 else n) kids)"

definition count_keys :: "KeyManager \<Rightarrow> NodeID \<Rightarrow> KeyType \<Rightarrow> u32" where
  "count_keys m own t =
     (case map_of (km_index m) own of
        None \<Rightarrow> 0
      | Some kids \<Rightarrow> count_loop (km_keys m) t 0 kids)"

definition MIN_KEYS_TO_TRANSFER :: u32 where "MIN_KEYS_TO_TRANSFER = 1"
definition MAX_VOUCH_PER_EPOCH :: u32 where "MAX_VOUCH_PER_EPOCH = 3"

definition can_transfer :: "KeyManager \<Rightarrow> NodeID \<Rightarrow> NodeID \<Rightarrow> KeyType \<Rightarrow> bool" where
  "can_transfer m frm to t \<longleftrightarrow> count_keys m frm t \<ge> MIN_KEYS_TO_TRANSFER"

text \<open>
  \<open>now\<close> is \<open>std::time(nullptr)\<close>. The signature field that \<open>to_bytes\<close> writes before signing is
  not yet assigned; its 64 bytes are cut off again before the message is signed.
\<close>

definition create_transfer ::
  "(bytes \<Rightarrow> bytes \<Rightarrow> bytes) \<Rightarrow> u64 \<Rightarrow> KeyManager \<Rightarrow> string \<Rightarrow> NodeID \<Rightarrow> NodeID \<Rightarrow> string
    \<Rightarrow> bytes \<Rightarrow> KeyTransfer option" where
  "create_transfer sign now m kid frm to reason sk =
     (case map_of (km_keys m) kid of
        None \<Rightarrow> None
      | Some k \<Rightarrow>
          if key_owner k \<noteq> frm then None
          else let owned = (case map_of (km_index m) frm of
                              None \<Rightarrow> 0
                            | Some kids \<Rightarrow> count_loop (km_keys m) (key_type k) 0 kids) in
            if owned < MIN_KEYS_TO_TRANSFER then None
            else let t = \<lparr>tr_key_id = kid, tr_from = frm, tr_to = to, tr_key_type = key_type k,
                          tr_timestamp = now, tr_reason = reason,
                          tr_signature = replicate 64 0\<rparr>;
                     msg = KeyTransfer_to_bytes t;
                     msg = take (length msg - 64) msg
                 in Some (t\<lparr>tr_signature := sign msg sk\<rparr>))"

definition execute_transfer ::
  "(bytes \<Rightarrow> Hash256) \<Rightarrow> u64 \<Rightarrow> KeyManager \<Rightarrow> KeyTransfer \<Rightarrow> bool \<times> KeyManager \<times> u64" where
  "execute_transfer H ctr m t =
     (case get_key m (tr_key_id t) of
        None \<Rightarrow> (False, m, ctr)
      | Some k \<Rightarrow>
          if key_owner k \<noteq> tr_from t then (False, m, ctr)
          else case remove_key (tr_key_id t) m of (ok, m1) \<Rightarrow>
            if \<not> ok then (False, m1, ctr)
            else case Key_create ctr (tr_key_type t) (tr_to t) (tr_timestamp t) ''transferred'' of
              (new_key, ctr') \<Rightarrow>
                let m2 = add_key H new_key m1
                in (True, m2\<lparr>km_transfers := km_transfers m2 @ [t]\<rparr>, ctr'))"

definition get_transfer_history :: "KeyManager \<Rightarrow> NodeID \<Rightarrow> KeyTransfer list" where
  "get_transfer_history m n = filter (\<lambda>t. tr_from t = n \<or> tr_to t = n) (km_transfers m)"

definition can_vouch :: "KeyManager \<Rightarrow> NodeID \<Rightarrow> NodeID \<Rightarrow> KeyType \<Rightarrow> bool" where
  "can_vouch m voucher vouchee t \<longleftrightarrow>
     (if voucher = vouchee then False
      else case map_of (km_vouch_counts m) voucher of
             None \<Rightarrow> True
           | Some n \<Rightarrow> \<not> n \<ge> MAX_VOUCH_PER_EPOCH)"

definition create_vouch ::
  "(bytes \<Rightarrow> bytes \<Rightarrow> bytes) \<Rightarrow> u64 \<Rightarrow> KeyManager \<Rightarrow> NodeID \<Rightarrow> NodeID \<Rightarrow> KeyType \<Rightarrow> u32
    \<Rightarrow> string \<Rightarrow> bytes \<Rightarrow> KeyVouch option" where
  "create_vouch sign now m voucher vouchee t cnt statement sk =
     (if \<not> can_vouch m voucher vouchee t then None
      else let v = \<lparr>vo_voucher = voucher, vo_vouchee = vouchee, vo_key_type = t,
                    vo_key_count = cnt, vo_timestamp = now, vo_statement = statement,
                    vo_signature = replicate 64 0\<rparr>;
               msg = KeyVouch_to_bytes v;
               msg = take (length msg - 64) msg
           in Some (v\<lparr>vo_signature := sign msg sk\<rparr>))"

text \<open>The issuing loop of \<open>execute_vouch\<close>: one fresh key per turn.\<close>

fun issue_loop ::
  "(bytes \<Rightarrow> Hash256) \<Rightarrow> KeyVouch \<Rightarrow> u64 \<Rightarrow> nat \<Rightarrow> KeyManager \<Rightarrow> u64 \<Rightarrow> KeyManager \<times> u64" where
  "issue_loop H v now 0 m ctr = (m, ctr)"
| "issue_loop H v now (Suc n) m ctr =
     (case Key_create ctr (vo_key_type v) (vo_vouchee v) now ''vouched'' of
        (k, ctr') \<Rightarrow> issue_loop H v now n (add_key H k m) ctr')"

definition execute_vouch ::
  "(bytes \<Rightarrow> Hash256) \<Rightarrow> u64 \<Rightarrow> KeyManager \<Rightarrow> KeyVouch \<Rightarrow> u64 \<Rightarrow> bool \<times> KeyManager \<times> u64" where
  "execute_vouch H ctr m v now =
     (case issue_loop H v now (unat (vo_key_count v)) m ctr of (m1, ctr') \<Rightarrow>
        (True, m1\<lparr>km_vouches := km_vouches m1 @ [v],
                  km_vouch_counts := omap_set (vo_voucher v)
                    (opt_or 0 (map_of (km_vouch_counts m1) (vo_voucher v)) + 1)
                    (km_vouch_counts m1)\<rparr>, ctr'))"

definition get_vouches_by :: "KeyManager \<Rightarrow> NodeID \<Rightarrow> KeyVouch list" where
  "get_vouches_by m n = filter (\<lambda>v. vo_voucher v = n) (km_vouches m)"

definition get_vouches_for :: "KeyManager \<Rightarrow> NodeID \<Rightarrow> KeyVouch list" where
  "get_vouches_for m n = filter (\<lambda>v. vo_vouchee v = n) (km_vouches m)"

record VouchStats =
  total_vouches_given :: u32
  total_vouches_received :: u32
  successful_vouches :: u32
  failed_vouches :: u32

fun vouch_stats_loop :: "NodeID \<Rightarrow> VouchStats \<Rightarrow> KeyVouch list \<Rightarrow> VouchStats" where
  "vouch_stats_loop n st [] = st"
| "vouch_stats_loop n st (v # vs) =
     (let st1 = (if vo_voucher v = n
                 then st\<lparr>total_vouches_given := total_vouches_given st + 1,
                         successful_vouches := successful_vouches st + 1\<rparr> else st);
          st2 = (if vo_vouchee v = n
                 then st1\<lparr>total_vouches_received := total_vouches_received st1 + 1\<rparr> else st1)
      in vouch_stats_loop n st2 vs)"

definition get_vouch_stats :: "KeyManager \<Rightarrow> NodeID \<Rightarrow> VouchStats" where
  "get_vouch_stats m n =
     (let st = vouch_stats_loop n \<lparr>total_vouches_given = 0, total_vouches_received = 0,
                 successful_vouches = 0, failed_vouches = 0\<rparr> (km_vouches m)
      in st\<lparr>failed_vouches := total_vouches_given st - successful_vouches st\<rparr>)"

section \<open>Invariant and well-formedness\<close>

definition wf_Key :: "Key \<Rightarrow> bool" where
  "wf_Key k \<longleftrightarrow> length (node_bytes (key_owner k)) = 32 \<and> length (key_source k) < 2 ^ 32"

definition wf_KeyTransfer :: "KeyTransfer \<Rightarrow> bool" where
  "wf_KeyTransfer t \<longleftrightarrow> length (tr_key_id t) < 2 ^ 32 \<and> length (node_bytes (tr_from t)) = 32 \<and>
     length (node_bytes (tr_to t)) = 32 \<and> length (tr_reason t) < 2 ^ 32 \<and>
     length (tr_signature t) = 64"

definition wf_KeyVouch :: "KeyVouch \<Rightarrow> bool" where
  "wf_KeyVouch v \<longleftrightarrow> length (node_bytes (vo_voucher v)) = 32 \<and>
     length (node_bytes (vo_vouchee v)) = 32 \<and> length (vo_statement v) < 2 ^ 32 \<and>
     length (vo_signature v) = 64"

text \<open>The identifiers the index lists for an owner.\<close>

definition indexed :: "KeyManager \<Rightarrow> NodeID \<Rightarrow> string list" where
  "indexed m own = opt_or [] (map_of (km_index m) own)"

text \<open>
  The inventory and its owner index agree: the index lists every key once, under its owner,
  and nothing else.
\<close>

definition km_inv :: "KeyManager \<Rightarrow> bool" where
  "km_inv m \<longleftrightarrow>
     omap_ok (km_keys m) \<and>
     (\<forall>own. distinct (indexed m own)) \<and>
     (\<forall>own kid. kid \<in> set (indexed m own) \<longleftrightarrow>
        (\<exists>k. map_of (km_keys m) kid = Some k \<and> key_owner k = own))"

text \<open>What \<open>count_keys\<close> should return: how many keys of the inventory match.\<close>

definition owned_keys :: "KeyManager \<Rightarrow> NodeID \<Rightarrow> KeyType \<Rightarrow> string set" where
  "owned_keys m own t =
     {kid. \<exists>k. map_of (km_keys m) kid = Some k \<and> key_owner k = own \<and> key_type k = t}"

section \<open>Sequences of operations\<close>

text \<open>The state-changing operations, run one after another with the key counter.\<close>

datatype km_op =
    AddKey Key
  | RemoveKey string
  | ExecTransfer KeyTransfer
  | ExecVouch KeyVouch u64

fun km_step :: "(bytes \<Rightarrow> Hash256) \<Rightarrow> KeyManager \<times> u64 \<Rightarrow> km_op \<Rightarrow> KeyManager \<times> u64" where
  "km_step H (m, ctr) (AddKey k) = (add_key H k m, ctr)"
| "km_step H (m, ctr) (RemoveKey kid) = (snd (remove_key kid m), ctr)"
| "km_step H (m, ctr) (ExecTransfer t) = snd (execute_transfer H ctr m t)"
| "km_step H (m, ctr) (ExecVouch v now) = snd (execute_vouch H ctr m v now)"

definition km_run :: "(bytes \<Rightarrow> Hash256) \<Rightarrow> KeyManager \<times> u64 \<Rightarrow> km_op list \<Rightarrow> KeyManager \<times> u64" where
  "km_run H s xs = foldl (km_step H) s xs"

fun vouched_by :: "NodeID \<Rightarrow> km_op \<Rightarrow> bool" where
  "vouched_by n (ExecVouch v now) \<longleftrightarrow> vo_voucher v = n"
| "vouched_by n _ \<longleftrightarrow> False"

definition vouch_count :: "KeyManager \<Rightarrow> NodeID \<Rightarrow> u32" where
  "vouch_count m n = opt_or 0 (map_of (km_vouch_counts m) n)"

text \<open>The key that turn \<open>i\<close> of the loop of \<open>execute_vouch\<close> issues.\<close>

definition vouch_key :: "KeyVouch \<Rightarrow> u64 \<Rightarrow> u64 \<Rightarrow> nat \<Rightarrow> Key" where
  "vouch_key v now ctr i =
     fst (Key_create (ctr + word_of_nat i) (vo_key_type v) (vo_vouchee v) now ''vouched'')"

section \<open>Codecs: lemmas\<close>

lemma le_bytes_1 [simp]: "le_bytes 1 (w :: u8) = [w]" "le_bytes (Suc 0) (w :: u8) = [w]"
  by (simp_all add: le_bytes_def)

lemma le_word_single [simp]: "le_word [w :: u8] = w"
  using le_word_le_bytes [of 1 w] by simp

lemma read_scalar_u8 [simp]: "read_scalar (Suc 0) ((b :: u8) # r) = Some (b, r)"
  by (simp add: read_scalar_def)

lemma read_scalar_u32 [simp]: "read_scalar 4 (le_bytes 4 (w :: u32) @ r) = Some (w, r)"
  by (simp add: read_scalar_def)

lemma read_scalar_u64 [simp]: "read_scalar 8 (le_bytes 8 (w :: u64) @ r) = Some (w, r)"
  by (simp add: read_scalar_def)

lemma read_blob_append [simp]: "length xs = n \<Longrightarrow> read_blob n (xs @ r) = Some (xs, r)"
  by (simp add: read_blob_def)

lemma read_scalar_u64_end [simp]: "read_scalar 8 (le_bytes 8 (w :: u64)) = Some (w, [])"
  using read_scalar_u64 [of w "[]"] by simp

lemma Key_codec: "wf_Key k \<Longrightarrow> Key_deserialize (Key_serialize k @ rest) = Some k"
  by (cases k) (simp add: wf_Key_def Key_deserialize_def Key_serialize_def)

lemma KeyTransfer_codec:
  "wf_KeyTransfer t \<Longrightarrow> KeyTransfer_from_bytes (KeyTransfer_to_bytes t @ rest) = Some t"
  by (cases t) (simp add: wf_KeyTransfer_def KeyTransfer_from_bytes_def KeyTransfer_to_bytes_def)

lemma KeyVouch_codec:
  "wf_KeyVouch v \<Longrightarrow> KeyVouch_from_bytes (KeyVouch_to_bytes v @ rest) = Some v"
  by (cases v) (simp add: wf_KeyVouch_def KeyVouch_from_bytes_def KeyVouch_to_bytes_def)

interpretation keyc: trailing_codec Key_serialize Key_deserialize wf_Key
  by unfold_locales (rule Key_codec)

interpretation transferc: trailing_codec KeyTransfer_to_bytes KeyTransfer_from_bytes wf_KeyTransfer
  by unfold_locales (rule KeyTransfer_codec)

interpretation vouchc: trailing_codec KeyVouch_to_bytes KeyVouch_from_bytes wf_KeyVouch
  by unfold_locales (rule KeyVouch_codec)

lemma KeyTransfer_to_bytes_message:
  "KeyTransfer_to_bytes t = KeyTransfer_message t @ tr_signature t"
  by (simp add: KeyTransfer_to_bytes_def KeyTransfer_message_def)

lemma KeyTransfer_message_signature [simp]:
  "KeyTransfer_message (t\<lparr>tr_signature := s\<rparr>) = KeyTransfer_message t"
  by (simp add: KeyTransfer_message_def)

lemma KeyTransfer_unsigned:
  "length (tr_signature t) = 64 \<Longrightarrow>
   take (length (KeyTransfer_to_bytes t) - 64) (KeyTransfer_to_bytes t) = KeyTransfer_message t"
  by (simp add: KeyTransfer_to_bytes_message)

lemma KeyVouch_to_bytes_message: "KeyVouch_to_bytes v = KeyVouch_message v @ vo_signature v"
  by (simp add: KeyVouch_to_bytes_def KeyVouch_message_def)

section \<open>Key identifiers: lemmas\<close>

lemma split_at_sep:
  "x \<notin> set a \<Longrightarrow> x \<notin> set a' \<Longrightarrow> a @ x # b = a' @ x # b' \<longleftrightarrow> a = a' \<and> b = b'"
  by (auto simp: append_eq_append_conv2 Cons_eq_append_conv append_eq_Cons_conv)

lemma digit_cases: "(n::nat) < 10 \<Longrightarrow> n \<in> {0, 1, 2, 3, 4, 5, 6, 7, 8, 9}"
  by (simp only: insert_iff empty_iff) arith

lemma decimal_digit_inject: "m < 10 \<Longrightarrow> n < 10 \<Longrightarrow> ''0123456789'' ! m = ''0123456789'' ! n \<Longrightarrow> m = n"
  by (drule digit_cases, drule digit_cases) auto

lemma decimal_digit_sep: "n < 10 \<Longrightarrow> ''0123456789'' ! n \<noteq> CHR ''_''"
  by (drule digit_cases) auto

declare decimal.simps [simp del]

lemma decimal_sep: "CHR ''_'' \<notin> set (decimal n)"
proof (induction n rule: decimal.induct)
  case (1 n)
  then show ?case
    using decimal_digit_sep [of n] decimal_digit_sep [of "n mod 10"]
    by (cases "n < 10") (auto simp: decimal.simps [of n])
qed

lemma decimal_not_Nil [simp]: "decimal n \<noteq> []" "[] \<noteq> decimal n"
  by (simp_all add: decimal.simps [of n])

lemma decimal_inject: "decimal m = decimal n \<Longrightarrow> m = n"
proof (induction m arbitrary: n rule: decimal.induct)
  case (1 m)
  show ?case
  proof (cases "m < 10 \<or> n < 10")
    case True
    with "1.prems" show ?thesis
      by (auto simp: decimal.simps [of m] decimal.simps [of n] intro: decimal_digit_inject
          split: if_splits)
  next
    case False
    with "1.prems" have "decimal (m div 10) = decimal (n div 10)"
      "''0123456789'' ! (m mod 10) = ''0123456789'' ! (n mod 10)"
      by (auto simp: decimal.simps [of m] decimal.simps [of n])
    with "1.IH" [of "n div 10"] False decimal_digit_inject [of "m mod 10" "n mod 10"]
    have "m div 10 = n div 10" "m mod 10 = n mod 10" by auto
    then show ?thesis by (metis div_mult_mod_eq)
  qed
qed

lemma key_type_string_sep: "CHR ''_'' \<notin> set (key_type_to_string t)"
  by (simp add: key_type_to_string_def)

lemma hash_to_hex_sep: "CHR ''_'' \<notin> set (hash_to_hex h)"
proof -
  have "hex_digits ! n \<noteq> CHR ''_''" if "n < 16" for n
    using less_16_cases [OF that] by (auto simp: hex_digits_def)
  from this [of "unat b div 16" for b :: u8] this [of "unat b mod 16" for b :: u8]
  show ?thesis by (auto simp: hash_to_hex_def dest!: sym [of "CHR ''_''"])
qed

text \<open>The text a key identifier is the hash of determines the key's owner, time and nonce.\<close>

lemma key_id_material_inject:
  assumes "key_id_material k = key_id_material k'"
  shows "key_type_to_string (key_type k) = key_type_to_string (key_type k') \<and>
    key_owner k = key_owner k' \<and> issued_timestamp k = issued_timestamp k' \<and>
    key_nonce k = key_nonce k'"
proof -
  note assms [unfolded key_id_material_def, simplified,
      unfolded split_at_sep [OF key_type_string_sep key_type_string_sep]
        split_at_sep [OF hash_to_hex_sep hash_to_hex_sep]
        split_at_sep [OF decimal_sep decimal_sep]]
  then show ?thesis
    by (auto dest!: hash_to_hex_inject decimal_inject simp: word_unat_eq_iff NodeID.expand)
qed

section \<open>Inventory: lemmas\<close>

lemma indexed_add_key [simp]:
  "indexed (add_key H k m) own =
     (if own = key_owner k then indexed m own @ [get_key_id H k] else indexed m own)"
  by (simp add: indexed_def add_key_def Let_def)

lemma keys_add_key:
  "map_of (km_keys (add_key H k m)) =
     (if get_key_id H k \<in> dom (map_of (km_keys m)) then map_of (km_keys m)
      else (map_of (km_keys m))(get_key_id H k \<mapsto> k))"
  by (auto simp: add_key_def Let_def omap_insert_def domIff split: option.splits)

lemma omap_ok_insert [simp, intro]: "omap_ok m \<Longrightarrow> omap_ok (omap_insert k v m)"
  by (auto simp: omap_insert_def split: option.splits)

lemma add_key_frame [frame_simps]:
  "km_transfers (add_key H k m) = km_transfers m" "km_vouches (add_key H k m) = km_vouches m"
  "km_vouch_counts (add_key H k m) = km_vouch_counts m"
  by (simp_all add: add_key_def Let_def)

lemma km_inv_init: "km_inv KeyManager_init"
  by (simp add: km_inv_def KeyManager_init_def indexed_def)

lemma km_inv_add_key:
  assumes "km_inv m" "map_of (km_keys m) (get_key_id H k) = None"
  shows "km_inv (add_key H k m)"
proof -
  have ok: "omap_ok (km_keys (add_key H k m))"
    using assms(1) by (simp add: km_inv_def add_key_def Let_def omap_ok_insert)
  have fresh: "get_key_id H k \<notin> set (indexed m own)" for own
    using assms by (auto simp: km_inv_def)
  have keys: "map_of (km_keys (add_key H k m)) = (map_of (km_keys m))(get_key_id H k \<mapsto> k)"
    using assms(2) by (simp add: keys_add_key domIff)
  from assms(1) ok fresh show ?thesis
    unfolding km_inv_def keys by (auto simp: km_inv_def)
qed

lemma remove_key_fst [simp]: "fst (remove_key kid m) \<longleftrightarrow> map_of (km_keys m) kid \<noteq> None"
  by (simp add: remove_key_def split: option.splits)

lemma remove_key_Some:
  assumes "map_of (km_keys m) kid = Some k"
  shows "map_of (km_keys (snd (remove_key kid m))) = (map_of (km_keys m))(kid := None)"
    and "indexed (snd (remove_key kid m)) own =
      (if own = key_owner k then filter (\<lambda>i. i \<noteq> kid) (indexed m own) else indexed m own)"
    and "km_transfers (snd (remove_key kid m)) = km_transfers m"
    and "km_vouches (snd (remove_key kid m)) = km_vouches m"
    and "km_vouch_counts (snd (remove_key kid m)) = km_vouch_counts m"
  using assms by (simp_all add: remove_key_def indexed_def)

lemma km_inv_remove_key: "km_inv m \<Longrightarrow> km_inv (snd (remove_key kid m))"
proof (cases "map_of (km_keys m) kid")
  case None
  then show "km_inv m \<Longrightarrow> ?thesis" by (simp add: remove_key_def)
next
  case (Some k)
  assume inv: "km_inv m"
  have "omap_ok (km_keys (snd (remove_key kid m)))"
    using inv Some by (simp add: km_inv_def remove_key_def)
  with inv Some show ?thesis
    unfolding km_inv_def remove_key_Some [OF Some] by auto
qed

lemma count_loop_length:
  "count_loop keys t n kids =
     n + word_of_nat (length (filter (\<lambda>i. \<exists>k. map_of keys i = Some k \<and> key_type k = t) kids))"
  by (induction keys t n kids rule: count_loop.induct) (auto split: option.splits)

lemma count_keys_indexed: "count_keys m own t = count_loop (km_keys m) t 0 (indexed m own)"
  by (simp add: count_keys_def indexed_def split: option.splits)

lemma count_keys_card:
  assumes "km_inv m"
  shows "count_keys m own t = word_of_nat (card (owned_keys m own t))"
proof -
  let ?p = "\<lambda>i. \<exists>k. map_of (km_keys m) i = Some k \<and> key_type k = t"
  have "distinct (filter ?p (indexed m own))" using assms by (simp add: km_inv_def)
  then have "length (filter ?p (indexed m own)) = card (set (filter ?p (indexed m own)))"
    by (rule distinct_card [symmetric])
  also have "set (filter ?p (indexed m own)) = owned_keys m own t"
    using assms by (auto simp: km_inv_def owned_keys_def)
  finally show ?thesis by (simp add: count_keys_indexed count_loop_length)
qed

section \<open>Transfers and vouches: lemmas\<close>

definition transferred_key :: "u64 \<Rightarrow> KeyTransfer \<Rightarrow> Key" where
  "transferred_key ctr t =
     fst (Key_create ctr (tr_key_type t) (tr_to t) (tr_timestamp t) ''transferred'')"

lemma execute_transfer_fail:
  assumes "\<not> (\<exists>k. get_key m (tr_key_id t) = Some k \<and> key_owner k = tr_from t)"
  shows "execute_transfer H ctr m t = (False, m, ctr)"
  using assms by (auto simp: execute_transfer_def split: option.splits)

lemma execute_transfer_ok:
  assumes "get_key m (tr_key_id t) = Some k" "key_owner k = tr_from t"
  shows "execute_transfer H ctr m t =
    (True, (add_key H (transferred_key ctr t) (snd (remove_key (tr_key_id t) m)))
             \<lparr>km_transfers := km_transfers m @ [t]\<rparr>, ctr + 1)"
  using assms
  by (auto simp: execute_transfer_def get_key_def transferred_key_def Key_create_def Let_def
      add_key_frame remove_key_Some split: prod.splits dest: arg_cong [where f = fst])
    (auto simp: remove_key_def)

lemma indexed_transfers [simp]: "indexed (m\<lparr>km_transfers := ts\<rparr>) = indexed m"
  by (simp add: indexed_def fun_eq_iff)

lemma km_inv_transfers [simp]: "km_inv (m\<lparr>km_transfers := ts\<rparr>) = km_inv m"
  by (simp add: km_inv_def)

lemma issue_loop_frame [frame_simps]:
  "km_vouch_counts (fst (issue_loop H v now n m ctr)) = km_vouch_counts m"
  "km_vouches (fst (issue_loop H v now n m ctr)) = km_vouches m"
  by (induction n arbitrary: m ctr) (simp_all add: Key_create_def frame_simps)

lemma vouch_key_Suc: "vouch_key v now (ctr + 1) i = vouch_key v now ctr (Suc i)"
  by (simp add: vouch_key_def add.assoc)

lemma owned_keys_add_key:
  "map_of (km_keys m) (get_key_id H k) = None \<Longrightarrow>
   owned_keys (add_key H k m) own t =
     (if own = key_owner k \<and> t = key_type k then {get_key_id H k} else {}) \<union> owned_keys m own t"
  by (auto simp: owned_keys_def keys_add_key domIff)

lemma issue_loop_keys:
  assumes "inj_on (\<lambda>i. get_key_id H (vouch_key v now ctr i)) {..<n}"
    and "\<forall>i<n. map_of (km_keys m) (get_key_id H (vouch_key v now ctr i)) = None"
    and "km_inv m"
  shows "km_inv (fst (issue_loop H v now n m ctr)) \<and>
    owned_keys (fst (issue_loop H v now n m ctr)) own t =
      (if own = vo_vouchee v \<and> t = vo_key_type v
       then (\<lambda>i. get_key_id H (vouch_key v now ctr i)) ` {..<n} else {}) \<union> owned_keys m own t"
  using assms
proof (induction n arbitrary: m ctr)
  case 0
  then show ?case by simp
next
  case (Suc n)
  let ?kid = "\<lambda>i. get_key_id H (vouch_key v now ctr i)"
  let ?k0 = "vouch_key v now ctr 0"
  have k0: "Key_create ctr (vo_key_type v) (vo_vouchee v) now ''vouched'' = (?k0, ctr + 1)"
    by (simp add: vouch_key_def Key_create_def)
  have fields: "key_owner ?k0 = vo_vouchee v" "key_type ?k0 = vo_key_type v"
    by (simp_all add: vouch_key_def Key_create_def)
  have fresh0: "map_of (km_keys m) (?kid 0) = None" using Suc.prems(2) by simp
  have inj: "inj_on (\<lambda>i. get_key_id H (vouch_key v now (ctr + 1) i)) {..<n}"
    using Suc.prems(1) by (auto simp: inj_on_def vouch_key_Suc)
  have other: "?kid (Suc i) \<noteq> ?kid 0" if "i < n" for i
    using Suc.prems(1) that by (force simp: inj_on_def)
  have fresh: "\<forall>i<n. map_of (km_keys (add_key H ?k0 m))
      (get_key_id H (vouch_key v now (ctr + 1) i)) = None"
    using Suc.prems(2) other fresh0 by (auto simp: keys_add_key vouch_key_Suc domIff)
  have range: "?kid ` {..<Suc n} = insert (?kid 0) ((\<lambda>i. ?kid (Suc i)) ` {..<n})"
    by (simp add: lessThan_Suc_eq_insert_0 image_image)
  note IH = Suc.IH [OF inj fresh km_inv_add_key [OF Suc.prems(3) fresh0]]
  show ?case
    unfolding issue_loop.simps k0 prod.case range
    using IH by (auto simp: owned_keys_add_key [OF fresh0] fields vouch_key_Suc)
qed

lemma vouch_count_frame [frame_simps]:
  "vouch_count (add_key H k m) n = vouch_count m n"
  "vouch_count (snd (remove_key kid m)) n = vouch_count m n"
  "vouch_count (fst (snd (execute_transfer H ctr m t))) n = vouch_count m n"
proof -
  show a: "vouch_count (add_key H k m) n = vouch_count m n" for k m
    by (simp add: vouch_count_def frame_simps)
  show r: "vouch_count (snd (remove_key kid m)) n = vouch_count m n" for kid m
    by (simp add: vouch_count_def remove_key_def split: option.splits)
  show "vouch_count (fst (snd (execute_transfer H ctr m t))) n = vouch_count m n"
  proof (cases "\<exists>k. get_key m (tr_key_id t) = Some k \<and> key_owner k = tr_from t")
    case True
    then show ?thesis
      using a [of "transferred_key ctr t" "snd (remove_key (tr_key_id t) m)"] r [of "tr_key_id t" m]
      by (auto simp: execute_transfer_ok vouch_count_def)
  next
    case False
    then show ?thesis by (simp add: execute_transfer_fail)
  qed
qed

lemma vouch_count_execute_vouch [frame_simps]:
  "vouch_count (fst (snd (execute_vouch H ctr m v now))) n =
     (if vo_voucher v = n then vouch_count m n + 1 else vouch_count m n)"
  by (auto simp: execute_vouch_def vouch_count_def frame_simps split: prod.splits)
    (metis fst_conv issue_loop_frame(1))+

lemma vouch_count_step:
  "vouch_count (fst (km_step H s x)) n = vouch_count (fst s) n + (if vouched_by n x then 1 else 0)"
  by (cases s; cases x) (simp_all add: frame_simps)

lemma vouch_count_run:
  "vouch_count (fst (km_run H s xs)) n =
     vouch_count (fst s) n + word_of_nat (length (filter (vouched_by n) xs))"
  by (induction xs arbitrary: s) (simp_all add: km_run_def vouch_count_step)

lemma can_vouch_count:
  "can_vouch m v w t \<longleftrightarrow> v \<noteq> w \<and> vouch_count m v < MAX_VOUCH_PER_EPOCH"
  by (auto simp: can_vouch_def vouch_count_def MAX_VOUCH_PER_EPOCH_def split: option.splits)

section \<open>Properties\<close>

definition sample_node :: "nat \<Rightarrow> NodeID" where
  "sample_node n = NodeID (replicate 32 (word_of_nat n))"

definition sample_key :: Key where
  "sample_key = fst (Key_create 7 SERVICE (sample_node 1) 1000 ''pow'')"

definition sample_transfer :: KeyTransfer where
  "sample_transfer = \<lparr>tr_key_id = ''k'', tr_from = sample_node 1, tr_to = sample_node 2,
     tr_key_type = SERVICE, tr_timestamp = 5, tr_reason = ''gift'',
     tr_signature = replicate 64 0\<rparr>"

definition sample_vouch :: KeyVouch where
  "sample_vouch = \<lparr>vo_voucher = sample_node 1, vo_vouchee = sample_node 2, vo_key_type = NODE,
     vo_key_count = 1, vo_timestamp = 5, vo_statement = ''ok'', vo_signature = replicate 64 0\<rparr>"

text \<open>
  keys, transfers and vouches survive serialisation: each \<open>from_bytes\<close> (\<open>deserialize\<close>)
  returns the record that \<open>to_bytes\<close> (\<open>serialize\<close>) wrote, also when more bytes follow, so
  that two different records never have encodings of which one extends the other.
\<close>

theorem key_records_roundtrip:
  assumes "wf_Key k" "wf_KeyTransfer t" "wf_KeyVouch v"
  shows "Key_deserialize (Key_serialize k @ rest) = Some k \<and>
    KeyTransfer_from_bytes (KeyTransfer_to_bytes t @ rest) = Some t \<and>
    KeyVouch_from_bytes (KeyVouch_to_bytes v @ rest) = Some v"
  using assms keyc.dec_enc_append transferc.dec_enc_append vouchc.dec_enc_append by blast

theorem key_records_roundtrip_witness:
  "Key_deserialize (Key_serialize sample_key @ [1, 2, 3]) = Some sample_key \<and>
   KeyTransfer_from_bytes (KeyTransfer_to_bytes sample_transfer @ [1, 2, 3]) = Some sample_transfer \<and>
   KeyVouch_from_bytes (KeyVouch_to_bytes sample_vouch @ [1, 2, 3]) = Some sample_vouch"
  by (rule key_records_roundtrip)
    (simp_all add: wf_Key_def wf_KeyTransfer_def wf_KeyVouch_def sample_key_def Key_create_def
      sample_transfer_def sample_vouch_def sample_node_def)

text \<open>
  key identifiers are unique up to a hash collision: two keys with the same identifier
  have the same owner, issue time and nonce, or BLAKE3 maps the different texts of the two
  keys to one hash.
\<close>

theorem get_key_id_unique:
  assumes "get_key_id H k = get_key_id H k'"
  shows "(key_owner k = key_owner k' \<and> issued_timestamp k = issued_timestamp k' \<and>
      key_nonce k = key_nonce k') \<or>
    (key_id_material k \<noteq> key_id_material k' \<and>
     H (bytes_of_string (key_id_material k)) = H (bytes_of_string (key_id_material k')))"
proof -
  have "H (bytes_of_string (key_id_material k)) = H (bytes_of_string (key_id_material k'))"
    using assms hash_to_hex_inject by (simp add: get_key_id_def)
  then show ?thesis using key_id_material_inject [of k k'] by blast
qed

theorem get_key_id_unique_witness:
  "(key_owner sample_key = key_owner sample_key \<and>
      issued_timestamp sample_key = issued_timestamp sample_key \<and>
      key_nonce sample_key = key_nonce sample_key) \<or>
    (key_id_material sample_key \<noteq> key_id_material sample_key \<and>
     take 32 (bytes_of_string (key_id_material sample_key)) =
     take 32 (bytes_of_string (key_id_material sample_key)))"
  by (rule get_key_id_unique [of "take 32"]) simp

text \<open>
  while the owner index and the inventory agree, \<open>count_keys\<close> returns the number of keys
  of the inventory with the given owner and type (modulo \<open>2^32\<close>, the width of the counter).
\<close>

theorem count_keys_counts:
  "km_inv m \<Longrightarrow> count_keys m own t = word_of_nat (card (owned_keys m own t))"
  by (rule count_keys_card)

definition sample_manager :: KeyManager where
  "sample_manager = add_key (take 32) sample_key KeyManager_init"

lemma sample_manager_inv: "km_inv sample_manager"
  unfolding sample_manager_def
  by (rule km_inv_add_key [OF km_inv_init]) (simp add: KeyManager_init_def)

theorem count_keys_counts_witness:
  "count_keys sample_manager (sample_node 1) SERVICE =
     word_of_nat (card (owned_keys sample_manager (sample_node 1) SERVICE))"
  by (rule count_keys_counts [OF sample_manager_inv])

text \<open>
  \<open>execute_transfer\<close> succeeds exactly when the named key exists and belongs to the
  sender, whatever the signature and key type of the transfer record say; when it fails,
  the manager and the key counter are unchanged.
\<close>

theorem execute_transfer_guard:
  "(fst (execute_transfer H ctr m t) \<longleftrightarrow>
      (\<exists>k. get_key m (tr_key_id t) = Some k \<and> key_owner k = tr_from t)) \<and>
   (fst (execute_transfer H ctr m t) \<or> execute_transfer H ctr m t = (False, m, ctr))"
proof (cases "\<exists>k. get_key m (tr_key_id t) = Some k \<and> key_owner k = tr_from t")
  case True
  then obtain k where k: "get_key m (tr_key_id t) = Some k" "key_owner k = tr_from t" by blast
  from execute_transfer_ok [OF k, of H ctr] True show ?thesis by simp
next
  case False
  from execute_transfer_fail [OF this, of H ctr] False show ?thesis by simp
qed

text \<open>
  C3: a transfer that is executed conserves keys and keeps the inventory and its index in
  agreement: the old identifier disappears, one fresh key owned by the recipient, of the
  type the transfer record names, takes its place, every other key stays, and the record is
  appended to the history. The new identifier must not be in use (no hash collision).
\<close>

theorem execute_transfer_conserves:
  assumes "km_inv m" "get_key m (tr_key_id t) = Some k" "key_owner k = tr_from t"
    and "map_of (km_keys m) (get_key_id H (transferred_key ctr t)) = None"
  defines "m' \<equiv> fst (snd (execute_transfer H ctr m t))"
  shows "km_inv m' \<and>
    map_of (km_keys m') = ((map_of (km_keys m))(tr_key_id t := None))
       (get_key_id H (transferred_key ctr t) \<mapsto> transferred_key ctr t) \<and>
    key_owner (transferred_key ctr t) = tr_to t \<and>
    key_type (transferred_key ctr t) = tr_key_type t \<and>
    km_transfers m' = km_transfers m @ [t]"
proof -
  let ?m1 = "snd (remove_key (tr_key_id t) m)"
  have keys1: "map_of (km_keys ?m1) = (map_of (km_keys m))(tr_key_id t := None)"
    using assms(2) by (simp add: get_key_def remove_key_Some)
  then have fresh: "map_of (km_keys ?m1) (get_key_id H (transferred_key ctr t)) = None"
    using assms(4) by simp
  have m': "m' = (add_key H (transferred_key ctr t) ?m1)\<lparr>km_transfers := km_transfers m @ [t]\<rparr>"
    by (simp add: m'_def execute_transfer_ok [OF assms(2,3)])
  have "km_inv (add_key H (transferred_key ctr t) ?m1)"
    by (rule km_inv_add_key [OF km_inv_remove_key [OF assms(1)] fresh])
  moreover have "map_of (km_keys (add_key H (transferred_key ctr t) ?m1)) =
      ((map_of (km_keys m))(tr_key_id t := None))
        (get_key_id H (transferred_key ctr t) \<mapsto> transferred_key ctr t)"
    using assms(4) by (simp add: keys_add_key domIff keys1)
  ultimately show ?thesis
    by (simp add: m' transferred_key_def Key_create_def)
qed

definition sample_move :: KeyTransfer where
  "sample_move = sample_transfer\<lparr>tr_key_id := get_key_id (take 32) sample_key, tr_key_type := NODE\<rparr>"

lemma sample_manager_get: "get_key sample_manager (tr_key_id sample_move) = Some sample_key"
  by (simp add: sample_manager_def sample_move_def get_key_def keys_add_key KeyManager_init_def)

lemma take_hash_distinct:
  assumes "s \<noteq> []" "s' \<noteq> []" "hd s \<noteq> hd s'"
  shows "take 32 (bytes_of_string s) \<noteq> take 32 (bytes_of_string s')"
proof
  assume "take 32 (bytes_of_string s) = take 32 (bytes_of_string s')"
  then have "take 1 (take 32 (bytes_of_string s)) = take 1 (take 32 (bytes_of_string s'))"
    by (rule arg_cong)
  then have "bytes_of_string [hd s] = bytes_of_string [hd s']"
    using assms(1,2) by (cases s; cases s') (simp_all add: bytes_of_string_def)
  then show False using assms(3) by simp
qed

lemma sample_move_fresh:
  "map_of (km_keys sample_manager) (get_key_id (take 32) (transferred_key 8 sample_move)) = None"
proof -
  have "hd (key_id_material (transferred_key 8 sample_move)) = CHR ''n''"
    "hd (key_id_material sample_key) = CHR ''s''"
    by (simp_all add: key_id_material_def transferred_key_def Key_create_def sample_move_def
        sample_key_def key_type_to_string_def)
  then have "get_key_id (take 32) (transferred_key 8 sample_move) \<noteq> get_key_id (take 32) sample_key"
    unfolding get_key_id_def
    by (intro notI, drule_tac hash_to_hex_inject)
      (erule take_hash_distinct [THEN notE, rotated -1], simp_all add: key_id_material_def)
  then show ?thesis by (simp add: sample_manager_def keys_add_key KeyManager_init_def)
qed

theorem execute_transfer_conserves_witness:
  "km_inv (fst (snd (execute_transfer (take 32) 8 sample_manager sample_move))) \<and>
   map_of (km_keys (fst (snd (execute_transfer (take 32) 8 sample_manager sample_move)))) =
     ((map_of (km_keys sample_manager))(tr_key_id sample_move := None))
       (get_key_id (take 32) (transferred_key 8 sample_move) \<mapsto> transferred_key 8 sample_move) \<and>
   key_owner (transferred_key 8 sample_move) = tr_to sample_move \<and>
   key_type (transferred_key 8 sample_move) = tr_key_type sample_move \<and>
   km_transfers (fst (snd (execute_transfer (take 32) 8 sample_manager sample_move))) =
     km_transfers sample_manager @ [sample_move]"
  by (rule execute_transfer_conserves [OF sample_manager_inv sample_manager_get _ sample_move_fresh])
    (simp add: sample_key_def Key_create_def sample_move_def sample_transfer_def)

text \<open>
  the sender's signature on a transfer is over exactly the message that
  \<open>verify_signature\<close> rebuilds: when Ed25519 accepts what the sender's secret key signs, a
  transfer that \<open>create_transfer\<close> returns verifies under the sender's public key, and
  \<open>execute_transfer\<close> accepts it in the same state.
\<close>

theorem create_transfer_verifies:
  assumes "\<forall>msg. verify msg (sign msg sk) pk"
    and "create_transfer sign now m kid frm to reason sk = Some t"
  shows "KeyTransfer_verify_signature verify t pk \<and> fst (execute_transfer H ctr m t) \<and>
    tr_key_id t = kid \<and> tr_from t = frm \<and> tr_to t = to"
proof -
  define u where "u k = \<lparr>tr_key_id = kid, tr_from = frm, tr_to = to, tr_key_type = key_type k,
    tr_timestamp = now, tr_reason = reason, tr_signature = replicate 64 0\<rparr>" for k :: Key
  from assms(2) obtain k where k: "map_of (km_keys m) kid = Some k" "key_owner k = frm"
    and t: "t = (u k)\<lparr>tr_signature := sign (KeyTransfer_message (u k)) sk\<rparr>"
    using KeyTransfer_unsigned [of "u k" for k]
    by (auto simp: create_transfer_def Let_def u_def [symmetric] split: option.splits if_splits)
      (simp_all add: u_def)
  have sig: "tr_signature t = sign (KeyTransfer_message t) sk" by (simp add: t)
  have "KeyTransfer_verify_signature verify t pk"
    using assms(1) by (simp add: KeyTransfer_verify_signature_def sig)
  moreover have "tr_key_id t = kid" "tr_from t = frm" "tr_to t = to"
    by (simp_all add: t u_def)
  ultimately show ?thesis
    using execute_transfer_ok [of m t k H ctr] k by (simp add: get_key_def)
qed

theorem create_transfer_verifies_witness:
  "\<exists>t. create_transfer (\<lambda>msg sk. sk @ msg) 9 sample_manager (tr_key_id sample_move)
        (sample_node 1) (sample_node 2) ''gift'' [1] = Some t \<and>
     KeyTransfer_verify_signature (\<lambda>msg sig pk. sig = pk @ msg) t [1] \<and>
     fst (execute_transfer (take 32) 8 sample_manager t)"
proof -
  have keys: "map_of (km_keys sample_manager) (tr_key_id sample_move) = Some sample_key"
    using sample_manager_get by (simp add: get_key_def)
  have own: "key_owner sample_key = sample_node 1"
    by (simp add: sample_key_def Key_create_def)
  have "map_of (km_index sample_manager) (sample_node 1) = Some [tr_key_id sample_move]"
    by (simp add: sample_manager_def add_key_def KeyManager_init_def Let_def own sample_move_def)
  then obtain t where t: "create_transfer (\<lambda>msg sk. sk @ msg) 9 sample_manager
      (tr_key_id sample_move) (sample_node 1) (sample_node 2) ''gift'' [1] = Some t"
    using keys own by (auto simp: create_transfer_def Let_def MIN_KEYS_TO_TRANSFER_def)
  have "\<forall>msg. (\<lambda>msg sig pk. sig = pk @ msg) msg ((\<lambda>msg sk. sk @ msg) msg [1]) [1 :: u8]" by simp
  from create_transfer_verifies [where verify = "\<lambda>msg sig pk. sig = pk @ msg"
      and sign = "\<lambda>msg sk. sk @ msg", OF this t, of "take 32" 8] t
  show ?thesis by blast
qed

text \<open>
  executing a vouch issues exactly \<open>key_count\<close> fresh keys of the vouched type to the
  vouchee and no other key, keeps the inventory and its index in agreement, and charges the
  voucher one vouch; it always succeeds. The new identifiers must be unused and different
  from each other (no hash collision).
\<close>

theorem execute_vouch_issues:
  assumes "km_inv m"
    and "inj_on (\<lambda>i. get_key_id H (vouch_key v now ctr i)) {..<unat (vo_key_count v)}"
    and "\<forall>i < unat (vo_key_count v).
           map_of (km_keys m) (get_key_id H (vouch_key v now ctr i)) = None"
  defines "m' \<equiv> fst (snd (execute_vouch H ctr m v now))"
  shows "fst (execute_vouch H ctr m v now) \<and> km_inv m' \<and>
    owned_keys m' own t = owned_keys m own t \<union>
      (if own = vo_vouchee v \<and> t = vo_key_type v
       then (\<lambda>i. get_key_id H (vouch_key v now ctr i)) ` {..<unat (vo_key_count v)} else {}) \<and>
    vouch_count m' (vo_voucher v) = vouch_count m (vo_voucher v) + 1 \<and>
    km_vouches m' = km_vouches m @ [v]"
proof -
  let ?loop = "fst (issue_loop H v now (unat (vo_key_count v)) m ctr)"
  have m': "m' = ?loop\<lparr>km_vouches := km_vouches m @ [v],
      km_vouch_counts := omap_set (vo_voucher v)
        (opt_or 0 (map_of (km_vouch_counts m) (vo_voucher v)) + 1) (km_vouch_counts m)\<rparr>"
    using issue_loop_frame [of H v now "unat (vo_key_count v)" m ctr]
    by (simp add: m'_def execute_vouch_def case_prod_beta)
  have same: "km_inv m' = km_inv ?loop" "owned_keys m' own t = owned_keys ?loop own t"
    by (simp_all add: m' km_inv_def owned_keys_def indexed_def)
  have "vouch_count m' (vo_voucher v) = vouch_count m (vo_voucher v) + 1"
    "km_vouches m' = km_vouches m @ [v]"
    by (simp_all add: m' vouch_count_def)
  moreover have "fst (execute_vouch H ctr m v now)"
    by (simp add: execute_vouch_def split: prod.split)
  ultimately show ?thesis
    using issue_loop_keys [OF assms(2,3,1), of own t] by (auto simp: same)
qed

theorem execute_vouch_issues_witness:
  "fst (execute_vouch (take 32) 8 KeyManager_init sample_vouch 5) \<and>
   owned_keys (fst (snd (execute_vouch (take 32) 8 KeyManager_init sample_vouch 5))) (sample_node 2) NODE
     \<noteq> {}"
proof -
  have "inj_on (\<lambda>i. get_key_id (take 32) (vouch_key sample_vouch 5 8 i)) {..<unat (vo_key_count sample_vouch)}"
    by (simp add: sample_vouch_def inj_on_def)
  moreover have "\<forall>i < unat (vo_key_count sample_vouch).
      map_of (km_keys KeyManager_init) (get_key_id (take 32) (vouch_key sample_vouch 5 8 i)) = None"
    by (simp add: KeyManager_init_def)
  moreover have "unat (vo_key_count sample_vouch) = 1" "vo_vouchee sample_vouch = sample_node 2"
    "vo_key_type sample_vouch = NODE"
    by (simp_all add: sample_vouch_def)
  ultimately show ?thesis
    using execute_vouch_issues [OF km_inv_init, of "take 32" sample_vouch 5 8 "sample_node 2" NODE]
    by (auto simp: lessThan_Suc)
qed

text \<open>
  the vouch limit is for the lifetime of the manager, not per epoch: whatever operations
  are run from the initial state, a node may vouch for another exactly when it has executed
  fewer than three vouches in all (while fewer than \<open>2^32\<close> were executed). No operation
  resets the count.
\<close>

theorem vouch_limit_lifetime:
  assumes "length (filter (vouched_by n) xs) < 2 ^ 32"
  shows "can_vouch (fst (km_run H (KeyManager_init, ctr) xs)) n w t \<longleftrightarrow>
    n \<noteq> w \<and> length (filter (vouched_by n) xs) < 3"
proof -
  have "vouch_count KeyManager_init n = 0"
    by (simp add: vouch_count_def KeyManager_init_def)
  then have c: "vouch_count (fst (km_run H (KeyManager_init, ctr) xs)) n =
      word_of_nat (length (filter (vouched_by n) xs))"
    by (simp add: vouch_count_run)
  show ?thesis
    using assms by (simp add: can_vouch_count c MAX_VOUCH_PER_EPOCH_def word_less_nat_alt)
qed

theorem vouch_limit_lifetime_witness:
  "\<not> can_vouch (fst (km_run (take 32) (KeyManager_init, 1) (replicate 3 (ExecVouch sample_vouch 5))))
      (sample_node 1) (sample_node 3) NODE"
proof -
  have three: "length (filter (vouched_by (sample_node 1)) (replicate 3 (ExecVouch sample_vouch 5))) = 3"
    by (simp add: sample_vouch_def)
  have "length (filter (vouched_by (sample_node 1)) (replicate 3 (ExecVouch sample_vouch 5))) < 2 ^ 32"
    unfolding three by simp
  from vouch_limit_lifetime [OF this, of "take 32" 1 "sample_node 3" NODE]
  show ?thesis by (simp only: three) simp
qed

text \<open>
  key decay. A key last used at or before \<open>now\<close> has decayed exactly when 30 days have
  passed, and until then \<open>time_until_decay\<close> is the remaining time, so that the key decays
  exactly when that time has elapsed.
\<close>

theorem decay_after_period:
  assumes "last_used_timestamp k \<le> now"
  shows "(has_decayed k now \<longleftrightarrow> unat now - unat (last_used_timestamp k) \<ge> 2592000) \<and>
    unat (time_until_decay k now) = 2592000 - (unat now - unat (last_used_timestamp k))"
proof -
  have age: "unat (now - last_used_timestamp k) = unat now - unat (last_used_timestamp k)"
    using assms by (rule unat_sub)
  have hd: "has_decayed k now \<longleftrightarrow> unat now - unat (last_used_timestamp k) \<ge> 2592000"
    by (simp add: has_decayed_def DECAY_PERIOD_SECONDS_def word_le_nat_alt age)
  show ?thesis
  proof (cases "has_decayed k now")
    case True
    with hd show ?thesis by (simp add: time_until_decay_def)
  next
    case False
    with hd have "now - last_used_timestamp k \<le> 2592000"
      by (simp add: word_le_nat_alt age)
    then have "unat (2592000 - (now - last_used_timestamp k)) =
        2592000 - (unat now - unat (last_used_timestamp k))"
      by (simp add: unat_sub age)
    with hd False show ?thesis
      by (simp add: time_until_decay_def DECAY_PERIOD_SECONDS_def)
  qed
qed

theorem decay_after_period_witness:
  "(has_decayed sample_key 1001 \<longleftrightarrow> unat (1001 :: u64) - unat (last_used_timestamp sample_key) \<ge> 2592000) \<and>
    unat (time_until_decay sample_key 1001) = 2592000 - (unat (1001 :: u64) - unat (last_used_timestamp sample_key))"
  by (rule decay_after_period) (simp add: sample_key_def Key_create_def)

text \<open>
  a key whose last use lies in the future (a clock that was set back) counts as decayed
  at once, because the unsigned age wraps around, for every gap of at most
  \<open>2^64 - 30 days\<close>.
\<close>

theorem decay_clock_skew:
  assumes "now < last_used_timestamp k"
    and "unat (last_used_timestamp k) - unat now \<le> 2 ^ 64 - 2592000"
  shows "has_decayed k now \<and> time_until_decay k now = 0"
proof -
  have u: "unat now < unat (last_used_timestamp k)" using assms(1) by (simp add: word_less_nat_alt)
  have "unat (now - last_used_timestamp k) = 2 ^ 64 - (unat (last_used_timestamp k) - unat now)"
    using u by (simp add: unat_sub_if')
  then have "has_decayed k now"
    using assms(2) by (simp add: has_decayed_def DECAY_PERIOD_SECONDS_def word_le_nat_alt)
  then show ?thesis by (simp add: time_until_decay_def)
qed

theorem decay_clock_skew_witness: "has_decayed sample_key 999 \<and> time_until_decay sample_key 999 = 0"
  by (rule decay_clock_skew) (simp_all add: sample_key_def Key_create_def)

end
