(* ===== verification/Ledger_Data.thy ===== *)
theory Ledger_Data
  imports Keys
begin

text \<open>
  The records of the ledger and their wire format: \<open>LedgerEvent\<close> and the four payload
  structures of \<open>src/core/ledger/ledger.hpp\<close>, with \<open>to_bytes\<close>, \<open>from_bytes\<close>,
  \<open>verify_signature\<close> and \<open>compute_hash\<close> of \<open>src/core/ledger/ledger.cpp\<close>.

  \<open>EventType\<close> and \<open>IssuanceMethod\<close> are enums over \<open>uint8_t\<close>, cast from any byte by the
  decoders, so they are bytes with named constants. BLAKE3 is the parameter \<open>H\<close>, Ed25519
  verification the parameter \<open>verify\<close>. The signed \<open>int32_t score_delta\<close> is the 32-bit word
  with the same bits.
\<close>

type_synonym EventType = u8
type_synonym IssuanceMethod = u8

definition POW :: IssuanceMethod where [simp]: "POW = 1"
definition POSTAKE :: IssuanceMethod where [simp]: "POSTAKE = 2"
definition VOUCHED :: IssuanceMethod where [simp]: "VOUCHED = 3"

definition NODE_JOINED :: EventType where [simp]: "NODE_JOINED = 1"
definition NODE_LEFT :: EventType where [simp]: "NODE_LEFT = 2"
definition KEY_ISSUED :: EventType where [simp]: "KEY_ISSUED = 10"
definition KEY_REVOKED :: EventType where [simp]: "KEY_REVOKED = 12"
definition NETWORK_CREATED :: EventType where [simp]: "NETWORK_CREATED = 20"
definition NETWORK_MEMBER_ADDED :: EventType where [simp]: "NETWORK_MEMBER_ADDED = 23"
definition NETWORK_MEMBER_REMOVED :: EventType where [simp]: "NETWORK_MEMBER_REMOVED = 24"
definition THING_REPLICATED :: EventType where [simp]: "THING_REPLICATED = 31"
definition THING_REMOVED :: EventType where [simp]: "THING_REMOVED = 32"
definition REPUTATION_UPDATED :: EventType where [simp]: "REPUTATION_UPDATED = 40"
definition POW_SOLUTION_SUBMITTED :: EventType where [simp]: "POW_SOLUTION_SUBMITTED = 50"
definition POSTAKE_CONTRIBUTION :: EventType where [simp]: "POSTAKE_CONTRIBUTION = 51"

record LedgerEvent =
  event_id :: Hash256
  event_type :: EventType
  source_node :: NodeID
  event_timestamp :: u64
  event_epoch :: u64
  previous_hash :: Hash256
  event_data :: bytes
  event_signature :: bytes

record KeyIssuanceData =
  ki_key_type :: KeyType
  ki_count :: u32
  ki_method :: IssuanceMethod
  ki_proof :: Hash256

record NetworkMembershipData =
  nm_network_id :: Hash256
  nm_member_node :: NodeID
  nm_role :: string

record ThingReplicationData =
  td_content_hash :: ContentHash
  td_network_id :: Hash256
  td_hosting_node :: NodeID
  td_size_bytes :: u64

record ReputationUpdateData =
  ru_subject_node :: NodeID
  ru_score_delta :: u32
  ru_reason :: string
  ru_evidence :: Hash256

section \<open>LedgerEvent\<close>

definition LedgerEvent_to_bytes :: "LedgerEvent \<Rightarrow> bytes" where
  "LedgerEvent_to_bytes e =
     event_id e @ [event_type e] @ node_bytes (source_node e)
     @ le_bytes 8 (event_timestamp e) @ le_bytes 8 (event_epoch e) @ previous_hash e
     @ le_bytes 4 (word_of_nat (length (event_data e)) :: u32) @ event_data e
     @ event_signature e"

definition LedgerEvent_from_bytes :: "bytes \<Rightarrow> LedgerEvent option" where
  "LedgerEvent_from_bytes bs =
     (if length bs < 32 + 1 + 32 + 8 + 8 + 32 + 4 + 64 then None
      else let len = unat (le_word (slice 113 4 bs) :: u32) in
        if 117 + len + 64 > length bs then None
        else Some \<lparr>event_id = slice 0 32 bs, event_type = bs ! 32,
               source_node = NodeID (slice 33 32 bs),
               event_timestamp = le_word (slice 65 8 bs),
               event_epoch = le_word (slice 73 8 bs),
               previous_hash = slice 81 32 bs,
               event_data = slice 117 len bs,
               event_signature = slice (117 + len) 64 bs\<rparr>)"

text \<open>The message \<open>verify_signature\<close> checks: no data length, no signature.\<close>

definition LedgerEvent_message :: "LedgerEvent \<Rightarrow> bytes" where
  "LedgerEvent_message e =
     event_id e @ [event_type e] @ node_bytes (source_node e)
     @ le_bytes 8 (event_timestamp e) @ le_bytes 8 (event_epoch e) @ previous_hash e
     @ event_data e"

definition LedgerEvent_verify_signature ::
  "(bytes \<Rightarrow> bytes \<Rightarrow> bytes \<Rightarrow> bool) \<Rightarrow> LedgerEvent \<Rightarrow> bytes \<Rightarrow> bool" where
  "LedgerEvent_verify_signature verify e pk = verify (LedgerEvent_message e) (event_signature e) pk"

definition compute_hash :: "(bytes \<Rightarrow> Hash256) \<Rightarrow> LedgerEvent \<Rightarrow> Hash256" where
  "compute_hash H e = H (LedgerEvent_to_bytes e)"

section \<open>Payloads\<close>

definition KeyIssuanceData_to_bytes :: "KeyIssuanceData \<Rightarrow> bytes" where
  "KeyIssuanceData_to_bytes d = [ki_key_type d] @ le_bytes 4 (ki_count d) @ [ki_method d] @ ki_proof d"

definition KeyIssuanceData_from_bytes :: "bytes \<Rightarrow> KeyIssuanceData option" where
  "KeyIssuanceData_from_bytes bs =
     (if length bs < 1 + 4 + 1 + 32 then None
      else Some \<lparr>ki_key_type = bs ! 0, ki_count = le_word (slice 1 4 bs), ki_method = bs ! 5,
                 ki_proof = slice 6 32 bs\<rparr>)"

text \<open>
  \<open>uint16_t len = size; push_back(len & 0xFF); push_back((len >> 8) & 0xFF);\<close> and the
  expression that reads it back, \<open>bytes[offset] | (uint16_t(bytes[offset + 1]) << 8)\<close>.
\<close>

definition put_len16 :: "nat \<Rightarrow> bytes" where
  "put_len16 n = (let len = (word_of_nat n :: u16) in
     [ucast (len AND 0xFF), ucast (drop_bit 8 len AND 0xFF)])"

definition get_len16 :: "bytes \<Rightarrow> nat \<Rightarrow> u16" where
  "get_len16 bs off = ucast (bs ! off) OR push_bit 8 (ucast (bs ! (off + 1)))"

definition NetworkMembershipData_to_bytes :: "NetworkMembershipData \<Rightarrow> bytes" where
  "NetworkMembershipData_to_bytes d =
     nm_network_id d @ node_bytes (nm_member_node d) @ put_len16 (length (nm_role d))
     @ bytes_of_string (nm_role d)"

definition NetworkMembershipData_from_bytes :: "bytes \<Rightarrow> NetworkMembershipData option" where
  "NetworkMembershipData_from_bytes bs =
     (if length bs < 32 + 32 + 2 then None
      else let len = unat (get_len16 bs 64) in
        if 66 + len > length bs then None
        else Some \<lparr>nm_network_id = slice 0 32 bs, nm_member_node = NodeID (slice 32 32 bs),
                   nm_role = string_of_bytes (slice 66 len bs)\<rparr>)"

definition ThingReplicationData_to_bytes :: "ThingReplicationData \<Rightarrow> bytes" where
  "ThingReplicationData_to_bytes d =
     content_bytes (td_content_hash d) @ td_network_id d @ node_bytes (td_hosting_node d)
     @ le_bytes 8 (td_size_bytes d)"

definition ThingReplicationData_from_bytes :: "bytes \<Rightarrow> ThingReplicationData option" where
  "ThingReplicationData_from_bytes bs =
     (if length bs < 32 + 32 + 32 + 8 then None
      else Some \<lparr>td_content_hash = ContentHash (slice 0 32 bs), td_network_id = slice 32 32 bs,
                 td_hosting_node = NodeID (slice 64 32 bs), td_size_bytes = le_word (slice 96 8 bs)\<rparr>)"

text \<open>\<open>static_cast<uint8_t>(score_delta >> (i * 8))\<close> shifts a signed value arithmetically.\<close>

definition put_i32 :: "u32 \<Rightarrow> bytes" where
  "put_i32 w = map (\<lambda>i. ucast (signed_drop_bit (8 * i) w)) [0..<4]"

definition ReputationUpdateData_to_bytes :: "ReputationUpdateData \<Rightarrow> bytes" where
  "ReputationUpdateData_to_bytes d =
     node_bytes (ru_subject_node d) @ put_i32 (ru_score_delta d)
     @ put_len16 (length (ru_reason d)) @ bytes_of_string (ru_reason d) @ ru_evidence d"

definition ReputationUpdateData_from_bytes :: "bytes \<Rightarrow> ReputationUpdateData option" where
  "ReputationUpdateData_from_bytes bs =
     (if length bs < 32 + 4 + 2 + 32 then None
      else let len = unat (get_len16 bs 36) in
        if 38 + len + 32 > length bs then None
        else Some \<lparr>ru_subject_node = NodeID (slice 0 32 bs), ru_score_delta = le_word (slice 32 4 bs),
                   ru_reason = string_of_bytes (slice 38 len bs),
                   ru_evidence = slice (38 + len) 32 bs\<rparr>)"

section \<open>Well-formedness\<close>

definition wf_event :: "LedgerEvent \<Rightarrow> bool" where
  "wf_event e \<longleftrightarrow> length (event_id e) = 32 \<and> length (node_bytes (source_node e)) = 32 \<and>
     length (previous_hash e) = 32 \<and> length (event_signature e) = 64 \<and>
     length (event_data e) < 2 ^ 32"

definition wf_KeyIssuanceData :: "KeyIssuanceData \<Rightarrow> bool" where
  "wf_KeyIssuanceData d \<longleftrightarrow> length (ki_proof d) = 32"

definition wf_NetworkMembershipData :: "NetworkMembershipData \<Rightarrow> bool" where
  "wf_NetworkMembershipData d \<longleftrightarrow> length (nm_network_id d) = 32 \<and>
     length (node_bytes (nm_member_node d)) = 32 \<and> length (nm_role d) < 2 ^ 16"

definition wf_ThingReplicationData :: "ThingReplicationData \<Rightarrow> bool" where
  "wf_ThingReplicationData d \<longleftrightarrow> length (content_bytes (td_content_hash d)) = 32 \<and>
     length (td_network_id d) = 32 \<and> length (node_bytes (td_hosting_node d)) = 32"

definition wf_ReputationUpdateData :: "ReputationUpdateData \<Rightarrow> bool" where
  "wf_ReputationUpdateData d \<longleftrightarrow> length (node_bytes (ru_subject_node d)) = 32 \<and>
     length (ru_reason d) < 2 ^ 16 \<and> length (ru_evidence d) = 32"

section \<open>Lemmas\<close>

lemma length_put_len16 [simp]: "length (put_len16 n) = 2"
  by (simp add: put_len16_def Let_def)

lemma put_len16_le_bytes: "put_len16 n = le_bytes 2 (word_of_nat n :: u16)"
proof -
  have "(ucast (w AND 0xFF) :: u8) = ucast w" for w :: u16
    by (rule bit_word_eqI) (auto simp: bit_ucast_iff bit_and_iff bit_numeral_word_iff numeral_eq_Suc
        less_Suc_eq)
  then show ?thesis by (simp add: put_len16_def le_bytes_def numeral_2_eq_2 Let_def)
qed

lemma get_len16_le_word:
  "off + 1 < length bs \<Longrightarrow> get_len16 bs off = le_word (slice off 2 bs)"
proof -
  assume "off + 1 < length bs"
  then have "slice off 2 bs = [bs ! off, bs ! (off + 1)]"
    by (simp add: slice_def numeral_2_eq_2 take_Suc_conv_app_nth)
  then show ?thesis by (simp add: get_len16_def le_word_def)
qed

lemma length_put_i32 [simp]: "length (put_i32 w) = 4"
  by (simp add: put_i32_def)

lemma put_i32_le_bytes: "put_i32 w = le_bytes 4 w"
proof (rule nth_equalityI)
  fix i assume "i < length (put_i32 w)"
  then have i: "i < 4" by simp
  show "put_i32 w ! i = le_bytes 4 w ! i"
    using i by (intro bit_word_eqI)
      (auto simp: put_i32_def le_bytes_def bit_ucast_iff bit_signed_drop_bit_iff bit_drop_bit_eq)
qed simp

lemma nth_append_at: "length xs = n \<Longrightarrow> (xs @ y # ys) ! n = y"
  by auto

lemma LedgerEvent_codec:
  assumes "wf_event e"
  shows "LedgerEvent_from_bytes (LedgerEvent_to_bytes e @ rest) = Some e"
proof -
  note len = assms [unfolded wf_event_def]
  have n32: "(LedgerEvent_to_bytes e @ rest) ! 32 = event_type e"
    using len by (simp add: LedgerEvent_to_bytes_def nth_append_at)
  show ?thesis
    unfolding LedgerEvent_from_bytes_def n32
    using len by (cases e) (simp add: LedgerEvent_to_bytes_def codec_simps)
qed

lemma KeyIssuanceData_codec:
  assumes "wf_KeyIssuanceData d"
  shows "KeyIssuanceData_from_bytes (KeyIssuanceData_to_bytes d @ rest) = Some d"
proof -
  have "(KeyIssuanceData_to_bytes d @ rest) ! 5 = ki_method d"
    using nth_append_at [of "ki_key_type d # le_bytes 4 (ki_count d)" 5 "ki_method d" "ki_proof d @ rest"]
    by (simp add: KeyIssuanceData_to_bytes_def)
  then show ?thesis
    using assms unfolding KeyIssuanceData_from_bytes_def wf_KeyIssuanceData_def
    by (cases d) (simp add: KeyIssuanceData_to_bytes_def codec_simps)
qed

lemma NetworkMembershipData_codec_any:
  assumes "length (nm_network_id d) = 32" "length (node_bytes (nm_member_node d)) = 32"
  shows "NetworkMembershipData_from_bytes (NetworkMembershipData_to_bytes d @ rest) =
    Some (d\<lparr>nm_role := take (length (nm_role d) mod 65536) (nm_role d)\<rparr>)"
proof -
  let ?bs = "NetworkMembershipData_to_bytes d @ rest"
  have "length ?bs \<ge> 66" using assms by (simp add: NetworkMembershipData_to_bytes_def)
  then have "get_len16 ?bs 64 = le_word (slice 64 2 ?bs)" by (intro get_len16_le_word) simp
  also have "slice 64 2 ?bs = le_bytes 2 (word_of_nat (length (nm_role d)) :: u16)"
    using assms by (simp add: NetworkMembershipData_to_bytes_def codec_simps put_len16_le_bytes)
  finally have len: "unat (get_len16 ?bs 64) = length (nm_role d) mod 65536"
    by (simp add: unat_of_nat take_bit_eq_mod)
  have le: "length (nm_role d) mod 65536 \<le> length (nm_role d)" by simp
  have role: "slice 66 (length (nm_role d) mod 65536) ?bs =
      take (length (nm_role d) mod 65536) (bytes_of_string (nm_role d))"
    using assms le by (simp add: NetworkMembershipData_to_bytes_def codec_simps) (simp add: slice_def)
  have str: "string_of_bytes (take n (bytes_of_string r)) = take n r" for n r
    by (metis bytes_of_string_def string_of_bytes_of_string take_map)
  show ?thesis
    unfolding NetworkMembershipData_from_bytes_def len Let_def role str
    using assms le by (cases d) (simp add: NetworkMembershipData_to_bytes_def codec_simps)
qed

lemma NetworkMembershipData_codec:
  "wf_NetworkMembershipData d \<Longrightarrow>
   NetworkMembershipData_from_bytes (NetworkMembershipData_to_bytes d @ rest) = Some d"
  by (simp add: wf_NetworkMembershipData_def NetworkMembershipData_codec_any)

lemma ThingReplicationData_codec:
  "wf_ThingReplicationData d \<Longrightarrow>
   ThingReplicationData_from_bytes (ThingReplicationData_to_bytes d @ rest) = Some d"
  unfolding ThingReplicationData_from_bytes_def wf_ThingReplicationData_def
  by (cases d) (simp add: ThingReplicationData_to_bytes_def codec_simps)

lemma ReputationUpdateData_codec:
  assumes "wf_ReputationUpdateData d"
  shows "ReputationUpdateData_from_bytes (ReputationUpdateData_to_bytes d @ rest) = Some d"
proof -
  let ?bs = "ReputationUpdateData_to_bytes d @ rest"
  note wf = assms [unfolded wf_ReputationUpdateData_def]
  have "length ?bs \<ge> 70" using wf by (simp add: ReputationUpdateData_to_bytes_def)
  then have "get_len16 ?bs 36 = le_word (slice 36 2 ?bs)" by (intro get_len16_le_word) simp
  also have "slice 36 2 ?bs = le_bytes 2 (word_of_nat (length (ru_reason d)) :: u16)"
    using wf by (simp add: ReputationUpdateData_to_bytes_def codec_simps put_len16_le_bytes)
  finally have len: "unat (get_len16 ?bs 36) = length (ru_reason d)" using wf by simp
  show ?thesis
    unfolding ReputationUpdateData_from_bytes_def len Let_def
    using wf by (cases d) (simp add: ReputationUpdateData_to_bytes_def codec_simps put_i32_le_bytes)
qed

interpretation eventc: trailing_codec LedgerEvent_to_bytes LedgerEvent_from_bytes wf_event
  by unfold_locales (rule LedgerEvent_codec)

interpretation keyissuec: trailing_codec KeyIssuanceData_to_bytes KeyIssuanceData_from_bytes
  wf_KeyIssuanceData
  by unfold_locales (rule KeyIssuanceData_codec)

interpretation memberc: trailing_codec NetworkMembershipData_to_bytes
  NetworkMembershipData_from_bytes wf_NetworkMembershipData
  by unfold_locales (rule NetworkMembershipData_codec)

interpretation thingc: trailing_codec ThingReplicationData_to_bytes
  ThingReplicationData_from_bytes wf_ThingReplicationData
  by unfold_locales (rule ThingReplicationData_codec)

interpretation reputc: trailing_codec ReputationUpdateData_to_bytes
  ReputationUpdateData_from_bytes wf_ReputationUpdateData
  by unfold_locales (rule ReputationUpdateData_codec)

text \<open>Decoding accepts only encodings: the converse direction.\<close>

lemma slice_slice: "slice a n bs @ slice (a + n) m bs = slice a (n + m) bs"
  by (simp add: slice_def take_add add.commute [of n a])

lemma slice_one: "i < length bs \<Longrightarrow> [bs ! i] = slice i 1 bs"
  by (simp add: slice_def take_Suc_conv_app_nth)

lemma slice_drop: "a \<le> length bs \<Longrightarrow> n = length bs - a \<Longrightarrow> slice a n bs = drop a bs"
  by (simp add: slice_def)

lemma le_bytes_slice:
  fixes w :: "'a::len word"
  assumes "w = le_word (slice a n bs)" "LENGTH('a) = 8 * n" "a + n \<le> length bs"
  shows "le_bytes n w = slice a n bs"
  using assms le_bytes_le_word [of "slice a n bs", where 'a = 'a] by (simp add: min_def)

lemma LedgerEvent_decode_sound:
  assumes "LedgerEvent_from_bytes bs = Some e"
  shows "wf_event e \<and> bs = LedgerEvent_to_bytes e @ drop (length (LedgerEvent_to_bytes e)) bs"
proof -
  define len where "len = unat (le_word (slice 113 4 bs) :: u32)"
  from assms have long: "117 + len + 64 \<le> length bs"
    and e: "e = \<lparr>event_id = slice 0 32 bs, event_type = bs ! 32,
               source_node = NodeID (slice 33 32 bs), event_timestamp = le_word (slice 65 8 bs),
               event_epoch = le_word (slice 73 8 bs), previous_hash = slice 81 32 bs,
               event_data = slice 117 len bs, event_signature = slice (117 + len) 64 bs\<rparr>"
    by (auto simp: LedgerEvent_from_bytes_def len_def Let_def split: if_splits)
  have small: "len < 2 ^ 32" unfolding len_def by (rule unsigned_less [THEN order_less_le_trans]) simp
  have wf: "wf_event e" using long small by (simp add: wf_event_def e)
  have fields:
    "le_bytes 8 (le_word (slice 65 8 bs) :: u64) = slice 65 8 bs"
    "le_bytes 8 (le_word (slice 73 8 bs) :: u64) = slice 73 8 bs"
    "le_bytes 4 (word_of_nat len :: u32) = slice 113 4 bs"
    "[bs ! 32] = slice 32 1 bs"
    using long by (simp_all add: le_bytes_slice slice_one len_def)
  have "LedgerEvent_to_bytes e = slice 0 (117 + len + 64) bs"
    using long fields slice_slice [of 0 32 bs 1] slice_slice [of 0 33 bs 32]
      slice_slice [of 0 65 bs 8] slice_slice [of 0 73 bs 8] slice_slice [of 0 81 bs 32]
      slice_slice [of 0 113 bs 4] slice_slice [of 0 117 bs len] slice_slice [of 0 "117 + len" bs 64]
    by (simp add: LedgerEvent_to_bytes_def e min_absorb1 flip: append_assoc)
  then show ?thesis using wf long by (simp add: slice_def min_def)
qed

lemma LedgerEvent_message_inject:
  assumes "wf_event e" "wf_event e'" "LedgerEvent_message e = LedgerEvent_message e'"
  shows "e' = e\<lparr>event_signature := event_signature e'\<rparr>"
proof -
  have "LedgerEvent_to_bytes (e\<lparr>event_signature := event_signature e'\<rparr>) = LedgerEvent_to_bytes e'"
  proof -
    have "length (event_data e) = length (event_data e')"
      using arg_cong [OF assms(3), of length] assms(1,2)
      by (simp add: LedgerEvent_message_def wf_event_def)
    with assms show ?thesis
      by (simp add: LedgerEvent_message_def LedgerEvent_to_bytes_def wf_event_def)
  qed
  moreover have "wf_event (e\<lparr>event_signature := event_signature e'\<rparr>)"
    using assms(1,2) by (simp add: wf_event_def)
  ultimately show ?thesis using eventc.enc_inject [OF _ assms(2)] by metis
qed

section \<open>Properties\<close>

definition sample_event :: LedgerEvent where
  "sample_event = \<lparr>event_id = replicate 32 1, event_type = NODE_JOINED,
     source_node = NodeID (replicate 32 2), event_timestamp = 1700000000, event_epoch = 2833333,
     previous_hash = replicate 32 0, event_data = [1, 2, 3], event_signature = replicate 64 9\<rparr>"

lemma wf_sample_event [simp]: "wf_event sample_event"
  by (simp add: wf_event_def sample_event_def)

text \<open>
  a ledger event survives serialisation: \<open>LedgerEvent::from_bytes\<close> returns the event
  that \<open>to_bytes\<close> wrote, whatever follows it in the buffer.
\<close>

theorem LedgerEvent_roundtrip:
  "wf_event e \<Longrightarrow> LedgerEvent_from_bytes (LedgerEvent_to_bytes e @ rest) = Some e"
  by (rule eventc.dec_enc_append)

theorem LedgerEvent_roundtrip_witness:
  "LedgerEvent_from_bytes (LedgerEvent_to_bytes sample_event @ [7]) = Some sample_event"
  by (rule LedgerEvent_roundtrip) simp

text \<open>
  \<open>LedgerEvent::from_bytes\<close> accepts nothing but encodings of well-formed events: when it
  returns an event, the input is that event's encoding followed by ignored bytes. Together
  with the round trip, decoding and encoding are inverse.
\<close>

theorem LedgerEvent_from_bytes_sound:
  "LedgerEvent_from_bytes bs = Some e \<Longrightarrow>
   wf_event e \<and> bs = LedgerEvent_to_bytes e @ drop (length (LedgerEvent_to_bytes e)) bs"
  by (rule LedgerEvent_decode_sound)

theorem LedgerEvent_from_bytes_sound_witness:
  "wf_event sample_event \<and>
   LedgerEvent_to_bytes sample_event @ [7] = LedgerEvent_to_bytes sample_event @
     drop (length (LedgerEvent_to_bytes sample_event)) (LedgerEvent_to_bytes sample_event @ [7])"
  by (rule LedgerEvent_from_bytes_sound) (rule eventc.dec_enc_append, simp)

text \<open>
  the message that \<open>LedgerEvent::verify_signature\<close> checks determines every field of the
  event but the signature, so a signature accepted for one event cannot be carried over to
  an event with a different identifier, type, source, time, predecessor or data.
\<close>

theorem LedgerEvent_signature_covers_fields:
  "wf_event e \<Longrightarrow> wf_event e' \<Longrightarrow> LedgerEvent_message e = LedgerEvent_message e' \<Longrightarrow>
   e' = e\<lparr>event_signature := event_signature e'\<rparr>"
  by (rule LedgerEvent_message_inject)

theorem LedgerEvent_signature_covers_fields_witness:
  "sample_event\<lparr>event_signature := replicate 64 4\<rparr> =
   sample_event\<lparr>event_signature := event_signature (sample_event\<lparr>event_signature := replicate 64 4\<rparr>)\<rparr>"
  by (rule LedgerEvent_signature_covers_fields)
    (simp_all add: wf_event_def sample_event_def LedgerEvent_message_def)

text \<open>
  the 16-bit length of a membership payload truncates long roles: what
  \<open>NetworkMembershipData::from_bytes\<close> reads back is the membership with its role cut to the
  role's length modulo 65536. For roles of fewer than 65536 characters this is the round
  trip.
\<close>

theorem NetworkMembershipData_role_truncated:
  "length (nm_network_id d) = 32 \<Longrightarrow> length (node_bytes (nm_member_node d)) = 32 \<Longrightarrow>
   NetworkMembershipData_from_bytes (NetworkMembershipData_to_bytes d) =
     Some (d\<lparr>nm_role := take (length (nm_role d) mod 65536) (nm_role d)\<rparr>)"
  using NetworkMembershipData_codec_any [of d "[]"] by simp

theorem NetworkMembershipData_role_truncated_witness:
  "NetworkMembershipData_from_bytes (NetworkMembershipData_to_bytes
     \<lparr>nm_network_id = replicate 32 1, nm_member_node = NodeID (replicate 32 2),
      nm_role = ''FOUNDER''\<rparr>) =
   Some \<lparr>nm_network_id = replicate 32 1, nm_member_node = NodeID (replicate 32 2),
      nm_role = ''FOUNDER''\<rparr>"
  by (subst NetworkMembershipData_role_truncated) simp_all

definition sample_issue :: KeyIssuanceData where
  "sample_issue = \<lparr>ki_key_type = SERVICE, ki_count = 3, ki_method = POW, ki_proof = replicate 32 9\<rparr>"

definition sample_member :: NetworkMembershipData where
  "sample_member = \<lparr>nm_network_id = replicate 32 1, nm_member_node = NodeID (replicate 32 2),
     nm_role = ''FULL''\<rparr>"

definition sample_replica :: ThingReplicationData where
  "sample_replica = \<lparr>td_content_hash = ContentHash (replicate 32 4), td_network_id = replicate 32 1,
     td_hosting_node = NodeID (replicate 32 2), td_size_bytes = 4096\<rparr>"

definition sample_reputation :: ReputationUpdateData where
  "sample_reputation = \<lparr>ru_subject_node = NodeID (replicate 32 3), ru_score_delta = - 5,
     ru_reason = ''spam'', ru_evidence = replicate 32 0\<rparr>"

text \<open>
  every event payload survives serialisation, also when more bytes follow: key
  issuances, network memberships, Thing replications, and reputation updates, where the bytes
  written by arithmetic right shifts of the signed \<open>score_delta\<close> and read back by left shifts
  give the same \<open>int32_t\<close>.
\<close>

theorem payloads_roundtrip:
  assumes "wf_KeyIssuanceData k" "wf_NetworkMembershipData m" "wf_ThingReplicationData t"
    "wf_ReputationUpdateData u"
  shows "KeyIssuanceData_from_bytes (KeyIssuanceData_to_bytes k @ rest) = Some k \<and>
    NetworkMembershipData_from_bytes (NetworkMembershipData_to_bytes m @ rest) = Some m \<and>
    ThingReplicationData_from_bytes (ThingReplicationData_to_bytes t @ rest) = Some t \<and>
    ReputationUpdateData_from_bytes (ReputationUpdateData_to_bytes u @ rest) = Some u"
  using assms keyissuec.dec_enc_append memberc.dec_enc_append thingc.dec_enc_append
    reputc.dec_enc_append by blast

theorem payloads_roundtrip_witness:
  "KeyIssuanceData_from_bytes (KeyIssuanceData_to_bytes sample_issue @ [7]) = Some sample_issue \<and>
   NetworkMembershipData_from_bytes (NetworkMembershipData_to_bytes sample_member @ [7]) =
     Some sample_member \<and>
   ThingReplicationData_from_bytes (ThingReplicationData_to_bytes sample_replica @ [7]) =
     Some sample_replica \<and>
   ReputationUpdateData_from_bytes (ReputationUpdateData_to_bytes sample_reputation @ [7]) =
     Some sample_reputation"
  by (rule payloads_roundtrip)
    (simp_all add: wf_KeyIssuanceData_def wf_NetworkMembershipData_def wf_ThingReplicationData_def
      wf_ReputationUpdateData_def sample_issue_def sample_member_def sample_replica_def
      sample_reputation_def)

end
