(* ===== verification/Ledger_Index.thy ===== *)
theory Ledger_Index
  imports Ledger_Data
begin

text \<open>
  \<open>LedgerIndex\<close> of \<open>src/core/ledger/ledger.cpp\<close>: the lookup tables a ledger keeps beside its
  events. Each table is a \<open>std::map\<close>, an ordered association list; a \<open>std::set\<close> value is an
  ordered list. The index is proved to be a function of the event sequence: its tables are folds
  over the events, and the queries that read them return what a scan of the events would.
\<close>

record LedgerIndex =
  ix_by_node :: "(NodeID \<times> Hash256 list) list"
  ix_by_type :: "(EventType \<times> Hash256 list) list"
  ix_by_network :: "(Hash256 \<times> Hash256 list) list"
  ix_by_thing :: "(ContentHash \<times> Hash256 list) list"
  ix_join_times :: "(NodeID \<times> u64) list"
  ix_members :: "(Hash256 \<times> NodeID list) list"
  ix_hosts :: "(ContentHash \<times> NodeID list) list"
  ix_key_balances :: "((NodeID \<times> KeyType) \<times> u32) list"

definition LedgerIndex_empty :: LedgerIndex where
  "LedgerIndex_empty = \<lparr>ix_by_node = [], ix_by_type = [], ix_by_network = [], ix_by_thing = [],
     ix_join_times = [], ix_members = [], ix_hosts = [], ix_key_balances = []\<rparr>"

definition LedgerIndex_clear :: "LedgerIndex \<Rightarrow> LedgerIndex" where
  "LedgerIndex_clear ix = ix\<lparr>ix_by_node := [], ix_by_type := [], ix_by_network := [],
     ix_by_thing := [], ix_join_times := [], ix_members := [], ix_hosts := [],
     ix_key_balances := []\<rparr>"

definition LedgerIndex_add_event :: "LedgerEvent \<Rightarrow> LedgerIndex \<Rightarrow> LedgerIndex" where
  "LedgerIndex_add_event e ix0 =
     (let eid = event_id e;
          ix = ix0\<lparr>ix_by_node := omap_set (source_node e)
                     (opt_or [] (map_of (ix_by_node ix0) (source_node e)) @ [eid]) (ix_by_node ix0),
                   ix_by_type := omap_set (event_type e)
                     (opt_or [] (map_of (ix_by_type ix0) (event_type e)) @ [eid]) (ix_by_type ix0)\<rparr>
      in if event_type e = NODE_JOINED then
           ix\<lparr>ix_join_times := omap_set (source_node e) (event_timestamp e) (ix_join_times ix)\<rparr>
         else if event_type e = KEY_ISSUED then
           (case KeyIssuanceData_from_bytes (event_data e) of
              None \<Rightarrow> ix
            | Some d \<Rightarrow>
                let key = (source_node e, ki_key_type d) in
                ix\<lparr>ix_key_balances := omap_set key
                     (opt_or 0 (map_of (ix_key_balances ix) key) + ki_count d) (ix_key_balances ix)\<rparr>)
         else if event_type e = NETWORK_MEMBER_ADDED then
           (case NetworkMembershipData_from_bytes (event_data e) of
              None \<Rightarrow> ix
            | Some d \<Rightarrow>
                ix\<lparr>ix_by_network := omap_set (nm_network_id d)
                     (opt_or [] (map_of (ix_by_network ix) (nm_network_id d)) @ [eid]) (ix_by_network ix),
                   ix_members := omap_set (nm_network_id d)
                     (oset_insert (nm_member_node d) (opt_or [] (map_of (ix_members ix) (nm_network_id d))))
                     (ix_members ix)\<rparr>)
         else if event_type e = THING_REPLICATED then
           (case ThingReplicationData_from_bytes (event_data e) of
              None \<Rightarrow> ix
            | Some d \<Rightarrow>
                ix\<lparr>ix_by_thing := omap_set (td_content_hash d)
                     (opt_or [] (map_of (ix_by_thing ix) (td_content_hash d)) @ [eid]) (ix_by_thing ix),
                   ix_hosts := omap_set (td_content_hash d)
                     (oset_insert (td_hosting_node d) (opt_or [] (map_of (ix_hosts ix) (td_content_hash d))))
                     (ix_hosts ix)\<rparr>)
         else ix)"

definition rebuild_from_events :: "LedgerEvent list \<Rightarrow> LedgerIndex \<Rightarrow> LedgerIndex" where
  "rebuild_from_events es ix = fold LedgerIndex_add_event es (LedgerIndex_clear ix)"

definition index_events_by_node :: "LedgerIndex \<Rightarrow> NodeID \<Rightarrow> Hash256 list" where
  "index_events_by_node ix n = opt_or [] (map_of (ix_by_node ix) n)"

definition get_node_join_time :: "LedgerIndex \<Rightarrow> NodeID \<Rightarrow> u64 option" where
  "get_node_join_time ix n = map_of (ix_join_times ix) n"

text \<open>The source computes the node's events and returns an empty vector.\<close>

definition get_key_events_by_node :: "LedgerIndex \<Rightarrow> NodeID \<Rightarrow> Hash256 list" where
  "get_key_events_by_node ix n = (let node_events = index_events_by_node ix n in [])"

definition get_total_keys_issued :: "LedgerIndex \<Rightarrow> NodeID \<Rightarrow> KeyType \<Rightarrow> u32" where
  "get_total_keys_issued ix n t = opt_or 0 (map_of (ix_key_balances ix) (n, t))"

definition get_network_events :: "LedgerIndex \<Rightarrow> Hash256 \<Rightarrow> Hash256 list" where
  "get_network_events ix net = opt_or [] (map_of (ix_by_network ix) net)"

definition get_network_members :: "LedgerIndex \<Rightarrow> Hash256 \<Rightarrow> NodeID list" where
  "get_network_members ix net = opt_or [] (map_of (ix_members ix) net)"

definition get_thing_events :: "LedgerIndex \<Rightarrow> ContentHash \<Rightarrow> Hash256 list" where
  "get_thing_events ix c = opt_or [] (map_of (ix_by_thing ix) c)"

definition index_thing_hosts :: "LedgerIndex \<Rightarrow> ContentHash \<Rightarrow> NodeID list" where
  "index_thing_hosts ix c = opt_or [] (map_of (ix_hosts ix) c)"

definition get_reputation_events :: "LedgerIndex \<Rightarrow> NodeID \<Rightarrow> Hash256 list" where
  "get_reputation_events ix n = index_events_by_node ix n"

section \<open>The index as a fold per table\<close>

text \<open>The key and the value of the entry an event updates in each of the tables.\<close>

definition issued_key :: "LedgerEvent \<Rightarrow> (NodeID \<times> KeyType) option" where
  "issued_key e = (if event_type e \<noteq> KEY_ISSUED then None
     else map_option (\<lambda>d. (source_node e, ki_key_type d)) (KeyIssuanceData_from_bytes (event_data e)))"

definition issued_count :: "LedgerEvent \<Rightarrow> u32" where
  "issued_count e = (case KeyIssuanceData_from_bytes (event_data e) of None \<Rightarrow> 0 | Some d \<Rightarrow> ki_count d)"

definition added_network :: "LedgerEvent \<Rightarrow> Hash256 option" where
  "added_network e = (if event_type e \<noteq> NETWORK_MEMBER_ADDED then None
     else map_option nm_network_id (NetworkMembershipData_from_bytes (event_data e)))"

definition added_member :: "LedgerEvent \<Rightarrow> NodeID" where
  "added_member e = (case NetworkMembershipData_from_bytes (event_data e) of
     None \<Rightarrow> source_node e | Some d \<Rightarrow> nm_member_node d)"

definition replicated_thing :: "LedgerEvent \<Rightarrow> ContentHash option" where
  "replicated_thing e = (if event_type e \<noteq> THING_REPLICATED then None
     else map_option td_content_hash (ThingReplicationData_from_bytes (event_data e)))"

definition replicated_host :: "LedgerEvent \<Rightarrow> NodeID" where
  "replicated_host e = (case ThingReplicationData_from_bytes (event_data e) of
     None \<Rightarrow> source_node e | Some d \<Rightarrow> td_hosting_node d)"

definition joined_node :: "LedgerEvent \<Rightarrow> NodeID option" where
  "joined_node e = (if event_type e = NODE_JOINED then Some (source_node e) else None)"

lemmas index_table_defs = LedgerIndex_add_event_def issued_key_def issued_count_def
  added_network_def added_member_def replicated_thing_def replicated_host_def joined_node_def

lemma by_node_step:
  "ix_by_node (LedgerIndex_add_event e ix) =
     (case Some (source_node e) of None \<Rightarrow> ix_by_node ix
      | Some k \<Rightarrow> omap_set k ((\<lambda>e s. s @ [event_id e]) e (opt_or [] (map_of (ix_by_node ix) k))) (ix_by_node ix))"
  by (simp add: index_table_defs Let_def split: option.split)

lemma by_type_step:
  "ix_by_type (LedgerIndex_add_event e ix) =
     (case Some (event_type e) of None \<Rightarrow> ix_by_type ix
      | Some k \<Rightarrow> omap_set k ((\<lambda>e s. s @ [event_id e]) e (opt_or [] (map_of (ix_by_type ix) k))) (ix_by_type ix))"
  by (simp add: index_table_defs Let_def split: option.split)

lemma by_network_step:
  "ix_by_network (LedgerIndex_add_event e ix) =
     (case added_network e of None \<Rightarrow> ix_by_network ix
      | Some k \<Rightarrow> omap_set k ((\<lambda>e s. s @ [event_id e]) e (opt_or [] (map_of (ix_by_network ix) k))) (ix_by_network ix))"
  by (simp add: index_table_defs Let_def split: option.split)

lemma members_step:
  "ix_members (LedgerIndex_add_event e ix) =
     (case added_network e of None \<Rightarrow> ix_members ix
      | Some k \<Rightarrow> omap_set k ((\<lambda>e s. oset_insert (added_member e) s) e (opt_or [] (map_of (ix_members ix) k)))
          (ix_members ix))"
  by (simp add: index_table_defs Let_def split: option.split)

lemma by_thing_step:
  "ix_by_thing (LedgerIndex_add_event e ix) =
     (case replicated_thing e of None \<Rightarrow> ix_by_thing ix
      | Some k \<Rightarrow> omap_set k ((\<lambda>e s. s @ [event_id e]) e (opt_or [] (map_of (ix_by_thing ix) k))) (ix_by_thing ix))"
  by (simp add: index_table_defs Let_def split: option.split)

lemma hosts_step:
  "ix_hosts (LedgerIndex_add_event e ix) =
     (case replicated_thing e of None \<Rightarrow> ix_hosts ix
      | Some k \<Rightarrow> omap_set k ((\<lambda>e s. oset_insert (replicated_host e) s) e (opt_or [] (map_of (ix_hosts ix) k)))
          (ix_hosts ix))"
  by (simp add: index_table_defs Let_def split: option.split)

lemma join_times_step:
  "ix_join_times (LedgerIndex_add_event e ix) =
     (case joined_node e of None \<Rightarrow> ix_join_times ix
      | Some k \<Rightarrow> omap_set k ((\<lambda>e s. event_timestamp e) e (opt_or 0 (map_of (ix_join_times ix) k)))
          (ix_join_times ix))"
  by (simp add: index_table_defs Let_def split: option.split)

lemma key_balances_step:
  "ix_key_balances (LedgerIndex_add_event e ix) =
     (case issued_key e of None \<Rightarrow> ix_key_balances ix
      | Some k \<Rightarrow> omap_set k ((\<lambda>e s. s + issued_count e) e (opt_or 0 (map_of (ix_key_balances ix) k)))
          (ix_key_balances ix))"
  by (simp add: index_table_defs Let_def split: option.split)

text \<open>A projection of a fold is the fold of the projected steps.\<close>

lemma fold_project:
  "(\<And>e ix. p (f e ix) = g e (p ix)) \<Longrightarrow> p (fold f es ix) = fold g es (p ix)"
  by (induction es arbitrary: ix) simp_all

lemmas table_folds =
  fold_project [where p = ix_by_node and f = LedgerIndex_add_event, OF by_node_step]
  fold_project [where p = ix_by_type and f = LedgerIndex_add_event, OF by_type_step]
  fold_project [where p = ix_by_network and f = LedgerIndex_add_event, OF by_network_step]
  fold_project [where p = ix_members and f = LedgerIndex_add_event, OF members_step]
  fold_project [where p = ix_by_thing and f = LedgerIndex_add_event, OF by_thing_step]
  fold_project [where p = ix_hosts and f = LedgerIndex_add_event, OF hosts_step]
  fold_project [where p = ix_join_times and f = LedgerIndex_add_event, OF join_times_step]
  fold_project [where p = ix_key_balances and f = LedgerIndex_add_event, OF key_balances_step]

lemma fold_append_ids: "fold (\<lambda>e s. s @ [f e]) es s0 = s0 @ map f es"
  by (induction es arbitrary: s0) simp_all

lemma fold_oset_insert: "set (fold (\<lambda>e s. oset_insert (f e) s) es s0) = set s0 \<union> f ` set es"
  by (induction es arbitrary: s0) auto

lemma fold_oset_ok: "oset_ok s0 \<Longrightarrow> oset_ok (fold (\<lambda>e s. oset_insert (f e) s) es s0)"
  by (induction es arbitrary: s0) auto

lemma fold_plus: "fold (\<lambda>e s. s + f e) es s0 = s0 + sum_list (map f es)"
  for s0 :: "'a::comm_monoid_add"
  by (induction es arbitrary: s0) (simp_all add: add.assoc)

abbreviation index_of :: "LedgerEvent list \<Rightarrow> LedgerIndex" where
  "index_of es \<equiv> fold LedgerIndex_add_event es LedgerIndex_empty"

lemma index_by_node: "index_events_by_node (index_of es) n =
   map event_id (filter (\<lambda>e. source_node e = n) es)"
  using om.fold_group [where key = "\<lambda>e. Some (source_node e)" and upd = "\<lambda>e s. s @ [event_id e]"
      and d = "[]" and start = "[]" and es = es and k = n]
  by (simp add: index_events_by_node_def table_folds LedgerIndex_empty_def fold_append_ids)

lemma index_network_events: "get_network_events (index_of es) net =
   map event_id (filter (\<lambda>e. added_network e = Some net) es)"
  using om.fold_group [where key = "added_network" and upd = "\<lambda>e s. s @ [event_id e]"
      and d = "[]" and start = "[]" and es = es and k = net]
  by (simp add: get_network_events_def table_folds LedgerIndex_empty_def fold_append_ids)

lemma index_network_members: "get_network_members (index_of es) net =
   sorted_list_of_set (added_member ` {e \<in> set es. added_network e = Some net})"
proof -
  have eq: "get_network_members (index_of es) net =
      fold (\<lambda>e s. oset_insert (added_member e) s) (filter (\<lambda>e. added_network e = Some net) es) []"
    using om.fold_group [where key = "added_network" and upd = "\<lambda>e s. oset_insert (added_member e) s"
      and d = "[]" and start = "[]" and es = es and k = net]
  by (simp add: get_network_members_def table_folds LedgerIndex_empty_def)
  show ?thesis
    unfolding eq by (subst oset_ok_eq [OF fold_oset_ok]) (simp_all add: fold_oset_insert)
qed

lemma index_thing_events: "get_thing_events (index_of es) c =
   map event_id (filter (\<lambda>e. replicated_thing e = Some c) es)"
  using om.fold_group [where key = "replicated_thing" and upd = "\<lambda>e s. s @ [event_id e]"
      and d = "[]" and start = "[]" and es = es and k = c]
  by (simp add: get_thing_events_def table_folds LedgerIndex_empty_def fold_append_ids)

lemma index_hosts_set: "index_thing_hosts (index_of es) c =
   sorted_list_of_set (replicated_host ` {e \<in> set es. replicated_thing e = Some c})"
proof -
  have eq: "index_thing_hosts (index_of es) c =
      fold (\<lambda>e s. oset_insert (replicated_host e) s) (filter (\<lambda>e. replicated_thing e = Some c) es) []"
    using om.fold_group [where key = "replicated_thing" and upd = "\<lambda>e s. oset_insert (replicated_host e) s"
      and d = "[]" and start = "[]" and es = es and k = c]
  by (simp add: index_thing_hosts_def table_folds LedgerIndex_empty_def)
  show ?thesis
    unfolding eq by (subst oset_ok_eq [OF fold_oset_ok]) (simp_all add: fold_oset_insert)
qed

lemma index_keys_issued: "get_total_keys_issued (index_of es) n t =
   sum_list (map issued_count (filter (\<lambda>e. issued_key e = Some (n, t)) es))"
  using om.fold_group [where key = "issued_key" and upd = "\<lambda>e s. s + issued_count e"
      and d = "0" and start = "[]" and es = es and k = "(n, t)"]
  by (simp add: get_total_keys_issued_def table_folds LedgerIndex_empty_def fold_plus)

lemma index_join_time: "get_node_join_time (index_of es) n =
   (if Some n \<in> joined_node ` set es
    then Some (event_timestamp (last (filter (\<lambda>e. joined_node e = Some n) es))) else None)"
proof (induction es rule: rev_induct)
  case Nil
  then show ?case
    by (simp add: get_node_join_time_def LedgerIndex_empty_def)
next
  case (snoc e es)
  then show ?case
    by (auto simp: get_node_join_time_def join_times_step filter_empty_conv split: option.splits)
qed

lemma rebuild_index: "rebuild_from_events es ix = index_of es"
  by (cases ix) (simp add: rebuild_from_events_def LedgerIndex_clear_def LedgerIndex_empty_def)

section \<open>Properties\<close>

text \<open>
  C19: for the events it has indexed, the index answers these queries as a scan of the events
  would. The events of a node are the identifiers of its events in ledger order; the events of
  a network and of a Thing are those of the decodable member-added and replicated events that
  name it, in ledger order; the members of a network and the hosts of a Thing are the nodes
  those events add, in increasing order without duplicates (events that remove a member or a
  replica are not indexed); the keys issued are the sum (modulo \<open>2^32\<close>) of the counts of the
  node's issue events of that type; the join time is the time of the last event by which the
  node joined, and absent when it never did. Rebuilding from the events gives the same index,
  whatever was in it. The key-event query, which always answers with no events, is not among
  them.
\<close>

theorem index_refines_scan:
  "index_events_by_node (index_of es) n = map event_id (filter (\<lambda>e. source_node e = n) es) \<and>
   get_network_events (index_of es) net = map event_id (filter (\<lambda>e. added_network e = Some net) es) \<and>
   get_network_members (index_of es) net =
     sorted_list_of_set (added_member ` {e \<in> set es. added_network e = Some net}) \<and>
   get_thing_events (index_of es) c = map event_id (filter (\<lambda>e. replicated_thing e = Some c) es) \<and>
   index_thing_hosts (index_of es) c =
     sorted_list_of_set (replicated_host ` {e \<in> set es. replicated_thing e = Some c}) \<and>
   get_total_keys_issued (index_of es) n t =
     sum_list (map issued_count (filter (\<lambda>e. issued_key e = Some (n, t)) es)) \<and>
   get_node_join_time (index_of es) n =
     (if Some n \<in> joined_node ` set es
      then Some (event_timestamp (last (filter (\<lambda>e. joined_node e = Some n) es))) else None) \<and>
   rebuild_from_events es ix = index_of es"
  by (simp only: index_by_node index_network_events index_network_members index_thing_events
      index_hosts_set index_keys_issued index_join_time rebuild_index simp_thms)

end
