(* ===== verification/Ledger_Log.thy ===== *)
theory Ledger_Log
  imports Ledger_Index
begin

text \<open>
  \<open>Ledger\<close> of \<open>src/core/ledger/ledger.cpp\<close>: the append-only, hash-chained event log. Every
  public operation is here: the eight \<open>record_*\<close> operations, events received from peers,
  queries, persistence, chain validation and conflict detection.

  The system clock is read several times in one operation; \<open>clock\<close> has one field per read,
  in the order the code makes them. BLAKE3 is the parameter \<open>H\<close>. The event callback is
  outside the ledger; the model records whether one is registered and the events it was
  called with. A file is its bytes, \<open>None\<close> when it cannot be opened. Reading an integer past
  the end of a file leaves the C++ variable indeterminate; \<open>load_from_file\<close> is \<open>None\<close> then.
\<close>

record clock =
  now_stamp :: u64
  now_epoch :: u64
  now_pre :: u64
  now_chain :: u64
  now_verify :: u64

record Ledger =
  lg_node :: NodeID
  lg_events :: "LedgerEvent list"
  lg_lookup :: "(Hash256 \<times> nat) list"
  lg_index :: LedgerIndex
  lg_latest :: Hash256
  lg_counter :: u64
  lg_callback :: bool
  lg_notified :: "LedgerEvent list"

definition Ledger_init :: "NodeID \<Rightarrow> Ledger" where
  "Ledger_init n = \<lparr>lg_node = n, lg_events = [], lg_lookup = [], lg_index = LedgerIndex_empty,
     lg_latest = zero_hash, lg_counter = 0, lg_callback = False, lg_notified = []\<rparr>"

definition set_event_callback :: "Ledger \<Rightarrow> Ledger" where
  "set_event_callback L = L\<lparr>lg_callback := True\<rparr>"

definition current_epoch :: "u64 \<Rightarrow> u64" where
  "current_epoch now = now div 600"

definition create_event ::
  "(bytes \<Rightarrow> Hash256) \<Rightarrow> clock \<Rightarrow> EventType \<Rightarrow> bytes \<Rightarrow> Ledger \<Rightarrow> LedgerEvent \<times> Ledger" where
  "create_event H clk ty dat L =
     (let ts = now_stamp clk;
          eid = H (node_bytes (lg_node L) @ le_bytes 8 (lg_counter L) @ le_bytes 8 ts);
          digest = H (eid @ lg_latest L @ dat)
      in (\<lparr>event_id = eid, event_type = ty, source_node = lg_node L, event_timestamp = ts,
            event_epoch = current_epoch (now_epoch clk), previous_hash = lg_latest L,
            event_data = dat, event_signature = digest @ digest\<rparr>,
          L\<lparr>lg_counter := lg_counter L + 1\<rparr>))"

definition MAX_FUTURE_SKEW_SECONDS :: u64 where
  "MAX_FUTURE_SKEW_SECONDS = 5 * 60"

definition verify_event_chain :: "(bytes \<Rightarrow> Hash256) \<Rightarrow> u64 \<Rightarrow> Ledger \<Rightarrow> LedgerEvent \<Rightarrow> bool" where
  "verify_event_chain H now L e =
     (if lg_events L = [] then previous_hash e = zero_hash
      else if previous_hash e \<noteq> compute_hash H (last (lg_events L)) then False
      else if event_timestamp e > now + MAX_FUTURE_SKEW_SECONDS then False
      else True)"

definition verify_event :: "(bytes \<Rightarrow> Hash256) \<Rightarrow> clock \<Rightarrow> Ledger \<Rightarrow> LedgerEvent \<Rightarrow> bool" where
  "verify_event H clk L e =
     (if map_of (lg_lookup L) (event_id e) \<noteq> None then False
      else if \<not> verify_event_chain H (now_chain clk) L e then False
      else if event_timestamp e > now_verify clk + MAX_FUTURE_SKEW_SECONDS then False
      else True)"

definition add_event :: "(bytes \<Rightarrow> Hash256) \<Rightarrow> clock \<Rightarrow> LedgerEvent \<Rightarrow> Ledger \<Rightarrow> Hash256 \<times> Ledger" where
  "add_event H clk e L =
     (if \<not> verify_event H clk L e then (zero_hash, L)
      else (event_id e,
        L\<lparr>lg_events := lg_events L @ [e],
          lg_lookup := omap_set (event_id e) (length (lg_events L)) (lg_lookup L),
          lg_index := LedgerIndex_add_event e (lg_index L),
          lg_latest := compute_hash H e,
          lg_notified := (if lg_callback L then lg_notified L @ [e] else lg_notified L)\<rparr>))"

text \<open>\<open>auto event = create_event(type, data); return add_event(event);\<close>\<close>

definition record_event ::
  "(bytes \<Rightarrow> Hash256) \<Rightarrow> clock \<Rightarrow> EventType \<Rightarrow> bytes \<Rightarrow> Ledger \<Rightarrow> Hash256 \<times> Ledger" where
  "record_event H clk ty dat L = (case create_event H clk ty dat L of (e, L') \<Rightarrow> add_event H clk e L')"

definition record_node_joined :: "(bytes \<Rightarrow> Hash256) \<Rightarrow> clock \<Rightarrow> NodeID \<Rightarrow> Ledger \<Rightarrow> Hash256 \<times> Ledger" where
  "record_node_joined H clk n L = record_event H clk NODE_JOINED (node_bytes n) L"

definition record_node_left :: "(bytes \<Rightarrow> Hash256) \<Rightarrow> clock \<Rightarrow> NodeID \<Rightarrow> Ledger \<Rightarrow> Hash256 \<times> Ledger" where
  "record_node_left H clk n L = record_event H clk NODE_LEFT (node_bytes n) L"

definition record_key_issued ::
  "(bytes \<Rightarrow> Hash256) \<Rightarrow> clock \<Rightarrow> KeyType \<Rightarrow> u32 \<Rightarrow> IssuanceMethod \<Rightarrow> Hash256 \<Rightarrow> Ledger
    \<Rightarrow> Hash256 \<times> Ledger" where
  "record_key_issued H clk kt cnt meth proof_hash L =
     record_event H clk KEY_ISSUED (KeyIssuanceData_to_bytes
       \<lparr>ki_key_type = kt, ki_count = cnt, ki_method = meth, ki_proof = proof_hash\<rparr>) L"

definition record_key_revoked ::
  "(bytes \<Rightarrow> Hash256) \<Rightarrow> clock \<Rightarrow> KeyType \<Rightarrow> u32 \<Rightarrow> string \<Rightarrow> Ledger \<Rightarrow> Hash256 \<times> Ledger" where
  "record_key_revoked H clk kt cnt reason L =
     record_event H clk KEY_REVOKED (KeyIssuanceData_to_bytes
       \<lparr>ki_key_type = kt, ki_count = cnt, ki_method = VOUCHED,
        ki_proof = H (bytes_of_string reason)\<rparr>) L"

definition record_network_created ::
  "(bytes \<Rightarrow> Hash256) \<Rightarrow> clock \<Rightarrow> Hash256 \<Rightarrow> Ledger \<Rightarrow> Hash256 \<times> Ledger" where
  "record_network_created H clk net L = record_event H clk NETWORK_CREATED net L"

definition record_network_member_added ::
  "(bytes \<Rightarrow> Hash256) \<Rightarrow> clock \<Rightarrow> Hash256 \<Rightarrow> NodeID \<Rightarrow> string \<Rightarrow> Ledger \<Rightarrow> Hash256 \<times> Ledger" where
  "record_network_member_added H clk net member role L =
     record_event H clk NETWORK_MEMBER_ADDED (NetworkMembershipData_to_bytes
       \<lparr>nm_network_id = net, nm_member_node = member, nm_role = role\<rparr>) L"

definition record_thing_replicated ::
  "(bytes \<Rightarrow> Hash256) \<Rightarrow> clock \<Rightarrow> ContentHash \<Rightarrow> Hash256 \<Rightarrow> NodeID \<Rightarrow> u64 \<Rightarrow> Ledger
    \<Rightarrow> Hash256 \<times> Ledger" where
  "record_thing_replicated H clk c net host sz L =
     record_event H clk THING_REPLICATED (ThingReplicationData_to_bytes
       \<lparr>td_content_hash = c, td_network_id = net, td_hosting_node = host, td_size_bytes = sz\<rparr>) L"

definition record_reputation_update ::
  "(bytes \<Rightarrow> Hash256) \<Rightarrow> clock \<Rightarrow> NodeID \<Rightarrow> u32 \<Rightarrow> string \<Rightarrow> Ledger \<Rightarrow> Hash256 \<times> Ledger" where
  "record_reputation_update H clk subject delta reason L =
     record_event H clk REPUTATION_UPDATED (ReputationUpdateData_to_bytes
       \<lparr>ru_subject_node = subject, ru_score_delta = delta, ru_reason = reason,
        ru_evidence = zero_hash\<rparr>) L"

section \<open>Queries\<close>

definition get_event :: "Ledger \<Rightarrow> Hash256 \<Rightarrow> LedgerEvent option" where
  "get_event L eid =
     (case map_of (lg_lookup L) eid of None \<Rightarrow> None | Some i \<Rightarrow> Some (lg_events L ! i))"

definition get_events_by_node :: "Ledger \<Rightarrow> NodeID \<Rightarrow> LedgerEvent list" where
  "get_events_by_node L n = List.map_filter (get_event L) (index_events_by_node (lg_index L) n)"

definition get_events_by_type :: "Ledger \<Rightarrow> EventType \<Rightarrow> LedgerEvent list" where
  "get_events_by_type L ty = filter (\<lambda>e. event_type e = ty) (lg_events L)"

definition get_recent_events :: "Ledger \<Rightarrow> nat \<Rightarrow> LedgerEvent list" where
  "get_recent_events L count =
     (let start = (if length (lg_events L) > count then length (lg_events L) - count else 0)
      in drop start (lg_events L))"

definition get_all_events :: "Ledger \<Rightarrow> LedgerEvent list" where
  "get_all_events L = lg_events L"

definition event_count :: "Ledger \<Rightarrow> nat" where
  "event_count L = length (lg_events L)"

definition get_latest_hash :: "Ledger \<Rightarrow> Hash256" where
  "get_latest_hash L = lg_latest L"

section \<open>Events from peers\<close>

definition add_external_event ::
  "(bytes \<Rightarrow> Hash256) \<Rightarrow> clock \<Rightarrow> LedgerEvent \<Rightarrow> Ledger \<Rightarrow> bool \<times> Ledger" where
  "add_external_event H clk e L =
     (if \<not> verify_event_chain H (now_pre clk) L e then (False, L)
      else if map_of (lg_lookup L) (event_id e) \<noteq> None then (False, L)
      else (True, snd (add_event H clk e L)))"

section \<open>Persistence\<close>

definition save_to_file :: "Ledger \<Rightarrow> bytes" where
  "save_to_file L =
     le_bytes 8 (word_of_nat (length (lg_events L)) :: u64)
     @ concat (map (\<lambda>e. let bs = LedgerEvent_to_bytes e in
                        le_bytes 4 (word_of_nat (length bs) :: u32) @ bs) (lg_events L))"

text \<open>
  The reading loop: \<open>n\<close> records are left, \<open>s\<close> is the rest of the file. A record that the file
  cuts short leaves the tail of its zero-initialised buffer.
\<close>

fun load_loop ::
  "(bytes \<Rightarrow> Hash256) \<Rightarrow> clock list \<Rightarrow> clock \<Rightarrow> nat \<Rightarrow> bytes \<Rightarrow> Ledger \<Rightarrow> Ledger option" where
  "load_loop H clks c 0 s L = Some L"
| "load_loop H clks c (Suc n) s L =
     (if length s < 4 then None
      else let size = unat (le_word (take 4 s) :: u32);
               body = drop 4 s;
               bs = take size body @ replicate (size - length body) 0;
               clk = (case clks of [] \<Rightarrow> c | k # _ \<Rightarrow> k);
               L' = (case LedgerEvent_from_bytes bs of
                       None \<Rightarrow> L
                     | Some e \<Rightarrow> snd (add_event H clk e L))
           in load_loop H (tl clks) clk n (drop size body) L')"

definition clear_events :: "Ledger \<Rightarrow> Ledger" where
  "clear_events L = L\<lparr>lg_events := [], lg_lookup := [], lg_index := LedgerIndex_clear (lg_index L)\<rparr>"

definition load_from_file ::
  "(bytes \<Rightarrow> Hash256) \<Rightarrow> clock list \<Rightarrow> clock \<Rightarrow> bytes option \<Rightarrow> Ledger \<Rightarrow> (bool \<times> Ledger) option" where
  "load_from_file H clks c file L =
     (case file of
        None \<Rightarrow> Some (False, L)
      | Some s \<Rightarrow>
          if length s < 8 then None
          else map_option (Pair True)
            (load_loop H clks c (unat (le_word (take 8 s) :: u64)) (drop 8 s) (clear_events L)))"

text \<open>
  What a truncated file does: a count or a size that cannot be read in full is an uninitialised
  variable of the loop, here a value of \<open>junk\<close>, and once a read has failed all later ones fail too, so that the
  bytes of the events stay zero. On a complete file \<open>junk\<close> is not used and the result is that of
  \<open>load_from_file\<close>.
\<close>

record load_junk =
  junk_count :: u64
  junk_size :: "nat \<Rightarrow> u32"

fun load_loop_junk ::
  "(bytes \<Rightarrow> Hash256) \<Rightarrow> load_junk \<Rightarrow> clock list \<Rightarrow> clock \<Rightarrow> nat \<Rightarrow> bytes \<Rightarrow> Ledger \<Rightarrow> Ledger" where
  "load_loop_junk H junk clks c 0 s L = L"
| "load_loop_junk H junk clks c (Suc n) s L =
     (let size = unat (if length s < 4 then junk_size junk n else le_word (take 4 s));
          body = drop 4 s;
          bs = take size body @ replicate (size - length body) 0;
          clk = (case clks of [] \<Rightarrow> c | k # _ \<Rightarrow> k);
          L' = (case LedgerEvent_from_bytes bs of
                  None \<Rightarrow> L
                | Some e \<Rightarrow> snd (add_event H clk e L))
      in load_loop_junk H junk (tl clks) clk n (drop size body) L')"

definition load_file ::
  "(bytes \<Rightarrow> Hash256) \<Rightarrow> load_junk \<Rightarrow> clock list \<Rightarrow> clock \<Rightarrow> bytes option \<Rightarrow> Ledger \<Rightarrow> Ledger" where
  "load_file H junk clks c file L =
     (case file of
        None \<Rightarrow> L
      | Some s \<Rightarrow> load_loop_junk H junk clks c (unat (if length s < 8 then junk_count junk else le_word (take 8 s)))
          (drop 8 s) (clear_events L))"

section \<open>Validation\<close>

fun chain_links :: "(bytes \<Rightarrow> Hash256) \<Rightarrow> LedgerEvent list \<Rightarrow> bool" where
  "chain_links H (prev # cur # es) \<longleftrightarrow>
     previous_hash cur = compute_hash H prev \<and> chain_links H (cur # es)"
| "chain_links H _ \<longleftrightarrow> True"

definition validate_chain :: "(bytes \<Rightarrow> Hash256) \<Rightarrow> Ledger \<Rightarrow> bool" where
  "validate_chain H L = chain_links H (lg_events L)"

definition count_ids :: "LedgerEvent list \<Rightarrow> (Hash256 \<times> u32) list" where
  "count_ids es = fold (\<lambda>e seen. omap_set (event_id e)
     (opt_or 0 (map_of seen (event_id e)) + 1) seen) es []"

fun broken_links :: "(bytes \<Rightarrow> Hash256) \<Rightarrow> LedgerEvent list \<Rightarrow> Hash256 list" where
  "broken_links H (prev # cur # es) =
     (if previous_hash cur \<noteq> compute_hash H prev then [event_id cur] else [])
     @ broken_links H (cur # es)"
| "broken_links H _ = []"

definition detect_conflicts :: "(bytes \<Rightarrow> Hash256) \<Rightarrow> Ledger \<Rightarrow> Hash256 list" where
  "detect_conflicts H L =
     map fst (filter (\<lambda>p. snd p > 1) (count_ids (lg_events L))) @ broken_links H (lg_events L)"

section \<open>Invariant and sequences of operations\<close>

text \<open>A chain that starts at the zero hash.\<close>

definition chained :: "(bytes \<Rightarrow> Hash256) \<Rightarrow> LedgerEvent list \<Rightarrow> bool" where
  "chained H es \<longleftrightarrow> (es = [] \<or> previous_hash (hd es) = zero_hash) \<and> chain_links H es"

definition ledger_inv :: "(bytes \<Rightarrow> Hash256) \<Rightarrow> Ledger \<Rightarrow> bool" where
  "ledger_inv H L \<longleftrightarrow>
     chained H (lg_events L) \<and> distinct (map event_id (lg_events L)) \<and>
     lg_index L = index_of (lg_events L) \<and>
     (\<forall>eid i. map_of (lg_lookup L) eid = Some i \<longleftrightarrow>
        i < length (lg_events L) \<and> event_id (lg_events L ! i) = eid)"

text \<open>The hash the next event must carry, and whether \<open>latest_hash_\<close> holds it.\<close>

definition tip_hash :: "(bytes \<Rightarrow> Hash256) \<Rightarrow> LedgerEvent list \<Rightarrow> Hash256" where
  "tip_hash H es = (if es = [] then zero_hash else compute_hash H (last es))"

definition latest_ok :: "(bytes \<Rightarrow> Hash256) \<Rightarrow> Ledger \<Rightarrow> bool" where
  "latest_ok H L \<longleftrightarrow> lg_latest L = tip_hash H (lg_events L)"

datatype ledger_op =
    NodeJoined clock NodeID
  | NodeLeft clock NodeID
  | KeyIssued clock KeyType u32 IssuanceMethod Hash256
  | KeyRevoked clock KeyType u32 string
  | NetworkCreated clock Hash256
  | NetworkMemberAdded clock Hash256 NodeID string
  | ThingReplicated clock ContentHash Hash256 NodeID u64
  | ReputationUpdated clock NodeID u32 string
  | ExternalEvent clock LedgerEvent
  | SetCallback
  | LoadFile load_junk "clock list" clock "bytes option"

fun ledger_step :: "(bytes \<Rightarrow> Hash256) \<Rightarrow> Ledger \<Rightarrow> ledger_op \<Rightarrow> Ledger" where
  "ledger_step H L (NodeJoined c n) = snd (record_node_joined H c n L)"
| "ledger_step H L (NodeLeft c n) = snd (record_node_left H c n L)"
| "ledger_step H L (KeyIssued c k n m p) = snd (record_key_issued H c k n m p L)"
| "ledger_step H L (KeyRevoked c k n r) = snd (record_key_revoked H c k n r L)"
| "ledger_step H L (NetworkCreated c net) = snd (record_network_created H c net L)"
| "ledger_step H L (NetworkMemberAdded c net n r) = snd (record_network_member_added H c net n r L)"
| "ledger_step H L (ThingReplicated c t net n s) = snd (record_thing_replicated H c t net n s L)"
| "ledger_step H L (ReputationUpdated c n d r) = snd (record_reputation_update H c n d r L)"
| "ledger_step H L (ExternalEvent c e) = snd (add_external_event H c e L)"
| "ledger_step H L SetCallback = set_event_callback L"
| "ledger_step H L (LoadFile junk cs c f) = load_file H junk cs c f L"

fun is_load :: "ledger_op \<Rightarrow> bool" where
  "is_load (LoadFile junk cs c f) = True"
| "is_load _ = False"

section \<open>Lemmas: chains\<close>

lemma chain_links_append:
  "chain_links H (es @ [e]) \<longleftrightarrow> chain_links H es \<and> (es = [] \<or> previous_hash e = compute_hash H (last es))"
  by (induction H es rule: chain_links.induct) auto

lemma chained_append:
  "chained H (es @ [e]) \<longleftrightarrow> chained H es \<and> previous_hash e = tip_hash H es"
  by (cases "es = []") (auto simp: chained_def tip_hash_def chain_links_append)

lemma chained_Nil [simp]: "chained H []"
  by (simp add: chained_def)

lemma broken_links_iff: "broken_links H es = [] \<longleftrightarrow> chain_links H es"
  by (induction H es rule: broken_links.induct) auto

lemma verify_event_chain_tip:
  "verify_event_chain H now L e \<longleftrightarrow> previous_hash e = tip_hash H (lg_events L) \<and>
     (lg_events L = [] \<or> event_timestamp e \<le> now + MAX_FUTURE_SKEW_SECONDS)"
  by (auto simp: verify_event_chain_def tip_hash_def not_le)

text \<open>
  Two chains with the same tip are equal, unless two different events hash alike or an event
  hashes to the zero hash.
\<close>

lemma chained_unique:
  assumes "chained H es" "chained H es'" "tip_hash H es = tip_hash H es'"
    and nocol: "\<And>e e'. e \<in> set es \<Longrightarrow> e' \<in> set es' \<Longrightarrow> compute_hash H e = compute_hash H e' \<Longrightarrow> e = e'"
    and nozero: "\<And>e. e \<in> set es \<union> set es' \<Longrightarrow> compute_hash H e \<noteq> zero_hash"
  shows "es = es'"
  using assms
proof (induction es arbitrary: es' rule: rev_induct)
  case Nil
  show ?case
  proof (cases es' rule: rev_cases)
    case (snoc fs f)
    with Nil.prems(3) have "compute_hash H f = zero_hash" by (simp add: tip_hash_def)
    with Nil.prems(5) [of f] snoc show ?thesis by simp
  qed simp
next
  case (snoc e es)
  show ?case
  proof (cases es' rule: rev_cases)
    case Nil
    have "compute_hash H e = zero_hash" using snoc.prems(3) by (simp add: Nil tip_hash_def)
    then show ?thesis using snoc.prems(5) [of e] by simp
  next
    case (snoc fs f)
    with snoc.prems(3) have "compute_hash H e = compute_hash H f" by (simp add: tip_hash_def)
    with snoc.prems(4) [of e f] snoc have ef: "e = f" by simp
    have "es = fs"
    proof (rule snoc.IH)
      show "chained H es" "chained H fs" "tip_hash H es = tip_hash H fs"
        using snoc.prems(1,2) snoc ef by (simp_all add: chained_append)
    qed (use snoc.prems(4,5) snoc in auto)
    with ef snoc show ?thesis by simp
  qed
qed

section \<open>Lemmas: appending\<close>

definition appended :: "(bytes \<Rightarrow> Hash256) \<Rightarrow> LedgerEvent \<Rightarrow> Ledger \<Rightarrow> Ledger" where
  "appended H e L =
     L\<lparr>lg_events := lg_events L @ [e],
       lg_lookup := omap_set (event_id e) (length (lg_events L)) (lg_lookup L),
       lg_index := LedgerIndex_add_event e (lg_index L),
       lg_latest := compute_hash H e,
       lg_notified := (if lg_callback L then lg_notified L @ [e] else lg_notified L)\<rparr>"

lemma add_event_cases:
  "add_event H clk e L = (if verify_event H clk L e then (event_id e, appended H e L) else (zero_hash, L))"
  by (simp add: add_event_def appended_def)

lemma ledger_inv_appended:
  assumes "ledger_inv H L" "verify_event H clk L e"
  shows "ledger_inv H (appended H e L)"
proof -
  have ver: "map_of (lg_lookup L) (event_id e) = None" "previous_hash e = tip_hash H (lg_events L)"
    using assms(2) by (auto simp: verify_event_def verify_event_chain_tip split: if_splits)
  have look: "\<And>eid i. map_of (lg_lookup L) eid = Some i \<longleftrightarrow>
      i < length (lg_events L) \<and> event_id (lg_events L ! i) = eid"
    using assms(1) by (simp add: ledger_inv_def)
  have fresh: "\<forall>i < length (lg_events L). event_id (lg_events L ! i) \<noteq> event_id e"
    using ver(1) look [of "event_id e"] by auto
  then have "event_id e \<notin> event_id ` set (lg_events L)" by (auto simp: in_set_conv_nth)
  then show ?thesis
    using assms(1) ver(2) fresh look
    by (auto simp: ledger_inv_def appended_def chained_append nth_append less_Suc_eq)
qed

lemma ledger_inv_add_event: "ledger_inv H L \<Longrightarrow> ledger_inv H (snd (add_event H clk e L))"
  by (simp add: add_event_cases ledger_inv_appended)

lemma ledger_inv_counter [simp]: "ledger_inv H (L\<lparr>lg_counter := c\<rparr>) = ledger_inv H L"
  by (simp add: ledger_inv_def)

lemma ledger_inv_record_event: "ledger_inv H L \<Longrightarrow> ledger_inv H (snd (record_event H clk ty dat L))"
  by (simp add: record_event_def create_event_def Let_def ledger_inv_add_event)

lemma ledger_inv_external: "ledger_inv H L \<Longrightarrow> ledger_inv H (snd (add_external_event H clk e L))"
  by (simp add: add_external_event_def ledger_inv_add_event)

lemma ledger_inv_clear: "ledger_inv H (clear_events L)"
  by (cases "lg_index L")
    (simp add: ledger_inv_def clear_events_def LedgerIndex_clear_def LedgerIndex_empty_def)

lemma ledger_inv_load_loop:
  "ledger_inv H L \<Longrightarrow> load_loop H clks c n s L = Some L' \<Longrightarrow> ledger_inv H L'"
proof (induction H clks c n s L rule: load_loop.induct)
  case (2 H clks c n s L)
  show ?case
    by (rule "2.IH" [OF _ refl refl refl refl refl])
      (use "2.prems" in \<open>auto simp: Let_def ledger_inv_add_event split: if_splits option.splits\<close>)
qed simp

lemma ledger_inv_load:
  "ledger_inv H L \<Longrightarrow> load_from_file H clks c file L = Some (b, L') \<Longrightarrow> ledger_inv H L'"
  by (auto simp: load_from_file_def split: option.splits if_splits
      intro: ledger_inv_load_loop [OF ledger_inv_clear])

lemma ledger_inv_load_junk: "ledger_inv H L \<Longrightarrow> ledger_inv H (load_loop_junk H junk clks c n s L)"
  by (induction n arbitrary: clks c s L) (simp_all add: Let_def ledger_inv_add_event split: option.split)

lemma ledger_inv_load_file: "ledger_inv H L \<Longrightarrow> ledger_inv H (load_file H junk clks c file L)"
  by (simp add: load_file_def ledger_inv_load_junk ledger_inv_clear split: option.split)

lemma load_loop_complete: "load_loop H clks c n s L = Some L' \<Longrightarrow> load_loop_junk H junk clks c n s L = L'"
  by (induction n arbitrary: clks c s L) (auto simp: Let_def split: if_splits)

text \<open>A complete file is loaded as \<open>load_from_file\<close> says, whatever the uninitialised values are.\<close>

theorem load_file_complete: "load_from_file H clks c file L = Some (b, L') \<Longrightarrow> load_file H junk clks c file L = L'"
  by (auto simp: load_from_file_def load_file_def load_loop_complete split: option.splits if_splits)

lemmas record_defs = record_node_joined_def record_node_left_def record_key_issued_def
  record_key_revoked_def record_network_created_def record_network_member_added_def
  record_thing_replicated_def record_reputation_update_def

lemma ledger_inv_step: "ledger_inv H L \<Longrightarrow> ledger_inv H (ledger_step H L x)"
proof (cases x)
  case SetCallback
  then show "ledger_inv H L \<Longrightarrow> ?thesis" by (simp add: set_event_callback_def ledger_inv_def)
qed (auto simp: record_defs ledger_inv_record_event ledger_inv_external ledger_inv_load_file
    split: option.splits)

interpretation lm: invariant_machine "ledger_step H" "ledger_inv H" for H
  by unfold_locales (rule ledger_inv_step)

lemma ledger_inv_init: "ledger_inv H (Ledger_init n)"
  by (simp add: ledger_inv_def Ledger_init_def)

section \<open>Lemmas: queries\<close>

lemma get_event_find:
  assumes "ledger_inv H L"
  shows "get_event L eid = find (\<lambda>e. event_id e = eid) (lg_events L)"
proof (cases "map_of (lg_lookup L) eid")
  case None
  have "event_id e \<noteq> eid" if "e \<in> set (lg_events L)" for e
  proof -
    obtain i where "i < length (lg_events L)" "lg_events L ! i = e"
      using \<open>e \<in> set (lg_events L)\<close> by (auto simp: in_set_conv_nth)
    then have "map_of (lg_lookup L) (event_id e) = Some i" using assms by (simp add: ledger_inv_def)
    then show ?thesis using None by auto
  qed
  then have "find (\<lambda>e. event_id e = eid) (lg_events L) = None" by (auto simp: find_None_iff)
  then show ?thesis by (simp add: get_event_def None)
next
  case (Some i)
  then have i: "i < length (lg_events L)" "event_id (lg_events L ! i) = eid"
    using assms by (simp_all add: ledger_inv_def)
  have "event_id (lg_events L ! j) \<noteq> eid" if "j < i" for j
    using assms i that nth_eq_iff_index_eq [of "map event_id (lg_events L)" i j]
    by (auto simp: ledger_inv_def)
  with i have "find (\<lambda>e. event_id e = eid) (lg_events L) = Some (lg_events L ! i)"
    by (auto simp: find_Some_iff)
  then show ?thesis by (simp add: get_event_def Some)
qed

lemma get_event_member:
  assumes "ledger_inv H L" "e \<in> set (lg_events L)"
  shows "get_event L (event_id e) = Some e"
proof -
  obtain i where "i < length (lg_events L)" "lg_events L ! i = e"
    using assms(2) by (auto simp: in_set_conv_nth)
  then have "map_of (lg_lookup L) (event_id e) = Some i" using assms(1) by (simp add: ledger_inv_def)
  then show ?thesis using \<open>lg_events L ! i = e\<close> by (simp add: get_event_def)
qed

lemma get_events_by_node_filter:
  assumes "ledger_inv H L"
  shows "get_events_by_node L n = filter (\<lambda>e. source_node e = n) (lg_events L)"
proof -
  have "List.map_filter (get_event L) (map event_id es) = es" if "set es \<subseteq> set (lg_events L)" for es
    using that by (induction es) (simp_all add: map_filter_simps get_event_member [OF assms])
  moreover have "lg_index L = index_of (lg_events L)" using assms by (simp add: ledger_inv_def)
  ultimately show ?thesis by (simp add: get_events_by_node_def index_by_node)
qed

lemma count_ids_value:
  "opt_or 0 (map_of (count_ids es) k) = word_of_nat (length (filter (\<lambda>e. event_id e = k) es))"
proof -
  have "fold (\<lambda>e s. s + 1) xs (0 :: u32) = word_of_nat (length xs)" for xs :: "LedgerEvent list"
    by (simp add: fold_plus sum_list_triv)
  then show ?thesis
    using om.fold_group [where key = "\<lambda>e. Some (event_id e)" and upd = "\<lambda>e s. s + 1" and d = "0 :: u32"
        and start = "[]" and es = es and k = k]
    by (simp add: count_ids_def)
qed

lemma count_ids_ok: "omap_ok (count_ids es)"
proof -
  have "omap_ok m \<Longrightarrow> omap_ok (fold (\<lambda>e seen. omap_set (event_id e)
     (opt_or 0 (map_of seen (event_id e)) + 1) seen) es m)" for m :: "(Hash256 \<times> u32) list"
    by (induction es arbitrary: m) auto
  then show ?thesis by (simp add: count_ids_def)
qed

lemma no_conflicts:
  assumes "ledger_inv H L"
  shows "validate_chain H L \<and> detect_conflicts H L = []"
proof -
  have links: "chain_links H (lg_events L)" and dist: "distinct (map event_id (lg_events L))"
    using assms by (simp_all add: ledger_inv_def chained_def)
  have "snd p \<le> 1" if "p \<in> set (count_ids (lg_events L))" for p
  proof -
    have "map_of (count_ids (lg_events L)) (fst p) = Some (snd p)"
      using that omap_ok_distinct [OF count_ids_ok] by simp
    then have "snd p = word_of_nat (length (filter (\<lambda>e. event_id e = fst p) (lg_events L)))"
      using count_ids_value [of "lg_events L" "fst p"] by simp
    moreover have "distinct (map event_id es) \<Longrightarrow>
        length (filter (\<lambda>e. event_id e = fst p) es) \<le> 1" for es
      by (induction es) (force simp: filter_empty_conv)+
    then have "length (filter (\<lambda>e. event_id e = fst p) (lg_events L)) = 0 \<or>
        length (filter (\<lambda>e. event_id e = fst p) (lg_events L)) = 1"
      using dist by (metis le_0_eq le_Suc_eq One_nat_def)
    ultimately show ?thesis by (auto simp del: length_0_conv)
  qed
  then have "filter (\<lambda>p. snd p > 1) (count_ids (lg_events L)) = []"
    by (auto simp: filter_empty_conv linorder_not_less)
  with links show ?thesis
    by (simp add: validate_chain_def detect_conflicts_def broken_links_iff)
qed

section \<open>Lemmas: recording and receiving\<close>

definition clock_ok :: "clock \<Rightarrow> bool" where
  "clock_ok c \<longleftrightarrow> now_stamp c \<le> now_pre c \<and> now_pre c \<le> now_chain c \<and> now_chain c \<le> now_verify c \<and>
     unat (now_verify c) + 300 < 2 ^ 64"

lemma skew_ok: "a \<le> b \<Longrightarrow> unat b + 300 < 2 ^ 64 \<Longrightarrow> a \<le> b + MAX_FUTURE_SKEW_SECONDS"
  by (simp add: MAX_FUTURE_SKEW_SECONDS_def word_le_nat_alt unat_word_ariths)

lemma skew_mono:
  "b \<le> c \<Longrightarrow> unat c + 300 < 2 ^ 64 \<Longrightarrow> a \<le> b + MAX_FUTURE_SKEW_SECONDS \<Longrightarrow>
   a \<le> c + MAX_FUTURE_SKEW_SECONDS"
  by (simp add: MAX_FUTURE_SKEW_SECONDS_def word_le_nat_alt unat_word_ariths)

lemma clock_ok_less: "clock_ok c \<Longrightarrow> unat (now_chain c) + 300 < 2 ^ 64 \<and> unat (now_pre c) + 300 < 2 ^ 64"
  by (auto simp: clock_ok_def word_le_nat_alt)

lemma record_event_ok:
  assumes "latest_ok H L" "clock_ok clk"
    and "map_of (lg_lookup L) (event_id (fst (create_event H clk ty dat L))) = None"
  shows "record_event H clk ty dat L =
    (event_id (fst (create_event H clk ty dat L)),
     appended H (fst (create_event H clk ty dat L)) (L\<lparr>lg_counter := lg_counter L + 1\<rparr>))"
proof -
  define E where E: "E = fst (create_event H clk ty dat L)"
  have e: "create_event H clk ty dat L = (E, L\<lparr>lg_counter := lg_counter L + 1\<rparr>)"
    by (simp add: E create_event_def Let_def)
  have fields: "previous_hash E = lg_latest L" "event_timestamp E = now_stamp clk"
    by (simp_all add: E create_event_def Let_def)
  have "now_stamp clk \<le> now_chain clk + MAX_FUTURE_SKEW_SECONDS"
    "now_stamp clk \<le> now_verify clk + MAX_FUTURE_SKEW_SECONDS"
    using assms(2) clock_ok_less [OF assms(2)] by (auto simp: clock_ok_def intro!: skew_ok)
  then have "verify_event H clk (L\<lparr>lg_counter := lg_counter L + 1\<rparr>) E"
    using assms(1,3) [folded E] fields
    by (simp add: verify_event_def verify_event_chain_tip latest_ok_def tip_hash_def not_less)
  then show ?thesis by (simp add: record_event_def e add_event_cases)
qed

lemma events_add_event:
  "\<exists>es. lg_events (snd (add_event H clk e L)) = lg_events L @ es"
  by (simp add: add_event_cases appended_def)

lemma events_record_event:
  "\<exists>es. lg_events (snd (record_event H clk ty dat L)) = lg_events L @ es"
  using events_add_event [of H clk "fst (create_event H clk ty dat L)" "L\<lparr>lg_counter := lg_counter L + 1\<rparr>"]
  by (simp add: record_event_def create_event_def Let_def)

lemma events_step:
  "\<not> is_load x \<Longrightarrow> \<exists>es. lg_events (ledger_step H L x) = lg_events L @ es"
  by (cases x) (simp_all add: record_defs events_record_event add_external_event_def
      events_add_event set_event_callback_def)

lemma events_run:
  "list_all (\<lambda>x. \<not> is_load x) xs \<Longrightarrow> \<exists>es. lg_events (foldl (ledger_step H) L xs) = lg_events L @ es"
proof (induction xs arbitrary: L)
  case (Cons x xs)
  obtain es where "lg_events (ledger_step H L x) = lg_events L @ es"
    using Cons.prems events_step [of x H L] by auto
  moreover obtain fs where "lg_events (foldl (ledger_step H) (ledger_step H L x) xs) =
      lg_events (ledger_step H L x) @ fs"
    using Cons.prems Cons.IH [of "ledger_step H L x"] by auto
  ultimately show ?case by simp
qed simp

lemma latest_ok_add_event: "latest_ok H L \<Longrightarrow> latest_ok H (snd (add_event H clk e L))"
  by (simp add: add_event_cases appended_def latest_ok_def tip_hash_def)

lemma latest_ok_step: "\<not> is_load x \<Longrightarrow> latest_ok H L \<Longrightarrow> latest_ok H (ledger_step H L x)"
proof -
  have c: "latest_ok H (L\<lparr>lg_counter := n\<rparr>) = latest_ok H L" for n by (simp add: latest_ok_def)
  have "latest_ok H L \<Longrightarrow> latest_ok H (snd (record_event H clk ty dat L))" for clk ty dat
    by (simp add: record_event_def create_event_def Let_def latest_ok_add_event c)
  then show "\<not> is_load x \<Longrightarrow> latest_ok H L \<Longrightarrow> ?thesis"
    by (cases x) (auto simp: record_defs add_external_event_def latest_ok_add_event,
        simp add: set_event_callback_def latest_ok_def)
qed

section \<open>Lemmas: persistence\<close>

definition file_records :: "LedgerEvent list \<Rightarrow> bytes" where
  "file_records es = concat (map (\<lambda>e. let bs = LedgerEvent_to_bytes e in
     le_bytes 4 (word_of_nat (length bs) :: u32) @ bs) es)"

text \<open>Events whose encoded size fits the 32-bit size field of the file.\<close>

definition storable :: "LedgerEvent \<Rightarrow> bool" where
  "storable e \<longleftrightarrow> wf_event e \<and> length (LedgerEvent_to_bytes e) < 2 ^ 32"

definition not_in_future :: "clock \<Rightarrow> LedgerEvent \<Rightarrow> bool" where
  "not_in_future k e \<longleftrightarrow> event_timestamp e \<le> now_chain k + MAX_FUTURE_SKEW_SECONDS \<and>
     event_timestamp e \<le> now_verify k + MAX_FUTURE_SKEW_SECONDS"

lemma verify_event_next:
  assumes "ledger_inv H L" "previous_hash e = tip_hash H (lg_events L)"
    and "event_id e \<notin> event_id ` set (lg_events L)" "not_in_future clk e"
  shows "verify_event H clk L e"
proof -
  have "map_of (lg_lookup L) (event_id e) = None"
  proof (cases "map_of (lg_lookup L) (event_id e)")
    case (Some i)
    then have "i < length (lg_events L)" "event_id (lg_events L ! i) = event_id e"
      using assms(1) by (auto simp: ledger_inv_def)
    then show ?thesis using assms(3) by (metis image_eqI nth_mem)
  qed
  then show ?thesis
    using assms(2,4) by (simp add: verify_event_def verify_event_chain_tip not_in_future_def not_less)
qed

lemma load_loop_records:
  assumes "ledger_inv H L" "chained H (lg_events L @ es)"
    and "distinct (map event_id (lg_events L @ es))"
    and "list_all storable es" "list_all (\<lambda>k. list_all (not_in_future k) es) (c # clks)"
  shows "\<exists>L'. load_loop H clks c (length es) (file_records es @ rest) L = Some L' \<and>
    lg_events L' = lg_events L @ es \<and> ledger_inv H L' \<and> (es \<noteq> [] \<longrightarrow> latest_ok H L')"
  using assms
proof (induction es arbitrary: L clks c)
  case Nil
  then show ?case by simp
next
  case (Cons e es)
  let ?bs = "LedgerEvent_to_bytes e"
  let ?k = "case clks of [] \<Rightarrow> c | k # _ \<Rightarrow> k"
  let ?L = "appended H e L"
  have small: "length ?bs < 2 ^ 32" and wf: "wf_event e"
    using Cons.prems(4) by (auto simp: storable_def)
  have k: "?k \<in> set (c # clks)" by (cases clks) auto
  have nif: "not_in_future ?k e" using Cons.prems(5) k by (auto simp: list_all_iff)
  have tip: "previous_hash e = tip_hash H (lg_events L)"
  proof -
    have "chained H (xs @ ys) \<Longrightarrow> chained H xs" for xs ys
      by (induction ys rule: rev_induct) (auto simp: chained_append simp flip: append_assoc)
    from this [of "lg_events L @ [e]" es] Cons.prems(2) show ?thesis by (simp add: chained_append)
  qed
  have ver: "verify_event H ?k L e"
    using Cons.prems(1,3) tip nif by (intro verify_event_next) auto
  have next_inv: "ledger_inv H ?L" by (rule ledger_inv_appended [OF Cons.prems(1) ver])
  have ev: "lg_events ?L = lg_events L @ [e]" by (simp add: appended_def)
  have clks': "list_all (\<lambda>k. list_all (not_in_future k) es) (?k # tl clks)"
    using Cons.prems(5) by (cases clks) (auto simp: list_all_iff)
  have body: "file_records (e # es) @ rest =
      le_bytes 4 (word_of_nat (length ?bs) :: u32) @ ?bs @ file_records es @ rest"
    by (simp add: file_records_def Let_def)
  have step: "load_loop H clks c (length (e # es)) (file_records (e # es) @ rest) L =
      load_loop H (tl clks) ?k (length es) (file_records es @ rest) ?L"
    unfolding body using small wf ver eventc.dec_enc [OF wf] by (simp add: add_event_cases Let_def)
  obtain L' where L': "load_loop H (tl clks) ?k (length es) (file_records es @ rest) ?L = Some L'"
    "lg_events L' = lg_events ?L @ es" "ledger_inv H L'" "es \<noteq> [] \<longrightarrow> latest_ok H L'"
    using Cons.IH [OF next_inv _ _ _ clks'] Cons.prems(2,3,4) unfolding ev by auto
  have "latest_ok H L'" if "es = []"
    using that L'(1) by (auto simp: latest_ok_def appended_def tip_hash_def)
  with step L' ev show ?case by auto
qed

section \<open>Properties\<close>

definition sample_clock :: clock where
  "sample_clock = \<lparr>now_stamp = 1700000000, now_epoch = 1700000000, now_pre = 1700000000,
     now_chain = 1700000001, now_verify = 1700000001\<rparr>"

lemma sample_clock_ok [simp]: "clock_ok sample_clock"
  by (simp add: clock_ok_def sample_clock_def)

abbreviation sample_ledger :: Ledger where
  "sample_ledger \<equiv> Ledger_init (NodeID (replicate 32 1))"

text \<open>A hash for the witnesses: the last 32 bytes of the input, padded.\<close>

definition toy_hash :: "bytes \<Rightarrow> Hash256" where
  "toy_hash bs = take 32 (rev bs @ replicate 32 0)"

definition one_event_ledger :: Ledger where
  "one_event_ledger = appended toy_hash (sample_event\<lparr>previous_hash := zero_hash\<rparr>) sample_ledger"

lemma one_event_inv: "ledger_inv toy_hash one_event_ledger"
proof -
  have "verify_event toy_hash sample_clock sample_ledger (sample_event\<lparr>previous_hash := zero_hash\<rparr>)"
    by (simp add: verify_event_def verify_event_chain_def Ledger_init_def sample_event_def
        sample_clock_def MAX_FUTURE_SKEW_SECONDS_def)
  then show ?thesis
    unfolding one_event_ledger_def by (rule ledger_inv_appended [OF ledger_inv_init])
qed

text \<open>
  C1: the ledger invariant holds after every sequence of operations on a new ledger
  (recording, receiving, loading files, with any clock readings and any file contents): the
  events form a hash chain from the zero hash, no two events share an identifier, the
  identifier lookup is exact and the index is the index of the events.
\<close>

theorem ledger_invariant: "ledger_inv H (foldl (ledger_step H) (Ledger_init n) xs)"
  by (rule lm.run_inv [OF ledger_inv_init])

text \<open>
  in every reachable ledger \<open>validate_chain\<close> returns true and \<open>detect_conflicts\<close> finds
  nothing.
\<close>

theorem reachable_ledger_valid:
  "validate_chain H (foldl (ledger_step H) (Ledger_init n) xs) \<and>
   detect_conflicts H (foldl (ledger_step H) (Ledger_init n) xs) = []"
  by (rule no_conflicts [OF lm.run_inv [OF ledger_inv_init]])

text \<open>
  the log is append-only: without a file being loaded, every sequence of operations only
  appends events, and an event that could be retrieved by its identifier is retrieved
  unchanged afterwards.
\<close>

theorem ledger_append_only:
  assumes "ledger_inv H L" "list_all (\<lambda>x. \<not> is_load x) xs"
  shows "(\<exists>es. lg_events (foldl (ledger_step H) L xs) = lg_events L @ es) \<and>
    (get_event L eid = Some e \<longrightarrow> get_event (foldl (ledger_step H) L xs) eid = Some e)"
proof (intro conjI impI)
  show ex: "\<exists>es. lg_events (foldl (ledger_step H) L xs) = lg_events L @ es"
    by (rule events_run [OF assms(2)])
  assume "get_event L eid = Some e"
  then have "e \<in> set (lg_events L)" "event_id e = eid"
    by (auto simp: get_event_find [OF assms(1)] find_Some_iff)
  moreover from ex this have "e \<in> set (lg_events (foldl (ledger_step H) L xs))" by auto
  ultimately show "get_event (foldl (ledger_step H) L xs) eid = Some e"
    using get_event_member [OF lm.run_inv [OF assms(1)]] by blast
qed

theorem ledger_append_only_witness:
  "get_event (foldl (ledger_step toy_hash) one_event_ledger [NodeJoined sample_clock (NodeID (replicate 32 1))])
     (event_id sample_event) = Some (sample_event\<lparr>previous_hash := zero_hash\<rparr>)"
proof -
  have "get_event one_event_ledger (event_id sample_event) = Some (sample_event\<lparr>previous_hash := zero_hash\<rparr>)"
    by (simp add: get_event_def one_event_ledger_def appended_def Ledger_init_def)
  then show ?thesis
    using ledger_append_only [OF one_event_inv, of "[NodeJoined sample_clock (NodeID (replicate 32 1))]"
        "event_id sample_event" "sample_event\<lparr>previous_hash := zero_hash\<rparr>"]
    by simp
qed

text \<open>
  recording succeeds: in a ledger whose \<open>latest_hash_\<close> is the tip of the chain, with a
  clock that does not run backwards and an unused identifier, a \<open>record_*\<close> operation appends
  one event with the given type and payload, signed by the local node and linked to the tip,
  returns its identifier, makes it retrievable, and \<open>latest_hash_\<close> is the new tip.
\<close>

theorem record_event_appends:
  assumes "ledger_inv H L" "latest_ok H L" "clock_ok clk"
    and "map_of (lg_lookup L) (event_id (fst (create_event H clk ty dat L))) = None"
  defines "e \<equiv> fst (create_event H clk ty dat L)"
    and "L' \<equiv> snd (record_event H clk ty dat L)"
  shows "lg_events L' = lg_events L @ [e] \<and> fst (record_event H clk ty dat L) = event_id e \<and>
    event_type e = ty \<and> event_data e = dat \<and> source_node e = lg_node L \<and>
    previous_hash e = tip_hash H (lg_events L) \<and> event_epoch e = now_epoch clk div 600 \<and>
    get_event L' (event_id e) = Some e \<and> latest_ok H L' \<and> lg_counter L' = lg_counter L + 1"
proof -
  note ok = record_event_ok [OF assms(2-4)]
  have L': "L' = appended H e (L\<lparr>lg_counter := lg_counter L + 1\<rparr>)"
    and ret: "fst (record_event H clk ty dat L) = event_id e"
    by (simp_all add: L'_def e_def ok)
  have ev: "lg_events L' = lg_events L @ [e]" by (simp add: L' appended_def)
  have fields: "event_type e = ty" "event_data e = dat" "source_node e = lg_node L"
    "previous_hash e = tip_hash H (lg_events L)" "event_epoch e = now_epoch clk div 600"
    using assms(2)
    by (simp_all add: e_def create_event_def Let_def latest_ok_def current_epoch_def)
  have "get_event L' (event_id e) = Some e"
    by (rule get_event_member [of H])
      (simp_all add: ev, simp add: L'_def ledger_inv_record_event assms(1))
  moreover have "latest_ok H L'" by (simp add: L' appended_def latest_ok_def tip_hash_def)
  moreover have "lg_counter L' = lg_counter L + 1" by (simp add: L' appended_def)
  ultimately show ?thesis using ev ret fields by simp
qed

lemma latest_ok_init: "latest_ok H (Ledger_init n)"
  by (simp add: latest_ok_def tip_hash_def Ledger_init_def)

theorem record_event_appends_witness:
  "lg_events (snd (record_event toy_hash sample_clock NODE_JOINED [5] sample_ledger)) =
     lg_events sample_ledger @ [fst (create_event toy_hash sample_clock NODE_JOINED [5] sample_ledger)]"
  using record_event_appends [OF ledger_inv_init latest_ok_init sample_clock_ok,
      of "NodeID (replicate 32 1)" toy_hash NODE_JOINED "[5]"]
  by (simp add: Ledger_init_def)

text \<open>
  a peer's event is accepted by a ledger that has events exactly when it was appended:
  with a clock that does not run backwards, \<open>add_external_event\<close> returns true if and only if
  the event extends the tip, is new, and is at most five minutes in the future, and then the
  event is in the log; otherwise the ledger is unchanged.
\<close>

theorem add_external_event_nonempty:
  assumes "lg_events L \<noteq> []" "clock_ok clk"
  shows "(fst (add_external_event H clk e L) \<longleftrightarrow>
      previous_hash e = tip_hash H (lg_events L) \<and> map_of (lg_lookup L) (event_id e) = None \<and>
      event_timestamp e \<le> now_pre clk + MAX_FUTURE_SKEW_SECONDS) \<and>
    snd (add_external_event H clk e L) =
      (if fst (add_external_event H clk e L) then appended H e L else L)"
proof (cases "verify_event_chain H (now_pre clk) L e \<and> map_of (lg_lookup L) (event_id e) = None")
  case True
  then have pre: "event_timestamp e \<le> now_pre clk + MAX_FUTURE_SKEW_SECONDS"
    "previous_hash e = tip_hash H (lg_events L)"
    using assms(1) by (auto simp: verify_event_chain_tip)
  have "event_timestamp e \<le> now_chain clk + MAX_FUTURE_SKEW_SECONDS"
    "event_timestamp e \<le> now_verify clk + MAX_FUTURE_SKEW_SECONDS"
    using assms(2) clock_ok_less [OF assms(2)]
    by (auto simp: clock_ok_def intro!: skew_mono [OF _ _ pre(1)])
  then have "verify_event H clk L e"
    using True pre by (simp add: verify_event_def verify_event_chain_tip not_less)
  with True pre show ?thesis by (simp add: add_external_event_def add_event_cases)
next
  case False
  then show ?thesis using assms(1) by (auto simp: add_external_event_def verify_event_chain_tip)
qed

theorem add_external_event_nonempty_witness:
  "snd (add_external_event toy_hash sample_clock sample_event one_event_ledger) =
     (if fst (add_external_event toy_hash sample_clock sample_event one_event_ledger)
      then appended toy_hash sample_event one_event_ledger else one_event_ledger)"
proof -
  have "lg_events one_event_ledger \<noteq> []" by (simp add: one_event_ledger_def appended_def)
  from add_external_event_nonempty [OF this sample_clock_ok, of toy_hash sample_event]
  show ?thesis by blast
qed

text \<open>
  on an empty ledger \<open>add_external_event\<close> reports success for an event it has refused:
  with the zero predecessor and a timestamp beyond the allowed skew, it returns true and the
  log stays empty.
\<close>

theorem add_external_event_empty_lies:
  assumes "lg_events L = []" "lg_lookup L = []" "previous_hash e = zero_hash"
    and "event_timestamp e > now_verify clk + MAX_FUTURE_SKEW_SECONDS"
  shows "add_external_event H clk e L = (True, L)"
  using assms
  by (simp add: add_external_event_def verify_event_chain_def add_event_def verify_event_def)

theorem add_external_event_empty_lies_witness:
  "add_external_event toy_hash sample_clock
     (sample_event\<lparr>previous_hash := zero_hash, event_timestamp := 1800000000\<rparr>) sample_ledger =
   (True, sample_ledger)"
  by (rule add_external_event_empty_lies)
    (simp_all add: Ledger_init_def sample_clock_def MAX_FUTURE_SKEW_SECONDS_def)

text \<open>
  C18: a saved ledger is loaded back: reading the file that \<open>save_to_file\<close> wrote for a valid
  ledger, at a time when none of its events lies in the future, succeeds into any ledger and
  gives the same events, again valid; if there are any, \<open>latest_hash_\<close> is the tip.
\<close>

theorem save_load_roundtrip:
  assumes "ledger_inv H L" "length (lg_events L) < 2 ^ 64" "list_all storable (lg_events L)"
    and "list_all (\<lambda>k. list_all (not_in_future k) (lg_events L)) (c # clks)"
  shows "\<exists>L'. load_from_file H clks c (Some (save_to_file L)) L0 = Some (True, L') \<and>
    lg_events L' = lg_events L \<and> ledger_inv H L' \<and> (lg_events L \<noteq> [] \<longrightarrow> latest_ok H L')"
proof -
  have "chained H (lg_events L)" "distinct (map event_id (lg_events L))"
    using assms(1) by (simp_all add: ledger_inv_def)
  then obtain L' where "load_loop H clks c (length (lg_events L)) (file_records (lg_events L) @ [])
      (clear_events L0) = Some L'" "lg_events L' = lg_events L" "ledger_inv H L'"
      "lg_events L \<noteq> [] \<longrightarrow> latest_ok H L'"
    using load_loop_records [OF ledger_inv_clear, of H L0 "lg_events L" c clks "[]"] assms(3,4)
    by (auto simp: clear_events_def)
  moreover have "save_to_file L = le_bytes 8 (word_of_nat (length (lg_events L)) :: u64)
      @ file_records (lg_events L)"
    by (simp add: save_to_file_def file_records_def)
  ultimately show ?thesis using assms(2) by (simp add: load_from_file_def)
qed

theorem save_load_roundtrip_witness:
  "\<exists>L'. load_from_file toy_hash [] sample_clock (Some (save_to_file one_event_ledger)) sample_ledger =
      Some (True, L') \<and> lg_events L' = lg_events one_event_ledger \<and> ledger_inv toy_hash L' \<and> latest_ok toy_hash L'"
proof -
  have "\<exists>L'. load_from_file toy_hash [] sample_clock (Some (save_to_file one_event_ledger)) sample_ledger =
      Some (True, L') \<and> lg_events L' = lg_events one_event_ledger \<and> ledger_inv toy_hash L' \<and>
      (lg_events one_event_ledger \<noteq> [] \<longrightarrow> latest_ok toy_hash L')"
    by (rule save_load_roundtrip [OF one_event_inv])
      (simp_all add: one_event_ledger_def appended_def Ledger_init_def storable_def wf_event_def
        sample_event_def zero_hash_def LedgerEvent_to_bytes_def not_in_future_def sample_clock_def
        MAX_FUTURE_SKEW_SECONDS_def)
  then show ?thesis by (simp add: one_event_ledger_def appended_def)
qed

text \<open>
  loading does not reset \<open>latest_hash_\<close>: after a file without events is loaded into a
  ledger whose \<open>latest_hash_\<close> is not the zero hash, the load reports success, and every
  \<open>record_*\<close> operation from then on is refused: it returns the zero hash and appends nothing.
\<close>

theorem load_empty_blocks_recording:
  assumes "lg_latest L \<noteq> zero_hash"
  shows "\<exists>L'. load_from_file H clks c (Some (save_to_file (Ledger_init n))) L = Some (True, L') \<and>
    fst (record_event H clk ty dat L') = zero_hash \<and>
    lg_events (snd (record_event H clk ty dat L')) = [] \<and>
    lg_latest (snd (record_event H clk ty dat L')) = lg_latest L"
proof -
  have "load_from_file H clks c (Some (save_to_file (Ledger_init n))) L = Some (True, clear_events L)"
    using le_word_le_bytes_u64 [of 0] by (simp add: load_from_file_def save_to_file_def Ledger_init_def)
  then show ?thesis
    using assms
    by (simp add: record_event_def create_event_def Let_def add_event_def verify_event_def
        verify_event_chain_def clear_events_def)
qed

theorem load_empty_blocks_recording_witness:
  "\<exists>L'. load_from_file toy_hash [] sample_clock (Some (save_to_file sample_ledger)) one_event_ledger =
      Some (True, L') \<and>
    fst (record_event toy_hash sample_clock NODE_JOINED [5] L') = zero_hash \<and>
    lg_events (snd (record_event toy_hash sample_clock NODE_JOINED [5] L')) = [] \<and>
    lg_latest (snd (record_event toy_hash sample_clock NODE_JOINED [5] L')) = lg_latest one_event_ledger"
  by (rule load_empty_blocks_recording)
    (simp add: one_event_ledger_def appended_def compute_hash_def toy_hash_def zero_hash_def
      LedgerEvent_to_bytes_def sample_event_def)

text \<open>The bytes that are hashed for the events of a ledger.\<close>

definition hashed_bytes :: "Ledger \<Rightarrow> bytes set" where
  "hashed_bytes L = LedgerEvent_to_bytes ` set (lg_events L)"

text \<open>
  C7: the chain is tamper-evident: two ledgers that satisfy the ledger invariant, whose events have fields of the
  fixed lengths of the format, and that have the same tip hash, hold the same events, unless BLAKE3 collides on two
  different byte strings that were hashed for them, or maps one of these strings to the zero hash.
\<close>

theorem ledger_tamper_evident:
  assumes "ledger_inv H L" "ledger_inv H L'" "list_all wf_event (lg_events L)" "list_all wf_event (lg_events L')"
    and "tip_hash H (lg_events L) = tip_hash H (lg_events L')"
  shows "lg_events L = lg_events L' \<or>
    (\<exists>x \<in> hashed_bytes L. \<exists>y \<in> hashed_bytes L'. x \<noteq> y \<and> H x = H y) \<or>
    (\<exists>x \<in> hashed_bytes L \<union> hashed_bytes L'. H x = zero_hash)"
proof (rule ccontr)
  assume neg: "\<not> ?thesis"
  have "chained H (lg_events L)" "chained H (lg_events L')"
    using assms(1,2) by (simp_all add: ledger_inv_def)
  moreover have "e = e'" if "e \<in> set (lg_events L)" "e' \<in> set (lg_events L')" "compute_hash H e = compute_hash H e'" for e e'
  proof -
    have "LedgerEvent_to_bytes e = LedgerEvent_to_bytes e'"
      using neg that by (auto simp: hashed_bytes_def compute_hash_def)
    moreover have "wf_event e" "wf_event e'" using assms(3,4) that by (auto simp: list_all_iff)
    ultimately show ?thesis using LedgerEvent_codec [of e "[]"] LedgerEvent_codec [of e' "[]"] by simp
  qed
  moreover have "compute_hash H e \<noteq> zero_hash" if "e \<in> set (lg_events L) \<union> set (lg_events L')" for e
    using neg that by (auto simp: hashed_bytes_def compute_hash_def)
  ultimately have "lg_events L = lg_events L'" using chained_unique [OF _ _ assms(5)] by blast
  with neg show False by blast
qed

text \<open>Two different ledgers whose events differ in the payload; the hash of the witnesses collides on them.\<close>

definition forged_ledger :: Ledger where
  "forged_ledger = appended toy_hash (sample_event\<lparr>previous_hash := zero_hash, event_data := [9, 9]\<rparr>) sample_ledger"

lemma forged_inv: "ledger_inv toy_hash forged_ledger"
proof -
  have "verify_event toy_hash sample_clock sample_ledger (sample_event\<lparr>previous_hash := zero_hash, event_data := [9, 9]\<rparr>)"
    by (simp add: verify_event_def verify_event_chain_def Ledger_init_def sample_event_def
        sample_clock_def MAX_FUTURE_SKEW_SECONDS_def)
  then show ?thesis
    unfolding forged_ledger_def by (rule ledger_inv_appended [OF ledger_inv_init])
qed

theorem ledger_tamper_evident_witness:
  "lg_events one_event_ledger \<noteq> lg_events forged_ledger \<and>
   ((\<exists>x \<in> hashed_bytes one_event_ledger. \<exists>y \<in> hashed_bytes forged_ledger. x \<noteq> y \<and> toy_hash x = toy_hash y) \<or>
    (\<exists>x \<in> hashed_bytes one_event_ledger \<union> hashed_bytes forged_ledger. toy_hash x = zero_hash))"
proof -
  have "lg_events one_event_ledger \<noteq> lg_events forged_ledger"
    by (simp add: one_event_ledger_def forged_ledger_def appended_def Ledger_init_def sample_event_def)
  moreover have "list_all wf_event (lg_events one_event_ledger)" "list_all wf_event (lg_events forged_ledger)"
    by (simp_all add: one_event_ledger_def forged_ledger_def appended_def Ledger_init_def sample_event_def wf_event_def zero_hash_def)
  moreover have "tip_hash toy_hash (lg_events one_event_ledger) = tip_hash toy_hash (lg_events forged_ledger)"
    by (simp add: one_event_ledger_def forged_ledger_def appended_def Ledger_init_def tip_hash_def compute_hash_def toy_hash_def
        LedgerEvent_to_bytes_def sample_event_def)
  ultimately show ?thesis using ledger_tamper_evident [OF one_event_inv forged_inv] by blast
qed

text \<open>
  queries agree with the log: in a valid ledger \<open>get_event\<close> finds the event with the
  given identifier, and \<open>get_events_by_node\<close>, which goes through the index and the lookup
  table, returns the node's events in log order.
\<close>

theorem ledger_queries:
  assumes "ledger_inv H L"
  shows "get_event L eid = find (\<lambda>e. event_id e = eid) (lg_events L) \<and>
    get_events_by_node L n = filter (\<lambda>e. source_node e = n) (lg_events L)"
  using get_event_find [OF assms] get_events_by_node_filter [OF assms] by blast

theorem ledger_queries_witness:
  "get_event one_event_ledger zero_hash = find (\<lambda>e. event_id e = zero_hash) (lg_events one_event_ledger) \<and>
   get_events_by_node one_event_ledger (NodeID []) =
     filter (\<lambda>e. source_node e = NodeID []) (lg_events one_event_ledger)"
  by (rule ledger_queries [OF one_event_inv])

end
