(* ===== verification/State.thy ===== *)
theory State
  imports Ledger_Log
begin

text \<open>
  \<open>StateManager\<close> of \<open>src/core/ledger/state.cpp\<close>: the current state of nodes, networks and
  Things, built by applying the ledger's events in order, and the queries, capability checks
  and maintenance operations on it.

  \<open>operator[]\<close> on a map inserts a default-constructed value for a missing key. The default
  constructors leave the identifier fields uninitialised; such a field is \<open>None\<close> here.
  \<open>reputation_score\<close> is an \<open>int32_t\<close>, kept as the 32-bit word with the same bits (in C++ an
  overflow of the sum is undefined).
\<close>

record NodeState =
  ns_node_id :: "NodeID option"
  ns_joined_at :: u64
  ns_is_active :: bool
  ns_key_balances :: "(KeyType \<times> u32) list"
  ns_networks :: "Hash256 list"
  ns_hosted_things :: "ContentHash list"
  ns_reputation :: u32
  ns_uptime :: u64
  ns_bandwidth :: u64
  ns_pow_solutions :: u32
  ns_postake :: u32

record NetworkState =
  nw_network_id :: "Hash256 option"
  nw_created_at :: u64
  nw_is_active :: bool
  nw_members :: "NodeID list"
  nw_member_roles :: "(NodeID \<times> string) list"
  nw_hosted_thing :: "ContentHash option"

record ThingState =
  th_content_hash :: "ContentHash option"
  th_created_at :: u64
  th_is_available :: bool
  th_hosts :: "NodeID list"
  th_networks :: "Hash256 list"
  th_total_size :: u64
  th_replication_count :: u32

record StateManager =
  sm_nodes :: "(NodeID \<times> NodeState) list"
  sm_networks :: "(Hash256 \<times> NetworkState) list"
  sm_things :: "(ContentHash \<times> ThingState) list"
  sm_last_rebuild :: u64

record StateSnapshot =
  snap_timestamp :: u64
  snap_epoch :: u64
  snap_ledger_hash :: Hash256
  snap_total_nodes :: nat
  snap_active_nodes :: nat
  snap_total_networks :: nat
  snap_total_things :: nat
  snap_total_keys :: u64

definition NodeState_new :: NodeState where
  "NodeState_new = \<lparr>ns_node_id = None, ns_joined_at = 0, ns_is_active = False, ns_key_balances = [],
     ns_networks = [], ns_hosted_things = [], ns_reputation = 0, ns_uptime = 0, ns_bandwidth = 0,
     ns_pow_solutions = 0, ns_postake = 0\<rparr>"

definition NetworkState_new :: NetworkState where
  "NetworkState_new = \<lparr>nw_network_id = None, nw_created_at = 0, nw_is_active = False,
     nw_members = [], nw_member_roles = [], nw_hosted_thing = None\<rparr>"

definition ThingState_new :: ThingState where
  "ThingState_new = \<lparr>th_content_hash = None, th_created_at = 0, th_is_available = False,
     th_hosts = [], th_networks = [], th_total_size = 0, th_replication_count = 0\<rparr>"

section \<open>NodeState, NetworkState, ThingState\<close>

definition has_key_type :: "NodeState \<Rightarrow> KeyType \<Rightarrow> u32 \<Rightarrow> bool" where
  "has_key_type st t min_count =
     (case map_of (ns_key_balances st) t of None \<Rightarrow> False | Some n \<Rightarrow> n \<ge> min_count)"

definition can_host_things :: "NodeState \<Rightarrow> bool" where
  "can_host_things st \<longleftrightarrow> ns_is_active st \<and> has_key_type st SERVICE 1"

definition can_join_networks :: "NodeState \<Rightarrow> bool" where
  "can_join_networks st \<longleftrightarrow> ns_is_active st \<and> has_key_type st NETWORK 1"

definition can_route :: "NodeState \<Rightarrow> bool" where
  "can_route st \<longleftrightarrow> ns_is_active st \<and> has_key_type st ROUTING 1"

definition has_member :: "NetworkState \<Rightarrow> NodeID \<Rightarrow> bool" where
  "has_member st n \<longleftrightarrow> n \<in> set (nw_members st)"

definition get_member_role :: "NetworkState \<Rightarrow> NodeID \<Rightarrow> string" where
  "get_member_role st n = opt_or ''UNKNOWN'' (map_of (nw_member_roles st) n)"

definition is_hosted_by :: "ThingState \<Rightarrow> NodeID \<Rightarrow> bool" where
  "is_hosted_by st n \<longleftrightarrow> n \<in> set (th_hosts st)"

definition meets_redundancy_requirements :: "ThingState \<Rightarrow> u32 \<Rightarrow> bool" where
  "meets_redundancy_requirements st min_redundancy \<longleftrightarrow> th_replication_count st \<ge> min_redundancy"

section \<open>Applying events\<close>

text \<open>\<open>nodes_[n]\<close> and storing back what the code changed through the reference.\<close>

definition node_at :: "StateManager \<Rightarrow> NodeID \<Rightarrow> NodeState" where
  "node_at s n = opt_or NodeState_new (map_of (sm_nodes s) n)"

definition set_node :: "NodeID \<Rightarrow> NodeState \<Rightarrow> StateManager \<Rightarrow> StateManager" where
  "set_node n st s = s\<lparr>sm_nodes := omap_set n st (sm_nodes s)\<rparr>"

definition apply_node_joined :: "LedgerEvent \<Rightarrow> StateManager \<Rightarrow> StateManager" where
  "apply_node_joined e s =
     set_node (source_node e) (NodeState_new\<lparr>ns_node_id := Some (source_node e),
       ns_joined_at := event_timestamp e, ns_is_active := True\<rparr>) s"

definition apply_node_left :: "LedgerEvent \<Rightarrow> StateManager \<Rightarrow> StateManager" where
  "apply_node_left e s =
     (case map_of (sm_nodes s) (source_node e) of
        None \<Rightarrow> s
      | Some st \<Rightarrow> set_node (source_node e) (st\<lparr>ns_is_active := False\<rparr>) s)"

definition apply_key_issued :: "LedgerEvent \<Rightarrow> StateManager \<Rightarrow> StateManager" where
  "apply_key_issued e s =
     (case KeyIssuanceData_from_bytes (event_data e) of
        None \<Rightarrow> s
      | Some d \<Rightarrow>
          let st = node_at s (source_node e) in
          set_node (source_node e) (st\<lparr>ns_key_balances := omap_set (ki_key_type d)
            (opt_or 0 (map_of (ns_key_balances st) (ki_key_type d)) + ki_count d)
            (ns_key_balances st)\<rparr>) s)"

definition apply_key_revoked :: "LedgerEvent \<Rightarrow> StateManager \<Rightarrow> StateManager" where
  "apply_key_revoked e s =
     (case KeyIssuanceData_from_bytes (event_data e) of
        None \<Rightarrow> s
      | Some d \<Rightarrow>
          let st = node_at s (source_node e);
              balance = opt_or 0 (map_of (ns_key_balances st) (ki_key_type d)) in
          set_node (source_node e) (st\<lparr>ns_key_balances := omap_set (ki_key_type d)
            (if balance > ki_count d then balance - ki_count d else 0) (ns_key_balances st)\<rparr>) s)"

definition apply_network_created :: "LedgerEvent \<Rightarrow> StateManager \<Rightarrow> StateManager" where
  "apply_network_created e s =
     (if length (event_data e) < 32 then s
      else let net = take 32 (event_data e) in
        s\<lparr>sm_networks := omap_set net (NetworkState_new\<lparr>nw_network_id := Some net,
            nw_created_at := event_timestamp e, nw_is_active := True\<rparr>) (sm_networks s)\<rparr>)"

definition apply_network_member_added :: "LedgerEvent \<Rightarrow> StateManager \<Rightarrow> StateManager" where
  "apply_network_member_added e s =
     (case NetworkMembershipData_from_bytes (event_data e) of
        None \<Rightarrow> s
      | Some d \<Rightarrow>
          let net = opt_or NetworkState_new (map_of (sm_networks s) (nm_network_id d));
              s1 = s\<lparr>sm_networks := omap_set (nm_network_id d)
                      (net\<lparr>nw_members := oset_insert (nm_member_node d) (nw_members net),
                           nw_member_roles := omap_set (nm_member_node d) (nm_role d)
                             (nw_member_roles net)\<rparr>) (sm_networks s)\<rparr>;
              st = node_at s1 (nm_member_node d)
          in set_node (nm_member_node d)
               (st\<lparr>ns_networks := oset_insert (nm_network_id d) (ns_networks st)\<rparr>) s1)"

definition apply_network_member_removed :: "LedgerEvent \<Rightarrow> StateManager \<Rightarrow> StateManager" where
  "apply_network_member_removed e s =
     (case NetworkMembershipData_from_bytes (event_data e) of
        None \<Rightarrow> s
      | Some d \<Rightarrow>
          let s1 = (case map_of (sm_networks s) (nm_network_id d) of
                      None \<Rightarrow> s
                    | Some net \<Rightarrow> s\<lparr>sm_networks := omap_set (nm_network_id d)
                        (net\<lparr>nw_members := oset_erase (nm_member_node d) (nw_members net),
                             nw_member_roles := omap_erase (nm_member_node d) (nw_member_roles net)\<rparr>)
                        (sm_networks s)\<rparr>)
          in (case map_of (sm_nodes s1) (nm_member_node d) of
                None \<Rightarrow> s1
              | Some st \<Rightarrow> set_node (nm_member_node d)
                  (st\<lparr>ns_networks := oset_erase (nm_network_id d) (ns_networks st)\<rparr>) s1))"

definition apply_thing_replicated :: "LedgerEvent \<Rightarrow> StateManager \<Rightarrow> StateManager" where
  "apply_thing_replicated e s =
     (case ThingReplicationData_from_bytes (event_data e) of
        None \<Rightarrow> s
      | Some d \<Rightarrow>
          let th = opt_or ThingState_new (map_of (sm_things s) (td_content_hash d));
              hosts = oset_insert (td_hosting_node d) (th_hosts th);
              s1 = s\<lparr>sm_things := omap_set (td_content_hash d)
                      (th\<lparr>th_content_hash := Some (td_content_hash d),
                          th_created_at := event_timestamp e, th_is_available := True,
                          th_hosts := hosts,
                          th_networks := oset_insert (td_network_id d) (th_networks th),
                          th_total_size := td_size_bytes d,
                          th_replication_count := word_of_nat (length hosts)\<rparr>) (sm_things s)\<rparr>;
              st = node_at s1 (td_hosting_node d)
          in set_node (td_hosting_node d)
               (st\<lparr>ns_hosted_things := oset_insert (td_content_hash d) (ns_hosted_things st)\<rparr>) s1)"

definition apply_thing_removed :: "LedgerEvent \<Rightarrow> StateManager \<Rightarrow> StateManager" where
  "apply_thing_removed e s =
     (case ThingReplicationData_from_bytes (event_data e) of
        None \<Rightarrow> s
      | Some d \<Rightarrow>
          (case map_of (sm_things s) (td_content_hash d) of
             None \<Rightarrow> s
           | Some th \<Rightarrow>
               let hosts = oset_erase (td_hosting_node d) (th_hosts th);
                   count = (word_of_nat (length hosts) :: u32);
                   s1 = s\<lparr>sm_things := omap_set (td_content_hash d)
                           (th\<lparr>th_hosts := hosts, th_replication_count := count,
                               th_is_available := (if count = 0 then False else th_is_available th)\<rparr>)
                           (sm_things s)\<rparr>
               in (case map_of (sm_nodes s1) (td_hosting_node d) of
                     None \<Rightarrow> s1
                   | Some st \<Rightarrow> set_node (td_hosting_node d)
                       (st\<lparr>ns_hosted_things := oset_erase (td_content_hash d) (ns_hosted_things st)\<rparr>) s1)))"

definition apply_reputation_updated :: "LedgerEvent \<Rightarrow> StateManager \<Rightarrow> StateManager" where
  "apply_reputation_updated e s =
     (case ReputationUpdateData_from_bytes (event_data e) of
        None \<Rightarrow> s
      | Some d \<Rightarrow>
          let st = node_at s (ru_subject_node d) in
          set_node (ru_subject_node d)
            (st\<lparr>ns_reputation := ns_reputation st + ru_score_delta d\<rparr>) s)"

definition apply_pow_solution :: "LedgerEvent \<Rightarrow> StateManager \<Rightarrow> StateManager" where
  "apply_pow_solution e s =
     (let st = node_at s (source_node e) in
      set_node (source_node e) (st\<lparr>ns_pow_solutions := ns_pow_solutions st + 1\<rparr>) s)"

definition apply_postake_contribution :: "LedgerEvent \<Rightarrow> StateManager \<Rightarrow> StateManager" where
  "apply_postake_contribution e s =
     (let st = node_at s (source_node e) in
      set_node (source_node e) (st\<lparr>ns_postake := ns_postake st + 1\<rparr>) s)"

definition apply_event :: "LedgerEvent \<Rightarrow> StateManager \<Rightarrow> StateManager" where
  "apply_event e s =
     (if event_type e = NODE_JOINED then apply_node_joined e s
      else if event_type e = NODE_LEFT then apply_node_left e s
      else if event_type e = KEY_ISSUED then apply_key_issued e s
      else if event_type e = KEY_REVOKED then apply_key_revoked e s
      else if event_type e = NETWORK_CREATED then apply_network_created e s
      else if event_type e = NETWORK_MEMBER_ADDED then apply_network_member_added e s
      else if event_type e = NETWORK_MEMBER_REMOVED then apply_network_member_removed e s
      else if event_type e = THING_REPLICATED then apply_thing_replicated e s
      else if event_type e = THING_REMOVED then apply_thing_removed e s
      else if event_type e = REPUTATION_UPDATED then apply_reputation_updated e s
      else if event_type e = POW_SOLUTION_SUBMITTED then apply_pow_solution e s
      else if event_type e = POSTAKE_CONTRIBUTION then apply_postake_contribution e s
      else s)"

definition rebuild_state :: "Ledger \<Rightarrow> u64 \<Rightarrow> StateManager \<Rightarrow> StateManager" where
  "rebuild_state L now s =
     (fold apply_event (get_all_events L) (s\<lparr>sm_nodes := [], sm_networks := [], sm_things := []\<rparr>))
       \<lparr>sm_last_rebuild := now\<rparr>"

definition StateManager_init :: "Ledger \<Rightarrow> u64 \<Rightarrow> StateManager" where
  "StateManager_init L now =
     rebuild_state L now \<lparr>sm_nodes = [], sm_networks = [], sm_things = [], sm_last_rebuild = 0\<rparr>"

section \<open>Queries\<close>

definition get_node_state :: "StateManager \<Rightarrow> NodeID \<Rightarrow> NodeState option" where
  "get_node_state s n = map_of (sm_nodes s) n"

definition get_all_active_nodes :: "StateManager \<Rightarrow> NodeState list" where
  "get_all_active_nodes s = filter ns_is_active (map snd (sm_nodes s))"

definition get_nodes_with_key_type :: "StateManager \<Rightarrow> KeyType \<Rightarrow> u32 \<Rightarrow> NodeID list" where
  "get_nodes_with_key_type s t min_count =
     map fst (filter (\<lambda>p. ns_is_active (snd p) \<and> has_key_type (snd p) t min_count) (sm_nodes s))"

definition is_node_active :: "StateManager \<Rightarrow> NodeID \<Rightarrow> bool" where
  "is_node_active s n = (case map_of (sm_nodes s) n of None \<Rightarrow> False | Some st \<Rightarrow> ns_is_active st)"

definition get_node_key_balance :: "StateManager \<Rightarrow> NodeID \<Rightarrow> KeyType \<Rightarrow> u32" where
  "get_node_key_balance s n t =
     (case map_of (sm_nodes s) n of
        None \<Rightarrow> 0
      | Some st \<Rightarrow> (case map_of (ns_key_balances st) t of None \<Rightarrow> 0 | Some b \<Rightarrow> b))"

definition get_node_reputation :: "StateManager \<Rightarrow> NodeID \<Rightarrow> u32" where
  "get_node_reputation s n = (case map_of (sm_nodes s) n of None \<Rightarrow> 0 | Some st \<Rightarrow> ns_reputation st)"

definition get_network_state :: "StateManager \<Rightarrow> Hash256 \<Rightarrow> NetworkState option" where
  "get_network_state s net = map_of (sm_networks s) net"

definition get_all_active_networks :: "StateManager \<Rightarrow> NetworkState list" where
  "get_all_active_networks s = filter nw_is_active (map snd (sm_networks s))"

definition get_networks_for_node :: "StateManager \<Rightarrow> NodeID \<Rightarrow> Hash256 list" where
  "get_networks_for_node s n = (case map_of (sm_nodes s) n of None \<Rightarrow> [] | Some st \<Rightarrow> ns_networks st)"

definition get_networks_hosting_thing :: "StateManager \<Rightarrow> ContentHash \<Rightarrow> Hash256 list" where
  "get_networks_hosting_thing s c =
     (case map_of (sm_things s) c of None \<Rightarrow> [] | Some th \<Rightarrow> th_networks th)"

definition is_network_active :: "StateManager \<Rightarrow> Hash256 \<Rightarrow> bool" where
  "is_network_active s net =
     (case map_of (sm_networks s) net of None \<Rightarrow> False | Some st \<Rightarrow> nw_is_active st)"

definition is_node_in_network :: "StateManager \<Rightarrow> NodeID \<Rightarrow> Hash256 \<Rightarrow> bool" where
  "is_node_in_network s n net =
     (case map_of (sm_networks s) net of None \<Rightarrow> False | Some st \<Rightarrow> has_member st n)"

definition get_thing_state :: "StateManager \<Rightarrow> ContentHash \<Rightarrow> ThingState option" where
  "get_thing_state s c = map_of (sm_things s) c"

definition get_all_available_things :: "StateManager \<Rightarrow> ThingState list" where
  "get_all_available_things s = filter th_is_available (map snd (sm_things s))"

definition get_thing_hosts :: "StateManager \<Rightarrow> ContentHash \<Rightarrow> NodeID list" where
  "get_thing_hosts s c = (case map_of (sm_things s) c of None \<Rightarrow> [] | Some th \<Rightarrow> th_hosts th)"

definition is_thing_available :: "StateManager \<Rightarrow> ContentHash \<Rightarrow> bool" where
  "is_thing_available s c =
     (case map_of (sm_things s) c of None \<Rightarrow> False | Some th \<Rightarrow> th_is_available th)"

definition get_thing_replication_count :: "StateManager \<Rightarrow> ContentHash \<Rightarrow> u32" where
  "get_thing_replication_count s c =
     (case map_of (sm_things s) c of None \<Rightarrow> 0 | Some th \<Rightarrow> th_replication_count th)"

definition can_node_host_things :: "StateManager \<Rightarrow> NodeID \<Rightarrow> bool" where
  "can_node_host_things s n = (case map_of (sm_nodes s) n of None \<Rightarrow> False | Some st \<Rightarrow> can_host_things st)"

definition can_node_join_networks :: "StateManager \<Rightarrow> NodeID \<Rightarrow> bool" where
  "can_node_join_networks s n = (case map_of (sm_nodes s) n of None \<Rightarrow> False | Some st \<Rightarrow> can_join_networks st)"

definition can_node_route_traffic :: "StateManager \<Rightarrow> NodeID \<Rightarrow> bool" where
  "can_node_route_traffic s n = (case map_of (sm_nodes s) n of None \<Rightarrow> False | Some st \<Rightarrow> can_route st)"

definition can_node_post_content :: "StateManager \<Rightarrow> NodeID \<Rightarrow> bool" where
  "can_node_post_content s n =
     (case map_of (sm_nodes s) n of
        None \<Rightarrow> False
      | Some st \<Rightarrow> if \<not> ns_is_active st then False
                   else list_ex (\<lambda>p. snd p > 0) (ns_key_balances st))"

definition get_snapshot :: "StateManager \<Rightarrow> Ledger \<Rightarrow> u64 \<Rightarrow> u64 \<Rightarrow> StateSnapshot" where
  "get_snapshot s L now now_ep =
     \<lparr>snap_timestamp = now, snap_epoch = current_epoch now_ep, snap_ledger_hash = get_latest_hash L,
      snap_total_nodes = length (sm_nodes s),
      snap_active_nodes = length (filter (\<lambda>p. ns_is_active (snd p)) (sm_nodes s)),
      snap_total_networks = length (sm_networks s), snap_total_things = length (sm_things s),
      snap_total_keys = fold (\<lambda>p acc. fold (\<lambda>q acc. acc + ucast (snd q)) (ns_key_balances (snd p)) acc)
        (sm_nodes s) 0\<rparr>"

text \<open>The counters return the sizes of the maps, inactive entries included.\<close>

definition active_node_count :: "StateManager \<Rightarrow> nat" where
  "active_node_count s = length (sm_nodes s)"

definition active_network_count :: "StateManager \<Rightarrow> nat" where
  "active_network_count s = length (sm_networks s)"

definition available_thing_count :: "StateManager \<Rightarrow> nat" where
  "available_thing_count s = length (sm_things s)"

section \<open>Maintenance\<close>

definition INACTIVITY_THRESHOLD_SECONDS :: u64 where
  "INACTIVITY_THRESHOLD_SECONDS = 14 * 24 * 60 * 60"

definition last_activity :: "u64 \<Rightarrow> LedgerEvent list \<Rightarrow> u64" where
  "last_activity joined es =
     foldl (\<lambda>a e. if event_timestamp e > a then event_timestamp e else a) joined es"

definition update_node_activity :: "Ledger \<Rightarrow> u64 \<Rightarrow> StateManager \<Rightarrow> StateManager" where
  "update_node_activity L now s =
     s\<lparr>sm_nodes := map (\<lambda>(n, st).
         if \<not> ns_is_active st then (n, st)
         else let a = last_activity (ns_joined_at st) (get_events_by_node L n) in
              (n, if now > a \<and> now - a > INACTIVITY_THRESHOLD_SECONDS
                  then st\<lparr>ns_is_active := False\<rparr> else st)) (sm_nodes s)\<rparr>"

definition INACTIVE_THRESHOLD :: u64 where
  "INACTIVE_THRESHOLD = 86400 * 30"

definition cleanup_stale_state :: "u64 \<Rightarrow> StateManager \<Rightarrow> StateManager" where
  "cleanup_stale_state now s =
     (let to_remove = map fst (filter (\<lambda>(n, st). \<not> ns_is_active st \<and>
                        now - ns_joined_at st > INACTIVE_THRESHOLD) (sm_nodes s))
      in s\<lparr>sm_nodes := fold omap_erase to_remove (sm_nodes s)\<rparr>)"

section \<open>What the log says\<close>

text \<open>
  The effect of one event on one observable quantity, and the predicate on logs in which no
  node joins and no network is created after the state already has an entry for it.
\<close>

definition log_balance :: "NodeID \<Rightarrow> KeyType \<Rightarrow> LedgerEvent \<Rightarrow> u32 \<Rightarrow> u32" where
  "log_balance n t e b =
     (if source_node e \<noteq> n then b
      else if event_type e = NODE_JOINED then 0
      else case KeyIssuanceData_from_bytes (event_data e) of
             None \<Rightarrow> b
           | Some d \<Rightarrow> if ki_key_type d \<noteq> t then b
                       else if event_type e = KEY_ISSUED then b + ki_count d
                       else if event_type e = KEY_REVOKED then (if b > ki_count d then b - ki_count d else 0)
                       else b)"

definition log_active :: "NodeID \<Rightarrow> LedgerEvent \<Rightarrow> bool \<Rightarrow> bool" where
  "log_active n e a =
     (if source_node e \<noteq> n then a
      else if event_type e = NODE_JOINED then True
      else if event_type e = NODE_LEFT then False
      else a)"

definition log_reputation :: "NodeID \<Rightarrow> LedgerEvent \<Rightarrow> u32 \<Rightarrow> u32" where
  "log_reputation n e r =
     (if event_type e = NODE_JOINED then (if source_node e = n then 0 else r)
      else if event_type e = REPUTATION_UPDATED then
        (case ReputationUpdateData_from_bytes (event_data e) of
           None \<Rightarrow> r
         | Some d \<Rightarrow> if ru_subject_node d = n then r + ru_score_delta d else r)
      else r)"

definition log_members :: "Hash256 \<Rightarrow> LedgerEvent \<Rightarrow> NodeID set \<Rightarrow> NodeID set" where
  "log_members net e M =
     (if event_type e = NETWORK_CREATED then
        (if length (event_data e) \<ge> 32 \<and> take 32 (event_data e) = net then {} else M)
      else case NetworkMembershipData_from_bytes (event_data e) of
             None \<Rightarrow> M
           | Some d \<Rightarrow> if nm_network_id d \<noteq> net then M
                       else if event_type e = NETWORK_MEMBER_ADDED then insert (nm_member_node d) M
                       else if event_type e = NETWORK_MEMBER_REMOVED then M - {nm_member_node d}
                       else M)"

definition log_hosts :: "ContentHash \<Rightarrow> LedgerEvent \<Rightarrow> NodeID set \<Rightarrow> NodeID set" where
  "log_hosts c e S =
     (case ThingReplicationData_from_bytes (event_data e) of
        None \<Rightarrow> S
      | Some d \<Rightarrow> if td_content_hash d \<noteq> c then S
                  else if event_type e = THING_REPLICATED then insert (td_hosting_node d) S
                  else if event_type e = THING_REMOVED then S - {td_hosting_node d}
                  else S)"

fun no_reset :: "StateManager \<Rightarrow> LedgerEvent list \<Rightarrow> bool" where
  "no_reset s [] \<longleftrightarrow> True"
| "no_reset s (e # es) \<longleftrightarrow>
     (event_type e = NODE_JOINED \<longrightarrow> map_of (sm_nodes s) (source_node e) = None) \<and>
     (event_type e = NETWORK_CREATED \<longrightarrow> map_of (sm_networks s) (take 32 (event_data e)) = None) \<and>
     no_reset (apply_event e s) es"

section \<open>Lookups after an event\<close>

definition net_at :: "StateManager \<Rightarrow> Hash256 \<Rightarrow> NetworkState" where
  "net_at s net = opt_or NetworkState_new (map_of (sm_networks s) net)"

definition thing_at :: "StateManager \<Rightarrow> ContentHash \<Rightarrow> ThingState" where
  "thing_at s c = opt_or ThingState_new (map_of (sm_things s) c)"

lemmas event_type_defs = NODE_JOINED_def NODE_LEFT_def KEY_ISSUED_def KEY_REVOKED_def
  NETWORK_CREATED_def NETWORK_MEMBER_ADDED_def NETWORK_MEMBER_REMOVED_def THING_REPLICATED_def
  THING_REMOVED_def REPUTATION_UPDATED_def POW_SOLUTION_SUBMITTED_def POSTAKE_CONTRIBUTION_def

lemmas new_defs = NodeState_new_def NetworkState_new_def ThingState_new_def

lemmas handler_defs = apply_node_joined_def apply_node_left_def apply_key_issued_def
  apply_key_revoked_def apply_network_created_def apply_network_member_added_def
  apply_network_member_removed_def apply_thing_replicated_def apply_thing_removed_def
  apply_reputation_updated_def apply_pow_solution_def apply_postake_contribution_def

lemma balance_at: "get_node_key_balance s n t = opt_or 0 (map_of (ns_key_balances (node_at s n)) t)"
  by (simp add: get_node_key_balance_def node_at_def NodeState_new_def opt_or_def split: option.splits)

lemma active_at: "is_node_active s n = ns_is_active (node_at s n)"
  by (simp add: is_node_active_def node_at_def NodeState_new_def opt_or_def split: option.splits)

lemma reputation_at: "get_node_reputation s n = ns_reputation (node_at s n)"
  by (simp add: get_node_reputation_def node_at_def NodeState_new_def opt_or_def split: option.splits)

lemma networks_at: "get_networks_for_node s n = ns_networks (node_at s n)"
  by (simp add: get_networks_for_node_def node_at_def NodeState_new_def opt_or_def split: option.splits)

lemma in_network_at: "is_node_in_network s n net \<longleftrightarrow> n \<in> set (nw_members (net_at s net))"
  by (simp add: is_node_in_network_def has_member_def net_at_def NetworkState_new_def opt_or_def
      split: option.splits)

lemma hosts_at: "get_thing_hosts s c = th_hosts (thing_at s c)"
  by (simp add: get_thing_hosts_def thing_at_def ThingState_new_def opt_or_def split: option.splits)

lemma available_at: "is_thing_available s c = th_is_available (thing_at s c)"
  by (simp add: is_thing_available_def thing_at_def ThingState_new_def opt_or_def split: option.splits)

lemma replication_at: "get_thing_replication_count s c = th_replication_count (thing_at s c)"
  by (simp add: get_thing_replication_count_def thing_at_def ThingState_new_def opt_or_def
      split: option.splits)

lemmas query_at = balance_at active_at reputation_at networks_at in_network_at hosts_at
  available_at replication_at

lemma node_at_set_node [simp]: "node_at (set_node n st s) m = (if m = n then st else node_at s m)"
  by (simp add: node_at_def set_node_def)

lemma node_at_other [simp]:
  "node_at (s\<lparr>sm_networks := a\<rparr>) m = node_at s m" "node_at (s\<lparr>sm_things := b\<rparr>) m = node_at s m"
  by (simp_all add: node_at_def)

lemma set_node_other [simp]:
  "sm_networks (set_node n st s) = sm_networks s" "sm_things (set_node n st s) = sm_things s"
  "sm_last_rebuild (set_node n st s) = sm_last_rebuild s"
  by (simp_all add: set_node_def)

lemma oset_erase_Nil [simp]: "oset_erase x [] = []"
  by (simp add: oset_erase_def)

lemma node_at_node_left [simp]:
  "node_at (apply_node_left e s) m =
     (if m = source_node e then (node_at s m)\<lparr>ns_is_active := False\<rparr> else node_at s m)"
  by (cases "map_of (sm_nodes s) (source_node e)")
    (auto simp: apply_node_left_def, simp_all add: node_at_def NodeState_new_def)

lemma node_at_member_removed [simp]:
  "node_at (apply_network_member_removed e s) m =
     (case NetworkMembershipData_from_bytes (event_data e) of
        None \<Rightarrow> node_at s m
      | Some d \<Rightarrow> if m = nm_member_node d
                  then (node_at s m)\<lparr>ns_networks := oset_erase (nm_network_id d) (ns_networks (node_at s m))\<rparr>
                  else node_at s m)"
proof (cases "NetworkMembershipData_from_bytes (event_data e)")
  case None
  then show ?thesis by (simp add: apply_network_member_removed_def)
next
  case (Some d)
  show ?thesis
    by (cases "map_of (sm_nodes s) (nm_member_node d)"; cases "map_of (sm_networks s) (nm_network_id d)")
      (simp_all add: Some apply_network_member_removed_def Let_def,
       simp_all add: node_at_def NodeState_new_def)
qed

lemma node_at_thing_removed:
  "\<exists>h. node_at (apply_thing_removed e s) m = (node_at s m)\<lparr>ns_hosted_things := h\<rparr>"
proof -
  have same: "\<exists>h. node_at s m = (node_at s m)\<lparr>ns_hosted_things := h\<rparr>"
    by (rule exI [of _ "ns_hosted_things (node_at s m)"]) simp
  have found: "map_of (sm_nodes s) k = Some st \<Longrightarrow> node_at s k = st" for k st
    by (simp add: node_at_def)
  show ?thesis
    using same by (auto simp: apply_thing_removed_def Let_def found split: option.splits)
qed

lemma node_fields_thing_removed [simp]:
  "ns_key_balances (node_at (apply_thing_removed e s) m) = ns_key_balances (node_at s m)"
  "ns_is_active (node_at (apply_thing_removed e s) m) = ns_is_active (node_at s m)"
  "ns_reputation (node_at (apply_thing_removed e s) m) = ns_reputation (node_at s m)"
  "ns_networks (node_at (apply_thing_removed e s) m) = ns_networks (node_at s m)"
  using node_at_thing_removed [of e s m] by auto

lemma node_fields_member_added [simp]:
  "ns_key_balances (node_at (apply_network_member_added e s) m) = ns_key_balances (node_at s m)"
  "ns_is_active (node_at (apply_network_member_added e s) m) = ns_is_active (node_at s m)"
  "ns_reputation (node_at (apply_network_member_added e s) m) = ns_reputation (node_at s m)"
  by (simp_all add: apply_network_member_added_def Let_def split: option.split)

lemma node_fields_thing_replicated [simp]:
  "ns_key_balances (node_at (apply_thing_replicated e s) m) = ns_key_balances (node_at s m)"
  "ns_is_active (node_at (apply_thing_replicated e s) m) = ns_is_active (node_at s m)"
  "ns_reputation (node_at (apply_thing_replicated e s) m) = ns_reputation (node_at s m)"
  "ns_networks (node_at (apply_thing_replicated e s) m) = ns_networks (node_at s m)"
  by (simp_all add: apply_thing_replicated_def Let_def split: option.split)

lemma node_fields_network_created [simp]: "node_at (apply_network_created e s) m = node_at s m"
  by (simp add: apply_network_created_def Let_def)

lemmas simple_handlers = apply_node_joined_def apply_key_issued_def apply_key_revoked_def
  apply_reputation_updated_def apply_pow_solution_def apply_postake_contribution_def

lemma event_type_cases:
  obtains "event_type e = NODE_JOINED" | "event_type e = NODE_LEFT" | "event_type e = KEY_ISSUED"
  | "event_type e = KEY_REVOKED" | "event_type e = NETWORK_CREATED"
  | "event_type e = NETWORK_MEMBER_ADDED" | "event_type e = NETWORK_MEMBER_REMOVED"
  | "event_type e = THING_REPLICATED" | "event_type e = THING_REMOVED"
  | "event_type e = REPUTATION_UPDATED" | "event_type e = POW_SOLUTION_SUBMITTED"
  | "event_type e = POSTAKE_CONTRIBUTION"
  | "event_type e \<notin> {NODE_JOINED, NODE_LEFT, KEY_ISSUED, KEY_REVOKED, NETWORK_CREATED,
      NETWORK_MEMBER_ADDED, NETWORK_MEMBER_REMOVED, THING_REPLICATED, THING_REMOVED,
      REPUTATION_UPDATED, POW_SOLUTION_SUBMITTED, POSTAKE_CONTRIBUTION}"
  by blast

lemma balance_step:
  "get_node_key_balance (apply_event e s) n t = log_balance n t e (get_node_key_balance s n t)"
  by (cases e rule: event_type_cases)
    (simp_all add: apply_event_def balance_at log_balance_def simple_handlers Let_def NodeState_new_def event_type_defs
      split: option.split)

lemma active_step: "is_node_active (apply_event e s) n = log_active n e (is_node_active s n)"
  by (cases e rule: event_type_cases)
    (simp_all add: apply_event_def active_at log_active_def simple_handlers Let_def NodeState_new_def event_type_defs
      split: option.split)

lemma reputation_step:
  "get_node_reputation (apply_event e s) n = log_reputation n e (get_node_reputation s n)"
  by (cases e rule: event_type_cases)
    (simp_all add: apply_event_def reputation_at log_reputation_def simple_handlers Let_def NodeState_new_def event_type_defs
      split: option.split)

lemma networks_frame [simp]:
  "sm_networks (apply_node_joined e s) = sm_networks s"
  "sm_networks (apply_node_left e s) = sm_networks s"
  "sm_networks (apply_key_issued e s) = sm_networks s"
  "sm_networks (apply_key_revoked e s) = sm_networks s"
  "sm_networks (apply_thing_replicated e s) = sm_networks s"
  "sm_networks (apply_thing_removed e s) = sm_networks s"
  "sm_networks (apply_reputation_updated e s) = sm_networks s"
  "sm_networks (apply_pow_solution e s) = sm_networks s"
  "sm_networks (apply_postake_contribution e s) = sm_networks s"
  by (simp_all add: handler_defs Let_def split: option.split)

lemma things_frame [simp]:
  "sm_things (apply_node_joined e s) = sm_things s"
  "sm_things (apply_node_left e s) = sm_things s"
  "sm_things (apply_key_issued e s) = sm_things s"
  "sm_things (apply_key_revoked e s) = sm_things s"
  "sm_things (apply_network_created e s) = sm_things s"
  "sm_things (apply_network_member_added e s) = sm_things s"
  "sm_things (apply_network_member_removed e s) = sm_things s"
  "sm_things (apply_reputation_updated e s) = sm_things s"
  "sm_things (apply_pow_solution e s) = sm_things s"
  "sm_things (apply_postake_contribution e s) = sm_things s"
  by (simp_all add: handler_defs Let_def split: option.split)

lemma members_network_created:
  "set (nw_members (net_at (apply_network_created e s) net)) =
     (if length (event_data e) \<ge> 32 \<and> take 32 (event_data e) = net then {}
      else set (nw_members (net_at s net)))"
  by (simp add: apply_network_created_def net_at_def Let_def NetworkState_new_def)

lemma members_network_member_added:
  "set (nw_members (net_at (apply_network_member_added e s) net)) =
     (case NetworkMembershipData_from_bytes (event_data e) of
        None \<Rightarrow> set (nw_members (net_at s net))
      | Some d \<Rightarrow> if nm_network_id d = net then insert (nm_member_node d) (set (nw_members (net_at s net)))
                  else set (nw_members (net_at s net)))"
  by (simp add: apply_network_member_added_def net_at_def Let_def split: option.split)

lemma members_network_member_removed:
  "set (nw_members (net_at (apply_network_member_removed e s) net)) =
     (case NetworkMembershipData_from_bytes (event_data e) of
        None \<Rightarrow> set (nw_members (net_at s net))
      | Some d \<Rightarrow> if nm_network_id d = net then set (nw_members (net_at s net)) - {nm_member_node d}
                  else set (nw_members (net_at s net)))"
  by (auto simp add: apply_network_member_removed_def net_at_def NetworkState_new_def Let_def
      split: option.split)

lemmas members_net = members_network_created members_network_member_added
  members_network_member_removed

lemma state_members_step:
  "{n. is_node_in_network (apply_event e s) n net} = log_members net e {n. is_node_in_network s n net}"
  by (cases e rule: event_type_cases)
    (simp_all add: apply_event_def in_network_at log_members_def members_net event_type_defs
      split: option.split, simp_all add: net_at_def)

lemma thing_at_replicated:
  "thing_at (apply_thing_replicated e s) c =
     (case ThingReplicationData_from_bytes (event_data e) of
        None \<Rightarrow> thing_at s c
      | Some d \<Rightarrow> if c \<noteq> td_content_hash d then thing_at s c
                  else (thing_at s c)\<lparr>th_content_hash := Some c, th_created_at := event_timestamp e,
                    th_is_available := True, th_hosts := oset_insert (td_hosting_node d) (th_hosts (thing_at s c)),
                    th_networks := oset_insert (td_network_id d) (th_networks (thing_at s c)),
                    th_total_size := td_size_bytes d,
                    th_replication_count :=
                      word_of_nat (length (oset_insert (td_hosting_node d) (th_hosts (thing_at s c))))\<rparr>)"
  by (simp add: apply_thing_replicated_def thing_at_def Let_def split: option.split)

lemma hosts_removed:
  "th_hosts (thing_at (apply_thing_removed e s) c) =
     (case ThingReplicationData_from_bytes (event_data e) of
        None \<Rightarrow> th_hosts (thing_at s c)
      | Some d \<Rightarrow> if c = td_content_hash d then oset_erase (td_hosting_node d) (th_hosts (thing_at s c))
                  else th_hosts (thing_at s c))"
  by (auto simp: apply_thing_removed_def thing_at_def Let_def ThingState_new_def split: option.split)

lemma hosts_replicated:
  "th_hosts (thing_at (apply_thing_replicated e s) c) =
     (case ThingReplicationData_from_bytes (event_data e) of
        None \<Rightarrow> th_hosts (thing_at s c)
      | Some d \<Rightarrow> if c = td_content_hash d then oset_insert (td_hosting_node d) (th_hosts (thing_at s c))
                  else th_hosts (thing_at s c))"
  by (simp add: thing_at_replicated split: option.split)

lemma state_hosts_step:
  "set (get_thing_hosts (apply_event e s) c) = log_hosts c e (set (get_thing_hosts s c))"
  by (cases e rule: event_type_cases)
    (simp_all add: apply_event_def hosts_at log_hosts_def hosts_replicated hosts_removed
      event_type_defs split: option.split, simp_all add: thing_at_def)

section \<open>Invariant\<close>

definition node_ok :: "NodeState \<Rightarrow> bool" where
  "node_ok st \<longleftrightarrow> omap_ok (ns_key_balances st) \<and> oset_ok (ns_networks st) \<and>
     oset_ok (ns_hosted_things st)"

definition network_ok :: "NetworkState \<Rightarrow> bool" where
  "network_ok st \<longleftrightarrow> oset_ok (nw_members st) \<and> omap_ok (nw_member_roles st) \<and>
     fst ` set (nw_member_roles st) = set (nw_members st)"

definition thing_ok :: "ThingState \<Rightarrow> bool" where
  "thing_ok st \<longleftrightarrow> oset_ok (th_hosts st) \<and> oset_ok (th_networks st) \<and>
     th_replication_count st = word_of_nat (length (th_hosts st)) \<and>
     (th_is_available st \<longrightarrow> th_hosts st \<noteq> [])"

definition state_ok :: "StateManager \<Rightarrow> bool" where
  "state_ok s \<longleftrightarrow> omap_all node_ok (sm_nodes s) \<and> omap_all network_ok (sm_networks s) \<and>
     omap_all thing_ok (sm_things s)"

datatype state_op =
    ApplyEvent LedgerEvent
  | Rebuild Ledger u64
  | UpdateActivity Ledger u64
  | Cleanup u64

fun state_step :: "StateManager \<Rightarrow> state_op \<Rightarrow> StateManager" where
  "state_step s (ApplyEvent e) = apply_event e s"
| "state_step s (Rebuild L now) = rebuild_state L now s"
| "state_step s (UpdateActivity L now) = update_node_activity L now s"
| "state_step s (Cleanup now) = cleanup_stale_state now s"

lemma keys_omap_erase [simp]: "fst ` set (omap_erase k m) = fst ` set m - {k}"
  by (auto simp: omap_erase_def)

lemma ok_new [simp]: "node_ok NodeState_new" "network_ok NetworkState_new" "thing_ok ThingState_new"
  by (simp_all add: node_ok_def network_ok_def thing_ok_def new_defs)

lemma node_ok_at: "state_ok s \<Longrightarrow> node_ok (node_at s n)"
  by (simp add: state_ok_def node_at_def omap_all_at)

lemma network_ok_at: "state_ok s \<Longrightarrow> network_ok (net_at s net)"
  by (simp add: state_ok_def net_at_def omap_all_at)

lemma thing_ok_at: "state_ok s \<Longrightarrow> thing_ok (thing_at s c)"
  by (simp add: state_ok_def thing_at_def omap_all_at)

lemma state_ok_set_node: "state_ok s \<Longrightarrow> node_ok st \<Longrightarrow> state_ok (set_node n st s)"
  by (auto simp: state_ok_def set_node_def)

lemma state_ok_set_network:
  "state_ok s \<Longrightarrow> network_ok st \<Longrightarrow> state_ok (s\<lparr>sm_networks := omap_set net st (sm_networks s)\<rparr>)"
  by (auto simp: state_ok_def)

lemma state_ok_set_thing:
  "state_ok s \<Longrightarrow> thing_ok st \<Longrightarrow> state_ok (s\<lparr>sm_things := omap_set c st (sm_things s)\<rparr>)"
  by (auto simp: state_ok_def)

lemma ok_found:
  assumes "state_ok s"
  shows "map_of (sm_nodes s) n = Some st \<Longrightarrow> node_ok st"
    and "map_of (sm_networks s) net = Some nw \<Longrightarrow> network_ok nw"
    and "map_of (sm_things s) c = Some th \<Longrightarrow> thing_ok th"
  using assms by (auto simp: state_ok_def dest: omap_all_find)

lemma state_ok_simple:
  assumes "state_ok s"
  shows "state_ok (apply_node_joined e s)" "state_ok (apply_node_left e s)"
    "state_ok (apply_key_issued e s)" "state_ok (apply_key_revoked e s)"
    "state_ok (apply_reputation_updated e s)" "state_ok (apply_pow_solution e s)"
    "state_ok (apply_postake_contribution e s)" "state_ok (apply_network_created e s)"
  using assms node_ok_at [OF assms] ok_found(1) [OF assms] ok_new
  by (auto simp: handler_defs Let_def node_ok_def network_ok_def split: option.split
      intro!: state_ok_set_node state_ok_set_network)

lemma state_ok_member_added: "state_ok s \<Longrightarrow> state_ok (apply_network_member_added e s)"
  using node_ok_at [of s] network_ok_at [of s]
  by (auto simp: apply_network_member_added_def Let_def node_ok_def network_ok_def net_at_def [symmetric]
      split: option.split intro!: state_ok_set_node state_ok_set_network)

lemma state_ok_member_removed: "state_ok s \<Longrightarrow> state_ok (apply_network_member_removed e s)"
  using ok_found(1,2) [of s]
  by (auto simp: apply_network_member_removed_def Let_def node_ok_def network_ok_def
      split: option.split intro!: state_ok_set_node state_ok_set_network)

lemma state_ok_thing_replicated: "state_ok s \<Longrightarrow> state_ok (apply_thing_replicated e s)"
proof -
  assume ok: "state_ok s"
  have nonempty: "oset_insert x xs \<noteq> []" for x :: NodeID and xs
    by (cases xs) auto
  show ?thesis
    using ok node_ok_at [OF ok] thing_ok_at [OF ok] nonempty
    by (auto simp: apply_thing_replicated_def Let_def node_ok_def thing_ok_def thing_at_def [symmetric]
        split: option.split intro!: state_ok_set_node state_ok_set_thing)
qed

lemma state_ok_thing_removed: "state_ok s \<Longrightarrow> state_ok (apply_thing_removed e s)"
  using ok_found(1,3) [of s]
  by (auto simp: apply_thing_removed_def Let_def node_ok_def thing_ok_def
      split: option.split intro!: state_ok_set_node state_ok_set_thing)

lemma state_ok_apply_event: "state_ok s \<Longrightarrow> state_ok (apply_event e s)"
  by (simp add: apply_event_def state_ok_simple state_ok_member_added state_ok_member_removed
      state_ok_thing_replicated state_ok_thing_removed)

interpretation events: invariant_machine "\<lambda>s e. apply_event e s" state_ok
  by unfold_locales (rule state_ok_apply_event)

lemma state_ok_rebuild: "state_ok (rebuild_state L now s)"
proof -
  have "state_ok (s\<lparr>sm_nodes := [], sm_networks := [], sm_things := []\<rparr>)"
    by (simp add: state_ok_def)
  from events.run_inv [OF this] show ?thesis
    by (simp add: rebuild_state_def foldl_conv_fold state_ok_def)
qed

lemma state_ok_activity: "state_ok s \<Longrightarrow> state_ok (update_node_activity L now s)"
  by (auto simp: state_ok_def update_node_activity_def Let_def node_ok_def intro!: omap_all_map)

lemma omap_all_erase_all: "omap_all P m \<Longrightarrow> omap_all P (fold omap_erase ks m)"
  by (induction ks arbitrary: m) auto

lemma state_ok_cleanup: "state_ok s \<Longrightarrow> state_ok (cleanup_stale_state now s)"
  by (simp add: state_ok_def cleanup_stale_state_def Let_def omap_all_erase_all)

interpretation sm: invariant_machine state_step state_ok
proof
  fix s x assume "state_ok s"
  then show "state_ok (state_step s x)"
    by (cases x) (simp_all add: state_ok_apply_event state_ok_rebuild state_ok_activity state_ok_cleanup)
qed

section \<open>Folds over the log\<close>

lemma fold_apply:
  "get_node_key_balance (fold apply_event es s) n t = fold (log_balance n t) es (get_node_key_balance s n t)"
  "is_node_active (fold apply_event es s) n = fold (log_active n) es (is_node_active s n)"
  "get_node_reputation (fold apply_event es s) n = fold (log_reputation n) es (get_node_reputation s n)"
  "{m. is_node_in_network (fold apply_event es s) m net} =
     fold (log_members net) es {m. is_node_in_network s m net}"
  "set (get_thing_hosts (fold apply_event es s) c) = fold (log_hosts c) es (set (get_thing_hosts s c))"
  by (induction es arbitrary: s)
    (simp_all add: balance_step active_step reputation_step state_members_step state_hosts_step)

lemma queries_rebuilt [simp]:
  "get_node_key_balance (s\<lparr>sm_last_rebuild := now\<rparr>) = get_node_key_balance s"
  "is_node_active (s\<lparr>sm_last_rebuild := now\<rparr>) = is_node_active s"
  "get_node_reputation (s\<lparr>sm_last_rebuild := now\<rparr>) = get_node_reputation s"
  "is_node_in_network (s\<lparr>sm_last_rebuild := now\<rparr>) = is_node_in_network s"
  "get_thing_hosts (s\<lparr>sm_last_rebuild := now\<rparr>) = get_thing_hosts s"
  "is_thing_available (s\<lparr>sm_last_rebuild := now\<rparr>) = is_thing_available s"
  "get_thing_replication_count (s\<lparr>sm_last_rebuild := now\<rparr>) = get_thing_replication_count s"
  "get_networks_for_node (s\<lparr>sm_last_rebuild := now\<rparr>) = get_networks_for_node s"
  by (simp_all add: fun_eq_iff get_node_key_balance_def is_node_active_def get_node_reputation_def
      is_node_in_network_def get_thing_hosts_def is_thing_available_def
      get_thing_replication_count_def get_networks_for_node_def)

text \<open>The time of the last rebuild plays no part in applying events.\<close>

lemma stamp_node_at [simp]: "node_at (s\<lparr>sm_last_rebuild := t\<rparr>) n = node_at s n"
  by (simp add: node_at_def)

lemma stamp_set_node [simp]:
  "set_node n st (s\<lparr>sm_last_rebuild := t\<rparr>) = (set_node n st s)\<lparr>sm_last_rebuild := t\<rparr>"
  by (simp add: set_node_def)

lemma apply_event_stamp:
  "apply_event e (s\<lparr>sm_last_rebuild := t\<rparr>) = (apply_event e s)\<lparr>sm_last_rebuild := t\<rparr>"
  by (cases e rule: event_type_cases)
    (simp_all add: apply_event_def handler_defs Let_def event_type_defs split: option.split,
     simp_all add: set_node_def node_at_def)

lemma fold_apply_stamp:
  "fold apply_event es (s\<lparr>sm_last_rebuild := t\<rparr>) = (fold apply_event es s)\<lparr>sm_last_rebuild := t\<rparr>"
  by (induction es arbitrary: s) (simp_all add: apply_event_stamp)

section \<open>Availability and cross references\<close>

definition avail_ok :: "nat \<Rightarrow> StateManager \<Rightarrow> bool" where
  "avail_ok k s \<longleftrightarrow> (\<forall>c. length (th_hosts (thing_at s c)) \<le> k \<and>
     (th_is_available (thing_at s c) \<longleftrightarrow> th_hosts (thing_at s c) \<noteq> []))"

lemma length_oset_insert: "length (oset_insert x xs) \<le> Suc (length xs)"
  by (induction x xs rule: oset_insert.induct) auto

lemma oset_insert_not_Nil [simp]: "oset_insert x xs \<noteq> []"
  by (cases xs) auto

lemma length_oset_erase: "length (oset_erase x xs) \<le> length xs"
  by (simp add: oset_erase_def)

lemma available_removed:
  assumes "avail_ok k s" "k < 2 ^ 32"
  shows "th_is_available (thing_at (apply_thing_removed e s) c) \<longleftrightarrow>
    th_hosts (thing_at (apply_thing_removed e s) c) \<noteq> []"
proof -
  have zero: "(word_of_nat (length (oset_erase x (th_hosts (thing_at s c)))) :: u32) = 0 \<longleftrightarrow>
      oset_erase x (th_hosts (thing_at s c)) = []" for x
  proof -
    have "length (oset_erase x (th_hosts (thing_at s c))) < 2 ^ 32"
      using length_oset_erase [of x "th_hosts (thing_at s c)"] assms
      by (meson avail_ok_def le_less_trans)
    then have "unat (word_of_nat (length (oset_erase x (th_hosts (thing_at s c)))) :: u32) =
        length (oset_erase x (th_hosts (thing_at s c)))"
      by (rule unat_of_nat_u32)
    then show ?thesis by (metis length_0_conv unat_eq_0)
  qed
  have av: "th_is_available (thing_at s c) \<longleftrightarrow> th_hosts (thing_at s c) \<noteq> []"
    using assms(1) by (simp add: avail_ok_def)
  have found: "map_of (sm_things s) c = Some th \<Longrightarrow> thing_at s c = th" for th
    by (simp add: thing_at_def)
  show ?thesis
  proof (cases "ThingReplicationData_from_bytes (event_data e)")
    case None
    then show ?thesis using av by (simp add: apply_thing_removed_def)
  next
    case (Some d)
    show ?thesis
    proof (cases "c = td_content_hash d \<and> map_of (sm_things s) c \<noteq> None")
      case True
      then obtain th where th: "map_of (sm_things s) c = Some th" and c: "td_content_hash d = c" by blast
      have eq: "sm_things (apply_thing_removed e s) = omap_set c
          (th\<lparr>th_hosts := oset_erase (td_hosting_node d) (th_hosts th),
             th_replication_count := word_of_nat (length (oset_erase (td_hosting_node d) (th_hosts th))),
             th_is_available := (if (word_of_nat (length (oset_erase (td_hosting_node d) (th_hosts th))) :: u32) = 0
               then False else th_is_available th)\<rparr>) (sm_things s)"
        using Some th c by (simp add: apply_thing_removed_def Let_def split: option.split)
      have "thing_at s c = th" by (rule found [OF th])
      with zero [of "td_hosting_node d"] av show ?thesis
        by (auto simp: thing_at_def [of "apply_thing_removed e s"] eq)
    next
      case False
      with Some have "thing_at (apply_thing_removed e s) c = thing_at s c"
        by (auto simp: apply_thing_removed_def Let_def thing_at_def split: option.split)
      with av show ?thesis by simp
    qed
  qed
qed

lemma avail_step:
  assumes "avail_ok k s" "k < 2 ^ 32"
  shows "avail_ok (Suc k) (apply_event e s)"
proof -
  have le: "length (th_hosts (thing_at s c)) \<le> k" for c using assms(1) by (simp add: avail_ok_def)
  then have rep: "length (oset_insert x (th_hosts (thing_at s c))) \<le> Suc k"
    and rem: "length (oset_erase x (th_hosts (thing_at s c))) \<le> Suc k" for x c
    using length_oset_insert [of x "th_hosts (thing_at s c)"] length_oset_erase [of x "th_hosts (thing_at s c)"]
    by (meson Suc_le_mono le_SucI order_trans)+
  have "avail_ok (Suc k) s" using assms(1) by (auto simp: avail_ok_def intro: le_SucI)
  moreover have "avail_ok (Suc k) (apply_thing_replicated e s)"
    using calculation rep by (auto simp: avail_ok_def thing_at_replicated split: option.split)
  moreover have "avail_ok (Suc k) (apply_thing_removed e s)"
    using calculation(1) rem available_removed [OF assms]
    by (auto simp: avail_ok_def hosts_removed split: option.split)
  ultimately show ?thesis
    by (simp add: apply_event_def) (simp add: avail_ok_def thing_at_def)
qed

lemma avail_fold: "avail_ok k s \<Longrightarrow> k + length es \<le> 2 ^ 32 \<Longrightarrow> avail_ok (k + length es) (fold apply_event es s)"
proof (induction es arbitrary: k s)
  case (Cons e es)
  then show ?case using avail_step [of k s e] by fastforce
qed simp

text \<open>Both directions of the membership and hosting relations agree.\<close>

definition linked :: "StateManager \<Rightarrow> bool" where
  "linked s \<longleftrightarrow>
     (\<forall>n net. net \<in> set (ns_networks (node_at s n)) \<longleftrightarrow> n \<in> set (nw_members (net_at s net))) \<and>
     (\<forall>n c. c \<in> set (ns_hosted_things (node_at s n)) \<longleftrightarrow> n \<in> set (th_hosts (thing_at s c)))"

lemma networks_member_added:
  "set (ns_networks (node_at (apply_network_member_added e s) m)) =
     (case NetworkMembershipData_from_bytes (event_data e) of
        None \<Rightarrow> set (ns_networks (node_at s m))
      | Some d \<Rightarrow> if m = nm_member_node d then insert (nm_network_id d) (set (ns_networks (node_at s m)))
                  else set (ns_networks (node_at s m)))"
  by (simp add: apply_network_member_added_def Let_def split: option.split)

lemma hosted_frame [simp]:
  "ns_hosted_things (node_at (apply_network_member_added e s) m) = ns_hosted_things (node_at s m)"
  "ns_hosted_things (node_at (apply_network_member_removed e s) m) = ns_hosted_things (node_at s m)"
  by (simp_all add: apply_network_member_added_def Let_def split: option.split)

lemma hosted_thing_replicated:
  "set (ns_hosted_things (node_at (apply_thing_replicated e s) m)) =
     (case ThingReplicationData_from_bytes (event_data e) of
        None \<Rightarrow> set (ns_hosted_things (node_at s m))
      | Some d \<Rightarrow> if m = td_hosting_node d then insert (td_content_hash d) (set (ns_hosted_things (node_at s m)))
                  else set (ns_hosted_things (node_at s m)))"
  by (simp add: apply_thing_replicated_def Let_def split: option.split)

lemma hosted_thing_removed:
  assumes "linked s"
  shows "set (ns_hosted_things (node_at (apply_thing_removed e s) m)) =
     (case ThingReplicationData_from_bytes (event_data e) of
        None \<Rightarrow> set (ns_hosted_things (node_at s m))
      | Some d \<Rightarrow> if m = td_hosting_node d then set (ns_hosted_things (node_at s m)) - {td_content_hash d}
                  else set (ns_hosted_things (node_at s m)))"
proof (cases "ThingReplicationData_from_bytes (event_data e)")
  case None
  then show ?thesis by (simp add: apply_thing_removed_def)
next
  case (Some d)
  have absent: "map_of (sm_things s) c = None \<Longrightarrow> c \<notin> set (ns_hosted_things (node_at s n))" for c n
    using assms by (simp add: linked_def thing_at_def ThingState_new_def)
  show ?thesis
    using absent [of "td_content_hash d" m]
    by (cases "map_of (sm_things s) (td_content_hash d)"; cases "map_of (sm_nodes s) (td_hosting_node d)")
      (auto simp: Some apply_thing_removed_def Let_def, auto simp: node_at_def NodeState_new_def)
qed

lemma linked_step:
  assumes "linked s"
    and "event_type e = NODE_JOINED \<longrightarrow> map_of (sm_nodes s) (source_node e) = None"
    and "event_type e = NETWORK_CREATED \<longrightarrow> map_of (sm_networks s) (take 32 (event_data e)) = None"
  shows "linked (apply_event e s)"
proof -
  have nets: "net \<in> set (ns_networks (node_at s n)) \<longleftrightarrow> n \<in> set (nw_members (net_at s net))" for n net
    using assms(1) by (simp add: linked_def)
  have things: "c \<in> set (ns_hosted_things (node_at s n)) \<longleftrightarrow> n \<in> set (th_hosts (thing_at s c))" for n c
    using assms(1) by (simp add: linked_def)
  have fresh_node: "node_at s n = NodeState_new" if "map_of (sm_nodes s) n = None" for n
    using that by (simp add: node_at_def)
  have fresh_net: "nw_members (net_at s net) = []" if "map_of (sm_networks s) net = None" for net
    using that by (simp add: net_at_def NetworkState_new_def)
  have frame: "sm_networks (apply_event e s) = sm_networks s \<Longrightarrow> net_at (apply_event e s) = net_at s"
    "sm_things (apply_event e s) = sm_things s \<Longrightarrow> thing_at (apply_event e s) = thing_at s"
    by (simp_all add: net_at_def thing_at_def fun_eq_iff)
  show ?thesis
  proof (cases e rule: event_type_cases)
    case 1
    with assms(2) have "node_at s (source_node e) = NodeState_new" by (simp add: fresh_node)
    with 1 show ?thesis
      using nets [of _ "source_node e"] things [of _ "source_node e"] frame nets things
      by (simp add: linked_def apply_event_def apply_node_joined_def NodeState_new_def)
  next
    case 5
    with assms(3) have "nw_members (net_at s (take 32 (event_data e))) = []" by (simp add: fresh_net)
    with 5 show ?thesis
      using frame nets things
      by (auto simp: linked_def apply_event_def event_type_defs members_network_created)
  qed (use frame nets things in \<open>auto simp: linked_def apply_event_def event_type_defs simple_handlers
      Let_def members_net networks_member_added hosted_thing_replicated
      hosted_thing_removed [OF assms(1)] hosts_replicated hosts_removed split: option.split\<close>)
qed

lemma linked_fold: "linked s \<Longrightarrow> no_reset s es \<Longrightarrow> linked (fold apply_event es s)"
proof (induction es arbitrary: s)
  case (Cons e es)
  have "linked (apply_event e s)"
    using Cons.prems(2) unfolding no_reset.simps by (intro linked_step Cons.prems(1)) blast+
  with Cons show ?case by (simp only: no_reset.simps fold_simps)
qed simp

section \<open>Capabilities and maintenance\<close>

lemma has_key_at:
  "has_key_type (node_at s n) t 1 \<longleftrightarrow> get_node_key_balance s n t \<ge> 1"
  by (simp add: has_key_type_def balance_at opt_or_def split: option.split)

lemma capability_at:
  "can_node_host_things s n \<longleftrightarrow> is_node_active s n \<and> has_key_type (node_at s n) SERVICE 1"
  "can_node_join_networks s n \<longleftrightarrow> is_node_active s n \<and> has_key_type (node_at s n) NETWORK 1"
  "can_node_route_traffic s n \<longleftrightarrow> is_node_active s n \<and> has_key_type (node_at s n) ROUTING 1"
  by (simp_all add: can_node_host_things_def can_node_join_networks_def can_node_route_traffic_def
      can_host_things_def can_join_networks_def can_route_def is_node_active_def node_at_def
      split: option.split)

lemma post_at:
  assumes "state_ok s"
  shows "can_node_post_content s n \<longleftrightarrow> is_node_active s n \<and> (\<exists>t. get_node_key_balance s n t > 0)"
proof (cases "map_of (sm_nodes s) n")
  case None
  then show ?thesis by (simp add: can_node_post_content_def is_node_active_def)
next
  case (Some st)
  then have "omap_ok (ns_key_balances st)"
    using ok_found(1) [OF assms] by (auto simp: node_ok_def)
  then have "distinct (map fst (ns_key_balances st))" by (rule omap_ok_distinct)
  then have "(\<exists>p \<in> set (ns_key_balances st). snd p > 0) \<longleftrightarrow>
      (\<exists>t. opt_or 0 (map_of (ns_key_balances st) t) > 0)"
    using map_of_eq_Some_iff [of "ns_key_balances st"]
    by (metis (no_types, opaque_lifting) eq_snd_iff not_None_eq opt_or_simps word_not_simps(1))
  with Some show ?thesis
    by (simp add: can_node_post_content_def is_node_active_def balance_at node_at_def list_ex_iff)
qed

lemma last_activity_bound:
  "joined \<le> last_activity joined es \<and> (\<forall>e \<in> set es. event_timestamp e \<le> last_activity joined es)"
proof (induction es rule: rev_induct)
  case (snoc e es)
  then show ?case by (auto simp: last_activity_def not_less intro: order_trans less_imp_le)
qed (simp add: last_activity_def)

lemma last_activity_mem: "last_activity joined es \<in> insert joined (event_timestamp ` set es)"
  by (induction es rule: rev_induct) (auto simp: last_activity_def)

text \<open>Seen at \<open>ts\<close>: not more than 14 days ago.\<close>

definition seen_recently :: "u64 \<Rightarrow> u64 \<Rightarrow> bool" where
  "seen_recently now ts \<longleftrightarrow> now \<le> ts \<or> now - ts \<le> INACTIVITY_THRESHOLD_SECONDS"

lemma seen_recently_mono:
  assumes "ts \<le> ts'" "seen_recently now ts"
  shows "seen_recently now ts'"
proof (cases "now \<le> ts'")
  case False
  then have "ts' \<le> now" by simp
  with assms(1) have "now - ts' \<le> now - ts"
    by (simp add: word_le_nat_alt unat_sub)
  moreover have "\<not> now \<le> ts" using False assms(1) by (meson order_trans)
  ultimately show ?thesis using assms(2) by (auto simp: seen_recently_def)
qed (simp add: seen_recently_def)

lemma find_map_value:
  "map_of (map (\<lambda>(k, v). (k, f k v)) m) k = map_option (f k) (map_of m k)"
  by (induction m) auto

lemma activity_lookup:
  "get_node_state (update_node_activity L now s) n =
     map_option (\<lambda>st. if ns_is_active st \<and>
         \<not> seen_recently now (last_activity (ns_joined_at st) (get_events_by_node L n))
       then st\<lparr>ns_is_active := False\<rparr> else st) (get_node_state s n)"
proof -
  define f :: "NodeID \<Rightarrow> NodeState \<Rightarrow> NodeState" where "f = (\<lambda>k st. if ns_is_active st \<and>
         \<not> seen_recently now (last_activity (ns_joined_at st) (get_events_by_node L k))
       then st\<lparr>ns_is_active := False\<rparr> else st)"
  have "sm_nodes (update_node_activity L now s) = map (\<lambda>(k, st). (k, f k st)) (sm_nodes s)"
    by (auto simp: update_node_activity_def Let_def f_def seen_recently_def not_le)
  then show ?thesis by (simp add: get_node_state_def find_map_value f_def)
qed

section \<open>Properties\<close>

text \<open>
  C2: the state is what the log says: after \<open>rebuild_state\<close>, whatever the state was before,
  every query is the fold of the log's effects on the queried entity: key balances (issued
  keys add, revoked keys subtract down to zero, joining resets), activity, reputation, network
  members, and the hosts of a Thing in increasing order.
\<close>

theorem state_refines_log:
  "get_node_key_balance (rebuild_state L now s) n t = fold (log_balance n t) (lg_events L) 0 \<and>
   is_node_active (rebuild_state L now s) n = fold (log_active n) (lg_events L) False \<and>
   get_node_reputation (rebuild_state L now s) n = fold (log_reputation n) (lg_events L) 0 \<and>
   {m. is_node_in_network (rebuild_state L now s) m net} = fold (log_members net) (lg_events L) {} \<and>
   get_thing_hosts (rebuild_state L now s) c = sorted_list_of_set (fold (log_hosts c) (lg_events L) {})"
proof -
  let ?s0 = "s\<lparr>sm_nodes := [], sm_networks := [], sm_things := []\<rparr>"
  have start: "get_node_key_balance ?s0 n t = 0" "\<not> is_node_active ?s0 n" "get_node_reputation ?s0 n = 0"
    "{m. is_node_in_network ?s0 m net} = {}" "set (get_thing_hosts ?s0 c) = {}"
    by (simp_all add: get_node_key_balance_def is_node_active_def get_node_reputation_def
        is_node_in_network_def get_thing_hosts_def)
  have "oset_ok (get_thing_hosts (rebuild_state L now s) c)"
    using thing_ok_at [OF state_ok_rebuild] by (simp add: hosts_at thing_ok_def)
  then have "get_thing_hosts (rebuild_state L now s) c =
      sorted_list_of_set (set (get_thing_hosts (rebuild_state L now s) c))"
    by (rule oset_ok_eq)
  then show ?thesis
    using fold_apply [of "lg_events L" ?s0] start by (simp add: rebuild_state_def get_all_events_def)
qed

text \<open>
  C33: every sequence of operations on a state manager (events, rebuilds, activity updates,
  cleanups, in any order and at any times) keeps its state well formed: maps and sets ordered
  without duplicates, the roles of a network exactly those of its members, the replication
  count of a Thing the number of its hosts modulo \<open>2^32\<close>, and no Thing available without a
  host.
\<close>

theorem state_invariant: "state_ok (foldl state_step (StateManager_init L now) ops)"
  unfolding StateManager_init_def by (rule sm.run_inv [OF state_ok_rebuild])

text \<open>
  for a log of fewer than \<open>2^32\<close> events, a Thing is available exactly when some node
  hosts it, and its replication count is the number of hosts.
\<close>

theorem thing_availability:
  assumes "length (lg_events L) < 2 ^ 32"
  shows "(is_thing_available (rebuild_state L now s) c \<longleftrightarrow> get_thing_hosts (rebuild_state L now s) c \<noteq> []) \<and>
    unat (get_thing_replication_count (rebuild_state L now s) c) =
      card (set (get_thing_hosts (rebuild_state L now s) c))"
proof -
  let ?s = "rebuild_state L now s"
  have "avail_ok 0 (s\<lparr>sm_nodes := [], sm_networks := [], sm_things := []\<rparr>)"
    by (simp add: avail_ok_def thing_at_def ThingState_new_def)
  from avail_fold [OF this] assms have av: "avail_ok (length (lg_events L)) ?s"
    by (simp add: rebuild_state_def get_all_events_def avail_ok_def thing_at_def)
  have ok: "thing_ok (thing_at ?s c)" by (rule thing_ok_at [OF state_ok_rebuild])
  have "length (th_hosts (thing_at ?s c)) < 2 ^ 32"
    using av assms by (meson avail_ok_def le_less_trans)
  then have "unat (th_replication_count (thing_at ?s c)) = length (th_hosts (thing_at ?s c))"
    using ok unat_of_nat_u32 by (simp add: thing_ok_def)
  then show ?thesis
    using av ok by (auto simp: query_at avail_ok_def thing_ok_def oset_ok_length)
qed

definition replica_event :: LedgerEvent where
  "replica_event = sample_event\<lparr>event_type := THING_REPLICATED,
     event_data := ThingReplicationData_to_bytes sample_replica\<rparr>"

definition replica_ledger :: Ledger where
  "replica_ledger = sample_ledger\<lparr>lg_events := [replica_event]\<rparr>"

definition empty_state :: StateManager where
  "empty_state = \<lparr>sm_nodes = [], sm_networks = [], sm_things = [], sm_last_rebuild = 0\<rparr>"

lemma sample_replica_decodes:
  "ThingReplicationData_from_bytes (event_data replica_event) = Some sample_replica"
  using thingc.dec_enc [of sample_replica]
  by (simp add: replica_event_def wf_ThingReplicationData_def sample_replica_def)

theorem thing_availability_witness:
  "is_thing_available (rebuild_state replica_ledger 0 empty_state) (ContentHash (replicate 32 4)) \<and>
   unat (get_thing_replication_count (rebuild_state replica_ledger 0 empty_state)
     (ContentHash (replicate 32 4))) = 1"
proof -
  have "get_thing_hosts (rebuild_state replica_ledger 0 empty_state) (ContentHash (replicate 32 4)) =
      [NodeID (replicate 32 2)]"
    using sample_replica_decodes
    by (simp add: rebuild_state_def get_all_events_def replica_ledger_def apply_event_def
        replica_event_def empty_state_def apply_thing_replicated_def get_thing_hosts_def
        sample_replica_def Let_def set_node_def ThingState_new_def)
  then show ?thesis
    using thing_availability [of replica_ledger 0 empty_state "ContentHash (replicate 32 4)"]
    by (simp add: replica_ledger_def)
qed

text \<open>
  as long as no node joins again and no network is created again, both views of the
  state agree: a node lists a network exactly when the network lists the node as a member,
  and a node lists a Thing exactly when the Thing lists the node as a host.
\<close>

theorem membership_consistent:
  assumes "no_reset empty_state (lg_events L)"
  shows "(net \<in> set (get_networks_for_node (rebuild_state L now empty_state) n) \<longleftrightarrow>
      is_node_in_network (rebuild_state L now empty_state) n net) \<and>
    ((\<exists>st. get_node_state (rebuild_state L now empty_state) n = Some st \<and> c \<in> set (ns_hosted_things st)) \<longleftrightarrow>
      n \<in> set (get_thing_hosts (rebuild_state L now empty_state) c))"
proof -
  have "linked empty_state"
    by (simp add: linked_def empty_state_def node_at_def net_at_def thing_at_def new_defs)
  then have "linked (fold apply_event (lg_events L) empty_state)"
    using assms by (rule linked_fold)
  then have "linked (rebuild_state L now empty_state)"
    by (simp add: rebuild_state_def get_all_events_def linked_def node_at_def net_at_def thing_at_def
        empty_state_def)
  moreover have "(\<exists>st. get_node_state s n = Some st \<and> c \<in> set (ns_hosted_things st)) \<longleftrightarrow>
      c \<in> set (ns_hosted_things (node_at s n))" for s
    by (auto simp: get_node_state_def node_at_def NodeState_new_def opt_or_def split: option.splits)
  ultimately show ?thesis by (simp add: linked_def query_at)
qed

theorem membership_consistent_witness:
  "NodeID (replicate 32 2) \<in> set (get_thing_hosts (rebuild_state replica_ledger 0 empty_state)
     (ContentHash (replicate 32 4))) \<longleftrightarrow>
   (\<exists>st. get_node_state (rebuild_state replica_ledger 0 empty_state) (NodeID (replicate 32 2)) = Some st \<and>
     ContentHash (replicate 32 4) \<in> set (ns_hosted_things st))"
proof -
  have "no_reset empty_state (lg_events replica_ledger)"
    by (simp add: replica_ledger_def replica_event_def event_type_defs)
  from membership_consistent [OF this] show ?thesis by blast
qed

text \<open>
  a node that joins again is wiped: applying a \<open>NODE_JOINED\<close> event for a node that is a
  member of a network and has keys leaves it with no keys, no networks and no hosted Things
  of its own, while the network still lists it as a member.
\<close>

theorem rejoin_wipes_node:
  assumes "event_type e = NODE_JOINED" "is_node_in_network s (source_node e) net"
  shows "get_node_key_balance (apply_event e s) (source_node e) t = 0 \<and>
    get_networks_for_node (apply_event e s) (source_node e) = [] \<and>
    is_node_in_network (apply_event e s) (source_node e) net \<and>
    get_node_reputation (apply_event e s) (source_node e) = 0"
  using assms
  by (simp add: query_at apply_event_def apply_node_joined_def NodeState_new_def)
    (simp add: net_at_def)

text \<open>A state in which \<^const>\<open>sample_member\<close> has been added.\<close>

definition member_state :: StateManager where
  "member_state = apply_event (sample_event\<lparr>event_type := NETWORK_MEMBER_ADDED,
     event_data := NetworkMembershipData_to_bytes sample_member\<rparr>) empty_state"

theorem rejoin_wipes_node_witness:
  "is_node_in_network member_state (NodeID (replicate 32 2)) (replicate 32 1) \<and>
   get_networks_for_node member_state (NodeID (replicate 32 2)) = [replicate 32 1] \<and>
   get_networks_for_node (apply_event (sample_event\<lparr>event_type := NODE_JOINED,
     source_node := NodeID (replicate 32 2)\<rparr>) member_state) (NodeID (replicate 32 2)) = []"
proof -
  have d: "NetworkMembershipData_from_bytes (NetworkMembershipData_to_bytes sample_member) = Some sample_member"
    by (rule memberc.dec_enc) (simp add: wf_NetworkMembershipData_def sample_member_def)
  have f: "nm_network_id sample_member = replicate 32 1"
    "nm_member_node sample_member = NodeID (replicate 32 2)"
    by (simp_all add: sample_member_def)
  have m: "is_node_in_network member_state (NodeID (replicate 32 2)) (replicate 32 1)"
    "get_networks_for_node member_state (NodeID (replicate 32 2)) = [replicate 32 1]"
    by (simp_all add: query_at member_state_def apply_event_def event_type_defs members_net d f)
      (simp_all add: d f apply_network_member_added_def Let_def empty_state_def
        node_at_def set_node_def NodeState_new_def)
  then show ?thesis
    using rejoin_wipes_node [of "sample_event\<lparr>event_type := NODE_JOINED, source_node := NodeID (replicate 32 2)\<rparr>"]
    by simp
qed

text \<open>
  capabilities follow from activity and key balances: in every reachable state a node can
  host Things, join networks or route traffic exactly when it is active and holds at least one
  service, network or routing key, and can post content exactly when it is active and holds a
  key of any type.
\<close>

theorem capabilities_by_balance:
  fixes L :: Ledger and now :: u64 and ops :: "state_op list"
  defines "s \<equiv> foldl state_step (StateManager_init L now) ops"
  shows "(can_node_host_things s n \<longleftrightarrow> is_node_active s n \<and> get_node_key_balance s n SERVICE \<ge> 1) \<and>
    (can_node_join_networks s n \<longleftrightarrow> is_node_active s n \<and> get_node_key_balance s n NETWORK \<ge> 1) \<and>
    (can_node_route_traffic s n \<longleftrightarrow> is_node_active s n \<and> get_node_key_balance s n ROUTING \<ge> 1) \<and>
    (can_node_post_content s n \<longleftrightarrow> is_node_active s n \<and> (\<exists>t. get_node_key_balance s n t > 0))"
proof -
  have "state_ok s"
    unfolding s_def StateManager_init_def by (rule sm.run_inv [OF state_ok_rebuild])
  then show ?thesis by (simp only: capability_at has_key_at post_at simp_thms)
qed

text \<open>
  \<open>update_node_activity\<close> on a valid ledger: an active node stays active exactly when it
  joined or originated a ledger event at most 14 days before \<open>now\<close> (or at a later time); a
  node that was inactive stays inactive, and nothing else of a node's state changes.
\<close>

theorem update_node_activity_exact:
  assumes "ledger_inv H L"
  shows "get_node_state (update_node_activity L now s) n = map_option (\<lambda>st. st\<lparr>ns_is_active :=
     ns_is_active st \<and> (seen_recently now (ns_joined_at st) \<or>
       (\<exists>e \<in> set (lg_events L). source_node e = n \<and> seen_recently now (event_timestamp e)))\<rparr>)
     (get_node_state s n)"
proof -
  have "seen_recently now (last_activity j (get_events_by_node L n)) \<longleftrightarrow>
      seen_recently now j \<or> (\<exists>e \<in> set (lg_events L). source_node e = n \<and> seen_recently now (event_timestamp e))"
    (is "?l \<longleftrightarrow> ?r") for j
  proof
    assume ?l
    then show ?r
      using last_activity_mem [of j "get_events_by_node L n"]
      by (auto simp: get_events_by_node_filter [OF assms])
  next
    assume ?r
    then show ?l
      using last_activity_bound [of j "get_events_by_node L n"]
      by (auto simp: get_events_by_node_filter [OF assms] intro: seen_recently_mono)
  qed
  moreover have "(if ns_is_active st \<and> \<not> b then st\<lparr>ns_is_active := False\<rparr> else st) =
      st\<lparr>ns_is_active := ns_is_active st \<and> b\<rparr>" for st :: NodeState and b
    by (cases st) auto
  ultimately show ?thesis by (simp only: activity_lookup)
qed

theorem update_node_activity_exact_witness:
  "get_node_state (update_node_activity one_event_ledger 5000000
     (apply_node_joined (sample_event\<lparr>event_timestamp := 1\<rparr>) empty_state)) (NodeID []) =
   map_option (\<lambda>st. st\<lparr>ns_is_active := ns_is_active st \<and> (seen_recently 5000000 (ns_joined_at st) \<or>
       (\<exists>e \<in> set (lg_events one_event_ledger). source_node e = NodeID [] \<and>
          seen_recently 5000000 (event_timestamp e)))\<rparr>)
     (get_node_state (apply_node_joined (sample_event\<lparr>event_timestamp := 1\<rparr>) empty_state) (NodeID []))"
  by (rule update_node_activity_exact [OF one_event_inv])

text \<open>
  \<open>cleanup_stale_state\<close> removes the inactive nodes that joined more than 30 days before
  \<open>now\<close> and no others; networks and Things are untouched. The age is counted from the time
  the node joined, not from the time it became inactive.
\<close>

theorem cleanup_by_join_time:
  assumes "state_ok s"
  shows "get_node_state (cleanup_stale_state now s) n =
      (case get_node_state s n of
         None \<Rightarrow> None
       | Some st \<Rightarrow> if \<not> ns_is_active st \<and> now - ns_joined_at st > INACTIVE_THRESHOLD then None
                   else Some st) \<and>
    sm_networks (cleanup_stale_state now s) = sm_networks s \<and>
    sm_things (cleanup_stale_state now s) = sm_things s"
proof -
  have "distinct (map fst (sm_nodes s))"
    using assms by (auto simp: state_ok_def omap_all_def intro: omap_ok_distinct)
  then have mem: "(n, st) \<in> set (sm_nodes s) \<longleftrightarrow> map_of (sm_nodes s) n = Some st" for st
    by simp
  show ?thesis
    unfolding cleanup_stale_state_def Let_def get_node_state_def
    by (cases "map_of (sm_nodes s) n") (auto simp: find_erase_all mem image_iff)
qed

text \<open>A node that joined long ago and left one second ago.\<close>

definition left_state :: StateManager where
  "left_state = apply_event (sample_event\<lparr>event_type := NODE_LEFT, event_timestamp := 1700000000\<rparr>)
     (apply_event (sample_event\<lparr>event_type := NODE_JOINED, event_timestamp := 1600000000\<rparr>) empty_state)"

theorem cleanup_by_join_time_witness:
  "get_node_state left_state (source_node sample_event) \<noteq> None \<and>
   get_node_state (cleanup_stale_state 1700000001 left_state) (source_node sample_event) = None"
proof -
  have "state_ok left_state"
    unfolding left_state_def
    by (intro state_ok_apply_event) (simp add: state_ok_def empty_state_def)
  moreover have "get_node_state left_state (source_node sample_event) =
      Some (NodeState_new\<lparr>ns_node_id := Some (source_node sample_event), ns_joined_at := 1600000000\<rparr>)"
    by (simp add: left_state_def get_node_state_def apply_event_def apply_node_left_def event_type_defs
        apply_node_joined_def set_node_def empty_state_def NodeState_new_def)
  ultimately show ?thesis
    using cleanup_by_join_time [of left_state 1700000001 "source_node sample_event"]
    by (simp add: INACTIVE_THRESHOLD_def NodeState_new_def)
qed

end
