(* ===== verification/Gossip.thy ===== *)
theory Gossip
  imports Common
begin

text \<open>
  The gossip protocol of \<open>src/network/gossip.cpp\<close>: the message envelope and the announcements
  with their encodings, the protocol object (seen-message cache, peers, handlers, forwarding)
  and the scheduler.

  A decoder returns \<open>Inl Rejected\<close> where the code returns \<open>std::nullopt\<close> and
  \<open>Inl ReadPastEnd\<close> where the code would index the vector past its end, which is undefined in
  C++. Erasing from an empty cache is undefined too; the operations that may do so return an
  option, with \<open>None\<close> for that case. The clock readings are arguments. The random numbers are
  the parameter \<open>rnd\<close>: \<open>rnd i u\<close> is what the \<open>i\<close>-th call of \<open>Random::uniform\<close> returns for the
  bound \<open>u\<close>. What a handler or the send callback does lies outside; an operation returns the
  invocations it makes, in their order, and \<open>gp_send\<close> is what the callback answers.
\<close>

section \<open>Data\<close>

type_synonym GossipMessageType = u8

definition PEER_ANNOUNCEMENT :: GossipMessageType where "PEER_ANNOUNCEMENT = 1"
definition CONTENT_ANNOUNCEMENT :: GossipMessageType where "CONTENT_ANNOUNCEMENT = 2"
definition NETWORK_STATE_UPDATE :: GossipMessageType where "NETWORK_STATE_UPDATE = 3"

record NodeCapabilities =
  nc_can_host_things :: bool
  nc_can_route_content :: bool
  nc_can_provide_storage :: bool
  nc_storage_capacity :: u64
  nc_bandwidth_capacity :: u64

record PeerAnnouncement =
  pa_node_id :: NodeID
  pa_public_key :: bytes
  pa_capabilities :: NodeCapabilities
  pa_timestamp :: u64
  pa_signature :: bytes

record ContentAnnouncement =
  ca_content_hash :: ContentHash
  ca_content_size :: u64
  ca_hosting_node :: NodeID
  ca_network_id :: "Hash256 option"
  ca_timestamp :: u64
  ca_signature :: bytes

record NetworkStateUpdate =
  su_epoch_number :: u64
  su_active_nodes :: "NodeID list"
  su_pow_difficulty :: u32
  su_entropy_seed :: bytes
  su_timestamp :: u64
  su_signatures :: "bytes list"

record GossipMessage =
  gm_type :: GossipMessageType
  gm_message_id :: Hash256
  gm_payload :: bytes
  gm_timestamp :: u64
  gm_hop_count :: u8

definition MAX_HOPS :: u8 where "MAX_HOPS = 10"
definition MAX_AGE_SECONDS :: u64 where "MAX_AGE_SECONDS = 300"

definition NodeCapabilities_new :: NodeCapabilities where
  "NodeCapabilities_new = \<lparr>nc_can_host_things = True, nc_can_route_content = True,
     nc_can_provide_storage = True, nc_storage_capacity = 0, nc_bandwidth_capacity = 0\<rparr>"

section \<open>Reading\<close>

datatype parse_error = Rejected | ReadPastEnd

text \<open>
  The next \<open>n\<close> bytes and the rest, or the error when fewer are left: \<open>Rejected\<close> where the code
  checks the size first, \<open>ReadPastEnd\<close> where it does not.
\<close>

definition need :: "parse_error \<Rightarrow> nat \<Rightarrow> bytes \<Rightarrow> parse_error + (bytes \<times> bytes)" where
  "need err n bs = (if n \<le> length bs then Inr (take n bs, drop n bs) else Inl err)"

text \<open>A loop that reads \<open>count\<close> items of \<open>n\<close> bytes, each after a size check.\<close>

fun need_items :: "nat \<Rightarrow> nat \<Rightarrow> bytes \<Rightarrow> parse_error + (bytes list \<times> bytes)" where
  "need_items n 0 bs = Inr ([], bs)"
| "need_items n (Suc count) bs =
     result_then (need Rejected n bs) (\<lambda>(x, bs).
     result_then (need_items n count bs) (\<lambda>(xs, bs). Inr (x # xs, bs)))"

definition accepted :: "parse_error + 'a \<Rightarrow> 'a option" where
  "accepted r = (case r of Inl _ \<Rightarrow> None | Inr x \<Rightarrow> Some x)"

section \<open>Encodings\<close>

definition NodeCapabilities_flags :: "NodeCapabilities \<Rightarrow> u8" where
  "NodeCapabilities_flags c =
     (let flags = 0;
          flags = (if nc_can_host_things c then flags OR 0x01 else flags);
          flags = (if nc_can_route_content c then flags OR 0x02 else flags)
      in if nc_can_provide_storage c then flags OR 0x04 else flags)"

definition NodeCapabilities_to_bytes :: "NodeCapabilities \<Rightarrow> bytes" where
  "NodeCapabilities_to_bytes c =
     [NodeCapabilities_flags c] @ le_bytes 8 (nc_storage_capacity c) @ le_bytes 8 (nc_bandwidth_capacity c)"

definition NodeCapabilities_from_bytes :: "bytes \<Rightarrow> NodeCapabilities option" where
  "NodeCapabilities_from_bytes data =
     (if length data < 1 + 8 + 8 then None
      else let flags = data ! 0 in
        Some \<lparr>nc_can_host_things = (flags AND 0x01 \<noteq> 0), nc_can_route_content = (flags AND 0x02 \<noteq> 0),
              nc_can_provide_storage = (flags AND 0x04 \<noteq> 0),
              nc_storage_capacity = le_word (slice 1 8 data),
              nc_bandwidth_capacity = le_word (slice 9 8 data)\<rparr>)"

definition PeerAnnouncement_to_bytes :: "PeerAnnouncement \<Rightarrow> bytes" where
  "PeerAnnouncement_to_bytes a =
     node_bytes (pa_node_id a) @ pa_public_key a @ NodeCapabilities_to_bytes (pa_capabilities a)
     @ le_bytes 8 (pa_timestamp a) @ pa_signature a"

definition PeerAnnouncement_from_bytes :: "bytes \<Rightarrow> PeerAnnouncement option" where
  "PeerAnnouncement_from_bytes data =
     (if length data < 32 + 32 + 17 + 8 + 64 then None
      else case NodeCapabilities_from_bytes (slice 64 17 data) of
             None \<Rightarrow> None
           | Some caps \<Rightarrow>
               Some \<lparr>pa_node_id = NodeID (slice 0 32 data), pa_public_key = slice 32 32 data,
                     pa_capabilities = caps, pa_timestamp = le_word (slice 81 8 data),
                     pa_signature = slice 89 64 data\<rparr>)"

definition ContentAnnouncement_to_bytes :: "ContentAnnouncement \<Rightarrow> bytes" where
  "ContentAnnouncement_to_bytes a =
     content_bytes (ca_content_hash a) @ le_bytes 8 (ca_content_size a) @ node_bytes (ca_hosting_node a)
     @ (case ca_network_id a of Some net \<Rightarrow> [1] @ net | None \<Rightarrow> [0])
     @ le_bytes 8 (ca_timestamp a) @ ca_signature a"

definition ContentAnnouncement_from_bytes :: "bytes \<Rightarrow> parse_error + ContentAnnouncement" where
  "ContentAnnouncement_from_bytes data =
     (if length data < 32 + 8 + 32 + 1 + 8 + 64 then Inl Rejected
      else
        result_then (need ReadPastEnd 32 data) (\<lambda>(hash, data).
        result_then (need ReadPastEnd 8 data) (\<lambda>(size, data).
        result_then (need ReadPastEnd 32 data) (\<lambda>(host, data).
        result_then (need ReadPastEnd 1 data) (\<lambda>(has_network, data).
        result_then (if has_network = [1]
                  then result_then (need Rejected 32 data) (\<lambda>(net, data). Inr (Some net, data))
                  else Inr (None, data)) (\<lambda>(network_id, data).
        result_then (need ReadPastEnd 8 data) (\<lambda>(ts, data).
        result_then (need ReadPastEnd 64 data) (\<lambda>(sig, data).
          Inr \<lparr>ca_content_hash = ContentHash hash, ca_content_size = le_word size,
               ca_hosting_node = NodeID host, ca_network_id = network_id,
               ca_timestamp = le_word ts, ca_signature = sig\<rparr>))))))))"

definition NetworkStateUpdate_to_bytes :: "NetworkStateUpdate \<Rightarrow> bytes" where
  "NetworkStateUpdate_to_bytes u =
     le_bytes 8 (su_epoch_number u)
     @ le_bytes 4 (word_of_nat (length (su_active_nodes u)) :: u32)
     @ concat (map node_bytes (su_active_nodes u))
     @ le_bytes 4 (su_pow_difficulty u)
     @ le_bytes 4 (word_of_nat (length (su_entropy_seed u)) :: u32) @ su_entropy_seed u
     @ le_bytes 8 (su_timestamp u)
     @ le_bytes 4 (word_of_nat (length (su_signatures u)) :: u32) @ concat (su_signatures u)"

definition NetworkStateUpdate_from_bytes :: "bytes \<Rightarrow> parse_error + NetworkStateUpdate" where
  "NetworkStateUpdate_from_bytes data =
     (if length data < 8 + 4 + 4 + 4 + 8 + 4 then Inl Rejected
      else
        result_then (need ReadPastEnd 8 data) (\<lambda>(epoch, data).
        result_then (need ReadPastEnd 4 data) (\<lambda>(node_count, data).
        result_then (need_items 32 (unat (le_word node_count :: u32)) data) (\<lambda>(nodes, data).
        result_then (need ReadPastEnd 4 data) (\<lambda>(difficulty, data).
        result_then (need ReadPastEnd 4 data) (\<lambda>(seed_size, data).
        result_then (need Rejected (unat (le_word seed_size :: u32)) data) (\<lambda>(seed, data).
        result_then (need ReadPastEnd 8 data) (\<lambda>(ts, data).
        result_then (need ReadPastEnd 4 data) (\<lambda>(sig_count, data).
        result_then (need_items 64 (unat (le_word sig_count :: u32)) data) (\<lambda>(sigs, data).
          Inr \<lparr>su_epoch_number = le_word epoch, su_active_nodes = map NodeID nodes,
               su_pow_difficulty = le_word difficulty, su_entropy_seed = seed,
               su_timestamp = le_word ts, su_signatures = sigs\<rparr>))))))))))"

definition GossipMessage_to_bytes :: "GossipMessage \<Rightarrow> bytes" where
  "GossipMessage_to_bytes m =
     [gm_type m] @ gm_message_id m @ le_bytes 4 (word_of_nat (length (gm_payload m)) :: u32)
     @ gm_payload m @ le_bytes 8 (gm_timestamp m) @ [gm_hop_count m]"

definition GossipMessage_from_bytes :: "bytes \<Rightarrow> parse_error + GossipMessage" where
  "GossipMessage_from_bytes data =
     (if length data < 1 + 32 + 4 + 8 + 1 then Inl Rejected
      else
        result_then (need ReadPastEnd 1 data) (\<lambda>(t, data).
        result_then (need ReadPastEnd 32 data) (\<lambda>(mid, data).
        result_then (need ReadPastEnd 4 data) (\<lambda>(payload_size, data).
        result_then (need Rejected (unat (le_word payload_size :: u32)) data) (\<lambda>(payload, data).
        result_then (need ReadPastEnd 8 data) (\<lambda>(ts, data).
        result_then (need ReadPastEnd 1 data) (\<lambda>(hops, data).
          Inr \<lparr>gm_type = hd t, gm_message_id = mid, gm_payload = payload,
               gm_timestamp = le_word ts, gm_hop_count = hd hops\<rparr>)))))))"

definition compute_id :: "(bytes \<Rightarrow> Hash256) \<Rightarrow> GossipMessage \<Rightarrow> Hash256" where
  "compute_id H m = H (GossipMessage_to_bytes m)"

definition is_too_old :: "GossipMessage \<Rightarrow> u64 \<Rightarrow> bool" where
  "is_too_old m now \<longleftrightarrow> now - gm_timestamp m > MAX_AGE_SECONDS"

definition has_exceeded_hops :: "GossipMessage \<Rightarrow> bool" where
  "has_exceeded_hops m \<longleftrightarrow> gm_hop_count m \<ge> MAX_HOPS"

section \<open>The protocol object\<close>

record SeenMessage =
  seen_id :: Hash256
  seen_time :: u64

record GossipProtocol =
  gp_local_node_id :: NodeID
  gp_peers :: "NodeID list"
  gp_seen :: "SeenMessage list"
  gp_handlers :: "(GossipMessageType \<times> nat) list"
  gp_fanout :: nat
  gp_max_seen :: nat
  gp_received :: u64
  gp_sent :: u64
  gp_send :: "(NodeID \<Rightarrow> GossipMessage \<Rightarrow> bool) option"
  gp_public_key :: "bytes option"
  gp_sign :: "(bytes \<Rightarrow> bytes) option"

datatype gossip_call = Handler nat GossipMessage | SendCallback NodeID GossipMessage

definition DEFAULT_FANOUT :: nat where "DEFAULT_FANOUT = 3"
definition DEFAULT_MAX_SEEN :: nat where "DEFAULT_MAX_SEEN = 10000"
definition SEEN_MESSAGE_TTL_SECONDS :: u64 where "SEEN_MESSAGE_TTL_SECONDS = 600"

definition GossipProtocol_init :: "NodeID \<Rightarrow> GossipProtocol" where
  "GossipProtocol_init n = \<lparr>gp_local_node_id = n, gp_peers = [], gp_seen = [], gp_handlers = [],
     gp_fanout = DEFAULT_FANOUT, gp_max_seen = DEFAULT_MAX_SEEN, gp_received = 0, gp_sent = 0,
     gp_send = None, gp_public_key = None, gp_sign = None\<rparr>"

definition set_fanout :: "nat \<Rightarrow> GossipProtocol \<Rightarrow> GossipProtocol" where
  "set_fanout n g = g\<lparr>gp_fanout := n\<rparr>"

definition set_max_seen_messages :: "nat \<Rightarrow> GossipProtocol \<Rightarrow> GossipProtocol" where
  "set_max_seen_messages n g = g\<lparr>gp_max_seen := n\<rparr>"

definition set_send_callback :: "(NodeID \<Rightarrow> GossipMessage \<Rightarrow> bool) \<Rightarrow> GossipProtocol \<Rightarrow> GossipProtocol" where
  "set_send_callback f g = g\<lparr>gp_send := Some f\<rparr>"

definition set_local_public_key :: "bytes \<Rightarrow> GossipProtocol \<Rightarrow> GossipProtocol" where
  "set_local_public_key k g = g\<lparr>gp_public_key := Some k\<rparr>"

definition set_sign_callback :: "(bytes \<Rightarrow> bytes) \<Rightarrow> GossipProtocol \<Rightarrow> GossipProtocol" where
  "set_sign_callback f g = g\<lparr>gp_sign := Some f\<rparr>"

definition has_seen_message :: "GossipProtocol \<Rightarrow> Hash256 \<Rightarrow> bool" where
  "has_seen_message g mid = list_ex (\<lambda>x. seen_id x = mid) (gp_seen g)"

definition should_propagate :: "GossipProtocol \<Rightarrow> u64 \<Rightarrow> GossipMessage \<Rightarrow> bool" where
  "should_propagate g now m =
     (if has_seen_message g (gm_message_id m) then False
      else if is_too_old m now then False
      else if has_exceeded_hops m then False
      else True)"

definition mark_as_seen :: "Hash256 \<Rightarrow> u64 \<Rightarrow> GossipProtocol \<Rightarrow> GossipProtocol option" where
  "mark_as_seen mid now g =
     (if length (gp_seen g) \<ge> gp_max_seen g then
        (case gp_seen g of
           [] \<Rightarrow> None
         | _ # rest \<Rightarrow> Some (g\<lparr>gp_seen := rest @ [\<lparr>seen_id = mid, seen_time = now\<rparr>]\<rparr>))
      else Some (g\<lparr>gp_seen := gp_seen g @ [\<lparr>seen_id = mid, seen_time = now\<rparr>]\<rparr>))"

definition invoke_handlers :: "GossipProtocol \<Rightarrow> GossipMessage \<Rightarrow> gossip_call list" where
  "invoke_handlers g m = map (\<lambda>p. Handler (snd p) m) (filter (\<lambda>p. fst p = gm_type m) (gp_handlers g))"

text \<open>
  The selection loop of \<open>get_random_peers\<close>: \<open>i\<close> counts the calls of \<open>Random::uniform\<close>, \<open>n\<close> is
  the number of iterations left.
\<close>

fun random_loop :: "(nat \<Rightarrow> u32 \<Rightarrow> u32) \<Rightarrow> nat \<Rightarrow> nat \<Rightarrow> NodeID list \<Rightarrow> NodeID list" where
  "random_loop rnd i 0 available = []"
| "random_loop rnd i (Suc n) available =
     (if available = [] then []
      else let index = unat (rnd i (word_of_nat (length available)))
           in available ! index # random_loop rnd (Suc i) n (take index available @ drop (Suc index) available))"

definition get_random_peers :: "(nat \<Rightarrow> u32 \<Rightarrow> u32) \<Rightarrow> GossipProtocol \<Rightarrow> nat \<Rightarrow> NodeID list" where
  "get_random_peers rnd g count =
     (if gp_peers g = [] then []
      else let actual_count = min count (length (gp_peers g))
           in random_loop rnd 0 actual_count (gp_peers g))"

definition send_to_peer :: "NodeID \<Rightarrow> GossipMessage \<Rightarrow> GossipProtocol \<Rightarrow> gossip_call list \<times> GossipProtocol" where
  "send_to_peer peer m g =
     (case gp_send g of
        Some f \<Rightarrow> ([SendCallback peer m], if f peer m then g\<lparr>gp_sent := gp_sent g + 1\<rparr> else g)
      | None \<Rightarrow> ([], g\<lparr>gp_sent := gp_sent g + 1\<rparr>))"

fun send_all :: "NodeID list \<Rightarrow> GossipMessage \<Rightarrow> GossipProtocol \<Rightarrow> gossip_call list \<times> GossipProtocol" where
  "send_all [] m g = ([], g)"
| "send_all (p # ps) m g =
     (let (out, g1) = send_to_peer p m g; (out', g2) = send_all ps m g1 in (out @ out', g2))"

text \<open>\<open>now1\<close> is the clock of \<open>is_too_old\<close>, \<open>now2\<close> that of \<open>mark_as_seen\<close>.\<close>

definition receive_message ::
  "(nat \<Rightarrow> u32 \<Rightarrow> u32) \<Rightarrow> u64 \<Rightarrow> u64 \<Rightarrow> GossipMessage \<Rightarrow> GossipProtocol
   \<Rightarrow> (gossip_call list \<times> GossipProtocol) option" where
  "receive_message rnd now1 now2 m g =
     (let g = g\<lparr>gp_received := gp_received g + 1\<rparr> in
      if \<not> should_propagate g now1 m then Some ([], g)
      else case mark_as_seen (gm_message_id m) now2 g of
             None \<Rightarrow> None
           | Some g \<Rightarrow>
               let handled = invoke_handlers g m;
                   forward_peers = get_random_peers rnd g (gp_fanout g);
                   (sent, g) = send_all forward_peers (m\<lparr>gm_hop_count := gm_hop_count m + 1\<rparr>) g
               in Some (handled @ sent, g))"

definition broadcast_message ::
  "(nat \<Rightarrow> u32 \<Rightarrow> u32) \<Rightarrow> u64 \<Rightarrow> GossipMessage \<Rightarrow> GossipProtocol
   \<Rightarrow> (gossip_call list \<times> GossipProtocol) option" where
  "broadcast_message rnd now m g =
     (case mark_as_seen (gm_message_id m) now g of
        None \<Rightarrow> None
      | Some g \<Rightarrow>
          let forward_peers = get_random_peers rnd g (gp_fanout g);
              (sent, g) = send_all forward_peers m g
          in Some (sent, g\<lparr>gp_sent := gp_sent g + word_of_nat (length forward_peers)\<rparr>))"

definition send_direct_message ::
  "NodeID \<Rightarrow> GossipMessage \<Rightarrow> GossipProtocol \<Rightarrow> bool \<times> gossip_call list \<times> GossipProtocol" where
  "send_direct_message peer m g = (True, send_to_peer peer m g)"

text \<open>
  The messages a node makes. \<open>compute_id\<close> hashes the encoding of a message whose \<open>message_id\<close>
  has not been set yet; \<open>stale\<close> stands for what that memory holds.
\<close>

definition finish_message ::
  "(bytes \<Rightarrow> Hash256) \<Rightarrow> Hash256 \<Rightarrow> GossipMessageType \<Rightarrow> bytes \<Rightarrow> u64 \<Rightarrow> GossipMessage" where
  "finish_message H stale t payload ts =
     (let m = \<lparr>gm_type = t, gm_message_id = stale, gm_payload = payload, gm_timestamp = ts, gm_hop_count = 0\<rparr>
      in m\<lparr>gm_message_id := compute_id H m\<rparr>)"

definition create_peer_announcement ::
  "(bytes \<Rightarrow> Hash256) \<Rightarrow> Hash256 \<Rightarrow> u64 \<Rightarrow> NodeCapabilities \<Rightarrow> GossipProtocol \<Rightarrow> GossipMessage" where
  "create_peer_announcement H stale now caps g =
     (let a = \<lparr>pa_node_id = gp_local_node_id g, pa_public_key = opt_or (replicate 32 0) (gp_public_key g),
               pa_capabilities = caps, pa_timestamp = now, pa_signature = replicate 64 0\<rparr>;
          a = (case gp_sign g of
                 Some f \<Rightarrow> (let signable = PeerAnnouncement_to_bytes a
                            in a\<lparr>pa_signature := f (take (length signable - 64) signable)\<rparr>)
               | None \<Rightarrow> a)
      in finish_message H stale PEER_ANNOUNCEMENT (PeerAnnouncement_to_bytes a) now)"

definition create_content_announcement ::
  "(bytes \<Rightarrow> Hash256) \<Rightarrow> Hash256 \<Rightarrow> u64 \<Rightarrow> ContentHash \<Rightarrow> u64 \<Rightarrow> Hash256 option \<Rightarrow> GossipProtocol
   \<Rightarrow> GossipMessage" where
  "create_content_announcement H stale now content_hash content_size network_id g =
     (let a = \<lparr>ca_content_hash = content_hash, ca_content_size = content_size,
               ca_hosting_node = gp_local_node_id g, ca_network_id = network_id,
               ca_timestamp = now, ca_signature = replicate 64 0\<rparr>;
          a = (case gp_sign g of
                 Some f \<Rightarrow> (let signable = ContentAnnouncement_to_bytes a
                            in a\<lparr>ca_signature := f (take (length signable - 64) signable)\<rparr>)
               | None \<Rightarrow> a)
      in finish_message H stale CONTENT_ANNOUNCEMENT (ContentAnnouncement_to_bytes a) now)"

definition register_handler :: "GossipMessageType \<Rightarrow> nat \<Rightarrow> GossipProtocol \<Rightarrow> GossipProtocol" where
  "register_handler t h g = g\<lparr>gp_handlers := gp_handlers g @ [(t, h)]\<rparr>"

definition unregister_handler :: "GossipMessageType \<Rightarrow> GossipProtocol \<Rightarrow> GossipProtocol" where
  "unregister_handler t g = g\<lparr>gp_handlers := filter (\<lambda>p. fst p \<noteq> t) (gp_handlers g)\<rparr>"

definition add_peer :: "NodeID \<Rightarrow> GossipProtocol \<Rightarrow> GossipProtocol" where
  "add_peer p g = (if p \<in> set (gp_peers g) then g else g\<lparr>gp_peers := gp_peers g @ [p]\<rparr>)"

definition remove_peer :: "NodeID \<Rightarrow> GossipProtocol \<Rightarrow> GossipProtocol" where
  "remove_peer p g = g\<lparr>gp_peers := filter (\<lambda>q. q \<noteq> p) (gp_peers g)\<rparr>"

definition cleanup_old_seen_messages :: "u64 \<Rightarrow> GossipProtocol \<Rightarrow> GossipProtocol" where
  "cleanup_old_seen_messages now g =
     g\<lparr>gp_seen := filter (\<lambda>x. \<not> now - seen_time x > SEEN_MESSAGE_TTL_SECONDS) (gp_seen g)\<rparr>"

section \<open>The scheduler\<close>

record GossipScheduler =
  gs_running :: bool
  gs_peer_interval :: u64
  gs_state_interval :: u64
  gs_last_peer :: u64
  gs_last_state :: u64

definition DEFAULT_PEER_INTERVAL_SECONDS :: u64 where "DEFAULT_PEER_INTERVAL_SECONDS = 300"
definition DEFAULT_STATE_INTERVAL_SECONDS :: u64 where "DEFAULT_STATE_INTERVAL_SECONDS = 600"

definition GossipScheduler_init :: GossipScheduler where
  "GossipScheduler_init = \<lparr>gs_running = False, gs_peer_interval = DEFAULT_PEER_INTERVAL_SECONDS,
     gs_state_interval = DEFAULT_STATE_INTERVAL_SECONDS, gs_last_peer = 0, gs_last_state = 0\<rparr>"

definition scheduler_start :: "GossipScheduler \<Rightarrow> GossipScheduler" where
  "scheduler_start sc = (if gs_running sc then sc else sc\<lparr>gs_running := True\<rparr>)"

definition scheduler_stop :: "GossipScheduler \<Rightarrow> GossipScheduler" where
  "scheduler_stop sc = (if \<not> gs_running sc then sc else sc\<lparr>gs_running := False\<rparr>)"

text \<open>What the environment provides during one announcement: random numbers, the stale bytes, the
  hash, and the clock when the message is made, when it is marked and when it has been sent.\<close>

record announce_env =
  ae_rnd :: "nat \<Rightarrow> u32 \<Rightarrow> u32"
  ae_hash :: "bytes \<Rightarrow> Hash256"
  ae_stale :: Hash256
  ae_made :: u64
  ae_marked :: u64
  ae_done :: u64

definition announce_peer ::
  "announce_env \<Rightarrow> NodeCapabilities \<Rightarrow> GossipScheduler \<Rightarrow> GossipProtocol
   \<Rightarrow> (gossip_call list \<times> GossipScheduler \<times> GossipProtocol) option" where
  "announce_peer env caps sc g =
     (let m = create_peer_announcement (ae_hash env) (ae_stale env) (ae_made env) caps g in
      case broadcast_message (ae_rnd env) (ae_marked env) m g of
        None \<Rightarrow> None
      | Some (out, g) \<Rightarrow> Some (out, sc\<lparr>gs_last_peer := ae_done env\<rparr>, g))"

definition announce_content ::
  "announce_env \<Rightarrow> ContentHash \<Rightarrow> u64 \<Rightarrow> GossipProtocol \<Rightarrow> (gossip_call list \<times> GossipProtocol) option" where
  "announce_content env content_hash content_size g =
     (let m = create_content_announcement (ae_hash env) (ae_stale env) (ae_made env)
                content_hash content_size None g
      in broadcast_message (ae_rnd env) (ae_marked env) m g)"

text \<open>One iteration of \<open>run_scheduler_loop\<close>: \<open>now\<close> is the reading at its start and \<open>now2\<close> that of the
  cleanup. The loop repeats it once a second while \<open>running_\<close> holds.\<close>

definition scheduler_iteration ::
  "u64 \<Rightarrow> u64 \<Rightarrow> announce_env \<Rightarrow> GossipScheduler \<Rightarrow> GossipProtocol
   \<Rightarrow> (gossip_call list \<times> GossipScheduler \<times> GossipProtocol) option" where
  "scheduler_iteration now now2 env sc g =
     (case (if gs_last_peer sc = 0 \<or> now - gs_last_peer sc \<ge> gs_peer_interval sc
            then announce_peer env NodeCapabilities_new sc g
            else Some ([], sc, g)) of
        None \<Rightarrow> None
      | Some (out, sc, g) \<Rightarrow>
          (if gs_last_state sc = 0 \<or> now - gs_last_state sc \<ge> gs_state_interval sc
           then Some (out, sc\<lparr>gs_last_state := now\<rparr>, cleanup_old_seen_messages now2 g)
           else Some (out, sc, g)))"

fun run_scheduler_loop ::
  "(u64 \<times> u64 \<times> announce_env) list \<Rightarrow> GossipScheduler \<Rightarrow> GossipProtocol
   \<Rightarrow> (gossip_call list \<times> GossipScheduler \<times> GossipProtocol) option" where
  "run_scheduler_loop [] sc g = Some ([], sc, g)"
| "run_scheduler_loop ((now, now2, env) # rest) sc g =
     (if \<not> gs_running sc then Some ([], sc, g)
      else case scheduler_iteration now now2 env sc g of
             None \<Rightarrow> None
           | Some (out, sc, g) \<Rightarrow>
               map_option (\<lambda>(out', r). (out @ out', r)) (run_scheduler_loop rest sc g))"

section \<open>Round trips\<close>

definition wf_PeerAnnouncement :: "PeerAnnouncement \<Rightarrow> bool" where
  "wf_PeerAnnouncement a \<longleftrightarrow> length (node_bytes (pa_node_id a)) = 32 \<and> length (pa_public_key a) = 32 \<and>
     length (pa_signature a) = 64"

definition wf_ContentAnnouncement :: "ContentAnnouncement \<Rightarrow> bool" where
  "wf_ContentAnnouncement a \<longleftrightarrow> length (content_bytes (ca_content_hash a)) = 32 \<and>
     length (node_bytes (ca_hosting_node a)) = 32 \<and>
     (case ca_network_id a of None \<Rightarrow> True | Some net \<Rightarrow> length net = 32) \<and> length (ca_signature a) = 64"

definition wf_NetworkStateUpdate :: "NetworkStateUpdate \<Rightarrow> bool" where
  "wf_NetworkStateUpdate u \<longleftrightarrow> list_all (\<lambda>n. length (node_bytes n) = 32) (su_active_nodes u) \<and>
     length (su_active_nodes u) < 2 ^ 32 \<and> length (su_entropy_seed u) < 2 ^ 32 \<and>
     list_all (\<lambda>x. length x = 64) (su_signatures u) \<and> length (su_signatures u) < 2 ^ 32"

definition wf_GossipMessage :: "GossipMessage \<Rightarrow> bool" where
  "wf_GossipMessage m \<longleftrightarrow> length (gm_message_id m) = 32 \<and> length (gm_payload m) < 2 ^ 32"

lemma accepted_simps [simp]: "accepted (Inr a) = Some a" "accepted (Inl e) = None"
  by (simp_all add: accepted_def)

lemma need_append [simp]: "length xs = n \<Longrightarrow> need err n (xs @ r) = Inr (xs, r)"
  by (simp add: need_def)

lemma need_Cons [simp]: "need err (Suc 0) (x # r) = Inr ([x], r)"
  by (simp add: need_def)

lemma need_items_append:
  "list_all (\<lambda>x. length x = n) xs \<Longrightarrow> need_items n (length xs) (concat xs @ r) = Inr (xs, r)"
  by (induction xs) simp_all

lemma flags_bits:
  "NodeCapabilities_flags c AND 0x01 \<noteq> 0 \<longleftrightarrow> nc_can_host_things c"
  "NodeCapabilities_flags c AND 0x02 \<noteq> 0 \<longleftrightarrow> nc_can_route_content c"
  "NodeCapabilities_flags c AND 0x04 \<noteq> 0 \<longleftrightarrow> nc_can_provide_storage c"
  by (simp_all add: NodeCapabilities_flags_def Let_def)

lemma length_NodeCapabilities_to_bytes [simp]: "length (NodeCapabilities_to_bytes c) = 17"
  by (simp add: NodeCapabilities_to_bytes_def)

lemma NodeCapabilities_codec: "NodeCapabilities_from_bytes (NodeCapabilities_to_bytes c @ rest) = Some c"
proof -
  have "data ! 0 = NodeCapabilities_flags c" "le_word (slice 1 8 data) = nc_storage_capacity c"
    "le_word (slice 9 8 data) = nc_bandwidth_capacity c"
    if "data = NodeCapabilities_to_bytes c @ rest" for data
    by (simp_all add: that NodeCapabilities_to_bytes_def codec_simps)
  then show ?thesis
    by (simp add: NodeCapabilities_from_bytes_def Let_def flags_bits [simplified])
qed

lemma PeerAnnouncement_codec:
  "wf_PeerAnnouncement a \<Longrightarrow> PeerAnnouncement_from_bytes (PeerAnnouncement_to_bytes a @ rest) = Some a"
  using NodeCapabilities_codec [of "pa_capabilities a" "[]"]
  by (cases "pa_node_id a")
    (simp add: PeerAnnouncement_from_bytes_def PeerAnnouncement_to_bytes_def wf_PeerAnnouncement_def codec_simps)

lemma ContentAnnouncement_codec:
  assumes "wf_ContentAnnouncement a"
  shows "ContentAnnouncement_from_bytes (ContentAnnouncement_to_bytes a @ rest) = Inr a"
proof -
  have "ContentHash (content_bytes (ca_content_hash a)) = ca_content_hash a"
    "NodeID (node_bytes (ca_hosting_node a)) = ca_hosting_node a" by simp_all
  with assms show ?thesis
    by (cases "ca_network_id a")
      (simp_all add: ContentAnnouncement_from_bytes_def ContentAnnouncement_to_bytes_def
        wf_ContentAnnouncement_def)
qed

lemma NetworkStateUpdate_codec:
  assumes "wf_NetworkStateUpdate u"
  shows "NetworkStateUpdate_from_bytes (NetworkStateUpdate_to_bytes u @ rest) = Inr u"
proof -
  have nodes: "need_items 32 (length (su_active_nodes u)) (concat (map node_bytes (su_active_nodes u)) @ r)
      = Inr (map node_bytes (su_active_nodes u), r)" for r
    using need_items_append [of 32 "map node_bytes (su_active_nodes u)" r] assms
    by (simp add: wf_NetworkStateUpdate_def list_all_iff)
  have sigs: "need_items 64 (length (su_signatures u)) (concat (su_signatures u) @ r)
      = Inr (su_signatures u, r)" for r
    using need_items_append [of 64 "su_signatures u" r] assms by (simp add: wf_NetworkStateUpdate_def)
  have "map (NodeID \<circ> node_bytes) (su_active_nodes u) = su_active_nodes u"
    by (simp add: comp_def)
  with assms show ?thesis
    by (simp add: NetworkStateUpdate_from_bytes_def NetworkStateUpdate_to_bytes_def
        wf_NetworkStateUpdate_def nodes sigs)
qed

lemma GossipMessage_codec:
  "wf_GossipMessage m \<Longrightarrow> GossipMessage_from_bytes (GossipMessage_to_bytes m @ rest) = Inr m"
  by (simp add: GossipMessage_from_bytes_def GossipMessage_to_bytes_def wf_GossipMessage_def)

interpretation capsc: trailing_codec NodeCapabilities_to_bytes NodeCapabilities_from_bytes "\<lambda>_. True"
  by unfold_locales (rule NodeCapabilities_codec)

interpretation peerc: trailing_codec PeerAnnouncement_to_bytes PeerAnnouncement_from_bytes
  wf_PeerAnnouncement
  by unfold_locales (rule PeerAnnouncement_codec)

interpretation contentc: trailing_codec ContentAnnouncement_to_bytes
  "accepted \<circ> ContentAnnouncement_from_bytes" wf_ContentAnnouncement
  by unfold_locales (simp add: ContentAnnouncement_codec)

interpretation updatec: trailing_codec NetworkStateUpdate_to_bytes
  "accepted \<circ> NetworkStateUpdate_from_bytes" wf_NetworkStateUpdate
  by unfold_locales (simp add: NetworkStateUpdate_codec)

interpretation gossipc: trailing_codec GossipMessage_to_bytes
  "accepted \<circ> GossipMessage_from_bytes" wf_GossipMessage
  by unfold_locales (simp add: GossipMessage_codec)

section \<open>Peers and sending\<close>

text \<open>What libsodium documents of \<open>randombytes_uniform\<close>.\<close>

definition uniform_ok :: "(nat \<Rightarrow> u32 \<Rightarrow> u32) \<Rightarrow> bool" where
  "uniform_ok rnd \<longleftrightarrow> (\<forall>i u. (u = 0 \<longrightarrow> rnd i u = 0) \<and> (u \<noteq> 0 \<longrightarrow> rnd i u < u))"

lemma uniform_index:
  assumes "uniform_ok rnd" "xs \<noteq> []"
  shows "unat (rnd i (word_of_nat (length xs))) < length xs"
proof (cases "(word_of_nat (length xs) :: u32) = 0")
  case True
  with assms show ?thesis by (auto simp: uniform_ok_def)
next
  case False
  then have "rnd i (word_of_nat (length xs)) < word_of_nat (length xs)"
    using assms(1) by (simp add: uniform_ok_def)
  then have "unat (rnd i (word_of_nat (length xs))) < unat (word_of_nat (length xs) :: u32)"
    by (simp add: word_less_nat_alt)
  also have "\<dots> \<le> length xs" by (simp add: unat_of_nat take_bit_eq_mod)
  finally show ?thesis .
qed

lemma random_loop_spec:
  assumes "uniform_ok rnd" "distinct available" "n \<le> length available"
  shows "distinct (random_loop rnd i n available) \<and> length (random_loop rnd i n available) = n \<and>
    set (random_loop rnd i n available) \<subseteq> set available"
  using assms(2,3)
proof (induction n arbitrary: i available)
  case (Suc n)
  let ?k = "unat (rnd i (word_of_nat (length available)))"
  let ?rest = "take ?k available @ drop (Suc ?k) available"
  have ne: "available \<noteq> []" using Suc.prems(2) by auto
  have k: "?k < length available" by (rule uniform_index [OF assms(1) ne])
  have split: "available = take ?k available @ available ! ?k # drop (Suc ?k) available"
    using id_take_nth_drop [OF k] .
  have d: "distinct (take ?k available @ available ! ?k # drop (Suc ?k) available)"
    using Suc.prems(1) split by simp
  then have rest: "distinct ?rest" "available ! ?k \<notin> set ?rest" by auto
  have "set ?rest \<subseteq> set available"
    using set_take_subset [of ?k available] set_drop_subset [of "Suc ?k" available] by auto
  moreover have "n \<le> length ?rest" using Suc.prems(2) k by simp
  ultimately show ?case
    using Suc.IH [OF rest(1), of "Suc i"] rest(2) ne k by (auto simp: Let_def)
qed simp

lemma get_random_peers_spec:
  assumes "uniform_ok rnd" "distinct (gp_peers g)"
  shows "distinct (get_random_peers rnd g count) \<and>
    length (get_random_peers rnd g count) = min count (length (gp_peers g)) \<and>
    set (get_random_peers rnd g count) \<subseteq> set (gp_peers g)"
  using random_loop_spec [OF assms, of "min count (length (gp_peers g))" 0]
  by (simp add: get_random_peers_def Let_def)

lemma send_all_spec:
  "fst (send_all ps m g) = (if gp_send g = None then [] else map (\<lambda>p. SendCallback p m) ps)"
  "snd (send_all ps m g) = g\<lparr>gp_sent := gp_sent g + word_of_nat (length (filter (\<lambda>p.
      case gp_send g of None \<Rightarrow> True | Some f \<Rightarrow> f p m) ps))\<rparr>"
  by (induction ps arbitrary: g)
    (auto simp: send_to_peer_def Let_def case_prod_beta algebra_simps split: option.split)

lemma mark_as_seen_cases:
  "mark_as_seen mid now g = Some g' \<longleftrightarrow>
     (length (gp_seen g) < gp_max_seen g \<or> gp_seen g \<noteq> []) \<and>
     g' = g\<lparr>gp_seen := (if length (gp_seen g) < gp_max_seen g then gp_seen g else tl (gp_seen g))
                      @ [\<lparr>seen_id = mid, seen_time = now\<rparr>]\<rparr>"
  by (auto simp: mark_as_seen_def split: list.split)

section \<open>Runs\<close>

text \<open>The operations that change a configured protocol object, with the clock readings and random
  numbers of each.\<close>

datatype gossip_op =
    Receive "nat \<Rightarrow> u32 \<Rightarrow> u32" u64 u64 GossipMessage
  | Broadcast "nat \<Rightarrow> u32 \<Rightarrow> u32" u64 GossipMessage
  | Direct NodeID GossipMessage
  | CleanupSeen u64
  | AddPeer NodeID
  | RemovePeer NodeID
  | Register GossipMessageType nat
  | Unregister GossipMessageType

fun gossip_step :: "GossipProtocol \<Rightarrow> gossip_op \<Rightarrow> (gossip_call list \<times> GossipProtocol) option" where
  "gossip_step g (Receive rnd now1 now2 m) = receive_message rnd now1 now2 m g"
| "gossip_step g (Broadcast rnd now m) = broadcast_message rnd now m g"
| "gossip_step g (Direct p m) = Some (snd (send_direct_message p m g))"
| "gossip_step g (CleanupSeen now) = Some ([], cleanup_old_seen_messages now g)"
| "gossip_step g (AddPeer p) = Some ([], add_peer p g)"
| "gossip_step g (RemovePeer p) = Some ([], remove_peer p g)"
| "gossip_step g (Register t h) = Some ([], register_handler t h g)"
| "gossip_step g (Unregister t) = Some ([], unregister_handler t g)"

fun gossip_run :: "gossip_op list \<Rightarrow> GossipProtocol \<Rightarrow> (gossip_call list \<times> GossipProtocol) option" where
  "gossip_run [] g = Some ([], g)"
| "gossip_run (x # xs) g =
     (case gossip_step g x of
        None \<Rightarrow> None
      | Some (out, g) \<Rightarrow> map_option (\<lambda>(out', g). (out @ out', g)) (gossip_run xs g))"

text \<open>The readings of the clock in the order they are made.\<close>

fun op_times :: "gossip_op \<Rightarrow> u64 list" where
  "op_times (Receive rnd now1 now2 m) = [now1, now2]"
| "op_times (Broadcast rnd now m) = [now]"
| "op_times (CleanupSeen now) = [now]"
| "op_times _ = []"

fun is_mark :: "gossip_op \<Rightarrow> bool" where
  "is_mark (Receive rnd now1 now2 m) = True"
| "is_mark (Broadcast rnd now m) = True"
| "is_mark _ = False"

definition gossip_inv :: "GossipProtocol \<Rightarrow> bool" where
  "gossip_inv g \<longleftrightarrow> distinct (gp_peers g) \<and> 0 < gp_max_seen g \<and> length (gp_seen g) \<le> gp_max_seen g"

lemma receive_message_result:
  "receive_message rnd now1 now2 m g = Some (out, g') \<Longrightarrow>
     (if should_propagate g now1 m
      then gp_seen g' = (if length (gp_seen g) < gp_max_seen g then gp_seen g else tl (gp_seen g))
             @ [\<lparr>seen_id = gm_message_id m, seen_time = now2\<rparr>]
      else gp_seen g' = gp_seen g \<and> out = []) \<and>
     gp_peers g' = gp_peers g \<and> gp_max_seen g' = gp_max_seen g \<and> gp_received g' = gp_received g + 1"
  by (auto simp: receive_message_def Let_def should_propagate_def has_seen_message_def
      case_prod_beta send_all_spec mark_as_seen_cases split: if_splits option.splits)

lemma broadcast_message_result:
  "broadcast_message rnd now m g = Some (out, g') \<Longrightarrow>
     gp_seen g' = (if length (gp_seen g) < gp_max_seen g then gp_seen g else tl (gp_seen g))
       @ [\<lparr>seen_id = gm_message_id m, seen_time = now\<rparr>] \<and>
     gp_peers g' = gp_peers g \<and> gp_max_seen g' = gp_max_seen g"
  by (auto simp: broadcast_message_def Let_def case_prod_beta send_all_spec mark_as_seen_cases
      split: option.splits)

lemma mark_defined: "gossip_inv g \<Longrightarrow> \<exists>g'. mark_as_seen mid now g = Some g'"
  by (auto simp: mark_as_seen_def gossip_inv_def split: list.split)

lemma gossip_step_defined:
  assumes "gossip_inv g"
  shows "gossip_step g x \<noteq> None"
proof (cases x)
  case (Receive rnd now1 now2 m)
  have "gossip_inv (g\<lparr>gp_received := gp_received g + 1\<rparr>)" using assms by (simp add: gossip_inv_def)
  from mark_defined [OF this, of "gm_message_id m" now2] Receive show ?thesis
    by (auto simp: receive_message_def Let_def case_prod_beta)
next
  case (Broadcast rnd now m)
  with mark_defined [OF assms, of "gm_message_id m" now] show ?thesis
    by (auto simp: broadcast_message_def Let_def case_prod_beta)
qed simp_all

lemma gossip_step_inv:
  assumes "gossip_inv g" "gossip_step g x = Some (out, g')"
  shows "gossip_inv g' \<and> gp_max_seen g' = gp_max_seen g"
proof (cases x)
  case (Receive rnd now1 now2 m)
  then show ?thesis
    using assms receive_message_result [of rnd now1 now2 m g out g']
    by (auto simp: gossip_inv_def split: if_splits)
next
  case (Broadcast rnd now m)
  then show ?thesis
    using assms broadcast_message_result [of rnd now m g out g'] by (auto simp: gossip_inv_def)
next
  case (CleanupSeen now)
  with assms show ?thesis
    by (auto simp: gossip_inv_def cleanup_old_seen_messages_def intro: le_trans [OF length_filter_le])
qed (use assms in \<open>auto simp: gossip_inv_def send_direct_message_def send_to_peer_def add_peer_def
      remove_peer_def register_handler_def unregister_handler_def split: option.splits\<close>)

text \<open>The protocol as a machine whose state is undefined once an operation is.\<close>

definition gossip_next :: "GossipProtocol option \<Rightarrow> gossip_op \<Rightarrow> GossipProtocol option" where
  "gossip_next s x = (case s of None \<Rightarrow> None | Some g \<Rightarrow> map_option snd (gossip_step g x))"

definition gossip_ok :: "nat \<Rightarrow> GossipProtocol option \<Rightarrow> bool" where
  "gossip_ok n s \<longleftrightarrow> (\<exists>g. s = Some g \<and> gossip_inv g \<and> gp_max_seen g = n)"

interpretation gm: invariant_machine gossip_next "gossip_ok n" for n
proof
  fix s x assume "gossip_ok n s"
  then obtain g where g: "s = Some g" "gossip_inv g" "gp_max_seen g = n" by (auto simp: gossip_ok_def)
  obtain out g' where "gossip_step g x = Some (out, g')"
    using gossip_step_defined [OF g(2), of x] by auto
  with gossip_step_inv [OF g(2) this] g show "gossip_ok n (gossip_next s x)"
    by (simp add: gossip_ok_def gossip_next_def)
qed

section \<open>At most once\<close>

text \<open>
  After a message with timestamp \<open>ts\<close> was marked at time \<open>t\<close>, with \<open>k\<close> marks since: its entry is
  among the last \<open>k + 1\<close>, or the clock has reached the end of its life.
\<close>

definition remembered :: "Hash256 \<Rightarrow> u64 \<Rightarrow> nat \<Rightarrow> u64 \<Rightarrow> GossipProtocol \<Rightarrow> bool" where
  "remembered mid t k c g \<longleftrightarrow> t \<le> c \<and>
     ((\<exists>xs ys. gp_seen g = xs @ \<lparr>seen_id = mid, seen_time = t\<rparr> # ys \<and> length ys \<le> k) \<or>
      unat c > unat t + 600)"

lemma remembered_mono:
  assumes "remembered mid t k c g" "c \<le> c'" "gp_seen g' = gp_seen g" "k \<le> k'"
  shows "remembered mid t k' c' g'"
proof -
  have le: "t \<le> c'" using assms(1,2) by (auto simp: remembered_def)
  show ?thesis
  proof (cases "unat c > unat t + 600")
    case True
    with assms(2) le show ?thesis by (simp add: remembered_def word_le_nat_alt)
  next
    case False
    with assms(1) obtain xs ys where
      "gp_seen g = xs @ \<lparr>seen_id = mid, seen_time = t\<rparr> # ys" "length ys \<le> k"
      by (auto simp: remembered_def)
    with assms(3,4) le show ?thesis by (auto simp: remembered_def intro: le_trans)
  qed
qed

lemma remembered_mark:
  assumes "remembered mid t k c g" "c \<le> c'" "Suc k < gp_max_seen g"
    and "gp_seen g' = (if length (gp_seen g) < gp_max_seen g then gp_seen g else tl (gp_seen g)) @ [e]"
  shows "remembered mid t (Suc k) c' g'"
proof (cases "unat c > unat t + 600")
  case True
  with assms(1,2) show ?thesis by (auto simp: remembered_def word_le_nat_alt)
next
  case False
  have le: "t \<le> c'" using assms(1,2) by (auto simp: remembered_def)
  from False assms(1) obtain xs ys where
    s: "gp_seen g = xs @ \<lparr>seen_id = mid, seen_time = t\<rparr> # ys" "length ys \<le> k"
    by (auto simp: remembered_def)
  show ?thesis
  proof (cases "length (gp_seen g) < gp_max_seen g")
    case True
    with s assms(4) have "gp_seen g' = xs @ \<lparr>seen_id = mid, seen_time = t\<rparr> # (ys @ [e])" by simp
    moreover have "length (ys @ [e]) \<le> Suc k" using s(2) by simp
    ultimately show ?thesis using le unfolding remembered_def by blast
  next
    case full: False
    with s assms(3) have "xs \<noteq> []" by auto
    then obtain x xs' where "xs = x # xs'" by (cases xs) auto
    with s assms(4) full have "gp_seen g' = xs' @ \<lparr>seen_id = mid, seen_time = t\<rparr> # (ys @ [e])" by simp
    moreover have "length (ys @ [e]) \<le> Suc k" using s(2) by simp
    ultimately show ?thesis using le unfolding remembered_def by blast
  qed
qed

lemma remembered_cleanup:
  assumes "remembered mid t k c g" "c \<le> now"
  shows "remembered mid t k now (cleanup_old_seen_messages now g)"
proof (cases "unat now > unat t + 600")
  case True
  with assms show ?thesis by (auto simp: remembered_def)
next
  case False
  have le: "t \<le> now" using assms by (auto simp: remembered_def)
  have "\<not> unat c > unat t + 600" using False assms(2) by (simp add: word_le_nat_alt)
  with assms(1) obtain xs ys where
    s: "gp_seen g = xs @ \<lparr>seen_id = mid, seen_time = t\<rparr> # ys" "length ys \<le> k"
    by (auto simp: remembered_def)
  let ?P = "\<lambda>x. \<not> now - seen_time x > SEEN_MESSAGE_TTL_SECONDS"
  have "unat (now - t) = unat now - unat t" using le by (simp add: unat_sub)
  then have "?P \<lparr>seen_id = mid, seen_time = t\<rparr>"
    using False by (simp add: SEEN_MESSAGE_TTL_SECONDS_def word_less_nat_alt)
  with s have "gp_seen (cleanup_old_seen_messages now g) =
      filter ?P xs @ \<lparr>seen_id = mid, seen_time = t\<rparr> # filter ?P ys"
    by (simp add: cleanup_old_seen_messages_def)
  moreover have "length (filter ?P ys) \<le> k" using s(2) by (meson le_trans length_filter_le)
  ultimately show ?thesis using le unfolding remembered_def by blast
qed

lemma remembered_step:
  assumes "gossip_inv g" "remembered mid t k c g" "gossip_step g x = Some (out, g')"
    and "sorted (c # op_times x @ [c'])" "Suc k < gp_max_seen g \<or> \<not> is_mark x"
  shows "remembered mid t (if is_mark x then Suc k else k) c' g'"
proof (cases x)
  case (Receive rnd now1 now2 m)
  have c: "c \<le> c'" using assms(4) Receive by auto
  show ?thesis
    using receive_message_result [of rnd now1 now2 m g out g'] assms(3,5) Receive
      remembered_mark [OF assms(2) c] remembered_mono [OF assms(2) c, of g' "Suc k"]
    by (auto split: if_splits)
next
  case (Broadcast rnd now m)
  have c: "c \<le> c'" using assms(4) Broadcast by auto
  show ?thesis
    using broadcast_message_result [of rnd now m g out g'] assms(3,5) Broadcast
      remembered_mark [OF assms(2) c] by auto
next
  case (CleanupSeen now)
  have "c \<le> now" "now \<le> c'" using assms(4) CleanupSeen by auto
  from remembered_mono [OF remembered_cleanup [OF assms(2) this(1)] this(2), of g' k] show ?thesis
    using assms(3) CleanupSeen by simp
qed (use assms(3,4) remembered_mono [OF assms(2), of c' g' k] in
      \<open>auto simp: send_direct_message_def send_to_peer_def add_peer_def remove_peer_def
        register_handler_def unregister_handler_def split: option.splits if_splits\<close>)

lemma remembered_run:
  assumes "gossip_inv g" "remembered mid t k c g" "gossip_run xs g = Some (out, g')"
    and "sorted (c # concat (map op_times xs) @ [c'])"
    and "k + length (filter is_mark xs) < gp_max_seen g"
  shows "remembered mid t (k + length (filter is_mark xs)) c' g' \<and> gossip_inv g'"
  using assms
proof (induction xs arbitrary: g k c out)
  case Nil
  then show ?case using remembered_mono [of mid t k c g c' g' k] by auto
next
  case (Cons x xs)
  obtain o1 g1 o2 where step: "gossip_step g x = Some (o1, g1)" and run: "gossip_run xs g1 = Some (o2, g')"
    using Cons.prems(3) by (auto split: option.splits)
  note inv = gossip_step_inv [OF Cons.prems(1) step]
  let ?c = "last (c # op_times x)"
  have srt: "sorted (c # op_times x @ [?c])" "sorted (?c # concat (map op_times xs) @ [c'])"
    using Cons.prems(4) by (cases x; simp)+
  have "remembered mid t (if is_mark x then Suc k else k) ?c g1"
    by (rule remembered_step [OF Cons.prems(1,2) step srt(1)]) (use Cons.prems(5) in auto)
  from Cons.IH [OF conjunct1 [OF inv] this run srt(2)] Cons.prems(5) inv show ?case
    by (cases "is_mark x") auto
qed

lemma accepted_age:
  assumes "\<not> is_too_old m t" "300 \<le> t"
  shows "gm_timestamp m \<le> t \<and> unat t \<le> unat (gm_timestamp m) + 300"
proof -
  have age: "unat (t - gm_timestamp m) \<le> 300"
    using assms(1) by (simp add: is_too_old_def MAX_AGE_SECONDS_def not_less word_le_nat_alt)
  have "gm_timestamp m \<le> t"
  proof (rule ccontr)
    assume "\<not> gm_timestamp m \<le> t"
    then have lt: "t < gm_timestamp m" by simp
    have "unat (t - gm_timestamp m) = unat t + 2 ^ 64 - unat (gm_timestamp m)"
      using lt by (simp add: unat_sub_if' word_less_nat_alt)
    moreover have "unat (gm_timestamp m) < 2 ^ 64" using unsigned_less [of "gm_timestamp m"] by simp
    moreover have "300 \<le> unat t" using assms(2) by (simp add: word_le_nat_alt)
    ultimately show False using age lt by (simp add: word_less_nat_alt)
  qed
  with age show ?thesis by (simp add: unat_sub word_le_nat_alt)
qed

lemma remembered_blocks:
  assumes "remembered (gm_message_id m) t k now g" "gm_timestamp m \<le> t"
  shows "\<not> should_propagate g now m"
proof (cases "unat now > unat t + 600")
  case True
  have "gm_timestamp m \<le> now" using assms by (auto simp: remembered_def)
  then have "unat (now - gm_timestamp m) = unat now - unat (gm_timestamp m)" by (simp add: unat_sub)
  then have "is_too_old m now"
    using True assms(2) by (simp add: is_too_old_def MAX_AGE_SECONDS_def word_less_nat_alt word_le_nat_alt)
  then show ?thesis by (simp add: should_propagate_def)
next
  case False
  with assms(1) have "has_seen_message g (gm_message_id m)"
    by (auto simp: remembered_def has_seen_message_def)
  then show ?thesis by (simp add: should_propagate_def)
qed

lemma accepted_hops:
  assumes "should_propagate g now m"
  shows "unat (gm_hop_count m + 1) = unat (gm_hop_count m) + 1 \<and> unat (gm_hop_count m + 1) \<le> 10"
proof -
  have "gm_hop_count m < 10"
    using assms by (simp add: should_propagate_def has_exceeded_hops_def MAX_HOPS_def split: if_splits)
  then have "unat (gm_hop_count m) < 10" by (simp add: word_less_nat_alt)
  then show ?thesis by (simp add: unat_word_ariths)
qed

section \<open>Properties\<close>

text \<open>
  C8: A message is delivered at most once. Once a node accepted a message, then after any
  sequence of operations with a clock that does not run backwards, in which fewer messages
  are marked than the cache holds, receiving the same message again changes nothing but the
  counter of received messages: no handler runs and nothing is forwarded. The time to live of
  the cache (600 s) outlasts the maximal age of a message (300 s), so neither a cleanup nor
  the passing of time makes the node accept it again.
\<close>

theorem gossip_delivers_once:
  assumes inv: "gossip_inv g" and accepted: "should_propagate g t1 m"
    and first: "receive_message rnd t1 t2 m g = Some (out, g1)"
    and run: "gossip_run ops g1 = Some (outs, g2)"
    and clock: "300 \<le> t1" "sorted (t1 # t2 # concat (map op_times ops) @ [now])"
    and room: "length (filter is_mark ops) < gp_max_seen g"
  shows "receive_message rnd' now later (m\<lparr>gm_hop_count := h\<rparr>) g2 =
    Some ([], g2\<lparr>gp_received := gp_received g2 + 1\<rparr>)"
proof -
  let ?m = "m\<lparr>gm_hop_count := h\<rparr>"
  have age: "gm_timestamp m \<le> t1"
    using accepted_age [OF _ clock(1)] accepted by (auto simp: should_propagate_def split: if_splits)
  then have "gm_timestamp m \<le> t2" using clock(2) by auto
  have g1: "gossip_inv g1" "gp_max_seen g1 = gp_max_seen g"
    using gossip_step_inv [OF inv, of "Receive rnd t1 t2 m"] first by auto
  have "remembered (gm_message_id m) t2 0 t2 g1"
    using receive_message_result [OF first] accepted by (simp add: remembered_def)
  from remembered_run [OF g1(1) this run] clock(2) room g1(2)
  have "remembered (gm_message_id m) t2 (length (filter is_mark ops)) now g2" by simp
  then have "remembered (gm_message_id ?m) t2 (length (filter is_mark ops)) now g2" by simp
  from remembered_blocks [OF this] have "\<not> should_propagate g2 now ?m"
    using \<open>gm_timestamp m \<le> t2\<close> by simp
  then show ?thesis
    by (simp add: receive_message_def should_propagate_def has_seen_message_def)
qed

definition sample_message :: GossipMessage where
  "sample_message = \<lparr>gm_type = NETWORK_STATE_UPDATE, gm_message_id = replicate 32 5, gm_payload = [1, 2],
     gm_timestamp = 1000, gm_hop_count = 0\<rparr>"

definition sample_protocol :: GossipProtocol where
  "sample_protocol = (GossipProtocol_init (NodeID (replicate 32 1)))
     \<lparr>gp_peers := [NodeID (replicate 32 2), NodeID (replicate 32 3)], gp_handlers := [(NETWORK_STATE_UPDATE, 7)],
      gp_send := Some (\<lambda>p m. True)\<rparr>"

definition first_of :: "nat \<Rightarrow> u32 \<Rightarrow> u32" where
  "first_of i u = 0"

lemma first_of_ok [simp]: "uniform_ok first_of"
  by (simp add: uniform_ok_def first_of_def word_neq_0_conv)

lemma sample_protocol_inv [simp]: "gossip_inv sample_protocol"
  by (simp add: gossip_inv_def sample_protocol_def GossipProtocol_init_def DEFAULT_MAX_SEEN_def)

lemma sample_accepted: "should_propagate sample_protocol 1000 sample_message"
  by (simp add: should_propagate_def has_seen_message_def sample_protocol_def GossipProtocol_init_def
      is_too_old_def sample_message_def MAX_AGE_SECONDS_def has_exceeded_hops_def MAX_HOPS_def)

theorem gossip_delivers_once_witness:
  "\<exists>out g1. receive_message first_of 1000 1000 sample_message sample_protocol = Some (out, g1) \<and>
     receive_message first_of 2000 2000 (sample_message\<lparr>gm_hop_count := 3\<rparr>) (cleanup_old_seen_messages 1900 g1) =
       Some ([], (cleanup_old_seen_messages 1900 g1)
         \<lparr>gp_received := gp_received (cleanup_old_seen_messages 1900 g1) + 1\<rparr>)"
proof -
  obtain out g1 where first: "receive_message first_of 1000 1000 sample_message sample_protocol = Some (out, g1)"
    using gossip_step_defined [OF sample_protocol_inv, of "Receive first_of 1000 1000 sample_message"] by auto
  have "gossip_run [CleanupSeen 1900] g1 = Some ([], cleanup_old_seen_messages 1900 g1)" by simp
  from gossip_delivers_once [OF sample_protocol_inv sample_accepted first this, of 2000 first_of 2000 3]
  show ?thesis using first by (simp add: sample_protocol_def GossipProtocol_init_def DEFAULT_MAX_SEEN_def)
qed

text \<open>
  A protocol object with room for at least one message stays well defined under every
  sequence of operations: no operation erases from an empty cache, the cache never holds more
  messages than configured, and no peer is listed twice.
\<close>

theorem gossip_cache_bounded:
  assumes "0 < n"
  shows "\<exists>g. foldl gossip_next (Some (set_max_seen_messages n (GossipProtocol_init me))) ops = Some g \<and>
    length (gp_seen g) \<le> n \<and> distinct (gp_peers g)"
proof -
  have "gossip_ok n (Some (set_max_seen_messages n (GossipProtocol_init me)))"
    using assms by (simp add: gossip_ok_def gossip_inv_def set_max_seen_messages_def GossipProtocol_init_def)
  from gm.run_inv [OF this, of ops] show ?thesis by (auto simp: gossip_ok_def gossip_inv_def)
qed

theorem gossip_cache_bounded_witness:
  "\<exists>g. foldl gossip_next (Some (set_max_seen_messages 1 (GossipProtocol_init (NodeID zero_hash))))
      [Broadcast first_of 5 sample_message, AddPeer (NodeID zero_hash)] = Some g \<and>
    length (gp_seen g) \<le> 1 \<and> distinct (gp_peers g)"
  by (rule gossip_cache_bounded) simp

text \<open>With a cache of size zero the first message makes the code erase from an empty vector.\<close>

theorem zero_cache_undefined:
  "broadcast_message rnd now m (set_max_seen_messages 0 (GossipProtocol_init me)) = None"
  by (simp add: broadcast_message_def mark_as_seen_def set_max_seen_messages_def GossipProtocol_init_def)

text \<open>
  What receiving an acceptable message does: every handler registered for its type runs on
  the message, in registration order, and then the message goes, with its hop count raised by
  one and at most ten, to \<open>min fanout peers\<close> different peers.
\<close>

theorem receive_message_effect:
  assumes "gossip_inv g" "uniform_ok rnd" "should_propagate g now1 m"
  shows "\<exists>ps g'. receive_message rnd now1 now2 m g =
      Some (map (\<lambda>p. Handler (snd p) m) (filter (\<lambda>p. fst p = gm_type m) (gp_handlers g)) @
        (if gp_send g = None then [] else map (\<lambda>p. SendCallback p (m\<lparr>gm_hop_count := gm_hop_count m + 1\<rparr>)) ps), g')
    \<and> distinct ps \<and> set ps \<subseteq> set (gp_peers g) \<and> length ps = min (gp_fanout g) (length (gp_peers g))
    \<and> unat (gm_hop_count m + 1) = unat (gm_hop_count m) + 1 \<and> unat (gm_hop_count m + 1) \<le> 10"
proof -
  let ?g = "g\<lparr>gp_received := gp_received g + 1\<rparr>"
  have "gossip_inv ?g" using assms(1) by (simp add: gossip_inv_def)
  from mark_defined [OF this] obtain g1 where g1: "mark_as_seen (gm_message_id m) now2 ?g = Some g1" by blast
  then have same: "gp_peers g1 = gp_peers g" "gp_fanout g1 = gp_fanout g" "gp_handlers g1 = gp_handlers g"
    "gp_send g1 = gp_send g"
    by (auto simp: mark_as_seen_cases)
  let ?ps = "get_random_peers rnd g1 (gp_fanout g1)"
  have ps: "distinct ?ps \<and> length ?ps = min (gp_fanout g) (length (gp_peers g)) \<and> set ?ps \<subseteq> set (gp_peers g)"
    using get_random_peers_spec [OF assms(2), of g1 "gp_fanout g1"] assms(1) same by (simp add: gossip_inv_def)
  have "should_propagate ?g now1 m" using assms(3) by (simp add: should_propagate_def has_seen_message_def)
  then have r: "receive_message rnd now1 now2 m g =
      Some (invoke_handlers g1 m @ fst (send_all ?ps (m\<lparr>gm_hop_count := gm_hop_count m + 1\<rparr>) g1),
        snd (send_all ?ps (m\<lparr>gm_hop_count := gm_hop_count m + 1\<rparr>) g1))"
    using g1 by (simp add: receive_message_def Let_def case_prod_beta)
  with ps same accepted_hops [OF assms(3)] show ?thesis
    by (intro exI [of _ ?ps] exI [of _ "snd (send_all ?ps (m\<lparr>gm_hop_count := gm_hop_count m + 1\<rparr>) g1)"])
      (simp add: invoke_handlers_def send_all_spec case_prod_beta)
qed

theorem receive_message_effect_witness:
  "\<exists>ps g'. receive_message first_of 1000 1000 sample_message sample_protocol =
      Some (Handler 7 sample_message # map (\<lambda>p. SendCallback p (sample_message\<lparr>gm_hop_count := 1\<rparr>)) ps, g')
    \<and> distinct ps \<and> length ps = 2"
  using receive_message_effect [OF sample_protocol_inv first_of_ok sample_accepted, of 1000]
  by (auto simp: sample_protocol_def GossipProtocol_init_def DEFAULT_FANOUT_def sample_message_def)

text \<open>One node receives \<open>m\<close> and hands \<open>m'\<close> to a peer.\<close>

inductive forwards :: "GossipMessage \<Rightarrow> GossipMessage \<Rightarrow> bool" where
  "gossip_inv g \<Longrightarrow> uniform_ok rnd \<Longrightarrow> receive_message rnd now1 now2 m g = Some (out, g') \<Longrightarrow>
   SendCallback p m' \<in> set out \<Longrightarrow> forwards m m'"

inductive_cases forwardsE: "forwards m m'"

lemma forwards_hops: "forwards m m' \<Longrightarrow> m' = m\<lparr>gm_hop_count := gm_hop_count m + 1\<rparr> \<and>
    unat (gm_hop_count m') = Suc (unat (gm_hop_count m)) \<and> unat (gm_hop_count m') \<le> 10"
proof (erule forwardsE)
  fix g rnd now1 now2 out g' p
  assume a: "gossip_inv g" "uniform_ok rnd" "receive_message rnd now1 now2 m g = Some (out, g')"
    "SendCallback p m' \<in> set out"
  have acc: "should_propagate g now1 m"
    using receive_message_result [OF a(3)] a(4) by (auto split: if_splits)
  have "m' = m\<lparr>gm_hop_count := gm_hop_count m + 1\<rparr>"
    using a(3,4) acc
    by (auto simp: receive_message_def Let_def case_prod_beta invoke_handlers_def send_all_spec
        should_propagate_def has_seen_message_def split: if_splits option.splits)
  with accepted_hops [OF acc] show ?thesis by simp
qed

text \<open>
  C22: Flooding ends: however the nodes of a network are connected and whatever their state, a
  message is forwarded along at most ten hops, and it arrives with the payload, identifier and
  timestamp it started with.
\<close>

theorem flooding_ends:
  assumes "(forwards ^^ n) m m'"
  shows "n \<le> 10 \<and> m' = m\<lparr>gm_hop_count := gm_hop_count m'\<rparr> \<and>
    unat (gm_hop_count m') = unat (gm_hop_count m) + n"
proof -
  have "m' = m\<lparr>gm_hop_count := gm_hop_count m'\<rparr> \<and> unat (gm_hop_count m') = unat (gm_hop_count m) + n \<and>
      (0 < n \<longrightarrow> unat (gm_hop_count m') \<le> 10)"
    using assms
  proof (induction n arbitrary: m')
    case (Suc n)
    then obtain k where k: "(forwards ^^ n) m k" "forwards k m'" by auto
    from Suc.IH [OF k(1)] forwards_hops [OF k(2)] show ?case
      by (cases m; cases k; cases m') simp
  qed simp
  then show ?thesis by (cases n) auto
qed

theorem flooding_ends_witness:
  "\<exists>m'. forwards sample_message m' \<and> unat (gm_hop_count m') = unat (gm_hop_count sample_message) + 1"
proof -
  obtain ps g' where r: "receive_message first_of 1000 1000 sample_message sample_protocol =
      Some (Handler 7 sample_message # map (\<lambda>p. SendCallback p (sample_message\<lparr>gm_hop_count := 1\<rparr>)) ps, g')"
    and ps: "length ps = 2"
    using receive_message_effect [OF sample_protocol_inv first_of_ok sample_accepted, of 1000]
    by (auto simp: sample_protocol_def GossipProtocol_init_def DEFAULT_FANOUT_def sample_message_def)
  have "forwards sample_message (sample_message\<lparr>gm_hop_count := 1\<rparr>)"
    by (rule forwards.intros [OF sample_protocol_inv first_of_ok r, of "hd ps"]) (use ps in \<open>cases ps; simp\<close>)
  moreover from this have "(forwards ^^ 1) sample_message (sample_message\<lparr>gm_hop_count := 1\<rparr>)" by auto
  from flooding_ends [OF this] have "unat (gm_hop_count (sample_message\<lparr>gm_hop_count := 1\<rparr>)) =
      unat (gm_hop_count sample_message) + 1" by blast
  ultimately show ?thesis by blast
qed

text \<open>
  The gossip encodings round trip, also when bytes follow: capabilities, peer and content
  announcements, network state updates and message envelopes decode to what was encoded.
\<close>

theorem gossip_roundtrips:
  "NodeCapabilities_from_bytes (NodeCapabilities_to_bytes c @ rest) = Some c \<and>
   (wf_PeerAnnouncement a \<longrightarrow> PeerAnnouncement_from_bytes (PeerAnnouncement_to_bytes a @ rest) = Some a) \<and>
   (wf_ContentAnnouncement b \<longrightarrow>
      ContentAnnouncement_from_bytes (ContentAnnouncement_to_bytes b @ rest) = Inr b) \<and>
   (wf_NetworkStateUpdate u \<longrightarrow>
      NetworkStateUpdate_from_bytes (NetworkStateUpdate_to_bytes u @ rest) = Inr u) \<and>
   (wf_GossipMessage m \<longrightarrow> GossipMessage_from_bytes (GossipMessage_to_bytes m @ rest) = Inr m)"
  by (simp add: NodeCapabilities_codec PeerAnnouncement_codec ContentAnnouncement_codec
      NetworkStateUpdate_codec GossipMessage_codec)

theorem gossip_roundtrips_witness:
  "GossipMessage_from_bytes (GossipMessage_to_bytes sample_message @ [9]) = Inr sample_message"
  using gossip_roundtrips [of NodeCapabilities_new "[9]" undefined undefined undefined sample_message]
  by (simp add: wf_GossipMessage_def sample_message_def)

text \<open>
  The size checks of two decoders are too weak: the envelope decoder reads past the end of the
  data exactly when the payload fits but the nine bytes of timestamp and hop count after it do
  not, and the decoder of content announcements exactly when the announcement has a network
  identifier and fewer than 177 bytes.
\<close>

theorem gossip_reads_past_end:
  "(GossipMessage_from_bytes data = Inl ReadPastEnd \<longleftrightarrow>
      46 \<le> length data \<and> 37 + unat (le_word (slice 33 4 data) :: u32) \<le> length data \<and>
      length data < 46 + unat (le_word (slice 33 4 data) :: u32)) \<and>
   (ContentAnnouncement_from_bytes data = Inl ReadPastEnd \<longleftrightarrow>
      145 \<le> length data \<and> length data < 177 \<and> data ! 72 = 1)"
proof
  let ?p = "unat (le_word (slice 33 4 data) :: u32)"
  have p: "take 4 (drop 33 data) = slice 33 4 data" by (simp add: slice_def)
  show "GossipMessage_from_bytes data = Inl ReadPastEnd \<longleftrightarrow>
      46 \<le> length data \<and> 37 + ?p \<le> length data \<and> length data < 46 + ?p"
    by (auto simp: GossipMessage_from_bytes_def need_def p drop_drop)
  have one: "take 1 (drop 72 data) = [data ! 72]" if "145 \<le> length data"
    using that by (simp add: take_Suc hd_drop_conv_nth)
  show "ContentAnnouncement_from_bytes data = Inl ReadPastEnd \<longleftrightarrow>
      145 \<le> length data \<and> length data < 177 \<and> data ! 72 = 1"
    using one by (auto simp: ContentAnnouncement_from_bytes_def need_def drop_drop)
qed

text \<open>A message of 46 bytes whose payload size is 9 makes the decoder read past its end.\<close>

theorem short_message_reads_past_end:
  "GossipMessage_from_bytes (replicate 33 0 @ [9, 0, 0, 0] @ replicate 9 0) = Inl ReadPastEnd"
proof -
  have "(le_word [9, 0, 0, 0] :: u32) = 9" by (simp add: le_word_def)
  then show ?thesis by (simp add: GossipMessage_from_bytes_def need_def)
qed

text \<open>
  A broadcast counts what it sends twice: the counter of sent messages grows by the number of
  chosen peers on top of one for every successful send.
\<close>

theorem broadcast_counts_twice:
  assumes "broadcast_message rnd now m g = Some (out, g')" "gp_send g = None"
    and "uniform_ok rnd" "distinct (gp_peers g)"
  shows "gp_sent g' = gp_sent g + 2 * word_of_nat (min (gp_fanout g) (length (gp_peers g)))"
proof -
  obtain g1 where g1: "mark_as_seen (gm_message_id m) now g = Some g1"
    using assms(1) by (auto simp: broadcast_message_def split: option.splits)
  then have same: "gp_peers g1 = gp_peers g" "gp_fanout g1 = gp_fanout g" "gp_send g1 = None" "gp_sent g1 = gp_sent g"
    using assms(2) by (auto simp: mark_as_seen_cases)
  have "length (get_random_peers rnd g1 (gp_fanout g)) = min (gp_fanout g) (length (gp_peers g))"
    using get_random_peers_spec [OF assms(3), of g1 "gp_fanout g"] assms(4) same by simp
  with assms(1) g1 same show ?thesis
    by (auto simp: broadcast_message_def Let_def case_prod_beta send_all_spec)
qed

text \<open>A message stamped by a clock that runs ahead of the receiver's is dropped as too old.\<close>

theorem future_message_dropped:
  assumes "now < gm_timestamp m" "300 \<le> now"
  shows "\<not> should_propagate g now m"
  using accepted_age [of m now] assms by (auto simp: should_propagate_def)

end
