(* ===== verification/Ledger_Sync.thy ===== *)
theory Ledger_Sync
  imports State Gossip
begin

text \<open>
  Synchronisation of ledgers over gossip, \<open>src/network/ledger_sync.cpp\<close>: the sync messages and
  their encoding, the bridge between the ledger, the state manager and the gossip protocol, and
  its scheduler.

  The bridge holds references to the three objects; \<open>SyncWorld\<close> is the bridge with the objects
  it refers to. An operation returns the calls it makes through the gossip protocol and the new
  world, or \<open>None\<close> where the gossip protocol is undefined. \<open>sync_env\<close> and \<open>event_clock\<close> have a
  field for every reading of the clock, in the order the code makes them. A peer's
  \<open>SyncState\<close> that is created by \<open>operator[]\<close> is filled at once, so no field of it is read
  before it is set.
\<close>

section \<open>Messages\<close>

type_synonym SyncType = u8

definition EVENT_BROADCAST :: SyncType where "EVENT_BROADCAST = 0"
definition SYNC_REQUEST :: SyncType where "SYNC_REQUEST = 1"
definition SYNC_RESPONSE :: SyncType where "SYNC_RESPONSE = 2"
definition CHECKPOINT :: SyncType where "CHECKPOINT = 3"

lemmas sync_type_defs = EVENT_BROADCAST_def SYNC_REQUEST_def SYNC_RESPONSE_def CHECKPOINT_def

record LedgerSyncMessage =
  sy_type :: SyncType
  sy_events :: "LedgerEvent list"
  sy_start_epoch :: u64
  sy_end_epoch :: u64
  sy_ledger_hash :: Hash256

definition sync_event_bytes :: "LedgerEvent \<Rightarrow> bytes" where
  "sync_event_bytes e =
     (let raw = LedgerEvent_to_bytes e
      in le_bytes 4 (word_of_nat (length raw) :: u32) @ raw)"

definition LedgerSyncMessage_serialize :: "LedgerSyncMessage \<Rightarrow> bytes" where
  "LedgerSyncMessage_serialize m =
     [sy_type m] @ le_bytes 8 (sy_start_epoch m) @ le_bytes 8 (sy_end_epoch m) @ sy_ledger_hash m
     @ le_bytes 4 (word_of_nat (length (sy_events m)) :: u32)
     @ concat (map sync_event_bytes (sy_events m))"

fun sync_events_loop :: "nat \<Rightarrow> bytes \<Rightarrow> LedgerEvent list option" where
  "sync_events_loop 0 data = Some []"
| "sync_events_loop (Suc n) data =
     (case read_scalar 4 data of None \<Rightarrow> None | Some (event_size :: u32, data) \<Rightarrow>
     (case read_blob (unat event_size) data of None \<Rightarrow> None | Some (raw, data) \<Rightarrow>
     (case LedgerEvent_from_bytes raw of None \<Rightarrow> None | Some e \<Rightarrow>
        map_option (\<lambda>es. e # es) (sync_events_loop n data))))"

definition LedgerSyncMessage_deserialize :: "bytes \<Rightarrow> LedgerSyncMessage option" where
  "LedgerSyncMessage_deserialize data =
     (if length data < 57 then None
      else let event_count = (le_word (slice 49 4 data) :: u32) in
        case sync_events_loop (unat event_count) (drop 53 data) of
          None \<Rightarrow> None
        | Some es \<Rightarrow> Some \<lparr>sy_type = data ! 0, sy_events = es, sy_start_epoch = le_word (slice 1 8 data),
            sy_end_epoch = le_word (slice 9 8 data), sy_ledger_hash = slice 17 32 data\<rparr>)"

section \<open>The bridge\<close>

record SyncState =
  ss_peer_id :: NodeID
  ss_last_synced_epoch :: u64
  ss_last_known_hash :: Hash256
  ss_last_sync_time :: u64
  ss_sync_in_progress :: bool

record LedgerGossipBridge =
  br_peers :: "(NodeID \<times> SyncState) list"
  br_seen :: "Hash256 list"
  br_events_received :: u64
  br_events_sent :: u64
  br_sync_requests :: u64

record SyncWorld =
  sw_ledger :: Ledger
  sw_state :: StateManager
  sw_gossip :: GossipProtocol
  sw_bridge :: LedgerGossipBridge

record sync_env =
  se_hash :: "bytes \<Rightarrow> Hash256"
  se_rnd :: "nat \<Rightarrow> u32 \<Rightarrow> u32"
  se_epoch :: u64
  se_now :: u64
  se_mark :: u64

record event_clock =
  ec_now :: u64
  ec_epoch :: u64
  ec_chain :: u64
  ec_ledger :: clock

definition LedgerGossipBridge_init :: LedgerGossipBridge where
  "LedgerGossipBridge_init = \<lparr>br_peers = [], br_seen = [], br_events_received = 0, br_events_sent = 0,
     br_sync_requests = 0\<rparr>"

definition sync_gossip :: "Hash256 \<Rightarrow> bytes \<Rightarrow> u64 \<Rightarrow> GossipMessage" where
  "sync_gossip mid serialized now = \<lparr>gm_type = NETWORK_STATE_UPDATE, gm_message_id = mid,
     gm_payload = serialized, gm_timestamp = now, gm_hop_count = 0\<rparr>"

definition broadcast_event ::
  "sync_env \<Rightarrow> LedgerEvent \<Rightarrow> SyncWorld \<Rightarrow> (gossip_call list \<times> SyncWorld) option" where
  "broadcast_event env e w =
     (let msg = \<lparr>sy_type = EVENT_BROADCAST, sy_events = [e], sy_start_epoch = event_epoch e,
                 sy_end_epoch = event_epoch e, sy_ledger_hash = get_latest_hash (sw_ledger w)\<rparr>;
          gmsg = sync_gossip (event_id e) (LedgerSyncMessage_serialize msg) (se_now env)
      in case broadcast_message (se_rnd env) (se_mark env) gmsg (sw_gossip w) of
           None \<Rightarrow> None
         | Some (out, g) \<Rightarrow> Some (out, w\<lparr>sw_gossip := g,
             sw_bridge := (sw_bridge w)\<lparr>br_events_sent := br_events_sent (sw_bridge w) + 1\<rparr>\<rparr>))"

definition broadcast_checkpoint ::
  "sync_env \<Rightarrow> u64 \<Rightarrow> SyncWorld \<Rightarrow> (gossip_call list \<times> SyncWorld) option" where
  "broadcast_checkpoint env epoch w =
     (let msg = \<lparr>sy_type = CHECKPOINT, sy_events = [], sy_start_epoch = epoch, sy_end_epoch = epoch,
                 sy_ledger_hash = get_latest_hash (sw_ledger w)\<rparr>;
          gmsg = sync_gossip (sy_ledger_hash msg) (LedgerSyncMessage_serialize msg) (se_now env)
      in case broadcast_message (se_rnd env) (se_mark env) gmsg (sw_gossip w) of
           None \<Rightarrow> None
         | Some (out, g) \<Rightarrow> Some (out, w\<lparr>sw_gossip := g\<rparr>))"

text \<open>The bytes of the two epochs alternate in the data that gives a request its identifier.\<close>

definition request_id_data :: "u64 \<Rightarrow> u64 \<Rightarrow> bytes" where
  "request_id_data start_epoch end_epoch =
     concat (map (\<lambda>i. [ucast (drop_bit (8 * i) start_epoch), ucast (drop_bit (8 * i) end_epoch)]) [0..<8])"

definition request_sync ::
  "sync_env \<Rightarrow> NodeID \<Rightarrow> u64 \<Rightarrow> u64 \<Rightarrow> SyncWorld \<Rightarrow> gossip_call list \<times> SyncWorld" where
  "request_sync env peer start_epoch end_epoch w =
     (let msg = \<lparr>sy_type = SYNC_REQUEST, sy_events = [], sy_start_epoch = start_epoch,
                 sy_end_epoch = end_epoch, sy_ledger_hash = get_latest_hash (sw_ledger w)\<rparr>;
          gmsg = sync_gossip (se_hash env (request_id_data start_epoch end_epoch))
                   (LedgerSyncMessage_serialize msg) (se_now env);
          (_, out, g) = send_direct_message peer gmsg (sw_gossip w)
      in (out, w\<lparr>sw_gossip := g,
            sw_bridge := (sw_bridge w)\<lparr>br_sync_requests := br_sync_requests (sw_bridge w) + 1\<rparr>\<rparr>))"

definition sync_response :: "u64 \<Rightarrow> u64 \<Rightarrow> Ledger \<Rightarrow> LedgerSyncMessage" where
  "sync_response start_epoch end_epoch L =
     \<lparr>sy_type = SYNC_RESPONSE,
      sy_events = filter (\<lambda>e. event_epoch e \<ge> start_epoch \<and> event_epoch e \<le> end_epoch) (get_all_events L),
      sy_start_epoch = start_epoch, sy_end_epoch = end_epoch, sy_ledger_hash = get_latest_hash L\<rparr>"

definition handle_sync_request ::
  "sync_env \<Rightarrow> NodeID \<Rightarrow> u64 \<Rightarrow> u64 \<Rightarrow> SyncWorld \<Rightarrow> gossip_call list \<times> SyncWorld" where
  "handle_sync_request env peer start_epoch end_epoch w =
     (let serialized = LedgerSyncMessage_serialize (sync_response start_epoch end_epoch (sw_ledger w));
          gmsg = sync_gossip (se_hash env serialized) serialized (se_now env);
          (_, out, g) = send_direct_message peer gmsg (sw_gossip w)
      in (out, w\<lparr>sw_gossip := g\<rparr>))"

definition validate_event_chain ::
  "(bytes \<Rightarrow> Hash256) \<Rightarrow> event_clock \<Rightarrow> Ledger \<Rightarrow> LedgerEvent \<Rightarrow> bool" where
  "validate_event_chain H c L e =
     (if event_timestamp e > ec_now c + 5 * 60 then False
      else if node_bytes (source_node e) = zero_hash then False
      else if event_epoch e > current_epoch (ec_epoch c) then True
      else verify_event_chain H (ec_chain c) L e)"

definition process_received_event ::
  "(bytes \<Rightarrow> Hash256) \<Rightarrow> event_clock \<Rightarrow> LedgerEvent \<Rightarrow> SyncWorld \<Rightarrow> SyncWorld" where
  "process_received_event H c e w =
     (if event_id e \<in> set (br_seen (sw_bridge w)) then w
      else if \<not> validate_event_chain H c (sw_ledger w) e then w
      else case add_external_event H (ec_ledger c) e (sw_ledger w) of
             (False, L) \<Rightarrow> w\<lparr>sw_ledger := L\<rparr>
           | (True, L) \<Rightarrow> w\<lparr>sw_ledger := L,
               sw_bridge := (sw_bridge w)\<lparr>br_seen := oset_insert (event_id e) (br_seen (sw_bridge w)),
                 br_events_received := br_events_received (sw_bridge w) + 1\<rparr>,
               sw_state := apply_event e (sw_state w)\<rparr>)"

text \<open>A loop over received events; \<open>c i\<close> is the clock while the \<open>i\<close>-th of them is processed.\<close>

fun process_events ::
  "(bytes \<Rightarrow> Hash256) \<Rightarrow> (nat \<Rightarrow> event_clock) \<Rightarrow> LedgerEvent list \<Rightarrow> SyncWorld \<Rightarrow> SyncWorld" where
  "process_events H c [] w = w"
| "process_events H c (e # es) w =
     process_events H (\<lambda>i. c (Suc i)) es (process_received_event H (c 0) e w)"

definition update_peer_sync_state ::
  "u64 \<Rightarrow> NodeID \<Rightarrow> u64 \<Rightarrow> Hash256 \<Rightarrow> LedgerGossipBridge \<Rightarrow> LedgerGossipBridge" where
  "update_peer_sync_state now peer epoch hash b =
     (let in_progress = (case map_of (br_peers b) peer of None \<Rightarrow> False | Some st \<Rightarrow> ss_sync_in_progress st)
      in b\<lparr>br_peers := omap_set peer \<lparr>ss_peer_id = peer, ss_last_synced_epoch = epoch,
             ss_last_known_hash = hash, ss_last_sync_time = now, ss_sync_in_progress = in_progress\<rparr>
             (br_peers b)\<rparr>)"

definition handle_sync_response ::
  "(bytes \<Rightarrow> Hash256) \<Rightarrow> (nat \<Rightarrow> event_clock) \<Rightarrow> u64 \<Rightarrow> NodeID \<Rightarrow> LedgerEvent list \<Rightarrow> SyncWorld \<Rightarrow> SyncWorld" where
  "handle_sync_response H c now peer es w =
     (let w = process_events H c es w in
      if es \<noteq> [] then w\<lparr>sw_bridge := update_peer_sync_state now peer (event_epoch (last es))
                            (event_id (last es)) (sw_bridge w)\<rparr>
      else w)"

definition handle_gossip_message ::
  "sync_env \<Rightarrow> (nat \<Rightarrow> event_clock) \<Rightarrow> NodeID \<Rightarrow> GossipMessage \<Rightarrow> SyncWorld \<Rightarrow> gossip_call list \<times> SyncWorld" where
  "handle_gossip_message env c peer m w =
     (case LedgerSyncMessage_deserialize (gm_payload m) of
        None \<Rightarrow> ([], w)
      | Some msg \<Rightarrow>
          if sy_type msg = EVENT_BROADCAST then ([], process_events (se_hash env) c (sy_events msg) w)
          else if sy_type msg = SYNC_REQUEST then
            handle_sync_request env peer (sy_start_epoch msg) (sy_end_epoch msg) w
          else if sy_type msg = SYNC_RESPONSE then
            ([], handle_sync_response (se_hash env) c (se_now env) peer (sy_events msg) w)
          else if sy_type msg = CHECKPOINT then
            ([], w\<lparr>sw_bridge := update_peer_sync_state (se_now env) peer (sy_start_epoch msg)
                     (sy_ledger_hash msg) (sw_bridge w)\<rparr>)
          else ([], w))"

section \<open>Maintenance\<close>

definition max_peer_epoch :: "u64 \<Rightarrow> (NodeID \<times> SyncState) list \<Rightarrow> u64" where
  "max_peer_epoch epoch peers =
     foldl (\<lambda>m p. if ss_last_synced_epoch (snd p) > m then ss_last_synced_epoch (snd p) else m) epoch peers"

definition sync_with_network :: "sync_env \<Rightarrow> SyncWorld \<Rightarrow> gossip_call list \<times> SyncWorld" where
  "sync_with_network env w =
     (let epoch = current_epoch (se_epoch env);
          peers = br_peers (sw_bridge w);
          highest = max_peer_epoch epoch peers in
      if highest > epoch then
        let candidates = map fst (filter (\<lambda>p. ss_last_synced_epoch (snd p) > epoch) peers) in
        (if candidates \<noteq> [] then
           let index = unat (se_rnd env 0 (word_of_nat (length candidates)))
           in request_sync env (candidates ! index) (epoch + 1) highest w
         else ([], w))
      else ([], w))"

fun consistency_loop ::
  "(nat \<Rightarrow> sync_env) \<Rightarrow> u64 \<Rightarrow> Hash256 \<Rightarrow> (NodeID \<times> SyncState) list \<Rightarrow> SyncWorld
   \<Rightarrow> gossip_call list \<times> SyncWorld" where
  "consistency_loop env epoch our_hash [] w = ([], w)"
| "consistency_loop env epoch our_hash ((peer, st) # ps) w =
     (let (out, w) = (if ss_last_synced_epoch st = epoch \<and> ss_last_known_hash st \<noteq> our_hash \<and> epoch > 0
                      then request_sync (env 0) peer epoch epoch w else ([], w));
          (out', w) = consistency_loop (\<lambda>i. env (Suc i)) epoch our_hash ps w
      in (out @ out', w))"

definition validate_consistency ::
  "u64 \<Rightarrow> (nat \<Rightarrow> sync_env) \<Rightarrow> SyncWorld \<Rightarrow> gossip_call list \<times> SyncWorld" where
  "validate_consistency now_e env w =
     consistency_loop env (current_epoch now_e) (get_latest_hash (sw_ledger w))
       (br_peers (sw_bridge w)) w"

definition cleanup_sync_state :: "u64 \<Rightarrow> LedgerGossipBridge \<Rightarrow> LedgerGossipBridge" where
  "cleanup_sync_state now b =
     (let to_remove = map fst (filter (\<lambda>p. now - ss_last_sync_time (snd p) > 300) (br_peers b))
      in b\<lparr>br_peers := fold omap_erase to_remove (br_peers b)\<rparr>)"

definition is_synced :: "u64 \<Rightarrow> LedgerGossipBridge \<Rightarrow> bool" where
  "is_synced now_e b =
     (if br_peers b = [] then False
      else length (filter (\<lambda>p. ss_last_synced_epoch (snd p) \<le> current_epoch now_e + 1) (br_peers b))
             \<ge> length (br_peers b) div 2)"

definition get_sync_epoch :: "u64 \<Rightarrow> u64" where
  "get_sync_epoch now_e = current_epoch now_e"

definition get_synced_peers :: "u64 \<Rightarrow> LedgerGossipBridge \<Rightarrow> NodeID list" where
  "get_synced_peers now_e b =
     map fst (filter (\<lambda>p. ss_last_synced_epoch (snd p) \<ge> current_epoch now_e - 1) (br_peers b))"

section \<open>The scheduler\<close>

record LedgerSyncScheduler =
  sd_running :: bool
  sd_last_sync_time :: u64
  sd_last_checkpoint_epoch :: u64
  sd_last_validation_time :: u64

record tick_env =
  te_current :: u64
  te_sync :: sync_env
  te_epoch :: u64
  te_checkpoint :: sync_env
  te_validate_epoch :: u64
  te_validate :: "nat \<Rightarrow> sync_env"
  te_cleanup :: u64

definition SYNC_INTERVAL :: u64 where "SYNC_INTERVAL = 60"
definition CHECKPOINT_INTERVAL :: u64 where "CHECKPOINT_INTERVAL = 10"
definition VALIDATION_INTERVAL :: u64 where "VALIDATION_INTERVAL = 300"

definition LedgerSyncScheduler_init :: LedgerSyncScheduler where
  "LedgerSyncScheduler_init = \<lparr>sd_running = False, sd_last_sync_time = 0, sd_last_checkpoint_epoch = 0,
     sd_last_validation_time = 0\<rparr>"

definition sync_start :: "u64 \<Rightarrow> u64 \<Rightarrow> LedgerSyncScheduler \<Rightarrow> LedgerSyncScheduler" where
  "sync_start now1 now2 sd = sd\<lparr>sd_running := True, sd_last_sync_time := now1, sd_last_validation_time := now2\<rparr>"

definition sync_stop :: "LedgerSyncScheduler \<Rightarrow> LedgerSyncScheduler" where
  "sync_stop sd = sd\<lparr>sd_running := False\<rparr>"

definition tick ::
  "tick_env \<Rightarrow> LedgerSyncScheduler \<Rightarrow> SyncWorld
   \<Rightarrow> (gossip_call list \<times> LedgerSyncScheduler \<times> SyncWorld) option" where
  "tick env sd w =
     (if \<not> sd_running sd then Some ([], sd, w)
      else
        let current = te_current env;
            (out1, sd, w) = (if current - sd_last_sync_time sd \<ge> SYNC_INTERVAL
               then let (out, w) = sync_with_network (te_sync env) w
                    in (out, sd\<lparr>sd_last_sync_time := current\<rparr>, w)
               else ([], sd, w));
            epoch = get_sync_epoch (te_epoch env) in
        case (if epoch \<ge> sd_last_checkpoint_epoch sd + CHECKPOINT_INTERVAL
              then map_option (\<lambda>(out, w). (out, sd\<lparr>sd_last_checkpoint_epoch := epoch\<rparr>, w))
                     (broadcast_checkpoint (te_checkpoint env) epoch w)
              else Some ([], sd, w)) of
          None \<Rightarrow> None
        | Some (out2, sd, w) \<Rightarrow>
            if current - sd_last_validation_time sd \<ge> VALIDATION_INTERVAL then
              let (out3, w) = validate_consistency (te_validate_epoch env) (te_validate env) w;
                  w = w\<lparr>sw_bridge := cleanup_sync_state (te_cleanup env) (sw_bridge w)\<rparr>
              in Some (out1 @ out2 @ out3, sd\<lparr>sd_last_validation_time := current\<rparr>, w)
            else Some (out1 @ out2, sd, w))"

section \<open>Messages: lemmas\<close>

definition wf_sync :: "LedgerSyncMessage \<Rightarrow> bool" where
  "wf_sync m \<longleftrightarrow> length (sy_ledger_hash m) = 32 \<and> length (sy_events m) < 2 ^ 32 \<and>
     list_all storable (sy_events m)"

lemma sync_events_loop_append:
  "list_all storable es \<Longrightarrow> sync_events_loop (length es) (concat (map sync_event_bytes es) @ rest) = Some es"
proof (induction es)
  case (Cons e es)
  then have e: "wf_event e" "length (LedgerEvent_to_bytes e) < 2 ^ 32" by (simp_all add: storable_def)
  with Cons eventc.dec_enc [OF e(1)] show ?case
    by (simp add: sync_event_bytes_def Let_def)
qed simp

lemma serialize_fields:
  assumes "length (sy_ledger_hash m) = 32" "data = LedgerSyncMessage_serialize m @ rest"
  shows "data ! 0 = sy_type m" "slice 1 8 data = le_bytes 8 (sy_start_epoch m)"
    "slice 9 8 data = le_bytes 8 (sy_end_epoch m)" "slice 17 32 data = sy_ledger_hash m"
    "slice 49 4 data = le_bytes 4 (word_of_nat (length (sy_events m)) :: u32)"
    "drop 53 data = concat (map sync_event_bytes (sy_events m)) @ rest"
    "length data = 53 + length (concat (map sync_event_bytes (sy_events m))) + length rest"
  using assms(1) by (simp_all add: assms(2) LedgerSyncMessage_serialize_def codec_simps)

lemma serialize_deserialize:
  assumes "wf_sync m" "sy_events m \<noteq> [] \<or> 4 \<le> length rest"
  shows "LedgerSyncMessage_deserialize (LedgerSyncMessage_serialize m @ rest) = Some m"
proof -
  have wf: "length (sy_ledger_hash m) = 32" "length (sy_events m) < 2 ^ 32" "list_all storable (sy_events m)"
    using assms(1) by (simp_all add: wf_sync_def)
  have len: "4 \<le> length (concat (map sync_event_bytes (sy_events m))) + length rest"
  proof (cases "sy_events m")
    case (Cons e es)
    then show ?thesis by (simp add: sync_event_bytes_def Let_def)
  qed (use assms(2) in simp)
  show ?thesis
    unfolding LedgerSyncMessage_deserialize_def
    using serialize_fields [OF wf(1) refl, of rest] wf len
    by (simp add: sync_events_loop_append Let_def)
qed

interpretation syncc: trailing_codec LedgerSyncMessage_serialize LedgerSyncMessage_deserialize
  "\<lambda>m. wf_sync m \<and> sy_events m \<noteq> []"
  by unfold_locales (simp add: serialize_deserialize)

lemma deserialize_empty:
  "length (sy_ledger_hash m) = 32 \<Longrightarrow> sy_events m = [] \<Longrightarrow>
   LedgerSyncMessage_deserialize (LedgerSyncMessage_serialize m) = None"
  using serialize_fields(7) [of m _ "[]"] by (simp add: LedgerSyncMessage_deserialize_def)

section \<open>Processing events: lemmas\<close>

text \<open>The clock does not run backwards while an event is processed.\<close>

definition event_clock_ok :: "event_clock \<Rightarrow> bool" where
  "event_clock_ok c \<longleftrightarrow> clock_ok (ec_ledger c) \<and> ec_now c \<le> ec_chain c \<and> ec_chain c \<le> now_pre (ec_ledger c)"

text \<open>The state is the one a rebuild from the ledger gives, and only events of the ledger have
  been seen.\<close>

definition sync_ok :: "(bytes \<Rightarrow> Hash256) \<Rightarrow> SyncWorld \<Rightarrow> bool" where
  "sync_ok H w \<longleftrightarrow> ledger_inv H (sw_ledger w) \<and>
     rebuild_state (sw_ledger w) (sm_last_rebuild (sw_state w)) (sw_state w) = sw_state w \<and>
     set (br_seen (sw_bridge w)) \<subseteq> event_id ` set (lg_events (sw_ledger w))"

definition extended :: "(bytes \<Rightarrow> Hash256) \<Rightarrow> LedgerEvent \<Rightarrow> SyncWorld \<Rightarrow> SyncWorld" where
  "extended H e w = w\<lparr>sw_ledger := appended H e (sw_ledger w),
     sw_bridge := (sw_bridge w)\<lparr>br_seen := oset_insert (event_id e) (br_seen (sw_bridge w)),
       br_events_received := br_events_received (sw_bridge w) + 1\<rparr>,
     sw_state := apply_event e (sw_state w)\<rparr>"

text \<open>What makes the bridge accept an event, and what it does then.\<close>

definition acceptable :: "(bytes \<Rightarrow> Hash256) \<Rightarrow> event_clock \<Rightarrow> Ledger \<Rightarrow> LedgerEvent \<Rightarrow> bool" where
  "acceptable H c L e \<longleftrightarrow> event_id e \<notin> event_id ` set (lg_events L) \<and>
     previous_hash e = tip_hash H (lg_events L) \<and>
     event_timestamp e \<le> ec_now c + MAX_FUTURE_SKEW_SECONDS \<and> node_bytes (source_node e) \<noteq> zero_hash"

lemma event_clock_bounds:
  assumes "event_clock_ok c" "event_timestamp e \<le> ec_now c + MAX_FUTURE_SKEW_SECONDS"
  shows "event_timestamp e \<le> ec_chain c + MAX_FUTURE_SKEW_SECONDS"
    "event_timestamp e \<le> now_pre (ec_ledger c) + MAX_FUTURE_SKEW_SECONDS"
    "not_in_future (ec_ledger c) e"
proof -
  let ?k = "ec_ledger c"
  have ok: "now_pre ?k \<le> now_chain ?k" "now_chain ?k \<le> now_verify ?k" "unat (now_verify ?k) + 300 < 2 ^ 64"
    "unat (now_chain ?k) + 300 < 2 ^ 64" "unat (now_pre ?k) + 300 < 2 ^ 64"
    "ec_now c \<le> ec_chain c" "ec_chain c \<le> now_pre ?k"
    using assms(1) clock_ok_less [of ?k] by (auto simp: event_clock_ok_def clock_ok_def)
  then have "unat (ec_chain c) + 300 < 2 ^ 64" by (simp add: word_le_nat_alt)
  then show a: "event_timestamp e \<le> ec_chain c + MAX_FUTURE_SKEW_SECONDS"
    using skew_mono [OF ok(6) _ assms(2)] by simp
  then show b: "event_timestamp e \<le> now_pre ?k + MAX_FUTURE_SKEW_SECONDS"
    using skew_mono [OF ok(7,5)] by simp
  from skew_mono [OF ok(1,4) b] have c: "event_timestamp e \<le> now_chain ?k + MAX_FUTURE_SKEW_SECONDS" .
  from skew_mono [OF ok(2,3) c] c show "not_in_future ?k e" by (simp add: not_in_future_def)
qed

lemma lookup_none_iff:
  assumes "ledger_inv H L"
  shows "map_of (lg_lookup L) eid = None \<longleftrightarrow> eid \<notin> event_id ` set (lg_events L)"
proof -
  have "map_of (lg_lookup L) eid \<noteq> None \<longleftrightarrow> (\<exists>i < length (lg_events L). event_id (lg_events L ! i) = eid)"
    using assms by (auto simp: ledger_inv_def)
  also have "\<dots> \<longleftrightarrow> eid \<in> event_id ` set (lg_events L)" by (auto simp: set_conv_nth)
  finally show ?thesis by blast
qed

lemma process_received_event_cases:
  assumes "sync_ok H w" "event_clock_ok c"
  shows "process_received_event H c e w = (if acceptable H c (sw_ledger w) e then extended H e w else w)"
proof -
  let ?L = "sw_ledger w"
  have inv: "ledger_inv H ?L" and seen: "set (br_seen (sw_bridge w)) \<subseteq> event_id ` set (lg_events ?L)"
    using assms(1) by (simp_all add: sync_ok_def)
  have skew: "ec_now c + 300 = ec_now c + MAX_FUTURE_SKEW_SECONDS" by (simp add: MAX_FUTURE_SKEW_SECONDS_def)
  show ?thesis
  proof (cases "acceptable H c ?L e")
    case True
    then have a: "event_id e \<notin> event_id ` set (lg_events ?L)" "previous_hash e = tip_hash H (lg_events ?L)"
      "event_timestamp e \<le> ec_now c + MAX_FUTURE_SKEW_SECONDS" "node_bytes (source_node e) \<noteq> zero_hash"
      by (simp_all add: acceptable_def)
    note b = event_clock_bounds [OF assms(2) a(3)]
    have "validate_event_chain H c ?L e"
      using a b(1) by (simp add: validate_event_chain_def skew verify_event_chain_tip not_less)
    moreover have "verify_event H (ec_ledger c) ?L e" by (rule verify_event_next [OF inv a(2,1) b(3)])
    then have "add_external_event H (ec_ledger c) e ?L = (True, appended H e ?L)"
      using a b(2) lookup_none_iff [OF inv]
      by (simp add: add_external_event_def verify_event_chain_tip add_event_cases)
    moreover have "event_id e \<notin> set (br_seen (sw_bridge w))" using a(1) seen by blast
    ultimately show ?thesis
      using True by (simp add: process_received_event_def extended_def)
  next
    case False
    then consider (known) "event_id e \<in> event_id ` set (lg_events ?L)"
      | (link) "previous_hash e \<noteq> tip_hash H (lg_events ?L)"
      | (late) "\<not> event_timestamp e \<le> ec_now c + MAX_FUTURE_SKEW_SECONDS \<or> node_bytes (source_node e) = zero_hash"
      by (auto simp: acceptable_def)
    then have "\<not> validate_event_chain H c ?L e \<or> add_external_event H (ec_ledger c) e ?L = (False, ?L)"
    proof cases
      case known
      with lookup_none_iff [OF inv, of "event_id e"] show ?thesis
        by (auto simp: add_external_event_def)
    next
      case link
      then show ?thesis by (simp add: add_external_event_def verify_event_chain_tip)
    next
      case late
      then show ?thesis by (auto simp: validate_event_chain_def skew)
    qed
    with False show ?thesis by (auto simp: process_received_event_def)
  qed
qed

lemma rebuild_tracks:
  "rebuild_state L (sm_last_rebuild s) s = s \<longleftrightarrow>
     s = fold apply_event (lg_events L) (s\<lparr>sm_nodes := [], sm_networks := [], sm_things := []\<rparr>)"
proof -
  let ?s0 = "s\<lparr>sm_nodes := [], sm_networks := [], sm_things := []\<rparr>"
  have "(fold apply_event (lg_events L) ?s0)\<lparr>sm_last_rebuild := sm_last_rebuild s\<rparr> =
      fold apply_event (lg_events L) (?s0\<lparr>sm_last_rebuild := sm_last_rebuild s\<rparr>)"
    by (simp only: fold_apply_stamp)
  also have "?s0\<lparr>sm_last_rebuild := sm_last_rebuild s\<rparr> = ?s0" by simp
  finally show ?thesis by (auto simp: rebuild_state_def get_all_events_def)
qed

lemma cleared_apply_event:
  "(apply_event e s)\<lparr>sm_nodes := [], sm_networks := [], sm_things := []\<rparr> =
   s\<lparr>sm_nodes := [], sm_networks := [], sm_things := []\<rparr>"
proof -
  have "sm_last_rebuild (apply_event e s) = sm_last_rebuild s"
    using arg_cong [OF apply_event_stamp [of e "sm_last_rebuild s" s], of sm_last_rebuild] by simp
  then show ?thesis by (cases "apply_event e s"; cases s) simp
qed

lemma sync_ok_extended:
  assumes "sync_ok H w" "acceptable H c (sw_ledger w) e" "event_clock_ok c"
  shows "sync_ok H (extended H e w)"
proof -
  let ?L = "sw_ledger w"
  have a: "event_id e \<notin> event_id ` set (lg_events ?L)" "previous_hash e = tip_hash H (lg_events ?L)"
    "event_timestamp e \<le> ec_now c + MAX_FUTURE_SKEW_SECONDS"
    using assms(2) by (simp_all add: acceptable_def)
  have inv: "ledger_inv H ?L" using assms(1) by (simp add: sync_ok_def)
  have "verify_event H (ec_ledger c) ?L e"
    by (rule verify_event_next [OF inv a(2,1) event_clock_bounds(3) [OF assms(3) a(3)]])
  with inv have "ledger_inv H (appended H e ?L)" by (rule ledger_inv_appended)
  with assms(1) show ?thesis
    by (auto simp: sync_ok_def extended_def rebuild_tracks appended_def cleared_apply_event)
qed

lemma sync_ok_process_events:
  "sync_ok H w \<Longrightarrow> (\<And>i. event_clock_ok (c i)) \<Longrightarrow> sync_ok H (process_events H c es w)"
proof (induction es arbitrary: c w)
  case (Cons e es)
  have "sync_ok H (process_received_event H (c 0) e w)"
    using Cons.prems sync_ok_extended [OF Cons.prems(1) _ Cons.prems(2) [of 0]]
    by (simp add: process_received_event_cases)
  then show ?case using Cons.IH [of _ "\<lambda>i. c (Suc i)"] Cons.prems(2) by simp
qed simp

lemma process_events_append:
  "process_events H c (es @ fs) w =
   process_events H (\<lambda>i. c (length es + i)) fs (process_events H c es w)"
  by (induction es arbitrary: c w) simp_all

lemma process_known_events:
  assumes "sync_ok H w" "\<And>i. event_clock_ok (c i)" "set es \<subseteq> set (lg_events (sw_ledger w))"
  shows "process_events H c es w = w"
  using assms
proof (induction es arbitrary: c)
  case (Cons e es)
  have "\<not> acceptable H (c 0) (sw_ledger w) e" using Cons.prems(3) by (simp add: acceptable_def)
  then have "process_received_event H (c 0) e w = w"
    using process_received_event_cases [OF Cons.prems(1) Cons.prems(2) [of 0]] by simp
  with Cons show ?case by simp
qed simp

lemma process_missing_events:
  assumes "sync_ok H w" "\<And>i. event_clock_ok (c i)"
    and "chained H (lg_events (sw_ledger w) @ es)" "distinct (map event_id (lg_events (sw_ledger w) @ es))"
    and "\<And>i e. e \<in> set es \<Longrightarrow> event_timestamp e \<le> ec_now (c i) + MAX_FUTURE_SKEW_SECONDS"
    and "\<And>e. e \<in> set es \<Longrightarrow> node_bytes (source_node e) \<noteq> zero_hash"
  shows "lg_events (sw_ledger (process_events H c es w)) = lg_events (sw_ledger w) @ es"
  using assms
proof (induction es arbitrary: c w)
  case (Cons e es)
  let ?xs = "lg_events (sw_ledger w)"
  have links: "chained H (xs @ e # es) \<Longrightarrow> previous_hash e = tip_hash H xs" for xs
  proof (induction es rule: rev_induct)
    case (snoc x es)
    then show ?case using chained_append [of H "xs @ e # es" x] by simp
  qed (simp add: chained_append)
  have acc: "acceptable H (c 0) (sw_ledger w) e"
    using Cons.prems(4-6) links [OF Cons.prems(3)] by (auto simp: acceptable_def)
  have step: "process_received_event H (c 0) e w = extended H e w"
    using process_received_event_cases [OF Cons.prems(1) Cons.prems(2) [of 0]] acc by simp
  have ev: "lg_events (sw_ledger (extended H e w)) = ?xs @ [e]" by (simp add: extended_def appended_def)
  have "lg_events (sw_ledger (process_events H (\<lambda>i. c (Suc i)) es (extended H e w))) =
      lg_events (sw_ledger (extended H e w)) @ es"
  proof (rule Cons.IH)
    show "sync_ok H (extended H e w)" by (rule sync_ok_extended [OF Cons.prems(1) acc Cons.prems(2)])
    show "chained H (lg_events (sw_ledger (extended H e w)) @ es)" using Cons.prems(3) ev by simp
    show "distinct (map event_id (lg_events (sw_ledger (extended H e w)) @ es))" using Cons.prems(4) ev by simp
  qed (use Cons.prems(2,5,6) in auto)
  with step ev show ?case by simp
qed simp

lemma sync_ok_handle:
  assumes "sync_ok H w" "\<And>i. event_clock_ok (c i)" "se_hash env = H"
  shows "sync_ok H (snd (handle_gossip_message env c peer m w))"
  using assms sync_ok_process_events [OF assms(1,2)]
  by (auto simp: handle_gossip_message_def handle_sync_response_def handle_sync_request_def
      update_peer_sync_state_def sync_ok_def Let_def case_prod_beta split: option.split)

section \<open>Properties\<close>

text \<open>
  C5: The bridge keeps ledger and state consistent: whatever sequence of gossip messages arrives
  from whatever peers, well formed or not, with a clock that does not run backwards within an
  event, the ledger stays a valid hash chain without duplicate identifiers and the
  incrementally maintained state equals the state that a rebuild from the ledger would give.
\<close>

theorem bridge_keeps_consistent:
  assumes "sync_ok H w"
    and "\<And>env c peer m. (env, c, peer, m) \<in> set msgs \<Longrightarrow> se_hash env = H \<and> (\<forall>i. event_clock_ok (c i))"
  defines "w' \<equiv> foldl (\<lambda>w (env, c, peer, m). snd (handle_gossip_message env c peer m w)) w msgs"
  shows "ledger_inv H (sw_ledger w') \<and>
    rebuild_state (sw_ledger w') (sm_last_rebuild (sw_state w')) (sw_state w') = sw_state w'"
proof -
  have "sync_ok H (foldl (\<lambda>w (env, c, peer, m). snd (handle_gossip_message env c peer m w)) w msgs)"
    using assms(1,2)
  proof (induction msgs arbitrary: w)
    case (Cons x msgs)
    obtain env c peer m where x: "x = (env, c, peer, m)" by (cases x) auto
    have "sync_ok H (snd (handle_gossip_message env c peer m w))"
      by (rule sync_ok_handle [OF Cons.prems(1)]) (use Cons.prems(2) [of env c peer m] x in auto)
    moreover have "\<And>env c peer m. (env, c, peer, m) \<in> set msgs \<Longrightarrow>
        se_hash env = H \<and> (\<forall>i. event_clock_ok (c i))"
      using Cons.prems(2) by (meson list.set_intros(2))
    ultimately have "sync_ok H (foldl (\<lambda>w (env, c, peer, m). snd (handle_gossip_message env c peer m w))
        (snd (handle_gossip_message env c peer m w)) msgs)" by (rule Cons.IH)
    with x show ?case by simp
  qed simp
  then show ?thesis by (simp add: w'_def sync_ok_def)
qed

definition sample_event_clock :: event_clock where
  "sample_event_clock = \<lparr>ec_now = 1700000000, ec_epoch = 1700000000, ec_chain = 1700000000, ec_ledger = sample_clock\<rparr>"

definition sample_env :: sync_env where
  "sample_env = \<lparr>se_hash = toy_hash, se_rnd = first_of, se_epoch = 1700000000, se_now = 1700000000, se_mark = 1700000000\<rparr>"

definition sample_world :: SyncWorld where
  "sample_world = \<lparr>sw_ledger = sample_ledger, sw_state = empty_state, sw_gossip = sample_protocol,
     sw_bridge = LedgerGossipBridge_init\<rparr>"

lemma sample_event_clock_ok [simp]: "event_clock_ok sample_event_clock"
  by (simp add: event_clock_ok_def sample_event_clock_def) (simp add: sample_clock_def)

lemma sample_world_ok [simp]: "sync_ok toy_hash sample_world"
proof -
  have "rebuild_state sample_ledger (sm_last_rebuild empty_state) empty_state = empty_state"
    by (simp add: rebuild_state_def get_all_events_def Ledger_init_def empty_state_def)
  then show ?thesis
    by (simp add: sync_ok_def sample_world_def ledger_inv_init LedgerGossipBridge_init_def)
qed

theorem bridge_keeps_consistent_witness:
  "ledger_inv toy_hash (sw_ledger (snd (handle_gossip_message sample_env (\<lambda>i. sample_event_clock)
     (NodeID zero_hash) sample_message sample_world)))"
  using bridge_keeps_consistent [of toy_hash sample_world
    "[(sample_env, \<lambda>i. sample_event_clock, NodeID zero_hash, sample_message)]"]
  by (simp add: sample_env_def)

text \<open>
  C6: A sync response brings a node up to date: a node whose log is a proper prefix of a peer's
  log, and which receives over gossip the peer's answer for an epoch range that contains the
  missing events, ends with exactly the peer's log (events it already has are skipped), and its
  state is the one rebuilt from that log.
\<close>

theorem sync_response_catches_up:
  fixes peer :: NodeID
  assumes ok: "sync_ok H w" and clocks: "\<And>i. event_clock_ok (c i)"
    and sender: "ledger_inv H S" "list_all storable (lg_events S)" "length (lg_events S) < 2 ^ 32"
      "length (lg_latest S) = 32"
    and missing: "lg_events S = lg_events (sw_ledger w) @ es" "es \<noteq> []"
    and fresh: "\<And>i e. e \<in> set es \<Longrightarrow> event_timestamp e \<le> ec_now (c i) + MAX_FUTURE_SKEW_SECONDS \<and>
      node_bytes (source_node e) \<noteq> zero_hash \<and> a \<le> event_epoch e \<and> event_epoch e \<le> b"
    and msg: "gm_payload m = LedgerSyncMessage_serialize (sync_response a b S)" "se_hash env = H"
  defines "w' \<equiv> snd (handle_gossip_message env c peer m w)"
  shows "lg_events (sw_ledger w') = lg_events S \<and> ledger_inv H (sw_ledger w') \<and>
    rebuild_state (sw_ledger w') (sm_last_rebuild (sw_state w')) (sw_state w') = sw_state w'"
proof -
  let ?P = "\<lambda>e. event_epoch e \<ge> a \<and> event_epoch e \<le> b"
  let ?known = "filter ?P (lg_events (sw_ledger w))"
  have events: "sy_events (sync_response a b S) = ?known @ es"
    using missing(1) fresh by (simp add: sync_response_def get_all_events_def filter_id_conv)
  have "list_all storable (?known @ es)"
    using sender(2) missing(1) by (auto simp: list_all_iff)
  moreover have "length (?known @ es) < 2 ^ 32"
    using sender(3) missing(1) length_filter_le [of ?P "lg_events (sw_ledger w)"]
    by (simp del: length_filter_le)
  moreover have "sy_ledger_hash (sync_response a b S) = lg_latest S"
    by (simp add: sync_response_def get_latest_hash_def)
  ultimately have "wf_sync (sync_response a b S)"
    using events sender(4) by (simp add: wf_sync_def)
  then have "LedgerSyncMessage_deserialize (gm_payload m) = Some (sync_response a b S)"
    using msg(1) events missing(2) by (simp add: syncc.dec_enc)
  then have "w' = handle_sync_response H c (se_now env) peer (?known @ es) w"
    using msg(2) events by (simp add: w'_def handle_gossip_message_def sync_type_defs sync_response_def)
  then have "sw_ledger w' = sw_ledger (process_events H c (?known @ es) w)"
    by (simp add: handle_sync_response_def Let_def)
  also have "process_events H c ?known w = w"
    by (rule process_known_events [OF ok clocks]) auto
  then have "process_events H c (?known @ es) w = process_events H (\<lambda>i. c (length ?known + i)) es w"
    by (simp add: process_events_append)
  finally have "lg_events (sw_ledger w') = lg_events (sw_ledger w) @ es"
    using process_missing_events [OF ok, of "\<lambda>i. c (length ?known + i)" es] clocks fresh sender(1) missing(1)
    by (simp add: ledger_inv_def)
  moreover have "sync_ok H w'" unfolding w'_def by (rule sync_ok_handle [OF ok clocks msg(2)])
  ultimately show ?thesis using missing(1) by (simp add: sync_ok_def)
qed

theorem sync_response_catches_up_witness:
  "lg_events (sw_ledger (snd (handle_gossip_message sample_env (\<lambda>i. sample_event_clock) (NodeID zero_hash)
     (sync_gossip zero_hash (LedgerSyncMessage_serialize (sync_response 0 (- 1) one_event_ledger)) 0)
     sample_world))) = lg_events one_event_ledger"
proof -
  let ?e = "sample_event\<lparr>previous_hash := zero_hash\<rparr>"
  have ev: "lg_events one_event_ledger = [?e]"
    by (simp add: one_event_ledger_def appended_def Ledger_init_def)
  have st: "storable ?e"
    by (simp add: storable_def wf_event_def sample_event_def zero_hash_def LedgerEvent_to_bytes_def)
  have "length (lg_latest one_event_ledger) = 32"
    by (simp add: one_event_ledger_def appended_def compute_hash_def toy_hash_def)
  moreover have "event_timestamp ?e \<le> ec_now sample_event_clock + MAX_FUTURE_SKEW_SECONDS \<and>
      node_bytes (source_node ?e) \<noteq> zero_hash \<and> 0 \<le> event_epoch ?e \<and> event_epoch ?e \<le> - 1"
    by (simp add: sample_event_def sample_event_clock_def MAX_FUTURE_SKEW_SECONDS_def zero_hash_def)
  ultimately show ?thesis
    using sync_response_catches_up [of toy_hash sample_world "\<lambda>i. sample_event_clock" one_event_ledger "[?e]"
        0 "- 1" "sync_gossip zero_hash (LedgerSyncMessage_serialize (sync_response 0 (- 1) one_event_ledger)) 0"
        sample_env "NodeID zero_hash"] one_event_inv ev st
    by (simp add: sample_world_def [THEN arg_cong [of _ _ sw_ledger]] Ledger_init_def sync_gossip_def sample_env_def)
qed

text \<open>
  Sync messages that carry at least one event round trip, also with bytes after them.
\<close>

theorem sync_message_roundtrip:
  assumes "wf_sync m" "sy_events m \<noteq> []"
  shows "LedgerSyncMessage_deserialize (LedgerSyncMessage_serialize m @ rest) = Some m"
  using syncc.dec_enc_append [of m rest] assms by simp

theorem sync_message_roundtrip_witness:
  "LedgerSyncMessage_deserialize (LedgerSyncMessage_serialize \<lparr>sy_type = EVENT_BROADCAST,
     sy_events = [sample_event], sy_start_epoch = 1, sy_end_epoch = 2, sy_ledger_hash = zero_hash\<rparr> @ [7]) =
   Some \<lparr>sy_type = EVENT_BROADCAST, sy_events = [sample_event], sy_start_epoch = 1, sy_end_epoch = 2,
     sy_ledger_hash = zero_hash\<rparr>"
  by (rule sync_message_roundtrip)
    (simp_all add: wf_sync_def zero_hash_def storable_def wf_event_def sample_event_def LedgerEvent_to_bytes_def)

text \<open>
  Sync requests are never served: the decoder demands 57 bytes, four more than a message
  without events has, so the message that \<open>request_sync\<close> sends is dropped by every node that
  receives it, without an answer and without a change. Checkpoints are lost in the same way.
\<close>

theorem sync_requests_are_lost:
  assumes "length (lg_latest (sw_ledger w)) = 32"
    and "SendCallback p m \<in> set (fst (request_sync env peer a b w)) \<or>
      (\<exists>w'. broadcast_checkpoint env epoch w = Some (out, w') \<and> SendCallback p m \<in> set out)"
  shows "handle_gossip_message env' c src (m\<lparr>gm_hop_count := h\<rparr>) v = ([], v)"
proof -
  let ?msg = "\<lambda>t x y. \<lparr>sy_type = t, sy_events = [], sy_start_epoch = x, sy_end_epoch = y,
    sy_ledger_hash = lg_latest (sw_ledger w)\<rparr>"
  have "gm_payload m = LedgerSyncMessage_serialize (?msg SYNC_REQUEST a b)"
    if "SendCallback p m \<in> set (fst (request_sync env peer a b w))"
    using that by (auto simp: request_sync_def Let_def case_prod_beta send_direct_message_def send_to_peer_def
        sync_gossip_def get_latest_hash_def split: option.splits)
  moreover have "gm_payload m = LedgerSyncMessage_serialize (?msg CHECKPOINT epoch epoch)"
    if "broadcast_checkpoint env epoch w = Some (out, w')" "SendCallback p m \<in> set out" for w'
    using that by (auto simp: broadcast_checkpoint_def broadcast_message_def Let_def case_prod_beta
        send_all_spec sync_gossip_def get_latest_hash_def split: option.splits if_splits)
  moreover have "LedgerSyncMessage_deserialize (LedgerSyncMessage_serialize (?msg t x y)) = None" for t x y
    by (rule deserialize_empty) (simp_all add: assms(1))
  ultimately have "LedgerSyncMessage_deserialize (gm_payload m) = None"
    using assms(2) by auto
  then show ?thesis by (simp add: handle_gossip_message_def)
qed

theorem sync_requests_are_lost_witness:
  "\<exists>m. SendCallback (NodeID (replicate 32 2)) m \<in>
       set (fst (request_sync sample_env (NodeID (replicate 32 2)) 3 4 sample_world)) \<and>
     handle_gossip_message sample_env (\<lambda>i. sample_event_clock) (NodeID (replicate 32 1))
       (m\<lparr>gm_hop_count := 0\<rparr>) sample_world = ([], sample_world)"
proof -
  obtain m where m: "SendCallback (NodeID (replicate 32 2)) m \<in>
       set (fst (request_sync sample_env (NodeID (replicate 32 2)) 3 4 sample_world))"
    by (simp add: request_sync_def Let_def send_direct_message_def send_to_peer_def sample_world_def
        sample_protocol_def)
  have "length (lg_latest (sw_ledger sample_world)) = 32"
    by (simp add: sample_world_def Ledger_init_def zero_hash_def)
  from sync_requests_are_lost [OF this disjI1 [OF m]] m show ?thesis by blast
qed

text \<open>With a single peer the majority test of \<open>is_synced\<close> holds however far behind the node is.\<close>

theorem single_peer_always_synced: "br_peers b = [p] \<Longrightarrow> is_synced now b"
  by (simp add: is_synced_def)

end
