(* ===== verification/Reconciliation.thy ===== *)
theory Reconciliation
  imports Ledger_Sync
begin

text \<open>
  Reconciliation of divergent ledgers, \<open>src/network/state_reconciliation.cpp\<close>: detecting and
  classifying conflicts, the merge strategies, and the quorum over several peers.

  \<open>RecWorld\<close> is the \<open>StateReconciliation\<close> object with the ledger and the state manager it refers
  to. \<open>MergeResult\<close> has no constructor, so the fields that an operation does not set are
  indeterminate: they are \<open>None\<close> here, and a sum with an indeterminate operand is
  indeterminate. Each clock reading is an argument; \<open>c i\<close> is the ledger's clock while the
  \<open>i\<close>-th missing event is added.
\<close>

section \<open>Data\<close>

datatype ConflictType = HASH_MISMATCH | EPOCH_FORK | MISSING_EVENTS | DUPLICATE_EVENTS | TIMESTAMP_ANOMALY

datatype MergeStrategy =
  PREFER_LOCAL | PREFER_REMOTE | MERGE_BOTH | HIGHEST_WORK | QUORUM_CONSENSUS | MANUAL_REVIEW

record StateConflict =
  cf_type :: ConflictType
  cf_epoch :: u64
  cf_local_hash :: Hash256
  cf_remote_hash :: Hash256
  cf_local_events :: "LedgerEvent list"
  cf_remote_events :: "LedgerEvent list"
  cf_peer_id :: "NodeID option"
  cf_detected_at :: u64
  cf_description :: string

record MergeResult =
  mr_success :: bool
  mr_strategy :: "MergeStrategy option"
  mr_events_added :: "u64 option"
  mr_events_removed :: "u64 option"
  mr_conflicts_resolved :: "u64 option"
  mr_final_hash :: "Hash256 option"
  mr_final_epoch :: "u64 option"
  mr_error :: string
  mr_unresolved :: "StateConflict list"

record RecWorld =
  rw_ledger :: Ledger
  rw_state :: StateManager
  rw_detected :: u64
  rw_resolved :: u64
  rw_reconciliations :: u64

text \<open>A \<open>MergeResult\<close> of which only \<open>success\<close> has been set.\<close>

definition MergeResult_new :: "bool \<Rightarrow> MergeResult" where
  "MergeResult_new b = \<lparr>mr_success = b, mr_strategy = None, mr_events_added = None, mr_events_removed = None,
     mr_conflicts_resolved = None, mr_final_hash = None, mr_final_epoch = None, mr_error = [], mr_unresolved = []\<rparr>"

definition StateReconciliation_init :: "Ledger \<Rightarrow> StateManager \<Rightarrow> RecWorld" where
  "StateReconciliation_init L s = \<lparr>rw_ledger = L, rw_state = s, rw_detected = 0, rw_resolved = 0,
     rw_reconciliations = 0\<rparr>"

section \<open>Detection\<close>

definition classify_conflict ::
  "u64 \<Rightarrow> Hash256 \<Rightarrow> Hash256 \<Rightarrow> LedgerEvent list \<Rightarrow> LedgerEvent list \<Rightarrow> ConflictType" where
  "classify_conflict now local_hash remote_hash local_events remote_events =
     (if local_hash = remote_hash then HASH_MISMATCH
      else if length local_events \<noteq> length remote_events then MISSING_EVENTS
      else if list_ex (\<lambda>e. event_timestamp e > now + 300) remote_events then TIMESTAMP_ANOMALY
      else HASH_MISMATCH)"

definition detect_conflict ::
  "u64 \<Rightarrow> u64 \<Rightarrow> u64 \<Rightarrow> NodeID \<Rightarrow> u64 \<Rightarrow> Hash256 \<Rightarrow> LedgerEvent list \<Rightarrow> RecWorld
   \<Rightarrow> StateConflict option \<times> RecWorld" where
  "detect_conflict now_e now_detect now_classify peer epoch peer_hash peer_events w =
     (let local_hash = get_latest_hash (rw_ledger w); local_epoch = current_epoch now_e in
      if local_epoch \<noteq> epoch then (None, w)
      else if local_hash = peer_hash then (None, w)
      else
        let local_events = get_all_events (rw_ledger w) in
        (Some \<lparr>cf_type = classify_conflict now_classify local_hash peer_hash local_events peer_events,
               cf_epoch = epoch, cf_local_hash = local_hash, cf_remote_hash = peer_hash,
               cf_local_events = local_events, cf_remote_events = peer_events, cf_peer_id = Some peer,
               cf_detected_at = now_detect, cf_description = ''Ledger state divergence detected''\<rparr>,
         w\<lparr>rw_detected := rw_detected w + 1\<rparr>))"

text \<open>\<open>t i\<close> are the three readings of the clock for the \<open>i\<close>-th peer.\<close>

fun detect_loop ::
  "(nat \<Rightarrow> u64 \<times> u64 \<times> u64) \<Rightarrow> u64 \<Rightarrow> (NodeID \<times> (Hash256 \<times> LedgerEvent list)) list \<Rightarrow> RecWorld
   \<Rightarrow> StateConflict list \<times> RecWorld" where
  "detect_loop t epoch [] w = ([], w)"
| "detect_loop t epoch ((peer, (hash, es)) # ps) w =
     (let (now_e, now_d, now_c) = t 0;
          (cf, w) = detect_conflict now_e now_d now_c peer epoch hash es w;
          (cfs, w) = detect_loop (\<lambda>i. t (Suc i)) epoch ps w
      in ((case cf of None \<Rightarrow> cfs | Some x \<Rightarrow> x # cfs), w))"

definition detect_all_conflicts ::
  "u64 \<Rightarrow> (nat \<Rightarrow> u64 \<times> u64 \<times> u64) \<Rightarrow> (NodeID \<times> (Hash256 \<times> LedgerEvent list)) list \<Rightarrow> RecWorld
   \<Rightarrow> StateConflict list \<times> RecWorld" where
  "detect_all_conflicts now_e t peer_states w = detect_loop t (current_epoch now_e) peer_states w"

section \<open>Resolution\<close>

definition find_missing_events :: "Ledger \<Rightarrow> LedgerEvent list \<Rightarrow> LedgerEvent list" where
  "find_missing_events L remote_events =
     (let local_ids = foldl (\<lambda>s e. oset_insert (event_id e) s) [] (get_all_events L)
      in filter (\<lambda>e. event_id e \<notin> set local_ids) remote_events)"

fun merge_loop ::
  "(bytes \<Rightarrow> Hash256) \<Rightarrow> (nat \<Rightarrow> clock) \<Rightarrow> LedgerEvent list \<Rightarrow> bool \<Rightarrow> RecWorld \<Rightarrow> bool \<times> RecWorld" where
  "merge_loop H c [] ok w = (ok, w)"
| "merge_loop H c (e # es) ok w =
     (case add_external_event H (c 0) e (rw_ledger w) of
        (False, L) \<Rightarrow> merge_loop H (\<lambda>i. c (Suc i)) es False (w\<lparr>rw_ledger := L\<rparr>)
      | (True, L) \<Rightarrow> merge_loop H (\<lambda>i. c (Suc i)) es ok
          (w\<lparr>rw_ledger := L, rw_state := apply_event e (rw_state w)\<rparr>))"

definition apply_local_preference :: "StateConflict \<Rightarrow> RecWorld \<Rightarrow> bool \<times> RecWorld" where
  "apply_local_preference cf w = (True, w)"

definition apply_merge_both ::
  "(bytes \<Rightarrow> Hash256) \<Rightarrow> (nat \<Rightarrow> clock) \<Rightarrow> StateConflict \<Rightarrow> RecWorld \<Rightarrow> bool \<times> RecWorld" where
  "apply_merge_both H c cf w =
     merge_loop H c (find_missing_events (rw_ledger w) (cf_remote_events cf)) True w"

definition apply_remote_preference ::
  "(bytes \<Rightarrow> Hash256) \<Rightarrow> (nat \<Rightarrow> clock) \<Rightarrow> StateConflict \<Rightarrow> RecWorld \<Rightarrow> bool \<times> RecWorld" where
  "apply_remote_preference H c cf w =
     (let (ok, w) = apply_merge_both H c cf w in
      if \<not> ok then (False, w) else (get_latest_hash (rw_ledger w) = cf_remote_hash cf, w))"

definition calculate_proof_of_work :: "LedgerEvent list \<Rightarrow> u32" where
  "calculate_proof_of_work es =
     foldl (\<lambda>work e. if event_type e = KEY_ISSUED then work + 1 else work) 0 es"

definition apply_highest_work ::
  "(bytes \<Rightarrow> Hash256) \<Rightarrow> (nat \<Rightarrow> clock) \<Rightarrow> StateConflict \<Rightarrow> RecWorld \<Rightarrow> bool \<times> RecWorld" where
  "apply_highest_work H c cf w =
     (if calculate_proof_of_work (cf_remote_events cf) > calculate_proof_of_work (cf_local_events cf)
      then apply_remote_preference H c cf w else apply_local_preference cf w)"

definition compute_state_hash :: "(bytes \<Rightarrow> Hash256) \<Rightarrow> LedgerEvent list \<Rightarrow> u64 \<Rightarrow> Hash256" where
  "compute_state_hash H es epoch = H (le_bytes 8 epoch @ concat (map LedgerEvent_to_bytes es))"

definition choose_strategy :: "StateConflict \<Rightarrow> MergeStrategy" where
  "choose_strategy cf =
     (case cf_type cf of
        HASH_MISMATCH \<Rightarrow> HIGHEST_WORK
      | MISSING_EVENTS \<Rightarrow> MERGE_BOTH
      | TIMESTAMP_ANOMALY \<Rightarrow> PREFER_LOCAL
      | EPOCH_FORK \<Rightarrow> MANUAL_REVIEW
      | DUPLICATE_EVENTS \<Rightarrow> HIGHEST_WORK)"

text \<open>\<open>now_e\<close> is the clock when the final epoch is read.\<close>

definition resolve_conflict ::
  "(bytes \<Rightarrow> Hash256) \<Rightarrow> (nat \<Rightarrow> clock) \<Rightarrow> u64 \<Rightarrow> StateConflict \<Rightarrow> MergeStrategy \<Rightarrow> RecWorld
   \<Rightarrow> MergeResult \<times> RecWorld" where
  "resolve_conflict H c now_e cf strategy w =
     (let result = (MergeResult_new False)\<lparr>mr_strategy := Some strategy\<rparr>;
          (result, w) = (case strategy of
              PREFER_LOCAL \<Rightarrow> (let (ok, w) = apply_local_preference cf w in (result\<lparr>mr_success := ok\<rparr>, w))
            | PREFER_REMOTE \<Rightarrow> (let (ok, w) = apply_remote_preference H c cf w in (result\<lparr>mr_success := ok\<rparr>, w))
            | MERGE_BOTH \<Rightarrow> (let (ok, w) = apply_merge_both H c cf w in (result\<lparr>mr_success := ok\<rparr>, w))
            | HIGHEST_WORK \<Rightarrow> (let (ok, w) = apply_highest_work H c cf w in (result\<lparr>mr_success := ok\<rparr>, w))
            | QUORUM_CONSENSUS \<Rightarrow> (result\<lparr>mr_error := ''Quorum consensus requires multiple peers''\<rparr>, w)
            | MANUAL_REVIEW \<Rightarrow> (result\<lparr>mr_error := ''Manual review required'', mr_unresolved := [cf]\<rparr>, w))
      in if mr_success result
         then (result\<lparr>mr_conflicts_resolved := Some 1, mr_final_hash := Some (get_latest_hash (rw_ledger w)),
                 mr_final_epoch := Some (current_epoch now_e)\<rparr>, w\<lparr>rw_resolved := rw_resolved w + 1\<rparr>)
         else (result, w))"

definition add_counts :: "u64 option \<Rightarrow> u64 option \<Rightarrow> u64 option" where
  "add_counts a b = (case (a, b) of (Some x, Some y) \<Rightarrow> Some (x + y) | _ \<Rightarrow> None)"

text \<open>\<open>k i\<close> is the clock of the \<open>i\<close>-th resolution: of each added event, and of its final epoch.\<close>

fun resolve_loop ::
  "(bytes \<Rightarrow> Hash256) \<Rightarrow> (nat \<Rightarrow> (nat \<Rightarrow> clock) \<times> u64) \<Rightarrow> StateConflict list \<Rightarrow> MergeResult \<Rightarrow> RecWorld
   \<Rightarrow> MergeResult \<times> RecWorld" where
  "resolve_loop H k [] acc w = (acc, w)"
| "resolve_loop H k (cf # cfs) acc w =
     (let (r, w) = resolve_conflict H (fst (k 0)) (snd (k 0)) cf (choose_strategy cf) w;
          acc = acc\<lparr>mr_events_added := add_counts (mr_events_added acc) (mr_events_added r),
                    mr_events_removed := add_counts (mr_events_removed acc) (mr_events_removed r),
                    mr_conflicts_resolved := add_counts (mr_conflicts_resolved acc) (mr_conflicts_resolved r)\<rparr>;
          acc = (if \<not> mr_success r then acc\<lparr>mr_success := False, mr_unresolved := mr_unresolved acc @ [cf]\<rparr>
                 else acc)
      in resolve_loop H (\<lambda>i. k (Suc i)) cfs acc w)"

definition resolve_all_conflicts ::
  "(bytes \<Rightarrow> Hash256) \<Rightarrow> (nat \<Rightarrow> (nat \<Rightarrow> clock) \<times> u64) \<Rightarrow> u64 \<Rightarrow> StateConflict list \<Rightarrow> RecWorld
   \<Rightarrow> MergeResult \<times> RecWorld" where
  "resolve_all_conflicts H k now_e cfs w =
     (let (acc, w) = resolve_loop H k cfs ((MergeResult_new True)\<lparr>mr_conflicts_resolved := Some 0\<rparr>) w in
      if mr_success acc
      then (acc\<lparr>mr_final_hash := Some (get_latest_hash (rw_ledger w)),
                mr_final_epoch := Some (current_epoch now_e)\<rparr>, w)
      else (acc, w))"

section \<open>Reconciliation\<close>

text \<open>The readings of the clock in \<open>auto_reconcile_with_peer\<close> and \<open>reconcile_with_quorum\<close>.\<close>

record rec_clock =
  rc_hash_epoch :: u64
  rc_arg_epoch :: u64
  rc_detect_epoch :: u64
  rc_detect :: u64
  rc_classify :: u64
  rc_events :: "nat \<Rightarrow> clock"
  rc_final :: u64

definition auto_reconcile_with_peer ::
  "(bytes \<Rightarrow> Hash256) \<Rightarrow> rec_clock \<Rightarrow> NodeID \<Rightarrow> LedgerEvent list \<Rightarrow> RecWorld \<Rightarrow> MergeResult \<times> RecWorld" where
  "auto_reconcile_with_peer H k peer peer_events w =
     (let w = w\<lparr>rw_reconciliations := rw_reconciliations w + 1\<rparr>;
          peer_hash = compute_state_hash H peer_events (current_epoch (rc_hash_epoch k));
          (cf, w) = detect_conflict (rc_detect_epoch k) (rc_detect k) (rc_classify k) peer
                      (current_epoch (rc_arg_epoch k)) peer_hash peer_events w
      in case cf of
           None \<Rightarrow> ((MergeResult_new True)\<lparr>mr_strategy := Some PREFER_LOCAL,
                      mr_final_hash := Some (get_latest_hash (rw_ledger w)),
                      mr_final_epoch := Some (current_epoch (rc_final k))\<rparr>, w)
         | Some cf \<Rightarrow> resolve_conflict H (rc_events k) (rc_final k) cf (choose_strategy cf) w)"

text \<open>Counting the votes; the events of the first peer with a hash are kept for it.\<close>

fun count_votes ::
  "(bytes \<Rightarrow> Hash256) \<Rightarrow> u64 \<Rightarrow> (NodeID \<times> LedgerEvent list) list
   \<Rightarrow> (Hash256 \<times> u32) list \<Rightarrow> (Hash256 \<times> LedgerEvent list) list
   \<Rightarrow> (Hash256 \<times> u32) list \<times> (Hash256 \<times> LedgerEvent list) list" where
  "count_votes H epoch [] votes evs = (votes, evs)"
| "count_votes H epoch ((peer, es) # ps) votes evs =
     (let hash = compute_state_hash H es epoch in
      count_votes H epoch ps (omap_set hash (opt_or 0 (map_of votes hash) + 1) votes)
        (if map_of evs hash = None then omap_set hash es evs else evs))"

text \<open>\<open>stale\<close> is what the uninitialised \<open>quorum_hash\<close> holds when there is no vote at all.\<close>

definition most_popular :: "Hash256 \<Rightarrow> (Hash256 \<times> u32) list \<Rightarrow> Hash256 \<times> u32" where
  "most_popular stale votes =
     foldl (\<lambda>(best, max_votes) (hash, v). if v > max_votes then (hash, v) else (best, max_votes))
       (stale, 0) votes"

definition reconcile_with_quorum ::
  "(bytes \<Rightarrow> Hash256) \<Rightarrow> rec_clock \<Rightarrow> Hash256 \<Rightarrow> (NodeID \<times> LedgerEvent list) list \<Rightarrow> RecWorld
   \<Rightarrow> MergeResult \<times> RecWorld" where
  "reconcile_with_quorum H k stale peer_states w =
     (let epoch = current_epoch (rc_hash_epoch k);
          (votes, evs) = count_votes H epoch peer_states [] [];
          (quorum_hash, max_votes) = most_popular stale votes in
      if unat max_votes < length peer_states div 2 then
        ((MergeResult_new False)\<lparr>mr_error := ''No quorum consensus reached''\<rparr>, w)
      else
        let our_hash = get_latest_hash (rw_ledger w) in
        if our_hash = quorum_hash then
          ((MergeResult_new True)\<lparr>mr_strategy := Some QUORUM_CONSENSUS, mr_events_added := Some 0,
             mr_events_removed := Some 0, mr_conflicts_resolved := Some 0,
             mr_final_hash := Some our_hash, mr_final_epoch := Some epoch\<rparr>, w)
        else
          resolve_conflict H (rc_events k) (rc_final k)
            \<lparr>cf_type = HASH_MISMATCH, cf_epoch = epoch, cf_local_hash = our_hash,
             cf_remote_hash = quorum_hash, cf_local_events = [],
             cf_remote_events = opt_or [] (map_of evs quorum_hash), cf_peer_id = None,
             cf_detected_at = rc_detect k, cf_description = ''Local state differs from quorum consensus''\<rparr>
            PREFER_REMOTE w)"

definition verify_consistency :: "u64 \<Rightarrow> Hash256 \<Rightarrow> u64 \<Rightarrow> Ledger \<Rightarrow> bool" where
  "verify_consistency now_e expected_hash epoch L =
     (if current_epoch now_e \<noteq> epoch then False else get_latest_hash L = expected_hash)"

section \<open>Lemmas\<close>

definition rec_ok :: "(bytes \<Rightarrow> Hash256) \<Rightarrow> RecWorld \<Rightarrow> bool" where
  "rec_ok H w \<longleftrightarrow> ledger_inv H (rw_ledger w) \<and> lg_events (rw_ledger w) \<noteq> [] \<and>
     rebuild_state (rw_ledger w) (sm_last_rebuild (rw_state w)) (rw_state w) = rw_state w"

lemma rec_ok_counters [simp]:
  "rec_ok H (w\<lparr>rw_detected := n\<rparr>) = rec_ok H w" "rec_ok H (w\<lparr>rw_resolved := n\<rparr>) = rec_ok H w"
  "rec_ok H (w\<lparr>rw_reconciliations := n\<rparr>) = rec_ok H w"
  by (simp_all add: rec_ok_def)

lemma add_external_cases:
  assumes "clock_ok k" "lg_events L \<noteq> [] \<or> event_timestamp e \<le> now_pre k + MAX_FUTURE_SKEW_SECONDS"
  shows "add_external_event H k e L =
    (if map_of (lg_lookup L) (event_id e) = None \<and> previous_hash e = tip_hash H (lg_events L) \<and>
        event_timestamp e \<le> now_pre k + MAX_FUTURE_SKEW_SECONDS
     then (True, appended H e L) else (False, L))"
proof (cases "event_timestamp e \<le> now_pre k + MAX_FUTURE_SKEW_SECONDS")
  case True
  have ok: "now_pre k \<le> now_chain k" "now_chain k \<le> now_verify k" "unat (now_verify k) + 300 < 2 ^ 64"
    "unat (now_chain k) + 300 < 2 ^ 64"
    using assms(1) clock_ok_less [OF assms(1)] by (auto simp: clock_ok_def)
  from skew_mono [OF ok(1,4) True] have c: "event_timestamp e \<le> now_chain k + MAX_FUTURE_SKEW_SECONDS" .
  from skew_mono [OF ok(2,3) c] have "event_timestamp e \<le> now_verify k + MAX_FUTURE_SKEW_SECONDS" .
  with c have "verify_event H k L e"
    if "map_of (lg_lookup L) (event_id e) = None" "previous_hash e = tip_hash H (lg_events L)"
    using that by (simp add: verify_event_def verify_event_chain_tip not_less)
  with True show ?thesis
    by (auto simp: add_external_event_def verify_event_chain_tip add_event_cases)
next
  case False
  with assms(2) show ?thesis by (auto simp: add_external_event_def verify_event_chain_tip)
qed

lemma rec_ok_append:
  assumes "rec_ok H w" "map_of (lg_lookup (rw_ledger w)) (event_id e) = None"
    "previous_hash e = tip_hash H (lg_events (rw_ledger w))"
  shows "rec_ok H (w\<lparr>rw_ledger := appended H e (rw_ledger w), rw_state := apply_event e (rw_state w)\<rparr>)"
proof -
  let ?L = "rw_ledger w"
  have inv: "ledger_inv H ?L" using assms(1) by (simp add: rec_ok_def)
  have "event_id e \<notin> event_id ` set (lg_events ?L)" using assms(2) lookup_none_iff [OF inv] by simp
  then have "verify_event H \<lparr>now_stamp = 0, now_epoch = 0, now_pre = 0, now_chain = event_timestamp e - 300,
      now_verify = event_timestamp e - 300\<rparr> ?L e"
    by (intro verify_event_next [OF inv assms(3)]) (simp_all add: not_in_future_def MAX_FUTURE_SKEW_SECONDS_def)
  with inv have "ledger_inv H (appended H e ?L)" by (rule ledger_inv_appended)
  with assms(1) show ?thesis
    by (auto simp: rec_ok_def rebuild_tracks appended_def cleared_apply_event)
qed

lemma rec_ok_merge_loop:
  "rec_ok H w \<Longrightarrow> (\<And>i. clock_ok (c i)) \<Longrightarrow> rec_ok H (snd (merge_loop H c es ok w))"
proof (induction es arbitrary: c ok w)
  case (Cons e es)
  have ne: "lg_events (rw_ledger w) \<noteq> [] \<or> event_timestamp e \<le> now_pre (c 0) + MAX_FUTURE_SKEW_SECONDS"
    using Cons.prems(1) by (simp add: rec_ok_def)
  note add = add_external_cases [OF Cons.prems(2) [of 0] ne, of H]
  show ?case
    using Cons.prems Cons.IH [of _ "\<lambda>i. c (Suc i)"] rec_ok_append [OF Cons.prems(1), of e]
    by (simp add: add split: if_splits)
qed simp

lemma merge_loop_missing:
  assumes "rec_ok H w" "\<And>i. clock_ok (c i)"
    and "chained H (lg_events (rw_ledger w) @ es)" "distinct (map event_id (lg_events (rw_ledger w) @ es))"
    and "\<And>i e. e \<in> set es \<Longrightarrow> event_timestamp e \<le> now_pre (c i) + MAX_FUTURE_SKEW_SECONDS"
  shows "fst (merge_loop H c es ok w) = ok \<and>
    lg_events (rw_ledger (snd (merge_loop H c es ok w))) = lg_events (rw_ledger w) @ es \<and>
    lg_latest (rw_ledger (snd (merge_loop H c es ok w))) =
      (if es = [] then lg_latest (rw_ledger w) else compute_hash H (last es))"
  using assms
proof (induction es arbitrary: c w)
  case (Cons e es)
  let ?xs = "lg_events (rw_ledger w)"
  have links: "chained H (xs @ e # es) \<Longrightarrow> previous_hash e = tip_hash H xs" for xs
  proof (induction es rule: rev_induct)
    case (snoc x es)
    then show ?case using chained_append [of H "xs @ e # es" x] by simp
  qed (simp add: chained_append)
  have inv: "ledger_inv H (rw_ledger w)" using Cons.prems(1) by (simp add: rec_ok_def)
  have new: "map_of (lg_lookup (rw_ledger w)) (event_id e) = None"
    using Cons.prems(4) lookup_none_iff [OF inv] by auto
  have prev: "previous_hash e = tip_hash H ?xs" by (rule links [OF Cons.prems(3)])
  have ts: "event_timestamp e \<le> now_pre (c 0) + MAX_FUTURE_SKEW_SECONDS" using Cons.prems(5) by simp
  let ?w = "w\<lparr>rw_ledger := appended H e (rw_ledger w), rw_state := apply_event e (rw_state w)\<rparr>"
  have step: "merge_loop H c (e # es) ok w = merge_loop H (\<lambda>i. c (Suc i)) es ok ?w"
    using add_external_cases [OF Cons.prems(2) [of 0] disjI2 [OF ts], of H] new prev ts by simp
  have "fst (merge_loop H (\<lambda>i. c (Suc i)) es ok ?w) = ok \<and>
      lg_events (rw_ledger (snd (merge_loop H (\<lambda>i. c (Suc i)) es ok ?w))) = lg_events (rw_ledger ?w) @ es \<and>
      lg_latest (rw_ledger (snd (merge_loop H (\<lambda>i. c (Suc i)) es ok ?w))) =
        (if es = [] then lg_latest (rw_ledger ?w) else compute_hash H (last es))"
    by (rule Cons.IH [OF rec_ok_append [OF Cons.prems(1) new prev]])
      (use Cons.prems(2-5) in \<open>auto simp: appended_def\<close>)
  then show ?case by (simp only: step) (simp add: appended_def)
qed simp

lemma set_foldl_oset: "set (foldl (\<lambda>s e. oset_insert (f e) s) s0 es) = set s0 \<union> f ` set es"
  by (induction es arbitrary: s0) auto

lemma find_missing_events_spec:
  "find_missing_events L es = filter (\<lambda>e. event_id e \<notin> event_id ` set (lg_events L)) es"
  by (simp add: find_missing_events_def get_all_events_def set_foldl_oset Let_def)

lemma find_missing_suffix:
  assumes "distinct (map event_id (lg_events L @ es))"
  shows "find_missing_events L (lg_events L @ es) = es"
proof -
  have "filter (\<lambda>e. event_id e \<notin> event_id ` set (lg_events L)) es = es"
    using assms by (auto simp: filter_id_conv)
  then show ?thesis by (simp add: find_missing_events_spec)
qed

lemma rec_ok_apply:
  assumes "rec_ok H w" "\<And>i. clock_ok (c i)"
  shows "rec_ok H (snd (apply_merge_both H c cf w))" "rec_ok H (snd (apply_remote_preference H c cf w))"
    "rec_ok H (snd (apply_highest_work H c cf w))" "rec_ok H (snd (apply_local_preference cf w))"
  using rec_ok_merge_loop [OF assms] assms(1)
  by (simp_all add: apply_merge_both_def apply_remote_preference_def apply_highest_work_def
      apply_local_preference_def Let_def case_prod_beta)

lemma rec_ok_resolve:
  assumes "rec_ok H w" "\<And>i. clock_ok (c i)"
  shows "rec_ok H (snd (resolve_conflict H c now cf st w))"
  using rec_ok_apply [where cf = cf, OF assms] assms(1)
  by (cases st) (simp_all add: resolve_conflict_def Let_def case_prod_beta MergeResult_new_def)

lemma rec_ok_resolve_loop:
  "rec_ok H w \<Longrightarrow> (\<And>i j. clock_ok (fst (k i) j)) \<Longrightarrow> rec_ok H (snd (resolve_loop H k cfs acc w))"
proof (induction cfs arbitrary: k acc w)
  case (Cons cf cfs)
  then show ?case
    using rec_ok_resolve [OF Cons.prems(1), of "fst (k 0)" "snd (k 0)" cf "choose_strategy cf"]
    by (simp add: Let_def case_prod_beta)
qed simp

lemma rec_ok_detect: "rec_ok H w \<Longrightarrow> rec_ok H (snd (detect_conflict a b d p ep h es w))"
  by (simp add: detect_conflict_def Let_def)

lemma detect_loop_ledger: "rw_ledger (snd (detect_loop t ep ps w)) = rw_ledger w"
proof (induction ps arbitrary: t w)
  case (Cons p ps)
  obtain q h es where "p = (q, h, es)" by (cases p)
  with Cons.IH show ?case by (simp add: detect_conflict_def Let_def case_prod_beta)
qed simp

lemma rec_ok_detect_all: "rec_ok H w \<Longrightarrow> rec_ok H (snd (detect_all_conflicts now t ps w))"
proof -
  have "rec_ok H w \<Longrightarrow> rec_ok H (snd (detect_loop t ep ps w))" for ep
  proof (induction ps arbitrary: t w)
    case (Cons p ps)
    obtain q h es where "p = (q, h, es)" by (cases p)
    with Cons show ?case by (simp add: rec_ok_detect Let_def case_prod_beta)
  qed simp
  then show "rec_ok H w \<Longrightarrow> ?thesis" by (simp add: detect_all_conflicts_def)
qed

text \<open>The log only grows at its end, by events of a given set.\<close>

definition log_grew :: "LedgerEvent set \<Rightarrow> RecWorld \<Rightarrow> RecWorld \<Rightarrow> bool" where
  "log_grew A w w' \<longleftrightarrow> (\<exists>es. lg_events (rw_ledger w') = lg_events (rw_ledger w) @ es \<and> set es \<subseteq> A)"

lemma log_grew_same: "rw_ledger w' = rw_ledger w \<Longrightarrow> log_grew A w w'"
  by (simp add: log_grew_def)

lemma log_grew_mono: "log_grew A w w' \<Longrightarrow> A \<subseteq> B \<Longrightarrow> log_grew B w w'"
  by (auto simp: log_grew_def)

lemma log_grew_trans:
  assumes "log_grew A w w'" "log_grew B w' w''"
  shows "log_grew (A \<union> B) w w''"
proof -
  obtain xs ys where "lg_events (rw_ledger w') = lg_events (rw_ledger w) @ xs" "set xs \<subseteq> A"
    "lg_events (rw_ledger w'') = lg_events (rw_ledger w') @ ys" "set ys \<subseteq> B"
    using assms by (auto simp: log_grew_def)
  then have "lg_events (rw_ledger w'') = lg_events (rw_ledger w) @ (xs @ ys) \<and> set (xs @ ys) \<subseteq> A \<union> B"
    by auto
  then show ?thesis unfolding log_grew_def by blast
qed

lemma log_grew_add:
  "log_grew {e} w (w\<lparr>rw_ledger := snd (add_external_event H k e (rw_ledger w))\<rparr>)"
  by (auto simp: log_grew_def add_external_event_def add_event_def)

lemma log_grew_merge_loop: "log_grew (set es) w (snd (merge_loop H c es ok w))"
proof (induction es arbitrary: c ok w)
  case (Cons e es)
  obtain b L where add: "add_external_event H (c 0) e (rw_ledger w) = (b, L)" by fastforce
  let ?w = "if b then w\<lparr>rw_ledger := L, rw_state := apply_event e (rw_state w)\<rparr> else w\<lparr>rw_ledger := L\<rparr>"
  have "log_grew {e} w ?w"
    using log_grew_add [of e w H "c 0"] by (simp add: add log_grew_def)
  from log_grew_trans [OF this Cons.IH, of "\<lambda>i. c (Suc i)"]
  have "log_grew (set (e # es)) w (snd (merge_loop H (\<lambda>i. c (Suc i)) es ok' ?w))" for ok' by simp
  then show ?case by (cases b) (simp_all add: add)
qed (simp add: log_grew_same)

lemma log_grew_apply:
  "log_grew (set (cf_remote_events cf)) w (snd (apply_merge_both H c cf w))"
  "log_grew (set (cf_remote_events cf)) w (snd (apply_remote_preference H c cf w))"
  "log_grew (set (cf_remote_events cf)) w (snd (apply_highest_work H c cf w))"
  "log_grew (set (cf_remote_events cf)) w (snd (apply_local_preference cf w))"
proof -
  have "set (find_missing_events (rw_ledger w) (cf_remote_events cf)) \<subseteq> set (cf_remote_events cf)"
    by (auto simp: find_missing_events_def Let_def)
  from log_grew_mono [OF log_grew_merge_loop this]
  show both: "log_grew (set (cf_remote_events cf)) w (snd (apply_merge_both H c cf w))"
    by (simp add: apply_merge_both_def)
  then show "log_grew (set (cf_remote_events cf)) w (snd (apply_remote_preference H c cf w))"
    "log_grew (set (cf_remote_events cf)) w (snd (apply_highest_work H c cf w))"
    "log_grew (set (cf_remote_events cf)) w (snd (apply_local_preference cf w))"
    by (simp_all add: apply_remote_preference_def apply_highest_work_def apply_local_preference_def
        log_grew_same Let_def case_prod_beta)
qed

lemma log_grew_resolve: "log_grew (set (cf_remote_events cf)) w (snd (resolve_conflict H c now cf st w))"
  using log_grew_apply [of cf w] log_grew_same [of w w]
  by (cases st) (simp_all add: resolve_conflict_def Let_def case_prod_beta MergeResult_new_def log_grew_def)

lemma log_grew_resolve_loop:
  "log_grew (\<Union>cf \<in> set cfs. set (cf_remote_events cf)) w (snd (resolve_loop H k cfs acc w))"
proof (induction cfs arbitrary: k acc w)
  case (Cons cf cfs)
  from log_grew_trans [OF log_grew_resolve Cons.IH] show ?case
    by (simp add: Let_def case_prod_beta)
qed (simp add: log_grew_same)

text \<open>Votes.\<close>

lemma count_votes_events:
  "map_of (snd (count_votes H ep ps votes evs)) h = Some es \<Longrightarrow>
   map_of evs h = Some es \<or> es \<in> snd ` set ps"
  by (induction H ep ps votes evs rule: count_votes.induct) (auto simp: Let_def split: if_splits)

lemma count_votes_counts:
  assumes "n + length ps < 2 ^ 32" "\<And>h v. map_of votes h = Some v \<Longrightarrow> 1 \<le> v \<and> unat v \<le> n"
    and "map_of (fst (count_votes H ep ps votes evs)) h = Some v"
  shows "1 \<le> v \<and> unat v \<le> n + length ps"
  using assms
proof (induction ps arbitrary: n votes evs)
  case (Cons p ps)
  obtain q es where p: "p = (q, es)" by (cases p)
  let ?h = "compute_state_hash H es ep"
  let ?n = "opt_or 0 (map_of votes ?h)"
  have le: "unat ?n \<le> n" using Cons.prems(2) by (cases "map_of votes ?h") auto
  moreover have "n + 1 < 2 ^ 32" using Cons.prems(1) by simp
  ultimately have "unat (?n + 1) = unat ?n + 1" by (simp add: unat_word_ariths)
  with le have "1 \<le> ?n + 1 \<and> unat (?n + 1) \<le> Suc n" by (simp add: word_le_nat_alt)
  then have all: "map_of (omap_set ?h (?n + 1) votes) h = Some v \<Longrightarrow> 1 \<le> v \<and> unat v \<le> Suc n" for h v
    using Cons.prems(2) [of h v] by (auto split: if_splits)
  have "map_of (fst (count_votes H ep ps (omap_set ?h (?n + 1) votes)
      (if map_of evs ?h = None then omap_set ?h es evs else evs))) h = Some v"
    using Cons.prems(3) p by (simp add: Let_def)
  from Cons.IH [of "Suc n", OF _ all this] Cons.prems(1) show ?case by simp
qed auto

lemma count_votes_nonempty: "ps \<noteq> [] \<or> votes \<noteq> [] \<Longrightarrow> fst (count_votes H ep ps votes evs) \<noteq> []"
  by (induction H ep ps votes evs rule: count_votes.induct) (simp_all add: Let_def)

lemma most_popular_max:
  assumes "(h, v) \<in> set votes"
  shows "v \<le> snd (most_popular stale votes)"
proof -
  have "b \<le> snd (foldl (\<lambda>(best, m) (hash, v). if v > m then (hash, v) else (best, m)) (a, b) votes) \<and>
      (\<forall>(h, v) \<in> set votes. v \<le> snd (foldl (\<lambda>(best, m) (hash, v). if v > m then (hash, v) else (best, m)) (a, b) votes))"
    for a b
  proof (induction votes arbitrary: a b)
    case (Cons x votes)
    obtain h v where x: "x = (h, v)" by (cases x)
    show ?case
      using Cons.IH [where a = h and b = v] Cons.IH [where a = a and b = b] by (auto simp: x)
  qed simp
  from this [of 0 stale] assms show ?thesis by (auto simp: most_popular_def)
qed

lemma count_votes_same:
  assumes "list_all (\<lambda>p. snd p = es) ps" "map_of evs h = Some es" "h = compute_state_hash H es ep"
  shows "count_votes H ep ps [(h, n)] evs = ([(h, n + word_of_nat (length ps))], evs)"
  using assms(1)
proof (induction ps arbitrary: n)
  case (Cons p ps)
  then show ?case using assms(2,3) by (cases p) (simp add: Let_def algebra_simps)
qed simp

lemma cleared_fold:
  "(fold apply_event es s)\<lparr>sm_nodes := [], sm_networks := [], sm_things := []\<rparr> =
   s\<lparr>sm_nodes := [], sm_networks := [], sm_things := []\<rparr>"
  by (induction es arbitrary: s) (simp_all add: cleared_apply_event)

lemma rebuild_twice:
  "rebuild_state L (sm_last_rebuild (rebuild_state L t s)) (rebuild_state L t s) = rebuild_state L t s"
proof -
  have "(rebuild_state L t s)\<lparr>sm_nodes := [], sm_networks := [], sm_things := []\<rparr> =
      (s\<lparr>sm_nodes := [], sm_networks := [], sm_things := []\<rparr>)\<lparr>sm_last_rebuild := t\<rparr>"
    using cleared_fold [of "lg_events L" "s\<lparr>sm_nodes := [], sm_networks := [], sm_things := []\<rparr>"]
    by (cases "fold apply_event (lg_events L) (s\<lparr>sm_nodes := [], sm_networks := [], sm_things := []\<rparr>)"; cases s)
      (simp add: rebuild_state_def get_all_events_def)
  then show ?thesis
    unfolding rebuild_tracks by (simp add: fold_apply_stamp) (simp add: rebuild_state_def get_all_events_def)
qed

text \<open>The state hash covers the epoch and every event, so its input is longer than any one event.\<close>

lemma state_hash_differs:
  assumes "e \<in> set es"
    and "inj_on H (insert (le_bytes 8 ep @ concat (map LedgerEvent_to_bytes es)) (LedgerEvent_to_bytes ` set es))"
  shows "compute_hash H e \<noteq> compute_state_hash H es ep"
proof
  assume "compute_hash H e = compute_state_hash H es ep"
  then have "LedgerEvent_to_bytes e = le_bytes 8 ep @ concat (map LedgerEvent_to_bytes es)"
    unfolding compute_hash_def compute_state_hash_def
    by (rule inj_onD [OF assms(2)]) (use assms(1) in auto)
  then have "length (LedgerEvent_to_bytes e) = 8 + sum_list (map (length \<circ> LedgerEvent_to_bytes) es)"
    by (simp add: length_concat)
  moreover have "length (LedgerEvent_to_bytes e) \<le> sum_list (map (length \<circ> LedgerEvent_to_bytes) es)"
    using assms(1) by (intro member_le_sum_list) auto
  ultimately show False by simp
qed

section \<open>Properties\<close>

datatype rec_op =
    AutoReconcile rec_clock NodeID "LedgerEvent list"
  | Quorum rec_clock Hash256 "(NodeID \<times> LedgerEvent list) list"
  | ResolveAll "nat \<Rightarrow> (nat \<Rightarrow> clock) \<times> u64" u64 "StateConflict list"
  | ResolveOne "nat \<Rightarrow> clock" u64 StateConflict MergeStrategy
  | DetectOne u64 u64 u64 NodeID u64 Hash256 "LedgerEvent list"
  | DetectAll u64 "nat \<Rightarrow> u64 \<times> u64 \<times> u64" "(NodeID \<times> (Hash256 \<times> LedgerEvent list)) list"

fun rec_step :: "(bytes \<Rightarrow> Hash256) \<Rightarrow> RecWorld \<Rightarrow> rec_op \<Rightarrow> RecWorld" where
  "rec_step H w (AutoReconcile k p es) = snd (auto_reconcile_with_peer H k p es w)"
| "rec_step H w (Quorum k stale ps) = snd (reconcile_with_quorum H k stale ps w)"
| "rec_step H w (ResolveAll k now cfs) = snd (resolve_all_conflicts H k now cfs w)"
| "rec_step H w (ResolveOne c now cf st) = snd (resolve_conflict H c now cf st w)"
| "rec_step H w (DetectOne a b d p ep h es) = snd (detect_conflict a b d p ep h es w)"
| "rec_step H w (DetectAll now t ps) = snd (detect_all_conflicts now t ps w)"

fun rec_clock_ok :: "rec_op \<Rightarrow> bool" where
  "rec_clock_ok (AutoReconcile k p es) = (\<forall>i. clock_ok (rc_events k i))"
| "rec_clock_ok (Quorum k stale ps) = (\<forall>i. clock_ok (rc_events k i))"
| "rec_clock_ok (ResolveAll k now cfs) = (\<forall>i j. clock_ok (fst (k i) j))"
| "rec_clock_ok (ResolveOne c now cf st) = (\<forall>i. clock_ok (c i))"
| "rec_clock_ok (DetectOne a b d p ep h es) = True"
| "rec_clock_ok (DetectAll now t ps) = True"

text \<open>The events that peers offer in an operation.\<close>

fun offered :: "rec_op \<Rightarrow> LedgerEvent set" where
  "offered (AutoReconcile k p es) = set es"
| "offered (Quorum k stale ps) = (\<Union>(p, es) \<in> set ps. set es)"
| "offered (ResolveAll k now cfs) = (\<Union>cf \<in> set cfs. set (cf_remote_events cf))"
| "offered (ResolveOne c now cf st) = set (cf_remote_events cf)"
| "offered (DetectOne a b d p ep h es) = {}"
| "offered (DetectAll now t ps) = {}"

lemma rec_ok_step:
  assumes "rec_ok H w" "rec_clock_ok x"
  shows "rec_ok H (rec_step H w x)"
proof (cases x)
  case (AutoReconcile k p es)
  let ?w = "w\<lparr>rw_reconciliations := rw_reconciliations w + 1\<rparr>"
  let ?d = "detect_conflict (rc_detect_epoch k) (rc_detect k) (rc_classify k) p (current_epoch (rc_arg_epoch k))
    (compute_state_hash H es (current_epoch (rc_hash_epoch k))) es ?w"
  have "rec_ok H (snd ?d)" by (rule rec_ok_detect) (simp add: assms(1))
  moreover from this have "rec_ok H (snd (resolve_conflict H (rc_events k) (rc_final k) cf st (snd ?d)))" for cf st
    by (rule rec_ok_resolve) (use assms(2) AutoReconcile in simp)
  ultimately show ?thesis
    by (simp add: AutoReconcile auto_reconcile_with_peer_def Let_def case_prod_beta split: option.split)
next
  case (Quorum k stale ps)
  have "rec_ok H (snd (resolve_conflict H (rc_events k) (rc_final k) cf st w))" for cf st
    by (rule rec_ok_resolve [OF assms(1)]) (use assms(2) Quorum in simp)
  with assms(1) show ?thesis
    by (simp add: Quorum reconcile_with_quorum_def Let_def case_prod_beta)
next
  case (ResolveAll k now cfs)
  have "rec_ok H (snd (resolve_loop H k cfs acc w))" for acc
    by (rule rec_ok_resolve_loop [OF assms(1)]) (use assms(2) ResolveAll in simp)
  then show ?thesis by (simp add: ResolveAll resolve_all_conflicts_def Let_def case_prod_beta)
next
  case (ResolveOne c now cf st)
  then show ?thesis using assms(2) by (simp add: rec_ok_resolve [OF assms(1)])
qed (simp_all add: rec_ok_detect rec_ok_detect_all assms(1))

lemma log_grew_step: "log_grew (offered x) w (rec_step H w x)"
proof (cases x)
  case (AutoReconcile k p es)
  let ?w = "w\<lparr>rw_reconciliations := rw_reconciliations w + 1\<rparr>"
  let ?d = "detect_conflict (rc_detect_epoch k) (rc_detect k) (rc_classify k) p (current_epoch (rc_arg_epoch k))
    (compute_state_hash H es (current_epoch (rc_hash_epoch k))) es ?w"
  have d: "rw_ledger (snd ?d) = rw_ledger w" by (simp add: detect_conflict_def Let_def)
  have "cf_remote_events cf = es" if "fst ?d = Some cf" for cf
    using that by (auto simp: detect_conflict_def Let_def split: if_splits)
  then have "log_grew (set es) w (snd (resolve_conflict H (rc_events k) (rc_final k) cf st (snd ?d)))"
    if "fst ?d = Some cf" for cf st
    using log_grew_resolve [of cf "snd ?d" H "rc_events k" "rc_final k" st] that d by (simp add: log_grew_def)
  with d show ?thesis
    by (simp add: AutoReconcile auto_reconcile_with_peer_def Let_def case_prod_beta log_grew_same split: option.split)
next
  case (Quorum k stale ps)
  let ?evs = "snd (count_votes H (current_epoch (rc_hash_epoch k)) ps [] [])"
  have "set (opt_or [] (map_of ?evs h)) \<subseteq> (\<Union>(p, es) \<in> set ps. set es)" for h
    using count_votes_events [of H _ ps "[]" "[]" h] by (cases "map_of ?evs h") fastforce+
  then have "log_grew (\<Union>(p, es) \<in> set ps. set es) w
      (snd (resolve_conflict H (rc_events k) (rc_final k) cf st w))"
    if "cf_remote_events cf = opt_or [] (map_of ?evs h)" for cf st h
    using log_grew_mono [OF log_grew_resolve, of cf] that by metis
  then show ?thesis
    by (simp add: Quorum reconcile_with_quorum_def Let_def case_prod_beta log_grew_same)
next
  case (ResolveAll k now cfs)
  then show ?thesis
    using log_grew_resolve_loop [of cfs w H k]
    by (simp add: resolve_all_conflicts_def Let_def case_prod_beta)
qed (simp_all add: log_grew_resolve log_grew_same detect_conflict_def detect_all_conflicts_def detect_loop_ledger Let_def)

lemma log_grew_run: "log_grew (\<Union>x \<in> set ops. offered x) w (foldl (rec_step H) w ops)"
proof (induction ops arbitrary: w)
  case (Cons x ops)
  from log_grew_trans [OF log_grew_step Cons.IH] show ?case by simp
qed (simp add: log_grew_same)

text \<open>
  C21: Reconciliation keeps a node consistent. Start from a valid ledger with at least one event
  whose state manager holds the state rebuilt from it, and let the ledger's clock never run
  backwards while one event is added. Then no sequence of the reconciler's operations
  (detections, resolutions by any strategy, automatic reconciliations and quorum rounds),
  whatever events the peers send, breaks the hash chain or duplicates an identifier; no event is
  removed or reordered, because the log only grows at its end, and only by events the peers
  offered; and the state stays the one that the ledger determines.
\<close>

theorem reconciliation_keeps_consistent:
  assumes "rec_ok H w" "list_all rec_clock_ok ops"
  defines "w' \<equiv> foldl (rec_step H) w ops"
  shows "ledger_inv H (rw_ledger w') \<and>
    (\<exists>es. lg_events (rw_ledger w') = lg_events (rw_ledger w) @ es \<and> set es \<subseteq> (\<Union>x \<in> set ops. offered x)) \<and>
    rebuild_state (rw_ledger w') (sm_last_rebuild (rw_state w')) (rw_state w') = rw_state w'"
proof -
  have "rec_ok H (foldl (rec_step H) w ops)"
    using assms(1,2) by (induction ops arbitrary: w) (simp_all add: rec_ok_step)
  with log_grew_run [of ops w H] show ?thesis
    unfolding w'_def rec_ok_def log_grew_def by blast
qed

definition sample_rec_clock :: rec_clock where
  "sample_rec_clock = \<lparr>rc_hash_epoch = 1700000000, rc_arg_epoch = 1700000000, rc_detect_epoch = 1700000000,
     rc_detect = 1700000000, rc_classify = 1700000000, rc_events = (\<lambda>i. sample_clock), rc_final = 1700000000\<rparr>"

definition one_event_world :: RecWorld where
  "one_event_world = StateReconciliation_init one_event_ledger (rebuild_state one_event_ledger 0 empty_state)"

lemma one_event_world_ok [simp]: "rec_ok toy_hash one_event_world"
  by (simp add: rec_ok_def one_event_world_def StateReconciliation_init_def one_event_inv rebuild_twice)
    (simp add: one_event_ledger_def appended_def)

text \<open>A peer whose log has one event more, in the same epoch: the event is adopted.\<close>

definition peer_next_event :: LedgerEvent where
  "peer_next_event = sample_event\<lparr>event_id := replicate 32 9, event_signature := replicate 64 7,
     previous_hash := compute_hash toy_hash (sample_event\<lparr>previous_hash := zero_hash\<rparr>)\<rparr>"

definition peer_ahead :: rec_op where
  "peer_ahead = AutoReconcile sample_rec_clock (NodeID zero_hash)
     [sample_event\<lparr>previous_hash := zero_hash\<rparr>, peer_next_event]"

lemma peer_ahead_adopted:
  "lg_events (rw_ledger (rec_step toy_hash one_event_world peer_ahead)) =
     [sample_event\<lparr>previous_hash := zero_hash\<rparr>, peer_next_event]"
  by code_simp

theorem reconciliation_keeps_consistent_witness:
  "ledger_inv toy_hash (rw_ledger (rec_step toy_hash one_event_world peer_ahead)) \<and>
   (\<exists>es. lg_events (rw_ledger (rec_step toy_hash one_event_world peer_ahead)) =
           lg_events (rw_ledger one_event_world) @ es \<and> set es \<subseteq> offered peer_ahead) \<and>
   peer_next_event \<in> set (lg_events (rw_ledger (rec_step toy_hash one_event_world peer_ahead)))"
proof -
  have "list_all rec_clock_ok [peer_ahead]" by (simp add: peer_ahead_def sample_rec_clock_def)
  from reconciliation_keeps_consistent [OF one_event_world_ok this] peer_ahead_adopted
  show ?thesis by simp
qed

text \<open>
  Adopting the state of a quorum works but is reported as a failure. When all peers hold the
  same log and the node's log is a prefix of it, the round leaves the node with exactly the
  peers' log; yet the result never says success, because the quorum hash covers the epoch and
  all events while the ledger's latest hash covers one event. (The hash is assumed not to
  collide on these inputs, which are different.)
\<close>

theorem quorum_adopts_but_reports_failure:
  assumes ok: "rec_ok H w" and clocks: "\<And>i. clock_ok (rc_events k i)"
    and latest: "latest_ok H (rw_ledger w)"
    and peers: "list_all (\<lambda>p. snd p = lg_events (rw_ledger w) @ es) ps" "ps \<noteq> []" "length ps < 2 ^ 32"
    and log: "chained H (lg_events (rw_ledger w) @ es)" "distinct (map event_id (lg_events (rw_ledger w) @ es))"
      "\<And>i e. e \<in> set es \<Longrightarrow> event_timestamp e \<le> now_pre (rc_events k i) + MAX_FUTURE_SKEW_SECONDS"
    and inj: "inj_on H (insert (le_bytes 8 (current_epoch (rc_hash_epoch k)) @
        concat (map LedgerEvent_to_bytes (lg_events (rw_ledger w) @ es)))
      (LedgerEvent_to_bytes ` set (lg_events (rw_ledger w) @ es)))"
  shows "lg_events (rw_ledger (snd (reconcile_with_quorum H k stale ps w))) = lg_events (rw_ledger w) @ es \<and>
    \<not> mr_success (fst (reconcile_with_quorum H k stale ps w))"
proof -
  let ?xs = "lg_events (rw_ledger w)"
  let ?ep = "current_epoch (rc_hash_epoch k)"
  let ?h = "compute_state_hash H (?xs @ es) ?ep"
  have ne: "?xs \<noteq> []" using ok by (simp add: rec_ok_def)
  obtain q ps' where ps: "ps = (q, ?xs @ es) # ps'" "list_all (\<lambda>p. snd p = ?xs @ es) ps'"
    using peers(1,2) by (cases ps) auto
  have votes: "count_votes H ?ep ps [] [] = ([(?h, word_of_nat (length ps))], [(?h, ?xs @ es)])"
    using count_votes_same [OF ps(2), of "[(?h, ?xs @ es)]" ?h H ?ep 1] ps(1) by (simp add: Let_def)
  have len: "unat (word_of_nat (length ps) :: u32) = length ps" using peers(3) by simp
  then have "(0 :: u32) < word_of_nat (length ps)"
    using peers(2) by (simp add: word_less_nat_alt)
  then have popular: "most_popular stale [(?h, word_of_nat (length ps))] = (?h, word_of_nat (length ps))"
    by (simp add: most_popular_def)
  have differ: "compute_hash H e \<noteq> ?h" if "e \<in> set (?xs @ es)" for e
    using state_hash_differs [OF that inj] .
  let ?cf = "\<lparr>cf_type = HASH_MISMATCH, cf_epoch = ?ep, cf_local_hash = lg_latest (rw_ledger w), cf_remote_hash = ?h,
    cf_local_events = [], cf_remote_events = ?xs @ es, cf_peer_id = None, cf_detected_at = rc_detect k,
    cf_description = ''Local state differs from quorum consensus''\<rparr>"
  have tip: "lg_latest (rw_ledger w) = compute_hash H (last ?xs)"
    using latest ne by (simp add: latest_ok_def tip_hash_def)
  then have "lg_latest (rw_ledger w) \<noteq> ?h" using differ [of "last ?xs"] ne by simp
  moreover have half: "\<not> length ps < length ps div 2" by simp
  ultimately have res: "reconcile_with_quorum H k stale ps w =
      resolve_conflict H (rc_events k) (rc_final k) ?cf PREFER_REMOTE w"
    using votes popular len half
    by (simp add: reconcile_with_quorum_def get_latest_hash_def Let_def)
  have missing: "find_missing_events (rw_ledger w) (?xs @ es) = es"
    using find_missing_suffix [OF log(2)] by simp
  note merged = merge_loop_missing [where ok = True, OF ok clocks log]
  have "lg_latest (rw_ledger (snd (merge_loop H (rc_events k) es True w))) \<noteq> ?h"
    using merged tip differ ne by (cases "es = []") auto
  with merged missing show ?thesis
    by (simp add: res resolve_conflict_def apply_remote_preference_def apply_merge_both_def
        get_latest_hash_def Let_def case_prod_beta MergeResult_new_def)
qed

definition plain_world :: RecWorld where
  "plain_world = StateReconciliation_init (appended (\<lambda>x. x) (sample_event\<lparr>previous_hash := zero_hash\<rparr>) sample_ledger)
     (rebuild_state (appended (\<lambda>x. x) (sample_event\<lparr>previous_hash := zero_hash\<rparr>) sample_ledger) 0 empty_state)"

theorem quorum_adopts_but_reports_failure_witness:
  "\<not> mr_success (fst (reconcile_with_quorum (\<lambda>x. x) sample_rec_clock zero_hash
     [(NodeID zero_hash, [sample_event\<lparr>previous_hash := zero_hash\<rparr>])] plain_world))"
proof -
  let ?e = "sample_event\<lparr>previous_hash := zero_hash\<rparr>"
  let ?L = "appended (\<lambda>x. x) ?e sample_ledger"
  have ev: "lg_events ?L = [?e]" by (simp add: appended_def Ledger_init_def)
  have "verify_event (\<lambda>x. x) sample_clock sample_ledger ?e"
    by (simp add: verify_event_def verify_event_chain_def Ledger_init_def sample_event_def
        sample_clock_def MAX_FUTURE_SKEW_SECONDS_def)
  then have inv: "ledger_inv (\<lambda>x. x) ?L" by (rule ledger_inv_appended [OF ledger_inv_init])
  have ok: "rec_ok (\<lambda>x. x) plain_world"
    using inv ev by (simp add: rec_ok_def plain_world_def StateReconciliation_init_def rebuild_twice)
  have L: "rw_ledger plain_world = ?L" by (simp add: plain_world_def StateReconciliation_init_def)
  have latest: "latest_ok (\<lambda>x. x) (rw_ledger plain_world)"
    by (simp add: L latest_ok_def tip_hash_def) (simp add: appended_def Ledger_init_def)
  show ?thesis
    using quorum_adopts_but_reports_failure [OF ok _ latest, of sample_rec_clock "[]"
        "[(NodeID zero_hash, [?e])]" zero_hash] L ev
    by (simp add: sample_rec_clock_def chained_def)
qed

text \<open>
  With at most three peers the quorum test never fails, even when no two of them agree: the
  threshold is \<open>size / 2\<close> in integers and is compared with \<open><\<close>.
\<close>

theorem small_quorum_always_reached:
  assumes "ps \<noteq> []" "length ps \<le> 3"
  shows "mr_error (fst (reconcile_with_quorum H k stale ps w)) \<noteq> ''No quorum consensus reached''"
proof -
  let ?v = "fst (count_votes H (current_epoch (rc_hash_epoch k)) ps [] [])"
  obtain h v rest where v: "?v = (h, v) # rest"
    using count_votes_nonempty [of ps "[]"] assms(1) by (metis list.exhaust surj_pair)
  then have "map_of ?v h = Some v" by simp
  from count_votes_counts [OF _ _ this, of 0] assms(2) have "1 \<le> v" by simp
  also have "v \<le> snd (most_popular stale ?v)" by (rule most_popular_max [of h]) (simp add: v)
  finally have "\<not> unat (snd (most_popular stale ?v)) < length ps div 2"
    using assms(2) by (simp add: word_le_nat_alt) 
  then show ?thesis
    by (simp add: reconcile_with_quorum_def resolve_conflict_def Let_def case_prod_beta MergeResult_new_def)
qed

text \<open>
  On an empty ledger a merge applies to the state an event that the ledger refused: the event's
  timestamp lies beyond the allowed skew, the log stays empty, and the node that the event
  names is active in the state.
\<close>

theorem merge_applies_refused_event:
  "let e = sample_event\<lparr>previous_hash := zero_hash, event_timestamp := 1800000000\<rparr>;
       w = StateReconciliation_init sample_ledger empty_state;
       (ok, w') = merge_loop toy_hash (\<lambda>i. sample_clock) [e] True w
   in ok \<and> lg_events (rw_ledger w') = [] \<and> is_node_active (rw_state w') (source_node e)"
  by (simp add: StateReconciliation_init_def add_external_event_def verify_event_chain_def add_event_def
      verify_event_def Ledger_init_def sample_event_def sample_clock_def MAX_FUTURE_SKEW_SECONDS_def
      apply_event_def apply_node_joined_def set_node_def is_node_active_def empty_state_def)

end
