(* ===== verification/Storage.thy ===== *)
theory Storage
  imports Common
begin

text \<open>
  The content store of \<open>src/storage/storage.cpp\<close>: content blobs under their hash and metadata
  values under a key, both as files.

  The file system is two maps from file names to contents; a content file is named by its
  subdirectory and its file name. What the operating system does is the parameter \<open>io\<close>: whether
  creating directories, opening a file for writing or reading, reading and removing succeed,
  and, for a write, whether the stream reports success and which bytes reach the file.
  \<open>std::filesystem::create_directories\<close> throws when it fails. The order in which a directory
  is listed is not specified; it is the parameter \<open>ord\<close>.
\<close>

type_synonym file_name = "string \<times> string"

record Storage =
  st_content :: "(file_name \<times> bytes) list"
  st_metadata :: "(string \<times> bytes) list"

record storage_io =
  io_mkdir :: "string \<Rightarrow> bool"
  io_create :: "file_name \<Rightarrow> bool"
  io_write :: "file_name \<Rightarrow> bytes \<Rightarrow> bool \<times> bytes"
  io_open :: "file_name \<Rightarrow> bool"
  io_read :: "file_name \<Rightarrow> bool"
  io_remove :: "file_name \<Rightarrow> bool"

datatype storage_error = FilesystemError | HexError hex_error

definition Storage_empty :: Storage where
  "Storage_empty = \<lparr>st_content = [], st_metadata = []\<rparr>"

text \<open>The constructor creates both directories and leaves the files as they are.\<close>

definition Storage_open :: "storage_io \<Rightarrow> Storage \<Rightarrow> storage_error + Storage" where
  "Storage_open io s =
     (if \<not> io_mkdir io ''content'' then Inl FilesystemError
      else if \<not> io_mkdir io ''metadata'' then Inl FilesystemError
      else Inr s)"

definition get_content_path :: "ContentHash \<Rightarrow> file_name" where
  "get_content_path h = (let hash_str = ContentHash_to_string h in (take 2 hash_str, hash_str))"

definition get_metadata_path :: "string \<Rightarrow> string" where
  "get_metadata_path key =
     map (\<lambda>c. if c = CHR ''/'' \<or> c = CHR 0x5C \<or> c = CHR '':'' then CHR ''_'' else c) key"

text \<open>The name of a metadata file for \<open>io\<close>, which also sees content files.\<close>

definition metadata_file :: "string \<Rightarrow> file_name" where
  "metadata_file name = (''metadata'', name)"

section \<open>Content\<close>

definition put_content :: "storage_io \<Rightarrow> ContentHash \<Rightarrow> bytes \<Rightarrow> Storage \<Rightarrow> (storage_error + bool) \<times> Storage" where
  "put_content io h data s =
     (let path = get_content_path h in
      if \<not> io_mkdir io (fst path) then (Inl FilesystemError, s)
      else if \<not> io_create io path then (Inr False, s)
      else let (ok, written) = io_write io path data
           in (Inr ok, s\<lparr>st_content := omap_set path written (st_content s)\<rparr>))"

definition get_content :: "storage_io \<Rightarrow> Storage \<Rightarrow> ContentHash \<Rightarrow> bytes option" where
  "get_content io s h =
     (let path = get_content_path h in
      case map_of (st_content s) path of
        None \<Rightarrow> None
      | Some data \<Rightarrow> if \<not> io_open io path then None
                     else if \<not> io_read io path then None
                     else Some data)"

definition has_content :: "Storage \<Rightarrow> ContentHash \<Rightarrow> bool" where
  "has_content s h \<longleftrightarrow> map_of (st_content s) (get_content_path h) \<noteq> None"

definition delete_content :: "storage_io \<Rightarrow> ContentHash \<Rightarrow> Storage \<Rightarrow> bool \<times> Storage" where
  "delete_content io h s =
     (let path = get_content_path h in
      if map_of (st_content s) path = None then (False, s)
      else if \<not> io_remove io path then (False, s)
      else (True, s\<lparr>st_content := omap_erase path (st_content s)\<rparr>))"

section \<open>Metadata\<close>

definition put_metadata :: "storage_io \<Rightarrow> string \<Rightarrow> bytes \<Rightarrow> Storage \<Rightarrow> bool \<times> Storage" where
  "put_metadata io key val s =
     (let path = get_metadata_path key in
      if \<not> io_create io (metadata_file path) then (False, s)
      else let (ok, written) = io_write io (metadata_file path) val
           in (ok, s\<lparr>st_metadata := omap_set path written (st_metadata s)\<rparr>))"

definition get_metadata :: "storage_io \<Rightarrow> Storage \<Rightarrow> string \<Rightarrow> bytes option" where
  "get_metadata io s key =
     (let path = get_metadata_path key in
      case map_of (st_metadata s) path of
        None \<Rightarrow> None
      | Some data \<Rightarrow> if \<not> io_open io (metadata_file path) then None
                     else if io_read io (metadata_file path) then Some data else None)"

definition delete_metadata :: "storage_io \<Rightarrow> string \<Rightarrow> Storage \<Rightarrow> bool \<times> Storage" where
  "delete_metadata io key s =
     (let path = get_metadata_path key in
      if map_of (st_metadata s) path = None then (False, s)
      else if \<not> io_remove io (metadata_file path) then (False, s)
      else (True, s\<lparr>st_metadata := omap_erase path (st_metadata s)\<rparr>))"

section \<open>Listing\<close>

fun parse_names :: "file_name list \<Rightarrow> storage_error + ContentHash list" where
  "parse_names [] = Inr []"
| "parse_names (f # fs) =
     (case ContentHash_from_string (snd f) of
        Inl e \<Rightarrow> Inl (HexError e)
      | Inr h \<Rightarrow> (case parse_names fs of Inl e \<Rightarrow> Inl e | Inr hs \<Rightarrow> Inr (h # hs)))"

definition list_content :: "(file_name list \<Rightarrow> file_name list) \<Rightarrow> Storage \<Rightarrow> storage_error + ContentHash list" where
  "list_content ord s = parse_names (ord (map fst (st_content s)))"

definition total_size :: "Storage \<Rightarrow> u64" where
  "total_size s = foldl (\<lambda>total f. total + word_of_nat (length (snd f))) 0 (st_content s)"

definition item_count :: "(file_name list \<Rightarrow> file_name list) \<Rightarrow> Storage \<Rightarrow> storage_error + nat" where
  "item_count ord s = map_sum id length (list_content ord s)"

section \<open>Lemmas\<close>

text \<open>An operating system in which every operation succeeds.\<close>

definition io_ok :: "storage_io \<Rightarrow> bool" where
  "io_ok io \<longleftrightarrow> (\<forall>d. io_mkdir io d) \<and> (\<forall>f. io_create io f \<and> io_open io f \<and> io_read io f \<and> io_remove io f) \<and>
     (\<forall>f bs. io_write io f bs = (True, bs))"

definition good_io :: storage_io where
  "good_io = \<lparr>io_mkdir = (\<lambda>d. True), io_create = (\<lambda>f. True), io_write = (\<lambda>f bs. (True, bs)),
     io_open = (\<lambda>f. True), io_read = (\<lambda>f. True), io_remove = (\<lambda>f. True)\<rparr>"

lemma good_io_ok [simp]: "io_ok good_io"
  by (simp add: io_ok_def good_io_def)

lemma io_okD [simp]:
  assumes "io_ok io"
  shows "io_mkdir io d" "io_create io f" "io_open io f" "io_read io f" "io_remove io f"
    "io_write io f bs = (True, bs)"
  using assms by (simp_all add: io_ok_def del: split_paired_All)

lemma content_path_inject [simp]: "get_content_path h = get_content_path h' \<longleftrightarrow> h = h'"
  by (auto simp: get_content_path_def Let_def ContentHash_to_string_def dest!: hash_to_hex_inject
      intro: ContentHash.expand)

lemma content_laws:
  assumes "io_ok io"
  shows "put_content io h d s = (Inr True, s\<lparr>st_content := omap_set (get_content_path h) d (st_content s)\<rparr>)"
    "get_content io s h = map_of (st_content s) (get_content_path h)"
    "snd (delete_content io h s) = s\<lparr>st_content := omap_erase (get_content_path h) (st_content s)\<rparr>"
proof -
  show "put_content io h d s = (Inr True, s\<lparr>st_content := omap_set (get_content_path h) d (st_content s)\<rparr>)"
    "get_content io s h = map_of (st_content s) (get_content_path h)"
    using assms by (simp_all add: put_content_def get_content_def Let_def split: option.split)
  have "omap_erase p m = m" if "map_of m p = None" for p and m :: "(file_name \<times> bytes) list"
    using that by (auto simp: omap_erase_def filter_id_conv map_of_eq_None_iff)
  then show "snd (delete_content io h s) = s\<lparr>st_content := omap_erase (get_content_path h) (st_content s)\<rparr>"
    using assms by (simp add: delete_content_def Let_def)
qed

lemma metadata_laws:
  assumes "io_ok io"
  shows "put_metadata io k d s = (True, s\<lparr>st_metadata := omap_set (get_metadata_path k) d (st_metadata s)\<rparr>)"
    "get_metadata io s k = map_of (st_metadata s) (get_metadata_path k)"
  using assms by (simp_all add: put_metadata_def get_metadata_def Let_def split: option.split)

text \<open>With a file system that works, the content files are a map from hashes to blobs.\<close>

interpretation blobs: keyed_store Storage_empty "get_content good_io"
  "\<lambda>h d s. snd (put_content good_io h d s)" "\<lambda>h s. snd (delete_content good_io h s)"
proof
  fix h d s
  show "get_content good_io Storage_empty h = None"
    by (simp add: content_laws Storage_empty_def)
  show "get_content good_io (snd (put_content good_io h d s)) = (get_content good_io s)(h \<mapsto> d)"
    by (rule ext) (simp add: content_laws)
  show "get_content good_io (snd (delete_content good_io h s)) = (get_content good_io s)(h := None)"
    by (rule ext) (simp add: content_laws)
qed

text \<open>Every content file is named by a hash of 32 bytes.\<close>

definition storage_inv :: "Storage \<Rightarrow> bool" where
  "storage_inv s \<longleftrightarrow> omap_ok (st_content s) \<and>
     (\<forall>f \<in> fst ` set (st_content s). \<exists>h. length (content_bytes h) = 32 \<and> f = get_content_path h)"

datatype storage_op =
    PutContent ContentHash bytes
  | DeleteContent ContentHash
  | PutMetadata string bytes
  | DeleteMetadata string

fun storage_step :: "Storage \<Rightarrow> storage_io \<times> storage_op \<Rightarrow> Storage" where
  "storage_step s (io, PutContent h d) = (if length (content_bytes h) = 32 then snd (put_content io h d s) else s)"
| "storage_step s (io, DeleteContent h) = snd (delete_content io h s)"
| "storage_step s (io, PutMetadata k v) = snd (put_metadata io k v s)"
| "storage_step s (io, DeleteMetadata k) = snd (delete_metadata io k s)"

lemma storage_inv_step: "storage_inv s \<Longrightarrow> storage_inv (storage_step s x)"
proof (cases x)
  case (Pair io c)
  assume inv: "storage_inv s"
  show ?thesis
  proof (cases c)
    case (PutContent h d)
    let ?m = "omap_set (get_content_path h) (snd (io_write io (get_content_path h) d)) (st_content s)"
    have "storage_inv (s\<lparr>st_content := ?m\<rparr>)" if "length (content_bytes h) = 32"
    proof -
      have "\<forall>f \<in> fst ` set ?m. \<exists>h. length (content_bytes h) = 32 \<and> f = get_content_path h"
        unfolding keys_omap_set using inv that by (auto simp: storage_inv_def)
      with inv show ?thesis by (simp add: storage_inv_def)
    qed
    with inv PutContent Pair show ?thesis
      by (simp add: put_content_def Let_def case_prod_beta)
  next
    case (DeleteContent h)
    with inv Pair show ?thesis
      by (auto simp: storage_inv_def delete_content_def Let_def omap_erase_def intro: omap_ok_erase [unfolded omap_erase_def])
  qed (use inv Pair in \<open>simp_all add: storage_inv_def put_metadata_def delete_metadata_def Let_def case_prod_beta\<close>)
qed

interpretation stm: invariant_machine storage_step storage_inv
  by unfold_locales (rule storage_inv_step)

lemma parse_names_paths:
  "\<forall>f \<in> set fs. \<exists>h. length (content_bytes h) = 32 \<and> f = get_content_path h \<Longrightarrow>
   \<exists>hs. parse_names fs = Inr hs \<and> map get_content_path hs = fs"
proof (induction fs)
  case (Cons f fs)
  then obtain h hs where h: "length (content_bytes h) = 32" "f = get_content_path h"
    and hs: "parse_names fs = Inr hs" "map get_content_path hs = fs" by auto
  have "ContentHash_from_string (snd f) = Inr h"
    using h(1)
    by (simp add: h(2) get_content_path_def Let_def ContentHash_to_string_def ContentHash_from_string_def
        hex_to_hash_def hex_pairs_hash_to_hex)
  with h hs show ?case by (intro exI [of _ "h # hs"]) simp
qed simp

section \<open>Properties\<close>

text \<open>
  With a file system that works, the store is a map: reading a hash returns the blob written
  last under it, or nothing when it was deleted, and no other hash is affected; metadata
  values are returned under their key, and only keys that become the same file name share a value.
\<close>

theorem storage_is_a_map:
  assumes "io_ok io"
  shows "get_content io (snd (put_content io h d s)) = (get_content io s)(h \<mapsto> d) \<and>
    get_content io (snd (delete_content io h s)) = (get_content io s)(h := None) \<and>
    get_metadata io (snd (put_metadata io k v s)) k = Some v \<and>
    (get_metadata_path k' \<noteq> get_metadata_path k \<longrightarrow>
       get_metadata io (snd (put_metadata io k v s)) k' = get_metadata io s k') \<and>
    get_metadata io (snd (put_content io h d s)) k = get_metadata io s k"
proof -
  have "get_content io (snd (put_content io h d s)) h' = ((get_content io s)(h \<mapsto> d)) h'"
    "get_content io (snd (delete_content io h s)) h' = ((get_content io s)(h := None)) h'" for h'
    using assms by (simp_all add: content_laws)
  with assms show ?thesis by (auto simp: metadata_laws content_laws fun_eq_iff)
qed

theorem storage_is_a_map_witness:
  "get_content good_io (snd (put_content good_io (ContentHash zero_hash) [1, 2] Storage_empty)) (ContentHash zero_hash) =
     Some [1, 2]"
  using storage_is_a_map [OF good_io_ok, of "ContentHash zero_hash" "[1, 2]" Storage_empty "''k''" "[]" "''k''"]
  by simp

text \<open>
  After every sequence of operations, also when some of them fail, listing the store succeeds
  and returns, without repetition, exactly the hashes for which content exists.
\<close>

theorem list_content_complete:
  fixes ops :: "(storage_io \<times> storage_op) list"
  assumes "\<And>fs. set (ord fs) = set fs \<and> length (ord fs) = length fs"
  defines "s \<equiv> foldl storage_step Storage_empty ops"
  shows "\<exists>hs. list_content ord s = Inr hs \<and> distinct hs \<and> set hs = {h. has_content s h} \<and>
    item_count ord s = Inr (card {h. has_content s h})"
proof -
  have inv: "storage_inv s"
    unfolding s_def by (rule stm.run_inv) (simp add: storage_inv_def Storage_empty_def)
  let ?fs = "ord (map fst (st_content s))"
  obtain hs where hs: "parse_names ?fs = Inr hs" "map get_content_path hs = ?fs"
    using parse_names_paths [of ?fs] inv assms(1) [of "map fst (st_content s)"]
    by (auto simp: storage_inv_def)
  have "distinct (map fst (st_content s))" using inv by (simp add: storage_inv_def omap_ok_distinct)
  then have "distinct ?fs"
    using assms(1) [of "map fst (st_content s)"] by (metis card_distinct distinct_card)
  then have d: "distinct hs" using hs(2) by (metis distinct_map)
  have "h \<in> set hs \<longleftrightarrow> has_content s h" for h
  proof -
    have "h \<in> set hs \<longleftrightarrow> get_content_path h \<in> set ?fs" using hs(2) by (auto simp flip: hs(2))
    also have "\<dots> \<longleftrightarrow> has_content s h"
      using assms(1) [of "map fst (st_content s)"] by (simp add: has_content_def map_of_eq_None_iff)
    finally show ?thesis .
  qed
  then have "set hs = {h. has_content s h}" by auto
  moreover from this d have "length hs = card {h. has_content s h}" by (metis distinct_card)
  ultimately show ?thesis using d hs(1) by (simp add: list_content_def item_count_def)
qed

theorem list_content_complete_witness:
  "\<exists>hs. list_content rev (foldl storage_step Storage_empty [(good_io, PutContent (ContentHash zero_hash) [7])]) =
     Inr hs \<and> distinct hs"
  using list_content_complete [of rev "[(good_io, PutContent (ContentHash zero_hash) [7])]"] by auto

text \<open>
  Metadata keys that differ only in \<open>/\<close>, \<open>\\<close>, \<open>:\<close> and \<open>_\<close> are the same file, so storing under one
  overwrites the other.
\<close>

theorem metadata_keys_collide:
  "get_metadata good_io (snd (put_metadata good_io ''a:b'' v s)) ''a_b'' = Some v"
  by (simp add: metadata_laws get_metadata_path_def)

text \<open>A file in the content directory whose name is not a hash makes the listing throw.\<close>

theorem foreign_file_breaks_listing:
  "list_content (\<lambda>fs. fs) (Storage_empty\<lparr>st_content := [((''tm'', ''tmp''), [])]\<rparr>) = Inl (HexError InvalidHexLength)"
  by (simp add: list_content_def ContentHash_from_string_def hex_to_hash_def)

end
