(* ===== verification/Thing.thy ===== *)
theory Thing
  imports Storage Keys
begin

text \<open>
  Things, \<open>src/core/thing/thing.cpp\<close>: content-addressed blobs of at most 500 MB with their metadata,
  the metadata's byte format and signature, creation with its checks, and saving to and loading
  from the content store.

  BLAKE3 is the parameter \<open>H\<close> and Ed25519 verification the parameter \<open>verify\<close>. A \<open>size_t\<close> is written
  with its eight bytes, least significant first, as on the platforms the code is built for.
  \<open>CASHEW_DATA_DIR\<close> only selects the store, which is the argument \<open>s\<close>. The call
  \<open>tags.reserve(tag_count)\<close> of the reader, which may exhaust memory, is left out.
\<close>

section \<open>Data\<close>

type_synonym ThingType = u8

record ThingMetadata =
  tm_content_hash :: ContentHash
  tm_name :: string
  tm_description :: string
  tm_type :: ThingType
  tm_size_bytes :: u64
  tm_created_timestamp :: u64
  tm_creator_id :: NodeID
  tm_tags :: "string list"
  tm_version :: u32
  tm_creator_signature :: bytes
  tm_mime_type :: string
  tm_entry_point :: string

record Thing =
  thing_data :: bytes
  thing_metadata :: ThingMetadata

definition MAX_SIZE :: nat where
  "MAX_SIZE = 500 * 1024 * 1024"

definition thing_type_to_string :: "ThingType \<Rightarrow> string" where
  "thing_type_to_string t =
     (if t = 1 then ''game'' else if t = 2 then ''dictionary'' else if t = 3 then ''dataset''
      else if t = 4 then ''app'' else if t = 5 then ''document'' else if t = 6 then ''media''
      else if t = 7 then ''library'' else if t = 8 then ''forum'' else ''unknown'')"

section \<open>Metadata\<close>

definition read_string :: "bytes \<Rightarrow> (string \<times> bytes) option" where
  "read_string data =
     (case read_scalar 4 data of None \<Rightarrow> None | Some (len :: u32, data) \<Rightarrow>
     (case read_blob (unat len) data of None \<Rightarrow> None | Some (s, data) \<Rightarrow>
        Some (string_of_bytes s, data)))"

definition write_string :: "string \<Rightarrow> bytes" where
  "write_string s = le_bytes 4 (word_of_nat (length s) :: u32) @ bytes_of_string s"

definition ThingMetadata_serialize :: "ThingMetadata \<Rightarrow> bytes" where
  "ThingMetadata_serialize m =
     content_bytes (tm_content_hash m) @ write_string (tm_name m) @ write_string (tm_description m)
     @ [tm_type m] @ le_bytes 8 (tm_size_bytes m) @ le_bytes 8 (tm_created_timestamp m)
     @ node_bytes (tm_creator_id m)
     @ le_bytes 4 (word_of_nat (length (tm_tags m)) :: u32) @ concat (map write_string (tm_tags m))
     @ le_bytes 4 (tm_version m) @ tm_creator_signature m
     @ write_string (tm_mime_type m) @ write_string (tm_entry_point m)"

fun read_tags :: "nat \<Rightarrow> bytes \<Rightarrow> (string list \<times> bytes) option" where
  "read_tags 0 data = Some ([], data)"
| "read_tags (Suc n) data =
     (case read_string data of None \<Rightarrow> None | Some (t, data) \<Rightarrow>
     (case read_tags n data of None \<Rightarrow> None | Some (ts, data) \<Rightarrow> Some (t # ts, data)))"

definition ThingMetadata_deserialize :: "bytes \<Rightarrow> ThingMetadata option" where
  "ThingMetadata_deserialize data =
     (case read_blob 32 data of None \<Rightarrow> None | Some (hash, data) \<Rightarrow>
     (case read_string data of None \<Rightarrow> None | Some (name, data) \<Rightarrow>
     (case read_string data of None \<Rightarrow> None | Some (description, data) \<Rightarrow>
     (case read_scalar 1 data of None \<Rightarrow> None | Some (type_val :: u8, data) \<Rightarrow>
     (case read_scalar 8 data of None \<Rightarrow> None | Some (size_val :: u64, data) \<Rightarrow>
     (case read_scalar 8 data of None \<Rightarrow> None | Some (created :: u64, data) \<Rightarrow>
     (case read_blob 32 data of None \<Rightarrow> None | Some (creator, data) \<Rightarrow>
     (case read_scalar 4 data of None \<Rightarrow> None | Some (tag_count :: u32, data) \<Rightarrow>
     (case read_tags (unat tag_count) data of None \<Rightarrow> None | Some (tags, data) \<Rightarrow>
     (case read_scalar 4 data of None \<Rightarrow> None | Some (version :: u32, data) \<Rightarrow>
     (case read_blob 64 data of None \<Rightarrow> None | Some (signature, data) \<Rightarrow>
     (case read_string data of None \<Rightarrow> None | Some (mime_type, data) \<Rightarrow>
     (case read_string data of None \<Rightarrow> None | Some (entry_point, data) \<Rightarrow>
        Some \<lparr>tm_content_hash = ContentHash hash, tm_name = name, tm_description = description,
          tm_type = type_val, tm_size_bytes = size_val, tm_created_timestamp = created,
          tm_creator_id = NodeID creator, tm_tags = tags, tm_version = version,
          tm_creator_signature = signature, tm_mime_type = mime_type,
          tm_entry_point = entry_point\<rparr>)))))))))))))"

definition ThingMetadata_message :: "ThingMetadata \<Rightarrow> bytes" where
  "ThingMetadata_message m =
     content_bytes (tm_content_hash m) @ bytes_of_string (tm_name m) @ le_bytes 8 (tm_created_timestamp m)"

definition ThingMetadata_verify_signature ::
  "(bytes \<Rightarrow> bytes \<Rightarrow> bytes \<Rightarrow> bool) \<Rightarrow> ThingMetadata \<Rightarrow> bytes \<Rightarrow> bool" where
  "ThingMetadata_verify_signature verify m pk = verify (ThingMetadata_message m) (tm_creator_signature m) pk"

section \<open>Things\<close>

definition Thing_create :: "(bytes \<Rightarrow> Hash256) \<Rightarrow> bytes \<Rightarrow> ThingMetadata \<Rightarrow> Thing option" where
  "Thing_create H data m =
     (if length data > MAX_SIZE then None
      else if data = [] then None
      else if ContentHash (H data) \<noteq> tm_content_hash m then None
      else if length data \<noteq> unat (tm_size_bytes m) then None
      else Some \<lparr>thing_data = data, thing_metadata = m\<rparr>)"

definition thing_content_hash :: "Thing \<Rightarrow> ContentHash" where
  "thing_content_hash t = tm_content_hash (thing_metadata t)"

definition thing_size :: "Thing \<Rightarrow> nat" where
  "thing_size t = length (thing_data t)"

definition verify_integrity :: "(bytes \<Rightarrow> Hash256) \<Rightarrow> Thing \<Rightarrow> bool" where
  "verify_integrity H t \<longleftrightarrow> ContentHash (H (thing_data t)) = tm_content_hash (thing_metadata t)"

definition metadata_key :: "ContentHash \<Rightarrow> string" where
  "metadata_key h = ''thing_meta_'' @ ContentHash_to_string h"

definition Thing_load ::
  "(bytes \<Rightarrow> Hash256) \<Rightarrow> storage_io \<Rightarrow> Storage \<Rightarrow> ContentHash \<Rightarrow> storage_error + Thing option" where
  "Thing_load H io s h =
     (case Storage_open io s of
        Inl err \<Rightarrow> Inl err
      | Inr s \<Rightarrow>
          (case get_content io s h of None \<Rightarrow> Inr None | Some data \<Rightarrow>
          (case get_metadata io s (metadata_key h) of None \<Rightarrow> Inr None | Some meta_bytes \<Rightarrow>
          (case ThingMetadata_deserialize meta_bytes of None \<Rightarrow> Inr None | Some m \<Rightarrow>
             Inr (Thing_create H data m)))))"

definition Thing_save :: "storage_io \<Rightarrow> Thing \<Rightarrow> Storage \<Rightarrow> (storage_error + bool) \<times> Storage" where
  "Thing_save io t s =
     (case Storage_open io s of
        Inl err \<Rightarrow> (Inl err, s)
      | Inr s \<Rightarrow>
          (case put_content io (thing_content_hash t) (thing_data t) s of
             (Inl err, s) \<Rightarrow> (Inl err, s)
           | (Inr False, s) \<Rightarrow> (Inr False, s)
           | (Inr True, s) \<Rightarrow>
               let (ok, s) = put_metadata io (metadata_key (thing_content_hash t))
                               (ThingMetadata_serialize (thing_metadata t)) s
               in if \<not> ok then (Inr False, s) else (Inr True, s)))"

definition get_chunk :: "Thing \<Rightarrow> nat \<Rightarrow> nat \<Rightarrow> bytes" where
  "get_chunk t offset n =
     (if offset \<ge> length (thing_data t) then []
      else let actual_length = min n (length (thing_data t) - offset)
           in slice offset actual_length (thing_data t))"

section \<open>Lemmas\<close>

definition wf_string :: "string \<Rightarrow> bool" where
  "wf_string s \<longleftrightarrow> length s < 2 ^ 32"

definition wf_ThingMetadata :: "ThingMetadata \<Rightarrow> bool" where
  "wf_ThingMetadata m \<longleftrightarrow> length (content_bytes (tm_content_hash m)) = 32 \<and>
     length (node_bytes (tm_creator_id m)) = 32 \<and> length (tm_creator_signature m) = 64 \<and>
     length (tm_tags m) < 2 ^ 32 \<and>
     list_all wf_string (tm_tags m @ [tm_name m, tm_description m, tm_mime_type m, tm_entry_point m])"

lemma read_write_string [simp]: "wf_string s \<Longrightarrow> read_string (write_string s @ rest) = Some (s, rest)"
  by (simp add: read_string_def write_string_def wf_string_def)

lemma read_write_tags:
  "list_all wf_string ts \<Longrightarrow> read_tags (length ts) (concat (map write_string ts) @ rest) = Some (ts, rest)"
  by (induction ts) simp_all

lemma ThingMetadata_codec:
  assumes "wf_ThingMetadata m"
  shows "ThingMetadata_deserialize (ThingMetadata_serialize m @ rest) = Some m"
proof -
  have "ContentHash (content_bytes (tm_content_hash m)) = tm_content_hash m"
    "NodeID (node_bytes (tm_creator_id m)) = tm_creator_id m" by simp_all
  with assms show ?thesis
    by (simp add: ThingMetadata_deserialize_def ThingMetadata_serialize_def wf_ThingMetadata_def read_write_tags)
qed

interpretation thingmetac: trailing_codec ThingMetadata_serialize ThingMetadata_deserialize wf_ThingMetadata
  by unfold_locales (rule ThingMetadata_codec)

lemma Thing_create_iff:
  "Thing_create H data m = Some t \<longleftrightarrow>
     data \<noteq> [] \<and> length data \<le> MAX_SIZE \<and> ContentHash (H data) = tm_content_hash m \<and>
     length data = unat (tm_size_bytes m) \<and> t = \<lparr>thing_data = data, thing_metadata = m\<rparr>"
  by (auto simp: Thing_create_def)

lemma metadata_key_path: "get_metadata_path (metadata_key h) = metadata_key h"
proof -
  have "c \<in> set hex_digits" if "c \<in> set (hash_to_hex bs)" for c bs
  proof -
    have "unat b div 16 < 16" "unat b mod 16 < 16" for b :: u8
      using unat_u8_less [of b] by (simp_all add: less_mult_imp_div_less)
    moreover have "length hex_digits = 16" by (simp add: hex_digits_def)
    ultimately show ?thesis using that by (auto simp: hash_to_hex_def)
  qed
  then have "c \<noteq> CHR ''/'' \<and> c \<noteq> CHR 0x5C \<and> c \<noteq> CHR '':''" if "c \<in> set (metadata_key h)" for c
    using that by (fastforce simp: metadata_key_def ContentHash_to_string_def hex_digits_def)
  then show ?thesis by (simp add: get_metadata_path_def map_idI)
qed

lemma metadata_key_inject [simp]: "metadata_key h = metadata_key h' \<longleftrightarrow> h = h'"
  by (auto simp: metadata_key_def ContentHash_to_string_def dest!: hash_to_hex_inject intro: ContentHash.expand)

lemma Thing_save_ok:
  assumes "io_ok io"
  shows "Thing_save io t s = (Inr True,
    s\<lparr>st_content := omap_set (get_content_path (thing_content_hash t)) (thing_data t) (st_content s),
      st_metadata := omap_set (metadata_key (thing_content_hash t))
        (ThingMetadata_serialize (thing_metadata t)) (st_metadata s)\<rparr>)"
  using assms
  by (simp add: Thing_save_def Storage_open_def content_laws metadata_laws metadata_key_path Let_def)

lemma Thing_load_ok:
  assumes "io_ok io"
  shows "Thing_load H io s h = Inr
    (case (map_of (st_content s) (get_content_path h), map_of (st_metadata s) (metadata_key h)) of
       (Some data, Some bs) \<Rightarrow> (case ThingMetadata_deserialize bs of None \<Rightarrow> None | Some m \<Rightarrow> Thing_create H data m)
     | _ \<Rightarrow> None)"
  using assms
  by (simp add: Thing_load_def Storage_open_def content_laws metadata_laws metadata_key_path split: option.split)

section \<open>Properties\<close>

text \<open>
  A Thing is created exactly from non-empty data of at most 500 MB whose hash and size are
  those of the metadata; so every Thing, created or loaded, passes its integrity check.
\<close>

theorem thing_integrity:
  "(Thing_create H data m \<noteq> None \<longleftrightarrow>
      data \<noteq> [] \<and> length data \<le> 500 * 1024 * 1024 \<and> ContentHash (H data) = tm_content_hash m \<and>
      length data = unat (tm_size_bytes m)) \<and>
   (Thing_create H data m = Some t \<or> Thing_load H io s h = Inr (Some t) \<longrightarrow>
      verify_integrity H t \<and> 0 < thing_size t \<and> thing_size t \<le> 500 * 1024 * 1024 \<and>
      thing_size t = unat (tm_size_bytes (thing_metadata t)))"
proof -
  have ok: "Thing_create H d x = Some t \<Longrightarrow> verify_integrity H t \<and> 0 < thing_size t \<and>
      thing_size t \<le> 500 * 1024 * 1024 \<and> thing_size t = unat (tm_size_bytes (thing_metadata t))" for d x
    by (simp add: Thing_create_iff verify_integrity_def thing_size_def MAX_SIZE_def)
      (metis length_greater_0_conv)
  have "\<exists>d x. Thing_create H d x = Some t" if "Thing_load H io s h = Inr (Some t)"
    using that by (auto simp: Thing_load_def split: sum.splits option.splits)
  with ok have "Thing_create H data m = Some t \<or> Thing_load H io s h = Inr (Some t) \<longrightarrow>
      verify_integrity H t \<and> 0 < thing_size t \<and> thing_size t \<le> 500 * 1024 * 1024 \<and>
      thing_size t = unat (tm_size_bytes (thing_metadata t))"
    by blast
  moreover have "Thing_create H data m \<noteq> None \<longleftrightarrow>
      data \<noteq> [] \<and> length data \<le> 500 * 1024 * 1024 \<and> ContentHash (H data) = tm_content_hash m \<and>
      length data = unat (tm_size_bytes m)"
    by (simp add: Thing_create_def MAX_SIZE_def)
  ultimately show ?thesis by (rule conjI [rotated])
qed

definition sample_metadata :: ThingMetadata where
  "sample_metadata = \<lparr>tm_content_hash = ContentHash (replicate 32 3), tm_name = ''doc'', tm_description = [],
     tm_type = 5, tm_size_bytes = 4, tm_created_timestamp = 1700000000, tm_creator_id = NodeID (replicate 32 1),
     tm_tags = [''a'', ''b''], tm_version = 1, tm_creator_signature = replicate 64 0, tm_mime_type = ''text/plain'',
     tm_entry_point = []\<rparr>"

definition const_hash :: "bytes \<Rightarrow> Hash256" where
  "const_hash bs = replicate 32 3"

lemma sample_metadata_wf [simp]: "wf_ThingMetadata sample_metadata"
  by (simp add: wf_ThingMetadata_def sample_metadata_def wf_string_def)

lemma sample_thing: "Thing_create const_hash [1, 2, 3, 4] sample_metadata =
    Some \<lparr>thing_data = [1, 2, 3, 4], thing_metadata = sample_metadata\<rparr>"
  by (simp add: Thing_create_def MAX_SIZE_def const_hash_def sample_metadata_def)

theorem thing_integrity_witness:
  "verify_integrity const_hash \<lparr>thing_data = [1, 2, 3, 4], thing_metadata = sample_metadata\<rparr>"
  using thing_integrity [of const_hash "[1, 2, 3, 4]" sample_metadata
    "\<lparr>thing_data = [1, 2, 3, 4], thing_metadata = sample_metadata\<rparr>" good_io Storage_empty "ContentHash zero_hash"]
  by (simp add: sample_thing)

text \<open>
  Saving a Thing and loading it by its hash returns the same Thing, and loading any other hash
  gives what it gave before.
\<close>

theorem thing_save_load:
  assumes "io_ok io" "Thing_create H data m = Some t" "wf_ThingMetadata m"
  shows "fst (Thing_save io t s) = Inr True \<and>
    Thing_load H io (snd (Thing_save io t s)) (thing_content_hash t) = Inr (Some t) \<and>
    (h \<noteq> thing_content_hash t \<longrightarrow> Thing_load H io (snd (Thing_save io t s)) h = Thing_load H io s h)"
proof -
  have t: "t = \<lparr>thing_data = data, thing_metadata = m\<rparr>" using assms(2) by (simp add: Thing_create_iff)
  have "ThingMetadata_deserialize (ThingMetadata_serialize m) = Some m"
    using ThingMetadata_codec [OF assms(3), of "[]"] by simp
  then show ?thesis
    using assms(2) by (auto simp: Thing_save_ok [OF assms(1)] Thing_load_ok [OF assms(1)] t thing_content_hash_def)
qed

theorem thing_save_load_witness:
  "Thing_load const_hash good_io (snd (Thing_save good_io
     \<lparr>thing_data = [1, 2, 3, 4], thing_metadata = sample_metadata\<rparr> Storage_empty)) (ContentHash (replicate 32 3)) =
   Inr (Some \<lparr>thing_data = [1, 2, 3, 4], thing_metadata = sample_metadata\<rparr>)"
  using thing_save_load [OF good_io_ok sample_thing sample_metadata_wf, of Storage_empty "ContentHash zero_hash"]
  by (simp add: thing_content_hash_def) (simp add: sample_metadata_def)

text \<open>
  Thing metadata survives serialisation, also when bytes follow.
\<close>

theorem ThingMetadata_roundtrip:
  "wf_ThingMetadata m \<Longrightarrow> ThingMetadata_deserialize (ThingMetadata_serialize m @ rest) = Some m"
  by (rule thingmetac.dec_enc_append)

theorem ThingMetadata_roundtrip_witness:
  "ThingMetadata_deserialize (ThingMetadata_serialize sample_metadata @ [1]) = Some sample_metadata"
  by (rule ThingMetadata_roundtrip) simp

text \<open>
  Fetching a Thing chunk by chunk gives its content: the chunks of any positive size at
  consecutive offsets, up to the first empty one, put together are the data.
\<close>

theorem chunks_reassemble:
  assumes "0 < n" "thing_size t \<le> k * n"
  shows "concat (map (\<lambda>i. get_chunk t (i * n) n) [0..<k]) = thing_data t"
proof -
  have chunk: "get_chunk t off n = take n (drop off (thing_data t))" for off
    by (simp add: get_chunk_def slice_def Let_def min_def)
  have "concat (map (\<lambda>i. take n (drop (i * n) xs)) [0..<k]) = take (k * n) xs" for xs :: bytes
  proof (induction k)
    case (Suc k)
    have "take (k * n) xs @ take n (drop (k * n) xs) = take (k * n + n) xs" by (simp add: take_add)
    with Suc show ?case by (simp add: add.commute)
  qed simp
  with assms(2) show ?thesis by (simp add: chunk thing_size_def)
qed

theorem chunks_reassemble_witness:
  "concat (map (\<lambda>i. get_chunk \<lparr>thing_data = [1, 2, 3, 4, 5], thing_metadata = sample_metadata\<rparr> (i * 2) 2) [0..<3]) =
   [1, 2, 3, 4, 5]"
  using chunks_reassemble [of 2 "\<lparr>thing_data = [1, 2, 3, 4, 5], thing_metadata = sample_metadata\<rparr>" 3]
  by (simp add: thing_size_def)

text \<open>
  What the creator signs: the message determines content hash, name and creation time, and nothing
  else, so a signature stays valid when type, description, tags, version, MIME type or entry
  point are changed.
\<close>

theorem thing_signature_covers:
  assumes "length (content_bytes (tm_content_hash a)) = 32" "length (content_bytes (tm_content_hash b)) = 32"
  shows "ThingMetadata_message a = ThingMetadata_message b \<longleftrightarrow>
    tm_content_hash a = tm_content_hash b \<and> tm_name a = tm_name b \<and> tm_created_timestamp a = tm_created_timestamp b"
proof -
  have "ThingMetadata_message a = ThingMetadata_message b \<longleftrightarrow>
      content_bytes (tm_content_hash a) = content_bytes (tm_content_hash b) \<and>
      bytes_of_string (tm_name a) = bytes_of_string (tm_name b) \<and>
      le_bytes 8 (tm_created_timestamp a) = le_bytes 8 (tm_created_timestamp b)"
    using assms by (auto simp: ThingMetadata_message_def)
  moreover have "le_bytes 8 x = le_bytes 8 y \<longleftrightarrow> x = y" for x y :: u64
    by (metis le_word_le_bytes_u64)
  ultimately show ?thesis by (auto intro: ContentHash.expand)
qed

end
