(* ===== verification/Pow.thy ===== *)
theory Pow
  imports Common
begin

text \<open>
  \<open>ProofOfWork\<close> of \<open>src/core/pow/pow.cpp\<close> over the Argon2 wrapper of \<open>src/crypto/argon2.cpp\<close>:
  puzzle generation, solving, verification, the adaptive difficulty and the benchmark.

  libsodium is a parameter: \<open>pwhash\<close> is \<open>crypto_pwhash\<close> (arguments password, salt, time cost,
  memory in bytes, output length; \<open>None\<close> when it fails) and \<open>ghash\<close> is \<open>crypto_generichash\<close>
  with a 16-byte output. The random nonces are a function of the attempt, and so is the time
  that has passed when an attempt ends. \<open>solve_puzzle\<close> without a limit and \<open>benchmark_node\<close> loop
  until they succeed; both have a fuel argument, and \<open>None\<close> means that the fuel ran out.
\<close>

record Params =
  memory_cost_kb :: u32
  time_cost :: u32
  parallelism :: u32

record PowPuzzle =
  pz_challenge :: bytes
  pz_difficulty :: u32
  pz_params :: Params
  pz_epoch :: u64
  pz_timestamp :: u64

record PowSolution =
  sol_hash :: Hash256
  sol_nonce :: u64
  sol_difficulty :: u32
  sol_time_ms :: u64

datatype pow_error = SaltTooShort | HashingFailed | DivideByZero

section \<open>Argon2\<close>

definition Params_interactive :: Params where
  "Params_interactive = \<lparr>memory_cost_kb = 65536, time_cost = 2, parallelism = 1\<rparr>"

definition Params_moderate :: Params where
  "Params_moderate = \<lparr>memory_cost_kb = 262144, time_cost = 3, parallelism = 1\<rparr>"

definition Params_sensitive :: Params where
  "Params_sensitive = \<lparr>memory_cost_kb = 1048576, time_cost = 4, parallelism = 1\<rparr>"

type_synonym pwhash = "bytes \<Rightarrow> bytes \<Rightarrow> u32 \<Rightarrow> u32 \<Rightarrow> nat \<Rightarrow> bytes option"

definition Argon2_hash :: "pwhash \<Rightarrow> bytes \<Rightarrow> bytes \<Rightarrow> Params \<Rightarrow> nat \<Rightarrow> pow_error + bytes" where
  "Argon2_hash pwhash password salt ps output_len =
     (if length salt < 16 then Inl SaltTooShort
      else case pwhash password salt (time_cost ps) (memory_cost_kb ps * 1024) output_len of
             None \<Rightarrow> Inl HashingFailed
           | Some h \<Rightarrow> Inr h)"

definition Argon2_verify :: "pwhash \<Rightarrow> bytes \<Rightarrow> bytes \<Rightarrow> bytes \<Rightarrow> Params \<Rightarrow> bool" where
  "Argon2_verify pwhash password salt expected_hash ps =
     (case Argon2_hash pwhash password salt ps (length expected_hash) of
        Inl _ \<Rightarrow> False
      | Inr h \<Rightarrow> h = expected_hash)"

definition Argon2_solve_puzzle ::
  "pwhash \<Rightarrow> (bytes \<Rightarrow> bytes) \<Rightarrow> bytes \<Rightarrow> u64 \<Rightarrow> Params \<Rightarrow> pow_error + Hash256" where
  "Argon2_solve_puzzle pwhash ghash challenge nonce ps =
     (let input = challenge @ le_bytes 8 nonce; salt = ghash challenge in
      case Argon2_hash pwhash input salt ps 32 of
        Inl err \<Rightarrow> Inl err
      | Inr h \<Rightarrow> Inr (take 32 h))"

section \<open>Difficulty\<close>

definition TARGET_SOLVE_TIME_MS :: u64 where
  "TARGET_SOLVE_TIME_MS = 10 * 60 * 1000"

definition MIN_DIFFICULTY :: u32 where
  "MIN_DIFFICULTY = 4"

definition MAX_DIFFICULTY :: u32 where
  "MAX_DIFFICULTY = 32"

text \<open>\<open>while ((b & mask) == 0 && mask != 0) { ++count; mask >>= 1; }\<close>\<close>

function clz_mask :: "u8 \<Rightarrow> u8 \<Rightarrow> u32 \<Rightarrow> u32" where
  "clz_mask b msk count =
     (if b AND msk = 0 \<and> msk \<noteq> 0 then clz_mask b (drop_bit 1 msk) (count + 1) else count)"
  by auto

termination clz_mask
proof (relation "measure (\<lambda>(b, msk, count). unat msk)")
  fix b msk :: u8 and count :: u32
  assume "b AND msk = 0 \<and> msk \<noteq> 0"
  then have "unat msk > 0" by (simp add: unat_gt_0)
  then show "((b, drop_bit 1 msk, count + 1), b, msk, count) \<in> measure (\<lambda>(b, msk, count). unat msk)"
    by (simp add: drop_bit_eq_div unat_div)
qed simp

declare clz_mask.simps [simp del]

fun clz_loop :: "u32 \<Rightarrow> bytes \<Rightarrow> u32" where
  "clz_loop count [] = count"
| "clz_loop count (b # bs) = (if b = 0 then clz_loop (count + 8) bs else clz_mask b 0x80 count)"

definition count_leading_zeros :: "Hash256 \<Rightarrow> u32" where
  "count_leading_zeros hash = clz_loop 0 hash"

definition meets_difficulty :: "Hash256 \<Rightarrow> u32 \<Rightarrow> bool" where
  "meets_difficulty hash difficulty \<longleftrightarrow> count_leading_zeros hash \<ge> difficulty"

definition adjust_difficulty :: "u64 \<Rightarrow> u32 \<Rightarrow> u32" where
  "adjust_difficulty previous_solve_time_ms current_difficulty =
     (if previous_solve_time_ms < TARGET_SOLVE_TIME_MS div 2 then min (current_difficulty + 1) MAX_DIFFICULTY
      else if previous_solve_time_ms > TARGET_SOLVE_TIME_MS * 2 then
        (if current_difficulty > MIN_DIFFICULTY then current_difficulty - 1 else MIN_DIFFICULTY)
      else current_difficulty)"

definition get_starting_difficulty :: "u64 \<Rightarrow> u32" where
  "get_starting_difficulty hashes_per_second =
     (if hashes_per_second < 10 then MIN_DIFFICULTY
      else if hashes_per_second < 50 then MIN_DIFFICULTY + 2
      else if hashes_per_second < 100 then MIN_DIFFICULTY + 4
      else MIN_DIFFICULTY + 6)"

section \<open>Puzzles\<close>

definition generate_puzzle :: "bytes \<Rightarrow> u64 \<Rightarrow> u32 \<Rightarrow> u64 \<Rightarrow> PowPuzzle" where
  "generate_puzzle challenge_data epoch node_difficulty now =
     (let difficulty = max MIN_DIFFICULTY (min node_difficulty MAX_DIFFICULTY) in
      \<lparr>pz_challenge = challenge_data, pz_difficulty = difficulty,
       pz_params = (if difficulty \<le> 8 then Params_interactive
                    else if difficulty \<le> 16 then Params_moderate else Params_sensitive),
       pz_epoch = epoch, pz_timestamp = now\<rparr>)"

fun solve_loop ::
  "pwhash \<Rightarrow> (bytes \<Rightarrow> bytes) \<Rightarrow> (u64 \<Rightarrow> u64) \<Rightarrow> (u64 \<Rightarrow> u64) \<Rightarrow> nat \<Rightarrow> PowPuzzle \<Rightarrow> u64 \<Rightarrow> u64
    \<Rightarrow> (pow_error + PowSolution option) option" where
  "solve_loop pwhash ghash rnd elapsed 0 puzzle max_attempts attempt = None"
| "solve_loop pwhash ghash rnd elapsed (Suc fuel) puzzle max_attempts attempt =
     (if max_attempts = 0 \<or> attempt < max_attempts then
        let nonce = rnd attempt in
        case Argon2_solve_puzzle pwhash ghash (pz_challenge puzzle) nonce (pz_params puzzle) of
          Inl err \<Rightarrow> Some (Inl err)
        | Inr hash \<Rightarrow>
            if meets_difficulty hash (pz_difficulty puzzle)
            then Some (Inr (Some \<lparr>sol_hash = hash, sol_nonce = nonce,
                   sol_difficulty = pz_difficulty puzzle, sol_time_ms = elapsed attempt\<rparr>))
            else solve_loop pwhash ghash rnd elapsed fuel puzzle max_attempts (attempt + 1)
      else Some (Inr None))"

definition solve_puzzle ::
  "pwhash \<Rightarrow> (bytes \<Rightarrow> bytes) \<Rightarrow> (u64 \<Rightarrow> u64) \<Rightarrow> (u64 \<Rightarrow> u64) \<Rightarrow> nat \<Rightarrow> PowPuzzle \<Rightarrow> u64
    \<Rightarrow> (pow_error + PowSolution option) option" where
  "solve_puzzle pwhash ghash rnd elapsed fuel puzzle max_attempts =
     solve_loop pwhash ghash rnd elapsed fuel puzzle max_attempts 0"

definition verify_solution ::
  "pwhash \<Rightarrow> (bytes \<Rightarrow> bytes) \<Rightarrow> PowPuzzle \<Rightarrow> PowSolution \<Rightarrow> pow_error + bool" where
  "verify_solution pwhash ghash puzzle solution =
     (if sol_difficulty solution \<noteq> pz_difficulty puzzle then Inr False
      else case Argon2_solve_puzzle pwhash ghash (pz_challenge puzzle) (sol_nonce solution)
                  (pz_params puzzle) of
             Inl err \<Rightarrow> Inl err
           | Inr computed_hash \<Rightarrow>
               if computed_hash \<noteq> sol_hash solution then Inr False
               else if \<not> meets_difficulty computed_hash (pz_difficulty puzzle) then Inr False
               else Inr True)"

fun benchmark_loop ::
  "pwhash \<Rightarrow> (bytes \<Rightarrow> bytes) \<Rightarrow> (u64 \<Rightarrow> u64) \<Rightarrow> nat \<Rightarrow> bytes \<Rightarrow> u64 \<Rightarrow> u64 \<Rightarrow> (pow_error + u64) option" where
  "benchmark_loop pwhash ghash elapsed 0 test_data duration hashes = None"
| "benchmark_loop pwhash ghash elapsed (Suc fuel) test_data duration hashes =
     (case Argon2_solve_puzzle pwhash ghash test_data hashes Params_interactive of
        Inl err \<Rightarrow> Some (Inl err)
      | Inr _ \<Rightarrow>
          if elapsed (hashes + 1) \<ge> duration then Some (Inr (hashes + 1))
          else benchmark_loop pwhash ghash elapsed fuel test_data duration (hashes + 1))"

definition benchmark_node ::
  "pwhash \<Rightarrow> (bytes \<Rightarrow> bytes) \<Rightarrow> (u64 \<Rightarrow> u64) \<Rightarrow> nat \<Rightarrow> bytes \<Rightarrow> u64 \<Rightarrow> (pow_error + u64) option" where
  "benchmark_node pwhash ghash elapsed fuel test_data duration =
     (case benchmark_loop pwhash ghash elapsed fuel test_data duration 0 of
        None \<Rightarrow> None
      | Some (Inl err) \<Rightarrow> Some (Inl err)
      | Some (Inr hashes) \<Rightarrow>
          if duration = 0 then Some (Inl DivideByZero) else Some (Inr ((hashes * 1000) div duration)))"

section \<open>Leading zeros\<close>

text \<open>The hash read as a big-endian number.\<close>

fun be_value :: "bytes \<Rightarrow> nat" where
  "be_value [] = 0"
| "be_value (b # bs) = unat b * 256 ^ length bs + be_value bs"

lemma be_value_less: "be_value bs < 256 ^ length bs"
proof (induction bs)
  case (Cons b bs)
  have "unat b * 256 ^ length bs \<le> 255 * 256 ^ length bs"
    using unat_u8_less [of b] by (intro mult_right_mono) linarith+
  with Cons have "unat b * 256 ^ length bs + be_value bs < 256 * 256 ^ length bs" by linarith
  then show ?case by simp
qed simp

lemma top_bit:
  fixes b :: u8
  assumes "unat b < 2 ^ Suc n"
  shows "bit b n \<longleftrightarrow> 2 ^ n \<le> unat b"
proof -
  have "unat b div 2 ^ n < 2" using assms by (simp add: less_mult_imp_div_less)
  then have "odd (unat b div 2 ^ n) \<longleftrightarrow> unat b div 2 ^ n \<noteq> 0"
    using less_2_cases [of "unat b div 2 ^ n"] by auto
  moreover have "bit b n \<longleftrightarrow> odd (unat b div 2 ^ n)"
  proof -
    have "bit (unat b) n \<longleftrightarrow> bit b n" by (simp add: bit_unsigned_iff)
    then show ?thesis by (simp only: bit_iff_odd)
  qed
  ultimately show ?thesis by (simp add: div_eq_0_iff not_less)
qed

lemma clz_mask_spec:
  assumes "b \<noteq> 0" "unat b < 2 ^ Suc j" "j < 8"
  shows "\<exists>k \<le> j. clz_mask b (push_bit j 1) c = c + word_of_nat k \<and>
    2 ^ (j - k) \<le> unat b \<and> unat b < 2 ^ Suc (j - k)"
  using assms
proof (induction j arbitrary: c)
  case 0
  then have "unat b = 1" by (metis One_nat_def less_2_cases power_one_right unat_eq_0)
  then have "b = 1" by (metis unat_1 unsigned_word_eqI)
  then show ?case by (simp add: clz_mask.simps)
next
  case (Suc j)
  let ?m = "push_bit (Suc j) (1 :: u8)"
  have test: "b AND ?m = 0 \<longleftrightarrow> \<not> bit b (Suc j)"
    by (simp add: bit_iff_and_push_bit_not_eq_0)
  have bits: "bit ?m i \<longleftrightarrow> i = Suc j" for i
    using Suc.prems(3) unfolding bit_push_bit_iff by (auto simp: bit_1_iff)
  then have m0: "?m \<noteq> 0" by (metis bit_0_eq bot_apply bot_bool_def)
  have half: "drop_bit 1 ?m = push_bit j 1"
  proof (rule bit_word_eqI)
    fix i :: nat assume "i < LENGTH(8)"
    then show "bit (drop_bit 1 ?m) i \<longleftrightarrow> bit (push_bit j (1 :: u8)) i"
      using Suc.prems(3) unfolding bit_drop_bit_eq comp_def bits bit_push_bit_iff
      by (auto simp: bit_1_iff)
  qed
  show ?case
  proof (cases "bit b (Suc j)")
    case True
    then have "clz_mask b ?m c = c" using test by (simp add: clz_mask.simps)
    with True Suc.prems(2) show ?thesis
      by (intro exI [of _ 0]) (simp add: top_bit)
  next
    case False
    then have "unat b < 2 ^ Suc j" using top_bit [OF Suc.prems(2)] by simp
    from Suc.IH [OF Suc.prems(1) this, of "c + 1"] Suc.prems(3) obtain k where
      k: "k \<le> j" "clz_mask b (push_bit j 1) (c + 1) = c + 1 + word_of_nat k"
        "2 ^ (j - k) \<le> unat b" "unat b < 2 ^ Suc (j - k)" by auto
    have "clz_mask b ?m c = c + word_of_nat (Suc k)"
      using False test m0 half k(2) by (subst clz_mask.simps) simp
    with k show ?thesis by (intro exI [of _ "Suc k"]) simp
  qed
qed

lemma pow256: "(256 :: nat) ^ n = 2 ^ (8 * n)"
  by (simp add: power_mult)

lemma clz_loop_spec:
  "\<exists>z \<le> 8 * length bs. clz_loop c bs = c + word_of_nat z \<and> be_value bs < 2 ^ (8 * length bs - z) \<and>
     (z < 8 * length bs \<longrightarrow> 2 ^ (8 * length bs - z - 1) \<le> be_value bs)"
proof (induction bs arbitrary: c)
  case Nil
  then show ?case by simp
next
  case (Cons b bs)
  show ?case
  proof (cases "b = 0")
    case True
    from Cons [of "c + 8"] obtain z where
      z: "z \<le> 8 * length bs" "clz_loop (c + 8) bs = c + 8 + word_of_nat z"
        "be_value bs < 2 ^ (8 * length bs - z)"
        "z < 8 * length bs \<longrightarrow> 2 ^ (8 * length bs - z - 1) \<le> be_value bs" by blast
    with True show ?thesis by (intro exI [of _ "z + 8"]) (simp add: algebra_simps)
  next
    case False
    have "unat b < 2 ^ Suc 7" using unat_u8_less [of b] by simp
    from clz_mask_spec [OF False this, of c] obtain k where
      k: "k \<le> 7" "clz_mask b 0x80 c = c + word_of_nat k" "2 ^ (7 - k) \<le> unat b" "unat b < 2 ^ Suc (7 - k)"
      by auto
    have e: "8 * length (b # bs) - k = Suc (7 - k) + 8 * length bs"
      "8 * length (b # bs) - k - 1 = (7 - k) + 8 * length bs" using k(1) by auto
    have "be_value (b # bs) < (unat b + 1) * 2 ^ (8 * length bs)"
      using be_value_less [of bs] by (simp add: pow256)
    also have "\<dots> \<le> 2 ^ Suc (7 - k) * 2 ^ (8 * length bs)"
      using k(4) by (intro mult_right_mono) simp_all
    finally have up: "be_value (b # bs) < 2 ^ (8 * length (b # bs) - k)"
      by (simp only: e power_add)
    have "2 ^ (7 - k) * 2 ^ (8 * length bs) \<le> unat b * 2 ^ (8 * length bs)"
      using k(3) by (rule mult_right_mono) simp
    then have lo: "2 ^ (8 * length (b # bs) - k - 1) \<le> be_value (b # bs)"
      unfolding e(2) power_add be_value.simps pow256 by linarith
    show ?thesis
      using False k(1,2) up lo by (intro exI [of _ k]) (simp del: be_value.simps)
  qed
qed

lemma leading_zeros_iff:
  assumes "length hash = 32" "d \<le> 256"
  shows "d \<le> count_leading_zeros hash \<longleftrightarrow> be_value hash < 2 ^ (256 - unat d)"
proof -
  obtain z where z: "z \<le> 256" "count_leading_zeros hash = word_of_nat z" "be_value hash < 2 ^ (256 - z)"
    "z < 256 \<longrightarrow> 2 ^ (256 - z - 1) \<le> be_value hash"
    using clz_loop_spec [of hash 0] assms(1) by (auto simp: count_leading_zeros_def)
  have "unat (word_of_nat z :: u32) = z" using z(1) by (intro unat_of_nat_u32) simp
  then have le: "d \<le> count_leading_zeros hash \<longleftrightarrow> unat d \<le> z"
    using z(2) by (simp add: word_le_nat_alt)
  show ?thesis
  proof (cases "unat d \<le> z")
    case True
    then have "(2 :: nat) ^ (256 - z) \<le> 2 ^ (256 - unat d)" by (intro power_increasing) simp_all
    with z(3) True le show ?thesis by linarith
  next
    case False
    have "unat d \<le> 256" using assms(2) by (simp add: word_le_nat_alt)
    with False have "z < 256" "(2 :: nat) ^ (256 - unat d) \<le> 2 ^ (256 - z - 1)"
      by (auto intro: power_increasing)
    with z(4) False le show ?thesis by linarith
  qed
qed

section \<open>The solving loop\<close>

text \<open>The attempt is a solution; the attempt fails without an error.\<close>

definition solves :: "pwhash \<Rightarrow> (bytes \<Rightarrow> bytes) \<Rightarrow> PowPuzzle \<Rightarrow> u64 \<Rightarrow> bool" where
  "solves pwhash ghash p nonce =
     (case Argon2_solve_puzzle pwhash ghash (pz_challenge p) nonce (pz_params p) of
        Inl _ \<Rightarrow> False | Inr h \<Rightarrow> meets_difficulty h (pz_difficulty p))"

definition misses :: "pwhash \<Rightarrow> (bytes \<Rightarrow> bytes) \<Rightarrow> PowPuzzle \<Rightarrow> u64 \<Rightarrow> bool" where
  "misses pwhash ghash p nonce =
     (case Argon2_solve_puzzle pwhash ghash (pz_challenge p) nonce (pz_params p) of
        Inl _ \<Rightarrow> False | Inr h \<Rightarrow> \<not> meets_difficulty h (pz_difficulty p))"

lemma verify_found:
  "Argon2_solve_puzzle pwhash ghash (pz_challenge p) nonce (pz_params p) = Inr h \<Longrightarrow>
   meets_difficulty h (pz_difficulty p) \<Longrightarrow>
   verify_solution pwhash ghash p \<lparr>sol_hash = h, sol_nonce = nonce,
     sol_difficulty = pz_difficulty p, sol_time_ms = ms\<rparr> = Inr True"
  by (simp add: verify_solution_def)

lemma solve_loop_verifies:
  "solve_loop pwhash ghash rnd elapsed fuel p limit a = Some (Inr (Some sol)) \<Longrightarrow>
   verify_solution pwhash ghash p sol = Inr True"
  by (induction fuel arbitrary: a)
    (auto simp: Let_def verify_found split: if_splits sum.splits)

text \<open>The loop passes over \<open>k\<close> attempts that miss.\<close>

lemma solve_loop_skip:
  assumes "\<forall>i < k. misses pwhash ghash p (rnd (word_of_nat i))"
    and "limit = 0 \<or> k \<le> unat limit" "k < 2 ^ 64"
  shows "solve_loop pwhash ghash rnd elapsed (k + fuel) p limit 0 =
    solve_loop pwhash ghash rnd elapsed fuel p limit (word_of_nat k)"
  using assms
proof (induction k arbitrary: fuel)
  case 0
  then show ?case by simp
next
  case (Suc k)
  have "limit = 0 \<or> word_of_nat k < limit"
    using Suc.prems(2,3) by (auto simp: word_less_nat_alt)
  moreover have "misses pwhash ghash p (rnd (word_of_nat k))" using Suc.prems(1) by simp
  ultimately have "solve_loop pwhash ghash rnd elapsed (Suc fuel) p limit (word_of_nat k) =
      solve_loop pwhash ghash rnd elapsed fuel p limit (word_of_nat (Suc k))"
    by (auto simp: misses_def Let_def add.commute split: sum.splits)
  moreover have "solve_loop pwhash ghash rnd elapsed (k + Suc fuel) p limit 0 =
      solve_loop pwhash ghash rnd elapsed (Suc fuel) p limit (word_of_nat k)"
    using Suc.prems by (intro Suc.IH) auto
  ultimately show ?case by (simp only: add_Suc_shift)
qed

section \<open>Properties\<close>

text \<open>
  C39: the difficulty is a bound on the hash: a 32-byte hash meets difficulty \<open>d\<close> exactly when,
  read as a big-endian number, it is below \<open>2^(256 - d)\<close>.
\<close>

theorem meets_difficulty_value:
  assumes "length hash = 32" "d \<le> 256"
  shows "meets_difficulty hash d \<longleftrightarrow> be_value hash < 2 ^ (256 - unat d)"
  using leading_zeros_iff [OF assms] by (simp add: meets_difficulty_def)

lemma be_value_zeros: "be_value (replicate n 0) = 0"
  by (induction n) simp_all

theorem meets_difficulty_value_witness:
  "meets_difficulty (0 # 0x0F # replicate 30 0) 12 \<and> \<not> meets_difficulty (0 # 0x10 # replicate 30 0) 12"
  using meets_difficulty_value [of "0 # 0x0F # replicate 30 0" 12]
    meets_difficulty_value [of "0 # 0x10 # replicate 30 0" 12]
  by (simp add: be_value_zeros)

text \<open>
  C32: solving finds the first nonce that works: when the first \<open>k\<close> random nonces miss and the
  next one meets the difficulty, within the limit if there is one, \<open>solve_puzzle\<close> returns a
  solution with that nonce, and \<open>verify_solution\<close> accepts it.
\<close>

theorem solve_puzzle_first:
  assumes "\<forall>i < k. misses pwhash ghash p (rnd (word_of_nat i))" "solves pwhash ghash p (rnd (word_of_nat k))"
    and "limit = 0 \<or> k < unat limit" "k < 2 ^ 64" "k < fuel"
  shows "\<exists>sol. solve_puzzle pwhash ghash rnd elapsed fuel p limit = Some (Inr (Some sol)) \<and>
    sol_nonce sol = rnd (word_of_nat k) \<and> sol_time_ms sol = elapsed (word_of_nat k) \<and>
    verify_solution pwhash ghash p sol = Inr True"
proof -
  obtain f where fuel: "fuel = k + Suc f" using assms(5) less_imp_Suc_add by fastforce
  have "limit = 0 \<or> word_of_nat k < limit"
    using assms(3,4) by (auto simp: word_less_nat_alt)
  then have "\<exists>sol. solve_loop pwhash ghash rnd elapsed (Suc f) p limit (word_of_nat k) = Some (Inr (Some sol)) \<and>
      sol_nonce sol = rnd (word_of_nat k) \<and> sol_time_ms sol = elapsed (word_of_nat k)"
    using assms(2) by (auto simp: solves_def Let_def split: sum.splits)
  moreover have "solve_loop pwhash ghash rnd elapsed fuel p limit 0 =
      solve_loop pwhash ghash rnd elapsed (Suc f) p limit (word_of_nat k)"
    unfolding fuel by (rule solve_loop_skip) (use assms in auto)
  ultimately show ?thesis
    using solve_loop_verifies by (metis solve_puzzle_def)
qed

text \<open>A memory-hard function that never fails, for the witnesses.\<close>

definition toy_pwhash :: pwhash where
  "toy_pwhash password salt t m n = Some (take n (rev password @ replicate n 0))"

definition toy_ghash :: "bytes \<Rightarrow> bytes" where
  "toy_ghash challenge = replicate 16 0"

definition toy_nonces :: "u64 \<Rightarrow> u64" where
  "toy_nonces i = (if i = 0 then 2 ^ 63 else 1)"

theorem solve_puzzle_first_witness:
  "\<exists>sol. solve_puzzle toy_pwhash toy_ghash toy_nonces (\<lambda>i. i) 5
      (generate_puzzle [] 1 0 7) 0 = Some (Inr (Some sol)) \<and>
    sol_nonce sol = 1 \<and> verify_solution toy_pwhash toy_ghash (generate_puzzle [] 1 0 7) sol = Inr True"
proof -
  have "\<forall>i < 1. misses toy_pwhash toy_ghash (generate_puzzle [] 1 0 7)
      (toy_nonces (word_of_nat i))"
    by code_simp
  moreover have "solves toy_pwhash toy_ghash (generate_puzzle [] 1 0 7)
      (toy_nonces (word_of_nat 1))"
    by code_simp
  ultimately show ?thesis
    using solve_puzzle_first [of 1 toy_pwhash toy_ghash "generate_puzzle [] 1 0 7"
        toy_nonces 0 5 "\<lambda>i. i"] by (auto simp: toy_nonces_def)
qed

text \<open>
  with a limit, solving always ends, within \<open>limit + 1\<close> rounds of the loop, and it gives
  up only after every one of the \<open>limit\<close> nonces has missed.
\<close>

theorem solve_puzzle_terminates:
  assumes "limit \<noteq> 0" "unat limit < fuel"
  shows "solve_puzzle pwhash ghash rnd elapsed fuel p limit \<noteq> None \<and>
    (solve_puzzle pwhash ghash rnd elapsed fuel p limit = Some (Inr None) \<longleftrightarrow>
      (\<forall>i < unat limit. misses pwhash ghash p (rnd (word_of_nat i))))"
proof (cases "\<forall>i < unat limit. misses pwhash ghash p (rnd (word_of_nat i))")
  case True
  obtain f where fuel: "fuel = unat limit + Suc f" using assms(2) less_imp_Suc_add by fastforce
  have "unat limit < 2 ^ 64" using unsigned_less [of limit] by simp
  then have "solve_loop pwhash ghash rnd elapsed fuel p limit 0 =
      solve_loop pwhash ghash rnd elapsed (Suc f) p limit (word_of_nat (unat limit))"
    unfolding fuel by (intro solve_loop_skip True) auto
  with True assms(1) show ?thesis by (simp add: solve_puzzle_def)
next
  case False
  define k where "k = (LEAST i. \<not> misses pwhash ghash p (rnd (word_of_nat i)))"
  obtain i where i: "i < unat limit" "\<not> misses pwhash ghash p (rnd (word_of_nat i))" using False by blast
  have k: "\<not> misses pwhash ghash p (rnd (word_of_nat k))" "k < unat limit"
    unfolding k_def using i LeastI [of "\<lambda>i. \<not> misses pwhash ghash p (rnd (word_of_nat i))" i]
      Least_le [of "\<lambda>i. \<not> misses pwhash ghash p (rnd (word_of_nat i))" i]
    by (blast intro: le_less_trans)+
  have before: "\<forall>j < k. misses pwhash ghash p (rnd (word_of_nat j))"
    unfolding k_def using not_less_Least by blast
  have "unat limit < 2 ^ 64" using unsigned_less [of limit] by simp
  then have k64: "k < 2 ^ 64" using k(2) by linarith
  have "k < fuel" using assms(2) k(2) by linarith
  then obtain f where fuel: "fuel = k + Suc f" using less_imp_Suc_add by fastforce
  have "solve_loop pwhash ghash rnd elapsed fuel p limit 0 =
      solve_loop pwhash ghash rnd elapsed (Suc f) p limit (word_of_nat k)"
    unfolding fuel using k(2) by (intro solve_loop_skip [OF before] k64) simp
  moreover have "word_of_nat k < limit" using k(2) k64 by (simp add: word_less_nat_alt)
  ultimately have "solve_puzzle pwhash ghash rnd elapsed fuel p limit \<noteq> None \<and>
      solve_puzzle pwhash ghash rnd elapsed fuel p limit \<noteq> Some (Inr None)"
    using k(1) by (auto simp: solve_puzzle_def misses_def Let_def split: sum.splits)
  with False show ?thesis by blast
qed

theorem solve_puzzle_terminates_witness:
  "solve_puzzle toy_pwhash toy_ghash (\<lambda>i. 2 ^ 63) (\<lambda>i. i) 5 (generate_puzzle [] 1 0 7) 3 \<noteq> None"
  using solve_puzzle_terminates [of 3 5 toy_pwhash toy_ghash "\<lambda>i. 2 ^ 63" "\<lambda>i. i" "generate_puzzle [] 1 0 7"]
  by simp

text \<open>
  difficulties stay between 4 and 32: puzzles are generated with a difficulty in that
  range whatever the node asks for, starting difficulties are in it, and adjusting a
  difficulty of the range gives one of the range that is at most one apart, higher only after
  a solve under half the target time and lower only after one over twice the target time.
\<close>

theorem difficulty_in_range:
  assumes "MIN_DIFFICULTY \<le> d" "d \<le> MAX_DIFFICULTY"
  shows "pz_difficulty (generate_puzzle c ep nd now) \<in> {MIN_DIFFICULTY..MAX_DIFFICULTY} \<and>
    get_starting_difficulty hps \<in> {MIN_DIFFICULTY..MAX_DIFFICULTY} \<and>
    adjust_difficulty ms d \<in> {MIN_DIFFICULTY..MAX_DIFFICULTY} \<and>
    (adjust_difficulty ms d > d \<longrightarrow> ms < 300000 \<and> adjust_difficulty ms d = d + 1) \<and>
    (adjust_difficulty ms d < d \<longrightarrow> ms > 1200000 \<and> adjust_difficulty ms d = d - 1)"
proof -
  have range: "MIN_DIFFICULTY \<le> MAX_DIFFICULTY" by (simp add: MIN_DIFFICULTY_def MAX_DIFFICULTY_def)
  have "pz_difficulty (generate_puzzle c ep nd now) \<in> {MIN_DIFFICULTY..MAX_DIFFICULTY}"
    using range by (simp add: generate_puzzle_def Let_def)
  moreover have "get_starting_difficulty hps \<in> {MIN_DIFFICULTY..MAX_DIFFICULTY}"
    by (simp add: get_starting_difficulty_def MIN_DIFFICULTY_def MAX_DIFFICULTY_def)
  moreover have up: "unat (d + 1) = unat d + 1" "unat (d - 1) = unat d - 1"
    using assms by (simp_all add: MIN_DIFFICULTY_def MAX_DIFFICULTY_def word_le_nat_alt unat_word_ariths
        unat_sub)
  moreover have "adjust_difficulty ms d \<in> {MIN_DIFFICULTY..MAX_DIFFICULTY}"
    using assms up
    by (auto simp: adjust_difficulty_def MIN_DIFFICULTY_def MAX_DIFFICULTY_def word_le_nat_alt
        word_less_nat_alt min_def)
  moreover have "adjust_difficulty ms d > d \<longrightarrow> ms < 300000 \<and> adjust_difficulty ms d = d + 1"
    "adjust_difficulty ms d < d \<longrightarrow> ms > 1200000 \<and> adjust_difficulty ms d = d - 1"
    using assms up
    by (auto simp: adjust_difficulty_def MIN_DIFFICULTY_def MAX_DIFFICULTY_def TARGET_SOLVE_TIME_MS_def
        word_le_nat_alt word_less_nat_alt min_def)
  ultimately show ?thesis by blast
qed

theorem difficulty_in_range_witness:
  "adjust_difficulty 1000 32 \<in> {MIN_DIFFICULTY..MAX_DIFFICULTY} \<and>
   pz_difficulty (generate_puzzle [] 1 100 7) \<in> {MIN_DIFFICULTY..MAX_DIFFICULTY}"
proof -
  have "MIN_DIFFICULTY \<le> 32" "32 \<le> MAX_DIFFICULTY"
    by (simp_all add: MIN_DIFFICULTY_def MAX_DIFFICULTY_def)
  from difficulty_in_range [OF this] show ?thesis by blast
qed

text \<open>
  outside the range the adjustment does not bring a difficulty back: a difficulty below the
  minimum that is solved in time stays where it is, and the largest \<open>uint32_t\<close> wraps to zero
  when it is raised.
\<close>

theorem adjust_difficulty_unclamped:
  "adjust_difficulty 600000 0 = 0 \<and> adjust_difficulty 0 (- 1) = 0"
  by (simp add: adjust_difficulty_def TARGET_SOLVE_TIME_MS_def MAX_DIFFICULTY_def)

text \<open>a benchmark of duration zero divides by zero after its first hash.\<close>

theorem benchmark_zero_duration:
  assumes "Argon2_solve_puzzle pwhash ghash test_data 0 Params_interactive = Inr h"
  shows "benchmark_node pwhash ghash elapsed (Suc fuel) test_data 0 = Some (Inl DivideByZero)"
  using assms by (simp add: benchmark_node_def)

end
