(* ===== verification/Access.thy ===== *)
theory Access
  imports State Pow
begin

text \<open>
  \<open>AccessControl\<close> of \<open>src/security/access.cpp\<close>: the capabilities a node has, decided from the
  policies and the state manager, and the capability tokens.

  BLAKE3 is the parameter \<open>H\<close>; the system clock is the argument \<open>now\<close>, in seconds. The
  reference \<open>state_manager_\<close> of the class is the argument \<open>s\<close>. \<open>AccessPolicy\<close> leaves its field
  \<open>capability\<close> uninitialised when it is default constructed, which is \<open>None\<close> here. The
  reputation is an \<open>int32_t\<close>, compared as a signed number.
\<close>

section \<open>Data\<close>

datatype Capability =
    VIEW_CONTENT | DISCOVER_NETWORKS | RELAY_TRAFFIC
  | POST_CONTENT | VOTE_ON_CONTENT | CREATE_IDENTITY
  | HOST_THINGS | JOIN_NETWORKS | ROUTE_TRAFFIC | ISSUE_INVITATIONS
  | VOUCH_FOR_NODES | CREATE_NETWORK | MODERATE_CONTENT
  | REVOKE_KEYS | DISBAND_NETWORK

text \<open>\<open>static_cast<uint8_t>(capability)\<close>: the position in the enumeration.\<close>

fun capability_code :: "Capability \<Rightarrow> u8" where
  "capability_code VIEW_CONTENT = 0"
| "capability_code DISCOVER_NETWORKS = 1"
| "capability_code RELAY_TRAFFIC = 2"
| "capability_code POST_CONTENT = 3"
| "capability_code VOTE_ON_CONTENT = 4"
| "capability_code CREATE_IDENTITY = 5"
| "capability_code HOST_THINGS = 6"
| "capability_code JOIN_NETWORKS = 7"
| "capability_code ROUTE_TRAFFIC = 8"
| "capability_code ISSUE_INVITATIONS = 9"
| "capability_code VOUCH_FOR_NODES = 10"
| "capability_code CREATE_NETWORK = 11"
| "capability_code MODERATE_CONTENT = 12"
| "capability_code REVOKE_KEYS = 13"
| "capability_code DISBAND_NETWORK = 14"

lemma capability_code_inject [simp]: "capability_code c = capability_code d \<longleftrightarrow> c = d"
  by (cases c; cases d) simp_all

instantiation Capability :: linorder
begin

definition less_eq_Capability :: "Capability \<Rightarrow> Capability \<Rightarrow> bool" where
  "less_eq_Capability a b \<longleftrightarrow> capability_code a \<le> capability_code b"

definition less_Capability :: "Capability \<Rightarrow> Capability \<Rightarrow> bool" where
  "less_Capability a b \<longleftrightarrow> capability_code a < capability_code b"

instance
  by standard (auto simp: less_eq_Capability_def less_Capability_def order_less_le)

end

datatype AccessLevel = ANONYMOUS | IDENTIFIED | KEYED | TRUSTED | FOUNDER

record CapabilityToken =
  tk_node_id :: NodeID
  tk_capability :: Capability
  tk_issued_at :: u64
  tk_expires_at :: u64
  tk_context :: bytes
  tk_signature :: bytes

record AccessPolicy =
  ap_capability :: "Capability option"
  ap_required_key_type :: "KeyType option"
  ap_required_key_count :: u32
  ap_min_reputation :: u32
  ap_requires_network_membership :: bool
  ap_required_role :: "string option"
  ap_requires_pow :: bool
  ap_pow_difficulty :: u32

record AccessRequest =
  rq_requester :: NodeID
  rq_capability :: Capability
  rq_network_id :: "Hash256 option"
  rq_thing_id :: "Hash256 option"
  rq_pow_solution :: "bytes option"

record AccessDecision =
  ad_granted :: bool
  ad_reason :: string
  ad_token :: "CapabilityToken option"

record AccessControl =
  ac_policies :: "(Capability \<times> AccessPolicy) list"

definition AccessPolicy_new :: AccessPolicy where
  "AccessPolicy_new = \<lparr>ap_capability = None, ap_required_key_type = None, ap_required_key_count = 0,
     ap_min_reputation = 0, ap_requires_network_membership = False, ap_required_role = None,
     ap_requires_pow = False, ap_pow_difficulty = 0\<rparr>"

definition AccessDecision_allow :: "string \<Rightarrow> AccessDecision" where
  "AccessDecision_allow reason = \<lparr>ad_granted = True, ad_reason = reason, ad_token = None\<rparr>"

definition AccessDecision_deny :: "string \<Rightarrow> AccessDecision" where
  "AccessDecision_deny reason = \<lparr>ad_granted = False, ad_reason = reason, ad_token = None\<rparr>"

section \<open>Token signatures and leading zero bits\<close>

definition token_signing_bytes :: "CapabilityToken \<Rightarrow> bytes" where
  "token_signing_bytes t =
     node_bytes (tk_node_id t) @ [capability_code (tk_capability t)] @ le_bytes 8 (tk_issued_at t)
     @ le_bytes 8 (tk_expires_at t) @ tk_context t"

definition derive_token_signature :: "(bytes \<Rightarrow> Hash256) \<Rightarrow> CapabilityToken \<Rightarrow> bytes" where
  "derive_token_signature H t = (let digest = H (token_signing_bytes t) in digest @ digest)"

text \<open>\<open>for (int bit = 7; bit >= 0; --bit)\<close>: \<open>n\<close> is the number of bits left to test; the flag
  tells whether the function returned inside the loop.\<close>

fun leading_bits :: "u8 \<Rightarrow> nat \<Rightarrow> u32 \<Rightarrow> bool \<times> u32" where
  "leading_bits b 0 leading = (False, leading)"
| "leading_bits b (Suc n) leading =
     (if drop_bit n b AND 1 = 0 then leading_bits b n (leading + 1) else (True, leading))"

fun leading_loop :: "u32 \<Rightarrow> bytes \<Rightarrow> u32" where
  "leading_loop leading [] = leading"
| "leading_loop leading (b # bs) =
     (if b = 0 then leading_loop (leading + 8) bs
      else case leading_bits b 8 leading of
             (True, l) \<Rightarrow> l
           | (False, l) \<Rightarrow> leading_loop l bs)"

definition count_leading_zero_bits :: "Hash256 \<Rightarrow> u32" where
  "count_leading_zero_bits hash = leading_loop 0 hash"

definition is_expired :: "CapabilityToken \<Rightarrow> u64 \<Rightarrow> bool" where
  "is_expired t now \<longleftrightarrow> now \<ge> tk_expires_at t"

definition is_valid_for :: "(bytes \<Rightarrow> Hash256) \<Rightarrow> CapabilityToken \<Rightarrow> Hash256 \<Rightarrow> bool" where
  "is_valid_for H t context_hash = (if tk_context t = [] then True else H (tk_context t) = context_hash)"

section \<open>Policies\<close>

text \<open>The fifteen blocks of \<open>initialize_default_policies\<close>: a policy is default constructed, some
  fields are set, and it is stored under its capability.\<close>

definition default_policy :: "Capability \<Rightarrow> AccessPolicy" where
  "default_policy c = (let p = AccessPolicy_new\<lparr>ap_capability := Some c\<rparr> in
     case c of
       VIEW_CONTENT \<Rightarrow> p
     | DISCOVER_NETWORKS \<Rightarrow> p
     | RELAY_TRAFFIC \<Rightarrow> p
     | POST_CONTENT \<Rightarrow> p\<lparr>ap_required_key_count := 1\<rparr>
     | VOTE_ON_CONTENT \<Rightarrow> p\<lparr>ap_required_key_count := 1\<rparr>
     | CREATE_IDENTITY \<Rightarrow> p\<lparr>ap_required_key_count := 1\<rparr>
     | HOST_THINGS \<Rightarrow> p\<lparr>ap_required_key_type := Some SERVICE, ap_required_key_count := 1\<rparr>
     | JOIN_NETWORKS \<Rightarrow> p\<lparr>ap_required_key_type := Some NETWORK, ap_required_key_count := 1\<rparr>
     | ROUTE_TRAFFIC \<Rightarrow> p\<lparr>ap_required_key_type := Some ROUTING, ap_required_key_count := 1\<rparr>
     | ISSUE_INVITATIONS \<Rightarrow> p\<lparr>ap_required_key_type := Some NETWORK, ap_required_key_count := 1,
         ap_requires_network_membership := True\<rparr>
     | VOUCH_FOR_NODES \<Rightarrow> p\<lparr>ap_min_reputation := 100, ap_required_key_count := 1\<rparr>
     | CREATE_NETWORK \<Rightarrow> p\<lparr>ap_min_reputation := 50, ap_required_key_type := Some NETWORK,
         ap_required_key_count := 3\<rparr>
     | MODERATE_CONTENT \<Rightarrow> p\<lparr>ap_min_reputation := 75, ap_requires_network_membership := True,
         ap_required_role := Some ''FULL''\<rparr>
     | REVOKE_KEYS \<Rightarrow> p\<lparr>ap_requires_network_membership := True, ap_required_role := Some ''FOUNDER''\<rparr>
     | DISBAND_NETWORK \<Rightarrow> p\<lparr>ap_requires_network_membership := True,
         ap_required_role := Some ''FOUNDER''\<rparr>)"

definition all_capabilities :: "Capability list" where
  "all_capabilities = [VIEW_CONTENT, DISCOVER_NETWORKS, RELAY_TRAFFIC, POST_CONTENT, VOTE_ON_CONTENT,
     CREATE_IDENTITY, HOST_THINGS, JOIN_NETWORKS, ROUTE_TRAFFIC, ISSUE_INVITATIONS, VOUCH_FOR_NODES,
     CREATE_NETWORK, MODERATE_CONTENT, REVOKE_KEYS, DISBAND_NETWORK]"

definition set_policy :: "Capability \<Rightarrow> AccessPolicy \<Rightarrow> AccessControl \<Rightarrow> AccessControl" where
  "set_policy c p ac = ac\<lparr>ac_policies := omap_set c p (ac_policies ac)\<rparr>"

definition initialize_default_policies :: "AccessControl \<Rightarrow> AccessControl" where
  "initialize_default_policies ac = fold (\<lambda>c. set_policy c (default_policy c)) all_capabilities ac"

definition AccessControl_init :: AccessControl where
  "AccessControl_init = initialize_default_policies \<lparr>ac_policies = []\<rparr>"

definition get_policy :: "AccessControl \<Rightarrow> Capability \<Rightarrow> AccessPolicy" where
  "get_policy ac c = (case map_of (ac_policies ac) c of None \<Rightarrow> AccessPolicy_new | Some p \<Rightarrow> p)"

section \<open>Requirements\<close>

definition has_any_keys :: "StateManager \<Rightarrow> NodeID \<Rightarrow> bool" where
  "has_any_keys s n =
     (case get_node_state s n of
        None \<Rightarrow> False
      | Some st \<Rightarrow> list_ex (\<lambda>p. snd p > 0) (ns_key_balances st))"

definition is_network_founder :: "StateManager \<Rightarrow> NodeID \<Rightarrow> Hash256 \<Rightarrow> bool" where
  "is_network_founder s n net =
     (case get_network_state s net of
        None \<Rightarrow> False
      | Some st \<Rightarrow> get_member_role st n = ''FOUNDER'')"

definition check_key_requirements :: "StateManager \<Rightarrow> NodeID \<Rightarrow> AccessPolicy \<Rightarrow> bool" where
  "check_key_requirements s n p =
     (if ap_required_key_count p = 0 then True
      else case ap_required_key_type p of
             Some t \<Rightarrow> get_node_key_balance s n t \<ge> ap_required_key_count p
           | None \<Rightarrow> has_any_keys s n)"

definition check_reputation_requirements :: "StateManager \<Rightarrow> NodeID \<Rightarrow> AccessPolicy \<Rightarrow> bool" where
  "check_reputation_requirements s n p =
     (if ap_min_reputation p = 0 then True
      else sint (get_node_reputation s n) \<ge> sint (ap_min_reputation p))"

definition check_network_requirements ::
  "StateManager \<Rightarrow> NodeID \<Rightarrow> Hash256 \<Rightarrow> AccessPolicy \<Rightarrow> bool" where
  "check_network_requirements s n net p =
     (if \<not> ap_requires_network_membership p then True
      else if \<not> is_node_in_network s n net then False
      else case ap_required_role p of
             None \<Rightarrow> True
           | Some role \<Rightarrow> (case get_network_state s net of
                 None \<Rightarrow> False
               | Some st \<Rightarrow> get_member_role st n = role))"

definition check_pow_requirements :: "(bytes \<Rightarrow> Hash256) \<Rightarrow> bytes \<Rightarrow> AccessPolicy \<Rightarrow> bool" where
  "check_pow_requirements H pow_solution p =
     (if \<not> ap_requires_pow p then True
      else if pow_solution = [] then False
      else count_leading_zero_bits (H pow_solution) \<ge> ap_pow_difficulty p)"

section \<open>Decisions\<close>

definition check_access ::
  "(bytes \<Rightarrow> Hash256) \<Rightarrow> AccessControl \<Rightarrow> StateManager \<Rightarrow> AccessRequest \<Rightarrow> AccessDecision" where
  "check_access H ac s rq =
     (let p = get_policy ac (rq_capability rq); n = rq_requester rq in
      if \<not> is_node_active s n then AccessDecision_deny ''Node is not active''
      else if \<not> check_key_requirements s n p then AccessDecision_deny ''Insufficient keys''
      else if \<not> check_reputation_requirements s n p then AccessDecision_deny ''Insufficient reputation''
      else if ap_requires_network_membership p \<and> rq_network_id rq = None then
        AccessDecision_deny ''Network ID required''
      else if ap_requires_network_membership p \<and>
              \<not> check_network_requirements s n (the (rq_network_id rq)) p then
        AccessDecision_deny ''Not a member of network or insufficient role''
      else if ap_requires_pow p \<and> rq_pow_solution rq = None then
        AccessDecision_deny ''PoW solution required''
      else if ap_requires_pow p \<and> \<not> check_pow_requirements H (the (rq_pow_solution rq)) p then
        AccessDecision_deny ''Invalid PoW solution''
      else AccessDecision_allow ''Access granted'')"

definition can_view_content :: "NodeID \<Rightarrow> bool" where
  "can_view_content n = True"

definition can_post_content :: "StateManager \<Rightarrow> NodeID \<Rightarrow> bool" where
  "can_post_content s n = has_any_keys s n"

definition can_post_anonymously :: "(bytes \<Rightarrow> Hash256) \<Rightarrow> bytes \<Rightarrow> bool" where
  "can_post_anonymously H pow_solution =
     check_pow_requirements H pow_solution
       (AccessPolicy_new\<lparr>ap_requires_pow := True, ap_pow_difficulty := 20\<rparr>)"

definition ac_can_host_things :: "StateManager \<Rightarrow> NodeID \<Rightarrow> bool" where
  "ac_can_host_things s n = can_node_host_things s n"

definition can_join_network :: "StateManager \<Rightarrow> NodeID \<Rightarrow> Hash256 \<Rightarrow> bool" where
  "can_join_network s n net =
     (if \<not> can_node_join_networks s n then False else \<not> is_node_in_network s n net)"

definition can_route_traffic :: "StateManager \<Rightarrow> NodeID \<Rightarrow> bool" where
  "can_route_traffic s n = can_node_route_traffic s n"

definition can_vouch_for_node :: "StateManager \<Rightarrow> NodeID \<Rightarrow> NodeID \<Rightarrow> bool" where
  "can_vouch_for_node s voucher vouchee =
     (if sint (get_node_reputation s voucher) < 100 then False
      else if \<not> has_any_keys s voucher then False
      else is_node_active s vouchee)"

definition can_create_network :: "AccessControl \<Rightarrow> StateManager \<Rightarrow> NodeID \<Rightarrow> bool" where
  "can_create_network ac s n =
     (let p = get_policy ac CREATE_NETWORK in
      if \<not> check_key_requirements s n p then False else check_reputation_requirements s n p)"

definition can_issue_invitation :: "AccessControl \<Rightarrow> StateManager \<Rightarrow> NodeID \<Rightarrow> Hash256 \<Rightarrow> bool" where
  "can_issue_invitation ac s n net =
     (let p = get_policy ac ISSUE_INVITATIONS in
      if \<not> check_key_requirements s n p then False else check_network_requirements s n net p)"

definition can_moderate_content :: "AccessControl \<Rightarrow> StateManager \<Rightarrow> NodeID \<Rightarrow> Hash256 \<Rightarrow> bool" where
  "can_moderate_content ac s n net =
     (let p = get_policy ac MODERATE_CONTENT in
      if \<not> check_reputation_requirements s n p then False else check_network_requirements s n net p)"

definition can_revoke_keys :: "StateManager \<Rightarrow> NodeID \<Rightarrow> Hash256 \<Rightarrow> bool" where
  "can_revoke_keys s n net = is_network_founder s n net"

definition can_disband_network :: "StateManager \<Rightarrow> NodeID \<Rightarrow> Hash256 \<Rightarrow> bool" where
  "can_disband_network s n net = is_network_founder s n net"

section \<open>Tokens\<close>

definition issue_token ::
  "(bytes \<Rightarrow> Hash256) \<Rightarrow> AccessControl \<Rightarrow> StateManager \<Rightarrow> u64 \<Rightarrow> NodeID \<Rightarrow> Capability \<Rightarrow> Hash256 option
   \<Rightarrow> CapabilityToken option" where
  "issue_token H ac s now n c ctx =
     (let rq = \<lparr>rq_requester = n, rq_capability = c, rq_network_id = ctx, rq_thing_id = None,
                rq_pow_solution = None\<rparr> in
      if \<not> ad_granted (check_access H ac s rq) then None
      else let t = \<lparr>tk_node_id = n, tk_capability = c, tk_issued_at = now, tk_expires_at = now + 3600,
                    tk_context = opt_or [] ctx, tk_signature = replicate 64 0\<rparr>
           in Some (t\<lparr>tk_signature := derive_token_signature H t\<rparr>))"

definition verify_token :: "(bytes \<Rightarrow> Hash256) \<Rightarrow> u64 \<Rightarrow> CapabilityToken \<Rightarrow> bool" where
  "verify_token H now t =
     (if is_expired t now then False else tk_signature t = derive_token_signature H t)"

section \<open>Access levels and statistics\<close>

definition get_access_level :: "StateManager \<Rightarrow> NodeID \<Rightarrow> AccessLevel" where
  "get_access_level s n =
     (if \<not> is_node_active s n then ANONYMOUS
      else if \<not> get_node_key_balance s n IDENTITY > 0 then ANONYMOUS
      else if \<not> has_any_keys s n then IDENTIFIED
      else if sint (get_node_reputation s n) \<ge> 100 then TRUSTED
      else KEYED)"

definition get_access_level_in_network :: "StateManager \<Rightarrow> NodeID \<Rightarrow> Hash256 \<Rightarrow> AccessLevel" where
  "get_access_level_in_network s n net =
     (if is_network_founder s n net then FOUNDER else get_access_level s n)"

text \<open>\<open>None\<close> when the loop reads the identifier of a node state that never got one.\<close>

fun count_capable_loop ::
  "(bytes \<Rightarrow> Hash256) \<Rightarrow> AccessControl \<Rightarrow> StateManager \<Rightarrow> Capability \<Rightarrow> NodeState list \<Rightarrow> nat \<Rightarrow> nat option" where
  "count_capable_loop H ac s c [] count = Some count"
| "count_capable_loop H ac s c (st # sts) count =
     (case ns_node_id st of
        None \<Rightarrow> None
      | Some n \<Rightarrow> count_capable_loop H ac s c sts
          (if ad_granted (check_access H ac s \<lparr>rq_requester = n, rq_capability = c,
                rq_network_id = None, rq_thing_id = None, rq_pow_solution = None\<rparr>)
           then count + 1 else count))"

definition count_nodes_with_capability ::
  "(bytes \<Rightarrow> Hash256) \<Rightarrow> AccessControl \<Rightarrow> StateManager \<Rightarrow> Capability \<Rightarrow> nat option" where
  "count_nodes_with_capability H ac s c = count_capable_loop H ac s c (get_all_active_nodes s) 0"

section \<open>Lemmas\<close>

subsection \<open>Policies\<close>

lemma get_policy_set [simp]: "get_policy (set_policy c p ac) d = (if d = c then p else get_policy ac d)"
  by (simp add: get_policy_def set_policy_def)

lemma get_policy_init [simp]: "get_policy AccessControl_init c = default_policy c"
  unfolding AccessControl_init_def initialize_default_policies_def all_capabilities_def
  by (cases c) simp_all

text \<open>
  A request is checked against the requirements of its policy in a fixed order; each has the
  reason that is reported when it fails.
\<close>

definition requirements ::
  "(bytes \<Rightarrow> Hash256) \<Rightarrow> StateManager \<Rightarrow> AccessPolicy \<Rightarrow> AccessRequest \<Rightarrow> (bool \<times> string) list" where
  "requirements H s p rq =
     [(is_node_active s (rq_requester rq), ''Node is not active''),
      (check_key_requirements s (rq_requester rq) p, ''Insufficient keys''),
      (check_reputation_requirements s (rq_requester rq) p, ''Insufficient reputation''),
      (ap_requires_network_membership p \<longrightarrow> rq_network_id rq \<noteq> None, ''Network ID required''),
      (case rq_network_id rq of None \<Rightarrow> True
         | Some net \<Rightarrow> check_network_requirements s (rq_requester rq) net p,
       ''Not a member of network or insufficient role''),
      (ap_requires_pow p \<longrightarrow> rq_pow_solution rq \<noteq> None, ''PoW solution required''),
      (case rq_pow_solution rq of None \<Rightarrow> True | Some w \<Rightarrow> check_pow_requirements H w p,
       ''Invalid PoW solution'')]"

lemma check_access_requirements:
  "check_access H ac s rq =
     (case find (\<lambda>r. \<not> fst r) (requirements H s (get_policy ac (rq_capability rq)) rq) of
        None \<Rightarrow> AccessDecision_allow ''Access granted''
      | Some r \<Rightarrow> AccessDecision_deny (snd r))"
proof -
  have "\<not> ap_requires_network_membership p \<Longrightarrow> check_network_requirements s n net p" for p n net
    by (simp add: check_network_requirements_def)
  moreover have "\<not> ap_requires_pow p \<Longrightarrow> check_pow_requirements H w p" for p w
    by (simp add: check_pow_requirements_def)
  ultimately show ?thesis
    by (cases "rq_network_id rq"; cases "rq_pow_solution rq")
      (auto simp: check_access_def requirements_def Let_def)
qed

lemma granted_iff:
  "ad_granted (check_access H ac s rq) \<longleftrightarrow>
     (\<forall>r \<in> set (requirements H s (get_policy ac (rq_capability rq)) rq). fst r)"
  unfolding check_access_requirements
  by (auto simp: AccessDecision_allow_def AccessDecision_deny_def find_None_iff
      find_Some_iff split: option.split)

subsection \<open>Leading zero bits\<close>

lemma test_bit_word: "drop_bit n b AND 1 = 0 \<longleftrightarrow> \<not> bit (b :: u8) n"
  by (simp add: and_one_eq bit_iff_odd_drop_bit mod_2_eq_odd)

lemma clz_mask_step:
  assumes "Suc j < 8"
  shows "clz_mask b (push_bit (Suc j) 1) c =
    (if bit b (Suc j) then c else clz_mask b (push_bit j 1) (c + 1))"
proof -
  let ?m = "push_bit (Suc j) (1 :: u8)"
  have bits: "bit ?m i \<longleftrightarrow> i = Suc j" for i
    using assms unfolding bit_push_bit_iff by (auto simp: bit_1_iff)
  then have "?m \<noteq> 0" by (metis bit_0_eq bot_apply bot_bool_def)
  moreover have "drop_bit 1 ?m = push_bit j 1"
  proof (rule bit_word_eqI)
    fix i :: nat assume "i < LENGTH(8)"
    then show "bit (drop_bit 1 ?m) i \<longleftrightarrow> bit (push_bit j (1 :: u8)) i"
      using assms unfolding bit_drop_bit_eq comp_def bits bit_push_bit_iff
      by (auto simp: bit_1_iff)
  qed
  moreover have "b AND ?m = 0 \<longleftrightarrow> \<not> bit b (Suc j)"
    by (simp add: bit_iff_and_push_bit_not_eq_0)
  ultimately show ?thesis by (subst clz_mask.simps) simp
qed

lemma clz_mask_last: "clz_mask b 1 c = (if bit b 0 then c else c + 1)"
proof -
  have "b AND 1 = 0 \<longleftrightarrow> \<not> bit b 0" using test_bit_word [of 0 b] by simp
  moreover have "drop_bit 1 (1 :: u8) = 0" by simp
  ultimately show ?thesis by (simp add: clz_mask.simps)
qed

lemma leading_bits_clz: "j < 8 \<Longrightarrow> snd (leading_bits b (Suc j) c) = clz_mask b (push_bit j 1) c"
proof (induction j arbitrary: c)
  case 0
  then show ?case using test_bit_word [of 0 b] by (simp add: clz_mask_last)
next
  case (Suc j)
  then show ?case
    using clz_mask_step [of j b c] test_bit_word [of "Suc j" b]
    by (subst leading_bits.simps(2)) (simp del: leading_bits.simps)
qed

lemma leading_bits_returns: "fst (leading_bits b n c) \<longleftrightarrow> (\<exists>i < n. bit b i)"
  by (induction n arbitrary: c) (auto simp: test_bit_word less_Suc_eq)

lemma leading_loop_clz: "leading_loop c bs = clz_loop c bs"
proof (induction bs arbitrary: c)
  case (Cons b bs)
  show ?case
  proof (cases "b = 0")
    case False
    then obtain i where "bit b i" by (metis bit_0_eq bit_eqI bot_apply bot_bool_def)
    then have "i < 8" using bit_imp_le_length [of b i] by simp
    with \<open>bit b i\<close> have "fst (leading_bits b 8 c)" by (auto simp: leading_bits_returns)
    moreover have "snd (leading_bits b 8 c) = clz_mask b 0x80 c"
      using leading_bits_clz [of 7 b c] by (simp del: leading_bits.simps)
    ultimately show ?thesis using False
      by (cases "leading_bits b 8 c") (simp del: leading_bits.simps)
  qed (simp add: Cons)
qed simp

subsection \<open>Tokens\<close>

lemma token_signing_bytes_inject:
  assumes "length (node_bytes (tk_node_id t)) = length (node_bytes (tk_node_id u))"
    "token_signing_bytes t = token_signing_bytes u"
  shows "t\<lparr>tk_signature := sg\<rparr> = u\<lparr>tk_signature := sg\<rparr>"
proof -
  have "node_bytes (tk_node_id t) = node_bytes (tk_node_id u)"
    "capability_code (tk_capability t) = capability_code (tk_capability u)"
    "le_bytes 8 (tk_issued_at t) = le_bytes 8 (tk_issued_at u)"
    "le_bytes 8 (tk_expires_at t) = le_bytes 8 (tk_expires_at u)"
    "tk_context t = tk_context u"
    using assms by (simp_all add: token_signing_bytes_def)
  then have "tk_node_id t = tk_node_id u" "tk_capability t = tk_capability u"
    "tk_issued_at t = tk_issued_at u" "tk_expires_at t = tk_expires_at u" "tk_context t = tk_context u"
    by (simp_all add: NodeID.expand) (metis le_word_le_bytes_u64)+
  then show ?thesis by (cases t; cases u) simp
qed

lemma issue_token_cases:
  "issue_token H ac s now n c ctx = Some t \<longleftrightarrow>
     ad_granted (check_access H ac s \<lparr>rq_requester = n, rq_capability = c, rq_network_id = ctx,
       rq_thing_id = None, rq_pow_solution = None\<rparr>) \<and>
     tk_node_id t = n \<and> tk_capability t = c \<and> tk_issued_at t = now \<and> tk_expires_at t = now + 3600 \<and>
     tk_context t = opt_or [] ctx \<and> tk_signature t = derive_token_signature H t"
  by (cases t) (auto simp: issue_token_def Let_def derive_token_signature_def token_signing_bytes_def)

subsection \<open>Keys and levels\<close>

lemma has_any_keys_iff:
  assumes "state_ok s"
  shows "has_any_keys s n \<longleftrightarrow> (\<exists>t. get_node_key_balance s n t > 0)"
proof (cases "map_of (sm_nodes s) n")
  case (Some st)
  then have "omap_ok (ns_key_balances st)" using ok_found(1) [OF assms] by (auto simp: node_ok_def)
  then have d: "distinct (map fst (ns_key_balances st))" by (rule omap_ok_distinct)
  have "(\<exists>p \<in> set (ns_key_balances st). snd p > 0) \<longleftrightarrow>
      (\<exists>t b. map_of (ns_key_balances st) t = Some b \<and> b > 0)"
    using d by (force simp: map_of_eq_Some_iff)
  with Some show ?thesis
    by (auto simp: has_any_keys_def get_node_state_def get_node_key_balance_def list_ex_iff
        split: option.split)
qed (simp add: has_any_keys_def get_node_state_def get_node_key_balance_def)

lemma balance_has_keys: "get_node_key_balance s n t > 0 \<Longrightarrow> has_any_keys s n"
  by (auto simp: has_any_keys_def get_node_state_def get_node_key_balance_def list_ex_iff
      split: option.splits dest!: map_of_SomeD intro: bexI [rotated])

subsection \<open>Node identifiers\<close>

text \<open>An active node's state carries the identifier it is stored under.\<close>

definition ids_ok :: "StateManager \<Rightarrow> bool" where
  "ids_ok s \<longleftrightarrow> omap_ok (sm_nodes s) \<and>
     (\<forall>n st. map_of (sm_nodes s) n = Some st \<longrightarrow> ns_is_active st \<longrightarrow> ns_node_id st = Some n)"

lemma ids_ok_set_node:
  "ids_ok s \<Longrightarrow> (ns_is_active st \<Longrightarrow> ns_node_id st = Some n) \<Longrightarrow> ids_ok (set_node n st s)"
  by (auto simp: ids_ok_def set_node_def)

lemma ids_ok_cong: "sm_nodes s' = sm_nodes s \<Longrightarrow> ids_ok s' = ids_ok s"
  by (simp add: ids_ok_def)

lemma ids_ok_at: "ids_ok s \<Longrightarrow> ns_is_active (node_at s n) \<Longrightarrow> ns_node_id (node_at s n) = Some n"
  by (cases "map_of (sm_nodes s) n") (auto simp: ids_ok_def node_at_def NodeState_new_def)

lemma ids_ok_apply_event:
  assumes "ids_ok s"
  shows "ids_ok (apply_event e s)"
proof -
  have found: "map_of (sm_nodes s) n = Some st \<Longrightarrow> ns_is_active st \<Longrightarrow> ns_node_id st = Some n" for n st
    using assms by (auto simp: ids_ok_def)
  have sub: "ids_ok (s\<lparr>sm_networks := a\<rparr>)" "ids_ok (s\<lparr>sm_things := b\<rparr>)" for a b
    using assms by (simp_all add: ids_ok_def)
  have at: "node_at (s\<lparr>sm_networks := a\<rparr>) n = node_at s n" "node_at (s\<lparr>sm_things := b\<rparr>) n = node_at s n" for a b n
    by (simp_all add: node_at_def)
  show ?thesis
    using assms found sub ids_ok_at [OF assms]
    by (cases e rule: event_type_cases)
      (simp_all add: apply_event_def handler_defs event_type_defs Let_def at split: option.split,
       auto intro!: ids_ok_set_node)
qed

interpretation event_ids: invariant_machine "\<lambda>s e. apply_event e s" ids_ok
  by unfold_locales (rule ids_ok_apply_event)

lemma find_map_values: "map_of (map (\<lambda>(k, v). (k, f k v)) m) k = map_option (f k) (map_of m k)"
  by (induction m) auto

lemma ids_ok_step:
  assumes "ids_ok s"
  shows "ids_ok (state_step s x)"
proof (cases x)
  case (ApplyEvent e)
  then show ?thesis by (simp add: ids_ok_apply_event assms)
next
  case (Rebuild L now)
  have "ids_ok (s\<lparr>sm_nodes := [], sm_networks := [], sm_things := []\<rparr>)" by (simp add: ids_ok_def)
  from event_ids.run_inv [OF this] Rebuild show ?thesis
    by (simp add: rebuild_state_def foldl_conv_fold ids_ok_def)
next
  case (UpdateActivity L now)
  let ?f = "\<lambda>n st. if \<not> ns_is_active st then st
    else let a = last_activity (ns_joined_at st) (get_events_by_node L n) in
      if now > a \<and> now - a > INACTIVITY_THRESHOLD_SECONDS then st\<lparr>ns_is_active := False\<rparr> else st"
  have nodes: "sm_nodes (state_step s x) = map (\<lambda>(n, st). (n, ?f n st)) (sm_nodes s)"
    by (auto simp: UpdateActivity update_node_activity_def Let_def)
  have keys: "map fst (sm_nodes (state_step s x)) = map fst (sm_nodes s)"
    unfolding nodes by (simp add: comp_def case_prod_beta)
  have ok: "omap_ok (sm_nodes (state_step s x))" using assms by (simp only: ids_ok_def omap_ok_def keys)
  have step: "ns_is_active (?f n st) \<Longrightarrow> ns_is_active st \<and> ns_node_id (?f n st) = ns_node_id st" for n st
    by (auto simp: Let_def split: if_splits)
  have "ns_node_id st' = Some n"
    if f: "map_of (sm_nodes (state_step s x)) n = Some st'" and a: "ns_is_active st'" for n st'
  proof -
    obtain st where st: "map_of (sm_nodes s) n = Some st" "st' = ?f n st"
      using f unfolding nodes find_map_values by blast
    from step [OF a [unfolded st(2)]] have "ns_is_active st" "ns_node_id st' = ns_node_id st"
      unfolding st(2) by blast+
    with st(1) assms show ?thesis by (simp add: ids_ok_def)
  qed
  with ok show ?thesis by (simp add: ids_ok_def)
next
  case (Cleanup now)
  have "ids_ok s \<Longrightarrow> ids_ok (s\<lparr>sm_nodes := fold omap_erase ks (sm_nodes s)\<rparr>)" for ks s
  proof (induction ks arbitrary: s)
    case (Cons k ks)
    from Cons.prems have "ids_ok (s\<lparr>sm_nodes := omap_erase k (sm_nodes s)\<rparr>)" by (simp add: ids_ok_def)
    from Cons.IH [OF this] show ?case by simp
  qed simp
  with assms Cleanup show ?thesis by (simp add: cleanup_stale_state_def Let_def)
qed

interpretation ids: invariant_machine state_step ids_ok
  by unfold_locales (rule ids_ok_step)

lemma reachable_ids_ok: "ids_ok (foldl state_step (StateManager_init L now) ops)"
proof -
  have "ids_ok (StateManager_init L now)"
    using ids_ok_step [of "\<lparr>sm_nodes = [], sm_networks = [], sm_things = [], sm_last_rebuild = 0\<rparr>"
      "Rebuild L now"] by (simp add: StateManager_init_def ids_ok_def)
  then show ?thesis by (rule ids.run_inv)
qed

lemma count_capable_loop_ids:
  assumes "\<And>st. st \<in> set sts \<Longrightarrow> ns_node_id st \<noteq> None"
  shows "count_capable_loop H ac s c sts k = Some (k + length (filter (\<lambda>n.
    ad_granted (check_access H ac s \<lparr>rq_requester = n, rq_capability = c, rq_network_id = None,
      rq_thing_id = None, rq_pow_solution = None\<rparr>)) (map (the \<circ> ns_node_id) sts)))"
  using assms
proof (induction sts arbitrary: k)
  case (Cons st sts)
  then obtain n where "ns_node_id st = Some n" by fastforce
  with Cons show ?case by simp
qed simp

lemma active_node_ids:
  assumes "ids_ok s"
  shows "map (the \<circ> ns_node_id) (get_all_active_nodes s) =
    map fst (filter (\<lambda>p. ns_is_active (snd p)) (sm_nodes s))"
    and "st \<in> set (get_all_active_nodes s) \<Longrightarrow> ns_node_id st \<noteq> None"
proof -
  have d: "distinct (map fst (sm_nodes s))" using assms by (simp add: ids_ok_def omap_ok_distinct)
  have "ns_node_id st = Some n" if "(n, st) \<in> set (sm_nodes s)" "ns_is_active st" for n st
    using assms that map_of_is_SomeI [OF d that(1)] by (simp add: ids_ok_def)
  then show "map (the \<circ> ns_node_id) (get_all_active_nodes s) =
      map fst (filter (\<lambda>p. ns_is_active (snd p)) (sm_nodes s))"
    and "st \<in> set (get_all_active_nodes s) \<Longrightarrow> ns_node_id st \<noteq> None"
    by (auto simp: get_all_active_nodes_def filter_map comp_def)
qed

section \<open>Properties\<close>

text \<open>An active node with an identity key and a reputation of 150, for the witnesses.\<close>

definition trusted_node :: NodeID where
  "trusted_node = NodeID (replicate 32 7)"

definition trusted_state :: StateManager where
  "trusted_state = empty_state\<lparr>sm_nodes := [(trusted_node,
     NodeState_new\<lparr>ns_node_id := Some trusted_node, ns_is_active := True,
       ns_key_balances := [(IDENTITY, 1)], ns_reputation := 150\<rparr>)]\<rparr>"

definition toy_token_bytes :: bytes where
  "toy_token_bytes = zero_hash @ [3] @ le_bytes 8 (1 :: u64) @ le_bytes 8 (9 :: u64)"

lemmas trusted_defs = trusted_state_def requirements_def default_policy_def AccessPolicy_new_def
  check_key_requirements_def check_reputation_requirements_def check_network_requirements_def
  check_pow_requirements_def is_node_active_def get_node_key_balance_def get_node_reputation_def
  has_any_keys_def get_node_state_def

text \<open>
  An access request is granted exactly when the node is active and meets every requirement
  of the policy of the capability (keys, reputation, network membership and role, proof of
  work), and a refusal gives the reason of the first requirement that fails.
\<close>

theorem check_access_decides:
  fixes H :: "bytes \<Rightarrow> Hash256" and ac :: AccessControl and s :: StateManager and rq :: AccessRequest
  defines "rs \<equiv> requirements H s (get_policy ac (rq_capability rq)) rq"
  shows "check_access H ac s rq =
    (if list_all fst rs then AccessDecision_allow ''Access granted''
     else AccessDecision_deny (snd (hd (dropWhile fst rs))))"
proof -
  have "find (\<lambda>r. \<not> fst r) xs = (if list_all fst xs then None else Some (hd (dropWhile fst xs)))"
    for xs :: "(bool \<times> string) list"
    by (induction xs) auto
  then show ?thesis by (simp add: check_access_requirements rs_def)
qed

text \<open>
  Under the default policies the decision on a capability that needs keys is the capability
  check of the state manager: hosting, joining networks, routing and posting are granted
  exactly to the nodes for which \<open>StateManager\<close> says that they can.
\<close>

theorem capability_checks_agree:
  fixes H :: "bytes \<Rightarrow> Hash256" and s :: StateManager and n :: NodeID
    and net :: "Hash256 option" and w :: "bytes option"
  defines "granted \<equiv> \<lambda>c. ad_granted (check_access H AccessControl_init s
    \<lparr>rq_requester = n, rq_capability = c, rq_network_id = net, rq_thing_id = None, rq_pow_solution = w\<rparr>)"
  shows "granted HOST_THINGS = can_node_host_things s n \<and>
    granted JOIN_NETWORKS = can_node_join_networks s n \<and>
    granted ROUTE_TRAFFIC = can_node_route_traffic s n \<and>
    granted POST_CONTENT = can_node_post_content s n"
proof -
  have one: "(1 :: u32) \<le> 0 \<longleftrightarrow> False" by simp
  note defs = granted_def granted_iff requirements_def default_policy_def AccessPolicy_new_def Let_def
    check_key_requirements_def check_reputation_requirements_def check_network_requirements_def
    check_pow_requirements_def is_node_active_def get_node_key_balance_def has_any_keys_def
    get_node_state_def can_node_host_things_def can_host_things_def can_node_join_networks_def
    can_join_networks_def can_node_route_traffic_def can_route_def can_node_post_content_def
    has_key_type_def
  have "granted HOST_THINGS = can_node_host_things s n"
    using one by (auto simp: defs split: option.split)
  moreover have "granted JOIN_NETWORKS = can_node_join_networks s n"
    using one by (auto simp: defs split: option.split)
  moreover have "granted ROUTE_TRAFFIC = can_node_route_traffic s n"
    using one by (auto simp: defs split: option.split)
  moreover have "granted POST_CONTENT = can_node_post_content s n"
    by (auto simp: defs split: option.split)
  ultimately show ?thesis by blast
qed

text \<open>
  A token that was issued is issued only to a node that has the capability, and it verifies
  exactly during the hour after it was issued.
\<close>

theorem token_valid_one_hour:
  assumes "issue_token H ac s now n c ctx = Some t" "unat now + 3600 < 2 ^ 64"
  shows "ad_granted (check_access H ac s \<lparr>rq_requester = n, rq_capability = c, rq_network_id = ctx,
      rq_thing_id = None, rq_pow_solution = None\<rparr>) \<and> tk_node_id t = n \<and> tk_capability t = c \<and>
    (verify_token H later t \<longleftrightarrow> unat later < unat now + 3600)"
proof -
  have t: "tk_expires_at t = now + 3600" "tk_signature t = derive_token_signature H t"
    using assms(1) by (simp_all add: issue_token_cases)
  have "unat (now + 3600) = unat now + 3600"
    using assms(2) by (subst unat_add_lem [THEN iffD1]) simp_all
  with t have "verify_token H later t \<longleftrightarrow> unat later < unat now + 3600"
    by (simp add: verify_token_def is_expired_def word_le_nat_alt not_le)
  with assms(1) show ?thesis by (simp add: issue_token_cases)
qed

theorem token_valid_one_hour_witness:
  "verify_token toy_hash 100 (the (issue_token toy_hash AccessControl_init trusted_state 50
     trusted_node VOUCH_FOR_NODES None))"
proof -
  have "ad_granted (check_access toy_hash AccessControl_init trusted_state
      \<lparr>rq_requester = trusted_node, rq_capability = VOUCH_FOR_NODES, rq_network_id = None,
       rq_thing_id = None, rq_pow_solution = None\<rparr>)"
    by (simp add: granted_iff trusted_defs)
  then obtain t where t: "issue_token toy_hash AccessControl_init trusted_state 50 trusted_node
      VOUCH_FOR_NODES None = Some t"
    by (simp add: issue_token_def Let_def)
  from token_valid_one_hour [OF t, of 100] show ?thesis by (simp add: t)
qed

text \<open>
  The signature covers every field: with a hash that does not collide on the two tokens,
  two tokens that verify and carry the same signature are the same token.
\<close>

theorem token_signature_binds:
  assumes "verify_token H a t" "verify_token H b u" "tk_signature t = tk_signature u"
    and "length (node_bytes (tk_node_id t)) = 32" "length (node_bytes (tk_node_id u)) = 32"
    and "\<And>x. length (H x) = 32"
    and "inj_on H {token_signing_bytes t, token_signing_bytes u}"
  shows "t = u"
proof -
  have "H (token_signing_bytes t) = H (token_signing_bytes u)"
    using assms(1-3) assms(6) [of "token_signing_bytes t"] assms(6) [of "token_signing_bytes u"]
    by (auto simp: verify_token_def derive_token_signature_def Let_def split: if_splits)
  with assms(7) have "token_signing_bytes t = token_signing_bytes u" by (auto dest: inj_onD)
  from token_signing_bytes_inject [OF _ this, of "tk_signature t"] assms(3-5) show ?thesis
    by (cases t; cases u) simp
qed

theorem token_signature_binds_witness:
  "\<lparr>tk_node_id = NodeID zero_hash, tk_capability = POST_CONTENT, tk_issued_at = 1, tk_expires_at = 9,
     tk_context = [], tk_signature = toy_hash toy_token_bytes @ toy_hash toy_token_bytes\<rparr> =
   \<lparr>tk_node_id = NodeID zero_hash, tk_capability = POST_CONTENT, tk_issued_at = 1, tk_expires_at = 9,
     tk_context = [], tk_signature = toy_hash toy_token_bytes @ toy_hash toy_token_bytes\<rparr>"
  by (rule token_signature_binds [of toy_hash 0 _ 0])
    (simp_all add: verify_token_def is_expired_def derive_token_signature_def token_signing_bytes_def
      toy_token_bytes_def toy_hash_def zero_hash_def)

text \<open>
  The signature does not tell who issued a token: it is a hash of the fields without a key, so
  a token for any node and any capability that verifies can be made without an access check.
\<close>

theorem token_forgeable:
  assumes "now < later"
  shows "\<exists>t. tk_node_id t = n \<and> tk_capability t = c \<and> tk_expires_at t = later \<and> verify_token H now t"
proof -
  let ?t = "\<lparr>tk_node_id = n, tk_capability = c, tk_issued_at = now, tk_expires_at = later,
    tk_context = [], tk_signature = []\<rparr>"
  have "verify_token H now (?t\<lparr>tk_signature := derive_token_signature H ?t\<rparr>)"
    using assms by (simp add: verify_token_def is_expired_def derive_token_signature_def token_signing_bytes_def)
  then show ?thesis
    by (intro exI [of _ "?t\<lparr>tk_signature := derive_token_signature H ?t\<rparr>"]) simp
qed

theorem token_forgeable_witness:
  "\<exists>t. tk_node_id t = NodeID zero_hash \<and> tk_capability t = REVOKE_KEYS \<and> tk_expires_at t = 2 \<and>
     verify_token toy_hash 1 t"
  by (rule token_forgeable) simp

text \<open>
  The bit-by-bit count of leading zeros of the access control is the mask-based count of the
  proof of work, so an anonymous post is accepted exactly when the hash of the proof, read as a
  big-endian number, is below \<open>2 ^ 236\<close>.
\<close>

theorem count_leading_zero_bits_pow:
  assumes "\<And>x. length (H x) = 32"
  shows "count_leading_zero_bits hash = count_leading_zeros hash \<and>
    (can_post_anonymously H w \<longleftrightarrow> w \<noteq> [] \<and> be_value (H w) < 2 ^ 236)"
proof -
  have "count_leading_zero_bits hash = count_leading_zeros hash"
    by (simp add: count_leading_zero_bits_def count_leading_zeros_def leading_loop_clz)
  moreover have "20 \<le> count_leading_zeros (H w) \<longleftrightarrow> be_value (H w) < 2 ^ (256 - unat (20 :: u32))"
    by (rule leading_zeros_iff) (simp_all add: assms)
  ultimately show ?thesis
    by (simp add: can_post_anonymously_def check_pow_requirements_def AccessPolicy_new_def
        count_leading_zero_bits_def count_leading_zeros_def leading_loop_clz)
qed

theorem count_leading_zero_bits_pow_witness:
  "can_post_anonymously toy_hash (replicate 32 0) \<and>
   count_leading_zero_bits (replicate 32 9) = count_leading_zeros (replicate 32 9)"
proof -
  have "be_value (replicate n 0) = 0" for n by (induction n) simp_all
  moreover have "toy_hash (replicate 32 0) = replicate 32 0" by (simp add: toy_hash_def)
  ultimately show ?thesis
    using count_leading_zero_bits_pow [of toy_hash "replicate 32 9" "replicate 32 0"]
    by (simp add: toy_hash_def)
qed

text \<open>
  The access level of a node. The level \<open>IDENTIFIED\<close> is never given, because the check for
  other keys counts the identity key too; a node is trusted exactly when it is active, holds
  an identity key and has a reputation of at least 100, and then it may vouch for every active
  node and the policies grant it the capability to vouch.
\<close>

theorem access_level_spec:
  fixes s :: StateManager and n :: NodeID
  defines "trusted \<equiv> get_access_level s n = TRUSTED"
  shows "get_access_level s n \<noteq> IDENTIFIED \<and>
    (trusted \<longleftrightarrow> is_node_active s n \<and> get_node_key_balance s n IDENTITY > 0 \<and>
       sint (get_node_reputation s n) \<ge> 100) \<and>
    (trusted \<and> is_node_active s m \<longrightarrow> can_vouch_for_node s n m) \<and>
    (trusted \<longrightarrow> ad_granted (check_access H AccessControl_init s
       \<lparr>rq_requester = n, rq_capability = VOUCH_FOR_NODES, rq_network_id = net, rq_thing_id = None,
        rq_pow_solution = w\<rparr>))"
  using balance_has_keys [of s n IDENTITY]
  by (auto simp: get_access_level_def can_vouch_for_node_def granted_iff requirements_def trusted_def
      default_policy_def AccessPolicy_new_def check_key_requirements_def
      check_reputation_requirements_def check_network_requirements_def check_pow_requirements_def
      split: if_splits option.split)

theorem access_level_spec_witness:
  "get_access_level trusted_state trusted_node = TRUSTED \<and>
   can_vouch_for_node trusted_state trusted_node trusted_node \<and>
   ad_granted (check_access toy_hash AccessControl_init trusted_state
     \<lparr>rq_requester = trusted_node, rq_capability = VOUCH_FOR_NODES, rq_network_id = None,
      rq_thing_id = None, rq_pow_solution = None\<rparr>)"
  using access_level_spec [of trusted_state trusted_node trusted_node toy_hash None None]
  by (simp add: trusted_defs)

text \<open>
  In every state that the state manager can reach, counting the nodes with a capability never
  reads an identifier that was not set, and gives the number of nodes to which a request
  without network and proof of work is granted.
\<close>

theorem count_nodes_with_capability_correct:
  "count_nodes_with_capability H ac (foldl state_step (StateManager_init L now) ops) c =
     Some (card {n. ad_granted (check_access H ac (foldl state_step (StateManager_init L now) ops)
       \<lparr>rq_requester = n, rq_capability = c, rq_network_id = None, rq_thing_id = None,
        rq_pow_solution = None\<rparr>)})"
proof -
  let ?s = "foldl state_step (StateManager_init L now) ops"
  let ?g = "\<lambda>n. ad_granted (check_access H ac ?s \<lparr>rq_requester = n, rq_capability = c,
    rq_network_id = None, rq_thing_id = None, rq_pow_solution = None\<rparr>)"
  have ok: "ids_ok ?s" by (rule reachable_ids_ok)
  let ?ids = "map fst (filter (\<lambda>p. ns_is_active (snd p)) (sm_nodes ?s))"
  have d: "distinct ?ids" using ok by (simp add: ids_ok_def omap_ok_distinct distinct_map_filter)
  have "set (filter ?g ?ids) = {n. ?g n}"
  proof -
    have "?g n \<Longrightarrow> n \<in> set ?ids" for n
      by (auto simp: granted_iff requirements_def is_node_active_def image_iff
          split: option.splits dest!: map_of_SomeD intro!: bexI)
    then show ?thesis by auto
  qed
  then have "card {n. ?g n} = length (filter ?g ?ids)"
    using d by (metis distinct_card distinct_filter)
  with active_node_ids [OF ok] show ?thesis
    by (simp add: count_nodes_with_capability_def count_capable_loop_ids)
qed

end
