(* ===== verification/Decay.thy ===== *)
theory Decay
  imports Access
begin

text \<open>
  \<open>DecayScheduler\<close> and \<open>DecayRunner\<close> of \<open>src/core/decay\<close>: which keys and Things decay, from the
  observed activity and the state manager, the history of the decisions, and the worker thread
  that runs the checks.

  The system clock is the argument \<open>now\<close>, in seconds, read once per operation; the state manager
  is the argument \<open>sm\<close>. The activity records have no constructor of their own, so \<open>operator[]\<close>
  of the map creates them with every number zero. A \<open>float\<close> is its IEEE 754 bit pattern; no
  operation computes with one.
\<close>

section \<open>Data\<close>

datatype DecayReason = INACTIVITY | EXPIRATION | RESOURCE_SHORTAGE | POOR_PERFORMANCE | VIOLATION

fun reason_code :: "DecayReason \<Rightarrow> nat" where
  "reason_code INACTIVITY = 0"
| "reason_code EXPIRATION = 1"
| "reason_code RESOURCE_SHORTAGE = 2"
| "reason_code POOR_PERFORMANCE = 3"
| "reason_code VIOLATION = 4"

lemma reason_code_inject [simp]: "reason_code a = reason_code b \<longleftrightarrow> a = b"
  by (cases a; cases b) simp_all

instantiation DecayReason :: linorder
begin

definition less_eq_DecayReason :: "DecayReason \<Rightarrow> DecayReason \<Rightarrow> bool" where
  "less_eq_DecayReason a b \<longleftrightarrow> reason_code a \<le> reason_code b"

definition less_DecayReason :: "DecayReason \<Rightarrow> DecayReason \<Rightarrow> bool" where
  "less_DecayReason a b \<longleftrightarrow> reason_code a < reason_code b"

instance
  by standard (auto simp: less_eq_DecayReason_def less_DecayReason_def order_less_le)

end

record KeyDecayEvent =
  kd_node_id :: NodeID
  kd_key_type :: KeyType
  kd_keys_decayed :: u32
  kd_reason :: DecayReason
  kd_decayed_at :: u64
  kd_epoch :: u64

record ThingDecayEvent =
  tde_content_hash :: ContentHash
  tde_hosts_removed :: "NodeID list"
  tde_reason :: DecayReason
  tde_decayed_at :: u64

text \<open>The default constructor of \<open>DecayPolicy\<close> leaves \<open>key_type\<close> uninitialised.\<close>

record DecayPolicy =
  dp_key_type :: "KeyType option"
  dp_max_age_seconds :: u64
  dp_inactivity_threshold :: u64
  dp_requires_activity :: bool
  dp_min_actions_per_epoch :: u32
  dp_requires_performance :: bool
  dp_min_success_rate :: u32

record ThingDecayPolicy =
  tp_max_age_seconds :: u64
  tp_min_hosts_required :: u32
  tp_inactivity_threshold :: u64

record NodeActivity =
  na_node_id :: NodeID
  na_last_seen :: u64
  na_last_key_use :: u64
  na_last_use_by_type :: "(KeyType \<times> u64) list"
  na_actions_this_epoch :: "(KeyType \<times> u32) list"

record ThingActivity =
  ta_content_hash :: ContentHash
  ta_created_at :: u64
  ta_last_accessed :: u64
  ta_access_count :: u32
  ta_current_hosts :: "NodeID list"

record DecayScheduler =
  ds_key_policies :: "(KeyType \<times> DecayPolicy) list"
  ds_thing_policy :: ThingDecayPolicy
  ds_node_activities :: "(NodeID \<times> NodeActivity) list"
  ds_thing_activities :: "(ContentHash \<times> ThingActivity) list"
  ds_key_decay_by_epoch :: "(u64 \<times> KeyDecayEvent list) list"
  ds_thing_decay_history :: "ThingDecayEvent list"

definition DecayPolicy_new :: DecayPolicy where
  "DecayPolicy_new = \<lparr>dp_key_type = None, dp_max_age_seconds = 30 * 24 * 60 * 60,
     dp_inactivity_threshold = 7 * 24 * 60 * 60, dp_requires_activity = False,
     dp_min_actions_per_epoch = 0, dp_requires_performance = False, dp_min_success_rate = 0x3F000000\<rparr>"

definition ThingDecayPolicy_new :: ThingDecayPolicy where
  "ThingDecayPolicy_new = \<lparr>tp_max_age_seconds = 90 * 24 * 60 * 60, tp_min_hosts_required = 2,
     tp_inactivity_threshold = 30 * 24 * 60 * 60\<rparr>"

text \<open>What \<open>node_activities_[n]\<close> and \<open>thing_activities_[c]\<close> create for a missing key; the next
  statement of every caller sets the identifier.\<close>

definition NodeActivity_new :: "NodeID \<Rightarrow> NodeActivity" where
  "NodeActivity_new n = \<lparr>na_node_id = n, na_last_seen = 0, na_last_key_use = 0,
     na_last_use_by_type = [], na_actions_this_epoch = []\<rparr>"

definition ThingActivity_new :: "ContentHash \<Rightarrow> ThingActivity" where
  "ThingActivity_new c = \<lparr>ta_content_hash = c, ta_created_at = 0, ta_last_accessed = 0,
     ta_access_count = 0, ta_current_hosts = []\<rparr>"

section \<open>Activity records\<close>

definition node_is_inactive :: "u64 \<Rightarrow> NodeActivity \<Rightarrow> u64 \<Rightarrow> bool" where
  "node_is_inactive now a threshold \<longleftrightarrow> now - na_last_seen a > threshold"

definition has_used_key_type :: "u64 \<Rightarrow> NodeActivity \<Rightarrow> KeyType \<Rightarrow> u64 \<Rightarrow> bool" where
  "has_used_key_type now a t threshold =
     (case map_of (na_last_use_by_type a) t of None \<Rightarrow> False | Some used \<Rightarrow> now - used \<le> threshold)"

definition thing_is_inactive :: "u64 \<Rightarrow> ThingActivity \<Rightarrow> u64 \<Rightarrow> bool" where
  "thing_is_inactive now a threshold \<longleftrightarrow> now - ta_last_accessed a > threshold"

definition meets_redundancy :: "ThingActivity \<Rightarrow> u32 \<Rightarrow> bool" where
  "meets_redundancy a min_hosts \<longleftrightarrow> length (ta_current_hosts a) \<ge> unat min_hosts"

section \<open>Policies\<close>

definition set_key_policy :: "KeyType \<Rightarrow> DecayPolicy \<Rightarrow> DecayScheduler \<Rightarrow> DecayScheduler" where
  "set_key_policy t p ds = ds\<lparr>ds_key_policies := omap_set t p (ds_key_policies ds)\<rparr>"

definition get_key_policy :: "DecayScheduler \<Rightarrow> KeyType \<Rightarrow> DecayPolicy" where
  "get_key_policy ds t =
     (case map_of (ds_key_policies ds) t of None \<Rightarrow> DecayPolicy_new | Some p \<Rightarrow> p)"

definition set_thing_policy :: "ThingDecayPolicy \<Rightarrow> DecayScheduler \<Rightarrow> DecayScheduler" where
  "set_thing_policy p ds = ds\<lparr>ds_thing_policy := p\<rparr>"

definition get_thing_policy :: "DecayScheduler \<Rightarrow> ThingDecayPolicy" where
  "get_thing_policy ds = ds_thing_policy ds"

definition default_decay_policies :: "DecayScheduler \<Rightarrow> DecayScheduler" where
  "default_decay_policies ds = ds\<lparr>ds_key_policies :=
     omap_set NETWORK (DecayPolicy_new\<lparr>dp_key_type := Some NETWORK,
         dp_max_age_seconds := 30 * 24 * 60 * 60, dp_inactivity_threshold := 14 * 24 * 60 * 60,
         dp_requires_activity := False\<rparr>)
     (omap_set ROUTING (DecayPolicy_new\<lparr>dp_key_type := Some ROUTING,
         dp_max_age_seconds := 30 * 24 * 60 * 60, dp_inactivity_threshold := 7 * 24 * 60 * 60,
         dp_requires_activity := True, dp_min_actions_per_epoch := 10, dp_requires_performance := True,
         dp_min_success_rate := 0x3F333333\<rparr>)
     (omap_set SERVICE (DecayPolicy_new\<lparr>dp_key_type := Some SERVICE,
         dp_max_age_seconds := 30 * 24 * 60 * 60, dp_inactivity_threshold := 7 * 24 * 60 * 60,
         dp_requires_activity := True, dp_min_actions_per_epoch := 1\<rparr>)
     (omap_set NODE (DecayPolicy_new\<lparr>dp_key_type := Some NODE,
         dp_max_age_seconds := 30 * 24 * 60 * 60, dp_inactivity_threshold := 7 * 24 * 60 * 60,
         dp_requires_activity := True, dp_min_actions_per_epoch := 1\<rparr>)
     (omap_set IDENTITY (DecayPolicy_new\<lparr>dp_key_type := Some IDENTITY,
         dp_max_age_seconds := 0, dp_requires_activity := False\<rparr>)
     (ds_key_policies ds)))))\<rparr>"

definition DecayScheduler_init :: DecayScheduler where
  "DecayScheduler_init = default_decay_policies
     \<lparr>ds_key_policies = [], ds_thing_policy = ThingDecayPolicy_new, ds_node_activities = [],
      ds_thing_activities = [], ds_key_decay_by_epoch = [], ds_thing_decay_history = []\<rparr>"

section \<open>Recording activity\<close>

definition activity_at :: "DecayScheduler \<Rightarrow> NodeID \<Rightarrow> NodeActivity" where
  "activity_at ds n = (opt_or (NodeActivity_new n) (map_of (ds_node_activities ds) n))\<lparr>na_node_id := n\<rparr>"

definition set_activity :: "NodeID \<Rightarrow> NodeActivity \<Rightarrow> DecayScheduler \<Rightarrow> DecayScheduler" where
  "set_activity n a ds = ds\<lparr>ds_node_activities := omap_set n a (ds_node_activities ds)\<rparr>"

definition thing_activity_at :: "DecayScheduler \<Rightarrow> ContentHash \<Rightarrow> ThingActivity" where
  "thing_activity_at ds c =
     (opt_or (ThingActivity_new c) (map_of (ds_thing_activities ds) c))\<lparr>ta_content_hash := c\<rparr>"

definition set_thing_activity :: "ContentHash \<Rightarrow> ThingActivity \<Rightarrow> DecayScheduler \<Rightarrow> DecayScheduler" where
  "set_thing_activity c a ds = ds\<lparr>ds_thing_activities := omap_set c a (ds_thing_activities ds)\<rparr>"

definition record_node_activity :: "u64 \<Rightarrow> NodeID \<Rightarrow> DecayScheduler \<Rightarrow> DecayScheduler" where
  "record_node_activity now n ds = set_activity n ((activity_at ds n)\<lparr>na_last_seen := now\<rparr>) ds"

definition record_key_use :: "u64 \<Rightarrow> NodeID \<Rightarrow> KeyType \<Rightarrow> DecayScheduler \<Rightarrow> DecayScheduler" where
  "record_key_use now n t ds =
     (let a = activity_at ds n in
      set_activity n (a\<lparr>na_last_key_use := now,
        na_last_use_by_type := omap_set t now (na_last_use_by_type a),
        na_actions_this_epoch := omap_set t (opt_or 0 (map_of (na_actions_this_epoch a) t) + 1)
          (na_actions_this_epoch a)\<rparr>) ds)"

definition update_node_activity_from_state :: "u64 \<Rightarrow> StateManager \<Rightarrow> NodeID \<Rightarrow> DecayScheduler \<Rightarrow> DecayScheduler" where
  "update_node_activity_from_state now sm n ds =
     (let a = activity_at ds n in
      set_activity n (if is_node_active sm n then a\<lparr>na_last_seen := now\<rparr> else a) ds)"

definition update_thing_activity_from_state :: "StateManager \<Rightarrow> ContentHash \<Rightarrow> DecayScheduler \<Rightarrow> DecayScheduler" where
  "update_thing_activity_from_state sm c ds =
     (let a = thing_activity_at ds c in
      set_thing_activity c
        (case get_thing_state sm c of
           None \<Rightarrow> a
         | Some st \<Rightarrow>
             let a1 = a\<lparr>ta_current_hosts := th_hosts st\<rparr> in
             if ta_created_at a1 = 0
             then a1\<lparr>ta_created_at := th_created_at st, ta_last_accessed := th_created_at st\<rparr>
             else a1) ds)"

definition record_thing_access :: "u64 \<Rightarrow> StateManager \<Rightarrow> ContentHash \<Rightarrow> DecayScheduler \<Rightarrow> DecayScheduler" where
  "record_thing_access now sm c ds =
     (let a = thing_activity_at ds c in
      update_thing_activity_from_state sm c
        (set_thing_activity c (a\<lparr>ta_last_accessed := now, ta_access_count := ta_access_count a + 1\<rparr>) ds))"

section \<open>Decisions\<close>

text \<open>The reason, when the function returns true.\<close>

definition should_decay_key :: "u64 \<Rightarrow> DecayScheduler \<Rightarrow> NodeID \<Rightarrow> KeyType \<Rightarrow> DecayPolicy \<Rightarrow> DecayReason option" where
  "should_decay_key now ds n t p =
     (if dp_max_age_seconds p = 0 then None
      else case map_of (ds_node_activities ds) n of
        Some a \<Rightarrow>
          if node_is_inactive now a (dp_inactivity_threshold p) then Some INACTIVITY
          else if dp_requires_activity p then
            if \<not> has_used_key_type now a t (dp_inactivity_threshold p) then Some INACTIVITY
            else (case map_of (na_actions_this_epoch a) t of
                    None \<Rightarrow> Some POOR_PERFORMANCE
                  | Some k \<Rightarrow> if k < dp_min_actions_per_epoch p then Some POOR_PERFORMANCE else None)
          else None
      | None \<Rightarrow> if dp_requires_activity p then Some INACTIVITY else None)"

definition should_decay_thing :: "u64 \<Rightarrow> StateManager \<Rightarrow> DecayScheduler \<Rightarrow> ContentHash \<Rightarrow> ThingDecayPolicy \<Rightarrow> DecayReason option" where
  "should_decay_thing now sm ds c p =
     (case map_of (ds_thing_activities ds) c of
        Some a \<Rightarrow>
          if thing_is_inactive now a (tp_inactivity_threshold p) then Some INACTIVITY
          else if \<not> meets_redundancy a (tp_min_hosts_required p) then Some RESOURCE_SHORTAGE
          else if now - ta_created_at a > tp_max_age_seconds p \<and> ta_access_count a = 0 then Some EXPIRATION
          else None
      | None \<Rightarrow>
          (case get_thing_state sm c of
             None \<Rightarrow> None
           | Some st \<Rightarrow> if length (th_hosts st) < unat (tp_min_hosts_required p)
                        then Some RESOURCE_SHORTAGE else None))"

text \<open>The inner loop of \<open>check_key_decay\<close>, over the balances of one node.\<close>

fun decay_balances :: "u64 \<Rightarrow> u64 \<Rightarrow> DecayScheduler \<Rightarrow> NodeID \<Rightarrow> (KeyType \<times> u32) list \<Rightarrow> KeyDecayEvent list" where
  "decay_balances now epoch ds n [] = []"
| "decay_balances now epoch ds n ((t, count) # bs) =
     (if count = 0 then decay_balances now epoch ds n bs
      else case should_decay_key now ds n t (get_key_policy ds t) of
        None \<Rightarrow> decay_balances now epoch ds n bs
      | Some r \<Rightarrow> \<lparr>kd_node_id = n, kd_key_type = t, kd_keys_decayed = 1, kd_reason = r,
                   kd_decayed_at = now, kd_epoch = epoch\<rparr> # decay_balances now epoch ds n bs)"

text \<open>The outer loop; \<open>None\<close> when it reads the identifier of a node state that never got one.\<close>

fun decay_nodes :: "u64 \<Rightarrow> u64 \<Rightarrow> StateManager \<Rightarrow> NodeState list \<Rightarrow> KeyDecayEvent list \<Rightarrow> DecayScheduler
    \<Rightarrow> (KeyDecayEvent list \<times> DecayScheduler) option" where
  "decay_nodes now epoch sm [] decays ds = Some (decays, ds)"
| "decay_nodes now epoch sm (st # sts) decays ds =
     (case ns_node_id st of
        None \<Rightarrow> None
      | Some n \<Rightarrow>
          let ds1 = (if map_of (ds_node_activities ds) n = None
                     then update_node_activity_from_state now sm n ds else ds)
          in decay_nodes now epoch sm sts
               (decays @ decay_balances now epoch ds1 n (ns_key_balances st)) ds1)"

definition check_key_decay :: "u64 \<Rightarrow> StateManager \<Rightarrow> u64 \<Rightarrow> DecayScheduler \<Rightarrow> (KeyDecayEvent list \<times> DecayScheduler) option" where
  "check_key_decay now sm epoch ds =
     (case decay_nodes now epoch sm (get_all_active_nodes sm) [] ds of
        None \<Rightarrow> None
      | Some (decays, ds1) \<Rightarrow>
          Some (decays, if decays \<noteq> []
            then ds1\<lparr>ds_key_decay_by_epoch := omap_set epoch decays (ds_key_decay_by_epoch ds1)\<rparr>
            else ds1))"

fun decay_things :: "u64 \<Rightarrow> StateManager \<Rightarrow> ThingState list \<Rightarrow> ThingDecayEvent list \<Rightarrow> DecayScheduler
    \<Rightarrow> (ThingDecayEvent list \<times> DecayScheduler) option" where
  "decay_things now sm [] decays ds = Some (decays, ds)"
| "decay_things now sm (st # sts) decays ds =
     (case th_content_hash st of
        None \<Rightarrow> None
      | Some c \<Rightarrow>
          let ds1 = (if map_of (ds_thing_activities ds) c = None
                     then update_thing_activity_from_state sm c ds else ds)
          in decay_things now sm sts
               (case should_decay_thing now sm ds1 c (ds_thing_policy ds1) of
                  None \<Rightarrow> decays
                | Some r \<Rightarrow> decays @ [\<lparr>tde_content_hash = c, tde_hosts_removed = th_hosts st,
                                       tde_reason = r, tde_decayed_at = now\<rparr>]) ds1)"

definition check_thing_decay :: "u64 \<Rightarrow> StateManager \<Rightarrow> DecayScheduler \<Rightarrow> (ThingDecayEvent list \<times> DecayScheduler) option" where
  "check_thing_decay now sm ds = decay_things now sm (get_all_available_things sm) [] ds"

text \<open>\<open>apply_key_decay\<close> logs, and reserves capacity in the other history, which no operation
  can observe.\<close>

definition apply_key_decay :: "KeyDecayEvent \<Rightarrow> DecayScheduler \<Rightarrow> DecayScheduler" where
  "apply_key_decay ev ds = ds"

definition apply_thing_decay :: "ThingDecayEvent \<Rightarrow> DecayScheduler \<Rightarrow> DecayScheduler" where
  "apply_thing_decay ev ds = ds\<lparr>ds_thing_decay_history := ds_thing_decay_history ds @ [ev]\<rparr>"

definition reset_epoch_counters :: "DecayScheduler \<Rightarrow> DecayScheduler" where
  "reset_epoch_counters ds = ds\<lparr>ds_node_activities :=
     map (\<lambda>(n, a). (n, a\<lparr>na_actions_this_epoch := []\<rparr>)) (ds_node_activities ds)\<rparr>"

definition process_epoch :: "u64 \<Rightarrow> StateManager \<Rightarrow> u64 \<Rightarrow> DecayScheduler \<Rightarrow> DecayScheduler option" where
  "process_epoch now sm epoch ds =
     (case check_key_decay now sm epoch ds of
        None \<Rightarrow> None
      | Some (key_decays, ds1) \<Rightarrow>
          (case check_thing_decay now sm (fold apply_key_decay key_decays ds1) of
             None \<Rightarrow> None
           | Some (thing_decays, ds2) \<Rightarrow>
               Some (reset_epoch_counters (fold apply_thing_decay thing_decays ds2))))"

definition force_decay_check :: "u64 \<Rightarrow> StateManager \<Rightarrow> DecayScheduler \<Rightarrow> DecayScheduler option" where
  "force_decay_check now sm ds = process_epoch now sm (now div (10 * 60)) ds"

definition cleanup_inactive_nodes :: "u64 \<Rightarrow> u64 \<Rightarrow> DecayScheduler \<Rightarrow> DecayScheduler" where
  "cleanup_inactive_nodes now threshold ds =
     (let to_remove = map fst (filter (\<lambda>(n, a). now - na_last_seen a > threshold) (ds_node_activities ds))
      in ds\<lparr>ds_node_activities := fold omap_erase to_remove (ds_node_activities ds)\<rparr>)"

section \<open>History and statistics\<close>

definition get_key_decay_history :: "DecayScheduler \<Rightarrow> NodeID \<Rightarrow> KeyDecayEvent list" where
  "get_key_decay_history ds n =
     concat (map (\<lambda>(epoch, evs). filter (\<lambda>ev. kd_node_id ev = n) evs) (ds_key_decay_by_epoch ds))"

definition get_thing_decay_history :: "DecayScheduler \<Rightarrow> ThingDecayEvent list" where
  "get_thing_decay_history ds = ds_thing_decay_history ds"

definition get_total_keys_decayed :: "DecayScheduler \<Rightarrow> u64 \<Rightarrow> u32" where
  "get_total_keys_decayed ds epoch =
     (case map_of (ds_key_decay_by_epoch ds) epoch of
        None \<Rightarrow> 0
      | Some evs \<Rightarrow> foldl (\<lambda>total ev. total + kd_keys_decayed ev) 0 evs)"

definition get_total_things_decayed :: "DecayScheduler \<Rightarrow> u32" where
  "get_total_things_decayed ds = word_of_nat (length (ds_thing_decay_history ds))"

definition get_decay_reasons_breakdown :: "DecayScheduler \<Rightarrow> (DecayReason \<times> u32) list" where
  "get_decay_reasons_breakdown ds =
     fold (\<lambda>ev m. omap_set (tde_reason ev) (opt_or 0 (map_of m (tde_reason ev)) + 1) m)
       (ds_thing_decay_history ds)
       (fold (\<lambda>(epoch, evs) m. fold (\<lambda>ev m. omap_set (kd_reason ev)
             (opt_or 0 (map_of m (kd_reason ev)) + kd_keys_decayed ev) m) evs m)
          (ds_key_decay_by_epoch ds) [])"

section \<open>The runner\<close>

record DecayStats =
  st_total_checks :: u64
  st_last_check_timestamp :: u64
  st_keys_decayed_total :: u32
  st_things_decayed_total :: u32
  st_uptime_seconds :: u64

text \<open>
  Where the worker thread is: at the test of the outer loop, of the inner loop, at the test for a
  trigger or the end of the interval, at the test after the inner loop, at the test for a manual
  trigger, before its reset, before the check, or past the loop.
\<close>

datatype worker_pc = OuterTest | InnerTest | WaitTest | ExitTest | TriggerTest | ClearTrigger
  | PerformCheck | Finished

text \<open>
  \<open>rn_worker\<close> is the thread when there is one to join, \<open>rn_joining\<close> holds while \<open>stop\<close> waits for it,
  and \<open>rn_triggering\<close> counts the callers of \<open>trigger_check\<close> between its test and its store. The
  calls of the callback are kept in order. \<open>rn_start_time\<close> counts nanoseconds. \<open>rn_pending\<close> is not in
  the code: it holds from a store of \<open>trigger_\<close> to the next start of a check.
\<close>

record DecayRunner =
  rn_scheduler :: DecayScheduler
  rn_running :: bool
  rn_trigger :: bool
  rn_has_callback :: bool
  rn_callbacks :: "(KeyDecayEvent list \<times> ThingDecayEvent list) list"
  rn_stats :: DecayStats
  rn_start_time :: int
  rn_worker :: "worker_pc option"
  rn_joining :: bool
  rn_triggering :: nat
  rn_pending :: bool

definition DecayRunner_init :: "DecayScheduler \<Rightarrow> DecayRunner" where
  "DecayRunner_init ds = \<lparr>rn_scheduler = ds, rn_running = False, rn_trigger = False,
     rn_has_callback = False, rn_callbacks = [],
     rn_stats = \<lparr>st_total_checks = 0, st_last_check_timestamp = 0, st_keys_decayed_total = 0,
       st_things_decayed_total = 0, st_uptime_seconds = 0\<rparr>,
     rn_start_time = 0, rn_worker = None, rn_joining = False, rn_triggering = 0, rn_pending = False\<rparr>"

definition runner_start :: "int \<Rightarrow> DecayRunner \<Rightarrow> DecayRunner" where
  "runner_start now_ns r =
     (if rn_running r then r
      else r\<lparr>rn_running := True, rn_start_time := now_ns, rn_worker := Some OuterTest\<rparr>)"

text \<open>\<open>stop\<close> up to the join.\<close>

definition runner_stop :: "DecayRunner \<Rightarrow> DecayRunner" where
  "runner_stop r = (if \<not> rn_running r then r else r\<lparr>rn_running := False, rn_joining := True\<rparr>)"

text \<open>The flag tells whether the \<open>std::function\<close> holds a target.\<close>

definition set_decay_callback :: "bool \<Rightarrow> DecayRunner \<Rightarrow> DecayRunner" where
  "set_decay_callback callback r = r\<lparr>rn_has_callback := callback\<rparr>"

definition trigger_check :: "DecayRunner \<Rightarrow> DecayRunner" where
  "trigger_check r = (if \<not> rn_running r then r else r\<lparr>rn_triggering := rn_triggering r + 1\<rparr>)"

definition perform_decay_check :: "u64 \<Rightarrow> StateManager \<Rightarrow> DecayRunner \<Rightarrow> DecayRunner option" where
  "perform_decay_check now sm r =
     (case check_key_decay now sm (now div (10 * 60)) (rn_scheduler r) of
        None \<Rightarrow> None
      | Some (key_decays, ds1) \<Rightarrow>
          (case check_thing_decay now sm ds1 of
             None \<Rightarrow> None
           | Some (thing_decays, ds2) \<Rightarrow>
               Some (r\<lparr>rn_scheduler := fold apply_thing_decay thing_decays (fold apply_key_decay key_decays ds2),
                 rn_stats := (rn_stats r)\<lparr>st_total_checks := st_total_checks (rn_stats r) + 1,
                   st_last_check_timestamp := now,
                   st_keys_decayed_total := st_keys_decayed_total (rn_stats r) + word_of_nat (length key_decays),
                   st_things_decayed_total :=
                     st_things_decayed_total (rn_stats r) + word_of_nat (length thing_decays)\<rparr>,
                 rn_callbacks := (if rn_has_callback r \<and> (key_decays \<noteq> [] \<or> thing_decays \<noteq> [])
                   then rn_callbacks r @ [(key_decays, thing_decays)] else rn_callbacks r)\<rparr>)))"

text \<open>One step of the worker; \<open>elapsed\<close> tells whether the interval is over at the test.\<close>

definition worker_step :: "bool \<Rightarrow> u64 \<Rightarrow> StateManager \<Rightarrow> DecayRunner \<Rightarrow> DecayRunner option" where
  "worker_step elapsed now sm r =
     (case rn_worker r of
        Some OuterTest \<Rightarrow> Some (r\<lparr>rn_worker := Some (if rn_running r then InnerTest else Finished)\<rparr>)
      | Some InnerTest \<Rightarrow> Some (r\<lparr>rn_worker := Some (if rn_running r then WaitTest else ExitTest)\<rparr>)
      | Some WaitTest \<Rightarrow> Some (r\<lparr>rn_worker := Some (if rn_trigger r \<or> elapsed then ExitTest else InnerTest)\<rparr>)
      | Some ExitTest \<Rightarrow> Some (r\<lparr>rn_worker := Some (if \<not> rn_running r then Finished else TriggerTest)\<rparr>)
      | Some TriggerTest \<Rightarrow> Some (r\<lparr>rn_worker := Some (if rn_trigger r then ClearTrigger else PerformCheck)\<rparr>)
      | Some ClearTrigger \<Rightarrow> Some (r\<lparr>rn_trigger := False, rn_worker := Some PerformCheck\<rparr>)
      | Some PerformCheck \<Rightarrow>
          perform_decay_check now sm (r\<lparr>rn_pending := False, rn_worker := Some OuterTest\<rparr>)
      | _ \<Rightarrow> None)"

text \<open>The steps of the owner, of the callers of \<open>trigger_check\<close> and of the worker, interleaved. The
  owner does nothing else while \<open>stop\<close> waits.\<close>

inductive runner_step :: "DecayRunner \<Rightarrow> DecayRunner \<Rightarrow> bool" where
  Start: "\<not> rn_joining r \<Longrightarrow> runner_step r (runner_start now_ns r)"
| Stop: "\<not> rn_joining r \<Longrightarrow> runner_step r (runner_stop r)"
| Join: "rn_joining r \<Longrightarrow> rn_worker r = Some Finished \<Longrightarrow>
    runner_step r (r\<lparr>rn_joining := False, rn_worker := None\<rparr>)"
| Callback: "\<not> rn_joining r \<Longrightarrow> rn_worker r = None \<Longrightarrow> runner_step r (set_decay_callback callback r)"
| TriggerCall: "runner_step r (trigger_check r)"
| TriggerStore: "rn_triggering r = Suc k \<Longrightarrow>
    runner_step r (r\<lparr>rn_trigger := True, rn_triggering := k, rn_pending := True\<rparr>)"
| Worker: "worker_step elapsed now sm r = Some r' \<Longrightarrow> runner_step r r'"

inductive runner_reachable :: "DecayScheduler \<Rightarrow> DecayRunner \<Rightarrow> bool" for ds where
  Init: "runner_reachable ds (DecayRunner_init ds)"
| Step: "runner_reachable ds r \<Longrightarrow> runner_step r r' \<Longrightarrow> runner_reachable ds r'"

inductive_cases runner_stepE: "runner_step r r'"

definition get_stats :: "int \<Rightarrow> DecayRunner \<Rightarrow> DecayStats" where
  "get_stats now_ns r =
     (if rn_running r then
        let d = now_ns - rn_start_time r in
        (rn_stats r)\<lparr>st_uptime_seconds :=
          word_of_int (if d \<ge> 0 then d div 10 ^ 9 else - (- d div 10 ^ 9))\<rparr>
      else rn_stats r)"

section \<open>Lemmas\<close>

subsection \<open>Which keys decay\<close>

text \<open>The verdict on a key type from an activity record, and the record a node has in a check.\<close>

definition key_verdict :: "u64 \<Rightarrow> DecayPolicy \<Rightarrow> NodeActivity \<Rightarrow> KeyType \<Rightarrow> DecayReason option" where
  "key_verdict now p a t =
     (if dp_max_age_seconds p = 0 then None
      else if now - na_last_seen a > dp_inactivity_threshold p then Some INACTIVITY
      else if \<not> dp_requires_activity p then None
      else if \<not> has_used_key_type now a t (dp_inactivity_threshold p) then Some INACTIVITY
      else if map_of (na_actions_this_epoch a) t = None \<or>
        the (map_of (na_actions_this_epoch a) t) < dp_min_actions_per_epoch p then Some POOR_PERFORMANCE
      else None)"

definition tracked :: "u64 \<Rightarrow> DecayScheduler \<Rightarrow> NodeID \<Rightarrow> NodeActivity" where
  "tracked now ds n = opt_or ((NodeActivity_new n)\<lparr>na_last_seen := now\<rparr>) (map_of (ds_node_activities ds) n)"

definition track :: "u64 \<Rightarrow> StateManager \<Rightarrow> NodeID \<Rightarrow> DecayScheduler \<Rightarrow> DecayScheduler" where
  "track now sm n ds = (if map_of (ds_node_activities ds) n = None
     then update_node_activity_from_state now sm n ds else ds)"

lemma track_policies [simp]: "ds_key_policies (track now sm n ds) = ds_key_policies ds"
  by (simp add: track_def update_node_activity_from_state_def set_activity_def Let_def)

lemma get_key_policy_track [simp]: "get_key_policy (track now sm n ds) = get_key_policy ds"
  by (simp add: get_key_policy_def fun_eq_iff)

lemma find_track:
  assumes "is_node_active sm n"
  shows "map_of (ds_node_activities (track now sm n ds)) =
    (map_of (ds_node_activities ds))(n \<mapsto> tracked now ds n)"
  using assms by (auto simp: track_def tracked_def update_node_activity_from_state_def set_activity_def
      activity_at_def NodeActivity_new_def Let_def fun_eq_iff)

lemma tracked_track [simp]: "is_node_active sm n \<Longrightarrow> tracked now (track now sm n ds) m = tracked now ds m"
  by (simp add: tracked_def find_track)

lemma should_decay_tracked:
  "is_node_active sm n \<Longrightarrow> should_decay_key now (track now sm n ds) n t p = key_verdict now p (tracked now ds n) t"
  by (auto simp: should_decay_key_def key_verdict_def find_track node_is_inactive_def split: option.split)

definition node_decays :: "u64 \<Rightarrow> u64 \<Rightarrow> DecayScheduler \<Rightarrow> NodeID \<Rightarrow> (KeyType \<times> u32) list \<Rightarrow> KeyDecayEvent list" where
  "node_decays now epoch ds n bs = List.map_filter (\<lambda>(t, count). if count = 0 then None
     else map_option (\<lambda>r. \<lparr>kd_node_id = n, kd_key_type = t, kd_keys_decayed = 1, kd_reason = r,
         kd_decayed_at = now, kd_epoch = epoch\<rparr>) (key_verdict now (get_key_policy ds t) (tracked now ds n) t)) bs"

lemma node_decays_track [simp]:
  "is_node_active sm n \<Longrightarrow> node_decays now epoch (track now sm n ds) m bs = node_decays now epoch ds m bs"
  by (simp add: node_decays_def cong: if_cong)

lemma decay_balances_eq:
  assumes "is_node_active sm n"
  shows "decay_balances now epoch (track now sm n ds) n bs = node_decays now epoch ds n bs"
proof (induction bs)
  case (Cons b bs)
  then show ?case
    by (cases b) (auto simp: node_decays_def map_filter_simps should_decay_tracked assms split: option.split)
qed (simp add: node_decays_def)

lemma decay_nodes_eq:
  assumes "\<And>st. st \<in> set sts \<Longrightarrow> \<exists>n. ns_node_id st = Some n \<and> is_node_active sm n"
  shows "decay_nodes now epoch sm sts decays ds = Some (decays @
      concat (map (\<lambda>st. node_decays now epoch ds (the (ns_node_id st)) (ns_key_balances st)) sts),
    fold (\<lambda>st. track now sm (the (ns_node_id st))) sts ds)"
  using assms
proof (induction sts arbitrary: decays ds)
  case (Cons st sts)
  then obtain n where n: "ns_node_id st = Some n" "is_node_active sm n" by fastforce
  have "decay_nodes now epoch sm (st # sts) decays ds =
      decay_nodes now epoch sm sts (decays @ node_decays now epoch ds n (ns_key_balances st)) (track now sm n ds)"
    using n by (simp add: decay_balances_eq [OF n(2), symmetric] Let_def track_def [symmetric])
  also have "\<dots> = Some (decays @ node_decays now epoch ds n (ns_key_balances st) @
      concat (map (\<lambda>st. node_decays now epoch ds (the (ns_node_id st)) (ns_key_balances st)) sts),
    fold (\<lambda>st. track now sm (the (ns_node_id st))) sts (track now sm n ds))"
    using Cons.prems n(2) by (subst Cons.IH) auto
  finally show ?case by (simp add: n(1))
qed simp

lemma active_ids:
  assumes "ids_ok sm" "st \<in> set (get_all_active_nodes sm)"
  shows "\<exists>n. ns_node_id st = Some n \<and> is_node_active sm n \<and> map_of (sm_nodes sm) n = Some st"
proof -
  obtain n where n: "(n, st) \<in> set (sm_nodes sm)" "ns_is_active st"
    using assms(2) by (auto simp: get_all_active_nodes_def)
  moreover have "map_of (sm_nodes sm) n = Some st"
    using assms(1) n(1) by (simp add: ids_ok_def omap_ok_distinct)
  ultimately show ?thesis using assms(1) by (auto simp: ids_ok_def is_node_active_def)
qed

lemma check_key_decay_eq:
  assumes "ids_ok sm"
  shows "\<exists>ds'. check_key_decay now sm epoch ds = Some (concat (map (\<lambda>st. node_decays now epoch ds
    (the (ns_node_id st)) (ns_key_balances st)) (get_all_active_nodes sm)), ds')"
  using decay_nodes_eq [of "get_all_active_nodes sm" sm now epoch "[]" ds] active_ids [OF assms]
  unfolding check_key_decay_def by force

lemma set_node_decays:
  "ev \<in> set (node_decays now epoch ds n bs) \<longleftrightarrow> (\<exists>t count r. (t, count) \<in> set bs \<and> count \<noteq> 0 \<and>
     key_verdict now (get_key_policy ds t) (tracked now ds n) t = Some r \<and>
     ev = \<lparr>kd_node_id = n, kd_key_type = t, kd_keys_decayed = 1, kd_reason = r, kd_decayed_at = now,
       kd_epoch = epoch\<rparr>)"
  by (auto simp: node_decays_def List.map_filter_def image_iff split: if_splits) fastforce+

subsection \<open>Which Things decay\<close>

text \<open>Every available Thing carries its own hash.\<close>

definition things_named :: "(ContentHash \<times> ThingState) list \<Rightarrow> bool" where
  "things_named m \<longleftrightarrow> omap_ok m \<and>
     (\<forall>c th. map_of m c = Some th \<and> th_is_available th \<longrightarrow> th_content_hash th = Some c)"

lemma things_named_set:
  "things_named m \<Longrightarrow> (th_is_available th \<Longrightarrow> th_content_hash th = Some c) \<Longrightarrow>
   things_named (omap_set c th m)"
  by (auto simp: things_named_def)

lemma things_named_event:
  assumes "things_named (sm_things s)"
  shows "things_named (sm_things (apply_event e s))"
proof -
  have "things_named (sm_things (apply_thing_replicated e s))"
    using assms by (auto simp: apply_thing_replicated_def Let_def set_node_def intro!: things_named_set
      split: option.split)
  moreover have "things_named (sm_things (apply_thing_removed e s))"
    using assms by (auto simp: apply_thing_removed_def Let_def set_node_def intro!: things_named_set
      split: option.split) (auto simp: things_named_def)
  ultimately show ?thesis using assms by (simp add: apply_event_def)
qed

interpretation event_names: invariant_machine "\<lambda>s e. apply_event e s" "\<lambda>s. things_named (sm_things s)"
  by unfold_locales (rule things_named_event)

interpretation names: invariant_machine state_step "\<lambda>s. things_named (sm_things s)"
proof
  fix s :: StateManager and x assume *: "things_named (sm_things s)"
  have "things_named (sm_things (s\<lparr>sm_nodes := [], sm_networks := [], sm_things := []\<rparr>))"
    by (simp add: things_named_def)
  from event_names.run_inv [OF this] * show "things_named (sm_things (state_step s x))"
    by (cases x) (simp_all add: things_named_event rebuild_state_def foldl_conv_fold
        update_node_activity_def cleanup_stale_state_def Let_def)
qed

lemma reachable_things_named: "things_named (sm_things (foldl state_step (StateManager_init L now) ops))"
proof (rule names.run_inv)
  show "things_named (sm_things (StateManager_init L now))"
    using names.step_inv [of "\<lparr>sm_nodes = [], sm_networks = [], sm_things = [], sm_last_rebuild = 0\<rparr>"
      "Rebuild L now"] by (simp add: StateManager_init_def things_named_def)
qed

lemma reachable_state_ok: "state_ok (foldl state_step (StateManager_init L now) ops)"
  by (rule sm.run_inv) (simp add: StateManager_init_def state_ok_rebuild)

lemma available_named:
  assumes "things_named (sm_things sm)" "st \<in> set (get_all_available_things sm)"
  shows "\<exists>c. th_content_hash st = Some c \<and> get_thing_state sm c = Some st"
proof -
  obtain c where c: "(c, st) \<in> set (sm_things sm)" "th_is_available st"
    using assms(2) by (auto simp: get_all_available_things_def)
  then have "map_of (sm_things sm) c = Some st"
    using assms(1) by (simp add: things_named_def omap_ok_distinct)
  with c(2) assms(1) show ?thesis by (auto simp: things_named_def get_thing_state_def)
qed

definition thing_verdict :: "u64 \<Rightarrow> ThingDecayPolicy \<Rightarrow> ThingActivity \<Rightarrow> DecayReason option" where
  "thing_verdict now p a =
     (if now - ta_last_accessed a > tp_inactivity_threshold p then Some INACTIVITY
      else if length (ta_current_hosts a) < unat (tp_min_hosts_required p) then Some RESOURCE_SHORTAGE
      else if now - ta_created_at a > tp_max_age_seconds p \<and> ta_access_count a = 0 then Some EXPIRATION
      else None)"

definition tracked_thing :: "StateManager \<Rightarrow> DecayScheduler \<Rightarrow> ContentHash \<Rightarrow> ThingActivity" where
  "tracked_thing sm ds c = opt_or
     \<lparr>ta_content_hash = c, ta_created_at = th_created_at (thing_at sm c),
      ta_last_accessed = th_created_at (thing_at sm c), ta_access_count = 0,
      ta_current_hosts = th_hosts (thing_at sm c)\<rparr> (map_of (ds_thing_activities ds) c)"

definition track_thing :: "StateManager \<Rightarrow> ContentHash \<Rightarrow> DecayScheduler \<Rightarrow> DecayScheduler" where
  "track_thing sm c ds = (if map_of (ds_thing_activities ds) c = None
     then update_thing_activity_from_state sm c ds else ds)"

lemma find_track_thing:
  assumes "get_thing_state sm c = Some st"
  shows "map_of (ds_thing_activities (track_thing sm c ds)) =
    (map_of (ds_thing_activities ds))(c \<mapsto> tracked_thing sm ds c)"
  using assms by (auto simp: track_thing_def tracked_thing_def update_thing_activity_from_state_def
      set_thing_activity_def thing_activity_at_def ThingActivity_new_def Let_def fun_eq_iff get_thing_state_def
      thing_at_def)

lemma track_thing_simps [simp]:
  "ds_thing_policy (track_thing sm c ds) = ds_thing_policy ds"
  "get_thing_state sm c = Some st \<Longrightarrow> tracked_thing sm (track_thing sm c ds) d = tracked_thing sm ds d"
  by (simp add: track_thing_def update_thing_activity_from_state_def set_thing_activity_def Let_def)
    (simp add: tracked_thing_def find_track_thing)

lemma should_decay_thing_tracked:
  "get_thing_state sm c = Some st \<Longrightarrow>
   should_decay_thing now sm (track_thing sm c ds) c p = thing_verdict now p (tracked_thing sm ds c)"
  by (simp add: should_decay_thing_def thing_verdict_def find_track_thing thing_is_inactive_def
      meets_redundancy_def not_le)

definition thing_decay :: "u64 \<Rightarrow> StateManager \<Rightarrow> DecayScheduler \<Rightarrow> ThingState \<Rightarrow> ThingDecayEvent option" where
  "thing_decay now sm ds st = map_option (\<lambda>r. \<lparr>tde_content_hash = the (th_content_hash st),
     tde_hosts_removed = th_hosts st, tde_reason = r, tde_decayed_at = now\<rparr>)
     (thing_verdict now (ds_thing_policy ds) (tracked_thing sm ds (the (th_content_hash st))))"

lemma decay_things_eq:
  assumes "\<And>st. st \<in> set sts \<Longrightarrow> \<exists>c. th_content_hash st = Some c \<and> get_thing_state sm c = Some st"
  shows "decay_things now sm sts decays ds = Some (decays @ List.map_filter (thing_decay now sm ds) sts,
    fold (\<lambda>st. track_thing sm (the (th_content_hash st))) sts ds)"
  using assms
proof (induction sts arbitrary: decays ds)
  case (Cons st sts)
  then obtain c where c: "th_content_hash st = Some c" "get_thing_state sm c = Some st" by fastforce
  have td: "thing_decay now sm (track_thing sm c ds) = thing_decay now sm ds"
    using c(2) by (simp add: thing_decay_def fun_eq_iff)
  have "decay_things now sm (st # sts) decays ds = decay_things now sm sts
      (case thing_decay now sm ds st of None \<Rightarrow> decays | Some ev \<Rightarrow> decays @ [ev]) (track_thing sm c ds)"
    using c by (simp add: Let_def track_thing_def [symmetric] should_decay_thing_tracked thing_decay_def
        split: option.split)
  also have "\<dots> = Some ((case thing_decay now sm ds st of None \<Rightarrow> decays | Some ev \<Rightarrow> decays @ [ev]) @
      List.map_filter (thing_decay now sm ds) sts,
      fold (\<lambda>st. track_thing sm (the (th_content_hash st))) sts (track_thing sm c ds))"
    using Cons.prems by (subst Cons.IH) (auto simp: td)
  finally show ?case by (simp add: c(1) map_filter_simps split: option.split)
qed simp

lemma check_thing_decay_eq:
  assumes "things_named (sm_things sm)"
  shows "\<exists>ds'. check_thing_decay now sm ds =
    Some (List.map_filter (thing_decay now sm ds) (get_all_available_things sm), ds')"
  using decay_things_eq [of "get_all_available_things sm" sm now "[]" ds] available_named [OF assms]
  by (simp add: check_thing_decay_def)

subsection \<open>Recorded activity\<close>

lemma record_key_use_simps:
  "get_key_policy (record_key_use now n t ds) = get_key_policy ds"
  "na_last_seen (activity_at (record_key_use now n t ds) n) = na_last_seen (activity_at ds n)"
  "map_of (na_last_use_by_type (activity_at (record_key_use now n t ds) n)) =
     (map_of (na_last_use_by_type (activity_at ds n)))(t \<mapsto> now)"
  "map_of (na_actions_this_epoch (activity_at (record_key_use now n t ds) n)) =
     (map_of (na_actions_this_epoch (activity_at ds n)))
       (t \<mapsto> opt_or 0 (map_of (na_actions_this_epoch (activity_at ds n)) t) + 1)"
  "map_of (ds_node_activities (record_key_use now n t ds)) n \<noteq> None"
  by (simp_all add: record_key_use_def get_key_policy_def activity_at_def set_activity_def Let_def fun_eq_iff)

lemma record_key_use_many:
  fixes n t now ds k
  defines "a \<equiv> activity_at (((record_key_use now n t) ^^ Suc k) ds) n"
  shows "na_last_seen a = na_last_seen (activity_at ds n)"
    and "map_of (na_last_use_by_type a) t = Some now"
    and "map_of (na_actions_this_epoch a) t =
      Some (opt_or 0 (map_of (na_actions_this_epoch (activity_at ds n)) t) + word_of_nat (Suc k))"
    and "get_key_policy (((record_key_use now n t) ^^ Suc k) ds) = get_key_policy ds"
proof -
  have "na_last_seen (activity_at (((record_key_use now n t) ^^ k) ds) n) = na_last_seen (activity_at ds n) \<and>
    opt_or 0 (map_of (na_actions_this_epoch (activity_at (((record_key_use now n t) ^^ k) ds) n)) t) =
      opt_or 0 (map_of (na_actions_this_epoch (activity_at ds n)) t) + word_of_nat k \<and>
    get_key_policy (((record_key_use now n t) ^^ k) ds) = get_key_policy ds"
    by (induction k) (simp_all add: record_key_use_simps)
  then show "na_last_seen a = na_last_seen (activity_at ds n)"
    and "map_of (na_last_use_by_type a) t = Some now"
    and "map_of (na_actions_this_epoch a) t =
      Some (opt_or 0 (map_of (na_actions_this_epoch (activity_at ds n)) t) + word_of_nat (Suc k))"
    and "get_key_policy (((record_key_use now n t) ^^ Suc k) ds) = get_key_policy ds"
    by (simp_all add: a_def record_key_use_simps)
qed

lemma tracked_activity_at:
  "map_of (ds_node_activities ds) n \<noteq> None \<Longrightarrow>
   na_last_seen (tracked now ds n) = na_last_seen (activity_at ds n) \<and>
   na_last_use_by_type (tracked now ds n) = na_last_use_by_type (activity_at ds n) \<and>
   na_actions_this_epoch (tracked now ds n) = na_actions_this_epoch (activity_at ds n)"
  by (auto simp: tracked_def activity_at_def)

lemma key_verdict_cong:
  "na_last_seen a = na_last_seen b \<Longrightarrow> map_of (na_last_use_by_type a) t = map_of (na_last_use_by_type b) t \<Longrightarrow>
   map_of (na_actions_this_epoch a) t = map_of (na_actions_this_epoch b) t \<Longrightarrow>
   key_verdict now p a t = key_verdict now p b t"
  by (simp add: key_verdict_def has_used_key_type_def)

subsection \<open>The events of a check\<close>

lemma node_decays_Cons:
  "node_decays now epoch ds n ((t, count) # bs) =
     (if count = 0 then []
      else case key_verdict now (get_key_policy ds t) (tracked now ds n) t of
        None \<Rightarrow> []
      | Some r \<Rightarrow> [\<lparr>kd_node_id = n, kd_key_type = t, kd_keys_decayed = 1, kd_reason = r,
                   kd_decayed_at = now, kd_epoch = epoch\<rparr>]) @ node_decays now epoch ds n bs"
  by (simp add: node_decays_def map_filter_simps split: option.split)

lemma distinct_node_decays:
  "distinct (map fst bs) \<Longrightarrow> distinct (map kd_key_type (node_decays now epoch ds n bs))"
proof (induction bs)
  case (Cons b bs)
  obtain t count where b: "b = (t, count)" by force
  have "t \<notin> kd_key_type ` set (node_decays now epoch ds n bs)"
    using Cons.prems b by (force simp: set_node_decays image_iff)
  with Cons b show ?case by (auto simp: node_decays_Cons split: option.split)
qed (simp add: node_decays_def map_filter_simps)

lemma distinct_decays:
  assumes "distinct (map (the \<circ> ns_node_id) sts)"
    and "\<And>st. st \<in> set sts \<Longrightarrow> distinct (map fst (ns_key_balances st))"
  shows "distinct (map (\<lambda>ev. (kd_node_id ev, kd_key_type ev)) (concat (map (\<lambda>st. node_decays now epoch ds
    (the (ns_node_id st)) (ns_key_balances st)) sts)))"
  using assms
proof (induction sts)
  case (Cons st sts)
  let ?n = "the (ns_node_id st)"
  have node: "ev \<in> set (node_decays now epoch ds n bs) \<Longrightarrow> kd_node_id ev = n" for ev n bs
    by (auto simp: set_node_decays)
  have "distinct (map kd_key_type (node_decays now epoch ds ?n (ns_key_balances st)))"
    using Cons.prems(2) by (simp add: distinct_node_decays)
  then have "distinct (map (\<lambda>ev. (kd_node_id ev, kd_key_type ev)) (node_decays now epoch ds ?n (ns_key_balances st)))"
    by (auto simp: distinct_map inj_on_def)
  moreover have "?n \<notin> (the \<circ> ns_node_id) ` set sts" using Cons.prems(1) by simp
  ultimately show ?case using Cons node by (force simp: image_iff)
qed simp

lemma distinct_key_decays:
  assumes "ids_ok sm" "state_ok sm"
  shows "distinct (map (\<lambda>ev. (kd_node_id ev, kd_key_type ev)) (concat (map (\<lambda>st. node_decays now epoch ds
    (the (ns_node_id st)) (ns_key_balances st)) (get_all_active_nodes sm))))"
proof (rule distinct_decays)
  show "distinct (map (the \<circ> ns_node_id) (get_all_active_nodes sm))"
    using assms(1) active_node_ids(1) [OF assms(1)]
    by (simp add: ids_ok_def omap_ok_distinct distinct_map_filter)
  show "distinct (map fst (ns_key_balances st))" if "st \<in> set (get_all_active_nodes sm)" for st
    using active_ids [OF assms(1) that] ok_found(1) [OF assms(2)] by (metis node_ok_def omap_ok_distinct)
qed

lemma key_decay_members:
  assumes "ids_ok sm" "state_ok sm"
  shows "ev \<in> set (concat (map (\<lambda>st. node_decays now epoch ds (the (ns_node_id st)) (ns_key_balances st))
      (get_all_active_nodes sm))) \<longleftrightarrow>
    is_node_active sm (kd_node_id ev) \<and> get_node_key_balance sm (kd_node_id ev) (kd_key_type ev) > 0 \<and>
    key_verdict now (get_key_policy ds (kd_key_type ev)) (tracked now ds (kd_node_id ev)) (kd_key_type ev) =
      Some (kd_reason ev) \<and> kd_keys_decayed ev = 1 \<and> kd_decayed_at ev = now \<and> kd_epoch ev = epoch"
    (is "?l = ?r")
proof
  assume ?l
  then obtain st t count r where st: "st \<in> set (get_all_active_nodes sm)" "(t, count) \<in> set (ns_key_balances st)"
    "count \<noteq> 0" "key_verdict now (get_key_policy ds t) (tracked now ds (the (ns_node_id st))) t = Some r"
    and ev: "ev = \<lparr>kd_node_id = the (ns_node_id st), kd_key_type = t, kd_keys_decayed = 1, kd_reason = r,
      kd_decayed_at = now, kd_epoch = epoch\<rparr>"
    by (auto simp: set_node_decays)
  obtain n where n: "ns_node_id st = Some n" "is_node_active sm n" "map_of (sm_nodes sm) n = Some st"
    using active_ids [OF assms(1) st(1)] by blast
  have "map_of (ns_key_balances st) t = Some count"
    using ok_found(1) [OF assms(2) n(3)] st(2) by (simp add: node_ok_def omap_ok_distinct)
  with n st(3,4) ev show ?r by (simp add: get_node_key_balance_def word_gt_0)
next
  assume r: ?r
  then obtain st where st: "map_of (sm_nodes sm) (kd_node_id ev) = Some st" "ns_is_active st"
    by (auto simp: is_node_active_def split: option.splits)
  with r obtain count where c: "map_of (ns_key_balances st) (kd_key_type ev) = Some count" "count \<noteq> 0"
    by (auto simp: get_node_key_balance_def split: option.splits)
  have "ns_node_id st = Some (kd_node_id ev)" using assms(1) st by (simp add: ids_ok_def)
  moreover have "st \<in> set (get_all_active_nodes sm)"
    using st map_of_SomeD [OF st(1)] by (force simp: get_all_active_nodes_def)
  ultimately show ?l
    using r c map_of_SomeD [OF c(1)]
    by (auto simp: set_node_decays intro!: bexI [of _ st] exI [of _ count]
        intro: KeyDecayEvent.equality)
qed

subsection \<open>Frames\<close>

lemma track_frame [simp]:
  "ds_thing_policy (track now sm n ds) = ds_thing_policy ds"
  "ds_thing_activities (track now sm n ds) = ds_thing_activities ds"
  "ds_key_decay_by_epoch (track now sm n ds) = ds_key_decay_by_epoch ds"
  "ds_thing_decay_history (track now sm n ds) = ds_thing_decay_history ds"
  by (simp_all add: track_def update_node_activity_from_state_def set_activity_def Let_def)

lemma fold_track_frame [simp]:
  "ds_thing_policy (fold (\<lambda>x. track now sm (f x)) xs ds) = ds_thing_policy ds"
  "ds_thing_activities (fold (\<lambda>x. track now sm (f x)) xs ds) = ds_thing_activities ds"
  "ds_key_decay_by_epoch (fold (\<lambda>x. track now sm (f x)) xs ds) = ds_key_decay_by_epoch ds"
  "ds_thing_decay_history (fold (\<lambda>x. track now sm (f x)) xs ds) = ds_thing_decay_history ds"
  "ds_key_policies (fold (\<lambda>x. track now sm (f x)) xs ds) = ds_key_policies ds"
  by (induction xs arbitrary: ds) simp_all

lemma fold_track_find:
  assumes "\<And>x. x \<in> set xs \<Longrightarrow> is_node_active sm (f x)"
  shows "map_of (ds_node_activities (fold (\<lambda>x. track now sm (f x)) xs ds)) n =
    (if n \<in> f ` set xs then Some (tracked now ds n) else map_of (ds_node_activities ds) n)"
  using assms by (induction xs arbitrary: ds) (auto simp: find_track)

lemma track_thing_frame [simp]:
  "ds_node_activities (track_thing sm c ds) = ds_node_activities ds"
  "ds_key_decay_by_epoch (track_thing sm c ds) = ds_key_decay_by_epoch ds"
  "ds_thing_decay_history (track_thing sm c ds) = ds_thing_decay_history ds"
  "ds_key_policies (track_thing sm c ds) = ds_key_policies ds"
  by (simp_all add: track_thing_def update_thing_activity_from_state_def set_thing_activity_def Let_def)

lemma fold_track_thing_frame [simp]:
  "ds_node_activities (fold (\<lambda>x. track_thing sm (f x)) xs ds) = ds_node_activities ds"
  "ds_key_decay_by_epoch (fold (\<lambda>x. track_thing sm (f x)) xs ds) = ds_key_decay_by_epoch ds"
  "ds_thing_decay_history (fold (\<lambda>x. track_thing sm (f x)) xs ds) = ds_thing_decay_history ds"
  "ds_key_policies (fold (\<lambda>x. track_thing sm (f x)) xs ds) = ds_key_policies ds"
  by (induction xs arbitrary: ds) simp_all

lemma fold_apply_key_decay [simp]: "fold apply_key_decay evs ds = ds"
  by (induction evs) (simp_all add: apply_key_decay_def)

lemma fold_apply_thing_decay:
  "fold apply_thing_decay evs ds = ds\<lparr>ds_thing_decay_history := ds_thing_decay_history ds @ evs\<rparr>"
  by (induction evs arbitrary: ds) (simp_all add: apply_thing_decay_def)

lemma total_one:
  "(\<And>ev. ev \<in> set evs \<Longrightarrow> kd_keys_decayed ev = 1) \<Longrightarrow>
   foldl (\<lambda>total ev. total + kd_keys_decayed ev) z evs = z + word_of_nat (length evs)"
  by (induction evs arbitrary: z) (simp_all add: add.assoc)

text \<open>The check as a whole: its events and the scheduler it leaves.\<close>

lemma check_key_decay_full:
  fixes sm ds now epoch
  defines "evs \<equiv> concat (map (\<lambda>st. node_decays now epoch ds (the (ns_node_id st)) (ns_key_balances st))
      (get_all_active_nodes sm))"
    and "ds1 \<equiv> fold (\<lambda>st. track now sm (the (ns_node_id st))) (get_all_active_nodes sm) ds"
  assumes "ids_ok sm"
  shows "check_key_decay now sm epoch ds = Some (evs, if evs \<noteq> []
      then ds1\<lparr>ds_key_decay_by_epoch := omap_set epoch evs (ds_key_decay_by_epoch ds)\<rparr> else ds1)"
proof -
  have "decay_nodes now epoch sm (get_all_active_nodes sm) [] ds = Some (evs, ds1)"
    using decay_nodes_eq [of "get_all_active_nodes sm" sm now epoch "[]" ds] active_ids [OF assms(3)]
    unfolding evs_def ds1_def by fastforce
  then show ?thesis by (simp add: check_key_decay_def) (simp add: ds1_def)
qed

lemma check_thing_decay_full:
  assumes "things_named (sm_things sm)"
  shows "check_thing_decay now sm ds =
    Some (List.map_filter (thing_decay now sm ds) (get_all_available_things sm),
      fold (\<lambda>st. track_thing sm (the (th_content_hash st))) (get_all_available_things sm) ds)"
  using decay_things_eq [of "get_all_available_things sm" sm now "[]" ds] available_named [OF assms]
  by (simp add: check_thing_decay_def)

lemma thing_decay_cong:
  "ds_thing_policy ds' = ds_thing_policy ds \<Longrightarrow> ds_thing_activities ds' = ds_thing_activities ds \<Longrightarrow>
   thing_decay now sm ds' = thing_decay now sm ds"
  by (simp add: thing_decay_def tracked_thing_def fun_eq_iff)

subsection \<open>The runner\<close>

definition runner_inv :: "DecayRunner \<Rightarrow> bool" where
  "runner_inv r \<longleftrightarrow> (rn_worker r = None \<longleftrightarrow> \<not> rn_running r \<and> \<not> rn_joining r) \<and>
     \<not> (rn_running r \<and> rn_joining r) \<and>
     (rn_worker r = Some Finished \<longrightarrow> rn_joining r) \<and>
     (rn_pending r \<longrightarrow> rn_trigger r \<or> rn_worker r = Some PerformCheck)"

lemma perform_decay_check_frame:
  assumes "perform_decay_check now sm r = Some r'"
  shows "rn_running r' = rn_running r" "rn_trigger r' = rn_trigger r" "rn_worker r' = rn_worker r"
    "rn_joining r' = rn_joining r" "rn_pending r' = rn_pending r"
  using assms by (auto simp: perform_decay_check_def split: option.splits)

lemma worker_step_inv:
  assumes "runner_inv r" "worker_step elapsed now sm r = Some r'"
  shows "runner_inv r'"
proof (cases "rn_worker r = Some PerformCheck")
  case True
  with assms(2) have "perform_decay_check now sm (r\<lparr>rn_pending := False, rn_worker := Some OuterTest\<rparr>) = Some r'"
    by (simp add: worker_step_def)
  from perform_decay_check_frame [OF this] assms(1) True show ?thesis by (simp add: runner_inv_def)
next
  case False
  with assms show ?thesis
    by (auto simp: worker_step_def runner_inv_def split: option.splits worker_pc.splits if_splits)
qed

lemma runner_step_inv: "runner_step r r' \<Longrightarrow> runner_inv r \<Longrightarrow> runner_inv r'"
proof (induction rule: runner_step.induct)
  case (Worker elapsed now sm r r')
  then show ?case using worker_step_inv by blast
qed (auto simp: runner_inv_def runner_start_def runner_stop_def set_decay_callback_def trigger_check_def)

lemma runner_reachable_inv: "runner_reachable ds r \<Longrightarrow> runner_inv r"
proof (induction rule: runner_reachable.induct)
  case Init
  then show ?case by (simp add: runner_inv_def DecayRunner_init_def)
next
  case (Step r r')
  then show ?case by (blast intro: runner_step_inv)
qed

text \<open>The worker alone: \<open>k\<close> of its steps, with the interval not over and a fixed clock and state.\<close>

fun worker_run :: "nat \<Rightarrow> u64 \<Rightarrow> StateManager \<Rightarrow> DecayRunner \<Rightarrow> DecayRunner option" where
  "worker_run 0 now sm r = Some r"
| "worker_run (Suc k) now sm r =
     (case worker_step False now sm r of None \<Rightarrow> None | Some r' \<Rightarrow> worker_run k now sm r')"

lemma perform_decay_check_total:
  assumes "ids_ok sm" "things_named (sm_things sm)"
  shows "\<exists>r'. perform_decay_check now sm r = Some r'"
proof -
  obtain evs ds1 where 1: "check_key_decay now sm (now div (10 * 60)) (rn_scheduler r) = Some (evs, ds1)"
    using check_key_decay_eq [OF assms(1)] by blast
  obtain evs2 ds2 where 2: "check_thing_decay now sm ds1 = Some (evs2, ds2)"
    using check_thing_decay_eq [OF assms(2)] by blast
  from 1 2 show ?thesis unfolding perform_decay_check_def by simp
qed

text \<open>A rank that every step lowers until the worker is at \<open>goal\<close> bounds the steps to get there.\<close>

lemma worker_run_rank:
  assumes "\<And>q. I q \<Longrightarrow> rn_worker q \<noteq> Some goal \<Longrightarrow>
      \<exists>q'. worker_step False now sm q = Some q' \<and> I q' \<and> rank q' < rank q"
    and "I r"
  shows "\<exists>k r'. k \<le> rank r \<and> worker_run k now sm r = Some r' \<and> rn_worker r' = Some goal"
  using assms(2)
proof (induction "rank r" arbitrary: r rule: less_induct)
  case less
  show ?case
  proof (cases "rn_worker r = Some goal")
    case True
    then show ?thesis by (intro exI [of _ 0]) simp
  next
    case False
    then obtain q where q: "worker_step False now sm r = Some q" "I q" "rank q < rank r"
      using assms(1) less.prems by blast
    from less.hyps [OF q(3,2)] obtain k r' where
      "k \<le> rank q" "worker_run k now sm q = Some r'" "rn_worker r' = Some goal" by blast
    with q show ?thesis by (intro exI [of _ "Suc k"] exI [of _ r']) simp
  qed
qed

fun steps_to_check :: "worker_pc \<Rightarrow> nat" where
  "steps_to_check OuterTest = 6"
| "steps_to_check InnerTest = 5"
| "steps_to_check WaitTest = 4"
| "steps_to_check ExitTest = 3"
| "steps_to_check TriggerTest = 2"
| "steps_to_check ClearTrigger = 1"
| "steps_to_check PerformCheck = 0"
| "steps_to_check Finished = 0"

fun steps_to_exit :: "worker_pc \<Rightarrow> nat" where
  "steps_to_exit Finished = 0"
| "steps_to_exit OuterTest = 1"
| "steps_to_exit ExitTest = 1"
| "steps_to_exit InnerTest = 2"
| "steps_to_exit PerformCheck = 2"
| "steps_to_exit WaitTest = 3"
| "steps_to_exit ClearTrigger = 3"
| "steps_to_exit TriggerTest = 4"

lemma steps_le: "steps_to_check pc \<le> 6" "steps_to_exit pc \<le> 4"
  by (cases pc; simp)+

lemma worker_reaches_check:
  assumes "rn_running r" "rn_worker r \<noteq> None" "rn_worker r \<noteq> Some Finished"
    and "rn_trigger r \<or> rn_worker r = Some PerformCheck"
  shows "\<exists>k r'. k \<le> 6 \<and> worker_run k now sm r = Some r' \<and> rn_worker r' = Some PerformCheck"
proof -
  let ?I = "\<lambda>q :: DecayRunner. rn_running q \<and> rn_worker q \<noteq> None \<and> rn_worker q \<noteq> Some Finished \<and>
    (rn_trigger q \<or> rn_worker q = Some PerformCheck)"
  have "\<exists>k r'. k \<le> steps_to_check (the (rn_worker r)) \<and> worker_run k now sm r = Some r' \<and>
      rn_worker r' = Some PerformCheck"
  proof (rule worker_run_rank [where I = ?I])
    fix q assume "?I q" "rn_worker q \<noteq> Some PerformCheck"
    then show "\<exists>q'. worker_step False now sm q = Some q' \<and> ?I q' \<and>
        steps_to_check (the (rn_worker q')) < steps_to_check (the (rn_worker q))"
      by (cases "the (rn_worker q)") (auto simp: worker_step_def)
  qed (use assms in simp)
  then show ?thesis using steps_le(1) order_trans by blast
qed

lemma worker_finishes:
  assumes "\<not> rn_running r" "rn_worker r \<noteq> None" "ids_ok sm" "things_named (sm_things sm)"
  shows "\<exists>k r'. k \<le> 4 \<and> worker_run k now sm r = Some r' \<and> rn_worker r' = Some Finished"
proof -
  let ?I = "\<lambda>q :: DecayRunner. \<not> rn_running q \<and> rn_worker q \<noteq> None"
  have "\<exists>k r'. k \<le> steps_to_exit (the (rn_worker r)) \<and> worker_run k now sm r = Some r' \<and>
      rn_worker r' = Some Finished"
  proof (rule worker_run_rank [where I = ?I])
    fix q assume q: "?I q" "rn_worker q \<noteq> Some Finished"
    obtain q1 where q1: "perform_decay_check now sm (q\<lparr>rn_pending := False, rn_worker := Some OuterTest\<rparr>) = Some q1"
      using perform_decay_check_total [OF assms(3,4)] by blast
    from q q1 perform_decay_check_frame [OF q1]
    show "\<exists>q'. worker_step False now sm q = Some q' \<and> ?I q' \<and>
        steps_to_exit (the (rn_worker q')) < steps_to_exit (the (rn_worker q))"
      by (cases "the (rn_worker q)") (auto simp: worker_step_def)
  qed (use assms in simp)
  then show ?thesis using steps_le(2) order_trans by blast
qed

section \<open>Properties\<close>

text \<open>
  In every state that the state manager can reach, a check gives one event, for one key, for
  exactly those active nodes and key types with a positive balance whose policy has a
  positive maximal age and whose activity record is too old, or, where the policy asks for
  activity, shows no recent use of the type or too few actions in the epoch. A node that was
  not tracked before counts as seen now and as having used no key.
\<close>

theorem key_decay_exact:
  fixes ops L now0
  defines "sm \<equiv> foldl state_step (StateManager_init L now0) ops"
  shows "\<exists>evs ds'. check_key_decay now sm epoch ds = Some (evs, ds') \<and>
    distinct (map (\<lambda>ev. (kd_node_id ev, kd_key_type ev)) evs) \<and>
    (\<forall>n t. (\<exists>ev. ev \<in> set evs \<and> kd_node_id ev = n \<and> kd_key_type ev = t \<and> kd_keys_decayed ev = 1) \<longleftrightarrow>
       is_node_active sm n \<and> get_node_key_balance sm n t > 0 \<and>
       (let p = get_key_policy ds t; a = tracked now ds n in
        dp_max_age_seconds p \<noteq> 0 \<and>
        (now - na_last_seen a > dp_inactivity_threshold p \<or>
         dp_requires_activity p \<and>
           (\<not> has_used_key_type now a t (dp_inactivity_threshold p) \<or>
            (case map_of (na_actions_this_epoch a) t of None \<Rightarrow> True
             | Some k \<Rightarrow> k < dp_min_actions_per_epoch p)))))"
proof -
  have ok: "ids_ok sm" "state_ok sm"
    unfolding sm_def by (rule reachable_ids_ok, rule reachable_state_ok)
  let ?evs = "concat (map (\<lambda>st. node_decays now epoch ds (the (ns_node_id st)) (ns_key_balances st))
    (get_all_active_nodes sm))"
  obtain ds' where ds': "check_key_decay now sm epoch ds = Some (?evs, ds')"
    using check_key_decay_eq [OF ok(1)] by blast
  have verdict: "(\<exists>r. key_verdict now p a t = Some r) \<longleftrightarrow> dp_max_age_seconds p \<noteq> 0 \<and>
        (now - na_last_seen a > dp_inactivity_threshold p \<or>
         dp_requires_activity p \<and>
           (\<not> has_used_key_type now a t (dp_inactivity_threshold p) \<or>
            (case map_of (na_actions_this_epoch a) t of None \<Rightarrow> True
             | Some k \<Rightarrow> k < dp_min_actions_per_epoch p)))" for p a t
    by (auto simp: key_verdict_def split: option.split)
  have "(\<exists>ev. ev \<in> set ?evs \<and> kd_node_id ev = n \<and> kd_key_type ev = t \<and> kd_keys_decayed ev = 1) \<longleftrightarrow>
      is_node_active sm n \<and> get_node_key_balance sm n t > 0 \<and>
      (\<exists>r. key_verdict now (get_key_policy ds t) (tracked now ds n) t = Some r)" (is "?l \<longleftrightarrow> ?r") for n t
  proof
    assume ?l then show ?r unfolding key_decay_members [OF ok] by blast
  next
    assume ?r
    then obtain r where "is_node_active sm n" "get_node_key_balance sm n t > 0"
      "key_verdict now (get_key_policy ds t) (tracked now ds n) t = Some r" by blast
    then show ?l unfolding key_decay_members [OF ok]
      by (intro exI [of _ "\<lparr>kd_node_id = n, kd_key_type = t, kd_keys_decayed = 1, kd_reason = r,
        kd_decayed_at = now, kd_epoch = epoch\<rparr>"]) simp
  qed
  with ds' distinct_key_decays [OF ok] show ?thesis
    unfolding verdict Let_def by blast
qed

text \<open>A node that joined and was issued keys.\<close>

definition issued_ops :: "state_op list" where
  "issued_ops = [ApplyEvent (sample_event\<lparr>event_type := NODE_JOINED\<rparr>),
     ApplyEvent (sample_event\<lparr>event_type := KEY_ISSUED, event_data := KeyIssuanceData_to_bytes sample_issue\<rparr>)]"

theorem key_decay_exact_witness:
  "\<exists>evs ds' ev. check_key_decay 1700000000 (foldl state_step (StateManager_init sample_ledger 0) issued_ops) 5
       (set_key_policy (ki_key_type sample_issue) (DecayPolicy_new\<lparr>dp_requires_activity := True\<rparr>) DecayScheduler_init) = Some (evs, ds') \<and>
     ev \<in> set evs \<and> kd_node_id ev = source_node sample_event \<and> kd_key_type ev = ki_key_type sample_issue"
proof -
  let ?sm = "foldl state_step (StateManager_init sample_ledger 0) issued_ops"
  let ?ds = "set_key_policy (ki_key_type sample_issue) (DecayPolicy_new\<lparr>dp_requires_activity := True\<rparr>) DecayScheduler_init"
  have dec: "KeyIssuanceData_from_bytes (KeyIssuanceData_to_bytes sample_issue) = Some sample_issue"
    by (rule keyissuec.dec_enc) (simp add: wf_KeyIssuanceData_def sample_issue_def)
  have "is_node_active ?sm (source_node sample_event)"
    "get_node_key_balance ?sm (source_node sample_event) (ki_key_type sample_issue) > 0"
    by (simp_all add: issued_ops_def apply_event_def dec apply_node_joined_def apply_key_issued_def set_node_def
        is_node_active_def get_node_key_balance_def node_at_def Let_def NodeState_new_def) (simp add: sample_issue_def)
  moreover have "tracked 1700000000 ?ds (source_node sample_event) =
      (NodeActivity_new (source_node sample_event))\<lparr>na_last_seen := 1700000000\<rparr>"
    by (simp add: tracked_def set_key_policy_def DecayScheduler_init_def default_decay_policies_def)
  moreover have "get_key_policy ?ds (ki_key_type sample_issue) = DecayPolicy_new\<lparr>dp_requires_activity := True\<rparr>"
    by (simp add: get_key_policy_def set_key_policy_def)
  ultimately show ?thesis
    using key_decay_exact [of 1700000000 sample_ledger 0 issued_ops 5 ?ds]
    by (force simp: Let_def has_used_key_type_def NodeActivity_new_def DecayPolicy_new_def)
qed

text \<open>
  A node that is recorded as seen and then uses a key of the type at least as often as the policy
  asks loses no key of the type in a check within the inactivity threshold and the same epoch;
  and identity keys never decay under the default policies.
\<close>

theorem active_use_protects:
  fixes n t k seen ds
  defines "ds1 \<equiv> ((record_key_use seen n t) ^^ Suc k) (record_node_activity seen n ds)"
  assumes "map_of (ds_node_activities ds) n = None" "Suc k < 2 ^ 32"
    and "unat (dp_min_actions_per_epoch (get_key_policy ds t)) \<le> Suc k"
    and "now - seen \<le> dp_inactivity_threshold (get_key_policy ds t)" "ids_ok sm" "state_ok sm"
    and "check_key_decay now sm epoch ds1 = Some (evs, ds')"
  shows "(n, t) \<notin> (\<lambda>ev. (kd_node_id ev, kd_key_type ev)) ` set evs \<and>
    (ds_key_policies ds = ds_key_policies DecayScheduler_init \<longrightarrow> IDENTITY \<notin> kd_key_type ` set evs)"
proof -
  have evs: "key_verdict now (get_key_policy ds1 (kd_key_type ev)) (tracked now ds1 (kd_node_id ev))
      (kd_key_type ev) = Some (kd_reason ev)" if "ev \<in> set evs" for ev
    using that assms(8) check_key_decay_eq [OF assms(6), of now epoch ds1]
      key_decay_members [OF assms(6,7), of ev now epoch ds1] by auto
  let ?ds0 = "record_node_activity seen n ds"
  have start: "na_last_seen (activity_at ?ds0 n) = seen" "map_of (na_actions_this_epoch (activity_at ?ds0 n)) t = None"
    "get_key_policy ?ds0 = get_key_policy ds"
    using assms(2) by (simp_all add: record_node_activity_def activity_at_def set_activity_def NodeActivity_new_def
        get_key_policy_def fun_eq_iff)
  note many = record_key_use_many [where now = seen and n = n and t = t and k = k and ds = ?ds0,
    folded ds1_def, unfolded start]
  have tracked: "map_of (ds_node_activities ds1) n \<noteq> None"
    by (simp add: ds1_def record_key_use_simps)
  have "unat (word_of_nat (Suc k) :: u32) = Suc k" using assms(3) by (intro unat_of_nat_u32) simp
  then have "\<not> (word_of_nat (Suc k) :: u32) < dp_min_actions_per_epoch (get_key_policy ds t)"
    using assms(4) by (simp add: word_less_nat_alt del: of_nat_Suc)
  then have "key_verdict now (get_key_policy ds1 t) (tracked now ds1 n) t = None"
    using many tracked_activity_at [OF tracked, of now] assms(5) leD [OF assms(5)]
    by (simp add: key_verdict_def has_used_key_type_def del: of_nat_Suc)
  with evs have "(n, t) \<notin> (\<lambda>ev. (kd_node_id ev, kd_key_type ev)) ` set evs"
    by fastforce
  moreover have "dp_max_age_seconds (get_key_policy ds1 IDENTITY) = 0"
    if "ds_key_policies ds = ds_key_policies DecayScheduler_init"
    using that many(4) by (simp add: DecayScheduler_init_def default_decay_policies_def get_key_policy_def)
  then have "ds_key_policies ds = ds_key_policies DecayScheduler_init \<longrightarrow> IDENTITY \<notin> kd_key_type ` set evs"
    using evs by (fastforce simp: key_verdict_def)
  ultimately show ?thesis by blast
qed

text \<open>An active node with one key of type \<open>NODE\<close>, for the witnesses.\<close>

definition decay_state :: StateManager where
  "decay_state = empty_state\<lparr>sm_nodes := [(NodeID [], NodeState_new\<lparr>ns_node_id := Some (NodeID []),
     ns_is_active := True, ns_key_balances := [(NODE, 1)]\<rparr>)]\<rparr>"

lemma decay_state_ok: "ids_ok decay_state" "state_ok decay_state"
  by (simp_all add: decay_state_def ids_ok_def state_ok_def omap_all_def omap_ok_def node_ok_def
      NodeState_new_def empty_state_def oset_ok_def)

lemma decay_state_active: "get_all_active_nodes decay_state = [NodeState_new\<lparr>ns_node_id := Some (NodeID []),
    ns_is_active := True, ns_key_balances := [(NODE, 1)]\<rparr>]"
  by (simp add: decay_state_def get_all_active_nodes_def)

lemma decay_state_check:
  "check_key_decay now decay_state epoch ds = Some (case key_verdict now (get_key_policy ds NODE) (tracked now ds (NodeID [])) NODE of
     None \<Rightarrow> [] | Some r \<Rightarrow> [\<lparr>kd_node_id = NodeID [], kd_key_type = NODE, kd_keys_decayed = 1,
       kd_reason = r, kd_decayed_at = now, kd_epoch = epoch\<rparr>], snd (the (check_key_decay now decay_state epoch ds)))"
proof -
  have "node_decays now epoch ds n [] = []" for n by (simp add: node_decays_def map_filter_simps)
  with check_key_decay_eq [OF decay_state_ok(1), of now epoch ds] show ?thesis
    by (auto simp: decay_state_active node_decays_Cons simp del: NODE_def split: option.split)
qed

theorem active_use_protects_witness:
  "(NodeID [], NODE) \<notin> (\<lambda>ev. (kd_node_id ev, kd_key_type ev)) ` set (fst (the (check_key_decay 1700000600 decay_state 2833334
     (record_key_use 1700000000 (NodeID []) NODE (record_node_activity 1700000000 (NodeID []) DecayScheduler_init)))))"
proof -
  let ?ds = "record_key_use 1700000000 (NodeID []) NODE (record_node_activity 1700000000 (NodeID []) DecayScheduler_init)"
  obtain evs ds' where c: "check_key_decay 1700000600 decay_state 2833334 ?ds = Some (evs, ds')"
    using decay_state_check by blast
  have "map_of (ds_node_activities DecayScheduler_init) (NodeID []) = None"
    "unat (dp_min_actions_per_epoch (get_key_policy DecayScheduler_init NODE)) \<le> Suc 0"
    "1700000600 - 1700000000 \<le> dp_inactivity_threshold (get_key_policy DecayScheduler_init NODE)"
    by (simp_all add: DecayScheduler_init_def default_decay_policies_def get_key_policy_def DecayPolicy_new_def)
  from active_use_protects [where k = 0, simplified funpow.simps o_apply id_apply, OF this(1) _ this(2,3) decay_state_ok c]
  show ?thesis unfolding c by simp
qed

text \<open>
  Using a key is not enough: a node that was not tracked before and only has its key uses recorded
  counts as last seen at time zero, so that a check more than the threshold after the epoch of
  the clock takes its keys for inactivity, however often it used them.
\<close>

theorem key_use_alone_decays:
  assumes "map_of (ds_node_activities ds) n = None" "now > dp_inactivity_threshold (get_key_policy ds t)"
    and "dp_max_age_seconds (get_key_policy ds t) \<noteq> 0"
  shows "should_decay_key now (((record_key_use now n t) ^^ Suc k) ds) n t (get_key_policy ds t) = Some INACTIVITY"
proof -
  let ?ds = "((record_key_use now n t) ^^ Suc k) ds"
  have "map_of (ds_node_activities ?ds) n \<noteq> None" by (simp add: record_key_use_simps)
  then obtain a where a: "map_of (ds_node_activities ?ds) n = Some a" by blast
  then have "na_last_seen a = na_last_seen (activity_at ?ds n)" by (simp add: activity_at_def)
  also have "\<dots> = 0"
    unfolding record_key_use_many(1) using assms(1) by (simp add: activity_at_def NodeActivity_new_def)
  finally show ?thesis using assms(2,3) by (simp only: should_decay_key_def node_is_inactive_def a) simp
qed

theorem key_use_alone_decays_witness:
  "should_decay_key 1700000000 (record_key_use 1700000000 (NodeID []) NODE DecayScheduler_init) (NodeID []) NODE
     (get_key_policy DecayScheduler_init NODE) = Some INACTIVITY"
  using key_use_alone_decays [of DecayScheduler_init "NodeID []" NODE 1700000000 0]
  by (simp add: DecayScheduler_init_def default_decay_policies_def get_key_policy_def DecayPolicy_new_def)

text \<open>
  In every state that the state manager can reach, an epoch is processed: the events of the key
  check replace the history of the epoch when there are any, the Things to remove are appended
  to the history, and every action counter is reset, while the policies and the tracked times
  stay.
\<close>

theorem process_epoch_effect:
  fixes ops L now0
  defines "sm \<equiv> foldl state_step (StateManager_init L now0) ops"
  shows "\<exists>evs ds1 ds'. check_key_decay now sm epoch ds = Some (evs, ds1) \<and> process_epoch now sm epoch ds = Some ds' \<and>
    ds_thing_decay_history ds' = ds_thing_decay_history ds @
      List.map_filter (thing_decay now sm ds) (get_all_available_things sm) \<and>
    get_total_keys_decayed ds' epoch = (if evs = [] then get_total_keys_decayed ds epoch else word_of_nat (length evs)) \<and>
    ds_key_policies ds' = ds_key_policies ds \<and>
    (\<forall>n. case map_of (ds_node_activities ds') n of None \<Rightarrow> \<not> is_node_active sm n
       | Some a \<Rightarrow> a = (tracked now ds n)\<lparr>na_actions_this_epoch := []\<rparr>)"
proof -
  have ok: "ids_ok sm" "things_named (sm_things sm)"
    unfolding sm_def by (rule reachable_ids_ok, rule reachable_things_named)
  let ?evs = "concat (map (\<lambda>st. node_decays now epoch ds (the (ns_node_id st)) (ns_key_balances st))
    (get_all_active_nodes sm))"
  let ?ds0 = "fold (\<lambda>st. track now sm (the (ns_node_id st))) (get_all_active_nodes sm) ds"
  let ?ds1 = "if ?evs \<noteq> [] then ?ds0\<lparr>ds_key_decay_by_epoch := omap_set epoch ?evs (ds_key_decay_by_epoch ds)\<rparr> else ?ds0"
  have key: "check_key_decay now sm epoch ds = Some (?evs, ?ds1)" by (rule check_key_decay_full [OF ok(1)])
  have frame: "ds_thing_policy ?ds1 = ds_thing_policy ds" "ds_thing_activities ?ds1 = ds_thing_activities ds"
    "ds_thing_decay_history ?ds1 = ds_thing_decay_history ds" "ds_key_policies ?ds1 = ds_key_policies ds"
    "ds_node_activities ?ds1 = ds_node_activities ?ds0"
    by simp_all
  obtain ds' where ds': "process_epoch now sm epoch ds = Some ds'"
    "ds_thing_decay_history ds' = ds_thing_decay_history ds @
      List.map_filter (thing_decay now sm ds) (get_all_available_things sm)"
    "ds_key_policies ds' = ds_key_policies ds" "ds_key_decay_by_epoch ds' = ds_key_decay_by_epoch ?ds1"
    "ds_node_activities ds' = map (\<lambda>(n, a). (n, a\<lparr>na_actions_this_epoch := []\<rparr>)) (ds_node_activities ?ds0)"
    unfolding process_epoch_def key check_thing_decay_full [OF ok(2)] fold_apply_key_decay fold_apply_thing_decay
    using frame thing_decay_cong [OF frame(1,2), of now sm] by (auto simp: reset_epoch_counters_def)
  have "kd_keys_decayed ev = 1" if "ev \<in> set ?evs" for ev
    using that by (auto simp: set_node_decays)
  from total_one [OF this, of ?evs 0] have "get_total_keys_decayed ds' epoch =
      (if ?evs = [] then get_total_keys_decayed ds epoch else word_of_nat (length ?evs))"
    by (simp add: get_total_keys_decayed_def ds'(4))
  moreover have "case map_of (ds_node_activities ds') n of None \<Rightarrow> \<not> is_node_active sm n
       | Some a \<Rightarrow> a = (tracked now ds n)\<lparr>na_actions_this_epoch := []\<rparr>" for n
  proof -
    have act: "is_node_active sm (the (ns_node_id st))" if "st \<in> set (get_all_active_nodes sm)" for st
      using active_ids [OF ok(1) that] by auto
    have "n \<in> (\<lambda>st. the (ns_node_id st)) ` set (get_all_active_nodes sm)" if "is_node_active sm n"
      using that arg_cong [OF active_node_ids(1) [OF ok(1)], of set]
      by (force simp: is_node_active_def image_iff dest: map_of_SomeD split: option.splits)
    moreover have find: "map_of (ds_node_activities ?ds0) n =
        (if n \<in> (\<lambda>st. the (ns_node_id st)) ` set (get_all_active_nodes sm) then Some (tracked now ds n)
         else map_of (ds_node_activities ds) n)"
      by (rule fold_track_find) (rule act)
    ultimately show ?thesis
      unfolding ds'(5) find_map_values find
      by (auto simp: tracked_def split: option.split)
  qed
  ultimately show ?thesis using key ds'(1-3) by blast
qed

text \<open>
  C20: The worker thread. At every moment there is a thread exactly while the runner runs or \<open>stop\<close>
  waits for it; a stored trigger is never lost: until the check it asked for begins, the flag
  stays set or the worker is about to check. While the runner runs, the worker alone gets from a
  pending trigger to a check in at most six steps, and after \<open>running_\<close> is cleared it ends
  in at most four, so the join returns.
\<close>

theorem runner_trigger_not_lost:
  assumes "runner_reachable ds r" "ids_ok sm" "things_named (sm_things sm)"
  shows "(rn_worker r = None \<longleftrightarrow> \<not> rn_running r \<and> \<not> rn_joining r) \<and>
    (rn_pending r \<longrightarrow> rn_trigger r \<or> rn_worker r = Some PerformCheck) \<and>
    (rn_pending r \<and> rn_running r \<longrightarrow>
       (\<exists>k r'. k \<le> 6 \<and> worker_run k now sm r = Some r' \<and> rn_worker r' = Some PerformCheck)) \<and>
    (rn_joining r \<longrightarrow> (\<exists>k r'. k \<le> 4 \<and> worker_run k now sm r = Some r' \<and> rn_worker r' = Some Finished))"
proof -
  have inv: "runner_inv r" using assms(1) by (rule runner_reachable_inv)
  have "\<exists>k r'. k \<le> 6 \<and> worker_run k now sm r = Some r' \<and> rn_worker r' = Some PerformCheck"
    if "rn_pending r" "rn_running r"
    using that inv by (intro worker_reaches_check) (auto simp: runner_inv_def)
  moreover have "\<exists>k r'. k \<le> 4 \<and> worker_run k now sm r = Some r' \<and> rn_worker r' = Some Finished" if "rn_joining r"
    using that inv assms(2,3) by (intro worker_finishes) (auto simp: runner_inv_def)
  ultimately show ?thesis using inv unfolding runner_inv_def by blast
qed

text \<open>Start, a call of \<open>trigger_check\<close>, its store.\<close>

definition triggered_runner :: DecayRunner where
  "triggered_runner = (trigger_check (runner_start 0 (DecayRunner_init DecayScheduler_init)))
     \<lparr>rn_trigger := True, rn_triggering := 0, rn_pending := True\<rparr>"

lemma triggered_reachable: "runner_reachable DecayScheduler_init triggered_runner"
proof -
  let ?r0 = "DecayRunner_init DecayScheduler_init"
  have "runner_reachable DecayScheduler_init (runner_start 0 ?r0)"
    by (intro Step [OF Init] Start) (simp add: DecayRunner_init_def)
  from Step [OF this TriggerCall]
  have "runner_reachable DecayScheduler_init (trigger_check (runner_start 0 ?r0))" .
  from Step [OF this TriggerStore [where k = 0]] show ?thesis
    by (simp add: triggered_runner_def trigger_check_def runner_start_def DecayRunner_init_def)
qed

theorem runner_trigger_not_lost_witness:
  "\<exists>k r'. k \<le> 6 \<and> worker_run k 1700000000 decay_state triggered_runner = Some r' \<and> rn_worker r' = Some PerformCheck"
proof -
  have "rn_pending triggered_runner" "rn_running triggered_runner"
    by (simp_all add: triggered_runner_def trigger_check_def runner_start_def DecayRunner_init_def)
  moreover have "things_named (sm_things decay_state)"
    by (simp add: decay_state_def things_named_def empty_state_def)
  ultimately show ?thesis
    using runner_trigger_not_lost [OF triggered_reachable decay_state_ok(1), of 1700000000] by blast
qed

text \<open>
  The first recorded access of a Thing is overwritten by the time of its last replication, so a
  Thing accessed now for the first time decays for inactivity when it was replicated more
  than 30 days ago.
\<close>

theorem first_access_overwritten:
  assumes "get_thing_state sm c = Some st" "map_of (ds_thing_activities ds) c = None"
    and "now - th_created_at st > tp_inactivity_threshold p"
  shows "should_decay_thing now sm (record_thing_access now sm c ds) c p = Some INACTIVITY"
  using assms by (simp add: should_decay_thing_def record_thing_access_def update_thing_activity_from_state_def
      set_thing_activity_def thing_activity_at_def ThingActivity_new_def Let_def thing_is_inactive_def)

end
