(* ===== verification/Identity.thy ===== *)
theory Identity
  imports Keys
begin

text \<open>
  \<open>NodeIdentity\<close> and \<open>RotationCertificate\<close> of \<open>src/core/node/node_identity.cpp\<close>, with the hexadecimal
  helpers of \<open>src/crypto/ed25519.cpp\<close>: key pairs, rotation to a new pair with a certificate signed by
  the old one, and the identity file.

  BLAKE3, Ed25519 and ChaCha20-Poly1305 are the fields of a \<open>crypto_lib\<close>, the JSON library those of a
  \<open>json_lib\<close>; new key pairs, nonces and clock readings are arguments. A JSON object is a map in key
  order, as in the library. \<open>j[key]\<close> gives null for a missing key of a mutable object, and is
  undefined for a missing key of a constant one.
\<close>

section \<open>The libraries\<close>

record crypto_lib =
  cr_hash :: "bytes \<Rightarrow> Hash256"
  cr_sign :: "bytes \<Rightarrow> bytes \<Rightarrow> bytes"
  cr_verify :: "bytes \<Rightarrow> bytes \<Rightarrow> bytes \<Rightarrow> bool"
  cr_encrypt :: "bytes \<Rightarrow> bytes \<Rightarrow> bytes \<Rightarrow> bytes"
  cr_decrypt :: "bytes \<Rightarrow> bytes \<Rightarrow> bytes \<Rightarrow> bytes option"

datatype json = JNull | JBool bool | JUint u64 | JInt u64 | JFloat u64 | JStr string
  | JArr "json list" | JObj "(string \<times> json) list"

text \<open>\<open>dump\<close> throws on strings that are not UTF-8, \<open>parse\<close> on text that is not JSON. A floating-point
  number is its bit pattern, a negative integer the word with the same bits.\<close>

record json_lib =
  js_dump :: "json \<Rightarrow> string option"
  js_parse :: "string \<Rightarrow> json option"
  js_float_to_uint :: "u64 \<Rightarrow> u64"

datatype identity_error = CannotOpen | InvalidEncrypted | DecryptFailed | JsonParseError | JsonTypeError
  | JsonUndefinedKey | JsonDumpError | InvalidPublicKey | InvalidSecretKey | InvalidSignature
  | InvalidHex | RotationFailed

definition json_get_string :: "json \<Rightarrow> identity_error + string" where
  "json_get_string j = (case j of JStr s \<Rightarrow> Inr s | _ \<Rightarrow> Inl JsonTypeError)"

definition json_get_uint :: "json_lib \<Rightarrow> json \<Rightarrow> identity_error + u64" where
  "json_get_uint J j = (case j of JUint n \<Rightarrow> Inr n | JInt n \<Rightarrow> Inr n | JFloat d \<Rightarrow> Inr (js_float_to_uint J d)
     | _ \<Rightarrow> Inl JsonTypeError)"

definition json_index :: "json \<Rightarrow> string \<Rightarrow> identity_error + json" where
  "json_index j k = (case j of JNull \<Rightarrow> Inr JNull | JObj m \<Rightarrow> Inr (opt_or JNull (map_of m k))
     | _ \<Rightarrow> Inl JsonTypeError)"

definition json_index_const :: "json \<Rightarrow> string \<Rightarrow> identity_error + json" where
  "json_index_const j k = (case j of
       JObj m \<Rightarrow> (case map_of m k of None \<Rightarrow> Inl JsonUndefinedKey | Some v \<Rightarrow> Inr v)
     | _ \<Rightarrow> Inl JsonTypeError)"

definition json_contains :: "json \<Rightarrow> string \<Rightarrow> bool" where
  "json_contains j k = (case j of JObj m \<Rightarrow> map_of m k \<noteq> None | _ \<Rightarrow> False)"

text \<open>\<open>j[k] = v\<close> on an object.\<close>

definition json_put :: "string \<Rightarrow> json \<Rightarrow> json \<Rightarrow> json" where
  "json_put k v j = (case j of JObj m \<Rightarrow> JObj (omap_set k v m) | _ \<Rightarrow> JObj [(k, v)])"

section \<open>Hexadecimal keys\<close>

definition hex_to_bytes :: "string \<Rightarrow> nat \<Rightarrow> bytes option" where
  "hex_to_bytes hex n =
     (if length hex \<noteq> n * 2 then None
      else case hex_pairs hex of Inl _ \<Rightarrow> None | Inr bs \<Rightarrow> Some bs)"

definition public_key_to_hex :: "bytes \<Rightarrow> string" where
  "public_key_to_hex key = hash_to_hex key"

definition public_key_from_hex :: "string \<Rightarrow> bytes option" where
  "public_key_from_hex hex = hex_to_bytes hex 32"

section \<open>Rotation certificates\<close>

record RotationCertificate =
  rc_old_public_key :: bytes
  rc_new_public_key :: bytes
  rc_timestamp :: u64
  rc_signature :: bytes
  rc_reason :: string

definition RotationCertificate_to_bytes :: "RotationCertificate \<Rightarrow> bytes" where
  "RotationCertificate_to_bytes c =
     rc_old_public_key c @ rc_new_public_key c @ le_bytes 8 (rc_timestamp c)
     @ (if rc_reason c \<noteq> [] then bytes_of_string (rc_reason c) else [])"

definition rotation_message :: "bytes \<Rightarrow> u64 \<Rightarrow> bytes" where
  "rotation_message new_pk timestamp = new_pk @ le_bytes 8 timestamp"

definition RotationCertificate_verify :: "crypto_lib \<Rightarrow> RotationCertificate \<Rightarrow> bool" where
  "RotationCertificate_verify C c =
     cr_verify C (rotation_message (rc_new_public_key c) (rc_timestamp c)) (rc_signature c) (rc_old_public_key c)"

section \<open>Identities\<close>

record NodeIdentity =
  ni_public_key :: bytes
  ni_secret_key :: bytes
  ni_node_id :: NodeID
  ni_created :: u64
  ni_history :: "RotationCertificate list"

definition NodeIdentity_new :: "crypto_lib \<Rightarrow> bytes \<Rightarrow> bytes \<Rightarrow> u64 \<Rightarrow> RotationCertificate list \<Rightarrow> NodeIdentity" where
  "NodeIdentity_new C pk sk timestamp history =
     \<lparr>ni_public_key = pk, ni_secret_key = sk, ni_node_id = NodeID (cr_hash C pk), ni_created = timestamp,
      ni_history = history\<rparr>"

definition NodeIdentity_generate :: "crypto_lib \<Rightarrow> bytes \<times> bytes \<Rightarrow> u64 \<Rightarrow> NodeIdentity" where
  "NodeIdentity_generate C kp now = NodeIdentity_new C (fst kp) (snd kp) now []"

definition NodeIdentity_sign :: "crypto_lib \<Rightarrow> NodeIdentity \<Rightarrow> bytes \<Rightarrow> bytes" where
  "NodeIdentity_sign C i message = cr_sign C message (ni_secret_key i)"

definition NodeIdentity_verify :: "crypto_lib \<Rightarrow> NodeIdentity \<Rightarrow> bytes \<Rightarrow> bytes \<Rightarrow> bool" where
  "NodeIdentity_verify C i message signature = cr_verify C message signature (ni_public_key i)"

definition rotate_identity :: "crypto_lib \<Rightarrow> bytes \<times> bytes \<Rightarrow> u64 \<Rightarrow> string \<Rightarrow> NodeIdentity \<Rightarrow> identity_error + NodeIdentity" where
  "rotate_identity C kp now reason i =
     (let cert = \<lparr>rc_old_public_key = ni_public_key i, rc_new_public_key = fst kp, rc_timestamp = now,
            rc_signature = cr_sign C (rotation_message (fst kp) now) (ni_secret_key i), rc_reason = reason\<rparr> in
      if \<not> RotationCertificate_verify C cert then Inl RotationFailed
      else Inr (NodeIdentity_new C (fst kp) (snd kp) now (ni_history i @ [cert])))"

text \<open>The loop over the certificates.\<close>

fun rotation_links :: "crypto_lib \<Rightarrow> RotationCertificate list \<Rightarrow> bool" where
  "rotation_links C [] = True"
| "rotation_links C [cert] = RotationCertificate_verify C cert"
| "rotation_links C (cert # next # rest) =
     (RotationCertificate_verify C cert \<and> rc_new_public_key cert = rc_old_public_key next \<and>
      rotation_links C (next # rest))"

definition verify_rotation_chain :: "crypto_lib \<Rightarrow> NodeIdentity \<Rightarrow> bool" where
  "verify_rotation_chain C i =
     (if ni_history i = [] then True
      else rotation_links C (ni_history i) \<and> rc_new_public_key (last (ni_history i)) = ni_public_key i)"

definition get_genesis_key :: "NodeIdentity \<Rightarrow> bytes" where
  "get_genesis_key i = (case ni_history i of [] \<Rightarrow> ni_public_key i | cert # _ \<Rightarrow> rc_old_public_key cert)"

definition add_rotation_certificate :: "RotationCertificate \<Rightarrow> NodeIdentity \<Rightarrow> NodeIdentity" where
  "add_rotation_certificate cert i = i\<lparr>ni_history := ni_history i @ [cert]\<rparr>"

section \<open>The identity file\<close>

definition certificate_json :: "RotationCertificate \<Rightarrow> json" where
  "certificate_json c =
     (let j = json_put ''signature'' (JStr (hash_to_hex (rc_signature c)))
               (json_put ''rotation_timestamp'' (JUint (rc_timestamp c))
               (json_put ''new_public_key'' (JStr (public_key_to_hex (rc_new_public_key c)))
               (json_put ''old_public_key'' (JStr (public_key_to_hex (rc_old_public_key c))) JNull)))
      in if rc_reason c \<noteq> [] then json_put ''reason'' (JStr (rc_reason c)) j else j)"

definition identity_json :: "NodeIdentity \<Rightarrow> json" where
  "identity_json i =
     (let j = json_put ''node_id'' (JStr (NodeID_to_string (ni_node_id i)))
               (json_put ''created_timestamp'' (JUint (ni_created i))
               (json_put ''secret_key'' (JStr (hash_to_hex (ni_secret_key i)))
               (json_put ''public_key'' (JStr (public_key_to_hex (ni_public_key i))) JNull)))
      in if ni_history i \<noteq> [] then json_put ''rotation_history'' (JArr (map certificate_json (ni_history i))) j
         else j)"

text \<open>The contents written to the file, when it can be opened.\<close>

definition NodeIdentity_save :: "crypto_lib \<Rightarrow> json_lib \<Rightarrow> bytes \<Rightarrow> bool \<Rightarrow> string \<Rightarrow> NodeIdentity \<Rightarrow> identity_error + bytes" where
  "NodeIdentity_save C J nonce can_open password i =
     (case js_dump J (identity_json i) of
        None \<Rightarrow> Inl JsonDumpError
      | Some json_str \<Rightarrow>
          let json_data = bytes_of_string json_str;
              file_data = (if password \<noteq> []
                then nonce @ cr_encrypt C json_data (cr_hash C (bytes_of_string password)) nonce
                else json_data)
          in if \<not> can_open then Inl CannotOpen else Inr file_data)"

definition parse_certificate :: "json_lib \<Rightarrow> json \<Rightarrow> identity_error + RotationCertificate" where
  "parse_certificate J cj =
     result_then (result_then (json_index_const cj ''old_public_key'') json_get_string) (\<lambda>old_hex.
     result_then (result_then (json_index_const cj ''new_public_key'') json_get_string) (\<lambda>new_hex.
     result_then (result_then (json_index_const cj ''signature'') json_get_string) (\<lambda>sig_hex.
     case public_key_from_hex old_hex of None \<Rightarrow> Inl InvalidPublicKey | Some old_pk \<Rightarrow>
     case public_key_from_hex new_hex of None \<Rightarrow> Inl InvalidPublicKey | Some new_pk \<Rightarrow>
     result_then (result_then (json_index_const cj ''rotation_timestamp'') (json_get_uint J)) (\<lambda>timestamp.
     result_then (if json_contains cj ''reason''
         then result_then (json_index_const cj ''reason'') json_get_string else Inr []) (\<lambda>reason.
     if length sig_hex \<noteq> 64 * 2 then Inl InvalidSignature
     else case hex_pairs sig_hex of Inl _ \<Rightarrow> Inl InvalidHex | Inr sig \<Rightarrow>
       Inr \<lparr>rc_old_public_key = old_pk, rc_new_public_key = new_pk, rc_timestamp = timestamp,
            rc_signature = sig, rc_reason = reason\<rparr>)))))"

fun parse_history :: "json_lib \<Rightarrow> json list \<Rightarrow> identity_error + RotationCertificate list" where
  "parse_history J [] = Inr []"
| "parse_history J (cj # cjs) =
     result_then (parse_certificate J cj) (\<lambda>c. result_then (parse_history J cjs) (\<lambda>cs. Inr (c # cs)))"

definition parse_identity :: "crypto_lib \<Rightarrow> json_lib \<Rightarrow> json \<Rightarrow> identity_error + NodeIdentity" where
  "parse_identity C J j =
     result_then (result_then (json_index j ''public_key'') json_get_string) (\<lambda>pk_hex.
     result_then (result_then (json_index j ''secret_key'') json_get_string) (\<lambda>sk_hex.
     result_then (result_then (json_index j ''created_timestamp'') (json_get_uint J)) (\<lambda>timestamp.
     case public_key_from_hex pk_hex of None \<Rightarrow> Inl InvalidPublicKey | Some pk \<Rightarrow>
     if length sk_hex \<noteq> 64 * 2 then Inl InvalidSecretKey
     else case hex_pairs sk_hex of Inl _ \<Rightarrow> Inl InvalidHex | Inr sk \<Rightarrow>
     result_then (case j of
         JObj m \<Rightarrow> (case map_of m ''rotation_history'' of Some (JArr cjs) \<Rightarrow> parse_history J cjs | _ \<Rightarrow> Inr [])
       | _ \<Rightarrow> Inr []) (\<lambda>history.
     Inr (NodeIdentity_new C pk sk timestamp history)))))"

text \<open>\<open>file\<close> is what can be read, \<open>None\<close> when the file cannot be opened.\<close>

definition NodeIdentity_load :: "crypto_lib \<Rightarrow> json_lib \<Rightarrow> bytes option \<Rightarrow> string \<Rightarrow> identity_error + NodeIdentity" where
  "NodeIdentity_load C J file password =
     (case file of
        None \<Rightarrow> Inl CannotOpen
      | Some file_data \<Rightarrow>
          result_then (if password \<noteq> [] then
              if length file_data < 12 then Inl InvalidEncrypted
              else case cr_decrypt C (drop 12 file_data) (cr_hash C (bytes_of_string password)) (take 12 file_data) of
                     None \<Rightarrow> Inl DecryptFailed
                   | Some plain \<Rightarrow> Inr plain
            else Inr file_data) (\<lambda>json_data.
          case js_parse J (string_of_bytes json_data) of None \<Rightarrow> Inl JsonParseError | Some j \<Rightarrow>
          parse_identity C J j))"

section \<open>Lemmas\<close>

lemma json_put_simps [simp]:
  "json_put k v JNull = JObj [(k, v)]" "json_put k v (JObj m) = JObj (omap_set k v m)"
  by (simp_all add: json_put_def)

lemma hex_key [simp]: "length k = 32 \<Longrightarrow> public_key_from_hex (public_key_to_hex k) = Some k"
  by (simp add: public_key_from_hex_def public_key_to_hex_def hex_to_bytes_def hex_pairs_hash_to_hex)

definition wf_certificate :: "RotationCertificate \<Rightarrow> bool" where
  "wf_certificate c \<longleftrightarrow> length (rc_old_public_key c) = 32 \<and> length (rc_new_public_key c) = 32 \<and>
     length (rc_signature c) = 64"

definition wf_identity :: "crypto_lib \<Rightarrow> NodeIdentity \<Rightarrow> bool" where
  "wf_identity C i \<longleftrightarrow> length (ni_public_key i) = 32 \<and> length (ni_secret_key i) = 64 \<and>
     ni_node_id i = NodeID (cr_hash C (ni_public_key i)) \<and> list_all wf_certificate (ni_history i)"

lemma certificate_fields:
  "\<exists>m. certificate_json c = JObj m \<and> map_of m ''old_public_key'' = Some (JStr (public_key_to_hex (rc_old_public_key c))) \<and>
    map_of m ''new_public_key'' = Some (JStr (public_key_to_hex (rc_new_public_key c))) \<and>
    map_of m ''rotation_timestamp'' = Some (JUint (rc_timestamp c)) \<and>
    map_of m ''signature'' = Some (JStr (hash_to_hex (rc_signature c))) \<and>
    map_of m ''reason'' = (if rc_reason c = [] then None else Some (JStr (rc_reason c)))"
  by (simp add: certificate_json_def Let_def)

lemma parse_certificate_json:
  assumes "wf_certificate c"
  shows "parse_certificate J (certificate_json c) = Inr c"
proof -
  obtain m where m: "certificate_json c = JObj m"
    "map_of m ''old_public_key'' = Some (JStr (public_key_to_hex (rc_old_public_key c)))"
    "map_of m ''new_public_key'' = Some (JStr (public_key_to_hex (rc_new_public_key c)))"
    "map_of m ''rotation_timestamp'' = Some (JUint (rc_timestamp c))"
    "map_of m ''signature'' = Some (JStr (hash_to_hex (rc_signature c)))"
    "map_of m ''reason'' = (if rc_reason c = [] then None else Some (JStr (rc_reason c)))"
    using certificate_fields [of c] by blast
  show ?thesis
    using assms unfolding m(1) parse_certificate_def
    by (simp add: json_index_const_def m(2-6) json_get_string_def json_get_uint_def json_contains_def
        wf_certificate_def hex_pairs_hash_to_hex)
qed

lemma parse_history_json: "list_all wf_certificate cs \<Longrightarrow> parse_history J (map certificate_json cs) = Inr cs"
  by (induction cs) (simp_all add: parse_certificate_json)

lemma identity_fields:
  "\<exists>m. identity_json i = JObj m \<and> map_of m ''public_key'' = Some (JStr (public_key_to_hex (ni_public_key i))) \<and>
    map_of m ''secret_key'' = Some (JStr (hash_to_hex (ni_secret_key i))) \<and>
    map_of m ''created_timestamp'' = Some (JUint (ni_created i)) \<and>
    map_of m ''rotation_history'' =
      (if ni_history i = [] then None else Some (JArr (map certificate_json (ni_history i))))"
  by (simp add: identity_json_def Let_def)

lemma parse_identity_json:
  assumes "wf_identity C i"
  shows "parse_identity C J (identity_json i) = Inr i"
proof -
  obtain m where m: "identity_json i = JObj m" "map_of m ''public_key'' = Some (JStr (public_key_to_hex (ni_public_key i)))"
    "map_of m ''secret_key'' = Some (JStr (hash_to_hex (ni_secret_key i)))"
    "map_of m ''created_timestamp'' = Some (JUint (ni_created i))"
    "map_of m ''rotation_history'' =
      (if ni_history i = [] then None else Some (JArr (map certificate_json (ni_history i))))"
    using identity_fields [of i] by blast
  have h: "list_all wf_certificate (ni_history i)" and n: "ni_node_id i = NodeID (cr_hash C (ni_public_key i))"
    and l: "length (ni_public_key i) = 32" "length (ni_secret_key i) = 64"
    using assms by (simp_all add: wf_identity_def)
  show ?thesis
    unfolding m(1) parse_identity_def
    by (simp add: json_index_def m(2-5) json_get_string_def json_get_uint_def l hex_pairs_hash_to_hex
        parse_history_json [OF h] NodeIdentity_new_def n [symmetric])
qed

text \<open>Rotations of an identity.\<close>

inductive rotated :: "crypto_lib \<Rightarrow> NodeIdentity \<Rightarrow> NodeIdentity \<Rightarrow> bool" for C i0 where
  Same: "rotated C i0 i0"
| Rotate: "rotated C i0 i \<Longrightarrow> rotate_identity C kp now reason i = Inr i' \<Longrightarrow> rotated C i0 i'"

lemma rotation_links_snoc:
  "rotation_links C (cs @ [c]) \<longleftrightarrow> rotation_links C cs \<and> RotationCertificate_verify C c \<and>
     (cs = [] \<or> rc_new_public_key (last cs) = rc_old_public_key c)"
  by (induction C cs rule: rotation_links.induct) auto

lemma rotate_ok:
  assumes "rotate_identity C kp now reason i = Inr i'"
  shows "RotationCertificate_verify C (last (ni_history i'))"
    and "ni_history i' = ni_history i @ [last (ni_history i')]"
    and "rc_old_public_key (last (ni_history i')) = ni_public_key i"
    and "rc_new_public_key (last (ni_history i')) = ni_public_key i'"
    and "ni_public_key i' = fst kp" "ni_node_id i' = NodeID (cr_hash C (ni_public_key i'))"
  using assms by (auto simp: rotate_identity_def NodeIdentity_new_def Let_def split: if_splits)

lemma rotate_keeps_chain:
  assumes "rotate_identity C kp now reason i = Inr i'" "verify_rotation_chain C i"
  shows "verify_rotation_chain C i' \<and> get_genesis_key i' = get_genesis_key i"
proof -
  note r = rotate_ok [OF assms(1)]
  obtain c where h: "ni_history i' = ni_history i @ [c]" using r(2) by metis
  with r have c: "RotationCertificate_verify C c" "rc_old_public_key c = ni_public_key i" "rc_new_public_key c = ni_public_key i'"
    by simp_all
  show ?thesis
    using assms(2) c by (auto simp: verify_rotation_chain_def h rotation_links_snoc get_genesis_key_def
        split: list.split if_splits)
qed

section \<open>Properties\<close>

text \<open>
  However often an identity is rotated, its certificates are a chain of valid signatures from
  the first public key to the current one, the first key is the one it was generated with, and
  the node identifier is the hash of the current key.
\<close>

theorem rotation_chain_valid:
  assumes "rotated C (NodeIdentity_generate C kp now) i"
  shows "verify_rotation_chain C i \<and> get_genesis_key i = fst kp \<and>
    ni_node_id i = NodeID (cr_hash C (ni_public_key i))"
  using assms
proof (induction rule: rotated.induct)
  case Same
  then show ?case
    by (simp add: NodeIdentity_generate_def NodeIdentity_new_def verify_rotation_chain_def get_genesis_key_def)
next
  case (Rotate i kp' now' reason i')
  then show ?case using rotate_keeps_chain rotate_ok(6) by metis
qed

text \<open>A library whose signature of a message starts with the message, and whose cipher puts a zero in front.\<close>

definition toy_crypto :: crypto_lib where
  "toy_crypto = \<lparr>cr_hash = (\<lambda>m. take 32 (m @ replicate 32 0)), cr_sign = (\<lambda>m sk. m @ sk),
     cr_verify = (\<lambda>m sig pk. take (length m) sig = m),
     cr_encrypt = (\<lambda>m k n. 0 # m), cr_decrypt = (\<lambda>c k n. if c = [] then None else Some (tl c))\<rparr>"

theorem rotation_chain_valid_witness:
  "\<exists>i. rotated toy_crypto (NodeIdentity_generate toy_crypto (replicate 32 1, replicate 64 2) 5) i \<and>
     length (ni_history i) = 1 \<and> verify_rotation_chain toy_crypto i \<and> get_genesis_key i = replicate 32 1"
proof -
  let ?i0 = "NodeIdentity_generate toy_crypto (replicate 32 1, replicate 64 2) 5"
  have "\<exists>i. rotate_identity toy_crypto (replicate 32 3, replicate 64 4) 6 [] ?i0 = Inr i \<and> length (ni_history i) = 1"
    by (simp add: rotate_identity_def RotationCertificate_verify_def toy_crypto_def rotation_message_def Let_def
        NodeIdentity_generate_def NodeIdentity_new_def)
  then obtain i where i: "rotate_identity toy_crypto (replicate 32 3, replicate 64 4) 6 [] ?i0 = Inr i"
    "length (ni_history i) = 1" by blast
  from rotated.Rotate [OF rotated.Same i(1)] have r: "rotated toy_crypto ?i0 i" .
  from rotation_chain_valid [OF this] r i(2) show ?thesis by auto
qed

text \<open>
  An identity survives its file, with and without a password: loading what was saved, with
  the same password, gives the identity back, rotation history included.
\<close>

theorem identity_save_load:
  assumes "wf_identity C i" "length nonce = 12"
    and "\<And>j t. js_dump J j = Some t \<Longrightarrow> js_parse J t = Some j"
    and "\<And>m. cr_decrypt C (cr_encrypt C m (cr_hash C (bytes_of_string password)) nonce)
      (cr_hash C (bytes_of_string password)) nonce = Some m"
    and "NodeIdentity_save C J nonce True password i = Inr file_data"
  shows "NodeIdentity_load C J (Some file_data) password = Inr i"
proof -
  obtain t where t: "js_dump J (identity_json i) = Some t"
    using assms(5) by (auto simp: NodeIdentity_save_def split: option.splits)
  with assms(2-5) show ?thesis
    by (auto simp: NodeIdentity_save_def NodeIdentity_load_def Let_def parse_identity_json [OF assms(1)] split: if_splits)
qed

text \<open>A JSON library that knows one text.\<close>

definition sample_identity :: NodeIdentity where
  "sample_identity = NodeIdentity_generate toy_crypto (replicate 32 1, replicate 64 2) 5"

definition toy_json :: json_lib where
  "toy_json = \<lparr>js_dump = (\<lambda>j. if j = identity_json sample_identity then Some ''j'' else None),
     js_parse = (\<lambda>t. if t = ''j'' then Some (identity_json sample_identity) else None), js_float_to_uint = id\<rparr>"

theorem identity_save_load_witness:
  "NodeIdentity_load toy_crypto toy_json (Some (replicate 12 7 @ 0 # bytes_of_string ''j'')) ''pw'' = Inr sample_identity"
proof (rule identity_save_load [of _ _ "replicate 12 7"])
  show "wf_identity toy_crypto sample_identity"
    by (simp add: wf_identity_def sample_identity_def NodeIdentity_generate_def NodeIdentity_new_def)
qed (simp_all add: toy_json_def toy_crypto_def NodeIdentity_save_def split: if_splits)

text \<open>The signature of a certificate covers neither its reason nor the old key: with another reason it
  still verifies.\<close>

theorem rotation_reason_unsigned:
  "RotationCertificate_verify C c \<Longrightarrow> RotationCertificate_verify C (c\<lparr>rc_reason := other\<rparr>)"
  by (simp add: RotationCertificate_verify_def)

end
