(* ===== verification/Key_Revocation.thy ===== *)
theory Key_Revocation
  imports Identity
begin

text \<open>
  \<open>KeyRevocation\<close>, \<open>KeyRevocationList\<close> and \<open>KeyRevocationBroadcaster\<close> of \<open>src/security/key_revocation.cpp\<close>:
  records that withdraw a public key, their byte formats, and the node's list of them.

  The clock is the argument \<open>now\<close>; Ed25519 and BLAKE3 are the fields of a \<open>crypto_lib\<close>. The enumeration of
  reasons is its byte, since the decoder casts any byte. Members that the code leaves uninitialised
  are arguments: the signature of a certificate that was parsed (\<open>junk\<close>), the signature of a local
  revocation, the source and the signature of a new list.
\<close>

section \<open>Data\<close>

type_synonym KeyRevocationReason = u8

record KeyRevocation =
  kr_revoked_key :: bytes
  kr_reason :: KeyRevocationReason
  kr_revoked_at :: u64
  kr_revoker :: NodeID
  kr_replacement :: "bytes option"
  kr_cert :: "RotationCertificate option"
  kr_signature :: bytes

record KeyRevocationList =
  krl_revocations :: "KeyRevocation list"
  krl_timestamp :: u64
  krl_source :: NodeID
  krl_signature :: bytes

record KeyRevocationBroadcaster =
  kb_revocations :: "(bytes \<times> KeyRevocation) list"
  kb_replacements :: "(bytes \<times> bytes) list"
  kb_seen :: "Hash256 list"
  kb_expiry_days :: u32
  kb_max_propagation :: u32

section \<open>Formats\<close>

definition KeyRevocation_to_bytes :: "KeyRevocation \<Rightarrow> bytes" where
  "KeyRevocation_to_bytes r =
     kr_revoked_key r @ [kr_reason r] @ le_bytes 8 (kr_revoked_at r) @ node_bytes (kr_revoker r)
     @ (case kr_replacement r of Some k \<Rightarrow> 1 # k | None \<Rightarrow> [0])
     @ (case kr_cert r of
          Some c \<Rightarrow> let cert_bytes = RotationCertificate_to_bytes c in
            1 # le_bytes 4 (word_of_nat (length cert_bytes) :: u32) @ cert_bytes
        | None \<Rightarrow> [0])
     @ kr_signature r"

definition parse_cert_bytes :: "bytes \<Rightarrow> bytes \<Rightarrow> RotationCertificate option" where
  "parse_cert_bytes junk cert_data =
     (if length cert_data \<ge> 72 then
        Some \<lparr>rc_old_public_key = slice 0 32 cert_data, rc_new_public_key = slice 32 32 cert_data,
          rc_timestamp = le_word (slice 64 8 cert_data), rc_signature = junk,
          rc_reason = (if 72 < length cert_data then string_of_bytes (drop 72 cert_data) else [])\<rparr>
      else None)"

text \<open>The optional replacement key and the optional certificate, each after its flag.\<close>

definition read_replacement :: "bytes \<Rightarrow> (bytes option \<times> bytes) option" where
  "read_replacement data =
     (case read_scalar 1 data of None \<Rightarrow> None | Some (has_replacement :: u8, data) \<Rightarrow>
      if has_replacement = 1
      then (case read_blob 32 data of None \<Rightarrow> None | Some (k, data) \<Rightarrow> Some (Some k, data))
      else Some (None, data))"

definition read_cert :: "bytes \<Rightarrow> bytes \<Rightarrow> (RotationCertificate option \<times> bytes) option" where
  "read_cert junk data =
     (case read_scalar 1 data of None \<Rightarrow> None | Some (has_cert :: u8, data) \<Rightarrow>
      if has_cert = 1
      then (case read_scalar 4 data of None \<Rightarrow> None | Some (len :: u32, data) \<Rightarrow>
            case read_blob (unat len) data of None \<Rightarrow> None | Some (cert_data, data) \<Rightarrow>
              Some (parse_cert_bytes junk cert_data, data))
      else Some (None, data))"

definition KeyRevocation_from_bytes :: "bytes \<Rightarrow> bytes \<Rightarrow> KeyRevocation option" where
  "KeyRevocation_from_bytes junk data =
     (if length data < 32 + 1 + 8 + 32 + 1 + 1 + 64 then None
      else
     case read_blob 32 data of None \<Rightarrow> None | Some (key, data) \<Rightarrow>
     case read_scalar 1 data of None \<Rightarrow> None | Some (reason, data) \<Rightarrow>
     case read_scalar 8 data of None \<Rightarrow> None | Some (at, data) \<Rightarrow>
     case read_blob 32 data of None \<Rightarrow> None | Some (revoker, data) \<Rightarrow>
     case read_replacement data of None \<Rightarrow> None | Some (replacement, data) \<Rightarrow>
     case read_cert junk data of None \<Rightarrow> None | Some (cert, data) \<Rightarrow>
     case read_blob 64 data of None \<Rightarrow> None | Some (sig, data) \<Rightarrow>
       Some \<lparr>kr_revoked_key = key, kr_reason = reason, kr_revoked_at = at, kr_revoker = NodeID revoker,
         kr_replacement = replacement, kr_cert = cert, kr_signature = sig\<rparr>)"

definition KeyRevocation_get_id :: "crypto_lib \<Rightarrow> KeyRevocation \<Rightarrow> Hash256" where
  "KeyRevocation_get_id C r = cr_hash C (kr_revoked_key r @ [kr_reason r] @ le_bytes 8 (kr_revoked_at r))"

text \<open>A length-prefixed record inside a list, and the loop that reads them.\<close>

definition prefixed :: "bytes \<Rightarrow> bytes" where
  "prefixed bs = le_bytes 4 (word_of_nat (length bs) :: u32) @ bs"

fun read_records :: "(bytes \<Rightarrow> 'a option) \<Rightarrow> nat \<Rightarrow> bytes \<Rightarrow> ('a list \<times> bytes) option" where
  "read_records dec 0 data = Some ([], data)"
| "read_records dec (Suc n) data =
     (case read_scalar 4 data of None \<Rightarrow> None | Some (len :: u32, data) \<Rightarrow>
      case read_blob (unat len) data of None \<Rightarrow> None | Some (rec_data, data) \<Rightarrow>
      case dec rec_data of None \<Rightarrow> None | Some r \<Rightarrow>
      case read_records dec n data of None \<Rightarrow> None | Some (rs, data) \<Rightarrow> Some (r # rs, data))"

definition KeyRevocationList_to_bytes :: "KeyRevocationList \<Rightarrow> bytes" where
  "KeyRevocationList_to_bytes l =
     le_bytes 8 (krl_timestamp l) @ node_bytes (krl_source l)
     @ le_bytes 4 (word_of_nat (length (krl_revocations l)) :: u32)
     @ concat (map (prefixed \<circ> KeyRevocation_to_bytes) (krl_revocations l)) @ krl_signature l"

definition KeyRevocationList_from_bytes :: "bytes \<Rightarrow> bytes \<Rightarrow> KeyRevocationList option" where
  "KeyRevocationList_from_bytes junk data =
     (if length data < 8 + 32 + 4 + 64 then None
      else
     case read_scalar 8 data of None \<Rightarrow> None | Some (ts :: u64, data) \<Rightarrow>
     case read_blob 32 data of None \<Rightarrow> None | Some (src, data) \<Rightarrow>
     case read_scalar 4 data of None \<Rightarrow> None | Some (count :: u32, data) \<Rightarrow>
     case read_records (KeyRevocation_from_bytes junk) (unat count) data of None \<Rightarrow> None | Some (revs, data) \<Rightarrow>
     case read_blob 64 data of None \<Rightarrow> None | Some (sig, data) \<Rightarrow>
       Some \<lparr>krl_revocations = revs, krl_timestamp = ts, krl_source = NodeID src, krl_signature = sig\<rparr>)"

section \<open>The broadcaster\<close>

definition KeyRevocationBroadcaster_init :: KeyRevocationBroadcaster where
  "KeyRevocationBroadcaster_init = \<lparr>kb_revocations = [], kb_replacements = [], kb_seen = [],
     kb_expiry_days = 365, kb_max_propagation = 10\<rparr>"

definition set_key_revocation_expiry_days :: "u32 \<Rightarrow> KeyRevocationBroadcaster \<Rightarrow> KeyRevocationBroadcaster" where
  "set_key_revocation_expiry_days days b = b\<lparr>kb_expiry_days := days\<rparr>"

definition is_key_revoked :: "KeyRevocationBroadcaster \<Rightarrow> bytes \<Rightarrow> bool" where
  "is_key_revoked b k \<longleftrightarrow> map_of (kb_revocations b) k \<noteq> None"

definition get_revocation :: "KeyRevocationBroadcaster \<Rightarrow> bytes \<Rightarrow> KeyRevocation option" where
  "get_revocation b k = map_of (kb_revocations b) k"

definition get_replacement_key :: "KeyRevocationBroadcaster \<Rightarrow> bytes \<Rightarrow> bytes option" where
  "get_replacement_key b k = map_of (kb_replacements b) k"

text \<open>Storing a record and its replacement key.\<close>

definition store_key_revocation :: "KeyRevocation \<Rightarrow> KeyRevocationBroadcaster \<Rightarrow> KeyRevocationBroadcaster" where
  "store_key_revocation r b = b\<lparr>kb_revocations := omap_set (kr_revoked_key r) r (kb_revocations b),
     kb_replacements := (case kr_replacement r of
         Some k \<Rightarrow> omap_set (kr_revoked_key r) k (kb_replacements b) | None \<Rightarrow> kb_replacements b)\<rparr>"

definition revoke_key :: "u64 \<Rightarrow> bytes \<Rightarrow> bytes \<Rightarrow> KeyRevocationReason \<Rightarrow> NodeID \<Rightarrow> bytes option \<Rightarrow> RotationCertificate option
    \<Rightarrow> KeyRevocationBroadcaster \<Rightarrow> KeyRevocation option \<times> KeyRevocationBroadcaster" where
  "revoke_key now junk_sig key reason revoker replacement cert b =
     (if is_key_revoked b key then (None, b)
      else let r = \<lparr>kr_revoked_key = key, kr_reason = reason, kr_revoked_at = now, kr_revoker = revoker,
                    kr_replacement = replacement, kr_cert = cert, kr_signature = junk_sig\<rparr>
           in (Some r, store_key_revocation r b))"

text \<open>\<open>revocation_expiry_days_ * 24 * 3600\<close> is computed in 32 bits.\<close>

definition key_revocation_expired :: "u64 \<Rightarrow> KeyRevocationBroadcaster \<Rightarrow> KeyRevocation \<Rightarrow> bool" where
  "key_revocation_expired now b r \<longleftrightarrow>
     now \<ge> kr_revoked_at r + (ucast (kb_expiry_days b * 24 * 3600) :: u64)"

definition should_accept_key_revocation :: "crypto_lib \<Rightarrow> u64 \<Rightarrow> KeyRevocationBroadcaster \<Rightarrow> KeyRevocation \<Rightarrow> bool" where
  "should_accept_key_revocation C now b r =
     (if key_revocation_expired now b r then False
      else if kr_revoked_at r > now + 300 then False
      else case kr_cert r of None \<Rightarrow> True | Some c \<Rightarrow> RotationCertificate_verify C c)"

definition key_revocation_message :: "KeyRevocation \<Rightarrow> bytes" where
  "key_revocation_message r =
     kr_revoked_key r @ [kr_reason r] @ le_bytes 8 (kr_revoked_at r) @ node_bytes (kr_revoker r)
     @ (case kr_replacement r of Some k \<Rightarrow> k | None \<Rightarrow> [])"

definition verify_key_revocation :: "crypto_lib \<Rightarrow> KeyRevocation \<Rightarrow> bool" where
  "verify_key_revocation C r =
     cr_verify C (key_revocation_message r) (kr_signature r) (opt_or (kr_revoked_key r) (kr_replacement r))"

definition sign_key_revocation :: "bytes \<Rightarrow> KeyRevocation \<Rightarrow> KeyRevocation" where
  "sign_key_revocation sig r = r\<lparr>kr_signature := sig\<rparr>"

definition process_key_revocation :: "crypto_lib \<Rightarrow> u64 \<Rightarrow> KeyRevocation \<Rightarrow> KeyRevocationBroadcaster
    \<Rightarrow> bool \<times> KeyRevocationBroadcaster" where
  "process_key_revocation C now r b =
     (let i = KeyRevocation_get_id C r in
      if i \<in> set (kb_seen b) then (False, b)
      else if \<not> should_accept_key_revocation C now b r then (False, b)
      else if \<not> verify_key_revocation C r then (False, b)
      else (True, (store_key_revocation r b)\<lparr>kb_seen := oset_insert i (kb_seen b)\<rparr>))"

fun process_key_revocations :: "crypto_lib \<Rightarrow> u64 \<Rightarrow> KeyRevocation list \<Rightarrow> nat \<Rightarrow> KeyRevocationBroadcaster
    \<Rightarrow> nat \<times> KeyRevocationBroadcaster" where
  "process_key_revocations C now [] accepted b = (accepted, b)"
| "process_key_revocations C now (r # rs) accepted b =
     (case process_key_revocation C now r b of
        (ok, b') \<Rightarrow> process_key_revocations C now rs (if ok then accepted + 1 else accepted) b')"

definition process_key_revocation_list :: "crypto_lib \<Rightarrow> u64 \<Rightarrow> KeyRevocationList \<Rightarrow> KeyRevocationBroadcaster
    \<Rightarrow> nat \<times> KeyRevocationBroadcaster" where
  "process_key_revocation_list C now l b = process_key_revocations C now (krl_revocations l) 0 b"

text \<open>The loop stops after the record that fills the result.\<close>

fun recent_loop :: "('a \<Rightarrow> bool) \<Rightarrow> nat \<Rightarrow> 'a list \<Rightarrow> 'a list \<Rightarrow> 'a list" where
  "recent_loop P max_count [] out = out"
| "recent_loop P max_count (x # xs) out =
     (if P x then if length (out @ [x]) \<ge> max_count then out @ [x] else recent_loop P max_count xs (out @ [x])
      else recent_loop P max_count xs out)"

definition get_recent_key_revocations :: "KeyRevocationBroadcaster \<Rightarrow> u64 \<Rightarrow> nat \<Rightarrow> KeyRevocation list" where
  "get_recent_key_revocations b since max_count =
     recent_loop (\<lambda>r. kr_revoked_at r \<ge> since) max_count (map snd (kb_revocations b)) []"

definition create_key_revocation_list :: "u64 \<Rightarrow> NodeID \<Rightarrow> bytes \<Rightarrow> bool \<Rightarrow> KeyRevocationBroadcaster \<Rightarrow> KeyRevocationList" where
  "create_key_revocation_list now src sig include_all b =
     \<lparr>krl_revocations = (if include_all then map snd (kb_revocations b)
        else get_recent_key_revocations b (now - 3600) 100),
      krl_timestamp = now, krl_source = src, krl_signature = sig\<rparr>"

definition key_revocation_count :: "KeyRevocationBroadcaster \<Rightarrow> nat" where
  "key_revocation_count b = length (kb_revocations b)"

definition expired_key_revocation_count :: "u64 \<Rightarrow> KeyRevocationBroadcaster \<Rightarrow> nat" where
  "expired_key_revocation_count now b =
     length (filter (\<lambda>p. key_revocation_expired now b (snd p)) (kb_revocations b))"

definition cleanup_expired_key_revocations :: "u64 \<Rightarrow> KeyRevocationBroadcaster \<Rightarrow> KeyRevocationBroadcaster" where
  "cleanup_expired_key_revocations now b =
     (let to_remove = map fst (filter (\<lambda>p. key_revocation_expired now b (snd p)) (kb_revocations b)) in
      fold (\<lambda>k b. b\<lparr>kb_revocations := omap_erase k (kb_revocations b),
        kb_replacements := omap_erase k (kb_replacements b)\<rparr>) to_remove b)"

definition key_revocation_reason_to_string :: "KeyRevocationReason \<Rightarrow> string" where
  "key_revocation_reason_to_string reason =
     (if reason = 0 then ''Suspected compromise'' else if reason = 1 then ''Confirmed compromise''
      else if reason = 2 then ''Scheduled rotation'' else if reason = 3 then ''Device loss''
      else if reason = 4 then ''Key expiration'' else if reason = 5 then ''Policy violation''
      else if reason = 6 then ''Administrative'' else if reason = 7 then ''Owner request'' else ''Unknown'')"

section \<open>Lemmas\<close>

subsection \<open>Formats\<close>

text \<open>What arrives: the signature of a certificate is not sent.\<close>

definition arrived :: "bytes \<Rightarrow> KeyRevocation \<Rightarrow> KeyRevocation" where
  "arrived junk r = r\<lparr>kr_cert := map_option (\<lambda>c. c\<lparr>rc_signature := junk\<rparr>) (kr_cert r)\<rparr>"

definition wf_sent_cert :: "RotationCertificate \<Rightarrow> bool" where
  "wf_sent_cert c \<longleftrightarrow> length (rc_old_public_key c) = 32 \<and> length (rc_new_public_key c) = 32 \<and>
     72 + length (rc_reason c) < 2 ^ 32"

definition wf_KeyRevocation :: "KeyRevocation \<Rightarrow> bool" where
  "wf_KeyRevocation r \<longleftrightarrow> length (kr_revoked_key r) = 32 \<and> length (node_bytes (kr_revoker r)) = 32 \<and>
     length (kr_signature r) = 64 \<and> pred_option (\<lambda>k. length k = 32) (kr_replacement r) \<and>
     pred_option wf_sent_cert (kr_cert r)"

lemma length_cert_bytes:
  "wf_sent_cert c \<Longrightarrow> length (RotationCertificate_to_bytes c) = 72 + length (rc_reason c)"
  by (simp add: RotationCertificate_to_bytes_def wf_sent_cert_def)

lemma unat_cert_length:
  "wf_sent_cert c \<Longrightarrow> unat (word_of_nat (length (RotationCertificate_to_bytes c)) :: u32) =
     length (RotationCertificate_to_bytes c)"
  by (rule unat_of_nat_u32) (simp add: length_cert_bytes, simp add: wf_sent_cert_def)

lemma bytes_of_string_Nil [simp]: "bytes_of_string t = [] \<longleftrightarrow> t = []"
  by (simp add: bytes_of_string_def)

lemma parse_cert:
  "wf_sent_cert c \<Longrightarrow> parse_cert_bytes junk (RotationCertificate_to_bytes c) = Some (c\<lparr>rc_signature := junk\<rparr>)"
  by (simp add: parse_cert_bytes_def RotationCertificate_to_bytes_def wf_sent_cert_def codec_simps)

lemma KeyRevocation_codec:
  assumes "wf_KeyRevocation r"
  shows "KeyRevocation_from_bytes junk (KeyRevocation_to_bytes r @ rest) = Some (arrived junk r)"
proof -
  have "NodeID (node_bytes (kr_revoker r)) = kr_revoker r" by simp
  with assms show ?thesis
    by (cases "kr_replacement r"; cases "kr_cert r")
      (simp_all add: KeyRevocation_from_bytes_def read_replacement_def read_cert_def KeyRevocation_to_bytes_def wf_KeyRevocation_def arrived_def
        Let_def parse_cert unat_cert_length del: unsigned_of_nat)
qed

lemma length_KeyRevocation:
  assumes "wf_KeyRevocation r"
  shows "139 \<le> length (KeyRevocation_to_bytes r)"
  using assms by (auto simp: KeyRevocation_to_bytes_def wf_KeyRevocation_def Let_def split: option.split)

lemma read_records_prefixed:
  assumes "\<And>x. x \<in> set xs \<Longrightarrow> dec (enc x) = Some (f x) \<and> length (enc x) < 2 ^ 32"
  shows "read_records dec (length xs) (concat (map (prefixed \<circ> enc) xs) @ rest) = Some (map f xs, rest)"
  using assms by (induction xs) (simp_all add: prefixed_def)

subsection \<open>The state of the broadcaster\<close>

datatype key_revocation_op =
    RevokeKey u64 bytes bytes KeyRevocationReason NodeID "bytes option" "RotationCertificate option"
  | ProcessKey u64 KeyRevocation
  | ProcessKeyList u64 KeyRevocationList
  | SetKeyExpiry u32
  | CleanupKeys u64

fun key_revocation_step :: "crypto_lib \<Rightarrow> KeyRevocationBroadcaster \<Rightarrow> key_revocation_op \<Rightarrow> KeyRevocationBroadcaster" where
  "key_revocation_step C b (RevokeKey now junk_sig k reason n repl cert) = snd (revoke_key now junk_sig k reason n repl cert b)"
| "key_revocation_step C b (ProcessKey now r) = snd (process_key_revocation C now r b)"
| "key_revocation_step C b (ProcessKeyList now l) = snd (process_key_revocation_list C now l b)"
| "key_revocation_step C b (SetKeyExpiry days) = set_key_revocation_expiry_days days b"
| "key_revocation_step C b (CleanupKeys now) = cleanup_expired_key_revocations now b"

text \<open>Records are filed under their key, the replacements belong to revoked keys.\<close>

definition kb_inv :: "KeyRevocationBroadcaster \<Rightarrow> bool" where
  "kb_inv b \<longleftrightarrow> omap_ok (kb_revocations b) \<and> omap_ok (kb_replacements b) \<and> oset_ok (kb_seen b) \<and>
     (\<forall>k r. map_of (kb_revocations b) k = Some r \<longrightarrow> kr_revoked_key r = k) \<and>
     (\<forall>k. map_of (kb_replacements b) k \<noteq> None \<longrightarrow> map_of (kb_revocations b) k \<noteq> None)"

lemma kb_inv_store: "kb_inv b \<Longrightarrow> kb_inv (store_key_revocation r b)"
  by (auto simp: kb_inv_def store_key_revocation_def split: option.splits)

lemma kb_inv_process: "kb_inv b \<Longrightarrow> kb_inv (snd (process_key_revocation C now r b))"
  using kb_inv_store [of b r] by (auto simp: process_key_revocation_def Let_def kb_inv_def)

lemma kb_inv_process_all: "kb_inv b \<Longrightarrow> kb_inv (snd (process_key_revocations C now rs n b))"
proof (induction rs arbitrary: n b)
  case (Cons r rs)
  from kb_inv_process [OF Cons.prems, of C now r] Cons.IH show ?case by (auto split: prod.split)
qed simp

lemma cleanup_fold:
  "kb_revocations (fold (\<lambda>k b. b\<lparr>kb_revocations := omap_erase k (kb_revocations b),
     kb_replacements := omap_erase k (kb_replacements b)\<rparr>) ks b) = fold omap_erase ks (kb_revocations b)"
  "kb_replacements (fold (\<lambda>k b. b\<lparr>kb_revocations := omap_erase k (kb_revocations b),
     kb_replacements := omap_erase k (kb_replacements b)\<rparr>) ks b) = fold omap_erase ks (kb_replacements b)"
  "kb_seen (fold (\<lambda>k b. b\<lparr>kb_revocations := omap_erase k (kb_revocations b),
     kb_replacements := omap_erase k (kb_replacements b)\<rparr>) ks b) = kb_seen b"
  "kb_expiry_days (fold (\<lambda>k b. b\<lparr>kb_revocations := omap_erase k (kb_revocations b),
     kb_replacements := omap_erase k (kb_replacements b)\<rparr>) ks b) = kb_expiry_days b"
  by (induction ks arbitrary: b) simp_all

lemma expired_keys:
  assumes "omap_ok m"
  shows "k \<in> set (map fst (filter (\<lambda>p. P (snd p)) m)) \<longleftrightarrow> (case map_of m k of None \<Rightarrow> False | Some r \<Rightarrow> P r)"
proof (cases "map_of m k")
  case None
  then have "k \<notin> fst ` set m" by (simp add: map_of_eq_None_iff)
  with None show ?thesis by auto
next
  case (Some r)
  have "(k, r') \<in> set m \<longleftrightarrow> r' = r" for r'
    using omap_ok_distinct [OF assms] Some by (metis map_of_is_SomeI map_of_SomeD option.inject)
  with Some show ?thesis by (force simp: image_iff)
qed

lemma find_cleanup:
  assumes "omap_ok (kb_revocations b)"
  shows "map_of (kb_revocations (cleanup_expired_key_revocations now b)) k =
    (case map_of (kb_revocations b) k of None \<Rightarrow> None
     | Some r \<Rightarrow> if key_revocation_expired now b r then None else Some r)"
  unfolding cleanup_expired_key_revocations_def Let_def cleanup_fold find_erase_all
    expired_keys [OF assms] by (simp split: option.split)

lemma kb_inv_cleanup:
  assumes "kb_inv b"
  shows "kb_inv (cleanup_expired_key_revocations now b)"
proof -
  let ?b = "cleanup_expired_key_revocations now b"
  have ok: "omap_ok (kb_revocations b)" using assms by (simp add: kb_inv_def)
  have repl: "map_of (kb_replacements ?b) k \<noteq> None \<Longrightarrow> map_of (kb_replacements b) k \<noteq> None \<and>
      (case map_of (kb_revocations b) k of None \<Rightarrow> True | Some r \<Rightarrow> \<not> key_revocation_expired now b r)" for k
    unfolding cleanup_expired_key_revocations_def Let_def cleanup_fold find_erase_all expired_keys [OF ok]
    by (auto split: option.splits if_splits)
  have "omap_ok (kb_revocations ?b)" "omap_ok (kb_replacements ?b)" "oset_ok (kb_seen ?b)"
    using assms unfolding cleanup_expired_key_revocations_def Let_def cleanup_fold
    by (simp_all add: kb_inv_def omap_ok_erase_all)
  moreover have "kr_revoked_key r = k" if "map_of (kb_revocations ?b) k = Some r" for k r
    using that assms unfolding find_cleanup [OF ok] by (auto simp: kb_inv_def split: option.splits if_splits)
  moreover have "map_of (kb_revocations ?b) k \<noteq> None" if "map_of (kb_replacements ?b) k \<noteq> None" for k
    using repl [OF that] assms unfolding find_cleanup [OF ok] by (auto simp: kb_inv_def split: option.splits)
  ultimately show ?thesis unfolding kb_inv_def by blast
qed

interpretation kb: invariant_machine "key_revocation_step C" kb_inv
proof
  fix b x assume "kb_inv b"
  then show "kb_inv (key_revocation_step C b x)"
    by (cases x) (auto simp: kb_inv_process kb_inv_process_all process_key_revocation_list_def kb_inv_cleanup
        revoke_key_def Let_def kb_inv_store set_key_revocation_expiry_days_def, simp add: kb_inv_def)
qed

lemma kb_inv_init [simp]: "kb_inv KeyRevocationBroadcaster_init"
  by (simp add: kb_inv_def KeyRevocationBroadcaster_init_def)

lemma revoked_store [simp]:
  "is_key_revoked (store_key_revocation r b) k \<longleftrightarrow> k = kr_revoked_key r \<or> is_key_revoked b k"
  by (simp add: is_key_revoked_def store_key_revocation_def)

lemma revoked_process: "is_key_revoked b k \<Longrightarrow> is_key_revoked (snd (process_key_revocation C now r b)) k"
  using revoked_store [of r b k]
  by (auto simp: process_key_revocation_def Let_def is_key_revoked_def)

lemma revoked_process_all: "is_key_revoked b k \<Longrightarrow> is_key_revoked (snd (process_key_revocations C now rs n b)) k"
proof (induction rs arbitrary: n b)
  case (Cons r rs)
  from revoked_process [OF Cons.prems, of C now r] Cons.IH show ?case by (auto split: prod.split)
qed simp

lemma revoked_step:
  assumes "is_key_revoked b k" "\<And>now. x \<noteq> CleanupKeys now"
  shows "is_key_revoked (key_revocation_step C b x) k"
  using assms by (cases x)
    (auto simp: revoked_process revoked_process_all process_key_revocation_list_def revoke_key_def Let_def
      set_key_revocation_expiry_days_def, simp add: is_key_revoked_def)

lemma revoked_run:
  assumes "is_key_revoked b k" "\<And>now. CleanupKeys now \<notin> set xs"
  shows "is_key_revoked (foldl (key_revocation_step C) b xs) k"
  using assms
proof (induction xs arbitrary: b)
  case (Cons x xs)
  have "is_key_revoked (key_revocation_step C b x) k"
    using Cons.prems by (intro revoked_step) auto
  with Cons show ?case by simp
qed simp

text \<open>
  What keeps the revocation \<open>r\<close> of a key: records received for the key are not dated before it,
  the expiry period stays as it is, and a cleanup comes before \<open>r\<close> expires.
\<close>

definition not_before :: "bytes \<Rightarrow> KeyRevocation \<Rightarrow> KeyRevocation \<Rightarrow> bool" where
  "not_before k r r' \<longleftrightarrow> kr_revoked_key r' \<noteq> k \<or> kr_revoked_at r \<le> kr_revoked_at r' \<and> kr_revoked_at r' < 2 ^ 63"

fun keeps_revocation :: "bytes \<Rightarrow> KeyRevocation \<Rightarrow> KeyRevocationBroadcaster \<Rightarrow> key_revocation_op \<Rightarrow> bool" where
  "keeps_revocation k r b (RevokeKey now junk_sig k' reason n repl cert) = True"
| "keeps_revocation k r b (ProcessKey now r') = not_before k r r'"
| "keeps_revocation k r b (ProcessKeyList now l) = list_all (not_before k r) (krl_revocations l)"
| "keeps_revocation k r b (SetKeyExpiry days) = (days = kb_expiry_days b)"
| "keeps_revocation k r b (CleanupKeys now) = (\<not> key_revocation_expired now b r)"

definition revocation_held :: "bytes \<Rightarrow> KeyRevocation \<Rightarrow> u32 \<Rightarrow> KeyRevocationBroadcaster \<Rightarrow> bool" where
  "revocation_held k r days b \<longleftrightarrow> kb_inv b \<and> kb_expiry_days b = days \<and>
     (\<exists>r'. map_of (kb_revocations b) k = Some r' \<and> kr_revoked_at r \<le> kr_revoked_at r' \<and> kr_revoked_at r' < 2 ^ 63)"

lemma later_record_expires_later:
  assumes "kr_revoked_at r \<le> kr_revoked_at r'" "kr_revoked_at r' < 2 ^ 63"
    and "kb_expiry_days b' = kb_expiry_days b" "\<not> key_revocation_expired now b r"
  shows "\<not> key_revocation_expired now b' r'"
proof -
  let ?x = "ucast (kb_expiry_days b * 24 * 3600) :: u64"
  have "unat (kb_expiry_days b * 24 * 3600) < 2 ^ LENGTH(32)" by (rule unsigned_less)
  then have x: "unat ?x < 2 ^ 32" by (simp add: unsigned_ucast_eq take_bit_eq_mod)
  have le: "unat (kr_revoked_at r) \<le> unat (kr_revoked_at r')" "unat (kr_revoked_at r') < 2 ^ 63"
    using assms(1,2) by (simp_all add: word_le_nat_alt word_less_nat_alt)
  with x have "unat (kr_revoked_at r + ?x) = unat (kr_revoked_at r) + unat ?x"
    "unat (kr_revoked_at r' + ?x) = unat (kr_revoked_at r') + unat ?x"
    by (simp_all add: unat_plus_if_size word_size del: unsigned_ucast_eq)
  with le(1) assms(3,4) show ?thesis
    by (simp add: key_revocation_expired_def word_le_nat_alt del: unsigned_ucast_eq)
qed

lemma revocation_held_store:
  "revocation_held k r days b \<Longrightarrow> not_before k r r' \<Longrightarrow> revocation_held k r days (store_key_revocation r' b)"
  using kb_inv_store [of b r'] by (auto simp: revocation_held_def not_before_def store_key_revocation_def)

lemma revocation_held_process:
  assumes "revocation_held k r days b" "not_before k r r'"
  shows "revocation_held k r days (snd (process_key_revocation C now r' b))"
  using assms revocation_held_store [OF assms] kb_inv_process [of b C now r']
  by (auto simp: revocation_held_def process_key_revocation_def Let_def)

lemma revocation_held_process_all:
  "revocation_held k r days b \<Longrightarrow> list_all (not_before k r) rs \<Longrightarrow>
   revocation_held k r days (snd (process_key_revocations C now rs n b))"
proof (induction rs arbitrary: n b)
  case (Cons r' rs)
  then have "revocation_held k r days (snd (process_key_revocation C now r' b))"
    by (intro revocation_held_process) simp_all
  with Cons show ?case by (auto split: prod.split)
qed simp

lemma revocation_held_cleanup:
  assumes "revocation_held k r days b'" "kb_expiry_days b = days" "\<not> key_revocation_expired now b r"
  shows "revocation_held k r days (cleanup_expired_key_revocations now b')"
proof -
  obtain r' where r': "map_of (kb_revocations b') k = Some r'" "kr_revoked_at r \<le> kr_revoked_at r'"
    "kr_revoked_at r' < 2 ^ 63" and inv: "kb_inv b'" and days: "kb_expiry_days b' = kb_expiry_days b"
    using assms(1,2) by (auto simp: revocation_held_def)
  have "\<not> key_revocation_expired now b' r'"
    by (rule later_record_expires_later [OF r'(2,3) days assms(3)])
  moreover have "omap_ok (kb_revocations b')" using inv by (simp add: kb_inv_def)
  moreover have "kb_expiry_days (cleanup_expired_key_revocations now b') = kb_expiry_days b'"
    by (simp add: cleanup_expired_key_revocations_def cleanup_fold Let_def)
  ultimately show ?thesis
    using r' days assms(2) kb_inv_cleanup [OF inv] find_cleanup [of b' now k]
    by (simp add: revocation_held_def)
qed

lemma revocation_held_step:
  assumes "revocation_held k r (kb_expiry_days b) b'" "keeps_revocation k r b x"
  shows "revocation_held k r (kb_expiry_days b) (key_revocation_step C b' x)"
proof (cases x)
  case (RevokeKey now junk_sig k' reason n repl cert)
  have "is_key_revoked b' k" using assms(1) by (auto simp: revocation_held_def is_key_revoked_def)
  with RevokeKey assms(1) show ?thesis
    by (auto simp: revoke_key_def Let_def not_before_def intro: revocation_held_store)
next
  case (SetKeyExpiry days)
  with assms have "set_key_revocation_expiry_days days b' = b'"
    by (simp add: revocation_held_def set_key_revocation_expiry_days_def)
  with SetKeyExpiry assms(1) show ?thesis by simp
qed (use assms in \<open>simp_all add: revocation_held_process revocation_held_process_all
  process_key_revocation_list_def revocation_held_cleanup\<close>)

lemma revocation_held_run:
  assumes "kb_inv b" "map_of (kb_revocations b) k = Some r" "kr_revoked_at r < 2 ^ 63"
    and "list_all (keeps_revocation k r b) xs"
  shows "revocation_held k r (kb_expiry_days b) (foldl (key_revocation_step C) b xs)"
proof -
  have "list_all (keeps_revocation k r b) xs \<Longrightarrow> revocation_held k r (kb_expiry_days b) b' \<Longrightarrow>
      revocation_held k r (kb_expiry_days b) (foldl (key_revocation_step C) b' xs)" for b'
    by (induction xs arbitrary: b') (simp_all add: revocation_held_step)
  with assms show ?thesis by (simp add: revocation_held_def)
qed

text \<open>Processing changes neither the policy nor what was seen, except by adding to it.\<close>

lemma process_frame:
  "kb_expiry_days (snd (process_key_revocation C now r b)) = kb_expiry_days b"
  "set (kb_seen b) \<subseteq> set (kb_seen (snd (process_key_revocation C now r b)))"
  by (auto simp: process_key_revocation_def Let_def store_key_revocation_def)

definition refused :: "crypto_lib \<Rightarrow> u64 \<Rightarrow> KeyRevocationBroadcaster \<Rightarrow> KeyRevocation \<Rightarrow> bool" where
  "refused C now b r \<longleftrightarrow> KeyRevocation_get_id C r \<in> set (kb_seen b) \<or>
     \<not> should_accept_key_revocation C now b r \<or> \<not> verify_key_revocation C r"

lemma process_refused: "refused C now b r \<Longrightarrow> process_key_revocation C now r b = (False, b)"
  by (auto simp: process_key_revocation_def refused_def Let_def)

lemma refused_after: "refused C now (snd (process_key_revocation C now r b)) r"
  by (auto simp: process_key_revocation_def refused_def Let_def)

lemma refused_mono: "refused C now b r \<Longrightarrow> refused C now (snd (process_key_revocation C now r' b)) r"
  using process_frame [where C = C and now = now and r = r' and b = b]
  by (auto simp: refused_def should_accept_key_revocation_def key_revocation_expired_def split: option.splits)

lemma refused_all:
  "r \<in> set rs \<or> refused C now b r \<Longrightarrow> refused C now (snd (process_key_revocations C now rs n b)) r"
proof (induction rs arbitrary: n b)
  case (Cons r' rs)
  have "r \<in> set rs \<or> refused C now (snd (process_key_revocation C now r' b)) r"
    using Cons.prems refused_after [of C now r' b] refused_mono [of C now b r r'] by auto
  from Cons.IH [OF this] show ?case by (auto split: prod.split)
qed simp

lemma process_all_refused:
  "(\<And>r. r \<in> set rs \<Longrightarrow> refused C now b r) \<Longrightarrow> process_key_revocations C now rs n b = (n, b)"
  by (induction rs) (simp_all add: process_refused)

section \<open>Properties\<close>

text \<open>
  C30: Revoked keys stay revoked until their record expires. Take any run of the broadcaster,
  cleanups included, after which a key is revoked by some record, and any later operations such
  that no cleanup among them runs when that record has expired, the expiry period is not
  changed, and no record received for the key is dated before it (nor at the end of the
  representable time). Then the key is still revoked; without cleanups it is still revoked
  whatever arrives and however the period is changed. A cleanup drops exactly the expired
  records, and at every time records are filed under the key they revoke and replacements
  belong to revoked keys. An older record that is accepted later replaces the newer one, which
  is why records before it are excluded.
\<close>

theorem revoked_until_expiry:
  fixes C ops
  defines "b \<equiv> foldl (key_revocation_step C) KeyRevocationBroadcaster_init ops"
  assumes "get_revocation b k = Some r" "kr_revoked_at r < 2 ^ 63"
    and "list_all (keeps_revocation k r b) later \<or> (\<forall>now. CleanupKeys now \<notin> set later)"
  shows "is_key_revoked (foldl (key_revocation_step C) b later) k \<and> kb_inv b \<and>
    get_revocation (cleanup_expired_key_revocations now b) k =
      (if key_revocation_expired now b r then None else Some r)"
proof -
  have inv: "kb_inv b" unfolding b_def by (rule kb.run_inv) simp
  then have "omap_ok (kb_revocations b)" by (simp add: kb_inv_def)
  from find_cleanup [OF this] assms(2)
  have "get_revocation (cleanup_expired_key_revocations now b) k =
      (if key_revocation_expired now b r then None else Some r)" by (simp add: get_revocation_def)
  moreover from assms(4) have "is_key_revoked (foldl (key_revocation_step C) b later) k"
  proof
    assume "list_all (keeps_revocation k r b) later"
    from revocation_held_run [OF inv _ assms(3) this] assms(2) show ?thesis
      by (auto simp: revocation_held_def get_revocation_def is_key_revoked_def map_of_eq_None_iff [symmetric])
  next
    assume "\<forall>now. CleanupKeys now \<notin> set later"
    then show ?thesis
      using assms(2) by (intro revoked_run) (auto simp: get_revocation_def is_key_revoked_def)
  qed
  ultimately show ?thesis using inv by simp
qed

theorem revoked_until_expiry_witness:
  "is_key_revoked (foldl (key_revocation_step toy_crypto)
     (foldl (key_revocation_step toy_crypto) KeyRevocationBroadcaster_init
       [RevokeKey 1700000000 [] (replicate 32 1) 0 (NodeID []) None None])
     [RevokeKey 1700000009 [] (replicate 32 2) 0 (NodeID []) None None,
      ProcessKey 1700000010 \<lparr>kr_revoked_key = replicate 32 1, kr_reason = 0, kr_revoked_at = 1700000005,
        kr_revoker = NodeID [], kr_replacement = None, kr_cert = None, kr_signature = []\<rparr>,
      CleanupKeys 1731535999]) (replicate 32 1)"
proof -
  let ?r = "\<lparr>kr_revoked_key = replicate 32 1, kr_reason = 0, kr_revoked_at = 1700000000, kr_revoker = NodeID [],
    kr_replacement = None, kr_cert = None, kr_signature = []\<rparr>"
  show ?thesis
    by (rule revoked_until_expiry [of toy_crypto _ "replicate 32 1" ?r, THEN conjunct1])
      (simp_all add: revoke_key_def is_key_revoked_def get_revocation_def KeyRevocationBroadcaster_init_def
        store_key_revocation_def not_before_def key_revocation_expired_def Let_def)
qed

text \<open>
  An older record withdraws the newer one. A key is revoked here and now; a record for it dated
  364 days earlier arrives, is accepted and takes the place of the new one; the cleanup two days
  later finds it expired and drops it, so the key is valid again, although the record that
  revoked it is good for another 363 days.
\<close>

theorem older_record_unrevokes:
  "let old = \<lparr>kr_revoked_key = replicate 32 1, kr_reason = 0, kr_revoked_at = 1700000000 - 364 * 86400,
        kr_revoker = NodeID [], kr_replacement = None, kr_cert = None, kr_signature = []\<rparr>;
       old = sign_key_revocation (cr_sign toy_crypto (key_revocation_message old) []) old;
       b = snd (revoke_key 1700000000 [] (replicate 32 1) 0 (NodeID []) None None KeyRevocationBroadcaster_init);
       (ok, b') = process_key_revocation toy_crypto 1700000000 old b;
       now = 1700000000 + 2 * 86400
   in (case get_revocation b (replicate 32 1) of None \<Rightarrow> False | Some r \<Rightarrow> \<not> key_revocation_expired now b r) \<and>
      ok \<and> \<not> is_key_revoked (cleanup_expired_key_revocations now b') (replicate 32 1)"
  by code_simp

text \<open>
  Receiving is idempotent: a list that is processed again at the same time is refused in full and
  changes nothing.
\<close>

theorem key_list_idempotent:
  "process_key_revocation_list C now l (snd (process_key_revocation_list C now l b)) =
     (0, snd (process_key_revocation_list C now l b))"
  unfolding process_key_revocation_list_def
  by (rule process_all_refused) (simp add: refused_all)

text \<open>
  The formats round trip, also with bytes after them, except for one field: the signature of an
  attached rotation certificate is not sent, so it arrives as whatever was in memory.
\<close>

theorem key_revocation_roundtrip:
  assumes "wf_KeyRevocation r" "length (node_bytes (krl_source l)) = 32" "length (krl_signature l) = 64"
    and "length (krl_revocations l) < 2 ^ 32"
    and "list_all (\<lambda>r. wf_KeyRevocation r \<and> length (KeyRevocation_to_bytes r) < 2 ^ 32) (krl_revocations l)"
  shows "KeyRevocation_from_bytes junk (KeyRevocation_to_bytes r @ rest) = Some (arrived junk r) \<and>
    KeyRevocationList_from_bytes junk (KeyRevocationList_to_bytes l @ rest) =
      Some (l\<lparr>krl_revocations := map (arrived junk) (krl_revocations l)\<rparr>)"
proof -
  have "dec (enc x) = Some (f x)" if "dec = KeyRevocation_from_bytes junk" "enc = KeyRevocation_to_bytes" "f = arrived junk"
    "wf_KeyRevocation x" for x dec enc f
    using that KeyRevocation_codec [of x junk "[]"] by simp
  then have "read_records (KeyRevocation_from_bytes junk) (length (krl_revocations l))
      (concat (map (prefixed \<circ> KeyRevocation_to_bytes) (krl_revocations l)) @ t) =
      Some (map (arrived junk) (krl_revocations l), t)" for t
    using assms(5) by (intro read_records_prefixed) (auto simp: list_all_iff)
  moreover have "NodeID (node_bytes (krl_source l)) = krl_source l" by simp
  ultimately show ?thesis
    using assms KeyRevocation_codec [OF assms(1)]
    by (simp add: KeyRevocationList_from_bytes_def KeyRevocationList_to_bytes_def)
qed

definition sample_revocation :: KeyRevocation where
  "sample_revocation = \<lparr>kr_revoked_key = replicate 32 1, kr_reason = 3, kr_revoked_at = 1700000000,
     kr_revoker = NodeID (replicate 32 2), kr_replacement = Some (replicate 32 3),
     kr_cert = Some \<lparr>rc_old_public_key = replicate 32 1, rc_new_public_key = replicate 32 3,
       rc_timestamp = 1700000000, rc_signature = replicate 64 4, rc_reason = ''lost''\<rparr>,
     kr_signature = replicate 64 5\<rparr>"

lemma wf_sample_revocation: "wf_KeyRevocation sample_revocation" "length (KeyRevocation_to_bytes sample_revocation) < 2 ^ 32"
  by (simp_all add: wf_KeyRevocation_def sample_revocation_def wf_sent_cert_def KeyRevocation_to_bytes_def
      RotationCertificate_to_bytes_def Let_def)

theorem key_revocation_roundtrip_witness:
  "KeyRevocation_from_bytes (replicate 64 0) (KeyRevocation_to_bytes sample_revocation @ [9]) =
     Some (arrived (replicate 64 0) sample_revocation)"
  using key_revocation_roundtrip [of sample_revocation "\<lparr>krl_revocations = [sample_revocation], krl_timestamp = 5,
      krl_source = NodeID (replicate 32 6), krl_signature = replicate 64 7\<rparr>" "replicate 64 0" "[9]"]
    wf_sample_revocation by simp

text \<open>
  Anybody can take over a key. A record that names a replacement key is checked against that
  replacement key only, so whoever holds some key pair can have any key that is not yet in a
  record of the same time and reason revoked and replaced by his own.
\<close>

theorem key_takeover:
  assumes "cr_verify C (key_revocation_message r) (cr_sign C (key_revocation_message r) sk) pk"
    and "r = \<lparr>kr_revoked_key = victim, kr_reason = reason, kr_revoked_at = now, kr_revoker = n,
      kr_replacement = Some pk, kr_cert = None, kr_signature = sig\<rparr>"
    and "0 < unat (kb_expiry_days b * 24 * 3600)" "unat now + unat (kb_expiry_days b * 24 * 3600) < 2 ^ 64"
    and "unat now + 300 < 2 ^ 64" "KeyRevocation_get_id C r \<notin> set (kb_seen b)"
  shows "let s = sign_key_revocation (cr_sign C (key_revocation_message r) sk) r; b' = snd (process_key_revocation C now s b)
    in fst (process_key_revocation C now s b) \<and> is_key_revoked b' victim \<and> get_replacement_key b' victim = Some pk"
proof -
  let ?s = "sign_key_revocation (cr_sign C (key_revocation_message r) sk) r"
  have m: "key_revocation_message ?s = key_revocation_message r" "KeyRevocation_get_id C ?s = KeyRevocation_get_id C r"
    by (simp_all add: sign_key_revocation_def key_revocation_message_def KeyRevocation_get_id_def)
  have "verify_key_revocation C ?s"
    using assms(1) by (simp add: verify_key_revocation_def m) (simp add: sign_key_revocation_def assms(2))
  moreover have "unat (ucast w :: u64) = unat w" for w :: u32
  proof -
    have "unat w < 2 ^ LENGTH(32)" by (rule unsigned_less)
    then show ?thesis by (simp add: unsigned_ucast_eq take_bit_eq_mod)
  qed
  from this [of "kb_expiry_days b * 24 * 3600"] have "\<not> key_revocation_expired now b ?s"
    using assms(3,4) by (simp add: key_revocation_expired_def sign_key_revocation_def assms(2) word_le_nat_alt
        unat_plus_if_size word_size del: unsigned_ucast_eq)
  moreover have "\<not> now > now + 300"
    using assms(5) by (simp add: word_less_nat_alt unat_word_ariths)
  ultimately show ?thesis
    using assms(6) by (simp add: process_key_revocation_def m should_accept_key_revocation_def Let_def)
      (simp add: sign_key_revocation_def assms(2) is_key_revoked_def get_replacement_key_def store_key_revocation_def)
qed

theorem key_takeover_witness:
  "let r = \<lparr>kr_revoked_key = replicate 32 1, kr_reason = 0, kr_revoked_at = 1700000000, kr_revoker = NodeID (replicate 32 2),
        kr_replacement = Some (replicate 32 3), kr_cert = None, kr_signature = []\<rparr>;
      s = sign_key_revocation (cr_sign toy_crypto (key_revocation_message r) (replicate 64 4)) r
   in get_replacement_key (snd (process_key_revocation toy_crypto 1700000000 s KeyRevocationBroadcaster_init)) (replicate 32 1) =
        Some (replicate 32 3)"
proof -
  let ?r = "\<lparr>kr_revoked_key = replicate 32 1, kr_reason = 0, kr_revoked_at = 1700000000, kr_revoker = NodeID (replicate 32 2),
        kr_replacement = Some (replicate 32 3), kr_cert = None, kr_signature = []\<rparr>"
  show ?thesis
    using key_takeover [of toy_crypto ?r "replicate 64 4" "replicate 32 3" "replicate 32 1" 0 1700000000 "NodeID (replicate 32 2)" "[]"
        KeyRevocationBroadcaster_init]
    by (simp add: toy_crypto_def KeyRevocationBroadcaster_init_def Let_def)
qed

text \<open>A record with a rotation certificate is refused when it arrives, unless the bytes that happen to
  be in memory are a signature of the old key.\<close>

theorem rotation_record_refused:
  assumes "wf_KeyRevocation r" "kr_cert r = Some c" "KeyRevocation_from_bytes junk (KeyRevocation_to_bytes r) = Some r'"
    and "\<not> cr_verify C (rotation_message (rc_new_public_key c) (rc_timestamp c)) junk (rc_old_public_key c)"
  shows "process_key_revocation C now r' b = (False, b)"
proof -
  have "r' = arrived junk r" using KeyRevocation_codec [OF assms(1), of junk "[]"] assms(3) by simp
  with assms(2,4) show ?thesis
    by (simp add: process_key_revocation_def should_accept_key_revocation_def arrived_def RotationCertificate_verify_def Let_def)
qed

end
