(* ===== verification/Token_Revocation.thy ===== *)
theory Token_Revocation
  imports Access Key_Revocation
begin

text \<open>
  \<open>TokenRevocation\<close>, \<open>RevocationListUpdate\<close> and \<open>TokenRevocationManager\<close> of
  \<open>src/security/token_revocation.cpp\<close>: records that withdraw capability tokens, filed by identifier and
  indexed by node and by capability.

  The clock is the argument \<open>now\<close>, read once per operation. Capability and reason are bytes, since the
  decoder casts any byte; a token's capability is compared through its code. The signature of a
  local revocation and the source and signature of a new list, which the code leaves
  uninitialised, are arguments.
\<close>

section \<open>Data\<close>

record TokenRevocation =
  tv_node_id :: NodeID
  tv_capability :: u8
  tv_reason :: u8
  tv_revoked_at :: u64
  tv_revoker :: NodeID
  tv_context :: bytes
  tv_signature :: bytes

record RevocationListEntry =
  re_revocation :: TokenRevocation
  re_added_at :: u64
  re_witnesses :: "NodeID list"
  re_propagation_count :: u32

record RevocationListUpdate =
  ru_revocations :: "TokenRevocation list"
  ru_timestamp :: u64
  ru_source_node :: NodeID
  ru_signature :: bytes

record TokenRevocationManager =
  rm_revocations :: "(Hash256 \<times> RevocationListEntry) list"
  rm_by_node :: "(NodeID \<times> Hash256 list) list"
  rm_by_capability :: "(u8 \<times> Hash256 list) list"
  rm_seen :: "Hash256 list"
  rm_expiry_days :: u32
  rm_max_per_node :: u32
  rm_max_propagation :: u32

definition RevocationListEntry_new :: "u64 \<Rightarrow> TokenRevocation \<Rightarrow> RevocationListEntry" where
  "RevocationListEntry_new now r =
     \<lparr>re_revocation = r, re_added_at = now, re_witnesses = [], re_propagation_count = 0\<rparr>"

section \<open>Records\<close>

definition matches_token :: "TokenRevocation \<Rightarrow> CapabilityToken \<Rightarrow> bool" where
  "matches_token r t =
     (if tk_node_id t \<noteq> tv_node_id r then False
      else if capability_code (tk_capability t) \<noteq> tv_capability r then False
      else if tv_context r \<noteq> [] \<and> tk_context t \<noteq> [] \<and> tv_context r \<noteq> tk_context t then False
      else \<not> tk_issued_at t \<ge> tv_revoked_at r)"

definition TokenRevocation_to_bytes :: "TokenRevocation \<Rightarrow> bytes" where
  "TokenRevocation_to_bytes r =
     node_bytes (tv_node_id r) @ [tv_capability r] @ [tv_reason r] @ le_bytes 8 (tv_revoked_at r)
     @ node_bytes (tv_revoker r) @ le_bytes 4 (word_of_nat (length (tv_context r)) :: u32) @ tv_context r
     @ tv_signature r"

definition TokenRevocation_from_bytes :: "bytes \<Rightarrow> TokenRevocation option" where
  "TokenRevocation_from_bytes data =
     (if length data < 32 + 1 + 1 + 8 + 32 + 4 + 64 then None
      else
     case read_blob 32 data of None \<Rightarrow> None | Some (node, data) \<Rightarrow>
     case read_scalar 1 data of None \<Rightarrow> None | Some (cap :: u8, data) \<Rightarrow>
     case read_scalar 1 data of None \<Rightarrow> None | Some (reason :: u8, data) \<Rightarrow>
     case read_scalar 8 data of None \<Rightarrow> None | Some (at :: u64, data) \<Rightarrow>
     case read_blob 32 data of None \<Rightarrow> None | Some (revoker, data) \<Rightarrow>
     case read_scalar 4 data of None \<Rightarrow> None | Some (ctx_len :: u32, data) \<Rightarrow>
     case read_blob (unat ctx_len) data of None \<Rightarrow> None | Some (ctx, data) \<Rightarrow>
     case read_blob 64 data of None \<Rightarrow> None | Some (sig, data) \<Rightarrow>
       Some \<lparr>tv_node_id = NodeID node, tv_capability = cap, tv_reason = reason, tv_revoked_at = at,
         tv_revoker = NodeID revoker, tv_context = ctx, tv_signature = sig\<rparr>)"

text \<open>What the identifier is the hash of, and what a signature is over.\<close>

definition token_core :: "TokenRevocation \<Rightarrow> bytes" where
  "token_core r =
     node_bytes (tv_node_id r) @ [tv_capability r] @ [tv_reason r] @ le_bytes 8 (tv_revoked_at r)
     @ node_bytes (tv_revoker r) @ tv_context r"

definition TokenRevocation_get_id :: "crypto_lib \<Rightarrow> TokenRevocation \<Rightarrow> Hash256" where
  "TokenRevocation_get_id C r = cr_hash C (token_core r)"

definition verify_token_revocation :: "crypto_lib \<Rightarrow> TokenRevocation \<Rightarrow> bytes \<Rightarrow> bool" where
  "verify_token_revocation C r pk = cr_verify C (token_core r) (tv_signature r) pk"

definition sign_token_revocation :: "bytes \<Rightarrow> TokenRevocation \<Rightarrow> TokenRevocation" where
  "sign_token_revocation sig r = r\<lparr>tv_signature := sig\<rparr>"

definition RevocationListUpdate_to_bytes :: "RevocationListUpdate \<Rightarrow> bytes" where
  "RevocationListUpdate_to_bytes u =
     le_bytes 8 (ru_timestamp u) @ node_bytes (ru_source_node u)
     @ le_bytes 4 (word_of_nat (length (ru_revocations u)) :: u32)
     @ concat (map (prefixed \<circ> TokenRevocation_to_bytes) (ru_revocations u)) @ ru_signature u"

definition RevocationListUpdate_from_bytes :: "bytes \<Rightarrow> RevocationListUpdate option" where
  "RevocationListUpdate_from_bytes data =
     (if length data < 8 + 32 + 4 + 64 then None
      else
     case read_scalar 8 data of None \<Rightarrow> None | Some (ts :: u64, data) \<Rightarrow>
     case read_blob 32 data of None \<Rightarrow> None | Some (src, data) \<Rightarrow>
     case read_scalar 4 data of None \<Rightarrow> None | Some (count :: u32, data) \<Rightarrow>
     case read_records TokenRevocation_from_bytes (unat count) data of None \<Rightarrow> None | Some (revs, data) \<Rightarrow>
     case read_blob 64 data of None \<Rightarrow> None | Some (sig, data) \<Rightarrow>
       Some \<lparr>ru_revocations = revs, ru_timestamp = ts, ru_source_node = NodeID src, ru_signature = sig\<rparr>)"

section \<open>The manager\<close>

definition TokenRevocationManager_init :: TokenRevocationManager where
  "TokenRevocationManager_init = \<lparr>rm_revocations = [], rm_by_node = [], rm_by_capability = [], rm_seen = [],
     rm_expiry_days = 30, rm_max_per_node = 100, rm_max_propagation = 10\<rparr>"

definition set_token_expiry_days :: "u32 \<Rightarrow> TokenRevocationManager \<Rightarrow> TokenRevocationManager" where
  "set_token_expiry_days days m = m\<lparr>rm_expiry_days := days\<rparr>"

definition set_max_revocations_per_node :: "u32 \<Rightarrow> TokenRevocationManager \<Rightarrow> TokenRevocationManager" where
  "set_max_revocations_per_node n m = m\<lparr>rm_max_per_node := n\<rparr>"

definition add_revocation_to_indexes :: "Hash256 \<Rightarrow> TokenRevocation \<Rightarrow> TokenRevocationManager \<Rightarrow> TokenRevocationManager" where
  "add_revocation_to_indexes h r m =
     m\<lparr>rm_by_node := omap_set (tv_node_id r)
         (oset_insert h (opt_or [] (map_of (rm_by_node m) (tv_node_id r)))) (rm_by_node m),
       rm_by_capability := omap_set (tv_capability r)
         (oset_insert h (opt_or [] (map_of (rm_by_capability m) (tv_capability r)))) (rm_by_capability m)\<rparr>"

text \<open>Erasing an identifier from an index, and the entry with it when it becomes empty.\<close>

definition index_erase :: "'k::linorder \<Rightarrow> Hash256 \<Rightarrow> ('k \<times> Hash256 list) list \<Rightarrow> ('k \<times> Hash256 list) list" where
  "index_erase k h ix =
     (case map_of ix k of
        None \<Rightarrow> ix
      | Some hs \<Rightarrow> if oset_erase h hs = [] then omap_erase k ix else omap_set k (oset_erase h hs) ix)"

definition remove_revocation_from_indexes :: "Hash256 \<Rightarrow> TokenRevocation \<Rightarrow> TokenRevocationManager \<Rightarrow> TokenRevocationManager" where
  "remove_revocation_from_indexes h r m =
     m\<lparr>rm_by_node := index_erase (tv_node_id r) h (rm_by_node m),
       rm_by_capability := index_erase (tv_capability r) h (rm_by_capability m),
       rm_seen := oset_erase h (rm_seen m)\<rparr>"

text \<open>The test that a node has reached its limit.\<close>

definition too_many_revocations :: "TokenRevocationManager \<Rightarrow> NodeID \<Rightarrow> bool" where
  "too_many_revocations m n =
     (case map_of (rm_by_node m) n of None \<Rightarrow> False | Some hs \<Rightarrow> length hs \<ge> unat (rm_max_per_node m))"

definition store_revocation :: "Hash256 \<Rightarrow> RevocationListEntry \<Rightarrow> TokenRevocationManager \<Rightarrow> TokenRevocationManager" where
  "store_revocation h e m =
     add_revocation_to_indexes h (re_revocation e) (m\<lparr>rm_revocations := omap_set h e (rm_revocations m)\<rparr>)"

definition revoke_token :: "crypto_lib \<Rightarrow> u64 \<Rightarrow> bytes \<Rightarrow> NodeID \<Rightarrow> u8 \<Rightarrow> u8 \<Rightarrow> NodeID \<Rightarrow> bytes \<Rightarrow> TokenRevocationManager
    \<Rightarrow> TokenRevocation option \<times> TokenRevocationManager" where
  "revoke_token C now junk_sig n cap reason revoker ctx m =
     (let r = \<lparr>tv_node_id = n, tv_capability = cap, tv_reason = reason, tv_revoked_at = now,
               tv_revoker = revoker, tv_context = ctx, tv_signature = junk_sig\<rparr> in
      if too_many_revocations m n then (None, m)
      else (Some r, store_revocation (TokenRevocation_get_id C r) (RevocationListEntry_new now r) m))"

text \<open>The records an index entry leads to, in the order of the set.\<close>

definition indexed_revocations :: "TokenRevocationManager \<Rightarrow> NodeID \<Rightarrow> TokenRevocation list" where
  "indexed_revocations m n =
     (case map_of (rm_by_node m) n of
        None \<Rightarrow> []
      | Some hs \<Rightarrow> map re_revocation (List.map_filter (map_of (rm_revocations m)) hs))"

definition is_token_revoked :: "TokenRevocationManager \<Rightarrow> CapabilityToken \<Rightarrow> bool" where
  "is_token_revoked m t = list_ex (\<lambda>r. matches_token r t) (indexed_revocations m (tk_node_id t))"

definition has_revocations :: "TokenRevocationManager \<Rightarrow> NodeID \<Rightarrow> u8 \<Rightarrow> bool" where
  "has_revocations m n cap = list_ex (\<lambda>r. tv_capability r = cap) (indexed_revocations m n)"

definition get_revocations_for :: "TokenRevocationManager \<Rightarrow> NodeID \<Rightarrow> TokenRevocation list" where
  "get_revocations_for m n = indexed_revocations m n"

definition get_recent_token_revocations :: "TokenRevocationManager \<Rightarrow> u64 \<Rightarrow> nat \<Rightarrow> TokenRevocation list" where
  "get_recent_token_revocations m since max_count =
     recent_loop (\<lambda>r. tv_revoked_at r \<ge> since) max_count (map (re_revocation \<circ> snd) (rm_revocations m)) []"

definition token_revocation_expired :: "u64 \<Rightarrow> TokenRevocationManager \<Rightarrow> TokenRevocation \<Rightarrow> bool" where
  "token_revocation_expired now m r \<longleftrightarrow>
     now \<ge> tv_revoked_at r + (ucast (rm_expiry_days m * 24 * 3600) :: u64)"

definition should_accept_token_revocation :: "u64 \<Rightarrow> TokenRevocationManager \<Rightarrow> TokenRevocation \<Rightarrow> bool" where
  "should_accept_token_revocation now m r =
     (if token_revocation_expired now m r then False
      else if tv_revoked_at r > now + 300 then False
      else \<not> too_many_revocations m (tv_node_id r))"

definition process_token_revocation :: "crypto_lib \<Rightarrow> u64 \<Rightarrow> NodeID \<Rightarrow> TokenRevocation \<Rightarrow> TokenRevocationManager
    \<Rightarrow> bool \<times> TokenRevocationManager" where
  "process_token_revocation C now source r m =
     (let h = TokenRevocation_get_id C r in
      if h \<in> set (rm_seen m) then (False, m)
      else if \<not> should_accept_token_revocation now m r then (False, m)
      else (True, store_revocation h ((RevocationListEntry_new now r)\<lparr>re_witnesses := [source]\<rparr>)
              (m\<lparr>rm_seen := oset_insert h (rm_seen m)\<rparr>)))"

fun process_token_revocations :: "crypto_lib \<Rightarrow> u64 \<Rightarrow> NodeID \<Rightarrow> TokenRevocation list \<Rightarrow> nat \<Rightarrow> TokenRevocationManager
    \<Rightarrow> nat \<times> TokenRevocationManager" where
  "process_token_revocations C now source [] accepted m = (accepted, m)"
| "process_token_revocations C now source (r # rs) accepted m =
     (case process_token_revocation C now source r m of
        (ok, m') \<Rightarrow> process_token_revocations C now source rs (if ok then accepted + 1 else accepted) m')"

definition process_token_revocation_list :: "crypto_lib \<Rightarrow> u64 \<Rightarrow> RevocationListUpdate \<Rightarrow> TokenRevocationManager
    \<Rightarrow> nat \<times> TokenRevocationManager" where
  "process_token_revocation_list C now u m =
     process_token_revocations C now (ru_source_node u) (ru_revocations u) 0 m"

definition create_token_revocation_list :: "u64 \<Rightarrow> NodeID \<Rightarrow> bytes \<Rightarrow> bool \<Rightarrow> TokenRevocationManager \<Rightarrow> RevocationListUpdate" where
  "create_token_revocation_list now src sig include_all m =
     \<lparr>ru_revocations = (if include_all then map (re_revocation \<circ> snd) (rm_revocations m)
        else get_recent_token_revocations m (now - 3600) 100),
      ru_timestamp = now, ru_source_node = src, ru_signature = sig\<rparr>"

definition token_revocation_count :: "TokenRevocationManager \<Rightarrow> nat" where
  "token_revocation_count m = length (rm_revocations m)"

definition expired_token_revocation_count :: "u64 \<Rightarrow> TokenRevocationManager \<Rightarrow> nat" where
  "expired_token_revocation_count now m =
     length (filter (\<lambda>p. token_revocation_expired now m (re_revocation (snd p))) (rm_revocations m))"

definition drop_revocation :: "Hash256 \<Rightarrow> TokenRevocationManager \<Rightarrow> TokenRevocationManager" where
  "drop_revocation h m =
     (case map_of (rm_revocations m) h of
        None \<Rightarrow> m
      | Some e \<Rightarrow> (remove_revocation_from_indexes h (re_revocation e) m)
          \<lparr>rm_revocations := omap_erase h (rm_revocations m)\<rparr>)"

definition cleanup_expired_token_revocations :: "u64 \<Rightarrow> TokenRevocationManager \<Rightarrow> TokenRevocationManager" where
  "cleanup_expired_token_revocations now m =
     fold drop_revocation (map fst (filter (\<lambda>p. token_revocation_expired now m (re_revocation (snd p)))
       (rm_revocations m))) m"

definition revocation_reason_to_string :: "u8 \<Rightarrow> string" where
  "revocation_reason_to_string reason =
     (if reason = 0 then ''Manual revocation'' else if reason = 1 then ''Compromised key''
      else if reason = 2 then ''Policy violation'' else if reason = 3 then ''Abuse detected''
      else if reason = 4 then ''Expired credentials'' else if reason = 5 then ''Network removal''
      else if reason = 6 then ''Reputation loss'' else ''Unknown'')"

section \<open>Lemmas\<close>

subsection \<open>Formats\<close>

definition wf_TokenRevocation :: "TokenRevocation \<Rightarrow> bool" where
  "wf_TokenRevocation r \<longleftrightarrow> length (node_bytes (tv_node_id r)) = 32 \<and> length (node_bytes (tv_revoker r)) = 32 \<and>
     length (tv_signature r) = 64 \<and> length (tv_context r) < 2 ^ 32"

lemma TokenRevocation_codec:
  assumes "wf_TokenRevocation r"
  shows "TokenRevocation_from_bytes (TokenRevocation_to_bytes r @ rest) = Some r"
proof -
  have "NodeID (node_bytes (tv_node_id r)) = tv_node_id r" "NodeID (node_bytes (tv_revoker r)) = tv_revoker r"
    by simp_all
  with assms show ?thesis
    by (simp add: TokenRevocation_from_bytes_def TokenRevocation_to_bytes_def wf_TokenRevocation_def)
qed

interpretation tokenrevc: trailing_codec TokenRevocation_to_bytes TokenRevocation_from_bytes wf_TokenRevocation
  by unfold_locales (rule TokenRevocation_codec)

definition wf_ids :: "TokenRevocation \<Rightarrow> bool" where
  "wf_ids r \<longleftrightarrow> length (node_bytes (tv_node_id r)) = 32 \<and> length (node_bytes (tv_revoker r)) = 32"

lemma token_core_inject:
  assumes "wf_ids r" "wf_ids r'" "token_core r = token_core r'"
  shows "tv_node_id r = tv_node_id r' \<and> tv_capability r = tv_capability r' \<and> tv_reason r = tv_reason r' \<and>
    tv_revoked_at r = tv_revoked_at r' \<and> tv_revoker r = tv_revoker r' \<and> tv_context r = tv_context r'"
proof -
  have "le_bytes 8 (tv_revoked_at r) = le_bytes 8 (tv_revoked_at r') \<Longrightarrow> tv_revoked_at r = tv_revoked_at r'"
    by (metis le_word_le_bytes_u64)
  with assms show ?thesis by (auto simp: token_core_def wf_ids_def NodeID.expand)
qed

subsection \<open>The indexes\<close>

definition index_at :: "('k \<times> Hash256 list) list \<Rightarrow> 'k \<Rightarrow> Hash256 list" where
  "index_at ix k = opt_or [] (map_of ix k)"

lemma index_at_insert:
  "h' \<in> set (index_at (omap_set k (oset_insert h (opt_or [] (map_of ix k))) ix) k') \<longleftrightarrow>
     (k' = k \<and> h' = h) \<or> h' \<in> set (index_at ix k')"
  by (auto simp: index_at_def)

lemma index_at_erase:
  "h' \<in> set (index_at (index_erase k h ix) k') \<longleftrightarrow> h' \<in> set (index_at ix k') \<and> \<not> (k' = k \<and> h' = h)"
proof (cases "map_of ix k")
  case None
  then show ?thesis by (auto simp: index_at_def index_erase_def)
next
  case (Some hs)
  have "oset_erase h hs = [] \<longleftrightarrow> (\<forall>x \<in> set hs. x = h)" by (auto simp: oset_erase_def filter_empty_conv)
  then show ?thesis using Some by (auto simp: index_at_def index_erase_def)
qed

lemma index_ok_erase: "omap_ok ix \<Longrightarrow> omap_ok (index_erase k h ix)"
  by (auto simp: index_erase_def split: option.split)

lemma index_sets_erase:
  "(\<And>k. oset_ok (index_at ix k)) \<Longrightarrow> oset_ok (index_at (index_erase k h ix) k')"
proof (cases "map_of ix k")
  case (Some hs)
  assume *: "\<And>k. oset_ok (index_at ix k)"
  from * [of k] * [of k'] Some show ?thesis by (auto simp: index_at_def index_erase_def)
qed (simp add: index_erase_def)

subsection \<open>The invariant\<close>

text \<open>No two records of \<open>R\<close> with different contents have the same hash.\<close>

definition collision_free :: "crypto_lib \<Rightarrow> TokenRevocation set \<Rightarrow> bool" where
  "collision_free C R \<longleftrightarrow> inj_on (cr_hash C) (token_core ` R) \<and> (\<forall>r \<in> R. wf_ids r)"

lemma collision_freeD:
  assumes "collision_free C R" "r \<in> R" "r' \<in> R" "TokenRevocation_get_id C r = TokenRevocation_get_id C r'"
  shows "tv_node_id r = tv_node_id r'" "tv_capability r = tv_capability r'" "matches_token r = matches_token r'"
    "token_revocation_expired now m r = token_revocation_expired now m r'"
proof -
  have "token_core r = token_core r'"
    using assms by (auto simp: collision_free_def TokenRevocation_get_id_def inj_on_def)
  then have "tv_node_id r = tv_node_id r' \<and> tv_capability r = tv_capability r' \<and> tv_reason r = tv_reason r' \<and>
    tv_revoked_at r = tv_revoked_at r' \<and> tv_revoker r = tv_revoker r' \<and> tv_context r = tv_context r'"
    using assms(1-3) by (intro token_core_inject) (auto simp: collision_free_def)
  then show "tv_node_id r = tv_node_id r'" "tv_capability r = tv_capability r'" "matches_token r = matches_token r'"
    "token_revocation_expired now m r = token_revocation_expired now m r'"
    by (simp_all add: fun_eq_iff matches_token_def token_revocation_expired_def)
qed

definition rm_inv :: "crypto_lib \<Rightarrow> TokenRevocation set \<Rightarrow> TokenRevocationManager \<Rightarrow> bool" where
  "rm_inv C R m \<longleftrightarrow> omap_ok (rm_revocations m) \<and> omap_ok (rm_by_node m) \<and> omap_ok (rm_by_capability m) \<and>
     (\<forall>n. oset_ok (index_at (rm_by_node m) n)) \<and>
     (\<forall>h e. map_of (rm_revocations m) h = Some e \<longrightarrow> h = TokenRevocation_get_id C (re_revocation e) \<and> re_revocation e \<in> R) \<and>
     (\<forall>n h. h \<in> set (index_at (rm_by_node m) n) \<longleftrightarrow>
        (\<exists>e. map_of (rm_revocations m) h = Some e \<and> tv_node_id (re_revocation e) = n)) \<and>
     (\<forall>c h. h \<in> set (index_at (rm_by_capability m) c) \<longleftrightarrow>
        (\<exists>e. map_of (rm_revocations m) h = Some e \<and> tv_capability (re_revocation e) = c))"

lemma rm_inv_store:
  assumes "rm_inv C R m" "collision_free C R" "re_revocation e \<in> R" "h = TokenRevocation_get_id C (re_revocation e)"
  shows "rm_inv C R (store_revocation h e m)"
proof -
  let ?r = "re_revocation e"
  have same: "tv_node_id (re_revocation e') = tv_node_id ?r" "tv_capability (re_revocation e') = tv_capability ?r"
    if "map_of (rm_revocations m) h = Some e'" for e'
  proof -
    have "h = TokenRevocation_get_id C (re_revocation e')" "re_revocation e' \<in> R"
      using that assms(1) unfolding rm_inv_def by blast+
    from collision_freeD(1,2) [OF assms(2) this(2) assms(3)] this(1) assms(4)
    show "tv_node_id (re_revocation e') = tv_node_id ?r" "tv_capability (re_revocation e') = tv_capability ?r"
      by simp_all
  qed
  have revs: "map_of (rm_revocations (store_revocation h e m)) = (map_of (rm_revocations m))(h \<mapsto> e)"
    by (simp add: store_revocation_def add_revocation_to_indexes_def)
  have nodes: "h' \<in> set (index_at (rm_by_node (store_revocation h e m)) n) \<longleftrightarrow>
      (n = tv_node_id ?r \<and> h' = h) \<or> h' \<in> set (index_at (rm_by_node m) n)" for h' n
    by (simp add: store_revocation_def add_revocation_to_indexes_def index_at_insert)
  have caps: "h' \<in> set (index_at (rm_by_capability (store_revocation h e m)) c) \<longleftrightarrow>
      (c = tv_capability ?r \<and> h' = h) \<or> h' \<in> set (index_at (rm_by_capability m) c)" for h' c
    by (simp add: store_revocation_def add_revocation_to_indexes_def index_at_insert)
  have sets: "oset_ok (index_at (rm_by_node (store_revocation h e m)) n)" for n
    using assms(1) by (auto simp: rm_inv_def store_revocation_def add_revocation_to_indexes_def index_at_def)
  have "omap_ok (rm_revocations (store_revocation h e m))" "omap_ok (rm_by_node (store_revocation h e m))"
    "omap_ok (rm_by_capability (store_revocation h e m))"
    using assms(1) by (simp_all add: rm_inv_def store_revocation_def add_revocation_to_indexes_def)
  with assms(1,3,4) sets same show ?thesis
    unfolding rm_inv_def revs nodes caps by auto
qed

lemma rm_inv_drop:
  assumes "rm_inv C R m"
  shows "rm_inv C R (drop_revocation h m)"
proof (cases "map_of (rm_revocations m) h")
  case None
  then show ?thesis using assms by (simp add: drop_revocation_def)
next
  case (Some e)
  let ?m = "drop_revocation h m" and ?r = "re_revocation e"
  have revs: "map_of (rm_revocations ?m) = (map_of (rm_revocations m))(h := None)"
    by (simp add: drop_revocation_def Some)
  have nodes: "h' \<in> set (index_at (rm_by_node ?m) n) \<longleftrightarrow>
      h' \<in> set (index_at (rm_by_node m) n) \<and> \<not> (n = tv_node_id ?r \<and> h' = h)" for h' n
    by (simp add: drop_revocation_def Some remove_revocation_from_indexes_def index_at_erase)
  have caps: "h' \<in> set (index_at (rm_by_capability ?m) c) \<longleftrightarrow>
      h' \<in> set (index_at (rm_by_capability m) c) \<and> \<not> (c = tv_capability ?r \<and> h' = h)" for h' c
    by (simp add: drop_revocation_def Some remove_revocation_from_indexes_def index_at_erase)
  have sets: "oset_ok (index_at (rm_by_node ?m) n)" for n
    using assms by (simp add: rm_inv_def drop_revocation_def Some remove_revocation_from_indexes_def)
      (intro index_sets_erase, blast)
  have "omap_ok (rm_revocations ?m)" "omap_ok (rm_by_node ?m)" "omap_ok (rm_by_capability ?m)"
    using assms by (simp_all add: rm_inv_def drop_revocation_def Some remove_revocation_from_indexes_def index_ok_erase)
  with assms sets Some show ?thesis
    unfolding rm_inv_def revs nodes caps by auto
qed

lemma rm_inv_drop_all: "rm_inv C R m \<Longrightarrow> rm_inv C R (fold drop_revocation hs m)"
  by (induction hs arbitrary: m) (auto intro: rm_inv_drop)

lemma rm_inv_frame [simp]:
  "rm_inv C R (m\<lparr>rm_seen := s\<rparr>) = rm_inv C R m"
  "rm_inv C R (m\<lparr>rm_expiry_days := d\<rparr>) = rm_inv C R m"
  "rm_inv C R (m\<lparr>rm_max_per_node := k\<rparr>) = rm_inv C R m"
  by (simp_all add: rm_inv_def)

lemma rm_inv_process:
  "rm_inv C R m \<Longrightarrow> collision_free C R \<Longrightarrow> r \<in> R \<Longrightarrow> rm_inv C R (snd (process_token_revocation C now src r m))"
  by (auto simp: process_token_revocation_def Let_def RevocationListEntry_new_def intro!: rm_inv_store)

lemma rm_inv_process_all:
  "rm_inv C R m \<Longrightarrow> collision_free C R \<Longrightarrow> set rs \<subseteq> R \<Longrightarrow> rm_inv C R (snd (process_token_revocations C now src rs k m))"
proof (induction rs arbitrary: k m)
  case (Cons r rs)
  from rm_inv_process [OF Cons.prems(1,2), of r now src] Cons show ?case by (auto split: prod.split)
qed simp

subsection \<open>Sequences of operations\<close>

datatype token_op =
    RevokeToken u64 bytes NodeID u8 u8 NodeID bytes
  | ProcessToken u64 NodeID TokenRevocation
  | ProcessTokenList u64 RevocationListUpdate
  | SetTokenExpiry u32
  | SetTokenMax u32
  | CleanupTokens u64

fun token_step :: "crypto_lib \<Rightarrow> TokenRevocationManager \<Rightarrow> token_op \<Rightarrow> TokenRevocationManager" where
  "token_step C m (RevokeToken now sig n cap reason revoker ctx) = snd (revoke_token C now sig n cap reason revoker ctx m)"
| "token_step C m (ProcessToken now src r) = snd (process_token_revocation C now src r m)"
| "token_step C m (ProcessTokenList now u) = snd (process_token_revocation_list C now u m)"
| "token_step C m (SetTokenExpiry d) = set_token_expiry_days d m"
| "token_step C m (SetTokenMax k) = set_max_revocations_per_node k m"
| "token_step C m (CleanupTokens now) = cleanup_expired_token_revocations now m"

text \<open>The records an operation may store.\<close>

fun op_records :: "token_op \<Rightarrow> TokenRevocation set" where
  "op_records (RevokeToken now sig n cap reason revoker ctx) =
     {\<lparr>tv_node_id = n, tv_capability = cap, tv_reason = reason, tv_revoked_at = now,
       tv_revoker = revoker, tv_context = ctx, tv_signature = sig\<rparr>}"
| "op_records (ProcessToken now src r) = {r}"
| "op_records (ProcessTokenList now u) = set (ru_revocations u)"
| "op_records _ = {}"

lemma rm_inv_step:
  assumes "rm_inv C R m" "collision_free C R" "op_records x \<subseteq> R"
  shows "rm_inv C R (token_step C m x)"
  using assms
  by (cases x) (auto simp: revoke_token_def Let_def RevocationListEntry_new_def rm_inv_process rm_inv_process_all
      process_token_revocation_list_def set_token_expiry_days_def set_max_revocations_per_node_def
      cleanup_expired_token_revocations_def rm_inv_drop_all intro!: rm_inv_store)

lemma rm_inv_run:
  assumes "rm_inv C R m" "collision_free C R" "(\<Union>x \<in> set xs. op_records x) \<subseteq> R"
  shows "rm_inv C R (foldl (token_step C) m xs)"
  using assms
proof (induction xs arbitrary: m)
  case (Cons x xs)
  have "rm_inv C R (token_step C m x)" using Cons.prems by (intro rm_inv_step) auto
  with Cons show ?case by simp
qed simp

lemma rm_inv_init [simp]: "rm_inv C R TokenRevocationManager_init"
  by (simp add: rm_inv_def TokenRevocationManager_init_def index_at_def)

lemma indexed_scan:
  assumes "rm_inv C R m"
  shows "r \<in> set (indexed_revocations m n) \<longleftrightarrow>
    (\<exists>h e. map_of (rm_revocations m) h = Some e \<and> re_revocation e = r \<and> tv_node_id r = n)"
proof -
  have "r \<in> set (indexed_revocations m n) \<longleftrightarrow>
      (\<exists>h e. h \<in> set (index_at (rm_by_node m) n) \<and> map_of (rm_revocations m) h = Some e \<and> re_revocation e = r)"
  proof -
    have "set (List.map_filter f xs) = {y. \<exists>x \<in> set xs. f x = Some y}" for f :: "Hash256 \<Rightarrow> RevocationListEntry option" and xs
      by (force simp: List.map_filter_def image_iff)
    then show ?thesis
      by (cases "map_of (rm_by_node m) n") (auto simp: indexed_revocations_def index_at_def)
  qed
  also have "\<dots> \<longleftrightarrow> (\<exists>h e. map_of (rm_revocations m) h = Some e \<and> re_revocation e = r \<and> tv_node_id r = n)"
  proof -
    have ix: "h \<in> set (index_at (rm_by_node m) n) \<longleftrightarrow>
        (\<exists>e. map_of (rm_revocations m) h = Some e \<and> tv_node_id (re_revocation e) = n)" for h
      using assms unfolding rm_inv_def by blast
    show ?thesis unfolding ix by fastforce
  qed
  finally show ?thesis .
qed

lemma is_token_revoked_scan:
  assumes "rm_inv C R m"
  shows "is_token_revoked m t \<longleftrightarrow>
    (\<exists>h e. map_of (rm_revocations m) h = Some e \<and> matches_token (re_revocation e) t)"
proof -
  have "matches_token r t \<Longrightarrow> tv_node_id r = tk_node_id t" for r by (simp add: matches_token_def split: if_splits)
  then show ?thesis unfolding is_token_revoked_def list_ex_iff Bex_def indexed_scan [OF assms] by blast
qed

lemma has_revocations_scan:
  assumes "rm_inv C R m"
  shows "has_revocations m n c \<longleftrightarrow> (\<exists>h e. map_of (rm_revocations m) h = Some e \<and>
    tv_node_id (re_revocation e) = n \<and> tv_capability (re_revocation e) = c)"
  unfolding has_revocations_def list_ex_iff Bex_def indexed_scan [OF assms] by blast

text \<open>The entries after storing and dropping.\<close>

lemma find_store: "map_of (rm_revocations (store_revocation h e m)) = (map_of (rm_revocations m))(h \<mapsto> e)"
  by (simp add: store_revocation_def add_revocation_to_indexes_def)

lemma find_drop_all:
  "map_of (rm_revocations (fold drop_revocation hs m)) h =
     (if h \<in> set hs then None else map_of (rm_revocations m) h)"
proof (induction hs arbitrary: m)
  case (Cons h' hs)
  have "map_of (rm_revocations (drop_revocation h' m)) = (map_of (rm_revocations m))(h' := None)"
    by (auto simp: drop_revocation_def fun_eq_iff split: option.split)
  with Cons show ?case by simp
qed simp

text \<open>What a token matches only grows as long as nothing is cleaned up.\<close>

definition token_hit :: "TokenRevocationManager \<Rightarrow> CapabilityToken \<Rightarrow> bool" where
  "token_hit m t \<longleftrightarrow> (\<exists>h e. map_of (rm_revocations m) h = Some e \<and> matches_token (re_revocation e) t)"

lemma token_hit_store:
  assumes "token_hit m t" "rm_inv C R m" "collision_free C R" "re_revocation e \<in> R"
    and "h = TokenRevocation_get_id C (re_revocation e)"
  shows "token_hit (store_revocation h e m) t"
proof -
  obtain h' e' where e': "map_of (rm_revocations m) h' = Some e'" "matches_token (re_revocation e') t"
    using assms(1) by (auto simp: token_hit_def)
  show ?thesis
  proof (cases "h' = h")
    case True
    have "h' = TokenRevocation_get_id C (re_revocation e')" "re_revocation e' \<in> R"
      using e'(1) assms(2) unfolding rm_inv_def by blast+
    with collision_freeD(3) [OF assms(3) this(2) assms(4)] assms(5) True e'(2)
    have "matches_token (re_revocation e) t" by simp
    then show ?thesis unfolding token_hit_def find_store by (intro exI [of _ h] exI [of _ e]) simp
  next
    case False
    with e' show ?thesis unfolding token_hit_def find_store by (intro exI [of _ h'] exI [of _ e']) simp
  qed
qed

lemma token_hit_frame [simp]:
  "token_hit (m\<lparr>rm_seen := s\<rparr>) t = token_hit m t"
  "token_hit (m\<lparr>rm_expiry_days := d\<rparr>) t = token_hit m t"
  "token_hit (m\<lparr>rm_max_per_node := k\<rparr>) t = token_hit m t"
  by (simp_all add: token_hit_def)

lemma token_hit_process:
  "token_hit m t \<Longrightarrow> rm_inv C R m \<Longrightarrow> collision_free C R \<Longrightarrow> r \<in> R \<Longrightarrow>
   token_hit (snd (process_token_revocation C now src r m)) t"
  by (auto simp: process_token_revocation_def Let_def RevocationListEntry_new_def intro!: token_hit_store)

lemma token_hit_process_all:
  "token_hit m t \<Longrightarrow> rm_inv C R m \<Longrightarrow> collision_free C R \<Longrightarrow> set rs \<subseteq> R \<Longrightarrow>
   token_hit (snd (process_token_revocations C now src rs k m)) t"
proof (induction rs arbitrary: k m)
  case (Cons r rs)
  from token_hit_process [OF Cons.prems(1-3), of r now src] rm_inv_process [OF Cons.prems(2,3), of r now src] Cons
  show ?case by (auto split: prod.split)
qed simp

lemma token_hit_step:
  assumes "token_hit m t" "rm_inv C R m" "collision_free C R" "op_records x \<subseteq> R" "\<And>now. x \<noteq> CleanupTokens now"
  shows "token_hit (token_step C m x) t"
  using assms
  by (cases x) (auto simp: revoke_token_def Let_def RevocationListEntry_new_def token_hit_process token_hit_process_all
      process_token_revocation_list_def set_token_expiry_days_def set_max_revocations_per_node_def
      intro!: token_hit_store)

lemma token_hit_run:
  assumes "token_hit m t" "rm_inv C R m" "collision_free C R" "(\<Union>x \<in> set xs. op_records x) \<subseteq> R"
    and "\<And>now. CleanupTokens now \<notin> set xs"
  shows "token_hit (foldl (token_step C) m xs) t"
  using assms
proof (induction xs arbitrary: m)
  case (Cons x xs)
  have "token_hit (token_step C m x) t" "rm_inv C R (token_step C m x)"
    using Cons.prems by (auto intro!: token_hit_step rm_inv_step)
  with Cons show ?case by simp
qed simp

section \<open>Properties\<close>

text \<open>
  C40: After every sequence of operations in which no two different records collide under BLAKE3, the
  queries through the node index agree with a scan of all stored records: a token is revoked
  exactly when some record matches it, and a node has revocations for a capability exactly when
  some record names both.
\<close>

theorem token_index_exact:
  fixes C ops
  assumes "collision_free C (\<Union>x \<in> set ops. op_records x)"
  defines "m \<equiv> foldl (token_step C) TokenRevocationManager_init ops"
  shows "(is_token_revoked m t \<longleftrightarrow>
      (\<exists>h e. map_of (rm_revocations m) h = Some e \<and> matches_token (re_revocation e) t)) \<and>
    (has_revocations m n c \<longleftrightarrow> (\<exists>h e. map_of (rm_revocations m) h = Some e \<and>
      tv_node_id (re_revocation e) = n \<and> tv_capability (re_revocation e) = c))"
proof -
  have inv: "rm_inv C (\<Union>x \<in> set ops. op_records x) m"
    unfolding m_def by (rule rm_inv_run) (simp_all add: assms(1))
  show ?thesis using is_token_revoked_scan [OF inv] has_revocations_scan [OF inv] by blast
qed

definition sample_ops :: "token_op list" where
  "sample_ops = [RevokeToken 1700000000 [] (NodeID (replicate 32 1)) 6 0 (NodeID (replicate 32 2)) []]"

definition sample_token :: CapabilityToken where
  "sample_token = \<lparr>tk_node_id = NodeID (replicate 32 1), tk_capability = HOST_THINGS, tk_issued_at = 1690000000,
     tk_expires_at = 1790000000, tk_context = [], tk_signature = []\<rparr>"

lemma sample_ops_ok: "collision_free toy_crypto (\<Union>x \<in> set sample_ops. op_records x)"
  by (simp add: collision_free_def sample_ops_def wf_ids_def)

lemma sample_ops_hit: "token_hit (foldl (token_step toy_crypto) TokenRevocationManager_init sample_ops) sample_token"
  unfolding token_hit_def
  by (simp add: sample_ops_def revoke_token_def Let_def too_many_revocations_def TokenRevocationManager_init_def
      find_store) (simp add: matches_token_def RevocationListEntry_new_def sample_token_def)

theorem token_index_exact_witness:
  "is_token_revoked (foldl (token_step toy_crypto) TokenRevocationManager_init sample_ops) sample_token"
  using token_index_exact [OF sample_ops_ok, of sample_token] sample_ops_hit by (simp add: token_hit_def)

text \<open>
  A revoked token stays revoked through every sequence of operations without a cleanup, and a
  cleanup lifts exactly the revocations whose records have all expired.
\<close>

theorem token_stays_revoked:
  fixes C ops later
  assumes "collision_free C (\<Union>x \<in> set (ops @ later). op_records x)" "\<And>now. CleanupTokens now \<notin> set later"
  defines "m \<equiv> foldl (token_step C) TokenRevocationManager_init ops"
  shows "(is_token_revoked m t \<longrightarrow> is_token_revoked (foldl (token_step C) m later) t) \<and>
    (is_token_revoked (cleanup_expired_token_revocations now m) t \<longleftrightarrow>
       (\<exists>h e. map_of (rm_revocations m) h = Some e \<and> \<not> token_revocation_expired now m (re_revocation e) \<and>
          matches_token (re_revocation e) t))"
proof -
  let ?R = "\<Union>x \<in> set (ops @ later). op_records x"
  have inv: "rm_inv C ?R m" unfolding m_def by (rule rm_inv_run) (use assms(1) in auto)
  have inv': "rm_inv C ?R (foldl (token_step C) m later)" by (rule rm_inv_run [OF inv assms(1)]) auto
  have stays: "token_hit m t \<Longrightarrow> token_hit (foldl (token_step C) m later) t"
    by (rule token_hit_run [OF _ inv assms(1)]) (use assms(2) in auto)
  let ?m = "cleanup_expired_token_revocations now m"
  have inv2: "rm_inv C ?R ?m"
    unfolding cleanup_expired_token_revocations_def by (rule rm_inv_drop_all [OF inv])
  have ok: "omap_ok (rm_revocations m)" using inv by (simp add: rm_inv_def)
  have find: "map_of (rm_revocations ?m) h = Some e \<longleftrightarrow>
      map_of (rm_revocations m) h = Some e \<and> \<not> token_revocation_expired now m (re_revocation e)" for h e
    unfolding cleanup_expired_token_revocations_def find_drop_all
      expired_keys [OF ok, where P = "\<lambda>e. token_revocation_expired now m (re_revocation e)"]
    by (auto split: option.split)
  have "(\<exists>h e. map_of (rm_revocations ?m) h = Some e \<and> matches_token (re_revocation e) t) \<longleftrightarrow>
      (\<exists>h e. map_of (rm_revocations m) h = Some e \<and> \<not> token_revocation_expired now m (re_revocation e) \<and>
          matches_token (re_revocation e) t)"
    unfolding find by blast
  with stays is_token_revoked_scan [OF inv] is_token_revoked_scan [OF inv'] is_token_revoked_scan [OF inv2] show ?thesis
    unfolding token_hit_def by blast
qed

theorem token_stays_revoked_witness:
  "is_token_revoked (foldl (token_step toy_crypto) (foldl (token_step toy_crypto) TokenRevocationManager_init sample_ops)
     [SetTokenMax 0, SetTokenExpiry 0]) sample_token"
proof -
  have ok: "collision_free toy_crypto (\<Union>x \<in> set (sample_ops @ [SetTokenMax 0, SetTokenExpiry 0]). op_records x)"
    using sample_ops_ok by simp
  have "rm_inv toy_crypto (\<Union>x \<in> set sample_ops. op_records x)
      (foldl (token_step toy_crypto) TokenRevocationManager_init sample_ops)"
    by (rule rm_inv_run) (simp_all add: sample_ops_ok)
  from is_token_revoked_scan [OF this] sample_ops_hit
  have "is_token_revoked (foldl (token_step toy_crypto) TokenRevocationManager_init sample_ops) sample_token"
    by (simp add: token_hit_def)
  then show ?thesis using token_stays_revoked [OF ok, of sample_token] by auto
qed

text \<open>
  The formats of token revocations round trip, also with bytes after them.
\<close>

theorem token_revocation_roundtrip:
  assumes "wf_TokenRevocation r" "length (node_bytes (ru_source_node u)) = 32" "length (ru_signature u) = 64"
    and "length (ru_revocations u) < 2 ^ 32"
    and "list_all (\<lambda>r. wf_TokenRevocation r \<and> length (TokenRevocation_to_bytes r) < 2 ^ 32) (ru_revocations u)"
  shows "TokenRevocation_from_bytes (TokenRevocation_to_bytes r @ rest) = Some r \<and>
    RevocationListUpdate_from_bytes (RevocationListUpdate_to_bytes u @ rest) = Some u"
proof -
  have "read_records TokenRevocation_from_bytes (length (ru_revocations u))
      (concat (map (prefixed \<circ> TokenRevocation_to_bytes) (ru_revocations u)) @ t) =
      Some (map id (ru_revocations u), t)" for t
    using assms(5) by (intro read_records_prefixed) (auto simp: list_all_iff tokenrevc.dec_enc)
  moreover have "NodeID (node_bytes (ru_source_node u)) = ru_source_node u" by simp
  ultimately show ?thesis
    using assms TokenRevocation_codec [OF assms(1)]
    by (simp add: RevocationListUpdate_from_bytes_def RevocationListUpdate_to_bytes_def)
qed

theorem token_revocation_roundtrip_witness:
  "let r = \<lparr>tv_node_id = NodeID (replicate 32 1), tv_capability = 6, tv_reason = 0, tv_revoked_at = 1700000000,
        tv_revoker = NodeID (replicate 32 2), tv_context = [1, 2], tv_signature = replicate 64 3\<rparr>
   in TokenRevocation_from_bytes (TokenRevocation_to_bytes r @ [9]) = Some r"
  using token_revocation_roundtrip [of "\<lparr>tv_node_id = NodeID (replicate 32 1), tv_capability = 6, tv_reason = 0,
      tv_revoked_at = 1700000000, tv_revoker = NodeID (replicate 32 2), tv_context = [1, 2], tv_signature = replicate 64 3\<rparr>"
      "\<lparr>ru_revocations = [], ru_timestamp = 5, ru_source_node = NodeID (replicate 32 6), ru_signature = replicate 64 7\<rparr>" "[9]"]
  by (simp add: wf_TokenRevocation_def)

text \<open>
  Received revocations are not authenticated: whatever signature a record carries, processing it
  has the same result, and it is accepted whenever it is fresh, recent and its node is below the
  limit; a node at the limit cannot have another token revoked by anybody.
\<close>

theorem token_revocation_unauthenticated:
  "fst (process_token_revocation C now src (sign_token_revocation sig r) m) =
     fst (process_token_revocation C now src r m) \<and>
   (fst (process_token_revocation C now src r m) \<longleftrightarrow>
      TokenRevocation_get_id C r \<notin> set (rm_seen m) \<and> \<not> token_revocation_expired now m r \<and>
      tv_revoked_at r \<le> now + 300 \<and> \<not> too_many_revocations m (tv_node_id r)) \<and>
   (too_many_revocations m n \<longrightarrow> revoke_token C now junk_sig n cap reason revoker ctx m = (None, m) \<and>
      (tv_node_id r = n \<longrightarrow> process_token_revocation C now src r m = (False, m)))"
  by (auto simp: process_token_revocation_def sign_token_revocation_def TokenRevocation_get_id_def token_core_def
      should_accept_token_revocation_def token_revocation_expired_def revoke_token_def Let_def not_less)

end
