(* ===== verification/Floats.thy ===== *)
theory Floats
  imports Containers "HOL-Library.Log_Nat"
begin

text \<open>
  The type \<open>float\<close> of the sources: IEEE 754 binary32 numbers with rounding to the nearest, ties to
  even. A finite number is the rational it stands for; the two zeros are identified, since no
  operation of the sources can tell them apart. Every operation rounds its exact result, which is
  what a compiler does that evaluates in the type of the operands. Rounding is monotone and leaves
  representable numbers alone, and the bounds of all components follow from these two facts.
\<close>

section \<open>Rounding\<close>

definition rne :: "rat \<Rightarrow> int" where
  "rne x = (let f = \<lfloor>x\<rfloor>; d = x - of_int f in
     if d < 1 / 2 then f else if d > 1 / 2 then f + 1 else if even f then f else f + 1)"

text \<open>The exponent of a positive number: the integer \<open>e\<close> with \<open>2\<^sup>e \<le> x < 2\<^sup>e\<^sup>+\<^sup>1\<close>.\<close>

definition rat_log2 :: "rat \<Rightarrow> int" where
  "rat_log2 x = (let (a, b) = quotient_of x; e = bitlen a - bitlen b in if 2 powi e \<le> x then e else e - 1)"

text \<open>Rounding to \<open>p\<close> bits after the leading one, with \<open>emin\<close> the exponent of the smallest normal number.\<close>

definition fl_ulp :: "nat \<Rightarrow> int \<Rightarrow> rat \<Rightarrow> rat" where
  "fl_ulp p emin x = 2 powi (max (rat_log2 \<bar>x\<bar>) emin - int p)"

definition fl_round :: "nat \<Rightarrow> int \<Rightarrow> rat \<Rightarrow> rat" where
  "fl_round p emin x = (if x = 0 then 0 else of_int (rne (x / fl_ulp p emin x)) * fl_ulp p emin x)"

section \<open>Numbers and operations\<close>

datatype f32 = NaN | Inf bool | Fin rat

definition f32_of_rat :: "rat \<Rightarrow> f32" where
  "f32_of_rat x = (let r = fl_round 23 (-126) x in if \<bar>r\<bar> \<ge> 2 ^ 128 then Inf (r < 0) else Fin r)"

definition f32_of_int :: "int \<Rightarrow> f32" where
  "f32_of_int n = f32_of_rat (of_int n)"

fun f32_mul :: "f32 \<Rightarrow> f32 \<Rightarrow> f32" where
  "f32_mul (Fin a) (Fin b) = f32_of_rat (a * b)"
| "f32_mul (Inf s) (Fin b) = (if b = 0 then NaN else Inf (s \<noteq> (b < 0)))"
| "f32_mul (Fin a) (Inf s) = (if a = 0 then NaN else Inf (s \<noteq> (a < 0)))"
| "f32_mul (Inf s) (Inf t) = Inf (s \<noteq> t)"
| "f32_mul NaN _ = NaN"
| "f32_mul _ NaN = NaN"

fun f32_add :: "f32 \<Rightarrow> f32 \<Rightarrow> f32" where
  "f32_add (Fin a) (Fin b) = f32_of_rat (a + b)"
| "f32_add (Inf s) (Fin b) = Inf s"
| "f32_add (Fin a) (Inf s) = Inf s"
| "f32_add (Inf s) (Inf t) = (if s = t then Inf s else NaN)"
| "f32_add NaN _ = NaN"
| "f32_add _ NaN = NaN"

text \<open>A zero divisor counts as positive.\<close>

fun f32_div :: "f32 \<Rightarrow> f32 \<Rightarrow> f32" where
  "f32_div (Fin a) (Fin b) = (if b = 0 then if a = 0 then NaN else Inf (a < 0) else f32_of_rat (a / b))"
| "f32_div (Inf s) (Fin b) = Inf (s \<noteq> (b < 0))"
| "f32_div (Fin a) (Inf s) = Fin 0"
| "f32_div (Inf s) (Inf t) = NaN"
| "f32_div NaN _ = NaN"
| "f32_div _ NaN = NaN"

fun f32_less :: "f32 \<Rightarrow> f32 \<Rightarrow> bool" where
  "f32_less (Fin a) (Fin b) = (a < b)"
| "f32_less (Inf s) (Fin b) = s"
| "f32_less (Fin a) (Inf s) = (\<not> s)"
| "f32_less (Inf s) (Inf t) = (s \<and> \<not> t)"
| "f32_less NaN _ = False"
| "f32_less _ NaN = False"

fun f32_le :: "f32 \<Rightarrow> f32 \<Rightarrow> bool" where
  "f32_le NaN _ = False"
| "f32_le _ NaN = False"
| "f32_le a b = (\<not> f32_less b a)"

text \<open>\<open>static_cast<int32_t>\<close>: truncation towards zero, undefined when the result does not fit.\<close>

definition rat_trunc :: "rat \<Rightarrow> int" where
  "rat_trunc x = (if x < 0 then - \<lfloor>- x\<rfloor> else \<lfloor>x\<rfloor>)"

definition f32_to_int :: "int \<Rightarrow> int \<Rightarrow> f32 \<Rightarrow> int option" where
  "f32_to_int lo hi x = (case x of Fin r \<Rightarrow> (let n = rat_trunc r in if lo \<le> n \<and> n \<le> hi then Some n else None)
     | _ \<Rightarrow> None)"

text \<open>The number with a given bit pattern, and \<open>std::clamp\<close> on patterns.\<close>

definition f32_of_bits :: "32 word \<Rightarrow> f32" where
  "f32_of_bits w = (let e = unat (take_bit 8 (drop_bit 23 w)); m = unat (take_bit 23 w);
       v = (if e = 0 then of_nat m * 2 powi (-149) else of_nat (2 ^ 23 + m) * 2 powi (int e - 150))
     in if e = 255 then if m = 0 then Inf (bit w 31) else NaN
        else Fin (if bit w 31 then - v else v))"

definition clamp_bits :: "32 word \<Rightarrow> 32 word \<Rightarrow> 32 word \<Rightarrow> 32 word" where
  "clamp_bits v lo hi =
     (if f32_less (f32_of_bits v) (f32_of_bits lo) then lo
      else if f32_less (f32_of_bits hi) (f32_of_bits v) then hi else v)"

text \<open>The numbers from 0 to 1.\<close>

definition unit_f32 :: "f32 \<Rightarrow> bool" where
  "unit_f32 x \<longleftrightarrow> (\<exists>r. x = Fin r \<and> 0 \<le> r \<and> r \<le> 1)"

definition representable :: "nat \<Rightarrow> int \<Rightarrow> rat \<Rightarrow> bool" where
  "representable p emin x \<longleftrightarrow> fl_round p emin x = x"

section \<open>Lemmas on rounding\<close>

lemma rne_of_int [simp]: "rne (of_int n) = n"
  by (simp add: rne_def)

lemma rne_bounds: "\<lfloor>x\<rfloor> \<le> rne x" "rne x \<le> \<lfloor>x\<rfloor> + 1"
  by (auto simp: rne_def Let_def)

lemma rne_mono:
  assumes "x \<le> y"
  shows "rne x \<le> rne y"
proof (cases "\<lfloor>x\<rfloor> = \<lfloor>y\<rfloor>")
  case True
  with assms show ?thesis by (auto simp: rne_def Let_def)
next
  case False
  with floor_mono [OF assms] have "\<lfloor>x\<rfloor> + 1 \<le> \<lfloor>y\<rfloor>" by linarith
  with rne_bounds(2) [of x] rne_bounds(1) [of y] show ?thesis by linarith
qed

lemma rne_le_int: "x \<le> of_int n \<Longrightarrow> rne x \<le> n"
  using rne_mono [of x "of_int n"] by simp

lemma int_le_rne: "of_int n \<le> x \<Longrightarrow> n \<le> rne x"
  using rne_mono [of "of_int n" x] by simp

lemma rne_minus: "rne (- x) = - rne x"
proof (cases "x = of_int \<lfloor>x\<rfloor>")
  case True
  then have "- x = of_int (- \<lfloor>x\<rfloor>)" by (metis of_int_minus)
  then have "rne (- x) = - \<lfloor>x\<rfloor>" by (simp only: rne_of_int)
  moreover have "rne x = \<lfloor>x\<rfloor>" using True by (metis rne_of_int)
  ultimately show ?thesis by simp
next
  case False
  have "of_int \<lfloor>x\<rfloor> < x" using False of_int_floor_le [of x] by linarith
  moreover have "x < of_int \<lfloor>x\<rfloor> + 1" by linarith
  ultimately have f: "\<lfloor>- x\<rfloor> = - \<lfloor>x\<rfloor> - 1" by (simp add: floor_eq_iff)
  show ?thesis by (auto simp: rne_def Let_def f)
qed

lemma two_powi_add: "(2::rat) powi (a + b) = 2 powi a * 2 powi b"
  by (simp add: power_int_add)

lemma two_powi_mono: "a \<le> b \<Longrightarrow> (2::rat) powi a \<le> 2 powi b"
  by (intro power_int_increasing) auto

lemma bitlen_powi:
  assumes "0 < a"
  shows "2 powi (bitlen a - 1) \<le> (of_int a :: rat)" "(of_int a :: rat) < 2 powi (bitlen a)"
proof -
  have b: "2 ^ nat (bitlen a - 1) \<le> a" "a < 2 ^ nat (bitlen a)" using bitlen_bounds [OF assms] by auto
  have pos: "0 < bitlen a" using assms bitlen_nonneg [of a] bitlen_eq_zero_iff [of a] by linarith
  have "(2::rat) powi (bitlen a - 1) = of_int (2 ^ nat (bitlen a - 1))" "(2::rat) powi (bitlen a) = of_int (2 ^ nat (bitlen a))"
    using pos by (simp_all add: power_int_def)
  with b show "2 powi (bitlen a - 1) \<le> (of_int a :: rat)" "(of_int a :: rat) < 2 powi (bitlen a)"
    by (simp_all only: of_int_le_iff of_int_less_iff)
qed

lemma rat_log2_bounds:
  assumes "0 < x"
  shows "2 powi (rat_log2 x) \<le> x" "x < 2 powi (rat_log2 x + 1)"
proof -
  obtain a b where q: "quotient_of x = (a, b)" by force
  have x: "x = of_int a / of_int b" and b: "0 < b" using q by (auto dest: quotient_of_div quotient_of_denom_pos)
  have a: "0 < a" using assms b by (simp add: x zero_less_divide_iff)
  let ?e = "bitlen a - bitlen b"
  have pos: "(0::rat) < of_int b" using b by simp
  have "x < 2 powi (bitlen a) / 2 powi (bitlen b - 1)"
    unfolding x using bitlen_powi [OF a] bitlen_powi [OF b] a b
    by (intro frac_less) (auto simp: less_imp_le)
  also have "\<dots> = 2 powi (?e + 1)" by (simp add: power_int_diff [symmetric] algebra_simps)
  finally have hi: "x < 2 powi (?e + 1)" .
  have "2 powi (bitlen a - 1) / 2 powi (bitlen b) \<le> x"
    unfolding x using bitlen_powi [OF a] bitlen_powi [OF b] a b
    by (intro frac_le) (auto simp: less_imp_le)
  moreover have "(2::rat) powi (bitlen a - 1) / 2 powi (bitlen b) = 2 powi (?e - 1)"
    by (simp add: power_int_diff [symmetric] algebra_simps)
  ultimately have lo: "2 powi (?e - 1) \<le> x" by simp
  show "2 powi (rat_log2 x) \<le> x" "x < 2 powi (rat_log2 x + 1)"
    using hi lo by (auto simp: rat_log2_def q Let_def)
qed

lemma rat_log2_mono:
  assumes "0 < x" "x \<le> y"
  shows "rat_log2 x \<le> rat_log2 y"
proof (rule ccontr)
  assume "\<not> ?thesis"
  then have "(2::rat) powi (rat_log2 y + 1) \<le> 2 powi (rat_log2 x)" by (intro two_powi_mono) simp
  with rat_log2_bounds(2) [of y] rat_log2_bounds(1) [of x] assms show False by linarith
qed

lemma fl_ulp_pos [simp]: "0 < fl_ulp p emin x"
  by (simp add: fl_ulp_def)

lemma fl_round_minus: "fl_round p emin (- x) = - fl_round p emin x"
  by (simp add: fl_round_def fl_ulp_def rne_minus minus_divide_left [symmetric])

lemma fl_round_zero [simp]: "fl_round p emin 0 = 0"
  by (simp add: fl_round_def)

lemma fl_round_nonneg: "0 \<le> x \<Longrightarrow> 0 \<le> fl_round p emin x"
  using int_le_rne [of 0 "x / fl_ulp p emin x"] by (simp add: fl_round_def less_imp_le)

text \<open>A power of two that is a multiple of the last place is kept as a bound.\<close>

lemma powi_ulp:
  assumes "max (rat_log2 \<bar>x\<bar>) emin - int p \<le> k"
  shows "2 powi k = of_int (2 ^ nat (k - (max (rat_log2 \<bar>x\<bar>) emin - int p))) * fl_ulp p emin x"
proof -
  let ?q = "max (rat_log2 \<bar>x\<bar>) emin - int p"
  have "(2::rat) powi k = 2 powi (k - ?q) * 2 powi ?q" by (simp only: two_powi_add [symmetric]) simp
  moreover have "(2::rat) powi (k - ?q) = of_int (2 ^ nat (k - ?q))" using assms by (simp add: power_int_def)
  ultimately show ?thesis by (simp add: fl_ulp_def)
qed

lemma fl_round_le_power:
  assumes "0 < x" "x \<le> 2 powi k" "max (rat_log2 \<bar>x\<bar>) emin - int p \<le> k"
  shows "fl_round p emin x \<le> 2 powi k"
proof -
  have "x / fl_ulp p emin x \<le> of_int (2 ^ nat (k - (max (rat_log2 \<bar>x\<bar>) emin - int p)))"
    using assms(2) unfolding powi_ulp [OF assms(3)] by (simp add: pos_divide_le_eq)
  from rne_le_int [OF this] show ?thesis
    using assms(1) unfolding powi_ulp [OF assms(3)] by (simp add: fl_round_def)
qed

lemma fl_round_ge_power:
  assumes "0 < x" "2 powi k \<le> x" "max (rat_log2 \<bar>x\<bar>) emin - int p \<le> k"
  shows "2 powi k \<le> fl_round p emin x"
proof -
  have "of_int (2 ^ nat (k - (max (rat_log2 \<bar>x\<bar>) emin - int p))) \<le> x / fl_ulp p emin x"
    using assms(2) unfolding powi_ulp [OF assms(3)] by (simp add: pos_le_divide_eq)
  from int_le_rne [OF this] show ?thesis
    using assms(1) unfolding powi_ulp [OF assms(3)] by (simp add: fl_round_def)
qed

lemma fl_round_mono_pos:
  assumes "0 < x" "x \<le> y"
  shows "fl_round p emin x \<le> fl_round p emin y"
proof -
  define ex where "ex = max (rat_log2 x) emin"
  define ey where "ey = max (rat_log2 y) emin"
  have y: "0 < y" using assms by simp
  have le: "ex \<le> ey" using rat_log2_mono [OF assms] by (auto simp: ex_def ey_def)
  show ?thesis
  proof (cases "ex = ey")
    case True
    then have ulp: "fl_ulp p emin x = fl_ulp p emin y" using assms by (simp add: fl_ulp_def ex_def ey_def)
    have "rne (x / fl_ulp p emin y) \<le> rne (y / fl_ulp p emin y)"
      using assms by (intro rne_mono divide_right_mono) (auto intro: less_imp_le)
    then show ?thesis using assms by (simp add: fl_round_def ulp mult_right_mono less_imp_le)
  next
    case False
    with le have lt: "ex + 1 \<le> ey" by simp
    then have ey: "ey = rat_log2 y" by (auto simp: ex_def ey_def)
    have "x < 2 powi (rat_log2 x + 1)" by (rule rat_log2_bounds(2)) (rule assms)
    also have "\<dots> \<le> 2 powi (ex + 1)" by (intro two_powi_mono) (simp add: ex_def)
    finally have "fl_round p emin x \<le> 2 powi (ex + 1)"
      using assms by (intro fl_round_le_power) (auto simp: ex_def)
    also have "\<dots> \<le> 2 powi ey" by (rule two_powi_mono [OF lt])
    also have "\<dots> \<le> fl_round p emin y"
      using rat_log2_bounds(1) [OF y] y ey by (intro fl_round_ge_power) (auto simp: ey_def)
    finally show ?thesis .
  qed
qed

theorem fl_round_mono:
  assumes "x \<le> y"
  shows "fl_round p emin x \<le> fl_round p emin y"
proof -
  consider "0 < x" | "x \<le> 0" "0 \<le> y" | "y < 0" using assms by linarith
  then show ?thesis
  proof cases
    case 1
    then show ?thesis using assms by (rule fl_round_mono_pos)
  next
    case 2
    then have "0 \<le> fl_round p emin (- x)" "0 \<le> fl_round p emin y" by (auto intro: fl_round_nonneg)
    then show ?thesis by (simp add: fl_round_minus)
  next
    case 3
    then have "fl_round p emin (- y) \<le> fl_round p emin (- x)"
      using assms by (intro fl_round_mono_pos) auto
    then show ?thesis by (simp add: fl_round_minus)
  qed
qed

text \<open>Integers that fit into the significand, and every rounded value, are representable.\<close>

lemma representable_multiple:
  assumes "x = of_int m * fl_ulp p emin x"
  shows "representable p emin x"
proof (cases "x = 0")
  case False
  have "x / fl_ulp p emin x = of_int m" using assms fl_ulp_pos [of p emin x] by (metis nonzero_mult_div_cancel_right less_irrefl)
  then show ?thesis using assms False by (simp add: representable_def fl_round_def)
qed (simp add: representable_def)

lemma representable_int:
  assumes "\<bar>n\<bar> < 2 ^ (p + 1)" "emin \<le> int p"
  shows "representable p emin (of_int n)"
proof (cases "n = 0")
  case False
  let ?x = "of_int n :: rat" and ?l = "max (rat_log2 \<bar>of_int n\<bar>) emin"
  have "2 powi (rat_log2 \<bar>?x\<bar>) \<le> \<bar>?x\<bar>" using False by (intro rat_log2_bounds) simp
  also have "\<bar>?x\<bar> < 2 ^ (p + 1)" using assms(1) by (metis of_int_abs of_int_less_numeral_power_cancel_iff)
  also have "(2::rat) ^ (p + 1) = 2 powi int (p + 1)" by (simp only: power_int_of_nat)
  finally have "rat_log2 \<bar>?x\<bar> < int (p + 1)"
    by (metis not_less two_powi_mono)
  then have l: "?l - int p \<le> 0" using assms(2) by simp
  have "(2::rat) powi (?l - int p) * 2 powi (int p - ?l) = 1" by (simp add: two_powi_add [symmetric])
  moreover have "(2::rat) powi (int p - ?l) = of_int (2 ^ nat (int p - ?l))" using l by (simp add: power_int_def)
  ultimately have "?x = of_int (n * 2 ^ nat (int p - ?l)) * fl_ulp p emin ?x"
    by (simp add: fl_ulp_def mult_ac)
  then show ?thesis by (rule representable_multiple)
qed (simp add: representable_def)

lemma rat_log2_unique:
  assumes "2 powi e \<le> x" "x < 2 powi (e + 1)"
  shows "rat_log2 x = e"
proof -
  have "0 < x" using assms(1) by (metis less_le_trans zero_less_numeral zero_less_power_int)
  note b = rat_log2_bounds [OF this]
  have "\<not> rat_log2 x + 1 \<le> e" "\<not> e + 1 \<le> rat_log2 x"
    using b assms two_powi_mono [of "rat_log2 x + 1" e] two_powi_mono [of "e + 1" "rat_log2 x"] by auto
  then show ?thesis by linarith
qed

lemma representable_power:
  assumes "emin - int p \<le> k"
  shows "representable p emin (2 powi k)"
proof (rule representable_multiple)
  have "rat_log2 \<bar>2 powi k\<bar> = k" by (rule rat_log2_unique) (auto simp: power_int_add)
  then show "2 powi k = of_int (2 ^ nat (k - (max (rat_log2 \<bar>2 powi k\<bar>) emin - int p))) * fl_ulp p emin (2 powi k)"
    using assms by (intro powi_ulp) auto
qed

lemma representable_minus: "representable p emin (- x) = representable p emin x"
  by (simp add: representable_def fl_round_minus)

lemma representable_round_pos:
  assumes "0 < x"
  shows "representable p emin (fl_round p emin x)"
proof -
  define ex where "ex = max (rat_log2 x) emin"
  define r where "r = fl_round p emin x"
  define n where "n = rne (x / fl_ulp p emin x)"
  have r: "r = of_int n * 2 powi (ex - int p)"
    using assms by (simp add: r_def n_def fl_round_def fl_ulp_def ex_def)
  have r0: "0 \<le> r" using assms by (simp add: r_def fl_round_nonneg)
  have "x < 2 powi (rat_log2 x + 1)" using assms by (rule rat_log2_bounds(2))
  also have "\<dots> \<le> 2 powi (ex + 1)" by (intro two_powi_mono) (simp add: ex_def)
  finally have "r \<le> 2 powi (ex + 1)"
    unfolding r_def using assms by (intro fl_round_le_power) (auto simp: ex_def)
  then consider "r = 0" | "r = 2 powi (ex + 1)" | "0 < r" "r < 2 powi (ex + 1)" using r0 by linarith
  then show ?thesis
  proof cases
    case 1
    then show ?thesis by (simp add: r_def representable_def)
  next
    case 2
    have "representable p emin (2 powi (ex + 1))" by (rule representable_power) (simp add: ex_def)
    with 2 show ?thesis by (simp add: r_def)
  next
    case 3
    have "\<not> ex + 1 \<le> rat_log2 r"
      using 3 rat_log2_bounds(1) [OF 3(1)] two_powi_mono [of "ex + 1" "rat_log2 r"] by auto
    then have "max (rat_log2 \<bar>r\<bar>) emin - int p \<le> ex - int p" using 3(1) by (simp add: ex_def)
    from powi_ulp [OF this]
    have "r = of_int (n * 2 ^ nat (ex - int p - (max (rat_log2 \<bar>r\<bar>) emin - int p))) * fl_ulp p emin r"
      by (subst r) simp
    then show ?thesis unfolding r_def [symmetric] by (rule representable_multiple)
  qed
qed

theorem representable_round: "representable p emin (fl_round p emin x)"
proof (cases "x < 0")
  case True
  then have "representable p emin (fl_round p emin (- x))" by (intro representable_round_pos) simp
  then show ?thesis by (simp add: fl_round_minus representable_minus)
next
  case False
  then show ?thesis by (cases "x = 0") (auto simp: representable_def intro: representable_round_pos [unfolded representable_def])
qed

section \<open>Lemmas on numbers\<close>

text \<open>What every value of type \<open>float\<close> satisfies.\<close>

definition f32_ok :: "f32 \<Rightarrow> bool" where
  "f32_ok x = (case x of Fin r \<Rightarrow> representable 23 (-126) r \<and> \<bar>r\<bar> < 2 ^ 128 | _ \<Rightarrow> True)"

lemma f32_of_rat_ok [simp]: "f32_ok (f32_of_rat x)"
  by (simp add: f32_of_rat_def f32_ok_def Let_def representable_round)

lemma f32_mul_ok: "f32_ok (f32_mul x y)"
  by (cases "(x, y)" rule: f32_mul.cases) (auto simp: f32_ok_def [of "Inf _"] f32_ok_def [of NaN])

lemma f32_of_rat_id: "representable 23 (-126) r \<Longrightarrow> \<bar>r\<bar> < 2 ^ 128 \<Longrightarrow> f32_of_rat r = Fin r"
  by (simp add: f32_of_rat_def representable_def Let_def)

lemma f32_of_int_small [simp]: "\<bar>n\<bar> < 2 ^ 24 \<Longrightarrow> f32_of_int n = Fin (of_int n)"
proof -
  assume n: "\<bar>n\<bar> < 2 ^ 24"
  have "representable 23 (-126) (of_int n)" using n by (intro representable_int) auto
  moreover have "\<bar>of_int n :: rat\<bar> < of_int (2 ^ 24)" using n by (metis of_int_abs of_int_less_iff)
  ultimately show ?thesis unfolding f32_of_int_def by (intro f32_of_rat_id) auto
qed

text \<open>A result between two representable finite numbers stays between them.\<close>

lemma f32_of_rat_between:
  assumes "representable 23 (-126) a" "representable 23 (-126) b" "\<bar>a\<bar> < 2 ^ 128" "\<bar>b\<bar> < 2 ^ 128"
    and "a \<le> x" "x \<le> b"
  shows "\<exists>r. f32_of_rat x = Fin r \<and> a \<le> r \<and> r \<le> b"
proof -
  let ?r = "fl_round 23 (-126) x"
  have "a \<le> ?r" "?r \<le> b"
    using fl_round_mono [OF assms(5), of 23 "-126"] fl_round_mono [OF assms(6), of 23 "-126"] assms(1,2)
    by (simp_all add: representable_def)
  moreover then have "\<bar>?r\<bar> < 2 ^ 128" using assms(3,4) by linarith
  ultimately show ?thesis by (simp add: f32_of_rat_def Let_def)
qed

lemma representable_0_1 [simp]: "representable 23 (-126) 0" "representable 23 (-126) 1"
  using representable_int [of 0 23 "-126"] representable_int [of 1 23 "-126"] by simp_all

lemma unit_f32_mul:
  assumes "unit_f32 x" "unit_f32 y"
  shows "unit_f32 (f32_mul x y)"
proof -
  obtain a b where ab: "x = Fin a" "y = Fin b" "0 \<le> a" "a \<le> 1" "0 \<le> b" "b \<le> 1"
    using assms by (auto simp: unit_f32_def)
  have "0 \<le> a * b" "a * b \<le> 1" using ab by (simp_all add: mult_le_one)
  from f32_of_rat_between [OF _ _ _ _ this] show ?thesis by (auto simp: ab unit_f32_def)
qed

lemma f32_mul_le:
  assumes "unit_f32 x" "f32_ok x" "unit_f32 y"
  shows "f32_le (f32_mul x y) x"
proof -
  obtain a b where ab: "x = Fin a" "y = Fin b" "0 \<le> a" "a \<le> 1" "0 \<le> b" "b \<le> 1"
    using assms by (auto simp: unit_f32_def)
  have "0 \<le> a * b" "a * b \<le> a" using ab by (simp_all add: mult_left_le)
  from f32_of_rat_between [OF _ _ _ _ this] assms(2) show ?thesis by (auto simp: ab f32_ok_def)
qed

lemma unit_f32_of_rat: "0 \<le> x \<Longrightarrow> x \<le> 1 \<Longrightarrow> unit_f32 (f32_of_rat x)"
  using f32_of_rat_between [of 0 1 x] by (auto simp: unit_f32_def)

lemma unit_f32_cases:
  assumes "unit_f32 x"
  obtains r where "x = Fin r" "0 \<le> r" "r \<le> 1"
  using assms by (auto simp: unit_f32_def)

lemma unit_f32_const [simp]: "unit_f32 (Fin 0)" "unit_f32 (Fin 1)"
  by (simp_all add: unit_f32_def)

lemma f32_ok_const [simp]: "f32_ok (Fin 0)" "f32_ok (Fin 1)"
  by (simp_all add: f32_ok_def)

lemma f32_le_trans: "f32_le x y \<Longrightarrow> f32_le y z \<Longrightarrow> f32_le x z"
  by (cases x; cases y; cases z) auto

lemma f32_less_imp_le: "f32_less x y \<Longrightarrow> f32_le x y"
  by (cases x; cases y) auto

lemma f32_le_less_trans: "f32_le x y \<Longrightarrow> f32_less y z \<Longrightarrow> f32_less x z"
  by (cases x; cases y; cases z) auto

lemma f32_less_le_trans: "f32_less x y \<Longrightarrow> f32_le y z \<Longrightarrow> f32_less x z"
  by (cases x; cases y; cases z) auto

lemma f32_le_refl_unit [simp]: "unit_f32 x \<Longrightarrow> f32_le x x"
  by (auto simp: unit_f32_def)

lemma f32_not_less_unit: "unit_f32 x \<Longrightarrow> unit_f32 y \<Longrightarrow> \<not> f32_less x y \<longleftrightarrow> f32_le y x"
  by (auto simp: unit_f32_def)

lemma f32_le_0_unit: "unit_f32 x \<Longrightarrow> f32_le x (Fin 0) \<longleftrightarrow> x = Fin 0"
  by (auto simp: unit_f32_def)

lemma f32_mul_mono:
  assumes "unit_f32 x" "unit_f32 y" "unit_f32 w" "f32_le x y"
  shows "f32_le (f32_mul x w) (f32_mul y w)"
proof -
  obtain a b c where abc: "x = Fin a" "y = Fin b" "w = Fin c" "0 \<le> a" "a \<le> b" "0 \<le> c"
    using assms by (auto elim!: unit_f32_cases)
  then have "fl_round 23 (-126) (a * c) \<le> fl_round 23 (-126) (b * c)"
    by (intro fl_round_mono mult_right_mono) auto
  moreover have "unit_f32 (f32_mul x w)" "unit_f32 (f32_mul y w)" using assms by (auto intro: unit_f32_mul)
  ultimately show ?thesis
    by (auto simp: abc f32_of_rat_def Let_def unit_f32_def split: if_splits)
qed

lemma representable_scaled:
  assumes "\<bar>n\<bar> < 2 ^ (p + 1)" "emin - int p \<le> k"
  shows "representable p emin (of_int n * 2 powi k)"
proof (cases "n = 0")
  case False
  let ?x = "of_int n * 2 powi k :: rat"
  have x: "\<bar>?x\<bar> = \<bar>of_int n\<bar> * 2 powi k" by (simp add: abs_mult)
  have "2 powi (rat_log2 \<bar>?x\<bar>) \<le> \<bar>?x\<bar>" using False by (intro rat_log2_bounds) simp
  also have "\<bar>?x\<bar> < 2 ^ (p + 1) * 2 powi k"
    unfolding x using assms(1) by (intro mult_strict_right_mono) (metis of_int_abs of_int_less_numeral_power_cancel_iff, simp)
  also have "(2::rat) ^ (p + 1) * 2 powi k = 2 powi (int (p + 1) + k)"
    by (simp only: power_int_of_nat [symmetric] two_powi_add)
  finally have "rat_log2 \<bar>?x\<bar> < int (p + 1) + k" by (metis not_less two_powi_mono)
  then have "max (rat_log2 \<bar>?x\<bar>) emin - int p \<le> k" using assms(2) by simp
  from powi_ulp [OF this] have "?x = of_int (n * 2 ^ nat (k - (max (rat_log2 \<bar>?x\<bar>) emin - int p))) * fl_ulp p emin ?x"
    by (simp add: mult.assoc)
  then show ?thesis by (rule representable_multiple)
qed (simp add: representable_def)

lemma rat_trunc_bounds: "of_int a \<le> x \<Longrightarrow> x \<le> of_int b \<Longrightarrow> a \<le> rat_trunc x \<and> rat_trunc x \<le> b"
  by (auto simp: rat_trunc_def le_floor_iff floor_le_iff) linarith+

end
