(* ===== verification/Trust_Graph.thy ===== *)
theory Trust_Graph
  imports Common Floats
begin

text \<open>
  \<open>TrustGraph\<close> of \<open>src/core/reputation/reputation.cpp\<close> and \<open>TrustPathFinder\<close> of
  \<open>src/core/reputation/attestation.cpp\<close>: weighted trust edges, transitive trust, communities,
  paths, distances and centrality. The clock is an argument; hop counts are natural numbers, since
  \<open>hops + 1\<close> is only computed below \<open>max_hops\<close>, and so is the 32-bit distance, which stays below
  the number of nodes that the graph names. The three searches end on every graph. The locale
  \<open>worklist_search\<close> is the contract of a search with a queue and a set of seen nodes.
\<close>

section \<open>Edges\<close>

record TrustEdge =
  te_from :: NodeID
  te_to :: NodeID
  te_weight :: f32
  te_established :: u64
  te_updated :: u64

definition is_strong :: "TrustEdge \<Rightarrow> bool" where
  "is_strong e = f32_le (f32_of_rat (7 / 10)) (te_weight e)"

definition is_weak :: "TrustEdge \<Rightarrow> bool" where
  "is_weak e = f32_less (te_weight e) (f32_of_rat (3 / 10))"

type_synonym TrustGraph = "(NodeID \<times> (NodeID \<times> TrustEdge) list) list"

definition clamp_unit :: "f32 \<Rightarrow> f32" where
  "clamp_unit w = (let w = (if f32_less w (Fin 0) then Fin 0 else w) in if f32_less (Fin 1) w then Fin 1 else w)"

definition add_edge :: "u64 \<Rightarrow> NodeID \<Rightarrow> NodeID \<Rightarrow> f32 \<Rightarrow> TrustGraph \<Rightarrow> TrustGraph" where
  "add_edge now from to weight g =
     omap_set from (omap_set to \<lparr>te_from = from, te_to = to, te_weight = clamp_unit weight, te_established = now,
       te_updated = now\<rparr> (opt_or [] (map_of g from))) g"

definition remove_edge :: "NodeID \<Rightarrow> NodeID \<Rightarrow> TrustGraph \<Rightarrow> TrustGraph" where
  "remove_edge from to g =
     (case map_of g from of None \<Rightarrow> g | Some es \<Rightarrow> omap_set from (omap_erase to es) g)"

definition update_edge_weight :: "u64 \<Rightarrow> NodeID \<Rightarrow> NodeID \<Rightarrow> f32 \<Rightarrow> TrustGraph \<Rightarrow> TrustGraph" where
  "update_edge_weight now from to weight g =
     (case map_of g from of
        None \<Rightarrow> add_edge now from to weight g
      | Some es \<Rightarrow> (case map_of es to of
          None \<Rightarrow> add_edge now from to weight g
        | Some e \<Rightarrow> omap_set from (omap_set to (e\<lparr>te_weight := clamp_unit weight, te_updated := now\<rparr>) es) g))"

definition get_direct_trust :: "TrustGraph \<Rightarrow> NodeID \<Rightarrow> NodeID \<Rightarrow> f32 option" where
  "get_direct_trust g from to =
     (case map_of g from of None \<Rightarrow> None | Some es \<Rightarrow> map_option te_weight (map_of es to))"

definition get_trusted_by :: "TrustGraph \<Rightarrow> NodeID \<Rightarrow> NodeID list" where
  "get_trusted_by g node =
     map fst (filter (\<lambda>(from_node, edges). case map_of edges node of
         None \<Rightarrow> False | Some e \<Rightarrow> f32_less (f32_of_rat (3 / 10)) (te_weight e)) g)"

definition get_trusts :: "TrustGraph \<Rightarrow> NodeID \<Rightarrow> NodeID list" where
  "get_trusts g node =
     (case map_of g node of None \<Rightarrow> []
      | Some edges \<Rightarrow> map fst (filter (\<lambda>(to_node, e). f32_less (f32_of_rat (3 / 10)) (te_weight e)) edges))"

definition get_all_nodes :: "TrustGraph \<Rightarrow> NodeID list" where
  "get_all_nodes g =
     fold (\<lambda>(from_node, edges) nodes. fold (\<lambda>(to_node, _) nodes. oset_insert to_node nodes) edges
       (oset_insert from_node nodes)) g []"

definition decay_edge_weights :: "f32 \<Rightarrow> TrustGraph \<Rightarrow> TrustGraph" where
  "decay_edge_weights decay_factor g =
     map (\<lambda>(from_node, edges). (from_node,
       map (\<lambda>(to_node, e). (to_node, e\<lparr>te_weight := f32_mul (te_weight e) decay_factor\<rparr>)) edges)) g"

definition prune_weak_edges :: "f32 \<Rightarrow> TrustGraph \<Rightarrow> TrustGraph" where
  "prune_weak_edges threshold g =
     (let to_remove = concat (map (\<lambda>(from_node, edges).
            map (\<lambda>(to_node, e). (from_node, to_node)) (filter (\<lambda>(to_node, e). f32_less (te_weight e) threshold) edges)) g)
      in fold (\<lambda>(from, to) g. remove_edge from to g) to_remove g)"

fun path_product :: "TrustGraph \<Rightarrow> f32 \<Rightarrow> NodeID list \<Rightarrow> f32" where
  "path_product g trust (a # b # path) =
     (case get_direct_trust g a b of None \<Rightarrow> Fin 0 | Some w \<Rightarrow> path_product g (f32_mul trust w) (b # path))"
| "path_product g trust path = trust"

definition calculate_path_trust :: "TrustGraph \<Rightarrow> NodeID list \<Rightarrow> f32" where
  "calculate_path_trust g path = (if length path < 2 then Fin 1 else path_product g (Fin 1) path)"

section \<open>Transitive trust\<close>

type_synonym best_trust = "(NodeID \<times> f32) list"

text \<open>One pass of the loop over the edges of the current node.\<close>

definition relax :: "NodeID \<Rightarrow> nat \<Rightarrow> NodeID \<times> TrustEdge \<Rightarrow> best_trust \<times> (NodeID \<times> nat) list
    \<Rightarrow> best_trust \<times> (NodeID \<times> nat) list" where
  "relax current hops = (\<lambda>(next_node, edge) (best, queue).
     let path_trust = f32_mul (opt_or (Fin 0) (map_of best current)) (te_weight edge) in
     if (case map_of best next_node of None \<Rightarrow> True | Some v \<Rightarrow> f32_less v path_trust)
     then (omap_set next_node path_trust best, queue @ [(next_node, hops + 1)])
     else (best, queue))"

definition relax_all :: "NodeID \<Rightarrow> nat \<Rightarrow> (NodeID \<times> TrustEdge) list \<Rightarrow> best_trust \<Rightarrow> (NodeID \<times> nat) list
    \<Rightarrow> best_trust \<times> (NodeID \<times> nat) list" where
  "relax_all current hops edges best queue = fold (relax current hops) edges (best, queue)"

text \<open>An entry that is \<open>k\<close> hops from the limit causes fewer than \<open>(d + 1)\<^sup>k\<close> more, when no node has more than
  \<open>d\<close> edges.\<close>

definition max_degree :: "TrustGraph \<Rightarrow> nat" where
  "max_degree g = fold (\<lambda>p d. max (length (snd p)) d) g 0"

definition queue_weight :: "nat \<Rightarrow> nat \<Rightarrow> (NodeID \<times> nat) list \<Rightarrow> nat" where
  "queue_weight d max_hops queue = sum_list (map (\<lambda>(n, h). (d + 1) ^ (max_hops - h)) queue)"

lemma relax_all_queue:
  "\<exists>new. snd (relax_all current hops edges best queue) = queue @ map (\<lambda>n. (n, hops + 1)) new \<and>
     length new \<le> length edges \<and> set new \<subseteq> fst ` set edges"
proof (induction edges arbitrary: best queue)
  case Nil
  then show ?case by (simp add: relax_all_def)
next
  case (Cons e edges)
  obtain best' queue' where r: "relax current hops e (best, queue) = (best', queue')" by force
  then have q: "queue' = queue \<or> queue' = queue @ [(fst e, hops + 1)]"
    by (auto simp: relax_def Let_def split: prod.splits if_splits)
  have step: "relax_all current hops (e # edges) best queue = relax_all current hops edges best' queue'"
    by (simp add: relax_all_def r)
  from Cons [of best' queue'] obtain new where
    new: "snd (relax_all current hops edges best' queue') = queue' @ map (\<lambda>n. (n, hops + 1)) new"
      "length new \<le> length edges" "set new \<subseteq> fst ` set edges" by blast
  from q show ?case
  proof
    assume "queue' = queue"
    with new show ?thesis unfolding step by (intro exI [of _ new]) auto
  next
    assume "queue' = queue @ [(fst e, hops + 1)]"
    with new show ?thesis unfolding step by (intro exI [of _ "fst e # new"]) auto
  qed
qed

lemma max_degree_fold: "d \<le> fold (\<lambda>p d. max (length (snd p)) d) g (d::nat)"
  by (induction g arbitrary: d) (auto intro: le_trans [OF max.cobounded2])

lemma max_degree_fold_mem:
  "p \<in> set g \<Longrightarrow> length (snd p) \<le> fold (\<lambda>p d. max (length (snd p)) d) g (d::nat)"
  by (induction g arbitrary: d) (auto intro: le_trans [OF max.cobounded1 max_degree_fold])

lemma max_degree_find: "map_of g n = Some es \<Longrightarrow> length es \<le> max_degree g"
  unfolding max_degree_def using max_degree_fold_mem [of "(n, es)" g 0] by (auto dest: map_of_SomeD)

function trust_bfs :: "TrustGraph \<Rightarrow> nat \<Rightarrow> (NodeID \<times> nat) list \<Rightarrow> best_trust \<Rightarrow> best_trust" where
  "trust_bfs g max_hops [] best = best"
| "trust_bfs g max_hops ((current, hops) # queue) best =
     (if hops \<ge> max_hops then trust_bfs g max_hops queue best
      else case map_of g current of
             None \<Rightarrow> trust_bfs g max_hops queue best
           | Some edges \<Rightarrow> trust_bfs g max_hops (snd (relax_all current hops edges best queue))
                                  (fst (relax_all current hops edges best queue)))"
  by pat_completeness auto

termination
proof (relation "measure (\<lambda>(g, max_hops, queue, best). queue_weight (max_degree g) max_hops queue)", goal_cases)
  case (4 g max_hops current hops queue best edges)
  let ?d = "max_degree g"
  obtain new where new: "snd (relax_all current hops edges best queue) = queue @ map (\<lambda>n. (n, hops + 1)) new"
      "length new \<le> length edges"
    using relax_all_queue [of current hops edges best queue] by blast
  have d: "length new \<le> ?d" using new(2) max_degree_find [OF 4(2)] by simp
  have k: "max_hops - hops = Suc (max_hops - (hops + 1))" using 4(1) by simp
  have "length new * (?d + 1) ^ (max_hops - (hops + 1)) \<le> ?d * (?d + 1) ^ (max_hops - (hops + 1))"
    by (rule mult_le_mono1 [OF d])
  also have "\<dots> < (?d + 1) ^ (max_hops - hops)" unfolding k by simp
  finally show ?case
    by (simp add: new(1) queue_weight_def o_def case_prod_beta sum_list_triv)
qed (auto simp: queue_weight_def)

definition calculate_transitive_trust :: "TrustGraph \<Rightarrow> NodeID \<Rightarrow> NodeID \<Rightarrow> nat \<Rightarrow> f32" where
  "calculate_transitive_trust g from to max_hops =
     (if from = to then Fin 1
      else case get_direct_trust g from to of
             Some w \<Rightarrow> w
           | None \<Rightarrow> opt_or (Fin 0) (map_of (trust_bfs g max_hops [(from, 0)] (omap_set from (Fin 1) [])) to))"

section \<open>Communities and distances\<close>

text \<open>The nodes of a list that were not seen before, in order, and the nodes seen afterwards.\<close>

fun enqueue :: "'a::linorder list \<Rightarrow> 'a list \<Rightarrow> 'a list \<times> 'a list" where
  "enqueue [] seen = ([], seen)"
| "enqueue (n # ns) seen =
     (if n \<in> set seen then enqueue ns seen
      else case enqueue ns (oset_insert n seen) of (new, seen') \<Rightarrow> (n # new, seen'))"

lemma enqueue_set:
  "set (fst (enqueue ns seen)) = set ns - set seen" "set (snd (enqueue ns seen)) = set ns \<union> set seen"
  "distinct (fst (enqueue ns seen))" "oset_ok seen \<Longrightarrow> oset_ok (snd (enqueue ns seen))"
proof -
  have "set (fst (enqueue ns seen)) = set ns - set seen \<and> set (snd (enqueue ns seen)) = set ns \<union> set seen \<and>
      distinct (fst (enqueue ns seen)) \<and> (oset_ok seen \<longrightarrow> oset_ok (snd (enqueue ns seen)))"
    by (induction ns seen rule: enqueue.induct) (auto simp: case_prod_beta)
  then show "set (fst (enqueue ns seen)) = set ns - set seen" "set (snd (enqueue ns seen)) = set ns \<union> set seen"
      "distinct (fst (enqueue ns seen))" "oset_ok seen \<Longrightarrow> oset_ok (snd (enqueue ns seen))"
    by blast+
qed

text \<open>The search ends: a node is queued only when it is seen for the first time.\<close>

lemma enqueue_measure:
  assumes "finite U" "set ns \<subseteq> U"
  shows "card (U - set (snd (enqueue ns seen))) + length (fst (enqueue ns seen)) = card (U - set seen)"
proof -
  let ?new = "set ns - set seen"
  have "length (fst (enqueue ns seen)) = card ?new"
    by (metis enqueue_set(1,3) distinct_card)
  moreover have "U - set (snd (enqueue ns seen)) = (U - set seen) - ?new" by (auto simp: enqueue_set)
  moreover have "?new \<subseteq> U - set seen" using assms by auto
  ultimately show ?thesis
    using assms(1) by (simp add: card_Diff_subset card_mono finite_subset [OF _ assms(1)])
qed

definition strong_neighbors :: "TrustGraph \<Rightarrow> f32 \<Rightarrow> NodeID \<Rightarrow> NodeID list" where
  "strong_neighbors g min_trust current =
     (case map_of g current of None \<Rightarrow> []
      | Some edges \<Rightarrow> map fst (filter (\<lambda>(neighbor, e). f32_le min_trust (te_weight e)) edges))"

definition edge_targets :: "TrustGraph \<Rightarrow> NodeID set" where
  "edge_targets g = (\<Union>p \<in> set g. fst ` set (snd p))"

lemma finite_edge_targets [simp]: "finite (edge_targets g)"
  by (simp add: edge_targets_def)

lemma edge_targets_find: "map_of g n = Some es \<Longrightarrow> (m, e) \<in> set es \<Longrightarrow> m \<in> edge_targets g"
  by (force simp: edge_targets_def dest: map_of_SomeD)

lemma strong_neighbors_targets: "set (strong_neighbors g t n) \<subseteq> edge_targets g"
  by (cases "map_of g n") (auto simp: strong_neighbors_def intro: edge_targets_find)

lemma get_trusts_targets: "set (get_trusts g n) \<subseteq> edge_targets g"
  by (cases "map_of g n") (auto simp: get_trusts_def intro: edge_targets_find)

function community_loop :: "TrustGraph \<Rightarrow> f32 \<Rightarrow> NodeID list \<Rightarrow> NodeID list \<Rightarrow> NodeID list" where
  "community_loop g min_trust [] community = community"
| "community_loop g min_trust (current # to_explore) community =
     community_loop g min_trust (to_explore @ fst (enqueue (strong_neighbors g min_trust current) community))
       (snd (enqueue (strong_neighbors g min_trust current) community))"
  by pat_completeness auto

termination
  by (relation "measure (\<lambda>(g, t, q, c). card (edge_targets g - set c) + length q)")
    (auto simp: enqueue_measure [OF finite_edge_targets strong_neighbors_targets])

definition find_trust_community :: "TrustGraph \<Rightarrow> NodeID \<Rightarrow> f32 \<Rightarrow> NodeID list" where
  "find_trust_community g node min_trust = community_loop g min_trust [node] [node]"

function distance_loop :: "TrustGraph \<Rightarrow> NodeID \<Rightarrow> (NodeID \<times> nat) list \<Rightarrow> NodeID list \<Rightarrow> nat option" where
  "distance_loop g to [] visited = None"
| "distance_loop g to ((current, distance) # queue) visited =
     (if current = to then Some distance
      else distance_loop g to
             (queue @ map (\<lambda>n. (n, distance + 1)) (fst (enqueue (get_trusts g current) visited)))
             (snd (enqueue (get_trusts g current) visited)))"
  by pat_completeness auto

termination
  by (relation "measure (\<lambda>(g, to, q, c). card (edge_targets g - set c) + length q)")
    (auto simp: enqueue_measure [OF finite_edge_targets get_trusts_targets])

definition calculate_trust_distance :: "TrustGraph \<Rightarrow> NodeID \<Rightarrow> NodeID \<Rightarrow> nat option" where
  "calculate_trust_distance g from to =
     (if from = to then Some 0 else distance_loop g to [(from, 0)] [from])"

section \<open>Paths\<close>

text \<open>\<open>visited\<close> is restored when a call returns, since a node is entered only when it is not in it.\<close>

function dfs_find_paths :: "TrustGraph \<Rightarrow> NodeID \<Rightarrow> nat \<Rightarrow> NodeID \<Rightarrow> NodeID list \<Rightarrow> NodeID list \<Rightarrow> NodeID list list" where
  "dfs_find_paths g target max_hops current current_path visited =
     (if length current_path \<ge> max_hops then []
      else if current = target then [current_path]
      else concat (map (\<lambda>next. if next \<in> set (oset_insert current visited) then []
              else dfs_find_paths g target max_hops next (current_path @ [next]) (oset_insert current visited))
            (get_trusts g current)))"
  by pat_completeness auto

termination
  by (relation "measure (\<lambda>(g, t, m, c, path, v). m - length path)") auto

declare dfs_find_paths.simps [simp del]

definition find_all_paths :: "TrustGraph \<Rightarrow> NodeID \<Rightarrow> NodeID \<Rightarrow> nat \<Rightarrow> NodeID list list" where
  "find_all_paths g from to max_hops = dfs_find_paths g to max_hops from [from] []"

definition calculate_path_strength :: "TrustGraph \<Rightarrow> NodeID list \<Rightarrow> f32" where
  "calculate_path_strength g path = (if length path < 2 then Fin 0 else path_product g (Fin 1) path)"

definition stronger_path :: "TrustGraph \<Rightarrow> NodeID list \<Rightarrow> f32 \<times> NodeID list \<Rightarrow> f32 \<times> NodeID list" where
  "stronger_path g path = (\<lambda>(max_strength, strongest_path).
     let strength = calculate_path_strength g path in
     if f32_less max_strength strength then (strength, path) else (max_strength, strongest_path))"

definition find_strongest_path :: "TrustGraph \<Rightarrow> NodeID \<Rightarrow> NodeID \<Rightarrow> nat \<Rightarrow> NodeID list option" where
  "find_strongest_path g from to max_hops =
     (let all_paths = find_all_paths g from to max_hops in
      if all_paths = [] then None else Some (snd (fold (stronger_path g) all_paths (Fin 0, []))))"

definition find_common_trusted_nodes :: "TrustGraph \<Rightarrow> NodeID \<Rightarrow> NodeID \<Rightarrow> f32 \<Rightarrow> NodeID list" where
  "find_common_trusted_nodes g node_a node_b min_trust =
     filter (\<lambda>node. node \<in> set (get_trusts g node_a) \<and>
       (case (get_direct_trust g node_a node, get_direct_trust g node_b node) of
          (Some trust_a, Some trust_b) \<Rightarrow> f32_le min_trust trust_a \<and> f32_le min_trust trust_b
        | _ \<Rightarrow> False)) (get_trusts g node_b)"

definition count_path :: "TrustGraph \<Rightarrow> NodeID \<Rightarrow> NodeID \<times> NodeID \<Rightarrow> f32 \<times> f32 \<Rightarrow> f32 \<times> f32" where
  "count_path g node = (\<lambda>(source, target) (total_paths, through_node).
     if source = target \<or> source = node \<or> target = node then (total_paths, through_node)
     else case find_strongest_path g source target 6 of
            None \<Rightarrow> (total_paths, through_node)
          | Some path \<Rightarrow>
              if length path < 2 then (total_paths, through_node)
              else (f32_add total_paths (Fin 1),
                    if node \<in> set (butlast (tl path)) then f32_add through_node (Fin 1) else through_node))"

definition calculate_betweenness_centrality :: "TrustGraph \<Rightarrow> NodeID \<Rightarrow> f32" where
  "calculate_betweenness_centrality g node =
     (let nodes = get_all_nodes g in
      if length nodes < 3 then Fin 0
      else case fold (count_path g node) (List.product nodes nodes) (Fin 0, Fin 0) of
             (total_paths, through_node) \<Rightarrow> if total_paths = Fin 0 then Fin 0 else f32_div through_node total_paths)"

definition find_bridge_nodes :: "TrustGraph \<Rightarrow> f32 \<Rightarrow> NodeID list" where
  "find_bridge_nodes g min_betweenness =
     filter (\<lambda>node. f32_le min_betweenness (calculate_betweenness_centrality g node)) (get_all_nodes g)"

definition find_trust_hubs :: "TrustGraph \<Rightarrow> u32 \<Rightarrow> NodeID list" where
  "find_trust_hubs g min_incoming_edges =
     filter (\<lambda>node. min_incoming_edges \<le> of_nat (length (get_trusted_by g node))) (get_all_nodes g)"

section \<open>Weights stay between 0 and 1\<close>

definition edge_ok :: "TrustEdge \<Rightarrow> bool" where
  "edge_ok e \<longleftrightarrow> unit_f32 (te_weight e) \<and> f32_ok (te_weight e)"

definition graph_ok :: "TrustGraph \<Rightarrow> bool" where
  "graph_ok g \<longleftrightarrow> omap_all (omap_all edge_ok) g"

lemma graph_ok_Nil [simp]: "graph_ok []"
  by (simp add: graph_ok_def)

lemma clamp_unit_ok: "w \<noteq> NaN \<Longrightarrow> f32_ok w \<Longrightarrow> unit_f32 (clamp_unit w) \<and> f32_ok (clamp_unit w)"
  by (cases w) (auto simp: clamp_unit_def unit_f32_def f32_ok_def)

lemma add_edge_ok:
  assumes "graph_ok g" "w \<noteq> NaN" "f32_ok w"
  shows "graph_ok (add_edge now from to w g)"
  unfolding graph_ok_def add_edge_def
proof (intro omap_all_set)
  show "omap_all (omap_all edge_ok) g" using assms(1) by (simp add: graph_ok_def)
  then show "omap_all edge_ok (opt_or [] (map_of g from))" by (rule omap_all_at) simp
qed (simp add: edge_ok_def clamp_unit_ok assms(2,3))

lemma remove_edge_ok: "graph_ok g \<Longrightarrow> graph_ok (remove_edge from to g)"
  by (auto simp: graph_ok_def remove_edge_def split: option.splits intro!: omap_all_set omap_all_erase dest: omap_all_find)

lemma update_edge_weight_ok:
  assumes "graph_ok g" "w \<noteq> NaN" "f32_ok w"
  shows "graph_ok (update_edge_weight now from to w g)"
proof (cases "map_of g from")
  case None
  with add_edge_ok [OF assms] show ?thesis by (simp add: update_edge_weight_def)
next
  case (Some es)
  show ?thesis
  proof (cases "map_of es to")
    case None
    with Some add_edge_ok [OF assms] show ?thesis by (simp add: update_edge_weight_def)
  next
    case (Some e)
    have "omap_all edge_ok es" using assms(1) \<open>map_of g from = Some es\<close> by (auto simp: graph_ok_def dest: omap_all_find)
    with Some \<open>map_of g from = Some es\<close> assms show ?thesis
      by (auto simp: update_edge_weight_def graph_ok_def edge_ok_def clamp_unit_ok intro!: omap_all_set)
  qed
qed

lemma decay_edge_weights_ok:
  assumes "graph_ok g" "unit_f32 f"
  shows "graph_ok (decay_edge_weights f g)"
  unfolding graph_ok_def decay_edge_weights_def
proof (rule omap_all_map)
  show "omap_all (omap_all edge_ok) g" using assms(1) by (simp add: graph_ok_def)
  fix p assume "p \<in> set g"
  show "fst ((\<lambda>(from_node, edges). (from_node, map (\<lambda>(to_node, e). (to_node, e\<lparr>te_weight := f32_mul (te_weight e) f\<rparr>)) edges)) p) = fst p \<and>
    (omap_all edge_ok (snd p) \<longrightarrow>
     omap_all edge_ok (snd ((\<lambda>(from_node, edges). (from_node, map (\<lambda>(to_node, e). (to_node, e\<lparr>te_weight := f32_mul (te_weight e) f\<rparr>)) edges)) p)))"
    by (auto simp: case_prod_beta edge_ok_def unit_f32_mul assms(2) f32_mul_ok intro!: omap_all_map)
qed

lemma fold_remove_ok: "graph_ok g \<Longrightarrow> graph_ok (fold (\<lambda>(from, to) g. remove_edge from to g) ps g)"
  by (induction ps arbitrary: g) (auto simp: remove_edge_ok)

lemma prune_weak_edges_ok: "graph_ok g \<Longrightarrow> graph_ok (prune_weak_edges t g)"
  by (simp add: prune_weak_edges_def fold_remove_ok)

lemma direct_trust_ok: "graph_ok g \<Longrightarrow> get_direct_trust g a b = Some w \<Longrightarrow> unit_f32 w \<and> f32_ok w"
  by (auto simp: get_direct_trust_def graph_ok_def edge_ok_def split: option.splits dest!: omap_all_find)

datatype graph_op = AddEdge u64 NodeID NodeID f32 | RemoveEdge NodeID NodeID | UpdateWeight u64 NodeID NodeID f32
  | DecayWeights f32 | PruneWeak f32

fun graph_step :: "TrustGraph \<Rightarrow> graph_op \<Rightarrow> TrustGraph" where
  "graph_step g (AddEdge now a b w) = add_edge now a b w g"
| "graph_step g (RemoveEdge a b) = remove_edge a b g"
| "graph_step g (UpdateWeight now a b w) = update_edge_weight now a b w g"
| "graph_step g (DecayWeights f) = decay_edge_weights f g"
| "graph_step g (PruneWeak t) = prune_weak_edges t g"

text \<open>Weights passed in are numbers, and edges decay by factors between 0 and 1.\<close>

fun graph_op_ok :: "graph_op \<Rightarrow> bool" where
  "graph_op_ok (AddEdge now a b w) = (w \<noteq> NaN \<and> f32_ok w)"
| "graph_op_ok (UpdateWeight now a b w) = (w \<noteq> NaN \<and> f32_ok w)"
| "graph_op_ok (DecayWeights f) = unit_f32 f"
| "graph_op_ok _ = True"

interpretation trust: invariant_machine "\<lambda>g x. if graph_op_ok x then graph_step g x else g" graph_ok
proof unfold_locales
  fix g x assume "graph_ok g"
  then show "graph_ok (if graph_op_ok x then graph_step g x else g)"
    by (cases x) (auto intro: add_edge_ok remove_edge_ok update_edge_weight_ok decay_edge_weights_ok prune_weak_edges_ok)
qed

lemma graph_ok_run:
  assumes "graph_ok g" "list_all graph_op_ok xs"
  shows "graph_ok (foldl graph_step g xs)"
proof -
  have "foldl (\<lambda>g x. if graph_op_ok x then graph_step g x else g) g xs = foldl graph_step g xs"
    using assms(2) by (induction xs arbitrary: g) auto
  with trust.run_inv [OF assms(1), of xs] show ?thesis by simp
qed

section \<open>Communities are reachability\<close>

locale worklist_search =
  fixes succ :: "'a::linorder \<Rightarrow> 'a list"
    and targets :: "'a set"
    and loop :: "'a list \<Rightarrow> 'a list \<Rightarrow> 'a list"
  assumes finite_targets: "finite targets"
    and succ_targets: "set (succ n) \<subseteq> targets"
    and loop_Nil: "loop [] seen = seen"
    and loop_Cons: "loop (n # queue) seen = loop (queue @ fst (enqueue (succ n) seen)) (snd (enqueue (succ n) seen))"
begin

text \<open>Everything reachable from the queue through nodes that were not seen is added, and nothing else.\<close>

lemma loop_keeps_order: "oset_ok seen \<Longrightarrow> oset_ok (loop queue seen)"
proof (induction "card (targets - set seen) + length queue" arbitrary: queue seen rule: less_induct)
  case less
  show ?case
  proof (cases queue)
    case (Cons n q)
    have "oset_ok (loop (q @ fst (enqueue (succ n) seen)) (snd (enqueue (succ n) seen)))"
      using less.prems by (intro less.hyps enqueue_set(4))
        (simp_all add: Cons enqueue_measure [OF finite_targets succ_targets])
    then show ?thesis by (simp add: Cons loop_Cons)
  qed (simp add: loop_Nil less.prems)
qed

lemma loop_sound:
  "m \<in> set (loop queue seen) \<Longrightarrow> m \<in> set seen \<or> (\<exists>n \<in> set queue. (n, m) \<in> {(a, b). b \<in> set (succ a)}\<^sup>*)"
proof (induction "card (targets - set seen) + length queue" arbitrary: queue seen rule: less_induct)
  case less
  let ?R = "{(a, b). b \<in> set (succ a)}"
  show ?case
  proof (cases queue)
    case (Cons n q)
    have "m \<in> set (snd (enqueue (succ n) seen)) \<or> (\<exists>k \<in> set (q @ fst (enqueue (succ n) seen)). (k, m) \<in> ?R\<^sup>*)"
      using less.prems by (intro less.hyps)
        (simp_all add: Cons loop_Cons enqueue_measure [OF finite_targets succ_targets])
    then consider "m \<in> set seen" | "m \<in> set (succ n)" | k where "k \<in> set q" "(k, m) \<in> ?R\<^sup>*"
      | k where "k \<in> set (succ n)" "(k, m) \<in> ?R\<^sup>*" by (auto simp: enqueue_set)
    then show ?thesis
      by cases (auto simp: Cons intro: converse_rtrancl_into_rtrancl)
  qed (use less.prems in \<open>simp add: loop_Nil\<close>)
qed

text \<open>When all successors of the seen nodes outside the queue have been seen, the result is closed.\<close>

lemma loop_closed:
  assumes "set queue \<subseteq> set seen" "\<And>a. a \<in> set seen \<Longrightarrow> a \<notin> set queue \<Longrightarrow> set (succ a) \<subseteq> set seen"
  shows "set seen \<subseteq> set (loop queue seen) \<and> (\<forall>a \<in> set (loop queue seen). set (succ a) \<subseteq> set (loop queue seen))"
  using assms
proof (induction "card (targets - set seen) + length queue" arbitrary: queue seen rule: less_induct)
  case less
  show ?case
  proof (cases queue)
    case Nil
    with less.prems show ?thesis by (simp add: loop_Nil)
  next
    case (Cons n q)
    let ?q = "q @ fst (enqueue (succ n) seen)" and ?s = "snd (enqueue (succ n) seen)"
    have "set ?s \<subseteq> set (loop ?q ?s) \<and> (\<forall>a \<in> set (loop ?q ?s). set (succ a) \<subseteq> set (loop ?q ?s))"
    proof (rule less.hyps)
      show "card (targets - set ?s) + length ?q < card (targets - set seen) + length queue"
        by (simp add: Cons enqueue_measure [OF finite_targets succ_targets])
      show "set ?q \<subseteq> set ?s" using less.prems(1) by (auto simp: Cons enqueue_set)
      show "\<And>a. a \<in> set ?s \<Longrightarrow> a \<notin> set ?q \<Longrightarrow> set (succ a) \<subseteq> set ?s"
        using less.prems(2) by (fastforce simp: Cons enqueue_set)
    qed
    then show ?thesis by (auto simp: Cons loop_Cons enqueue_set)
  qed
qed

lemma search_exact: "set (loop [n] [n]) = {m. (n, m) \<in> {(a, b). b \<in> set (succ a)}\<^sup>*}"
proof -
  let ?R = "{(a, b). b \<in> set (succ a)}"
  have closed: "n \<in> set (loop [n] [n])" "\<And>a b. a \<in> set (loop [n] [n]) \<Longrightarrow> b \<in> set (succ a) \<Longrightarrow> b \<in> set (loop [n] [n])"
    using loop_closed [of "[n]" "[n]"] by auto
  have "m \<in> set (loop [n] [n])" if "(n, m) \<in> ?R\<^sup>*" for m
    using that by (induction) (auto intro: closed)
  moreover have "(n, m) \<in> ?R\<^sup>*" if "m \<in> set (loop [n] [n])" for m
    using loop_sound [OF that] by auto
  ultimately show ?thesis by auto
qed

end

interpretation community: worklist_search "strong_neighbors g t" "edge_targets g" "community_loop g t" for g t
  by unfold_locales (auto intro: strong_neighbors_targets [THEN subsetD])

text \<open>A graph of two edges, for the witnesses.\<close>

definition sample_graph :: TrustGraph where
  "sample_graph = foldl graph_step [] [AddEdge 1 (NodeID [1]) (NodeID [2]) (f32_of_rat (4 / 5)),
     AddEdge 2 (NodeID [2]) (NodeID [3]) (f32_of_rat (1 / 2))]"

lemma f32_of_rat_unit_number: "0 \<le> x \<Longrightarrow> x \<le> 1 \<Longrightarrow> f32_of_rat x \<noteq> NaN"
  using unit_f32_of_rat [of x] by (auto simp: unit_f32_def)

lemma sample_graph_ok [simp]: "graph_ok sample_graph"
  unfolding sample_graph_def by (rule graph_ok_run) (simp_all add: f32_of_rat_unit_number)

text \<open>An edge of at least the given weight.\<close>

definition trusts_at_least :: "TrustGraph \<Rightarrow> f32 \<Rightarrow> NodeID \<Rightarrow> NodeID \<Rightarrow> bool" where
  "trusts_at_least g t a b = (case get_direct_trust g a b of None \<Rightarrow> False | Some w \<Rightarrow> f32_le t w)"

lemma strong_neighbors_iff:
  assumes "graph_ok g"
  shows "b \<in> set (strong_neighbors g t a) \<longleftrightarrow> trusts_at_least g t a b"
proof (cases "map_of g a")
  case (Some es)
  then have "omap_ok es" using assms by (auto simp: graph_ok_def omap_all_def [of edge_ok] dest: omap_all_find)
  then have "b \<in> set (strong_neighbors g t a) \<longleftrightarrow> (\<exists>e. map_of es b = Some e \<and> f32_le t (te_weight e))"
    using Some by (force simp: strong_neighbors_def omap_find_iff)
  then show ?thesis
    using Some by (auto simp: trusts_at_least_def get_direct_trust_def split: option.splits)
qed (simp add: strong_neighbors_def trusts_at_least_def get_direct_trust_def)

text \<open>
  C36: the trust community of a node is what can be reached from it over edges of at least the given
  weight: the node itself and, transitively, everybody a member trusts that much; each member is
  listed once, in order. The search ends on every graph.
\<close>

theorem trust_community_reachable:
  assumes "graph_ok g"
  shows "set (find_trust_community g n t) = {m. (trusts_at_least g t)\<^sup>*\<^sup>* n m} \<and> oset_ok (find_trust_community g n t)"
proof -
  have "{(a, b). b \<in> set (strong_neighbors g t a)} = {(a, b). trusts_at_least g t a b}"
    by (simp add: strong_neighbors_iff [OF assms])
  then have "set (find_trust_community g n t) = {m. (trusts_at_least g t)\<^sup>*\<^sup>* n m}"
    by (simp add: find_trust_community_def community.search_exact rtranclp_rtrancl_eq del: community_loop.simps)
  moreover have "oset_ok (find_trust_community g n t)"
    unfolding find_trust_community_def by (rule community.loop_keeps_order) (simp add: oset_ok_def)
  ultimately show ?thesis by simp
qed

lemma sample_community:
  "find_trust_community sample_graph (NodeID [1]) (f32_of_rat (3 / 5)) = [NodeID [1], NodeID [2]]"
  by code_simp

theorem trust_community_reachable_witness:
  "{m. (trusts_at_least sample_graph (f32_of_rat (3 / 5)))\<^sup>*\<^sup>* (NodeID [1]) m} = {NodeID [1], NodeID [2]}"
  using trust_community_reachable [OF sample_graph_ok, of "NodeID [1]" "f32_of_rat (3 / 5)"]
  by (simp add: sample_community)

section \<open>Distances are shortest\<close>

definition trusts :: "TrustGraph \<Rightarrow> NodeID \<Rightarrow> NodeID \<Rightarrow> bool" where
  "trusts g a b = (b \<in> set (get_trusts g a))"

text \<open>The nodes at most \<open>k\<close> edges away.\<close>

fun ball :: "TrustGraph \<Rightarrow> NodeID \<Rightarrow> nat \<Rightarrow> NodeID set" where
  "ball g a 0 = {a}"
| "ball g a (Suc k) = ball g a k \<union> (\<Union>n \<in> ball g a k. set (get_trusts g n))"

lemma ball_mono: "k \<le> l \<Longrightarrow> ball g a k \<subseteq> ball g a l"
  by (induction l) (auto simp: le_Suc_eq)

lemma ball_iff: "b \<in> ball g a k \<longleftrightarrow> (\<exists>l \<le> k. (trusts g ^^ l) a b)"
proof (induction k arbitrary: b)
  case (Suc k)
  have "b \<in> ball g a (Suc k) \<longleftrightarrow> (\<exists>l \<le> k. (trusts g ^^ l) a b) \<or> (\<exists>l \<le> k. \<exists>c. (trusts g ^^ l) a c \<and> trusts g c b)"
  proof -
    have "b \<in> ball g a (Suc k) \<longleftrightarrow> b \<in> ball g a k \<or> (\<exists>c. c \<in> ball g a k \<and> trusts g c b)"
      by (auto simp: trusts_def)
    then show ?thesis unfolding Suc by auto
  qed
  also have "\<dots> \<longleftrightarrow> (\<exists>l \<le> Suc k. (trusts g ^^ l) a b)"
  proof
    assume "\<exists>l \<le> Suc k. (trusts g ^^ l) a b"
    then obtain l where l: "l \<le> Suc k" "(trusts g ^^ l) a b" by blast
    then show "(\<exists>l \<le> k. (trusts g ^^ l) a b) \<or> (\<exists>l \<le> k. \<exists>c. (trusts g ^^ l) a c \<and> trusts g c b)"
      by (cases "l = Suc k") (auto simp: le_Suc_eq)
  next
    assume "(\<exists>l \<le> k. (trusts g ^^ l) a b) \<or> (\<exists>l \<le> k. \<exists>c. (trusts g ^^ l) a c \<and> trusts g c b)"
    then show "\<exists>l \<le> Suc k. (trusts g ^^ l) a b"
    proof (elim disjE exE conjE)
      fix l c assume "l \<le> k" "(trusts g ^^ l) a c" "trusts g c b"
      then show ?thesis by (intro exI [of _ "Suc l"]) auto
    qed (auto intro: le_SucI)
  qed
  finally show ?case .
qed auto

text \<open>The queue holds nodes at distance \<open>d\<close>, then nodes at distance \<open>d + 1\<close>; all nodes up to distance \<open>d\<close> have
  been seen, and expanding the first group gives the rest of the next ball.\<close>

definition bfs_inv :: "TrustGraph \<Rightarrow> NodeID \<Rightarrow> NodeID \<Rightarrow> nat \<Rightarrow> NodeID list \<Rightarrow> NodeID list \<Rightarrow> NodeID list \<Rightarrow> bool" where
  "bfs_inv g from to d A B visited \<longleftrightarrow>
     set A \<subseteq> ball g from d \<and> set visited = ball g from d \<union> set B \<and> set B \<inter> ball g from d = {} \<and>
     ball g from (Suc d) = set visited \<union> (\<Union>n \<in> set A. set (get_trusts g n)) \<and>
     (\<forall>k < d. to \<notin> ball g from k) \<and> (to \<in> ball g from d \<longrightarrow> to \<in> set A)"

lemma bfs_inv_next_layer:
  assumes "bfs_inv g from to d [] B visited" "B \<noteq> []"
  shows "bfs_inv g from to (Suc d) B [] visited"
proof -
  have ball: "ball g from (Suc d) = ball g from d \<union> set B" and v: "set visited = ball g from (Suc d)"
    using assms(1) by (auto simp: bfs_inv_def)
  have "(\<Union>n \<in> ball g from d. set (get_trusts g n)) \<subseteq> ball g from (Suc d)" by auto
  then have "ball g from (Suc (Suc d)) = set visited \<union> (\<Union>n \<in> set B. set (get_trusts g n))"
    unfolding v ball.simps(2) [of g "from" "Suc d"] by (subst (2) ball) blast
  moreover have "\<forall>k < Suc d. to \<notin> ball g from k" "to \<in> ball g from (Suc d) \<longrightarrow> to \<in> set B"
    using assms(1) ball by (auto simp: bfs_inv_def less_Suc_eq)
  ultimately show ?thesis
    unfolding bfs_inv_def v ball by auto
qed

lemma bfs_inv_step:
  assumes "bfs_inv g from to d (n # A) B visited" "n \<noteq> to"
  shows "bfs_inv g from to d A (B @ fst (enqueue (get_trusts g n) visited)) (snd (enqueue (get_trusts g n) visited))"
  using assms unfolding bfs_inv_def enqueue_set by (simp add: enqueue_set) blast

lemma distance_loop_correct:
  assumes "bfs_inv g from to d A B visited"
    and "queue = map (\<lambda>n. (n, d)) A @ map (\<lambda>n. (n, Suc d)) B"
  shows "case distance_loop g to queue visited of
      None \<Rightarrow> \<forall>k. to \<notin> ball g from k
    | Some k \<Rightarrow> to \<in> ball g from k \<and> (\<forall>l < k. to \<notin> ball g from l)"
  using assms
proof (induction g to queue visited arbitrary: d A B rule: distance_loop.induct)
  case (1 g to visited)
  then have [simp]: "A = []" "B = []" by auto
  have *: "ball g from (Suc d) = ball g from d" "to \<notin> ball g from d" "\<forall>k < d. to \<notin> ball g from k"
    using 1 by (auto simp: bfs_inv_def)
  have "ball g from (d + k) = ball g from d" for k
  proof (induction k)
    case (Suc k)
    then have "ball g from (d + Suc k) = ball g from (Suc d)" by simp
    with *(1) show ?case by simp
  qed simp
  then have "to \<notin> ball g from k" for k using * by (metis le_add_diff_inverse linorder_not_less)
  then show ?case by simp
next
  case (2 g to current distance queue visited)
  show ?case
  proof (cases A)
    case (Cons n A')
    with 2(3) have q: "n = current" "distance = d" "queue = map (\<lambda>n. (n, d)) A' @ map (\<lambda>n. (n, Suc d)) B" by auto
    show ?thesis
    proof (cases "current = to")
      case True
      with 2(2) Cons q show ?thesis by (auto simp: bfs_inv_def)
    next
      case False
      from 2(2) have inv: "bfs_inv g from to d (current # A') B visited" by (simp add: Cons q)
      show ?thesis using 2(1) [OF False bfs_inv_step [OF inv False]] False by (simp add: q)
    qed
  next
    case Nil
    with 2(3) obtain B' where q: "B = current # B'" "distance = Suc d" "queue = map (\<lambda>n. (n, Suc d)) B'" by auto
    from 2(2) have inv: "bfs_inv g from to (Suc d) (current # B') [] visited"
      using bfs_inv_next_layer [of g "from" to d B visited] by (simp add: Nil q)
    show ?thesis
    proof (cases "current = to")
      case True
      with inv q show ?thesis by (auto simp: bfs_inv_def)
    next
      case False
      show ?thesis using 2(1) [OF False bfs_inv_step [OF inv False]] False by (simp add: q)
    qed
  qed
qed

text \<open>
  C35: the trust distance of two nodes is the length of a shortest chain of trusted edges from the
  one to the other; it is undefined exactly when there is no chain. The search ends on every graph.
\<close>

theorem trust_distance_shortest:
  "case calculate_trust_distance g a b of
     None \<Rightarrow> \<not> (trusts g)\<^sup>*\<^sup>* a b
   | Some d \<Rightarrow> (trusts g ^^ d) a b \<and> (\<nexists>k. k < d \<and> (trusts g ^^ k) a b)"
proof (cases "a = b")
  case True
  then show ?thesis by (simp add: calculate_trust_distance_def)
next
  case False
  have "bfs_inv g a b 0 [a] [] [a]" using False by (auto simp: bfs_inv_def)
  from distance_loop_correct [OF this refl]
  have r: "case distance_loop g b [(a, 0)] [a] of
      None \<Rightarrow> \<forall>k. b \<notin> ball g a k
    | Some k \<Rightarrow> b \<in> ball g a k \<and> (\<forall>l < k. b \<notin> ball g a l)" by simp
  show ?thesis
  proof (cases "distance_loop g b [(a, 0)] [a]")
    case None
    then have "\<forall>k. \<not> (trusts g ^^ k) a b" using r by (auto simp: ball_iff)
    with None False show ?thesis by (auto simp: calculate_trust_distance_def rtranclp_power simp del: distance_loop.simps)
  next
    case (Some d)
    with r obtain l where l: "l \<le> d" "(trusts g ^^ l) a b" and none: "\<And>k. k < d \<Longrightarrow> b \<notin> ball g a k"
      by (auto simp: ball_iff)
    have "b \<in> ball g a l" using l(2) unfolding ball_iff by auto
    with none [of l] l(1) have "l = d" by (auto simp: le_less)
    with l none have "(trusts g ^^ d) a b" "\<forall>k < d. \<not> (trusts g ^^ k) a b" by (auto simp: ball_iff)
    with Some False show ?thesis by (auto simp: calculate_trust_distance_def simp del: distance_loop.simps)
  qed
qed

section \<open>Paths are found exactly\<close>

text \<open>A chain of trusted edges from \<open>a\<close> to \<open>b\<close> that visits no node twice.\<close>

definition simple_path :: "TrustGraph \<Rightarrow> NodeID \<Rightarrow> NodeID \<Rightarrow> NodeID list \<Rightarrow> bool" where
  "simple_path g a b p \<longleftrightarrow> p \<noteq> [] \<and> hd p = a \<and> last p = b \<and> distinct p \<and> successively (trusts g) p"

definition continuations :: "TrustGraph \<Rightarrow> NodeID \<Rightarrow> nat \<Rightarrow> NodeID \<Rightarrow> NodeID list \<Rightarrow> NodeID list set" where
  "continuations g t k current path = {path @ q | q. successively (trusts g) (current # q) \<and> last (current # q) = t \<and>
     distinct (path @ q) \<and> length (path @ q) < k}"

lemma continuations_step:
  assumes "current \<noteq> t" "current \<in> set path"
  shows "continuations g t k current path =
    (\<Union>n \<in> set (get_trusts g current) - set path. continuations g t k n (path @ [n]))" (is "?L = ?R")
proof
  show "?L \<subseteq> ?R"
  proof
    fix p assume "p \<in> ?L"
    then obtain q where q: "p = path @ q" "successively (trusts g) (current # q)" "last (current # q) = t"
      "distinct (path @ q)" "length (path @ q) < k" by (auto simp: continuations_def)
    obtain n q' where "q = n # q'" using q(3) assms(1) by (cases q) auto
    with q have "n \<in> set (get_trusts g current) - set path" "p \<in> continuations g t k n (path @ [n])"
      by (auto simp: continuations_def trusts_def)
    then show "p \<in> ?R" by blast
  qed
  show "?R \<subseteq> ?L"
  proof
    fix p assume "p \<in> ?R"
    then obtain n q where n: "trusts g current n" "n \<notin> set path" and q: "p = path @ n # q" "successively (trusts g) (n # q)"
      "last (n # q) = t" "distinct (path @ n # q)" "length (path @ n # q) < k"
      by (auto simp: continuations_def trusts_def)
    then show "p \<in> ?L" unfolding continuations_def by (intro CollectI exI [of _ "n # q"]) (auto simp: trusts_def)
  qed
qed

lemma dfs_find_paths_set:
  assumes "path = pre @ [current]" "set pre = set visited" "distinct path"
  shows "set (dfs_find_paths g t k current path visited) = continuations g t k current path"
  using assms
proof (induction g t k current path visited arbitrary: pre rule: dfs_find_paths.induct)
  case (1 g t k current path visited)
  show ?case
  proof (cases "k \<le> length path")
    case True
    then show ?thesis by (auto simp: dfs_find_paths.simps [of g t k current path] continuations_def)
  next
    case short: False
    show ?thesis
    proof (cases "current = t")
      case True
      have "continuations g t k current path = {path}"
      proof -
        have nil: "last (current # q) = t \<Longrightarrow> distinct (path @ q) \<Longrightarrow> q = []" for q
          using True 1(2) by (cases q rule: rev_cases) auto
        show ?thesis
        proof (intro equalityI subsetI)
          fix p assume "p \<in> continuations g t k current path"
          then obtain q where q: "p = path @ q" "last (current # q) = t" "distinct (path @ q)"
            unfolding continuations_def by blast
          show "p \<in> {path}" using q(1) nil [OF q(2,3)] by simp
        next
          fix p assume "p \<in> {path}"
          then show "p \<in> continuations g t k current path"
            unfolding continuations_def using short True 1(4) by (intro CollectI exI [of _ "[]"]) simp
        qed
      qed
      with True short show ?thesis by (simp add: dfs_find_paths.simps [of g t k t path])
    next
      case False
      have path: "set path = set (oset_insert current visited)" using 1(2,3) by auto
      have "set (dfs_find_paths g t k n (path @ [n]) (oset_insert current visited)) = continuations g t k n (path @ [n])"
        if n: "n \<in> set (get_trusts g current)" "n \<notin> set path" for n
      proof -
        have "n \<notin> set (oset_insert current visited)" using n(2) path by blast
        moreover have "distinct (path @ [n])" using 1(4) n(2) by simp
        ultimately show ?thesis by (rule 1(1) [OF short False n(1) _ refl path])
      qed
      then have "set (dfs_find_paths g t k current path visited) =
          (\<Union>n \<in> set (get_trusts g current) - set path. continuations g t k n (path @ [n]))"
        using False short path by (auto simp: dfs_find_paths.simps [of g t k current path])
      moreover have "current \<in> set path" using 1(2) by simp
      ultimately show ?thesis using continuations_step [OF False] by metis
    qed
  qed
qed

lemma dfs_find_paths_prefix: "p \<in> set (dfs_find_paths g t k current path visited) \<Longrightarrow> take (length path) p = path"
proof (induction g t k current path visited rule: dfs_find_paths.induct)
  case (1 g t k current path visited)
  have "take (length path) p = path"
    if "take (Suc (length path)) p = path @ [n]" for n
    using arg_cong [OF that, of "take (length path)"] by (simp add: min_def)
  with 1 show ?case
    by (auto simp: dfs_find_paths.simps [of g t k current path] split: if_splits)
qed

lemma get_trusts_distinct: "graph_ok g \<Longrightarrow> distinct (get_trusts g n)"
proof (cases "map_of g n")
  case (Some es)
  assume "graph_ok g"
  with Some have "distinct (map fst es)"
    by (intro omap_ok_distinct) (auto simp: graph_ok_def omap_all_def [of edge_ok] dest: omap_all_find)
  with Some show ?thesis by (simp add: get_trusts_def distinct_map_filter)
qed (simp add: get_trusts_def)

lemma distinct_concat_map:
  assumes "distinct xs" "\<And>x. x \<in> set xs \<Longrightarrow> distinct (f x)"
    and "\<And>x y. x \<in> set xs \<Longrightarrow> y \<in> set xs \<Longrightarrow> x \<noteq> y \<Longrightarrow> set (f x) \<inter> set (f y) = {}"
  shows "distinct (concat (map f xs))"
  using assms by (induction xs) auto

lemma dfs_find_paths_distinct: "graph_ok g \<Longrightarrow> distinct (dfs_find_paths g t k current path visited)"
proof (induction g t k current path visited rule: dfs_find_paths.induct)
  case (1 g t k current path visited)
  have "distinct (concat (map (\<lambda>n. if n \<in> set (oset_insert current visited) then []
      else dfs_find_paths g t k n (path @ [n]) (oset_insert current visited)) (get_trusts g current)))"
    if "\<not> k \<le> length path" "current \<noteq> t"
  proof (rule distinct_concat_map)
    show "distinct (get_trusts g current)" using 1(2) by (rule get_trusts_distinct)
  next
    fix n assume "n \<in> set (get_trusts g current)"
    then show "distinct (if n \<in> set (oset_insert current visited) then []
      else dfs_find_paths g t k n (path @ [n]) (oset_insert current visited))"
      using 1 that by auto
  next
    fix n m :: NodeID assume "n \<noteq> m"
    then show "set (if n \<in> set (oset_insert current visited) then []
        else dfs_find_paths g t k n (path @ [n]) (oset_insert current visited)) \<inter>
      set (if m \<in> set (oset_insert current visited) then []
        else dfs_find_paths g t k m (path @ [m]) (oset_insert current visited)) = {}"
      by (auto dest!: dfs_find_paths_prefix)
  qed
  then show ?case by (simp add: dfs_find_paths.simps [of g t k current path])
qed

lemma find_all_paths_iff: "p \<in> set (find_all_paths g a b k) \<longleftrightarrow> simple_path g a b p \<and> length p < k"
proof -
  have "p \<in> set (find_all_paths g a b k) \<longleftrightarrow> p \<in> continuations g b k a [a]"
    unfolding find_all_paths_def by (subst dfs_find_paths_set [of _ "[]"]) auto
  also have "\<dots> \<longleftrightarrow> simple_path g a b p \<and> length p < k"
    by (cases p) (auto simp: continuations_def simple_path_def)
  finally show ?thesis .
qed

text \<open>
  the path search returns exactly the chains of trusted edges from the one node to the other
  that visit no node twice and have fewer nodes than \<open>max_hops\<close>, each once. A chain of \<open>max_hops\<close>
  hops, or even of one hop less, is therefore not found. The search ends on every graph.
\<close>

theorem find_all_paths_exact:
  assumes "graph_ok g"
  shows "set (find_all_paths g a b max_hops) = {p. simple_path g a b p \<and> length p < max_hops} \<and>
    distinct (find_all_paths g a b max_hops)"
proof -
  have "distinct (find_all_paths g a b max_hops)"
    unfolding find_all_paths_def by (rule dfs_find_paths_distinct [OF assms])
  then show ?thesis by (auto simp: find_all_paths_iff)
qed

theorem find_all_paths_exact_witness:
  "distinct (find_all_paths sample_graph (NodeID [1]) (NodeID [3]) 5)"
  using find_all_paths_exact [OF sample_graph_ok, of "NodeID [1]" "NodeID [3]" 5] by simp

section \<open>The strongest path\<close>

lemma path_product_unit: "graph_ok g \<Longrightarrow> unit_f32 t \<Longrightarrow> unit_f32 (path_product g t p)"
proof (induction g t p rule: path_product.induct)
  case (1 g t a b p)
  show ?case
  proof (cases "get_direct_trust g a b")
    case (Some w)
    then have "unit_f32 (f32_mul t w)" using 1(2,3) by (auto intro: unit_f32_mul dest: direct_trust_ok)
    with 1 Some show ?thesis by simp
  qed simp
qed simp_all

lemma path_strength_unit: "graph_ok g \<Longrightarrow> unit_f32 (calculate_path_strength g p)"
  by (simp add: calculate_path_strength_def path_product_unit)

lemma fold_stronger_path:
  assumes "graph_ok g" "unit_f32 m"
  shows "case fold (stronger_path g) ps (m, p) of (m', p') \<Rightarrow>
    unit_f32 m' \<and> f32_le m m' \<and> (\<forall>q \<in> set ps. f32_le (calculate_path_strength g q) m') \<and>
    ((m', p') = (m, p) \<or> p' \<in> set ps \<and> calculate_path_strength g p' = m' \<and> f32_less m m')"
  using assms(2)
proof (induction ps arbitrary: m p)
  case (Cons q ps)
  let ?s = "calculate_path_strength g q"
  have s: "unit_f32 ?s" by (rule path_strength_unit [OF assms(1)])
  show ?case
  proof (cases "f32_less m ?s")
    case True
    with Cons.IH [OF s, of q] show ?thesis
      by (auto simp: stronger_path_def Let_def split: prod.splits
          dest: f32_less_imp_le intro: f32_le_trans f32_le_less_trans f32_less_le_trans)
  next
    case False
    then have "f32_le ?s m" using Cons.prems s by (simp add: f32_not_less_unit)
    with False Cons.IH [OF Cons.prems, of p] show ?thesis
      by (auto simp: stronger_path_def Let_def split: prod.splits intro: f32_le_trans)
  qed
qed simp

text \<open>
  the strongest path: none is returned exactly when there is no chain of trusted edges with fewer
  nodes than \<open>max_hops\<close>; otherwise the path returned is such a chain and no other is stronger, where
  the strength of a chain is the rounded product of its weights, except that the empty path is
  returned when the strength of all chains is zero.
\<close>

theorem strongest_path_optimal:
  assumes "graph_ok g"
  shows "case find_strongest_path g a b k of
      None \<Rightarrow> {p. simple_path g a b p \<and> length p < k} = {}
    | Some p \<Rightarrow> if p = [] then calculate_path_strength g ` {p. simple_path g a b p \<and> length p < k} = {Fin 0}
        else simple_path g a b p \<and> length p < k \<and>
          (\<nexists>q. simple_path g a b q \<and> length q < k \<and> f32_less (calculate_path_strength g p) (calculate_path_strength g q))"
proof (cases "find_all_paths g a b k = []")
  case True
  then have "{p. simple_path g a b p \<and> length p < k} = {}"
    using find_all_paths_iff [of _ g a b k] by auto
  with True show ?thesis by (simp add: find_strongest_path_def)
next
  case False
  obtain m p where mp: "fold (stronger_path g) (find_all_paths g a b k) (Fin 0, []) = (m, p)" by force
  have m: "unit_f32 m" "\<And>q. simple_path g a b q \<Longrightarrow> length q < k \<Longrightarrow> f32_le (calculate_path_strength g q) m"
    "(m, p) = (Fin 0, []) \<or> p \<in> set (find_all_paths g a b k) \<and> calculate_path_strength g p = m \<and> f32_less (Fin 0) m"
    using fold_stronger_path [OF assms, of "Fin 0" "find_all_paths g a b k" "[]"]
    by (auto simp: mp find_all_paths_iff)
  have r: "find_strongest_path g a b k = Some p" using False by (simp add: find_strongest_path_def mp)
  obtain q where q: "simple_path g a b q" "length q < k"
    using False find_all_paths_iff [of _ g a b k] by (metis list.set_intros(1) neq_Nil_conv)
  show ?thesis
  proof (cases "p = []")
    case True
    then have "m = Fin 0" using m(3) by (auto simp: find_all_paths_iff simple_path_def)
    then have zero: "calculate_path_strength g q = Fin 0" if "simple_path g a b q" "length q < k" for q
      using m(2) [OF that] path_strength_unit [OF assms, of q] by (simp add: f32_le_0_unit)
    with q have "calculate_path_strength g ` {p. simple_path g a b p \<and> length p < k} = {Fin 0}" by force
    then show ?thesis by (simp add: r True)
  next
    case False
    with m(3) have p: "simple_path g a b p" "length p < k" "calculate_path_strength g p = m"
      by (auto simp: find_all_paths_iff)
    have "\<not> f32_less m (calculate_path_strength g q)" if "simple_path g a b q" "length q < k" for q
      using m(2) [OF that] m(1) path_strength_unit [OF assms, of q] by (simp add: f32_not_less_unit)
    with p False show ?thesis by (auto simp: r)
  qed
qed

theorem strongest_path_optimal_witness:
  "find_strongest_path sample_graph (NodeID [1]) (NodeID [3]) 0 = None \<and>
   {p. simple_path sample_graph (NodeID [1]) (NodeID [3]) p \<and> length p < 0} = {}"
proof -
  have "find_strongest_path sample_graph (NodeID [1]) (NodeID [3]) 0 = None"
    by (simp add: find_strongest_path_def find_all_paths_def dfs_find_paths.simps)
  with strongest_path_optimal [OF sample_graph_ok, of "NodeID [1]" "NodeID [3]" 0] show ?thesis by simp
qed

section \<open>Transitive trust\<close>

text \<open>A chain of edges of any weight.\<close>

definition trust_walk :: "TrustGraph \<Rightarrow> NodeID list \<Rightarrow> bool" where
  "trust_walk g p \<longleftrightarrow> p \<noteq> [] \<and> successively (\<lambda>a b. get_direct_trust g a b \<noteq> None) p"

lemma path_product_snoc:
  assumes "trust_walk g p" "get_direct_trust g (last p) m = Some w"
  shows "path_product g t (p @ [m]) = f32_mul (path_product g t p) w"
  using assms
proof (induction g t p rule: path_product.induct)
  case (1 g t a b p)
  then show ?case by (cases "get_direct_trust g a b") (auto simp: trust_walk_def)
qed (auto simp: trust_walk_def)

lemma trust_walk_snoc:
  "trust_walk g p \<Longrightarrow> get_direct_trust g (last p) m = Some w \<Longrightarrow> trust_walk g (p @ [m])"
  by (auto simp: trust_walk_def successively_append_iff)

text \<open>Every entry of the table is the product of the weights of a chain from the start.\<close>

definition best_ok :: "TrustGraph \<Rightarrow> NodeID \<Rightarrow> best_trust \<Rightarrow> bool" where
  "best_ok g a best \<longleftrightarrow> (\<forall>n v. map_of best n = Some v \<longrightarrow> unit_f32 v \<and> f32_ok v \<and>
     (\<exists>p. trust_walk g p \<and> hd p = a \<and> last p = n \<and> path_product g (Fin 1) p = v))"

lemma best_ok_set:
  assumes "best_ok g a best" "map_of best n = Some c" "get_direct_trust g n m = Some w" "unit_f32 w"
  shows "best_ok g a (omap_set m (f32_mul c w) best)"
proof -
  obtain p where p: "trust_walk g p" "hd p = a" "last p = n" "path_product g (Fin 1) p = c" and c: "unit_f32 c"
    using assms(1,2) by (auto simp: best_ok_def)
  have "trust_walk g (p @ [m])" "hd (p @ [m]) = a" "last (p @ [m]) = m" "path_product g (Fin 1) (p @ [m]) = f32_mul c w"
    using p assms(3) by (auto simp: path_product_snoc intro: trust_walk_snoc) (auto simp: trust_walk_def)
  moreover have "unit_f32 (f32_mul c w)" "f32_ok (f32_mul c w)" using c assms(4) by (auto intro: unit_f32_mul f32_mul_ok)
  ultimately show ?thesis using assms(1) unfolding best_ok_def by (auto split: if_splits)
qed

text \<open>What a pass over edges of the node \<open>n\<close> does to the table and the queue.\<close>

definition relaxed :: "TrustGraph \<Rightarrow> NodeID \<Rightarrow> NodeID \<Rightarrow> nat \<Rightarrow> f32 \<Rightarrow> best_trust \<Rightarrow> (NodeID \<times> nat) list
    \<Rightarrow> best_trust \<Rightarrow> (NodeID \<times> nat) list \<Rightarrow> bool" where
  "relaxed g a n h c best queue best' queue' \<longleftrightarrow>
     best_ok g a best' \<and> map_of best' n = Some c \<and> set queue \<subseteq> set queue' \<and>
     (\<forall>k v. map_of best k = Some v \<longrightarrow> (\<exists>v'. map_of best' k = Some v' \<and> f32_le v v')) \<and>
     (\<forall>k. map_of best' k = map_of best k \<or> (k, h + 1) \<in> set queue')"

lemma relaxed_refl: "best_ok g a best \<Longrightarrow> map_of best n = Some c \<Longrightarrow> relaxed g a n h c best queue best queue"
  by (auto simp: relaxed_def best_ok_def)

lemma relaxed_trans:
  assumes "relaxed g a n h c best queue best' queue'" "relaxed g a n h c best' queue' best'' queue''"
  shows "relaxed g a n h c best queue best'' queue''"
proof -
  have "\<exists>v'. map_of best'' k = Some v' \<and> f32_le v v'" if "map_of best k = Some v" for k v
    using assms that unfolding relaxed_def by (meson f32_le_trans)
  moreover have "map_of best'' k = map_of best k \<or> (k, h + 1) \<in> set queue''" for k
    using assms unfolding relaxed_def by (metis subsetD)
  ultimately show ?thesis using assms unfolding relaxed_def by auto
qed

lemma relax_step:
  assumes "best_ok g a best" "map_of best n = Some c" "get_direct_trust g n m = Some (te_weight e)" "edge_ok e"
    and r: "relax n h (m, e) (best, queue) = (best', queue')"
  shows "relaxed g a n h c best queue best' queue' \<and> (\<exists>v. map_of best' m = Some v \<and> f32_le (f32_mul c (te_weight e)) v)"
proof -
  let ?v = "f32_mul c (te_weight e)"
  have c: "unit_f32 c" "f32_ok c" and w: "unit_f32 (te_weight e)" using assms(1,2,4) by (auto simp: best_ok_def edge_ok_def)
  have v: "unit_f32 ?v" using c w by (intro unit_f32_mul)
  have rd: "relax n h (m, e) (best, queue) = (if (case map_of best m of None \<Rightarrow> True | Some v \<Rightarrow> f32_less v ?v)
      then (omap_set m ?v best, queue @ [(m, h + 1)]) else (best, queue))"
    by (simp only: relax_def Let_def prod.case assms(2) opt_or_simps)
  show ?thesis
  proof (cases "case map_of best m of None \<Rightarrow> True | Some v \<Rightarrow> f32_less v ?v")
    case True
    then have b: "best' = omap_set m ?v best" "queue' = queue @ [(m, h + 1)]"
      using r unfolding rd by simp_all
    have "m \<noteq> n"
    proof
      assume "m = n"
      then have "f32_less c ?v" using True assms(2) by simp
      then show False using f32_mul_le [OF c w] f32_le_less_trans by (metis c(1) f32_not_less_unit v)
    qed
    moreover have "\<exists>v'. map_of best' k = Some v' \<and> f32_le u v'" if "map_of best k = Some u" for k u
      using that True assms(1) by (auto simp: b best_ok_def dest: f32_less_imp_le)
    ultimately show ?thesis
      using best_ok_set [OF assms(1-3) w] assms(2) v by (auto simp: b relaxed_def)
  next
    case False
    then obtain u where u: "map_of best m = Some u" "\<not> f32_less u ?v" by (auto split: option.splits)
    have b: "best' = best" "queue' = queue" using r False unfolding rd by simp_all
    have "unit_f32 u" using assms(1) u(1) by (auto simp: best_ok_def)
    with u v have "f32_le ?v u" by (simp add: f32_not_less_unit)
    with u b relaxed_refl [OF assms(1,2)] show ?thesis by auto
  qed
qed

lemma relax_all_relaxed:
  assumes "best_ok g a best" "map_of best n = Some c"
    and "\<And>m e. (m, e) \<in> set es \<Longrightarrow> get_direct_trust g n m = Some (te_weight e) \<and> edge_ok e"
    and "relax_all n h es best queue = (best', queue')"
  shows "relaxed g a n h c best queue best' queue' \<and>
    (\<forall>m e. (m, e) \<in> set es \<longrightarrow> (\<exists>v. map_of best' m = Some v \<and> f32_le (f32_mul c (te_weight e)) v))"
  using assms
proof (induction es arbitrary: best queue)
  case Nil
  then show ?case by (auto simp: relax_all_def intro: relaxed_refl)
next
  case (Cons x es)
  obtain m e where x: "x = (m, e)" by force
  obtain b1 q1 where s: "relax n h (m, e) (best, queue) = (b1, q1)" by force
  have "get_direct_trust g n m = Some (te_weight e)" "edge_ok e" using Cons.prems(3) [of m e] by (auto simp: x)
  from relax_step [OF Cons.prems(1,2) this s]
  obtain v where step: "relaxed g a n h c best queue b1 q1" "map_of b1 m = Some v" "f32_le (f32_mul c (te_weight e)) v" by blast
  have rest: "relaxed g a n h c b1 q1 best' queue' \<and>
    (\<forall>m e. (m, e) \<in> set es \<longrightarrow> (\<exists>v. map_of best' m = Some v \<and> f32_le (f32_mul c (te_weight e)) v))"
    using step(1) Cons.prems(3,4) by (intro Cons.IH) (auto simp: relaxed_def relax_all_def x s)
  then obtain v' where "map_of best' m = Some v'" "f32_le v v'" using step(2) unfolding relaxed_def by blast
  with step(3) rest relaxed_trans [OF step(1)] show ?case by (auto simp: x intro: f32_le_trans)
qed

text \<open>
  \<open>covered j n t\<close>: chains of at most \<open>j\<close> edges that reach \<open>n\<close> with trust \<open>t\<close> are accounted for: the table
  has at least \<open>t\<close> at \<open>n\<close>, and \<open>n\<close> is still queued with enough hops left, or its edges are covered.
\<close>

fun covered :: "TrustGraph \<Rightarrow> nat \<Rightarrow> best_trust \<Rightarrow> (NodeID \<times> nat) list \<Rightarrow> nat \<Rightarrow> NodeID \<Rightarrow> f32 \<Rightarrow> bool" where
  "covered g k best queue 0 n t = (\<exists>v. map_of best n = Some v \<and> f32_le t v)"
| "covered g k best queue (Suc j) n t =
     ((\<exists>v. map_of best n = Some v \<and> f32_le t v) \<and>
      ((\<exists>h. (n, h) \<in> set queue \<and> h + Suc j \<le> k) \<or>
       (\<forall>m w. get_direct_trust g n m = Some w \<longrightarrow> covered g k best queue j m (f32_mul t w))))"

lemma covered_best: "covered g k best queue j n t \<Longrightarrow> \<exists>v. map_of best n = Some v \<and> f32_le t v"
  by (cases j) auto

lemma covered_weaker:
  assumes "graph_ok g" "covered g k best queue j n t" "i \<le> j" "unit_f32 t" "unit_f32 u" "f32_le u t"
  shows "covered g k best queue i n u"
  using assms(2-)
proof (induction i arbitrary: j n t u)
  case 0
  then show ?case using covered_best [OF 0(1)] by (auto intro: f32_le_trans)
next
  case (Suc i)
  obtain j' where j: "j = Suc j'" using Suc.prems(2) by (cases j) auto
  have best: "\<exists>v. map_of best n = Some v \<and> f32_le u v"
    using covered_best [OF Suc.prems(1)] Suc.prems(5) by (auto intro: f32_le_trans)
  consider h where "(n, h) \<in> set queue" "h + Suc j' \<le> k"
    | "\<And>m w. get_direct_trust g n m = Some w \<Longrightarrow> covered g k best queue j' m (f32_mul t w)"
    using Suc.prems(1) by (auto simp: j)
  then show ?case
  proof cases
    case 1
    then have "\<exists>h. (n, h) \<in> set queue \<and> h + Suc i \<le> k" using Suc.prems(2) by (intro exI [of _ h]) (auto simp: j)
    with best show ?thesis by simp
  next
    case 2
    have "covered g k best queue i m (f32_mul u w)" if w: "get_direct_trust g n m = Some w" for m w
    proof (rule Suc.IH [OF 2 [OF w]])
      have "unit_f32 w" using direct_trust_ok [OF assms(1) w] by simp
      then show "unit_f32 (f32_mul t w)" "unit_f32 (f32_mul u w)" "f32_le (f32_mul u w) (f32_mul t w)"
        using Suc.prems by (auto intro: unit_f32_mul f32_mul_mono)
    qed (use Suc.prems(2) in \<open>simp add: j\<close>)
    with best show ?thesis by simp
  qed
qed

lemma covered_walk:
  assumes "graph_ok g" "covered g k best [] j n t" "unit_f32 t" "trust_walk g (n # p)" "length p \<le> j"
  shows "\<exists>v. map_of best (last (n # p)) = Some v \<and> f32_le (path_product g t (n # p)) v"
  using assms(2-)
proof (induction p arbitrary: j n t)
  case Nil
  then show ?case using covered_best by fastforce
next
  case (Cons m p)
  obtain j' where j: "j = Suc j'" using Cons.prems(4) by (cases j) auto
  obtain w where w: "get_direct_trust g n m = Some w" using Cons.prems(3) by (auto simp: trust_walk_def)
  have "covered g k best [] j' m (f32_mul t w)" using Cons.prems(1) w by (auto simp: j)
  moreover have "unit_f32 (f32_mul t w)" using Cons.prems(2) direct_trust_ok [OF assms(1) w] by (auto intro: unit_f32_mul)
  moreover have "trust_walk g (m # p)" "length p \<le> j'" using Cons.prems(3,4) by (auto simp: trust_walk_def j)
  ultimately have "\<exists>v. map_of best (last (m # p)) = Some v \<and> f32_le (path_product g (f32_mul t w) (m # p)) v"
    by (rule Cons.IH)
  then show ?case by (simp add: w)
qed

text \<open>The invariant of the loop: hops in the queue differ by at most one, and every entry of the table is
  covered from the hop at which it was set.\<close>

definition hops_ok :: "(NodeID \<times> nat) list \<Rightarrow> nat \<Rightarrow> bool" where
  "hops_ok queue h \<longleftrightarrow> sorted (map snd queue) \<and> list_all (\<lambda>x. h \<le> snd x \<and> snd x \<le> h + 1) queue"

definition trust_inv :: "TrustGraph \<Rightarrow> nat \<Rightarrow> NodeID \<Rightarrow> (NodeID \<times> nat) list \<Rightarrow> best_trust \<Rightarrow> nat \<Rightarrow> bool" where
  "trust_inv g k a queue best h \<longleftrightarrow> best_ok g a best \<and> hops_ok queue h \<and> covered g k best queue k a (Fin 1) \<and>
     (\<forall>x \<in> set queue. map_of best (fst x) \<noteq> None) \<and>
     (\<forall>n v. map_of best n = Some v \<longrightarrow> (\<exists>i \<le> h + 1. covered g k best queue (k - i) n v))"

text \<open>Dropping an entry whose node has no hops or no edges left, and relaxing the edges of a node.\<close>

lemma covered_drop:
  assumes "h \<ge> k \<or> (\<forall>m. get_direct_trust g n m = None)" "covered g k best ((n, h) # queue) j i t"
  shows "covered g k best queue j i t"
  using assms(2) assms(1) by (induction j arbitrary: i t) auto

lemma covered_relaxed:
  assumes g: "graph_ok g" and inv: "trust_inv g k a ((n, h) # queue) best h"
    and c: "map_of best n = Some c" and rel: "relaxed g a n h c best queue best' queue'"
    and edges: "\<And>m w. get_direct_trust g n m = Some w \<Longrightarrow> \<exists>v. map_of best' m = Some v \<and> f32_le (f32_mul c w) v"
    and cov: "covered g k best ((n, h) # queue) j i t" and t: "unit_f32 t"
  shows "covered g k best' queue' j i t"
  using cov t
proof (induction j arbitrary: i t)
  case 0
  then show ?case using rel unfolding relaxed_def by simp (meson f32_le_trans)
next
  case (Suc j)
  have best: "\<exists>v. map_of best' i = Some v \<and> f32_le t v"
    using covered_best [OF Suc.prems(1)] rel unfolding relaxed_def by (meson f32_le_trans)
  consider h' where "(i, h') \<in> set queue" "h' + Suc j \<le> k" | "i = n" "h + Suc j \<le> k"
    | "\<And>m w. get_direct_trust g i m = Some w \<Longrightarrow> covered g k best ((n, h) # queue) j m (f32_mul t w)"
    using Suc.prems(1) by auto
  then show ?case
  proof cases
    case 1
    with rel best show ?thesis by (auto simp: relaxed_def)
  next
    case 2
    have tc: "f32_le t c" using covered_best [OF Suc.prems(1)] c 2(1) by auto
    have uc: "unit_f32 c" using inv c by (auto simp: trust_inv_def best_ok_def)
    have "covered g k best' queue' j m (f32_mul t w)" if w: "get_direct_trust g i m = Some w" for m w
    proof -
      have uw: "unit_f32 w" using direct_trust_ok [OF g w] by simp
      obtain v where v: "map_of best' m = Some v" "f32_le (f32_mul c w) v" using edges w 2(1) by blast
      have uv: "unit_f32 v" using rel v(1) by (auto simp: relaxed_def best_ok_def)
      have le: "f32_le (f32_mul t w) v" using v(2) f32_mul_mono [OF Suc.prems(2) uc uw tc] by (rule f32_le_trans [rotated])
      show ?thesis
      proof (cases "map_of best' m = map_of best m")
        case True
        then have "map_of best m = Some v" using v(1) by simp
        with inv obtain i' where i': "i' \<le> h + 1" "covered g k best ((n, h) # queue) (k - i') m v"
          unfolding trust_inv_def by blast
        have "covered g k best ((n, h) # queue) j m v"
          by (rule covered_weaker [OF g i'(2)]) (use i'(1) 2(2) uv in auto)
        from Suc.IH [OF this uv] show ?thesis
          by (rule covered_weaker [OF g]) (use uv uw le Suc.prems(2) in \<open>auto intro: unit_f32_mul\<close>)
      next
        case False
        then have q: "(m, h + 1) \<in> set queue'" using rel unfolding relaxed_def by blast
        show ?thesis
        proof (cases j)
          case (Suc j')
          with q 2(2) v(1) le show ?thesis by (auto intro!: exI [of _ "h + 1"])
        qed (use v(1) le in simp)
      qed
    qed
    with best show ?thesis by simp
  next
    case 3
    have "covered g k best' queue' j m (f32_mul t w)" if w: "get_direct_trust g i m = Some w" for m w
      using 3 [OF w] Suc.prems(2) direct_trust_ok [OF g w] by (intro Suc.IH) (auto intro: unit_f32_mul)
    with best show ?thesis by simp
  qed
qed

lemma hops_ok_tail: "hops_ok ((n, h) # queue) h \<Longrightarrow> hops_ok queue h"
  by (simp add: hops_ok_def)

lemma hops_ok_advance:
  assumes "hops_ok queue h" "queue \<noteq> []"
  shows "hops_ok queue (snd (hd queue))" "h \<le> snd (hd queue)"
  using assms by (cases queue; auto simp: hops_ok_def list_all_iff)+

lemma hops_ok_snoc: "hops_ok queue h \<Longrightarrow> hops_ok (queue @ map (\<lambda>n. (n, h + 1)) new) h"
  by (auto simp: hops_ok_def sorted_append list_all_iff o_def map_replicate_const)

lemma trust_inv_drop:
  assumes "trust_inv g k a ((n, h) # queue) best h" "h \<ge> k \<or> (\<forall>m. get_direct_trust g n m = None)"
  shows "trust_inv g k a queue best h"
  using assms(1) covered_drop [OF assms(2)] hops_ok_tail unfolding trust_inv_def by fastforce

lemma trust_inv_advance:
  assumes "trust_inv g k a queue best h" "queue \<noteq> []"
  shows "trust_inv g k a queue best (snd (hd queue))"
  using assms hops_ok_advance [of queue h] unfolding trust_inv_def by (meson add_le_mono1 le_trans)

lemma edges_of_node:
  assumes "graph_ok g" "map_of g n = Some es" "(m, e) \<in> set es"
  shows "get_direct_trust g n m = Some (te_weight e) \<and> edge_ok e"
proof -
  have "omap_all edge_ok es" using assms(1,2) by (auto simp: graph_ok_def dest: omap_all_find)
  then have "omap_ok es" "edge_ok e" using assms(3) by (auto simp: omap_all_def list_all_iff)
  moreover then have "map_of es m = Some e" using assms(3) by (simp only: omap_find_iff)
  ultimately show ?thesis using assms(2) by (simp add: get_direct_trust_def)
qed

lemma trust_inv_relax:
  assumes g: "graph_ok g" and inv: "trust_inv g k a ((n, h) # queue) best h" and es: "map_of g n = Some es"
    and r: "relax_all n h es best queue = (best', queue')"
  shows "trust_inv g k a queue' best' h"
proof -
  obtain c where c: "map_of best n = Some c" using inv by (auto simp: trust_inv_def)
  have b: "best_ok g a best" "hops_ok queue h" using inv hops_ok_tail by (auto simp: trust_inv_def)
  have rel: "relaxed g a n h c best queue best' queue'"
    and edges: "\<And>m e. (m, e) \<in> set es \<Longrightarrow> \<exists>v. map_of best' m = Some v \<and> f32_le (f32_mul c (te_weight e)) v"
    using relax_all_relaxed [OF b(1) c edges_of_node [OF g es] r] by auto
  have edges': "\<exists>v. map_of best' m = Some v \<and> f32_le (f32_mul c w) v" if "get_direct_trust g n m = Some w" for m w
    using that es edges by (auto simp: get_direct_trust_def dest!: map_of_SomeD)
  have keep: "covered g k best' queue' j i t" if "covered g k best ((n, h) # queue) j i t" "unit_f32 t" for j i t
    by (rule covered_relaxed [OF g inv c rel _ that]) (rule edges')
  obtain new where new: "queue' = queue @ map (\<lambda>n. (n, h + 1)) new" "set new \<subseteq> fst ` set es"
    using relax_all_queue [of n h es best queue] r by auto
  have "\<exists>i \<le> h + 1. covered g k best' queue' (k - i) m v" if v: "map_of best' m = Some v" for m v
  proof (cases "map_of best' m = map_of best m")
    case True
    with v have "map_of best m = Some v" by simp
    then obtain i where i: "i \<le> h + 1" "covered g k best ((n, h) # queue) (k - i) m v" and u: "unit_f32 v"
      using inv unfolding trust_inv_def best_ok_def by blast
    from keep [OF i(2) u] i(1) show ?thesis by blast
  next
    case False
    then have q: "(m, h + 1) \<in> set queue'" using rel unfolding relaxed_def by blast
    have "f32_le v v" using rel v by (auto simp: relaxed_def best_ok_def)
    with q v have "covered g k best' queue' (k - (h + 1)) m v"
      by (cases "k - (h + 1)") (auto intro!: exI [of _ "h + 1"])
    then show ?thesis by blast
  qed
  moreover have "covered g k best' queue' k a (Fin 1)" using inv by (intro keep) (auto simp: trust_inv_def)
  moreover have "map_of best' (fst x) \<noteq> None" if x: "x \<in> set queue'" for x
  proof -
    have "x \<in> set queue \<or> fst x \<in> fst ` set es" using x new(2) unfolding new(1) by auto
    then consider "x \<in> set queue" | "fst x \<in> fst ` set es" by blast
    then show ?thesis
    proof cases
      case 1
      then have "map_of best (fst x) \<noteq> None" using inv by (auto simp: trust_inv_def)
      then show ?thesis using rel unfolding relaxed_def by blast
    next
      case 2
      then show ?thesis using edges by force
    qed
  qed
  moreover have "hops_ok queue' h" unfolding new(1) by (rule hops_ok_snoc [OF b(2)])
  ultimately show ?thesis using rel unfolding trust_inv_def relaxed_def by blast
qed

lemma trust_bfs_inv:
  assumes "graph_ok g" "trust_inv g k a queue best h"
  shows "\<exists>h. trust_inv g k a [] (trust_bfs g k queue best) h"
  using assms
proof (induction g k queue best arbitrary: h rule: trust_bfs.induct)
  case (1 g k best)
  then show ?case by auto
next
  case (2 g k n h' queue best)
  have inv: "trust_inv g k a ((n, h') # queue) best h'" using trust_inv_advance [OF 2(5)] by simp
  show ?case
  proof (cases "k \<le> h'")
    case True
    then show ?thesis using 2(1) [OF True 2(4)] trust_inv_drop [OF inv] by auto
  next
    case hops: False
    show ?thesis
    proof (cases "map_of g n")
      case None
      then have "\<forall>m. get_direct_trust g n m = None" by (simp add: get_direct_trust_def)
      with hops None show ?thesis using 2(2) [OF hops None 2(4)] trust_inv_drop [OF inv] by auto
    next
      case (Some es)
      have "trust_inv g k a (snd (relax_all n h' es best queue)) (fst (relax_all n h' es best queue)) h'"
        by (rule trust_inv_relax [OF 2(4) inv Some]) simp
      from 2(3) [OF hops Some 2(4) this] hops Some show ?thesis by simp
    qed
  qed
qed

text \<open>
  transitive trust between two nodes that have no direct edge is at least the rounded product of
  the weights of every chain of at most \<open>max_hops\<close> edges between them, and is itself such a product
  (of a chain that may be longer) or zero when no chain was found; it lies between 0 and 1. The
  search ends on every graph.
\<close>

theorem transitive_trust_best:
  fixes g :: TrustGraph and a b :: NodeID and max_hops :: nat
  assumes "graph_ok g" "a \<noteq> b" "get_direct_trust g a b = None"
  defines "r \<equiv> calculate_transitive_trust g a b max_hops"
  shows "unit_f32 r \<and>
    (\<forall>p. trust_walk g p \<and> hd p = a \<and> last p = b \<and> length p \<le> max_hops + 1 \<longrightarrow> f32_le (path_product g (Fin 1) p) r) \<and>
    (r = Fin 0 \<or> (\<exists>p. trust_walk g p \<and> hd p = a \<and> last p = b \<and> path_product g (Fin 1) p = r))"
proof -
  let ?best = "trust_bfs g max_hops [(a, 0)] (omap_set a (Fin 1) [])"
  have start: "covered g max_hops [(a, Fin 1)] [(a, 0)] max_hops a (Fin 1)" by (cases max_hops) auto
  have "best_ok g a [(a, Fin 1)]" by (auto simp: best_ok_def trust_walk_def intro!: exI [of _ "[a]"])
  then have "trust_inv g max_hops a [(a, 0)] [(a, Fin 1)] 0"
    using start by (auto simp: trust_inv_def hops_ok_def intro!: exI [of _ 0])
  from trust_bfs_inv [OF assms(1) this]
  have best: "best_ok g a ?best" and cov: "covered g max_hops ?best [] max_hops a (Fin 1)"
    unfolding trust_inv_def omap_set.simps by blast+
  have r: "r = opt_or (Fin 0) (map_of ?best b)"
    using assms(2,3) by (simp add: r_def calculate_transitive_trust_def)
  have "unit_f32 r \<and> (r = Fin 0 \<or> (\<exists>p. trust_walk g p \<and> hd p = a \<and> last p = b \<and> path_product g (Fin 1) p = r))"
    using best unfolding r by (cases "map_of ?best b") (auto simp: best_ok_def)
  moreover have "f32_le (path_product g (Fin 1) p) r"
    if p: "trust_walk g p" "hd p = a" "last p = b" "length p \<le> max_hops + 1" for p
  proof -
    obtain q where q: "p = a # q" using p(1,2) by (cases p) (auto simp: trust_walk_def)
    from covered_walk [OF assms(1) cov _ p(1) [unfolded q]] p(3,4)
    show ?thesis unfolding r by (auto simp: q)
  qed
  ultimately show ?thesis by blast
qed

theorem transitive_trust_best_witness:
  "unit_f32 (calculate_transitive_trust sample_graph (NodeID [1]) (NodeID [3]) 3)"
proof -
  have "get_direct_trust sample_graph (NodeID [1]) (NodeID [3]) = None"
    by (simp add: sample_graph_def get_direct_trust_def add_edge_def)
  from transitive_trust_best [OF sample_graph_ok _ this, of 3] show ?thesis by simp
qed

text \<open>The limit on the number of hops is not kept: the node 3 is queued at hop 1, its entry is improved by a
  detour of two hops before it is taken from the queue, and the improved value is used for the next
  hop. The only chain of at most two edges from 1 to 4 has the product 1/4, but the result is 1.\<close>

definition detour_graph :: TrustGraph where
  "detour_graph = foldl graph_step [] [AddEdge 1 (NodeID [1]) (NodeID [2]) (Fin 1), AddEdge 1 (NodeID [1]) (NodeID [3]) (Fin (1 / 4)),
     AddEdge 1 (NodeID [2]) (NodeID [3]) (Fin 1), AddEdge 1 (NodeID [3]) (NodeID [4]) (Fin 1)]"

lemma f32_of_rat_quarter [simp]: "f32_of_rat 1 = Fin 1" "f32_of_rat (1 / 4) = Fin (1 / 4)"
proof -
  have "(2::rat) powi (-2) = 1 / 4" by (simp add: power_int_minus)
  then have "representable 23 (-126) (1 / 4)" using representable_power [of "-126" 23 "-2"] by simp
  then show "f32_of_rat 1 = Fin 1" "f32_of_rat (1 / 4) = Fin (1 / 4)" by (auto intro: f32_of_rat_id)
qed

theorem transitive_trust_exceeds_hops:
  "calculate_transitive_trust detour_graph (NodeID [1]) (NodeID [4]) 2 = Fin 1 \<and>
   path_product detour_graph (Fin 1) [NodeID [1], NodeID [3], NodeID [4]] = Fin (1 / 4)"
  by (simp add: detour_graph_def add_edge_def clamp_unit_def calculate_transitive_trust_def get_direct_trust_def
      relax_all_def relax_def Let_def less_NodeID_def)

end
