(* ===== verification/Reputation.thy ===== *)
theory Reputation
  imports State Identity Trust_Graph "HOL-Library.Monad_Syntax"
begin

text \<open>
  \<open>ReputationManager\<close> of \<open>src/core/reputation/reputation.cpp\<close>, and \<open>AttestationSigner\<close> and \<open>VouchingWorkflow\<close>
  of \<open>src/core/reputation/attestation.cpp\<close>: scores, attestations, vouches, and the trust graph built from
  them.

  An \<open>int32_t\<close> is an integer; where C++ leaves an overflow or a conversion undefined the operation has no
  result (\<open>None\<close>). The clock is an argument, one reading per operation, and so are the state manager and
  \<open>std::sort\<close>, which leaves the order of equal elements open. The field \<open>action\<close> of an event that
  \<open>apply_score_delta\<close> records is never set in the code and absent here.
\<close>

section \<open>Data\<close>

definition int32 :: "int \<Rightarrow> int option" where
  "int32 n = (if - (2 ^ 31) \<le> n \<and> n < 2 ^ 31 then Some n else None)"

datatype ReputationAction = HOST_THING | CONTRIBUTE_BANDWIDTH | SUBMIT_POW | PROVIDE_POSTAKE | VOUCH_SUCCESSFUL
  | OFFLINE_PROLONGED | NETWORK_VIOLATION | SPAM_DETECTED | VOUCH_FAILED | CONTENT_REMOVED

record Attestation =
  at_attester :: NodeID
  at_subject :: NodeID
  at_score_delta :: int
  at_statement :: string
  at_timestamp :: u64
  at_expires_at :: u64
  at_signature :: bytes

definition attestation_expired :: "u64 \<Rightarrow> Attestation \<Rightarrow> bool" where
  "attestation_expired now a = (now \<ge> at_expires_at a)"

definition is_vouch :: "Attestation \<Rightarrow> bool" where
  "is_vouch a = (at_score_delta a > 0)"

definition is_denouncement :: "Attestation \<Rightarrow> bool" where
  "is_denouncement a = (at_score_delta a < 0)"

record VouchRecord =
  vr_voucher :: NodeID
  vr_vouchee :: NodeID
  vr_vouched_at :: u64
  vr_still_active :: bool
  vr_reputation_at_vouch :: int
  vr_current_reputation :: int

text \<open>Division of signed integers truncates.\<close>

definition half :: "int \<Rightarrow> int" where
  "half n = (if n < 0 then - (- n div 2) else n div 2)"

definition calculate_voucher_impact :: "VouchRecord \<Rightarrow> int option" where
  "calculate_voucher_impact v =
     (if \<not> vr_still_active v then Some 0
      else do {
        reputation_change \<leftarrow> int32 (vr_current_reputation v - vr_reputation_at_vouch v);
        let impact = half reputation_change;
        let impact = (if impact > 50 then 50 else impact);
        Some (if impact < -50 then -50 else impact) })"

record ReputationEvent =
  re_timestamp :: u64
  re_action :: "ReputationAction option"
  re_score_delta :: int
  re_score_after :: int
  re_related_node :: "NodeID option"
  re_details :: string

record ReputationScore =
  rs_node_id :: NodeID
  rs_total :: int
  rs_hosting :: int
  rs_contribution :: int
  rs_vouching :: int
  rs_penalty :: int
  rs_things_hosted :: u32
  rs_bandwidth :: u64
  rs_successful_vouches :: u32
  rs_failed_vouches :: u32
  rs_violations :: u32
  rs_recent_events :: "ReputationEvent list"

definition trust_level :: "ReputationScore \<Rightarrow> f32 option" where
  "trust_level s = do {
     n \<leftarrow> int32 (rs_total s + 1000);
     let normalized = f32_div (f32_of_int n) (Fin 11000);
     let normalized = (if f32_less normalized (Fin 0) then Fin 0 else normalized);
     Some (if f32_less (Fin 1) normalized then Fin 1 else normalized) }"

definition is_trustworthy :: "ReputationScore \<Rightarrow> bool" where
  "is_trustworthy s = (rs_total s \<ge> 100)"

definition is_suspicious :: "ReputationScore \<Rightarrow> bool" where
  "is_suspicious s = (rs_total s < -50)"

record ReputationManager =
  rp_scores :: "(NodeID \<times> ReputationScore) list"
  rp_attestations :: "(NodeID \<times> Attestation list) list"
  rp_vouches :: "(NodeID \<times> VouchRecord list) list"
  rp_graph :: TrustGraph

definition VOUCH_REPUTATION_REQUIREMENT :: int where "VOUCH_REPUTATION_REQUIREMENT = 100"
definition MAX_VOUCHES_PER_NODE :: nat where "MAX_VOUCHES_PER_NODE = 5"
definition REPUTATION_DECAY_RATE :: f32 where "REPUTATION_DECAY_RATE = f32_of_rat (99 / 100)"
definition REPUTATION_FLOOR :: int where "REPUTATION_FLOOR = -1000"
definition REPUTATION_CEILING :: int where "REPUTATION_CEILING = 10000"

section \<open>Scores\<close>

definition ReputationManager_init :: ReputationManager where
  "ReputationManager_init = \<lparr>rp_scores = [], rp_attestations = [], rp_vouches = [], rp_graph = []\<rparr>"

definition get_reputation :: "ReputationManager \<Rightarrow> NodeID \<Rightarrow> int" where
  "get_reputation m n = (case map_of (rp_scores m) n of None \<Rightarrow> 0 | Some s \<Rightarrow> rs_total s)"

definition ReputationScore_new :: "NodeID \<Rightarrow> ReputationScore" where
  "ReputationScore_new n = \<lparr>rs_node_id = n, rs_total = 0, rs_hosting = 0, rs_contribution = 0, rs_vouching = 0,
     rs_penalty = 0, rs_things_hosted = 0, rs_bandwidth = 0, rs_successful_vouches = 0, rs_failed_vouches = 0,
     rs_violations = 0, rs_recent_events = []\<rparr>"

definition get_detailed_score :: "ReputationManager \<Rightarrow> NodeID \<Rightarrow> ReputationScore" where
  "get_detailed_score m n = opt_or (ReputationScore_new n) (map_of (rp_scores m) n)"

definition initialize_score :: "NodeID \<Rightarrow> ReputationManager \<Rightarrow> ReputationManager" where
  "initialize_score n m =
     (case map_of (rp_scores m) n of
        None \<Rightarrow> m\<lparr>rp_scores := omap_set n (ReputationScore_new n) (rp_scores m)\<rparr>
      | Some _ \<Rightarrow> m)"

definition get_action_score :: "ReputationAction \<Rightarrow> int" where
  "get_action_score a = (case a of HOST_THING \<Rightarrow> 10 | CONTRIBUTE_BANDWIDTH \<Rightarrow> 5 | SUBMIT_POW \<Rightarrow> 2
     | PROVIDE_POSTAKE \<Rightarrow> 15 | VOUCH_SUCCESSFUL \<Rightarrow> 20 | OFFLINE_PROLONGED \<Rightarrow> -10 | NETWORK_VIOLATION \<Rightarrow> -50
     | SPAM_DETECTED \<Rightarrow> -30 | VOUCH_FAILED \<Rightarrow> -40 | CONTENT_REMOVED \<Rightarrow> -20)"

definition clamp_reputation :: "int \<Rightarrow> int" where
  "clamp_reputation score =
     (let score = (if score < REPUTATION_FLOOR then REPUTATION_FLOOR else score)
      in if score > REPUTATION_CEILING then REPUTATION_CEILING else score)"

text \<open>The components of the score that an action changes.\<close>

definition update_components :: "ReputationAction \<Rightarrow> int \<Rightarrow> ReputationScore \<Rightarrow> ReputationScore option" where
  "update_components a delta s = (case a of
       HOST_THING \<Rightarrow> do { v \<leftarrow> int32 (rs_hosting s + delta);
         Some (s\<lparr>rs_hosting := v, rs_things_hosted := rs_things_hosted s + 1\<rparr>) }
     | CONTRIBUTE_BANDWIDTH \<Rightarrow> do { v \<leftarrow> int32 (rs_contribution s + delta);
         Some (s\<lparr>rs_contribution := v, rs_bandwidth := rs_bandwidth s + 1\<rparr>) }
     | SUBMIT_POW \<Rightarrow> do { v \<leftarrow> int32 (rs_contribution s + delta); Some (s\<lparr>rs_contribution := v\<rparr>) }
     | PROVIDE_POSTAKE \<Rightarrow> do { v \<leftarrow> int32 (rs_contribution s + delta); Some (s\<lparr>rs_contribution := v\<rparr>) }
     | VOUCH_SUCCESSFUL \<Rightarrow> do { v \<leftarrow> int32 (rs_vouching s + delta);
         Some (s\<lparr>rs_vouching := v, rs_successful_vouches := rs_successful_vouches s + 1\<rparr>) }
     | VOUCH_FAILED \<Rightarrow> do { v \<leftarrow> int32 (rs_penalty s + delta);
         Some (s\<lparr>rs_penalty := v, rs_failed_vouches := rs_failed_vouches s + 1\<rparr>) }
     | _ \<Rightarrow> do { v \<leftarrow> int32 (rs_penalty s + delta);
         Some (s\<lparr>rs_penalty := v, rs_violations := rs_violations s + 1\<rparr>) })"

text \<open>\<open>push_back\<close>, then dropping the first event of more than 100.\<close>

definition push_event :: "ReputationEvent \<Rightarrow> ReputationScore \<Rightarrow> ReputationScore" where
  "push_event e s =
     (let es = rs_recent_events s @ [e] in s\<lparr>rs_recent_events := (if length es > 100 then tl es else es)\<rparr>)"

definition record_action :: "u64 \<Rightarrow> NodeID \<Rightarrow> ReputationAction \<Rightarrow> NodeID option \<Rightarrow> ReputationManager
    \<Rightarrow> ReputationManager option" where
  "record_action now n action related m =
     (let m = initialize_score n m; delta = get_action_score action in do {
        score \<leftarrow> map_of (rp_scores m) n;
        score \<leftarrow> update_components action delta score;
        total \<leftarrow> int32 (rs_total score + delta);
        let total = clamp_reputation total;
        let event = \<lparr>re_timestamp = now, re_action = Some action, re_score_delta = delta, re_score_after = total,
              re_related_node = related, re_details = []\<rparr>;
        Some (m\<lparr>rp_scores := omap_set n (push_event event (score\<lparr>rs_total := total\<rparr>)) (rp_scores m)\<rparr>) })"

definition apply_score_delta :: "u64 \<Rightarrow> NodeID \<Rightarrow> int \<Rightarrow> string \<Rightarrow> ReputationManager \<Rightarrow> ReputationManager option" where
  "apply_score_delta now n delta reason m =
     (let m = initialize_score n m in do {
        score \<leftarrow> map_of (rp_scores m) n;
        total \<leftarrow> int32 (rs_total score + delta);
        let total = clamp_reputation total;
        let event = \<lparr>re_timestamp = now, re_action = None, re_score_delta = delta, re_score_after = total,
              re_related_node = None, re_details = reason\<rparr>;
        Some (m\<lparr>rp_scores := omap_set n (push_event event (score\<lparr>rs_total := total\<rparr>)) (rp_scores m)\<rparr>) })"

section \<open>Attestations\<close>

definition verify_attestation :: "u64 \<Rightarrow> Attestation \<Rightarrow> bool" where
  "verify_attestation now a =
     (if attestation_expired now a then False
      else if node_bytes (at_attester a) = replicate 32 0 then False
      else if node_bytes (at_subject a) = replicate 32 0 then False
      else if at_attester a = at_subject a then False
      else if at_statement a = [] then False
      else if at_score_delta a < -100 \<or> at_score_delta a > 100 then False
      else list_ex (\<lambda>b. b \<noteq> 0) (at_signature a))"

definition attestation_weight :: "Attestation \<Rightarrow> f32" where
  "attestation_weight a =
     (if at_score_delta a > 50 then f32_of_rat (9 / 10)
      else if at_score_delta a > 20 then f32_of_rat (7 / 10)
      else if at_score_delta a > 0 then f32_of_rat (6 / 10)
      else if at_score_delta a < -50 then f32_of_rat (1 / 10)
      else if at_score_delta a < -20 then f32_of_rat (3 / 10)
      else if at_score_delta a < 0 then f32_of_rat (4 / 10)
      else f32_of_rat (5 / 10))"

definition update_trust_from_attestation :: "u64 \<Rightarrow> Attestation \<Rightarrow> TrustGraph \<Rightarrow> TrustGraph" where
  "update_trust_from_attestation now a g = add_edge now (at_attester a) (at_subject a) (attestation_weight a) g"

definition create_attestation :: "u64 \<Rightarrow> Attestation \<Rightarrow> ReputationManager \<Rightarrow> (bool \<times> ReputationManager) option" where
  "create_attestation now a m =
     (if attestation_expired now a then Some (False, m)
      else if \<not> verify_attestation now a then Some (False, m)
      else do {
        let m = m\<lparr>rp_attestations := omap_set (at_subject a)
              (opt_or [] (map_of (rp_attestations m) (at_subject a)) @ [a]) (rp_attestations m)\<rparr>;
        m \<leftarrow> apply_score_delta now (at_subject a) (at_score_delta a) (at_statement a) m;
        Some (True, m\<lparr>rp_graph := update_trust_from_attestation now a (rp_graph m)\<rparr>) })"

definition get_attestations_for :: "ReputationManager \<Rightarrow> NodeID \<Rightarrow> Attestation list" where
  "get_attestations_for m subject = opt_or [] (map_of (rp_attestations m) subject)"

definition get_attestations_by :: "ReputationManager \<Rightarrow> NodeID \<Rightarrow> Attestation list" where
  "get_attestations_by m attester =
     concat (map (\<lambda>(subject, as). filter (\<lambda>a. at_attester a = attester) as) (rp_attestations m))"

section \<open>Vouches\<close>

definition active_vouches :: "VouchRecord list \<Rightarrow> nat" where
  "active_vouches vs = length (filter vr_still_active vs)"

definition rep_can_vouch :: "StateManager \<Rightarrow> ReputationManager \<Rightarrow> NodeID \<Rightarrow> NodeID \<Rightarrow> bool" where
  "rep_can_vouch sm m voucher vouchee =
     (if get_reputation m voucher < VOUCH_REPUTATION_REQUIREMENT then False
      else if \<not> is_node_active sm vouchee then False
      else case map_of (rp_vouches m) voucher of
             Some vs \<Rightarrow> \<not> active_vouches vs \<ge> MAX_VOUCHES_PER_NODE
           | None \<Rightarrow> True)"

definition vouch_for_node :: "u64 \<Rightarrow> StateManager \<Rightarrow> NodeID \<Rightarrow> NodeID \<Rightarrow> ReputationManager \<Rightarrow> bool \<times> ReputationManager" where
  "vouch_for_node now sm voucher vouchee m =
     (if \<not> rep_can_vouch sm m voucher vouchee then (False, m)
      else let record = \<lparr>vr_voucher = voucher, vr_vouchee = vouchee, vr_vouched_at = now, vr_still_active = True,
                 vr_reputation_at_vouch = get_reputation m vouchee, vr_current_reputation = get_reputation m vouchee\<rparr>
           in (True, m\<lparr>rp_vouches := omap_set voucher (opt_or [] (map_of (rp_vouches m) voucher) @ [record]) (rp_vouches m),
                rp_graph := add_edge now voucher vouchee (f32_of_rat (8 / 10)) (rp_graph m)\<rparr>))"

definition rep_revoke_vouch :: "NodeID \<Rightarrow> NodeID \<Rightarrow> ReputationManager \<Rightarrow> bool \<times> ReputationManager" where
  "rep_revoke_vouch voucher vouchee m =
     (case map_of (rp_vouches m) voucher of
        None \<Rightarrow> (False, m)
      | Some vs \<Rightarrow>
          let revoked_any = list_ex (\<lambda>v. vr_vouchee v = vouchee \<and> vr_still_active v) vs;
              m = m\<lparr>rp_vouches := omap_set voucher (map (\<lambda>v. if vr_vouchee v = vouchee \<and> vr_still_active v
                      then v\<lparr>vr_still_active := False\<rparr> else v) vs) (rp_vouches m)\<rparr>
          in (revoked_any, if revoked_any then m\<lparr>rp_graph := remove_edge voucher vouchee (rp_graph m)\<rparr> else m))"

definition get_vouches_by :: "ReputationManager \<Rightarrow> NodeID \<Rightarrow> VouchRecord list" where
  "get_vouches_by m voucher = opt_or [] (map_of (rp_vouches m) voucher)"

definition get_vouches_for :: "ReputationManager \<Rightarrow> NodeID \<Rightarrow> VouchRecord list" where
  "get_vouches_for m vouchee = concat (map (\<lambda>(voucher, vs). filter (\<lambda>v. vr_vouchee v = vouchee) vs) (rp_vouches m))"

text \<open>The loop over the vouches of one voucher: their new contents, and the manager with the changed scores.\<close>

fun update_impacts :: "u64 \<Rightarrow> NodeID \<Rightarrow> VouchRecord list \<Rightarrow> ReputationManager \<Rightarrow> (VouchRecord list \<times> ReputationManager) option" where
  "update_impacts now voucher [] m = Some ([], m)"
| "update_impacts now voucher (v # vs) m =
     (if \<not> vr_still_active v then do { (vs', m) \<leftarrow> update_impacts now voucher vs m; Some (v # vs', m) }
      else do {
        let v = v\<lparr>vr_current_reputation := get_reputation m (vr_vouchee v)\<rparr>;
        impact \<leftarrow> calculate_voucher_impact v;
        m \<leftarrow> (if impact \<noteq> 0 then apply_score_delta now voucher impact ''Vouch impact'' m else Some m);
        (vs', m) \<leftarrow> update_impacts now voucher vs m;
        Some (v # vs', m) })"

fun update_all_impacts :: "u64 \<Rightarrow> (NodeID \<times> VouchRecord list) list \<Rightarrow> ReputationManager \<Rightarrow> ReputationManager option" where
  "update_all_impacts now [] m = Some m"
| "update_all_impacts now ((voucher, vs) # rest) m = do {
     (vs', m) \<leftarrow> update_impacts now voucher vs m;
     update_all_impacts now rest (m\<lparr>rp_vouches := omap_set voucher vs' (rp_vouches m)\<rparr>) }"

definition update_vouch_impacts :: "u64 \<Rightarrow> ReputationManager \<Rightarrow> ReputationManager option" where
  "update_vouch_impacts now m = update_all_impacts now (rp_vouches m) m"

definition rebuild_trust_graph :: "u64 \<Rightarrow> ReputationManager \<Rightarrow> ReputationManager" where
  "rebuild_trust_graph now m =
     (let g = fold (\<lambda>(subject, as) g. fold (\<lambda>a g. if \<not> attestation_expired now a
            then update_trust_from_attestation now a g else g) as g) (rp_attestations m) [];
          g = fold (\<lambda>(voucher, vs) g. fold (\<lambda>v g. if vr_still_active v
            then add_edge now voucher (vr_vouchee v) (f32_of_rat (8 / 10)) g else g) vs g) (rp_vouches m) g
      in m\<lparr>rp_graph := g\<rparr>)"

section \<open>Rankings, statistics and maintenance\<close>

text \<open>\<open>srt\<close> is \<open>std::sort\<close> by decreasing score.\<close>

definition get_top_reputation :: "((NodeID \<times> int) list \<Rightarrow> (NodeID \<times> int) list) \<Rightarrow> u32 \<Rightarrow> ReputationManager \<Rightarrow> NodeID list" where
  "get_top_reputation srt count m =
     (let scored_nodes = srt (map (\<lambda>(n, s). (n, rs_total s)) (rp_scores m))
      in map fst (take (min (unat count) (length scored_nodes)) scored_nodes))"

definition get_suspicious_nodes :: "ReputationManager \<Rightarrow> NodeID list" where
  "get_suspicious_nodes m = map fst (filter (\<lambda>(n, s). is_suspicious s) (rp_scores m))"

text \<open>The sum is converted to the unsigned type of \<open>size()\<close> before the division.\<close>

definition get_average_reputation :: "ReputationManager \<Rightarrow> int" where
  "get_average_reputation m =
     (if rp_scores m = [] then 0
      else let sum = sum_list (map (\<lambda>(n, s). rs_total s) (rp_scores m))
           in sint (ucast ((word_of_int sum :: u64) div of_nat (length (rp_scores m))) :: u32))"

definition get_median_reputation :: "ReputationManager \<Rightarrow> int" where
  "get_median_reputation m =
     (if rp_scores m = [] then 0
      else let all_scores = sort (map (\<lambda>(n, s). rs_total s) (rp_scores m)) in all_scores ! (length all_scores div 2))"

definition count_trustworthy_nodes :: "ReputationManager \<Rightarrow> nat" where
  "count_trustworthy_nodes m = length (filter (\<lambda>(n, s). is_trustworthy s) (rp_scores m))"

definition decay_int :: "int \<Rightarrow> int option" where
  "decay_int n = f32_to_int (- (2 ^ 31)) (2 ^ 31 - 1) (f32_mul (f32_of_int n) REPUTATION_DECAY_RATE)"

definition decay_score :: "ReputationScore \<Rightarrow> ReputationScore option" where
  "decay_score s = do {
     t \<leftarrow> decay_int (rs_total s);
     h \<leftarrow> decay_int (rs_hosting s);
     c \<leftarrow> decay_int (rs_contribution s);
     v \<leftarrow> decay_int (rs_vouching s);
     p \<leftarrow> decay_int (rs_penalty s);
     Some (s\<lparr>rs_total := t, rs_hosting := h, rs_contribution := c, rs_vouching := v, rs_penalty := p\<rparr>) }"

fun decay_scores :: "(NodeID \<times> ReputationScore) list \<Rightarrow> (NodeID \<times> ReputationScore) list option" where
  "decay_scores [] = Some []"
| "decay_scores ((n, s) # rest) = do { s' \<leftarrow> decay_score s; rest' \<leftarrow> decay_scores rest; Some ((n, s') # rest') }"

definition decay_reputation :: "ReputationManager \<Rightarrow> ReputationManager option" where
  "decay_reputation m = do {
     ss \<leftarrow> decay_scores (rp_scores m);
     Some (m\<lparr>rp_scores := ss, rp_graph := decay_edge_weights (f32_of_rat (95 / 100)) (rp_graph m)\<rparr>) }"

definition cleanup_expired_attestations :: "u64 \<Rightarrow> ReputationManager \<Rightarrow> ReputationManager" where
  "cleanup_expired_attestations now m =
     m\<lparr>rp_attestations := map (\<lambda>(subject, as). (subject, filter (\<lambda>a. \<not> attestation_expired now a) as)) (rp_attestations m)\<rparr>"

section \<open>Signed attestations\<close>

definition be_bytes :: "nat \<Rightarrow> 'a::len word \<Rightarrow> bytes" where
  "be_bytes n w = map (\<lambda>i. ucast (drop_bit (8 * i) w)) (rev [0..<n])"

definition attestation_to_signable_bytes :: "Attestation \<Rightarrow> bytes" where
  "attestation_to_signable_bytes a =
     node_bytes (at_attester a) @ node_bytes (at_subject a)
     @ map (\<lambda>i. word_of_int (drop_bit (8 * i) (at_score_delta a))) (rev [0..<4])
     @ be_bytes 4 (of_nat (length (at_statement a)) :: u32) @ bytes_of_string (at_statement a)
     @ be_bytes 8 (at_timestamp a) @ be_bytes 8 (at_expires_at a)"

definition sign_attestation :: "crypto_lib \<Rightarrow> NodeIdentity \<Rightarrow> Attestation \<Rightarrow> Attestation" where
  "sign_attestation C i a =
     (let a = a\<lparr>at_attester := ni_node_id i\<rparr>
      in a\<lparr>at_signature := NodeIdentity_sign C i (attestation_to_signable_bytes a)\<rparr>)"

definition verify_attestation_signature :: "crypto_lib \<Rightarrow> Attestation \<Rightarrow> bytes \<Rightarrow> bool" where
  "verify_attestation_signature C a public_key =
     cr_verify C (attestation_to_signable_bytes a) (at_signature a) public_key"

text \<open>The signature of a new attestation is not set: \<open>garbage\<close> is what the array happens to hold.\<close>

definition AttestationSigner_create :: "bytes \<Rightarrow> u64 \<Rightarrow> NodeID \<Rightarrow> NodeID \<Rightarrow> int \<Rightarrow> string \<Rightarrow> u64 \<Rightarrow> Attestation" where
  "AttestationSigner_create garbage now attester subject score_delta statement validity =
     \<lparr>at_attester = attester, at_subject = subject, at_score_delta = score_delta, at_statement = statement,
      at_timestamp = now, at_expires_at = now + validity, at_signature = garbage\<rparr>"

definition create_vouch_attestation :: "bytes \<Rightarrow> u64 \<Rightarrow> NodeID \<Rightarrow> NodeID \<Rightarrow> int \<Rightarrow> string \<Rightarrow> u64 \<Rightarrow> Attestation" where
  "create_vouch_attestation garbage now voucher vouchee score_boost statement validity =
     AttestationSigner_create garbage now voucher vouchee (if score_boost \<le> 0 then 20 else score_boost)
       (if statement = [] then ''Vouching for this node'' else statement) validity"

definition create_denouncement_attestation :: "bytes \<Rightarrow> u64 \<Rightarrow> NodeID \<Rightarrow> NodeID \<Rightarrow> int \<Rightarrow> string \<Rightarrow> u64 \<Rightarrow> Attestation" where
  "create_denouncement_attestation garbage now denouncer subject score_penalty reason validity =
     AttestationSigner_create garbage now denouncer subject (if score_penalty \<ge> 0 then -30 else score_penalty)
       (if reason = [] then ''Reporting negative behavior'' else reason) validity"

section \<open>The vouching workflow\<close>

definition request_vouch :: "crypto_lib \<Rightarrow> bytes \<Rightarrow> u64 \<Rightarrow> StateManager \<Rightarrow> NodeIdentity \<Rightarrow> NodeID \<Rightarrow> string
    \<Rightarrow> ReputationManager \<Rightarrow> (bool \<times> ReputationManager) option" where
  "request_vouch C garbage now sm i vouchee reason m =
     (if \<not> rep_can_vouch sm m (ni_node_id i) vouchee then Some (False, m)
      else let a = sign_attestation C i (create_vouch_attestation garbage now (ni_node_id i) vouchee 20 reason 2592000)
           in case vouch_for_node now sm (ni_node_id i) vouchee m of
                (False, m) \<Rightarrow> Some (False, m)
              | (True, m) \<Rightarrow> create_attestation now a m)"

definition has_vouch :: "ReputationManager \<Rightarrow> NodeID \<Rightarrow> NodeID \<Rightarrow> bool" where
  "has_vouch m voucher vouchee = list_ex (\<lambda>v. vr_vouchee v = vouchee \<and> vr_still_active v) (get_vouches_by m voucher)"

definition accept_vouch :: "crypto_lib \<Rightarrow> bytes \<Rightarrow> u64 \<Rightarrow> NodeIdentity \<Rightarrow> NodeID \<Rightarrow> ReputationManager
    \<Rightarrow> (bool \<times> ReputationManager) option" where
  "accept_vouch C garbage now i voucher m =
     (if \<not> has_vouch m voucher (ni_node_id i) then Some (False, m)
      else create_attestation now (sign_attestation C i
        (AttestationSigner_create garbage now (ni_node_id i) voucher 5 ''Accepting vouch'' 2592000)) m)"

definition workflow_revoke_vouch :: "bytes \<Rightarrow> u64 \<Rightarrow> NodeID \<Rightarrow> NodeID \<Rightarrow> string \<Rightarrow> ReputationManager
    \<Rightarrow> (bool \<times> ReputationManager) option" where
  "workflow_revoke_vouch garbage now voucher vouchee reason m =
     (if \<not> has_vouch m voucher vouchee then Some (False, m)
      else let a = create_denouncement_attestation garbage now voucher vouchee (-20)
                 (if reason = [] then ''Revoking vouch'' else reason) 864000
           in case rep_revoke_vouch voucher vouchee m of
                (False, m) \<Rightarrow> Some (False, m)
              | (True, m) \<Rightarrow> do { m \<leftarrow> apply_score_delta now vouchee (at_score_delta a) (at_statement a) m; Some (True, m) })"

definition get_active_vouches_for :: "ReputationManager \<Rightarrow> NodeID \<Rightarrow> VouchRecord list" where
  "get_active_vouches_for m vouchee = filter vr_still_active (get_vouches_for m vouchee)"

definition get_active_vouches_by :: "ReputationManager \<Rightarrow> NodeID \<Rightarrow> VouchRecord list" where
  "get_active_vouches_by m voucher = filter vr_still_active (get_vouches_by m voucher)"

text \<open>\<open>visited\<close> holds the nodes of the current chain.\<close>

function vouching_dfs :: "ReputationManager \<Rightarrow> nat \<Rightarrow> NodeID \<Rightarrow> nat \<Rightarrow> NodeID list \<Rightarrow> NodeID list list" where
  "vouching_dfs m max_depth current depth chain =
     (if depth \<ge> max_depth then []
      else if current \<in> set chain then []
      else let vouches = get_vouches_by m current in
        if vouches = [] then (if length (chain @ [current]) > 1 then [chain @ [current]] else [])
        else concat (map (\<lambda>v. if vr_still_active v then vouching_dfs m max_depth (vr_vouchee v) (depth + 1) (chain @ [current])
               else []) vouches))"
  by pat_completeness auto

termination
  by (relation "measure (\<lambda>(m, max_depth, c, depth, ch). max_depth - depth)") auto

declare vouching_dfs.simps [simp del]

definition get_vouching_chains :: "ReputationManager \<Rightarrow> NodeID \<Rightarrow> u32 \<Rightarrow> NodeID list list" where
  "get_vouching_chains m node max_depth = vouching_dfs m (unat max_depth) node 0 []"

record VouchingStats =
  vs_total_vouched_by :: u32
  vs_total_vouching :: u32
  vs_active_vouches :: u32
  vs_revoked_vouches :: u32
  vs_average_voucher_reputation :: f32
  vs_impact_score :: f32

definition sum_impacts :: "VouchRecord list \<Rightarrow> int option" where
  "sum_impacts vs = fold (\<lambda>v total. do { t \<leftarrow> total; i \<leftarrow> calculate_voucher_impact v; int32 (t + i) }) vs (Some 0)"

definition get_vouching_stats :: "ReputationManager \<Rightarrow> NodeID \<Rightarrow> VouchingStats option" where
  "get_vouching_stats m node =
     (let vouches_by = get_vouches_by m node; received = filter vr_still_active (get_vouches_for m node) in do {
        total_impact \<leftarrow> sum_impacts received;
        Some \<lparr>vs_total_vouched_by = of_nat (length (get_vouches_for m node)), vs_total_vouching = of_nat (length vouches_by),
          vs_active_vouches = of_nat (active_vouches vouches_by),
          vs_revoked_vouches = of_nat (length (filter (\<lambda>v. \<not> vr_still_active v) vouches_by)),
          vs_average_voucher_reputation = (if (of_nat (length received) :: u32) > 0
             then f32_div (f32_of_int (sum_list (map (\<lambda>v. get_reputation m (vr_voucher v)) received)))
                    (f32_of_int (int (unat (of_nat (length received) :: u32))))
             else Fin 0),
          vs_impact_score = f32_of_int total_impact\<rparr> })"

section \<open>The invariant\<close>

definition int32_ok :: "int \<Rightarrow> bool" where
  "int32_ok n \<longleftrightarrow> - (2 ^ 31) \<le> n \<and> n < 2 ^ 31"

definition components_ok :: "ReputationScore \<Rightarrow> bool" where
  "components_ok s \<longleftrightarrow> int32_ok (rs_hosting s) \<and> int32_ok (rs_contribution s) \<and> int32_ok (rs_vouching s) \<and>
     int32_ok (rs_penalty s)"

definition score_ok :: "ReputationScore \<Rightarrow> bool" where
  "score_ok s \<longleftrightarrow> -1000 \<le> rs_total s \<and> rs_total s \<le> 10000 \<and> length (rs_recent_events s) \<le> 100 \<and> components_ok s"

text \<open>Scores within their bounds, at most 100 events and five active vouches each, weights between 0 and 1.\<close>

definition rep_inv :: "ReputationManager \<Rightarrow> bool" where
  "rep_inv m \<longleftrightarrow> omap_all score_ok (rp_scores m) \<and> omap_all (\<lambda>vs. active_vouches vs \<le> 5) (rp_vouches m) \<and>
     graph_ok (rp_graph m)"

lemma weight_ok [simp]: "0 \<le> x \<Longrightarrow> x \<le> 1 \<Longrightarrow> f32_of_rat x \<noteq> NaN"
  by (rule f32_of_rat_unit_number)

lemma clamp_bounds [simp]: "-1000 \<le> clamp_reputation n" "clamp_reputation n \<le> 10000"
  by (simp_all add: clamp_reputation_def REPUTATION_FLOOR_def REPUTATION_CEILING_def Let_def)

lemma clamp_id: "-1000 \<le> n \<Longrightarrow> n \<le> 10000 \<Longrightarrow> clamp_reputation n = n"
  by (simp add: clamp_reputation_def REPUTATION_FLOOR_def REPUTATION_CEILING_def)

lemma int32_Some [simp]: "int32 n = Some v \<longleftrightarrow> v = n \<and> int32_ok n" "int32 n = None \<longleftrightarrow> \<not> int32_ok n"
  by (auto simp: int32_def int32_ok_def)

lemma score_ok_new [simp]: "score_ok (ReputationScore_new n)"
  by (simp add: score_ok_def components_ok_def int32_ok_def ReputationScore_new_def)

lemma score_ok_push: "score_ok s \<Longrightarrow> score_ok (push_event e (s\<lparr>rs_total := clamp_reputation t\<rparr>))"
  by (auto simp: score_ok_def components_ok_def push_event_def Let_def)

lemma initialize_score_at:
  "map_of (rp_scores (initialize_score n m)) n = Some (get_detailed_score m n)"
  by (auto simp: initialize_score_def get_detailed_score_def split: option.splits)

lemma initialize_score_frame [simp]:
  "rp_vouches (initialize_score n m) = rp_vouches m" "rp_graph (initialize_score n m) = rp_graph m"
  "rp_attestations (initialize_score n m) = rp_attestations m"
  "k \<noteq> n \<Longrightarrow> map_of (rp_scores (initialize_score n m)) k = map_of (rp_scores m) k"
  by (auto simp: initialize_score_def split: option.splits)

lemma initialize_score_ok: "rep_inv m \<Longrightarrow> rep_inv (initialize_score n m)"
  by (auto simp: rep_inv_def initialize_score_def split: option.splits)

lemma detailed_score_ok: "rep_inv m \<Longrightarrow> score_ok (get_detailed_score m n)"
  by (auto simp: rep_inv_def get_detailed_score_def intro: omap_all_at)

lemma get_reputation_detailed: "get_reputation m n = rs_total (get_detailed_score m n)"
  by (simp add: get_reputation_def get_detailed_score_def ReputationScore_new_def split: option.splits)

lemma reputation_bounds: "rep_inv m \<Longrightarrow> -1000 \<le> get_reputation m n \<and> get_reputation m n \<le> 10000"
  using detailed_score_ok [of m n] by (simp add: get_reputation_detailed score_ok_def)

lemma update_components_frame:
  "update_components a d s = Some s' \<Longrightarrow> components_ok s \<Longrightarrow>
     rs_total s' = rs_total s \<and> rs_recent_events s' = rs_recent_events s \<and> components_ok s'"
  by (auto simp: update_components_def components_ok_def split: ReputationAction.splits bind_splits)

lemma set_score_ok:
  assumes "rep_inv m" "score_ok s"
  shows "rep_inv (m\<lparr>rp_scores := omap_set n s (rp_scores m)\<rparr>)"
  using assms by (auto simp: rep_inv_def)

text \<open>Both ways to change a score: the new score, and what stays as it is.\<close>

lemma apply_score_delta_Some:
  "apply_score_delta now n d r m = Some m' \<longleftrightarrow>
     (int32_ok (get_reputation m n + d) \<and>
      m' = (initialize_score n m)\<lparr>rp_scores := omap_set n (push_event
        \<lparr>re_timestamp = now, re_action = None, re_score_delta = d, re_score_after = clamp_reputation (get_reputation m n + d),
          re_related_node = None, re_details = r\<rparr>
        ((get_detailed_score m n)\<lparr>rs_total := clamp_reputation (get_reputation m n + d)\<rparr>)) (rp_scores (initialize_score n m))\<rparr>)"
  by (auto simp: apply_score_delta_def initialize_score_at get_reputation_detailed Let_def split: bind_splits)

lemma rs_total_push [simp]: "rs_total (push_event e s) = rs_total s"
  by (simp add: push_event_def Let_def)

lemma apply_score_delta_ok:
  assumes "rep_inv m" "apply_score_delta now n d r m = Some m'"
  shows "rep_inv m'"
  using assms(2) initialize_score_ok [OF assms(1), of n] detailed_score_ok [OF assms(1), of n]
  by (auto simp: apply_score_delta_Some intro!: set_score_ok score_ok_push)

lemma apply_score_delta_effect:
  assumes "apply_score_delta now n d r m = Some m'"
  shows "get_reputation m' k = (if k = n then clamp_reputation (get_reputation m n + d) else get_reputation m k)"
    and "rp_vouches m' = rp_vouches m" "rp_graph m' = rp_graph m" "rp_attestations m' = rp_attestations m"
  using assms by (auto simp: apply_score_delta_Some get_reputation_def [of "_ \<lparr>rp_scores := _\<rparr>"] get_reputation_def [of m k])

lemma record_action_ok:
  assumes "rep_inv m" "record_action now n a rel m = Some m'"
  shows "rep_inv m'"
proof -
  obtain s t where s: "update_components a (get_action_score a) (get_detailed_score m n) = Some s"
    and m': "m' = (initialize_score n m)\<lparr>rp_scores := omap_set n (push_event
        \<lparr>re_timestamp = now, re_action = Some a, re_score_delta = get_action_score a, re_score_after = clamp_reputation t,
          re_related_node = rel, re_details = []\<rparr>
        (s\<lparr>rs_total := clamp_reputation t\<rparr>)) (rp_scores (initialize_score n m))\<rparr>"
    using assms(2) by (auto simp: record_action_def initialize_score_at Let_def split: bind_splits)
  have "score_ok s" using update_components_frame [OF s] detailed_score_ok [OF assms(1), of n] by (auto simp: score_ok_def)
  then show ?thesis unfolding m' by (intro set_score_ok initialize_score_ok assms(1) score_ok_push)
qed

lemma attestation_weight_ok: "attestation_weight a \<noteq> NaN" "f32_ok (attestation_weight a)"
  by (simp_all add: attestation_weight_def)

lemma create_attestation_ok:
  assumes "rep_inv m" "create_attestation now a m = Some (b, m')"
  shows "rep_inv m'"
proof (cases "attestation_expired now a \<or> \<not> verify_attestation now a")
  case False
  let ?m = "m\<lparr>rp_attestations := omap_set (at_subject a) (opt_or [] (map_of (rp_attestations m) (at_subject a)) @ [a]) (rp_attestations m)\<rparr>"
  obtain m1 where m1: "apply_score_delta now (at_subject a) (at_score_delta a) (at_statement a) ?m = Some m1"
    and m': "m' = m1\<lparr>rp_graph := update_trust_from_attestation now a (rp_graph m1)\<rparr>"
    using assms(2) False by (auto simp: create_attestation_def split: bind_splits)
  have "rep_inv ?m" using assms(1) by (simp add: rep_inv_def)
  then have "rep_inv m1" using m1 by (rule apply_score_delta_ok)
  then show ?thesis
    by (simp add: m' rep_inv_def update_trust_from_attestation_def add_edge_ok attestation_weight_ok)
qed (use assms in \<open>auto simp: create_attestation_def split: if_splits\<close>)

lemma vouch_for_node_ok:
  assumes "rep_inv m"
  shows "rep_inv (snd (vouch_for_node now sm a b m))"
proof (cases "rep_can_vouch sm m a b")
  case True
  then have "active_vouches (opt_or [] (map_of (rp_vouches m) a)) < 5"
    by (auto simp: rep_can_vouch_def MAX_VOUCHES_PER_NODE_def active_vouches_def split: if_splits option.splits)
  then have "omap_all (\<lambda>vs. active_vouches vs \<le> 5) (omap_set a (opt_or [] (map_of (rp_vouches m) a) @ [v]) (rp_vouches m))" for v
    using assms by (intro omap_all_set) (auto simp: rep_inv_def active_vouches_def)
  then show ?thesis using True assms by (simp add: vouch_for_node_def rep_inv_def add_edge_ok)
qed (simp add: vouch_for_node_def assms)

lemma active_after_revoke:
  "active_vouches (map (\<lambda>v. if vr_vouchee v = b \<and> vr_still_active v then v\<lparr>vr_still_active := False\<rparr> else v) vs)
    \<le> active_vouches vs"
  by (induction vs) (auto simp: active_vouches_def)

lemma rep_revoke_vouch_ok:
  assumes "rep_inv m"
  shows "rep_inv (snd (rep_revoke_vouch a b m))"
proof (cases "map_of (rp_vouches m) a")
  case (Some vs)
  then have "active_vouches vs \<le> 5" using assms by (auto simp: rep_inv_def dest: omap_all_find)
  then have "active_vouches (map (\<lambda>v. if vr_vouchee v = b \<and> vr_still_active v then v\<lparr>vr_still_active := False\<rparr> else v) vs) \<le> 5"
    using active_after_revoke le_trans by blast
  then show ?thesis using Some assms by (auto simp: rep_revoke_vouch_def rep_inv_def Let_def remove_edge_ok intro!: omap_all_set)
qed (simp add: rep_revoke_vouch_def assms)

lemma update_impacts_ok:
  "update_impacts now a vs m = Some (vs', m') \<Longrightarrow> rep_inv m \<Longrightarrow>
     rep_inv m' \<and> active_vouches vs' = active_vouches vs \<and> rp_vouches m' = rp_vouches m"
proof (induction now a vs m arbitrary: vs' m' rule: update_impacts.induct)
  case (2 now a v vs m)
  show ?case
  proof (cases "vr_still_active v")
    case False
    with 2(3) obtain ws where "update_impacts now a vs m = Some (ws, m')" "vs' = v # ws" by (auto split: bind_splits)
    with 2(1) [OF False] 2(4) False show ?thesis by (auto simp: active_vouches_def)
  next
    case True
    define w where "w = v\<lparr>vr_current_reputation := get_reputation m (vr_vouchee v)\<rparr>"
    from 2(3) True obtain i m1 ws where i: "calculate_voucher_impact w = Some i"
      and m1: "(if i \<noteq> 0 then apply_score_delta now a i ''Vouch impact'' m else Some m) = Some m1"
      and ws: "update_impacts now a vs m1 = Some (ws, m')" "vs' = w # ws"
      by (auto simp: w_def Let_def split: bind_splits)
    have "rep_inv m1 \<and> rp_vouches m1 = rp_vouches m"
      using m1 2(4) apply_score_delta_ok [OF 2(4)] apply_score_delta_effect(2) by (auto split: if_splits)
    with 2(2) [of w i m1 ws m'] i m1 ws True show ?thesis by (auto simp: w_def active_vouches_def Let_def)
  qed
qed simp

lemma update_all_impacts_ok:
  "update_all_impacts now ps m = Some m' \<Longrightarrow> rep_inv m \<Longrightarrow> list_all (\<lambda>p. active_vouches (snd p) \<le> 5) ps \<Longrightarrow> rep_inv m'"
proof (induction now ps m rule: update_all_impacts.induct)
  case (2 now a vs ps m)
  from 2(2) obtain ws m1 where r: "update_impacts now a vs m = Some (ws, m1)"
    "update_all_impacts now ps (m1\<lparr>rp_vouches := omap_set a ws (rp_vouches m1)\<rparr>) = Some m'"
    by (auto split: bind_splits)
  have "rep_inv m1" "active_vouches ws \<le> 5" using update_impacts_ok [OF r(1) 2(3)] 2(4) by auto
  then have "rep_inv (m1\<lparr>rp_vouches := omap_set a ws (rp_vouches m1)\<rparr>)" by (auto simp: rep_inv_def)
  with 2(1) [OF r(1) refl r(2)] 2(4) show ?case by simp
qed simp

lemma update_vouch_impacts_ok: "update_vouch_impacts now m = Some m' \<Longrightarrow> rep_inv m \<Longrightarrow> rep_inv m'"
  unfolding update_vouch_impacts_def
  by (erule update_all_impacts_ok) (auto simp: rep_inv_def omap_all_def)

lemma fold_graph_ok:
  assumes "\<And>x g. graph_ok g \<Longrightarrow> graph_ok (f x g)" "graph_ok g"
  shows "graph_ok (fold f xs g)"
  using assms(2) by (induction xs arbitrary: g) (auto intro: assms(1))

lemma rebuild_trust_graph_ok:
  assumes "rep_inv m"
  shows "rep_inv (rebuild_trust_graph now m)"
proof -
  have "graph_ok (rp_graph (rebuild_trust_graph now m))"
    by (auto simp: rebuild_trust_graph_def Let_def case_prod_beta update_trust_from_attestation_def
        add_edge_ok attestation_weight_ok intro!: fold_graph_ok)
  then show ?thesis using assms by (simp add: rep_inv_def rebuild_trust_graph_def Let_def)
qed

text \<open>Decay moves a score towards zero, and never overflows.\<close>

lemma decay_rate: "\<exists>c. REPUTATION_DECAY_RATE = Fin c \<and> 0 \<le> c \<and> c \<le> 127 / 128"
proof -
  have "(127 / 128 :: rat) = of_int 127 * 2 powi (-7)" by (simp add: power_int_minus)
  moreover have "representable 23 (-126) (of_int 127 * 2 powi (-7))" by (rule representable_scaled) auto
  ultimately have "representable 23 (-126) (127 / 128)" by simp
  then show ?thesis unfolding REPUTATION_DECAY_RATE_def by (intro f32_of_rat_between) auto
qed

lemma decay_int_small:
  assumes "\<bar>n\<bar> < 2 ^ 24"
  shows "\<exists>r. decay_int n = Some r \<and> (if 0 \<le> n then 0 \<le> r \<and> r \<le> n else n \<le> r \<and> r \<le> 0)"
proof -
  obtain c where c: "REPUTATION_DECAY_RATE = Fin c" "0 \<le> c" "c \<le> 127 / 128" using decay_rate by blast
  have rep: "representable 23 (-126) (of_int n)" using assms by (intro representable_int) auto
  have bound: "\<bar>of_int n :: rat\<bar> < of_int (2 ^ 24)" using assms by (metis of_int_abs of_int_less_iff)
  have mul: "f32_mul (f32_of_int n) REPUTATION_DECAY_RATE = f32_of_rat (of_int n * c)"
    unfolding c(1) using assms by simp
  show ?thesis
  proof (cases "0 \<le> n")
    case True
    have "0 \<le> of_int n * c" "of_int n * c \<le> of_int n" using True c by (auto simp: mult_left_le)
    from f32_of_rat_between [OF _ rep _ _ this] bound
    obtain r where r: "f32_of_rat (of_int n * c) = Fin r" "0 \<le> r" "r \<le> of_int n" by auto
    then have "0 \<le> rat_trunc r \<and> rat_trunc r \<le> n" by (intro rat_trunc_bounds) auto
    then show ?thesis using True assms r(1) unfolding decay_int_def mul by (auto simp: f32_to_int_def Let_def)
  next
    case False
    have "of_int n * c \<le> 0" using False c by (simp add: mult_nonpos_nonneg)
    moreover have "of_int n * 1 \<le> of_int n * c" using False c by (intro mult_left_mono_neg) auto
    ultimately have "of_int n \<le> of_int n * c" "of_int n * c \<le> 0" by auto
    from f32_of_rat_between [OF rep _ _ _ this] bound
    obtain r where r: "f32_of_rat (of_int n * c) = Fin r" "of_int n \<le> r" "r \<le> 0" by auto
    then have "n \<le> rat_trunc r \<and> rat_trunc r \<le> 0" by (intro rat_trunc_bounds) auto
    then show ?thesis using False assms r(1) unfolding decay_int_def mul by (auto simp: f32_to_int_def Let_def)
  qed
qed

lemma decay_int_total:
  assumes "- (2 ^ 31) \<le> n" "n \<le> 2 ^ 31"
  shows "\<exists>r. decay_int n = Some r"
proof -
  obtain c where c: "REPUTATION_DECAY_RATE = Fin c" "0 \<le> c" "c \<le> 127 / 128" using decay_rate by blast
  have rep: "representable 23 (-126) (2 ^ 31)" "representable 23 (-126) (127 * 2 ^ 24)"
    using representable_power [of "-126" 23 31] representable_scaled [of 127 23 "-126" 24] by (simp_all add: power_int_def)
  have "- (2 ^ 31) \<le> (of_int n :: rat)" "(of_int n :: rat) \<le> 2 ^ 31"
    using assms by simp_all
  from f32_of_rat_between [OF _ rep(1) _ _ this] rep(1)
  obtain x where x: "f32_of_int n = Fin x" "- (2 ^ 31) \<le> x" "x \<le> 2 ^ 31"
    by (auto simp: f32_of_int_def representable_minus)
  have "\<bar>x * c\<bar> \<le> 2 ^ 31 * (127 / 128)" unfolding abs_mult using x c by (intro mult_mono) auto
  then have "- (127 * 2 ^ 24) \<le> x * c" "x * c \<le> 127 * 2 ^ 24" by (auto simp: abs_le_iff)
  from f32_of_rat_between [OF _ rep(2) _ _ this] rep(2)
  obtain r where r: "f32_of_rat (x * c) = Fin r" "of_int (- (127 * 2 ^ 24)) \<le> r" "r \<le> of_int (127 * 2 ^ 24)"
    by (auto simp: representable_minus)
  from rat_trunc_bounds [OF r(2,3)] show ?thesis
    by (simp add: decay_int_def x(1) c(1) r(1) f32_to_int_def Let_def)
qed

text \<open>A small positive score loses at least one point.\<close>

lemma decay_int_strict:
  assumes "0 < n" "n \<le> 10000" "decay_int n = Some r"
  shows "r < n"
proof -
  obtain c where c: "REPUTATION_DECAY_RATE = Fin c" "0 \<le> c" "c \<le> 127 / 128" using decay_rate by blast
  have "(of_int n * (127 / 128) :: rat) = of_int (n * 127) * 2 powi (-7)" by (simp add: power_int_minus)
  moreover have "representable 23 (-126) (of_int (n * 127) * 2 powi (-7))" using assms by (intro representable_scaled) auto
  ultimately have rep: "representable 23 (-126) (of_int n * (127 / 128))" by simp
  have le: "0 \<le> of_int n * c" "of_int n * c \<le> of_int n * (127 / 128)" using assms(1) c by (auto intro: mult_left_mono)
  have n: "(of_int n :: rat) \<le> 10000" using assms(2) by simp
  have "\<bar>of_int n * (127 / 128) :: rat\<bar> < 2 ^ 128" using n assms(1) by simp
  from f32_of_rat_between [OF _ rep _ this le]
  obtain x where x: "f32_of_rat (of_int n * c) = Fin x" "0 \<le> x" "x \<le> of_int n * (127 / 128)" by auto
  have "x < of_int n" using x(3) assms(1) by simp
  then have "rat_trunc x < n" using x(2) by (simp add: rat_trunc_def floor_less_iff)
  moreover have "f32_mul (f32_of_int n) REPUTATION_DECAY_RATE = f32_of_rat (of_int n * c)"
    unfolding c(1) using assms(1,2) by simp
  ultimately show ?thesis using assms(3) x(1) by (auto simp: decay_int_def f32_to_int_def Let_def split: if_splits)
qed

lemma decay_int_ok: "decay_int n = Some r \<Longrightarrow> int32_ok r"
  by (auto simp: decay_int_def f32_to_int_def int32_ok_def Let_def split: f32.splits if_splits)

lemma decay_score_cases:
  assumes "score_ok s"
  shows "\<exists>s'. decay_score s = Some s' \<and> score_ok s' \<and> decay_int (rs_total s) = Some (rs_total s')"
proof -
  have "\<bar>rs_total s\<bar> < 2 ^ 24" using assms by (auto simp: score_ok_def)
  from decay_int_small [OF this] obtain t where t: "decay_int (rs_total s) = Some t"
    "if 0 \<le> rs_total s then 0 \<le> t \<and> t \<le> rs_total s else rs_total s \<le> t \<and> t \<le> 0" by blast
  have "\<exists>r. decay_int n = Some r" if "int32_ok n" for n using that by (intro decay_int_total) (auto simp: int32_ok_def)
  then obtain h c v p where "decay_int (rs_hosting s) = Some h" "decay_int (rs_contribution s) = Some c"
    "decay_int (rs_vouching s) = Some v" "decay_int (rs_penalty s) = Some p"
    using assms by (auto simp: score_ok_def components_ok_def) meson
  with t assms show ?thesis
    by (auto simp: decay_score_def score_ok_def components_ok_def dest: decay_int_ok split: if_splits)
qed

lemma decay_score_ok: "decay_score s = Some s' \<Longrightarrow> score_ok s \<Longrightarrow> score_ok s'"
  using decay_score_cases by fastforce

lemma decay_scores_ok: "decay_scores ps = Some qs \<Longrightarrow> list_all (\<lambda>p. score_ok (snd p)) ps \<Longrightarrow>
    map fst qs = map fst ps \<and> list_all (\<lambda>p. score_ok (snd p)) qs"
  by (induction ps arbitrary: qs rule: decay_scores.induct) (auto split: bind_splits dest: decay_score_ok)

lemma decay_reputation_ok:
  assumes "decay_reputation m = Some m'" "rep_inv m"
  shows "rep_inv m'"
proof -
  obtain qs where qs: "decay_scores (rp_scores m) = Some qs"
    and m': "m' = m\<lparr>rp_scores := qs, rp_graph := decay_edge_weights (f32_of_rat (95 / 100)) (rp_graph m)\<rparr>"
    using assms(1) by (auto simp: decay_reputation_def split: bind_splits)
  have "omap_all score_ok qs"
    using decay_scores_ok [OF qs] assms(2) by (auto simp: rep_inv_def omap_all_def omap_ok_def)
  then show ?thesis using assms(2) by (simp add: m' rep_inv_def decay_edge_weights_ok unit_f32_of_rat)
qed

lemma workflow_ok:
  assumes "rep_inv m"
  shows "request_vouch C ga now sm i b r m = Some (x, m') \<Longrightarrow> rep_inv m'"
    and "accept_vouch C ga now i a m = Some (x, m') \<Longrightarrow> rep_inv m'"
    and "workflow_revoke_vouch ga now a b r m = Some (x, m') \<Longrightarrow> rep_inv m'"
proof -
  show "request_vouch C ga now sm i b r m = Some (x, m') \<Longrightarrow> rep_inv m'"
    using vouch_for_node_ok [OF assms, of now sm "ni_node_id i" b] assms
    by (auto simp: request_vouch_def Let_def split: if_splits prod.splits bool.splits dest: create_attestation_ok)
  show "accept_vouch C ga now i a m = Some (x, m') \<Longrightarrow> rep_inv m'"
    using assms by (auto simp: accept_vouch_def split: if_splits dest: create_attestation_ok)
  show "workflow_revoke_vouch ga now a b r m = Some (x, m') \<Longrightarrow> rep_inv m'"
    using rep_revoke_vouch_ok [OF assms, of a b] assms
    by (auto simp: workflow_revoke_vouch_def Let_def split: if_splits prod.splits bool.splits bind_splits
        dest: apply_score_delta_ok)
qed

datatype reputation_op =
    RecordAction u64 NodeID ReputationAction "NodeID option"
  | ApplyDelta u64 NodeID int string
  | CreateAttestation u64 Attestation
  | VouchFor u64 StateManager NodeID NodeID
  | RevokeVouch NodeID NodeID
  | UpdateImpacts u64
  | RebuildGraph u64
  | DecayAll
  | CleanupAttestations u64
  | RequestVouch crypto_lib bytes u64 StateManager NodeIdentity NodeID string
  | AcceptVouch crypto_lib bytes u64 NodeIdentity NodeID
  | WorkflowRevoke bytes u64 NodeID NodeID string

fun reputation_step :: "ReputationManager \<Rightarrow> reputation_op \<Rightarrow> ReputationManager option" where
  "reputation_step m (RecordAction now n a r) = record_action now n a r m"
| "reputation_step m (ApplyDelta now n d r) = apply_score_delta now n d r m"
| "reputation_step m (CreateAttestation now a) = map_option snd (create_attestation now a m)"
| "reputation_step m (VouchFor now sm a b) = Some (snd (vouch_for_node now sm a b m))"
| "reputation_step m (RevokeVouch a b) = Some (snd (rep_revoke_vouch a b m))"
| "reputation_step m (UpdateImpacts now) = update_vouch_impacts now m"
| "reputation_step m (RebuildGraph now) = Some (rebuild_trust_graph now m)"
| "reputation_step m DecayAll = decay_reputation m"
| "reputation_step m (CleanupAttestations now) = Some (cleanup_expired_attestations now m)"
| "reputation_step m (RequestVouch C ga now sm i b r) = map_option snd (request_vouch C ga now sm i b r m)"
| "reputation_step m (AcceptVouch C ga now i a) = map_option snd (accept_vouch C ga now i a m)"
| "reputation_step m (WorkflowRevoke ga now a b r) = map_option snd (workflow_revoke_vouch ga now a b r m)"

definition reputation_run :: "reputation_op list \<Rightarrow> ReputationManager option" where
  "reputation_run xs = foldl (\<lambda>r x. Option.bind r (\<lambda>m. reputation_step m x)) (Some ReputationManager_init) xs"

lemma reputation_step_ok:
  assumes "reputation_step m x = Some m'" "rep_inv m"
  shows "rep_inv m'"
proof (cases x)
  case (CleanupAttestations now)
  then show ?thesis using assms by (auto simp: cleanup_expired_attestations_def rep_inv_def)
qed (use assms in \<open>auto simp: vouch_for_node_ok rep_revoke_vouch_ok rebuild_trust_graph_ok
    intro: record_action_ok apply_score_delta_ok create_attestation_ok update_vouch_impacts_ok decay_reputation_ok workflow_ok\<close>)

interpretation reputation: invariant_machine "\<lambda>r x. Option.bind r (\<lambda>m. reputation_step m x)"
  "\<lambda>r. \<forall>m. r = Some m \<longrightarrow> rep_inv m"
  by unfold_locales (auto split: bind_splits intro: reputation_step_ok)

lemma reputation_run_ok: "reputation_run xs = Some m \<Longrightarrow> rep_inv m"
  using reputation.run_inv [of "Some ReputationManager_init" xs]
  by (simp add: reputation_run_def ReputationManager_init_def rep_inv_def)

section \<open>Properties\<close>

text \<open>
  C24: after every sequence of operations of the manager and of the vouching workflow that has a result,
  every reputation lies between -1000 and 10000, no node has more than 100 recent events or vouches
  for more than five nodes at once, and every trust weight lies between 0 and 1.
\<close>

theorem reputation_invariant:
  assumes "reputation_run xs = Some m"
  shows "-1000 \<le> get_reputation m n \<and> get_reputation m n \<le> 10000 \<and>
    length (rs_recent_events (get_detailed_score m n)) \<le> 100 \<and>
    length (get_active_vouches_by m n) \<le> 5 \<and> pred_option unit_f32 (get_direct_trust (rp_graph m) n k)"
proof -
  have inv: "rep_inv m" by (rule reputation_run_ok [OF assms])
  have "active_vouches (opt_or [] (map_of (rp_vouches m) n)) \<le> 5"
    using inv by (auto simp: rep_inv_def active_vouches_def dest: omap_all_at [of _ _ "[]" n])
  moreover have "pred_option unit_f32 (get_direct_trust (rp_graph m) n k)"
    using inv direct_trust_ok [of "rp_graph m" n k] by (cases "get_direct_trust (rp_graph m) n k") (auto simp: rep_inv_def)
  ultimately show ?thesis
    using reputation_bounds [OF inv, of n] detailed_score_ok [OF inv, of n]
    by (simp add: get_active_vouches_by_def get_vouches_by_def active_vouches_def score_ok_def)
qed

theorem reputation_invariant_witness:
  "\<exists>m. reputation_run [RecordAction 7 (NodeID [1]) HOST_THING None, ApplyDelta 8 (NodeID [1]) 100 ''x''] = Some m \<and>
     get_reputation m (NodeID [1]) = 110 \<and> length (rs_recent_events (get_detailed_score m (NodeID [1]))) \<le> 100"
proof -
  obtain m where m: "reputation_run [RecordAction 7 (NodeID [1]) HOST_THING None, ApplyDelta 8 (NodeID [1]) 100 ''x''] = Some m"
    "get_reputation m (NodeID [1]) = 110"
    by (simp add: reputation_run_def ReputationManager_init_def record_action_def apply_score_delta_def initialize_score_def
        ReputationScore_new_def get_action_score_def update_components_def int32_def clamp_reputation_def
        REPUTATION_FLOOR_def REPUTATION_CEILING_def push_event_def get_reputation_def Let_def)
  with reputation_invariant [OF m(1), of "NodeID [1]" "NodeID [1]"] show ?thesis by blast
qed

lemma decay_scores_find:
  assumes "list_all (\<lambda>p. score_ok (snd p)) ps"
  shows "\<exists>qs. decay_scores ps = Some qs \<and> (\<forall>n. rel_option (\<lambda>s s'. decay_int (rs_total s) = Some (rs_total s')) (map_of ps n) (map_of qs n))"
  using assms
proof (induction ps rule: decay_scores.induct)
  case (2 n s rest)
  obtain s' where s': "decay_score s = Some s'" "decay_int (rs_total s) = Some (rs_total s')"
    using decay_score_cases [of s] 2(2) by auto
  from 2(1) [OF s'(1)] 2(2) obtain qs where "decay_scores rest = Some qs"
    "\<And>n. rel_option (\<lambda>s s'. decay_int (rs_total s) = Some (rs_total s')) (map_of rest n) (map_of qs n)" by auto
  with s' show ?case by auto
qed simp

text \<open>
  periodic decay always has a result (no conversion or product overflows) and moves every
  reputation towards zero without changing its sign; a positive reputation loses at least one point
  each time, so that it reaches zero after at most 10000 rounds.
\<close>

theorem reputation_decays:
  assumes "reputation_run xs = Some m"
  shows "\<exists>m'. decay_reputation m = Some m' \<and>
    (\<forall>n. if get_reputation m n > 0 then 0 \<le> get_reputation m' n \<and> get_reputation m' n < get_reputation m n
         else get_reputation m n \<le> get_reputation m' n \<and> get_reputation m' n \<le> 0)"
proof -
  have inv: "rep_inv m" by (rule reputation_run_ok [OF assms])
  then obtain qs where qs: "decay_scores (rp_scores m) = Some qs"
    and rel: "\<And>n. rel_option (\<lambda>s s'. decay_int (rs_total s) = Some (rs_total s')) (map_of (rp_scores m) n) (map_of qs n)"
    using decay_scores_find [of "rp_scores m"] by (auto simp: rep_inv_def omap_all_def)
  obtain m' where m': "decay_reputation m = Some m'" "rp_scores m' = qs" using qs by (simp add: decay_reputation_def)
  have "if get_reputation m n > 0 then 0 \<le> get_reputation m' n \<and> get_reputation m' n < get_reputation m n
         else get_reputation m n \<le> get_reputation m' n \<and> get_reputation m' n \<le> 0" for n
  proof (cases "map_of (rp_scores m) n")
    case None
    then show ?thesis using rel [of n] by (auto simp: get_reputation_def m'(2) split: option.splits)
  next
    case (Some s)
    with rel [of n] obtain s' where s': "map_of qs n = Some s'" "decay_int (rs_total s) = Some (rs_total s')"
      by (cases "map_of qs n") auto
    have b: "-1000 \<le> rs_total s" "rs_total s \<le> 10000"
      using inv Some by (auto simp: rep_inv_def score_ok_def dest: omap_all_find)
    from b have "\<bar>rs_total s\<bar> < 2 ^ 24" by auto
    from decay_int_small [OF this] s'(2) have "if 0 \<le> rs_total s then 0 \<le> rs_total s' \<and> rs_total s' \<le> rs_total s
      else rs_total s \<le> rs_total s' \<and> rs_total s' \<le> 0" by simp
    then show ?thesis
      using Some s' b decay_int_strict [of "rs_total s" "rs_total s'"] by (auto simp: get_reputation_def m'(2) split: if_splits)
  qed
  with m'(1) show ?thesis by blast
qed

theorem reputation_decays_witness:
  "\<exists>m m'. reputation_run [ApplyDelta 8 (NodeID [1]) 100 ''x''] = Some m \<and> decay_reputation m = Some m' \<and>
     get_reputation m' (NodeID [1]) < get_reputation m (NodeID [1])"
proof -
  obtain m where m: "reputation_run [ApplyDelta 8 (NodeID [1]) 100 ''x''] = Some m" "get_reputation m (NodeID [1]) = 100"
    by (simp add: reputation_run_def ReputationManager_init_def apply_score_delta_def initialize_score_def
        ReputationScore_new_def int32_def clamp_reputation_def REPUTATION_FLOOR_def REPUTATION_CEILING_def
        push_event_def get_reputation_def Let_def)
  from reputation_decays [OF m(1)] obtain m' where "decay_reputation m = Some m'"
    "0 \<le> get_reputation m' (NodeID [1]) \<and> get_reputation m' (NodeID [1]) < get_reputation m (NodeID [1])"
    using m(2) by (auto dest: spec [of _ "NodeID [1]"])
  with m show ?thesis by blast
qed

section \<open>The trust graph as a function of the records\<close>

lemma direct_trust_add_edge:
  "get_direct_trust (add_edge now a b w g) x y = (if x = a \<and> y = b then Some (clamp_unit w) else get_direct_trust g x y)"
  by (auto simp: get_direct_trust_def add_edge_def split: option.splits)

lemma clamp_unit_id: "unit_f32 w \<Longrightarrow> clamp_unit w = w"
  by (auto simp: unit_f32_def clamp_unit_def)

lemma fold_nested: "fold (\<lambda>(k, xs) g. fold f xs g) ps g = fold f (concat (map snd ps)) g"
  by (induction ps arbitrary: g) (auto simp: fold_append)

lemma fold_pairs: "fold (\<lambda>(k, xs) g. fold (f k) xs g) ps g = fold (\<lambda>x g. f (fst x) (snd x) g) (concat (map (\<lambda>(k, xs). map (Pair k) xs) ps)) g"
  by (induction ps arbitrary: g) (auto simp: fold_append fold_map o_def)

text \<open>The last element of a list, if any.\<close>

definition last_of :: "'a list \<Rightarrow> 'a option" where
  "last_of xs = (if xs = [] then None else Some (last xs))"

lemma direct_trust_fold:
  "get_direct_trust (fold (\<lambda>x g. if P x then add_edge now (src x) (dst x) (w x) g else g) xs g) a b =
    (case last_of (filter (\<lambda>x. P x \<and> src x = a \<and> dst x = b) xs) of
       None \<Rightarrow> get_direct_trust g a b | Some x \<Rightarrow> Some (clamp_unit (w x)))"
proof (induction xs rule: rev_induct)
  case (snoc x xs)
  then show ?case by (auto simp: last_of_def direct_trust_add_edge split: if_splits)
qed (simp add: last_of_def)

definition all_attestations :: "ReputationManager \<Rightarrow> Attestation list" where
  "all_attestations m = concat (map snd (rp_attestations m))"

lemma unit_weights: "unit_f32 (attestation_weight a)" "unit_f32 (f32_of_rat (8 / 10))"
  by (auto simp: attestation_weight_def intro!: unit_f32_of_rat)

lemma rebuild_direct_trust:
  assumes "omap_ok (rp_vouches m)"
  shows "get_direct_trust (rp_graph (rebuild_trust_graph now m)) a b =
    (if has_vouch m a b then Some (f32_of_rat (8 / 10))
     else map_option attestation_weight (last_of (filter (\<lambda>x. \<not> attestation_expired now x \<and> at_attester x = a \<and> at_subject x = b)
       (all_attestations m))))"
proof -
  let ?as = "fold (\<lambda>x g. if \<not> attestation_expired now x then add_edge now (at_attester x) (at_subject x) (attestation_weight x) g else g)
    (all_attestations m) []"
  let ?ps = "concat (map (\<lambda>(k, xs). map (Pair k) xs) (rp_vouches m))"
  have g: "rp_graph (rebuild_trust_graph now m) =
      fold (\<lambda>x g. if vr_still_active (snd x) then add_edge now (fst x) (vr_vouchee (snd x)) (f32_of_rat (8 / 10)) g else g) ?ps ?as"
    by (simp add: rebuild_trust_graph_def Let_def update_trust_from_attestation_def fold_nested fold_pairs
        all_attestations_def cong: if_cong)
  have mem: "(k, v) \<in> set ?ps \<longleftrightarrow> v \<in> set (get_vouches_by m k)" for k v
    using omap_find_iff [OF assms] by (force simp: get_vouches_by_def opt_or_def split: option.splits)
  have "filter (\<lambda>x. vr_still_active (snd x) \<and> fst x = a \<and> vr_vouchee (snd x) = b) ?ps = [] \<longleftrightarrow> \<not> has_vouch m a b"
    unfolding has_vouch_def list_ex_iff filter_empty_conv using mem by fastforce
  then show ?thesis
    unfolding g direct_trust_fold
    by (auto simp: last_of_def get_direct_trust_def clamp_unit_id unit_weights unit_f32_of_rat)
qed

text \<open>
  rebuilding the trust graph makes it a function of the records: a node trusts another with weight
  0.8 when it has an active vouch for it, else with the weight of its latest attestation about it that
  has not expired, and otherwise not at all.
\<close>

theorem rebuilt_trust:
  assumes "reputation_run xs = Some m"
  shows "get_direct_trust (rp_graph (rebuild_trust_graph now m)) a b =
    (if has_vouch m a b then Some (f32_of_rat (8 / 10))
     else map_option attestation_weight (last_of (filter (\<lambda>x. \<not> attestation_expired now x \<and> at_attester x = a \<and> at_subject x = b)
       (all_attestations m))))"
  using reputation_run_ok [OF assms] by (intro rebuild_direct_trust) (simp add: rep_inv_def omap_all_def)

theorem rebuilt_trust_witness:
  "get_direct_trust (rp_graph (rebuild_trust_graph 5 ReputationManager_init)) (NodeID [1]) (NodeID [2]) = None"
proof -
  have "reputation_run [] = Some ReputationManager_init" by (simp add: reputation_run_def)
  from rebuilt_trust [OF this, of 5 "NodeID [1]" "NodeID [2]"] show ?thesis
    by (simp add: ReputationManager_init_def has_vouch_def get_vouches_by_def all_attestations_def last_of_def)
qed

text \<open>
  a vouch made through the workflow stores an active vouch, raises the reputation of the vouched
  node by 20 (up to the ceiling) and leaves trust 0.6: the attestation that accompanies the vouch
  overwrites the edge of weight 0.8, which comes back when the graph is rebuilt.
\<close>

theorem request_vouch_effect:
  assumes "reputation_run xs = Some m" "request_vouch C ga now sm i b reason m = Some (True, m')"
  shows "has_vouch m' (ni_node_id i) b \<and>
    get_reputation m' b = clamp_reputation (get_reputation m b + 20) \<and>
    get_direct_trust (rp_graph m') (ni_node_id i) b = Some (f32_of_rat (6 / 10)) \<and>
    get_direct_trust (rp_graph (rebuild_trust_graph later m')) (ni_node_id i) b = Some (f32_of_rat (8 / 10))"
proof -
  let ?a = "sign_attestation C i (create_vouch_attestation ga now (ni_node_id i) b 20 reason 2592000)"
  have att: "at_attester ?a = ni_node_id i" "at_subject ?a = b" "at_score_delta ?a = 20"
    by (simp_all add: sign_attestation_def create_vouch_attestation_def AttestationSigner_create_def Let_def)
  obtain m1 where m1: "vouch_for_node now sm (ni_node_id i) b m = (True, m1)" "create_attestation now ?a m1 = Some (True, m')"
    using assms(2) by (auto simp: request_vouch_def Let_def split: if_splits prod.splits bool.splits)
  let ?m2 = "m1\<lparr>rp_attestations := omap_set b (opt_or [] (map_of (rp_attestations m1) b) @ [?a]) (rp_attestations m1)\<rparr>"
  obtain m3 where m3: "apply_score_delta now b 20 (at_statement ?a) ?m2 = Some m3"
    and m': "m' = m3\<lparr>rp_graph := update_trust_from_attestation now ?a (rp_graph m3)\<rparr>"
    using m1(2) by (auto simp: create_attestation_def att split: if_splits bind_splits)
  have rep: "get_reputation ?m2 n = get_reputation m n" for n
    using m1(1) by (auto simp: vouch_for_node_def get_reputation_def Let_def split: if_splits)
  have vouches: "rp_vouches m' = rp_vouches m1" using apply_score_delta_effect(2) [OF m3] by (simp add: m')
  have has: "has_vouch m' (ni_node_id i) b"
    using m1(1) unfolding has_vouch_def get_vouches_by_def vouches
    by (auto simp: vouch_for_node_def Let_def split: if_splits)
  have "get_reputation m' b = get_reputation m3 b" by (simp add: m' get_reputation_def)
  then have r: "get_reputation m' b = clamp_reputation (get_reputation m b + 20)"
    using apply_score_delta_effect(1) [OF m3, of b] by (simp add: rep)
  have t: "get_direct_trust (rp_graph m') (ni_node_id i) b = Some (f32_of_rat (6 / 10))"
    using unit_weights(1) [of ?a] by (simp add: m' update_trust_from_attestation_def direct_trust_add_edge att clamp_unit_id)
      (simp add: attestation_weight_def att)
  have "omap_ok (rp_vouches m')"
    using workflow_ok(1) [OF reputation_run_ok [OF assms(1)] assms(2)] by (simp add: rep_inv_def omap_all_def)
  from rebuild_direct_trust [OF this] has r t show ?thesis by simp
qed

text \<open>A node with reputation 200 vouches for an active node.\<close>

definition vouching_state :: StateManager where
  "vouching_state = empty_state\<lparr>sm_nodes := [(NodeID (replicate 32 9), NodeState_new\<lparr>ns_is_active := True\<rparr>)]\<rparr>"

definition vouching_manager :: ReputationManager where
  "vouching_manager = ReputationManager_init\<lparr>rp_scores := [(NodeID (replicate 32 1),
     push_event \<lparr>re_timestamp = 8, re_action = None, re_score_delta = 200, re_score_after = 200,
       re_related_node = None, re_details = ''x''\<rparr> ((ReputationScore_new (NodeID (replicate 32 1)))\<lparr>rs_total := 200\<rparr>))]\<rparr>"

lemma vouching_manager_run: "reputation_run [ApplyDelta 8 (NodeID (replicate 32 1)) 200 ''x''] = Some vouching_manager"
  by (simp add: reputation_run_def ReputationManager_init_def vouching_manager_def apply_score_delta_def initialize_score_def
      ReputationScore_new_def int32_def clamp_reputation_def REPUTATION_FLOOR_def REPUTATION_CEILING_def Let_def)

lemma sample_identity_id: "ni_node_id sample_identity = NodeID (replicate 32 1)"
  by (simp add: sample_identity_def NodeIdentity_generate_def NodeIdentity_new_def toy_crypto_def)

lemma vouching_request:
  "\<exists>m. request_vouch toy_crypto [] 10 vouching_state sample_identity (NodeID (replicate 32 9)) ''ok'' vouching_manager = Some (True, m)"
proof -
  let ?b = "NodeID (replicate 32 9)"
  let ?a = "sign_attestation toy_crypto sample_identity (create_vouch_attestation [] 10 (NodeID (replicate 32 1)) ?b 20 ''ok'' 2592000)"
  have can: "rep_can_vouch vouching_state vouching_manager (NodeID (replicate 32 1)) ?b"
    by (simp add: rep_can_vouch_def vouching_state_def vouching_manager_def get_reputation_def is_node_active_def
        VOUCH_REPUTATION_REQUIREMENT_def ReputationManager_init_def push_event_def Let_def)
  have a: "at_subject ?a = ?b" "at_score_delta ?a = 20" "\<not> attestation_expired 10 ?a"
    by (simp_all add: sign_attestation_def create_vouch_attestation_def AttestationSigner_create_def attestation_expired_def Let_def)
  have "\<exists>x. x \<in> set (at_signature ?a) \<and> x \<noteq> 0"
    by (intro exI [of _ 2]) (auto simp: sign_attestation_def NodeIdentity_sign_def toy_crypto_def sample_identity_def
        NodeIdentity_generate_def NodeIdentity_new_def Let_def)
  then have v: "verify_attestation 10 ?a"
    by (auto simp: verify_attestation_def list_ex_iff a) (auto simp: sign_attestation_def create_vouch_attestation_def
        AttestationSigner_create_def sample_identity_id Let_def)
  obtain m1 where m1: "vouch_for_node 10 vouching_state (NodeID (replicate 32 1)) ?b vouching_manager = (True, m1)"
    "rp_scores m1 = rp_scores vouching_manager"
    using can by (simp add: vouch_for_node_def Let_def)
  have "get_reputation (m1\<lparr>rp_attestations := x\<rparr>) ?b = 0" for x
    by (simp add: get_reputation_def m1(2) vouching_manager_def ReputationManager_init_def)
  then have "\<exists>m. create_attestation 10 ?a m1 = Some (True, m)"
    using v by (auto simp: create_attestation_def a apply_score_delta_def initialize_score_at get_reputation_detailed Let_def
        int32_ok_def int32_def)
  then show ?thesis using can m1(1) by (simp add: request_vouch_def sample_identity_id)
qed

theorem request_vouch_effect_witness:
  "\<exists>m. request_vouch toy_crypto [] 10 vouching_state sample_identity (NodeID (replicate 32 9)) ''ok'' vouching_manager = Some (True, m) \<and>
     get_direct_trust (rp_graph m) (NodeID (replicate 32 1)) (NodeID (replicate 32 9)) = Some (f32_of_rat (6 / 10)) \<and>
     get_direct_trust (rp_graph (rebuild_trust_graph 11 m)) (NodeID (replicate 32 1)) (NodeID (replicate 32 9)) = Some (f32_of_rat (8 / 10))"
proof -
  obtain m where m: "request_vouch toy_crypto [] 10 vouching_state sample_identity (NodeID (replicate 32 9)) ''ok'' vouching_manager = Some (True, m)"
    using vouching_request by blast
  from request_vouch_effect [OF vouching_manager_run m, of 11] m show ?thesis unfolding sample_identity_id by blast
qed

text \<open>The signature is not looked at, except that it must not be all zero.\<close>

theorem attestation_unauthenticated:
  "list_ex (\<lambda>b. b \<noteq> 0) s \<Longrightarrow> list_ex (\<lambda>b. b \<noteq> 0) (at_signature a) \<Longrightarrow>
     verify_attestation now (a\<lparr>at_signature := s\<rparr>) = verify_attestation now a"
  by (simp add: verify_attestation_def attestation_expired_def)

text \<open>The average of three reputations of -1 is 1431655764.\<close>

theorem average_of_negative_scores:
  "get_average_reputation (ReputationManager_init\<lparr>rp_scores := map (\<lambda>n. (n, (ReputationScore_new n)\<lparr>rs_total := -1\<rparr>))
     [NodeID [1], NodeID [2], NodeID [3]]\<rparr>) = 1431655764"
  by (simp add: get_average_reputation_def ReputationManager_init_def)

text \<open>The impact of a vouch is applied again at every update, although nothing happened in between.\<close>

definition impact_manager :: ReputationManager where
  "impact_manager = ReputationManager_init\<lparr>
     rp_scores := [(NodeID [2], (ReputationScore_new (NodeID [2]))\<lparr>rs_total := 100\<rparr>)],
     rp_vouches := [(NodeID [1], [\<lparr>vr_voucher = NodeID [1], vr_vouchee = NodeID [2], vr_vouched_at = 1, vr_still_active = True,
       vr_reputation_at_vouch = 0, vr_current_reputation = 0\<rparr>])]\<rparr>"

theorem vouch_impact_compounds:
  "\<exists>m m'. update_vouch_impacts 1 impact_manager = Some m \<and> update_vouch_impacts 2 m = Some m' \<and>
     get_reputation m (NodeID [1]) = 50 \<and> get_reputation m' (NodeID [1]) = 100"
  by (simp add: impact_manager_def update_vouch_impacts_def ReputationManager_init_def get_reputation_def
      calculate_voucher_impact_def half_def apply_score_delta_def initialize_score_def ReputationScore_new_def
      clamp_reputation_def REPUTATION_FLOOR_def REPUTATION_CEILING_def push_event_def Let_def int32_def less_NodeID_def)

section \<open>Signatures and chains\<close>

definition wf_attestation :: "Attestation \<Rightarrow> bool" where
  "wf_attestation a \<longleftrightarrow> length (node_bytes (at_attester a)) = 32 \<and> length (node_bytes (at_subject a)) = 32 \<and>
     int32_ok (at_score_delta a) \<and> length (at_statement a) < 2 ^ 32"

lemma be_bytes_le: "be_bytes n w = rev (le_bytes n w)"
  by (simp add: be_bytes_def le_bytes_def rev_map)

lemma score_bytes: "map (\<lambda>i. word_of_int (drop_bit (8 * i) n) :: u8) (rev [0..<4]) = be_bytes 4 (word_of_int n :: u32)"
proof -
  have "word_of_int (drop_bit (8 * i) n) = (ucast (drop_bit (8 * i) (word_of_int n :: u32)) :: u8)" if "i < 4" for i :: nat
  proof (rule bit_word_eqI)
    fix k assume k: "k < LENGTH(8)"
    have "8 * i + k < 32" using that k by simp
    then show "bit (word_of_int (drop_bit (8 * i) n) :: u8) k = bit (ucast (drop_bit (8 * i) (word_of_int n :: u32)) :: u8) k"
      using k by (simp add: bit_word_of_int_iff bit_ucast_iff bit_drop_bit_eq bit_unsigned_iff)
  qed
  then show ?thesis unfolding be_bytes_def by (intro map_cong) auto
qed

lemma le_bytes_inject_u32: "le_bytes 4 (v :: u32) = le_bytes 4 w \<longleftrightarrow> v = w"
  by (metis le_word_le_bytes_u32)

lemma le_bytes_inject_u64: "le_bytes 8 (v :: u64) = le_bytes 8 w \<longleftrightarrow> v = w"
  by (metis le_word_le_bytes_u64)

lemma word_of_int_inject_u32:
  assumes "int32_ok m" "int32_ok n" "(word_of_int m :: u32) = word_of_int n"
  shows "m = n"
proof -
  have s: "sint (word_of_int k :: u32) = k" if "int32_ok k" for k
    using that by (simp add: int32_ok_def signed_of_int signed_take_bit_int_eq_self)
  show ?thesis using s [OF assms(1)] s [OF assms(2)] assms(3) by metis
qed

lemma signable_inject:
  assumes "wf_attestation a" "wf_attestation b" "attestation_to_signable_bytes a = attestation_to_signable_bytes b"
  shows "a\<lparr>at_signature := s\<rparr> = b\<lparr>at_signature := s\<rparr>"
proof -
  have eq: "node_bytes (at_attester a) = node_bytes (at_attester b)" "node_bytes (at_subject a) = node_bytes (at_subject b)"
    "(word_of_int (at_score_delta a) :: u32) = word_of_int (at_score_delta b)"
    "(of_nat (length (at_statement a)) :: u32) = of_nat (length (at_statement b))"
    "bytes_of_string (at_statement a) @ be_bytes 8 (at_timestamp a) @ be_bytes 8 (at_expires_at a) =
     bytes_of_string (at_statement b) @ be_bytes 8 (at_timestamp b) @ be_bytes 8 (at_expires_at b)"
    using assms by (auto simp: attestation_to_signable_bytes_def score_bytes be_bytes_le wf_attestation_def
        le_bytes_inject_u32)
  have "length (at_statement a) = length (at_statement b)"
    using eq(4) assms(1,2) by (metis unat_of_nat_u32 wf_attestation_def)
  then have "at_statement a = at_statement b" "at_timestamp a = at_timestamp b" "at_expires_at a = at_expires_at b"
    using eq(5) by (auto simp: be_bytes_le le_bytes_inject_u64)
  moreover have "at_score_delta a = at_score_delta b"
    using assms(1,2) eq(3) by (intro word_of_int_inject_u32) (auto simp: wf_attestation_def)
  moreover have "at_attester a = at_attester b" "at_subject a = at_subject b" using eq(1,2) by (simp_all add: NodeID.expand)
  ultimately show ?thesis by (cases a; cases b) simp
qed

text \<open>
  the bytes that are signed determine every field of an attestation except the signature, and an
  attestation signed with an identity verifies under its public key and names it as attester, given
  that the signature scheme accepts its own signatures.
\<close>

theorem attestation_signature_covers:
  assumes "\<And>msg. cr_verify C msg (cr_sign C msg (ni_secret_key i)) (ni_public_key i)"
    and "wf_attestation a" "wf_attestation b"
  shows "verify_attestation_signature C (sign_attestation C i a) (ni_public_key i) \<and>
    at_attester (sign_attestation C i a) = ni_node_id i \<and>
    (attestation_to_signable_bytes a = attestation_to_signable_bytes b \<longleftrightarrow>
      a\<lparr>at_signature := []\<rparr> = b\<lparr>at_signature := []\<rparr>)"
proof -
  have sig: "attestation_to_signable_bytes (x\<lparr>at_signature := s\<rparr>) = attestation_to_signable_bytes x" for x s
    by (simp add: attestation_to_signable_bytes_def)
  have "attestation_to_signable_bytes a = attestation_to_signable_bytes b \<longleftrightarrow> a\<lparr>at_signature := []\<rparr> = b\<lparr>at_signature := []\<rparr>"
    using signable_inject [OF assms(2,3), of "[]"] sig by metis
  then show ?thesis
    by (simp add: verify_attestation_signature_def sign_attestation_def NodeIdentity_sign_def sig assms(1) Let_def)
qed

theorem attestation_signature_covers_witness:
  "verify_attestation_signature toy_crypto (sign_attestation toy_crypto sample_identity
     (AttestationSigner_create [] 5 (NodeID (replicate 32 1)) (NodeID (replicate 32 2)) 7 ''fine'' 100)) (ni_public_key sample_identity)"
proof -
  have "wf_attestation (AttestationSigner_create [] 5 (NodeID (replicate 32 1)) (NodeID (replicate 32 2)) 7 ''fine'' 100)"
    by (simp add: wf_attestation_def AttestationSigner_create_def int32_ok_def)
  from attestation_signature_covers [of toy_crypto sample_identity, OF _ this this] show ?thesis by (simp add: toy_crypto_def)
qed

definition vouches_for :: "ReputationManager \<Rightarrow> NodeID \<Rightarrow> NodeID \<Rightarrow> bool" where
  "vouches_for m a b = (\<exists>v \<in> set (get_vouches_by m a). vr_still_active v \<and> vr_vouchee v = b)"

lemma vouching_dfs_set:
  assumes "distinct chain"
  shows "set (vouching_dfs m k current depth chain) = {chain @ current # q | q. successively (vouches_for m) (current # q) \<and>
    distinct (chain @ current # q) \<and> depth + length (current # q) \<le> k \<and> get_vouches_by m (last (current # q)) = [] \<and>
    length (chain @ current # q) > 1}"
  using assms
proof (induction m k current depth chain rule: vouching_dfs.induct)
  case (1 m k current depth chain)
  show ?case (is "_ = ?R")
  proof (cases "k \<le> depth \<or> current \<in> set chain")
    case True
    then have "vouching_dfs m k current depth chain = []" by (subst vouching_dfs.simps) auto
    moreover have "?R = {}" using True by force
    ultimately show ?thesis by simp
  next
    case go: False
    show ?thesis
    proof (cases "get_vouches_by m current = []")
      case True
      have nil: "successively (vouches_for m) (current # q) \<longleftrightarrow> q = []" for q
        using True by (cases q) (auto simp: vouches_for_def)
      have "?R = (if length (chain @ [current]) > 1 then {chain @ [current]} else {})"
        unfolding nil using go True 1(2) by (auto simp: Suc_le_eq)
      then show ?thesis using go True by (simp add: vouching_dfs.simps [of m k current depth chain])
    next
      case False
      have ih: "set (vouching_dfs m k (vr_vouchee v) (depth + 1) (chain @ [current])) =
          {chain @ current # vr_vouchee v # q | q. successively (vouches_for m) (vr_vouchee v # q) \<and>
            distinct (chain @ current # vr_vouchee v # q) \<and> depth + 1 + length (vr_vouchee v # q) \<le> k \<and>
            get_vouches_by m (last (vr_vouchee v # q)) = []}"
        if v: "v \<in> set (get_vouches_by m current)" "vr_still_active v" for v
      proof -
        have "distinct (chain @ [current])" using go 1(2) by simp
        from 1(1) [OF _ _ refl False v this] go show ?thesis by simp
      qed
      have "set (vouching_dfs m k current depth chain) =
          (\<Union>v \<in> {v \<in> set (get_vouches_by m current). vr_still_active v}. set (vouching_dfs m k (vr_vouchee v) (depth + 1) (chain @ [current])))"
        using go False by (auto simp: vouching_dfs.simps [of m k current depth chain] Let_def split: if_splits)
      also have "\<dots> = ?R"
      proof (intro equalityI subsetI)
        fix p assume "p \<in> (\<Union>v \<in> {v \<in> set (get_vouches_by m current). vr_still_active v}.
          set (vouching_dfs m k (vr_vouchee v) (depth + 1) (chain @ [current])))"
        then obtain v q where v: "v \<in> set (get_vouches_by m current)" "vr_still_active v"
          and q: "p = chain @ current # vr_vouchee v # q" "successively (vouches_for m) (vr_vouchee v # q)"
            "distinct (chain @ current # vr_vouchee v # q)" "depth + 1 + length (vr_vouchee v # q) \<le> k"
            "get_vouches_by m (last (vr_vouchee v # q)) = []" using ih by blast
        have "vouches_for m current (vr_vouchee v)" using v by (auto simp: vouches_for_def)
        with q show "p \<in> ?R" by (intro CollectI exI [of _ "vr_vouchee v # q"]) auto
      next
        fix p assume "p \<in> ?R"
        then obtain q where q: "p = chain @ current # q" "successively (vouches_for m) (current # q)"
          "distinct (chain @ current # q)" "depth + length (current # q) \<le> k" "get_vouches_by m (last (current # q)) = []" by blast
        obtain b q' where b: "q = b # q'" using q(5) False by (cases q) auto
        then obtain v where v: "v \<in> set (get_vouches_by m current)" "vr_still_active v" "vr_vouchee v = b"
          using q(2) by (auto simp: vouches_for_def)
        have "p \<in> set (vouching_dfs m k (vr_vouchee v) (depth + 1) (chain @ [current]))"
          unfolding ih [OF v(1,2)] using q b v(3) by auto
        with v show "p \<in> (\<Union>v \<in> {v \<in> set (get_vouches_by m current). vr_still_active v}.
          set (vouching_dfs m k (vr_vouchee v) (depth + 1) (chain @ [current])))" by blast
      qed
      finally show ?thesis .
    qed
  qed
qed

text \<open>
  the vouching chains of a node are exactly the chains of active vouches that start at it, visit no
  node twice, have at least two and at most \<open>max_depth\<close> nodes and end at a node that never vouched for
  anybody. The search ends on every set of vouches.
\<close>

theorem vouching_chains_exact:
  "set (get_vouching_chains m n max_depth) = {p. p \<noteq> [] \<and> hd p = n \<and> successively (vouches_for m) p \<and> distinct p \<and>
     1 < length p \<and> length p \<le> unat max_depth \<and> get_vouches_by m (last p) = []}"
proof -
  have "set (get_vouching_chains m n max_depth) = {n # q | q. successively (vouches_for m) (n # q) \<and>
    distinct (n # q) \<and> length (n # q) \<le> unat max_depth \<and> get_vouches_by m (last (n # q)) = [] \<and> length (n # q) > 1}"
    unfolding get_vouching_chains_def using vouching_dfs_set [of "[]" m "unat max_depth" n 0] by simp
  also have "\<dots> = {p. p \<noteq> [] \<and> hd p = n \<and> successively (vouches_for m) p \<and> distinct p \<and>
     1 < length p \<and> length p \<le> unat max_depth \<and> get_vouches_by m (last p) = []}"
    by (intro set_eqI) (auto simp: neq_Nil_conv)
  finally show ?thesis .
qed

end
