(* ===== verification/Networks.thy ===== *)
theory Networks
  imports Identity Floats "HOL-Library.Monad_Syntax" "HOL-Library.Multiset"
begin

text \<open>
  \<open>Network\<close> and \<open>NetworkRegistry\<close> of \<open>src/network/network.cpp\<close>: the nodes that host one Thing, their
  invitations, the number of replicas, the file format, and the networks a node knows.

  A reading of the clock is the argument \<open>now\<close>, one per operation. A role is its byte, since the decoder
  casts any byte; a reliability score is the bit pattern of a \<open>float\<close>, which is also what the file holds.
  \<open>srt\<close> stands for \<open>std::sort\<close>, which leaves the order of equal elements open; \<open>ls\<close> for the order in which
  the directory iterator lists files. Entries of the directory that are not regular files are skipped by
  the code and left out of the model of the directory.
\<close>

section \<open>Data\<close>

type_synonym MemberRole = u8

record NetworkMember =
  nm_node_id :: NodeID
  nm_public_key :: bytes
  nm_role :: MemberRole
  nm_joined :: u64
  nm_last_seen :: u64
  nm_replica :: bool
  nm_reliability :: u32

definition NetworkMember_new :: "NodeID \<Rightarrow> bytes \<Rightarrow> MemberRole \<Rightarrow> NetworkMember" where
  "NetworkMember_new n k r = \<lparr>nm_node_id = n, nm_public_key = k, nm_role = r, nm_joined = 0, nm_last_seen = 0,
     nm_replica = False, nm_reliability = 0x3F800000\<rparr>"

record NetworkInvitation =
  iv_network_id :: NetworkID
  iv_inviter :: NodeID
  iv_invitee :: NodeID
  iv_inviter_key :: bytes
  iv_role :: MemberRole
  iv_expires :: u64
  iv_signature :: bytes

record PendingInvitation =
  pi_invitation :: NetworkInvitation
  pi_created :: u64

record NetworkQuorum =
  q_min :: nat
  q_target :: nat
  q_max :: nat

definition NetworkQuorum_default :: NetworkQuorum where
  "NetworkQuorum_default = \<lparr>q_min = 3, q_target = 5, q_max = 10\<rparr>"

definition quorum_is_healthy :: "NetworkQuorum \<Rightarrow> nat \<Rightarrow> bool" where
  "quorum_is_healthy q n \<longleftrightarrow> n \<ge> q_min q"

definition needs_replication :: "NetworkQuorum \<Rightarrow> nat \<Rightarrow> bool" where
  "needs_replication q n \<longleftrightarrow> n < q_target q"

definition at_capacity :: "NetworkQuorum \<Rightarrow> nat \<Rightarrow> bool" where
  "at_capacity q n \<longleftrightarrow> n \<ge> q_max q"

datatype NetworkHealth = CRITICAL | DEGRADED | HEALTHY | OPTIMAL

record Network =
  nt_id :: NetworkID
  nt_thing :: ContentHash
  nt_members :: "NetworkMember list"
  nt_quorum :: NetworkQuorum
  nt_created :: u64
  nt_pending :: "PendingInvitation list"

definition MEMBER_TIMEOUT_SECONDS :: u64 where
  "MEMBER_TIMEOUT_SECONDS = 3600"

definition MIN_RELIABILITY_SCORE :: f32 where
  "MIN_RELIABILITY_SCORE = Fin (1 / 2)"

definition Network_new :: "u64 \<Rightarrow> NetworkID \<Rightarrow> ContentHash \<Rightarrow> Network" where
  "Network_new now i thing = \<lparr>nt_id = i, nt_thing = thing, nt_members = [], nt_quorum = NetworkQuorum_default,
     nt_created = now, nt_pending = []\<rparr>"

text \<open>A loop that changes the first matching element and breaks.\<close>

fun update_first :: "('a \<Rightarrow> bool) \<Rightarrow> ('a \<Rightarrow> 'a) \<Rightarrow> 'a list \<Rightarrow> 'a list" where
  "update_first P f [] = []"
| "update_first P f (x # xs) = (if P x then f x # xs else x # update_first P f xs)"

section \<open>Members\<close>

definition add_member :: "NetworkMember \<Rightarrow> Network \<Rightarrow> bool \<times> Network" where
  "add_member m net =
     (if list_ex (\<lambda>x. nm_node_id x = nm_node_id m) (nt_members net) then (False, net)
      else if at_capacity (nt_quorum net) (length (nt_members net)) then (False, net)
      else (True, net\<lparr>nt_members := nt_members net @ [m]\<rparr>))"

definition remove_member :: "NodeID \<Rightarrow> Network \<Rightarrow> bool \<times> Network" where
  "remove_member n net =
     (let rest = filter (\<lambda>m. nm_node_id m \<noteq> n) (nt_members net) in
      if length rest = length (nt_members net) then (False, net) else (True, net\<lparr>nt_members := rest\<rparr>))"

definition get_member :: "Network \<Rightarrow> NodeID \<Rightarrow> NetworkMember option" where
  "get_member net n = List.find (\<lambda>m. nm_node_id m = n) (nt_members net)"

definition get_all_members :: "Network \<Rightarrow> NetworkMember list" where
  "get_all_members net = nt_members net"

definition member_count :: "Network \<Rightarrow> nat" where
  "member_count net = length (nt_members net)"

definition is_member_active :: "u64 \<Rightarrow> NetworkMember \<Rightarrow> bool" where
  "is_member_active now m \<longleftrightarrow> now - nm_last_seen m < MEMBER_TIMEOUT_SECONDS"

definition active_replica_count :: "u64 \<Rightarrow> Network \<Rightarrow> nat" where
  "active_replica_count now net =
     length (filter (\<lambda>m. nm_replica m \<and> is_member_active now m) (nt_members net))"

definition update_member_reliability :: "NodeID \<Rightarrow> u32 \<Rightarrow> Network \<Rightarrow> Network" where
  "update_member_reliability n score net = net\<lparr>nt_members :=
     update_first (\<lambda>m. nm_node_id m = n) (\<lambda>m. m\<lparr>nm_reliability := clamp_bits score 0 0x3F800000\<rparr>) (nt_members net)\<rparr>"

definition mark_member_active :: "u64 \<Rightarrow> NodeID \<Rightarrow> Network \<Rightarrow> Network" where
  "mark_member_active now n net = net\<lparr>nt_members :=
     update_first (\<lambda>m. nm_node_id m = n) (\<lambda>m. m\<lparr>nm_last_seen := now\<rparr>) (nt_members net)\<rparr>"

definition mark_replica_complete :: "NodeID \<Rightarrow> bool \<Rightarrow> Network \<Rightarrow> Network" where
  "mark_replica_complete n full net = net\<lparr>nt_members :=
     update_first (\<lambda>m. nm_node_id m = n) (\<lambda>m. m\<lparr>nm_replica := full\<rparr>) (nt_members net)\<rparr>"

definition set_quorum :: "NetworkQuorum \<Rightarrow> Network \<Rightarrow> Network" where
  "set_quorum q net = net\<lparr>nt_quorum := q\<rparr>"

section \<open>Invitations\<close>

definition NetworkInvitation_to_bytes :: "NetworkInvitation \<Rightarrow> bytes" where
  "NetworkInvitation_to_bytes v =
     network_bytes (iv_network_id v) @ node_bytes (iv_inviter v) @ node_bytes (iv_invitee v) @ iv_inviter_key v
     @ [iv_role v] @ le_bytes 8 (iv_expires v)"

definition create_invitation :: "crypto_lib \<Rightarrow> u64 \<Rightarrow> NodeID \<Rightarrow> NodeID \<Rightarrow> bytes \<Rightarrow> bytes \<Rightarrow> MemberRole \<Rightarrow> u64
    \<Rightarrow> Network \<Rightarrow> NetworkInvitation \<times> Network" where
  "create_invitation C now inviter invitee pk sk role valid net =
     (let v = \<lparr>iv_network_id = nt_id net, iv_inviter = inviter, iv_invitee = invitee, iv_inviter_key = pk,
                iv_role = role, iv_expires = now + valid, iv_signature = []\<rparr>;
          v = v\<lparr>iv_signature := cr_sign C (NetworkInvitation_to_bytes v) sk\<rparr>
      in (v, net\<lparr>nt_pending := nt_pending net @ [\<lparr>pi_invitation = v, pi_created = now\<rparr>]\<rparr>))"

definition verify_invitation :: "crypto_lib \<Rightarrow> u64 \<Rightarrow> Network \<Rightarrow> NetworkInvitation \<Rightarrow> bool" where
  "verify_invitation C now net v =
     (if iv_network_id v \<noteq> nt_id net then False
      else if now > iv_expires v then False
      else case get_member net (iv_inviter v) of
        None \<Rightarrow> False
      | Some m \<Rightarrow> if nm_public_key m \<noteq> iv_inviter_key v then False
                  else cr_verify C (NetworkInvitation_to_bytes v) (iv_signature v) (iv_inviter_key v))"

definition accept_invitation :: "crypto_lib \<Rightarrow> u64 \<Rightarrow> NetworkInvitation \<Rightarrow> Network \<Rightarrow> bool \<times> Network" where
  "accept_invitation C now v net =
     (if \<not> verify_invitation C now net v then (False, net)
      else add_member ((NetworkMember_new (iv_invitee v) (replicate 32 0) (iv_role v))
             \<lparr>nm_joined := now, nm_last_seen := now\<rparr>) net)"

definition reject_invitation :: "NetworkInvitation \<Rightarrow> Network \<Rightarrow> bool \<times> Network" where
  "reject_invitation v net =
     (let rest = filter (\<lambda>p. \<not> (iv_invitee (pi_invitation p) = iv_invitee v \<and>
                              iv_network_id (pi_invitation p) = iv_network_id v)) (nt_pending net) in
      if length rest = length (nt_pending net) then (False, net) else (True, net\<lparr>nt_pending := rest\<rparr>))"

definition cleanup_expired_invitations :: "u64 \<Rightarrow> Network \<Rightarrow> Network" where
  "cleanup_expired_invitations now net =
     net\<lparr>nt_pending := filter (\<lambda>p. \<not> now > iv_expires (pi_invitation p)) (nt_pending net)\<rparr>"

section \<open>Health and replicas\<close>

definition get_health :: "u64 \<Rightarrow> Network \<Rightarrow> NetworkHealth" where
  "get_health now net =
     (let replicas = active_replica_count now net in
      if replicas < q_min (nt_quorum net) then CRITICAL
      else if replicas < q_target (nt_quorum net) then DEGRADED
      else if replicas = q_target (nt_quorum net) then
        if list_ex (\<lambda>m. nm_replica m \<and> \<not> is_member_active now m) (nt_members net) then HEALTHY else OPTIMAL
      else HEALTHY)"

definition is_healthy :: "u64 \<Rightarrow> Network \<Rightarrow> bool" where
  "is_healthy now net \<longleftrightarrow> get_health now net \<noteq> CRITICAL"

definition needs_new_replicas :: "u64 \<Rightarrow> Network \<Rightarrow> bool" where
  "needs_new_replicas now net = needs_replication (nt_quorum net) (active_replica_count now net)"

definition can_accept_member :: "Network \<Rightarrow> bool" where
  "can_accept_member net \<longleftrightarrow> \<not> at_capacity (nt_quorum net) (length (nt_members net))"

definition reliable :: "NetworkMember \<Rightarrow> bool" where
  "reliable m \<longleftrightarrow> f32_le MIN_RELIABILITY_SCORE (f32_of_bits (nm_reliability m))"

definition unreliable :: "u32 \<Rightarrow> bool" where
  "unreliable score \<longleftrightarrow> f32_less (f32_of_bits score) MIN_RELIABILITY_SCORE"

definition get_replication_candidates :: "u64 \<Rightarrow> Network \<Rightarrow> NodeID list" where
  "get_replication_candidates now net =
     map nm_node_id (filter (\<lambda>m. is_member_active now m \<and> nm_replica m \<and> reliable m) (nt_members net))"

fun best_source :: "NodeID list \<Rightarrow> NetworkMember list \<Rightarrow> NetworkMember option \<Rightarrow> NetworkMember option" where
  "best_source cs [] best = best"
| "best_source cs (m # ms) best = best_source cs ms
     (if nm_node_id m \<in> set cs \<and>
         (case best of None \<Rightarrow> True
          | Some b \<Rightarrow> f32_less (f32_of_bits (nm_reliability b)) (f32_of_bits (nm_reliability m)))
      then Some m else best)"

definition select_best_source_for_replication :: "u64 \<Rightarrow> Network \<Rightarrow> NodeID" where
  "select_best_source_for_replication now net =
     (let candidates = get_replication_candidates now net in
      if candidates = [] then NodeID zero_hash
      else case best_source candidates (nt_members net) None of
             None \<Rightarrow> NodeID zero_hash | Some m \<Rightarrow> nm_node_id m)"

definition should_dissolve :: "u64 \<Rightarrow> Network \<Rightarrow> bool" where
  "should_dissolve now net \<longleftrightarrow>
     length (filter (\<lambda>m. is_member_active now m \<and> reliable m) (nt_members net)) < q_min (nt_quorum net)"

definition calculate_target_redundancy :: "Network \<Rightarrow> nat" where
  "calculate_target_redundancy net =
     (let count = length (nt_members net) in
      if count \<le> 3 then min count 5
      else if count \<le> 10 then 5
      else min (5 + (count - 10) div 5) 10)"

definition should_add_replicas :: "u64 \<Rightarrow> Network \<Rightarrow> bool" where
  "should_add_replicas now net \<longleftrightarrow> active_replica_count now net < q_target (nt_quorum net) \<and>
     \<not> at_capacity (nt_quorum net) (length (nt_members net))"

definition should_remove_replicas :: "u64 \<Rightarrow> Network \<Rightarrow> bool" where
  "should_remove_replicas now net =
     (if active_replica_count now net \<le> q_target (nt_quorum net) then False
      else list_ex (\<lambda>m. nm_replica m \<and> unreliable (nm_reliability m)) (nt_members net))"

text \<open>Subtraction of two \<open>size_t\<close>.\<close>

definition size_minus :: "nat \<Rightarrow> nat \<Rightarrow> nat" where
  "size_minus a b = (if b \<le> a then a - b else 2 ^ 64 + a - b)"

type_synonym score_sort = "(NodeID \<times> u32) list \<Rightarrow> (NodeID \<times> u32) list"

definition select_nodes_for_removal :: "score_sort \<Rightarrow> u64 \<Rightarrow> Network \<Rightarrow> NodeID list" where
  "select_nodes_for_removal srt now net =
     (let current = active_replica_count now net; target = q_target (nt_quorum net) in
      if current \<le> target then []
      else let replica_nodes = srt (map (\<lambda>m. (nm_node_id m, nm_reliability m)) (filter nm_replica (nt_members net)));
               to_remove = current - target;
               can_remove = min to_remove (size_minus current (q_min (nt_quorum net)))
           in map fst (filter (\<lambda>p. unreliable (snd p)) (take can_remove replica_nodes)))"

definition adjust_redundancy :: "score_sort \<Rightarrow> u64 \<Rightarrow> Network \<Rightarrow> bool \<times> Network" where
  "adjust_redundancy srt now net =
     (let target = calculate_target_redundancy net;
          (changes, net) = (if q_target (nt_quorum net) \<noteq> target
            then (True, net\<lparr>nt_quorum := (nt_quorum net)\<lparr>q_target := target\<rparr>\<rparr>) else (False, net));
          changes = (changes \<or> should_add_replicas now net)
      in if should_remove_replicas now net then
           let nodes = select_nodes_for_removal srt now net
           in (changes \<or> nodes \<noteq> [], fold (\<lambda>n. mark_replica_complete n False) nodes net)
         else (changes, net))"

section \<open>File format\<close>

definition member_bytes :: "NetworkMember \<Rightarrow> bytes" where
  "member_bytes m = node_bytes (nm_node_id m) @ nm_public_key m @ [nm_role m] @ le_bytes 8 (nm_joined m)
     @ le_bytes 8 (nm_last_seen m) @ [if nm_replica m then 1 else 0] @ le_bytes 4 (nm_reliability m)"

definition pending_bytes :: "PendingInvitation \<Rightarrow> bytes" where
  "pending_bytes p = (let v = pi_invitation p in
     network_bytes (iv_network_id v) @ node_bytes (iv_inviter v) @ node_bytes (iv_invitee v) @ iv_inviter_key v
     @ [iv_role v] @ le_bytes 8 (iv_expires v) @ iv_signature v @ le_bytes 8 (pi_created p))"

definition Network_serialize :: "Network \<Rightarrow> bytes" where
  "Network_serialize net =
     bytes_of_string ''CSNW'' @ le_bytes 4 (1 :: u32) @ network_bytes (nt_id net) @ content_bytes (nt_thing net)
     @ le_bytes 4 (word_of_nat (q_min (nt_quorum net)) :: u32)
     @ le_bytes 4 (word_of_nat (q_target (nt_quorum net)) :: u32)
     @ le_bytes 4 (word_of_nat (q_max (nt_quorum net)) :: u32)
     @ le_bytes 8 (nt_created net)
     @ le_bytes 4 (word_of_nat (length (nt_members net)) :: u32) @ concat (map member_bytes (nt_members net))
     @ le_bytes 4 (word_of_nat (length (nt_pending net)) :: u32) @ concat (map pending_bytes (nt_pending net))"

definition read_member :: "bytes \<Rightarrow> (NetworkMember \<times> bytes) option" where
  "read_member data = do {
     (n, data) \<leftarrow> read_blob 32 data;
     (key, data) \<leftarrow> read_blob 32 data;
     (role :: u8, data) \<leftarrow> read_scalar 1 data;
     (joined :: u64, data) \<leftarrow> read_scalar 8 data;
     (last_seen :: u64, data) \<leftarrow> read_scalar 8 data;
     (has_replica :: u8, data) \<leftarrow> read_scalar 1 data;
     (score :: u32, data) \<leftarrow> read_scalar 4 data;
     Some (\<lparr>nm_node_id = NodeID n, nm_public_key = key, nm_role = role, nm_joined = joined, nm_last_seen = last_seen,
       nm_replica = (has_replica \<noteq> 0), nm_reliability = score\<rparr>, data) }"

definition read_pending :: "bytes \<Rightarrow> (PendingInvitation \<times> bytes) option" where
  "read_pending data = do {
     (net, data) \<leftarrow> read_blob 32 data;
     (inviter, data) \<leftarrow> read_blob 32 data;
     (invitee, data) \<leftarrow> read_blob 32 data;
     (key, data) \<leftarrow> read_blob 32 data;
     (role :: u8, data) \<leftarrow> read_scalar 1 data;
     (expires :: u64, data) \<leftarrow> read_scalar 8 data;
     (sig, data) \<leftarrow> read_blob 64 data;
     (created :: u64, data) \<leftarrow> read_scalar 8 data;
     Some (\<lparr>pi_invitation = \<lparr>iv_network_id = NetworkID net, iv_inviter = NodeID inviter, iv_invitee = NodeID invitee,
         iv_inviter_key = key, iv_role = role, iv_expires = expires, iv_signature = sig\<rparr>, pi_created = created\<rparr>, data) }"

fun read_many :: "(bytes \<Rightarrow> ('a \<times> bytes) option) \<Rightarrow> nat \<Rightarrow> bytes \<Rightarrow> ('a list \<times> bytes) option" where
  "read_many rd 0 data = Some ([], data)"
| "read_many rd (Suc n) data = do { (x, data) \<leftarrow> rd data; (xs, data) \<leftarrow> read_many rd n data; Some (x # xs, data) }"

definition Network_deserialize :: "bytes \<Rightarrow> Network option" where
  "Network_deserialize data =
     (if length data < 8 + 32 + 32 then None
      else if take 4 data \<noteq> bytes_of_string ''CSNW'' then None
      else do {
     (version :: u32, data) \<leftarrow> read_scalar 4 (drop 4 data);
     if version \<noteq> 1 then None else do {
     (i, data) \<leftarrow> read_blob 32 data;
     (thing, data) \<leftarrow> read_blob 32 data;
     (min_replicas :: u32, data) \<leftarrow> read_scalar 4 data;
     (target_replicas :: u32, data) \<leftarrow> read_scalar 4 data;
     (max_replicas :: u32, data) \<leftarrow> read_scalar 4 data;
     (created :: u64, data) \<leftarrow> read_scalar 8 data;
     (count :: u32, data) \<leftarrow> read_scalar 4 data;
     (members, data) \<leftarrow> read_many read_member (unat count) data;
     (pending_count :: u32, data) \<leftarrow> read_scalar 4 data;
     (pending, data) \<leftarrow> read_many read_pending (unat pending_count) data;
     Some \<lparr>nt_id = NetworkID i, nt_thing = ContentHash thing, nt_members = members,
       nt_quorum = \<lparr>q_min = unat min_replicas, q_target = unat target_replicas, q_max = unat max_replicas\<rparr>,
       nt_created = created, nt_pending = pending\<rparr> }})"

section \<open>The registry\<close>

record NetworkRegistry =
  nr_networks :: "Network list"
  nr_counter :: u64

definition NetworkRegistry_init :: NetworkRegistry where
  "NetworkRegistry_init = \<lparr>nr_networks = [], nr_counter = 0\<rparr>"

definition create_network :: "crypto_lib \<Rightarrow> u64 \<Rightarrow> ContentHash \<Rightarrow> NetworkRegistry \<Rightarrow> NetworkID \<times> NetworkRegistry" where
  "create_network C now thing r =
     (let i = NetworkID (cr_hash C (content_bytes thing @ le_bytes 8 (nr_counter r)))
      in (i, r\<lparr>nr_networks := nr_networks r @ [Network_new now i thing], nr_counter := nr_counter r + 1\<rparr>))"

definition add_network :: "Network \<Rightarrow> NetworkRegistry \<Rightarrow> bool \<times> NetworkRegistry" where
  "add_network net r =
     (if list_ex (\<lambda>n. nt_id n = nt_id net) (nr_networks r) then (False, r)
      else (True, r\<lparr>nr_networks := nr_networks r @ [net]\<rparr>))"

definition remove_network :: "NetworkID \<Rightarrow> NetworkRegistry \<Rightarrow> bool \<times> NetworkRegistry" where
  "remove_network i r =
     (let rest = filter (\<lambda>n. nt_id n \<noteq> i) (nr_networks r) in
      if length rest = length (nr_networks r) then (False, r) else (True, r\<lparr>nr_networks := rest\<rparr>))"

definition get_network :: "NetworkRegistry \<Rightarrow> NetworkID \<Rightarrow> Network option" where
  "get_network r i = List.find (\<lambda>n. nt_id n = i) (nr_networks r)"

definition get_all_networks :: "NetworkRegistry \<Rightarrow> Network list" where
  "get_all_networks r = nr_networks r"

definition get_networks_for_thing :: "NetworkRegistry \<Rightarrow> ContentHash \<Rightarrow> Network list" where
  "get_networks_for_thing r thing = filter (\<lambda>n. nt_thing n = thing) (nr_networks r)"

definition is_member_of :: "NetworkRegistry \<Rightarrow> NetworkID \<Rightarrow> bool" where
  "is_member_of r i \<longleftrightarrow> get_network r i \<noteq> None"

definition get_joined_networks :: "NetworkRegistry \<Rightarrow> NetworkID list" where
  "get_joined_networks r = map nt_id (nr_networks r)"

definition healthy_network_count :: "u64 \<Rightarrow> NetworkRegistry \<Rightarrow> nat" where
  "healthy_network_count now r = length (filter (is_healthy now) (nr_networks r))"

definition total_network_count :: "NetworkRegistry \<Rightarrow> nat" where
  "total_network_count r = length (nr_networks r)"

text \<open>The files of the directory, and what the operating system may refuse.\<close>

type_synonym net_dir = "(string \<times> bytes) list"

record dir_io =
  dio_mkdir :: bool
  dio_create :: "string \<Rightarrow> bool"
  dio_write :: "string \<Rightarrow> bytes \<Rightarrow> bool \<times> bytes"
  dio_exists :: bool
  dio_ls :: "net_dir \<Rightarrow> net_dir"
  dio_open :: "string \<Rightarrow> bool"
  dio_read :: "string \<Rightarrow> bool"

definition network_file_name :: "NetworkID \<Rightarrow> string" where
  "network_file_name i = hash_to_hex (network_bytes i) @ ''.bin''"

definition save_network :: "dir_io \<Rightarrow> Network \<Rightarrow> bool \<times> net_dir \<Rightarrow> bool \<times> net_dir" where
  "save_network io net = (\<lambda>(all_ok, dir).
     let file = network_file_name (nt_id net) in
     if \<not> dio_create io file then (False, dir)
     else let (ok, written) = dio_write io file (Network_serialize net)
          in (all_ok \<and> ok, omap_set file written dir))"

definition registry_save_to_disk :: "dir_io \<Rightarrow> NetworkRegistry \<Rightarrow> net_dir \<Rightarrow> bool \<times> net_dir" where
  "registry_save_to_disk io r dir =
     (if \<not> dio_mkdir io then (False, dir) else fold (save_network io) (nr_networks r) (True, dir))"

definition is_bin_file :: "string \<Rightarrow> bool" where
  "is_bin_file name \<longleftrightarrow> length name > 4 \<and> drop (length name - 4) name = ''.bin''"

definition load_network :: "dir_io \<Rightarrow> string \<times> bytes \<Rightarrow> Network option" where
  "load_network io = (\<lambda>(name, content).
     if \<not> is_bin_file name then None
     else if \<not> dio_open io name then None
     else if content = [] then None
     else if \<not> dio_read io name then None
     else Network_deserialize content)"

definition registry_load_from_disk :: "dir_io \<Rightarrow> net_dir \<Rightarrow> NetworkRegistry \<Rightarrow> bool \<times> NetworkRegistry" where
  "registry_load_from_disk io dir r =
     (if \<not> dio_exists io then (True, r)
      else (True, r\<lparr>nr_networks := List.map_filter (load_network io) (dio_ls io dir)\<rparr>))"

section \<open>Lemmas\<close>

lemma update_first_key:
  "distinct (map key xs) \<Longrightarrow> update_first (\<lambda>x. key x = k) f xs = map (\<lambda>x. if key x = k then f x else x) xs"
proof (induction xs)
  case (Cons x xs)
  have "key y \<noteq> key x" if "y \<in> set xs" for y
    using Cons.prems that by (metis distinct.simps(2) imageI list.set_map list.simps(9))
  then have "key x = k \<Longrightarrow> map (\<lambda>y. if key y = k then f y else y) xs = xs"
    by (auto intro!: map_idI)
  with Cons show ?case by simp
qed simp

lemma map_key_update_first: "(\<And>x. key (f x) = key x) \<Longrightarrow> map key (update_first P f xs) = map key xs"
  by (induction xs) auto

lemma filter_length_neq: "length (filter P xs) = length xs \<longleftrightarrow> filter P xs = xs"
  by (metis filter_True length_filter_less nat_neq_iff)

subsection \<open>Membership\<close>

text \<open>A network's members are distinct and no more than its quorum allows.\<close>

definition network_ids_ok :: "Network \<Rightarrow> bool" where
  "network_ids_ok net \<longleftrightarrow> distinct (map nm_node_id (nt_members net))"

lemma add_member_cases:
  "add_member m net = (if nm_node_id m \<notin> nm_node_id ` set (nt_members net) \<and> length (nt_members net) < q_max (nt_quorum net)
     then (True, net\<lparr>nt_members := nt_members net @ [m]\<rparr>) else (False, net))"
proof -
  have "list_ex (\<lambda>x. nm_node_id x = nm_node_id m) (nt_members net) \<longleftrightarrow> nm_node_id m \<in> nm_node_id ` set (nt_members net)"
    unfolding list_ex_iff by (metis image_iff)
  then show ?thesis by (simp add: add_member_def at_capacity_def not_le)
qed

lemma get_member_Some: "get_member net n = Some m \<Longrightarrow> m \<in> set (nt_members net) \<and> nm_node_id m = n"
  by (auto simp: get_member_def find_Some_iff)

lemma verify_invitation_iff:
  "verify_invitation C now net v \<longleftrightarrow> iv_network_id v = nt_id net \<and> now \<le> iv_expires v \<and>
     (\<exists>m. get_member net (iv_inviter v) = Some m \<and> nm_public_key m = iv_inviter_key v \<and>
        cr_verify C (NetworkInvitation_to_bytes v) (iv_signature v) (nm_public_key m))"
  by (auto simp: verify_invitation_def split: option.splits)

subsection \<open>Replicas\<close>

lemma mark_replicas:
  "distinct (map nm_node_id (nt_members net)) \<Longrightarrow>
     fold (\<lambda>n. mark_replica_complete n False) ns net = net\<lparr>nt_members :=
       map (\<lambda>m. if nm_node_id m \<in> set ns then m\<lparr>nm_replica := False\<rparr> else m) (nt_members net)\<rparr>"
proof (induction ns arbitrary: net)
  case (Cons n ns)
  have d: "distinct (map nm_node_id (nt_members (mark_replica_complete n False net)))"
    using Cons.prems by (simp add: mark_replica_complete_def map_key_update_first)
  show ?case
    by (simp add: Cons.IH [OF d]) (auto simp: mark_replica_complete_def update_first_key [OF Cons.prems])
qed simp

lemma filter_drop_few:
  assumes "distinct (map key xs)"
  shows "length (filter P xs) \<le> length (filter (\<lambda>x. P x \<and> key x \<notin> set ns) xs) + length ns"
proof -
  have "filter P xs = filter (\<lambda>x. P x) xs" by simp
  have "length (filter P xs) = length (filter (\<lambda>x. P x \<and> key x \<notin> set ns) xs) + length (filter (\<lambda>x. P x \<and> key x \<in> set ns) xs)"
    by (induction xs) auto
  moreover have "length (filter (\<lambda>x. P x \<and> key x \<in> set ns) xs) \<le> length ns"
  proof -
    let ?ys = "map key (filter (\<lambda>x. P x \<and> key x \<in> set ns) xs)"
    have "distinct ?ys" by (rule distinct_map_filter [OF assms])
    then have "length ?ys = card (set ?ys)" by (rule distinct_card [symmetric])
    also have "\<dots> \<le> card (set ns)" by (rule card_mono) auto
    also have "\<dots> \<le> length ns" by (rule card_length)
    finally show ?thesis by simp
  qed
  ultimately show ?thesis by simp
qed

lemma active_after_marking:
  assumes "distinct (map nm_node_id (nt_members net))"
  shows "active_replica_count now net \<le>
    active_replica_count now (fold (\<lambda>n. mark_replica_complete n False) ns net) + length ns"
proof -
  have eq: "length (filter (\<lambda>m. nm_replica m \<and> is_member_active now m)
      (map (\<lambda>m. if nm_node_id m \<in> set ns then m\<lparr>nm_replica := False\<rparr> else m) ms)) =
    length (filter (\<lambda>m. (nm_replica m \<and> is_member_active now m) \<and> nm_node_id m \<notin> set ns) ms)" for ms
    by (induction ms) (auto simp: is_member_active_def)
  show ?thesis
    unfolding mark_replicas [OF assms] active_replica_count_def
    using filter_drop_few [OF assms, of "\<lambda>m. nm_replica m \<and> is_member_active now m" ns]
    by (simp add: eq del: length_filter_map)
qed

lemma length_filter_take: "length (filter P (take n xs)) \<le> n"
  by (metis length_filter_le length_take min.bounded_iff order_trans)

lemma selected_few:
  "length (select_nodes_for_removal srt now net) \<le>
     (if active_replica_count now net \<le> q_target (nt_quorum net) then 0
      else min (active_replica_count now net - q_target (nt_quorum net))
        (size_minus (active_replica_count now net) (q_min (nt_quorum net))))"
  unfolding select_nodes_for_removal_def Let_def
  by (simp add: length_filter_take del: min.bounded_iff min_less_iff_conj)

lemma selected_unreliable:
  assumes "\<And>xs. mset (srt xs) = mset xs" "n \<in> set (select_nodes_for_removal srt now net)"
  shows "\<exists>m\<in>set (nt_members net). nm_node_id m = n \<and> nm_replica m \<and> unreliable (nm_reliability m)"
proof -
  have "set (srt xs) = set xs" for xs using assms(1) by (metis set_mset_mset)
  with assms(2) show ?thesis
    by (auto simp: select_nodes_for_removal_def Let_def dest!: in_set_takeD split: if_splits)
qed

definition retargeted :: "Network \<Rightarrow> Network" where
  "retargeted net = net\<lparr>nt_quorum := (nt_quorum net)\<lparr>q_target := calculate_target_redundancy net\<rparr>\<rparr>"

lemma adjust_redundancy_alt:
  "snd (adjust_redundancy srt now net) =
     (if should_remove_replicas now (retargeted net)
      then fold (\<lambda>n. mark_replica_complete n False) (select_nodes_for_removal srt now (retargeted net)) (retargeted net)
      else retargeted net)"
proof -
  have "q_target (nt_quorum net) = calculate_target_redundancy net \<Longrightarrow> retargeted net = net"
    by (simp add: retargeted_def)
  then show ?thesis
    by (auto simp: adjust_redundancy_def Let_def retargeted_def [symmetric])
qed

lemma retargeted_simps [simp]:
  "nt_members (retargeted net) = nt_members net" "q_min (nt_quorum (retargeted net)) = q_min (nt_quorum net)"
  "q_target (nt_quorum (retargeted net)) = calculate_target_redundancy net"
  "active_replica_count now (retargeted net) = active_replica_count now net"
  by (simp_all add: retargeted_def active_replica_count_def)

lemma unreliable_key:
  assumes "\<exists>m\<in>set ms. key m = n \<and> P m" "distinct (map key ms)" "x \<in> set ms" "key x = n"
  shows "P x"
  using assms by (metis distinct_map inj_onD)

text \<open>The loop over the candidates keeps the best score; scores of candidates are numbers.\<close>

lemma f32_le_total: "x \<noteq> NaN \<Longrightarrow> y \<noteq> NaN \<Longrightarrow> \<not> f32_less x y \<Longrightarrow> f32_le y x"
  by (cases x; cases y) auto

abbreviation score_of :: "NetworkMember \<Rightarrow> f32" where
  "score_of m \<equiv> f32_of_bits (nm_reliability m)"

lemma best_source_Some:
  assumes "score_of b \<noteq> NaN" "\<And>m. m \<in> set ms \<Longrightarrow> nm_node_id m \<in> set cs \<Longrightarrow> score_of m \<noteq> NaN"
  shows "\<exists>b'. best_source cs ms (Some b) = Some b' \<and> (b' = b \<or> b' \<in> set ms \<and> nm_node_id b' \<in> set cs) \<and>
    f32_le (score_of b) (score_of b') \<and>
    (\<forall>m\<in>set ms. nm_node_id m \<in> set cs \<longrightarrow> f32_le (score_of m) (score_of b'))"
  using assms
proof (induction ms arbitrary: b)
  case Nil
  then show ?case by (cases "score_of b") auto
next
  case (Cons m ms)
  define c where "c = (if nm_node_id m \<in> set cs \<and> f32_less (score_of b) (score_of m) then m else b)"
  have c: "score_of c \<noteq> NaN" using Cons.prems by (simp add: c_def)
  have "f32_le (score_of b) (score_of c)"
    using Cons.prems(1) by (cases "score_of b") (auto simp: c_def f32_less_imp_le)
  moreover have "nm_node_id m \<in> set cs \<Longrightarrow> f32_le (score_of m) (score_of c)"
    using Cons.prems f32_le_total [of "score_of b" "score_of m"] by (cases "score_of m") (auto simp: c_def)
  moreover obtain b' where b': "best_source cs ms (Some c) = Some b'" "b' = c \<or> b' \<in> set ms \<and> nm_node_id b' \<in> set cs"
    "f32_le (score_of c) (score_of b')" "\<forall>m\<in>set ms. nm_node_id m \<in> set cs \<longrightarrow> f32_le (score_of m) (score_of b')"
    using Cons.IH [OF c] Cons.prems(2) by (metis list.set_intros(2))
  moreover have "best_source cs (m # ms) (Some b) = best_source cs ms (Some c)" by (simp add: c_def)
  moreover have "c = b \<or> c = m \<and> nm_node_id m \<in> set cs" by (simp add: c_def)
  ultimately show ?case by (intro exI [of _ b']) (auto dest: f32_le_trans)
qed

lemma best_source_None:
  assumes "\<And>m. m \<in> set ms \<Longrightarrow> nm_node_id m \<in> set cs \<Longrightarrow> score_of m \<noteq> NaN" "\<exists>m\<in>set ms. nm_node_id m \<in> set cs"
  shows "\<exists>b. best_source cs ms None = Some b \<and> b \<in> set ms \<and> nm_node_id b \<in> set cs \<and>
    (\<forall>m\<in>set ms. nm_node_id m \<in> set cs \<longrightarrow> f32_le (score_of m) (score_of b))"
  using assms
proof (induction ms)
  case (Cons m ms)
  show ?case
  proof (cases "nm_node_id m \<in> set cs")
    case True
    have step: "best_source cs (m # ms) None = best_source cs ms (Some m)" using True by simp
    show ?thesis
      unfolding step using best_source_Some [of m ms cs] Cons.prems(1) True by (metis list.set_intros set_ConsD)
  next
    case False
    then show ?thesis using Cons by auto
  qed
qed simp

lemma reliable_not_NaN: "reliable m \<Longrightarrow> score_of m \<noteq> NaN"
  by (auto simp: reliable_def MIN_RELIABILITY_SCORE_def)

subsection \<open>The file format\<close>

text \<open>A reader that takes an encoding off the front of its input, and the loop that reads many.\<close>

locale stream_codec =
  fixes enc :: "'a \<Rightarrow> bytes"
    and rd :: "bytes \<Rightarrow> ('a \<times> bytes) option"
    and wf :: "'a \<Rightarrow> bool"
  assumes rd_enc: "wf x \<Longrightarrow> rd (enc x @ rest) = Some (x, rest)"
begin

lemma read_many_enc:
  "list_all wf xs \<Longrightarrow> read_many rd (length xs) (concat (map enc xs) @ rest) = Some (xs, rest)"
  by (induction xs) (simp_all add: rd_enc)

end

definition wf_NetworkMember :: "NetworkMember \<Rightarrow> bool" where
  "wf_NetworkMember m \<longleftrightarrow> length (node_bytes (nm_node_id m)) = 32 \<and> length (nm_public_key m) = 32"

definition wf_PendingInvitation :: "PendingInvitation \<Rightarrow> bool" where
  "wf_PendingInvitation p \<longleftrightarrow> (let v = pi_invitation p in length (network_bytes (iv_network_id v)) = 32 \<and>
     length (node_bytes (iv_inviter v)) = 32 \<and> length (node_bytes (iv_invitee v)) = 32 \<and>
     length (iv_inviter_key v) = 32 \<and> length (iv_signature v) = 64)"

interpretation member_stream: stream_codec member_bytes read_member wf_NetworkMember
  by unfold_locales (simp add: member_bytes_def read_member_def wf_NetworkMember_def)

interpretation pending_stream: stream_codec pending_bytes read_pending wf_PendingInvitation
  by unfold_locales (simp add: pending_bytes_def read_pending_def wf_PendingInvitation_def Let_def)

definition wf_Network :: "Network \<Rightarrow> bool" where
  "wf_Network net \<longleftrightarrow> length (network_bytes (nt_id net)) = 32 \<and> length (content_bytes (nt_thing net)) = 32 \<and>
     q_min (nt_quorum net) < 2 ^ 32 \<and> q_target (nt_quorum net) < 2 ^ 32 \<and> q_max (nt_quorum net) < 2 ^ 32 \<and>
     length (nt_members net) < 2 ^ 32 \<and> list_all wf_NetworkMember (nt_members net) \<and>
     length (nt_pending net) < 2 ^ 32 \<and> list_all wf_PendingInvitation (nt_pending net)"

lemma Network_dec_enc: "wf_Network net \<Longrightarrow> Network_deserialize (Network_serialize net @ rest) = Some net"
  by (simp add: Network_deserialize_def Network_serialize_def wf_Network_def bytes_of_string_def
      member_stream.read_many_enc pending_stream.read_many_enc)

interpretation network_codec: trailing_codec Network_serialize Network_deserialize wf_Network
  by unfold_locales (rule Network_dec_enc)

subsection \<open>Sequences of operations\<close>

datatype network_op =
    AddMember NetworkMember
  | RemoveMember NodeID
  | CreateInvitation crypto_lib u64 NodeID NodeID bytes bytes MemberRole u64
  | AcceptInvitation crypto_lib u64 NetworkInvitation
  | RejectInvitation NetworkInvitation
  | CleanupInvitations u64
  | UpdateReliability NodeID u32
  | MarkActive u64 NodeID
  | MarkReplica NodeID bool
  | AdjustRedundancy score_sort u64

fun network_step :: "Network \<Rightarrow> network_op \<Rightarrow> Network" where
  "network_step net (AddMember m) = snd (add_member m net)"
| "network_step net (RemoveMember n) = snd (remove_member n net)"
| "network_step net (CreateInvitation C now a b pk sk role valid) = snd (create_invitation C now a b pk sk role valid net)"
| "network_step net (AcceptInvitation C now v) = snd (accept_invitation C now v net)"
| "network_step net (RejectInvitation v) = snd (reject_invitation v net)"
| "network_step net (CleanupInvitations now) = cleanup_expired_invitations now net"
| "network_step net (UpdateReliability n s) = update_member_reliability n s net"
| "network_step net (MarkActive now n) = mark_member_active now n net"
| "network_step net (MarkReplica n b) = mark_replica_complete n b net"
| "network_step net (AdjustRedundancy srt now) = snd (adjust_redundancy srt now net)"

definition network_inv :: "Network \<Rightarrow> bool" where
  "network_inv net \<longleftrightarrow> distinct (map nm_node_id (nt_members net)) \<and>
     length (nt_members net) \<le> 10 \<and> q_max (nt_quorum net) = 10 \<and> q_min (nt_quorum net) = 3"

lemma network_inv_ids:
  "map nm_node_id (nt_members net') = map nm_node_id (nt_members net) \<Longrightarrow>
   q_max (nt_quorum net') = q_max (nt_quorum net) \<Longrightarrow> q_min (nt_quorum net') = q_min (nt_quorum net) \<Longrightarrow>
   network_inv net \<Longrightarrow> network_inv net'"
  unfolding network_inv_def by (metis length_map)

lemma network_inv_add: "network_inv net \<Longrightarrow> network_inv (snd (add_member m net))"
  by (simp add: add_member_cases network_inv_def)

lemma network_inv_update:
  "(\<And>m. nm_node_id (f m) = nm_node_id m) \<Longrightarrow> network_inv net \<Longrightarrow>
     network_inv (net\<lparr>nt_members := update_first P f (nt_members net)\<rparr>)"
  by (rule network_inv_ids [of _ net]) (simp_all add: map_key_update_first)

lemma network_inv_marks: "network_inv net \<Longrightarrow> network_inv (fold (\<lambda>n. mark_replica_complete n b) ns net)"
  by (induction ns arbitrary: net) (simp_all add: mark_replica_complete_def network_inv_update)

lemma network_inv_adjust:
  assumes "network_inv net"
  shows "network_inv (snd (adjust_redundancy srt now net))"
proof -
  have "network_inv (retargeted net)"
    by (rule network_inv_ids [OF _ _ _ assms]) (simp_all add: retargeted_def)
  then show ?thesis by (simp add: adjust_redundancy_alt network_inv_marks)
qed

lemma network_inv_step: "network_inv net \<Longrightarrow> network_inv (network_step net x)"
proof (cases x)
  case (RemoveMember n)
  assume "network_inv net"
  with RemoveMember show ?thesis
    by (auto simp: remove_member_def Let_def network_inv_def distinct_map_filter intro: le_trans [OF length_filter_le])
next
  case (AcceptInvitation C now v)
  assume "network_inv net"
  with AcceptInvitation show ?thesis by (simp add: accept_invitation_def network_inv_add)
qed (simp_all add: network_inv_add network_inv_adjust network_inv_update create_invitation_def reject_invitation_def
    cleanup_expired_invitations_def update_member_reliability_def mark_member_active_def mark_replica_complete_def
    Let_def, simp_all add: network_inv_def)

interpretation network_machine: invariant_machine network_step network_inv
  by unfold_locales (rule network_inv_step)

subsection \<open>The registry\<close>

text \<open>A file system on which everything works.\<close>

definition good_dir :: "dir_io \<Rightarrow> bool" where
  "good_dir io \<longleftrightarrow> dio_mkdir io \<and> dio_exists io \<and>
     (\<forall>f b. dio_create io f \<and> dio_open io f \<and> dio_read io f \<and> dio_write io f b = (True, b)) \<and>
     (\<forall>d. set (dio_ls io d) = set d)"

lemma save_networks:
  "good_dir io \<Longrightarrow> fold (save_network io) nets (ok, dir) =
     (ok, fold (\<lambda>net. omap_set (network_file_name (nt_id net)) (Network_serialize net)) nets dir)"
  by (induction nets arbitrary: ok dir) (simp_all add: save_network_def good_dir_def Let_def)

lemma find_fold_omap_set_other:
  "k \<notin> f ` set xs \<Longrightarrow> map_of (fold (\<lambda>x. omap_set (f x) (g x)) xs m) k = map_of m k"
  by (induction xs arbitrary: m) auto

lemma find_fold_omap_set:
  "distinct (map f xs) \<Longrightarrow> x \<in> set xs \<Longrightarrow> map_of (fold (\<lambda>x. omap_set (f x) (g x)) xs m) (f x) = Some (g x)"
proof (induction xs arbitrary: m)
  case (Cons y xs)
  show ?case
  proof (cases "x \<in> set xs")
    case True
    then show ?thesis using Cons by simp
  next
    case False
    then have "x = y" using Cons.prems by simp
    then show ?thesis using Cons.prems by (simp add: find_fold_omap_set_other)
  qed
qed simp

lemma omap_ok_fold_set: "omap_ok m \<Longrightarrow> omap_ok (fold (\<lambda>x. omap_set (f x) (g x)) xs m)"
  by (induction xs arbitrary: m) auto

lemma entries_fold_omap_set:
  assumes "omap_ok m" "distinct (map f xs)"
  shows "set (fold (\<lambda>x. omap_set (f x) (g x)) xs m) =
    (\<lambda>x. (f x, g x)) ` set xs \<union> set (filter (\<lambda>(k, v). k \<notin> f ` set xs) m)" (is "set ?m = ?R")
proof -
  have "(k, v) \<in> set ?m \<longleftrightarrow> (k, v) \<in> ?R" for k v
  proof (cases "k \<in> f ` set xs")
    case True
    then obtain x where x: "x \<in> set xs" "k = f x" by blast
    have uniq: "y \<in> set xs \<Longrightarrow> f y = f x \<Longrightarrow> y = x" for y
      using assms(2) x(1) by (meson distinct_map inj_onD)
    have "(k, v) \<in> set ?m \<longleftrightarrow> v = g x"
      using omap_find_iff [OF omap_ok_fold_set [OF assms(1)], of f g xs k v]
      by (auto simp: x(2) find_fold_omap_set [OF assms(2) x(1)])
    then show ?thesis using x by (auto dest: uniq)
  next
    case False
    then show ?thesis
      using omap_find_iff [OF omap_ok_fold_set [OF assms(1)], of f g xs k v] omap_find_iff [OF assms(1), of k v]
      by (auto simp: find_fold_omap_set_other)
  qed
  then show ?thesis by auto
qed

lemma network_file_name_inject: "network_file_name i = network_file_name j \<longleftrightarrow> i = j"
  by (auto simp: network_file_name_def dest: hash_to_hex_inject intro: NetworkID.expand)

lemma is_bin_network_file: "length (network_bytes i) = 32 \<Longrightarrow> is_bin_file (network_file_name i)"
  by (simp add: is_bin_file_def network_file_name_def)

lemma Network_serialize_not_Nil [simp]: "Network_serialize net \<noteq> []"
  by (simp add: Network_serialize_def bytes_of_string_def)

lemma set_map_filter: "set (List.map_filter f xs) = {y. \<exists>x\<in>set xs. f x = Some y}"
  by (force simp: List.map_filter_def)

lemma load_saved_network:
  "good_dir io \<Longrightarrow> wf_Network net \<Longrightarrow>
     load_network io (network_file_name (nt_id net), Network_serialize net) = Some net"
  by (simp add: load_network_def good_dir_def is_bin_network_file wf_Network_def network_codec.dec_enc)

lemma reloaded_networks:
  assumes "good_dir io" "omap_ok dir" "list_all wf_Network (nr_networks r)" "distinct (map nt_id (nr_networks r))"
  shows "fst (registry_save_to_disk io r dir) \<and>
    set (nr_networks (snd (registry_load_from_disk io (snd (registry_save_to_disk io r dir)) r'))) =
      set (nr_networks r) \<union> set (List.map_filter (load_network io)
        (filter (\<lambda>(name, content). name \<notin> network_file_name ` nt_id ` set (nr_networks r)) dir))"
proof -
  let ?f = "\<lambda>net. network_file_name (nt_id net)"
  let ?stale = "filter (\<lambda>(name, content). name \<notin> ?f ` set (nr_networks r)) dir"
  have d: "distinct (map ?f (nr_networks r))"
    using assms(4) by (simp add: distinct_map inj_on_def network_file_name_inject)
  have save: "registry_save_to_disk io r dir =
      (True, fold (\<lambda>net. omap_set (?f net) (Network_serialize net)) (nr_networks r) dir)"
    using assms(1) by (simp add: registry_save_to_disk_def save_networks good_dir_def)
  have "set (List.map_filter (load_network io) (dio_ls io (snd (registry_save_to_disk io r dir)))) =
      {net. \<exists>x\<in>(\<lambda>net. (?f net, Network_serialize net)) ` set (nr_networks r) \<union> set ?stale. load_network io x = Some net}"
    using assms(1) by (simp add: set_map_filter save good_dir_def entries_fold_omap_set [OF assms(2) d])
  also have "\<dots> = {net. \<exists>n\<in>set (nr_networks r). load_network io (?f n, Network_serialize n) = Some net} \<union>
      set (List.map_filter (load_network io) ?stale)"
    by (auto simp: set_map_filter)
  also have "{net. \<exists>n\<in>set (nr_networks r). load_network io (?f n, Network_serialize n) = Some net} = set (nr_networks r)"
    using assms(3) by (auto simp: list_all_iff load_saved_network [OF assms(1)])
  finally show ?thesis
    using assms(1) by (simp add: save registry_load_from_disk_def good_dir_def image_image)
qed

section \<open>Properties\<close>

text \<open>
  in every network built by the operations of the class, no node is a member twice, there are
  never more members than the quorum allows, and its limits stay as they were set up.
\<close>

theorem network_membership_invariant:
  "distinct (map nm_node_id (nt_members (foldl network_step (Network_new now i thing) ops))) \<and>
   length (nt_members (foldl network_step (Network_new now i thing) ops)) \<le> 10 \<and>
   q_max (nt_quorum (foldl network_step (Network_new now i thing) ops)) = 10 \<and>
   q_min (nt_quorum (foldl network_step (Network_new now i thing) ops)) = 3"
  using network_machine.run_inv [of "Network_new now i thing" ops]
  by (simp add: network_inv_def Network_new_def NetworkQuorum_default_def)

text \<open>
  an invitation admits its invitee exactly when it is for this network, has not expired, names
  as inviter a member whose registered key is the one in the invitation and verifies its
  signature, the invitee is no member yet and there is room; then one member with the proposed role
  is appended, and otherwise nothing changes.
\<close>

theorem invitation_admits:
  fixes net :: Network and v :: NetworkInvitation and C :: crypto_lib and now :: u64
  defines "ok \<equiv> iv_network_id v = nt_id net \<and> now \<le> iv_expires v \<and>
    (\<exists>m. get_member net (iv_inviter v) = Some m \<and> nm_public_key m = iv_inviter_key v \<and>
      cr_verify C (NetworkInvitation_to_bytes v) (iv_signature v) (nm_public_key m)) \<and>
    iv_invitee v \<notin> nm_node_id ` set (nt_members net) \<and> length (nt_members net) < q_max (nt_quorum net)"
  shows "accept_invitation C now v net = (ok, if ok then net\<lparr>nt_members := nt_members net @
    [\<lparr>nm_node_id = iv_invitee v, nm_public_key = replicate 32 0, nm_role = iv_role v, nm_joined = now,
      nm_last_seen = now, nm_replica = False, nm_reliability = 0x3F800000\<rparr>]\<rparr> else net)"
  unfolding ok_def accept_invitation_def verify_invitation_iff add_member_cases by (auto simp: NetworkMember_new_def)

text \<open>
  C23: adjusting the redundancy of a network takes replicas only from members whose reliability is below
  one half, never leaves fewer active replicas than the new target, and never takes a network that
  has its minimum of active replicas below that minimum, however the sort orders equal scores.
\<close>

theorem redundancy_kept:
  fixes net :: Network and srt :: score_sort and now :: u64
  assumes "distinct (map nm_node_id (nt_members net))" "\<And>xs. mset (srt xs) = mset xs"
  defines "net' \<equiv> snd (adjust_redundancy srt now net)"
  shows "min (active_replica_count now net) (calculate_target_redundancy net) \<le> active_replica_count now net' \<and>
    (q_min (nt_quorum net) \<le> active_replica_count now net \<longrightarrow> q_min (nt_quorum net) \<le> active_replica_count now net') \<and>
    (\<exists>ns. nt_members net' = map (\<lambda>m. if nm_node_id m \<in> ns then m\<lparr>nm_replica := False\<rparr> else m) (nt_members net) \<and>
       (\<forall>m\<in>set (nt_members net). nm_node_id m \<in> ns \<longrightarrow> nm_replica m \<and> unreliable (nm_reliability m)))"
proof (cases "should_remove_replicas now (retargeted net)")
  case True
  let ?ns = "select_nodes_for_removal srt now (retargeted net)"
  have d: "distinct (map nm_node_id (nt_members (retargeted net)))" using assms(1) by simp
  have net': "net' = fold (\<lambda>n. mark_replica_complete n False) ?ns (retargeted net)"
    using True by (simp add: net'_def adjust_redundancy_alt)
  have few: "active_replica_count now net \<le> active_replica_count now net' + length ?ns"
    using active_after_marking [OF d, of now ?ns] by (simp add: net')
  have bound: "length ?ns \<le> (if active_replica_count now net \<le> calculate_target_redundancy net then 0
      else min (active_replica_count now net - calculate_target_redundancy net)
        (size_minus (active_replica_count now net) (q_min (nt_quorum net))))"
    using selected_few [of srt now "retargeted net"] by (simp only: retargeted_simps)
  have "nm_replica m \<and> unreliable (nm_reliability m)" if "m \<in> set (nt_members net)" "nm_node_id m \<in> set ?ns" for m
    using selected_unreliable [OF assms(2) that(2)] unreliable_key [OF _ assms(1) that(1)] by fastforce
  moreover have "nt_members net' = map (\<lambda>m. if nm_node_id m \<in> set ?ns then m\<lparr>nm_replica := False\<rparr> else m) (nt_members net)"
    by (simp add: net' mark_replicas [OF d])
  moreover have "q_min (nt_quorum net) \<le> active_replica_count now net \<Longrightarrow> q_min (nt_quorum net) \<le> active_replica_count now net'"
    using few bound by (auto simp: size_minus_def split: if_splits)
  moreover have "min (active_replica_count now net) (calculate_target_redundancy net) \<le> active_replica_count now net'"
    using few bound by (auto split: if_splits)
  ultimately show ?thesis by blast
next
  case False
  then have "net' = retargeted net" by (simp add: net'_def adjust_redundancy_alt)
  then show ?thesis by (auto intro!: exI [of _ "{}"])
qed

text \<open>
  saving the registry and loading the directory gives back every network that was saved, and
  with them exactly the networks in other files of the directory: a network that was removed from
  the registry comes back, since its file stays.
\<close>

theorem registry_roundtrip:
  assumes "good_dir io" "omap_ok dir" "list_all wf_Network (nr_networks r)" "distinct (map nt_id (nr_networks r))"
  shows "fst (registry_save_to_disk io r dir) \<and>
    set (nr_networks (snd (registry_load_from_disk io (snd (registry_save_to_disk io r dir)) r'))) =
      set (nr_networks r) \<union> set (List.map_filter (load_network io)
        (filter (\<lambda>(name, content). name \<notin> network_file_name ` nt_id ` set (nr_networks r)) dir))"
  by (rule reloaded_networks [OF assms])

definition sample_net :: Network where
  "sample_net = (Network_new 0 (NetworkID (replicate 32 1)) (ContentHash (replicate 32 2)))\<lparr>nt_members :=
     map (\<lambda>(i, s). \<lparr>nm_node_id = NodeID (replicate 32 i), nm_public_key = replicate 32 9, nm_role = 1, nm_joined = 0,
       nm_last_seen = 0, nm_replica = True, nm_reliability = s\<rparr>)
       [(1, 0), (2, 0x3F800000), (3, 0), (4, 0), (5, 0x3F800000), (6, 0x3F800000), (7, 0x3F800000)]\<rparr>"

definition sample_dir :: dir_io where
  "sample_dir = \<lparr>dio_mkdir = True, dio_create = \<lambda>_. True, dio_write = \<lambda>_ b. (True, b), dio_exists = True,
     dio_ls = \<lambda>d. d, dio_open = \<lambda>_. True, dio_read = \<lambda>_. True\<rparr>"

lemma unreliable_values: "unreliable 0" "\<not> unreliable 0x3F800000"
  by (simp_all add: unreliable_def f32_of_bits_def MIN_RELIABILITY_SCORE_def Let_def)

lemma sample_net_wf: "wf_Network sample_net"
  by (simp add: sample_net_def wf_Network_def Network_new_def NetworkQuorum_default_def wf_NetworkMember_def)

theorem redundancy_kept_witness:
  "5 \<le> active_replica_count 10 (snd (adjust_redundancy (sort_key (\<lambda>p. unat (snd p))) 10 sample_net)) \<and>
   nm_replica (nt_members (snd (adjust_redundancy (sort_key (\<lambda>p. unat (snd p))) 10 sample_net)) ! 1)"
proof -
  have d: "distinct (map nm_node_id (nt_members sample_net))" by (simp add: sample_net_def)
  have a: "active_replica_count 10 sample_net = 7" "calculate_target_redundancy sample_net = 5"
    by (simp_all add: sample_net_def active_replica_count_def is_member_active_def MEMBER_TIMEOUT_SECONDS_def
        calculate_target_redundancy_def)
  let ?ms = "nt_members sample_net"
  have m: "?ms ! 1 \<in> set ?ms" "nm_replica (?ms ! 1)" "\<not> unreliable (nm_reliability (?ms ! 1))" "1 < length ?ms"
    by (simp_all add: sample_net_def unreliable_values)
  show ?thesis
    using redundancy_kept [OF d, of "sort_key (\<lambda>p. unat (snd p))" 10] m by (auto simp: a nth_map)
qed

text \<open>
  The subtraction of the minimum wraps when a network has fewer active replicas than its minimum:
  two of seven replicas are given up although eight are required.
\<close>

theorem redundancy_below_minimum:
  "let net = sample_net\<lparr>nt_quorum := \<lparr>q_min = 8, q_target = 8, q_max = 10\<rparr>\<rparr> in
     active_replica_count 10 net = 7 \<and>
     active_replica_count 10 (snd (adjust_redundancy (sort_key (\<lambda>p. unat (snd p))) 10 net)) = 5"
proof -
  define net where "net = sample_net\<lparr>nt_quorum := \<lparr>q_min = 8, q_target = 8, q_max = 10\<rparr>\<rparr>"
  have ms: "nt_members net = nt_members sample_net" "q_min (nt_quorum net) = 8" by (simp_all add: net_def)
  have d: "distinct (map nm_node_id (nt_members (retargeted net)))" by (simp add: ms) (simp add: sample_net_def)
  have a: "active_replica_count 10 net = 7" "calculate_target_redundancy net = 5"
    by (simp_all add: ms active_replica_count_def calculate_target_redundancy_def)
      (simp_all add: sample_net_def is_member_active_def MEMBER_TIMEOUT_SECONDS_def)
  have r: "should_remove_replicas 10 (retargeted net)"
    by (simp add: should_remove_replicas_def a ms) (simp add: sample_net_def unreliable_values)
  have "sort_key (\<lambda>p. unat (snd p)) (map (\<lambda>m. (nm_node_id m, nm_reliability m)) (filter nm_replica (nt_members sample_net))) =
      map (\<lambda>(i, s). (NodeID (replicate 32 i), s))
        [(1, 0), (3, 0), (4, 0), (2, 0x3F800000), (5, 0x3F800000), (6, 0x3F800000), (7, 0x3F800000)]"
    by (simp add: sample_net_def)
  then have s: "select_nodes_for_removal (sort_key (\<lambda>p. unat (snd p))) 10 (retargeted net) =
      [NodeID (replicate 32 1), NodeID (replicate 32 3)]"
    by (simp add: select_nodes_for_removal_def a ms size_minus_def unreliable_values Let_def)
  have "active_replica_count 10 (snd (adjust_redundancy (sort_key (\<lambda>p. unat (snd p))) 10 net)) = 5"
    unfolding adjust_redundancy_alt if_P [OF r] s mark_replicas [OF d]
    by (simp add: active_replica_count_def ms)
      (simp add: sample_net_def is_member_active_def MEMBER_TIMEOUT_SECONDS_def)
  with a(1) show ?thesis by (simp add: net_def Let_def)
qed

theorem registry_roundtrip_witness:
  "set (nr_networks (snd (registry_load_from_disk sample_dir
     (snd (registry_save_to_disk sample_dir \<lparr>nr_networks = [sample_net], nr_counter = 1\<rparr> [])) NetworkRegistry_init))) = {sample_net}"
proof -
  have "good_dir sample_dir" by (simp add: good_dir_def sample_dir_def)
  from registry_roundtrip [OF this, of "[]" "\<lparr>nr_networks = [sample_net], nr_counter = 1\<rparr>" NetworkRegistry_init]
  show ?thesis by (simp add: sample_net_wf map_filter_simps)
qed

text \<open>
  the source chosen for a replication is the most reliable among the active members with a complete
  replica and a score of at least one half, and the zero identifier exactly when there is none.
\<close>

theorem best_source_chosen:
  fixes net :: Network and now :: u64
  assumes "distinct (map nm_node_id (nt_members net))"
  defines "cand m \<equiv> m \<in> set (nt_members net) \<and> is_member_active now m \<and> nm_replica m \<and> reliable m"
  shows "if \<exists>m. cand m
    then \<exists>m. cand m \<and> select_best_source_for_replication now net = nm_node_id m \<and>
      (\<forall>m'. cand m' \<longrightarrow> f32_le (f32_of_bits (nm_reliability m')) (f32_of_bits (nm_reliability m)))
    else select_best_source_for_replication now net = NodeID zero_hash"
proof (cases "\<exists>m. cand m")
  case True
  let ?cs = "get_replication_candidates now net"
  have in_cs: "nm_node_id m \<in> set ?cs \<longleftrightarrow> cand m" if "m \<in> set (nt_members net)" for m
    using that assms(1) unfolding cand_def get_replication_candidates_def
    by (auto simp: distinct_map dest: inj_onD)
  have num: "m \<in> set (nt_members net) \<Longrightarrow> nm_node_id m \<in> set ?cs \<Longrightarrow> f32_of_bits (nm_reliability m) \<noteq> NaN" for m
    using in_cs by (simp add: cand_def reliable_not_NaN)
  have ex: "\<exists>m\<in>set (nt_members net). nm_node_id m \<in> set ?cs" using True in_cs unfolding cand_def by blast
  obtain b where b: "best_source ?cs (nt_members net) None = Some b" "b \<in> set (nt_members net)" "nm_node_id b \<in> set ?cs"
    "\<forall>m\<in>set (nt_members net). nm_node_id m \<in> set ?cs \<longrightarrow> f32_le (f32_of_bits (nm_reliability m)) (f32_of_bits (nm_reliability b))"
    using best_source_None [OF num ex] by blast
  have ne: "?cs \<noteq> []" using ex by auto
  have "select_best_source_for_replication now net = nm_node_id b"
    using b(1) ne by (simp add: select_best_source_for_replication_def)
  moreover have "cand m \<Longrightarrow> m \<in> set (nt_members net)" for m by (simp add: cand_def)
  ultimately show ?thesis using True b in_cs by auto
next
  case False
  then have "get_replication_candidates now net = []"
    by (auto simp: cand_def get_replication_candidates_def filter_empty_conv)
  with False show ?thesis by (simp add: select_best_source_for_replication_def)
qed

theorem best_source_chosen_witness:
  "select_best_source_for_replication 10 sample_net \<in> nm_node_id ` set (nt_members sample_net)"
proof -
  have d: "distinct (map nm_node_id (nt_members sample_net))" by (simp add: sample_net_def)
  have "reliable (nt_members sample_net ! 1)"
    by (simp add: sample_net_def reliable_def f32_of_bits_def MIN_RELIABILITY_SCORE_def Let_def)
  then have "\<exists>m. m \<in> set (nt_members sample_net) \<and> is_member_active 10 m \<and> nm_replica m \<and> reliable m"
    by (intro exI [of _ "nt_members sample_net ! 1"]) (simp add: sample_net_def is_member_active_def MEMBER_TIMEOUT_SECONDS_def)
  with best_source_chosen [OF d, of 10] show ?thesis by auto
qed

text \<open>
  The counter of the registry is not stored: after a restart, creating a network for the same Thing
  gives the identifier of the network that was loaded.
\<close>

theorem network_identifier_reused:
  fixes now now' :: u64
  assumes "good_dir io" "\<And>x. length (cr_hash C x) = 32" "length (content_bytes thing) = 32"
  defines "saved \<equiv> create_network C now thing NetworkRegistry_init"
  defines "restarted \<equiv> snd (registry_load_from_disk io (snd (registry_save_to_disk io (snd saved) [])) NetworkRegistry_init)"
  shows "is_member_of restarted (fst saved) \<and> fst (create_network C now' thing restarted) = fst saved"
proof -
  define net where "net = Network_new now (fst saved) thing"
  have nets: "nr_networks (snd saved) = [net]" "nt_id net = fst saved"
    by (simp_all add: net_def saved_def create_network_def NetworkRegistry_init_def Let_def Network_new_def)
  have "wf_Network net"
    using assms(2,3)
    by (simp add: net_def saved_def create_network_def Let_def wf_Network_def Network_new_def NetworkQuorum_default_def)
  then have "net \<in> set (nr_networks restarted)"
    using reloaded_networks [OF assms(1), of "[]" "snd saved"] by (simp add: restarted_def nets)
  then have "is_member_of restarted (fst saved)"
    using nets(2) by (auto simp: is_member_of_def get_network_def find_None_iff)
  moreover have "nr_counter restarted = 0"
    by (simp add: restarted_def registry_load_from_disk_def NetworkRegistry_init_def)
  ultimately show ?thesis by (simp add: saved_def create_network_def NetworkRegistry_init_def Let_def)
qed

end
