(* ===== verification/Replication.thy ===== *)
theory Replication
  imports Networks
begin

text \<open>
  \<open>ReplicationCoordinator\<close> of \<open>src/network/network.cpp\<close>: the queue of replication jobs with its priorities,
  retries, cleanup and statistics. The clock is the argument \<open>now\<close>, in the unit of the code's clock
  (nanoseconds). \<open>std::stable_sort\<close> is the stable sort of the library on the key that the comparison
  of the code compares.
\<close>

section \<open>Data\<close>

record ReplicationRequest =
  rr_network_id :: NetworkID
  rr_thing_hash :: ContentHash
  rr_source_node :: NodeID
  rr_target_node :: NodeID
  rr_timestamp :: u64
  rr_priority :: u32

definition request_less :: "ReplicationRequest \<Rightarrow> ReplicationRequest \<Rightarrow> bool" where
  "request_less a b \<longleftrightarrow> rr_priority a < rr_priority b"

datatype ReplicationStatus = PENDING | IN_PROGRESS | VERIFYING | COMPLETED | FAILED | CANCELLED

record ReplicationJob =
  rj_request :: ReplicationRequest
  rj_status :: ReplicationStatus
  rj_started :: u64
  rj_completed :: u64
  rj_bytes :: u64
  rj_error :: string
  rj_retry :: u32

type_synonym ReplicationCoordinator = "ReplicationJob list"

record ReplicationStats =
  rst_total :: nat
  rst_completed :: nat
  rst_failed :: nat
  rst_in_progress :: nat
  rst_pending :: nat
  rst_bytes :: u64
  rst_average :: f32

definition MAX_CONCURRENT_JOBS :: nat where
  "MAX_CONCURRENT_JOBS = 5"

section \<open>Operations\<close>

text \<open>\<open>prioritize_jobs\<close>: pending jobs first, then by decreasing priority.\<close>

definition job_key :: "ReplicationJob \<Rightarrow> nat \<times> int" where
  "job_key j = (if rj_status j = PENDING then 0 else 1, - int (unat (rr_priority (rj_request j))))"

definition prioritize_jobs :: "ReplicationCoordinator \<Rightarrow> ReplicationCoordinator" where
  "prioritize_jobs jobs = sort_key job_key jobs"

definition same_task :: "NetworkID \<Rightarrow> NodeID \<Rightarrow> ReplicationJob \<Rightarrow> bool" where
  "same_task net target j \<longleftrightarrow> rr_network_id (rj_request j) = net \<and> rr_target_node (rj_request j) = target"

definition live :: "ReplicationJob \<Rightarrow> bool" where
  "live j \<longleftrightarrow> rj_status j = PENDING \<or> rj_status j = IN_PROGRESS"

definition new_job :: "ReplicationRequest \<Rightarrow> ReplicationJob" where
  "new_job r = \<lparr>rj_request = r, rj_status = PENDING, rj_started = 0, rj_completed = 0, rj_bytes = 0, rj_error = '''', rj_retry = 0\<rparr>"

definition request_replication :: "ReplicationRequest \<Rightarrow> ReplicationCoordinator \<Rightarrow> ReplicationCoordinator" where
  "request_replication r jobs =
     (if list_ex (\<lambda>j. same_task (rr_network_id r) (rr_target_node r) j \<and> live j) jobs then jobs
      else prioritize_jobs (jobs @ [new_job r]))"

definition cancel_replication :: "NetworkID \<Rightarrow> NodeID \<Rightarrow> ReplicationCoordinator \<Rightarrow> ReplicationCoordinator" where
  "cancel_replication net target jobs =
     map (\<lambda>j. if same_task net target j \<and> live j then j\<lparr>rj_status := CANCELLED\<rparr> else j) jobs"

definition get_active_jobs :: "ReplicationCoordinator \<Rightarrow> ReplicationJob list" where
  "get_active_jobs jobs = filter (\<lambda>j. rj_status j = IN_PROGRESS) jobs"

definition get_pending_jobs :: "ReplicationCoordinator \<Rightarrow> ReplicationJob list" where
  "get_pending_jobs jobs = filter (\<lambda>j. rj_status j = PENDING) jobs"

definition get_failed_jobs :: "ReplicationCoordinator \<Rightarrow> ReplicationJob list" where
  "get_failed_jobs jobs = filter (\<lambda>j. rj_status j = FAILED) jobs"

definition pending_job_count :: "ReplicationCoordinator \<Rightarrow> nat" where
  "pending_job_count jobs = length (get_pending_jobs jobs)"

definition active_job_count :: "ReplicationCoordinator \<Rightarrow> nat" where
  "active_job_count jobs = length (get_active_jobs jobs)"

definition can_start_new_job :: "ReplicationCoordinator \<Rightarrow> bool" where
  "can_start_new_job jobs \<longleftrightarrow> active_job_count jobs < MAX_CONCURRENT_JOBS"

definition get_next_job :: "ReplicationCoordinator \<Rightarrow> ReplicationJob option" where
  "get_next_job jobs =
     (if \<not> can_start_new_job jobs then None else List.find (\<lambda>j. rj_status j = PENDING) jobs)"

definition mark_job_started :: "u64 \<Rightarrow> ReplicationRequest \<Rightarrow> ReplicationCoordinator \<Rightarrow> ReplicationCoordinator" where
  "mark_job_started now r jobs =
     update_first (\<lambda>j. same_task (rr_network_id r) (rr_target_node r) j \<and> rj_status j = PENDING)
       (\<lambda>j. j\<lparr>rj_status := IN_PROGRESS, rj_started := now\<rparr>) jobs"

definition mark_job_completed :: "u64 \<Rightarrow> ReplicationRequest \<Rightarrow> bool \<Rightarrow> string \<Rightarrow> ReplicationCoordinator \<Rightarrow> ReplicationCoordinator" where
  "mark_job_completed now r success err jobs =
     update_first (\<lambda>j. same_task (rr_network_id r) (rr_target_node r) j \<and> rj_status j = IN_PROGRESS)
       (\<lambda>j. j\<lparr>rj_status := (if success then COMPLETED else FAILED), rj_completed := now, rj_error := err\<rparr>) jobs"

definition retry_failed_jobs :: "u32 \<Rightarrow> ReplicationCoordinator \<Rightarrow> ReplicationCoordinator" where
  "retry_failed_jobs max_retries jobs = prioritize_jobs
     (map (\<lambda>j. if rj_status j = FAILED \<and> rj_retry j < max_retries
               then j\<lparr>rj_status := PENDING, rj_retry := rj_retry j + 1, rj_error := ''''\<rparr> else j) jobs)"

definition cleanup_old_jobs :: "u64 \<Rightarrow> u64 \<Rightarrow> ReplicationCoordinator \<Rightarrow> ReplicationCoordinator" where
  "cleanup_old_jobs now max_age jobs = filter (\<lambda>j. live j \<or> \<not> now - rj_completed j > max_age) jobs"

definition count_job :: "ReplicationJob \<Rightarrow> ReplicationStats \<times> u64 \<times> nat \<Rightarrow> ReplicationStats \<times> u64 \<times> nat" where
  "count_job j = (\<lambda>(s, time, completed).
     let s = s\<lparr>rst_total := rst_total s + 1\<rparr> in
     case rj_status j of
       COMPLETED \<Rightarrow> (s\<lparr>rst_completed := rst_completed s + 1, rst_bytes := rst_bytes s + rj_bytes j\<rparr>,
         if rj_completed j > rj_started j then time + (rj_completed j - rj_started j) else time, completed + 1)
     | FAILED \<Rightarrow> (s\<lparr>rst_failed := rst_failed s + 1\<rparr>, time, completed)
     | CANCELLED \<Rightarrow> (s\<lparr>rst_failed := rst_failed s + 1\<rparr>, time, completed)
     | IN_PROGRESS \<Rightarrow> (s\<lparr>rst_in_progress := rst_in_progress s + 1\<rparr>, time, completed)
     | VERIFYING \<Rightarrow> (s\<lparr>rst_in_progress := rst_in_progress s + 1\<rparr>, time, completed)
     | PENDING \<Rightarrow> (s\<lparr>rst_pending := rst_pending s + 1\<rparr>, time, completed))"

definition get_replication_stats :: "ReplicationCoordinator \<Rightarrow> ReplicationStats" where
  "get_replication_stats jobs =
     (let (s, time, completed) = fold count_job jobs (\<lparr>rst_total = 0, rst_completed = 0, rst_failed = 0,
            rst_in_progress = 0, rst_pending = 0, rst_bytes = 0, rst_average = Fin 0\<rparr>, 0, 0)
      in if completed > 0
         then s\<lparr>rst_average := f32_div (f32_div (f32_of_int (uint time)) (f32_of_int (int completed))) (Fin 1000000000)\<rparr>
         else s)"

section \<open>Sequences of operations\<close>

datatype replication_op =
    Request ReplicationRequest
  | Cancel NetworkID NodeID
  | Started u64 ReplicationRequest
  | Completed u64 ReplicationRequest bool string
  | Retry u32
  | CleanupJobs u64 u64

fun replication_step :: "ReplicationCoordinator \<Rightarrow> replication_op \<Rightarrow> ReplicationCoordinator" where
  "replication_step jobs (Request r) = request_replication r jobs"
| "replication_step jobs (Cancel net target) = cancel_replication net target jobs"
| "replication_step jobs (Started now r) = mark_job_started now r jobs"
| "replication_step jobs (Completed now r ok err) = mark_job_completed now r ok err jobs"
| "replication_step jobs (Retry n) = retry_failed_jobs n jobs"
| "replication_step jobs (CleanupJobs now age) = cleanup_old_jobs now age jobs"

text \<open>The pending jobs are in the order of decreasing priority, wherever the others stand.\<close>

definition queue_inv :: "ReplicationCoordinator \<Rightarrow> bool" where
  "queue_inv jobs \<longleftrightarrow> sorted_wrt (\<lambda>a b. rr_priority (rj_request a) \<ge> rr_priority (rj_request b)) (get_pending_jobs jobs)"

lemma queue_inv_prioritize: "queue_inv (prioritize_jobs jobs)"
proof -
  have "sorted (map job_key (sort_key job_key jobs))" by simp
  then have "sorted_wrt (\<lambda>a b. job_key a \<le> job_key b) (sort_key job_key jobs)" by (simp add: sorted_map)
  then have "sorted_wrt (\<lambda>a b. job_key a \<le> job_key b) (filter (\<lambda>j. rj_status j = PENDING) (sort_key job_key jobs))"
    by (rule sorted_wrt_filter)
  then show ?thesis
    unfolding queue_inv_def get_pending_jobs_def prioritize_jobs_def
    by (rule sorted_wrt_mono_rel [rotated]) (auto simp: job_key_def word_le_def)
qed

text \<open>A change of jobs in place that makes no job pending keeps the order.\<close>

definition kept :: "ReplicationJob \<Rightarrow> ReplicationJob \<Rightarrow> bool" where
  "kept j j' \<longleftrightarrow> rj_request j' = rj_request j \<and> (rj_status j' = PENDING \<longrightarrow> rj_status j = PENDING)"

lemma list_all2_source: "list_all2 R xs ys \<Longrightarrow> y \<in> set ys \<Longrightarrow> \<exists>x\<in>set xs. R x y"
  by (metis in_set_conv_nth list_all2_conv_all_nth)

lemma queue_inv_kept: "list_all2 kept jobs jobs' \<Longrightarrow> queue_inv jobs \<Longrightarrow> queue_inv jobs'"
proof (induction rule: list_all2_induct)
  case (Cons j jobs j' jobs')
  have "\<exists>a\<in>set jobs. rj_status a = PENDING \<and> rj_request a = rj_request b"
    if "b \<in> set jobs'" "rj_status b = PENDING" for b
    using list_all2_source [OF Cons.hyps(2) that(1)] that(2) by (auto simp: kept_def)
  then have ge: "rr_priority (rj_request b) \<le> rr_priority (rj_request j)"
    if "rj_status j = PENDING" "b \<in> set jobs'" "rj_status b = PENDING" for b
    using Cons.prems that by (force simp: queue_inv_def get_pending_jobs_def)
  have "queue_inv jobs" using Cons.prems by (simp add: queue_inv_def get_pending_jobs_def split: if_splits)
  then have "queue_inv jobs'" by (rule Cons.IH)
  with ge Cons.hyps(1) show ?case by (simp add: queue_inv_def get_pending_jobs_def kept_def)
qed simp

lemma kept_map: "(\<And>j. kept j (f j)) \<Longrightarrow> list_all2 kept jobs (map f jobs)"
  by (simp add: list_all2_conv_all_nth)

lemma kept_update: "(\<And>j. P j \<Longrightarrow> kept j (f j)) \<Longrightarrow> list_all2 kept jobs (update_first P f jobs)"
  by (induction jobs) (auto simp: kept_def intro: list_all2_refl)

lemma queue_inv_step: "queue_inv jobs \<Longrightarrow> queue_inv (replication_step jobs x)"
proof (cases x)
  case (CleanupJobs now age)
  assume "queue_inv jobs"
  then have "sorted_wrt (\<lambda>a b. rr_priority (rj_request a) \<ge> rr_priority (rj_request b))
      (filter (\<lambda>j. live j \<or> \<not> now - rj_completed j > age) (get_pending_jobs jobs))"
    by (simp add: queue_inv_def sorted_wrt_filter)
  then show ?thesis
    by (simp add: CleanupJobs queue_inv_def get_pending_jobs_def cleanup_old_jobs_def conj_commute)
qed (auto simp: request_replication_def retry_failed_jobs_def queue_inv_prioritize cancel_replication_def
    mark_job_started_def mark_job_completed_def live_def kept_def intro!: queue_inv_kept [OF kept_map] queue_inv_kept [OF kept_update])

interpretation replication_machine: invariant_machine replication_step queue_inv
  by unfold_locales (rule queue_inv_step)

text \<open>At most one live job per network and target.\<close>

abbreviation task_of :: "ReplicationJob \<Rightarrow> NetworkID \<times> NodeID" where
  "task_of j \<equiv> (rr_network_id (rj_request j), rr_target_node (rj_request j))"

definition tasks_inv :: "ReplicationCoordinator \<Rightarrow> bool" where
  "tasks_inv jobs \<longleftrightarrow> distinct (map task_of (filter live jobs))"

fun not_retry :: "replication_op \<Rightarrow> bool" where
  "not_retry (Retry n) = False"
| "not_retry _ = True"

definition calmed :: "ReplicationJob \<Rightarrow> ReplicationJob \<Rightarrow> bool" where
  "calmed j j' \<longleftrightarrow> rj_request j' = rj_request j \<and> (live j' \<longrightarrow> live j)"

lemma tasks_inv_calmed: "list_all2 calmed jobs jobs' \<Longrightarrow> tasks_inv jobs \<Longrightarrow> tasks_inv jobs'"
proof (induction rule: list_all2_induct)
  case (Cons j jobs j' jobs')
  have "task_of b \<in> task_of ` set (filter live jobs)" if "b \<in> set jobs'" "live b" for b
    using list_all2_source [OF Cons.hyps(2) that(1)] that(2) by (force simp: calmed_def)
  then have sub: "task_of ` set (filter live jobs') \<subseteq> task_of ` set (filter live jobs)" by force
  have "tasks_inv jobs" using Cons.prems by (simp add: tasks_inv_def split: if_splits)
  then have "tasks_inv jobs'" by (rule Cons.IH)
  moreover have "live j' \<Longrightarrow> task_of j' \<notin> task_of ` set (filter live jobs)"
    using Cons.hyps(1) Cons.prems by (simp add: tasks_inv_def calmed_def)
  ultimately show ?case
    unfolding tasks_inv_def using sub by (cases "live j'") auto
qed simp

lemma calmed_map: "(\<And>j. calmed j (f j)) \<Longrightarrow> list_all2 calmed jobs (map f jobs)"
  by (simp add: list_all2_conv_all_nth)

lemma calmed_update: "(\<And>j. P j \<Longrightarrow> calmed j (f j)) \<Longrightarrow> list_all2 calmed jobs (update_first P f jobs)"
  by (induction jobs) (auto simp: calmed_def intro: list_all2_refl)

lemma tasks_inv_prioritize: "tasks_inv (prioritize_jobs jobs) = tasks_inv jobs"
proof -
  have "mset (map task_of (filter live (prioritize_jobs jobs))) = mset (map task_of (filter live jobs))"
    by (simp add: prioritize_jobs_def)
  then show ?thesis unfolding tasks_inv_def by (rule mset_eq_imp_distinct_iff)
qed

lemma tasks_inv_step: "not_retry x \<Longrightarrow> tasks_inv jobs \<Longrightarrow> tasks_inv (replication_step jobs x)"
proof (cases x)
  case (Request r)
  assume "tasks_inv jobs"
  show ?thesis
  proof (cases "list_ex (\<lambda>j. same_task (rr_network_id r) (rr_target_node r) j \<and> live j) jobs")
    case False
    have "tasks_inv (jobs @ [new_job r])"
      using \<open>tasks_inv jobs\<close> False
      by (auto simp: tasks_inv_def new_job_def same_task_def list_ex_iff live_def)
    with False show ?thesis by (simp add: Request request_replication_def tasks_inv_prioritize)
  qed (simp add: Request request_replication_def \<open>tasks_inv jobs\<close>)
next
  case (CleanupJobs now age)
  assume "tasks_inv jobs"
  then have "distinct (map task_of (filter (\<lambda>j. live j \<or> \<not> now - rj_completed j > age) (filter live jobs)))"
    unfolding tasks_inv_def by (rule distinct_map_filter)
  then show ?thesis by (simp add: CleanupJobs tasks_inv_def cleanup_old_jobs_def conj_commute)
qed (auto simp: cancel_replication_def mark_job_started_def mark_job_completed_def live_def calmed_def
    intro!: tasks_inv_calmed [OF calmed_map] tasks_inv_calmed [OF calmed_update])

lemma tasks_inv_run: "list_all not_retry ops \<Longrightarrow> tasks_inv jobs \<Longrightarrow> tasks_inv (foldl replication_step jobs ops)"
  by (induction ops arbitrary: jobs) (auto intro: tasks_inv_step)

section \<open>Properties\<close>

text \<open>
  C38: after every sequence of operations, \<open>get_next_job\<close> returns a pending job of the highest priority
  among the pending jobs, and none exactly when no job is pending or five are running.
\<close>

theorem next_job_highest_priority:
  fixes ops :: "replication_op list"
  defines "jobs \<equiv> foldl replication_step [] ops"
  shows "case get_next_job jobs of
      None \<Rightarrow> get_pending_jobs jobs = [] \<or> active_job_count jobs \<ge> 5
    | Some j \<Rightarrow> active_job_count jobs < 5 \<and> j \<in> set (get_pending_jobs jobs) \<and>
        rr_priority (rj_request j) = Max ((\<lambda>j. rr_priority (rj_request j)) ` set (get_pending_jobs jobs))"
proof -
  have inv: "queue_inv jobs"
    unfolding jobs_def by (rule replication_machine.run_inv) (simp add: queue_inv_def get_pending_jobs_def)
  have find: "List.find (\<lambda>j. rj_status j = PENDING) jobs =
      (case get_pending_jobs jobs of [] \<Rightarrow> None | j # js \<Rightarrow> Some j)"
    unfolding get_pending_jobs_def by (induction jobs) auto
  show ?thesis
  proof (cases "get_pending_jobs jobs")
    case Nil
    then show ?thesis by (simp add: get_next_job_def find)
  next
    case (Cons j js)
    then have "\<forall>j'\<in>set js. rr_priority (rj_request j) \<ge> rr_priority (rj_request j')"
      using inv by (simp add: queue_inv_def)
    then have "Max ((\<lambda>j. rr_priority (rj_request j)) ` set (j # js)) = rr_priority (rj_request j)"
      by (intro Max_eqI) auto
    then show ?thesis by (simp add: get_next_job_def find Cons can_start_new_job_def MAX_CONCURRENT_JOBS_def)
  qed
qed

text \<open>
  as long as failed jobs are not retried, there is at most one pending or running job for a network
  and a target node.
\<close>

theorem one_live_job_per_target:
  assumes "list_all not_retry ops"
  shows "distinct (map (\<lambda>j. (rr_network_id (rj_request j), rr_target_node (rj_request j)))
    (filter live (foldl replication_step [] ops)))"
  using tasks_inv_run [OF assms, of "[]"] by (simp add: tasks_inv_def)

definition sample_request :: ReplicationRequest where
  "sample_request = \<lparr>rr_network_id = NetworkID [1], rr_thing_hash = ContentHash [2], rr_source_node = NodeID [3],
     rr_target_node = NodeID [4], rr_timestamp = 5, rr_priority = 5\<rparr>"

theorem one_live_job_per_target_witness:
  "length (filter live (foldl replication_step [] [Request sample_request, Request sample_request])) = 1 \<and>
   distinct (map (\<lambda>j. (rr_network_id (rj_request j), rr_target_node (rj_request j)))
     (filter live (foldl replication_step [] [Request sample_request, Request sample_request])))"
proof (rule conjI)
  show "distinct (map (\<lambda>j. (rr_network_id (rj_request j), rr_target_node (rj_request j)))
     (filter live (foldl replication_step [] [Request sample_request, Request sample_request])))"
    by (rule one_live_job_per_target) simp
qed (simp add: request_replication_def prioritize_jobs_def new_job_def live_def same_task_def)

text \<open>
  Retrying breaks this: a job that failed becomes pending again although its task was requested anew.
\<close>

theorem retry_duplicates_job:
  "map task_of (filter live (foldl replication_step []
     [Request sample_request, Started 1 sample_request, Completed 2 sample_request False ''timeout'',
      Request sample_request, Retry 3])) = [task_of (new_job sample_request), task_of (new_job sample_request)]"
  by (simp add: request_replication_def prioritize_jobs_def new_job_def live_def same_task_def mark_job_started_def
      mark_job_completed_def retry_failed_jobs_def job_key_def)

text \<open>The age limit is given in seconds and compared with nanoseconds: a day-long limit drops a job after a tenth of a millisecond.\<close>

theorem cleanup_drops_recent_job:
  "cleanup_old_jobs (t + 100000) 86400 [(new_job sample_request)\<lparr>rj_status := COMPLETED, rj_completed := t\<rparr>] = []"
  by (simp add: cleanup_old_jobs_def live_def)

text \<open>The statistics count every job once.\<close>

theorem replication_stats_partition:
  "rst_total (get_replication_stats jobs) = length jobs \<and>
   rst_completed (get_replication_stats jobs) + rst_failed (get_replication_stats jobs) +
     rst_in_progress (get_replication_stats jobs) + rst_pending (get_replication_stats jobs) = length jobs \<and>
   rst_pending (get_replication_stats jobs) = pending_job_count jobs"
proof -
  have "case fold count_job jobs (s, time, completed) of (s', time', completed') \<Rightarrow>
      rst_total s' = rst_total s + length jobs \<and>
      rst_completed s' + rst_failed s' + rst_in_progress s' + rst_pending s' =
        rst_completed s + rst_failed s + rst_in_progress s + rst_pending s + length jobs \<and>
      rst_pending s' = rst_pending s + pending_job_count jobs" for s time completed
  proof (induction jobs arbitrary: s time completed)
    case (Cons j jobs)
    show ?case
      using Cons.IH [of "fst (count_job j (s, time, completed))" "fst (snd (count_job j (s, time, completed)))"
          "snd (snd (count_job j (s, time, completed)))"]
      by (cases "rj_status j") (auto simp: count_job_def Let_def pending_job_count_def get_pending_jobs_def split: prod.splits)
  qed (simp add: pending_job_count_def get_pending_jobs_def)
  from this [of "\<lparr>rst_total = 0, rst_completed = 0, rst_failed = 0, rst_in_progress = 0, rst_pending = 0, rst_bytes = 0, rst_average = Fin 0\<rparr>" 0 0]
  show ?thesis by (auto simp: get_replication_stats_def Let_def split: prod.splits)
qed

end
