(* ===== verification/Routing.thy ===== *)
theory Routing
  imports Networks
begin

unbundle bit_operations_syntax

text \<open>
  \<open>src/network/router.cpp\<close>: content requests and responses, the routing table and the router.

  The clock is the argument \<open>now\<close>, one reading per operation; BLAKE3, Ed25519 and the random bytes are
  parameters. The callbacks of the router are fields of its state: those that answer are functions,
  those that only notify or send are flags, and their calls are the list that an operation returns
  beside the new state. \<open>srt\<close> stands for \<open>std::sort\<close>.
\<close>

section \<open>Data\<close>

record RoutingEntry =
  re_node_id :: NodeID
  re_advertised :: "ContentHash list"
  re_hops :: u8
  re_last_seen :: u64
  re_reliability :: f32

record ContentRequest =
  cq_content_hash :: ContentHash
  cq_requester :: NodeID
  cq_request_id :: Hash256
  cq_hop_limit :: u8
  cq_timestamp :: u64
  cq_onion :: "bytes list"

record ContentResponse =
  cp_content_hash :: ContentHash
  cp_data :: bytes
  cp_host :: NodeID
  cp_request_id :: Hash256
  cp_hop_count :: u8
  cp_signature :: bytes

record RoutingTable =
  rt_entries :: "(NodeID \<times> RoutingEntry) list"
  rt_index :: "(ContentHash \<times> NodeID list) list"

record PendingRequest =
  pq_request_id :: Hash256
  pq_content_hash :: ContentHash
  pq_requester :: NodeID
  pq_timestamp :: u64
  pq_retries :: u8

datatype router_call =
    SendRequest NodeID ContentRequest
  | SendResponse NodeID ContentResponse
  | ContentReceived ContentHash bytes
  | ContentNotFound ContentHash

record Router =
  ro_local :: NodeID
  ro_table :: RoutingTable
  ro_pending :: "(Hash256 \<times> PendingRequest) list"
  ro_content :: "ContentHash list"
  ro_received_cb :: bool
  ro_not_found_cb :: bool
  ro_fetch_cb :: "(ContentHash \<Rightarrow> bytes option) option"
  ro_sign_cb :: "(ContentResponse \<Rightarrow> bytes) option"
  ro_verify_cb :: "(ContentResponse \<Rightarrow> bool) option"
  ro_request_cb :: bool
  ro_response_cb :: bool
  ro_requests_sent :: u64
  ro_requests_received :: u64
  ro_responses_sent :: u64
  ro_responses_received :: u64
  ro_forwards :: u64
  ro_counter :: u64

definition DEFAULT_HOP_LIMIT :: u8 where
  "DEFAULT_HOP_LIMIT = 8"

definition MAX_HOP_LIMIT :: u8 where
  "MAX_HOP_LIMIT = 16"

definition ENTRY_TTL_SECONDS :: u64 where
  "ENTRY_TTL_SECONDS = 3600"

definition MIN_ROUTE_RELIABILITY :: f32 where
  "MIN_ROUTE_RELIABILITY = f32_of_rat (3 / 10)"

definition TIMEOUT_SECONDS :: u64 where
  "TIMEOUT_SECONDS = 30"

definition is_stale :: "u64 \<Rightarrow> RoutingEntry \<Rightarrow> bool" where
  "is_stale now e \<longleftrightarrow> now - re_last_seen e > ENTRY_TTL_SECONDS"

section \<open>Message formats\<close>

definition layer_bytes :: "bytes \<Rightarrow> bytes" where
  "layer_bytes layer = le_bytes 4 (word_of_nat (length layer) :: u32) @ layer"

definition ContentRequest_to_bytes :: "ContentRequest \<Rightarrow> bytes" where
  "ContentRequest_to_bytes q =
     content_bytes (cq_content_hash q) @ node_bytes (cq_requester q) @ cq_request_id q @ [cq_hop_limit q]
     @ le_bytes 8 (cq_timestamp q) @ le_bytes 2 (word_of_nat (length (cq_onion q)) :: u16)
     @ concat (map layer_bytes (cq_onion q))"

definition read_layer :: "bytes \<Rightarrow> (bytes \<times> bytes) option" where
  "read_layer data = do { (n :: u32, data) \<leftarrow> read_scalar 4 data; read_blob (unat n) data }"

definition ContentRequest_from_bytes :: "bytes \<Rightarrow> ContentRequest option" where
  "ContentRequest_from_bytes data =
     (if length data < 32 + 32 + 32 + 1 + 8 + 2 then None
      else do {
     (content, data) \<leftarrow> read_blob 32 data;
     (requester, data) \<leftarrow> read_blob 32 data;
     (i, data) \<leftarrow> read_blob 32 data;
     (hops :: u8, data) \<leftarrow> read_scalar 1 data;
     (ts :: u64, data) \<leftarrow> read_scalar 8 data;
     (layer_count :: u16, data) \<leftarrow> read_scalar 2 data;
     (layers, data) \<leftarrow> read_many read_layer (unat layer_count) data;
     Some \<lparr>cq_content_hash = ContentHash content, cq_requester = NodeID requester, cq_request_id = i,
       cq_hop_limit = hops, cq_timestamp = ts, cq_onion = layers\<rparr> })"

definition compute_id :: "(bytes \<Rightarrow> Hash256) \<Rightarrow> ContentRequest \<Rightarrow> Hash256" where
  "compute_id H q = H (content_bytes (cq_content_hash q) @ node_bytes (cq_requester q) @ le_bytes 8 (cq_timestamp q))"

definition ContentResponse_to_bytes :: "ContentResponse \<Rightarrow> bytes" where
  "ContentResponse_to_bytes p =
     content_bytes (cp_content_hash p) @ node_bytes (cp_host p) @ cp_request_id p @ [cp_hop_count p]
     @ le_bytes 4 (word_of_nat (length (cp_data p)) :: u32) @ cp_data p @ cp_signature p"

definition ContentResponse_from_bytes :: "bytes \<Rightarrow> ContentResponse option" where
  "ContentResponse_from_bytes data =
     (if length data < 32 + 32 + 32 + 1 + 4 + 64 then None
      else do {
     (content, data) \<leftarrow> read_blob 32 data;
     (host, data) \<leftarrow> read_blob 32 data;
     (i, data) \<leftarrow> read_blob 32 data;
     (hops :: u8, data) \<leftarrow> read_scalar 1 data;
     (content_size :: u32, data) \<leftarrow> read_scalar 4 data;
     (body, data) \<leftarrow> read_blob (unat content_size) data;
     (sig, data) \<leftarrow> read_blob 64 data;
     Some \<lparr>cp_content_hash = ContentHash content, cp_data = body, cp_host = NodeID host, cp_request_id = i,
       cp_hop_count = hops, cp_signature = sig\<rparr> })"

definition content_response_signing_bytes :: "ContentResponse \<Rightarrow> bytes" where
  "content_response_signing_bytes p =
     content_bytes (cp_content_hash p) @ node_bytes (cp_host p) @ cp_request_id p @ [cp_hop_count p]
     @ le_bytes 4 (word_of_nat (length (cp_data p)) :: u32) @ cp_data p"

definition verify_response_signature :: "crypto_lib \<Rightarrow> bytes \<Rightarrow> ContentResponse \<Rightarrow> bool" where
  "verify_response_signature C key p = cr_verify C (content_response_signing_bytes p) (cp_signature p) key"

section \<open>The routing table\<close>

definition RoutingTable_init :: RoutingTable where
  "RoutingTable_init = \<lparr>rt_entries = [], rt_index = []\<rparr>"

definition update_node_seen :: "u64 \<Rightarrow> NodeID \<Rightarrow> RoutingTable \<Rightarrow> RoutingTable" where
  "update_node_seen now n t =
     (case map_of (rt_entries t) n of
        None \<Rightarrow> t
      | Some e \<Rightarrow> t\<lparr>rt_entries := omap_set n (e\<lparr>re_last_seen := now\<rparr>) (rt_entries t)\<rparr>)"

definition add_node :: "u64 \<Rightarrow> NodeID \<Rightarrow> u8 \<Rightarrow> RoutingTable \<Rightarrow> RoutingTable" where
  "add_node now n hops t =
     (case map_of (rt_entries t) n of
        None \<Rightarrow> t\<lparr>rt_entries := omap_set n \<lparr>re_node_id = n, re_advertised = [], re_hops = hops,
                     re_last_seen = now, re_reliability = Fin 1\<rparr> (rt_entries t)\<rparr>
      | Some e \<Rightarrow> update_node_seen now n
          (if hops < re_hops e then t\<lparr>rt_entries := omap_set n (e\<lparr>re_hops := hops\<rparr>) (rt_entries t)\<rparr> else t))"

text \<open>Taking a host off the list of a content hash; an empty list is erased.\<close>

definition unlist_host :: "NodeID \<Rightarrow> ContentHash \<Rightarrow> (ContentHash \<times> NodeID list) list \<Rightarrow> (ContentHash \<times> NodeID list) list" where
  "unlist_host n c ix =
     (case map_of ix c of
        None \<Rightarrow> ix
      | Some hosts \<Rightarrow> let hosts = removeAll n hosts in if hosts = [] then omap_erase c ix else omap_set c hosts ix)"

definition remove_node :: "NodeID \<Rightarrow> RoutingTable \<Rightarrow> RoutingTable" where
  "remove_node n t =
     (case map_of (rt_entries t) n of
        None \<Rightarrow> t
      | Some e \<Rightarrow> t\<lparr>rt_index := fold (unlist_host n) (re_advertised e) (rt_index t),
                    rt_entries := omap_erase n (rt_entries t)\<rparr>)"

definition update_node_reliability :: "NodeID \<Rightarrow> f32 \<Rightarrow> RoutingTable \<Rightarrow> RoutingTable" where
  "update_node_reliability n score t =
     (case map_of (rt_entries t) n of
        None \<Rightarrow> t
      | Some e \<Rightarrow> let r = f32_add (f32_mul (f32_of_rat (7 / 10)) (re_reliability e)) (f32_mul (f32_of_rat (3 / 10)) score);
                      r = (if f32_less r (Fin 0) then Fin 0 else r);
                      r = (if f32_less (Fin 1) r then Fin 1 else r)
                  in t\<lparr>rt_entries := omap_set n (e\<lparr>re_reliability := r\<rparr>) (rt_entries t)\<rparr>)"

definition get_entry :: "RoutingTable \<Rightarrow> NodeID \<Rightarrow> RoutingEntry option" where
  "get_entry t n = map_of (rt_entries t) n"

definition get_all_entries :: "RoutingTable \<Rightarrow> RoutingEntry list" where
  "get_all_entries t = map snd (rt_entries t)"

definition advertise_content :: "NodeID \<Rightarrow> ContentHash \<Rightarrow> RoutingTable \<Rightarrow> RoutingTable" where
  "advertise_content n c t =
     (let t = (case map_of (rt_entries t) n of
                 None \<Rightarrow> t
               | Some e \<Rightarrow> t\<lparr>rt_entries := omap_set n (e\<lparr>re_advertised :=
                   (if c \<in> set (re_advertised e) then re_advertised e else re_advertised e @ [c])\<rparr>) (rt_entries t)\<rparr>);
          hosts = opt_or [] (map_of (rt_index t) c)
      in t\<lparr>rt_index := omap_set c (if n \<in> set hosts then hosts else hosts @ [n]) (rt_index t)\<rparr>)"

definition remove_content_advertisement :: "NodeID \<Rightarrow> ContentHash \<Rightarrow> RoutingTable \<Rightarrow> RoutingTable" where
  "remove_content_advertisement n c t =
     (let t = (case map_of (rt_entries t) n of
                 None \<Rightarrow> t
               | Some e \<Rightarrow> t\<lparr>rt_entries := omap_set n (e\<lparr>re_advertised := removeAll c (re_advertised e)\<rparr>) (rt_entries t)\<rparr>)
      in t\<lparr>rt_index := unlist_host n c (rt_index t)\<rparr>)"

definition find_hosts_for_content :: "RoutingTable \<Rightarrow> ContentHash \<Rightarrow> NodeID list" where
  "find_hosts_for_content t c = opt_or [] (map_of (rt_index t) c)"

definition has_content_route :: "RoutingTable \<Rightarrow> ContentHash \<Rightarrow> bool" where
  "has_content_route t c = (case map_of (rt_index t) c of None \<Rightarrow> False | Some hosts \<Rightarrow> hosts \<noteq> [])"

definition usable :: "u64 \<Rightarrow> RoutingEntry \<Rightarrow> bool" where
  "usable now e \<longleftrightarrow> \<not> (is_stale now e \<or> f32_less (re_reliability e) MIN_ROUTE_RELIABILITY)"

definition route_score :: "RoutingEntry \<Rightarrow> f32" where
  "route_score e = f32_div (re_reliability e) (f32_add (Fin 1) (f32_of_int (uint (re_hops e))))"

fun best_host :: "u64 \<Rightarrow> RoutingTable \<Rightarrow> NodeID list \<Rightarrow> NodeID \<times> f32 \<Rightarrow> NodeID \<times> f32" where
  "best_host now t [] best = best"
| "best_host now t (h # hs) (b, s) = best_host now t hs
     (case get_entry t h of
        None \<Rightarrow> (b, s)
      | Some e \<Rightarrow> if \<not> usable now e then (b, s)
                  else if f32_less s (route_score e) then (h, route_score e) else (b, s))"

definition select_best_host :: "u64 \<Rightarrow> RoutingTable \<Rightarrow> ContentHash \<Rightarrow> NodeID option" where
  "select_best_host now t c =
     (let hosts = find_hosts_for_content t c in
      if hosts = [] then None
      else case best_host now t hosts (hd hosts, Fin (-1)) of
             (b, s) \<Rightarrow> if f32_less s (Fin 0) then None else Some b)"

definition scored_hosts :: "u64 \<Rightarrow> RoutingTable \<Rightarrow> NodeID list \<Rightarrow> (NodeID \<times> f32) list" where
  "scored_hosts now t hosts = List.map_filter (\<lambda>h. case get_entry t h of
       None \<Rightarrow> None | Some e \<Rightarrow> if usable now e then Some (h, route_score e) else None) hosts"

definition select_multiple_hosts :: "((NodeID \<times> f32) list \<Rightarrow> (NodeID \<times> f32) list) \<Rightarrow> u64 \<Rightarrow> RoutingTable \<Rightarrow> ContentHash
    \<Rightarrow> nat \<Rightarrow> NodeID list" where
  "select_multiple_hosts srt now t c k =
     (let hosts = find_hosts_for_content t c in
      if hosts = [] then []
      else map fst (take k (srt (scored_hosts now t hosts))))"

definition cleanup_stale_entries :: "u64 \<Rightarrow> RoutingTable \<Rightarrow> RoutingTable" where
  "cleanup_stale_entries now t =
     (let to_remove = map fst (filter (\<lambda>(n, e). is_stale now e) (rt_entries t)) in fold remove_node to_remove t)"

definition entry_count :: "RoutingTable \<Rightarrow> nat" where
  "entry_count t = length (rt_entries t)"

definition content_index_size :: "RoutingTable \<Rightarrow> nat" where
  "content_index_size t = length (rt_index t)"

section \<open>Onion layers\<close>

text \<open>A block of the key stream is a hash, which has 32 bytes.\<close>

function xor_blocks :: "(bytes \<Rightarrow> Hash256) \<Rightarrow> bytes \<Rightarrow> u32 \<Rightarrow> bytes \<Rightarrow> bytes" where
  "xor_blocks H key_seed counter [] = []"
| "xor_blocks H key_seed counter (b # bs) =
     map2 (XOR) (take 32 (b # bs)) (H (key_seed @ le_bytes 4 counter)) @ xor_blocks H key_seed (counter + 1) (drop 32 (b # bs))"
  by pat_completeness auto
termination by (relation "measure (\<lambda>(H, k, c, bs). length bs)") auto

definition xor_with_keystream :: "(bytes \<Rightarrow> Hash256) \<Rightarrow> bytes \<Rightarrow> bytes \<Rightarrow> bytes" where
  "xor_with_keystream H input key_seed = xor_blocks H key_seed 0 input"

definition wrap_layer :: "(bytes \<Rightarrow> Hash256) \<Rightarrow> NodeID \<Rightarrow> NodeID \<Rightarrow> bytes \<Rightarrow> bytes" where
  "wrap_layer H hop next current =
     bytes_of_string ''ON1'' @ xor_with_keystream H (node_bytes next @ current) (node_bytes hop)"

text \<open>The loop over the route from its end.\<close>

fun wrap_route :: "(bytes \<Rightarrow> Hash256) \<Rightarrow> NodeID list \<Rightarrow> bytes \<Rightarrow> bytes" where
  "wrap_route H [] payload = payload"
| "wrap_route H (hop # route) payload =
     wrap_layer H hop (case route of [] \<Rightarrow> NodeID zero_hash | next # _ \<Rightarrow> next) (wrap_route H route payload)"

definition create_onion_layers :: "(bytes \<Rightarrow> Hash256) \<Rightarrow> NodeID list \<Rightarrow> bytes \<Rightarrow> bytes list" where
  "create_onion_layers H route payload = (if route = [] then [] else [wrap_route H route payload])"

definition decrypt_onion_layer :: "(bytes \<Rightarrow> Hash256) \<Rightarrow> NodeID \<Rightarrow> bytes \<Rightarrow> bytes option" where
  "decrypt_onion_layer H me layer =
     (if length layer < 3 + 32 then None
      else if take 3 layer \<noteq> bytes_of_string ''ON1'' then None
      else let plain = xor_with_keystream H (drop 3 layer) (node_bytes me)
           in if length plain < 32 then None else Some (drop 32 plain))"

section \<open>The router\<close>

definition Router_init :: "NodeID \<Rightarrow> Router" where
  "Router_init me = \<lparr>ro_local = me, ro_table = RoutingTable_init, ro_pending = [], ro_content = [],
     ro_received_cb = False, ro_not_found_cb = False, ro_fetch_cb = None, ro_sign_cb = None, ro_verify_cb = None,
     ro_request_cb = False, ro_response_cb = False, ro_requests_sent = 0, ro_requests_received = 0,
     ro_responses_sent = 0, ro_responses_received = 0, ro_forwards = 0, ro_counter = 1\<rparr>"

definition set_content_received_callback :: "Router \<Rightarrow> Router" where
  "set_content_received_callback r = r\<lparr>ro_received_cb := True\<rparr>"

definition set_content_not_found_callback :: "Router \<Rightarrow> Router" where
  "set_content_not_found_callback r = r\<lparr>ro_not_found_cb := True\<rparr>"

definition set_local_content_fetch_callback :: "(ContentHash \<Rightarrow> bytes option) \<Rightarrow> Router \<Rightarrow> Router" where
  "set_local_content_fetch_callback f r = r\<lparr>ro_fetch_cb := Some f\<rparr>"

definition set_response_sign_callback :: "(ContentResponse \<Rightarrow> bytes) \<Rightarrow> Router \<Rightarrow> Router" where
  "set_response_sign_callback f r = r\<lparr>ro_sign_cb := Some f\<rparr>"

definition set_response_verify_callback :: "(ContentResponse \<Rightarrow> bool) \<Rightarrow> Router \<Rightarrow> Router" where
  "set_response_verify_callback f r = r\<lparr>ro_verify_cb := Some f\<rparr>"

definition set_request_send_callback :: "Router \<Rightarrow> Router" where
  "set_request_send_callback r = r\<lparr>ro_request_cb := True\<rparr>"

definition set_response_send_callback :: "Router \<Rightarrow> Router" where
  "set_response_send_callback r = r\<lparr>ro_response_cb := True\<rparr>"

definition generate_request_id :: "(bytes \<Rightarrow> Hash256) \<Rightarrow> bytes \<Rightarrow> Router \<Rightarrow> Hash256 \<times> Router" where
  "generate_request_id H random_bytes r =
     (H (node_bytes (ro_local r) @ le_bytes 8 (ro_counter r) @ random_bytes), r\<lparr>ro_counter := ro_counter r + 1\<rparr>)"

text \<open>Without a route the next hop is the zero identifier.\<close>

definition select_next_hop :: "u64 \<Rightarrow> Router \<Rightarrow> ContentHash \<Rightarrow> NodeID" where
  "select_next_hop now r c = opt_or (NodeID zero_hash) (select_best_host now (ro_table r) c)"

definition send_request_to_peer :: "Router \<Rightarrow> NodeID \<Rightarrow> ContentRequest \<Rightarrow> router_call list" where
  "send_request_to_peer r peer q = (if ro_request_cb r then [SendRequest peer q] else [])"

definition send_response_to_peer :: "Router \<Rightarrow> NodeID \<Rightarrow> ContentResponse \<Rightarrow> router_call list" where
  "send_response_to_peer r peer p = (if ro_response_cb r then [SendResponse peer p] else [])"

definition new_pending :: "u64 \<Rightarrow> Hash256 \<Rightarrow> ContentHash \<Rightarrow> NodeID \<Rightarrow> PendingRequest" where
  "new_pending now i c me = \<lparr>pq_request_id = i, pq_content_hash = c, pq_requester = me, pq_timestamp = now, pq_retries = 0\<rparr>"

text \<open>
  \<open>id.empty()\<close> on the array of an identifier asks whether it has elements, not whether it is zero.
\<close>

definition array_empty :: "Hash256 \<Rightarrow> bool" where
  "array_empty a \<longleftrightarrow> a = []"

definition request_content :: "(bytes \<Rightarrow> Hash256) \<Rightarrow> bytes \<Rightarrow> u64 \<Rightarrow> ContentHash \<Rightarrow> u8 \<Rightarrow> Router
    \<Rightarrow> Hash256 \<times> Router \<times> router_call list" where
  "request_content H rnd now c hop_limit r =
     (let (i, r) = generate_request_id H rnd r;
          q = \<lparr>cq_content_hash = c, cq_requester = ro_local r, cq_request_id = i,
               cq_hop_limit = min hop_limit MAX_HOP_LIMIT, cq_timestamp = now, cq_onion = []\<rparr>;
          r = r\<lparr>ro_pending := omap_set i (new_pending now i c (ro_local r)) (ro_pending r)\<rparr>;
          next = select_next_hop now r c
      in if \<not> array_empty (node_bytes next)
         then (i, r\<lparr>ro_requests_sent := ro_requests_sent r + 1\<rparr>, send_request_to_peer r next q)
         else (i, r, if ro_not_found_cb r then [ContentNotFound c] else []))"

definition request_content_with_onion_routing :: "(bytes \<Rightarrow> Hash256) \<Rightarrow> bytes \<Rightarrow> u64 \<Rightarrow> ContentHash \<Rightarrow> NodeID list \<Rightarrow> Router
    \<Rightarrow> Hash256 \<times> Router \<times> router_call list" where
  "request_content_with_onion_routing H rnd now c route r =
     (let (i, r) = generate_request_id H rnd r;
          q = \<lparr>cq_content_hash = c, cq_requester = ro_local r, cq_request_id = i,
               cq_hop_limit = word_of_nat (length route + 2), cq_timestamp = now, cq_onion = []\<rparr>;
          q = q\<lparr>cq_onion := create_onion_layers H route (ContentRequest_to_bytes q)\<rparr>;
          r = r\<lparr>ro_pending := omap_set i (new_pending now i c (ro_local r)) (ro_pending r)\<rparr>
      in case route of
           [] \<Rightarrow> (i, r, [])
         | first # _ \<Rightarrow> (i, r\<lparr>ro_requests_sent := ro_requests_sent r + 1\<rparr>, send_request_to_peer r first q))"

definition should_forward_request :: "Router \<Rightarrow> ContentRequest \<Rightarrow> bool" where
  "should_forward_request r q =
     (if cq_hop_limit q \<le> 1 then False
      else if cq_requester q = ro_local r then False
      else has_content_route (ro_table r) (cq_content_hash q))"

definition can_serve_locally :: "Router \<Rightarrow> ContentHash \<Rightarrow> bool" where
  "can_serve_locally r c \<longleftrightarrow> c \<in> set (ro_content r)"

definition serve_locally :: "ContentRequest \<Rightarrow> Router \<Rightarrow> Router \<times> router_call list" where
  "serve_locally q r =
     (case (case ro_fetch_cb r of None \<Rightarrow> Some [] | Some fetch \<Rightarrow> fetch (cq_content_hash q)) of
        None \<Rightarrow> (r, [])
      | Some content \<Rightarrow>
          let p = \<lparr>cp_content_hash = cq_content_hash q, cp_data = content, cp_host = ro_local r,
                   cp_request_id = cq_request_id q, cp_hop_count = 0, cp_signature = replicate 64 0\<rparr>;
              p = (case ro_sign_cb r of Some sign \<Rightarrow> p\<lparr>cp_signature := sign p\<rparr> | None \<Rightarrow> p)
          in (r\<lparr>ro_responses_sent := ro_responses_sent r + 1\<rparr>, send_response_to_peer r (cq_requester q) p))"

definition forward_request :: "u64 \<Rightarrow> ContentRequest \<Rightarrow> Router \<Rightarrow> Router \<times> router_call list" where
  "forward_request now q r =
     (let next = select_next_hop now r (cq_content_hash q) in
      if array_empty (node_bytes next) then (r, [])
      else (r\<lparr>ro_forwards := ro_forwards r + 1\<rparr>,
            send_request_to_peer r next (q\<lparr>cq_hop_limit := cq_hop_limit q - 1\<rparr>)))"

definition onion_size :: "ContentRequest \<Rightarrow> nat" where
  "onion_size q = sum_list (map length (cq_onion q))"

lemma read_many_layers_size:
  "read_many read_layer n data = Some (layers, rest) \<Longrightarrow> sum_list (map length layers) + length rest \<le> length data"
proof (induction n arbitrary: data layers)
  case (Suc n)
  then obtain x d xs where x: "read_layer data = Some (x, d)" "read_many read_layer n d = Some (xs, rest)" "layers = x # xs"
    by (auto simp: Option.bind_eq_Some_conv)
  have "length x + length d \<le> length data"
    using x(1) by (auto simp: read_layer_def read_scalar_def read_blob_def Option.bind_eq_Some_conv split: if_splits)
  with Suc.IH [OF x(2)] x(3) show ?case by simp
qed simp

lemma onion_size_from_bytes: "ContentRequest_from_bytes data = Some q \<Longrightarrow> onion_size q \<le> length data"
  by (auto simp: ContentRequest_from_bytes_def read_blob_def read_scalar_def Option.bind_eq_Some_conv onion_size_def
      split: if_splits dest!: read_many_layers_size)

lemma length_xor_blocks: "length (xor_blocks H k n bs) \<le> length bs"
proof (induction H k n bs rule: xor_blocks.induct)
  case (2 H k n b bs)
  have "length (map2 (XOR) (take 32 (b # bs)) (H (k @ le_bytes 4 n))) \<le> length (take 32 (b # bs))"
    by (simp del: take_Suc_Cons)
  with 2 show ?case by (simp del: take_Suc_Cons drop_Suc_Cons)
qed simp

lemma decrypted_smaller: "decrypt_onion_layer H me layer = Some data \<Longrightarrow> length data < length layer"
  using length_xor_blocks [of H "node_bytes me" 0 "drop 3 layer"]
  by (auto simp: decrypt_onion_layer_def xor_with_keystream_def Let_def split: if_splits)

lemma peeled_smaller:
  "cq_onion q = layer # ls \<Longrightarrow> decrypt_onion_layer H me layer = Some data \<Longrightarrow>
     ContentRequest_from_bytes data = Some q' \<Longrightarrow> onion_size q' < onion_size q"
  using decrypted_smaller [of H me layer data] onion_size_from_bytes [of data q'] by (simp add: onion_size_def)

text \<open>A layer is peeled with the own identifier and the request inside is handled in its place.\<close>

function handle_content_request :: "(bytes \<Rightarrow> Hash256) \<Rightarrow> u64 \<Rightarrow> ContentRequest \<Rightarrow> Router \<Rightarrow> Router \<times> router_call list" where
  "handle_content_request H now q r =
     (let r = r\<lparr>ro_requests_received := ro_requests_received r + 1\<rparr> in
      if cq_hop_limit q = 0 then (r, [])
      else case cq_onion q of
        layer # _ \<Rightarrow>
          (case decrypt_onion_layer H (ro_local r) layer of
             None \<Rightarrow> (r, [])
           | Some decrypted \<Rightarrow> (case ContentRequest_from_bytes decrypted of
               None \<Rightarrow> (r, [])
             | Some next \<Rightarrow> handle_content_request H now next r))
      | [] \<Rightarrow>
          if can_serve_locally r (cq_content_hash q) then serve_locally q r
          else if \<not> should_forward_request r q then (r, [])
          else forward_request now q r)"
  by pat_completeness auto
termination
  by (relation "measure (\<lambda>(H, now, q, r). onion_size q)") (auto intro: peeled_smaller)

declare handle_content_request.simps [simp del]

definition handle_content_response :: "(bytes \<Rightarrow> Hash256) \<Rightarrow> ContentResponse \<Rightarrow> Router \<Rightarrow> Router \<times> router_call list" where
  "handle_content_response H p r =
     (let r = r\<lparr>ro_responses_received := ro_responses_received r + 1\<rparr> in
      case map_of (ro_pending r) (cp_request_id p) of
        None \<Rightarrow> (r, [])
      | Some _ \<Rightarrow>
          if H (cp_data p) \<noteq> content_bytes (cp_content_hash p) then (r, [])
          else if (case ro_verify_cb r of None \<Rightarrow> False | Some verify \<Rightarrow> \<not> verify p) then (r, [])
          else (r\<lparr>ro_table := update_node_reliability (cp_host p) (Fin 1) (ro_table r),
                  ro_pending := omap_erase (cp_request_id p) (ro_pending r)\<rparr>,
                if ro_received_cb r then [ContentReceived (cp_content_hash p) (cp_data p)] else []))"

definition update_routing_table :: "u64 \<Rightarrow> NodeID \<Rightarrow> u8 \<Rightarrow> Router \<Rightarrow> Router" where
  "update_routing_table now n hops r = r\<lparr>ro_table := add_node now n hops (ro_table r)\<rparr>"

definition advertise_local_content :: "ContentHash \<Rightarrow> Router \<Rightarrow> Router" where
  "advertise_local_content c r =
     r\<lparr>ro_content := (if c \<in> set (ro_content r) then ro_content r else ro_content r @ [c]),
       ro_table := advertise_content (ro_local r) c (ro_table r)\<rparr>"

definition remove_local_content :: "ContentHash \<Rightarrow> Router \<Rightarrow> Router" where
  "remove_local_content c r =
     r\<lparr>ro_content := removeAll c (ro_content r),
       ro_table := remove_content_advertisement (ro_local r) c (ro_table r)\<rparr>"

definition get_pending_request :: "Router \<Rightarrow> Hash256 \<Rightarrow> PendingRequest option" where
  "get_pending_request r i = map_of (ro_pending r) i"

definition cancel_request :: "Hash256 \<Rightarrow> Router \<Rightarrow> Router" where
  "cancel_request i r = r\<lparr>ro_pending := omap_erase i (ro_pending r)\<rparr>"

definition has_timed_out :: "u64 \<Rightarrow> PendingRequest \<Rightarrow> bool" where
  "has_timed_out now p \<longleftrightarrow> now - pq_timestamp p > TIMEOUT_SECONDS"

definition cleanup_timed_out_requests :: "u64 \<Rightarrow> Router \<Rightarrow> Router \<times> router_call list" where
  "cleanup_timed_out_requests now r =
     (let timed_out = filter (\<lambda>(i, p). has_timed_out now p) (ro_pending r)
      in (r\<lparr>ro_pending := fold omap_erase (map fst timed_out) (ro_pending r)\<rparr>,
          if ro_not_found_cb r then map (\<lambda>(i, p). ContentNotFound (pq_content_hash p)) timed_out else []))"

definition update_statistics :: "u64 \<Rightarrow> Router \<Rightarrow> Router \<times> router_call list" where
  "update_statistics now r = cleanup_timed_out_requests now (r\<lparr>ro_table := cleanup_stale_entries now (ro_table r)\<rparr>)"

record RouterStatistics =
  rs_requests_sent :: u64
  rs_requests_received :: u64
  rs_responses_sent :: u64
  rs_responses_received :: u64
  rs_forwards :: u64
  rs_successful :: u64
  rs_failed :: u64
  rs_average_hops :: u64
  rs_table_size :: nat
  rs_pending :: nat

definition RouterStatistics_to_string :: "RouterStatistics \<Rightarrow> string" where
  "RouterStatistics_to_string s =
     (let line = (\<lambda>label n. ''  '' @ label @ '': '' @ decimal n); nl = [CHR 0x0A] in
      ''Router Statistics:'' @ nl
      @ line ''Requests sent'' (unat (rs_requests_sent s)) @ nl
      @ line ''Requests received'' (unat (rs_requests_received s)) @ nl
      @ line ''Responses sent'' (unat (rs_responses_sent s)) @ nl
      @ line ''Responses received'' (unat (rs_responses_received s)) @ nl
      @ line ''Forwards'' (unat (rs_forwards s)) @ nl
      @ line ''Successful retrievals'' (unat (rs_successful s)) @ nl
      @ line ''Failed retrievals'' (unat (rs_failed s)) @ nl
      @ line ''Average hop count'' (unat (rs_average_hops s)) @ nl
      @ line ''Routing table size'' (rs_table_size s) @ nl
      @ line ''Pending requests'' (rs_pending s))"

section \<open>Lemmas\<close>

subsection \<open>The routing table\<close>

text \<open>
  What an entry advertises is indexed, and the lists of the index are distinct and not empty. The
  converse does not hold: content may be advertised for a node that has no entry.
\<close>

definition table_inv :: "RoutingTable \<Rightarrow> bool" where
  "table_inv t \<longleftrightarrow> omap_ok (rt_entries t) \<and> omap_ok (rt_index t) \<and>
     (\<forall>n e c. map_of (rt_entries t) n = Some e \<longrightarrow> c \<in> set (re_advertised e) \<longrightarrow> n \<in> set (find_hosts_for_content t c)) \<and>
     (\<forall>c hosts. map_of (rt_index t) c = Some hosts \<longrightarrow> hosts \<noteq> [] \<and> distinct hosts)"

lemma hosts_unlist:
  "set (opt_or [] (map_of (unlist_host n c ix) c')) = set (opt_or [] (map_of ix c')) - (if c' = c then {n} else {})"
  by (auto simp: unlist_host_def Let_def removeAll_filter_not_eq filter_empty_conv split: option.splits)

lemma unlist_ok:
  "omap_ok ix \<Longrightarrow> omap_ok (unlist_host n c ix)"
  by (auto simp: unlist_host_def Let_def split: option.splits)

lemma unlist_lists:
  "\<forall>c hosts. map_of ix c = Some hosts \<longrightarrow> hosts \<noteq> [] \<and> distinct hosts \<Longrightarrow>
     map_of (unlist_host n c' ix) c = Some hosts \<Longrightarrow> hosts \<noteq> [] \<and> distinct hosts"
  by (auto simp: unlist_host_def Let_def distinct_removeAll split: option.splits if_splits)

lemma hosts_unlist_all:
  "set (opt_or [] (map_of (fold (unlist_host n) cs ix) c)) =
     set (opt_or [] (map_of ix c)) - (if c \<in> set cs then {n} else {})"
  by (induction cs arbitrary: ix) (auto simp: hosts_unlist split: if_splits)

lemma unlist_all_ok: "omap_ok ix \<Longrightarrow> omap_ok (fold (unlist_host n) cs ix)"
  by (induction cs arbitrary: ix) (simp_all add: unlist_ok)

lemma unlist_all_lists:
  "\<forall>c hosts. map_of ix c = Some hosts \<longrightarrow> hosts \<noteq> [] \<and> distinct hosts \<Longrightarrow>
     map_of (fold (unlist_host n) cs ix) c = Some hosts \<Longrightarrow> hosts \<noteq> [] \<and> distinct hosts"
proof (induction cs arbitrary: ix)
  case (Cons a cs)
  have "\<forall>c hosts. map_of (unlist_host n a ix) c = Some hosts \<longrightarrow> hosts \<noteq> [] \<and> distinct hosts"
    using unlist_lists [OF Cons.prems(1)] by blast
  from Cons.IH [OF this] Cons.prems(2) show ?case by simp
qed simp

datatype table_op =
    AddNode u64 NodeID u8
  | RemoveNode NodeID
  | NodeSeen u64 NodeID
  | NodeReliability NodeID f32
  | AdvertiseContent NodeID ContentHash
  | UnadvertiseContent NodeID ContentHash
  | CleanupTable u64

fun table_step :: "RoutingTable \<Rightarrow> table_op \<Rightarrow> RoutingTable" where
  "table_step t (AddNode now n hops) = add_node now n hops t"
| "table_step t (RemoveNode n) = remove_node n t"
| "table_step t (NodeSeen now n) = update_node_seen now n t"
| "table_step t (NodeReliability n s) = update_node_reliability n s t"
| "table_step t (AdvertiseContent n c) = advertise_content n c t"
| "table_step t (UnadvertiseContent n c) = remove_content_advertisement n c t"
| "table_step t (CleanupTable now) = cleanup_stale_entries now t"

text \<open>Changing an entry without touching what it advertises.\<close>

lemma table_inv_entry:
  assumes "table_inv t" "\<And>c. c \<in> set (re_advertised e) \<Longrightarrow> n \<in> set (find_hosts_for_content t c)"
  shows "table_inv (t\<lparr>rt_entries := omap_set n e (rt_entries t)\<rparr>)"
  using assms by (auto simp: table_inv_def find_hosts_for_content_def)

lemma table_inv_advertised:
  "table_inv t \<Longrightarrow> map_of (rt_entries t) n = Some e \<Longrightarrow> c \<in> set (re_advertised e) \<Longrightarrow> n \<in> set (find_hosts_for_content t c)"
  unfolding table_inv_def by blast

lemma table_inv_get:
  "table_inv t \<Longrightarrow> get_entry t n = Some e \<Longrightarrow> c \<in> set (re_advertised e) \<Longrightarrow> n \<in> set (find_hosts_for_content t c)"
  by (simp add: get_entry_def table_inv_advertised)

lemma table_inv_seen: "table_inv t \<Longrightarrow> table_inv (update_node_seen now n t)"
  by (auto simp: update_node_seen_def table_inv_advertised intro!: table_inv_entry split: option.splits)

lemma table_inv_add: "table_inv t \<Longrightarrow> table_inv (add_node now n hops t)"
  by (auto simp: add_node_def table_inv_advertised intro!: table_inv_seen table_inv_entry split: option.splits)

lemma table_inv_reliability: "table_inv t \<Longrightarrow> table_inv (update_node_reliability n s t)"
  by (auto simp: update_node_reliability_def Let_def table_inv_advertised intro!: table_inv_entry split: option.splits)

lemma remove_node_hosts:
  "set (find_hosts_for_content (remove_node n t) c) = set (find_hosts_for_content t c) -
     (case get_entry t n of Some e \<Rightarrow> if c \<in> set (re_advertised e) then {n} else {} | None \<Rightarrow> {})"
  by (auto simp: remove_node_def find_hosts_for_content_def get_entry_def hosts_unlist_all split: option.splits)

lemma remove_node_entry: "get_entry (remove_node n t) k = (if k = n then None else get_entry t k)"
  by (auto simp: remove_node_def get_entry_def split: option.splits)

lemma table_inv_remove:
  assumes "table_inv t"
  shows "table_inv (remove_node n t)"
proof (cases "map_of (rt_entries t) n")
  case (Some e)
  have "k \<in> set (find_hosts_for_content (remove_node n t) c)"
    if "get_entry (remove_node n t) k = Some e'" "c \<in> set (re_advertised e')" for k e' c
  proof -
    from that(1) have "k \<noteq> n" "map_of (rt_entries t) k = Some e'"
      by (auto simp: remove_node_entry split: if_splits) (simp add: get_entry_def)
    then show ?thesis using table_inv_advertised [OF assms] that(2) by (auto simp: remove_node_hosts split: option.splits)
  qed
  moreover have "hosts \<noteq> [] \<and> distinct hosts" if "map_of (rt_index (remove_node n t)) c = Some hosts" for c hosts
    using unlist_all_lists [of "rt_index t" n "re_advertised e" c hosts] assms that
    by (simp add: remove_node_def Some table_inv_def)
  ultimately show ?thesis
    using assms by (simp add: table_inv_def get_entry_def) (simp add: remove_node_def Some unlist_all_ok)
qed (simp add: remove_node_def assms)

lemma advertise_entry:
  "get_entry (advertise_content n c t) k = (if k = n then map_option (\<lambda>e. e\<lparr>re_advertised :=
     (if c \<in> set (re_advertised e) then re_advertised e else re_advertised e @ [c])\<rparr>) (get_entry t n) else get_entry t k)"
  by (auto simp: advertise_content_def get_entry_def Let_def split: option.splits)

lemma advertise_index:
  "rt_index (advertise_content n c t) = omap_set c (let hosts = opt_or [] (map_of (rt_index t) c)
     in if n \<in> set hosts then hosts else hosts @ [n]) (rt_index t)"
  by (auto simp: advertise_content_def Let_def split: option.splits)

lemma table_inv_advertise:
  assumes "table_inv t"
  shows "table_inv (advertise_content n c t)"
proof -
  have hosts: "set (find_hosts_for_content (advertise_content n c t) c') =
      set (find_hosts_for_content t c') \<union> (if c' = c then {n} else {})" for c'
    by (auto simp: find_hosts_for_content_def advertise_index Let_def)
  have "k \<in> set (find_hosts_for_content (advertise_content n c t) c')"
    if "get_entry (advertise_content n c t) k = Some e'" "c' \<in> set (re_advertised e')" for k e' c'
    using that table_inv_get [OF assms] unfolding hosts
    by (auto simp: advertise_entry split: if_splits)
  moreover have "omap_ok (rt_entries (advertise_content n c t))"
    using assms by (auto simp: advertise_content_def Let_def table_inv_def split: option.splits)
  moreover have "distinct (opt_or [] (map_of (rt_index t) c))"
    using assms by (cases "map_of (rt_index t) c") (auto simp: table_inv_def)
  ultimately show ?thesis
    using assms by (auto simp: table_inv_def get_entry_def advertise_index Let_def split: if_splits)
qed

lemma unadvertise_entry:
  "get_entry (remove_content_advertisement n c t) k = (if k = n
     then map_option (\<lambda>e. e\<lparr>re_advertised := removeAll c (re_advertised e)\<rparr>) (get_entry t n) else get_entry t k)"
  by (auto simp: remove_content_advertisement_def get_entry_def Let_def split: option.splits)

lemma unadvertise_index: "rt_index (remove_content_advertisement n c t) = unlist_host n c (rt_index t)"
  by (auto simp: remove_content_advertisement_def Let_def split: option.splits)

lemma table_inv_unadvertise:
  assumes "table_inv t"
  shows "table_inv (remove_content_advertisement n c t)"
proof -
  have "k \<in> set (find_hosts_for_content (remove_content_advertisement n c t) c')"
    if "get_entry (remove_content_advertisement n c t) k = Some e'" "c' \<in> set (re_advertised e')" for k e' c'
    using that table_inv_get [OF assms]
    by (auto simp: unadvertise_entry find_hosts_for_content_def unadvertise_index hosts_unlist split: if_splits)
  moreover have "omap_ok (rt_entries (remove_content_advertisement n c t))"
    using assms by (auto simp: remove_content_advertisement_def Let_def table_inv_def split: option.splits)
  moreover have "hosts \<noteq> [] \<and> distinct hosts" if "map_of (unlist_host n c (rt_index t)) c' = Some hosts" for c' hosts
    by (rule unlist_lists [OF _ that]) (use assms in \<open>simp add: table_inv_def\<close>)
  ultimately show ?thesis
    using assms by (simp add: table_inv_def get_entry_def unadvertise_index unlist_ok)
qed

lemma table_inv_remove_all: "table_inv t \<Longrightarrow> table_inv (fold remove_node ns t)"
  by (induction ns arbitrary: t) (simp_all add: table_inv_remove)

interpretation table_machine: invariant_machine table_step table_inv
proof
  fix t x
  assume "table_inv t"
  then show "table_inv (table_step t x)"
    by (cases x) (simp_all add: table_inv_add table_inv_remove table_inv_seen table_inv_reliability table_inv_advertise
        table_inv_unadvertise table_inv_remove_all cleanup_stale_entries_def Let_def)
qed

lemma table_inv_run: "table_inv (foldl table_step RoutingTable_init ops)"
  by (rule table_machine.run_inv) (simp add: table_inv_def RoutingTable_init_def)

lemma remove_all_entry: "get_entry (fold remove_node ns t) k = (if k \<in> set ns then None else get_entry t k)"
  by (induction ns arbitrary: t) (auto simp: remove_node_entry)

lemma remove_all_hosts:
  "k \<in> set (find_hosts_for_content (fold remove_node ns t) c) \<longleftrightarrow> k \<in> set (find_hosts_for_content t c) \<and>
     \<not> (k \<in> set ns \<and> (\<exists>e. get_entry t k = Some e \<and> c \<in> set (re_advertised e)))"
proof (induction ns arbitrary: t)
  case (Cons n ns)
  then show ?case by (auto simp: remove_node_hosts remove_node_entry split: option.splits if_splits)
qed simp

subsection \<open>The best host\<close>

lemma best_host_fold:
  "best_host now t hs (b, s) = foldl (\<lambda>(b, s) (h, x). if f32_less s x then (h, x) else (b, s)) (b, s) (scored_hosts now t hs)"
proof (induction hs arbitrary: b s)
  case (Cons h hs)
  then show ?case by (cases "get_entry t h") (auto simp: scored_hosts_def map_filter_simps split del: if_split split: if_splits)
qed (simp add: scored_hosts_def map_filter_simps)

lemma fold_best:
  assumes "s \<noteq> NaN"
  shows "case foldl (\<lambda>(b, s) (h, x). if f32_less s x then (h, x) else (b, s)) (b, s) xs of (b', s') \<Rightarrow>
    s' \<noteq> NaN \<and> ((b', s') = (b, s) \<or> (b', s') \<in> set xs) \<and> f32_le s s' \<and> (\<forall>h x. (h, x) \<in> set xs \<longrightarrow> x \<noteq> NaN \<longrightarrow> f32_le x s')"
  using assms
proof (induction xs arbitrary: b s)
  case Nil
  then show ?case by (cases s) auto
next
  case (Cons hx xs)
  obtain h x where hx: "hx = (h, x)" by force
  show ?case
  proof (cases "f32_less s x")
    case True
    then have "x \<noteq> NaN" by (cases s) auto
    from Cons.IH [OF this, of h] True show ?thesis
      by (auto simp: hx split: prod.splits dest: f32_less_imp_le f32_le_trans)
  next
    case False
    have "x \<noteq> NaN \<Longrightarrow> f32_le x s" using f32_le_total [OF Cons.prems _ False] .
    with Cons.IH [OF Cons.prems, of b] False show ?thesis
      by (auto simp: hx split: prod.splits dest: f32_le_trans)
  qed
qed

lemma f32_add_hops: "f32_add (Fin 1) (f32_of_int (uint (h :: u8))) = Fin (1 + of_int (uint h))"
proof -
  have "uint h < 256" using uint_bounded [of h] by simp
  then have "\<bar>uint h\<bar> < 2 ^ 24" "\<bar>1 + uint h\<bar> < 2 ^ 24" by simp_all
  then have "f32_of_int (uint h) = Fin (of_int (uint h))" "f32_of_int (1 + uint h) = Fin (of_int (1 + uint h))"
    by (simp_all only: f32_of_int_small)
  then show ?thesis by (simp add: f32_of_int_def)
qed

lemma route_score_unit:
  assumes "unit_f32 (re_reliability e)"
  shows "unit_f32 (route_score e)"
proof -
  define d where "d = 1 + rat_of_int (uint (re_hops e))"
  have "0 \<le> rat_of_int (uint (re_hops e))" by (simp only: of_int_0_le_iff uint_nonnegative)
  then have d: "d \<ge> 1" unfolding d_def by linarith
  obtain r where r: "re_reliability e = Fin r" "0 \<le> r" "r \<le> 1" using assms by (auto simp: unit_f32_def)
  have "route_score e = f32_of_rat (r / d)" using d unfolding route_score_def f32_add_hops d_def [symmetric] r(1) by simp
  moreover have "r / d \<le> 1" using r(3) d by (simp add: divide_le_eq)
  ultimately show ?thesis using r(2) d by (simp add: unit_f32_of_rat)
qed

lemma route_score_NaN: "re_reliability e = NaN \<Longrightarrow> route_score e = NaN"
  by (simp add: route_score_def)

text \<open>Scores stay numbers from 0 to 1, unless somebody reports one that is not a number.\<close>

definition scores_inv :: "RoutingTable \<Rightarrow> bool" where
  "scores_inv t \<longleftrightarrow> omap_all (\<lambda>e. re_reliability e = NaN \<or> unit_f32 (re_reliability e)) (rt_entries t)"

definition clamped :: "f32 \<Rightarrow> f32" where
  "clamped r = (let r = (if f32_less r (Fin 0) then Fin 0 else r) in if f32_less (Fin 1) r then Fin 1 else r)"

lemma clamped_score: "clamped r = NaN \<or> unit_f32 (clamped r)"
  by (cases r) (auto simp: clamped_def unit_f32_def)

lemma update_node_reliability_clamped:
  "update_node_reliability n s t = (case map_of (rt_entries t) n of None \<Rightarrow> t
     | Some e \<Rightarrow> t\<lparr>rt_entries := omap_set n (e\<lparr>re_reliability := clamped (f32_add (f32_mul (f32_of_rat (7 / 10)) (re_reliability e))
         (f32_mul (f32_of_rat (3 / 10)) s))\<rparr>) (rt_entries t)\<rparr>)"
  by (simp add: update_node_reliability_def clamped_def Let_def split: option.split)

lemma scores_inv_seen: "scores_inv t \<Longrightarrow> scores_inv (update_node_seen now n t)"
  by (auto simp: update_node_seen_def scores_inv_def dest: omap_all_find intro!: omap_all_set split: option.splits)

lemma scores_inv_add: "scores_inv t \<Longrightarrow> scores_inv (add_node now n hops t)"
proof (cases "map_of (rt_entries t) n")
  case (Some e)
  assume "scores_inv t"
  with Some have "scores_inv (if hops < re_hops e then t\<lparr>rt_entries := omap_set n (e\<lparr>re_hops := hops\<rparr>) (rt_entries t)\<rparr> else t)"
    by (auto simp: scores_inv_def dest: omap_all_find intro!: omap_all_set)
  with Some show ?thesis by (simp add: add_node_def scores_inv_seen)
qed (auto simp: add_node_def scores_inv_def intro!: omap_all_set)

lemma scores_inv_reliability: "scores_inv t \<Longrightarrow> scores_inv (update_node_reliability n s t)"
proof (cases "map_of (rt_entries t) n")
  case (Some e)
  assume "scores_inv t"
  with clamped_score show ?thesis
    unfolding scores_inv_def update_node_reliability_clamped Some by (simp add: omap_all_set)
qed (simp add: update_node_reliability_clamped)

lemma scores_inv_remove: "scores_inv t \<Longrightarrow> scores_inv (remove_node n t)"
  by (auto simp: remove_node_def scores_inv_def split: option.splits)

lemma scores_inv_remove_all: "scores_inv t \<Longrightarrow> scores_inv (fold remove_node ns t)"
  by (induction ns arbitrary: t) (simp_all add: scores_inv_remove)

lemma scores_inv_advertise: "scores_inv t \<Longrightarrow> scores_inv (advertise_content n c t)"
  by (auto simp: advertise_content_def scores_inv_def Let_def dest: omap_all_find intro!: omap_all_set split: option.splits)

lemma scores_inv_unadvertise: "scores_inv t \<Longrightarrow> scores_inv (remove_content_advertisement n c t)"
  by (auto simp: remove_content_advertisement_def scores_inv_def Let_def dest: omap_all_find intro!: omap_all_set split: option.splits)

interpretation scores_machine: invariant_machine table_step scores_inv
proof
  fix t x
  assume "scores_inv t"
  then show "scores_inv (table_step t x)"
    by (cases x) (simp_all add: scores_inv_add scores_inv_remove scores_inv_seen scores_inv_reliability scores_inv_advertise
        scores_inv_unadvertise scores_inv_remove_all cleanup_stale_entries_def Let_def)
qed

lemma scores_inv_run: "scores_inv (foldl table_step RoutingTable_init ops)"
  by (rule scores_machine.run_inv) (simp add: scores_inv_def RoutingTable_init_def)

lemma in_scored_hosts:
  "(h, x) \<in> set (scored_hosts now t hs) \<longleftrightarrow> h \<in> set hs \<and> (\<exists>e. get_entry t h = Some e \<and> usable now e \<and> x = route_score e)"
  by (force simp: scored_hosts_def set_map_filter split: option.splits if_splits)

subsection \<open>Onion layers\<close>

lemma xor_blocks_step:
  "bs \<noteq> [] \<Longrightarrow> xor_blocks H k n bs = map2 (XOR) (take 32 bs) (H (k @ le_bytes 4 n)) @ xor_blocks H k (n + 1) (drop 32 bs)"
  by (cases bs) simp_all

lemma map2_xor_twice: "length xs \<le> length ys \<Longrightarrow> map2 (XOR) (map2 (XOR) xs ys) ys = (xs :: bytes)"
proof (induction xs arbitrary: ys)
  case (Cons x xs)
  then show ?case by (cases ys) (simp_all add: xor.assoc)
qed simp

lemma xor_blocks_twice:
  assumes "\<And>x. length (H x) = 32"
  shows "xor_blocks H k n (xor_blocks H k n bs) = bs"
proof (induction "length bs" arbitrary: bs n rule: less_induct)
  case less
  show ?case
  proof (cases "bs = []")
    case False
    let ?B = "H (k @ le_bytes 4 n)" and ?rest = "xor_blocks H k (n + 1) (drop 32 bs)"
    have chunk: "length (map2 (XOR) (take 32 bs) ?B) = min 32 (length bs)" by (simp add: assms)
    have ne: "map2 (XOR) (take 32 bs) ?B \<noteq> []" using False chunk by (metis length_0_conv min_def zero_neq_numeral)
    have rest: "?rest = [] \<or> length bs > 32" by (cases "length bs > 32") simp_all
    let ?C = "map2 (XOR) (take 32 bs) ?B"
    have parts: "take 32 (?C @ ?rest) = ?C" "drop 32 (?C @ ?rest) = ?rest"
      using rest chunk by auto
    have "xor_blocks H k n (xor_blocks H k n bs) = xor_blocks H k n (?C @ ?rest)"
      by (simp only: xor_blocks_step [OF False])
    also have "\<dots> = map2 (XOR) (take 32 (?C @ ?rest)) ?B @ xor_blocks H k (n + 1) (drop 32 (?C @ ?rest))"
      by (rule xor_blocks_step) (use ne in simp)
    also have "\<dots> = map2 (XOR) ?C ?B @ xor_blocks H k (n + 1) ?rest" by (simp only: parts)
    also have "map2 (XOR) ?C ?B = take 32 bs" by (rule map2_xor_twice) (simp add: assms)
    also have "xor_blocks H k (n + 1) ?rest = drop 32 bs" by (rule less) (use False in simp)
    finally show ?thesis by simp
  qed simp
qed

lemma length_xor_blocks_eq:
  assumes "\<And>x. length (H x) = 32"
  shows "length (xor_blocks H k n bs) = length bs"
  using length_xor_blocks [of H k n bs] length_xor_blocks [of H k n "xor_blocks H k n bs"]
  by (simp add: xor_blocks_twice [of H, OF assms])

lemma decrypt_wrapped:
  assumes "\<And>x. length (H x) = 32" "length (node_bytes next) = 32"
  shows "decrypt_onion_layer H hop (wrap_layer H hop next current) = Some current"
  using assms(2)
  by (simp add: decrypt_onion_layer_def wrap_layer_def xor_with_keystream_def bytes_of_string_def Let_def
      length_xor_blocks_eq [of H, OF assms(1)] xor_blocks_twice [of H, OF assms(1)])

subsection \<open>Messages\<close>

interpretation layer_stream: stream_codec layer_bytes read_layer "\<lambda>l. length l < 2 ^ 32"
  by unfold_locales (simp add: layer_bytes_def read_layer_def)

definition wf_ContentRequest :: "ContentRequest \<Rightarrow> bool" where
  "wf_ContentRequest q \<longleftrightarrow> length (content_bytes (cq_content_hash q)) = 32 \<and> length (node_bytes (cq_requester q)) = 32 \<and>
     length (cq_request_id q) = 32 \<and> length (cq_onion q) < 2 ^ 16 \<and> list_all (\<lambda>l. length l < 2 ^ 32) (cq_onion q)"

definition wf_ContentResponse :: "ContentResponse \<Rightarrow> bool" where
  "wf_ContentResponse p \<longleftrightarrow> length (content_bytes (cp_content_hash p)) = 32 \<and> length (node_bytes (cp_host p)) = 32 \<and>
     length (cp_request_id p) = 32 \<and> length (cp_data p) < 2 ^ 32 \<and> length (cp_signature p) = 64"

lemma read_scalar_u16 [simp]: "read_scalar 2 (le_bytes 2 (w :: u16) @ r) = Some (w, r)"
  by (simp add: read_scalar_def)

interpretation request_codec: trailing_codec ContentRequest_to_bytes ContentRequest_from_bytes wf_ContentRequest
  by unfold_locales (simp add: ContentRequest_to_bytes_def ContentRequest_from_bytes_def wf_ContentRequest_def
      layer_stream.read_many_enc)

interpretation response_codec: trailing_codec ContentResponse_to_bytes ContentResponse_from_bytes wf_ContentResponse
  by unfold_locales (simp add: ContentResponse_to_bytes_def ContentResponse_from_bytes_def wf_ContentResponse_def)

subsection \<open>Sequences of router operations\<close>

datatype router_op =
    RequestContent bytes u64 ContentHash u8
  | RequestOnion bytes u64 ContentHash "NodeID list"
  | HandleRequest u64 ContentRequest
  | HandleResponse ContentResponse
  | UpdateTable u64 NodeID u8
  | AdvertiseLocal ContentHash
  | RemoveLocal ContentHash
  | CancelRequest Hash256
  | UpdateStatistics u64
  | OnReceived
  | OnNotFound
  | OnFetch "ContentHash \<Rightarrow> bytes option"
  | OnSign "ContentResponse \<Rightarrow> bytes"
  | OnVerify "ContentResponse \<Rightarrow> bool"
  | OnSendRequest
  | OnSendResponse

fun router_step :: "(bytes \<Rightarrow> Hash256) \<Rightarrow> Router \<Rightarrow> router_op \<Rightarrow> Router \<times> router_call list" where
  "router_step H r (RequestContent rnd now c hops) = snd (request_content H rnd now c hops r)"
| "router_step H r (RequestOnion rnd now c route) = snd (request_content_with_onion_routing H rnd now c route r)"
| "router_step H r (HandleRequest now q) = handle_content_request H now q r"
| "router_step H r (HandleResponse p) = handle_content_response H p r"
| "router_step H r (UpdateTable now n hops) = (update_routing_table now n hops r, [])"
| "router_step H r (AdvertiseLocal c) = (advertise_local_content c r, [])"
| "router_step H r (RemoveLocal c) = (remove_local_content c r, [])"
| "router_step H r (CancelRequest i) = (cancel_request i r, [])"
| "router_step H r (UpdateStatistics now) = update_statistics now r"
| "router_step H r OnReceived = (set_content_received_callback r, [])"
| "router_step H r OnNotFound = (set_content_not_found_callback r, [])"
| "router_step H r (OnFetch f) = (set_local_content_fetch_callback f r, [])"
| "router_step H r (OnSign f) = (set_response_sign_callback f r, [])"
| "router_step H r (OnVerify f) = (set_response_verify_callback f r, [])"
| "router_step H r OnSendRequest = (set_request_send_callback r, [])"
| "router_step H r OnSendResponse = (set_response_send_callback r, [])"

fun router_run :: "(bytes \<Rightarrow> Hash256) \<Rightarrow> Router \<Rightarrow> router_op list \<Rightarrow> Router \<times> router_call list" where
  "router_run H r [] = (r, [])"
| "router_run H r (x # xs) = (let (r', calls) = router_step H r x; (r'', calls') = router_run H r' xs in (r'', calls @ calls'))"

fun is_request :: "router_op \<Rightarrow> bool" where
  "is_request (RequestContent rnd now c hops) = True"
| "is_request (RequestOnion rnd now c route) = True"
| "is_request _ = False"

fun is_received :: "router_call \<Rightarrow> bool" where
  "is_received (ContentReceived c d) = True"
| "is_received _ = False"

text \<open>A delivery carries data with the hash it is delivered under.\<close>

fun delivery_ok :: "(bytes \<Rightarrow> Hash256) \<Rightarrow> router_call \<Rightarrow> bool" where
  "delivery_ok H (ContentReceived c d) = (H d = content_bytes c)"
| "delivery_ok H _ = True"

lemma handle_content_request_quiet:
  "ro_pending (fst (handle_content_request H now q r)) = ro_pending r \<and>
   filter is_received (snd (handle_content_request H now q r)) = [] \<and>
   list_all (delivery_ok H) (snd (handle_content_request H now q r))"
proof (induction H now q r rule: handle_content_request.induct)
  case (1 H now q r)
  show ?case
    unfolding handle_content_request.simps [of H now q r]
    using 1 by (auto simp: Let_def serve_locally_def forward_request_def send_request_to_peer_def send_response_to_peer_def
        split: list.splits option.splits)
qed

lemma router_step_balance:
  assumes "router_step H r x = (r', calls)"
  shows "length (filter is_received calls) + length (ro_pending r') \<le> length (ro_pending r) + (if is_request x then 1 else 0) \<and>
    list_all (delivery_ok H) calls"
proof (cases x)
  case (HandleRequest now q)
  with assms have "handle_content_request H now q r = (r', calls)" by simp
  then show ?thesis using handle_content_request_quiet [of H now q r] HandleRequest by simp
next
  case (HandleResponse p)
  with assms show ?thesis
    using length_omap_erase_present [of "ro_pending r" "cp_request_id p"]
    by (auto simp: handle_content_response_def Let_def split: option.splits if_splits)
next
  case (RequestContent rnd now c hops)
  with assms show ?thesis
    using length_omap_set
    by (auto simp: request_content_def generate_request_id_def Let_def send_request_to_peer_def split: if_splits)
next
  case (RequestOnion rnd now c route)
  with assms show ?thesis
    using length_omap_set
    by (auto simp: request_content_with_onion_routing_def generate_request_id_def Let_def send_request_to_peer_def
        split: list.splits if_splits)
next
  case (UpdateStatistics now)
  have "filter is_received (map (\<lambda>(i, p). ContentNotFound (pq_content_hash p)) xs) = []"
       "list_all (delivery_ok H) (map (\<lambda>(i, p). ContentNotFound (pq_content_hash p)) xs)" for xs :: "(Hash256 \<times> PendingRequest) list"
    by (induction xs) auto
  with assms UpdateStatistics show ?thesis
    using length_erase_all by (auto simp: update_statistics_def cleanup_timed_out_requests_def Let_def split: if_splits)
qed (use assms in \<open>auto simp: update_routing_table_def advertise_local_content_def remove_local_content_def cancel_request_def
    length_omap_erase set_content_received_callback_def set_content_not_found_callback_def set_local_content_fetch_callback_def
    set_response_sign_callback_def set_response_verify_callback_def set_request_send_callback_def set_response_send_callback_def\<close>)

lemma router_run_balance:
  "router_run H r xs = (r', calls) \<Longrightarrow>
     length (filter is_received calls) + length (ro_pending r') \<le> length (ro_pending r) + length (filter is_request xs) \<and>
     list_all (delivery_ok H) calls"
proof (induction xs arbitrary: r calls)
  case (Cons x xs)
  obtain r1 c1 where s: "router_step H r x = (r1, c1)" by force
  obtain c2 where c: "router_run H r1 xs = (r', c2)" "calls = c1 @ c2"
    using Cons.prems s by (auto split: prod.splits)
  show ?case using router_step_balance [OF s] Cons.IH [OF c(1)] c(2) by auto
qed simp

subsection \<open>Forwarding through the network\<close>

text \<open>A request after \<open>n\<close> routers have forwarded it, each in its own state and at its own time.\<close>

inductive forwarded :: "(bytes \<Rightarrow> Hash256) \<Rightarrow> ContentRequest \<Rightarrow> nat \<Rightarrow> ContentRequest \<Rightarrow> bool" for H q where
  start: "forwarded H q 0 q"
| hop: "forwarded H q n q' \<Longrightarrow> SendRequest peer q'' \<in> set (snd (handle_content_request H now q' r)) \<Longrightarrow>
    forwarded H q (Suc n) q''"

lemma forward_once:
  assumes "cq_onion q = []" "SendRequest peer q' \<in> set (snd (handle_content_request H now q r))"
  shows "q' = q\<lparr>cq_hop_limit := cq_hop_limit q - 1\<rparr> \<and> 1 < cq_hop_limit q"
  using assms unfolding handle_content_request.simps [of H now q r]
  by (auto simp: Let_def serve_locally_def forward_request_def send_request_to_peer_def send_response_to_peer_def
      should_forward_request_def not_le split: if_splits option.splits)

lemma forwarded_hops:
  assumes "forwarded H q n q'" "cq_onion q = []"
  shows "q' = q\<lparr>cq_hop_limit := cq_hop_limit q'\<rparr> \<and> unat (cq_hop_limit q') + n = unat (cq_hop_limit q) \<and>
    (n = 0 \<or> 0 < cq_hop_limit q')"
  using assms
proof (induction rule: forwarded.induct)
  case (hop n q' peer q'' now r)
  then have q': "q' = q\<lparr>cq_hop_limit := cq_hop_limit q'\<rparr>" "unat (cq_hop_limit q') + n = unat (cq_hop_limit q)" by auto
  have "cq_onion q' = []" using q'(1) hop.prems by (metis ContentRequest.select_convs(6) ContentRequest.surjective
        ContentRequest.update_convs(4))
  from forward_once [OF this hop.hyps(2)] have q'': "q'' = q'\<lparr>cq_hop_limit := cq_hop_limit q' - 1\<rparr>" "1 < cq_hop_limit q'"
    by blast+
  have gt: "1 < unat (cq_hop_limit q')" using q''(2) by (simp add: word_less_nat_alt)
  then have "cq_hop_limit q' \<noteq> 0" by auto
  then have "unat (cq_hop_limit q' - 1) = unat (cq_hop_limit q') - 1" by (rule unat_minus_one)
  moreover note gt
  moreover have "q'' = q\<lparr>cq_hop_limit := cq_hop_limit q''\<rparr>"
    using q'(1) q''(1) by (metis (no_types, lifting) ContentRequest.select_convs ContentRequest.surjective ContentRequest.update_convs(4))
  ultimately show ?case using q'(2) q''(1) by (auto simp: word_less_nat_alt)
qed simp

section \<open>Properties\<close>

text \<open>
  after every sequence of operations on the routing table, whatever an entry advertises is found
  through the content index, host lists are never empty and have no duplicates, and a cleanup
  removes exactly the stale entries, together with every index entry for what they advertised.
\<close>

theorem routing_table_consistent:
  fixes ops :: "table_op list"
  defines "t \<equiv> foldl table_step RoutingTable_init ops"
  shows "table_inv t \<and>
    get_entry (cleanup_stale_entries now t) n =
      (case get_entry t n of None \<Rightarrow> None | Some e \<Rightarrow> if is_stale now e then None else Some e) \<and>
    (n \<in> set (find_hosts_for_content (cleanup_stale_entries now t) c) \<longleftrightarrow>
      n \<in> set (find_hosts_for_content t c) \<and>
      (\<nexists>e. get_entry t n = Some e \<and> is_stale now e \<and> c \<in> set (re_advertised e)))"
proof -
  have inv: "table_inv t" unfolding t_def by (rule table_inv_run)
  have ok: "omap_ok (rt_entries t)" using inv by (simp add: table_inv_def)
  have stale: "k \<in> set (map fst (filter (\<lambda>(n, e). is_stale now e) (rt_entries t))) \<longleftrightarrow>
      (\<exists>e. get_entry t k = Some e \<and> is_stale now e)" for k
    unfolding get_entry_def omap_find_iff [OF ok] by force
  have "get_entry (cleanup_stale_entries now t) n =
      (case get_entry t n of None \<Rightarrow> None | Some e \<Rightarrow> if is_stale now e then None else Some e)"
    unfolding cleanup_stale_entries_def Let_def remove_all_entry stale by (cases "get_entry t n") auto
  moreover have "n \<in> set (find_hosts_for_content (cleanup_stale_entries now t) c) \<longleftrightarrow>
      n \<in> set (find_hosts_for_content t c) \<and> (\<nexists>e. get_entry t n = Some e \<and> is_stale now e \<and> c \<in> set (re_advertised e))"
    unfolding cleanup_stale_entries_def Let_def remove_all_hosts stale by auto
  ultimately show ?thesis using inv by blast
qed

text \<open>
  the host chosen for a content hash has the best score among the listed hosts that have a fresh
  entry of sufficient reliability, and there is none exactly when no listed host has one. (A
  reliability that is not a number never wins.)
\<close>

theorem best_host_optimal:
  fixes ops :: "table_op list" and c :: ContentHash and now :: u64
  defines "t \<equiv> foldl table_step RoutingTable_init ops"
  defines "candidate h s \<equiv> h \<in> set (find_hosts_for_content t c) \<and>
    (\<exists>e. get_entry t h = Some e \<and> usable now e \<and> s = route_score e) \<and> s \<noteq> NaN"
  shows "case select_best_host now t c of
      None \<Rightarrow> \<not> (\<exists>h s. candidate h s)
    | Some b \<Rightarrow> \<exists>s. candidate b s \<and> (\<forall>h s'. candidate h s' \<longrightarrow> f32_le s' s)"
proof -
  let ?hs = "find_hosts_for_content t c"
  have cand: "candidate h s \<longleftrightarrow> (h, s) \<in> set (scored_hosts now t ?hs) \<and> s \<noteq> NaN" for h s
    by (auto simp: candidate_def in_scored_hosts)
  have unit: "unit_f32 s" if cs: "candidate h s" for h s
  proof -
    obtain e where e: "get_entry t h = Some e" "s = route_score e" "s \<noteq> NaN" using cs unfolding candidate_def by blast
    have "re_reliability e = NaN \<or> unit_f32 (re_reliability e)"
      using omap_all_find [OF scores_inv_run [of ops, unfolded scores_inv_def t_def [symmetric]]] e(1)
      by (simp add: get_entry_def)
    then show ?thesis using e route_score_unit route_score_NaN by blast
  qed
  obtain b s where bs: "best_host now t ?hs (hd ?hs, Fin (-1)) = (b, s)" by force
  have best: "s \<noteq> NaN" "(b, s) = (hd ?hs, Fin (-1)) \<or> (b, s) \<in> set (scored_hosts now t ?hs)"
    "\<And>h x. candidate h x \<Longrightarrow> f32_le x s"
    using fold_best [of "Fin (-1)" "hd ?hs" "scored_hosts now t ?hs"] bs unfolding best_host_fold cand by auto
  show ?thesis
  proof (cases "?hs = []")
    case False
    have neg: "\<not> (\<exists>h x. candidate h x)" if "f32_less s (Fin 0)"
    proof
      assume "\<exists>h x. candidate h x"
      then obtain h x where hx: "candidate h x" by blast
      from f32_le_less_trans [OF best(3) [OF hx] that] have "f32_less x (Fin 0)" .
      with unit [OF hx] show False by (auto simp: unit_f32_def)
    qed
    have "candidate b s" if "\<not> f32_less s (Fin 0)" using best(1,2) that cand by auto
    with neg best(3) show ?thesis using False by (auto simp: select_best_host_def bs)
  qed (simp add: select_best_host_def candidate_def)
qed

text \<open>
  C13: whatever a router does and receives, the data it hands to the application always has the hash
  under which it is delivered, and no more contents are delivered than were requested: each delivery
  uses up one pending request.
\<close>

theorem router_delivers_authentic:
  "let (r, calls) = router_run H (Router_init me) ops in
     list_all (delivery_ok H) calls \<and>
     length (filter is_received calls) + length (ro_pending r) \<le> length (filter is_request ops)"
  using router_run_balance [of H "Router_init me" ops] by (auto simp: Router_init_def split: prod.splits)

text \<open>
  C14: a content request that carries no onion layers and reaches a node after \<open>n\<close> routers forwarded it, in whatever
  states and however the network is connected, is the request that was sent with its hop limit
  lowered by \<open>n\<close>, so that it is forwarded fewer times than the hop limit it was sent with says.
\<close>

theorem forwarding_ends:
  assumes "forwarded H q n q'" "cq_onion q = []"
  shows "q' = q\<lparr>cq_hop_limit := cq_hop_limit q'\<rparr> \<and> unat (cq_hop_limit q') + n = unat (cq_hop_limit q) \<and>
    (n = 0 \<or> n < unat (cq_hop_limit q))"
  using forwarded_hops [OF assms] by (auto simp: word_less_nat_alt)

text \<open>
  every node on an onion route takes off exactly the layer made for it: what it finds inside is the
  onion for the rest of the route, and the payload at the last node.
\<close>

theorem onion_layers_peel:
  assumes "\<And>x. length (H x) = 32" "list_all (\<lambda>n. length (node_bytes n) = 32) route"
  shows "decrypt_onion_layer H hop (wrap_route H (hop # route) payload) = Some (wrap_route H route payload)"
  using assms by (cases route) (auto intro!: decrypt_wrapped simp: zero_hash_def)

theorem onion_layers_peel_witness:
  "decrypt_onion_layer (\<lambda>_. replicate 32 7) (NodeID [1])
     (wrap_route (\<lambda>_. replicate 32 7) [NodeID [1], NodeID (replicate 32 2)] [1, 2, 3]) =
   Some (wrap_route (\<lambda>_. replicate 32 7) [NodeID (replicate 32 2)] [1, 2, 3])"
  by (rule onion_layers_peel) simp_all

text \<open>
  requests and responses survive encoding and decoding, whatever bytes follow them.
\<close>

theorem routing_messages_roundtrip:
  assumes "wf_ContentRequest q" "wf_ContentResponse p"
  shows "ContentRequest_from_bytes (ContentRequest_to_bytes q @ rest) = Some q \<and>
    ContentResponse_from_bytes (ContentResponse_to_bytes p @ rest) = Some p"
  using assms by (simp add: request_codec.dec_enc_append response_codec.dec_enc_append)

definition plain_request :: ContentRequest where
  "plain_request = \<lparr>cq_content_hash = ContentHash (replicate 32 1), cq_requester = NodeID (replicate 32 2),
     cq_request_id = replicate 32 3, cq_hop_limit = 3, cq_timestamp = 4, cq_onion = []\<rparr>"

definition relay :: Router where
  "relay = (Router_init (NodeID (replicate 32 9)))\<lparr>ro_request_cb := True,
     ro_table := advertise_content (NodeID (replicate 32 5)) (ContentHash (replicate 32 1))
       (add_node 0 (NodeID (replicate 32 5)) 1 RoutingTable_init)\<rparr>"

theorem routing_messages_roundtrip_witness:
  "ContentRequest_from_bytes (ContentRequest_to_bytes plain_request @ [1]) = Some plain_request"
proof -
  have "wf_ContentRequest plain_request" by (simp add: wf_ContentRequest_def plain_request_def)
  moreover have "wf_ContentResponse \<lparr>cp_content_hash = ContentHash (replicate 32 1), cp_data = [1], cp_host = NodeID (replicate 32 2),
      cp_request_id = replicate 32 3, cp_hop_count = 0, cp_signature = replicate 64 0\<rparr>"
    by (simp add: wf_ContentResponse_def)
  ultimately show ?thesis by (rule routing_messages_roundtrip [THEN conjunct1])
qed

theorem best_host_optimal_witness:
  "select_best_host 10 (foldl table_step RoutingTable_init [AddNode 0 (NodeID [5]) 1, AdvertiseContent (NodeID [5]) (ContentHash [1])])
     (ContentHash [1]) \<noteq> None"
proof -
  let ?t = "foldl table_step RoutingTable_init [AddNode 0 (NodeID [5]) 1, AdvertiseContent (NodeID [5]) (ContentHash [1])]"
  define e where "e = \<lparr>re_node_id = NodeID [5], re_advertised = [ContentHash [1]], re_hops = 1, re_last_seen = 0, re_reliability = Fin 1\<rparr>"
  have "get_entry ?t (NodeID [5]) = Some e" "NodeID [5] \<in> set (find_hosts_for_content ?t (ContentHash [1]))"
    by (simp_all add: RoutingTable_init_def advertise_content_def add_node_def get_entry_def find_hosts_for_content_def e_def)
  moreover have "f32_of_rat (3 / 10) \<noteq> NaN" "\<not> f32_less (Fin 1) (f32_of_rat (3 / 10))"
    using unit_f32_of_rat [of "3 / 10"] by (auto simp: unit_f32_def)
  then have "usable 10 e" by (simp add: usable_def e_def is_stale_def ENTRY_TTL_SECONDS_def MIN_ROUTE_RELIABILITY_def)
  moreover have "route_score e \<noteq> NaN" using route_score_unit [of e] by (auto simp: e_def unit_f32_def)
  ultimately have c: "NodeID [5] \<in> set (find_hosts_for_content ?t (ContentHash [1])) \<and>
      (\<exists>e. get_entry ?t (NodeID [5]) = Some e \<and> usable 10 e \<and> route_score e = route_score e) \<and> route_score e \<noteq> NaN"
    and e: "get_entry ?t (NodeID [5]) = Some e" "usable 10 e" by blast+
  show ?thesis
  proof
    assume "select_best_host 10 ?t (ContentHash [1]) = None"
    with best_host_optimal [where now = 10 and c = "ContentHash [1]" and ops = "[AddNode 0 (NodeID [5]) 1, AdvertiseContent (NodeID [5]) (ContentHash [1])]"]
    have "\<not> (\<exists>h s. h \<in> set (find_hosts_for_content ?t (ContentHash [1])) \<and>
        (\<exists>e. get_entry ?t h = Some e \<and> usable 10 e \<and> s = route_score e) \<and> s \<noteq> NaN)"
      by (simp only: option.case not_False_eq_True)
    with c e show False by blast
  qed
qed

theorem forwarding_ends_witness:
  "SendRequest (NodeID (replicate 32 5)) (plain_request\<lparr>cq_hop_limit := 2\<rparr>) \<in>
     set (snd (handle_content_request (\<lambda>_. []) 10 plain_request relay)) \<and>
   forwarded (\<lambda>_. []) plain_request 1 (plain_request\<lparr>cq_hop_limit := 2\<rparr>) \<and>
   unat (cq_hop_limit (plain_request\<lparr>cq_hop_limit := 2\<rparr>)) + 1 = unat (cq_hop_limit plain_request) \<and>
   1 < unat (cq_hop_limit plain_request)"
proof -
  let ?n = "NodeID (replicate 32 5)"
  have e: "select_best_host 10 (ro_table relay) (ContentHash (replicate 32 1)) = Some ?n"
  proof -
    have "\<not> f32_less (Fin 1) (f32_of_rat (3 / 10))" using unit_f32_of_rat [of "3 / 10"] by (auto simp: unit_f32_def)
    moreover have "f32_less (Fin (-1)) (f32_of_rat (1 / 2))" "\<not> f32_less (f32_of_rat (1 / 2)) (Fin 0)"
      using unit_f32_of_rat [of "1 / 2"] by (auto simp: unit_f32_def)
    moreover have "f32_add (Fin 1) (f32_of_int (uint (1 :: u8))) = Fin 2"
      unfolding f32_add_hops by simp
    ultimately show ?thesis
      by (simp add: relay_def RoutingTable_init_def advertise_content_def add_node_def select_best_host_def
          find_hosts_for_content_def get_entry_def usable_def is_stale_def ENTRY_TTL_SECONDS_def MIN_ROUTE_RELIABILITY_def route_score_def)
  qed
  have sent: "SendRequest ?n (plain_request\<lparr>cq_hop_limit := 2\<rparr>) \<in> set (snd (handle_content_request (\<lambda>_. []) 10 plain_request relay))"
    using e unfolding handle_content_request.simps [of _ _ plain_request relay]
    by (simp add: plain_request_def relay_def Router_init_def can_serve_locally_def should_forward_request_def
        has_content_route_def forward_request_def select_next_hop_def send_request_to_peer_def array_empty_def
        advertise_content_def add_node_def RoutingTable_init_def Let_def word_le_def)
  then have hop: "forwarded (\<lambda>_. []) plain_request (Suc 0) (plain_request\<lparr>cq_hop_limit := 2\<rparr>)"
    by (rule forwarded.hop [OF forwarded.start])
  have "cq_onion plain_request = []" by (simp add: plain_request_def)
  from forwarding_ends [OF hop this] sent hop show ?thesis by simp
qed

text \<open>
  Only a route of one node works: on a longer one the first node finds another layer where it expects
  a request, and reads the mark \<open>ON1\<close> of that layer as the start of a content hash.
\<close>

theorem onion_route_misread:
  assumes "\<And>x. length (H x) = 32" "list_all (\<lambda>n. length (node_bytes n) = 32) (b # route)"
    and "decrypt_onion_layer H a (wrap_route H (a # b # route) payload) = Some data" "ContentRequest_from_bytes data = Some q"
  shows "take 3 (content_bytes (cq_content_hash q)) = bytes_of_string ''ON1''"
proof -
  have "data = wrap_route H (b # route) payload"
    using decrypt_wrapped [OF assms(1), where hop = a] assms(2,3) by simp
  with assms(4) show ?thesis
    by (auto simp: ContentRequest_from_bytes_def read_blob_def Option.bind_eq_Some_conv wrap_layer_def bytes_of_string_def
        split: if_splits)
qed

text \<open>Without a route a request goes to the node with the zero identifier, and nobody is told.\<close>

theorem request_without_route:
  "snd (snd (request_content H rnd now c hops
     (set_request_send_callback (set_content_not_found_callback (Router_init me))))) =
   [SendRequest (NodeID zero_hash) \<lparr>cq_content_hash = c, cq_requester = me,
     cq_request_id = H (node_bytes me @ le_bytes 8 (1 :: u64) @ rnd), cq_hop_limit = min hops MAX_HOP_LIMIT,
     cq_timestamp = now, cq_onion = []\<rparr>]"
  by (simp add: request_content_def generate_request_id_def Router_init_def set_request_send_callback_def
      set_content_not_found_callback_def select_next_hop_def select_best_host_def find_hosts_for_content_def
      RoutingTable_init_def array_empty_def zero_hash_def send_request_to_peer_def Let_def)

text \<open>A response with other content than was asked for answers the request.\<close>

theorem response_for_other_content:
  assumes "get_pending_request r i = Some p" "pq_content_hash p \<noteq> c" "H d = content_bytes c" "ro_verify_cb r = None"
  shows "get_pending_request (fst (handle_content_response H \<lparr>cp_content_hash = c, cp_data = d, cp_host = n,
    cp_request_id = i, cp_hop_count = 0, cp_signature = s\<rparr> r)) i = None"
  using assms by (simp add: handle_content_response_def get_pending_request_def)

text \<open>Content that was advertised before its node was added stays in the index when the node is removed.\<close>

theorem removed_node_listed:
  "find_hosts_for_content (foldl table_step RoutingTable_init [AdvertiseContent n c, AddNode 0 n 1, RemoveNode n]) c = [n]"
  by (simp add: RoutingTable_init_def advertise_content_def add_node_def remove_node_def find_hosts_for_content_def)

end
