(* ===== verification/Time_Utils.thy ===== *)
theory Time_Utils
  imports Containers
begin

text \<open>
  \<open>src/utils/time_utils.cpp\<close>: epochs and the rate limiter. The clock is the argument \<open>now\<close>: seconds for
  epochs, ticks of the system clock (signed, as integers) for the limiter. The calendar functions
  (ISO 8601 text), timers and sleeping are not modelled.
\<close>

section \<open>Epochs\<close>

definition EPOCH_DURATION_SECONDS :: u32 where
  "EPOCH_DURATION_SECONDS = 600"

text \<open>\<open>EpochManager\<close> holds the length of an epoch. A length of zero divides by zero.\<close>

definition epoch_for_timestamp :: "u32 \<Rightarrow> u64 \<Rightarrow> u64 option" where
  "epoch_for_timestamp duration t = (if duration = 0 then None else Some (t div ucast duration))"

definition current_epoch :: "u32 \<Rightarrow> u64 \<Rightarrow> u64 option" where
  "current_epoch duration now = epoch_for_timestamp duration now"

definition epoch_start_time :: "u32 \<Rightarrow> u64 \<Rightarrow> u64" where
  "epoch_start_time duration epoch = epoch * ucast duration"

definition epoch_end_time :: "u32 \<Rightarrow> u64 \<Rightarrow> u64" where
  "epoch_end_time duration epoch = (epoch + 1) * ucast duration"

definition is_in_epoch :: "u32 \<Rightarrow> u64 \<Rightarrow> u64 \<Rightarrow> bool option" where
  "is_in_epoch duration now epoch = map_option (\<lambda>e. e = epoch) (current_epoch duration now)"

definition time_remaining_in_epoch :: "u32 \<Rightarrow> u64 \<Rightarrow> u64 option" where
  "time_remaining_in_epoch duration now = map_option (\<lambda>e. let end_ts = epoch_end_time duration e in
     if now < end_ts then end_ts - now else 0) (current_epoch duration now)"

definition time_elapsed_in_epoch :: "u32 \<Rightarrow> u64 \<Rightarrow> u64 option" where
  "time_elapsed_in_epoch duration now = map_option (\<lambda>e. let start_ts = epoch_start_time duration e in
     if now \<ge> start_ts then now - start_ts else 0) (current_epoch duration now)"

section \<open>The rate limiter\<close>

record RateLimiter =
  rl_max :: u32
  rl_window :: int
  rl_stamps :: "int list"

definition RateLimiter_new :: "u32 \<Rightarrow> int \<Rightarrow> RateLimiter" where
  "RateLimiter_new n window = \<lparr>rl_max = n, rl_window = window, rl_stamps = []\<rparr>"

definition cleanup_old_timestamps :: "int \<Rightarrow> RateLimiter \<Rightarrow> RateLimiter" where
  "cleanup_old_timestamps now l = l\<lparr>rl_stamps := filter (\<lambda>t. \<not> t < now - rl_window l) (rl_stamps l)\<rparr>"

definition limiter_allow :: "int \<Rightarrow> RateLimiter \<Rightarrow> bool \<times> RateLimiter" where
  "limiter_allow now l =
     (let l = cleanup_old_timestamps now l in
      if length (rl_stamps l) < unat (rl_max l) then (True, l\<lparr>rl_stamps := rl_stamps l @ [now]\<rparr>) else (False, l))"

definition limiter_reset :: "RateLimiter \<Rightarrow> RateLimiter" where
  "limiter_reset l = l\<lparr>rl_stamps := []\<rparr>"

definition limiter_count :: "RateLimiter \<Rightarrow> nat" where
  "limiter_count l = length (rl_stamps l)"

section \<open>Lemmas\<close>

text \<open>The times at which a sequence of calls is allowed.\<close>

fun allowed_times :: "RateLimiter \<Rightarrow> int list \<Rightarrow> int list" where
  "allowed_times l [] = []"
| "allowed_times l (t # ts) = (case limiter_allow t l of (ok, l') \<Rightarrow> (if ok then [t] else []) @ allowed_times l' ts)"

text \<open>
  What has been allowed so far and is not older than the window is remembered, and never more than
  the maximum.
\<close>

definition limiter_inv :: "int list \<Rightarrow> int \<Rightarrow> RateLimiter \<Rightarrow> bool" where
  "limiter_inv past now l \<longleftrightarrow> rl_stamps l = filter (\<lambda>t. \<not> t < now - rl_window l) past \<and>
     length (rl_stamps l) \<le> unat (rl_max l) \<and> (\<forall>t\<in>set past. t \<le> now)"

lemma filter_refine: "(\<And>x. P x \<Longrightarrow> Q x) \<Longrightarrow> filter P (filter Q xs) = filter P xs"
  by (metis (no_types, lifting) filter_cong filter_filter)

lemma limiter_inv_allow:
  assumes "limiter_inv past now l" "now \<le> t" "0 \<le> rl_window l" "limiter_allow t l = (ok, l')"
  shows "limiter_inv (past @ (if ok then [t] else [])) t l' \<and> rl_window l' = rl_window l \<and> rl_max l' = rl_max l"
proof -
  have f: "filter (\<lambda>x. \<not> x < t - rl_window l) (rl_stamps l) = filter (\<lambda>x. \<not> x < t - rl_window l) past"
    using assms(1,2) by (simp add: limiter_inv_def) (rule filter_cong, auto)
  have "length (filter (\<lambda>x. \<not> x < t - rl_window l) (rl_stamps l)) \<le> unat (rl_max l)"
    using assms(1) by (meson le_trans length_filter_le limiter_inv_def)
  with assms f show ?thesis
    by (auto simp: limiter_inv_def limiter_allow_def cleanup_old_timestamps_def Let_def split: if_splits)
qed

definition in_window :: "int \<Rightarrow> int \<Rightarrow> int list \<Rightarrow> nat" where
  "in_window a w ts = length (filter (\<lambda>t. a \<le> t \<and> t \<le> a + w) ts)"

lemma in_window_allow:
  assumes "limiter_inv (past @ [t]) t l'" "\<And>a. in_window a (rl_window l') past \<le> unat (rl_max l')"
  shows "in_window a (rl_window l') (past @ [t]) \<le> unat (rl_max l')"
proof (cases "a \<le> t \<and> t \<le> a + rl_window l'")
  case True
  have "in_window a (rl_window l') (past @ [t]) \<le> length (filter (\<lambda>x. \<not> x < t - rl_window l') (past @ [t]))"
    unfolding in_window_def using True by (simp only: length_filter_conv_card) (rule card_mono, auto)
  also have "\<dots> \<le> unat (rl_max l')" using assms(1) unfolding limiter_inv_def by metis
  finally show ?thesis .
next
  case False
  then have "in_window a (rl_window l') (past @ [t]) = in_window a (rl_window l') past" by (auto simp: in_window_def)
  then show ?thesis using assms(2) by simp
qed

lemma allowed_in_window:
  "limiter_inv past now l \<Longrightarrow> 0 \<le> rl_window l \<Longrightarrow> sorted ts \<Longrightarrow> (\<forall>t\<in>set ts. now \<le> t) \<Longrightarrow>
   (\<And>a. in_window a (rl_window l) past \<le> unat (rl_max l)) \<Longrightarrow>
   in_window a (rl_window l) (past @ allowed_times l ts) \<le> unat (rl_max l)"
proof (induction ts arbitrary: past now l)
  case (Cons t ts)
  obtain ok l' where s: "limiter_allow t l = (ok, l')" by force
  have inv: "limiter_inv (past @ (if ok then [t] else [])) t l'" "rl_window l' = rl_window l" "rl_max l' = rl_max l"
    using limiter_inv_allow [OF Cons.prems(1) _ Cons.prems(2) s] Cons.prems(4) by auto
  have w: "in_window b (rl_window l') (past @ (if ok then [t] else [])) \<le> unat (rl_max l')" for b
    using in_window_allow [of past t l' b] inv Cons.prems(5) by (cases ok) auto
  have "in_window a (rl_window l') ((past @ (if ok then [t] else [])) @ allowed_times l' ts) \<le> unat (rl_max l')"
    by (rule Cons.IH [OF inv(1)]) (use Cons.prems inv w in auto)
  then show ?case by (simp add: s inv)
qed simp

lemma unat_ucast_u64: "unat (ucast (x :: u32) :: u64) = unat x"
proof -
  have "unat x < 2 ^ LENGTH(32)" by (rule unsigned_less)
  then show ?thesis by (simp add: unsigned_ucast_eq take_bit_eq_mod)
qed

lemma epoch_div: "duration \<noteq> 0 \<Longrightarrow> unat (t div ucast duration :: u64) = unat t div unat (duration :: u32)"
  by (simp add: unat_div unat_ucast_u64)

section \<open>Properties\<close>

text \<open>
  with a clock that does not run backwards the rate limiter allows no more than the maximum number
  of operations in any window of its length, wherever that window starts.
\<close>

theorem rate_limit_holds:
  assumes "0 \<le> window" "sorted ts"
  shows "length (filter (\<lambda>t. a \<le> t \<and> t \<le> a + window) (allowed_times (RateLimiter_new n window) ts)) \<le> unat n"
proof (cases ts)
  case (Cons t0 ts')
  have "in_window a window ([] @ allowed_times (RateLimiter_new n window) ts) \<le> unat n"
    using allowed_in_window [of "[]" t0 "RateLimiter_new n window" ts a] assms Cons
    by (simp add: limiter_inv_def RateLimiter_new_def in_window_def)
  then show ?thesis by (simp add: in_window_def)
qed simp

theorem rate_limit_holds_witness:
  "length (filter (\<lambda>t. 0 \<le> t \<and> t \<le> 0 + 10) (allowed_times (RateLimiter_new 2 10) [1, 2, 3, 15])) \<le> unat (2 :: u32) \<and>
   allowed_times (RateLimiter_new 2 10) [1, 2, 3, 15] = [1, 2, 15]"
proof
  show "length (filter (\<lambda>t. 0 \<le> t \<and> t \<le> 0 + 10) (allowed_times (RateLimiter_new 2 10) [1, 2, 3, 15])) \<le> unat (2 :: u32)"
    by (rule rate_limit_holds) simp_all
qed (simp add: limiter_allow_def cleanup_old_timestamps_def RateLimiter_new_def Let_def)

text \<open>
  every moment lies in exactly one epoch: the time elapsed in the current epoch and the time
  remaining add up to the length of an epoch, as long as the end of the epoch fits 64 bits.
\<close>

theorem epoch_partition:
  assumes "duration \<noteq> 0" "unat now + unat duration < 2 ^ 64"
  shows "\<exists>e elapsed remaining. current_epoch duration now = Some e \<and>
    epoch_start_time duration e \<le> now \<and> now < epoch_end_time duration e \<and>
    time_elapsed_in_epoch duration now = Some elapsed \<and> time_remaining_in_epoch duration now = Some remaining \<and>
    elapsed + remaining = ucast duration"
proof -
  let ?d = "unat duration" and ?n = "unat now"
  define e :: u64 where "e = now div ucast duration"
  have d: "?d > 0" using assms(1) by (simp add: unat_gt_0)
  have e: "unat e = ?n div ?d" using epoch_div [OF assms(1)] by (simp add: e_def)
  have le: "?n div ?d * ?d \<le> ?n" by simp
  have gt: "?n < (?n div ?d + 1) * ?d" using d by (simp add: dividend_less_div_times)
  have hi: "(?n div ?d + 1) * ?d \<le> ?n + ?d" using le by (simp add: algebra_simps)
  have ud: "unat (ucast duration :: u64) = ?d" by (simp add: unat_ucast_u64)
  have start: "unat (epoch_start_time duration e) = ?n div ?d * ?d"
    using le_less_trans [OF le, of "2 ^ 64"] assms(2) unfolding epoch_start_time_def by (subst unat_mult_lem [THEN iffD1]) (simp_all add: e ud)
  have "?n div ?d \<le> ?n" by (rule div_le_dividend)
  then have "?n div ?d + 1 < 2 ^ 64" using assms(2) d by linarith
  then have e1: "unat (e + 1) = ?n div ?d + 1" by (subst unat_add_lem [THEN iffD1]) (simp_all add: e)
  have stop: "unat (epoch_end_time duration e) = (?n div ?d + 1) * ?d"
    using le_less_trans [OF hi assms(2)] unfolding epoch_end_time_def by (subst unat_mult_lem [THEN iffD1]) (simp_all add: e1 ud)
  have "epoch_start_time duration e \<le> now" "now < epoch_end_time duration e"
    using start stop le gt by (simp_all add: word_le_nat_alt word_less_nat_alt)
  moreover have "now - epoch_start_time duration e + (epoch_end_time duration e - now) = ucast duration"
    by (simp add: epoch_start_time_def epoch_end_time_def algebra_simps)
  ultimately show ?thesis
    using assms(1) by (simp add: current_epoch_def epoch_for_timestamp_def e_def [symmetric] time_elapsed_in_epoch_def
        time_remaining_in_epoch_def Let_def)
qed

theorem epoch_partition_witness:
  "\<exists>e elapsed remaining. current_epoch 600 1000 = Some e \<and>
    epoch_start_time 600 e \<le> 1000 \<and> 1000 < epoch_end_time 600 e \<and>
    time_elapsed_in_epoch 600 1000 = Some elapsed \<and> time_remaining_in_epoch 600 1000 = Some remaining \<and>
    elapsed + remaining = ucast (600 :: u32)"
  by (rule epoch_partition) simp_all

end
