(* ===== verification/Postake.thy ===== *)
theory Postake
  imports Reputation Time_Utils
begin

text \<open>
  \<open>src/core/postake/postake.cpp\<close>: the tracker of contributions and the engine that turns them into keys.

  The clock is the argument \<open>now\<close>, one reading per operation. BLAKE3 is a parameter and \<open>srt\<close> stands for
  \<open>std::sort\<close>. A conversion of a \<open>float\<close> that does not fit the integer and a division by zero are
  undefined in C++ and have no result here. The field \<open>node_id\<close> of the metrics is never assigned and only
  copied into scores that nobody reads; it is left out. The state manager is stored by the engine and
  not used.
\<close>

section \<open>Data\<close>

datatype ContributionType = UPTIME | BANDWIDTH | STORAGE | ROUTING_QUALITY | EPOCH_WITNESS

record ContributionMetrics =
  cm_total_uptime :: u64
  cm_last_seen :: u64
  cm_first_seen :: u64
  cm_bytes_routed :: u64
  cm_bytes_sent :: u64
  cm_bytes_received :: u64
  cm_things_hosted :: u32
  cm_storage_bytes :: u64
  cm_successful_routes :: u32
  cm_failed_routes :: u32
  cm_routing_reliability :: f32
  cm_epochs_witnessed :: u32
  cm_epochs_missed :: u32

definition ContributionMetrics_new :: ContributionMetrics where
  "ContributionMetrics_new = \<lparr>cm_total_uptime = 0, cm_last_seen = 0, cm_first_seen = 0, cm_bytes_routed = 0,
     cm_bytes_sent = 0, cm_bytes_received = 0, cm_things_hosted = 0, cm_storage_bytes = 0, cm_successful_routes = 0,
     cm_failed_routes = 0, cm_routing_reliability = Fin 1, cm_epochs_witnessed = 0, cm_epochs_missed = 0\<rparr>"

record ContributionScore =
  cs_uptime :: u32
  cs_bandwidth :: u32
  cs_storage :: u32
  cs_routing :: u32
  cs_witness :: u32
  cs_total :: u32

record KeyEarningRate =
  er_key_type :: KeyType
  er_points_per_key :: u32
  er_max_per_epoch :: u32
  er_min_score :: u32

record EpochContribution =
  ec_epoch :: u64
  ec_node_id :: NodeID
  ec_metrics :: ContributionMetrics
  ec_score :: ContributionScore
  ec_keys_earned :: u32
  ec_key_type :: KeyType
  ec_recorded_at :: u64

record PoStakeReward =
  rw_node_id :: NodeID
  rw_epoch :: u64
  rw_key_type :: KeyType
  rw_key_count :: u32
  rw_awarded_at :: u64
  rw_proof_hash :: Hash256

record ContributionTracker =
  ct_metrics :: "(NodeID \<times> ContributionMetrics) list"
  ct_online_status :: "(NodeID \<times> bool) list"
  ct_online_since :: "(NodeID \<times> u64) list"

record PoStakeEngine =
  pe_tracker :: ContributionTracker
  pe_rates :: "(KeyType \<times> KeyEarningRate) list"
  pe_contributions :: "(u64 \<times> EpochContribution list) list"
  pe_rewards :: "(u64 \<times> PoStakeReward list) list"

section \<open>Metrics\<close>

definition uptime_percentage :: "u64 \<Rightarrow> ContributionMetrics \<Rightarrow> f32" where
  "uptime_percentage now m =
     (if cm_first_seen m = 0 then Fin 0
      else let since_join = now - cm_first_seen m in
           if since_join = 0 then Fin 100
           else f32_mul (f32_div (f32_of_int (uint (cm_total_uptime m))) (f32_of_int (uint since_join))) (Fin 100))"

definition routing_success_rate :: "ContributionMetrics \<Rightarrow> f32" where
  "routing_success_rate m =
     (let total = cm_successful_routes m + cm_failed_routes m in
      if total = 0 then Fin 100
      else f32_mul (f32_div (f32_of_int (uint (cm_successful_routes m))) (f32_of_int (uint total))) (Fin 100))"

definition calculate_total :: "ContributionScore \<Rightarrow> ContributionScore" where
  "calculate_total s = s\<lparr>cs_total := cs_uptime s + cs_bandwidth s + cs_storage s + cs_routing s + cs_witness s\<rparr>"

section \<open>The tracker\<close>

definition ContributionTracker_init :: ContributionTracker where
  "ContributionTracker_init = \<lparr>ct_metrics = [], ct_online_status = [], ct_online_since = []\<rparr>"

text \<open>\<open>metrics_[node_id]\<close> creates an entry when there is none.\<close>

definition metrics_at :: "ContributionTracker \<Rightarrow> NodeID \<Rightarrow> ContributionMetrics" where
  "metrics_at t n = opt_or ContributionMetrics_new (map_of (ct_metrics t) n)"

definition change_metrics :: "NodeID \<Rightarrow> (ContributionMetrics \<Rightarrow> ContributionMetrics) \<Rightarrow> ContributionTracker \<Rightarrow> ContributionTracker" where
  "change_metrics n f t = t\<lparr>ct_metrics := omap_set n (f (metrics_at t n)) (ct_metrics t)\<rparr>"

definition record_node_online :: "u64 \<Rightarrow> NodeID \<Rightarrow> ContributionTracker \<Rightarrow> ContributionTracker" where
  "record_node_online now n t = change_metrics n
     (\<lambda>m. m\<lparr>cm_first_seen := (if cm_first_seen m = 0 then now else cm_first_seen m), cm_last_seen := now\<rparr>)
     (t\<lparr>ct_online_status := omap_set n True (ct_online_status t), ct_online_since := omap_set n now (ct_online_since t)\<rparr>)"

definition update_uptime :: "NodeID \<Rightarrow> u64 \<Rightarrow> ContributionTracker \<Rightarrow> ContributionTracker" where
  "update_uptime n seconds = change_metrics n (\<lambda>m. m\<lparr>cm_total_uptime := cm_total_uptime m + seconds\<rparr>)"

definition record_node_offline :: "u64 \<Rightarrow> NodeID \<Rightarrow> ContributionTracker \<Rightarrow> ContributionTracker" where
  "record_node_offline now n t =
     (let t = t\<lparr>ct_online_status := omap_set n False (ct_online_status t)\<rparr>;
          t = (case map_of (ct_online_since t) n of
                 None \<Rightarrow> t
               | Some since \<Rightarrow> (update_uptime n (now - since) t)\<lparr>ct_online_since := omap_erase n (ct_online_since t)\<rparr>)
      in change_metrics n (\<lambda>m. m\<lparr>cm_last_seen := now\<rparr>) t)"

definition record_bytes_routed :: "NodeID \<Rightarrow> u64 \<Rightarrow> ContributionTracker \<Rightarrow> ContributionTracker" where
  "record_bytes_routed n b = change_metrics n (\<lambda>m. m\<lparr>cm_bytes_routed := cm_bytes_routed m + b\<rparr>)"

definition record_traffic :: "NodeID \<Rightarrow> u64 \<Rightarrow> u64 \<Rightarrow> ContributionTracker \<Rightarrow> ContributionTracker" where
  "record_traffic n sent received = change_metrics n
     (\<lambda>m. m\<lparr>cm_bytes_sent := cm_bytes_sent m + sent, cm_bytes_received := cm_bytes_received m + received\<rparr>)"

definition record_thing_hosted :: "NodeID \<Rightarrow> u64 \<Rightarrow> ContributionTracker \<Rightarrow> ContributionTracker" where
  "record_thing_hosted n b = change_metrics n
     (\<lambda>m. m\<lparr>cm_things_hosted := cm_things_hosted m + 1, cm_storage_bytes := cm_storage_bytes m + b\<rparr>)"

definition record_thing_removed :: "NodeID \<Rightarrow> u64 \<Rightarrow> ContributionTracker \<Rightarrow> ContributionTracker" where
  "record_thing_removed n b = change_metrics n
     (\<lambda>m. m\<lparr>cm_things_hosted := (if cm_things_hosted m > 0 then cm_things_hosted m - 1 else cm_things_hosted m),
             cm_storage_bytes := (if cm_storage_bytes m \<ge> b then cm_storage_bytes m - b else cm_storage_bytes m)\<rparr>)"

definition update_routing_reliability :: "ContributionMetrics \<Rightarrow> ContributionMetrics" where
  "update_routing_reliability m =
     (let total = cm_successful_routes m + cm_failed_routes m in
      m\<lparr>cm_routing_reliability := (if total = 0 then Fin 1
          else f32_div (f32_of_int (uint (cm_successful_routes m))) (f32_of_int (uint total)))\<rparr>)"

definition record_successful_route :: "NodeID \<Rightarrow> ContributionTracker \<Rightarrow> ContributionTracker" where
  "record_successful_route n = change_metrics n
     (\<lambda>m. update_routing_reliability (m\<lparr>cm_successful_routes := cm_successful_routes m + 1\<rparr>))"

definition record_failed_route :: "NodeID \<Rightarrow> ContributionTracker \<Rightarrow> ContributionTracker" where
  "record_failed_route n = change_metrics n
     (\<lambda>m. update_routing_reliability (m\<lparr>cm_failed_routes := cm_failed_routes m + 1\<rparr>))"

definition record_epoch_witness :: "NodeID \<Rightarrow> u64 \<Rightarrow> ContributionTracker \<Rightarrow> ContributionTracker" where
  "record_epoch_witness n epoch = change_metrics n (\<lambda>m. m\<lparr>cm_epochs_witnessed := cm_epochs_witnessed m + 1\<rparr>)"

definition record_epoch_missed :: "NodeID \<Rightarrow> u64 \<Rightarrow> ContributionTracker \<Rightarrow> ContributionTracker" where
  "record_epoch_missed n epoch = change_metrics n (\<lambda>m. m\<lparr>cm_epochs_missed := cm_epochs_missed m + 1\<rparr>)"

definition get_metrics :: "u64 \<Rightarrow> ContributionTracker \<Rightarrow> NodeID \<Rightarrow> ContributionMetrics" where
  "get_metrics now t n =
     (case map_of (ct_metrics t) n of
        None \<Rightarrow> ContributionMetrics_new
      | Some m \<Rightarrow> (case map_of (ct_online_since t) n of
            None \<Rightarrow> m
          | Some since \<Rightarrow> m\<lparr>cm_total_uptime := cm_total_uptime m + (now - since)\<rparr>))"

definition get_active_contributors :: "u64 \<Rightarrow> ContributionTracker \<Rightarrow> NodeID list" where
  "get_active_contributors now t = map fst (filter (\<lambda>(n, m). now - cm_last_seen m \<le> 300) (ct_metrics t))"

definition reset_metrics :: "NodeID \<Rightarrow> ContributionTracker \<Rightarrow> ContributionTracker" where
  "reset_metrics n t = \<lparr>ct_metrics = omap_erase n (ct_metrics t), ct_online_status = omap_erase n (ct_online_status t),
     ct_online_since = omap_erase n (ct_online_since t)\<rparr>"

definition cleanup_inactive_nodes :: "u64 \<Rightarrow> u64 \<Rightarrow> ContributionTracker \<Rightarrow> ContributionTracker" where
  "cleanup_inactive_nodes now threshold t =
     fold reset_metrics (map fst (filter (\<lambda>(n, m). now - cm_last_seen m > threshold) (ct_metrics t))) t"

section \<open>Scores\<close>

definition f32_to_u32 :: "f32 \<Rightarrow> u32 option" where
  "f32_to_u32 x = map_option word_of_int (f32_to_int 0 (2 ^ 32 - 1) x)"

text \<open>An unsigned integer times a weight, cut off to an unsigned integer.\<close>

definition weighted :: "u32 \<Rightarrow> f32 \<Rightarrow> u32 option" where
  "weighted n w = f32_to_u32 (f32_mul (f32_of_int (uint n)) w)"

definition UPTIME_WEIGHT :: f32 where "UPTIME_WEIGHT = f32_of_rat (3 / 10)"
definition BANDWIDTH_WEIGHT :: f32 where "BANDWIDTH_WEIGHT = Fin (1 / 4)"
definition STORAGE_WEIGHT :: f32 where "STORAGE_WEIGHT = Fin (1 / 4)"
definition ROUTING_WEIGHT :: f32 where "ROUTING_WEIGHT = f32_of_rat (15 / 100)"
definition WITNESS_WEIGHT :: f32 where "WITNESS_WEIGHT = f32_of_rat (5 / 100)"

definition calculate_uptime_score :: "u64 \<Rightarrow> ContributionMetrics \<Rightarrow> u32 option" where
  "calculate_uptime_score now m = do {
     base_score \<leftarrow> f32_to_u32 (uptime_percentage now m);
     let longevity_bonus = min 100 (ucast ((cm_total_uptime m * 100) div 2592000) :: u32);
     weighted (base_score + longevity_bonus) UPTIME_WEIGHT }"

definition calculate_bandwidth_score :: "ContributionMetrics \<Rightarrow> u32 option" where
  "calculate_bandwidth_score m =
     (let score = ucast (cm_bytes_routed m div 1073741824) :: u32;
          score = (if score > 200 then 200 else score)
      in weighted score BANDWIDTH_WEIGHT)"

definition calculate_storage_score :: "ContributionMetrics \<Rightarrow> u32 option" where
  "calculate_storage_score m =
     (let thing_score = cm_things_hosted m * 10;
          storage_score = ucast (cm_storage_bytes m div 1073741824) :: u32;
          total = thing_score + storage_score;
          total = (if total > 200 then 200 else total)
      in weighted total STORAGE_WEIGHT)"

definition calculate_routing_score :: "ContributionMetrics \<Rightarrow> u32 option" where
  "calculate_routing_score m = do {
     let base_score = min 100 (cm_successful_routes m);
     adjusted \<leftarrow> weighted base_score (cm_routing_reliability m);
     weighted adjusted ROUTING_WEIGHT }"

definition calculate_witness_score :: "ContributionMetrics \<Rightarrow> u32 option" where
  "calculate_witness_score m =
     (let total = cm_epochs_witnessed m + cm_epochs_missed m in
      if total = 0 then Some 0
      else do {
        let rate = f32_div (f32_of_int (uint (cm_epochs_witnessed m))) (f32_of_int (uint total));
        score \<leftarrow> f32_to_u32 (f32_mul rate (Fin 100));
        weighted score WITNESS_WEIGHT })"

definition calculate_metrics_score :: "u64 \<Rightarrow> ContributionMetrics \<Rightarrow> ContributionScore option" where
  "calculate_metrics_score now m = do {
     u \<leftarrow> calculate_uptime_score now m;
     b \<leftarrow> calculate_bandwidth_score m;
     s \<leftarrow> calculate_storage_score m;
     r \<leftarrow> calculate_routing_score m;
     w \<leftarrow> calculate_witness_score m;
     Some (calculate_total \<lparr>cs_uptime = u, cs_bandwidth = b, cs_storage = s, cs_routing = r, cs_witness = w, cs_total = 0\<rparr>) }"

definition calculate_score :: "u64 \<Rightarrow> PoStakeEngine \<Rightarrow> NodeID \<Rightarrow> ContributionScore option" where
  "calculate_score now e n = calculate_metrics_score now (get_metrics now (pe_tracker e) n)"

section \<open>The engine\<close>

definition set_earning_rate :: "KeyType \<Rightarrow> KeyEarningRate \<Rightarrow> PoStakeEngine \<Rightarrow> PoStakeEngine" where
  "set_earning_rate kt rate e = e\<lparr>pe_rates := omap_set kt rate (pe_rates e)\<rparr>"

definition get_earning_rate :: "PoStakeEngine \<Rightarrow> KeyType \<Rightarrow> KeyEarningRate" where
  "get_earning_rate e kt = opt_or \<lparr>er_key_type = 0, er_points_per_key = 0, er_max_per_epoch = 0, er_min_score = 0\<rparr>
     (map_of (pe_rates e) kt)"

definition initialize_default_rates :: "PoStakeEngine \<Rightarrow> PoStakeEngine" where
  "initialize_default_rates e = e\<lparr>pe_rates :=
     omap_set NETWORK \<lparr>er_key_type = NETWORK, er_points_per_key = 400, er_max_per_epoch = 3, er_min_score = 150\<rparr>
      (omap_set ROUTING \<lparr>er_key_type = ROUTING, er_points_per_key = 300, er_max_per_epoch = 10, er_min_score = 100\<rparr>
       (omap_set SERVICE \<lparr>er_key_type = SERVICE, er_points_per_key = 500, er_max_per_epoch = 5, er_min_score = 200\<rparr>
         (pe_rates e)))\<rparr>"

definition PoStakeEngine_init :: PoStakeEngine where
  "PoStakeEngine_init = initialize_default_rates \<lparr>pe_tracker = ContributionTracker_init, pe_rates = [],
     pe_contributions = [], pe_rewards = []\<rparr>"

definition determine_key_type :: "ContributionScore \<Rightarrow> KeyType" where
  "determine_key_type s =
     (if cs_storage s > cs_bandwidth s \<and> cs_storage s > cs_routing s then SERVICE
      else if cs_bandwidth s > cs_storage s \<and> cs_bandwidth s > cs_routing s then ROUTING
      else NETWORK)"

definition calculate_key_count :: "PoStakeEngine \<Rightarrow> ContributionScore \<Rightarrow> KeyType \<Rightarrow> u32 option" where
  "calculate_key_count e s kt =
     (let rate = get_earning_rate e kt in
      if cs_total s < er_min_score rate then Some 0
      else if er_points_per_key rate = 0 then None
      else let keys = cs_total s div er_points_per_key rate
           in Some (if keys > er_max_per_epoch rate then er_max_per_epoch rate else keys))"

definition hash_contribution :: "(bytes \<Rightarrow> Hash256) \<Rightarrow> ContributionMetrics \<Rightarrow> Hash256" where
  "hash_contribution H m = H (le_bytes 8 (cm_total_uptime m) @ le_bytes 8 (cm_bytes_routed m)
     @ le_bytes 8 (cm_storage_bytes m) @ le_bytes 4 (cm_successful_routes m) @ le_bytes 4 (cm_epochs_witnessed m))"

fun rewards_for :: "(bytes \<Rightarrow> Hash256) \<Rightarrow> u64 \<Rightarrow> u64 \<Rightarrow> PoStakeEngine \<Rightarrow> NodeID list \<Rightarrow> PoStakeReward list option" where
  "rewards_for H now epoch e [] = Some []"
| "rewards_for H now epoch e (n # ns) = do {
     let m = get_metrics now (pe_tracker e) n;
     s \<leftarrow> calculate_metrics_score now m;
     let kt = determine_key_type s;
     k \<leftarrow> calculate_key_count e s kt;
     rest \<leftarrow> rewards_for H now epoch e ns;
     Some ((if k > 0 then [\<lparr>rw_node_id = n, rw_epoch = epoch, rw_key_type = kt, rw_key_count = k,
              rw_awarded_at = now, rw_proof_hash = hash_contribution H m\<rparr>] else []) @ rest) }"

definition calculate_epoch_rewards :: "(bytes \<Rightarrow> Hash256) \<Rightarrow> u64 \<Rightarrow> u64 \<Rightarrow> PoStakeEngine \<Rightarrow> PoStakeReward list option" where
  "calculate_epoch_rewards H now epoch e = rewards_for H now epoch e (get_active_contributors now (pe_tracker e))"

text \<open>\<open>award_keys\<close> only logs.\<close>

definition award_keys :: "PoStakeReward \<Rightarrow> PoStakeEngine \<Rightarrow> bool \<times> PoStakeEngine" where
  "award_keys r e = (True, e)"

definition process_epoch :: "(bytes \<Rightarrow> Hash256) \<Rightarrow> u64 \<Rightarrow> u64 \<Rightarrow> PoStakeEngine \<Rightarrow> PoStakeEngine option" where
  "process_epoch H now epoch e = do {
     rewards \<leftarrow> calculate_epoch_rewards H now epoch e;
     let e = fold (\<lambda>r e. snd (award_keys r e)) rewards e;
     Some (e\<lparr>pe_rewards := omap_set epoch rewards (pe_rewards e)\<rparr>) }"

definition get_epoch_contribution :: "PoStakeEngine \<Rightarrow> NodeID \<Rightarrow> u64 \<Rightarrow> EpochContribution option" where
  "get_epoch_contribution e n epoch =
     (case map_of (pe_contributions e) epoch of
        None \<Rightarrow> None | Some cs \<Rightarrow> List.find (\<lambda>c. ec_node_id c = n) cs)"

definition get_node_history :: "PoStakeEngine \<Rightarrow> NodeID \<Rightarrow> EpochContribution list" where
  "get_node_history e n = filter (\<lambda>c. ec_node_id c = n) (concat (map snd (pe_contributions e)))"

fun type_score :: "ContributionType \<Rightarrow> ContributionMetrics \<Rightarrow> u64" where
  "type_score UPTIME m = cm_total_uptime m"
| "type_score BANDWIDTH m = cm_bytes_routed m"
| "type_score STORAGE m = cm_storage_bytes m"
| "type_score ROUTING_QUALITY m = ucast (cm_successful_routes m)"
| "type_score EPOCH_WITNESS m = ucast (cm_epochs_witnessed m)"

definition get_top_contributors :: "((NodeID \<times> u64) list \<Rightarrow> (NodeID \<times> u64) list) \<Rightarrow> u64 \<Rightarrow> PoStakeEngine \<Rightarrow> ContributionType
    \<Rightarrow> u32 \<Rightarrow> NodeID list" where
  "get_top_contributors srt now e kind k =
     map fst (take (unat k) (srt (map (\<lambda>n. (n, type_score kind (get_metrics now (pe_tracker e) n)))
       (get_active_contributors now (pe_tracker e)))))"

definition get_total_keys_awarded :: "PoStakeEngine \<Rightarrow> u64 \<Rightarrow> u32" where
  "get_total_keys_awarded e epoch =
     (case map_of (pe_rewards e) epoch of None \<Rightarrow> 0 | Some rs \<Rightarrow> foldl (\<lambda>acc r. acc + rw_key_count r) 0 rs)"

fun sum_scores :: "u64 \<Rightarrow> PoStakeEngine \<Rightarrow> NodeID list \<Rightarrow> u64 \<Rightarrow> u64 option" where
  "sum_scores now e [] acc = Some acc"
| "sum_scores now e (n # ns) acc = do { s \<leftarrow> calculate_score now e n; sum_scores now e ns (acc + ucast (cs_total s)) }"

definition get_average_contribution_score :: "u64 \<Rightarrow> PoStakeEngine \<Rightarrow> u32 option" where
  "get_average_contribution_score now e =
     (let nodes = get_active_contributors now (pe_tracker e) in
      if nodes = [] then Some 0
      else map_option (\<lambda>acc. ucast (acc div word_of_nat (length nodes))) (sum_scores now e nodes 0))"

section \<open>Lemmas\<close>

subsection \<open>Bounds of the scores\<close>

lemma f32_of_rat_int_bound:
  assumes "0 \<le> x" "x \<le> of_int b" "b < 2 ^ 24"
  shows "\<exists>r. f32_of_rat x = Fin r \<and> 0 \<le> r \<and> r \<le> of_int b"
proof -
  have b: "0 \<le> b" using assms(1,2) by (metis of_int_0_le_iff order_trans)
  then have "\<bar>b\<bar> < 2 ^ 24" using assms(3) by simp
  then have "representable 23 (-126) (of_int b)" by (intro representable_int) auto
  moreover have "\<bar>of_int b :: rat\<bar> < of_int (2 ^ 24)" using \<open>\<bar>b\<bar> < 2 ^ 24\<close> by (metis of_int_abs of_int_less_iff)
  then have "\<bar>of_int b :: rat\<bar> < 2 ^ 128" by simp
  ultimately show ?thesis using assms by (intro f32_of_rat_between) auto
qed

lemma f32_to_u32_le:
  assumes "x = Fin r" "0 \<le> r" "r \<le> of_int b" "b < 2 ^ 24"
  shows "\<exists>v. f32_to_u32 x = Some v \<and> uint v \<le> b"
proof -
  have t: "0 \<le> rat_trunc r" "rat_trunc r \<le> b" using rat_trunc_bounds [of 0 r b] assms by auto
  then have "f32_to_u32 x = Some (word_of_int (rat_trunc r))"
    using assms by (simp add: f32_to_u32_def f32_to_int_def Let_def)
  moreover have "uint (word_of_int (rat_trunc r) :: u32) = rat_trunc r"
    using t assms(4) by (intro word_of_int_inverse) (auto simp: word_of_int_inverse)
  ultimately show ?thesis using t by auto
qed

lemma weighted_le:
  assumes "w = Fin r" "0 \<le> r" "r \<le> c" "uint n \<le> k" "k < 2 ^ 24" "of_int k * c \<le> of_int b" "b < 2 ^ 24"
  shows "\<exists>v. weighted n w = Some v \<and> uint v \<le> b"
proof -
  have n0: "0 \<le> rat_of_int (uint n)" by (simp only: of_int_0_le_iff uint_nonnegative)
  have nk: "rat_of_int (uint n) \<le> of_int k" using assms(4) by (simp only: of_int_le_iff)
  have "\<bar>uint n\<bar> < 2 ^ 24" using assms(4,5) by simp
  then have n: "f32_of_int (uint n) = Fin (of_int (uint n))" by (rule f32_of_int_small)
  have "0 \<le> of_int (uint n) * r" using n0 assms(2) by (rule mult_nonneg_nonneg)
  moreover have "of_int (uint n) * r \<le> of_int k * c" using n0 nk assms(2,3) by (intro mult_mono) auto
  then have "of_int (uint n) * r \<le> of_int b" using assms(6) by (rule order_trans)
  ultimately obtain q where "f32_of_rat (of_int (uint n) * r) = Fin q" "0 \<le> q" "q \<le> of_int b"
    using f32_of_rat_int_bound assms(7) by blast
  then show ?thesis unfolding weighted_def n assms(1) f32_mul.simps using assms(7) by (intro f32_to_u32_le)
qed

lemma f32_of_nonneg_int:
  assumes "0 \<le> a" "a < 2 ^ 64"
  shows "\<exists>r. f32_of_int a = Fin r \<and> r = fl_round 23 (-126) (of_int a)"
proof -
  have "representable 23 (-126) (2 powi 64)" by (rule representable_power) simp
  then have p: "representable 23 (-126) (2 ^ 64)" by (simp add: power_int_def)
  have "rat_of_int a \<le> 2 ^ 64" using assms(2) by (metis less_imp_le of_int_le_numeral_power_cancel_iff)
  then have "\<exists>r. f32_of_rat (of_int a) = Fin r \<and> 0 \<le> r \<and> r \<le> 2 ^ 64"
    using assms(1) p by (intro f32_of_rat_between) auto
  then show ?thesis by (auto simp: f32_of_int_def f32_of_rat_def Let_def split: if_splits)
qed

lemma f32_fraction:
  assumes "0 \<le> a" "a \<le> b" "0 < b" "b < 2 ^ 64"
  shows "unit_f32 (f32_div (f32_of_int a) (f32_of_int b))"
proof -
  have "a < 2 ^ 64" using assms(2,4) by linarith
  from f32_of_nonneg_int [OF assms(1) this] obtain x where x: "f32_of_int a = Fin x" "x = fl_round 23 (-126) (of_int a)" by blast
  from f32_of_nonneg_int [OF less_imp_le [OF assms(3)] assms(4)] obtain y where y: "f32_of_int b = Fin y" "y = fl_round 23 (-126) (of_int b)" by blast
  have x0: "0 \<le> x" using assms(1) by (simp add: x(2) fl_round_nonneg)
  have xy: "x \<le> y" unfolding x(2) y(2) using assms(2) by (intro fl_round_mono) simp
  have "fl_round 23 (-126) 1 \<le> y" unfolding y(2) using assms(3) by (intro fl_round_mono) simp
  then have y1: "1 \<le> y" using representable_0_1(2) by (simp add: representable_def)
  have "0 \<le> x / y" "x / y \<le> 1" using x0 xy y1 by (simp_all add: divide_le_eq)
  then show ?thesis using y1 by (simp add: x(1) y(1) unit_f32_of_rat)
qed

lemma weight_bounds:
  "\<exists>r. UPTIME_WEIGHT = Fin r \<and> 0 \<le> r \<and> r \<le> 5 / 16"
  "\<exists>r. ROUTING_WEIGHT = Fin r \<and> 0 \<le> r \<and> r \<le> 5 / 32"
  "\<exists>r. WITNESS_WEIGHT = Fin r \<and> 0 \<le> r \<and> r \<le> 1 / 16"
proof -
  have "representable 23 (-126) (of_int 5 * 2 powi (-4))" "representable 23 (-126) (of_int 5 * 2 powi (-5))"
       "representable 23 (-126) (of_int 1 * 2 powi (-4))"
    by (intro representable_scaled; simp)+
  then have r: "representable 23 (-126) (5 / 16)" "representable 23 (-126) (5 / 32)" "representable 23 (-126) (1 / 16)"
    by (simp_all add: power_int_minus field_simps)
  show "\<exists>r. UPTIME_WEIGHT = Fin r \<and> 0 \<le> r \<and> r \<le> 5 / 16"
    unfolding UPTIME_WEIGHT_def by (rule f32_of_rat_between) (simp_all add: r)
  show "\<exists>r. ROUTING_WEIGHT = Fin r \<and> 0 \<le> r \<and> r \<le> 5 / 32"
    unfolding ROUTING_WEIGHT_def by (rule f32_of_rat_between) (simp_all add: r)
  show "\<exists>r. WITNESS_WEIGHT = Fin r \<and> 0 \<le> r \<and> r \<le> 1 / 16"
    unfolding WITNESS_WEIGHT_def by (rule f32_of_rat_between) (simp_all add: r)
qed

lemma unit_times_100:
  assumes "unit_f32 x"
  shows "\<exists>v. f32_to_u32 (f32_mul x (Fin 100)) = Some v \<and> uint v \<le> 100"
proof -
  obtain r where r: "x = Fin r" "0 \<le> r" "r \<le> 1" using assms by (rule unit_f32_cases)
  have "0 \<le> r * 100" "r * 100 \<le> of_int 100" using r by simp_all
  then obtain q where "f32_of_rat (r * 100) = Fin q" "0 \<le> q" "q \<le> of_int 100"
    using f32_of_rat_int_bound [of "r * 100" 100] by auto
  then show ?thesis using f32_to_u32_le [of _ q 100] by (simp add: r(1))
qed

text \<open>What the metrics of an honest tracker satisfy: counters that did not overflow, no more uptime than time.\<close>

definition metrics_ok :: "u64 \<Rightarrow> ContributionMetrics \<Rightarrow> bool" where
  "metrics_ok now m \<longleftrightarrow> unit_f32 (cm_routing_reliability m) \<and>
     unat (cm_epochs_witnessed m) + unat (cm_epochs_missed m) < 2 ^ 32 \<and>
     (cm_first_seen m = 0 \<or> cm_total_uptime m \<le> now - cm_first_seen m)"

lemma uptime_percentage_le:
  assumes "metrics_ok now m"
  shows "\<exists>v. f32_to_u32 (uptime_percentage now m) = Some v \<and> uint v \<le> 100"
proof -
  let ?s = "now - cm_first_seen m"
  consider "cm_first_seen m = 0" | "cm_first_seen m \<noteq> 0" "?s = 0" | "cm_first_seen m \<noteq> 0" "?s \<noteq> 0" by blast
  then show ?thesis
  proof cases
    case 3
    have "uint (cm_total_uptime m) \<le> uint ?s" using assms 3 by (simp add: metrics_ok_def word_le_def)
    moreover have "0 < uint ?s" using 3(2) by (metis uint_0_iff uint_nonnegative order_le_less)
    moreover have "uint ?s < 2 ^ 64" using uint_bounded [of ?s] by simp
    ultimately have "unit_f32 (f32_div (f32_of_int (uint (cm_total_uptime m))) (f32_of_int (uint ?s)))"
      by (intro f32_fraction) simp_all
    from unit_times_100 [OF this] 3 show ?thesis by (simp add: uptime_percentage_def Let_def)
  qed (use f32_to_u32_le [of _ 0 100] f32_to_u32_le [of _ 100 100] in \<open>auto simp: uptime_percentage_def\<close>)
qed

lemma uint_add_small: "uint a \<le> x \<Longrightarrow> uint b \<le> y \<Longrightarrow> x + y < 2 ^ 32 \<Longrightarrow> uint (a + b :: u32) \<le> x + y"
  by (subst uint_add_lem [THEN iffD1]) auto

lemma uptime_score_le:
  assumes "metrics_ok now m"
  shows "\<exists>v. calculate_uptime_score now m = Some v \<and> uint v \<le> 63"
proof -
  obtain b where b: "f32_to_u32 (uptime_percentage now m) = Some b" "uint b \<le> 100" using uptime_percentage_le [OF assms] by blast
  let ?l = "min 100 (ucast ((cm_total_uptime m * 100) div 2592000) :: u32)"
  have "uint ?l \<le> 100" by (simp add: min_def word_le_def)
  from uint_add_small [OF b(2) this] have "uint (b + ?l) \<le> 200" by simp
  moreover obtain r where "UPTIME_WEIGHT = Fin r" "0 \<le> r" "r \<le> 5 / 16" using weight_bounds(1) by blast
  ultimately show ?thesis
    using weighted_le [of UPTIME_WEIGHT r "5 / 16" "b + ?l" 200 63] by (simp add: calculate_uptime_score_def b(1) Let_def)
qed

lemma bandwidth_score_le: "\<exists>v. calculate_bandwidth_score m = Some v \<and> uint v \<le> 50"
proof -
  let ?s = "ucast (cm_bytes_routed m div 1073741824) :: u32"
  have "uint (if ?s > 200 then 200 else ?s) \<le> 200" by (simp add: word_less_def not_less)
  then show ?thesis
    using weighted_le [of BANDWIDTH_WEIGHT "1 / 4" "1 / 4" _ 200 50]
    by (simp add: calculate_bandwidth_score_def BANDWIDTH_WEIGHT_def Let_def del: if_split cong: if_cong)
qed

lemma storage_score_le: "\<exists>v. calculate_storage_score m = Some v \<and> uint v \<le> 50"
proof -
  let ?s = "cm_things_hosted m * 10 + (ucast (cm_storage_bytes m div 1073741824) :: u32)"
  have "uint (if ?s > 200 then 200 else ?s) \<le> 200" by (simp add: word_less_def not_less)
  then show ?thesis
    using weighted_le [of STORAGE_WEIGHT "1 / 4" "1 / 4" _ 200 50]
    by (simp add: calculate_storage_score_def STORAGE_WEIGHT_def Let_def del: if_split cong: if_cong)
qed

lemma routing_score_le:
  assumes "metrics_ok now m"
  shows "\<exists>v. calculate_routing_score m = Some v \<and> uint v \<le> 16"
proof -
  obtain q where q: "cm_routing_reliability m = Fin q" "0 \<le> q" "q \<le> 1"
    using assms by (auto simp: metrics_ok_def elim: unit_f32_cases)
  have "uint (min 100 (cm_successful_routes m)) \<le> 100" by (simp add: min_def word_le_def)
  then obtain a where a: "weighted (min 100 (cm_successful_routes m)) (cm_routing_reliability m) = Some a" "uint a \<le> 100"
    using weighted_le [of _ q 1 "min 100 (cm_successful_routes m)" 100 100] q by auto
  obtain r where "ROUTING_WEIGHT = Fin r" "0 \<le> r" "r \<le> 5 / 32" using weight_bounds(2) by blast
  then show ?thesis
    using weighted_le [of ROUTING_WEIGHT r "5 / 32" a 100 16] a by (simp add: calculate_routing_score_def Let_def)
qed

lemma witness_score_le:
  assumes "metrics_ok now m"
  shows "\<exists>v. calculate_witness_score m = Some v \<and> uint v \<le> 7"
proof (cases "cm_epochs_witnessed m + cm_epochs_missed m = 0")
  case False
  let ?w = "cm_epochs_witnessed m" and ?t = "cm_epochs_witnessed m + cm_epochs_missed m"
  have t: "unat ?t = unat ?w + unat (cm_epochs_missed m)"
    using assms by (intro unat_add_lem [THEN iffD1]) (simp add: metrics_ok_def)
  have "uint ?w \<le> uint ?t" unfolding uint_nat t by simp
  moreover have "0 < uint ?t" using False by (metis uint_0_iff uint_nonnegative order_le_less)
  moreover have "uint ?t < 2 ^ 64" using uint_bounded [of ?t] by simp
  ultimately have "unit_f32 (f32_div (f32_of_int (uint ?w)) (f32_of_int (uint ?t)))" by (intro f32_fraction) simp_all
  then obtain s where s: "f32_to_u32 (f32_mul (f32_div (f32_of_int (uint ?w)) (f32_of_int (uint ?t))) (Fin 100)) = Some s" "uint s \<le> 100"
    using unit_times_100 by blast
  obtain r where "WITNESS_WEIGHT = Fin r" "0 \<le> r" "r \<le> 1 / 16" using weight_bounds(3) by blast
  then show ?thesis
    using weighted_le [of WITNESS_WEIGHT r "1 / 16" s 100 7] s False by (simp add: calculate_witness_score_def Let_def)
qed (simp add: calculate_witness_score_def)

lemma score_le:
  assumes "metrics_ok now m"
  shows "\<exists>s. calculate_metrics_score now m = Some s \<and> uint (cs_total s) \<le> 186"
proof -
  obtain u b st r w where p: "calculate_uptime_score now m = Some u" "uint u \<le> 63"
    "calculate_bandwidth_score m = Some b" "uint b \<le> 50" "calculate_storage_score m = Some st" "uint st \<le> 50"
    "calculate_routing_score m = Some r" "uint r \<le> 16" "calculate_witness_score m = Some w" "uint w \<le> 7"
    using uptime_score_le [OF assms] bandwidth_score_le [of m] storage_score_le [of m] routing_score_le [OF assms]
      witness_score_le [OF assms] by blast
  have 1: "uint (u + b) \<le> 63 + 50" by (rule uint_add_small [OF p(2,4)]) simp
  have 2: "uint (u + b + st) \<le> 63 + 50 + 50" by (rule uint_add_small [OF 1 p(6)]) simp
  have 3: "uint (u + b + st + r) \<le> 63 + 50 + 50 + 16" by (rule uint_add_small [OF 2 p(8)]) simp
  have "uint (u + b + st + r + w) \<le> 63 + 50 + 50 + 16 + 7" by (rule uint_add_small [OF 3 p(10)]) simp
  then show ?thesis by (simp add: calculate_metrics_score_def p calculate_total_def)
qed

subsection \<open>An honest tracker\<close>

text \<open>
  The operations at the times they happen. \<open>update_uptime\<close> is only called by \<open>record_node_offline\<close>.
\<close>

datatype tracker_op =
    Online NodeID
  | Offline NodeID
  | BytesRouted NodeID u64
  | Traffic NodeID u64 u64
  | ThingHosted NodeID u64
  | ThingRemoved NodeID u64
  | RouteOk NodeID
  | RouteFailed NodeID
  | EpochWitness NodeID u64
  | EpochMissed NodeID u64
  | ResetMetrics NodeID
  | CleanupInactive u64

fun tracker_step :: "ContributionTracker \<Rightarrow> u64 \<times> tracker_op \<Rightarrow> ContributionTracker" where
  "tracker_step t (now, Online n) = record_node_online now n t"
| "tracker_step t (now, Offline n) = record_node_offline now n t"
| "tracker_step t (now, BytesRouted n b) = record_bytes_routed n b t"
| "tracker_step t (now, Traffic n s r) = record_traffic n s r t"
| "tracker_step t (now, ThingHosted n b) = record_thing_hosted n b t"
| "tracker_step t (now, ThingRemoved n b) = record_thing_removed n b t"
| "tracker_step t (now, RouteOk n) = record_successful_route n t"
| "tracker_step t (now, RouteFailed n) = record_failed_route n t"
| "tracker_step t (now, EpochWitness n e) = record_epoch_witness n e t"
| "tracker_step t (now, EpochMissed n e) = record_epoch_missed n e t"
| "tracker_step t (now, ResetMetrics n) = reset_metrics n t"
| "tracker_step t (now, CleanupInactive threshold) = cleanup_inactive_nodes now threshold t"

text \<open>
  After \<open>k\<close> operations, the last at time \<open>now\<close>: what a node was online, with its running session, fits
  between the time it was first seen and now.
\<close>

definition session_ok :: "u64 \<Rightarrow> ContributionMetrics \<Rightarrow> u64 option \<Rightarrow> bool" where
  "session_ok now m since \<longleftrightarrow> (if cm_first_seen m = 0 then cm_total_uptime m = 0 \<and> since = None
     else cm_first_seen m \<le> now \<and> (case since of
       None \<Rightarrow> cm_total_uptime m \<le> now - cm_first_seen m
     | Some s \<Rightarrow> cm_first_seen m \<le> s \<and> s \<le> now \<and> cm_total_uptime m \<le> s - cm_first_seen m))"

definition counters_ok :: "nat \<Rightarrow> ContributionMetrics \<Rightarrow> bool" where
  "counters_ok k m \<longleftrightarrow> unit_f32 (cm_routing_reliability m) \<and>
     unat (cm_successful_routes m) + unat (cm_failed_routes m) \<le> k \<and>
     unat (cm_epochs_witnessed m) + unat (cm_epochs_missed m) \<le> k"

definition tracker_inv :: "nat \<Rightarrow> u64 \<Rightarrow> ContributionTracker \<Rightarrow> bool" where
  "tracker_inv k now t \<longleftrightarrow>
     (\<forall>n. counters_ok k (metrics_at t n) \<and> session_ok now (metrics_at t n) (map_of (ct_online_since t) n))"

lemma word_minus_mono: "c \<le> (a :: u64) \<Longrightarrow> a \<le> b \<Longrightarrow> a - c \<le> b - c"
  by (simp add: word_le_nat_alt unat_sub)

lemma session_ok_later: "session_ok now m s \<Longrightarrow> now \<le> later \<Longrightarrow> session_ok later m s"
  by (auto simp: session_ok_def split: if_splits option.splits intro: order_trans word_minus_mono)

lemma session_total:
  assumes "session_ok now m (Some s)" "now \<le> later"
  shows "cm_total_uptime m + (later - s) \<le> later - cm_first_seen m"
proof -
  have a: "cm_first_seen m \<le> s" "s \<le> later" "cm_total_uptime m \<le> s - cm_first_seen m"
    using assms by (auto simp: session_ok_def split: if_splits)
  then have u: "unat (s - cm_first_seen m) = unat s - unat (cm_first_seen m)" "unat (later - s) = unat later - unat s"
    "unat (later - cm_first_seen m) = unat later - unat (cm_first_seen m)"
    by (auto simp: unat_sub intro: order_trans)
  have "unat (cm_total_uptime m) + unat (later - s) \<le> unat (later - cm_first_seen m)"
    using a u by (simp add: word_le_nat_alt)
  moreover from this have "unat (cm_total_uptime m + (later - s)) = unat (cm_total_uptime m) + unat (later - s)"
    by (intro unat_add_lem [THEN iffD1]) (rule le_less_trans [OF _ unsigned_less])
  ultimately show ?thesis by (simp add: word_le_nat_alt)
qed

lemma reliability_updated:
  "unat (cm_successful_routes m) + unat (cm_failed_routes m) < 2 ^ 32 \<Longrightarrow> unit_f32 (cm_routing_reliability (update_routing_reliability m))"
proof (cases "cm_successful_routes m + cm_failed_routes m = 0")
  case False
  assume "unat (cm_successful_routes m) + unat (cm_failed_routes m) < 2 ^ 32"
  then have t: "unat (cm_successful_routes m + cm_failed_routes m) = unat (cm_successful_routes m) + unat (cm_failed_routes m)"
    by (intro unat_add_lem [THEN iffD1]) simp
  have "uint (cm_successful_routes m) \<le> uint (cm_successful_routes m + cm_failed_routes m)" unfolding uint_nat t by simp
  moreover have "0 < uint (cm_successful_routes m + cm_failed_routes m)" using False by (metis uint_0_iff uint_nonnegative order_le_less)
  moreover have "uint (cm_successful_routes m + cm_failed_routes m) < 2 ^ 64"
    using uint_bounded [of "cm_successful_routes m + cm_failed_routes m"] by simp
  ultimately have "unit_f32 (f32_div (f32_of_int (uint (cm_successful_routes m))) (f32_of_int (uint (cm_successful_routes m + cm_failed_routes m))))"
    by (intro f32_fraction) simp_all
  with False show ?thesis by (simp add: update_routing_reliability_def Let_def)
qed (simp add: update_routing_reliability_def Let_def)

lemma unat_inc: "unat (x :: u32) \<le> k \<Longrightarrow> k < 2 ^ 32 - 1 \<Longrightarrow> unat (x + 1) = unat x + 1"
  by (subst unat_add_lem [THEN iffD1]) auto

lemma metrics_at_change [simp]:
  "metrics_at (change_metrics n f t) k = (if k = n then f (metrics_at t n) else metrics_at t k)"
  by (simp add: metrics_at_def change_metrics_def)

lemma online_since_change [simp]: "ct_online_since (change_metrics n f t) = ct_online_since t"
  by (simp add: change_metrics_def)

lemma counters_ok_later: "counters_ok k m \<Longrightarrow> counters_ok (Suc k) m"
  by (simp add: counters_ok_def)

lemma session_ok_same:
  "cm_first_seen m' = cm_first_seen m \<Longrightarrow> cm_total_uptime m' = cm_total_uptime m \<Longrightarrow> session_ok now m' s = session_ok now m s"
  by (cases s) (simp_all add: session_ok_def)

lemma tracker_inv_change:
  assumes "tracker_inv k now t" "now \<le> later" "\<And>m. counters_ok k m \<Longrightarrow> counters_ok (Suc k) (f m)"
    and "\<And>m. cm_first_seen (f m) = cm_first_seen m" "\<And>m. cm_total_uptime (f m) = cm_total_uptime m"
  shows "tracker_inv (Suc k) later (change_metrics n f t)"
proof -
  have all: "counters_ok (Suc k) (metrics_at t j)" "counters_ok (Suc k) (f (metrics_at t j))"
    "session_ok later (metrics_at t j) (map_of (ct_online_since t) j)" for j
    using assms(1-3) counters_ok_later session_ok_later unfolding tracker_inv_def by blast+
  moreover have "session_ok later (f (metrics_at t n)) s = session_ok later (metrics_at t n) s" for s
    by (rule session_ok_same) (simp_all add: assms(4,5))
  ultimately show ?thesis unfolding tracker_inv_def by simp
qed

lemma counters_ok_uptime [simp]:
  "counters_ok k (m\<lparr>cm_total_uptime := u\<rparr>) = counters_ok k m" "counters_ok k (m\<lparr>cm_last_seen := u\<rparr>) = counters_ok k m"
  "counters_ok k (m\<lparr>cm_first_seen := u\<rparr>) = counters_ok k m"
  by (simp_all add: counters_ok_def)

lemma session_ok_seen [simp]: "session_ok now (m\<lparr>cm_last_seen := u\<rparr>) s = session_ok now m s"
  by (rule session_ok_same) simp_all

lemma tracker_inv_online:
  assumes "tracker_inv k now t" "now \<le> later" "0 < later"
  shows "tracker_inv (Suc k) later (record_node_online later n t)"
proof -
  let ?m = "metrics_at t n"
  have s: "session_ok now ?m (map_of (ct_online_since t) n)" using assms(1) by (simp add: tracker_inv_def)
  have all: "counters_ok (Suc k) (metrics_at t j)" "session_ok later (metrics_at t j) (map_of (ct_online_since t) j)" for j
    using assms(1,2) counters_ok_later session_ok_later unfolding tracker_inv_def by blast+
  have "cm_total_uptime ?m \<le> later - cm_first_seen ?m" if "cm_first_seen ?m \<noteq> 0"
  proof (cases "map_of (ct_online_since t) n")
    case None
    then show ?thesis using all(2) [of n] that by (simp add: session_ok_def)
  next
    case (Some since)
    then have "cm_first_seen ?m \<le> since" "since \<le> later" "cm_total_uptime ?m \<le> since - cm_first_seen ?m"
      using all(2) [of n] that by (simp_all add: session_ok_def)
    then show ?thesis using word_minus_mono order_trans by blast
  qed
  then have "session_ok later (?m\<lparr>cm_first_seen := (if cm_first_seen ?m = 0 then later else cm_first_seen ?m)\<rparr>) (Some later)"
    using assms(3) all(2) [of n] by (simp add: session_ok_def split: if_splits)
  moreover have "metrics_at (t\<lparr>ct_online_status := x, ct_online_since := y\<rparr>) j = metrics_at t j" for x y j
    by (simp add: metrics_at_def)
  ultimately show ?thesis
    using all by (auto simp: tracker_inv_def record_node_online_def)
qed

lemma tracker_inv_offline:
  assumes "tracker_inv k now t" "now \<le> later"
  shows "tracker_inv (Suc k) later (record_node_offline later n t)"
proof -
  let ?m = "metrics_at t n"
  have s: "session_ok now ?m (map_of (ct_online_since t) n)" using assms(1) by (simp add: tracker_inv_def)
  have all: "counters_ok (Suc k) (metrics_at t j)" "session_ok later (metrics_at t j) (map_of (ct_online_since t) j)" for j
    using assms(1,2) counters_ok_later session_ok_later unfolding tracker_inv_def by blast+
  have at [simp]: "metrics_at (t\<lparr>ct_online_status := x, ct_online_since := y\<rparr>) j = metrics_at t j"
    "metrics_at (t\<lparr>ct_online_status := x\<rparr>) j = metrics_at t j" "metrics_at (u\<lparr>ct_online_since := y\<rparr>) j = metrics_at u j" for x y j u
    by (simp_all add: metrics_at_def)
  show ?thesis
  proof (cases "map_of (ct_online_since t) n")
    case None
    then show ?thesis
      using all all(2) [of n] by (auto simp: tracker_inv_def record_node_offline_def Let_def)
  next
    case (Some since)
    have "session_ok later (?m\<lparr>cm_total_uptime := cm_total_uptime ?m + (later - since)\<rparr>) None"
      using session_total [OF _ assms(2), of ?m since] s session_ok_later [OF s assms(2)] Some
      by (auto simp: session_ok_def split: if_splits)
    with Some all show ?thesis
      by (auto simp: tracker_inv_def record_node_offline_def update_uptime_def Let_def)
  qed
qed

lemma fresh_ok [simp]: "counters_ok k ContributionMetrics_new" "session_ok now ContributionMetrics_new None"
  by (simp_all add: counters_ok_def session_ok_def ContributionMetrics_new_def)

lemma tracker_inv_reset: "tracker_inv k now t \<Longrightarrow> tracker_inv k now (reset_metrics n t)"
  by (auto simp: tracker_inv_def reset_metrics_def metrics_at_def)

lemma tracker_inv_later: "tracker_inv k now t \<Longrightarrow> now \<le> later \<Longrightarrow> tracker_inv (Suc k) later t"
  unfolding tracker_inv_def using counters_ok_later session_ok_later by blast

lemma tracker_inv_reset_all: "tracker_inv k now t \<Longrightarrow> tracker_inv k now (fold reset_metrics ns t)"
  by (induction ns arbitrary: t) (simp_all add: tracker_inv_reset)

lemma counters_ok_route:
  assumes "counters_ok k m" "k < 2 ^ 32 - 1"
  shows "counters_ok (Suc k) (update_routing_reliability (m\<lparr>cm_successful_routes := cm_successful_routes m + 1\<rparr>))"
    and "counters_ok (Suc k) (update_routing_reliability (m\<lparr>cm_failed_routes := cm_failed_routes m + 1\<rparr>))"
proof -
  have u: "unat (cm_successful_routes m + 1) = unat (cm_successful_routes m) + 1" "unat (cm_failed_routes m + 1) = unat (cm_failed_routes m) + 1"
    by (rule unat_inc [OF _ assms(2)], use assms(1) in \<open>simp add: counters_ok_def\<close>)+
  have r: "cm_successful_routes (update_routing_reliability x) = cm_successful_routes x" "cm_failed_routes (update_routing_reliability x) = cm_failed_routes x"
    "cm_epochs_witnessed (update_routing_reliability x) = cm_epochs_witnessed x" "cm_epochs_missed (update_routing_reliability x) = cm_epochs_missed x" for x
    by (simp_all add: update_routing_reliability_def Let_def)
  show "counters_ok (Suc k) (update_routing_reliability (m\<lparr>cm_successful_routes := cm_successful_routes m + 1\<rparr>))"
    "counters_ok (Suc k) (update_routing_reliability (m\<lparr>cm_failed_routes := cm_failed_routes m + 1\<rparr>))"
    using assms unfolding counters_ok_def r by (auto simp: u intro!: reliability_updated)
qed

lemma counters_ok_epoch:
  assumes "counters_ok k m" "k < 2 ^ 32 - 1"
  shows "counters_ok (Suc k) (m\<lparr>cm_epochs_witnessed := cm_epochs_witnessed m + 1\<rparr>)"
    and "counters_ok (Suc k) (m\<lparr>cm_epochs_missed := cm_epochs_missed m + 1\<rparr>)"
proof -
  have "unat (cm_epochs_witnessed m + 1) = unat (cm_epochs_witnessed m) + 1" "unat (cm_epochs_missed m + 1) = unat (cm_epochs_missed m) + 1"
    by (rule unat_inc [OF _ assms(2)], use assms(1) in \<open>simp add: counters_ok_def\<close>)+
  then show "counters_ok (Suc k) (m\<lparr>cm_epochs_witnessed := cm_epochs_witnessed m + 1\<rparr>)"
    "counters_ok (Suc k) (m\<lparr>cm_epochs_missed := cm_epochs_missed m + 1\<rparr>)"
    using assms by (auto simp: counters_ok_def)
qed

lemmas tracker_change_defs = record_bytes_routed_def record_traffic_def record_thing_hosted_def
  record_thing_removed_def record_successful_route_def record_failed_route_def record_epoch_witness_def record_epoch_missed_def

lemma session_fields [simp]:
  "cm_first_seen (update_routing_reliability m) = cm_first_seen m" "cm_total_uptime (update_routing_reliability m) = cm_total_uptime m"
  by (simp_all add: update_routing_reliability_def Let_def)

lemma counters_ok_other:
  "counters_ok k m \<Longrightarrow> counters_ok (Suc k) (m\<lparr>cm_bytes_routed := a\<rparr>)"
  "counters_ok k m \<Longrightarrow> counters_ok (Suc k) (m\<lparr>cm_bytes_sent := a, cm_bytes_received := b\<rparr>)"
  "counters_ok k m \<Longrightarrow> counters_ok (Suc k) (m\<lparr>cm_things_hosted := c, cm_storage_bytes := b\<rparr>)"
  by (simp_all add: counters_ok_def)

lemma tracker_inv_step:
  assumes "tracker_inv k now t" "now \<le> later" "0 < later" "k < 2 ^ 32 - 1"
  shows "tracker_inv (Suc k) later (tracker_step t (later, x))"
proof (cases x)
  case (ResetMetrics n)
  then show ?thesis using tracker_inv_reset [OF tracker_inv_later [OF assms(1,2)]] by simp
next
  case (CleanupInactive threshold)
  then show ?thesis using tracker_inv_reset_all [OF tracker_inv_later [OF assms(1,2)]] by (simp add: cleanup_inactive_nodes_def)
next
  case (Online n)
  then show ?thesis using assms by (simp add: tracker_inv_online)
next
  case (Offline n)
  then show ?thesis using assms by (simp add: tracker_inv_offline)
qed (simp only: tracker_step.simps tracker_change_defs, rule tracker_inv_change [OF assms(1,2)],
     simp_all only: counters_ok_other counters_ok_route [OF _ assms(4)] counters_ok_epoch [OF _ assms(4)], simp_all)+

lemma tracker_inv_run:
  "tracker_inv k now t \<Longrightarrow> sorted (map fst ops) \<Longrightarrow> (\<forall>(s, x)\<in>set ops. now \<le> s \<and> 0 < s \<and> s \<le> later) \<Longrightarrow>
     k + length ops < 2 ^ 32 - 1 \<Longrightarrow> now \<le> later \<Longrightarrow>
     tracker_inv (k + length ops) later (foldl tracker_step t ops)"
proof (induction ops arbitrary: k now t)
  case Nil
  then show ?case unfolding tracker_inv_def using session_ok_later by (simp, blast)
next
  case (Cons x ops)
  obtain s y where x: "x = (s, y)" by force
  have "tracker_inv (Suc k) s (tracker_step t x)"
    using tracker_inv_step [of k now t s y] Cons.prems by (auto simp: x)
  then have "tracker_inv (Suc k + length ops) later (foldl tracker_step (tracker_step t x) ops)"
    by (rule Cons.IH) (use Cons.prems in \<open>auto simp: x\<close>)
  then show ?case by simp
qed

lemma get_metrics_ok:
  assumes "tracker_inv k now t" "k < 2 ^ 32 - 1"
  shows "metrics_ok now (get_metrics now t n)"
proof (cases "map_of (ct_metrics t) n")
  case None
  then show ?thesis by (simp add: get_metrics_def metrics_ok_def ContributionMetrics_new_def)
next
  case (Some m)
  then have at: "metrics_at t n = m" by (simp add: metrics_at_def)
  have inv: "counters_ok k m" "session_ok now m (map_of (ct_online_since t) n)"
    using assms(1) at by (auto simp: tracker_inv_def)
  show ?thesis
  proof (cases "map_of (ct_online_since t) n")
    case None
    then show ?thesis using inv assms(2) Some by (auto simp: get_metrics_def metrics_ok_def counters_ok_def session_ok_def split: if_splits)
  next
    case (Some since)
    with inv session_total [of now m since now] assms(2) \<open>map_of (ct_metrics t) n = Some m\<close> show ?thesis
      by (auto simp: get_metrics_def metrics_ok_def counters_ok_def)
  qed
qed

lemma default_rates:
  "pe_rates e = pe_rates PoStakeEngine_init \<Longrightarrow> kt \<in> {SERVICE, ROUTING, NETWORK} \<Longrightarrow>
     er_points_per_key (get_earning_rate e kt) \<ge> 300 \<and> er_points_per_key (get_earning_rate e kt) \<noteq> 0"
  by (auto simp: PoStakeEngine_init_def initialize_default_rates_def get_earning_rate_def)

lemma no_key_for_low_score:
  assumes "pe_rates e = pe_rates PoStakeEngine_init" "uint (cs_total s) \<le> 186"
  shows "calculate_key_count e s (determine_key_type s) = Some 0"
proof -
  let ?r = "get_earning_rate e (determine_key_type s)"
  have r: "er_points_per_key ?r \<ge> 300" "er_points_per_key ?r \<noteq> 0"
    using default_rates [OF assms(1), of "determine_key_type s"] by (auto simp: determine_key_type_def split: if_splits)
  have "uint (er_points_per_key ?r) \<ge> 300" using r(1) by (simp add: word_le_def)
  then have "unat (cs_total s) < unat (er_points_per_key ?r)" 
    using assms(2) unfolding uint_nat [of "cs_total s"] uint_nat [of "er_points_per_key ?r"] by linarith
  then have "unat (cs_total s div er_points_per_key ?r) = 0" by (simp add: unat_div)
  then have "cs_total s div er_points_per_key ?r = 0" by (simp add: unat_eq_zero)
  then show ?thesis using r(2) by (simp add: calculate_key_count_def Let_def)
qed

lemma no_rewards:
  assumes "pe_rates e = pe_rates PoStakeEngine_init" "\<And>n. metrics_ok now (get_metrics now (pe_tracker e) n)"
  shows "rewards_for H now epoch e ns = Some []"
proof (induction ns)
  case (Cons n ns)
  obtain s where s: "calculate_metrics_score now (get_metrics now (pe_tracker e) n) = Some s" "uint (cs_total s) \<le> 186"
    using score_le [OF assms(2)] by blast
  then show ?case using Cons no_key_for_low_score [OF assms(1) s(2)] by (simp add: Let_def)
qed simp

section \<open>Properties\<close>

text \<open>
  with the default rates nobody ever earns a key: however the tracker was used, as long as the clock
  does not run backwards and no counter overflows, the score of every node is at most 186 points, and a
  key costs at least 300, so that the rewards of every epoch are computed and are empty.
\<close>

theorem no_keys_from_contributions:
  assumes "sorted (map fst ops)" "\<forall>(t, x)\<in>set ops. 0 < t \<and> t \<le> now" "length ops < 2 ^ 32 - 1"
    and "pe_tracker e = foldl tracker_step ContributionTracker_init ops" "pe_rates e = pe_rates PoStakeEngine_init"
  shows "calculate_epoch_rewards H now epoch e = Some [] \<and>
    (\<exists>s. calculate_score now e n = Some s \<and> cs_total s \<le> 186)"
proof -
  have init: "tracker_inv 0 0 ContributionTracker_init"
    by (simp add: tracker_inv_def ContributionTracker_init_def metrics_at_def)
  have "tracker_inv (0 + length ops) now (foldl tracker_step ContributionTracker_init ops)"
    by (rule tracker_inv_run [OF init assms(1)]) (use assms(2,3) in auto)
  then have inv: "tracker_inv (length ops) now (pe_tracker e)" by (simp add: assms(4))
  have ok: "metrics_ok now (get_metrics now (pe_tracker e) k)" for k by (rule get_metrics_ok [OF inv assms(3)])
  then show ?thesis
    using no_rewards [OF assms(5) ok] score_le [OF ok, of n]
    by (auto simp: calculate_epoch_rewards_def calculate_score_def word_le_def)
qed

theorem no_keys_from_contributions_witness:
  "calculate_epoch_rewards (\<lambda>_. []) 100 7 (PoStakeEngine_init\<lparr>pe_tracker :=
     foldl tracker_step ContributionTracker_init [(10, Online (NodeID [1])), (20, RouteOk (NodeID [1])), (90, Offline (NodeID [1]))]\<rparr>) = Some []"
  by (rule no_keys_from_contributions [of "[(10, Online (NodeID [1])), (20, RouteOk (NodeID [1])), (90, Offline (NodeID [1]))]",
        THEN conjunct1]) simp_all

text \<open>
  the keys for a score follow the rate of its type: none below the minimum score, and otherwise one
  per points required, up to the maximum of an epoch.
\<close>

theorem key_count_exact:
  assumes "er_points_per_key (get_earning_rate e kt) \<noteq> 0"
  shows "\<exists>k. calculate_key_count e s kt = Some k \<and> unat k =
    (if cs_total s < er_min_score (get_earning_rate e kt) then 0
     else min (unat (cs_total s) div unat (er_points_per_key (get_earning_rate e kt))) (unat (er_max_per_epoch (get_earning_rate e kt))))"
  using assms by (auto simp: calculate_key_count_def Let_def unat_div word_less_nat_alt min_def)

theorem key_count_exact_witness:
  "\<exists>k. calculate_key_count PoStakeEngine_init \<lparr>cs_uptime = 0, cs_bandwidth = 0, cs_storage = 0, cs_routing = 0, cs_witness = 0,
     cs_total = 1000\<rparr> SERVICE = Some k \<and> unat k = 2"
  using key_count_exact [of PoStakeEngine_init SERVICE "\<lparr>cs_uptime = 0, cs_bandwidth = 0, cs_storage = 0, cs_routing = 0,
      cs_witness = 0, cs_total = 1000\<rparr>"]
  by (simp add: PoStakeEngine_init_def initialize_default_rates_def get_earning_rate_def)

text \<open>Epoch contributions are never recorded.\<close>

theorem epoch_contributions_empty:
  "process_epoch H now epoch e = Some e' \<Longrightarrow> get_epoch_contribution e' n ep = get_epoch_contribution e n ep"
proof -
  have "fold (\<lambda>r e. snd (award_keys r e)) rs e = e" for rs by (induction rs) (simp_all add: award_keys_def)
  then show "process_epoch H now epoch e = Some e' \<Longrightarrow> ?thesis"
    by (auto simp: process_epoch_def get_epoch_contribution_def Option.bind_eq_Some_conv Let_def)
qed

end
