(* ===== verification/Hybrid.thy ===== *)
theory Hybrid
  imports Postake Pow
begin

unbundle bit_operations_syntax

text \<open>
  \<open>src/core/postake/hybrid_coordinator.cpp\<close>: issuing keys for proof of work, for contributions, or for both.

  The engine of contributions is an argument. \<open>now\<close> is the clock in seconds, for epochs and scores;
  \<open>tick\<close> is \<open>time_since_epoch().count()\<close>, the clock in its own unit, which the coordinator stores. A
  conversion of a \<open>float\<close> that does not fit has no result, nor has a score that has none.
\<close>

section \<open>Data\<close>

datatype KeyIssuanceMethod = POW_ONLY | POSTAKE_ONLY | HYBRID

fun method_byte :: "KeyIssuanceMethod \<Rightarrow> u8" where
  "method_byte POW_ONLY = 0"
| "method_byte POSTAKE_ONLY = 1"
| "method_byte HYBRID = 2"

record HybridIssuanceRecord =
  hr_node_id :: NodeID
  hr_method :: KeyIssuanceMethod
  hr_pow :: "PowSolution option"
  hr_score :: "ContributionScore option"
  hr_key_type :: KeyType
  hr_key_count :: u32
  hr_issued_at :: u64
  hr_epoch :: u64
  hr_hash :: Hash256

record HybridPolicy =
  hp_require_pow :: bool
  hp_new_node_keys :: u32
  hp_allow_postake :: bool
  hp_min_score :: u32
  hp_bonus :: bool
  hp_multiplier :: f32
  hp_pow_weight :: f32
  hp_postake_weight :: f32
  hp_max_keys :: u32
  hp_min_seconds :: u64

definition HybridPolicy_default :: HybridPolicy where
  "HybridPolicy_default = \<lparr>hp_require_pow = True, hp_new_node_keys = 5, hp_allow_postake = True, hp_min_score = 100,
     hp_bonus = True, hp_multiplier = Fin (3 / 2), hp_pow_weight = f32_of_rat (4 / 10), hp_postake_weight = f32_of_rat (6 / 10),
     hp_max_keys = 10, hp_min_seconds = 60\<rparr>"

definition policy_is_valid :: "HybridPolicy \<Rightarrow> bool" where
  "policy_is_valid p \<longleftrightarrow> f32_add (hp_pow_weight p) (hp_postake_weight p) = Fin 1"

record HybridCoordinator =
  hc_policy :: HybridPolicy
  hc_history :: "(NodeID \<times> HybridIssuanceRecord list) list"
  hc_last :: "(NodeID \<times> u64) list"
  hc_counts :: "((NodeID \<times> u64) \<times> u32) list"
  hc_total :: u64
  hc_pow :: u64
  hc_postake :: u64
  hc_hybrid :: u64

definition HybridCoordinator_init :: HybridCoordinator where
  "HybridCoordinator_init = \<lparr>hc_policy = HybridPolicy_default, hc_history = [], hc_last = [], hc_counts = [],
     hc_total = 0, hc_pow = 0, hc_postake = 0, hc_hybrid = 0\<rparr>"

section \<open>Proof of work and records\<close>

text \<open>The inner loop over the bits of a byte, from the highest; \<open>i\<close> bits are left.\<close>

fun zero_bits :: "u8 \<Rightarrow> nat \<Rightarrow> u32 \<Rightarrow> u32" where
  "zero_bits b 0 leading = leading"
| "zero_bits b (Suc i) leading = (if drop_bit i b AND 1 = 0 then zero_bits b i (leading + 1) else leading)"

fun zero_bits_loop :: "u32 \<Rightarrow> bytes \<Rightarrow> u32" where
  "zero_bits_loop leading [] = leading"
| "zero_bits_loop leading (b # bs) = (if b = 0 then zero_bits_loop (leading + 8) bs else zero_bits b 8 leading)"

definition count_leading_zero_bits :: "Hash256 \<Rightarrow> u32" where
  "count_leading_zero_bits hash = zero_bits_loop 0 hash"

definition pow_solution_meets_claimed_difficulty :: "PowSolution \<Rightarrow> bool" where
  "pow_solution_meets_claimed_difficulty s \<longleftrightarrow> count_leading_zero_bits (sol_hash s) \<ge> sol_difficulty s"

definition HybridIssuanceRecord_to_bytes :: "HybridIssuanceRecord \<Rightarrow> bytes" where
  "HybridIssuanceRecord_to_bytes r =
     node_bytes (hr_node_id r) @ [method_byte (hr_method r)]
     @ (case hr_pow r of None \<Rightarrow> [0] | Some s \<Rightarrow> 1 # sol_hash s @ be_bytes 8 (sol_nonce s))
     @ (case hr_score r of None \<Rightarrow> [0] | Some s \<Rightarrow> 1 # be_bytes 4 (cs_total s))
     @ [hr_key_type r] @ be_bytes 4 (hr_key_count r) @ be_bytes 8 (hr_issued_at r) @ be_bytes 8 (hr_epoch r)"

definition compute_record_hash :: "(bytes \<Rightarrow> Hash256) \<Rightarrow> HybridIssuanceRecord \<Rightarrow> Hash256" where
  "compute_record_hash H r = H (HybridIssuanceRecord_to_bytes r)"

section \<open>The coordinator\<close>

definition set_policy :: "HybridPolicy \<Rightarrow> HybridCoordinator \<Rightarrow> HybridCoordinator" where
  "set_policy p c = (if \<not> policy_is_valid p then c else c\<lparr>hc_policy := p\<rparr>)"

definition is_new_node :: "u64 \<Rightarrow> PoStakeEngine \<Rightarrow> NodeID \<Rightarrow> bool" where
  "is_new_node now e n =
     (let m = get_metrics now (pe_tracker e) n in
      cm_total_uptime m = 0 \<and> cm_things_hosted m = 0 \<and> cm_successful_routes m = 0)"

definition calculate_hybrid_bonus :: "HybridCoordinator \<Rightarrow> u32 \<Rightarrow> u32 option" where
  "calculate_hybrid_bonus c base_keys =
     (if \<not> hp_bonus (hc_policy c) then Some base_keys else weighted base_keys (hp_multiplier (hc_policy c)))"

definition check_rate_limit :: "u64 \<Rightarrow> HybridCoordinator \<Rightarrow> NodeID \<Rightarrow> bool" where
  "check_rate_limit tick c n =
     (case map_of (hc_last c) n of None \<Rightarrow> True | Some last_time \<Rightarrow> tick - last_time \<ge> hp_min_seconds (hc_policy c))"

definition record_issuance :: "HybridIssuanceRecord \<Rightarrow> HybridCoordinator \<Rightarrow> HybridCoordinator" where
  "record_issuance r c =
     (let c = c\<lparr>hc_history := omap_set (hr_node_id r) (opt_or [] (map_of (hc_history c) (hr_node_id r)) @ [r]) (hc_history c),
                hc_last := omap_set (hr_node_id r) (hr_issued_at r) (hc_last c),
                hc_counts := omap_set (hr_node_id r, hr_epoch r)
                  (opt_or 0 (map_of (hc_counts c) (hr_node_id r, hr_epoch r)) + hr_key_count r) (hc_counts c),
                hc_total := hc_total c + ucast (hr_key_count r)\<rparr>
      in case hr_method r of
           POW_ONLY \<Rightarrow> c\<lparr>hc_pow := hc_pow c + 1\<rparr>
         | POSTAKE_ONLY \<Rightarrow> c\<lparr>hc_postake := hc_postake c + 1\<rparr>
         | HYBRID \<Rightarrow> c\<lparr>hc_hybrid := hc_hybrid c + 1\<rparr>)"

definition can_issue_keys :: "u64 \<Rightarrow> HybridCoordinator \<Rightarrow> NodeID \<Rightarrow> u32 \<Rightarrow> u64 \<Rightarrow> bool" where
  "can_issue_keys tick c n key_count epoch =
     (let current_count = opt_or 0 (map_of (hc_counts c) (n, epoch)) in
      if current_count + key_count > hp_max_keys (hc_policy c) then False
      else check_rate_limit tick c n)"

text \<open>Filling in the hash and recording.\<close>

definition issue :: "(bytes \<Rightarrow> Hash256) \<Rightarrow> HybridIssuanceRecord \<Rightarrow> HybridCoordinator \<Rightarrow> HybridIssuanceRecord option \<times> HybridCoordinator" where
  "issue H r c = (let r = r\<lparr>hr_hash := compute_record_hash H r\<rparr> in (Some r, record_issuance r c))"

definition hybrid_epoch :: "u64 \<Rightarrow> u64" where
  "hybrid_epoch now = now div ucast EPOCH_DURATION_SECONDS"

definition request_keys_via_pow :: "(bytes \<Rightarrow> Hash256) \<Rightarrow> u64 \<Rightarrow> u64 \<Rightarrow> NodeID \<Rightarrow> PowSolution \<Rightarrow> KeyType \<Rightarrow> u32
    \<Rightarrow> HybridCoordinator \<Rightarrow> HybridIssuanceRecord option \<times> HybridCoordinator" where
  "request_keys_via_pow H now tick n sol kt key_count c =
     (let epoch = hybrid_epoch now in
      if \<not> can_issue_keys tick c n key_count epoch then (None, c)
      else if \<not> pow_solution_meets_claimed_difficulty sol then (None, c)
      else issue H \<lparr>hr_node_id = n, hr_method = POW_ONLY, hr_pow = Some sol, hr_score = None, hr_key_type = kt,
             hr_key_count = key_count, hr_issued_at = tick, hr_epoch = epoch, hr_hash = []\<rparr> c)"

definition request_keys_via_postake :: "(bytes \<Rightarrow> Hash256) \<Rightarrow> u64 \<Rightarrow> u64 \<Rightarrow> PoStakeEngine \<Rightarrow> NodeID \<Rightarrow> KeyType \<Rightarrow> u32
    \<Rightarrow> HybridCoordinator \<Rightarrow> (HybridIssuanceRecord option \<times> HybridCoordinator) option" where
  "request_keys_via_postake H now tick e n kt key_count c =
     (let epoch = hybrid_epoch now in
      if \<not> hp_allow_postake (hc_policy c) then Some (None, c)
      else if hp_require_pow (hc_policy c) \<and> is_new_node now e n then Some (None, c)
      else if \<not> can_issue_keys tick c n key_count epoch then Some (None, c)
      else do {
        score \<leftarrow> calculate_score now e n;
        if cs_total score < hp_min_score (hc_policy c) then Some (None, c)
        else Some (issue H \<lparr>hr_node_id = n, hr_method = POSTAKE_ONLY, hr_pow = None, hr_score = Some score, hr_key_type = kt,
               hr_key_count = key_count, hr_issued_at = tick, hr_epoch = epoch, hr_hash = []\<rparr> c) })"

definition request_keys_hybrid :: "(bytes \<Rightarrow> Hash256) \<Rightarrow> u64 \<Rightarrow> u64 \<Rightarrow> PoStakeEngine \<Rightarrow> NodeID \<Rightarrow> PowSolution \<Rightarrow> KeyType \<Rightarrow> u32
    \<Rightarrow> HybridCoordinator \<Rightarrow> (HybridIssuanceRecord option \<times> HybridCoordinator) option" where
  "request_keys_hybrid H now tick e n sol kt key_count c = do {
     let epoch = hybrid_epoch now;
     bonus_keys \<leftarrow> calculate_hybrid_bonus c key_count;
     if \<not> can_issue_keys tick c n bonus_keys epoch then Some (None, c)
     else if \<not> pow_solution_meets_claimed_difficulty sol then Some (None, c)
     else do {
       score \<leftarrow> calculate_score now e n;
       Some (issue H \<lparr>hr_node_id = n, hr_method = HYBRID, hr_pow = Some sol, hr_score = Some score, hr_key_type = kt,
         hr_key_count = bonus_keys, hr_issued_at = tick, hr_epoch = epoch, hr_hash = []\<rparr> c) } }"

definition validate_issuance :: "(bytes \<Rightarrow> Hash256) \<Rightarrow> HybridCoordinator \<Rightarrow> HybridIssuanceRecord \<Rightarrow> bool" where
  "validate_issuance H c r =
     (if compute_record_hash H r \<noteq> hr_hash r then False
      else case hr_method r of
        POW_ONLY \<Rightarrow> (case hr_pow r of None \<Rightarrow> False | Some s \<Rightarrow> pow_solution_meets_claimed_difficulty s)
      | POSTAKE_ONLY \<Rightarrow> (case hr_score r of None \<Rightarrow> False | Some s \<Rightarrow> \<not> cs_total s < hp_min_score (hc_policy c))
      | HYBRID \<Rightarrow> (case hr_pow r of None \<Rightarrow> False
          | Some s \<Rightarrow> if hr_score r = None then False else pow_solution_meets_claimed_difficulty s))"

definition get_issuance_history :: "HybridCoordinator \<Rightarrow> NodeID \<Rightarrow> HybridIssuanceRecord list" where
  "get_issuance_history c n = opt_or [] (map_of (hc_history c) n)"

definition get_keys_issued_in_epoch :: "HybridCoordinator \<Rightarrow> NodeID \<Rightarrow> u64 \<Rightarrow> u32" where
  "get_keys_issued_in_epoch c n epoch = opt_or 0 (map_of (hc_counts c) (n, epoch))"

definition get_last_issuance_time :: "HybridCoordinator \<Rightarrow> NodeID \<Rightarrow> u64 option" where
  "get_last_issuance_time c n = map_of (hc_last c) n"

definition recommend_method :: "u64 \<Rightarrow> PoStakeEngine \<Rightarrow> HybridCoordinator \<Rightarrow> NodeID \<Rightarrow> KeyIssuanceMethod option" where
  "recommend_method now e c n =
     (if is_new_node now e n then Some POW_ONLY
      else do {
        score \<leftarrow> calculate_score now e n;
        Some (if hp_allow_postake (hc_policy c) \<and> cs_total score \<ge> hp_min_score (hc_policy c)
              then if hp_bonus (hc_policy c) then HYBRID else POSTAKE_ONLY
              else POW_ONLY) })"

section \<open>Lemmas\<close>

lemma mask_bit: "b AND push_bit i 1 = 0 \<longleftrightarrow> drop_bit i b AND 1 = (0 :: u8)" if "i < 8"
proof -
  have "b AND push_bit i 1 = push_bit i (drop_bit i b AND 1)"
    by (rule bit_word_eqI) (auto simp: bit_simps)
  moreover have "push_bit i (drop_bit i b AND 1) = 0 \<longleftrightarrow> drop_bit i b AND 1 = 0"
    using that by (simp add: and_one_eq mod_2_eq_odd)
  ultimately show ?thesis by simp
qed

lemma clz_mask_zero_bits: "i < 8 \<Longrightarrow> clz_mask b (push_bit i 1) acc = zero_bits b (Suc i) acc"
proof (induction i arbitrary: acc)
  case 0
  have "clz_mask b 0 a = a" for a by (simp add: clz_mask.simps)
  then show ?case by (simp add: clz_mask.simps [of b 1] and_one_eq mod_2_eq_odd drop_bit_eq_div)
next
  case (Suc i)
  have "bit (push_bit (Suc i) (1 :: u8)) (Suc i)" using Suc.prems unfolding bit_push_bit_iff by simp
  then have "push_bit (Suc i) (1 :: u8) \<noteq> 0" by (metis bit_0_eq bot_apply bot_bool_def)
  moreover have "drop_bit 1 (push_bit (Suc i) (1 :: u8)) = push_bit i 1"
    using Suc.prems by (intro bit_word_eqI) (auto simp: bit_simps)
  ultimately show ?case
    using Suc mask_bit [OF Suc.prems, of b]
    by (subst clz_mask.simps) (simp del: push_bit_Suc zero_bits.simps(2) add: zero_bits.simps(2) [of b "Suc i"])
qed

lemma zero_bits_loop_clz: "zero_bits_loop acc bs = clz_loop acc bs"
proof (induction bs arbitrary: acc)
  case (Cons b bs)
  have "clz_mask b 0x80 acc = zero_bits b 8 acc"
    using clz_mask_zero_bits [of 7 b acc] by (simp add: push_bit_eq_mult eval_nat_numeral)
  with Cons show ?case by simp
qed simp

subsection \<open>Sequences of requests\<close>

datatype hybrid_op =
    ViaPow u64 u64 NodeID PowSolution KeyType u32
  | ViaPostake u64 u64 PoStakeEngine NodeID KeyType u32
  | ViaHybrid u64 u64 PoStakeEngine NodeID PowSolution KeyType u32

fun op_keys :: "hybrid_op \<Rightarrow> u32" where
  "op_keys (ViaPow now tick n sol kt k) = k"
| "op_keys (ViaPostake now tick e n kt k) = k"
| "op_keys (ViaHybrid now tick e n sol kt k) = k"

fun hybrid_step :: "(bytes \<Rightarrow> Hash256) \<Rightarrow> HybridCoordinator \<Rightarrow> hybrid_op \<Rightarrow> HybridCoordinator option" where
  "hybrid_step H c (ViaPow now tick n sol kt k) = Some (snd (request_keys_via_pow H now tick n sol kt k c))"
| "hybrid_step H c (ViaPostake now tick e n kt k) = map_option snd (request_keys_via_postake H now tick e n kt k c)"
| "hybrid_step H c (ViaHybrid now tick e n sol kt k) = map_option snd (request_keys_hybrid H now tick e n sol kt k c)"

fun hybrid_run :: "(bytes \<Rightarrow> Hash256) \<Rightarrow> HybridCoordinator \<Rightarrow> hybrid_op list \<Rightarrow> HybridCoordinator option" where
  "hybrid_run H c [] = Some c"
| "hybrid_run H c (x # xs) = do { c' \<leftarrow> hybrid_step H c x; hybrid_run H c' xs }"

definition issued_in :: "HybridCoordinator \<Rightarrow> NodeID \<Rightarrow> u64 \<Rightarrow> nat" where
  "issued_in c n epoch = sum_list (map (\<lambda>r. unat (hr_key_count r)) (filter (\<lambda>r. hr_epoch r = epoch) (get_issuance_history c n)))"

definition hybrid_inv :: "(bytes \<Rightarrow> Hash256) \<Rightarrow> HybridCoordinator \<Rightarrow> bool" where
  "hybrid_inv H c \<longleftrightarrow> hc_policy c = HybridPolicy_default \<and>
     (\<forall>n epoch. issued_in c n epoch = unat (get_keys_issued_in_epoch c n epoch) \<and> issued_in c n epoch \<le> 10) \<and>
     (\<forall>n. list_all (validate_issuance H c) (get_issuance_history c n))"

lemma record_issuance_simps [simp]:
  "hc_policy (record_issuance r c) = hc_policy c"
  "get_issuance_history (record_issuance r c) n = get_issuance_history c n @ (if n = hr_node_id r then [r] else [])"
  "get_keys_issued_in_epoch (record_issuance r c) n ep = get_keys_issued_in_epoch c n ep +
     (if n = hr_node_id r \<and> ep = hr_epoch r then hr_key_count r else 0)"
  by (auto simp: record_issuance_def get_issuance_history_def get_keys_issued_in_epoch_def Let_def split: KeyIssuanceMethod.splits)

lemma hybrid_inv_issue:
  assumes "hybrid_inv H c" "can_issue_keys tick c (hr_node_id r) (hr_key_count r) (hr_epoch r)" "unat (hr_key_count r) \<le> 1500000"
    and "validate_issuance H c (r\<lparr>hr_hash := compute_record_hash H r\<rparr>)"
  shows "hybrid_inv H (snd (issue H r c))"
proof -
  let ?r = "r\<lparr>hr_hash := compute_record_hash H r\<rparr>"
  have p: "hp_max_keys (hc_policy c) = 10" using assms(1) by (simp add: hybrid_inv_def HybridPolicy_default_def)
  have le: "unat (get_keys_issued_in_epoch c n ep) \<le> 10" for n ep using assms(1) by (metis hybrid_inv_def)
  have "get_keys_issued_in_epoch c (hr_node_id r) (hr_epoch r) + hr_key_count r \<le> 10"
    using assms(2) p by (auto simp: can_issue_keys_def get_keys_issued_in_epoch_def Let_def split: if_splits)
  then have sum: "unat (get_keys_issued_in_epoch c (hr_node_id r) (hr_epoch r) + hr_key_count r) \<le> 10"
    by (simp add: word_le_nat_alt)
  have "unat (get_keys_issued_in_epoch c (hr_node_id r) (hr_epoch r)) + unat (hr_key_count r) < 2 ^ 32"
    using le [of "hr_node_id r" "hr_epoch r"] assms(3) by simp
  then have add: "unat (get_keys_issued_in_epoch c (hr_node_id r) (hr_epoch r) + hr_key_count r) =
      unat (get_keys_issued_in_epoch c (hr_node_id r) (hr_epoch r)) + unat (hr_key_count r)"
    by (intro unat_add_lem [THEN iffD1]) simp
  have v: "validate_issuance H (record_issuance x c) y = validate_issuance H c y" for x y
    by (simp only: validate_issuance_def record_issuance_simps)
  have "hc_policy (record_issuance ?r c) = HybridPolicy_default"
    using assms(1) by (simp add: hybrid_inv_def)
  moreover have "issued_in (record_issuance ?r c) n ep = unat (get_keys_issued_in_epoch (record_issuance ?r c) n ep) \<and>
      issued_in (record_issuance ?r c) n ep \<le> 10" for n ep
    using assms(1) sum add le by (auto simp: hybrid_inv_def issued_in_def)
  moreover have "list_all (validate_issuance H (record_issuance ?r c)) (get_issuance_history (record_issuance ?r c) n)" for n
    using assms(1,4) by (auto simp: v hybrid_inv_def list_all_iff)
  ultimately show ?thesis unfolding hybrid_inv_def issue_def Let_def snd_conv by blast
qed

lemma hybrid_inv_issued:
  "issue H r c = (a, c') \<Longrightarrow> hybrid_inv H c \<Longrightarrow> can_issue_keys tick c (hr_node_id r) (hr_key_count r) (hr_epoch r) \<Longrightarrow>
     unat (hr_key_count r) \<le> 1500000 \<Longrightarrow> validate_issuance H c (r\<lparr>hr_hash := compute_record_hash H r\<rparr>) \<Longrightarrow> hybrid_inv H c'"
  using hybrid_inv_issue [of H c tick r] by simp

lemma validate_fresh:
  "hr_pow r = Some s \<Longrightarrow> pow_solution_meets_claimed_difficulty s \<Longrightarrow> hr_method r = POW_ONLY \<Longrightarrow>
     validate_issuance H c (r\<lparr>hr_hash := compute_record_hash H r\<rparr>)"
  "hr_score r = Some sc \<Longrightarrow> \<not> cs_total sc < hp_min_score (hc_policy c) \<Longrightarrow> hr_method r = POSTAKE_ONLY \<Longrightarrow>
     validate_issuance H c (r\<lparr>hr_hash := compute_record_hash H r\<rparr>)"
  "hr_pow r = Some s \<Longrightarrow> hr_score r = Some sc \<Longrightarrow> pow_solution_meets_claimed_difficulty s \<Longrightarrow> hr_method r = HYBRID \<Longrightarrow>
     validate_issuance H c (r\<lparr>hr_hash := compute_record_hash H r\<rparr>)"
  by (simp_all add: validate_issuance_def compute_record_hash_def HybridIssuanceRecord_to_bytes_def)

lemma hybrid_inv_step:
  assumes "hybrid_inv H c" "hybrid_step H c x = Some c'" "unat (op_keys x) \<le> 1000000"
  shows "hybrid_inv H c'"
proof (cases x)
  case (ViaPow now tick n sol kt k)
  with assms show ?thesis
    by (auto simp: request_keys_via_pow_def Let_def intro!: hybrid_inv_issue [of H c tick] validate_fresh(1) split: if_splits)
next
  case (ViaPostake now tick e n kt k)
  with assms show ?thesis
    by (auto simp: request_keys_via_postake_def Let_def Option.bind_eq_Some_conv split: if_splits
        elim!: hybrid_inv_issued [where tick = tick] intro!: validate_fresh(2))
next
  case (ViaHybrid now tick e n sol kt k)
  have p: "hc_policy c = HybridPolicy_default" using assms(1) by (simp add: hybrid_inv_def)
  have "unat k \<le> 1000000" using assms(3) ViaHybrid by simp
  then have "uint k \<le> 1000000" by (simp only: uint_nat)
  then obtain b where b: "calculate_hybrid_bonus c k = Some b" "uint b \<le> 1500000"
    using weighted_le [of "Fin (3 / 2)" "3 / 2" "3 / 2" k 1000000 1500000]
    by (auto simp: calculate_hybrid_bonus_def p HybridPolicy_default_def)
  have "unat b \<le> 1500000" using b(2) unfolding uint_nat by linarith
  with assms b(1) ViaHybrid show ?thesis
    by (auto simp: request_keys_hybrid_def Let_def Option.bind_eq_Some_conv split: if_splits
        elim!: hybrid_inv_issued [where tick = tick] intro!: validate_fresh(3))
qed

lemma hybrid_inv_run:
  "hybrid_inv H c \<Longrightarrow> hybrid_run H c xs = Some c' \<Longrightarrow> list_all (\<lambda>x. unat (op_keys x) \<le> 1000000) xs \<Longrightarrow> hybrid_inv H c'"
proof (induction xs arbitrary: c)
  case (Cons x xs)
  then obtain c1 where c1: "hybrid_step H c x = Some c1" "hybrid_run H c1 xs = Some c'" by (auto simp: Option.bind_eq_Some_conv)
  show ?case by (rule Cons.IH [OF hybrid_inv_step [OF Cons.prems(1) c1(1)] c1(2)]) (use Cons.prems in auto)
qed simp

lemma hybrid_inv_init: "hybrid_inv H HybridCoordinator_init"
  by (simp add: hybrid_inv_def HybridCoordinator_init_def issued_in_def get_issuance_history_def get_keys_issued_in_epoch_def)

section \<open>Properties\<close>

text \<open>
  C25: under the default policy, and as long as no request asks for more than a million keys, no node gets
  more than ten keys in an epoch: the counter of the epoch is the sum of the keys in the records, and
  every record in the history passes validation.
\<close>

theorem epoch_limit_holds:
  assumes "hybrid_run H HybridCoordinator_init ops = Some c" "list_all (\<lambda>x. unat (op_keys x) \<le> 1000000) ops"
  shows "issued_in c n epoch \<le> 10 \<and> unat (get_keys_issued_in_epoch c n epoch) = issued_in c n epoch \<and>
    list_all (validate_issuance H c) (get_issuance_history c n)"
  using hybrid_inv_run [OF hybrid_inv_init assms] unfolding hybrid_inv_def by metis

definition free_solution :: PowSolution where
  "free_solution = \<lparr>sol_hash = replicate 32 255, sol_nonce = 0, sol_difficulty = 0, sol_time_ms = 0\<rparr>"

theorem epoch_limit_holds_witness:
  "\<exists>c. hybrid_run (\<lambda>_. []) HybridCoordinator_init [ViaPow 600 100 (NodeID [1]) free_solution SERVICE 4] = Some c \<and>
     issued_in c (NodeID [1]) 1 \<le> 10"
proof -
  obtain c where c: "hybrid_run (\<lambda>_. []) HybridCoordinator_init [ViaPow 600 100 (NodeID [1]) free_solution SERVICE 4] = Some c" by simp
  from epoch_limit_holds [OF this, of "NodeID [1]" 1] c show ?thesis by simp
qed

text \<open>
  the coordinator and the proof-of-work engine agree on the number of leading zero bits of a hash, so
  that they agree on which hashes meet a difficulty.
\<close>

theorem leading_zero_counts_agree:
  "count_leading_zero_bits hash = count_leading_zeros hash \<and>
   pow_solution_meets_claimed_difficulty s = meets_difficulty (sol_hash s) (sol_difficulty s)"
  by (simp add: count_leading_zero_bits_def count_leading_zeros_def zero_bits_loop_clz
      pow_solution_meets_claimed_difficulty_def meets_difficulty_def)

text \<open>
  The sum of the limit check is computed in 32 bits: a node that has one key gets four billion more.
\<close>

theorem epoch_limit_wraps:
  "map_option (\<lambda>c. map hr_key_count (get_issuance_history c (NodeID [1])))
     (hybrid_run (\<lambda>_. []) HybridCoordinator_init
       [ViaPow 600 100 (NodeID [1]) free_solution SERVICE 1, ViaPow 601 200 (NodeID [1]) free_solution SERVICE 4294967295]) =
   Some [1, 4294967295]"
  by (simp add: request_keys_via_pow_def can_issue_keys_def check_rate_limit_def HybridCoordinator_init_def HybridPolicy_default_def
      pow_solution_meets_claimed_difficulty_def free_solution_def issue_def record_issuance_def get_issuance_history_def
      hybrid_epoch_def EPOCH_DURATION_SECONDS_def Let_def)

text \<open>A solution is only compared with the difficulty it claims: claiming none is always enough.\<close>

theorem claimed_difficulty_zero:
  "sol_difficulty s = 0 \<Longrightarrow> pow_solution_meets_claimed_difficulty s"
  by (simp add: pow_solution_meets_claimed_difficulty_def)

text \<open>The hash of a record does not cover the difficulty, nor the parts of the score.\<close>

theorem record_hash_ignores_difficulty:
  "hr_pow r = Some s \<Longrightarrow> compute_record_hash H (r\<lparr>hr_pow := Some (s\<lparr>sol_difficulty := d\<rparr>)\<rparr>) = compute_record_hash H r"
  by (simp add: compute_record_hash_def HybridIssuanceRecord_to_bytes_def)

end
