(* ===== verification/Sessions.thy ===== *)
theory Sessions
  imports Containers Common
begin

text \<open>
  Encrypted sessions between two nodes: \<open>src/network/session.cpp\<close> and the wrappers
  \<open>ChaCha20Poly1305::decrypt\<close> and \<open>X25519::exchange\<close> it calls.

  libsodium is the parameter \<open>L\<close>: BLAKE3, the scalar multiplication (\<open>None\<close> when it reports
  failure), and the two directions of ChaCha20-Poly1305. Generated key pairs and random nonce bytes
  are arguments, and so is the clock, in seconds. A member that a constructor leaves without a value
  is the empty list, or \<open>None\<close> for the last handshake.

  The sessions of a manager are objects behind shared pointers: the vector \<open>sessions_\<close> is a list of
  addresses with the objects they point to, so that a pointer to a session that the manager has
  dropped is an address that is not in the list. No address is used twice.
\<close>

section \<open>Data\<close>

record session_lib =
  sl_hash :: "bytes \<Rightarrow> Hash256"
  sl_scalarmult :: "bytes \<Rightarrow> bytes \<Rightarrow> bytes option"
  sl_encrypt :: "bytes \<Rightarrow> bytes \<Rightarrow> bytes \<Rightarrow> bytes"
  sl_decrypt :: "bytes \<Rightarrow> bytes \<Rightarrow> bytes \<Rightarrow> bytes option"

datatype SessionState = DISCONNECTED | HANDSHAKE_INIT | HANDSHAKE_RESPONSE | ESTABLISHED | CLOSING | CLOSED

record SessionKeys =
  sk_tx_key :: bytes
  sk_rx_key :: bytes
  sk_created :: u64
  sk_messages_sent :: u64
  sk_messages_received :: u64
  sk_bytes_sent :: u64
  sk_bytes_received :: u64

definition SessionKeys_new :: SessionKeys where
  "SessionKeys_new = \<lparr>sk_tx_key = [], sk_rx_key = [], sk_created = 0, sk_messages_sent = 0,
     sk_messages_received = 0, sk_bytes_sent = 0, sk_bytes_received = 0\<rparr>"

record HandshakeMessage =
  hs_version :: u8
  hs_ephemeral :: bytes
  hs_node_id :: NodeID
  hs_timestamp :: u64
  hs_signature :: bytes

definition CURRENT_VERSION :: u8 where "CURRENT_VERSION = 1"
definition HANDSHAKE_MAX_AGE :: u64 where "HANDSHAKE_MAX_AGE = 60"
definition IDLE_TIMEOUT_SECONDS :: u64 where "IDLE_TIMEOUT_SECONDS = 1800"
definition REKEY_INTERVAL_SECONDS :: u64 where "REKEY_INTERVAL_SECONDS = 3600"
definition REKEY_BYTES_LIMIT :: u64 where "REKEY_BYTES_LIMIT = 1 * 1024 * 1024 * 1024"

record Session =
  se_local :: NodeID
  se_remote :: NodeID
  se_state :: SessionState
  se_is_initiator :: bool
  se_ephemeral :: "bytes \<times> bytes"
  se_remote_ephemeral :: bytes
  se_keys :: SessionKeys
  se_last_handshake :: "HandshakeMessage option"
  se_created :: u64
  se_established :: u64
  se_last_activity :: u64
  se_nonce_counter :: u64

section \<open>Handshake messages\<close>

definition handshake_signing_bytes :: "HandshakeMessage \<Rightarrow> bytes" where
  "handshake_signing_bytes h =
     [hs_version h] @ hs_ephemeral h @ node_bytes (hs_node_id h) @ le_bytes 8 (hs_timestamp h)"

definition compute_handshake_signature :: "session_lib \<Rightarrow> HandshakeMessage \<Rightarrow> bytes" where
  "compute_handshake_signature L h =
     (let digest = sl_hash L (handshake_signing_bytes h) in digest @ digest)"

definition verify_handshake_signature :: "session_lib \<Rightarrow> HandshakeMessage \<Rightarrow> bool" where
  "verify_handshake_signature L h \<longleftrightarrow> hs_signature h = compute_handshake_signature L h"

definition HandshakeMessage_to_bytes :: "HandshakeMessage \<Rightarrow> bytes" where
  "HandshakeMessage_to_bytes h =
     [hs_version h] @ hs_ephemeral h @ node_bytes (hs_node_id h) @ le_bytes 8 (hs_timestamp h) @ hs_signature h"

definition HandshakeMessage_from_bytes :: "bytes \<Rightarrow> HandshakeMessage option" where
  "HandshakeMessage_from_bytes data =
     (if length data < 1 + 32 + 32 + 8 + 64 then None
      else Some \<lparr>hs_version = data ! 0, hs_ephemeral = slice 1 32 data, hs_node_id = NodeID (slice 33 32 data),
                 hs_timestamp = le_word (slice 65 8 data), hs_signature = slice 73 64 data\<rparr>)"

definition fresh_handshake :: "session_lib \<Rightarrow> u64 \<Rightarrow> bytes \<Rightarrow> NodeID \<Rightarrow> HandshakeMessage" where
  "fresh_handshake L now ephemeral node =
     (let h = \<lparr>hs_version = CURRENT_VERSION, hs_ephemeral = ephemeral, hs_node_id = node,
               hs_timestamp = now, hs_signature = []\<rparr>
      in h\<lparr>hs_signature := compute_handshake_signature L h\<rparr>)"

section \<open>Sessions\<close>

definition X25519_exchange :: "session_lib \<Rightarrow> bytes \<Rightarrow> bytes \<Rightarrow> bytes option" where
  "X25519_exchange L our_secret their_public = sl_scalarmult L our_secret their_public"

definition ChaCha20Poly1305_decrypt :: "session_lib \<Rightarrow> bytes \<Rightarrow> bytes \<Rightarrow> bytes \<Rightarrow> bytes option" where
  "ChaCha20Poly1305_decrypt L ciphertext key nonce =
     (if length ciphertext < 16 then None else sl_decrypt L ciphertext key nonce)"

definition Session_new :: "u64 \<Rightarrow> NodeID \<Rightarrow> NodeID \<Rightarrow> Session" where
  "Session_new now local remote = \<lparr>se_local = local, se_remote = remote, se_state = DISCONNECTED,
     se_is_initiator = False, se_ephemeral = (replicate 32 0, replicate 64 0), se_remote_ephemeral = [],
     se_keys = SessionKeys_new, se_last_handshake = None, se_created = now, se_established = 0,
     se_last_activity = now, se_nonce_counter = 0\<rparr>"

definition initiate_handshake :: "session_lib \<Rightarrow> u64 \<Rightarrow> bytes \<times> bytes \<Rightarrow> Session \<Rightarrow> bool \<times> Session" where
  "initiate_handshake L now keypair s =
     (if se_state s \<noteq> DISCONNECTED then (False, s)
      else (True, s\<lparr>se_is_initiator := True, se_ephemeral := keypair,
                    se_last_handshake := Some (fresh_handshake L now (fst keypair) (se_local s)),
                    se_state := HANDSHAKE_INIT\<rparr>))"

definition session_context :: bytes where
  "session_context = bytes_of_string ''cashew_session_v1''"

definition derive_session_keys :: "session_lib \<Rightarrow> u64 \<Rightarrow> bytes \<Rightarrow> Session \<Rightarrow> Session" where
  "derive_session_keys L now shared_secret s =
     (let key_material = shared_secret @ session_context;
          derived = take 32 (sl_hash L key_material);
          derived2 = take 32 (sl_hash L (key_material @ [1]));
          keys = (if se_is_initiator s then (se_keys s)\<lparr>sk_tx_key := derived, sk_rx_key := derived2\<rparr>
                  else (se_keys s)\<lparr>sk_rx_key := derived, sk_tx_key := derived2\<rparr>)
      in s\<lparr>se_keys := keys\<lparr>sk_created := now\<rparr>\<rparr>)"

text \<open>\<open>now\<close> is the first and \<open>now'\<close> the second reading of the clock.\<close>

definition handle_handshake_response ::
  "session_lib \<Rightarrow> u64 \<Rightarrow> u64 \<Rightarrow> HandshakeMessage \<Rightarrow> Session \<Rightarrow> bool \<times> Session" where
  "handle_handshake_response L now now' response s =
     (if se_state s \<noteq> HANDSHAKE_INIT then (False, s)
      else if now - hs_timestamp response > HANDSHAKE_MAX_AGE then (False, s)
      else if \<not> verify_handshake_signature L response then (False, s)
      else let s = s\<lparr>se_remote_ephemeral := hs_ephemeral response\<rparr>
           in case X25519_exchange L (snd (se_ephemeral s)) (se_remote_ephemeral s) of
                None \<Rightarrow> (False, s\<lparr>se_state := DISCONNECTED\<rparr>)
              | Some shared_secret \<Rightarrow>
                  (True, (derive_session_keys L now' shared_secret s)
                           \<lparr>se_state := ESTABLISHED, se_established := now, se_last_activity := now\<rparr>))"

definition handle_handshake_init ::
  "session_lib \<Rightarrow> u64 \<Rightarrow> bytes \<times> bytes \<Rightarrow> HandshakeMessage \<Rightarrow> Session \<Rightarrow> bool \<times> Session" where
  "handle_handshake_init L now keypair init s =
     (if se_state s \<noteq> DISCONNECTED then (False, s)
      else let s = s\<lparr>se_is_initiator := False\<rparr>
           in if now - hs_timestamp init > HANDSHAKE_MAX_AGE then (False, s)
              else if \<not> verify_handshake_signature L init then (False, s)
              else (True, s\<lparr>se_remote_ephemeral := hs_ephemeral init, se_ephemeral := keypair,
                            se_state := HANDSHAKE_RESPONSE\<rparr>))"

definition send_handshake_response :: "session_lib \<Rightarrow> u64 \<Rightarrow> u64 \<Rightarrow> Session \<Rightarrow> bool \<times> Session" where
  "send_handshake_response L now now' s =
     (if se_state s \<noteq> HANDSHAKE_RESPONSE then (False, s)
      else let response = fresh_handshake L now (fst (se_ephemeral s)) (se_local s)
           in case X25519_exchange L (snd (se_ephemeral s)) (se_remote_ephemeral s) of
                None \<Rightarrow> (False, s\<lparr>se_state := DISCONNECTED\<rparr>)
              | Some shared_secret \<Rightarrow>
                  (True, (derive_session_keys L now' shared_secret s)
                           \<lparr>se_state := ESTABLISHED, se_established := now, se_last_activity := now,
                            se_last_handshake := Some response\<rparr>))"

definition session_close :: "Session \<Rightarrow> Session" where
  "session_close s =
     (if se_state s = CLOSED then s
      else s\<lparr>se_ephemeral := (replicate 32 0, replicate 64 0),
             se_keys := (se_keys s)\<lparr>sk_tx_key := replicate 32 0, sk_rx_key := replicate 32 0\<rparr>,
             se_state := CLOSED\<rparr>)"

definition generate_nonce :: "bytes \<Rightarrow> Session \<Rightarrow> bytes \<times> Session" where
  "generate_nonce random_bytes s =
     (le_bytes 8 (se_nonce_counter s) @ random_bytes, s\<lparr>se_nonce_counter := se_nonce_counter s + 1\<rparr>)"

definition encrypt_message :: "session_lib \<Rightarrow> u64 \<Rightarrow> bytes \<Rightarrow> bytes \<Rightarrow> Session \<Rightarrow> bytes option \<times> Session" where
  "encrypt_message L now random_bytes plaintext s =
     (if se_state s \<noteq> ESTABLISHED then (None, s)
      else let (nonce, s) = generate_nonce random_bytes s;
               ciphertext = sl_encrypt L plaintext (sk_tx_key (se_keys s)) nonce;
               keys = (se_keys s)\<lparr>sk_messages_sent := sk_messages_sent (se_keys s) + 1,
                        sk_bytes_sent := sk_bytes_sent (se_keys s) + word_of_nat (length plaintext)\<rparr>
           in (Some (nonce @ ciphertext), s\<lparr>se_keys := keys, se_last_activity := now\<rparr>))"

definition decrypt_message :: "session_lib \<Rightarrow> u64 \<Rightarrow> bytes \<Rightarrow> Session \<Rightarrow> bytes option \<times> Session" where
  "decrypt_message L now ciphertext s =
     (if se_state s \<noteq> ESTABLISHED then (None, s)
      else if length ciphertext < 12 + 16 then (None, s)
      else case ChaCha20Poly1305_decrypt L (drop 12 ciphertext) (sk_rx_key (se_keys s)) (take 12 ciphertext) of
             None \<Rightarrow> (None, s)
           | Some plaintext \<Rightarrow>
               let keys = (se_keys s)\<lparr>sk_messages_received := sk_messages_received (se_keys s) + 1,
                            sk_bytes_received := sk_bytes_received (se_keys s) + word_of_nat (length plaintext)\<rparr>
               in (Some plaintext, s\<lparr>se_keys := keys, se_last_activity := now\<rparr>))"

definition should_rekey :: "u64 \<Rightarrow> Session \<Rightarrow> bool" where
  "should_rekey now s =
     (if se_state s \<noteq> ESTABLISHED then False
      else if now - se_established s \<ge> REKEY_INTERVAL_SECONDS then True
      else sk_bytes_sent (se_keys s) + sk_bytes_received (se_keys s) \<ge> REKEY_BYTES_LIMIT)"

definition session_timed_out :: "u64 \<Rightarrow> Session \<Rightarrow> bool" where
  "session_timed_out now s \<longleftrightarrow> now - se_last_activity s \<ge> IDLE_TIMEOUT_SECONDS"

definition get_age_seconds :: "u64 \<Rightarrow> Session \<Rightarrow> u64" where
  "get_age_seconds now s = (if se_established s = 0 then 0 else now - se_established s)"

definition get_idle_seconds :: "u64 \<Rightarrow> Session \<Rightarrow> u64" where
  "get_idle_seconds now s = now - se_last_activity s"

section \<open>The session manager\<close>

type_synonym session_ptr = nat

record SessionManager =
  mg_local :: NodeID
  mg_sessions :: "(session_ptr \<times> Session) list"
  mg_next :: session_ptr

definition SessionManager_init :: "NodeID \<Rightarrow> SessionManager" where
  "SessionManager_init n = \<lparr>mg_local = n, mg_sessions = [], mg_next = 0\<rparr>"

definition session_entry :: "SessionManager \<Rightarrow> NodeID \<Rightarrow> (session_ptr \<times> Session) option" where
  "session_entry m remote = find (\<lambda>e. se_remote (snd e) = remote) (mg_sessions m)"

definition get_session :: "SessionManager \<Rightarrow> NodeID \<Rightarrow> session_ptr option" where
  "get_session m remote = map_option fst (session_entry m remote)"

definition has_session :: "SessionManager \<Rightarrow> NodeID \<Rightarrow> bool" where
  "has_session m remote \<longleftrightarrow> get_session m remote \<noteq> None"

text \<open>Reading and writing the object behind a pointer; \<open>None\<close> when there is none any more.\<close>

definition session_at :: "SessionManager \<Rightarrow> session_ptr \<Rightarrow> Session option" where
  "session_at m p = map_of (mg_sessions m) p"

definition session_put :: "session_ptr \<Rightarrow> Session \<Rightarrow> SessionManager \<Rightarrow> SessionManager" where
  "session_put p s m = m\<lparr>mg_sessions := map (\<lambda>e. if fst e = p then (p, s) else e) (mg_sessions m)\<rparr>"

definition push_session :: "Session \<Rightarrow> SessionManager \<Rightarrow> session_ptr \<times> SessionManager" where
  "push_session s m = (mg_next m, m\<lparr>mg_sessions := mg_sessions m @ [(mg_next m, s)], mg_next := Suc (mg_next m)\<rparr>)"

definition create_outbound_session :: "u64 \<Rightarrow> NodeID \<Rightarrow> SessionManager \<Rightarrow> session_ptr \<times> SessionManager" where
  "create_outbound_session now remote m =
     (case get_session m remote of
        Some p \<Rightarrow> (p, m)
      | None \<Rightarrow> push_session (Session_new now (mg_local m) remote) m)"

definition remove_session :: "NodeID \<Rightarrow> SessionManager \<Rightarrow> SessionManager" where
  "remove_session remote m = m\<lparr>mg_sessions := filter (\<lambda>e. se_remote (snd e) \<noteq> remote) (mg_sessions m)\<rparr>"

definition close_session :: "NodeID \<Rightarrow> SessionManager \<Rightarrow> SessionManager" where
  "close_session remote m =
     (case session_entry m remote of
        None \<Rightarrow> m
      | Some (p, s) \<Rightarrow> remove_session remote (session_put p (session_close s) m))"

definition accept_handshake ::
  "session_lib \<Rightarrow> u64 \<Rightarrow> bytes \<times> bytes \<Rightarrow> HandshakeMessage \<Rightarrow> SessionManager \<Rightarrow> session_ptr option \<times> SessionManager" where
  "accept_handshake L now keypair handshake m =
     (case handle_handshake_init L now keypair handshake (Session_new now (mg_local m) (hs_node_id handshake)) of
        (False, _) \<Rightarrow> (None, m)
      | (True, s) \<Rightarrow> (let (p, m) = push_session s m in (Some p, m)))"

definition handle_inbound_handshake ::
  "session_lib \<Rightarrow> u64 \<Rightarrow> bytes \<times> bytes \<Rightarrow> HandshakeMessage \<Rightarrow> SessionManager \<Rightarrow> session_ptr option \<times> SessionManager" where
  "handle_inbound_handshake L now keypair handshake m =
     (case session_entry m (hs_node_id handshake) of
        Some (p, s) \<Rightarrow>
          if se_state s = CLOSED \<or> session_timed_out now s
          then accept_handshake L now keypair handshake (close_session (hs_node_id handshake) m)
          else (Some p, m)
      | None \<Rightarrow> accept_handshake L now keypair handshake m)"

definition close_all_sessions :: "SessionManager \<Rightarrow> SessionManager" where
  "close_all_sessions m = m\<lparr>mg_sessions := []\<rparr>"

definition cleanup_stale_sessions :: "u64 \<Rightarrow> SessionManager \<Rightarrow> SessionManager" where
  "cleanup_stale_sessions now m = m\<lparr>mg_sessions := filter (\<lambda>e. \<not> session_timed_out now (snd e)) (mg_sessions m)\<rparr>"

text \<open>Rekeying only logs; the result is what is logged, the manager does not change.\<close>

definition rekey_old_sessions :: "u64 \<Rightarrow> SessionManager \<Rightarrow> NodeID list" where
  "rekey_old_sessions now m = map (\<lambda>e. se_remote (snd e)) (filter (\<lambda>e. should_rekey now (snd e)) (mg_sessions m))"

definition active_session_count :: "SessionManager \<Rightarrow> nat" where
  "active_session_count m = length (filter (\<lambda>e. se_state (snd e) = ESTABLISHED) (mg_sessions m))"

definition get_connected_peers :: "SessionManager \<Rightarrow> NodeID list" where
  "get_connected_peers m = map (\<lambda>e. se_remote (snd e)) (filter (\<lambda>e. se_state (snd e) = ESTABLISHED) (mg_sessions m))"

section \<open>Message format\<close>

definition handshake_ok :: "HandshakeMessage \<Rightarrow> bool" where
  "handshake_ok h \<longleftrightarrow> length (hs_ephemeral h) = 32 \<and> length (node_bytes (hs_node_id h)) = 32 \<and> length (hs_signature h) = 64"

lemma HandshakeMessage_dec_enc:
  "handshake_ok h \<Longrightarrow> HandshakeMessage_from_bytes (HandshakeMessage_to_bytes h @ rest) = Some h"
  by (simp add: handshake_ok_def HandshakeMessage_from_bytes_def HandshakeMessage_to_bytes_def codec_simps)

interpretation handshake_codec: trailing_codec HandshakeMessage_to_bytes HandshakeMessage_from_bytes handshake_ok
  by unfold_locales (rule HandshakeMessage_dec_enc)

section \<open>Key agreement\<close>

text \<open>
  The four steps of a handshake, each message crossing the network in its encoding; \<open>t\<close> gives the
  readings of the clock in their order.
\<close>

definition handshake ::
  "session_lib \<Rightarrow> (nat \<Rightarrow> u64) \<Rightarrow> bytes \<times> bytes \<Rightarrow> bytes \<times> bytes \<Rightarrow> Session \<Rightarrow> Session \<Rightarrow> (Session \<times> Session) option" where
  "handshake L t ka kb A B =
     (let (ok1, A) = initiate_handshake L (t 0) ka A in
      case Option.bind (se_last_handshake A) (\<lambda>h. HandshakeMessage_from_bytes (HandshakeMessage_to_bytes h)) of
        None \<Rightarrow> None
      | Some init \<Rightarrow>
          let (ok2, B) = handle_handshake_init L (t 1) kb init B;
              (ok3, B) = send_handshake_response L (t 2) (t 3) B in
          case Option.bind (se_last_handshake B) (\<lambda>h. HandshakeMessage_from_bytes (HandshakeMessage_to_bytes h)) of
            None \<Rightarrow> None
          | Some response \<Rightarrow>
              let (ok4, A) = handle_handshake_response L (t 4) (t 5) response A in
              if ok1 \<and> ok2 \<and> ok3 \<and> ok4 then Some (A, B) else None)"

definition aead_ok :: "session_lib \<Rightarrow> bool" where
  "aead_ok L \<longleftrightarrow> (\<forall>p k n. sl_decrypt L (sl_encrypt L p k n) k n = Some p \<and> length (sl_encrypt L p k n) = length p + 16)"

definition mirrored :: "Session \<Rightarrow> Session \<Rightarrow> bool" where
  "mirrored A B \<longleftrightarrow> se_state A = ESTABLISHED \<and> se_state B = ESTABLISHED \<and>
     sk_tx_key (se_keys A) = sk_rx_key (se_keys B) \<and> sk_tx_key (se_keys B) = sk_rx_key (se_keys A)"

lemma fresh_handshake_simps [simp]:
  "hs_ephemeral (fresh_handshake L now e n) = e"
  "hs_timestamp (fresh_handshake L now e n) = now"
  "hs_node_id (fresh_handshake L now e n) = n"
  "verify_handshake_signature L (fresh_handshake L now e n)"
  by (simp_all add: fresh_handshake_def verify_handshake_signature_def compute_handshake_signature_def
      handshake_signing_bytes_def Let_def)

lemma fresh_handshake_ok:
  "(\<And>x. length (sl_hash L x) = 32) \<Longrightarrow> length e = 32 \<Longrightarrow> length (node_bytes n) = 32 \<Longrightarrow> handshake_ok (fresh_handshake L now e n)"
  by (simp add: fresh_handshake_def handshake_ok_def compute_handshake_signature_def Let_def)

lemma send_receive:
  assumes "mirrored A B" "aead_ok L" "length rnd = 4" "encrypt_message L now rnd msg A = (frame, A')"
  shows "\<exists>x. frame = Some x \<and> fst (decrypt_message L now' x B) = Some msg"
proof -
  define n where "n = le_bytes 8 (se_nonce_counter A) @ rnd"
  define c where "c = sl_encrypt L msg (sk_rx_key (se_keys B)) n"
  have n: "length n = 12" using assms(3) by (simp add: n_def)
  have c: "length c = length msg + 16" "sl_decrypt L c (sk_rx_key (se_keys B)) n = Some msg"
    using assms(2) by (simp_all add: aead_ok_def c_def)
  have "frame = Some (n @ c)"
    using assms(1,4) by (auto simp: mirrored_def encrypt_message_def generate_nonce_def c_def n_def Let_def)
  moreover have "fst (decrypt_message L now' (n @ c) B) = Some msg"
    using assms(1) n c by (simp add: mirrored_def decrypt_message_def ChaCha20Poly1305_decrypt_def Let_def)
  ultimately show ?thesis by blast
qed


definition sample_lib :: session_lib where
  "sample_lib = \<lparr>sl_hash = (\<lambda>bs. replicate 32 (sum_list bs)), sl_scalarmult = (\<lambda>s p. Some (map2 (+) (take 32 s) p)),
     sl_encrypt = (\<lambda>p k n. p @ replicate 16 (sum_list k)),
     sl_decrypt = (\<lambda>c k n. if drop (length c - 16) c = replicate 16 (sum_list k) then Some (take (length c - 16) c) else None)\<rparr>"


text \<open>A handshake carries no proof of who sent it: anybody can make one that is accepted under any identity.\<close>

theorem handshake_forgeable:
  "now - t \<le> 60 \<Longrightarrow> fst (handle_handshake_init L now kb (fresh_handshake L t e victim) (Session_new now me victim))"
  by (simp add: handle_handshake_init_def Session_new_def HANDSHAKE_MAX_AGE_def not_less Let_def)

text \<open>A sender whose clock is a second ahead is refused: the age is computed without a sign.\<close>

theorem handshake_from_the_future:
  "\<not> fst (handle_handshake_init L now kb (fresh_handshake L (now + 1) e n) s)"
  by (simp add: handle_handshake_init_def HANDSHAKE_MAX_AGE_def Let_def)

section \<open>Runs of a session\<close>

datatype session_op =
    Initiate u64 "bytes \<times> bytes"
  | GetInit u64 "bytes \<times> bytes" HandshakeMessage
  | Respond u64 u64
  | GetResponse u64 u64 HandshakeMessage
  | Encrypt u64 bytes bytes
  | Decrypt u64 bytes
  | Close

text \<open>One operation, with the frames it hands to the network.\<close>

fun session_step :: "session_lib \<Rightarrow> session_op \<Rightarrow> Session \<Rightarrow> bytes list \<times> Session" where
  "session_step L (Initiate now k) s = ([], snd (initiate_handshake L now k s))"
| "session_step L (GetInit now k h) s = ([], snd (handle_handshake_init L now k h s))"
| "session_step L (Respond now now') s = ([], snd (send_handshake_response L now now' s))"
| "session_step L (GetResponse now now' h) s = ([], snd (handle_handshake_response L now now' h s))"
| "session_step L (Encrypt now rnd msg) s =
     (let (frame, s) = encrypt_message L now rnd msg s in (case frame of None \<Rightarrow> [] | Some x \<Rightarrow> [x], s))"
| "session_step L (Decrypt now c) s = ([], snd (decrypt_message L now c s))"
| "session_step L Close s = ([], session_close s)"

fun session_run :: "session_lib \<Rightarrow> session_op list \<Rightarrow> Session \<Rightarrow> bytes list \<times> Session" where
  "session_run L [] s = ([], s)"
| "session_run L (x # xs) s =
     (let (out, s) = session_step L x s; (out', s) = session_run L xs s in (out @ out', s))"

lemmas session_defs = initiate_handshake_def handle_handshake_init_def send_handshake_response_def handle_handshake_response_def
  encrypt_message_def decrypt_message_def session_close_def generate_nonce_def derive_session_keys_def

lemma session_step_nonce:
  "session_step L x s = (out, s') \<Longrightarrow>
     (out = [] \<and> se_nonce_counter s' = se_nonce_counter s) \<or>
     (\<exists>rest. out = [le_bytes 8 (se_nonce_counter s) @ rest] \<and> se_nonce_counter s' = se_nonce_counter s + 1)"
  by (cases x) (auto simp: session_defs Let_def split: if_splits option.splits)

lemma session_run_nonces:
  "session_run L xs s = (out, s') \<Longrightarrow>
     map (take 8) out = map (\<lambda>i. le_bytes 8 (se_nonce_counter s + word_of_nat i)) [0..<length out]"
proof (induction xs arbitrary: s out s')
  case Nil
  then show ?case by simp
next
  case (Cons x xs)
  obtain out1 s1 where 1: "session_step L x s = (out1, s1)" by (cases "session_step L x s")
  obtain out2 s2 where 2: "session_run L xs s1 = (out2, s2)" by (cases "session_run L xs s1")
  have out: "out = out1 @ out2" using Cons.prems 1 2 by simp
  note IH = Cons.IH [OF 2]
  from session_step_nonce [OF 1] show ?case
  proof
    assume "out1 = [] \<and> se_nonce_counter s1 = se_nonce_counter s"
    then show ?thesis using IH out by simp
  next
    assume "\<exists>rest. out1 = [le_bytes 8 (se_nonce_counter s) @ rest] \<and> se_nonce_counter s1 = se_nonce_counter s + 1"
    then show ?thesis using IH out
      by (auto simp: upt_conv_Cons map_Suc_upt [symmetric] algebra_simps simp del: upt_Suc map_Suc_upt)
  qed
qed

text \<open>
  C10: no two frames that a session encrypts carry the same nonce, whatever operations are performed in
  between and whatever the random bytes are, as long as fewer than \<open>2\<^sup>64\<close> frames are sent.
\<close>

theorem nonces_never_repeat:
  assumes "session_run L ops s = (frames, s')" "length frames < 2 ^ 64"
  shows "distinct (map (take 12) frames)"
proof -
  have "inj_on (\<lambda>i. le_bytes 8 (se_nonce_counter s + word_of_nat i :: u64)) {0..<length frames}"
  proof (rule inj_onI)
    fix i j
    assume ij: "i \<in> {0..<length frames}" "j \<in> {0..<length frames}"
      and "le_bytes 8 (se_nonce_counter s + word_of_nat i :: u64) = le_bytes 8 (se_nonce_counter s + word_of_nat j)"
    then have "(word_of_nat i :: u64) = word_of_nat j"
      by (metis add_left_cancel le_word_le_bytes_u64)
    then show "i = j" using ij assms(2) by (metis atLeastLessThan_iff less_trans unat_of_nat_u64)
  qed
  then have "distinct (map (take 8) frames)"
    using session_run_nonces [OF assms(1)] by (simp add: distinct_map)
  moreover have "map (take 8) frames = map (take 8) (map (take 12) frames)" by simp
  ultimately show ?thesis by (metis distinct_map)
qed

theorem nonces_never_repeat_witness:
  "\<exists>frames s'. session_run sample_lib [Encrypt 1 [0, 0, 0, 0] [7], Encrypt 1 [0, 0, 0, 0] [7]]
     ((Session_new 0 (NodeID []) (NodeID []))\<lparr>se_state := ESTABLISHED\<rparr>) = (frames, s') \<and>
     length frames = 2 \<and> distinct (map (take 12) frames)"
proof -
  let ?s = "(Session_new 0 (NodeID []) (NodeID []))\<lparr>se_state := ESTABLISHED\<rparr>"
  obtain frames s' where r: "session_run sample_lib [Encrypt 1 [0, 0, 0, 0] [7], Encrypt 1 [0, 0, 0, 0] [7]] ?s = (frames, s')"
    by (cases "session_run sample_lib [Encrypt 1 [0, 0, 0, 0] [7], Encrypt 1 [0, 0, 0, 0] [7]] ?s")
  then have "length frames = 2" by (auto simp: encrypt_message_def generate_nonce_def Session_new_def)
  with r nonces_never_repeat [OF r] show ?thesis by auto
qed

text \<open>What every reachable session satisfies.\<close>

definition session_keys_for :: "session_lib \<Rightarrow> bytes \<Rightarrow> Session \<Rightarrow> bool" where
  "session_keys_for L secret s \<longleftrightarrow>
     (let first = take 32 (sl_hash L (secret @ session_context)); second = take 32 (sl_hash L (secret @ session_context @ [1]))
      in if se_is_initiator s then sk_tx_key (se_keys s) = first \<and> sk_rx_key (se_keys s) = second
         else sk_rx_key (se_keys s) = first \<and> sk_tx_key (se_keys s) = second)"

definition session_inv :: "session_lib \<Rightarrow> Session \<Rightarrow> bool" where
  "session_inv L s \<longleftrightarrow> (case se_state s of
       ESTABLISHED \<Rightarrow> (\<exists>secret. sl_scalarmult L (snd (se_ephemeral s)) (se_remote_ephemeral s) = Some secret \<and> session_keys_for L secret s)
     | CLOSED \<Rightarrow> se_ephemeral s = (replicate 32 0, replicate 64 0) \<and> sk_tx_key (se_keys s) = replicate 32 0 \<and> sk_rx_key (se_keys s) = replicate 32 0
     | CLOSING \<Rightarrow> False
     | _ \<Rightarrow> True)"

lemma session_inv_step: "session_inv L s \<Longrightarrow> session_inv L (snd (session_step L x s))"
  by (cases x; cases "se_state s")
    (auto simp: session_inv_def session_defs session_keys_for_def X25519_exchange_def Let_def split: if_splits option.splits)

interpretation session_machine: invariant_machine "\<lambda>s x. snd (session_step L x s)" "session_inv L"
  by unfold_locales (rule session_inv_step)

lemma session_run_foldl: "snd (session_run L xs s) = foldl (\<lambda>s x. snd (session_step L x s)) s xs"
  by (induction xs arbitrary: s) (simp_all add: case_prod_beta Let_def)

lemma closed_stays: "se_state s = CLOSED \<Longrightarrow> session_step L x s = ([], s)"
  by (cases x) (simp_all add: session_defs)

lemma closed_run: "se_state s = CLOSED \<Longrightarrow> session_run L xs s = ([], s)"
  by (induction xs) (simp_all add: closed_stays)

text \<open>
  in every state of a session that any sequence of operations reaches, established means that the
  key exchange succeeded and the keys are those derived from its secret, closed means that all key
  material is zero and that nothing is ever sent again, and the state \<open>CLOSING\<close> does not occur.
\<close>

theorem session_lifecycle:
  fixes L ops now a b
  defines "s \<equiv> snd (session_run L ops (Session_new now a b))"
  shows "(se_state s = ESTABLISHED \<longrightarrow>
      (\<exists>secret. sl_scalarmult L (snd (se_ephemeral s)) (se_remote_ephemeral s) = Some secret \<and> session_keys_for L secret s)) \<and>
    (se_state s = CLOSED \<longrightarrow> se_ephemeral s = (replicate 32 0, replicate 64 0) \<and>
      sk_tx_key (se_keys s) = replicate 32 0 \<and> sk_rx_key (se_keys s) = replicate 32 0 \<and> session_run L later s = ([], s)) \<and>
    se_state s \<noteq> CLOSING"
proof -
  have "session_inv L (Session_new now a b)" by (simp add: session_inv_def Session_new_def)
  then have "session_inv L s" unfolding s_def session_run_foldl by (rule session_machine.run_inv)
  then show ?thesis by (auto simp: session_inv_def closed_run split: SessionState.splits)
qed

theorem session_lifecycle_witness:
  "se_state (snd (session_run sample_lib [Initiate 0 ([1], [1]), Close] (Session_new 0 (NodeID []) (NodeID [])))) = CLOSED \<and>
   se_ephemeral (snd (session_run sample_lib [Initiate 0 ([1], [1]), Close] (Session_new 0 (NodeID []) (NodeID [])))) =
     (replicate 32 0, replicate 64 0)"
proof -
  let ?s = "snd (session_run sample_lib [Initiate 0 ([1], [1]), Close] (Session_new 0 (NodeID []) (NodeID [])))"
  have "se_state ?s = CLOSED" by (simp add: initiate_handshake_def session_close_def Session_new_def)
  with session_lifecycle [where L = sample_lib and ops = "[Initiate 0 ([1], [1]), Close]" and now = 0 and a = "NodeID []" and b = "NodeID []"]
  show ?thesis by blast
qed

section \<open>Runs of the manager\<close>

datatype manager_op =
    CreateOutbound u64 NodeID
  | InboundHandshake u64 "bytes \<times> bytes" HandshakeMessage
  | OnSession session_ptr session_op
  | CloseSession NodeID
  | CloseAll
  | Cleanup u64

fun manager_step :: "session_lib \<Rightarrow> SessionManager \<Rightarrow> manager_op \<Rightarrow> SessionManager" where
  "manager_step L m (CreateOutbound now r) = snd (create_outbound_session now r m)"
| "manager_step L m (InboundHandshake now k h) = snd (handle_inbound_handshake L now k h m)"
| "manager_step L m (OnSession p x) =
     (case session_at m p of None \<Rightarrow> m | Some s \<Rightarrow> session_put p (snd (session_step L x s)) m)"
| "manager_step L m (CloseSession r) = close_session r m"
| "manager_step L m CloseAll = close_all_sessions m"
| "manager_step L m (Cleanup now) = cleanup_stale_sessions now m"

definition manager_inv :: "SessionManager \<Rightarrow> bool" where
  "manager_inv m \<longleftrightarrow> distinct (map fst (mg_sessions m)) \<and> distinct (map (se_remote \<circ> snd) (mg_sessions m)) \<and>
     list_all (\<lambda>e. fst e < mg_next m \<and> se_local (snd e) = mg_local m) (mg_sessions m)"

lemma session_entry_None: "session_entry m r = None \<longleftrightarrow> r \<notin> (se_remote \<circ> snd) ` set (mg_sessions m)"
  by (force simp: session_entry_def find_None_iff)

lemma find_distinct:
  "distinct (map f xs) \<Longrightarrow> find (\<lambda>e. f e = r) xs = Some e \<longleftrightarrow> e \<in> set xs \<and> f e = r"
  by (induction xs) auto

lemma find_append: "find P (xs @ ys) = (case find P xs of None \<Rightarrow> find P ys | Some x \<Rightarrow> Some x)"
  by (induction xs) simp_all

lemma session_entry_Some:
  "manager_inv m \<Longrightarrow> session_entry m r = Some (p, s) \<longleftrightarrow> (p, s) \<in> set (mg_sessions m) \<and> se_remote s = r"
  using find_distinct [of "se_remote \<circ> snd" "mg_sessions m" r "(p, s)"] by (simp add: manager_inv_def session_entry_def)

lemma session_put_simps [simp]: "mg_next (session_put p s m) = mg_next m" "mg_local (session_put p s m) = mg_local m"
  by (simp_all add: session_put_def)

lemma session_step_same: "se_remote (snd (session_step L x s)) = se_remote s \<and> se_local (snd (session_step L x s)) = se_local s"
  by (cases x) (simp_all add: session_defs Let_def split: option.splits)

lemma session_close_same [simp]: "se_remote (session_close s) = se_remote s" "se_local (session_close s) = se_local s"
  by (simp_all add: session_close_def)

lemma manager_inv_put:
  assumes "manager_inv m" "session_at m p = Some s" "se_remote s' = se_remote s" "se_local s' = se_local s"
  shows "manager_inv (session_put p s' m)"
proof -
  have s: "e \<in> set (mg_sessions m) \<Longrightarrow> fst e = p \<Longrightarrow> snd e = s" for e
    using assms(1,2) unfolding manager_inv_def session_at_def by (metis eq_key_imp_eq_value map_of_SomeD prod.collapse)
  then have "map fst (mg_sessions (session_put p s' m)) = map fst (mg_sessions m)"
    "map (se_remote \<circ> snd) (mg_sessions (session_put p s' m)) = map (se_remote \<circ> snd) (mg_sessions m)"
    using assms(3) by (auto simp: session_put_def)
  moreover have "list_all (\<lambda>e. fst e < mg_next m \<and> se_local (snd e) = mg_local m) (mg_sessions (session_put p s' m))"
    using assms(1,4) s by (force simp: session_put_def manager_inv_def list_all_iff)
  ultimately show ?thesis using assms(1) by (simp add: manager_inv_def)
qed

lemma manager_inv_filter: "manager_inv m \<Longrightarrow> manager_inv (m\<lparr>mg_sessions := filter P (mg_sessions m)\<rparr>)"
  by (auto simp: manager_inv_def list_all_iff distinct_map_filter)

lemma manager_inv_push:
  assumes "manager_inv m" "session_entry m (se_remote s) = None" "se_local s = mg_local m"
  shows "manager_inv (snd (push_session s m))"
  using assms by (auto simp: manager_inv_def push_session_def list_all_iff session_entry_None comp_def)

lemma manager_inv_close: "manager_inv m \<Longrightarrow> manager_inv (close_session r m)"
proof (cases "session_entry m r")
  case None
  then show "manager_inv m \<Longrightarrow> ?thesis" by (simp add: close_session_def)
next
  case (Some e)
  assume inv: "manager_inv m"
  obtain p s where e: "e = (p, s)" by (cases e)
  have "session_at m p = Some s" using Some e inv session_entry_Some [OF inv] by (auto simp: session_at_def manager_inv_def)
  then show ?thesis
    using manager_inv_filter [OF manager_inv_put [OF inv, of p s "session_close s"]] Some e
    by (simp add: close_session_def remove_session_def)
qed

lemma close_session_gone: "session_entry (close_session r m) r = None"
  by (auto simp: close_session_def session_entry_None remove_session_def split: option.splits)

lemma mg_local_close [simp]: "mg_local (close_session r m) = mg_local m"
  by (simp add: close_session_def remove_session_def session_put_def split: option.splits)

lemma manager_inv_accept:
  assumes "manager_inv m" "session_entry m (hs_node_id h) = None"
  shows "manager_inv (snd (accept_handshake L now k h m))"
proof -
  have "se_remote (snd (handle_handshake_init L now k h (Session_new now (mg_local m) (hs_node_id h)))) = hs_node_id h"
    "se_local (snd (handle_handshake_init L now k h (Session_new now (mg_local m) (hs_node_id h)))) = mg_local m"
    by (simp_all add: handle_handshake_init_def Session_new_def Let_def)
  then show ?thesis using assms manager_inv_push [OF assms(1)]
    by (auto simp: accept_handshake_def case_prod_beta split: prod.splits bool.splits)
qed

lemma manager_inv_step: "manager_inv m \<Longrightarrow> manager_inv (manager_step L m x)"
proof (cases x)
  case (CreateOutbound now r)
  then show "manager_inv m \<Longrightarrow> ?thesis" using manager_inv_push [of m "Session_new now (mg_local m) r"]
    by (auto simp: create_outbound_session_def get_session_def Session_new_def split: option.splits)
next
  case (InboundHandshake now k h)
  then show "manager_inv m \<Longrightarrow> ?thesis"
    using manager_inv_accept [of m h L now k]
      manager_inv_accept [OF manager_inv_close close_session_gone, where L = L and now = now and k = k and h = h]
    by (auto simp: handle_inbound_handshake_def split: option.splits)
next
  case (OnSession p y)
  then show "manager_inv m \<Longrightarrow> ?thesis"
    using manager_inv_put session_step_same by (auto split: option.splits)
next
  case (Cleanup now)
  then show "manager_inv m \<Longrightarrow> ?thesis" by (simp add: cleanup_stale_sessions_def manager_inv_filter)
next
  case CloseAll
  then show "manager_inv m \<Longrightarrow> ?thesis" by (simp add: close_all_sessions_def manager_inv_def)
qed (simp add: manager_inv_close)

interpretation manager_machine: invariant_machine "manager_step L" manager_inv
  by unfold_locales (rule manager_inv_step)

text \<open>
  C37: after every sequence of operations on a manager and on its sessions there is at most one session
  for each remote node, no two sessions share an address, and the lookup by node finds exactly the
  session of that node; a session that is asked for and missing is created once.
\<close>

theorem one_session_per_peer:
  fixes L n ops
  defines "m \<equiv> foldl (manager_step L) (SessionManager_init n) ops"
  shows "distinct (map (se_remote \<circ> snd) (mg_sessions m)) \<and> distinct (map fst (mg_sessions m)) \<and>
    (get_session m r = Some p \<longleftrightarrow> (\<exists>s. session_at m p = Some s \<and> se_remote s = r)) \<and>
    get_session (snd (create_outbound_session now r m)) r = Some (fst (create_outbound_session now r m))"
proof -
  have "manager_inv (SessionManager_init n)" by (simp add: manager_inv_def SessionManager_init_def)
  then have inv: "manager_inv m" unfolding m_def by (rule manager_machine.run_inv)
  have "get_session m r = Some p \<longleftrightarrow> (\<exists>s. session_at m p = Some s \<and> se_remote s = r)"
    using session_entry_Some [OF inv] inv
    by (auto simp: get_session_def session_at_def manager_inv_def)
  moreover have "get_session (snd (create_outbound_session now r m)) r = Some (fst (create_outbound_session now r m))"
    by (auto simp: create_outbound_session_def get_session_def session_entry_def push_session_def Session_new_def find_append
        split: option.splits)
  ultimately show ?thesis using inv by (simp add: manager_inv_def)
qed

end
