(* ===== verification/Peer_Messages.thy ===== *)
theory Peer_Messages
  imports Gossip Reputation Identity
begin

text \<open>
  The messages that peers exchange to find each other, from the second half of \<open>src/network/peer.cpp\<close>:
  announcements, requests for peers and their answers, and the two messages of the NAT traversal.

  Integers are written with the highest byte first. A reader gives \<open>Rejected\<close> where the code returns
  no message and \<open>ReadPastEnd\<close> where it reads beyond the end of the data. The JSON library is the
  parameter \<open>J\<close>, signature verification the parameter \<open>verify\<close>.
\<close>

section \<open>Integers with the highest byte first\<close>

text \<open>\<open>w = 0; for (int i = 0; i < n; ++i) w = (w << 8) | data[offset++];\<close>\<close>

definition be_word :: "bytes \<Rightarrow> 'a::len word" where
  "be_word bs = foldl (\<lambda>w b. push_bit 8 w OR ucast b) 0 bs"

section \<open>Messages\<close>

record PeerAnnouncementMessage =
  am_node_id :: NodeID
  am_listen_address :: string
  am_capabilities :: NodeCapabilities
  am_timestamp :: u64
  am_signature :: bytes

record PeerRequestMessage =
  rm_requester_id :: NodeID
  rm_max_peers :: u32
  rm_timestamp :: u64
  rm_signature :: bytes

record PeerEntry =
  pe_node_id :: NodeID
  pe_address :: string
  pe_capabilities :: NodeCapabilities
  pe_last_seen :: u64

record PeerResponseMessage =
  pr_responder_id :: NodeID
  pr_peers :: "PeerEntry list"
  pr_timestamp :: u64
  pr_signature :: bytes

record NATTraversalRequest =
  nq_requester_id :: NodeID
  nq_nonce :: u64
  nq_timestamp :: u64

record NATTraversalResponse =
  np_public_address :: string
  np_public_port :: u16
  np_timestamp :: u64

definition json_get_bool :: "json \<Rightarrow> identity_error + bool" where
  "json_get_bool j = (case j of JBool b \<Rightarrow> Inr b | _ \<Rightarrow> Inl JsonTypeError)"

definition capabilities_json :: "NodeCapabilities \<Rightarrow> json" where
  "capabilities_json c =
     json_put ''can_provide_storage'' (JBool (nc_can_provide_storage c))
       (json_put ''can_route_content'' (JBool (nc_can_route_content c))
         (json_put ''can_host_things'' (JBool (nc_can_host_things c)) JNull))"

definition read_capabilities :: "json_lib \<Rightarrow> string \<Rightarrow> identity_error + NodeCapabilities" where
  "read_capabilities J s = (case js_parse J s of None \<Rightarrow> Inl JsonParseError | Some j \<Rightarrow>
     result_then (result_then (json_index j ''can_host_things'') json_get_bool) (\<lambda>h.
     result_then (result_then (json_index j ''can_route_content'') json_get_bool) (\<lambda>r.
     result_then (result_then (json_index j ''can_provide_storage'') json_get_bool) (\<lambda>p.
       Inr (NodeCapabilities_new\<lparr>nc_can_host_things := h, nc_can_route_content := r, nc_can_provide_storage := p\<rparr>)))))"

text \<open>The length of a string in 16 bits, then the string.\<close>

definition sized_string :: "string \<Rightarrow> bytes" where
  "sized_string s = be_bytes 2 (word_of_nat (length s) :: u16) @ bytes_of_string s"

definition PeerAnnouncementMessage_to_bytes :: "json_lib \<Rightarrow> PeerAnnouncementMessage \<Rightarrow> bytes option" where
  "PeerAnnouncementMessage_to_bytes J m =
     (case js_dump J (capabilities_json (am_capabilities m)) of
        None \<Rightarrow> None
      | Some caps_str \<Rightarrow>
          Some ([0x01] @ node_bytes (am_node_id m) @ sized_string (am_listen_address m)
                @ be_bytes 8 (am_timestamp m) @ sized_string caps_str @ am_signature m))"

definition PeerAnnouncementMessage_from_bytes :: "json_lib \<Rightarrow> bytes \<Rightarrow> parse_error + PeerAnnouncementMessage" where
  "PeerAnnouncementMessage_from_bytes J data =
     (if length data < 140 then Inl Rejected
      else
        result_then (need ReadPastEnd 1 data) (\<lambda>(t, data).
        if t \<noteq> [0x01] then Inl Rejected else
        result_then (need ReadPastEnd 32 data) (\<lambda>(node, data).
        result_then (need ReadPastEnd 2 data) (\<lambda>(addr_len, data).
        result_then (need Rejected (unat (be_word addr_len :: u16)) data) (\<lambda>(addr, data).
        result_then (need ReadPastEnd 8 data) (\<lambda>(ts, data).
        result_then (need ReadPastEnd 2 data) (\<lambda>(caps_len, data).
        if length data < unat (be_word caps_len :: u16) + 64 then Inl Rejected else
        result_then (need ReadPastEnd (unat (be_word caps_len :: u16)) data) (\<lambda>(caps, data).
        case read_capabilities J (string_of_bytes caps) of
          Inl _ \<Rightarrow> Inl Rejected
        | Inr c \<Rightarrow>
            result_then (need ReadPastEnd 64 data) (\<lambda>(sig, data).
              Inr \<lparr>am_node_id = NodeID node, am_listen_address = string_of_bytes addr, am_capabilities = c,
                   am_timestamp = be_word ts, am_signature = sig\<rparr>)))))))))"

definition announcement_verify_signature ::
  "(bytes \<Rightarrow> bytes \<Rightarrow> bytes \<Rightarrow> bool) \<Rightarrow> bytes \<Rightarrow> PeerAnnouncementMessage \<Rightarrow> bool" where
  "announcement_verify_signature verify public_key m =
     verify (node_bytes (am_node_id m) @ bytes_of_string (am_listen_address m) @ be_bytes 8 (am_timestamp m))
       (am_signature m) public_key"

definition PeerRequestMessage_to_bytes :: "PeerRequestMessage \<Rightarrow> bytes" where
  "PeerRequestMessage_to_bytes m =
     [0x02] @ node_bytes (rm_requester_id m) @ be_bytes 4 (rm_max_peers m) @ be_bytes 8 (rm_timestamp m) @ rm_signature m"

definition PeerRequestMessage_from_bytes :: "bytes \<Rightarrow> PeerRequestMessage option" where
  "PeerRequestMessage_from_bytes data =
     (if length data \<noteq> 109 then None
      else if data ! 0 \<noteq> 0x02 then None
      else Some \<lparr>rm_requester_id = NodeID (slice 1 32 data), rm_max_peers = be_word (slice 33 4 data),
                 rm_timestamp = be_word (slice 37 8 data), rm_signature = slice 45 64 data\<rparr>)"

definition entry_bytes :: "PeerEntry \<Rightarrow> bytes" where
  "entry_bytes e = node_bytes (pe_node_id e) @ sized_string (pe_address e) @ be_bytes 8 (pe_last_seen e)"

definition PeerResponseMessage_to_bytes :: "PeerResponseMessage \<Rightarrow> bytes" where
  "PeerResponseMessage_to_bytes m =
     [0x03] @ node_bytes (pr_responder_id m) @ be_bytes 2 (word_of_nat (length (pr_peers m)) :: u16)
     @ concat (map entry_bytes (pr_peers m)) @ be_bytes 8 (pr_timestamp m) @ pr_signature m"

definition read_entry :: "bytes \<Rightarrow> parse_error + (PeerEntry \<times> bytes)" where
  "read_entry data =
     (if length data < 42 then Inl Rejected
      else
        result_then (need ReadPastEnd 32 data) (\<lambda>(node, data).
        result_then (need ReadPastEnd 2 data) (\<lambda>(addr_len, data).
        result_then (need Rejected (unat (be_word addr_len :: u16)) data) (\<lambda>(addr, data).
        result_then (need ReadPastEnd 8 data) (\<lambda>(seen, data).
          Inr (\<lparr>pe_node_id = NodeID node, pe_address = string_of_bytes addr, pe_capabilities = NodeCapabilities_new,
                pe_last_seen = be_word seen\<rparr>, data))))))"

fun read_entries :: "nat \<Rightarrow> bytes \<Rightarrow> parse_error + (PeerEntry list \<times> bytes)" where
  "read_entries 0 data = Inr ([], data)"
| "read_entries (Suc n) data =
     result_then (read_entry data) (\<lambda>(e, data).
     result_then (read_entries n data) (\<lambda>(es, data). Inr (e # es, data)))"

definition PeerResponseMessage_from_bytes :: "bytes \<Rightarrow> parse_error + PeerResponseMessage" where
  "PeerResponseMessage_from_bytes data =
     (if length data < 107 then Inl Rejected
      else
        result_then (need ReadPastEnd 1 data) (\<lambda>(t, data).
        if t \<noteq> [0x03] then Inl Rejected else
        result_then (need ReadPastEnd 32 data) (\<lambda>(node, data).
        result_then (need ReadPastEnd 2 data) (\<lambda>(peer_count, data).
        result_then (read_entries (unat (be_word peer_count :: u16)) data) (\<lambda>(peers, data).
        if length data < 72 then Inl Rejected else
        result_then (need ReadPastEnd 8 data) (\<lambda>(ts, data).
        result_then (need ReadPastEnd 64 data) (\<lambda>(sig, data).
          Inr \<lparr>pr_responder_id = NodeID node, pr_peers = peers, pr_timestamp = be_word ts, pr_signature = sig\<rparr>)))))))"

definition NATTraversalRequest_to_bytes :: "NATTraversalRequest \<Rightarrow> bytes" where
  "NATTraversalRequest_to_bytes r =
     [0x04] @ node_bytes (nq_requester_id r) @ be_bytes 8 (nq_nonce r) @ be_bytes 8 (nq_timestamp r)"

definition NATTraversalRequest_from_bytes :: "bytes \<Rightarrow> NATTraversalRequest option" where
  "NATTraversalRequest_from_bytes data =
     (if length data \<noteq> 49 then None
      else if data ! 0 \<noteq> 0x04 then None
      else Some \<lparr>nq_requester_id = NodeID (slice 1 32 data), nq_nonce = be_word (slice 33 8 data),
                 nq_timestamp = be_word (slice 41 8 data)\<rparr>)"

definition NATTraversalResponse_to_bytes :: "NATTraversalResponse \<Rightarrow> bytes" where
  "NATTraversalResponse_to_bytes r =
     [0x05] @ sized_string (np_public_address r) @ be_bytes 2 (np_public_port r) @ be_bytes 8 (np_timestamp r)"

definition NATTraversalResponse_from_bytes :: "bytes \<Rightarrow> NATTraversalResponse option" where
  "NATTraversalResponse_from_bytes data =
     (if length data < 13 then None
      else if data ! 0 \<noteq> 0x05 then None
      else let addr_len = unat (be_word (slice 1 2 data) :: u16) in
        if 3 + addr_len + 10 > length data then None
        else Some \<lparr>np_public_address = string_of_bytes (slice 3 addr_len data),
                   np_public_port = be_word (slice (3 + addr_len) 2 data),
                   np_timestamp = be_word (slice (5 + addr_len) 8 data)\<rparr>)"

section \<open>Round trips\<close>

lemma be_word_snoc: "be_word (bs @ [b]) = push_bit 8 (be_word bs) OR ucast b"
  by (simp add: be_word_def)

lemma length_be_bytes [simp]: "length (be_bytes n w) = n"
  by (simp add: be_bytes_def)

lemma bit_be_word:
  "bit (be_word (rev bs) :: 'a::len word) i \<longleftrightarrow> i < LENGTH('a) \<and> i < 8 * length bs \<and> bit (bs ! (i div 8)) (i mod 8)"
proof (induction bs arbitrary: i)
  case Nil
  then show ?case by (simp add: be_word_def)
next
  case (Cons b bs)
  show ?case
  proof (cases "i < 8")
    case True
    then show ?thesis by (auto simp: be_word_snoc bit_simps)
  next
    case False
    then obtain j where j: "i = 8 + j" using le_Suc_ex by (auto simp: not_less)
    have "\<not> bit (ucast b :: 'a word) i" using False bit_imp_le_length [of b i] by (auto simp: bit_simps)
    then show ?thesis using Cons [of j] unfolding j by (auto simp: be_word_snoc bit_simps)
  qed
qed

lemma be_word_be_bytes: "LENGTH('a) \<le> 8 * n \<Longrightarrow> be_word (be_bytes n (w :: 'a::len word)) = w"
proof (rule bit_word_eqI)
  fix i
  assume n: "LENGTH('a) \<le> 8 * n" "i < LENGTH('a)"
  then have "i div 8 < n" by auto
  then show "bit (be_word (be_bytes n w) :: 'a word) i = bit w i"
    using n by (auto simp: be_bytes_le bit_be_word nth_le_bytes bit_simps)
qed

lemma be_word_be_bytes_sized [simp]:
  "be_word (be_bytes 2 (x :: u16)) = x" "be_word (be_bytes 4 (y :: u32)) = y" "be_word (be_bytes 8 (z :: u64)) = z"
  by (simp_all add: be_word_be_bytes)

lemma length_sized_string [simp]: "length (sized_string s) = 2 + length s"
  by (simp add: sized_string_def)

lemma need_all [simp]: "length xs = n \<Longrightarrow> need e n xs = Inr (xs, [])"
  by (simp add: need_def)

definition entry_ok :: "PeerEntry \<Rightarrow> bool" where
  "entry_ok e \<longleftrightarrow> length (node_bytes (pe_node_id e)) = 32 \<and> length (pe_address e) < 2 ^ 16"

definition announcement_ok :: "json_lib \<Rightarrow> PeerAnnouncementMessage \<Rightarrow> bool" where
  "announcement_ok J m \<longleftrightarrow> length (node_bytes (am_node_id m)) = 32 \<and> length (am_listen_address m) < 2 ^ 16 \<and>
     length (am_signature m) = 64 \<and> nc_storage_capacity (am_capabilities m) = 0 \<and> nc_bandwidth_capacity (am_capabilities m) = 0 \<and>
     (\<exists>s. js_dump J (capabilities_json (am_capabilities m)) = Some s \<and> js_parse J s = Some (capabilities_json (am_capabilities m)) \<and>
       31 \<le> length s \<and> length s < 2 ^ 16)"

definition request_ok :: "PeerRequestMessage \<Rightarrow> bool" where
  "request_ok m \<longleftrightarrow> length (node_bytes (rm_requester_id m)) = 32 \<and> length (rm_signature m) = 64"

definition response_ok :: "PeerResponseMessage \<Rightarrow> bool" where
  "response_ok m \<longleftrightarrow> length (node_bytes (pr_responder_id m)) = 32 \<and> length (pr_signature m) = 64 \<and>
     length (pr_peers m) < 2 ^ 16 \<and> list_all entry_ok (pr_peers m)"

definition nat_request_ok :: "NATTraversalRequest \<Rightarrow> bool" where
  "nat_request_ok r \<longleftrightarrow> length (node_bytes (nq_requester_id r)) = 32"

definition nat_response_ok :: "NATTraversalResponse \<Rightarrow> bool" where
  "nat_response_ok r \<longleftrightarrow> length (np_public_address r) < 2 ^ 16"

lemma request_dec_enc: "request_ok m \<Longrightarrow> PeerRequestMessage_from_bytes (PeerRequestMessage_to_bytes m) = Some m"
  by (simp add: request_ok_def PeerRequestMessage_from_bytes_def PeerRequestMessage_to_bytes_def codec_simps)

interpretation request_codec: codec PeerRequestMessage_to_bytes PeerRequestMessage_from_bytes request_ok
  by unfold_locales (rule request_dec_enc)

lemma nat_request_dec_enc: "nat_request_ok r \<Longrightarrow> NATTraversalRequest_from_bytes (NATTraversalRequest_to_bytes r) = Some r"
  by (simp add: nat_request_ok_def NATTraversalRequest_from_bytes_def NATTraversalRequest_to_bytes_def codec_simps)

interpretation nat_request_codec: codec NATTraversalRequest_to_bytes NATTraversalRequest_from_bytes nat_request_ok
  by unfold_locales (rule nat_request_dec_enc)

lemma nat_response_dec_enc:
  "nat_response_ok r \<Longrightarrow> NATTraversalResponse_from_bytes (NATTraversalResponse_to_bytes r @ rest) = Some r"
  by (simp add: nat_response_ok_def NATTraversalResponse_from_bytes_def NATTraversalResponse_to_bytes_def sized_string_def
      codec_simps Let_def)

interpretation nat_response_codec: trailing_codec NATTraversalResponse_to_bytes NATTraversalResponse_from_bytes nat_response_ok
  by unfold_locales (rule nat_response_dec_enc)

lemma read_entry_bytes:
  "entry_ok e \<Longrightarrow> read_entry (entry_bytes e @ r) = Inr (e\<lparr>pe_capabilities := NodeCapabilities_new\<rparr>, r)"
  by (simp add: entry_ok_def read_entry_def entry_bytes_def sized_string_def)

lemma read_entries_bytes:
  "list_all entry_ok es \<Longrightarrow>
     read_entries (length es) (concat (map entry_bytes es) @ r) = Inr (map (\<lambda>e. e\<lparr>pe_capabilities := NodeCapabilities_new\<rparr>) es, r)"
  by (induction es) (simp_all add: read_entry_bytes)

lemma response_dec_enc:
  "response_ok m \<Longrightarrow> PeerResponseMessage_from_bytes (PeerResponseMessage_to_bytes m) =
     Inr (m\<lparr>pr_peers := map (\<lambda>e. e\<lparr>pe_capabilities := NodeCapabilities_new\<rparr>) (pr_peers m)\<rparr>)"
  by (simp add: response_ok_def PeerResponseMessage_from_bytes_def PeerResponseMessage_to_bytes_def read_entries_bytes)

lemma read_capabilities_json:
  "js_parse J s = Some (capabilities_json c) \<Longrightarrow> nc_storage_capacity c = 0 \<Longrightarrow> nc_bandwidth_capacity c = 0 \<Longrightarrow>
     read_capabilities J s = Inr c"
  by (simp add: read_capabilities_def capabilities_json_def json_put_def json_index_def json_get_bool_def NodeCapabilities_new_def)

lemma announcement_dec_enc:
  assumes "announcement_ok J m"
  shows "\<exists>data. PeerAnnouncementMessage_to_bytes J m = Some data \<and> PeerAnnouncementMessage_from_bytes J data = Inr m"
proof -
  obtain s where s: "js_dump J (capabilities_json (am_capabilities m)) = Some s"
    "js_parse J s = Some (capabilities_json (am_capabilities m))" "31 \<le> length s" "length s < 2 ^ 16"
    using assms unfolding announcement_ok_def by blast
  have "read_capabilities J s = Inr (am_capabilities m)"
    using assms s(2) by (intro read_capabilities_json) (simp_all add: announcement_ok_def)
  then show ?thesis using assms s(1,3,4)
    by (simp add: announcement_ok_def PeerAnnouncementMessage_to_bytes_def PeerAnnouncementMessage_from_bytes_def sized_string_def)
qed

text \<open>
  the five peer messages survive encoding and decoding, with two exceptions that the formats have:
  an answer loses the capabilities of the peers it lists, and an announcement keeps only the three
  flags of the capabilities. Strings are shorter than 65536 bytes.
\<close>

theorem peer_messages_roundtrip:
  assumes "announcement_ok J a" "request_ok q" "response_ok p" "nat_request_ok nq" "nat_response_ok np"
  shows "Option.bind (PeerAnnouncementMessage_to_bytes J a) (\<lambda>data. accepted (PeerAnnouncementMessage_from_bytes J data)) = Some a \<and>
    PeerRequestMessage_from_bytes (PeerRequestMessage_to_bytes q) = Some q \<and>
    PeerResponseMessage_from_bytes (PeerResponseMessage_to_bytes p) =
      Inr (p\<lparr>pr_peers := map (\<lambda>e. e\<lparr>pe_capabilities := NodeCapabilities_new\<rparr>) (pr_peers p)\<rparr>) \<and>
    NATTraversalRequest_from_bytes (NATTraversalRequest_to_bytes nq) = Some nq \<and>
    NATTraversalResponse_from_bytes (NATTraversalResponse_to_bytes np @ rest) = Some np"
  using announcement_dec_enc [OF assms(1)] request_codec.dec_enc [OF assms(2)] response_dec_enc [OF assms(3)]
    nat_request_codec.dec_enc [OF assms(4)] nat_response_codec.dec_enc_append [OF assms(5)]
  by (auto simp: accepted_def)

definition flags_json :: json_lib where
  "flags_json = \<lparr>js_dump = (\<lambda>j. if j = capabilities_json NodeCapabilities_new then Some (replicate 40 CHR ''c'') else None),
     js_parse = (\<lambda>s. if s = replicate 40 CHR ''c'' then Some (capabilities_json NodeCapabilities_new) else None), js_float_to_uint = id\<rparr>"

theorem peer_messages_roundtrip_witness:
  "Option.bind (PeerAnnouncementMessage_to_bytes flags_json
       \<lparr>am_node_id = NodeID (replicate 32 1), am_listen_address = ''10.0.0.1:80'', am_capabilities = NodeCapabilities_new,
        am_timestamp = 5, am_signature = replicate 64 2\<rparr>)
     (\<lambda>data. accepted (PeerAnnouncementMessage_from_bytes flags_json data)) =
     Some \<lparr>am_node_id = NodeID (replicate 32 1), am_listen_address = ''10.0.0.1:80'', am_capabilities = NodeCapabilities_new,
       am_timestamp = 5, am_signature = replicate 64 2\<rparr>"
  using peer_messages_roundtrip [where J = flags_json
    and a = "\<lparr>am_node_id = NodeID (replicate 32 1), am_listen_address = ''10.0.0.1:80'', am_capabilities = NodeCapabilities_new,
        am_timestamp = 5, am_signature = replicate 64 2\<rparr>"
    and q = "\<lparr>rm_requester_id = NodeID (replicate 32 1), rm_max_peers = 3, rm_timestamp = 5, rm_signature = replicate 64 2\<rparr>"
    and p = "\<lparr>pr_responder_id = NodeID (replicate 32 1), pr_peers = [], pr_timestamp = 5, pr_signature = replicate 64 2\<rparr>"
    and nq = "\<lparr>nq_requester_id = NodeID (replicate 32 1), nq_nonce = 1, nq_timestamp = 2\<rparr>"
    and np = "\<lparr>np_public_address = ''10.0.0.1'', np_public_port = 80, np_timestamp = 2\<rparr>"]
  by (simp add: announcement_ok_def request_ok_def response_ok_def nat_request_ok_def nat_response_ok_def
      flags_json_def NodeCapabilities_new_def)

text \<open>A short message with a long address makes the readers look beyond its end.\<close>

theorem announcement_reads_past_end:
  "PeerAnnouncementMessage_from_bytes J ([1] @ replicate 32 0 @ [0, 105] @ replicate 105 0) = Inl ReadPastEnd"
  by (simp add: PeerAnnouncementMessage_from_bytes_def need_def be_word_def)

theorem response_reads_past_end:
  "PeerResponseMessage_from_bytes ([3] @ replicate 32 0 @ [0, 1] @ replicate 32 0 @ [0, 38] @ replicate 38 0) = Inl ReadPastEnd"
  by (simp add: PeerResponseMessage_from_bytes_def read_entry_def need_def be_word_def)

end
