(* ===== verification/Peers.thy ===== *)
theory Peers
  imports Peer_Messages Sessions "HOL-Library.Multiset"
begin

text \<open>
  Peer discovery and the peer manager, from \<open>src/network/peer.cpp\<close>.

  The manager owns its connections and reaches the sessions of a \<open>SessionManager\<close> through pointers, so
  that the state contains the session manager too. What an operation reads from outside is the
  environment \<open>E\<close>: the clock in seconds (an operation runs within one second), libsodium, the key pair
  and the nonce bytes drawn for a peer, and the values drawn by the shuffle. \<open>srt\<close> stands for
  \<open>std::sort\<close>, which leaves the order of equal elements open. A callback that is set is called with
  the peer; the calls are returned beside the state, and a callback does not call back into the manager.

  The gossip protocol and the router that the class refers to are not used by its operations. Where the
  code updates a copy of a peer record (\<open>const_cast\<close> of the value that \<open>get_peer_info\<close> returns), the
  stored record does not change.

  A fault is undefined behaviour or an exception that leaves the operation.
\<close>

section \<open>Data\<close>

datatype peer_fault = DanglingPointer | DivisionByZero | BadNumber

record PeerInfo =
  pi_node_id :: NodeID
  pi_address :: string
  pi_last_seen :: u64
  pi_first_seen :: u64
  pi_capabilities :: NodeCapabilities
  pi_connection_attempts :: u32
  pi_successful_connections :: u32
  pi_is_bootstrap :: bool

record PeerConnection =
  pc_peer_id :: NodeID
  pc_address :: string
  pc_session :: "session_ptr option"
  pc_connected_at :: u64
  pc_last_activity :: u64
  pc_bytes_sent :: u64
  pc_bytes_received :: u64
  pc_is_outbound :: bool

record ConnectionPolicy =
  cn_max_peers :: nat
  cn_target_peers :: nat
  cn_min_peers :: nat
  cn_max_bootstrap_peers :: nat
  cn_outbound_only :: bool
  cn_connection_timeout :: u32
  cn_idle_timeout :: u32
  cn_reconnect_delay :: u32
  cn_max_attempts :: u32
  cn_min_reliability :: f32
  cn_allow_local :: bool

definition ConnectionPolicy_default :: ConnectionPolicy where
  "ConnectionPolicy_default = \<lparr>cn_max_peers = 50, cn_target_peers = 20, cn_min_peers = 5, cn_max_bootstrap_peers = 10,
     cn_outbound_only = True, cn_connection_timeout = 30, cn_idle_timeout = 300, cn_reconnect_delay = 60,
     cn_max_attempts = 5, cn_min_reliability = f32_of_rat (3 / 10), cn_allow_local = False\<rparr>"

record BootstrapNode =
  bn_address :: string
  bn_public_key :: bytes
  bn_description :: string

record PeerDiversity =
  dv_subnets :: "string list"
  dv_addresses :: "string list"
  dv_regions :: nat

definition PeerDiversity_new :: PeerDiversity where
  "PeerDiversity_new = \<lparr>dv_subnets = [], dv_addresses = [], dv_regions = 0\<rparr>"

record PeerDiscovery =
  pd_bootstrap :: "BootstrapNode list"
  pd_peers :: "(NodeID \<times> PeerInfo) list"

definition PeerDiscovery_init :: PeerDiscovery where
  "PeerDiscovery_init = \<lparr>pd_bootstrap = [], pd_peers = []\<rparr>"

definition PEER_STALE_TIMEOUT :: u64 where "PEER_STALE_TIMEOUT = 3600"

section \<open>Peer records\<close>

definition reliability_score :: "PeerInfo \<Rightarrow> f32" where
  "reliability_score p =
     (if pi_connection_attempts p = 0 then Fin 1
      else let success_rate = f32_div (f32_of_int (uint (pi_successful_connections p))) (f32_of_int (uint (pi_connection_attempts p)))
           in if pi_is_bootstrap p then f32_add (f32_mul (Fin (1 / 2)) success_rate) (Fin (1 / 2)) else success_rate)"

definition peer_is_stale :: "u64 \<Rightarrow> PeerInfo \<Rightarrow> bool" where
  "peer_is_stale now p \<longleftrightarrow> now - pi_last_seen p > PEER_STALE_TIMEOUT"

definition is_idle :: "u64 \<Rightarrow> PeerConnection \<Rightarrow> bool" where
  "is_idle now c \<longleftrightarrow> now - pc_last_activity c > 300"

text \<open>\<open>std::chrono::seconds\<close> holds a signed number of 64 bits.\<close>

definition idle_duration :: "u64 \<Rightarrow> PeerConnection \<Rightarrow> int" where
  "idle_duration now c = sint (now - pc_last_activity c)"

section \<open>Discovery\<close>

definition add_bootstrap_node :: "BootstrapNode \<Rightarrow> PeerDiscovery \<Rightarrow> PeerDiscovery" where
  "add_bootstrap_node n d = d\<lparr>pd_bootstrap := pd_bootstrap d @ [n]\<rparr>"

definition new_peer :: "u64 \<Rightarrow> NodeID \<Rightarrow> string \<Rightarrow> PeerInfo" where
  "new_peer now n address = \<lparr>pi_node_id = n, pi_address = address, pi_last_seen = now, pi_first_seen = now,
     pi_capabilities = NodeCapabilities_new, pi_connection_attempts = 0, pi_successful_connections = 0, pi_is_bootstrap = False\<rparr>"

definition add_discovered_peer :: "u64 \<Rightarrow> NodeID \<Rightarrow> string \<Rightarrow> PeerDiscovery \<Rightarrow> PeerDiscovery" where
  "add_discovered_peer now n address d =
     (case map_of (pd_peers d) n of
        None \<Rightarrow> d\<lparr>pd_peers := omap_set n (new_peer now n address) (pd_peers d)\<rparr>
      | Some p \<Rightarrow> d\<lparr>pd_peers := omap_set n (p\<lparr>pi_address := address, pi_last_seen := now\<rparr>) (pd_peers d)\<rparr>)"

definition update_peer_seen :: "u64 \<Rightarrow> NodeID \<Rightarrow> PeerDiscovery \<Rightarrow> PeerDiscovery" where
  "update_peer_seen now n d =
     (case map_of (pd_peers d) n of
        None \<Rightarrow> d
      | Some p \<Rightarrow> d\<lparr>pd_peers := omap_set n (p\<lparr>pi_last_seen := now\<rparr>) (pd_peers d)\<rparr>)"

definition update_peer_capabilities :: "NodeID \<Rightarrow> NodeCapabilities \<Rightarrow> PeerDiscovery \<Rightarrow> PeerDiscovery" where
  "update_peer_capabilities n caps d =
     (case map_of (pd_peers d) n of
        None \<Rightarrow> d
      | Some p \<Rightarrow> d\<lparr>pd_peers := omap_set n (p\<lparr>pi_capabilities := caps\<rparr>) (pd_peers d)\<rparr>)"

definition get_discovered_peers :: "PeerDiscovery \<Rightarrow> PeerInfo list" where
  "get_discovered_peers d = map snd (pd_peers d)"

definition get_peer_info :: "PeerDiscovery \<Rightarrow> NodeID \<Rightarrow> PeerInfo option" where
  "get_peer_info d n = map_of (pd_peers d) n"

text \<open>The peers that the three selections consider.\<close>

definition available_peers :: "u64 \<Rightarrow> NodeID list \<Rightarrow> PeerDiscovery \<Rightarrow> (NodeID \<times> PeerInfo) list" where
  "available_peers now exclude d = filter (\<lambda>(n, p). n \<notin> set exclude \<and> \<not> peer_is_stale now p) (pd_peers d)"

definition peer_score :: "PeerInfo \<Rightarrow> f32" where
  "peer_score p = f32_add (f32_mul (reliability_score p) (Fin 1)) (if pi_is_bootstrap p then Fin (1 / 2) else Fin 0)"

type_synonym peer_sort = "(NodeID \<times> f32) list \<Rightarrow> (NodeID \<times> f32) list"

definition select_peers_to_connect :: "peer_sort \<Rightarrow> u64 \<Rightarrow> nat \<Rightarrow> NodeID list \<Rightarrow> PeerDiscovery \<Rightarrow> NodeID list" where
  "select_peers_to_connect srt now k exclude d =
     map fst (take k (srt (map (\<lambda>(n, p). (n, peer_score p)) (available_peers now exclude d))))"

text \<open>
  The shuffle: \<open>i\<close> runs from the last index down to one. On an empty vector the first index is
  \<open>2\<^sup>64 - 1\<close>, and the remainder modulo \<open>i + 1 = 0\<close> is taken.
\<close>

fun fisher_yates :: "(nat \<Rightarrow> u64) \<Rightarrow> nat \<Rightarrow> 'a list \<Rightarrow> 'a list" where
  "fisher_yates draw 0 xs = xs"
| "fisher_yates draw (Suc i) xs =
     (let j = unat (draw (Suc i)) mod (Suc (Suc i))
      in fisher_yates draw i (xs[Suc i := xs ! j, j := xs ! Suc i]))"

definition shuffle :: "(nat \<Rightarrow> u64) \<Rightarrow> 'a list \<Rightarrow> peer_fault + 'a list" where
  "shuffle draw xs = (if xs = [] then Inl DivisionByZero else Inr (fisher_yates draw (length xs - 1) xs))"

definition select_random_peers ::
  "(nat \<Rightarrow> u64) \<Rightarrow> u64 \<Rightarrow> nat \<Rightarrow> NodeID list \<Rightarrow> PeerDiscovery \<Rightarrow> peer_fault + NodeID list" where
  "select_random_peers draw now k exclude d =
     result_then (shuffle draw (map fst (available_peers now exclude d))) (\<lambda>xs. Inr (take k xs))"

text \<open>\<open>ip.rfind('.')\<close>: the part before the last dot.\<close>

definition before_last_dot :: "string \<Rightarrow> string option" where
  "before_last_dot s =
     (if CHR ''.'' \<in> set s then Some (rev (tl (dropWhile (\<lambda>c. c \<noteq> CHR ''.'') (rev s)))) else None)"

fun third_colon :: "nat \<Rightarrow> string \<Rightarrow> string \<Rightarrow> string option" where
  "third_colon found before [] = None"
| "third_colon found before (c # cs) =
     (if c = CHR '':'' then (if found + 1 = 3 then Some before else third_colon (found + 1) (before @ [c]) cs)
      else third_colon found (before @ [c]) cs)"

definition extract_subnet :: "string \<Rightarrow> string" where
  "extract_subnet address =
     (let ip = takeWhile (\<lambda>c. c \<noteq> CHR '':'') address in
      case before_last_dot ip of
        Some net \<Rightarrow> net @ ''.0/24''
      | None \<Rightarrow> (case third_colon 0 [] ip of Some net \<Rightarrow> net @ ''::/48'' | None \<Rightarrow> ip))"

definition diversity_score :: "PeerDiversity \<Rightarrow> PeerInfo \<Rightarrow> f32" where
  "diversity_score dv p =
     (let score = (if extract_subnet (pi_address p) \<in> set (dv_subnets dv) then f32_mul (Fin 1) (f32_of_rat (3 / 10)) else Fin 1)
      in f32_mul score (reliability_score p))"

definition select_diverse_peers ::
  "peer_sort \<Rightarrow> u64 \<Rightarrow> nat \<Rightarrow> NodeID list \<Rightarrow> PeerDiversity \<Rightarrow> PeerDiscovery \<Rightarrow> NodeID list" where
  "select_diverse_peers srt now k exclude dv d =
     map fst (take k (srt (map (\<lambda>(n, p). (n, diversity_score dv p)) (available_peers now exclude d))))"

definition count_diversity :: "PeerDiscovery \<Rightarrow> NodeID \<Rightarrow> PeerDiversity \<Rightarrow> PeerDiversity" where
  "count_diversity d n dv = (case get_peer_info d n of
       None \<Rightarrow> dv
     | Some p \<Rightarrow> dv\<lparr>dv_subnets := List.insert (extract_subnet (pi_address p)) (dv_subnets dv),
                     dv_addresses := List.insert (pi_address p) (dv_addresses dv), dv_regions := dv_regions dv + 1\<rparr>)"

definition calculate_diversity :: "PeerDiscovery \<Rightarrow> NodeID list \<Rightarrow> PeerDiversity" where
  "calculate_diversity d peers = fold (count_diversity d) peers PeerDiversity_new"

definition is_diverse :: "PeerDiversity \<Rightarrow> bool" where
  "is_diverse dv =
     (if length (dv_subnets dv) < 3 then False
      else if length (dv_addresses dv) < 5 then False
      else if dv_regions dv < 2 then False
      else True)"

definition cleanup_stale_peers :: "u64 \<Rightarrow> PeerDiscovery \<Rightarrow> PeerDiscovery" where
  "cleanup_stale_peers now d =
     (let to_remove = map fst (filter (\<lambda>(n, p). peer_is_stale now p \<and> \<not> pi_is_bootstrap p) (pd_peers d))
      in d\<lparr>pd_peers := fold omap_erase to_remove (pd_peers d)\<rparr>)"

subsection \<open>The database on disk\<close>

definition bootstrap_json :: "BootstrapNode \<Rightarrow> json" where
  "bootstrap_json n =
     json_put ''description'' (JStr (bn_description n))
       (json_put ''public_key'' (JStr (hash_to_hex (bn_public_key n)))
         (json_put ''address'' (JStr (bn_address n)) JNull))"

definition peer_json :: "NodeID \<times> PeerInfo \<Rightarrow> json" where
  "peer_json = (\<lambda>(n, p).
     json_put ''is_bootstrap'' (JBool (pi_is_bootstrap p))
       (json_put ''successful_connections'' (JUint (ucast (pi_successful_connections p)))
         (json_put ''connection_attempts'' (JUint (ucast (pi_connection_attempts p)))
           (json_put ''last_seen'' (JUint (pi_last_seen p))
             (json_put ''first_seen'' (JUint (pi_first_seen p))
               (json_put ''address'' (JStr (pi_address p))
                 (json_put ''node_id'' (JStr (NodeID_to_string n)) JNull)))))))"

definition discovery_json :: "PeerDiscovery \<Rightarrow> json" where
  "discovery_json d =
     json_put ''discovered_peers'' (JArr (map peer_json (pd_peers d)))
       (json_put ''bootstrap_nodes'' (JArr (map bootstrap_json (pd_bootstrap d))) JNull)"

text \<open>
  The result, and the contents of the file when the code opened it: the file is empty from then on
  until the text is written.
\<close>

definition save_to_disk :: "json_lib \<Rightarrow> bool \<Rightarrow> PeerDiscovery \<Rightarrow> bool \<times> string option" where
  "save_to_disk J can_open d =
     (if \<not> can_open then (False, None)
      else case js_dump J (discovery_json d) of None \<Rightarrow> (False, Some []) | Some text \<Rightarrow> (True, Some text))"

text \<open>Iterating over a value: the elements of an array, the values of an object, a scalar itself.\<close>

definition json_items :: "json \<Rightarrow> json list" where
  "json_items j = (case j of JArr xs \<Rightarrow> xs | JObj m \<Rightarrow> map snd m | JNull \<Rightarrow> [] | _ \<Rightarrow> [j])"

definition read_hash :: "json \<Rightarrow> identity_error + Hash256" where
  "read_hash j = result_then (json_get_string j) (\<lambda>s. case hex_to_hash s of Inl _ \<Rightarrow> Inl InvalidHex | Inr h \<Rightarrow> Inr h)"

definition read_bootstrap :: "json \<Rightarrow> identity_error + BootstrapNode" where
  "read_bootstrap j =
     result_then (result_then (json_index_const j ''address'') json_get_string) (\<lambda>address.
     result_then (result_then (json_index_const j ''public_key'') read_hash) (\<lambda>key.
     result_then (result_then (json_index_const j ''description'') json_get_string) (\<lambda>description.
       Inr \<lparr>bn_address = address, bn_public_key = key, bn_description = description\<rparr>)))"

definition read_peer :: "json_lib \<Rightarrow> json \<Rightarrow> identity_error + PeerInfo" where
  "read_peer J j =
     result_then (result_then (json_index_const j ''node_id'') read_hash) (\<lambda>node.
     result_then (result_then (json_index_const j ''address'') json_get_string) (\<lambda>address.
     result_then (result_then (json_index_const j ''first_seen'') (json_get_uint J)) (\<lambda>first.
     result_then (result_then (json_index_const j ''last_seen'') (json_get_uint J)) (\<lambda>last.
     result_then (result_then (json_index_const j ''connection_attempts'') (json_get_uint J)) (\<lambda>attempts.
     result_then (result_then (json_index_const j ''successful_connections'') (json_get_uint J)) (\<lambda>successful.
     result_then (result_then (json_index_const j ''is_bootstrap'') json_get_bool) (\<lambda>b.
       Inr \<lparr>pi_node_id = NodeID node, pi_address = address, pi_last_seen = last, pi_first_seen = first,
            pi_capabilities = NodeCapabilities_new, pi_connection_attempts = ucast attempts,
            pi_successful_connections = ucast successful, pi_is_bootstrap = b\<rparr>)))))))"

text \<open>The two loops of the reader; what was read before an error stays.\<close>

fun load_bootstrap :: "json list \<Rightarrow> PeerDiscovery \<Rightarrow> identity_error option \<times> PeerDiscovery" where
  "load_bootstrap [] d = (None, d)"
| "load_bootstrap (j # js) d = (case read_bootstrap j of
       Inl e \<Rightarrow> (Some e, d) | Inr n \<Rightarrow> load_bootstrap js (add_bootstrap_node n d))"

fun load_peers :: "json_lib \<Rightarrow> json list \<Rightarrow> PeerDiscovery \<Rightarrow> identity_error option \<times> PeerDiscovery" where
  "load_peers J [] d = (None, d)"
| "load_peers J (j # js) d = (case read_peer J j of
       Inl e \<Rightarrow> (Some e, d)
     | Inr p \<Rightarrow> load_peers J js (d\<lparr>pd_peers := omap_set (pi_node_id p) p (pd_peers d)\<rparr>))"

definition json_member :: "json \<Rightarrow> string \<Rightarrow> json list" where
  "json_member j k = (case json_index j k of Inl _ \<Rightarrow> [] | Inr x \<Rightarrow> if json_contains j k then json_items x else [])"

text \<open>
  \<open>file\<close> is the text of the file, \<open>None\<close> when it cannot be opened. The error is kept beside the state:
  the code catches every exception and returns false; a missing key of an object is an assertion of
  the library.
\<close>

definition load_from_disk :: "json_lib \<Rightarrow> string option \<Rightarrow> PeerDiscovery \<Rightarrow> identity_error option \<times> PeerDiscovery" where
  "load_from_disk J file d =
     (case file of None \<Rightarrow> (Some CannotOpen, d) | Some text \<Rightarrow>
      case js_parse J text of None \<Rightarrow> (Some JsonParseError, d) | Some j \<Rightarrow>
      case load_bootstrap (json_member j ''bootstrap_nodes'') d of
        (Some e, d) \<Rightarrow> (Some e, d)
      | (None, d) \<Rightarrow> load_peers J (json_member j ''discovered_peers'') d)"

section \<open>The peer manager\<close>

record peer_env =
  ev_now :: u64
  ev_lib :: session_lib
  ev_keypair :: "NodeID \<Rightarrow> bytes \<times> bytes"
  ev_nonce :: "NodeID \<Rightarrow> bytes"
  ev_draw :: "nat \<Rightarrow> u64"
  ev_raw_signature :: bytes

datatype peer_call = PeerConnected NodeID | PeerDisconnected NodeID

record PeerManager =
  pm_local :: NodeID
  pm_sessions :: SessionManager
  pm_policy :: ConnectionPolicy
  pm_discovery :: PeerDiscovery
  pm_connections :: "(NodeID \<times> PeerConnection) list"
  pm_last_attempt :: "(NodeID \<times> u64) list"
  pm_failures :: "(NodeID \<times> u32) list"
  pm_on_connected :: bool
  pm_on_disconnected :: bool
  pm_made :: u64
  pm_failed :: u64

definition PeerManager_init :: "NodeID \<Rightarrow> SessionManager \<Rightarrow> PeerManager" where
  "PeerManager_init n sm = \<lparr>pm_local = n, pm_sessions = sm, pm_policy = ConnectionPolicy_default,
     pm_discovery = PeerDiscovery_init, pm_connections = [], pm_last_attempt = [], pm_failures = [],
     pm_on_connected = False, pm_on_disconnected = False, pm_made = 0, pm_failed = 0\<rparr>"

definition set_policy :: "ConnectionPolicy \<Rightarrow> PeerManager \<Rightarrow> PeerManager" where
  "set_policy p m = m\<lparr>pm_policy := p\<rparr>"

definition set_peer_connected_callback :: "PeerManager \<Rightarrow> PeerManager" where
  "set_peer_connected_callback m = m\<lparr>pm_on_connected := True\<rparr>"

definition set_peer_disconnected_callback :: "PeerManager \<Rightarrow> PeerManager" where
  "set_peer_disconnected_callback m = m\<lparr>pm_on_disconnected := True\<rparr>"

definition is_connected :: "PeerManager \<Rightarrow> NodeID \<Rightarrow> bool" where
  "is_connected m n \<longleftrightarrow> map_of (pm_connections m) n \<noteq> None"

definition get_connection :: "PeerManager \<Rightarrow> NodeID \<Rightarrow> PeerConnection option" where
  "get_connection m n = map_of (pm_connections m) n"

definition get_all_connections :: "PeerManager \<Rightarrow> PeerConnection list" where
  "get_all_connections m = map snd (pm_connections m)"

definition active_connection_count :: "PeerManager \<Rightarrow> nat" where
  "active_connection_count m = length (pm_connections m)"

definition can_connect_more_peers :: "PeerManager \<Rightarrow> bool" where
  "can_connect_more_peers m \<longleftrightarrow> active_connection_count m < cn_max_peers (pm_policy m)"

definition too_many_failures :: "PeerManager \<Rightarrow> NodeID \<Rightarrow> bool" where
  "too_many_failures m n =
     (case map_of (pm_failures m) n of None \<Rightarrow> False | Some k \<Rightarrow> k \<ge> cn_max_attempts (pm_policy m))"

definition should_connect_to_peer :: "PeerManager \<Rightarrow> NodeID \<Rightarrow> bool" where
  "should_connect_to_peer m n =
     (if n = pm_local m then False
      else if too_many_failures m n then False
      else case get_peer_info (pm_discovery m) n of
             None \<Rightarrow> True
           | Some p \<Rightarrow> \<not> f32_less (reliability_score p) (cn_min_reliability (pm_policy m)))"

definition handle_failed_connection :: "NodeID \<Rightarrow> PeerManager \<Rightarrow> PeerManager" where
  "handle_failed_connection n m =
     m\<lparr>pm_failures := omap_set n (opt_or 0 (map_of (pm_failures m) n) + 1) (pm_failures m), pm_failed := pm_failed m + 1\<rparr>"

definition handle_successful_connection :: "u64 \<Rightarrow> NodeID \<Rightarrow> session_ptr \<Rightarrow> PeerManager \<Rightarrow> peer_call list \<times> PeerManager" where
  "handle_successful_connection now n p m =
     (let conn = \<lparr>pc_peer_id = n,
                  pc_address = (case get_peer_info (pm_discovery m) n of None \<Rightarrow> [] | Some i \<Rightarrow> pi_address i),
                  pc_session = Some p, pc_connected_at = now, pc_last_activity = now, pc_bytes_sent = 0,
                  pc_bytes_received = 0, pc_is_outbound = True\<rparr>
      in (if pm_on_connected m then [PeerConnected n] else [],
          m\<lparr>pm_connections := omap_set n conn (pm_connections m), pm_made := pm_made m + 1,
            pm_failures := omap_set n 0 (pm_failures m)\<rparr>))"

definition connect_to_peer :: "peer_env \<Rightarrow> NodeID \<Rightarrow> PeerManager \<Rightarrow> peer_call list \<times> PeerManager" where
  "connect_to_peer E n m =
     (if is_connected m n then ([], m)
      else if \<not> can_connect_more_peers m then ([], m)
      else if \<not> should_connect_to_peer m n then ([], m)
      else
        let m = m\<lparr>pm_last_attempt := omap_set n (ev_now E) (pm_last_attempt m)\<rparr>;
            (p, sm) = create_outbound_session (ev_now E) n (pm_sessions m)
        in case session_at sm p of
             None \<Rightarrow> ([], handle_failed_connection n (m\<lparr>pm_sessions := sm\<rparr>))
           | Some s \<Rightarrow>
               let (ok, s) = initiate_handshake (ev_lib E) (ev_now E) (ev_keypair E n) s;
                   m = m\<lparr>pm_sessions := session_put p s sm\<rparr>
               in if ok then handle_successful_connection (ev_now E) n p m
                  else ([], handle_failed_connection n m))"

fun connect_all :: "peer_env \<Rightarrow> NodeID list \<Rightarrow> PeerManager \<Rightarrow> peer_call list \<times> PeerManager" where
  "connect_all E [] m = ([], m)"
| "connect_all E (n # ns) m =
     (let (out, m) = connect_to_peer E n m; (out', m) = connect_all E ns m in (out @ out', m))"

fun connect_bootstrap :: "peer_env \<Rightarrow> BootstrapNode list \<Rightarrow> PeerManager \<Rightarrow> peer_call list \<times> PeerManager" where
  "connect_bootstrap E [] m = ([], m)"
| "connect_bootstrap E (b # bs) m =
     (let n = NodeID (sl_hash (ev_lib E) (bn_public_key b));
          m = m\<lparr>pm_discovery := add_discovered_peer (ev_now E) n (bn_address b) (pm_discovery m)\<rparr>;
          (out, m) = connect_to_peer E n m;
          (out', m) = connect_bootstrap E bs m
      in (out @ out', m))"

definition connect_to_bootstrap_nodes :: "peer_env \<Rightarrow> PeerManager \<Rightarrow> peer_call list \<times> PeerManager" where
  "connect_to_bootstrap_nodes E m =
     connect_bootstrap E (take (cn_max_bootstrap_peers (pm_policy m)) (pd_bootstrap (pm_discovery m))) m"

definition disconnect_peer :: "NodeID \<Rightarrow> PeerManager \<Rightarrow> peer_call list \<times> PeerManager" where
  "disconnect_peer n m =
     (if \<not> is_connected m n then ([], m)
      else (if pm_on_disconnected m then [PeerDisconnected n] else [],
            m\<lparr>pm_connections := omap_erase n (pm_connections m)\<rparr>))"

fun disconnect_each :: "NodeID list \<Rightarrow> PeerManager \<Rightarrow> peer_call list \<times> PeerManager" where
  "disconnect_each [] m = ([], m)"
| "disconnect_each (n # ns) m =
     (let (out, m) = disconnect_peer n m; (out', m) = disconnect_each ns m in (out @ out', m))"

definition disconnect_all :: "PeerManager \<Rightarrow> peer_call list \<times> PeerManager" where
  "disconnect_all m = disconnect_each (map fst (pm_connections m)) m"

definition cleanup_idle_connections :: "u64 \<Rightarrow> PeerManager \<Rightarrow> peer_call list \<times> PeerManager" where
  "cleanup_idle_connections now m =
     disconnect_each (map fst (filter (\<lambda>(n, c). is_idle now c \<and> idle_duration now c > uint (cn_idle_timeout (pm_policy m)))
       (pm_connections m))) m"

definition fill_connections :: "peer_sort \<Rightarrow> peer_env \<Rightarrow> PeerManager \<Rightarrow> peer_call list \<times> PeerManager" where
  "fill_connections srt E m =
     (if active_connection_count m < cn_target_peers (pm_policy m)
      then let needed = cn_target_peers (pm_policy m) - active_connection_count m;
               exclude = pm_local m # map fst (pm_connections m)
           in connect_all E (filter (\<lambda>n. get_peer_info (pm_discovery m) n \<noteq> None)
                (select_peers_to_connect srt (ev_now E) needed exclude (pm_discovery m))) m
      else ([], m))"

definition maintain_peer_connections :: "peer_sort \<Rightarrow> peer_env \<Rightarrow> PeerManager \<Rightarrow> peer_call list \<times> PeerManager" where
  "maintain_peer_connections srt E m =
     (let m = m\<lparr>pm_discovery := cleanup_stale_peers (ev_now E) (pm_discovery m)\<rparr>;
          (out, m) = cleanup_idle_connections (ev_now E) m;
          (out', m) = fill_connections srt E m
      in (out @ out', m))"

definition attempt_reconnections :: "peer_env \<Rightarrow> PeerManager \<Rightarrow> peer_call list \<times> PeerManager" where
  "attempt_reconnections E m =
     (let to_retry = map fst (filter (\<lambda>(n, last). \<not> is_connected m n \<and>
            \<not> ev_now E - last < ucast (cn_reconnect_delay (pm_policy m)) \<and> \<not> too_many_failures m n) (pm_last_attempt m))
      in connect_all E (filter (\<lambda>n. get_peer_info (pm_discovery m) n \<noteq> None) (take 5 to_retry)) m)"

section \<open>Sending\<close>

definition send_to_peer :: "peer_env \<Rightarrow> NodeID \<Rightarrow> bytes \<Rightarrow> PeerManager \<Rightarrow> peer_fault + (bool \<times> PeerManager)" where
  "send_to_peer E n data m =
     (case map_of (pm_connections m) n of
        None \<Rightarrow> Inr (False, m)
      | Some conn \<Rightarrow>
          (case pc_session conn of
             None \<Rightarrow> Inr (False, m)
           | Some p \<Rightarrow>
               (case session_at (pm_sessions m) p of
                  None \<Rightarrow> Inl DanglingPointer
                | Some s \<Rightarrow>
                    if se_state s \<noteq> ESTABLISHED then Inr (False, m)
                    else (case encrypt_message (ev_lib E) (ev_now E) (ev_nonce E n) data s of
                            (None, s) \<Rightarrow> Inr (False, m\<lparr>pm_sessions := session_put p s (pm_sessions m)\<rparr>)
                          | (Some _, s) \<Rightarrow>
                              Inr (True, m\<lparr>pm_sessions := session_put p s (pm_sessions m),
                                pm_connections := omap_set n (conn\<lparr>pc_bytes_sent := pc_bytes_sent conn + word_of_nat (length data),
                                  pc_last_activity := ev_now E\<rparr>) (pm_connections m)\<rparr>)))))"

fun send_each :: "peer_env \<Rightarrow> NodeID list \<Rightarrow> bytes \<Rightarrow> PeerManager \<Rightarrow> peer_fault + PeerManager" where
  "send_each E [] data m = Inr m"
| "send_each E (n # ns) data m = result_then (send_to_peer E n data m) (\<lambda>(_, m). send_each E ns data m)"

definition broadcast_to_peers :: "peer_env \<Rightarrow> bytes \<Rightarrow> PeerManager \<Rightarrow> peer_fault + PeerManager" where
  "broadcast_to_peers E data m = send_each E (map fst (pm_connections m)) data m"

definition send_to_random_peers :: "peer_env \<Rightarrow> bytes \<Rightarrow> nat \<Rightarrow> PeerManager \<Rightarrow> peer_fault + PeerManager" where
  "send_to_random_peers E data k m =
     result_then (shuffle (ev_draw E) (map fst (pm_connections m))) (\<lambda>peers. send_each E (take k peers) data m)"

definition total_bytes_sent :: "PeerManager \<Rightarrow> u64" where
  "total_bytes_sent m = fold (\<lambda>(_, c) t. t + pc_bytes_sent c) (pm_connections m) 0"

definition total_bytes_received :: "PeerManager \<Rightarrow> u64" where
  "total_bytes_received m = fold (\<lambda>(_, c) t. t + pc_bytes_received c) (pm_connections m) 0"

section \<open>Message handlers\<close>

definition has_signature :: "bytes \<Rightarrow> bool" where
  "has_signature sig = list_ex (\<lambda>b. b \<noteq> 0) sig"

definition stale_timestamp :: "u64 \<Rightarrow> u64 \<Rightarrow> bool" where
  "stale_timestamp now ts = ((if ts > now then ts - now else now - ts) > 300)"

definition learn_peer :: "u64 \<Rightarrow> NodeID \<Rightarrow> string \<Rightarrow> NodeCapabilities \<Rightarrow> PeerManager \<Rightarrow> PeerManager" where
  "learn_peer now n address caps m =
     m\<lparr>pm_discovery := update_peer_capabilities n caps (add_discovered_peer now n address (pm_discovery m))\<rparr>"

definition handle_peer_announcement :: "peer_env \<Rightarrow> PeerAnnouncementMessage \<Rightarrow> PeerManager \<Rightarrow> PeerManager" where
  "handle_peer_announcement E msg m =
     (if \<not> has_signature (am_signature msg) then m
      else if stale_timestamp (ev_now E) (am_timestamp msg) then m
      else if am_node_id msg = pm_local m then m
      else if am_listen_address msg \<noteq> [] then
        learn_peer (ev_now E) (am_node_id msg) (am_listen_address msg) (am_capabilities msg) m
      else m)"

definition response_entry :: "PeerDiscovery \<Rightarrow> NodeID \<Rightarrow> PeerEntry option" where
  "response_entry d n = map_option (\<lambda>p. \<lparr>pe_node_id = n, pe_address = pi_address p, pe_capabilities = pi_capabilities p,
     pe_last_seen = pi_last_seen p\<rparr>) (get_peer_info d n)"

definition handle_peer_request :: "peer_env \<Rightarrow> NodeID \<Rightarrow> PeerRequestMessage \<Rightarrow> PeerManager \<Rightarrow> peer_fault + PeerManager" where
  "handle_peer_request E requesting_peer msg m =
     (if rm_requester_id msg \<noteq> requesting_peer then Inr m
      else if stale_timestamp (ev_now E) (rm_timestamp msg) then Inr m
      else
        result_then (select_random_peers (ev_draw E) (ev_now E) (min (unat (rm_max_peers msg)) 20)
            [requesting_peer, pm_local m] (pm_discovery m)) (\<lambda>selected.
        let response = \<lparr>pr_responder_id = pm_local m, pr_peers = List.map_filter (response_entry (pm_discovery m)) selected,
              pr_timestamp = ev_now E, pr_signature = ev_raw_signature E\<rparr>
        in result_then (send_to_peer E requesting_peer (PeerResponseMessage_to_bytes response) m) (\<lambda>(_, m). Inr m)))"

definition handle_peer_response :: "peer_env \<Rightarrow> PeerResponseMessage \<Rightarrow> PeerManager \<Rightarrow> PeerManager" where
  "handle_peer_response E msg m =
     (if \<not> has_signature (pr_signature msg) then m
      else if \<not> is_connected m (pr_responder_id msg) then m
      else if stale_timestamp (ev_now E) (pr_timestamp msg) then m
      else fold (\<lambda>e m. if pe_node_id e = pm_local m then m
                       else learn_peer (ev_now E) (pe_node_id e) (pe_address e) (pe_capabilities e) m) (pr_peers msg) m)"

text \<open>\<open>std::stoi\<close>: leading white space, a sign and decimal digits; \<open>None\<close> when it throws.\<close>

definition is_digit :: "char \<Rightarrow> bool" where
  "is_digit c \<longleftrightarrow> 48 \<le> (of_char c :: nat) \<and> (of_char c :: nat) \<le> 57"

definition dec_value :: "string \<Rightarrow> int" where
  "dec_value s = foldl (\<lambda>v c. 10 * v + (of_char c - 48)) 0 s"

definition stoi :: "string \<Rightarrow> int option" where
  "stoi s =
     (let s = dropWhile is_space s;
          (neg, s) = (case s of c # cs \<Rightarrow> if c = CHR ''-'' then (True, cs) else if c = CHR ''+'' then (False, cs) else (False, s)
                              | [] \<Rightarrow> (False, []));
          digits = takeWhile is_digit s
      in if digits = [] then None
         else let v = (if neg then - dec_value digits else dec_value digits)
              in if v < - (2 ^ 31) \<or> 2 ^ 31 \<le> v then None else Some v)"

definition handle_nat_traversal_request :: "peer_env \<Rightarrow> NodeID \<Rightarrow> NATTraversalRequest \<Rightarrow> PeerManager \<Rightarrow> peer_fault + PeerManager" where
  "handle_nat_traversal_request E requesting_peer req m =
     (case get_connection m requesting_peer of
        None \<Rightarrow> Inr m
      | Some conn \<Rightarrow>
          if nq_requester_id req \<noteq> requesting_peer then Inr m
          else
            let ip = takeWhile (\<lambda>c. c \<noteq> CHR '':'') (pc_address conn);
                rest = dropWhile (\<lambda>c. c \<noteq> CHR '':'') (pc_address conn)
            in result_then (case rest of [] \<Rightarrow> Inr 0 | _ # text \<Rightarrow>
                   (case stoi text of None \<Rightarrow> Inl BadNumber | Some v \<Rightarrow> Inr (word_of_int v :: u16))) (\<lambda>port.
               result_then (send_to_peer E requesting_peer (NATTraversalResponse_to_bytes
                   \<lparr>np_public_address = ip, np_public_port = port, np_timestamp = ev_now E\<rparr>) m) (\<lambda>(_, m). Inr m)))"

definition save_peer_database :: "json_lib \<Rightarrow> bool \<Rightarrow> PeerManager \<Rightarrow> bool \<times> string option" where
  "save_peer_database J can_open m = save_to_disk J can_open (pm_discovery m)"

definition load_peer_database :: "json_lib \<Rightarrow> string option \<Rightarrow> PeerManager \<Rightarrow> identity_error option \<times> PeerManager" where
  "load_peer_database J file m =
     (let (e, d) = load_from_disk J file (pm_discovery m) in (e, m\<lparr>pm_discovery := d\<rparr>))"

section \<open>The shuffle and the selections\<close>

lemma mset_fisher_yates: "i < length xs \<Longrightarrow> mset (fisher_yates draw i xs) = mset xs"
proof (induction i arbitrary: xs)
  case (Suc i)
  define j where "j = unat (draw (Suc i)) mod Suc (Suc i)"
  have j: "j < length xs" using Suc.prems mod_less_divisor [of "Suc (Suc i)" "unat (draw (Suc i))"] unfolding j_def by linarith
  have "mset (fisher_yates draw (Suc i) xs) = mset (fisher_yates draw i (xs[Suc i := xs ! j, j := xs ! Suc i]))"
    by (simp only: fisher_yates.simps Let_def j_def)
  also have "\<dots> = mset (xs[Suc i := xs ! j, j := xs ! Suc i])" using Suc by simp
  also have "\<dots> = mset xs" using Suc.prems j mset_swap [of j xs "Suc i"] by simp
  finally show ?case .
qed simp

lemma shuffle_perm: "shuffle draw xs = Inr ys \<Longrightarrow> mset ys = mset xs"
  by (auto simp: shuffle_def mset_fisher_yates split: if_splits)

lemma distinct_available: "omap_ok (pd_peers d) \<Longrightarrow> distinct (map fst (available_peers now ex d))"
  by (simp add: available_peers_def omap_ok_distinct distinct_map_filter)

lemma set_available:
  "omap_ok (pd_peers d) \<Longrightarrow>
     n \<in> set (map fst (available_peers now ex d)) \<longleftrightarrow> n \<notin> set ex \<and> (\<exists>p. get_peer_info d n = Some p \<and> \<not> peer_is_stale now p)"
  by (force simp: available_peers_def get_peer_info_def omap_find_iff)

text \<open>
  the random selection gives different peers, as many as asked for or as there are, all of them
  known, fresh and not excluded, whatever the random numbers are; when there is no such peer it does
  not return but divides by zero.
\<close>

theorem random_peers_valid:
  assumes "omap_ok (pd_peers d)"
  shows "case select_random_peers draw now k exclude d of
      Inl fault \<Rightarrow> fault = DivisionByZero \<and> available_peers now exclude d = []
    | Inr xs \<Rightarrow> available_peers now exclude d \<noteq> [] \<and> distinct xs \<and> length xs = min k (length (available_peers now exclude d)) \<and>
        set xs \<subseteq> {n. n \<notin> set exclude \<and> (\<exists>p. get_peer_info d n = Some p \<and> \<not> peer_is_stale now p)}"
proof (cases "available_peers now exclude d = []")
  case True
  then show ?thesis by (simp add: select_random_peers_def shuffle_def)
next
  case False
  let ?a = "map fst (available_peers now exclude d)"
  obtain ys where ys: "shuffle draw ?a = Inr ys" using False by (simp add: shuffle_def)
  from shuffle_perm [OF ys] have "mset ys = mset ?a" .
  then have "distinct ys" "length ys = length ?a" "set ys = set ?a"
    using distinct_available [OF assms] by (metis mset_eq_imp_distinct_iff, metis mset_eq_length, metis mset_eq_setD)
  then show ?thesis using False ys set_available [OF assms]
    by (auto simp: select_random_peers_def dest: in_set_takeD)
qed

lemma omap_ok_add: "omap_ok (pd_peers d) \<Longrightarrow> omap_ok (pd_peers (add_discovered_peer now n a d))"
  by (simp add: add_discovered_peer_def split: option.splits)

definition two_peers :: PeerDiscovery where
  "two_peers = add_discovered_peer 100 (NodeID [2]) ''10.0.0.2:80'' (add_discovered_peer 100 (NodeID [1]) ''10.0.0.1:80'' PeerDiscovery_init)"

lemma two_peers_ok: "omap_ok (pd_peers two_peers)"
  unfolding two_peers_def by (intro omap_ok_add) (simp add: PeerDiscovery_init_def)

theorem random_peers_valid_witness:
  "case select_random_peers (\<lambda>_. 7) 200 5 [] two_peers of
      Inl fault \<Rightarrow> fault = DivisionByZero \<and> available_peers 200 [] two_peers = []
    | Inr xs \<Rightarrow> available_peers 200 [] two_peers \<noteq> [] \<and> distinct xs \<and> length xs = min 5 (length (available_peers 200 [] two_peers)) \<and>
        set xs \<subseteq> {n. n \<notin> set [] \<and> (\<exists>p. get_peer_info two_peers n = Some p \<and> \<not> peer_is_stale 200 p)}"
  by (rule random_peers_valid [OF two_peers_ok])

section \<open>Connections and their sessions\<close>

definition conn_ok :: "SessionManager \<Rightarrow> NodeID \<Rightarrow> PeerConnection \<Rightarrow> bool" where
  "conn_ok sm n c \<longleftrightarrow> pc_peer_id c = n \<and> pc_is_outbound c \<and>
     (\<exists>p s. pc_session c = Some p \<and> session_at sm p = Some s \<and> se_remote s = n)"

definition peer_inv :: "nat \<Rightarrow> PeerManager \<Rightarrow> bool" where
  "peer_inv M m \<longleftrightarrow> omap_ok (pm_connections m) \<and> length (pm_connections m) \<le> M \<and>
     cn_max_peers (pm_policy m) \<le> M \<and>
     \<not> is_connected m (pm_local m) \<and> manager_inv (pm_sessions m) \<and>
     (\<forall>n c. map_of (pm_connections m) n = Some c \<longrightarrow> conn_ok (pm_sessions m) n c)"

definition extends :: "SessionManager \<Rightarrow> SessionManager \<Rightarrow> bool" where
  "extends sm sm' \<longleftrightarrow> (\<forall>p s. session_at sm p = Some s \<longrightarrow> (\<exists>s'. session_at sm' p = Some s' \<and> se_remote s' = se_remote s))"

lemma conn_ok_same [simp]: "conn_ok sm n (c\<lparr>pc_bytes_sent := x, pc_last_activity := y\<rparr>) = conn_ok sm n c"
  by (simp add: conn_ok_def)

lemma conn_ok_extends: "extends sm sm' \<Longrightarrow> conn_ok sm n c \<Longrightarrow> conn_ok sm' n c"
  unfolding extends_def conn_ok_def by metis

lemma session_at_put: "session_at (session_put p s m) q = (if q = p then map_option (\<lambda>_. s) (session_at m p) else session_at m q)"
proof -
  have "map_of (map (\<lambda>e. if fst e = p then (p, s) else e) xs) q = (if q = p then map_option (\<lambda>_. s) (map_of xs p) else map_of xs q)"
    for xs :: "(session_ptr \<times> Session) list"
    by (induction xs) auto
  then show ?thesis by (simp add: session_at_def session_put_def)
qed

lemma extends_put: "session_at m p = Some s \<Longrightarrow> se_remote s' = se_remote s \<Longrightarrow> extends m (session_put p s' m)"
  by (auto simp: extends_def session_at_put)

lemma extends_trans: "extends a b \<Longrightarrow> extends b c \<Longrightarrow> extends a c"
  unfolding extends_def by metis

lemma extends_refl: "extends a a"
  by (simp add: extends_def)

lemma create_outbound:
  assumes "manager_inv sm" "create_outbound_session now n sm = (p, sm')"
  shows "manager_inv sm' \<and> extends sm sm' \<and> (\<exists>s. session_at sm' p = Some s \<and> se_remote s = n)"
proof (cases "session_entry sm n")
  case None
  then have sm': "p = mg_next sm" "sm' = sm\<lparr>mg_sessions := mg_sessions sm @ [(mg_next sm, Session_new now (mg_local sm) n)], mg_next := Suc (mg_next sm)\<rparr>"
    using assms(2) by (auto simp: create_outbound_session_def get_session_def push_session_def)
  have fresh: "map_of (mg_sessions sm) (mg_next sm) = None"
    using assms(1) by (auto simp: manager_inv_def list_all_iff map_of_eq_None_iff)
  have "manager_inv sm'" using manager_inv_push [OF assms(1), of "Session_new now (mg_local sm) n"] None sm'
    by (simp add: push_session_def Session_new_def)
  moreover have "extends sm sm'" using fresh by (auto simp: extends_def session_at_def sm' map_add_def)
  moreover have "session_at sm' p = Some (Session_new now (mg_local sm) n)"
    using fresh by (simp add: session_at_def sm' map_add_def)
  ultimately show ?thesis by (simp add: Session_new_def)
next
  case (Some e)
  obtain q s where e: "e = (q, s)" by (cases e)
  have "session_at sm q = Some s \<and> se_remote s = n"
    using Some e session_entry_Some [OF assms(1)] assms(1) by (auto simp: session_at_def manager_inv_def)
  then show ?thesis using assms Some e by (auto simp: create_outbound_session_def get_session_def extends_refl)
qed

lemma initiate_same: "se_remote (snd (initiate_handshake L now k s)) = se_remote s \<and> se_local (snd (initiate_handshake L now k s)) = se_local s"
  by (simp add: initiate_handshake_def)

lemma peer_inv_connected:
  assumes "peer_inv M m" "manager_inv sm" "extends (pm_sessions m) sm" "\<not> is_connected m n" "can_connect_more_peers m" "n \<noteq> pm_local m"
    and "session_at sm p = Some s" "se_remote s = n"
  shows "peer_inv M (snd (handle_successful_connection now n p (m\<lparr>pm_last_attempt := la, pm_sessions := sm\<rparr>)))"
proof -
  have "conn_ok sm n \<lparr>pc_peer_id = n, pc_address = a, pc_session = Some p, pc_connected_at = now, pc_last_activity = now,
      pc_bytes_sent = 0, pc_bytes_received = 0, pc_is_outbound = True\<rparr>" for a
    using assms(7,8) by (simp add: conn_ok_def)
  then show ?thesis using assms conn_ok_extends [OF assms(3)]
    by (auto simp: handle_successful_connection_def peer_inv_def Let_def is_connected_def length_omap_set_new
        can_connect_more_peers_def active_connection_count_def)
qed

lemma peer_inv_failed:
  assumes "peer_inv M m" "manager_inv sm" "extends (pm_sessions m) sm"
  shows "peer_inv M (handle_failed_connection n (m\<lparr>pm_last_attempt := la, pm_sessions := sm\<rparr>))"
  using assms conn_ok_extends [OF assms(3)] by (auto simp: handle_failed_connection_def peer_inv_def is_connected_def)

lemma peer_inv_connect: "peer_inv M m \<Longrightarrow> peer_inv M (snd (connect_to_peer E n m))"
proof (cases "is_connected m n \<or> \<not> can_connect_more_peers m \<or> \<not> should_connect_to_peer m n")
  case True
  then show "peer_inv M m \<Longrightarrow> ?thesis" by (auto simp: connect_to_peer_def)
next
  case False
  assume inv: "peer_inv M m"
  obtain p sm where c: "create_outbound_session (ev_now E) n (pm_sessions m) = (p, sm)"
    by (cases "create_outbound_session (ev_now E) n (pm_sessions m)")
  have mi: "manager_inv (pm_sessions m)" using inv by (simp add: peer_inv_def)
  from create_outbound [OF mi c] obtain s where
    s: "manager_inv sm" "extends (pm_sessions m) sm" "session_at sm p = Some s" "se_remote s = n" by blast
  obtain ok s' where i: "initiate_handshake (ev_lib E) (ev_now E) (ev_keypair E n) s = (ok, s')"
    by (cases "initiate_handshake (ev_lib E) (ev_now E) (ev_keypair E n) s")
  then have same: "se_remote s' = se_remote s" "se_local s' = se_local s" using initiate_same by (metis snd_conv)+
  have put: "manager_inv (session_put p s' sm)" "extends (pm_sessions m) (session_put p s' sm)"
    using manager_inv_put [OF s(1,3) same] extends_trans [OF s(2) extends_put [OF s(3) same(1)]] by auto
  have at: "session_at (session_put p s' sm) p = Some s'" using s(3) by (simp add: session_at_put)
  have "n \<noteq> pm_local m" using False by (auto simp: should_connect_to_peer_def)
  then show ?thesis
    using False peer_inv_connected [OF inv put _ _ _ at, of n "ev_now E"] peer_inv_failed [OF inv put] same s(4)
    by (simp add: connect_to_peer_def c s(3) i Let_def)
qed

lemma peer_inv_connect_all: "peer_inv M m \<Longrightarrow> peer_inv M (snd (connect_all E ns m))"
proof (induction ns arbitrary: m)
  case (Cons n ns)
  then show ?case using peer_inv_connect [of M m E n] by (simp add: case_prod_beta Let_def)
qed simp

lemma peer_inv_discovery: "peer_inv M m \<Longrightarrow> peer_inv M (m\<lparr>pm_discovery := d\<rparr>)"
  by (simp add: peer_inv_def is_connected_def)

lemma peer_inv_connect_bootstrap: "peer_inv M m \<Longrightarrow> peer_inv M (snd (connect_bootstrap E bs m))"
proof (induction bs arbitrary: m)
  case (Cons b bs)
  then show ?case using peer_inv_connect [OF peer_inv_discovery] by (simp add: case_prod_beta Let_def)
qed simp

lemma peer_inv_disconnect: "peer_inv M m \<Longrightarrow> peer_inv M (snd (disconnect_peer n m))"
  using le_trans [OF length_omap_erase, of "pm_connections m" M n]
  by (auto simp: disconnect_peer_def peer_inv_def is_connected_def split: if_splits)

lemma peer_inv_disconnect_each: "peer_inv M m \<Longrightarrow> peer_inv M (snd (disconnect_each ns m))"
proof (induction ns arbitrary: m)
  case (Cons n ns)
  then show ?case using peer_inv_disconnect [of M m n] by (simp add: case_prod_beta Let_def)
qed simp

lemma peer_inv_maintain: "peer_inv M m \<Longrightarrow> peer_inv M (snd (maintain_peer_connections srt E m))"
  using peer_inv_connect_all [OF peer_inv_disconnect_each [OF peer_inv_discovery]] peer_inv_disconnect_each [OF peer_inv_discovery]
  by (simp add: maintain_peer_connections_def fill_connections_def cleanup_idle_connections_def case_prod_beta Let_def)

lemma encrypt_same: "se_remote (snd (encrypt_message L now r x s)) = se_remote s \<and> se_local (snd (encrypt_message L now r x s)) = se_local s"
  by (simp add: encrypt_message_def generate_nonce_def)

lemma send_to_peer_safe:
  assumes "peer_inv M m"
  shows "\<exists>b m'. send_to_peer E n data m = Inr (b, m') \<and> peer_inv M m'"
proof (cases "map_of (pm_connections m) n")
  case None
  then have "send_to_peer E n data m = Inr (False, m)" by (simp add: send_to_peer_def)
  then show ?thesis using assms by blast
next
  case (Some c)
  then obtain p s where s: "pc_session c = Some p" "session_at (pm_sessions m) p = Some s" "se_remote s = n"
    using assms unfolding peer_inv_def conn_ok_def by metis
  obtain frame s' where e: "encrypt_message (ev_lib E) (ev_now E) (ev_nonce E n) data s = (frame, s')"
    by (cases "encrypt_message (ev_lib E) (ev_now E) (ev_nonce E n) data s")
  then have same: "se_remote s' = se_remote s" "se_local s' = se_local s" using encrypt_same by (metis snd_conv)+
  have put: "manager_inv (session_put p s' (pm_sessions m))" "extends (pm_sessions m) (session_put p s' (pm_sessions m))"
    using assms manager_inv_put [OF _ s(2) same] extends_put [OF s(2) same(1)] by (auto simp: peer_inv_def)
  have "peer_inv M (m\<lparr>pm_sessions := session_put p s' (pm_sessions m)\<rparr>)"
    using assms put conn_ok_extends [OF put(2)] by (auto simp: peer_inv_def is_connected_def)
  moreover have "peer_inv M (m\<lparr>pm_sessions := session_put p s' (pm_sessions m),
      pm_connections := omap_set n (c\<lparr>pc_bytes_sent := x, pc_last_activity := y\<rparr>) (pm_connections m)\<rparr>)" for x y
    using assms put Some conn_ok_extends [OF put(2)] length_omap_set_old [of "pm_connections m" n c]
    by (auto simp: peer_inv_def is_connected_def)
  ultimately show ?thesis using assms by (cases frame) (auto simp: send_to_peer_def Some s e)
qed

lemma send_each_safe: "peer_inv M m \<Longrightarrow> \<exists>m'. send_each E ns data m = Inr m' \<and> peer_inv M m'"
proof (induction ns arbitrary: m)
  case (Cons n ns)
  obtain b m' where "send_to_peer E n data m = Inr (b, m')" "peer_inv M m'" using send_to_peer_safe [OF Cons.prems] by blast
  with Cons.IH show ?case by simp
qed simp

lemma peer_inv_learn_all:
  "peer_inv M m \<Longrightarrow> peer_inv M (fold (\<lambda>e m. if pe_node_id e = pm_local m then m
      else learn_peer (ev_now E) (pe_node_id e) (pe_address e) (pe_capabilities e) m) es m)"
  by (induction es arbitrary: m) (simp_all add: learn_peer_def peer_inv_discovery)

lemma peer_inv_response: "peer_inv M m \<Longrightarrow> peer_inv M (handle_peer_response E msg m)"
  unfolding handle_peer_response_def using peer_inv_learn_all [of M m E "pr_peers msg"] by simp

section \<open>Runs of the manager\<close>

datatype peer_op =
    AddBootstrap BootstrapNode
  | ConnectBootstrap peer_env
  | AddPeer u64 NodeID string
  | UpdateCapabilities NodeID NodeCapabilities
  | Connect peer_env NodeID
  | Disconnect NodeID
  | DisconnectAll
  | Maintain peer_sort peer_env
  | CleanupIdle u64
  | Reconnect peer_env
  | SendTo peer_env NodeID bytes
  | Broadcast peer_env bytes
  | SendRandom peer_env bytes nat
  | GetAnnouncement peer_env PeerAnnouncementMessage
  | GetRequest peer_env NodeID PeerRequestMessage
  | GetPeers peer_env PeerResponseMessage
  | GetNatRequest peer_env NodeID NATTraversalRequest
  | LoadDatabase json_lib "string option"
  | SetPolicy ConnectionPolicy
  | SessionsOp session_lib manager_op

text \<open>
  The last operation is any operation of the session manager, which the peer manager shares with the rest
  of the node: creating, accepting, using, closing and cleaning up sessions.
\<close>

fun peer_step :: "peer_op \<Rightarrow> PeerManager \<Rightarrow> peer_fault + PeerManager" where
  "peer_step (AddBootstrap b) m = Inr (m\<lparr>pm_discovery := add_bootstrap_node b (pm_discovery m)\<rparr>)"
| "peer_step (ConnectBootstrap E) m = Inr (snd (connect_to_bootstrap_nodes E m))"
| "peer_step (AddPeer now n a) m = Inr (m\<lparr>pm_discovery := add_discovered_peer now n a (pm_discovery m)\<rparr>)"
| "peer_step (UpdateCapabilities n c) m = Inr (m\<lparr>pm_discovery := update_peer_capabilities n c (pm_discovery m)\<rparr>)"
| "peer_step (Connect E n) m = Inr (snd (connect_to_peer E n m))"
| "peer_step (Disconnect n) m = Inr (snd (disconnect_peer n m))"
| "peer_step DisconnectAll m = Inr (snd (disconnect_all m))"
| "peer_step (Maintain srt E) m = Inr (snd (maintain_peer_connections srt E m))"
| "peer_step (CleanupIdle now) m = Inr (snd (cleanup_idle_connections now m))"
| "peer_step (Reconnect E) m = Inr (snd (attempt_reconnections E m))"
| "peer_step (SendTo E n data) m = result_then (send_to_peer E n data m) (\<lambda>(_, m). Inr m)"
| "peer_step (Broadcast E data) m = broadcast_to_peers E data m"
| "peer_step (SendRandom E data k) m = send_to_random_peers E data k m"
| "peer_step (GetAnnouncement E msg) m = Inr (handle_peer_announcement E msg m)"
| "peer_step (GetRequest E n msg) m = handle_peer_request E n msg m"
| "peer_step (GetPeers E msg) m = Inr (handle_peer_response E msg m)"
| "peer_step (GetNatRequest E n r) m = handle_nat_traversal_request E n r m"
| "peer_step (LoadDatabase J file) m = Inr (snd (load_peer_database J file m))"
| "peer_step (SetPolicy P) m = Inr (set_policy P m)"
| "peer_step (SessionsOp L x) m = Inr (m\<lparr>pm_sessions := manager_step L (pm_sessions m) x\<rparr>)"

fun peer_run :: "peer_op list \<Rightarrow> PeerManager \<Rightarrow> peer_fault + PeerManager" where
  "peer_run [] m = Inr m"
| "peer_run (x # xs) m = result_then (peer_step x m) (peer_run xs)"

text \<open>
  What the operations must respect: no policy allows more than \<open>M\<close> connections, and the session manager
  frees no session that a connection still points to.
\<close>

fun op_respects :: "nat \<Rightarrow> peer_op \<Rightarrow> PeerManager \<Rightarrow> bool" where
  "op_respects M (SetPolicy P) m = (cn_max_peers P \<le> M)"
| "op_respects M (SessionsOp L x) m =
     list_all (\<lambda>(n, c). case pc_session c of None \<Rightarrow> True
       | Some p \<Rightarrow> session_at (manager_step L (pm_sessions m) x) p \<noteq> None) (pm_connections m)"
| "op_respects M _ m = True"

fun run_respects :: "nat \<Rightarrow> peer_op list \<Rightarrow> PeerManager \<Rightarrow> bool" where
  "run_respects M [] m = True"
| "run_respects M (x # xs) m =
     (op_respects M x m \<and> (case peer_step x m of Inl fault \<Rightarrow> True | Inr m' \<Rightarrow> run_respects M xs m'))"

text \<open>A result that keeps the invariant and is not an access through a stale pointer.\<close>

definition step_ok :: "nat \<Rightarrow> peer_fault + PeerManager \<Rightarrow> bool" where
  "step_ok M r = (case r of Inl f \<Rightarrow> f \<noteq> DanglingPointer | Inr m \<Rightarrow> peer_inv M m)"

lemma step_ok_Inr [simp]: "step_ok M (Inr m) = peer_inv M m"
  by (simp add: step_ok_def)

lemma step_ok_send: "peer_inv M m \<Longrightarrow> step_ok M (result_then (send_to_peer E n data m) (\<lambda>(_, m). Inr m))"
  using send_to_peer_safe [of M m E n data] by auto

lemma step_ok_send_each: "peer_inv M m \<Longrightarrow> step_ok M (send_each E ns data m)"
  using send_each_safe [of M m E ns data] by auto

text \<open>A session that is still there has not changed its peer.\<close>

lemma session_at_filter:
  assumes "distinct (map fst (mg_sessions m))" "session_at (m\<lparr>mg_sessions := filter P (mg_sessions m)\<rparr>) p = Some s"
  shows "session_at m p = Some s"
proof -
  have "(p, s) \<in> set (mg_sessions m)" using map_of_SomeD [of "filter P (mg_sessions m)" p s] assms(2) by (simp add: session_at_def)
  then show ?thesis using assms(1) by (simp add: session_at_def)
qed

lemma session_at_push:
  assumes "manager_inv m" "session_at m p = Some s"
  shows "session_at (snd (push_session s' m)) p = Some s"
  using assms(2) by (simp add: session_at_def push_session_def map_add_def)

definition same_remote :: "SessionManager \<Rightarrow> SessionManager \<Rightarrow> bool" where
  "same_remote sm sm' \<longleftrightarrow> (\<forall>p s s'. session_at sm p = Some s \<longrightarrow> session_at sm' p = Some s' \<longrightarrow> se_remote s' = se_remote s)"

lemma same_remote_close: "manager_inv sm \<Longrightarrow> same_remote sm (close_session r sm)"
proof (cases "session_entry sm r")
  case (Some e)
  assume inv: "manager_inv sm"
  obtain q t where e: "e = (q, t)" by (cases e)
  have at: "session_at sm q = Some t" using Some e inv session_entry_Some [OF inv] by (auto simp: session_at_def manager_inv_def)
  let ?sm = "session_put q (session_close t) sm"
  have "manager_inv ?sm" by (rule manager_inv_put [OF inv at]) simp_all
  then have "session_at ?sm p = Some s'" if "session_at (close_session r sm) p = Some s'" for p s'
    using that Some e session_at_filter [of ?sm _ p s'] by (auto simp: close_session_def remove_session_def manager_inv_def)
  then show ?thesis using at by (force simp: same_remote_def session_at_put split: if_splits)
qed (simp add: close_session_def same_remote_def)

lemma mg_next_close [simp]: "mg_next (close_session r m) = mg_next m"
  by (simp add: close_session_def remove_session_def session_put_def split: option.splits)

lemma session_at_accept:
  assumes "session_at (snd (accept_handshake L now k h sm)) p = Some s'" "p < mg_next sm"
  shows "session_at sm p = Some s'"
  using assms
  by (auto simp: accept_handshake_def push_session_def session_at_def map_add_Some_iff case_prod_beta split: prod.splits bool.splits)

lemma same_remote_step:
  assumes "manager_inv sm"
  shows "same_remote sm (manager_step L sm x)"
proof (cases x)
  case (CreateOutbound now r)
  with create_outbound [OF assms, of now r] show ?thesis
    unfolding same_remote_def extends_def by (metis manager_step.simps(1) option.inject prod.collapse)
next
  case (InboundHandshake now k h)
  have lt: "session_at sm p = Some s \<Longrightarrow> p < mg_next sm" for p s
    using assms map_of_SomeD [of "mg_sessions sm" p s] by (auto simp: session_at_def manager_inv_def list_all_iff)
  have "same_remote sm (snd (accept_handshake L now k h sm))"
    unfolding same_remote_def using session_at_accept lt by (metis option.inject)
  moreover have "same_remote sm (snd (accept_handshake L now k h (close_session (hs_node_id h) sm)))"
    using same_remote_close [OF assms, of "hs_node_id h"] session_at_accept [of L now k h "close_session (hs_node_id h) sm"] lt
    unfolding same_remote_def by (metis mg_next_close)
  ultimately show ?thesis
    using InboundHandshake by (auto simp: handle_inbound_handshake_def same_remote_def split: option.splits)
next
  case (OnSession p y)
  then show ?thesis using session_step_same
    by (auto simp: same_remote_def session_at_put split: option.splits if_splits)
next
  case (Cleanup now)
  then show ?thesis using assms session_at_filter [of sm]
    by (fastforce simp: same_remote_def cleanup_stale_sessions_def manager_inv_def)
qed (simp_all add: same_remote_close [OF assms], simp add: same_remote_def close_all_sessions_def session_at_def)

lemma peer_inv_sessions_op:
  assumes "peer_inv M m" "op_respects M (SessionsOp L x) m"
  shows "peer_inv M (m\<lparr>pm_sessions := manager_step L (pm_sessions m) x\<rparr>)"
proof -
  have inv: "manager_inv (pm_sessions m)" using assms(1) by (simp add: peer_inv_def)
  have "conn_ok (manager_step L (pm_sessions m) x) n c" if c: "map_of (pm_connections m) n = Some c" for n c
  proof -
    have "conn_ok (pm_sessions m) n c" using assms(1) c unfolding peer_inv_def by blast
    then obtain p s where p: "pc_session c = Some p" "session_at (pm_sessions m) p = Some s" "se_remote s = n"
      "pc_peer_id c = n" "pc_is_outbound c"
      unfolding conn_ok_def by blast
    have "session_at (manager_step L (pm_sessions m) x) p \<noteq> None"
      using assms(2) map_of_SomeD [OF c] p(1) by (auto simp: list_all_iff)
    with same_remote_step [OF inv, of L x] p show ?thesis by (auto simp: conn_ok_def same_remote_def)
  qed
  with assms(1) manager_inv_step [OF inv] show ?thesis by (simp add: peer_inv_def is_connected_def)
qed

lemma peer_step_ok:
  assumes "peer_inv M m" "op_respects M x m"
  shows "step_ok M (peer_step x m)"
proof (cases x)
  case (SendRandom E data k)
  then show ?thesis using step_ok_send_each [OF assms(1)]
    by (auto simp: send_to_random_peers_def shuffle_def step_ok_def [of M "Inl _"])
next
  case (GetRequest E n msg)
  then show ?thesis using step_ok_send [OF assms(1)] assms
    by (auto simp: handle_peer_request_def select_random_peers_def shuffle_def step_ok_def [of M "Inl _"] Let_def)
next
  case (GetNatRequest E n r)
  then show ?thesis using step_ok_send [OF assms(1)] assms
    by (auto simp: handle_nat_traversal_request_def step_ok_def [of M "Inl _"] Let_def split: option.splits list.splits)
next
  case (GetAnnouncement E msg)
  then show ?thesis using assms(1) by (simp add: handle_peer_announcement_def learn_peer_def peer_inv_discovery)
next
  case (SessionsOp L y)
  then show ?thesis using peer_inv_sessions_op [OF assms(1)] assms(2) by simp
next
  case (SetPolicy P)
  then show ?thesis using assms by (simp add: set_policy_def peer_inv_def is_connected_def)
qed (use assms(1) in \<open>simp_all add: peer_inv_discovery peer_inv_connect peer_inv_connect_all peer_inv_connect_bootstrap
      peer_inv_disconnect peer_inv_disconnect_each peer_inv_maintain peer_inv_response step_ok_send step_ok_send_each
      connect_to_bootstrap_nodes_def disconnect_all_def cleanup_idle_connections_def attempt_reconnections_def
      broadcast_to_peers_def load_peer_database_def case_prod_beta Let_def\<close>)

lemma peer_run_ok: "peer_inv M m \<Longrightarrow> run_respects M xs m \<Longrightarrow> step_ok M (peer_run xs m)"
proof (induction xs arbitrary: m)
  case (Cons x xs)
  then show ?case using peer_step_ok [of M m x] by (cases "peer_step x m") (auto simp: step_ok_def)
qed simp

text \<open>Only setting it changes the policy, and nothing changes the identity of the manager.\<close>

definition same_frame :: "PeerManager \<Rightarrow> PeerManager \<Rightarrow> bool" where
  "same_frame m m' \<longleftrightarrow> pm_policy m' = pm_policy m \<and> pm_local m' = pm_local m"

lemma same_frame_refl [simp]: "same_frame m m"
  by (simp add: same_frame_def)

lemma same_frame_trans: "same_frame a b \<Longrightarrow> same_frame b c \<Longrightarrow> same_frame a c"
  by (simp add: same_frame_def)

lemma frame_connect [simp]: "same_frame m (snd (connect_to_peer E n m))"
  by (simp add: connect_to_peer_def same_frame_def handle_failed_connection_def handle_successful_connection_def
      case_prod_beta Let_def split: option.splits)

lemma discovery_connect [simp]: "pm_discovery (snd (connect_to_peer E n m)) = pm_discovery m"
  by (simp add: connect_to_peer_def handle_failed_connection_def handle_successful_connection_def
      case_prod_beta Let_def split: option.splits)

lemma frame_connect_all [simp]: "same_frame m (snd (connect_all E ns m))"
proof (induction ns arbitrary: m)
  case (Cons n ns)
  then show ?case using same_frame_trans [OF frame_connect [of m E n] Cons] by (simp add: case_prod_beta Let_def)
qed simp

lemma frame_disconnect_each [simp]: "same_frame m (snd (disconnect_each ns m))"
proof (induction ns arbitrary: m)
  case (Cons n ns)
  have "same_frame m (snd (disconnect_peer n m))" by (simp add: disconnect_peer_def same_frame_def)
  from same_frame_trans [OF this Cons] show ?case by (simp add: case_prod_beta Let_def)
qed simp

lemma frame_discovery: "same_frame (m\<lparr>pm_discovery := d\<rparr>) x = same_frame m x" "same_frame x (m\<lparr>pm_discovery := d\<rparr>) = same_frame x m"
  by (simp_all add: same_frame_def)

lemma frame_connect_bootstrap [simp]: "same_frame m (snd (connect_bootstrap E bs m))"
proof (induction bs arbitrary: m)
  case (Cons b bs)
  show ?case
    using same_frame_trans [OF frame_connect [of "m\<lparr>pm_discovery := d\<rparr>" for d] Cons]
    by (simp add: case_prod_beta Let_def frame_discovery)
qed simp

lemma frame_send: "send_to_peer E n data m = Inr (b, m') \<Longrightarrow> same_frame m m'"
  by (auto simp: send_to_peer_def same_frame_def split: option.splits if_splits prod.splits)

lemma frame_send_each: "send_each E ns data m = Inr m' \<Longrightarrow> same_frame m m'"
proof (induction ns arbitrary: m)
  case (Cons n ns)
  then obtain b m1 where "send_to_peer E n data m = Inr (b, m1)" "send_each E ns data m1 = Inr m'"
    by (auto simp: result_then_Inr)
  then show ?case using Cons.IH frame_send same_frame_trans by blast
qed simp

lemma frame_learn_all:
  "same_frame m (fold (\<lambda>e m. if pe_node_id e = pm_local m then m
      else learn_peer (ev_now E) (pe_node_id e) (pe_address e) (pe_capabilities e) m) es m)"
proof (induction es arbitrary: m)
  case (Cons e es)
  show ?case using Cons [of m] Cons [of "learn_peer (ev_now E) (pe_node_id e) (pe_address e) (pe_capabilities e) m"]
    by (simp add: learn_peer_def frame_discovery)
qed simp

lemma frame_maintain: "same_frame m (snd (maintain_peer_connections srt E m))"
proof -
  let ?m = "m\<lparr>pm_discovery := cleanup_stale_peers (ev_now E) (pm_discovery m)\<rparr>"
  have "same_frame ?m (snd (cleanup_idle_connections (ev_now E) ?m))" by (simp add: cleanup_idle_connections_def)
  moreover have "same_frame x (snd (fill_connections srt E x))" for x by (simp add: fill_connections_def Let_def)
  from same_frame_trans [OF calculation this] show ?thesis
    by (simp add: maintain_peer_connections_def case_prod_beta Let_def frame_discovery)
qed

lemma peer_step_frame:
  assumes "peer_step x m = Inr m'" "\<And>P. x \<noteq> SetPolicy P"
  shows "same_frame m m'"
proof (cases x)
  case (SendTo E n data)
  then show ?thesis using assms(1) frame_send by (auto simp: result_then_Inr)
next
  case (Broadcast E data)
  then show ?thesis using assms(1) frame_send_each by (auto simp: broadcast_to_peers_def)
next
  case (SendRandom E data k)
  then show ?thesis using assms(1) frame_send_each by (auto simp: send_to_random_peers_def result_then_Inr)
next
  case (GetRequest E n msg)
  then show ?thesis using assms(1) frame_send by (auto simp: handle_peer_request_def result_then_Inr Let_def split: if_splits)
next
  case (GetNatRequest E n r)
  then show ?thesis using assms(1) frame_send
    by (auto simp: handle_nat_traversal_request_def result_then_Inr Let_def split: if_splits option.splits)
next
  case (GetPeers E msg)
  then show ?thesis using assms(1) frame_learn_all by (auto simp: handle_peer_response_def)
next
  case (SessionsOp L y)
  then show ?thesis using assms(1) by (auto simp: same_frame_def)
next
  case (Disconnect n)
  then show ?thesis using assms(1) by (auto simp: disconnect_peer_def same_frame_def)
next
  case (GetAnnouncement E msg)
  then show ?thesis using assms(1) by (auto simp: handle_peer_announcement_def learn_peer_def frame_discovery)
qed (use assms in \<open>auto simp: frame_discovery frame_maintain connect_to_bootstrap_nodes_def disconnect_all_def
      cleanup_idle_connections_def attempt_reconnections_def load_peer_database_def case_prod_beta Let_def\<close>)

lemma peer_step_local: "peer_step x m = Inr m' \<Longrightarrow> pm_local m' = pm_local m"
  using peer_step_frame [of x m m'] by (cases "\<exists>P. x = SetPolicy P") (auto simp: same_frame_def set_policy_def)

lemma peer_run_local: "peer_run xs m = Inr m' \<Longrightarrow> pm_local m' = pm_local m"
proof (induction xs arbitrary: m)
  case (Cons x xs)
  then obtain m1 where "peer_step x m = Inr m1" "peer_run xs m1 = Inr m'" by (auto simp: result_then_Inr)
  then show ?case using Cons.IH peer_step_local by simp
qed simp

text \<open>
  C11: a peer manager is safe as long as the session manager that it shares frees no session that a
  connection still points to. In every sequence of operations on the manager and on its session manager
  that respects this, with policies that allow at most \<open>M\<close> connections, there are never more than \<open>M\<close>
  connections, none to the node itself, and every connection points to a live session with the very peer it
  is listed under; no operation follows a stale pointer.
\<close>

theorem connections_safe:
  fixes n P
  defines "m0 \<equiv> set_policy P (PeerManager_init n (SessionManager_init n))"
  assumes "cn_max_peers P \<le> M" "run_respects M ops m0"
  shows "case peer_run ops m0 of
     Inl fault \<Rightarrow> fault \<noteq> DanglingPointer
   | Inr m \<Rightarrow> active_connection_count m \<le> M \<and> \<not> is_connected m n \<and>
       list_all (\<lambda>(peer, c). pc_peer_id c = peer \<and> pc_is_outbound c \<and>
         (\<exists>p s. pc_session c = Some p \<and> session_at (pm_sessions m) p = Some s \<and> se_remote s = peer)) (pm_connections m)"
proof -
  have "peer_inv M m0"
    using assms(2) by (simp add: m0_def peer_inv_def set_policy_def PeerManager_init_def is_connected_def manager_inv_def SessionManager_init_def)
  then have ok: "step_ok M (peer_run ops m0)" using assms(3) by (rule peer_run_ok)
  show ?thesis
  proof (cases "peer_run ops m0")
    case (Inl f)
    then show ?thesis using ok by (simp add: step_ok_def)
  next
    case (Inr m)
    have "pm_local m = n"
      using peer_run_local [OF Inr] by (simp add: m0_def set_policy_def PeerManager_init_def)
    moreover have inv: "peer_inv M m" using ok Inr by simp
    moreover have "conn_ok (pm_sessions m) peer c" if pc: "(peer, c) \<in> set (pm_connections m)" for peer c
    proof -
      have "map_of (pm_connections m) peer = Some c" using inv pc omap_find_iff [of "pm_connections m" peer c] by (simp add: peer_inv_def)
      then show ?thesis using inv by (simp add: peer_inv_def)
    qed
    ultimately show ?thesis using Inr by (auto simp: peer_inv_def active_connection_count_def conn_ok_def list_all_iff)
  qed
qed

section \<open>Filling up the connections\<close>

text \<open>A peer that the next attempt will connect to.\<close>

definition ready :: "PeerManager \<Rightarrow> NodeID \<Rightarrow> bool" where
  "ready m n \<longleftrightarrow> \<not> is_connected m n \<and> should_connect_to_peer m n \<and> \<not> has_session (pm_sessions m) n"

lemma has_session_iff: "has_session sm n \<longleftrightarrow> n \<in> (se_remote \<circ> snd) ` set (mg_sessions sm)"
  unfolding has_session_def get_session_def option.map_disc_iff session_entry_None by simp

lemma connect_ready:
  assumes "ready m n" "can_connect_more_peers m" "manager_inv (pm_sessions m)"
  shows "active_connection_count (snd (connect_to_peer E n m)) = Suc (active_connection_count m) \<and>
    (k \<noteq> n \<longrightarrow> ready m k \<longrightarrow> ready (snd (connect_to_peer E n m)) k)"
proof -
  let ?s = "Session_new (ev_now E) (mg_local (pm_sessions m)) n" and ?p = "mg_next (pm_sessions m)"
  define sm where "sm = (pm_sessions m)\<lparr>mg_sessions := mg_sessions (pm_sessions m) @ [(?p, ?s)], mg_next := Suc ?p\<rparr>"
  define s where "s = snd (initiate_handshake (ev_lib E) (ev_now E) (ev_keypair E n) ?s)"
  have c: "create_outbound_session (ev_now E) n (pm_sessions m) = (?p, sm)"
    using assms(1) by (simp add: ready_def has_session_def create_outbound_session_def push_session_def sm_def)
  have "map_of (mg_sessions (pm_sessions m)) ?p = None"
    using assms(3) by (auto simp: manager_inv_def list_all_iff map_of_eq_None_iff)
  then have at: "session_at sm ?p = Some ?s" by (simp add: session_at_def sm_def map_add_def)
  have h: "initiate_handshake (ev_lib E) (ev_now E) (ev_keypair E n) ?s = (True, s)"
    by (simp add: s_def initiate_handshake_def Session_new_def)
  have remotes: "(se_remote \<circ> snd) ` set (mg_sessions (session_put ?p s sm)) = insert n ((se_remote \<circ> snd) ` set (mg_sessions (pm_sessions m)))"
    using \<open>map_of (mg_sessions (pm_sessions m)) ?p = None\<close>
    by (force simp: session_put_def sm_def image_iff map_of_eq_None_iff s_def initiate_handshake_def Session_new_def)
  have "connect_to_peer E n m = handle_successful_connection (ev_now E) n ?p
      (m\<lparr>pm_last_attempt := omap_set n (ev_now E) (pm_last_attempt m), pm_sessions := session_put ?p s sm\<rparr>)"
    using assms(1,2) by (simp add: connect_to_peer_def ready_def c at h Let_def)
  then show ?thesis using assms(1) remotes
    by (auto simp: handle_successful_connection_def Let_def active_connection_count_def length_omap_set_new ready_def
        is_connected_def should_connect_to_peer_def too_many_failures_def has_session_iff split: option.splits)
qed

lemma connect_all_ready:
  assumes "distinct ns" "\<forall>n \<in> set ns. ready m n" "active_connection_count m + length ns \<le> cn_max_peers (pm_policy m)" "peer_inv M m"
  shows "active_connection_count (snd (connect_all E ns m)) = active_connection_count m + length ns"
  using assms
proof (induction ns arbitrary: m)
  case (Cons n ns)
  let ?m = "snd (connect_to_peer E n m)"
  have step: "active_connection_count ?m = Suc (active_connection_count m) \<and> (k \<in> set ns \<longrightarrow> ready ?m k)" for k
    using connect_ready [of m n E k] Cons.prems by (auto simp: can_connect_more_peers_def peer_inv_def)
  have "pm_policy ?m = pm_policy m" using frame_connect [of m E n] by (simp add: same_frame_def)
  then have "active_connection_count (snd (connect_all E ns ?m)) = active_connection_count ?m + length ns"
    using Cons.prems step peer_inv_connect [OF Cons.prems(4)] by (intro Cons.IH) auto
  then show ?case using step by (simp add: case_prod_beta Let_def)
qed simp

lemma select_perm:
  assumes "\<And>xs. mset (srt xs) = mset xs" "omap_ok (pd_peers d)"
  shows "distinct (select_peers_to_connect srt now k ex d)"
    "set (select_peers_to_connect srt now k ex d) \<subseteq> set (map fst (available_peers now ex d))"
    "length (select_peers_to_connect srt now k ex d) = min k (length (available_peers now ex d))"
proof -
  let ?xs = "map (\<lambda>(n, p). (n, peer_score p)) (available_peers now ex d)"
  have names: "map fst ?xs = map fst (available_peers now ex d)" by (auto simp: case_prod_beta)
  have "mset (map fst (srt ?xs)) = mset (map fst ?xs)" by (simp only: mset_map assms(1))
  then have "mset (map fst (srt ?xs)) = mset (map fst (available_peers now ex d))" by (simp only: names)
  then have "distinct (map fst (srt ?xs))" "set (map fst (srt ?xs)) = set (map fst (available_peers now ex d))"
      "length (srt ?xs) = length (available_peers now ex d)"
    using distinct_available [OF assms(2)] by (metis mset_eq_imp_distinct_iff, metis mset_eq_setD, metis length_map mset_eq_length)
  then show "distinct (select_peers_to_connect srt now k ex d)"
    "set (select_peers_to_connect srt now k ex d) \<subseteq> set (map fst (available_peers now ex d))"
    "length (select_peers_to_connect srt now k ex d) = min k (length (available_peers now ex d))"
    by (auto simp: select_peers_to_connect_def take_map [symmetric] dest: in_set_takeD)
qed

lemma omap_ok_cleanup: "omap_ok (pd_peers d) \<Longrightarrow> omap_ok (pd_peers (cleanup_stale_peers now d))"
  by (simp add: cleanup_stale_peers_def omap_ok_erase_all)

lemma discovery_disconnect_each: "pm_discovery (snd (disconnect_each ns m)) = pm_discovery m"
proof (induction ns arbitrary: m)
  case (Cons n ns)
  then show ?case by (simp add: disconnect_peer_def case_prod_beta Let_def)
qed simp

definition tidied :: "u64 \<Rightarrow> PeerManager \<Rightarrow> PeerManager" where
  "tidied now m = snd (cleanup_idle_connections now (m\<lparr>pm_discovery := cleanup_stale_peers now (pm_discovery m)\<rparr>))"

definition candidates :: "u64 \<Rightarrow> PeerManager \<Rightarrow> NodeID list" where
  "candidates now m = map fst (available_peers now (pm_local m # map fst (pm_connections m)) (pm_discovery m))"

text \<open>
  C12: a round of maintenance brings the number of connections up to the target, or as far towards it as
  there are known and fresh peers: from the connections that are left when the idle ones are gone, it
  connects to one peer after the other until the target is reached or no candidate is left. Assumed are
  a target not above the maximum, a sort that permutes its input, and that every candidate is ready: not
  connected, passing the policy and the checks of failures and delays, and without a session (a peer that
  was disconnected keeps its session and is not ready).
\<close>

theorem maintenance_reaches_target:
  assumes "peer_inv M m" "omap_ok (pd_peers (pm_discovery m))" "\<And>xs. mset (srt xs) = mset xs"
    and "cn_target_peers (pm_policy m) \<le> cn_max_peers (pm_policy m)"
    and "list_all (ready (tidied (ev_now E) m)) (candidates (ev_now E) (tidied (ev_now E) m))"
  shows "active_connection_count (snd (maintain_peer_connections srt E m)) =
    max (active_connection_count (tidied (ev_now E) m))
      (min (cn_target_peers (pm_policy m))
        (active_connection_count (tidied (ev_now E) m) + length (candidates (ev_now E) (tidied (ev_now E) m))))"
proof -
  let ?now = "ev_now E"
  define t where "t = tidied ?now m"
  define ex where "ex = pm_local t # map fst (pm_connections t)"
  define k where "k = cn_target_peers (pm_policy t) - active_connection_count t"
  define sel where "sel = select_peers_to_connect srt ?now k ex (pm_discovery t)"
  have inv: "peer_inv M t" using assms(1)
    by (simp add: t_def tidied_def cleanup_idle_connections_def peer_inv_disconnect_each peer_inv_discovery)
  have policy: "pm_policy t = pm_policy m"
    using frame_disconnect_each [of "m\<lparr>pm_discovery := cleanup_stale_peers ?now (pm_discovery m)\<rparr>"]
    by (simp add: t_def tidied_def cleanup_idle_connections_def same_frame_def)
  have ok: "omap_ok (pd_peers (pm_discovery t))"
    using assms(2) by (simp add: t_def tidied_def cleanup_idle_connections_def discovery_disconnect_each omap_ok_cleanup)
  note sel = select_perm [OF assms(3) ok, of ?now k ex, folded sel_def]
  have cand: "candidates ?now t = map fst (available_peers ?now ex (pm_discovery t))" by (simp add: candidates_def ex_def)
  have known: "filter (\<lambda>n. get_peer_info (pm_discovery t) n \<noteq> None) sel = sel"
    using sel(2) set_available [OF ok] by (intro filter_True) blast
  have ready: "\<forall>n \<in> set sel. ready t n" 
    using sel(2) [folded cand] assms(5) [folded t_def] by (auto simp: list_all_iff)
  have fill: "snd (maintain_peer_connections srt E m) =
      (if active_connection_count t < cn_target_peers (pm_policy t) then snd (connect_all E sel t) else t)"
    using known by (simp add: maintain_peer_connections_def fill_connections_def t_def [symmetric, unfolded tidied_def]
        case_prod_beta Let_def sel_def k_def ex_def)
  show ?thesis
  proof (cases "active_connection_count t < cn_target_peers (pm_policy t)")
    case True
    have "length sel = min k (length (candidates ?now t))" using sel(3) cand by simp
    moreover have "active_connection_count (snd (connect_all E sel t)) = active_connection_count t + length sel"
      using True assms(4) policy calculation by (intro connect_all_ready [OF sel(1) ready _ inv]) (simp add: k_def)
    ultimately show ?thesis using True fill policy by (simp add: t_def [symmetric] k_def)
  next
    case False
    then show ?thesis using fill policy by (simp add: t_def [symmetric])
  qed
qed

definition sample_peer_env :: "u64 \<Rightarrow> peer_env" where
  "sample_peer_env now = \<lparr>ev_now = now, ev_lib = sample_lib, ev_keypair = (\<lambda>_. (replicate 32 1, replicate 64 1)),
     ev_nonce = (\<lambda>_. [0, 0, 0, 0]), ev_draw = (\<lambda>_. 0), ev_raw_signature = replicate 64 0\<rparr>"

definition sample_manager :: PeerManager where
  "sample_manager = (PeerManager_init (NodeID [9]) (SessionManager_init (NodeID [9])))\<lparr>pm_discovery := \<lparr>pd_bootstrap = [],
     pd_peers = [(NodeID [1], new_peer 100 (NodeID [1]) ''10.0.0.1:80'')]\<rparr>\<rparr>"

lemma sample_tidied [simp]: "tidied 200 sample_manager = sample_manager"
  by (simp add: tidied_def sample_manager_def cleanup_stale_peers_def cleanup_idle_connections_def PeerManager_init_def
      peer_is_stale_def new_peer_def PEER_STALE_TIMEOUT_def)

lemma sample_candidates [simp]: "candidates 200 sample_manager = [NodeID [1]]"
  by (simp add: candidates_def available_peers_def sample_manager_def PeerManager_init_def peer_is_stale_def new_peer_def PEER_STALE_TIMEOUT_def)

lemma min_reliability_low: "\<not> f32_less (Fin 1) (f32_of_rat (3 / 10))"
  by code_simp

text \<open>
  A node learns of a peer, connects to it, lets the session manager clean up while the session is still
  fresh, allows fewer connections and sends.
\<close>

definition peer_ops :: "peer_op list" where
  "peer_ops = [AddPeer 100 (NodeID [1]) ''10.0.0.1:80'', Connect (sample_peer_env 200) (NodeID [1]),
     SessionsOp sample_lib (Cleanup 201), SetPolicy (ConnectionPolicy_default\<lparr>cn_max_peers := 10\<rparr>),
     SendTo (sample_peer_env 202) (NodeID [1]) [1, 2, 3]]"

definition fresh_manager :: PeerManager where
  "fresh_manager = set_policy ConnectionPolicy_default (PeerManager_init (NodeID [9]) (SessionManager_init (NodeID [9])))"

lemma peer_ops_respect: "run_respects 50 peer_ops fresh_manager"
  by code_simp

lemma peer_ops_connected:
  "case peer_run peer_ops fresh_manager of Inl _ \<Rightarrow> False | Inr m \<Rightarrow> is_connected m (NodeID [1])"
  by code_simp

theorem connections_safe_witness:
  "case peer_run peer_ops fresh_manager of
     Inl fault \<Rightarrow> False
   | Inr m \<Rightarrow> is_connected m (NodeID [1]) \<and> active_connection_count m \<le> 50 \<and> \<not> is_connected m (NodeID [9]) \<and>
       list_all (\<lambda>(peer, c). pc_peer_id c = peer \<and> pc_is_outbound c \<and>
         (\<exists>p s. pc_session c = Some p \<and> session_at (pm_sessions m) p = Some s \<and> se_remote s = peer)) (pm_connections m)"
proof -
  have "cn_max_peers ConnectionPolicy_default \<le> 50" by (simp add: ConnectionPolicy_default_def)
  from connections_safe [OF this, of peer_ops "NodeID [9]"] peer_ops_respect peer_ops_connected show ?thesis
    unfolding fresh_manager_def by (simp split: sum.splits)
qed

theorem maintenance_reaches_target_witness:
  "active_connection_count (snd (maintain_peer_connections (\<lambda>xs. xs) (sample_peer_env 200) sample_manager)) = 1"
proof -
  have "ready sample_manager (NodeID [1])"
    by (simp add: ready_def sample_manager_def PeerManager_init_def is_connected_def should_connect_to_peer_def
        too_many_failures_def get_peer_info_def new_peer_def reliability_score_def ConnectionPolicy_default_def
        min_reliability_low has_session_def get_session_def session_entry_def SessionManager_init_def)
  moreover have "peer_inv 50 sample_manager"
    by (simp add: ConnectionPolicy_default_def peer_inv_def sample_manager_def PeerManager_init_def is_connected_def manager_inv_def SessionManager_init_def)
  moreover have "omap_ok (pd_peers (pm_discovery sample_manager))" by (simp add: sample_manager_def omap_ok_def)
  moreover have "cn_target_peers (pm_policy sample_manager) = 20" "cn_max_peers (pm_policy sample_manager) = 50"
    "active_connection_count sample_manager = 0" "ev_now (sample_peer_env 200) = 200"
    by (simp_all add: sample_manager_def PeerManager_init_def ConnectionPolicy_default_def active_connection_count_def sample_peer_env_def)
  ultimately show ?thesis
    using maintenance_reaches_target [where m = sample_manager and srt = "\<lambda>xs. xs" and E = "sample_peer_env 200"] by simp
qed

section \<open>The database\<close>

definition record_ok :: "NodeID \<times> PeerInfo \<Rightarrow> bool" where
  "record_ok = (\<lambda>(n, p). pi_node_id p = n \<and> length (node_bytes n) = 32)"

lemma hex_hash: "length h = 32 \<Longrightarrow> hex_to_hash (hash_to_hex h) = Inr h"
  by (simp add: hex_to_hash_def hex_pairs_hash_to_hex)

lemma read_bootstrap_json: "length (bn_public_key b) = 32 \<Longrightarrow> read_bootstrap (bootstrap_json b) = Inr b"
  by (simp add: read_bootstrap_def bootstrap_json_def json_put_def json_index_const_def json_get_string_def read_hash_def hex_hash)

lemma ucast_u32_u64 [simp]: "(ucast (ucast (x :: u32) :: u64) :: u32) = x"
  by (rule bit_word_eqI) (simp add: bit_simps)

lemma read_peer_json: "record_ok (n, p) \<Longrightarrow> read_peer J (peer_json (n, p)) = Inr (p\<lparr>pi_capabilities := NodeCapabilities_new\<rparr>)"
  by (cases n) (simp add: record_ok_def read_peer_def peer_json_def json_put_def json_index_const_def json_get_string_def json_get_uint_def
      json_get_bool_def read_hash_def NodeID_to_string_def hex_hash)

lemma load_bootstrap_json:
  "list_all (\<lambda>b. length (bn_public_key b) = 32) bs \<Longrightarrow>
     load_bootstrap (map bootstrap_json bs) d = (None, d\<lparr>pd_bootstrap := pd_bootstrap d @ bs\<rparr>)"
  by (induction bs arbitrary: d) (simp_all add: read_bootstrap_json add_bootstrap_node_def)

lemma load_peers_json:
  assumes "list_all record_ok ps" "omap_ok (pd_peers d @ ps)"
  shows "load_peers J (map peer_json ps) d = (None, d\<lparr>pd_peers := pd_peers d @ map (\<lambda>(n, p). (n, p\<lparr>pi_capabilities := NodeCapabilities_new\<rparr>)) ps\<rparr>)"
  using assms
proof (induction ps arbitrary: d)
  case (Cons e ps)
  obtain n p where e: "e = (n, p)" by (cases e)
  let ?p = "p\<lparr>pi_capabilities := NodeCapabilities_new\<rparr>"
  have n: "pi_node_id p = n" using Cons.prems e by (simp add: record_ok_def)
  have set: "omap_set n ?p (pd_peers d) = pd_peers d @ [(n, ?p)]"
    using Cons.prems(2) e by (intro omap_set_last) (auto simp: omap_ok_def sorted_wrt_append)
  have "omap_ok ((pd_peers d @ [(n, ?p)]) @ ps)" using Cons.prems(2) e by (simp add: omap_ok_def)
  then show ?case using Cons.IH [of "d\<lparr>pd_peers := pd_peers d @ [(n, ?p)]\<rparr>"] Cons.prems(1) read_peer_json [of n p J]
    by (simp add: e n set)
qed simp

text \<open>
  a peer database that is saved and loaded into an empty discovery gives the same bootstrap nodes and
  the same peers with their history; only the capabilities are not part of the file. The JSON library
  is assumed to print the document to a text that it parses to the same document.
\<close>

theorem peer_database_roundtrip:
  assumes "js_dump J (discovery_json d) = Some text" "js_parse J text = Some (discovery_json d)"
    and "list_all (\<lambda>b. length (bn_public_key b) = 32) (pd_bootstrap d)" "list_all record_ok (pd_peers d)" "omap_ok (pd_peers d)"
  shows "save_to_disk J True d = (True, Some text) \<and>
    load_from_disk J (snd (save_to_disk J True d)) PeerDiscovery_init =
      (None, d\<lparr>pd_peers := map (\<lambda>(n, p). (n, p\<lparr>pi_capabilities := NodeCapabilities_new\<rparr>)) (pd_peers d)\<rparr>)"
  using assms load_bootstrap_json [OF assms(3), of PeerDiscovery_init]
    load_peers_json [OF assms(4), of "\<lparr>pd_bootstrap = pd_bootstrap d, pd_peers = []\<rparr>" J]
  by (simp add: save_to_disk_def load_from_disk_def discovery_json_def json_put_def json_member_def json_index_def json_contains_def
      json_items_def PeerDiscovery_init_def)

definition sample_discovery :: PeerDiscovery where
  "sample_discovery = \<lparr>pd_bootstrap = [\<lparr>bn_address = ''b:1'', bn_public_key = replicate 32 7, bn_description = ''boot''\<rparr>],
     pd_peers = [(NodeID (replicate 32 1), new_peer 100 (NodeID (replicate 32 1)) ''10.0.0.1:80'')]\<rparr>"

definition discovery_lib :: json_lib where
  "discovery_lib = \<lparr>js_dump = (\<lambda>j. if j = discovery_json sample_discovery then Some ''d'' else None),
     js_parse = (\<lambda>t. if t = ''d'' then Some (discovery_json sample_discovery) else None), js_float_to_uint = id\<rparr>"

theorem peer_database_roundtrip_witness:
  "fst (load_from_disk discovery_lib (snd (save_to_disk discovery_lib True sample_discovery)) PeerDiscovery_init) = None"
proof -
  have "js_dump discovery_lib (discovery_json sample_discovery) = Some ''d''"
    "js_parse discovery_lib ''d'' = Some (discovery_json sample_discovery)"
    by (simp_all add: discovery_lib_def)
  moreover have "list_all (\<lambda>b. length (bn_public_key b) = 32) (pd_bootstrap sample_discovery)"
    "list_all record_ok (pd_peers sample_discovery)" "omap_ok (pd_peers sample_discovery)"
    by (simp_all add: sample_discovery_def record_ok_def new_peer_def omap_ok_def)
  ultimately show ?thesis using peer_database_roundtrip [of discovery_lib sample_discovery "''d''"] by (metis fst_conv)
qed

text \<open>When the document cannot be printed, because an address is not UTF-8 for instance, the file is left empty.\<close>

theorem failed_save_empties_database:
  "js_dump J (discovery_json d) = None \<Longrightarrow> save_to_disk J True d = (False, Some [])"
  by (simp add: save_to_disk_def)

section \<open>What goes wrong\<close>

text \<open>The attempts are counted in a copy of the peer record: the reliability of a peer never changes.\<close>

theorem attempts_not_recorded: "pm_discovery (snd (connect_to_peer E n m)) = pm_discovery m"
  by simp

text \<open>
  Disconnecting leaves the session where it is, in a state in which no handshake can be initiated: a peer
  that was disconnected cannot be connected again.
\<close>

theorem disconnected_peer_stays_away:
  assumes "peer_inv M m" "session_entry (pm_sessions m) n = Some (p, s)" "se_state s \<noteq> DISCONNECTED"
  shows "\<not> is_connected (snd (connect_to_peer E n (snd (disconnect_peer n m)))) n"
proof -
  define d where "d = snd (disconnect_peer n m)"
  have d: "\<not> is_connected d n" "pm_sessions d = pm_sessions m" by (simp_all add: d_def disconnect_peer_def is_connected_def)
  have "manager_inv (pm_sessions m)" using assms(1) by (simp add: peer_inv_def)
  then have "session_at (pm_sessions m) p = Some s"
    using assms(2) session_entry_Some [of "pm_sessions m" n p s] by (simp add: session_at_def manager_inv_def)
  then have "is_connected (snd (connect_to_peer E n d)) n = is_connected d n"
    using assms(2,3) by (simp add: connect_to_peer_def create_outbound_session_def get_session_def d(2) initiate_handshake_def
        handle_failed_connection_def is_connected_def Let_def)
  then show ?thesis using d by (simp add: d_def)
qed

text \<open>A request for peers to a node that knows none stops it.\<close>

theorem peer_request_stops_node:
  assumes "rm_requester_id msg = n" "rm_timestamp msg = ev_now E" "available_peers (ev_now E) [n, pm_local m] (pm_discovery m) = []"
  shows "handle_peer_request E n msg m = Inl DivisionByZero"
  using assms by (simp add: handle_peer_request_def stale_timestamp_def select_random_peers_def shuffle_def)

text \<open>A connected peer whose address has no number behind the colon stops the node with a NAT request.\<close>

theorem nat_request_stops_node:
  assumes "get_connection m n = Some c" "pc_address c = ''host:port''" "nq_requester_id r = n"
  shows "handle_nat_traversal_request E n r m = Inl BadNumber"
  using assms by (simp add: handle_nat_traversal_request_def stoi_def is_space_def is_digit_def Let_def)

text \<open>The pointer of a connection is not cleared when the session manager drops an idle session.\<close>

theorem idle_session_dangles:
  "send_to_peer (sample_peer_env 5000) (NodeID [1]) data
     ((snd (connect_to_peer (sample_peer_env 200) (NodeID [1]) sample_manager))
       \<lparr>pm_sessions := cleanup_stale_sessions 5000 (pm_sessions (snd (connect_to_peer (sample_peer_env 200) (NodeID [1]) sample_manager)))\<rparr>) =
   Inl DanglingPointer"
  by (simp add: connect_to_peer_def sample_manager_def PeerManager_init_def is_connected_def can_connect_more_peers_def
      active_connection_count_def should_connect_to_peer_def too_many_failures_def get_peer_info_def new_peer_def reliability_score_def
      ConnectionPolicy_default_def min_reliability_low create_outbound_session_def get_session_def session_entry_def SessionManager_init_def
      push_session_def session_at_def initiate_handshake_def Session_new_def session_put_def handle_successful_connection_def
      cleanup_stale_sessions_def session_timed_out_def IDLE_TIMEOUT_SECONDS_def send_to_peer_def sample_peer_env_def Let_def)

text \<open>The address is cut at its first colon before an IPv6 prefix is looked for, so that there is never one.\<close>

theorem no_ipv6_prefix:
  "extract_subnet address = (let ip = takeWhile (\<lambda>c. c \<noteq> CHR '':'') address in
     case before_last_dot ip of Some net \<Rightarrow> net @ ''.0/24'' | None \<Rightarrow> ip)"
proof -
  have "CHR '':'' \<notin> set s \<Longrightarrow> third_colon k before s = None" for k before s
    by (induction s arbitrary: before) auto
  moreover have "CHR '':'' \<notin> set (takeWhile (\<lambda>c. c \<noteq> CHR '':'') address)" by (auto dest: set_takeWhileD)
  ultimately have "third_colon 0 [] (takeWhile (\<lambda>c. c \<noteq> CHR '':'') address) = None" by blast
  then show ?thesis by (simp add: extract_subnet_def Let_def split: option.splits)
qed

end
