(* ===== verification/Attack_Prevention.thy ===== *)
theory Attack_Prevention
  imports Hybrid "HOL-Library.Multiset"
begin

text \<open>
  Protection against floods, Sybil identities and forked identities: the classes of
  \<open>src/security/attack_prevention.cpp\<close> and the coordinator that combines them.

  The clock, in seconds, is an argument; BLAKE3 is the parameter \<open>H\<close> and signature verification the
  parameter \<open>verify\<close>. The tokens of a bucket are a \<open>double\<close>: a rational number that is rounded to 53
  significant bits after every operation. The references to the ledger and to the reputation manager
  are not used by the code.
\<close>

section \<open>Rate limiter\<close>

text \<open>Rounding to a \<open>double\<close>; the numbers below are far from the largest one.\<close>

definition f64_round :: "rat \<Rightarrow> rat" where
  "f64_round x = fl_round 52 (-1022) x"

record RateLimitPolicy =
  rp_per_minute :: nat
  rp_per_hour :: nat
  rp_burst :: nat

definition RateLimitPolicy_default :: RateLimitPolicy where
  "RateLimitPolicy_default = \<lparr>rp_per_minute = 60, rp_per_hour = 1000, rp_burst = 10\<rparr>"

record TokenBucket =
  tb_tokens :: rat
  tb_last_update :: u64
  tb_minute :: nat
  tb_hour :: nat
  tb_minute_start :: u64
  tb_hour_start :: u64

definition TokenBucket_new :: TokenBucket where
  "TokenBucket_new = \<lparr>tb_tokens = 0, tb_last_update = 0, tb_minute = 0, tb_hour = 0, tb_minute_start = 0, tb_hour_start = 0\<rparr>"

record RateLimiter =
  rl_policy :: RateLimitPolicy
  rl_buckets :: "(NodeID \<times> TokenBucket) list"
  rl_requests :: u64
  rl_blocked :: u64

definition RateLimiter_new :: "RateLimitPolicy \<Rightarrow> RateLimiter" where
  "RateLimiter_new p = \<lparr>rl_policy = p, rl_buckets = [], rl_requests = 0, rl_blocked = 0\<rparr>"

definition refill_tokens :: "RateLimitPolicy \<Rightarrow> u64 \<Rightarrow> TokenBucket \<Rightarrow> TokenBucket" where
  "refill_tokens p now b =
     (if tb_last_update b = 0
      then b\<lparr>tb_tokens := f64_round (of_nat (rp_burst p)), tb_last_update := now, tb_minute_start := now, tb_hour_start := now\<rparr>
      else let elapsed = now - tb_last_update b;
               tokens_to_add = f64_round (f64_round (of_nat (unat elapsed)) * f64_round (f64_round (of_nat (rp_per_minute p)) / 60))
           in b\<lparr>tb_tokens := min (f64_round (tb_tokens b + tokens_to_add)) (f64_round (of_nat (rp_burst p))), tb_last_update := now\<rparr>)"

definition roll_windows :: "u64 \<Rightarrow> TokenBucket \<Rightarrow> TokenBucket" where
  "roll_windows now b =
     (let b = (if now - tb_minute_start b \<ge> 60 then b\<lparr>tb_minute := 0, tb_minute_start := now\<rparr> else b)
      in if now - tb_hour_start b \<ge> 3600 then b\<lparr>tb_hour := 0, tb_hour_start := now\<rparr> else b)"

definition allow_request :: "u64 \<Rightarrow> NodeID \<Rightarrow> RateLimiter \<Rightarrow> bool \<times> RateLimiter" where
  "allow_request now n l =
     (let l = l\<lparr>rl_requests := rl_requests l + 1\<rparr>;
          b = roll_windows now (refill_tokens (rl_policy l) now (opt_or TokenBucket_new (map_of (rl_buckets l) n)))
      in if tb_minute b \<ge> rp_per_minute (rl_policy l) \<or> tb_hour b \<ge> rp_per_hour (rl_policy l) \<or> tb_tokens b < 1
         then (False, l\<lparr>rl_buckets := omap_set n b (rl_buckets l), rl_blocked := rl_blocked l + 1\<rparr>)
         else (True, l\<lparr>rl_buckets := omap_set n (b\<lparr>tb_tokens := f64_round (tb_tokens b - 1), tb_minute := tb_minute b + 1,
                 tb_hour := tb_hour b + 1\<rparr>) (rl_buckets l)\<rparr>))"

definition rate_reset :: "NodeID \<Rightarrow> RateLimiter \<Rightarrow> RateLimiter" where
  "rate_reset n l = l\<lparr>rl_buckets := omap_erase n (rl_buckets l)\<rparr>"

definition cleanup_stale_buckets :: "u64 \<Rightarrow> RateLimiter \<Rightarrow> RateLimiter" where
  "cleanup_stale_buckets now l =
     (let to_remove = map fst (filter (\<lambda>(n, b). now - tb_last_update b > 7200) (rl_buckets l))
      in l\<lparr>rl_buckets := fold omap_erase to_remove (rl_buckets l)\<rparr>)"

section \<open>Sybil defence\<close>

record SybilDefense =
  sy_min_difficulty :: u32
  sy_min_reputation :: int
  sy_activity :: "(NodeID \<times> string list) list"

definition SybilDefense_init :: SybilDefense where
  "SybilDefense_init = \<lparr>sy_min_difficulty = 20, sy_min_reputation = 0, sy_activity = []\<rparr>"

definition set_min_pow_difficulty :: "u32 \<Rightarrow> SybilDefense \<Rightarrow> SybilDefense" where
  "set_min_pow_difficulty d s = s\<lparr>sy_min_difficulty := d\<rparr>"

definition set_min_reputation :: "int \<Rightarrow> SybilDefense \<Rightarrow> SybilDefense" where
  "set_min_reputation r s = s\<lparr>sy_min_reputation := r\<rparr>"

lemma unat_inc_small: "unat (x :: u32) + 1 < 2 ^ 32 \<Longrightarrow> unat (x + 1) = Suc (unat x)"
  using unat_add_lem [THEN iffD1, of x 1] by simp

lemma unat_inc_less: "(x :: u32) < d \<Longrightarrow> unat (x + 1) = Suc (unat x)"
  using unsigned_less [of d, where 'a = nat] by (intro unat_inc_small) (simp add: word_less_nat_alt)

text \<open>The inner loop over the bits of the first byte that is not zero.\<close>

function byte_zeros :: "u32 \<Rightarrow> u8 \<Rightarrow> u32 \<Rightarrow> u32" where
  "byte_zeros d b leading = (if b AND 0x80 = 0 \<and> leading < d then byte_zeros d (push_bit 1 b) (leading + 1) else leading)"
  by pat_completeness auto
termination
  by (relation "measure (\<lambda>(d, b, leading). unat d - unat leading)")
    (auto simp: unat_inc_less word_less_nat_alt)

declare byte_zeros.simps [simp del]

fun pow_zeros :: "u32 \<Rightarrow> u32 \<Rightarrow> bytes \<Rightarrow> u32" where
  "pow_zeros d leading [] = leading"
| "pow_zeros d leading (b # bs) =
     (if b = 0 then (if leading + 8 \<ge> d then leading + 8 else pow_zeros d (leading + 8) bs)
      else byte_zeros d b leading)"

definition verify_pow_difficulty :: "Hash256 \<Rightarrow> u32 \<Rightarrow> bool" where
  "verify_pow_difficulty proof_hash d \<longleftrightarrow> pow_zeros d 0 proof_hash \<ge> d"

definition validate_new_identity :: "(bytes \<Rightarrow> Hash256) \<Rightarrow> SybilDefense \<Rightarrow> NodeID \<Rightarrow> Hash256 \<Rightarrow> bool" where
  "validate_new_identity H s n proof_hash =
     (if \<not> verify_pow_difficulty proof_hash (sy_min_difficulty s) then False
      else if sy_min_difficulty s > 0 \<and> H proof_hash \<noteq> node_bytes n then False
      else True)"

definition calculate_sybil_score :: "u64 \<Rightarrow> SybilDefense \<Rightarrow> NodeID \<Rightarrow> nat \<Rightarrow> u64 \<Rightarrow> f32" where
  "calculate_sybil_score now s n connections join_time =
     (let age = now - join_time;
          score = Fin 0;
          score = (if age < 3600 \<and> connections > 20 then f32_add score (Fin (1 / 2)) else score);
          score = (if connections > 100 then f32_add score (f32_of_rat (3 / 10)) else score);
          score = (case map_of (sy_activity s) n of
                     None \<Rightarrow> score
                   | Some acts \<Rightarrow> if age > 86400 \<and> length acts < 10 then f32_add score (f32_of_rat (2 / 10)) else score)
      in if f32_less (Fin 1) score then Fin 1 else score)"

definition similar_activity :: "string list \<Rightarrow> string list \<Rightarrow> bool" where
  "similar_activity a b =
     (let overlap = min (length a) (length b);
          same = length (filter (\<lambda>(x, y). x = y) (zip (rev a) (rev b)))
      in overlap \<noteq> 0 \<and> overlap \<ge> 3 \<and>
         \<not> f32_less (f32_div (f32_of_int (int same)) (f32_of_int (int overlap))) (f32_of_rat (8 / 10)))"

definition activity_of :: "SybilDefense \<Rightarrow> NodeID \<Rightarrow> string list" where
  "activity_of s n = opt_or [] (map_of (sy_activity s) n)"

text \<open>The inner loop: the candidates that join the cluster of \<open>node\<close>, and the nodes consumed so far.\<close>

fun gather :: "SybilDefense \<Rightarrow> NodeID \<Rightarrow> NodeID list \<Rightarrow> NodeID list \<times> NodeID list \<Rightarrow> NodeID list \<times> NodeID list" where
  "gather s node [] (cluster, consumed) = (cluster, consumed)"
| "gather s node (c # cs) (cluster, consumed) =
     (if c = node \<or> c \<in> set consumed then gather s node cs (cluster, consumed)
      else if activity_of s c = [] then gather s node cs (cluster, consumed)
      else if similar_activity (activity_of s node) (activity_of s c)
        then gather s node cs (oset_insert c cluster, oset_insert c consumed)
      else gather s node cs (cluster, consumed))"

fun sybil_loop :: "SybilDefense \<Rightarrow> NodeID list \<Rightarrow> NodeID list \<Rightarrow> NodeID list \<Rightarrow> NodeID list list" where
  "sybil_loop s nodes [] consumed = []"
| "sybil_loop s nodes (n # ns) consumed =
     (if n \<in> set consumed then sybil_loop s nodes ns consumed
      else if activity_of s n = [] then sybil_loop s nodes ns consumed
      else let (cluster, consumed) = gather s n nodes ([n], oset_insert n consumed)
           in if length cluster \<ge> 2 then cluster # sybil_loop s nodes ns consumed else sybil_loop s nodes ns consumed)"

definition detect_sybil_groups :: "SybilDefense \<Rightarrow> NodeID list \<Rightarrow> NodeID list list" where
  "detect_sybil_groups s nodes = sybil_loop s nodes nodes []"

definition record_node_activity :: "NodeID \<Rightarrow> string \<Rightarrow> SybilDefense \<Rightarrow> SybilDefense" where
  "record_node_activity n activity s =
     (let acts = activity_of s n @ [activity]
      in s\<lparr>sy_activity := omap_set n (if length acts > 100 then tl acts else acts) (sy_activity s)\<rparr>)"

section \<open>Connection floods\<close>

record IPConnectionInfo =
  ip_active :: nat
  ip_total :: u64
  ip_last :: u64
  ip_timestamps :: "u64 list"

definition IPConnectionInfo_new :: IPConnectionInfo where
  "IPConnectionInfo_new = \<lparr>ip_active = 0, ip_total = 0, ip_last = 0, ip_timestamps = []\<rparr>"

record BlockEntry =
  bl_time :: u64
  bl_expiry :: u64
  bl_reason :: string

record DDoSMitigation =
  dd_connections :: "(string \<times> IPConnectionInfo) list"
  dd_blocked :: "(string \<times> BlockEntry) list"
  dd_total :: u64
  dd_refused :: u64

definition MAX_CONNECTIONS_PER_IP :: nat where "MAX_CONNECTIONS_PER_IP = 10"
definition ATTACK_THRESHOLD :: nat where "ATTACK_THRESHOLD = 50"

definition DDoSMitigation_init :: DDoSMitigation where
  "DDoSMitigation_init = \<lparr>dd_connections = [], dd_blocked = [], dd_total = 0, dd_refused = 0\<rparr>"

definition connections_of :: "DDoSMitigation \<Rightarrow> string \<Rightarrow> IPConnectionInfo" where
  "connections_of d ip = opt_or IPConnectionInfo_new (map_of (dd_connections d) ip)"

definition exceeds_connection_limit :: "IPConnectionInfo \<Rightarrow> bool" where
  "exceeds_connection_limit i \<longleftrightarrow> ip_active i \<ge> MAX_CONNECTIONS_PER_IP"

definition is_blocked :: "u64 \<Rightarrow> DDoSMitigation \<Rightarrow> string \<Rightarrow> bool" where
  "is_blocked now d ip = (case map_of (dd_blocked d) ip of None \<Rightarrow> False | Some e \<Rightarrow> now < bl_expiry e)"

definition block_ip :: "u64 \<Rightarrow> string \<Rightarrow> u64 \<Rightarrow> DDoSMitigation \<Rightarrow> DDoSMitigation" where
  "block_ip now ip duration d = d\<lparr>dd_blocked := omap_set ip
     \<lparr>bl_time = now, bl_expiry = now + duration, bl_reason = ''Rate limit exceeded''\<rparr> (dd_blocked d)\<rparr>"

definition allow_connection :: "u64 \<Rightarrow> string \<Rightarrow> DDoSMitigation \<Rightarrow> bool \<times> DDoSMitigation" where
  "allow_connection now ip d =
     (if is_blocked now d ip then (False, d\<lparr>dd_refused := dd_refused d + 1\<rparr>)
      else let info = connections_of d ip;
               d = d\<lparr>dd_connections := omap_set ip info (dd_connections d)\<rparr>
           in if exceeds_connection_limit info
              then (False, (block_ip now ip 3600 d)\<lparr>dd_refused := dd_refused d + 1\<rparr>)
              else (True, d))"

definition record_connection :: "u64 \<Rightarrow> string \<Rightarrow> DDoSMitigation \<Rightarrow> DDoSMitigation" where
  "record_connection now ip d =
     (let info = connections_of d ip;
          ts = ip_timestamps info @ [now];
          info = \<lparr>ip_active = ip_active info + 1, ip_total = ip_total info + 1, ip_last = now,
                  ip_timestamps = (if length ts > 100 then tl ts else ts)\<rparr>
      in d\<lparr>dd_connections := omap_set ip info (dd_connections d), dd_total := dd_total d + 1\<rparr>)"

definition close_connection :: "string \<Rightarrow> DDoSMitigation \<Rightarrow> DDoSMitigation" where
  "close_connection ip d =
     (case map_of (dd_connections d) ip of
        None \<Rightarrow> d
      | Some i \<Rightarrow> if ip_active i > 0
                  then d\<lparr>dd_connections := omap_set ip (i\<lparr>ip_active := ip_active i - 1\<rparr>) (dd_connections d)\<rparr> else d)"

definition detect_attack_pattern :: "u64 \<Rightarrow> DDoSMitigation \<Rightarrow> bool" where
  "detect_attack_pattern now d \<longleftrightarrow>
     ATTACK_THRESHOLD \<le> length (filter (\<lambda>t. now - t \<le> 60) (concat (map (ip_timestamps \<circ> snd) (dd_connections d))))"

definition get_threat_level :: "DDoSMitigation \<Rightarrow> f32" where
  "get_threat_level d =
     (if dd_connections d = [] then Fin 0
      else let ratio = f32_div (f32_of_int (int (length (dd_blocked d)))) (f32_of_int (int (length (dd_connections d))));
               level = f32_mul ratio (Fin 2)
           in if f32_less (Fin 1) level then Fin 1 else level)"

definition cleanup_expired_blocks :: "u64 \<Rightarrow> DDoSMitigation \<Rightarrow> DDoSMitigation" where
  "cleanup_expired_blocks now d =
     (let to_unblock = map fst (filter (\<lambda>(ip, e). now \<ge> bl_expiry e) (dd_blocked d))
      in d\<lparr>dd_blocked := fold omap_erase to_unblock (dd_blocked d)\<rparr>)"

section \<open>Forked identities\<close>

record KeyRecord =
  kr_public_key :: bytes
  kr_first_seen :: u64
  kr_last_seen :: u64
  kr_count :: nat

record ForkDetector =
  fd_keys :: "(NodeID \<times> KeyRecord list) list"
  fd_forked :: "NodeID list"

definition ForkDetector_init :: ForkDetector where
  "ForkDetector_init = \<lparr>fd_keys = [], fd_forked = []\<rparr>"

definition record_node_key :: "u64 \<Rightarrow> NodeID \<Rightarrow> bytes \<Rightarrow> ForkDetector \<Rightarrow> ForkDetector" where
  "record_node_key now n key f =
     f\<lparr>fd_keys := omap_set n (opt_or [] (map_of (fd_keys f) n) @
         [\<lparr>kr_public_key = key, kr_first_seen = now, kr_last_seen = now, kr_count = 0\<rparr>]) (fd_keys f)\<rparr>"

definition mark_as_forked :: "NodeID \<Rightarrow> ForkDetector \<Rightarrow> ForkDetector" where
  "mark_as_forked n f = f\<lparr>fd_forked := oset_insert n (fd_forked f)\<rparr>"

definition detect_fork :: "u64 \<Rightarrow> NodeID \<Rightarrow> bytes \<Rightarrow> ForkDetector \<Rightarrow> bool \<times> ForkDetector" where
  "detect_fork now n claimed_key f =
     (case map_of (fd_keys f) n of
        None \<Rightarrow> (False, record_node_key now n claimed_key f)
      | Some records \<Rightarrow>
          if list_ex (\<lambda>r. kr_public_key r = claimed_key) records then (False, f)
          else (True, mark_as_forked n f))"

definition verify_signature_consistency ::
  "(bytes \<Rightarrow> bytes \<Rightarrow> bytes \<Rightarrow> bool) \<Rightarrow> NodeID \<Rightarrow> bytes \<Rightarrow> bytes \<Rightarrow> ForkDetector \<Rightarrow> bool" where
  "verify_signature_consistency verify n msg sig f =
     (case map_of (fd_keys f) n of
        None \<Rightarrow> True
      | Some records \<Rightarrow> list_ex (\<lambda>r. verify msg sig (kr_public_key r)) records)"

definition get_detected_forks :: "ForkDetector \<Rightarrow> NodeID list" where
  "get_detected_forks f = fd_forked f"

section \<open>The coordinator\<close>

record Coordinator =
  co_limiter :: RateLimiter
  co_sybil :: SybilDefense
  co_ddos :: DDoSMitigation
  co_forks :: ForkDetector
  co_sybil_enabled :: bool
  co_ddos_enabled :: bool
  co_fork_enabled :: bool
  co_last_cleanup :: u64

definition Coordinator_init :: "u64 \<Rightarrow> Coordinator" where
  "Coordinator_init now = \<lparr>co_limiter = RateLimiter_new RateLimitPolicy_default, co_sybil = SybilDefense_init,
     co_ddos = DDoSMitigation_init, co_forks = ForkDetector_init, co_sybil_enabled = True, co_ddos_enabled = True,
     co_fork_enabled = True, co_last_cleanup = now\<rparr>"

definition validate_incoming_connection :: "u64 \<Rightarrow> string \<Rightarrow> NodeID \<Rightarrow> Coordinator \<Rightarrow> bool \<times> Coordinator" where
  "validate_incoming_connection now ip n c =
     (let (ok, c) = (if co_ddos_enabled c then let (ok, d) = allow_connection now ip (co_ddos c) in (ok, c\<lparr>co_ddos := d\<rparr>)
                     else (True, c))
      in if \<not> ok then (False, c)
         else if co_fork_enabled c \<and> n \<in> set (get_detected_forks (co_forks c)) then (False, c)
         else (True, c))"

definition on_connection_established :: "u64 \<Rightarrow> string \<Rightarrow> Coordinator \<Rightarrow> Coordinator" where
  "on_connection_established now ip c =
     (if co_ddos_enabled c then c\<lparr>co_ddos := record_connection now ip (co_ddos c)\<rparr> else c)"

definition on_connection_closed :: "string \<Rightarrow> Coordinator \<Rightarrow> Coordinator" where
  "on_connection_closed ip c = (if co_ddos_enabled c then c\<lparr>co_ddos := close_connection ip (co_ddos c)\<rparr> else c)"

definition validate_request :: "u64 \<Rightarrow> NodeID \<Rightarrow> string \<Rightarrow> Coordinator \<Rightarrow> bool \<times> Coordinator" where
  "validate_request now n request_type c =
     (let (ok, l) = allow_request now n (co_limiter c); c = c\<lparr>co_limiter := l\<rparr>
      in if \<not> ok then (False, c)
         else (True, if co_sybil_enabled c then c\<lparr>co_sybil := record_node_activity n request_type (co_sybil c)\<rparr> else c))"

definition validate_identity :: "(bytes \<Rightarrow> Hash256) \<Rightarrow> NodeID \<Rightarrow> Hash256 \<Rightarrow> Coordinator \<Rightarrow> bool" where
  "validate_identity H n proof_hash c = (if \<not> co_sybil_enabled c then True else validate_new_identity H (co_sybil c) n proof_hash)"

definition validate_signature :: "(bytes \<Rightarrow> bytes \<Rightarrow> bytes \<Rightarrow> bool) \<Rightarrow> NodeID \<Rightarrow> bytes \<Rightarrow> bytes \<Rightarrow> Coordinator \<Rightarrow> bool" where
  "validate_signature verify n msg sig c =
     (if \<not> co_fork_enabled c then True else verify_signature_consistency verify n msg sig (co_forks c))"

definition is_under_attack :: "u64 \<Rightarrow> Coordinator \<Rightarrow> bool" where
  "is_under_attack now c = (if co_ddos_enabled c then detect_attack_pattern now (co_ddos c) else False)"

definition get_overall_threat_level :: "Coordinator \<Rightarrow> f32" where
  "get_overall_threat_level c =
     (if co_ddos_enabled c
      then let level = get_threat_level (co_ddos c) in if f32_less (Fin 0) level then level else Fin 0
      else Fin 0)"

definition coordinator_cleanup :: "u64 \<Rightarrow> Coordinator \<Rightarrow> Coordinator" where
  "coordinator_cleanup now c =
     c\<lparr>co_limiter := cleanup_stale_buckets now (co_limiter c), co_ddos := cleanup_expired_blocks now (co_ddos c)\<rparr>"

definition tick :: "u64 \<Rightarrow> Coordinator \<Rightarrow> Coordinator" where
  "tick now c = (if now - co_last_cleanup c \<ge> 300 then (coordinator_cleanup now c)\<lparr>co_last_cleanup := now\<rparr> else c)"

definition set_rate_limit_policy :: "RateLimitPolicy \<Rightarrow> Coordinator \<Rightarrow> Coordinator" where
  "set_rate_limit_policy p c = c\<lparr>co_limiter := RateLimiter_new p\<rparr>"

definition enable_sybil_defense :: "bool \<Rightarrow> Coordinator \<Rightarrow> Coordinator" where
  "enable_sybil_defense b c = c\<lparr>co_sybil_enabled := b\<rparr>"

definition enable_ddos_mitigation :: "bool \<Rightarrow> Coordinator \<Rightarrow> Coordinator" where
  "enable_ddos_mitigation b c = c\<lparr>co_ddos_enabled := b\<rparr>"

definition enable_fork_detection :: "bool \<Rightarrow> Coordinator \<Rightarrow> Coordinator" where
  "enable_fork_detection b c = c\<lparr>co_fork_enabled := b\<rparr>"

record AttackStatistics =
  ast_total_connections :: u64
  ast_blocked_connections :: u64
  ast_total_requests :: u64
  ast_blocked_requests :: u64
  ast_blocked_ips :: nat
  ast_detected_forks :: nat
  ast_threat_level :: f32

definition get_statistics :: "Coordinator \<Rightarrow> AttackStatistics" where
  "get_statistics c = \<lparr>ast_total_connections = dd_total (co_ddos c), ast_blocked_connections = dd_refused (co_ddos c),
     ast_total_requests = rl_requests (co_limiter c), ast_blocked_requests = rl_blocked (co_limiter c),
     ast_blocked_ips = length (dd_blocked (co_ddos c)), ast_detected_forks = length (fd_forked (co_forks c)),
     ast_threat_level = get_overall_threat_level c\<rparr>"

section \<open>The proof-of-work check\<close>

lemma zero_bits_ge: "unat leading + i < 2 ^ 32 \<Longrightarrow> leading \<le> zero_bits b i leading"
proof (induction i arbitrary: leading)
  case (Suc i)
  have "unat (leading + 1) = Suc (unat leading)" using Suc.prems by (intro unat_inc_small) simp
  then show ?case using Suc.IH [of "leading + 1"] Suc.prems by (auto simp: word_le_nat_alt)
qed simp

lemma shifted_top: "i < 8 \<Longrightarrow> push_bit (7 - i) b AND 0x80 = 0 \<longleftrightarrow> drop_bit i b AND 1 = (0 :: u8)"
proof -
  assume i: "i < 8"
  have "push_bit (7 - i) b AND push_bit 7 1 = 0 \<longleftrightarrow> drop_bit 7 (push_bit (7 - i) b) AND 1 = 0"
    by (rule mask_bit) simp
  moreover have "drop_bit 7 (push_bit (7 - i) b) AND 1 = drop_bit i b AND 1"
    using i by (intro bit_word_eqI) (auto simp: bit_simps)
  ultimately show ?thesis by (simp add: push_bit_eq_mult eval_nat_numeral)
qed

lemma byte_zeros_bits:
  "i \<le> 8 \<Longrightarrow> take_bit i b \<noteq> 0 \<Longrightarrow> unat leading + i < 2 ^ 32 \<Longrightarrow>
     d \<le> byte_zeros d (push_bit (8 - i) b) leading \<longleftrightarrow> d \<le> zero_bits b i leading"
proof (induction i arbitrary: leading)
  case (Suc i)
  have shift: "push_bit 1 (push_bit (8 - Suc i) b) = push_bit (8 - i) b"
  proof -
    have "8 - i = 1 + (8 - Suc i)" using Suc.prems(1) by simp
    then show ?thesis by (simp only: push_bit_push_bit)
  qed
  have top: "push_bit (8 - Suc i) b AND 0x80 = 0 \<longleftrightarrow> drop_bit i b AND 1 = 0"
    using shifted_top [of i b] Suc.prems(1) by simp
  show ?case
  proof (cases "drop_bit i b AND 1 = 0 \<and> leading < d")
    case True
    have inc: "unat (leading + 1) = Suc (unat leading)" using True by (intro unat_inc_less [of _ d]) simp
    have "take_bit i b \<noteq> 0"
    proof
      assume "take_bit i b = 0"
      moreover have "\<not> bit b i" using True by (simp add: bit_iff_odd_drop_bit and_one_eq even_iff_mod_2_eq_zero)
      ultimately have "take_bit (Suc i) b = 0" by (metis (no_types, lifting) bit_0_eq bit_eqI bit_take_bit_iff bot_apply bot_bool_def less_Suc_eq)
      then show False using Suc.prems(2) by simp
    qed
    then show ?thesis using Suc.IH [of "leading + 1"] Suc.prems True inc shift top
      by (subst byte_zeros.simps) simp
  next
    case False
    then show ?thesis
      using zero_bits_ge [of leading "Suc i" b] Suc.prems(3) top
      by (subst byte_zeros.simps) (auto simp: not_less intro: order_trans)
  qed
qed simp

lemma zero_bits_loop_ge: "unat leading + 8 * length bs < 2 ^ 32 \<Longrightarrow> leading \<le> zero_bits_loop leading bs"
proof (induction bs arbitrary: leading)
  case (Cons b bs)
  have "unat (leading + 8) = unat leading + 8" using Cons.prems by (subst unat_add_lem [THEN iffD1]) auto
  then have "leading \<le> leading + 8" "leading + 8 \<le> zero_bits_loop (leading + 8) bs"
    using Cons.prems Cons.IH [of "leading + 8"] by (auto simp: word_le_nat_alt)
  then show ?case using zero_bits_ge [of leading 8 b] Cons.prems by (auto intro: order_trans)
qed simp

lemma pow_zeros_loop:
  "unat leading + 8 * length bs < 2 ^ 32 \<Longrightarrow> d \<le> pow_zeros d leading bs \<longleftrightarrow> d \<le> zero_bits_loop leading bs"
proof (induction bs arbitrary: leading)
  case (Cons b bs)
  have inc: "unat (leading + 8) = unat leading + 8" using Cons.prems by (subst unat_add_lem [THEN iffD1]) auto
  show ?case
  proof (cases "b = 0")
    case True
    then show ?thesis using Cons.IH [of "leading + 8"] zero_bits_loop_ge [of "leading + 8" bs] inc Cons.prems
      by (auto intro: order_trans)
  next
    case False
    have "take_bit 8 b = b" by (rule bit_word_eqI) (auto simp: bit_simps)
    with False show ?thesis using byte_zeros_bits [of 8 b leading d] Cons.prems by simp
  qed
qed simp

text \<open>
  the check of the Sybil defence agrees with the proof-of-work engine on which hashes meet a
  difficulty, although it counts the zero bits with a loop that stops early.
\<close>

theorem sybil_pow_check_agrees:
  "length proof_hash = 32 \<Longrightarrow> verify_pow_difficulty proof_hash d = meets_difficulty proof_hash d"
  using pow_zeros_loop [of 0 proof_hash d]
  by (simp add: verify_pow_difficulty_def meets_difficulty_def count_leading_zeros_def zero_bits_loop_clz)

theorem sybil_pow_check_agrees_witness:
  "verify_pow_difficulty (0 # 0 # replicate 30 15) 20 = meets_difficulty (0 # 0 # replicate 30 15) 20"
  by (rule sybil_pow_check_agrees) simp

section \<open>Sybil groups\<close>

lemma gather_spec:
  assumes "gather s node cs (cluster, consumed) = (cluster', consumed')" "oset_ok cluster" "set cluster \<subseteq> set consumed"
  shows "oset_ok cluster' \<and> set cluster \<subseteq> set cluster' \<and> set consumed' = set consumed \<union> set cluster' \<and>
    set cluster' \<subseteq> set cluster \<union> set cs \<and> set cluster' \<inter> set consumed = set cluster \<and>
    (\<forall>c \<in> set cluster'. c \<in> set cluster \<or> activity_of s c \<noteq> [])"
  using assms
proof (induction cs arbitrary: cluster consumed)
  case (Cons c cs)
  show ?case
  proof (cases "c = node \<or> c \<in> set consumed \<or> activity_of s c = [] \<or> \<not> similar_activity (activity_of s node) (activity_of s c)")
    case True
    then have "gather s node cs (cluster, consumed) = (cluster', consumed')" using Cons.prems(1) by (auto split: if_splits)
    from Cons.IH [OF this Cons.prems(2,3)] show ?thesis by auto
  next
    case False
    then have g: "gather s node cs (oset_insert c cluster, oset_insert c consumed) = (cluster', consumed')"
      using Cons.prems(1) by (auto split: if_splits)
    have "oset_ok (oset_insert c cluster)" "set (oset_insert c cluster) \<subseteq> set (oset_insert c consumed)"
      using Cons.prems(2,3) by auto
    from Cons.IH [OF g this] show ?thesis using False Cons.prems(3) by auto
  qed
qed auto

lemma sybil_loop_spec:
  assumes "set ns \<subseteq> set nodes"
  shows "(\<forall>g \<in> set (sybil_loop s nodes ns consumed). 2 \<le> card (set g) \<and> set g \<subseteq> set nodes \<and> set g \<inter> set consumed = {} \<and>
      (\<forall>n \<in> set g. activity_of s n \<noteq> [])) \<and>
    sorted_wrt (\<lambda>g h. set g \<inter> set h = {}) (sybil_loop s nodes ns consumed)"
  using assms
proof (induction ns arbitrary: consumed)
  case (Cons n ns)
  show ?case
  proof (cases "n \<in> set consumed \<or> activity_of s n = []")
    case True
    then show ?thesis using Cons by auto
  next
    case False
    obtain cluster consumed' where g: "gather s n nodes ([n], oset_insert n consumed) = (cluster, consumed')"
      by (cases "gather s n nodes ([n], oset_insert n consumed)")
    have spec: "oset_ok cluster" "set consumed' = insert n (set consumed) \<union> set cluster" "set cluster \<subseteq> insert n (set nodes)"
      "set cluster \<inter> insert n (set consumed) = {n}" "\<forall>c \<in> set cluster. c = n \<or> activity_of s c \<noteq> []"
      using gather_spec [OF g] by (auto simp: oset_ok_def)
    have rest: "sybil_loop s nodes (n # ns) consumed =
        (if 2 \<le> length cluster then [cluster] else []) @ sybil_loop s nodes ns consumed'"
      using False g by simp
    have "set cluster \<subseteq> set nodes" "set cluster \<inter> set consumed = {}" using spec(3,4) Cons.prems False by auto
    then show ?thesis unfolding rest using Cons.IH [of consumed'] Cons.prems spec False oset_ok_length [OF spec(1)]
      by (auto simp: sorted_wrt_append)
  qed
qed simp

text \<open>
  the groups that the Sybil detection reports do not overlap, each has at least two members, and
  all members are among the nodes that were examined and have been active.
\<close>

theorem sybil_groups_disjoint:
  "sorted_wrt (\<lambda>g h. set g \<inter> set h = {}) (detect_sybil_groups s nodes) \<and>
   list_all (\<lambda>g. 2 \<le> card (set g) \<and> set g \<subseteq> set nodes \<and> list_all (\<lambda>n. activity_of s n \<noteq> []) g) (detect_sybil_groups s nodes)"
  using sybil_loop_spec [of nodes nodes s "[]"] by (auto simp: detect_sybil_groups_def list_all_iff)

section \<open>The rate of requests\<close>

fun limiter_run :: "(u64 \<times> NodeID) list \<Rightarrow> RateLimiter \<Rightarrow> (u64 \<times> NodeID) list \<times> RateLimiter" where
  "limiter_run [] l = ([], l)"
| "limiter_run ((t, n) # xs) l =
     (let (ok, l) = allow_request t n l; (out, l) = limiter_run xs l in ((if ok then [(t, n)] else []) @ out, l))"

lemma f64_round_int: "\<bar>n\<bar> < 2 ^ 53 \<Longrightarrow> f64_round (of_int n) = of_int n"
  using representable_int [of n 52 "-1022"] by (simp add: f64_round_def representable_def)

lemma f64_round_nat: "n < 2 ^ 53 \<Longrightarrow> f64_round (of_nat n) = of_nat n"
  using f64_round_int [of "int n"] by simp

lemma f64_round_ge: "n < 2 ^ 53 \<Longrightarrow> of_nat n \<le> x \<Longrightarrow> of_nat n \<le> f64_round x"
proof (cases "n = 0")
  case True
  then show "of_nat n \<le> x \<Longrightarrow> ?thesis" by (simp add: f64_round_def fl_round_nonneg)
next
  case False
  assume "n < 2 ^ 53" "of_nat n \<le> x"
  then show ?thesis using False fl_round_mono_pos [of "of_nat n" x 52 "-1022"] f64_round_nat [of n] by (simp add: f64_round_def)
qed

definition bucket_ok :: "u64 \<Rightarrow> nat \<Rightarrow> TokenBucket \<Rightarrow> bool" where
  "bucket_ok u k b \<longleftrightarrow> tb_tokens b = of_nat k \<and> k \<le> 10 \<and> tb_last_update b = u \<and> 0 < u"

lemma refill_default:
  assumes "bucket_ok u k b" "u \<le> now"
  shows "bucket_ok now (min (k + (unat now - unat u)) 10) (refill_tokens RateLimitPolicy_default now b)"
proof -
  define e where "e = unat now - unat u"
  have "unat (now - u) = e" using assms by (simp add: e_def unat_sub)
  then have e: "(unsigned (now - u) :: rat) = of_nat e" by (metis of_nat_unat)
  have b: "tb_last_update b = u" "u \<noteq> 0" "tb_tokens b = of_nat k" using assms(1) by (auto simp: bucket_ok_def)
  have "f64_round (of_nat (rp_per_minute RateLimitPolicy_default)) = 60" "f64_round (of_nat (rp_burst RateLimitPolicy_default)) = 10"
    using f64_round_nat [of 60] f64_round_nat [of 10] by (simp_all add: RateLimitPolicy_default_def)
  moreover have "f64_round 1 = 1" using f64_round_nat [of 1] by simp
  ultimately have refill: "refill_tokens RateLimitPolicy_default now b =
      b\<lparr>tb_tokens := min (f64_round (of_nat k + f64_round (f64_round (of_nat e)))) 10, tb_last_update := now\<rparr>"
    using b by (simp add: refill_tokens_def e Let_def)
  have "min (f64_round (of_nat k + f64_round (f64_round (of_nat e)))) 10 = (of_nat (min (k + e) 10) :: rat)"
  proof (cases "e < 2 ^ 50")
    case True
    have "f64_round (of_nat k + of_nat e) = (of_nat (k + e) :: rat)"
      using True assms f64_round_nat [of "k + e"] by (simp add: bucket_ok_def)
    then show ?thesis using True f64_round_nat [of e] by (simp add: of_nat_min)
  next
    case False
    have ten: "(10 :: rat) \<le> x \<Longrightarrow> 10 \<le> f64_round x" for x using f64_round_ge [of 10 x] by simp
    have "(10 :: rat) \<le> of_nat e" using False by simp
    then have "(10 :: rat) \<le> of_nat k + f64_round (f64_round (of_nat e))" using ten [OF ten [of "of_nat e"]] by (metis add_increasing of_nat_0_le_iff)
    then have "10 \<le> f64_round (of_nat k + f64_round (f64_round (of_nat e)))" by (rule ten)
    then show ?thesis using False by simp
  qed
  moreover have "0 < now" using assms by (auto simp: bucket_ok_def)
  ultimately show ?thesis using refill by (simp add: bucket_ok_def e_def)
qed

lemma refill_new:
  "0 < now \<Longrightarrow> bucket_ok now 10 (refill_tokens RateLimitPolicy_default now TokenBucket_new)"
  using f64_round_nat [of 10] by (simp add: bucket_ok_def refill_tokens_def TokenBucket_new_def RateLimitPolicy_default_def)

lemma roll_windows_ok [simp]: "bucket_ok u k (roll_windows now b) = bucket_ok u k b"
  by (simp add: bucket_ok_def roll_windows_def Let_def)

text \<open>What is known of a limiter at time \<open>u\<close>: the tokens of every bucket are a number up to ten.\<close>

definition limiter_ok :: "u64 \<Rightarrow> RateLimiter \<Rightarrow> bool" where
  "limiter_ok now l \<longleftrightarrow> rl_policy l = RateLimitPolicy_default \<and>
     (\<forall>n b. map_of (rl_buckets l) n = Some b \<longrightarrow> (\<exists>u k. bucket_ok u k b \<and> u \<le> now))"

lemma allow_spends:
  assumes "rl_policy l = RateLimitPolicy_default" "allow_request now n l = (ok, l')"
    and "bucket_ok now k (refill_tokens RateLimitPolicy_default now (opt_or TokenBucket_new (map_of (rl_buckets l) n)))"
  shows "\<exists>b k'. map_of (rl_buckets l') n = Some b \<and> bucket_ok now k' b \<and> k' + (if ok then 1 else 0) = k"
proof -
  let ?b = "roll_windows now (refill_tokens RateLimitPolicy_default now (opt_or TokenBucket_new (map_of (rl_buckets l) n)))"
  have b: "bucket_ok now k ?b" using assms(3) by simp
  show ?thesis
  proof (cases ok)
    case True
    then have "1 \<le> k" and l': "map_of (rl_buckets l') n = Some (?b\<lparr>tb_tokens := f64_round (tb_tokens ?b - 1), tb_minute := tb_minute ?b + 1,
        tb_hour := tb_hour ?b + 1\<rparr>)"
      using assms(1,2) b by (auto simp: allow_request_def Let_def bucket_ok_def split: if_splits)
    moreover have "k \<le> 10" using b by (simp add: bucket_ok_def)
    ultimately have "f64_round (of_nat k - 1) = of_nat (k - 1)" using f64_round_nat [of "k - 1"] by (simp add: of_nat_diff)
    then show ?thesis using b l' \<open>1 \<le> k\<close> True by (intro exI [of _ "k - 1"] exI conjI) (auto simp: bucket_ok_def)
  next
    case False
    then have "map_of (rl_buckets l') n = Some ?b"
      using assms(1,2) by (auto simp: allow_request_def Let_def split: if_splits)
    then show ?thesis using b False by auto
  qed
qed

lemma allow_other: "allow_request now n l = (ok, l') \<Longrightarrow> m \<noteq> n \<Longrightarrow> map_of (rl_buckets l') m = map_of (rl_buckets l) m"
  by (auto simp: allow_request_def Let_def split: if_splits)

lemma allow_policy: "allow_request now n l = (ok, l') \<Longrightarrow> rl_policy l' = rl_policy l"
  by (auto simp: allow_request_def Let_def split: if_splits)

lemma refilled:
  assumes "limiter_ok u l" "u \<le> now" "0 < now"
  shows "\<exists>k. bucket_ok now k (refill_tokens RateLimitPolicy_default now (opt_or TokenBucket_new (map_of (rl_buckets l) n)))"
proof (cases "map_of (rl_buckets l) n")
  case None
  then show ?thesis using refill_new [OF assms(3)] by auto
next
  case (Some b)
  then obtain v k where "bucket_ok v k b" "v \<le> u" using assms(1) unfolding limiter_ok_def by blast
  then show ?thesis using refill_default [of v k b now] assms(2) Some by (auto intro: order_trans)
qed

lemma limiter_ok_later: "limiter_ok u l \<Longrightarrow> u \<le> a \<Longrightarrow> limiter_ok a l"
  unfolding limiter_ok_def by (meson order_trans)

lemma limiter_ok_allow:
  assumes "limiter_ok u l" "u \<le> now" "0 < now" "allow_request now n l = (ok, l')"
  shows "limiter_ok now l'"
proof -
  have p: "rl_policy l = RateLimitPolicy_default" using assms(1) by (simp add: limiter_ok_def)
  obtain k where "bucket_ok now k (refill_tokens RateLimitPolicy_default now (opt_or TokenBucket_new (map_of (rl_buckets l) n)))"
    using refilled [OF assms(1-3)] by blast
  from allow_spends [OF p assms(4) this] obtain b k' where "map_of (rl_buckets l') n = Some b" "bucket_ok now k' b" by blast
  then have "\<exists>v j. bucket_ok v j c \<and> v \<le> now" if c: "map_of (rl_buckets l') m = Some c" for m c
    using c limiter_ok_later [OF assms(1,2)] allow_other [OF assms(4), of m] unfolding limiter_ok_def
    by (cases "m = n") auto
  then show ?thesis using p allow_policy [OF assms(4)] unfolding limiter_ok_def by metis
qed

text \<open>From a bucket with \<open>k\<close> tokens at time \<open>u\<close>: no more requests are allowed than tokens and seconds.\<close>

lemma run_spends:
  assumes "sorted (map fst xs)" "\<forall>x \<in> set xs. u \<le> fst x \<and> fst x \<le> T" "u \<le> T" "0 < u" "rl_policy l = RateLimitPolicy_default"
    and "map_of (rl_buckets l) n = Some b" "bucket_ok v k b" "v \<le> u"
  shows "length (filter (\<lambda>x. snd x = n) (fst (limiter_run xs l))) \<le> k + (unat T - unat v)"
  using assms
proof (induction xs arbitrary: u v k b l)
  case (Cons x xs)
  obtain t m where x: "x = (t, m)" by (cases x)
  obtain ok l' where a: "allow_request t m l = (ok, l')" by (cases "allow_request t m l")
  have t: "u \<le> t" "t \<le> T" "0 < t" using Cons.prems x by (auto intro: less_le_trans)
  have later: "sorted (map fst xs)" "\<forall>y \<in> set xs. t \<le> fst y \<and> fst y \<le> T" using Cons.prems x by auto
  have p: "rl_policy l' = RateLimitPolicy_default" using allow_policy [OF a] Cons.prems by simp
  note run = Cons.IH [OF later t(2,3) p]
  show ?case
  proof (cases "m = n")
    case False
    then show ?thesis using run [of b v k] allow_other [OF a, of n] Cons.prems t x by (auto simp: a case_prod_beta intro: order_trans)
  next
    case True
    have vt: "v \<le> t" using Cons.prems t by (blast intro: order_trans)
    have "bucket_ok t (min (k + (unat t - unat v)) 10) (refill_tokens RateLimitPolicy_default t (opt_or TokenBucket_new (map_of (rl_buckets l) n)))"
      using refill_default [OF Cons.prems(7) vt] Cons.prems by simp
    from allow_spends [OF Cons.prems(5) a [unfolded True] this] obtain b' k' where
      b': "map_of (rl_buckets l') n = Some b'" "bucket_ok t k' b'" "k' + (if ok then 1 else 0) \<le> k + (unat t - unat v)" by auto
    have "length (filter (\<lambda>x. snd x = n) (fst (limiter_run xs l'))) \<le> k' + (unat T - unat t)"
      using run [OF b'(1,2)] by simp
    then show ?thesis using b'(3) x True vt t(2) by (simp add: a [unfolded True] case_prod_beta word_le_nat_alt split: if_splits)
  qed
qed simp

lemma window_spends:
  assumes "sorted (map fst xs)" "\<forall>x \<in> set xs. a \<le> fst x \<and> fst x \<le> T" "0 < a" "limiter_ok u l" "u \<le> a"
  shows "length (filter (\<lambda>x. snd x = n) (fst (limiter_run xs l))) \<le> 10 + (unat T - unat a)"
  using assms
proof (induction xs arbitrary: a u l)
  case (Cons x xs)
  obtain t m where x: "x = (t, m)" by (cases x)
  obtain ok l' where r: "allow_request t m l = (ok, l')" by (cases "allow_request t m l")
  have t: "a \<le> t" "t \<le> T" "0 < t" "u \<le> t" using Cons.prems x by (auto intro: less_le_trans order_trans)
  have later: "sorted (map fst xs)" "\<forall>y \<in> set xs. t \<le> fst y \<and> fst y \<le> T" using Cons.prems x by auto
  have p: "rl_policy l = RateLimitPolicy_default" using Cons.prems by (simp add: limiter_ok_def)
  have ok': "limiter_ok t l'" by (rule limiter_ok_allow [OF Cons.prems(4) t(4,3) r])
  have at: "unat T - unat t \<le> unat T - unat a" using t(1) by (simp add: word_le_nat_alt diff_le_mono2)
  show ?case
  proof (cases "m = n")
    case False
    then show ?thesis using Cons.IH [OF later t(3) ok'] at x by (simp add: r case_prod_beta)
  next
    case True
    obtain k where k: "bucket_ok t k (refill_tokens RateLimitPolicy_default t (opt_or TokenBucket_new (map_of (rl_buckets l) n)))"
      using refilled [OF Cons.prems(4) t(4,3)] by blast
    from allow_spends [OF p r [unfolded True] k] obtain b k' where
      b: "map_of (rl_buckets l') n = Some b" "bucket_ok t k' b" "k' + (if ok then 1 else 0) = k" by blast
    have "length (filter (\<lambda>x. snd x = n) (fst (limiter_run xs l'))) \<le> k' + (unat T - unat t)"
      using run_spends [OF later t(2,3) _ b(1,2)] ok' by (simp add: limiter_ok_def)
    moreover have "k \<le> 10" using k by (simp add: bucket_ok_def)
    ultimately show ?thesis using b(3) x True at by (simp add: r [unfolded True] case_prod_beta split: if_splits)
  qed
qed simp

lemma limiter_ok_run:
  "limiter_ok u l \<Longrightarrow> sorted (map fst xs) \<Longrightarrow> \<forall>x \<in> set xs. u \<le> fst x \<and> 0 < fst x \<and> fst x \<le> a \<Longrightarrow> u \<le> a \<Longrightarrow> limiter_ok a (snd (limiter_run xs l))"
proof (induction xs arbitrary: u l)
  case Nil
  then show ?case by (simp add: limiter_ok_later)
next
  case (Cons x xs)
  obtain t m where x: "x = (t, m)" by (cases x)
  obtain ok l' where r: "allow_request t m l = (ok, l')" by (cases "allow_request t m l")
  have "limiter_ok t l'" using Cons.prems x by (intro limiter_ok_allow [OF _ _ _ r]) auto
  then have "limiter_ok a (snd (limiter_run xs l'))" using Cons.prems x by (intro Cons.IH [of t]) auto
  then show ?case by (simp add: x r case_prod_beta)
qed

text \<open>
  C26: under the default policy no node gets more than ten requests plus one for every second through
  the limiter, in any stretch of time and whatever it and the other nodes did before, on a clock that
  does not run backwards; the rounding of the token count does not add any.
\<close>

theorem request_rate_bounded:
  assumes "sorted (map fst (before @ during))" "list_all (\<lambda>x. 0 < fst x \<and> fst x \<le> a) before"
    and "list_all (\<lambda>x. a \<le> fst x \<and> fst x \<le> b) during" "0 < a"
  shows "length (filter (\<lambda>x. snd x = n)
      (fst (limiter_run during (snd (limiter_run before (RateLimiter_new RateLimitPolicy_default)))))) \<le> 10 + (unat b - unat a)"
proof (rule window_spends)
  have "limiter_ok 0 (RateLimiter_new RateLimitPolicy_default)" by (simp add: limiter_ok_def RateLimiter_new_def)
  then show "limiter_ok a (snd (limiter_run before (RateLimiter_new RateLimitPolicy_default)))"
    using assms by (intro limiter_ok_run) (auto simp: sorted_append list_all_iff)
qed (use assms in \<open>auto simp: sorted_append list_all_iff\<close>)

theorem request_rate_bounded_witness:
  "length (filter (\<lambda>x. snd x = NodeID [1])
      (fst (limiter_run (replicate 20 (100, NodeID [1])) (snd (limiter_run [] (RateLimiter_new RateLimitPolicy_default)))))) \<le> 10"
  using request_rate_bounded [of "[]" "replicate 20 (100, NodeID [1])" 100 100 "NodeID [1]"] by (simp add: list_all_iff)

section \<open>Runs of the coordinator\<close>

text \<open>
  Every operation of the coordinator that changes its state. \<open>Incoming\<close> is the two calls a listener makes
  for one connection: it is validated, and established when it is accepted.
\<close>

datatype guard_op =
    Incoming u64 string NodeID
  | ValidateIncoming u64 string NodeID
  | ConnectionEstablished u64 string
  | ConnectionClosed string
  | Request u64 NodeID string
  | Tick u64
  | Cleanup u64
  | SetRatePolicy RateLimitPolicy
  | EnableSybil bool
  | EnableDdos bool
  | EnableFork bool

fun guard_step :: "Coordinator \<Rightarrow> guard_op \<Rightarrow> Coordinator" where
  "guard_step c (Incoming now ip n) =
     (let (ok, c) = validate_incoming_connection now ip n c in if ok then on_connection_established now ip c else c)"
| "guard_step c (ValidateIncoming now ip n) = snd (validate_incoming_connection now ip n c)"
| "guard_step c (ConnectionEstablished now ip) = on_connection_established now ip c"
| "guard_step c (ConnectionClosed ip) = on_connection_closed ip c"
| "guard_step c (Request now n r) = snd (validate_request now n r c)"
| "guard_step c (Tick now) = tick now c"
| "guard_step c (Cleanup now) = coordinator_cleanup now c"
| "guard_step c (SetRatePolicy p) = set_rate_limit_policy p c"
| "guard_step c (EnableSybil b) = enable_sybil_defense b c"
| "guard_step c (EnableDdos b) = enable_ddos_mitigation b c"
| "guard_step c (EnableFork b) = enable_fork_detection b c"

fun op_before :: "u64 \<Rightarrow> guard_op \<Rightarrow> bool" where
  "op_before e (Incoming now ip n) = (now < e)"
| "op_before e (ValidateIncoming now ip n) = (now < e)"
| "op_before e (ConnectionEstablished now ip) = (now < e)"
| "op_before e (Request now n r) = (now < e)"
| "op_before e (Tick now) = (now < e)"
| "op_before e (Cleanup now) = (now < e)"
| "op_before e _ = True"

fun always_validated :: "guard_op \<Rightarrow> bool" where
  "always_validated (ConnectionEstablished now ip) = False"
| "always_validated (EnableDdos b) = b"
| "always_validated _ = True"

definition guard_inv :: "Coordinator \<Rightarrow> bool" where
  "guard_inv c \<longleftrightarrow> co_forks c = ForkDetector_init \<and> omap_ok (dd_blocked (co_ddos c))"

definition within_limit :: "Coordinator \<Rightarrow> bool" where
  "within_limit c \<longleftrightarrow> guard_inv c \<and> co_ddos_enabled c \<and> (\<forall>ip. ip_active (connections_of (co_ddos c) ip) \<le> 10)"

lemma connections_of_set:
  "connections_of (d\<lparr>dd_connections := omap_set ip i (dd_connections d)\<rparr>) ip' = (if ip' = ip then i else connections_of d ip')"
  by (simp add: connections_of_def)

lemma allow_connection_inv:
  assumes "allow_connection now ip d = (ok, d')" "omap_ok (dd_blocked d)"
  shows "connections_of d' = connections_of d \<and> omap_ok (dd_blocked d') \<and> (ok \<longrightarrow> ip_active (connections_of d ip) < 10)"
  using assms by (auto simp: allow_connection_def block_ip_def exceeds_connection_limit_def MAX_CONNECTIONS_PER_IP_def connections_of_def
      fun_eq_iff Let_def split: if_splits)

lemma record_connection_inv:
  "ip_active (connections_of (record_connection now ip d) ip') = ip_active (connections_of d ip') + (if ip' = ip then 1 else 0)"
  "dd_blocked (record_connection now ip d) = dd_blocked d"
  by (simp_all add: record_connection_def connections_of_def Let_def)

lemma close_connection_inv:
  "ip_active (connections_of (close_connection ip d) ip') \<le> ip_active (connections_of d ip')"
  "dd_blocked (close_connection ip d) = dd_blocked d"
  by (auto simp: close_connection_def connections_of_def split: option.splits)

lemma cleanup_simps:
  "co_ddos_enabled (coordinator_cleanup now c) = co_ddos_enabled c" "co_forks (coordinator_cleanup now c) = co_forks c"
  "dd_connections (co_ddos (coordinator_cleanup now c)) = dd_connections (co_ddos c)"
  "omap_ok (dd_blocked (co_ddos c)) \<Longrightarrow> omap_ok (dd_blocked (co_ddos (coordinator_cleanup now c)))"
  by (simp_all add: coordinator_cleanup_def cleanup_expired_blocks_def omap_ok_erase_all Let_def)

lemma validate_request_simps:
  "co_ddos_enabled (snd (validate_request now n r c)) = co_ddos_enabled c"
  "co_forks (snd (validate_request now n r c)) = co_forks c" "co_ddos (snd (validate_request now n r c)) = co_ddos c"
  by (simp_all add: validate_request_def case_prod_beta Let_def)

lemma validate_incoming_simps:
  "co_ddos_enabled (snd (validate_incoming_connection now ip n c)) = co_ddos_enabled c"
  "co_forks (snd (validate_incoming_connection now ip n c)) = co_forks c"
  "co_ddos (snd (validate_incoming_connection now ip n c)) =
     (if co_ddos_enabled c then snd (allow_connection now ip (co_ddos c)) else co_ddos c)"
  "co_ddos_enabled c \<Longrightarrow> fst (validate_incoming_connection now ip n c) \<Longrightarrow> fst (allow_connection now ip (co_ddos c))"
  by (auto simp: validate_incoming_connection_def case_prod_beta Let_def split: if_splits)

lemma established_simps:
  "co_ddos_enabled (on_connection_established now ip c) = co_ddos_enabled c"
  "co_forks (on_connection_established now ip c) = co_forks c"
  "dd_blocked (co_ddos (on_connection_established now ip c)) = dd_blocked (co_ddos c)"
  by (simp_all add: on_connection_established_def record_connection_inv)

lemma closed_simps:
  "co_ddos_enabled (on_connection_closed ip c) = co_ddos_enabled c" "co_forks (on_connection_closed ip c) = co_forks c"
  "dd_blocked (co_ddos (on_connection_closed ip c)) = dd_blocked (co_ddos c)"
  by (simp_all add: on_connection_closed_def close_connection_inv)

lemmas guard_simps = tick_def cleanup_simps validate_request_simps validate_incoming_simps established_simps closed_simps
  set_rate_limit_policy_def enable_sybil_defense_def enable_ddos_mitigation_def enable_fork_detection_def

lemma allow_connection_ok: "omap_ok (dd_blocked d) \<Longrightarrow> omap_ok (dd_blocked (snd (allow_connection now ip d)))"
  using allow_connection_inv [of now ip d] by (metis prod.collapse)

lemma guard_inv_step: "guard_inv c \<Longrightarrow> guard_inv (guard_step c x)"
  by (cases x) (simp_all add: guard_inv_def guard_simps allow_connection_ok case_prod_beta Let_def)

interpretation guard_machine: invariant_machine guard_step guard_inv
  by unfold_locales (rule guard_inv_step)

lemma guard_inv_run: "guard_inv (foldl guard_step (Coordinator_init t) ops)"
  by (rule guard_machine.run_inv)
    (simp add: guard_inv_def Coordinator_init_def DDoSMitigation_init_def)

lemma within_limit_step:
  assumes "within_limit c" "always_validated x"
  shows "within_limit (guard_step c x)"
proof -
  have inv: "guard_inv (guard_step c x)" using assms(1) by (simp add: within_limit_def guard_inv_step)
  have ok: "omap_ok (dd_blocked (co_ddos c))" "co_ddos_enabled c"
    "ip_active (connections_of (co_ddos c) ip') \<le> 10" for ip'
    using assms(1) by (simp_all add: within_limit_def guard_inv_def)
  have allow: "connections_of (snd (allow_connection now ip (co_ddos c))) = connections_of (co_ddos c)"
    "fst (allow_connection now ip (co_ddos c)) \<Longrightarrow> ip_active (connections_of (co_ddos c) ip) < 10" for now ip
    using allow_connection_inv [of now ip "co_ddos c"] ok(1) by (metis prod.collapse)+
  have same: "co_ddos_enabled (guard_step c x)"
    using assms(2) ok(2) by (cases x) (simp_all add: guard_simps case_prod_beta Let_def)
  have "ip_active (connections_of (co_ddos (guard_step c x)) ip') \<le> 10" for ip'
  proof (cases x)
    case (Incoming now ip n)
    let ?v = "validate_incoming_connection now ip n c"
    have c: "connections_of (co_ddos (snd ?v)) = connections_of (co_ddos c)" by (simp add: validate_incoming_simps allow ok)
    have "fst ?v \<Longrightarrow> ip_active (connections_of (co_ddos c) ip) < 10" using validate_incoming_simps(4) ok(2) allow(2) by blast
    with c ok(3) [of ip'] show ?thesis
      by (auto simp: Incoming on_connection_established_def record_connection_inv validate_incoming_simps(1) ok(2)
          case_prod_beta Let_def)
  next
    case (ConnectionClosed ip)
    with close_connection_inv(1) [of ip "co_ddos c" ip'] ok(3) [of ip'] show ?thesis
      by (auto simp: on_connection_closed_def intro: order_trans)
  qed (use assms(2) ok(3) [of ip'] in \<open>simp_all add: guard_simps allow ok(2) connections_of_def\<close>)
  with inv same show ?thesis by (simp add: within_limit_def)
qed

text \<open>
  When the mitigation stays enabled and every connection is established right after it was validated,
  no address ever has more than ten connections open.
\<close>

theorem ip_connections_limited:
  assumes "list_all always_validated ops"
  shows "ip_active (connections_of (co_ddos (foldl guard_step (Coordinator_init t) ops)) ip) \<le> 10"
proof -
  have "within_limit c \<Longrightarrow> within_limit (foldl guard_step c ops)" for c
    using assms by (induction ops arbitrary: c) (simp_all add: within_limit_step)
  moreover have "within_limit (Coordinator_init t)"
    using guard_inv_run [of t "[]"]
    by (simp add: within_limit_def Coordinator_init_def DDoSMitigation_init_def connections_of_def IPConnectionInfo_new_def)
  ultimately show ?thesis by (simp add: within_limit_def)
qed

text \<open>An address stays blocked until its block expires.\<close>

definition blocked_until :: "string \<Rightarrow> u64 \<Rightarrow> Coordinator \<Rightarrow> bool" where
  "blocked_until ip e c \<longleftrightarrow> map_option bl_expiry (map_of (dd_blocked (co_ddos c)) ip) = Some e"

lemma cleanup_keeps:
  assumes "omap_ok m" "map_of m ip = Some b" "now < bl_expiry b"
  shows "map_of (fold omap_erase (map fst (filter (\<lambda>(ip, e). now \<ge> bl_expiry e) m)) m) ip = Some b"
proof -
  have "ip \<notin> set (map fst (filter (\<lambda>(ip, e). now \<ge> bl_expiry e) m))"
    using assms(2,3) omap_find_iff [OF assms(1), of ip] by (auto simp del: map_of_eq_Some_iff) (metis assms(2) leD option.inject)
  then show ?thesis using assms(2) by (simp only: find_erase_all if_False)
qed

lemma allow_connection_blocked:
  assumes "allow_connection now ip d = (ok, d')" "map_option bl_expiry (map_of (dd_blocked d) ip') = Some e" "now < e"
  shows "map_option bl_expiry (map_of (dd_blocked d') ip') = Some e \<and> (ip = ip' \<longrightarrow> \<not> ok)"
  using assms by (auto simp: allow_connection_def is_blocked_def block_ip_def Let_def split: if_splits)

lemma blocked_step:
  assumes "guard_inv c" "blocked_until ip e c" "op_before e x"
  shows "blocked_until ip e (guard_step c x)"
proof -
  have "map_option bl_expiry (map_of (dd_blocked (snd (allow_connection now ip' (co_ddos c)))) ip) = Some e"
    if "now < e" for now ip'
    using allow_connection_blocked [of now ip' "co_ddos c" _ _ ip e] assms(2) that
    by (metis blocked_until_def prod.collapse)
  then have allow: "\<exists>z. map_of (dd_blocked (snd (allow_connection now ip' (co_ddos c)))) ip = Some z \<and> bl_expiry z = e"
    if "now < e" for now ip'
    using that by simp
  obtain b where b: "map_of (dd_blocked (co_ddos c)) ip = Some b" "bl_expiry b = e" using assms(2) by (auto simp: blocked_until_def)
  have "omap_ok (dd_blocked (co_ddos c))" using assms(1) by (simp add: guard_inv_def)
  from cleanup_keeps [OF this b(1)] b(2) have cleanup: "blocked_until ip e (coordinator_cleanup now c)" if "now < e" for now
    using that by (simp add: blocked_until_def coordinator_cleanup_def cleanup_expired_blocks_def Let_def)
  show ?thesis
  proof (cases x)
    case (Tick now)
    with cleanup [of now] assms(2,3) show ?thesis by (simp add: tick_def blocked_until_def)
  qed (use assms(2,3) cleanup in \<open>simp_all add: blocked_until_def guard_simps allow case_prod_beta Let_def\<close>)
qed

lemma blocked_run:
  "guard_inv c \<Longrightarrow> blocked_until ip e c \<Longrightarrow> list_all (op_before e) ops \<Longrightarrow> blocked_until ip e (foldl guard_step c ops)"
  by (induction ops arbitrary: c) (simp_all add: guard_inv_step blocked_step)

text \<open>
  C27: an address that asks for an eleventh connection is refused and blocked. After any run of the
  coordinator, let the mitigation of floods be enabled, and let an address that is not blocked have ten
  or more connections open. Then its next request for a connection is refused, and so is every later one
  in the hour after it that comes when the mitigation is enabled, whatever operations come between: other
  connections, requests, cleanups, changes of the policy, switching the defences off and on, and closing
  all its connections.
\<close>

theorem flooding_address_blocked:
  fixes t0 ops ip t m later
  defines "c \<equiv> foldl guard_step (Coordinator_init t0) ops"
  assumes "co_ddos_enabled c" "10 \<le> ip_active (connections_of (co_ddos c) ip)" "\<not> is_blocked t (co_ddos c) ip"
    and "list_all (op_before (t + 3600)) later" "t' < t + 3600"
  defines "c' \<equiv> foldl guard_step (snd (validate_incoming_connection t ip m c)) later"
  assumes "co_ddos_enabled c'"
  shows "\<not> fst (validate_incoming_connection t ip m c) \<and> \<not> fst (validate_incoming_connection t' ip n c')"
proof
  have inv: "guard_inv c" unfolding c_def by (rule guard_inv_run)
  show "\<not> fst (validate_incoming_connection t ip m c)"
    using assms(2-4) by (simp add: validate_incoming_connection_def allow_connection_def exceeds_connection_limit_def
        MAX_CONNECTIONS_PER_IP_def Let_def)
  have "blocked_until ip (t + 3600) (guard_step c (ValidateIncoming t ip m))"
    using assms(2-4) by (simp add: validate_incoming_simps allow_connection_def exceeds_connection_limit_def
        MAX_CONNECTIONS_PER_IP_def blocked_until_def block_ip_def Let_def)
  from blocked_run [OF guard_inv_step [OF inv] this assms(5)]
  have "blocked_until ip (t + 3600) c'" by (simp add: c'_def)
  then have "\<not> fst (allow_connection t' ip (co_ddos c'))"
    using assms(6) by (auto simp: blocked_until_def allow_connection_def is_blocked_def)
  with assms(8) show "\<not> fst (validate_incoming_connection t' ip n c')"
    by (simp add: validate_incoming_connection_def case_prod_beta Let_def)
qed

definition ten_open :: Coordinator where
  "ten_open = foldl guard_step (Coordinator_init 1) (replicate 10 (Incoming 1000 ''10.0.0.1'' (NodeID [1])))"

definition after_the_block :: "guard_op list" where
  "after_the_block = EnableDdos False # EnableDdos True # Tick 1500 # replicate 10 (ConnectionClosed ''10.0.0.1'')"

lemma ten_open_facts:
  "co_ddos_enabled ten_open" "ip_active (connections_of (co_ddos ten_open) ''10.0.0.1'') = 10"
  "\<not> is_blocked 1000 (co_ddos ten_open) ''10.0.0.1''"
  "co_ddos_enabled (foldl guard_step (snd (validate_incoming_connection 1000 ''10.0.0.1'' (NodeID [1]) ten_open)) after_the_block)"
  by code_simp+

theorem flooding_address_blocked_witness:
  "\<not> fst (validate_incoming_connection 1000 ''10.0.0.1'' (NodeID [1]) ten_open) \<and>
   \<not> fst (validate_incoming_connection 4000 ''10.0.0.1'' (NodeID [2])
     (foldl guard_step (snd (validate_incoming_connection 1000 ''10.0.0.1'' (NodeID [1]) ten_open)) after_the_block))"
  using ten_open_facts unfolding ten_open_def
  by (intro flooding_address_blocked) (simp_all add: after_the_block_def list_all_iff)

text \<open>
  The coordinator never records a key nor looks for a fork: the detector stays empty, so that every
  signature of every node is found consistent.
\<close>

theorem fork_detection_unused:
  "validate_signature verify n msg sig (foldl guard_step (Coordinator_init t) ops)"
  using guard_inv_run [of t ops]
  by (simp add: guard_inv_def validate_signature_def verify_signature_consistency_def ForkDetector_init_def)

section \<open>Forks\<close>

definition claim_keys :: "(u64 \<times> NodeID \<times> bytes) list \<Rightarrow> ForkDetector" where
  "claim_keys claims = foldl (\<lambda>f (t, n, k). snd (detect_fork t n k f)) ForkDetector_init claims"

definition keys_of :: "(u64 \<times> NodeID \<times> bytes) list \<Rightarrow> NodeID \<Rightarrow> bytes list" where
  "keys_of claims n = map (\<lambda>(t, m, k). k) (filter (\<lambda>(t, m, k). m = n) claims)"

lemma claim_keys_spec:
  "map_option (map kr_public_key) (map_of (fd_keys (claim_keys claims)) n) =
     (case keys_of claims n of [] \<Rightarrow> None | k # _ \<Rightarrow> Some [k]) \<and>
   (n \<in> set (fd_forked (claim_keys claims)) \<longleftrightarrow> (\<exists>k k'. k \<in> set (keys_of claims n) \<and> k' \<in> set (keys_of claims n) \<and> k \<noteq> k'))"
proof (induction claims arbitrary: n rule: rev_induct)
  case Nil
  then show ?case by (simp add: claim_keys_def ForkDetector_init_def keys_of_def)
next
  case (snoc x claims)
  obtain t m k where x: "x = (t, m, k)" by (cases x)
  have step: "claim_keys (claims @ [x]) = snd (detect_fork t m k (claim_keys claims))" by (simp add: claim_keys_def x)
  have keys: "keys_of (claims @ [x]) n = keys_of claims n @ (if m = n then [k] else [])" by (simp add: keys_of_def x)
  show ?case
  proof (cases "m = n")
    case False
    then show ?thesis using snoc [of n] unfolding step keys
      by (simp add: detect_fork_def record_node_key_def mark_as_forked_def split: option.splits)
  next
    case True
    show ?thesis
    proof (cases "keys_of claims n")
      case Nil
      then have "map_of (fd_keys (claim_keys claims)) m = None" using snoc [of n] True by simp
      then show ?thesis using Nil snoc [of n] True unfolding step keys by (simp add: detect_fork_def record_node_key_def)
    next
      case (Cons k0 ks)
      then obtain rs where rs: "map_of (fd_keys (claim_keys claims)) m = Some rs" "map kr_public_key rs = [k0]"
        using snoc [of n] True by auto
      then have "list_ex (\<lambda>r. kr_public_key r = k) rs \<longleftrightarrow> k = k0" by (auto simp: map_eq_Cons_conv)
      then show ?thesis using Cons rs snoc [of n] True unfolding step keys
        by (auto simp: detect_fork_def mark_as_forked_def)
    qed
  qed
qed

text \<open>
  a node counts as forked exactly when two different keys were claimed for it, in whatever order the
  claims of all nodes came, and exactly the forked nodes are refused as long as the address is not.
\<close>

theorem forks_exact:
  "(n \<in> set (get_detected_forks (claim_keys claims)) \<longleftrightarrow>
     (\<exists>k k'. k \<in> set (keys_of claims n) \<and> k' \<in> set (keys_of claims n) \<and> k \<noteq> k')) \<and>
   fst (validate_incoming_connection now ip n ((Coordinator_init t)\<lparr>co_forks := claim_keys claims\<rparr>)) =
     (n \<notin> set (get_detected_forks (claim_keys claims)))"
  using claim_keys_spec [of claims n]
  by (auto simp: get_detected_forks_def validate_incoming_connection_def Coordinator_init_def DDoSMitigation_init_def allow_connection_def
      is_blocked_def exceeds_connection_limit_def connections_of_def IPConnectionInfo_new_def MAX_CONNECTIONS_PER_IP_def)

end
