(* ===== verification/Human_Identity.thy ===== *)
theory Human_Identity
  imports Reputation
begin

text \<open>
  Identities of people and the manager that registers them: \<open>src/identity/human_identity.cpp\<close>.

  BLAKE3 and Ed25519 are the fields of the library \<open>C\<close>, a generated key pair and the clock in seconds are
  arguments. A \<open>std::multimap\<close> is the list of its entries in the order of their insertion, of which a
  lookup gives those with the key.
\<close>

section \<open>Identities\<close>

record HumanAttestation =
  ha_attester :: HumanID
  ha_signature :: bytes
  ha_timestamp :: u64
  ha_claim :: string
  ha_expires_at :: u64

record ContinuityProof =
  cp_challenge :: Hash256
  cp_signature :: bytes
  cp_timestamp :: u64
  cp_node_id :: NodeID

record HumanIdentity =
  hi_id :: HumanID
  hi_public_key :: bytes
  hi_created_at :: u64
  hi_display_name :: "string option"
  hi_nodes :: "NodeID list"
  hi_reputation :: "ReputationScore option"
  hi_attestations :: "HumanAttestation list"

text \<open>The secret key of the pair is dropped.\<close>

definition HumanIdentity_create_new :: "crypto_lib \<Rightarrow> u64 \<Rightarrow> bytes \<times> bytes \<Rightarrow> HumanIdentity" where
  "HumanIdentity_create_new C now keypair = \<lparr>hi_id = HumanID (cr_hash C (fst keypair)), hi_public_key = fst keypair,
     hi_created_at = now, hi_display_name = None, hi_nodes = [], hi_reputation = None, hi_attestations = []\<rparr>"

definition HumanIdentity_to_bytes :: "HumanIdentity \<Rightarrow> bytes" where
  "HumanIdentity_to_bytes i =
     le_bytes 8 (hi_created_at i) @ hi_public_key i @ human_bytes (hi_id i)
     @ (case hi_display_name i of
          Some name \<Rightarrow> le_bytes 4 (word_of_nat (length name) :: u32) @ bytes_of_string name
        | None \<Rightarrow> [0, 0, 0, 0])"

text \<open>
  The length of the name is read from the bytes that are there, up to four; the name is taken when it is
  not empty and complete.
\<close>

definition HumanIdentity_from_bytes :: "bytes \<Rightarrow> HumanIdentity option" where
  "HumanIdentity_from_bytes data =
     (if length data < 8 + 32 + 32 then None
      else
        let name_len = unat (le_word (slice 72 4 data) :: u32);
            name = (if 72 < length data \<and> name_len > 0 \<and> 76 + name_len \<le> length data
                    then Some (string_of_bytes (slice 76 name_len data)) else None)
        in Some \<lparr>hi_id = HumanID (slice 40 32 data), hi_public_key = slice 8 32 data, hi_created_at = le_word (slice 0 8 data),
                 hi_display_name = name, hi_nodes = [], hi_reputation = None, hi_attestations = []\<rparr>)"

definition set_display_name :: "string \<Rightarrow> HumanIdentity \<Rightarrow> HumanIdentity" where
  "set_display_name name i = i\<lparr>hi_display_name := Some (if length name > 256 then take 256 name else name)\<rparr>"

definition associate_node :: "NodeID \<Rightarrow> HumanIdentity \<Rightarrow> HumanIdentity" where
  "associate_node n i = i\<lparr>hi_nodes := oset_insert n (hi_nodes i)\<rparr>"

definition disassociate_node :: "NodeID \<Rightarrow> HumanIdentity \<Rightarrow> HumanIdentity" where
  "disassociate_node n i = i\<lparr>hi_nodes := oset_erase n (hi_nodes i)\<rparr>"

definition get_associated_nodes :: "HumanIdentity \<Rightarrow> NodeID list" where
  "get_associated_nodes i = hi_nodes i"

definition is_associated_with :: "HumanIdentity \<Rightarrow> NodeID \<Rightarrow> bool" where
  "is_associated_with i n \<longleftrightarrow> n \<in> set (hi_nodes i)"

definition link_reputation :: "ReputationScore \<Rightarrow> HumanIdentity \<Rightarrow> HumanIdentity" where
  "link_reputation score i = i\<lparr>hi_reputation := Some score\<rparr>"

definition human_attestation_valid :: "HumanAttestation \<Rightarrow> bool" where
  "human_attestation_valid a =
     (if ha_timestamp a = 0 then False
      else if ha_claim a = [] then False
      else if ha_expires_at a \<le> ha_timestamp a then False
      else True)"

definition human_attestation_expired :: "u64 \<Rightarrow> HumanAttestation \<Rightarrow> bool" where
  "human_attestation_expired now a \<longleftrightarrow> ha_expires_at a < now"

definition identity_add_attestation :: "u64 \<Rightarrow> HumanAttestation \<Rightarrow> HumanIdentity \<Rightarrow> HumanIdentity" where
  "identity_add_attestation now a i =
     (if \<not> human_attestation_valid a then i
      else if human_attestation_expired now a then i
      else i\<lparr>hi_attestations := hi_attestations i @ [a]\<rparr>)"

text \<open>Each of the three functions builds the signed message for itself.\<close>

definition create_continuity_proof :: "crypto_lib \<Rightarrow> u64 \<Rightarrow> NodeID \<Rightarrow> Hash256 \<Rightarrow> bytes \<Rightarrow> ContinuityProof" where
  "create_continuity_proof C now unset challenge secret_key =
     (let message = challenge @ le_bytes 8 now
      in \<lparr>cp_challenge = challenge, cp_signature = cr_sign C message secret_key, cp_timestamp = now, cp_node_id = unset\<rparr>)"

definition continuity_proof_verify :: "crypto_lib \<Rightarrow> ContinuityProof \<Rightarrow> bytes \<Rightarrow> bool" where
  "continuity_proof_verify C p expected_key =
     (let message = cp_challenge p @ le_bytes 8 (cp_timestamp p) in cr_verify C message (cp_signature p) expected_key)"

definition verify_continuity :: "crypto_lib \<Rightarrow> HumanIdentity \<Rightarrow> ContinuityProof \<Rightarrow> bool" where
  "verify_continuity C i p =
     (let message = cp_challenge p @ le_bytes 8 (cp_timestamp p) in cr_verify C message (cp_signature p) (hi_public_key i))"

definition human_sign_message :: "crypto_lib \<Rightarrow> bytes \<Rightarrow> bytes \<Rightarrow> bytes" where
  "human_sign_message C msg secret_key = cr_sign C msg secret_key"

definition human_verify_signature :: "crypto_lib \<Rightarrow> HumanIdentity \<Rightarrow> bytes \<Rightarrow> bytes \<Rightarrow> bool" where
  "human_verify_signature C i msg sig = cr_verify C msg sig (hi_public_key i)"

section \<open>The manager\<close>

datatype alert_reason = UnknownIdentity | FailedContinuity

record ImpersonationAlert =
  ia_claimed :: HumanID
  ia_node :: NodeID
  ia_reason :: alert_reason
  ia_detected_at :: u64

record HumanTrustEdge =
  he_from :: HumanID
  he_to :: HumanID
  he_weight :: f32
  he_created_at :: u64

record HumanIdentityManager =
  hm_identities :: "(HumanID \<times> HumanIdentity) list"
  hm_nodes :: "(NodeID \<times> HumanID) list"
  hm_trust :: "HumanTrustEdge list"
  hm_alerts :: "ImpersonationAlert list"

definition HumanIdentityManager_init :: HumanIdentityManager where
  "HumanIdentityManager_init = \<lparr>hm_identities = [], hm_nodes = [], hm_trust = [], hm_alerts = []\<rparr>"

definition register_identity :: "HumanIdentity \<Rightarrow> HumanIdentityManager \<Rightarrow> HumanIdentityManager" where
  "register_identity i m =
     m\<lparr>hm_identities := omap_set (hi_id i) i (hm_identities m),
       hm_nodes := fold (\<lambda>n. omap_set n (hi_id i)) (get_associated_nodes i) (hm_nodes m)\<rparr>"

definition create_identity :: "crypto_lib \<Rightarrow> u64 \<Rightarrow> bytes \<times> bytes \<Rightarrow> HumanIdentityManager \<Rightarrow> HumanIdentity \<times> HumanIdentityManager" where
  "create_identity C now keypair m =
     (let i = HumanIdentity_create_new C now keypair in (i, register_identity i m))"

definition unregister_identity :: "HumanID \<Rightarrow> HumanIdentityManager \<Rightarrow> HumanIdentityManager" where
  "unregister_identity h m =
     (case map_of (hm_identities m) h of
        None \<Rightarrow> m
      | Some i \<Rightarrow> m\<lparr>hm_nodes := fold omap_erase (get_associated_nodes i) (hm_nodes m),
                     hm_identities := omap_erase h (hm_identities m)\<rparr>)"

definition get_identity :: "HumanIdentityManager \<Rightarrow> HumanID \<Rightarrow> HumanIdentity option" where
  "get_identity m h = map_of (hm_identities m) h"

definition get_identity_by_node :: "HumanIdentityManager \<Rightarrow> NodeID \<Rightarrow> HumanIdentity option" where
  "get_identity_by_node m n = (case map_of (hm_nodes m) n of None \<Rightarrow> None | Some h \<Rightarrow> get_identity m h)"

definition manager_add_attestation :: "u64 \<Rightarrow> HumanID \<Rightarrow> HumanAttestation \<Rightarrow> HumanIdentityManager \<Rightarrow> bool \<times> HumanIdentityManager" where
  "manager_add_attestation now h a m =
     (case map_of (hm_identities m) h of
        None \<Rightarrow> (False, m)
      | Some i \<Rightarrow> (True, m\<lparr>hm_identities := omap_set h (identity_add_attestation now a i) (hm_identities m)\<rparr>))"

definition human_attestations_for :: "HumanIdentityManager \<Rightarrow> HumanID \<Rightarrow> HumanAttestation list" where
  "human_attestations_for m h = (case map_of (hm_identities m) h of None \<Rightarrow> [] | Some i \<Rightarrow> hi_attestations i)"

definition raise_alert :: "HumanID \<Rightarrow> NodeID \<Rightarrow> alert_reason \<Rightarrow> u64 \<Rightarrow> HumanIdentityManager
    \<Rightarrow> ImpersonationAlert option \<times> HumanIdentityManager" where
  "raise_alert h n reason now m =
     (let alert = \<lparr>ia_claimed = h, ia_node = n, ia_reason = reason, ia_detected_at = now\<rparr>
      in (Some alert, m\<lparr>hm_alerts := hm_alerts m @ [alert]\<rparr>))"

definition detect_impersonation :: "crypto_lib \<Rightarrow> u64 \<Rightarrow> HumanID \<Rightarrow> NodeID \<Rightarrow> ContinuityProof \<Rightarrow> HumanIdentityManager
    \<Rightarrow> ImpersonationAlert option \<times> HumanIdentityManager" where
  "detect_impersonation C now h n p m =
     (case get_identity m h of
        None \<Rightarrow> raise_alert h n UnknownIdentity now m
      | Some i \<Rightarrow> if \<not> verify_continuity C i p then raise_alert h n FailedContinuity now m else (None, m))"

definition clamp_unit :: "f32 \<Rightarrow> f32" where
  "clamp_unit w = (if f32_less w (Fin 0) then Fin 0 else if f32_less (Fin 1) w then Fin 1 else w)"

definition human_add_trust_edge :: "u64 \<Rightarrow> HumanID \<Rightarrow> HumanID \<Rightarrow> f32 \<Rightarrow> HumanIdentityManager \<Rightarrow> HumanIdentityManager" where
  "human_add_trust_edge now h h' w m = m\<lparr>hm_trust := hm_trust m @ [\<lparr>he_from = h, he_to = h', he_weight = clamp_unit w, he_created_at = now\<rparr>]\<rparr>"

definition human_trust_edges :: "HumanIdentityManager \<Rightarrow> HumanID \<Rightarrow> HumanTrustEdge list" where
  "human_trust_edges m h = filter (\<lambda>e. he_from e = h) (hm_trust m)"

definition attestation_count :: "HumanIdentityManager \<Rightarrow> nat" where
  "attestation_count m = fold (\<lambda>(h, i) k. k + length (hi_attestations i)) (hm_identities m) 0"

definition verify_attestation_chain :: "u64 \<Rightarrow> HumanIdentityManager \<Rightarrow> HumanID \<Rightarrow> bool" where
  "verify_attestation_chain now m h =
     (case get_identity m h of
        None \<Rightarrow> False
      | Some i \<Rightarrow> if length (hi_attestations i) = 0 then False
                  else list_all (\<lambda>a. human_attestation_valid a \<and> \<not> human_attestation_expired now a) (hi_attestations i))"

section \<open>Encoding\<close>

definition human_identity_ok :: "HumanIdentity \<Rightarrow> bool" where
  "human_identity_ok i \<longleftrightarrow> length (hi_public_key i) = 32 \<and> length (human_bytes (hi_id i)) = 32 \<and> hi_nodes i = [] \<and>
     hi_reputation i = None \<and> hi_attestations i = [] \<and>
     (case hi_display_name i of None \<Rightarrow> True | Some name \<Rightarrow> name \<noteq> [] \<and> length name < 2 ^ 32)"

lemma HumanIdentity_dec_enc:
  assumes "human_identity_ok i"
  shows "HumanIdentity_from_bytes (HumanIdentity_to_bytes i) = Some i"
proof -
  have zero: "le_word [0, 0, 0, 0 :: u8] = (0 :: u32)" by (simp add: le_word_def)
  show ?thesis
  proof (cases "hi_display_name i")
    case None
    then show ?thesis using assms
      by (simp add: human_identity_ok_def HumanIdentity_from_bytes_def HumanIdentity_to_bytes_def codec_simps zero Let_def)
  next
    case (Some name)
    then show ?thesis using assms
      by (simp add: human_identity_ok_def HumanIdentity_from_bytes_def HumanIdentity_to_bytes_def codec_simps Let_def)
  qed
qed

interpretation human_codec: codec HumanIdentity_to_bytes HumanIdentity_from_bytes human_identity_ok
  by unfold_locales (rule HumanIdentity_dec_enc)

section \<open>Registrations\<close>

lemma fold_nodes: "map_of (fold (\<lambda>n. omap_set n h) ns m) n = (if n \<in> set ns then Some h else map_of m n)"
  by (induction ns arbitrary: m) auto

definition register_all :: "HumanIdentity list \<Rightarrow> HumanIdentityManager" where
  "register_all hs = foldl (\<lambda>m i. register_identity i m) HumanIdentityManager_init hs"

lemma register_all_snoc: "register_all (hs @ [i]) = register_identity i (register_all hs)"
  by (simp add: register_all_def)

lemma register_all_identities: "map_of (hm_identities (register_all hs)) h = map_of (rev (map (\<lambda>i. (hi_id i, i)) hs)) h"
  by (induction hs rule: rev_induct) (simp_all add: register_all_snoc register_identity_def, simp add: register_all_def HumanIdentityManager_init_def)

lemma register_all_nodes:
  "map_of (hm_nodes (register_all hs)) n = map_option hi_id (find (\<lambda>i. n \<in> set (hi_nodes i)) (rev hs))"
  by (induction hs rule: rev_induct)
    (simp_all add: register_all_snoc register_identity_def fold_nodes get_associated_nodes_def, simp add: register_all_def HumanIdentityManager_init_def)

text \<open>
  after any sequence of registrations of identities with different identifiers, a node is resolved to
  the identity that lists it, the latest one when several do, and an identity is found under its own
  identifier.
\<close>

theorem nodes_resolve:
  assumes "distinct (map hi_id hs)"
  shows "get_identity_by_node (register_all hs) n = find (\<lambda>i. n \<in> set (hi_nodes i)) (rev hs) \<and>
    (get_identity (register_all hs) h = Some i \<longleftrightarrow> i \<in> set hs \<and> hi_id i = h)"
proof -
  have d: "distinct (map fst (rev (map (\<lambda>i. (hi_id i, i)) hs)))" using assms by (simp add: rev_map [symmetric] comp_def)
  have get: "get_identity (register_all hs) h = Some i \<longleftrightarrow> i \<in> set hs \<and> hi_id i = h" for h i
    unfolding get_identity_def register_all_identities using map_of_eq_Some_iff [OF d] by auto
  have "get_identity_by_node (register_all hs) n = find (\<lambda>i. n \<in> set (hi_nodes i)) (rev hs)"
  proof (cases "find (\<lambda>i. n \<in> set (hi_nodes i)) (rev hs)")
    case None
    then show ?thesis by (simp add: get_identity_by_node_def register_all_nodes)
  next
    case (Some j)
    then have "j \<in> set hs" by (auto simp: find_Some_iff) (metis length_rev nth_mem set_rev)
    then show ?thesis using Some get [of "hi_id j" j] by (simp add: get_identity_by_node_def register_all_nodes)
  qed
  with get show ?thesis by blast
qed

definition sample_human :: "u8 \<Rightarrow> HumanIdentity" where
  "sample_human b = \<lparr>hi_id = HumanID [b], hi_public_key = [b], hi_created_at = 1, hi_display_name = None, hi_nodes = [NodeID [b]],
     hi_reputation = None, hi_attestations = []\<rparr>"

theorem nodes_resolve_witness:
  "get_identity_by_node (register_all [sample_human 1, sample_human 2]) (NodeID [1]) = Some (sample_human 1)"
  using nodes_resolve [of "[sample_human 1, sample_human 2]" "NodeID [1]"] by (simp add: sample_human_def)

section \<open>Continuity\<close>

text \<open>
  the manager raises an alert exactly when the claimed identity is not registered or the proof does
  not verify under its key; a proof that the holder of the secret key makes raises none, the encoding of
  an identity decodes to it, and every alert is recorded at the end of the list.
\<close>

theorem impersonation_detected:
  assumes "\<And>msg. cr_verify C msg (cr_sign C msg sk) (hi_public_key i)" "get_identity m h = Some i" "human_identity_ok j"
  shows "(fst (detect_impersonation C now claimed n p m) = None \<longleftrightarrow>
      (\<exists>k. get_identity m claimed = Some k \<and> continuity_proof_verify C p (hi_public_key k))) \<and>
    detect_impersonation C now h n (create_continuity_proof C t node challenge sk) m = (None, m) \<and>
    hm_alerts (snd (detect_impersonation C now claimed n p m)) =
      hm_alerts m @ (case fst (detect_impersonation C now claimed n p m) of None \<Rightarrow> [] | Some a \<Rightarrow> [a]) \<and>
    HumanIdentity_from_bytes (HumanIdentity_to_bytes j) = Some j"
  using assms human_codec.dec_enc [OF assms(3)]
  by (auto simp: detect_impersonation_def raise_alert_def verify_continuity_def continuity_proof_verify_def create_continuity_proof_def
      Let_def split: option.splits)

definition trusting_lib :: crypto_lib where
  "trusting_lib = \<lparr>cr_hash = (\<lambda>_. []), cr_sign = (\<lambda>msg k. msg @ k), cr_verify = (\<lambda>msg sig k. sig = msg @ k),
     cr_encrypt = (\<lambda>x k n. x), cr_decrypt = (\<lambda>x k n. Some x)\<rparr>"

theorem impersonation_detected_witness:
  "detect_impersonation trusting_lib 9 (HumanID [1]) (NodeID [5]) (create_continuity_proof trusting_lib 8 (NodeID []) [7] [1])
     (register_all [sample_human 1]) = (None, register_all [sample_human 1])"
proof -
  have "get_identity (register_all [sample_human 1]) (HumanID [1]) = Some (sample_human 1)"
    by (simp add: get_identity_def register_all_identities sample_human_def)
  then show ?thesis
    using impersonation_detected [where C = trusting_lib and sk = "[1]" and i = "sample_human 1" and m = "register_all [sample_human 1]"
      and h = "HumanID [1]" and j = "HumanIdentity_create_new (trusting_lib\<lparr>cr_hash := (\<lambda>_. replicate 32 0)\<rparr>) 1 (replicate 32 1, [])"
      and now = 9 and n = "NodeID [5]" and t = 8 and node = "NodeID []" and challenge = "[7]"]
    by (simp add: trusting_lib_def sample_human_def HumanIdentity_create_new_def human_identity_ok_def)
qed

text \<open>
  A node that an identity no longer lists when it is registered again is still resolved to it, and the
  nodes of an identity that is removed are forgotten even when they were registered for another one.
\<close>

theorem stale_node_resolved:
  "get_identity_by_node (register_identity ((sample_human 1)\<lparr>hi_nodes := []\<rparr>) (register_all [sample_human 1])) (NodeID [1]) =
     Some ((sample_human 1)\<lparr>hi_nodes := []\<rparr>)"
  by (simp add: get_identity_by_node_def get_identity_def register_identity_def register_all_nodes register_all_identities
      sample_human_def get_associated_nodes_def)

theorem shared_node_forgotten:
  "get_identity_by_node (unregister_identity (HumanID [1])
     (register_all [sample_human 1, (sample_human 2)\<lparr>hi_nodes := [NodeID [1]]\<rparr>])) (NodeID [1]) = None"
  by (simp add: get_identity_by_node_def unregister_identity_def register_all_nodes register_all_identities sample_human_def
      get_associated_nodes_def split: option.splits)

end
