(* ===== verification/Content_Integrity.thy ===== *)
theory Content_Integrity
  imports Common
begin

text \<open>
  Hashes and Merkle trees of contents: \<open>src/security/content_integrity.cpp\<close>.

  BLAKE3 is the argument \<open>H\<close>. The two loops over the chunks of a content add \<open>chunk_size\<close> to the offset
  and never end when that is zero: they are partial functions, and \<open>None\<close> is a call that does not
  return. The offset and the length of an inner node of the tree are not initialised; they are the
  argument \<open>unset\<close>. The shape of the tree is compared with the recursive definition of RFC 6962, which
  splits a list of \<open>n\<close> leaves at the largest power of two below \<open>n\<close>.
\<close>

section \<open>Contents and their hash\<close>

record VerificationResult =
  vr_is_valid :: bool
  vr_expected_hash :: Hash256
  vr_actual_hash :: Hash256
  vr_content_size :: nat
  vr_error_message :: string

definition verify_content :: "(bytes \<Rightarrow> Hash256) \<Rightarrow> bytes \<Rightarrow> Hash256 \<Rightarrow> VerificationResult" where
  "verify_content H content expected =
     \<lparr>vr_is_valid = (H content = expected), vr_expected_hash = expected, vr_actual_hash = H content,
      vr_content_size = length content,
      vr_error_message = (if H content = expected then [] else ''Content hash mismatch - possible tampering detected'')\<rparr>"

definition verify_content_hash :: "(bytes \<Rightarrow> Hash256) \<Rightarrow> ContentHash \<Rightarrow> bytes \<Rightarrow> VerificationResult" where
  "verify_content_hash H h content = verify_content H content (content_bytes h)"

section \<open>Merkle trees\<close>

record MerkleNode =
  mn_hash :: Hash256
  mn_offset :: nat
  mn_length :: nat
  mn_children :: "Hash256 list"

definition MerkleNode_empty :: MerkleNode where
  "MerkleNode_empty = \<lparr>mn_hash = replicate 32 0, mn_offset = 0, mn_length = 0, mn_children = []\<rparr>"

definition CHUNK_SIZE :: nat where "CHUNK_SIZE = 64 * 1024"

definition leaf_node :: "(bytes \<Rightarrow> Hash256) \<Rightarrow> bytes \<Rightarrow> nat \<Rightarrow> nat \<Rightarrow> MerkleNode" where
  "leaf_node H content chunk_size offset =
     (let len = min chunk_size (length content - offset)
      in \<lparr>mn_hash = H (take len (drop offset content)), mn_offset = offset, mn_length = len, mn_children = []\<rparr>)"

partial_function (option) leaf_loop ::
    "(bytes \<Rightarrow> Hash256) \<Rightarrow> bytes \<Rightarrow> nat \<Rightarrow> nat \<Rightarrow> MerkleNode list \<Rightarrow> MerkleNode list option" where
  "leaf_loop H content chunk_size offset leaves =
     (if offset < length content
      then leaf_loop H content chunk_size (offset + chunk_size) (leaves @ [leaf_node H content chunk_size offset])
      else Some leaves)"

text \<open>The next level: two neighbours get a parent, an odd last node is taken over.\<close>

fun merkle_level :: "(bytes \<Rightarrow> Hash256) \<Rightarrow> nat \<times> nat \<Rightarrow> MerkleNode list \<Rightarrow> MerkleNode list" where
  "merkle_level H unset (a # b # rest) =
     \<lparr>mn_hash = H (mn_hash a @ mn_hash b), mn_offset = fst unset, mn_length = snd unset, mn_children = [mn_hash a, mn_hash b]\<rparr>
     # merkle_level H unset rest"
| "merkle_level H unset rest = rest"

lemma merkle_level_length: "length (merkle_level H unset xs) = (length xs + 1) div 2"
  by (induction H unset xs rule: merkle_level.induct) simp_all

function merkle_loop :: "(bytes \<Rightarrow> Hash256) \<Rightarrow> nat \<times> nat \<Rightarrow> MerkleNode list \<Rightarrow> MerkleNode list" where
  "merkle_loop H unset level = (if length level > 1 then merkle_loop H unset (merkle_level H unset level) else level)"
  by pat_completeness auto

termination merkle_loop
  by (relation "measure (\<lambda>(H, unset, level). length level)") (auto simp: merkle_level_length)

declare merkle_loop.simps [simp del]

definition build_merkle_tree :: "(bytes \<Rightarrow> Hash256) \<Rightarrow> nat \<times> nat \<Rightarrow> bytes \<Rightarrow> nat \<Rightarrow> MerkleNode option" where
  "build_merkle_tree H unset content chunk_size =
     (case leaf_loop H content chunk_size 0 [] of
        None \<Rightarrow> None
      | Some leaves \<Rightarrow> Some (case merkle_loop H unset leaves of [] \<Rightarrow> MerkleNode_empty | root # _ \<Rightarrow> root))"

definition verify_merkle_tree :: "(bytes \<Rightarrow> Hash256) \<Rightarrow> nat \<times> nat \<Rightarrow> bytes \<Rightarrow> MerkleNode \<Rightarrow> nat \<Rightarrow> bool option" where
  "verify_merkle_tree H unset content root chunk_size =
     map_option (\<lambda>calculated. mn_hash calculated = mn_hash root) (build_merkle_tree H unset content chunk_size)"

definition verify_chunk :: "(bytes \<Rightarrow> Hash256) \<Rightarrow> bytes \<Rightarrow> Hash256 \<Rightarrow> bool" where
  "verify_chunk H chunk expected \<longleftrightarrow> H chunk = expected"

section \<open>Metadata\<close>

record IntegrityMetadata =
  im_content_hash :: Hash256
  im_content_size :: nat
  im_merkle_root :: MerkleNode
  im_created_at :: u64
  im_chunk_hashes :: "Hash256 list"

partial_function (option) chunk_hash_loop ::
    "(bytes \<Rightarrow> Hash256) \<Rightarrow> bytes \<Rightarrow> nat \<Rightarrow> nat \<Rightarrow> Hash256 list \<Rightarrow> Hash256 list option" where
  "chunk_hash_loop H content chunk_size offset hashes =
     (if offset < length content
      then chunk_hash_loop H content chunk_size (offset + chunk_size)
             (hashes @ [H (take (min chunk_size (length content - offset)) (drop offset content))])
      else Some hashes)"

definition generate_metadata :: "(bytes \<Rightarrow> Hash256) \<Rightarrow> nat \<times> nat \<Rightarrow> u64 \<Rightarrow> bytes \<Rightarrow> nat \<Rightarrow> IntegrityMetadata option" where
  "generate_metadata H unset now content chunk_size =
     (case build_merkle_tree H unset content chunk_size of
        None \<Rightarrow> None
      | Some root \<Rightarrow>
          (case chunk_hash_loop H content chunk_size 0 [] of
             None \<Rightarrow> None
           | Some hashes \<Rightarrow>
               Some \<lparr>im_content_hash = H content, im_content_size = length content, im_merkle_root = root,
                     im_created_at = now, im_chunk_hashes = hashes\<rparr>))"

text \<open>The tree is checked with the default size of a chunk, whatever size the metadata was made with.\<close>

definition verify_metadata :: "(bytes \<Rightarrow> Hash256) \<Rightarrow> nat \<times> nat \<Rightarrow> bytes \<Rightarrow> IntegrityMetadata \<Rightarrow> bool option" where
  "verify_metadata H unset content m =
     (if length content \<noteq> im_content_size m then Some False
      else if H content \<noteq> im_content_hash m then Some False
      else verify_merkle_tree H unset content (im_merkle_root m) CHUNK_SIZE)"

section \<open>The chunks of a content\<close>

function chunks :: "nat \<Rightarrow> bytes \<Rightarrow> bytes list" where
  "chunks n xs = (if n = 0 \<or> xs = [] then [] else take n xs # chunks n (drop n xs))"
  by pat_completeness auto

termination chunks
  by (relation "measure (\<lambda>(n, xs). length xs)") auto

declare chunks.simps [simp del]

lemma chunks_Nil [simp]: "chunks n [] = []"
  by (simp add: chunks.simps)

lemma concat_chunks: "n > 0 \<Longrightarrow> concat (chunks n xs) = xs"
proof (induction n xs rule: chunks.induct)
  case (1 n xs)
  then show ?case by (cases "xs = []") (simp_all add: chunks.simps [of n xs])
qed

lemma length_chunks: "n > 0 \<Longrightarrow> length xs = length ys \<Longrightarrow> length (chunks n xs) = length (chunks n ys)"
proof (induction n xs arbitrary: ys rule: chunks.induct)
  case (1 n xs)
  show ?case
  proof (cases "xs = []")
    case True
    then show ?thesis using 1(3) by simp
  next
    case False
    then have "ys \<noteq> []" using 1(3) by auto
    then show ?thesis using 1(1) [of "drop n ys"] 1(2,3) False by (simp add: chunks.simps [of n xs] chunks.simps [of n ys])
  qed
qed

lemma chunks_at:
  assumes "n > 0" "off < length xs"
  shows "chunks n (drop off xs) = take (min n (length xs - off)) (drop off xs) # chunks n (drop (off + n) xs)"
  using assms by (subst chunks.simps) (simp add: min_def add.commute)

lemma leaf_loop_spec:
  assumes "n > 0"
  shows "\<exists>ns. leaf_loop H c n off acc = Some (acc @ ns) \<and> map mn_hash ns = map H (chunks n (drop off c)) \<and>
    list_all (\<lambda>x. mn_hash x = H (take (mn_length x) (drop (mn_offset x) c)) \<and> mn_offset x + mn_length x \<le> length c) ns"
proof (induction "length c - off" arbitrary: off acc rule: less_induct)
  case less
  show ?case
  proof (cases "off < length c")
    case True
    then have "length c - (off + n) < length c - off" using assms by simp
    from less [OF this] obtain ns where ns: "leaf_loop H c n (off + n) (acc @ [leaf_node H c n off]) = Some ((acc @ [leaf_node H c n off]) @ ns)"
        "map mn_hash ns = map H (chunks n (drop (off + n) c))"
        "list_all (\<lambda>x. mn_hash x = H (take (mn_length x) (drop (mn_offset x) c)) \<and> mn_offset x + mn_length x \<le> length c) ns"
      by blast
    show ?thesis
      by (rule exI [of _ "leaf_node H c n off # ns"])
        (use ns True in \<open>simp add: leaf_loop.simps [of H c n off] chunks_at [OF assms True] leaf_node_def Let_def\<close>)
  next
    case False
    then show ?thesis by (simp add: leaf_loop.simps [of H c n off])
  qed
qed

lemma chunk_hash_loop_spec:
  assumes "n > 0"
  shows "chunk_hash_loop H c n off acc = Some (acc @ map H (chunks n (drop off c)))"
proof (induction "length c - off" arbitrary: off acc rule: less_induct)
  case less
  show ?case
  proof (cases "off < length c")
    case True
    then show ?thesis using less [of "off + n"] assms
      by (simp add: chunk_hash_loop.simps [of H c n off] chunks_at [OF assms True])
  next
    case False
    then show ?thesis by (simp add: chunk_hash_loop.simps [of H c n off])
  qed
qed

lemma leaf_loop_stuck:
  assumes "off < length c"
  shows "leaf_loop H c 0 off acc = None"
proof (rule ccontr)
  assume "leaf_loop H c 0 off acc \<noteq> None"
  then obtain r where ret: "leaf_loop H c 0 off acc = Some r" by blast
  have "\<not> (0 = (0 :: nat) \<and> off < length c)"
    by (rule leaf_loop.raw_induct [where P = "\<lambda>H c n off acc r. \<not> (n = 0 \<and> off < length c)", OF _ ret])
      (fastforce split: if_splits)
  then show False using assms by simp
qed

section \<open>The recursive tree\<close>

text \<open>The largest power of two below a number that is at least two.\<close>

fun split_point :: "nat \<Rightarrow> nat" where
  "split_point n = (if n \<le> 2 then 1 else 2 * split_point ((n + 1) div 2))"

declare split_point.simps [simp del]

lemma split_point_spec:
  assumes "n \<ge> 2"
  shows "(\<exists>e. split_point n = 2 ^ e) \<and> split_point n < n \<and> n \<le> 2 * split_point n"
  using assms
proof (induction n rule: split_point.induct)
  case (1 n)
  show ?case
  proof (cases "n \<le> 2")
    case True
    then have "split_point n = 2 ^ 0" by (simp add: split_point.simps [of n])
    then show ?thesis using True 1(2) by (metis One_nat_def le_antisym lessI mult_2 numeral_2_eq_2 order_refl power_0 one_add_one)
  next
    case False
    then have IH: "\<exists>e. split_point ((n + 1) div 2) = 2 ^ e" "split_point ((n + 1) div 2) < (n + 1) div 2"
        "(n + 1) div 2 \<le> 2 * split_point ((n + 1) div 2)"
      using 1(1) by auto
    then obtain e where "split_point ((n + 1) div 2) = 2 ^ e" by blast
    then have "split_point n = 2 ^ Suc e" using False by (simp add: split_point.simps [of n])
    moreover have "split_point n < n" "n \<le> 2 * split_point n" using IH(2,3) False by (simp_all add: split_point.simps [of n])
    ultimately show ?thesis by blast
  qed
qed

function tree_hash :: "(bytes \<Rightarrow> Hash256) \<Rightarrow> Hash256 list \<Rightarrow> Hash256" where
  "tree_hash H hs =
     (if hs = [] then replicate 32 0
      else if length hs = 1 then hd hs
      else H (tree_hash H (take (split_point (length hs)) hs) @ tree_hash H (drop (split_point (length hs)) hs)))"
  by pat_completeness auto

lemma split_bounds:
  assumes "hs \<noteq> []" "length hs \<noteq> Suc 0"
  shows "0 < split_point (length hs)" "split_point (length hs) < length hs"
proof -
  have "length hs \<ge> 2" using assms by (cases hs rule: remdups_adj.cases) auto
  then show "0 < split_point (length hs)" "split_point (length hs) < length hs"
    using split_point_spec [of "length hs"] by auto
qed

termination tree_hash
  by (relation "measure (\<lambda>(H, hs). length hs)") (auto simp: min_less_iff_disj intro!: diff_less split_bounds)

declare tree_hash.simps [simp del]

lemma tree_hash_single [simp]: "tree_hash H [x] = x"
  by (simp add: tree_hash.simps)

lemma tree_hash_Nil [simp]: "tree_hash H [] = replicate 32 0"
  by (simp add: tree_hash.simps)

lemma tree_hash_append:
  assumes "xs \<noteq> []" "ys \<noteq> []" "length xs = split_point (length (xs @ ys))"
  shows "tree_hash H (xs @ ys) = H (tree_hash H xs @ tree_hash H ys)"
  using assms by (subst tree_hash.simps) (simp add: assms(3) [symmetric] flip: length_append, cases xs; cases ys; simp)

text \<open>A level on the hashes alone.\<close>

fun hash_level :: "(bytes \<Rightarrow> Hash256) \<Rightarrow> Hash256 list \<Rightarrow> Hash256 list" where
  "hash_level H (a # b # rest) = H (a @ b) # hash_level H rest"
| "hash_level H rest = rest"

lemma merkle_level_hashes: "map mn_hash (merkle_level H unset xs) = hash_level H (map mn_hash xs)"
  by (induction H unset xs rule: merkle_level.induct) simp_all

lemma hash_level_length [simp]: "length (hash_level H xs) = (length xs + 1) div 2"
  by (induction H xs rule: hash_level.induct) simp_all

lemma hash_level_append: "even (length xs) \<Longrightarrow> hash_level H (xs @ ys) = hash_level H xs @ hash_level H ys"
  by (induction H xs rule: hash_level.induct) simp_all

lemma tree_hash_level: "tree_hash H (hash_level H hs) = tree_hash H hs"
proof (induction H hs rule: tree_hash.induct)
  case (1 H hs)
  consider "length hs \<le> 1" | "length hs = 2" | "length hs > 2" by linarith
  then show ?case
  proof cases
    case 1
    then show ?thesis by (cases hs rule: remdups_adj.cases) simp_all
  next
    case 2
    then obtain a b where "hs = [a, b]" by (auto simp: length_Suc_conv numeral_2_eq_2)
    then show ?thesis by (simp add: tree_hash.simps [of H "[a, b]"] split_point.simps)
  next
    case 3
    define k where "k = split_point (length hs)"
    have half: "k = 2 * split_point ((length hs + 1) div 2)" using 3 by (simp add: k_def split_point.simps [of "length hs"])
    have ne: "hs \<noteq> []" "length hs \<noteq> Suc 0" using 3 by auto
    have k: "k < length hs" "0 < k" using split_bounds [OF ne] by (simp_all add: k_def)
    have lev: "hash_level H hs = hash_level H (take k hs) @ hash_level H (drop k hs)"
      using hash_level_append [of "take k hs" H "drop k hs"] k half by simp
    have len: "length (hash_level H (take k hs)) = split_point (length (hash_level H hs))" using k half by simp
    have "length (hash_level H (take k hs)) > 0" "length (hash_level H (drop k hs)) > 0" using k by simp_all
    then have "tree_hash H (hash_level H hs) = H (tree_hash H (hash_level H (take k hs)) @ tree_hash H (hash_level H (drop k hs)))"
      using len unfolding lev length_greater_0_conv by (rule tree_hash_append)
    also have "\<dots> = H (tree_hash H (take k hs) @ tree_hash H (drop k hs))"
      using 1 ne by (simp add: k_def)
    also have "\<dots> = tree_hash H hs" using ne by (simp add: tree_hash.simps [of H hs] k_def)
    finally show ?thesis .
  qed
qed

lemma merkle_loop_root:
  "(case merkle_loop H unset xs of [] \<Rightarrow> replicate 32 0 | r # _ \<Rightarrow> mn_hash r) = tree_hash H (map mn_hash xs)"
proof (induction H unset xs rule: merkle_loop.induct)
  case (1 H unset xs)
  show ?case
  proof (cases "length xs > 1")
    case True
    then show ?thesis using 1 by (simp add: merkle_loop.simps [of H unset xs] merkle_level_hashes tree_hash_level)
  next
    case False
    then show ?thesis by (cases xs rule: remdups_adj.cases) (simp_all add: merkle_loop.simps)
  qed
qed

lemma build_root:
  assumes "n > 0"
  shows "\<exists>root. build_merkle_tree H unset c n = Some root \<and> mn_hash root = tree_hash H (map H (chunks n c))"
proof -
  obtain ns where "leaf_loop H c n 0 [] = Some ns" "map mn_hash ns = map H (chunks n c)"
    using leaf_loop_spec [OF assms, of H c 0 "[]"] by auto
  then show ?thesis using merkle_loop_root [of H unset ns]
    by (auto simp: build_merkle_tree_def MerkleNode_empty_def split: list.splits)
qed

text \<open>
  C16: for every positive size of a chunk the loops end, and the hash of the root is the RFC 6962 tree hash
  of the hashes of the chunks: a list of leaves is split at the largest power of two below its length;
  without chunks it is zero. With a chunk size of zero the tree of a content that is not empty is never
  finished.
\<close>

theorem merkle_root_rfc6962:
  assumes "chunk_size > 0" "content \<noteq> []" "n \<ge> 2"
  shows "map_option mn_hash (build_merkle_tree H unset content chunk_size) = Some (tree_hash H (map H (chunks chunk_size content))) \<and>
    concat (chunks chunk_size content) = content \<and>
    (\<exists>e. split_point n = 2 ^ e) \<and> split_point n < n \<and> n \<le> 2 * split_point n \<and>
    build_merkle_tree H unset content 0 = None \<and> map_option mn_hash (build_merkle_tree H unset [] k) = Some (replicate 32 0)"
proof -
  have "build_merkle_tree H unset content 0 = None" using assms(2) leaf_loop_stuck [of 0 content H "[]"]
    by (cases content) (simp_all add: build_merkle_tree_def)
  moreover have "map_option mn_hash (build_merkle_tree H unset [] k) = Some (replicate 32 0)"
    by (simp add: build_merkle_tree_def leaf_loop.simps [of H "[]"] merkle_loop.simps MerkleNode_empty_def)
  ultimately show ?thesis
    using build_root [OF assms(1), of H unset content] concat_chunks [OF assms(1), of content]
      split_point_spec [OF assms(3)] by auto
qed

theorem merkle_root_rfc6962_witness:
  "map_option mn_hash (build_merkle_tree (\<lambda>x. x) (0, 0) [1, 2, 3, 4, 5] 2) = Some (tree_hash (\<lambda>x. x) (map (\<lambda>x. x) (chunks 2 [1, 2, 3, 4, 5])))"
  using merkle_root_rfc6962 [of 2 "[1, 2, 3, 4, 5]" 3 "\<lambda>x. x" "(0, 0)"] by simp

section \<open>Tampering\<close>

text \<open>The byte strings that are hashed on the way to the root of a tree.\<close>

function tree_inputs :: "(bytes \<Rightarrow> Hash256) \<Rightarrow> Hash256 list \<Rightarrow> bytes list" where
  "tree_inputs H hs =
     (if hs = [] \<or> length hs = 1 then []
      else (tree_hash H (take (split_point (length hs)) hs) @ tree_hash H (drop (split_point (length hs)) hs))
        # tree_inputs H (take (split_point (length hs)) hs) @ tree_inputs H (drop (split_point (length hs)) hs))"
  by pat_completeness auto

termination tree_inputs
  by (relation "measure (\<lambda>(H, hs). length hs)") (auto simp: min_less_iff_disj intro!: diff_less split_bounds)

declare tree_inputs.simps [simp del]

definition merkle_inputs :: "(bytes \<Rightarrow> Hash256) \<Rightarrow> nat \<Rightarrow> bytes \<Rightarrow> bytes list" where
  "merkle_inputs H n content = chunks n content @ tree_inputs H (map H (chunks n content))"

lemma tree_hash_32:
  assumes "\<And>x. length (H x) = 32" "list_all (\<lambda>h. length h = 32) hs"
  shows "length (tree_hash H hs) = 32"
  using assms by (subst tree_hash.simps) (cases hs; simp)

lemma tree_hash_split:
  assumes "hs \<noteq> []" "length hs \<noteq> Suc 0" "length hs = n"
  shows "tree_hash H hs = H (tree_hash H (take (split_point n) hs) @ tree_hash H (drop (split_point n) hs))"
    "tree_inputs H hs = (tree_hash H (take (split_point n) hs) @ tree_hash H (drop (split_point n) hs))
       # tree_inputs H (take (split_point n) hs) @ tree_inputs H (drop (split_point n) hs)"
  using assms by (simp_all add: tree_hash.simps [of H hs] tree_inputs.simps [of H hs])

lemma tree_hash_inject:
  assumes "\<And>x. length (H x) = 32" "list_all (\<lambda>h. length h = 32) hs" "list_all (\<lambda>h. length h = 32) gs"
    and "length gs = length hs" "inj_on H (set (tree_inputs H hs) \<union> set (tree_inputs H gs))" "tree_hash H hs = tree_hash H gs"
  shows "hs = gs"
  using assms
proof (induction H hs arbitrary: gs rule: tree_hash.induct)
  case (1 H hs)
  note len = 1(3) and ok = 1(4,5) and same = 1(6) and inj = 1(7) and eq = 1(8)
  show ?case
  proof (cases "hs = [] \<or> length hs = Suc 0")
    case True
    then show ?thesis using same eq by (cases hs; cases gs) auto
  next
    case False
    define k where "k = split_point (length hs)"
    have ne: "hs \<noteq> []" "length hs \<noteq> Suc 0" "gs \<noteq> []" "length gs \<noteq> Suc 0" using False same by auto
    note hs = tree_hash_split [OF ne(1,2) refl, of H, folded k_def] and gs = tree_hash_split [OF ne(3,4) same, of H, folded k_def]
    have parts: "list_all (\<lambda>h. length h = 32) (take k xs)" "list_all (\<lambda>h. length h = 32) (drop k xs)"
      if "list_all (\<lambda>h. length h = 32) xs" for xs :: "Hash256 list"
      using that by (auto simp: list_all_iff dest: in_set_takeD in_set_dropD)
    have "tree_hash H (take k hs) @ tree_hash H (drop k hs) = tree_hash H (take k gs) @ tree_hash H (drop k gs)"
      by (rule inj_onD [OF inj eq [unfolded hs(1) gs(1)]]) (simp_all add: hs(2) gs(2))
    then have halves: "tree_hash H (take k hs) = tree_hash H (take k gs)" "tree_hash H (drop k hs) = tree_hash H (drop k gs)"
      using tree_hash_32 [OF len parts(1)] ok by auto
    have sub: "inj_on H (set (tree_inputs H (f hs)) \<union> set (tree_inputs H (f gs)))" if "f = take k \<or> f = drop k" for f
      using inj that by (auto simp: hs gs inj_on_def)
    have "take k hs = take k gs" using 1(1) [folded k_def, of "take k gs"] ne parts ok same sub len halves by simp
    moreover have "drop k hs = drop k gs" using 1(2) [folded k_def, of "drop k gs"] ne parts ok same sub len halves by simp
    ultimately show ?thesis by (metis append_take_drop_id)
  qed
qed

lemma map_hash_inject: "inj_on H (set xs \<union> set ys) \<Longrightarrow> map H xs = map H ys \<Longrightarrow> xs = ys"
  by (simp add: inj_on_map_eq_map)

text \<open>
  as long as the hash function has no collision among the byte strings that are hashed for the two
  trees, a content of the same length that has the same root is the same content.
\<close>

theorem merkle_root_binds:
  assumes "\<And>x. length (H x) = 32" "chunk_size > 0" "length content' = length content"
    and "inj_on H (set (merkle_inputs H chunk_size content) \<union> set (merkle_inputs H chunk_size content'))"
    and "build_merkle_tree H unset content chunk_size = Some root"
    and "verify_merkle_tree H unset' content' root chunk_size = Some True"
  shows "content' = content"
proof -
  have root: "mn_hash root = tree_hash H (map H (chunks chunk_size content))"
    using build_root [OF assms(2), of H unset content] assms(5) by simp
  obtain root' where "build_merkle_tree H unset' content' chunk_size = Some root'"
      "mn_hash root' = tree_hash H (map H (chunks chunk_size content'))"
    using build_root [OF assms(2), of H unset' content'] by blast
  then have eq: "tree_hash H (map H (chunks chunk_size content')) = tree_hash H (map H (chunks chunk_size content))"
    using assms(6) root by (simp add: verify_merkle_tree_def)
  have len: "length (chunks chunk_size content') = length (chunks chunk_size content)" by (rule length_chunks [OF assms(2,3)])
  have "inj_on H (set (tree_inputs H (map H (chunks chunk_size content'))) \<union> set (tree_inputs H (map H (chunks chunk_size content))))"
    using assms(4) by (rule inj_on_subset) (auto simp: merkle_inputs_def)
  then have "map H (chunks chunk_size content') = map H (chunks chunk_size content)"
    by (intro tree_hash_inject [OF assms(1) _ _ _ _ eq]) (simp_all add: list_all_iff assms(1) len)
  moreover have "inj_on H (set (chunks chunk_size content') \<union> set (chunks chunk_size content))"
    using assms(4) by (rule inj_on_subset) (auto simp: merkle_inputs_def)
  ultimately have "chunks chunk_size content' = chunks chunk_size content" by (rule map_hash_inject [rotated])
  then show ?thesis using concat_chunks [OF assms(2)] by metis
qed

definition pad_hash :: "bytes \<Rightarrow> Hash256" where
  "pad_hash x = take 32 (word_of_nat (length x) # x @ replicate 32 0)"

theorem merkle_root_binds_witness:
  "\<exists>root. build_merkle_tree pad_hash (0, 0) [1, 2, 3] 1 = Some root \<and>
     verify_merkle_tree pad_hash (7, 7) [1, 2, 3] root 1 = Some True \<and> [1, 2, 3 :: u8] = [1, 2, 3]"
proof -
  obtain root where root: "build_merkle_tree pad_hash (0, 0) [1, 2, 3] 1 = Some root"
      "mn_hash root = tree_hash pad_hash (map pad_hash (chunks 1 [1, 2, 3]))"
    using build_root [of 1 pad_hash "(0, 0)" "[1, 2, 3]"] by auto
  moreover have ver: "verify_merkle_tree pad_hash (7, 7) [1, 2, 3] root 1 = Some True"
    using build_root [of 1 pad_hash "(7, 7)" "[1, 2, 3]"] root by (auto simp: verify_merkle_tree_def)
  moreover have "inj_on pad_hash (set (merkle_inputs pad_hash 1 [1, 2, 3]) \<union> set (merkle_inputs pad_hash 1 [1, 2, 3]))"
    by (simp add: merkle_inputs_def chunks.simps tree_inputs.simps tree_hash.simps split_point.simps pad_hash_def inj_on_def)
  ultimately show ?thesis
    using merkle_root_binds [of pad_hash 1 "[1, 2, 3]" "[1, 2, 3]" "(0, 0)" root "(7, 7)"] by (simp add: pad_hash_def)
qed

section \<open>Metadata round trip\<close>

lemma verify_metadata_iff:
  "verify_metadata H unset content m = Some
     (length content = im_content_size m \<and> H content = im_content_hash m \<and>
      tree_hash H (map H (chunks CHUNK_SIZE content)) = mn_hash (im_merkle_root m))"
  using build_root [of CHUNK_SIZE H unset content] by (auto simp: verify_metadata_def verify_merkle_tree_def CHUNK_SIZE_def)

text \<open>
  the metadata of a content, made with the default size of a chunk, verifies for the content and
  for no other content unless both have the same hash; its chunk hashes are those of the chunks, each of
  which verifies.
\<close>

theorem metadata_verifies:
  assumes "generate_metadata H unset now content CHUNK_SIZE = Some m"
  shows "verify_metadata H unset' content m = Some True \<and>
    im_chunk_hashes m = map H (chunks CHUNK_SIZE content) \<and>
    list_all2 (verify_chunk H) (chunks CHUNK_SIZE content) (im_chunk_hashes m) \<and>
    (verify_metadata H unset' content' m = Some True \<longrightarrow> length content' = length content \<and> H content' = H content) \<and>
    (\<exists>b. verify_metadata H unset' content' m = Some b) \<and>
    vr_is_valid (verify_content H content (im_content_hash m))"
proof -
  have pos: "CHUNK_SIZE > 0" by (simp add: CHUNK_SIZE_def)
  have m: "im_content_hash m = H content" "im_content_size m = length content" "im_chunk_hashes m = map H (chunks CHUNK_SIZE content)"
      "mn_hash (im_merkle_root m) = tree_hash H (map H (chunks CHUNK_SIZE content))"
    using assms build_root [OF pos, of H unset content] by (auto simp: generate_metadata_def chunk_hash_loop_spec [OF pos])
  then show ?thesis by (auto simp: verify_metadata_iff verify_chunk_def verify_content_def list_all2_conv_all_nth)
qed

lemma generate_metadata_returns: "n > 0 \<Longrightarrow> \<exists>m. generate_metadata H unset now content n = Some m"
  using build_root [of n H unset content] by (auto simp: generate_metadata_def chunk_hash_loop_spec)

theorem metadata_verifies_witness:
  "\<exists>m. generate_metadata pad_hash (0, 0) 9 [1, 2, 3] CHUNK_SIZE = Some m \<and> verify_metadata pad_hash (5, 5) [1, 2, 3] m = Some True"
proof -
  obtain m where "generate_metadata pad_hash (0, 0) 9 [1, 2, 3] CHUNK_SIZE = Some m"
    using generate_metadata_returns [of CHUNK_SIZE pad_hash "(0, 0)" 9 "[1, 2, 3]"] by (auto simp: CHUNK_SIZE_def)
  with metadata_verifies [OF this, of "(5, 5)"] show ?thesis by blast
qed

text \<open>
  Leaves and inner nodes are hashed in the same way: the concatenated hashes of the two chunks of a
  content are another content with the same root.
\<close>

theorem merkle_second_preimage:
  assumes "0 < n" "length (H a @ H b) \<le> n" "length a = n" "0 < length b" "length b \<le> n" "H a @ H b \<noteq> []"
  shows "map_option mn_hash (build_merkle_tree H unset (H a @ H b) n) = map_option mn_hash (build_merkle_tree H unset (a @ b) n)"
proof -
  have "chunks n (a @ b) = [a, b]" using assms(3-5) by (auto simp: chunks.simps [of n "a @ b"] chunks.simps [of n b])
  moreover have "chunks n (H a @ H b) = [H a @ H b]" using assms(1,2,6) by (auto simp: chunks.simps [of n "H a @ H b"])
  moreover have "tree_hash H [H a, H b] = H (H a @ H b)" by (simp add: tree_hash.simps [of H "[H a, H b]"] split_point.simps)
  ultimately show ?thesis
    using build_root [OF assms(1), of H unset "a @ b"] build_root [OF assms(1), of H unset "H a @ H b"] by auto
qed

text \<open>Metadata that was made with chunks of one byte does not verify for the content it was made for.\<close>

theorem metadata_chunk_size_ignored:
  "\<exists>m. generate_metadata pad_hash (0, 0) 9 [1, 2] 1 = Some m \<and> verify_metadata pad_hash (0, 0) [1, 2] m = Some False"
proof -
  obtain m where m: "generate_metadata pad_hash (0, 0) 9 [1, 2] 1 = Some m"
    using generate_metadata_returns [of 1 pad_hash "(0, 0)" 9 "[1, 2]"] by auto
  then have "mn_hash (im_merkle_root m) = tree_hash pad_hash (map pad_hash (chunks 1 [1, 2]))"
    using build_root [of 1 pad_hash "(0, 0)" "[1, 2]"] by (auto simp: generate_metadata_def split: option.splits)
  then show ?thesis using m
    by (auto simp: verify_metadata_iff CHUNK_SIZE_def chunks.simps tree_hash.simps split_point.simps pad_hash_def)
qed

end
