(* ===== verification/Connections.thy ===== *)
theory Connections
  imports Peers
begin

text \<open>
  TCP connections, their bandwidth limit and the manager that shares them:
  \<open>src/network/connection.cpp\<close>.

  What the operating system answers to \<open>socket\<close>, \<open>getaddrinfo\<close>, \<open>connect\<close>, \<open>send\<close> and \<open>recv\<close> is an
  argument of the operations; a \<open>send\<close> that never gets through is a list of answers that ends early, and
  the result \<open>None\<close>. The steady clock is a number of nanoseconds. All connections share one limiter, which
  the operations take and return. A callback is a value of the type \<open>'cb\<close>; the calls of callbacks are the
  events an operation returns. Connections are objects behind addresses, since the callers keep pointers
  to them; their destructor does nothing that can be observed, because a connection is disconnected before
  it is dropped from the manager.
\<close>

section \<open>Addresses\<close>

datatype AddressFamily = IPv4 | IPv6 | AnyFamily

record SocketAddress =
  sa_host :: string
  sa_port :: u16
  sa_family :: AddressFamily

definition SocketAddress_empty :: SocketAddress where
  "SocketAddress_empty = \<lparr>sa_host = [], sa_port = 0, sa_family = AnyFamily\<rparr>"

definition SocketAddress_to_string :: "SocketAddress \<Rightarrow> string" where
  "SocketAddress_to_string a =
     (if sa_family a = IPv6 then ''['' @ sa_host a @ '']:'' @ decimal (unat (sa_port a))
      else sa_host a @ '':'' @ decimal (unat (sa_port a)))"

text \<open>
  \<open>Inl ()\<close> is the exception of \<open>std::stoi\<close>, \<open>Inr None\<close> is \<open>std::nullopt\<close>. The number is cut to 16 bits.
\<close>

definition address_with_port :: "string \<Rightarrow> string \<Rightarrow> AddressFamily \<Rightarrow> unit + SocketAddress option" where
  "address_with_port host port family =
     (case stoi port of
        None \<Rightarrow> Inl ()
      | Some p \<Rightarrow> Inr (Some \<lparr>sa_host = host, sa_port = word_of_int p, sa_family = family\<rparr>))"

definition SocketAddress_from_string :: "string \<Rightarrow> unit + SocketAddress option" where
  "SocketAddress_from_string addr =
     (if addr \<noteq> [] \<and> hd addr = CHR ''['' then
        let host = takeWhile (\<lambda>c. c \<noteq> CHR '']'') (tl addr);
            rest = dropWhile (\<lambda>c. c \<noteq> CHR '']'') addr
        in if rest = [] then Inr None
           else if length rest < 2 \<or> rest ! 1 \<noteq> CHR '':'' then Inr None
           else address_with_port host (drop 2 rest) IPv6
      else if CHR '':'' \<notin> set addr then Inr None
      else
        let port = rev (takeWhile (\<lambda>c. c \<noteq> CHR '':'') (rev addr));
            host = take (length addr - length port - 1) addr
        in address_with_port host port (if CHR '':'' \<in> set host then IPv6 else IPv4))"

definition is_ipv4 :: "SocketAddress \<Rightarrow> bool" where
  "is_ipv4 a \<longleftrightarrow> sa_family a = IPv4 \<or> sa_family a = AnyFamily \<and> CHR '':'' \<notin> set (sa_host a)"

definition is_ipv6 :: "SocketAddress \<Rightarrow> bool" where
  "is_ipv6 a \<longleftrightarrow> sa_family a = IPv6 \<or> sa_family a = AnyFamily \<and> CHR '':'' \<in> set (sa_host a)"

section \<open>Bandwidth\<close>

record BandwidthLimiter =
  bw_rate :: u64
  bw_tx :: u64
  bw_rx :: u64
  bw_last_update :: nat

definition BandwidthLimiter_new :: "nat \<Rightarrow> u64 \<Rightarrow> BandwidthLimiter" where
  "BandwidthLimiter_new now rate = \<lparr>bw_rate = rate, bw_tx = rate, bw_rx = rate, bw_last_update = now\<rparr>"

definition bw_refill :: "nat \<Rightarrow> BandwidthLimiter \<Rightarrow> BandwidthLimiter" where
  "bw_refill now l =
     (let elapsed = (now - bw_last_update l) div 1000000 in
      if elapsed > 0 then
        let tokens = (bw_rate l * word_of_nat elapsed) div 1000 in
        l\<lparr>bw_tx := min (bw_tx l + tokens) (bw_rate l), bw_rx := min (bw_rx l + tokens) (bw_rate l), bw_last_update := now\<rparr>
      else l)"

definition can_send :: "nat \<Rightarrow> nat \<Rightarrow> BandwidthLimiter \<Rightarrow> bool \<times> BandwidthLimiter" where
  "can_send now n l = (let l = bw_refill now l in (n \<le> unat (bw_tx l), l))"

definition can_receive :: "nat \<Rightarrow> nat \<Rightarrow> BandwidthLimiter \<Rightarrow> bool \<times> BandwidthLimiter" where
  "can_receive now n l = (let l = bw_refill now l in (n \<le> unat (bw_rx l), l))"

definition record_sent :: "nat \<Rightarrow> nat \<Rightarrow> BandwidthLimiter \<Rightarrow> BandwidthLimiter" where
  "record_sent now n l = (let l = bw_refill now l in
     l\<lparr>bw_tx := (if n \<le> unat (bw_tx l) then bw_tx l - word_of_nat n else 0)\<rparr>)"

definition record_received :: "nat \<Rightarrow> nat \<Rightarrow> BandwidthLimiter \<Rightarrow> BandwidthLimiter" where
  "record_received now n l = (let l = bw_refill now l in
     l\<lparr>bw_rx := (if n \<le> unat (bw_rx l) then bw_rx l - word_of_nat n else 0)\<rparr>)"

definition get_bytes_sent_per_second :: "BandwidthLimiter \<Rightarrow> u64" where
  "get_bytes_sent_per_second l = bw_rate l - bw_tx l"

definition get_bytes_received_per_second :: "BandwidthLimiter \<Rightarrow> u64" where
  "get_bytes_received_per_second l = bw_rate l - bw_rx l"

definition set_limit :: "u64 \<Rightarrow> BandwidthLimiter \<Rightarrow> BandwidthLimiter" where
  "set_limit rate l = l\<lparr>bw_rate := rate\<rparr>"

section \<open>Connections\<close>

datatype ConnectionState = TCP_DISCONNECTED | TCP_CONNECTING | TCP_CONNECTED | TCP_DISCONNECTING | CONN_ERROR

datatype 'cb conn_event = OnConnected 'cb | OnDisconnected 'cb | OnError 'cb string

record 'cb TCPConnection =
  tc_socket_fd :: int
  tc_state :: ConnectionState
  tc_local :: SocketAddress
  tc_remote :: SocketAddress
  tc_bytes_sent :: u64
  tc_bytes_received :: u64
  tc_connected_at :: nat
  tc_limited :: bool
  tc_data_callback :: "'cb option"
  tc_error_callback :: "'cb option"
  tc_connected_callback :: "'cb option"
  tc_disconnected_callback :: "'cb option"

definition INVALID_SOCKET :: int where "INVALID_SOCKET = -1"

definition TCPConnection_new :: "'cb TCPConnection" where
  "TCPConnection_new = \<lparr>tc_socket_fd = INVALID_SOCKET, tc_state = TCP_DISCONNECTED, tc_local = SocketAddress_empty,
     tc_remote = SocketAddress_empty, tc_bytes_sent = 0, tc_bytes_received = 0, tc_connected_at = 0, tc_limited = False,
     tc_data_callback = None, tc_error_callback = None, tc_connected_callback = None, tc_disconnected_callback = None\<rparr>"

definition set_data_callback :: "'cb \<Rightarrow> 'cb TCPConnection \<Rightarrow> 'cb TCPConnection" where
  "set_data_callback f c = c\<lparr>tc_data_callback := Some f\<rparr>"

definition set_error_callback :: "'cb \<Rightarrow> 'cb TCPConnection \<Rightarrow> 'cb TCPConnection" where
  "set_error_callback f c = c\<lparr>tc_error_callback := Some f\<rparr>"

definition set_connected_callback :: "'cb \<Rightarrow> 'cb TCPConnection \<Rightarrow> 'cb TCPConnection" where
  "set_connected_callback f c = c\<lparr>tc_connected_callback := Some f\<rparr>"

definition set_disconnected_callback :: "'cb \<Rightarrow> 'cb TCPConnection \<Rightarrow> 'cb TCPConnection" where
  "set_disconnected_callback f c = c\<lparr>tc_disconnected_callback := Some f\<rparr>"

definition set_bandwidth_limiter :: "'cb TCPConnection \<Rightarrow> 'cb TCPConnection" where
  "set_bandwidth_limiter c = c\<lparr>tc_limited := True\<rparr>"

definition on_connected :: "'cb TCPConnection \<Rightarrow> 'cb conn_event list" where
  "on_connected c = (case tc_connected_callback c of None \<Rightarrow> [] | Some f \<Rightarrow> [OnConnected f])"

definition on_disconnected :: "'cb TCPConnection \<Rightarrow> 'cb conn_event list" where
  "on_disconnected c = (case tc_disconnected_callback c of None \<Rightarrow> [] | Some f \<Rightarrow> [OnDisconnected f])"

definition on_error :: "string \<Rightarrow> 'cb TCPConnection \<Rightarrow> 'cb conn_event list" where
  "on_error msg c = (case tc_error_callback c of None \<Rightarrow> [] | Some f \<Rightarrow> [OnError f msg])"

text \<open>
  The answers to the calls of \<open>connect\<close>: the descriptor of the new socket, the result of connecting to
  each of the resolved addresses, and the local address with the port that \<open>getnameinfo\<close> prints.
\<close>

record os_connect =
  oc_socket :: int
  oc_resolve :: "bool list option"
  oc_name :: "(string \<times> u16) option"
  oc_now :: nat

definition create_socket :: "os_connect \<Rightarrow> 'cb TCPConnection \<Rightarrow> bool \<times> 'cb TCPConnection" where
  "create_socket os c = (oc_socket os \<noteq> INVALID_SOCKET, c\<lparr>tc_socket_fd := oc_socket os\<rparr>)"

definition close_socket :: "'cb TCPConnection \<Rightarrow> 'cb TCPConnection" where
  "close_socket c = (if tc_socket_fd c \<noteq> INVALID_SOCKET then c\<lparr>tc_socket_fd := INVALID_SOCKET\<rparr> else c)"

definition tcp_connect :: "os_connect \<Rightarrow> SocketAddress \<Rightarrow> 'cb TCPConnection \<Rightarrow> bool \<times> 'cb TCPConnection \<times> 'cb conn_event list" where
  "tcp_connect os addr c =
     (if tc_state c \<noteq> TCP_DISCONNECTED then (False, c, [])
      else
        let c = c\<lparr>tc_state := TCP_CONNECTING, tc_remote := addr\<rparr>;
            family = (if is_ipv6 addr then IPv6 else IPv4);
            (created, c) = create_socket os c
        in if \<not> created then (False, c\<lparr>tc_state := CONN_ERROR\<rparr>, [])
           else case oc_resolve os of
                  None \<Rightarrow> (False, (close_socket c)\<lparr>tc_state := CONN_ERROR\<rparr>, [])
                | Some results \<Rightarrow>
                    if \<not> list_ex (\<lambda>ok. ok) results then (False, (close_socket c)\<lparr>tc_state := CONN_ERROR\<rparr>, [])
                    else
                      let c = c\<lparr>tc_state := TCP_CONNECTED, tc_connected_at := oc_now os\<rparr>;
                          c = (case oc_name os of
                                 None \<Rightarrow> c
                               | Some (host, port) \<Rightarrow> c\<lparr>tc_local := \<lparr>sa_host = host, sa_port = port, sa_family = family\<rparr>\<rparr>)
                      in (True, c, on_connected c))"

definition tcp_disconnect :: "'cb TCPConnection \<Rightarrow> 'cb TCPConnection \<times> 'cb conn_event list" where
  "tcp_disconnect c =
     (if tc_state c = TCP_DISCONNECTED then (c, [])
      else let c = (close_socket (c\<lparr>tc_state := TCP_DISCONNECTING\<rparr>))\<lparr>tc_state := TCP_DISCONNECTED\<rparr> in (c, on_disconnected c))"

definition tcp_is_connected :: "'cb TCPConnection \<Rightarrow> bool" where
  "tcp_is_connected c \<longleftrightarrow> tc_state c = TCP_CONNECTED"

text \<open>
  The loop around \<open>send\<close>: the bytes that were handed over and whether they were all; \<open>None\<close> when the answers end before.
\<close>

datatype send_answer = Sent nat | SendWouldBlock | SendFailed

fun send_loop :: "bytes \<Rightarrow> nat \<Rightarrow> send_answer list \<Rightarrow> (bool \<times> bytes) option" where
  "send_loop data total_sent answers =
     (if total_sent < length data then
        case answers of
          [] \<Rightarrow> None
        | Sent n # answers \<Rightarrow>
            map_option (\<lambda>(ok, wire). (ok, take n (drop total_sent data) @ wire)) (send_loop data (total_sent + n) answers)
        | SendWouldBlock # answers \<Rightarrow> send_loop data total_sent answers
        | SendFailed # answers \<Rightarrow> Some (False, [])
      else Some (True, []))"

text \<open>The result, the connection, the limiter, the bytes on the wire and the events.\<close>

type_synonym 'cb send_result = "bool \<times> 'cb TCPConnection \<times> BandwidthLimiter \<times> bytes \<times> 'cb conn_event list"

definition tcp_send :: "nat \<Rightarrow> nat \<Rightarrow> send_answer list \<Rightarrow> bytes \<Rightarrow> 'cb TCPConnection \<Rightarrow> BandwidthLimiter \<Rightarrow> 'cb send_result option" where
  "tcp_send now later answers data c l =
     (if \<not> tcp_is_connected c then Some (False, c, l, [], [])
      else
        let (ok, l) = (if tc_limited c then can_send now (length data) l else (True, l)) in
        if \<not> ok then Some (False, c, l, [], [])
        else case send_loop data 0 answers of
               None \<Rightarrow> None
             | Some (False, wire) \<Rightarrow> Some (False, c, l, wire, on_error ''Send failed'' c)
             | Some (True, wire) \<Rightarrow>
                 Some (True, c\<lparr>tc_bytes_sent := tc_bytes_sent c + word_of_nat (length data)\<rparr>,
                       if tc_limited c then record_sent later (length data) l else l, wire, []))"

datatype recv_answer = Received bytes | RecvWouldBlock | RecvFailed

definition tcp_receive :: "nat \<Rightarrow> nat \<Rightarrow> recv_answer \<Rightarrow> nat \<Rightarrow> 'cb TCPConnection \<Rightarrow> BandwidthLimiter
    \<Rightarrow> bytes option \<times> 'cb TCPConnection \<times> BandwidthLimiter \<times> 'cb conn_event list" where
  "tcp_receive now later answer max_bytes c l =
     (if \<not> tcp_is_connected c then (None, c, l, [])
      else
        let (ok, l) = (if tc_limited c then can_receive now max_bytes l else (True, l)) in
        if \<not> ok then (None, c, l, [])
        else case answer of
               RecvWouldBlock \<Rightarrow> (None, c, l, [])
             | RecvFailed \<Rightarrow> (None, c, l, on_error ''Receive failed'' c)
             | Received [] \<Rightarrow> (None, c, l, [])
             | Received buffer \<Rightarrow>
                 (Some buffer, c\<lparr>tc_bytes_received := tc_bytes_received c + word_of_nat (length buffer)\<rparr>,
                  if tc_limited c then record_received later (length buffer) l else l, []))"

text \<open>What the detached threads do when they run: the operation, then the callback with its result.\<close>

definition async_send :: "nat \<Rightarrow> nat \<Rightarrow> send_answer list \<Rightarrow> bytes \<Rightarrow> bool \<Rightarrow> 'cb TCPConnection \<Rightarrow> BandwidthLimiter
    \<Rightarrow> (bool option \<times> 'cb send_result) option" where
  "async_send now later answers data has_callback c l =
     map_option (\<lambda>r. (if has_callback then Some (fst r) else None, r)) (tcp_send now later answers data c l)"

definition async_receive :: "nat \<Rightarrow> nat \<Rightarrow> recv_answer \<Rightarrow> nat \<Rightarrow> bool \<Rightarrow> 'cb TCPConnection \<Rightarrow> BandwidthLimiter
    \<Rightarrow> bytes option \<times> 'cb TCPConnection \<times> BandwidthLimiter \<times> 'cb conn_event list" where
  "async_receive now later answer max_bytes has_callback c l =
     (let (data, rest) = tcp_receive now later answer max_bytes c l in (if has_callback then data else None, rest))"

definition tcp_duration :: "nat \<Rightarrow> 'cb TCPConnection \<Rightarrow> nat" where
  "tcp_duration now c = (if tc_state c \<noteq> TCP_CONNECTED then 0 else (now - tc_connected_at c) div 1000000000)"

section \<open>The manager\<close>

record 'cb ConnectionManager =
  cm_connections :: "(string \<times> nat) list"
  cm_objects :: "'cb TCPConnection list"
  cm_limiter :: BandwidthLimiter

definition ConnectionManager_init :: "nat \<Rightarrow> 'cb ConnectionManager" where
  "ConnectionManager_init now = \<lparr>cm_connections = [], cm_objects = [], cm_limiter = BandwidthLimiter_new now (10 * 1024 * 1024)\<rparr>"

definition generate_connection_id :: "SocketAddress \<Rightarrow> string" where
  "generate_connection_id = SocketAddress_to_string"

definition create_connection :: "os_connect \<Rightarrow> SocketAddress \<Rightarrow> 'cb ConnectionManager
    \<Rightarrow> nat option \<times> 'cb ConnectionManager \<times> 'cb conn_event list" where
  "create_connection os addr m =
     (let conn_id = generate_connection_id addr in
      case map_of (cm_connections m) conn_id of
        Some p \<Rightarrow> (Some p, m, [])
      | None \<Rightarrow>
          let (ok, c, evs) = tcp_connect os addr (set_bandwidth_limiter TCPConnection_new) in
          if \<not> ok then (None, m, evs)
          else (Some (length (cm_objects m)),
                m\<lparr>cm_objects := cm_objects m @ [c], cm_connections := omap_set conn_id (length (cm_objects m)) (cm_connections m)\<rparr>, evs))"

text \<open>Calling an operation of the object behind a pointer.\<close>

definition disconnect_object :: "nat \<Rightarrow> 'cb ConnectionManager \<Rightarrow> 'cb ConnectionManager \<times> 'cb conn_event list" where
  "disconnect_object p m = (let (c, evs) = tcp_disconnect (cm_objects m ! p) in (m\<lparr>cm_objects := (cm_objects m)[p := c]\<rparr>, evs))"

definition manager_close_connection :: "string \<Rightarrow> 'cb ConnectionManager \<Rightarrow> 'cb ConnectionManager \<times> 'cb conn_event list" where
  "manager_close_connection conn_id m =
     (case map_of (cm_connections m) conn_id of
        None \<Rightarrow> (m, [])
      | Some p \<Rightarrow> let (m, evs) = disconnect_object p m in (m\<lparr>cm_connections := omap_erase conn_id (cm_connections m)\<rparr>, evs))"

definition manager_close_all :: "'cb ConnectionManager \<Rightarrow> 'cb ConnectionManager \<times> 'cb conn_event list" where
  "manager_close_all m =
     (let (m, evs) = fold (\<lambda>(conn_id, p) (m, evs). let (m, new) = disconnect_object p m in (m, evs @ new)) (cm_connections m) (m, [])
      in (m\<lparr>cm_connections := []\<rparr>, evs))"

definition manager_get_connection :: "'cb ConnectionManager \<Rightarrow> string \<Rightarrow> nat option" where
  "manager_get_connection m conn_id = map_of (cm_connections m) conn_id"

definition has_connection :: "'cb ConnectionManager \<Rightarrow> string \<Rightarrow> bool" where
  "has_connection m conn_id \<longleftrightarrow> map_of (cm_connections m) conn_id \<noteq> None"

definition manager_connection_count :: "'cb ConnectionManager \<Rightarrow> nat" where
  "manager_connection_count m = length (cm_connections m)"

definition get_active_connections :: "'cb ConnectionManager \<Rightarrow> string list" where
  "get_active_connections m = map fst (cm_connections m)"

definition set_global_bandwidth_limit :: "u64 \<Rightarrow> 'cb ConnectionManager \<Rightarrow> 'cb ConnectionManager" where
  "set_global_bandwidth_limit rate m = m\<lparr>cm_limiter := set_limit rate (cm_limiter m)\<rparr>"

definition get_global_bandwidth_limit :: "'cb ConnectionManager \<Rightarrow> u64" where
  "get_global_bandwidth_limit m = bw_rate (cm_limiter m)"

definition cleanup_dead_connections :: "'cb ConnectionManager \<Rightarrow> 'cb ConnectionManager" where
  "cleanup_dead_connections m =
     (let to_remove = map fst (filter (\<lambda>(conn_id, p). \<not> tcp_is_connected (cm_objects m ! p)) (cm_connections m))
      in m\<lparr>cm_connections := fold omap_erase to_remove (cm_connections m)\<rparr>)"

section \<open>Printing and parsing addresses\<close>

lemma decimal_digits: "list_all is_digit (decimal n)"
proof (induction n rule: decimal.induct)
  case (1 n)
  have digit: "is_digit (''0123456789'' ! k)" if "k < 10" for k
  proof -
    have "k \<in> {0, 1, 2, 3, 4, 5, 6, 7, 8, 9}" using that by auto
    then show ?thesis by (auto simp: is_digit_def)
  qed
  show ?case using 1 digit [of n] digit [of "n mod 10"] by (cases "n < 10") (simp_all add: decimal.simps [of n])
qed

lemma dec_value_decimal: "dec_value (decimal n) = int n"
proof (induction n rule: decimal.induct)
  case (1 n)
  have digit: "(of_char (''0123456789'' ! k) :: int) = int k + 48" if "k < 10" for k
  proof -
    have "k \<in> {0, 1, 2, 3, 4, 5, 6, 7, 8, 9}" using that by auto
    then show ?thesis by auto
  qed
  show ?case
  proof (cases "n < 10")
    case True
    then show ?thesis by (simp add: decimal.simps [of n] dec_value_def digit)
  next
    case False
    have "dec_value (decimal n) = 10 * dec_value (decimal (n div 10)) + int (n mod 10)"
      using False by (simp add: decimal.simps [of n] dec_value_def digit)
    also have "\<dots> = int n" using 1 False by presburger
    finally show ?thesis .
  qed
qed

lemma takeWhile_all: "list_all P xs \<Longrightarrow> takeWhile P xs = xs"
  by (induction xs) simp_all

lemma stoi_decimal:
  assumes "n < 2 ^ 31"
  shows "stoi (decimal n) = Some (int n)"
proof -
  obtain d ds where d: "decimal n = d # ds" by (cases "decimal n") auto
  have "is_digit d" using decimal_digits [of n] d by simp
  then have "\<not> is_space d" "d \<noteq> CHR ''-''" "d \<noteq> CHR ''+''" by (auto simp: is_digit_def is_space_def Let_def)
  moreover have "takeWhile is_digit (decimal n) = decimal n" by (rule takeWhile_all [OF decimal_digits])
  ultimately show ?thesis using assms dec_value_decimal [of n] by (simp add: stoi_def d)
qed

lemma decimal_not_colon: "CHR '':'' \<notin> set (decimal n)" "CHR '']'' \<notin> set (decimal n)"
  using decimal_digits [of n] by (auto simp: list_all_iff is_digit_def)

lemma port_parsed: "address_with_port host (decimal (unat (port :: u16))) family = Inr (Some \<lparr>sa_host = host, sa_port = port, sa_family = family\<rparr>)"
proof -
  have "unat port < 2 ^ 31" using unsigned_less [of port, where ?'a = nat] by simp
  then have "stoi (decimal (unat port)) = Some (int (unat port))" by (rule stoi_decimal)
  then show ?thesis by (simp add: address_with_port_def)
qed

definition address_ok :: "SocketAddress \<Rightarrow> bool" where
  "address_ok a =
     (case sa_family a of
        IPv4 \<Rightarrow> CHR '':'' \<notin> set (sa_host a) \<and> (sa_host a = [] \<or> hd (sa_host a) \<noteq> CHR ''['')
      | IPv6 \<Rightarrow> CHR '']'' \<notin> set (sa_host a)
      | AnyFamily \<Rightarrow> False)"

lemma takeWhile_until: "x \<notin> set xs \<Longrightarrow> takeWhile (\<lambda>c. c \<noteq> x) (xs @ x # ys) = xs" "x \<notin> set xs \<Longrightarrow> dropWhile (\<lambda>c. c \<noteq> x) (xs @ x # ys) = x # ys"
  by (induction xs) auto

text \<open>
  an address is printed so that parsing gives it back: an IPv4 host without a colon that does not
  start with a bracket, and an IPv6 host without a closing bracket, with every port.
\<close>

theorem address_roundtrip:
  assumes "address_ok a"
  shows "SocketAddress_from_string (SocketAddress_to_string a) = Inr (Some a)"
proof (cases "sa_family a")
  case IPv4
  have last: "takeWhile (\<lambda>c. c \<noteq> CHR '':'') (rev (decimal (unat (sa_port a))) @ CHR '':'' # rev (sa_host a)) = rev (decimal (unat (sa_port a)))"
    by (rule takeWhile_until) (simp add: decimal_not_colon)
  have "\<not> (sa_host a @ '':'' @ decimal (unat (sa_port a)) \<noteq> [] \<and> hd (sa_host a @ '':'' @ decimal (unat (sa_port a))) = CHR ''['')"
    using assms IPv4 by (cases "sa_host a") (auto simp: address_ok_def)
  then show ?thesis using assms IPv4 last
    by (auto simp: SocketAddress_from_string_def SocketAddress_to_string_def address_ok_def port_parsed Let_def)
next
  case IPv6
  have "CHR '']'' \<notin> set (CHR ''['' # sa_host a)" using assms IPv6 by (simp add: address_ok_def)
  from takeWhile_until(2) [OF this, of "CHR '':'' # decimal (unat (sa_port a))"]
    takeWhile_until(1) [of "CHR '']''" "sa_host a" "CHR '':'' # decimal (unat (sa_port a))"]
  show ?thesis using assms IPv6
    by (auto simp: SocketAddress_from_string_def SocketAddress_to_string_def address_ok_def port_parsed Let_def)
next
  case AnyFamily
  then show ?thesis using assms by (simp add: address_ok_def)
qed

theorem address_roundtrip_witness:
  "SocketAddress_from_string (SocketAddress_to_string \<lparr>sa_host = ''fe80::1'', sa_port = 8080, sa_family = IPv6\<rparr>) =
     Inr (Some \<lparr>sa_host = ''fe80::1'', sa_port = 8080, sa_family = IPv6\<rparr>)"
  by (rule address_roundtrip) (simp add: address_ok_def)

text \<open>A port beyond 16 bits is not refused, and an address without a number for its port throws.\<close>

theorem port_truncated: "SocketAddress_from_string ''10.0.0.1:65616'' = Inr (Some \<lparr>sa_host = ''10.0.0.1'', sa_port = 80, sa_family = IPv4\<rparr>)"
  by code_simp

theorem port_missing_throws: "SocketAddress_from_string ''localhost:'' = Inl ()"
  by code_simp

section \<open>Sending\<close>

declare send_loop.simps [simp del]

fun sent_bytes :: "send_answer list \<Rightarrow> nat" where
  "sent_bytes [] = 0"
| "sent_bytes (Sent n # answers) = n + sent_bytes answers"
| "sent_bytes (_ # answers) = sent_bytes answers"

lemma send_loop_prefix:
  "send_loop data t answers = Some (ok, wire) \<Longrightarrow> (\<exists>k. wire = take k (drop t data)) \<and> (ok \<longrightarrow> wire = drop t data)"
proof (induction data t answers arbitrary: wire rule: send_loop.induct)
  case (1 data t answers)
  show ?case
  proof (cases "t < length data")
    case False
    then show ?thesis using 1(3) by (auto simp: send_loop.simps [of data t])
  next
    case True
    show ?thesis
    proof (cases answers)
      case Nil
      then show ?thesis using 1(3) True by (simp add: send_loop.simps [of data t])
    next
      case (Cons x rest)
      show ?thesis
      proof (cases x)
        case (Sent n)
        then obtain w where w: "send_loop data (t + n) rest = Some (ok, w)" "wire = take n (drop t data) @ w"
          using 1(3) True Cons by (auto simp: send_loop.simps [of data t])
        then obtain k where "w = take k (drop (t + n) data)" "ok \<longrightarrow> w = drop (t + n) data"
          using 1(1) [OF True Cons Sent] by blast
        moreover have "take n (drop t data) @ drop (t + n) data = drop t data"
          by (metis add.commute append_take_drop_id drop_drop)
        moreover have "take n (drop t data) @ take k (drop (t + n) data) = take (n + k) (drop t data)"
          by (simp only: take_add drop_drop add.commute [of t n])
        ultimately show ?thesis using w(2) by metis
      next
        case SendWouldBlock
        then show ?thesis using 1(2) [OF True Cons SendWouldBlock] 1(3) True Cons by (simp add: send_loop.simps [of data t])
      next
        case SendFailed
        then show ?thesis using 1(3) True Cons by (auto simp: send_loop.simps [of data t] intro: exI [of _ 0])
      qed
    qed
  qed
qed

lemma send_loop_ends:
  "SendFailed \<notin> set answers \<Longrightarrow> length data \<le> t + sent_bytes answers \<Longrightarrow> send_loop data t answers = Some (True, drop t data)"
proof (induction answers arbitrary: t rule: sent_bytes.induct, goal_cases)
  case (1 t)
  then show ?case by (simp add: send_loop.simps)
next
  case (2 n answers t)
  then have "send_loop data (t + n) answers = Some (True, drop (t + n) data)" by simp
  then show ?case by (auto simp: send_loop.simps [of data t]) (metis add.commute append_take_drop_id drop_drop)
next
  case (3 answers t)
  then show ?case by (simp add: send_loop.simps [of data t "SendWouldBlock # answers"])
next
  case (4 answers t)
  then show ?case by simp
qed

text \<open>
  what a call of \<open>send\<close> puts on the wire is a prefix of its data, all of it when the call returns true;
  and when the connection is open, the limit allows the data and the system takes it bit by bit without
  an error, the call returns true and counts the bytes.
\<close>

theorem send_delivers:
  assumes "tc_state c = TCP_CONNECTED" "length data \<le> unat (bw_tx (bw_refill now l))"
    and "SendFailed \<notin> set answers" "length data \<le> sent_bytes answers"
    and "tcp_send now' later' answers' data' c' l' = Some (ok, d, k, wire, evs)"
  shows "tcp_send now later answers data c l = Some (True, c\<lparr>tc_bytes_sent := tc_bytes_sent c + word_of_nat (length data)\<rparr>,
      if tc_limited c then record_sent later (length data) (bw_refill now l) else l, data, []) \<and>
    (\<exists>n. wire = take n data') \<and> (if ok then wire = data' \<and> d = c'\<lparr>tc_bytes_sent := tc_bytes_sent c' + word_of_nat (length data')\<rparr> else d = c')"
proof -
  have "send_loop data 0 answers = Some (True, data)" using send_loop_ends [OF assms(3), of data 0] assms(4) by simp
  moreover have "(\<exists>n. wire = take n data') \<and> (if ok then wire = data' \<and> d = c'\<lparr>tc_bytes_sent := tc_bytes_sent c' + word_of_nat (length data')\<rparr> else d = c')"
    using assms(5) send_loop_prefix [of data' 0 answers'] 
    by (auto simp: tcp_send_def split: if_splits option.splits prod.splits bool.splits intro: exI [of _ 0] exI [of _ "length wire"])
  ultimately show ?thesis using assms(1,2) by (auto simp: tcp_send_def tcp_is_connected_def can_send_def Let_def)
qed

definition open_connection :: "nat TCPConnection" where
  "open_connection = TCPConnection_new\<lparr>tc_socket_fd := 3, tc_state := TCP_CONNECTED, tc_limited := True\<rparr>"

theorem send_delivers_witness:
  "tcp_send 0 0 [SendWouldBlock, Sent 1, Sent 2] [7, 8, 9] open_connection (BandwidthLimiter_new 0 100) =
     Some (True, open_connection\<lparr>tc_bytes_sent := 3\<rparr>, (BandwidthLimiter_new 0 100)\<lparr>bw_tx := 97\<rparr>, [7, 8, 9], [])"
  using send_delivers [where c = open_connection and data = "[7, 8, 9]" and now = 0 and later = 0 and l = "BandwidthLimiter_new 0 100"
      and answers = "[SendWouldBlock, Sent 1, Sent 2]" and now' = 0 and later' = 0 and answers' = "[Sent 1, SendFailed]" and data' = "[5, 6]"
      and c' = open_connection and l' = "BandwidthLimiter_new 0 100" and ok = False and d = open_connection
      and k = "BandwidthLimiter_new 0 100" and wire = "[5]" and evs = "[]"]
  by (simp add: open_connection_def TCPConnection_new_def BandwidthLimiter_new_def bw_refill_def record_sent_def tcp_send_def
      tcp_is_connected_def can_send_def send_loop.simps on_error_def)

section \<open>Runs of the manager\<close>

text \<open>
  The operations of the manager and of those who hold a connection that it gave them, one after the
  other; with them the number of bytes of the calls of \<open>send\<close> that returned true.
\<close>

datatype 'cb net_op =
    CreateConnection os_connect SocketAddress
  | CloseConnection string
  | CloseAllConnections
  | CleanupDead
  | SetLimit u64
  | ConnectObject nat os_connect SocketAddress
  | DisconnectObject nat
  | SetCallbacks nat 'cb 'cb 'cb 'cb
  | SendOn nat nat nat "send_answer list" bytes
  | ReceiveOn nat nat nat recv_answer nat

type_synonym 'cb net_state = "'cb ConnectionManager \<times> nat"

definition send_on :: "nat \<Rightarrow> nat \<Rightarrow> nat \<Rightarrow> send_answer list \<Rightarrow> bytes \<Rightarrow> 'cb net_state \<Rightarrow> 'cb net_state" where
  "send_on p now later answers data st =
     (let (m, sent) = st in
      case tcp_send now later answers data (cm_objects m ! p) (cm_limiter m) of
        None \<Rightarrow> st
      | Some (ok, c, l, wire, evs) \<Rightarrow>
          (m\<lparr>cm_objects := (cm_objects m)[p := c], cm_limiter := l\<rparr>, if ok then sent + length data else sent))"

definition receive_on :: "nat \<Rightarrow> nat \<Rightarrow> nat \<Rightarrow> recv_answer \<Rightarrow> nat \<Rightarrow> 'cb net_state \<Rightarrow> 'cb net_state" where
  "receive_on p now later answer max_bytes st =
     (let (m, sent) = st; (data, c, l, evs) = tcp_receive now later answer max_bytes (cm_objects m ! p) (cm_limiter m)
      in (m\<lparr>cm_objects := (cm_objects m)[p := c], cm_limiter := l\<rparr>, sent))"

definition set_callbacks :: "nat \<Rightarrow> 'cb \<Rightarrow> 'cb \<Rightarrow> 'cb \<Rightarrow> 'cb \<Rightarrow> 'cb ConnectionManager \<Rightarrow> 'cb ConnectionManager" where
  "set_callbacks p d e f g m = m\<lparr>cm_objects := (cm_objects m)[p := set_disconnected_callback g (set_connected_callback f
     (set_error_callback e (set_data_callback d (cm_objects m ! p))))]\<rparr>"

definition connect_object :: "nat \<Rightarrow> os_connect \<Rightarrow> SocketAddress \<Rightarrow> 'cb ConnectionManager \<Rightarrow> 'cb ConnectionManager" where
  "connect_object p os addr m = m\<lparr>cm_objects := (cm_objects m)[p := fst (snd (tcp_connect os addr (cm_objects m ! p)))]\<rparr>"

fun net_step :: "'cb net_state \<Rightarrow> 'cb net_op \<Rightarrow> 'cb net_state" where
  "net_step (m, sent) (CreateConnection os addr) = (fst (snd (create_connection os addr m)), sent)"
| "net_step (m, sent) (CloseConnection conn_id) = (fst (manager_close_connection conn_id m), sent)"
| "net_step (m, sent) CloseAllConnections = (fst (manager_close_all m), sent)"
| "net_step (m, sent) CleanupDead = (cleanup_dead_connections m, sent)"
| "net_step (m, sent) (SetLimit rate) = (set_global_bandwidth_limit rate m, sent)"
| "net_step (m, sent) (ConnectObject p os addr) = (if p < length (cm_objects m) then connect_object p os addr m else m, sent)"
| "net_step (m, sent) (DisconnectObject p) = (if p < length (cm_objects m) then fst (disconnect_object p m) else m, sent)"
| "net_step (m, sent) (SetCallbacks p d e f g) = (if p < length (cm_objects m) then set_callbacks p d e f g m else m, sent)"
| "net_step (m, sent) (SendOn p now later answers data) =
     (if p < length (cm_objects m) then send_on p now later answers data (m, sent) else (m, sent))"
| "net_step (m, sent) (ReceiveOn p now later answer max_bytes) =
     (if p < length (cm_objects m) then receive_on p now later answer max_bytes (m, sent) else (m, sent))"

fun reconnects :: "'cb net_op \<Rightarrow> bool" where
  "reconnects (ConnectObject p os addr) = True"
| "reconnects _ = False"

text \<open>
  The open connections are those that the manager finds under the text of their address, and only they
  have a socket.
\<close>

definition conn_id_of :: "'cb TCPConnection \<Rightarrow> string" where
  "conn_id_of c = SocketAddress_to_string (tc_remote c)"

definition object_ok :: "'cb TCPConnection \<Rightarrow> bool" where
  "object_ok c \<longleftrightarrow> tc_limited c \<and>
     (tc_state c = TCP_CONNECTED \<and> tc_socket_fd c \<noteq> INVALID_SOCKET \<or>
      tc_state c \<in> {TCP_DISCONNECTED, CONN_ERROR} \<and> tc_socket_fd c = INVALID_SOCKET)"

definition objects_inv :: "'cb ConnectionManager \<Rightarrow> bool" where
  "objects_inv m \<longleftrightarrow> list_all object_ok (cm_objects m)"

definition conns_inv :: "'cb ConnectionManager \<Rightarrow> bool" where
  "conns_inv m \<longleftrightarrow> omap_ok (cm_connections m) \<and> (\<forall>p < length (cm_objects m). object_ok (cm_objects m ! p)) \<and>
     (\<forall>i p. map_of (cm_connections m) i = Some p \<longrightarrow> p < length (cm_objects m) \<and> conn_id_of (cm_objects m ! p) = i) \<and>
     (\<forall>p < length (cm_objects m). tc_state (cm_objects m ! p) = TCP_CONNECTED \<longrightarrow>
        map_of (cm_connections m) (conn_id_of (cm_objects m ! p)) = Some p)"

lemma conns_inv_init: "conns_inv (ConnectionManager_init now)"
  by (simp add: conns_inv_def ConnectionManager_init_def)

lemma conns_inv_limiter [simp]: "conns_inv (m\<lparr>cm_limiter := l\<rparr>) = conns_inv m"
  by (simp add: conns_inv_def)

text \<open>Changing an object in a way that keeps its address and does not open it.\<close>

lemma conns_inv_update:
  assumes "conns_inv m" "p < length (cm_objects m)" "object_ok c" "tc_remote c = tc_remote (cm_objects m ! p)"
    and "tc_state c = TCP_CONNECTED \<Longrightarrow> tc_state (cm_objects m ! p) = TCP_CONNECTED"
  shows "conns_inv (m\<lparr>cm_objects := (cm_objects m)[p := c]\<rparr>)"
proof -
  have "conn_id_of c = conn_id_of (cm_objects m ! p)" using assms(4) by (simp add: conn_id_of_def)
  then show ?thesis using assms unfolding conns_inv_def by (auto simp: nth_list_update)
qed

lemma tcp_disconnect_ok:
  assumes "object_ok c"
  shows "object_ok (fst (tcp_disconnect c))" "tc_remote (fst (tcp_disconnect c)) = tc_remote c"
    "tc_state (fst (tcp_disconnect c)) = TCP_DISCONNECTED"
  using assms by (auto simp: tcp_disconnect_def object_ok_def close_socket_def Let_def)

lemma conns_inv_disconnect:
  assumes "conns_inv m" "p < length (cm_objects m)"
  shows "conns_inv (fst (disconnect_object p m))" "cm_connections (fst (disconnect_object p m)) = cm_connections m"
    "length (cm_objects (fst (disconnect_object p m))) = length (cm_objects m)"
    "tc_state (cm_objects (fst (disconnect_object p m)) ! p) = TCP_DISCONNECTED"
    "q \<noteq> p \<Longrightarrow> cm_objects (fst (disconnect_object p m)) ! q = cm_objects m ! q"
proof -
  have ok: "object_ok (cm_objects m ! p)" using assms by (simp add: conns_inv_def)
  have eq: "fst (disconnect_object p m) = m\<lparr>cm_objects := (cm_objects m)[p := fst (tcp_disconnect (cm_objects m ! p))]\<rparr>"
    by (simp add: disconnect_object_def split: prod.splits)
  show "conns_inv (fst (disconnect_object p m))"
    unfolding eq using tcp_disconnect_ok [OF ok] by (intro conns_inv_update [OF assms]) simp_all
  show "cm_connections (fst (disconnect_object p m)) = cm_connections m"
    "length (cm_objects (fst (disconnect_object p m))) = length (cm_objects m)"
    "tc_state (cm_objects (fst (disconnect_object p m)) ! p) = TCP_DISCONNECTED"
    "q \<noteq> p \<Longrightarrow> cm_objects (fst (disconnect_object p m)) ! q = cm_objects m ! q"
    using assms(2) tcp_disconnect_ok(3) [OF ok] by (simp_all add: eq)
qed

lemma conns_inv_erase:
  assumes "conns_inv m" "\<And>p. map_of (cm_connections m) i = Some p \<Longrightarrow> tc_state (cm_objects m ! p) \<noteq> TCP_CONNECTED"
  shows "conns_inv (m\<lparr>cm_connections := omap_erase i (cm_connections m)\<rparr>)"
  using assms by (auto simp: conns_inv_def)

lemma conns_inv_close:
  assumes "conns_inv m"
  shows "conns_inv (fst (manager_close_connection i m))"
proof (cases "map_of (cm_connections m) i")
  case None
  then show ?thesis using assms by (simp add: manager_close_connection_def)
next
  case (Some p)
  then have "p < length (cm_objects m)" using assms by (simp add: conns_inv_def)
  note d = conns_inv_disconnect [OF assms this]
  have "conns_inv ((fst (disconnect_object p m))\<lparr>cm_connections := omap_erase i (cm_connections (fst (disconnect_object p m)))\<rparr>)"
    by (rule conns_inv_erase [OF d(1)]) (use d(2,4) Some in simp)
  then show ?thesis using Some by (cases "disconnect_object p m") (simp add: manager_close_connection_def)
qed

definition disconnect_objects :: "(string \<times> nat) list \<Rightarrow> 'cb ConnectionManager \<times> 'cb conn_event list \<Rightarrow> 'cb ConnectionManager \<times> 'cb conn_event list" where
  "disconnect_objects = fold (\<lambda>(conn_id, p) (m, evs). let (m, new) = disconnect_object p m in (m, evs @ new))"

lemma disconnect_objects_Cons:
  "disconnect_objects ((i, p) # cs) (m, evs) = disconnect_objects cs (fst (disconnect_object p m), evs @ snd (disconnect_object p m))"
  by (simp add: disconnect_objects_def split: prod.splits)

lemma conns_inv_disconnect_objects:
  assumes "conns_inv m" "list_all (\<lambda>(i, p). p < length (cm_objects m)) cs"
  shows "conns_inv (fst (disconnect_objects cs (m, evs))) \<and>
    cm_connections (fst (disconnect_objects cs (m, evs))) = cm_connections m \<and>
    length (cm_objects (fst (disconnect_objects cs (m, evs)))) = length (cm_objects m) \<and>
    (\<forall>q < length (cm_objects m). tc_state (cm_objects (fst (disconnect_objects cs (m, evs))) ! q) = TCP_CONNECTED \<longrightarrow>
       q \<notin> snd ` set cs \<and> cm_objects (fst (disconnect_objects cs (m, evs))) ! q = cm_objects m ! q)"
  using assms
proof (induction cs arbitrary: m evs)
  case Nil
  then show ?case by (simp add: disconnect_objects_def)
next
  case (Cons x cs)
  obtain i p where x: "x = (i, p)" by (cases x)
  have p: "p < length (cm_objects m)" using Cons.prems(2) x by simp
  note d = conns_inv_disconnect [OF Cons.prems(1) p]
  have "list_all (\<lambda>(i, p). p < length (cm_objects (fst (disconnect_object p' m)))) cs"
    if "p' < length (cm_objects m)" for p' using Cons.prems conns_inv_disconnect(3) [OF Cons.prems(1) that] by simp
  note IH = Cons.IH [OF d(1) this [OF p], of "evs @ snd (disconnect_object p m)"]
  have "tc_state (cm_objects (fst (disconnect_object p m)) ! p) \<noteq> TCP_CONNECTED" using d(4) by simp
  then show ?case unfolding x disconnect_objects_Cons using IH d(2,3,5) by (metis (no_types, lifting) image_insert insert_iff list.simps(15) snd_conv)
qed

lemma conns_inv_close_all:
  assumes "conns_inv m"
  shows "conns_inv (fst (manager_close_all m))" "q < length (cm_objects m) \<Longrightarrow> tc_state (cm_objects (fst (manager_close_all m)) ! q) \<noteq> TCP_CONNECTED"
    "length (cm_objects (fst (manager_close_all m))) = length (cm_objects m)"
proof -
  let ?m = "fst (disconnect_objects (cm_connections m) (m, []))"
  have eq: "fst (manager_close_all m) = ?m\<lparr>cm_connections := []\<rparr>"
    by (simp add: manager_close_all_def disconnect_objects_def split: prod.splits)
  have mapped: "map_of (cm_connections m) i = Some p \<longleftrightarrow> (i, p) \<in> set (cm_connections m)" for i p
    using assms by (simp add: conns_inv_def omap_find_iff)
  have "list_all (\<lambda>(i, p). p < length (cm_objects m)) (cm_connections m)"
    using assms by (auto simp: conns_inv_def list_all_iff mapped)
  note d = conns_inv_disconnect_objects [OF assms this, of "[]"]
  have off: "tc_state (cm_objects ?m ! q) \<noteq> TCP_CONNECTED" if "q < length (cm_objects m)" for q
  proof
    assume c: "tc_state (cm_objects ?m ! q) = TCP_CONNECTED"
    with d that have "q \<notin> snd ` set (cm_connections m)" "tc_state (cm_objects m ! q) = TCP_CONNECTED" by auto
    then show False using assms that by (force simp: conns_inv_def mapped)
  qed
  then show "conns_inv (fst (manager_close_all m))" using d by (simp add: eq conns_inv_def)
  show "q < length (cm_objects m) \<Longrightarrow> tc_state (cm_objects (fst (manager_close_all m)) ! q) \<noteq> TCP_CONNECTED"
    "length (cm_objects (fst (manager_close_all m))) = length (cm_objects m)"
    using off d by (simp_all add: eq)
qed

lemma conns_inv_erase_all:
  assumes "conns_inv m" "\<And>i p. i \<in> set ids \<Longrightarrow> map_of (cm_connections m) i = Some p \<Longrightarrow> tc_state (cm_objects m ! p) \<noteq> TCP_CONNECTED"
  shows "conns_inv (m\<lparr>cm_connections := fold omap_erase ids (cm_connections m)\<rparr>)"
  using assms
proof (induction ids arbitrary: m)
  case Nil
  then show ?case by simp
next
  case (Cons i ids)
  let ?m = "m\<lparr>cm_connections := omap_erase i (cm_connections m)\<rparr>"
  have "conns_inv ?m" using Cons.prems by (intro conns_inv_erase) auto
  moreover have "tc_state (cm_objects ?m ! p) \<noteq> TCP_CONNECTED" if "j \<in> set ids" "map_of (cm_connections ?m) j = Some p" for j p
    using Cons.prems(2) [of j p] that by (simp split: if_splits)
  ultimately have "conns_inv (?m\<lparr>cm_connections := fold omap_erase ids (cm_connections ?m)\<rparr>)" by (rule Cons.IH)
  then show ?case by simp
qed

lemma conns_inv_cleanup:
  assumes "conns_inv m"
  shows "conns_inv (cleanup_dead_connections m)"
proof -
  have mapped: "map_of (cm_connections m) i = Some p \<longleftrightarrow> (i, p) \<in> set (cm_connections m)" for i p
    using assms by (simp add: conns_inv_def omap_find_iff)
  have one: "p' = p" if "(i, p) \<in> set (cm_connections m)" "(i, p') \<in> set (cm_connections m)" for i p p'
    using that mapped [of i p] mapped [of i p'] by simp
  show ?thesis unfolding cleanup_dead_connections_def Let_def
    by (rule conns_inv_erase_all [OF assms]) (auto simp: tcp_is_connected_def mapped dest: one)
qed

lemma tcp_connect_ok:
  assumes "tcp_connect os addr (set_bandwidth_limiter TCPConnection_new) = (True, c, evs)"
  shows "object_ok c" "tc_remote c = addr" "tc_state c = TCP_CONNECTED"
  using assms by (auto simp: tcp_connect_def set_bandwidth_limiter_def TCPConnection_new_def create_socket_def object_ok_def close_socket_def
      Let_def split: if_splits option.splits)

lemma conns_inv_create:
  fixes m :: "'cb ConnectionManager"
  assumes "conns_inv m"
  shows "conns_inv (fst (snd (create_connection os addr m)))"
proof (cases "map_of (cm_connections m) (SocketAddress_to_string addr)")
  case (Some p)
  then show ?thesis using assms by (simp add: create_connection_def generate_connection_id_def)
next
  case None
  obtain ok and c :: "'cb TCPConnection" and evs where c: "tcp_connect os addr (set_bandwidth_limiter TCPConnection_new) = (ok, c, evs)"
    using prod_cases3 by blast
  show ?thesis
  proof (cases ok)
    case False
    then show ?thesis using None c assms by (simp add: create_connection_def generate_connection_id_def)
  next
    case True
    note ok = tcp_connect_ok [OF c [unfolded True [THEN eqTrueI]]]
    have id: "conn_id_of c = SocketAddress_to_string addr" using ok by (simp add: conn_id_of_def)
    let ?k = "SocketAddress_to_string addr" and ?n = "length (cm_objects m)"
    have old: "map_of (cm_connections m) i = Some p \<Longrightarrow> i \<noteq> ?k \<and> p < ?n \<and> conn_id_of (cm_objects m ! p) = i" for i p
      using assms None by (auto simp: conns_inv_def)
    have open_old: "p < ?n \<Longrightarrow> tc_state (cm_objects m ! p) = TCP_CONNECTED \<Longrightarrow>
        map_of (cm_connections m) (conn_id_of (cm_objects m ! p)) = Some p \<and> conn_id_of (cm_objects m ! p) \<noteq> ?k" for p
      using assms old unfolding conns_inv_def by blast
    have "conns_inv (m\<lparr>cm_objects := cm_objects m @ [c], cm_connections := omap_set ?k ?n (cm_connections m)\<rparr>)"
      unfolding conns_inv_def
    proof (intro conjI allI impI)
      show "omap_ok (cm_connections (m\<lparr>cm_objects := cm_objects m @ [c], cm_connections := omap_set ?k ?n (cm_connections m)\<rparr>))"
        using assms by (simp add: conns_inv_def)
    qed (use assms ok(1) id old open_old in \<open>auto simp: conns_inv_def nth_append split: if_splits intro: less_SucI\<close>)
    then show ?thesis using None c True by (simp add: create_connection_def generate_connection_id_def)
  qed
qed

lemma tcp_send_same:
  "tcp_send now later answers data c l = Some (ok, c', l', wire, evs) \<Longrightarrow>
     tc_state c' = tc_state c \<and> tc_remote c' = tc_remote c \<and> object_ok c' = object_ok c"
  by (auto simp: tcp_send_def object_ok_def split: if_splits option.splits prod.splits bool.splits)

lemma tcp_receive_same:
  "tcp_receive now later answer max_bytes c l = (data, c', l', evs) \<Longrightarrow>
     tc_state c' = tc_state c \<and> tc_remote c' = tc_remote c \<and> object_ok c' = object_ok c"
  by (auto simp: tcp_receive_def object_ok_def split: if_splits recv_answer.splits list.splits prod.splits)

lemma conns_inv_object: "conns_inv m \<Longrightarrow> p < length (cm_objects m) \<Longrightarrow> object_ok (cm_objects m ! p)"
  by (simp add: conns_inv_def)

lemma conns_inv_traffic:
  assumes "conns_inv m" "p < length (cm_objects m)"
    and "tc_state c = tc_state (cm_objects m ! p) \<and> tc_remote c = tc_remote (cm_objects m ! p) \<and> object_ok c = object_ok (cm_objects m ! p)"
  shows "conns_inv (m\<lparr>cm_objects := (cm_objects m)[p := c]\<rparr>)"
  using conns_inv_update [OF assms(1,2), of c] conns_inv_object [OF assms(1,2)] assms(3) by simp

lemma conns_inv_step:
  assumes "conns_inv (fst st)" "\<not> reconnects x"
  shows "conns_inv (fst (net_step st x))"
proof -
  obtain m sent where st: "st = (m, sent)" by (cases st)
  have inv: "conns_inv m" using assms(1) st by simp
  show ?thesis
  proof (cases x)
    case (SendOn p now later answers data)
    then show ?thesis using inv st tcp_send_same [of now later answers data "cm_objects m ! p" "cm_limiter m"]
      by (auto simp: send_on_def split: option.splits intro!: conns_inv_traffic)
  next
    case (ReceiveOn p now later answer max_bytes)
    then show ?thesis using inv st tcp_receive_same [of now later answer max_bytes "cm_objects m ! p" "cm_limiter m"]
      by (auto simp: receive_on_def split: prod.splits intro!: conns_inv_traffic)
  next
    case (SetCallbacks p d e f g)
    then show ?thesis using inv st conns_inv_object [OF inv, of p]
      by (auto simp: set_callbacks_def set_data_callback_def set_error_callback_def set_connected_callback_def set_disconnected_callback_def
          object_ok_def intro!: conns_inv_update)
  qed (use inv st assms(2) in \<open>simp_all add: conns_inv_create conns_inv_close conns_inv_close_all conns_inv_cleanup conns_inv_disconnect
      set_global_bandwidth_limit_def\<close>)
qed

text \<open>What holds of each object holds in every run, reconnections included.\<close>

lemma object_ok_connect:
  "object_ok c \<Longrightarrow> object_ok (fst (snd (tcp_connect os addr c)))"
  by (auto simp: tcp_connect_def create_socket_def object_ok_def close_socket_def Let_def split: option.splits)

lemma list_all_update: "list_all P xs \<Longrightarrow> (p < length xs \<Longrightarrow> P c) \<Longrightarrow> list_all P (xs[p := c])"
  by (cases "p < length xs") (auto simp: list_all_length nth_list_update)

lemma objects_inv_disconnect:
  assumes "objects_inv m"
  shows "objects_inv (fst (disconnect_object p m))"
proof -
  have "fst (disconnect_object p m) = m\<lparr>cm_objects := (cm_objects m)[p := fst (tcp_disconnect (cm_objects m ! p))]\<rparr>"
    by (simp add: disconnect_object_def split: prod.splits)
  moreover have "list_all object_ok ((cm_objects m)[p := fst (tcp_disconnect (cm_objects m ! p))])"
    by (rule list_all_update) (use assms in \<open>simp_all add: objects_inv_def list_all_length tcp_disconnect_ok(1)\<close>)
  ultimately show ?thesis by (simp add: objects_inv_def)
qed

lemma objects_inv_disconnect_all: "objects_inv m \<Longrightarrow> objects_inv (fst (disconnect_objects cs (m, evs)))"
proof (induction cs arbitrary: m evs)
  case (Cons x cs)
  then show ?case by (cases x) (simp add: disconnect_objects_Cons objects_inv_disconnect)
qed (simp add: disconnect_objects_def)

lemma objects_inv_create: "objects_inv m \<Longrightarrow> objects_inv (fst (snd (create_connection os addr m)))"
  using tcp_connect_ok(1) [of os addr]
  by (auto simp: objects_inv_def create_connection_def Let_def split: option.splits prod.splits)

lemma objects_inv_simps:
  "objects_inv m \<Longrightarrow> objects_inv (fst (manager_close_connection i m))"
  "objects_inv m \<Longrightarrow> objects_inv (fst (manager_close_all m))"
  "objects_inv (cleanup_dead_connections m) = objects_inv m"
  "objects_inv (set_global_bandwidth_limit rate m) = objects_inv m"
  "objects_inv m \<Longrightarrow> p < length (cm_objects m) \<Longrightarrow> objects_inv (connect_object p os addr m)"
  "objects_inv m \<Longrightarrow> p < length (cm_objects m) \<Longrightarrow> objects_inv (set_callbacks p d e f g m)"
proof -
  assume inv: "objects_inv m"
  from objects_inv_disconnect [OF inv] show "objects_inv (fst (manager_close_connection i m))"
    using inv by (auto simp: manager_close_connection_def objects_inv_def case_prod_beta Let_def split: option.splits)
  from objects_inv_disconnect_all [OF inv, of "cm_connections m" "[]"] show "objects_inv (fst (manager_close_all m))"
    by (auto simp: manager_close_all_def disconnect_objects_def objects_inv_def split: prod.splits)
  assume "p < length (cm_objects m)"
  with inv have "object_ok (cm_objects m ! p)" by (simp add: objects_inv_def list_all_length)
  with inv show "objects_inv (connect_object p os addr m)" "objects_inv (set_callbacks p d e f g m)"
    by (auto simp: objects_inv_def connect_object_def set_callbacks_def object_ok_connect set_data_callback_def
        set_error_callback_def set_connected_callback_def set_disconnected_callback_def intro!: list_all_update)
      (simp add: object_ok_def)
qed (simp_all add: objects_inv_def cleanup_dead_connections_def set_global_bandwidth_limit_def Let_def)

lemma objects_inv_step:
  assumes "objects_inv (fst st)"
  shows "objects_inv (fst (net_step st x))"
proof -
  obtain m sent where st: "st = (m, sent)" by (cases st)
  have inv: "objects_inv m" using assms st by simp
  have ok: "p < length (cm_objects m) \<Longrightarrow> object_ok (cm_objects m ! p)" for p
    using inv by (simp add: objects_inv_def list_all_length)
  show ?thesis
  proof (cases x)
    case (SendOn p now later answers data)
    then show ?thesis using inv st ok [of p] tcp_send_same [of now later answers data "cm_objects m ! p" "cm_limiter m"]
      by (auto simp: send_on_def objects_inv_def split: option.splits intro!: list_all_update)
  next
    case (ReceiveOn p now later answer max_bytes)
    then show ?thesis using inv st ok [of p] tcp_receive_same [of now later answer max_bytes "cm_objects m ! p" "cm_limiter m"]
      by (auto simp: receive_on_def objects_inv_def split: prod.splits intro!: list_all_update)
  qed (use inv st in \<open>simp_all add: objects_inv_create objects_inv_simps objects_inv_disconnect\<close>)
qed

interpretation conn_machine: invariant_machine net_step "\<lambda>st. objects_inv (fst st)"
  by unfold_locales (rule objects_inv_step)

lemma objects_inv_init [simp]: "objects_inv (ConnectionManager_init now)"
  by (simp add: objects_inv_def ConnectionManager_init_def)

lemma conns_inv_run:
  assumes "list_all (\<lambda>x. \<not> reconnects x) ops"
  shows "conns_inv (fst (foldl net_step (ConnectionManager_init now, 0) ops))"
proof -
  have "conns_inv (fst st) \<Longrightarrow> conns_inv (fst (foldl net_step st ops))" for st :: "'a net_state"
    using assms by (induction ops arbitrary: st) (simp_all add: conns_inv_step)
  then show ?thesis by (simp add: conns_inv_init)
qed

lemma close_all_no_socket:
  assumes "conns_inv m" "c \<in> set (cm_objects (fst (manager_close_all m)))"
  shows "tc_socket_fd c = INVALID_SOCKET"
proof -
  note all = conns_inv_close_all [OF assms(1)]
  from assms(2) obtain q where "q < length (cm_objects (fst (manager_close_all m)))" "c = cm_objects (fst (manager_close_all m)) ! q"
    unfolding in_set_conv_nth by blast
  then have q: "q < length (cm_objects m)" "c = cm_objects (fst (manager_close_all m)) ! q" using all(3) by simp_all
  then have "object_ok c" using conns_inv_object [OF all(1)] all(3) by simp
  moreover have "tc_state c \<noteq> TCP_CONNECTED" using all(2) q by simp
  ultimately show ?thesis by (auto simp: object_ok_def)
qed

text \<open>
  C28: in every run of the manager and of the holders of its connections (who connect, disconnect, set the
  callbacks of, send on and receive on the objects they were given), exactly the open connections have a
  socket. If in the run no holder calls \<open>connect\<close> itself on a connection that it was given, then also
  at most one connection is open to an address, the manager finds it under the text of that address, and
  closing all connections leaves no socket open.
\<close>

theorem one_socket_per_address:
  fixes now :: nat and ops :: "'cb net_op list"
  defines "m \<equiv> fst (foldl net_step (ConnectionManager_init now, 0) ops) :: 'cb ConnectionManager"
  shows "list_all (\<lambda>c. (tc_socket_fd c \<noteq> INVALID_SOCKET) = tcp_is_connected c) (cm_objects m) \<and>
    (list_all (\<lambda>x. \<not> reconnects x) ops \<longrightarrow>
      list_all (\<lambda>p. if tcp_is_connected (cm_objects m ! p)
         then manager_get_connection m (generate_connection_id (tc_remote (cm_objects m ! p))) = Some p else True) [0..<length (cm_objects m)] \<and>
      list_all (\<lambda>c. tc_socket_fd c = INVALID_SOCKET) (cm_objects (fst (manager_close_all m))))"
proof (intro conjI impI)
  have "objects_inv m" unfolding m_def by (rule conn_machine.run_inv) simp
  then show "list_all (\<lambda>c. (tc_socket_fd c \<noteq> INVALID_SOCKET) = tcp_is_connected c) (cm_objects m)"
    by (auto simp: objects_inv_def object_ok_def tcp_is_connected_def list_all_iff)
  assume "list_all (\<lambda>x. \<not> reconnects x) ops"
  then have inv: "conns_inv m" unfolding m_def by (rule conns_inv_run)
  show "list_all (\<lambda>c. tc_socket_fd c = INVALID_SOCKET) (cm_objects (fst (manager_close_all m)))"
    using close_all_no_socket [OF inv] by (simp add: list_all_iff)
  show "list_all (\<lambda>p. if tcp_is_connected (cm_objects m ! p)
      then manager_get_connection m (generate_connection_id (tc_remote (cm_objects m ! p))) = Some p else True) [0..<length (cm_objects m)]"
    using inv
    by (auto simp: list_all_iff conns_inv_def tcp_is_connected_def manager_get_connection_def generate_connection_id_def conn_id_of_def)
qed

definition peer_a :: SocketAddress where "peer_a = \<lparr>sa_host = ''a'', sa_port = 1, sa_family = IPv4\<rparr>"
definition peer_b :: SocketAddress where "peer_b = \<lparr>sa_host = ''b'', sa_port = 2, sa_family = IPv4\<rparr>"

definition answers_with :: "int \<Rightarrow> os_connect" where
  "answers_with fd = \<lparr>oc_socket = fd, oc_resolve = Some [True], oc_name = None, oc_now = 0\<rparr>"

definition two_links :: "nat net_op list" where
  "two_links = [CreateConnection (answers_with 3) peer_a, CreateConnection (answers_with 4) peer_b, DisconnectObject 0]"

theorem one_socket_per_address_witness:
  "let m = fst (foldl net_step (ConnectionManager_init 0, 0) two_links)
   in manager_get_connection m ''b:2'' = Some 1 \<and> tcp_is_connected (cm_objects m ! 1) \<and>
      list_all (\<lambda>c. tc_socket_fd c = INVALID_SOCKET) (cm_objects (fst (manager_close_all m)))"
proof -
  let ?m = "fst (foldl net_step (ConnectionManager_init 0, 0) two_links)"
  have facts: "length (cm_objects ?m) = 2" "tcp_is_connected (cm_objects ?m ! 1)"
    "generate_connection_id (tc_remote (cm_objects ?m ! 1)) = ''b:2''" "list_all (\<lambda>x. \<not> reconnects x) two_links"
    by code_simp+
  have "1 \<in> set [0..<length (cm_objects ?m)]" by (simp add: facts(1))
  with one_socket_per_address [of 0 two_links] facts(2-4) show ?thesis
    unfolding list_all_iff Let_def by (metis (no_types, lifting))
qed

text \<open>
  A holder that connects its object to another address leaves two open connections to that address, one
  of them filed under the address it had before.
\<close>

theorem reconnecting_breaks_registry:
  "let m = fst (foldl net_step (ConnectionManager_init 0, 0) (two_links @ [ConnectObject 0 (answers_with 5) peer_b]))
   in list_all (\<lambda>c. tcp_is_connected c \<and> generate_connection_id (tc_remote c) = ''b:2'') (cm_objects m) \<and>
      length (cm_objects m) = 2 \<and> manager_get_connection m ''a:1'' = Some 0"
  by code_simp

section \<open>The bandwidth limit\<close>

definition bw_ok :: "nat \<Rightarrow> nat \<Rightarrow> nat \<Rightarrow> BandwidthLimiter \<Rightarrow> bool" where
  "bw_ok t0 now sent l \<longleftrightarrow> bw_rate l = 10485760 \<and> bw_tx l \<le> 10485760 \<and> t0 \<le> bw_last_update l \<and> bw_last_update l \<le> now \<and>
     1000000000 * (sent + unat (bw_tx l)) \<le> 10485760 * (1000000000 + (bw_last_update l - t0))"

lemma unat_add_leq: "unat (x + y :: u64) \<le> unat x + unat y"
  by (simp add: unat_word_ariths)

lemma bw_refill_ok:
  assumes "bw_ok t0 now sent l" "now \<le> later" "later - t0 \<le> 2 ^ 31 * 1000000"
  shows "bw_ok t0 later sent (bw_refill later l) \<and> bw_tx l \<le> bw_tx (bw_refill later l)"
proof (cases "(later - bw_last_update l) div 1000000 > 0")
  case False
  then show ?thesis using assms by (auto simp: bw_ok_def bw_refill_def Let_def)
next
  case True
  define e where "e = (later - bw_last_update l) div 1000000"
  have e: "e \<le> 2 ^ 31" "e * 1000000 \<le> later - bw_last_update l"
    using assms by (auto simp: e_def bw_ok_def less_mult_imp_div_less [THEN less_imp_le] intro: div_le_mono [of _ "2 ^ 31 * 1000000" 1000000, simplified])
  have "unat (10485760 * word_of_nat e :: u64) = 10485760 * e"
    using e(1) by (simp add: unat_word_ariths unat_of_nat take_bit_nat_eq_self)
  then have tok: "unat ((10485760 * word_of_nat e :: u64) div 1000) = 10485760 * e div 1000" by (simp add: unat_div)
  have "unat (min (bw_tx l + (10485760 * word_of_nat e) div 1000) 10485760) \<le> unat (bw_tx l + (10485760 * word_of_nat e :: u64) div 1000)"
    by (simp add: min_def word_le_nat_alt)
  also have "\<dots> \<le> unat (bw_tx l) + 10485760 * e div 1000" using unat_add_leq [of "bw_tx l" "(10485760 * word_of_nat e :: u64) div 1000"] tok by simp
  finally have "1000000000 * (sent + unat (min (bw_tx l + (10485760 * word_of_nat e) div 1000) 10485760))
      \<le> 1000000000 * (sent + unat (bw_tx l)) + 10485760 * (e * 1000000)"
    by (auto simp: algebra_simps)
  also have "\<dots> \<le> 10485760 * (1000000000 + (later - t0))" using assms e(2) by (auto simp: bw_ok_def)
  finally have "1000000000 * (sent + unat (min (bw_tx l + (10485760 * word_of_nat e) div 1000) 10485760)) \<le> 10485760 * (1000000000 + (later - t0))" .
  moreover have base: "t0 \<le> later" "bw_rate l = 10485760" "bw_tx l \<le> 10485760" using assms by (auto simp: bw_ok_def)
  moreover have "bw_tx l \<le> bw_tx l + (10485760 * word_of_nat e) div 1000"
  proof -
    have "10485760 * e div 1000 < 2 ^ 63" using e(1) by (auto intro!: div_less_dividend [THEN less_trans] le_less_trans [OF div_le_dividend])
    moreover have "unat (bw_tx l) < 2 ^ 63" using base(3) by (simp add: word_le_nat_alt)
    ultimately have "unat (bw_tx l + (10485760 * word_of_nat e) div 1000) = unat (bw_tx l) + 10485760 * e div 1000"
      using tok by (subst unat_add_lem [THEN iffD1]) simp_all
    then show ?thesis by (simp add: word_le_nat_alt)
  qed
  ultimately show ?thesis using True by (simp only: bw_ok_def bw_refill_def Let_def e_def [symmetric] if_True) simp
qed

lemma can_send_ok:
  assumes "bw_ok t0 now sent l" "now \<le> t" "t \<le> later" "later - t0 \<le> 2 ^ 31 * 1000000" "can_send t n l = (True, k)"
  shows "bw_ok t0 later (sent + n) (record_sent later n k)"
proof -
  have t: "t - t0 \<le> 2 ^ 31 * 1000000" using assms(3,4) by simp
  have k: "k = bw_refill t l" "n \<le> unat (bw_tx k)" using assms(5) by (auto simp: can_send_def Let_def)
  have "bw_ok t0 t sent k" unfolding k(1) using bw_refill_ok [OF assms(1,2) t] by blast
  then have r: "bw_ok t0 later sent (bw_refill later k)" "unat (bw_tx k) \<le> unat (bw_tx (bw_refill later k))"
    using bw_refill_ok [OF _ assms(3,4)] by (simp_all add: word_le_nat_alt)
  moreover have "unat (bw_tx (bw_refill later k) - word_of_nat n) = unat (bw_tx (bw_refill later k)) - n"
    using k(2) r(2) unsigned_less [of "bw_tx (bw_refill later k)", where ?'a = nat]
    by (subst unat_sub) (auto simp: word_le_nat_alt unat_of_nat take_bit_nat_eq_self)
  ultimately show ?thesis using r k(2) by (auto simp: bw_ok_def record_sent_def Let_def word_le_nat_alt)
qed

lemma bw_ok_rx [simp]: "bw_ok t0 now sent (l\<lparr>bw_rx := v\<rparr>) = bw_ok t0 now sent l"
  by (simp add: bw_ok_def)

lemma bw_ok_later: "bw_ok t0 now sent l \<Longrightarrow> now \<le> later \<Longrightarrow> bw_ok t0 later sent l"
  by (auto simp: bw_ok_def)

lemma tcp_send_limit:
  assumes "bw_ok t0 now sent l" "now \<le> t" "t \<le> later" "later - t0 \<le> 2 ^ 31 * 1000000" "tc_limited c"
    and "tcp_send t later answers data c l = Some (ok, c', l', wire, evs)"
  shows "bw_ok t0 later (if ok then sent + length data else sent) l'"
proof -
  have r: "bw_ok t0 later sent (bw_refill t l)"
    using bw_refill_ok [OF assms(1,2)] assms(3,4) bw_ok_later by (meson diff_le_mono le_trans)
  obtain b k where k: "can_send t (length data) l = (b, k)" by fastforce
  then have eq: "k = bw_refill t l" by (auto simp: can_send_def Let_def)
  have "bw_ok t0 later sent l" by (rule bw_ok_later [OF assms(1)]) (use assms(2,3) in simp)
  then show ?thesis
    using assms(5,6) k r can_send_ok [OF assms(1-4), of "length data" k] unfolding eq
    by (auto simp: tcp_send_def split: if_splits option.splits prod.splits bool.splits)
qed

lemma tcp_receive_limit:
  assumes "bw_ok t0 now sent l" "now \<le> t" "t \<le> later" "later - t0 \<le> 2 ^ 31 * 1000000"
    and "tcp_receive t later answer max_bytes c l = (data, c', l', evs)"
  shows "bw_ok t0 later sent l'"
proof -
  have t: "t - t0 \<le> 2 ^ 31 * 1000000" using assms(3,4) by simp
  have r: "bw_ok t0 t sent (bw_refill t l)" "bw_ok t0 later sent (bw_refill t l)"
    using bw_refill_ok [OF assms(1,2) t] bw_ok_later assms(3) by blast+
  have "bw_ok t0 later sent (bw_refill later (bw_refill t l))" "bw_ok t0 later sent (bw_refill later l)"
    using bw_refill_ok [OF r(1) assms(3,4)] bw_refill_ok [OF assms(1) _ assms(4)] assms(2,3) by auto
  moreover have "bw_ok t0 later sent l" by (rule bw_ok_later [OF assms(1)]) (use assms(2,3) in simp)
  ultimately show ?thesis using assms(5) r(2)
    by (auto simp: tcp_receive_def can_receive_def record_received_def Let_def split: if_splits recv_answer.splits list.splits)
qed

fun net_times :: "'cb net_op \<Rightarrow> nat list" where
  "net_times (SendOn p now later answers data) = [now, later]"
| "net_times (ReceiveOn p now later answer max_bytes) = [now, later]"
| "net_times _ = []"

fun keeps_limit :: "'cb net_op \<Rightarrow> bool" where
  "keeps_limit (SetLimit rate) = False"
| "keeps_limit _ = True"

lemma limiter_untouched [simp]:
  "cm_limiter (fst (snd (create_connection os addr m))) = cm_limiter m"
  "cm_limiter (fst (manager_close_connection i m)) = cm_limiter m" "cm_limiter (fst (disconnect_object p m)) = cm_limiter m"
  "cm_limiter (cleanup_dead_connections m) = cm_limiter m" "cm_limiter (set_callbacks p d e f g m) = cm_limiter m"
  "cm_limiter (connect_object p os addr m) = cm_limiter m"
  by (simp_all add: connect_object_def create_connection_def manager_close_connection_def disconnect_object_def cleanup_dead_connections_def set_callbacks_def
      Let_def split: option.splits prod.splits)

lemma limiter_disconnect_objects: "cm_limiter (fst (disconnect_objects cs (m, evs))) = cm_limiter m"
proof (induction cs arbitrary: m evs)
  case Nil
  then show ?case by (simp add: disconnect_objects_def)
next
  case (Cons x cs)
  then show ?case by (cases x) (simp add: disconnect_objects_Cons)
qed

lemma limiter_close_all [simp]: "cm_limiter (fst (manager_close_all m)) = cm_limiter m"
  using limiter_disconnect_objects [of "cm_connections m" m "[]"]
  by (auto simp: manager_close_all_def disconnect_objects_def split: prod.splits)

lemma net_limit_step:
  assumes "objects_inv m" "bw_ok t0 now sent (cm_limiter m)" "keeps_limit x" "sorted (now # net_times x)" "list_all (\<lambda>t. t - t0 \<le> 2 ^ 31 * 1000000) (net_times x)"
  shows "bw_ok t0 (last (now # net_times x)) (snd (net_step (m, sent) x)) (cm_limiter (fst (net_step (m, sent) x)))"
proof (cases x)
  case (SendOn p t later answers data)
  then have t: "now \<le> t" "t \<le> later" "later - t0 \<le> 2 ^ 31 * 1000000" using assms(4,5) by simp_all
  have same: "bw_ok t0 later sent (cm_limiter m)" using bw_ok_later [OF assms(2)] t by simp
  show ?thesis
  proof (cases "p < length (cm_objects m)")
    case True
    then have lim: "tc_limited (cm_objects m ! p)" using assms(1) by (simp add: objects_inv_def object_ok_def list_all_length)
    show ?thesis
    proof (cases "tcp_send t later answers data (cm_objects m ! p) (cm_limiter m)")
      case None
      then show ?thesis using SendOn same True by (simp add: send_on_def)
    next
      case (Some r)
      obtain ok c' l' wire evs where r: "r = (ok, c', l', wire, evs)" by (cases r)
      show ?thesis using tcp_send_limit [OF assms(2) t lim Some [unfolded r]] SendOn Some r True by (simp add: send_on_def)
    qed
  next
    case False
    then show ?thesis using SendOn same by simp
  qed
next
  case (ReceiveOn p t later answer max_bytes)
  then have t: "now \<le> t" "t \<le> later" "later - t0 \<le> 2 ^ 31 * 1000000" using assms(4,5) by simp_all
  have "bw_ok t0 later sent (cm_limiter m)" using bw_ok_later [OF assms(2)] t by simp
  with tcp_receive_limit [OF assms(2) t] show ?thesis using ReceiveOn by (auto simp: receive_on_def split: prod.splits)
qed (use assms in simp_all)

lemma net_limit_run:
  assumes "objects_inv m" "bw_ok t0 now sent (cm_limiter m)" "list_all keeps_limit ops" "sorted (now # concat (map net_times ops) @ [t1])"
    and "t1 - t0 \<le> 2 ^ 31 * 1000000"
  shows "\<exists>t \<le> t1. bw_ok t0 t (snd (foldl net_step (m, sent) ops)) (cm_limiter (fst (foldl net_step (m, sent) ops)))"
  using assms(1-4)
proof (induction ops arbitrary: m now sent)
  case Nil
  then show ?case by auto
next
  case (Cons x ops)
  have le: "\<forall>t \<in> set (net_times x). t \<le> t1" using Cons.prems(4) by (auto simp: sorted_append)
  have s: "sorted (now # net_times x)" "sorted (last (now # net_times x) # concat (map net_times ops) @ [t1])"
    using Cons.prems(4) last_in_set [of "now # net_times x"] by (auto simp: sorted_append split: if_splits)
  have "list_all (\<lambda>t. t - t0 \<le> 2 ^ 31 * 1000000) (net_times x)" using le assms(5) by (fastforce simp: list_all_iff)
  from net_limit_step [OF Cons.prems(1,2) _ s(1) this] Cons.prems(3)
  have ok: "bw_ok t0 (last (now # net_times x)) (snd (net_step (m, sent) x)) (cm_limiter (fst (net_step (m, sent) x)))" by simp
  have "objects_inv (fst (net_step (m, sent) x))" using objects_inv_step [of "(m, sent)" x] Cons.prems(1) by simp
  from Cons.IH [OF this ok _ s(2)] Cons.prems(3) show ?case by simp
qed

text \<open>
  however the connections of a manager are used, the calls of \<open>send\<close> that return true hand over at most
  ten megabytes and ten megabytes for every second since the manager was created, as long as the limit is
  not changed and less than \<open>2\<^sup>31\<close> milliseconds have passed.
\<close>

theorem bandwidth_bounded:
  assumes "sorted (t0 # concat (map net_times ops) @ [t1])" "list_all keeps_limit ops" "t1 - t0 \<le> 2 ^ 31 * 1000000"
  shows "1000000000 * snd (foldl net_step (ConnectionManager_init t0, 0) ops) \<le> 10 * 1024 * 1024 * (1000000000 + (t1 - t0))"
proof -
  have "bw_ok t0 t0 0 (cm_limiter (ConnectionManager_init t0 :: 'a ConnectionManager))"
    by (simp add: bw_ok_def ConnectionManager_init_def BandwidthLimiter_new_def)
  then obtain t where "t \<le> t1" "bw_ok t0 t (snd (foldl net_step (ConnectionManager_init t0 :: 'a ConnectionManager, 0) ops))
      (cm_limiter (fst (foldl net_step (ConnectionManager_init t0, 0) ops)))"
    using net_limit_run [OF objects_inv_init _ assms(2,1,3)] by blast
  then show ?thesis by (auto simp: bw_ok_def)
qed

theorem bandwidth_bounded_witness:
  "1000000000 * snd (foldl net_step (ConnectionManager_init 0 :: nat ConnectionManager, 0)
      [CreateConnection \<lparr>oc_socket = 3, oc_resolve = Some [True], oc_name = None, oc_now = 0\<rparr> \<lparr>sa_host = ''a'', sa_port = 1, sa_family = IPv4\<rparr>,
       SendOn 0 5 6 [Sent 2] [1, 2]]) \<le> 10 * 1024 * 1024 * (1000000000 + (7 - 0))"
  by (rule bandwidth_bounded) simp_all

text \<open>
  A limit below one kilobyte per second is starved by a caller that tries every millisecond: nothing is ever
  refilled, since every attempt moves the time of the last refill.
\<close>

theorem slow_limit_starves:
  assumes "unat (bw_rate l) < 1000" "bw_tx l = 0" "bw_last_update l = t"
  shows "bw_tx (fold (\<lambda>k. bw_refill (t + k * 1000000)) [1..<n] l) = 0"
proof -
  have "bw_tx (fold (\<lambda>k. bw_refill (t + k * 1000000)) [1..<Suc n] l) = 0 \<and> bw_last_update (fold (\<lambda>k. bw_refill (t + k * 1000000)) [1..<Suc n] l) = t + n * 1000000 \<and>
     bw_rate (fold (\<lambda>k. bw_refill (t + k * 1000000)) [1..<Suc n] l) = bw_rate l" for n
  proof (induction n)
    case 0
    then show ?case using assms by simp
  next
    case (Suc n)
    let ?l = "fold (\<lambda>k. bw_refill (t + k * 1000000)) [1..<Suc n] l"
    have "(t + Suc n * 1000000 - bw_last_update ?l) div 1000000 = 1" using Suc by simp
    moreover have "bw_rate l div 1000 = 0" using assms(1) by (simp add: word_arith_nat_div)
    ultimately have "bw_tx (bw_refill (t + Suc n * 1000000) ?l) = 0 \<and> bw_last_update (bw_refill (t + Suc n * 1000000) ?l) = t + Suc n * 1000000 \<and>
        bw_rate (bw_refill (t + Suc n * 1000000) ?l) = bw_rate l"
      using Suc unfolding bw_refill_def Let_def by simp
    then show ?case by (simp add: upt_Suc_append)
  qed
  from this [of "n - 1"] show ?thesis using assms by (cases n) simp_all
qed

text \<open>After the limit is lowered, the reported use wraps around.\<close>

theorem reported_use_wraps: "get_bytes_sent_per_second (set_limit 1 (BandwidthLimiter_new 0 10)) = 2 ^ 64 - 9"
  by (simp add: get_bytes_sent_per_second_def set_limit_def BandwidthLimiter_new_def)

text \<open>
  A connection that the peer has closed counts as connected for ever: it survives the cleanup, and the manager
  hands it out again for the same address.
\<close>

theorem closed_connection_kept:
  fixes now later n sent :: nat
  assumes "conns_inv m" "map_of (cm_connections m) (SocketAddress_to_string addr) = Some p" "tc_state (cm_objects m ! p) = TCP_CONNECTED"
  defines "m' \<equiv> cleanup_dead_connections (fst (receive_on p now later (Received []) n (m, sent)))"
  shows "fst (create_connection os addr m') = Some p"
proof -
  let ?m = "fst (receive_on p now later (Received []) n (m, sent))"
  have p: "p < length (cm_objects m)" using assms(1,2) by (simp add: conns_inv_def)
  have conns: "cm_connections ?m = cm_connections m" by (simp add: receive_on_def split: prod.splits)
  have "tc_state (cm_objects ?m ! p) = TCP_CONNECTED"
    using p assms(3) by (auto simp: receive_on_def tcp_receive_def split: prod.splits)
  moreover have "q = p" if "(SocketAddress_to_string addr, q) \<in> set (cm_connections m)" for q
    using that assms(1,2) omap_find_iff [of "cm_connections m" "SocketAddress_to_string addr" q] by (simp add: conns_inv_def)
  ultimately have "(SocketAddress_to_string addr) \<notin> fst ` set (filter (\<lambda>(i, p). \<not> tcp_is_connected (cm_objects ?m ! p)) (cm_connections m))"
    by (auto simp: tcp_is_connected_def)
  moreover have "map_of (fold omap_erase ks c) k = (if k \<in> set ks then None else map_of c k)" for ks k and c :: "(string \<times> nat) list"
    by (induction ks arbitrary: c) auto
  ultimately have "map_of (cm_connections m') (SocketAddress_to_string addr) = Some p"
    using assms(2) by (simp add: m'_def cleanup_dead_connections_def conns)
  then show ?thesis by (simp add: create_connection_def generate_connection_id_def)
qed

end
