(* ===== verification/Activity_Monitor.thy ===== *)
theory Activity_Monitor
  imports Postake Connections
begin

text \<open>
  The monitor that reports network activity to the contribution tracker, and the monitored sessions and
  connections: \<open>src/network/activity_monitor.cpp\<close>.

  The clock in seconds is an argument. A monitored session is the session with its two counters, a callback
  of a monitored connection is the report that it makes, with the node that it was made for.
\<close>

section \<open>The monitor\<close>

record ActivityMonitor =
  am_tracker :: ContributionTracker
  am_local :: "NodeID option"
  am_monitoring :: bool
  am_total_connections :: u64
  am_total_routed :: u64
  am_total_hosted :: u64
  am_total_routes :: u64
  am_hosted :: "(Hash256 \<times> u64) list"

definition ActivityMonitor_init :: "ContributionTracker \<Rightarrow> ActivityMonitor" where
  "ActivityMonitor_init t = \<lparr>am_tracker = t, am_local = None, am_monitoring = False, am_total_connections = 0, am_total_routed = 0,
     am_total_hosted = 0, am_total_routes = 0, am_hosted = []\<rparr>"

definition report :: "(ContributionTracker \<Rightarrow> ContributionTracker) \<Rightarrow> ActivityMonitor \<Rightarrow> ActivityMonitor" where
  "report f m = m\<lparr>am_tracker := f (am_tracker m)\<rparr>"

definition start_monitoring_local_node :: "u64 \<Rightarrow> NodeID \<Rightarrow> ActivityMonitor \<Rightarrow> ActivityMonitor" where
  "start_monitoring_local_node now n m = report (record_node_online now n) (m\<lparr>am_local := Some n, am_monitoring := True\<rparr>)"

definition stop_monitoring_local_node :: "u64 \<Rightarrow> ActivityMonitor \<Rightarrow> ActivityMonitor" where
  "stop_monitoring_local_node now m =
     (case am_local m of None \<Rightarrow> m | Some n \<Rightarrow> report (record_node_offline now n) m)\<lparr>am_monitoring := False, am_local := None\<rparr>"

definition on_peer_connected :: "u64 \<Rightarrow> NodeID \<Rightarrow> ActivityMonitor \<Rightarrow> ActivityMonitor" where
  "on_peer_connected now n m = report (record_node_online now n) (m\<lparr>am_total_connections := am_total_connections m + 1\<rparr>)"

definition on_peer_disconnected :: "u64 \<Rightarrow> NodeID \<Rightarrow> ActivityMonitor \<Rightarrow> ActivityMonitor" where
  "on_peer_disconnected now n m = report (record_node_offline now n) m"

definition on_session_established :: "u64 \<Rightarrow> NodeID \<Rightarrow> ActivityMonitor \<Rightarrow> ActivityMonitor" where
  "on_session_established now n m = report (record_node_online now n) m"

definition on_session_closed :: "NodeID \<Rightarrow> ActivityMonitor \<Rightarrow> ActivityMonitor" where
  "on_session_closed n m = m"

definition on_bytes_sent :: "NodeID \<Rightarrow> u64 \<Rightarrow> ActivityMonitor \<Rightarrow> ActivityMonitor" where
  "on_bytes_sent n b m =
     (let m = (case am_local m of
                 Some local \<Rightarrow> if am_monitoring m then report (record_traffic local b 0) m else m
               | None \<Rightarrow> m)
      in report (record_traffic n 0 b) m)"

definition on_bytes_received :: "NodeID \<Rightarrow> u64 \<Rightarrow> ActivityMonitor \<Rightarrow> ActivityMonitor" where
  "on_bytes_received n b m =
     (let m = (case am_local m of
                 Some local \<Rightarrow> if am_monitoring m then report (record_traffic local 0 b) m else m
               | None \<Rightarrow> m)
      in report (record_traffic n b 0) m)"

definition on_bytes_routed_for :: "NodeID \<Rightarrow> u64 \<Rightarrow> ActivityMonitor \<Rightarrow> ActivityMonitor" where
  "on_bytes_routed_for n b m = (report (record_bytes_routed n b) m)\<lparr>am_total_routed := am_total_routed m + b\<rparr>"

definition on_thing_hosted :: "NodeID \<Rightarrow> Hash256 \<Rightarrow> u64 \<Rightarrow> ActivityMonitor \<Rightarrow> ActivityMonitor" where
  "on_thing_hosted n h b m =
     (report (record_thing_hosted n b) m)\<lparr>am_hosted := omap_set h b (am_hosted m), am_total_hosted := am_total_hosted m + 1\<rparr>"

definition on_thing_removed :: "NodeID \<Rightarrow> Hash256 \<Rightarrow> u64 \<Rightarrow> ActivityMonitor \<Rightarrow> ActivityMonitor" where
  "on_thing_removed n h b m = (report (record_thing_removed n b) m)\<lparr>am_hosted := omap_erase h (am_hosted m)\<rparr>"

definition on_route_successful :: "NodeID \<Rightarrow> Hash256 \<Rightarrow> ActivityMonitor \<Rightarrow> ActivityMonitor" where
  "on_route_successful n h m = (report (record_successful_route n) m)\<lparr>am_total_routes := am_total_routes m + 1\<rparr>"

definition on_route_failed :: "NodeID \<Rightarrow> Hash256 \<Rightarrow> ActivityMonitor \<Rightarrow> ActivityMonitor" where
  "on_route_failed n h m = (report (record_failed_route n) m)\<lparr>am_total_routes := am_total_routes m + 1\<rparr>"

definition on_epoch_witnessed :: "NodeID \<Rightarrow> u64 \<Rightarrow> ActivityMonitor \<Rightarrow> ActivityMonitor" where
  "on_epoch_witnessed n e m = report (record_epoch_witness n e) m"

definition on_epoch_missed :: "NodeID \<Rightarrow> u64 \<Rightarrow> ActivityMonitor \<Rightarrow> ActivityMonitor" where
  "on_epoch_missed n e m = report (record_epoch_missed n e) m"

section \<open>Monitored sessions\<close>

record MonitoredSession =
  ms_session :: Session
  ms_bytes_sent :: u64
  ms_bytes_received :: u64

definition MonitoredSession_new :: "u64 \<Rightarrow> Session \<Rightarrow> ActivityMonitor \<Rightarrow> MonitoredSession \<times> ActivityMonitor" where
  "MonitoredSession_new now s m =
     (\<lparr>ms_session = s, ms_bytes_sent = 0, ms_bytes_received = 0\<rparr>, on_session_established now (se_remote s) m)"

definition MonitoredSession_destroy :: "MonitoredSession \<Rightarrow> ActivityMonitor \<Rightarrow> ActivityMonitor" where
  "MonitoredSession_destroy ms m = on_session_closed (se_remote (ms_session ms)) m"

definition encrypt_and_send :: "session_lib \<Rightarrow> u64 \<Rightarrow> bytes \<Rightarrow> bytes \<Rightarrow> MonitoredSession \<Rightarrow> ActivityMonitor
    \<Rightarrow> bytes option \<times> MonitoredSession \<times> ActivityMonitor" where
  "encrypt_and_send L now random_bytes plaintext ms m =
     (let (ciphertext, s) = encrypt_message L now random_bytes plaintext (ms_session ms); ms = ms\<lparr>ms_session := s\<rparr> in
      case ciphertext of
        None \<Rightarrow> (None, ms, m)
      | Some frame \<Rightarrow>
          let b = word_of_nat (length frame)
          in (Some frame, ms\<lparr>ms_bytes_sent := ms_bytes_sent ms + b\<rparr>, on_bytes_sent (se_remote s) b m))"

definition receive_and_decrypt :: "session_lib \<Rightarrow> u64 \<Rightarrow> bytes \<Rightarrow> MonitoredSession \<Rightarrow> ActivityMonitor
    \<Rightarrow> bytes option \<times> MonitoredSession \<times> ActivityMonitor" where
  "receive_and_decrypt L now ciphertext ms m =
     (let b = word_of_nat (length ciphertext); ms = ms\<lparr>ms_bytes_received := ms_bytes_received ms + b\<rparr>;
          m = on_bytes_received (se_remote (ms_session ms)) b m;
          (plaintext, s) = decrypt_message L now ciphertext (ms_session ms)
      in (plaintext, ms\<lparr>ms_session := s\<rparr>, m))"

section \<open>Monitored connections\<close>

datatype monitor_callback = DataFrom NodeID | PeerConnected NodeID | PeerDisconnected NodeID

definition create_monitored_connection :: "os_connect \<Rightarrow> SocketAddress \<Rightarrow> NodeID \<Rightarrow> monitor_callback ConnectionManager
    \<Rightarrow> nat option \<times> monitor_callback ConnectionManager \<times> monitor_callback conn_event list" where
  "create_monitored_connection os addr n cm =
     (let (conn, cm, evs) = create_connection os addr cm in
      case conn of
        None \<Rightarrow> (None, cm, evs)
      | Some p \<Rightarrow>
          (Some p, cm\<lparr>cm_objects := (cm_objects cm)[p := set_disconnected_callback (PeerDisconnected n)
             (set_connected_callback (PeerConnected n) (set_data_callback (DataFrom n) (cm_objects cm ! p)))]\<rparr>, evs))"

fun run_callback :: "u64 \<Rightarrow> monitor_callback conn_event \<Rightarrow> ActivityMonitor \<Rightarrow> ActivityMonitor" where
  "run_callback now (OnConnected (PeerConnected n)) m = on_peer_connected now n m"
| "run_callback now (OnDisconnected (PeerDisconnected n)) m = on_peer_disconnected now n m"
| "run_callback now _ m = m"

section \<open>Runs of the monitor\<close>

datatype monitor_op =
    StartLocal NodeID
  | StopLocal
  | PeerUp NodeID
  | PeerDown NodeID
  | SessionUp NodeID
  | SessionDown NodeID
  | BytesSent NodeID u64
  | BytesReceived NodeID u64
  | RoutedFor NodeID u64
  | Hosted NodeID Hash256 u64
  | Unhosted NodeID Hash256 u64
  | Routed NodeID Hash256
  | NotRouted NodeID Hash256
  | Witnessed NodeID u64
  | Missed NodeID u64

fun monitor_step :: "ActivityMonitor \<Rightarrow> u64 \<times> monitor_op \<Rightarrow> ActivityMonitor" where
  "monitor_step m (now, StartLocal n) = start_monitoring_local_node now n m"
| "monitor_step m (now, StopLocal) = stop_monitoring_local_node now m"
| "monitor_step m (now, PeerUp n) = on_peer_connected now n m"
| "monitor_step m (now, PeerDown n) = on_peer_disconnected now n m"
| "monitor_step m (now, SessionUp n) = on_session_established now n m"
| "monitor_step m (now, SessionDown n) = on_session_closed n m"
| "monitor_step m (now, BytesSent n b) = on_bytes_sent n b m"
| "monitor_step m (now, BytesReceived n b) = on_bytes_received n b m"
| "monitor_step m (now, RoutedFor n b) = on_bytes_routed_for n b m"
| "monitor_step m (now, Hosted n h b) = on_thing_hosted n h b m"
| "monitor_step m (now, Unhosted n h b) = on_thing_removed n h b m"
| "monitor_step m (now, Routed n h) = on_route_successful n h m"
| "monitor_step m (now, NotRouted n h) = on_route_failed n h m"
| "monitor_step m (now, Witnessed n e) = on_epoch_witnessed n e m"
| "monitor_step m (now, Missed n e) = on_epoch_missed n e m"

text \<open>The local node while it is monitored, and the calls of the tracker that an event leads to.\<close>

definition monitored :: "ActivityMonitor \<Rightarrow> NodeID option" where
  "monitored m = (if am_monitoring m then am_local m else None)"

fun local_after :: "NodeID option \<Rightarrow> monitor_op \<Rightarrow> NodeID option" where
  "local_after l (StartLocal n) = Some n"
| "local_after l StopLocal = None"
| "local_after l _ = l"

fun tracker_calls :: "NodeID option \<Rightarrow> monitor_op \<Rightarrow> tracker_op list" where
  "tracker_calls l (StartLocal n) = [Online n]"
| "tracker_calls l StopLocal = (case l of None \<Rightarrow> [] | Some n \<Rightarrow> [Offline n])"
| "tracker_calls l (PeerUp n) = [Online n]"
| "tracker_calls l (PeerDown n) = [Offline n]"
| "tracker_calls l (SessionUp n) = [Online n]"
| "tracker_calls l (SessionDown n) = []"
| "tracker_calls l (BytesSent n b) = (case l of None \<Rightarrow> [] | Some k \<Rightarrow> [Traffic k b 0]) @ [Traffic n 0 b]"
| "tracker_calls l (BytesReceived n b) = (case l of None \<Rightarrow> [] | Some k \<Rightarrow> [Traffic k 0 b]) @ [Traffic n b 0]"
| "tracker_calls l (RoutedFor n b) = [BytesRouted n b]"
| "tracker_calls l (Hosted n h b) = [ThingHosted n b]"
| "tracker_calls l (Unhosted n h b) = [ThingRemoved n b]"
| "tracker_calls l (Routed n h) = [RouteOk n]"
| "tracker_calls l (NotRouted n h) = [RouteFailed n]"
| "tracker_calls l (Witnessed n e) = [EpochWitness n e]"
| "tracker_calls l (Missed n e) = [EpochMissed n e]"

fun calls_of_run :: "NodeID option \<Rightarrow> (u64 \<times> monitor_op) list \<Rightarrow> (u64 \<times> tracker_op) list" where
  "calls_of_run l [] = []"
| "calls_of_run l ((now, x) # ops) = map (Pair now) (tracker_calls l x) @ calls_of_run (local_after l x) ops"

lemmas monitor_defs = start_monitoring_local_node_def stop_monitoring_local_node_def on_peer_connected_def on_peer_disconnected_def
  on_session_established_def on_session_closed_def on_bytes_sent_def on_bytes_received_def on_bytes_routed_for_def on_thing_hosted_def
  on_thing_removed_def on_route_successful_def on_route_failed_def on_epoch_witnessed_def on_epoch_missed_def report_def

text \<open>A local node is known exactly while it is monitored.\<close>

definition local_ok :: "ActivityMonitor \<Rightarrow> bool" where
  "local_ok m \<longleftrightarrow> am_monitoring m = (am_local m \<noteq> None)"

lemma local_ok_step: "local_ok m \<Longrightarrow> local_ok (monitor_step m x)"
  by (cases "(m, x)" rule: monitor_step.cases) (auto simp: monitor_defs local_ok_def Let_def split: option.splits)

lemma monitored_step: "local_ok m \<Longrightarrow> monitored (monitor_step m (now, x)) = local_after (monitored m) x"
  by (cases x) (auto simp: monitor_defs monitored_def Let_def local_ok_def split: option.splits)

lemma monitor_step_tracker:
  "local_ok m \<Longrightarrow> am_tracker (monitor_step m (now, x)) = foldl tracker_step (am_tracker m) (map (Pair now) (tracker_calls (monitored m) x))"
  by (cases x) (auto simp: monitor_defs monitored_def Let_def local_ok_def split: option.splits)

lemma monitor_run_tracker:
  "local_ok m \<Longrightarrow> am_tracker (foldl monitor_step m ops) = foldl tracker_step (am_tracker m) (calls_of_run (monitored m) ops)"
proof (induction ops arbitrary: m)
  case Nil
  then show ?case by simp
next
  case (Cons y ops)
  obtain now x where y: "y = (now, x)" by (cases y)
  show ?case using Cons.IH [OF local_ok_step [OF Cons.prems, of y]] Cons.prems by (simp add: y monitor_step_tracker monitored_step)
qed

lemma calls_times:
  "set (map fst (calls_of_run l ops)) \<subseteq> set (map fst ops)" "sorted (map fst ops) \<Longrightarrow> sorted (map fst (calls_of_run l ops))"
  "length (calls_of_run l ops) \<le> 2 * length ops"
proof -
  show sub: "set (map fst (calls_of_run l ops)) \<subseteq> set (map fst ops)" for l ops
    by (induction l ops rule: calls_of_run.induct) auto
  show "sorted (map fst (calls_of_run l ops))" if "sorted (map fst ops)"
    using that
  proof (induction l ops rule: calls_of_run.induct)
    case (2 l now x ops)
    then show ?case using sub [of "local_after l x" ops] by (force simp: sorted_append comp_def sorted_replicate map_replicate_const)
  qed simp
  have two: "length (tracker_calls l x) \<le> 2" for l x by (cases x) (auto split: option.splits)
  show "length (calls_of_run l ops) \<le> 2 * length ops"
  proof (induction l ops rule: calls_of_run.induct)
    case (2 l now x ops)
    then show ?case using two [of l x] by simp
  qed simp
qed

text \<open>
  a run of the monitor is a run of the tracker: the tracker ends where the calls that the events lead to
  take it, in the order of the events. So whatever is reported, as long as the clock does not run backwards and
  no counter overflows, the metrics of every node are consistent and its score can be computed.
\<close>

theorem monitor_refines_tracker:
  assumes "sorted (map fst ops)" "list_all (\<lambda>(t, x). 0 < t \<and> t \<le> now) ops" "2 * length ops < 2 ^ 32 - 1"
  shows "am_tracker (foldl monitor_step (ActivityMonitor_init ContributionTracker_init) ops) =
      foldl tracker_step ContributionTracker_init (calls_of_run None ops) \<and>
    metrics_ok now (get_metrics now (am_tracker (foldl monitor_step (ActivityMonitor_init ContributionTracker_init) ops)) n) \<and>
    (\<exists>s. calculate_metrics_score now
       (get_metrics now (am_tracker (foldl monitor_step (ActivityMonitor_init ContributionTracker_init) ops)) n) = Some s \<and> cs_total s \<le> 186)"
proof -
  let ?t = "am_tracker (foldl monitor_step (ActivityMonitor_init ContributionTracker_init) ops)"
  have eq: "?t = foldl tracker_step ContributionTracker_init (calls_of_run None ops)"
    using monitor_run_tracker [of "ActivityMonitor_init ContributionTracker_init" ops]
    by (simp add: ActivityMonitor_init_def local_ok_def monitored_def)
  have init: "tracker_inv 0 0 ContributionTracker_init"
    by (simp add: tracker_inv_def ContributionTracker_init_def metrics_at_def)
  have "\<forall>(s, x) \<in> set (calls_of_run None ops). 0 \<le> s \<and> 0 < s \<and> s \<le> now"
    using calls_times(1) [of None ops] assms(2) by (fastforce simp: list_all_iff)
  then have "tracker_inv (0 + length (calls_of_run None ops)) now ?t"
    unfolding eq using calls_times(3) [of None ops] assms(3)
    by (intro tracker_inv_run [OF init calls_times(2) [OF assms(1)]]) auto
  then have "tracker_inv (length (calls_of_run None ops)) now ?t" by simp
  then have "metrics_ok now (get_metrics now ?t n)"
    by (rule get_metrics_ok) (use calls_times(3) [of None ops] assms(3) in linarith)
  then show ?thesis using eq score_le by (auto simp: word_le_def)
qed

theorem monitor_refines_tracker_witness:
  "am_tracker (foldl monitor_step (ActivityMonitor_init ContributionTracker_init) [(5, StartLocal (NodeID [1])), (6, BytesSent (NodeID [2]) 9), (7, StopLocal)]) =
     foldl tracker_step ContributionTracker_init
       [(5, Online (NodeID [1])), (6, Traffic (NodeID [1]) 9 0), (6, Traffic (NodeID [2]) 0 9), (7, Offline (NodeID [1]))]"
  using monitor_refines_tracker [of "[(5, StartLocal (NodeID [1])), (6, BytesSent (NodeID [2]) 9), (7, StopLocal)]" 8] by simp

section \<open>Traffic\<close>

fun sent_in :: "monitor_op \<Rightarrow> NodeID option \<Rightarrow> u64" where
  "sent_in (BytesSent n b) p = (if p = None \<or> p = Some n then b else 0)"
| "sent_in _ p = 0"

fun received_in :: "monitor_op \<Rightarrow> NodeID option \<Rightarrow> u64" where
  "received_in (BytesReceived n b) p = (if p = None \<or> p = Some n then b else 0)"
| "received_in _ p = 0"

fun traffic_ok :: "NodeID \<Rightarrow> monitor_op \<Rightarrow> bool" where
  "traffic_ok k (StartLocal n) = (n = k)"
| "traffic_ok k StopLocal = False"
| "traffic_ok k (BytesSent n b) = (n \<noteq> k)"
| "traffic_ok k (BytesReceived n b) = (n \<noteq> k)"
| "traffic_ok k _ = True"

definition traffic_of :: "ContributionTracker \<Rightarrow> NodeID \<Rightarrow> u64 \<times> u64" where
  "traffic_of t n = (cm_bytes_sent (metrics_at t n), cm_bytes_received (metrics_at t n))"

lemma traffic_of_change:
  "traffic_of (change_metrics n f t) p = (if p = n then (cm_bytes_sent (f (metrics_at t n)), cm_bytes_received (f (metrics_at t n))) else traffic_of t p)"
  by (simp add: traffic_of_def)

lemma traffic_of_status [simp]:
  "traffic_of (t\<lparr>ct_online_status := x\<rparr>) p = traffic_of t p" "traffic_of (t\<lparr>ct_online_since := y\<rparr>) p = traffic_of t p"
  "metrics_at (t\<lparr>ct_online_status := x\<rparr>) p = metrics_at t p" "metrics_at (t\<lparr>ct_online_since := y\<rparr>) p = metrics_at t p"
  by (simp_all add: traffic_of_def metrics_at_def)

lemma traffic_of_online [simp]:
  "traffic_of (record_node_online now n t) p = traffic_of t p" "traffic_of (record_node_offline now n t) p = traffic_of t p"
  by (auto simp: record_node_online_def record_node_offline_def update_uptime_def traffic_of_change Let_def split: option.splits)
    (simp_all add: traffic_of_def)

lemma traffic_of_reliability [simp]:
  "cm_bytes_sent (update_routing_reliability m) = cm_bytes_sent m" "cm_bytes_received (update_routing_reliability m) = cm_bytes_received m"
  by (simp_all add: update_routing_reliability_def Let_def)

lemma traffic_of_other [simp]:
  "traffic_of (record_bytes_routed n b t) p = traffic_of t p" "traffic_of (record_thing_hosted n b t) p = traffic_of t p"
  "traffic_of (record_thing_removed n b t) p = traffic_of t p" "traffic_of (record_successful_route n t) p = traffic_of t p"
  "traffic_of (record_failed_route n t) p = traffic_of t p" "traffic_of (record_epoch_witness n e t) p = traffic_of t p"
  "traffic_of (record_epoch_missed n e t) p = traffic_of t p"
  unfolding tracker_change_defs traffic_of_change by (auto simp: traffic_of_def)

lemma traffic_of_traffic:
  "traffic_of (record_traffic n s r t) p = (if p = n then (fst (traffic_of t p) + s, snd (traffic_of t p) + r) else traffic_of t p)"
  unfolding record_traffic_def traffic_of_change by (simp add: traffic_of_def)

definition expected_traffic :: "NodeID \<Rightarrow> monitor_op list \<Rightarrow> NodeID \<Rightarrow> u64 \<times> u64" where
  "expected_traffic k xs p =
     (if p = k then (sum_list (map (\<lambda>x. sent_in x None) xs), sum_list (map (\<lambda>x. received_in x None) xs))
      else (sum_list (map (\<lambda>x. received_in x (Some p)) xs), sum_list (map (\<lambda>x. sent_in x (Some p)) xs)))"

lemma traffic_run:
  assumes "local_ok m" "monitored m = Some k" "list_all (\<lambda>(t, x). traffic_ok k x) ops"
  shows "traffic_of (am_tracker (foldl monitor_step m ops)) p =
    (fst (traffic_of (am_tracker m) p) + fst (expected_traffic k (map snd ops) p), snd (traffic_of (am_tracker m) p) + snd (expected_traffic k (map snd ops) p))"
  using assms
proof (induction ops arbitrary: m)
  case Nil
  then show ?case by (simp add: expected_traffic_def)
next
  case (Cons y ops)
  obtain now x where y: "y = (now, x)" by (cases y)
  have ok: "traffic_ok k x" using Cons.prems(3) y by simp
  have local: "monitored (monitor_step m y) = Some k"
    unfolding y monitored_step [OF Cons.prems(1)] Cons.prems(2) using ok by (cases x) simp_all
  have "traffic_of (am_tracker (monitor_step m y)) p =
      (fst (traffic_of (am_tracker m) p) + fst (expected_traffic k [x] p), snd (traffic_of (am_tracker m) p) + snd (expected_traffic k [x] p))"
    unfolding y monitor_step_tracker [OF Cons.prems(1)] Cons.prems(2) using ok
    by (cases x) (auto simp: expected_traffic_def traffic_of_traffic)
  then show ?case using Cons.IH [OF local_ok_step [OF Cons.prems(1)] local] Cons.prems(3) y
    by (auto simp: expected_traffic_def add.assoc)
qed

text \<open>
  while a node is monitored, its traffic is the sum of all bytes that were sent and received, and the
  traffic of every other node is what was received from it and sent to it, modulo \<open>2\<^sup>64\<close>, whatever else is
  reported in between.
\<close>

theorem traffic_accounted:
  assumes "list_all (\<lambda>(t, x). traffic_ok k x) ops"
  shows "traffic_of (am_tracker (foldl monitor_step (start_monitoring_local_node now k (ActivityMonitor_init ContributionTracker_init)) ops)) p =
    expected_traffic k (map snd ops) p"
proof -
  let ?m = "start_monitoring_local_node now k (ActivityMonitor_init ContributionTracker_init)"
  have "local_ok ?m" "monitored ?m = Some k" "traffic_of (am_tracker ?m) p = (0, 0)"
    by (simp_all add: start_monitoring_local_node_def report_def ActivityMonitor_init_def local_ok_def monitored_def)
      (simp add: traffic_of_def ContributionTracker_init_def metrics_at_def ContributionMetrics_new_def)
  then show ?thesis using traffic_run [OF _ _ assms] by simp
qed

theorem traffic_accounted_witness:
  "traffic_of (am_tracker (foldl monitor_step (start_monitoring_local_node 1 (NodeID [1]) (ActivityMonitor_init ContributionTracker_init))
     [(2, PeerUp (NodeID [2])), (3, BytesSent (NodeID [2]) 10), (4, BytesReceived (NodeID [3]) 5), (5, BytesSent (NodeID [3]) 7)])) (NodeID [1]) = (17, 5)"
  using traffic_accounted [of "NodeID [1]" "[(2, PeerUp (NodeID [2])), (3, BytesSent (NodeID [2]) 10), (4, BytesReceived (NodeID [3]) 5),
      (5, BytesSent (NodeID [3]) 7)]" 1 "NodeID [1]"] by (simp add: expected_traffic_def)

section \<open>Monitored sessions and connections\<close>

text \<open>
  a monitored session reports exactly the frames that it hands out: an encrypted message is counted with
  the length of its frame for the session, the local node and the peer, and one that the session refuses
  changes nothing.
\<close>

theorem session_frames_reported:
  assumes "local_ok m" "monitored m = Some k" "se_remote (ms_session ms) \<noteq> k" "encrypt_and_send L now rnd msg ms m = (r, ms', m')"
  shows "r = fst (encrypt_message L now rnd msg (ms_session ms)) \<and>
    (case r of
       None \<Rightarrow> m' = m \<and> ms_bytes_sent ms' = ms_bytes_sent ms
     | Some frame \<Rightarrow> ms_bytes_sent ms' = ms_bytes_sent ms + word_of_nat (length frame) \<and>
         traffic_of (am_tracker m') k = (fst (traffic_of (am_tracker m) k) + word_of_nat (length frame), snd (traffic_of (am_tracker m) k)) \<and>
         traffic_of (am_tracker m') (se_remote (ms_session ms)) =
           (fst (traffic_of (am_tracker m) (se_remote (ms_session ms))), snd (traffic_of (am_tracker m) (se_remote (ms_session ms))) + word_of_nat (length frame)))"
proof -
  obtain c s where c: "encrypt_message L now rnd msg (ms_session ms) = (c, s)" by fastforce
  have s: "se_remote s = se_remote (ms_session ms)"
    using c by (auto simp: encrypt_message_def generate_nonce_def Let_def split: if_splits prod.splits)
  have tracker: "am_tracker (on_bytes_sent n b m) = record_traffic n 0 b (record_traffic k b 0 (am_tracker m))" for n b
    using assms(1,2) by (auto simp: on_bytes_sent_def report_def local_ok_def monitored_def Let_def split: option.splits if_splits)
  show ?thesis
  proof (cases c)
    case None
    then show ?thesis using assms(4) c by (auto simp: encrypt_and_send_def)
  next
    case (Some frame)
    then have "r = Some frame" "m' = on_bytes_sent (se_remote s) (word_of_nat (length frame)) m"
        "ms_bytes_sent ms' = ms_bytes_sent ms + word_of_nat (length frame)"
      using assms(4) c by (auto simp: encrypt_and_send_def Let_def)
    then show ?thesis using c Some s assms(3) by (simp add: tracker traffic_of_traffic)
  qed
qed

definition open_session :: MonitoredSession where
  "open_session = \<lparr>ms_session = (Session_new 0 (NodeID [1]) (NodeID [2]))\<lparr>se_state := ESTABLISHED\<rparr>, ms_bytes_sent = 0, ms_bytes_received = 0\<rparr>"

definition local_monitor :: ActivityMonitor where
  "local_monitor = start_monitoring_local_node 1 (NodeID [1]) (ActivityMonitor_init ContributionTracker_init)"

theorem session_frames_reported_witness:
  "\<exists>frame. fst (encrypt_and_send sample_lib 1 [0, 0, 0, 0] [7] open_session local_monitor) = Some frame \<and>
     ms_bytes_sent (fst (snd (encrypt_and_send sample_lib 1 [0, 0, 0, 0] [7] open_session local_monitor))) = word_of_nat (length frame)"
proof -
  obtain r ms' m' where e: "encrypt_and_send sample_lib 1 [0, 0, 0, 0] [7] open_session local_monitor = (r, ms', m')"
    by (cases "encrypt_and_send sample_lib 1 [0, 0, 0, 0] [7] open_session local_monitor")
  have "local_ok local_monitor" "monitored local_monitor = Some (NodeID [1])" "se_remote (ms_session open_session) \<noteq> NodeID [1]"
    by (simp_all add: local_monitor_def open_session_def Session_new_def start_monitoring_local_node_def report_def ActivityMonitor_init_def
        local_ok_def monitored_def)
  note rep = session_frames_reported [OF this e]
  have "fst (encrypt_message sample_lib 1 [0, 0, 0, 0] [7] (ms_session open_session)) \<noteq> None"
    by (simp add: open_session_def Session_new_def encrypt_message_def generate_nonce_def Let_def)
  then show ?thesis using rep e by (auto simp: open_session_def)
qed

text \<open>
  Establishing a session reports the peer as online once more, which restarts its uptime: a peer that connects,
  establishes a session ten seconds later and leaves at thirty has an uptime of twenty seconds.
\<close>

theorem reported_online_twice:
  "cm_total_uptime (metrics_at (am_tracker (foldl monitor_step (ActivityMonitor_init ContributionTracker_init)
     [(100, PeerUp (NodeID [2])), (110, SessionUp (NodeID [2])), (130, PeerDown (NodeID [2]))])) (NodeID [2])) = 20"
  by code_simp

text \<open>
  The callbacks of a monitored connection are set after it is connected, so that its establishment is never
  reported.
\<close>

theorem connection_not_reported:
  "snd (snd (create_monitored_connection os addr n cm)) = []"
proof -
  have none: "snd (snd (tcp_connect os addr (set_bandwidth_limiter TCPConnection_new))) = ([] :: monitor_callback conn_event list)"
    by (auto simp: tcp_connect_def set_bandwidth_limiter_def TCPConnection_new_def create_socket_def on_connected_def close_socket_def
        Let_def split: option.splits)
  have "snd (snd (create_connection os addr cm)) = []"
    using none by (auto simp: create_connection_def Let_def split: option.splits prod.splits)
  then show ?thesis by (auto simp: create_monitored_connection_def split: prod.splits option.splits)
qed

text \<open>A frame that does not decrypt counts as traffic of the peer that sent it.\<close>

theorem garbage_counts:
  assumes "se_state (ms_session ms) = ESTABLISHED" "length frame < 28"
  shows "fst (receive_and_decrypt L now frame ms m) = None \<and>
    fst (traffic_of (am_tracker (snd (snd (receive_and_decrypt L now frame ms (ActivityMonitor_init t))))) (se_remote (ms_session ms))) =
      fst (traffic_of t (se_remote (ms_session ms))) + word_of_nat (length frame)"
  using assms by (simp add: receive_and_decrypt_def decrypt_message_def on_bytes_received_def report_def ActivityMonitor_init_def
      traffic_of_traffic Let_def)

end
