(* ===== verification/Ip_Protection.thy ===== *)
theory Ip_Protection
  imports Common Floats "HOL-Library.Multiset"
begin

text \<open>
  Rotation of peers, ephemeral addresses and padding of messages: \<open>src/security/ip_protection.cpp\<close>.

  The clock in seconds, the bytes of the random generator, the values that the distributions draw and the
  order that \<open>std::sort\<close> gives the candidates of a rotation are arguments; the clock is read once in an
  operation. A product that cannot be converted to \<open>size_t\<close> is \<open>None\<close>.
\<close>

section \<open>Rotation of peers\<close>

record ConnectionInfo =
  ci_peer_id :: NodeID
  ci_ip_address :: string
  ci_port :: u16
  ci_connection_time :: u64
  ci_last_activity_time :: u64
  ci_bytes_sent :: u64
  ci_bytes_received :: u64
  ci_messages_sent :: u32
  ci_messages_received :: u32

definition ConnectionInfo_new :: "u64 \<Rightarrow> NodeID \<Rightarrow> string \<Rightarrow> u16 \<Rightarrow> ConnectionInfo" where
  "ConnectionInfo_new now peer ip port = \<lparr>ci_peer_id = peer, ci_ip_address = ip, ci_port = port, ci_connection_time = now,
     ci_last_activity_time = now, ci_bytes_sent = 0, ci_bytes_received = 0, ci_messages_sent = 0, ci_messages_received = 0\<rparr>"

definition connection_duration :: "u64 \<Rightarrow> ConnectionInfo \<Rightarrow> u64" where
  "connection_duration now c = now - ci_connection_time c"

definition connection_is_stale :: "u64 \<Rightarrow> u64 \<Rightarrow> ConnectionInfo \<Rightarrow> bool" where
  "connection_is_stale now threshold c \<longleftrightarrow> now - ci_last_activity_time c > threshold"

record PeerRotationPolicy =
  rp_max_duration :: u64
  rp_min_duration :: u64
  rp_activity_timeout :: u64
  rp_interval :: u64
  rp_min_pool :: nat
  rp_percentage :: f32

definition PeerRotationPolicy_default :: PeerRotationPolicy where
  "PeerRotationPolicy_default = \<lparr>rp_max_duration = 1800, rp_min_duration = 300, rp_activity_timeout = 600, rp_interval = 120,
     rp_min_pool = 8, rp_percentage = Fin (1 / 4)\<rparr>"

record PeerRotationManager =
  rm_policy :: PeerRotationPolicy
  rm_connections :: "(NodeID \<times> ConnectionInfo) list"
  rm_last_rotation :: u64
  rm_total_rotations :: u64
  rm_forced_rotations :: u64

definition PeerRotationManager_init :: "u64 \<Rightarrow> PeerRotationPolicy \<Rightarrow> PeerRotationManager" where
  "PeerRotationManager_init now policy = \<lparr>rm_policy = policy, rm_connections = [], rm_last_rotation = now, rm_total_rotations = 0,
     rm_forced_rotations = 0\<rparr>"

definition register_connection :: "u64 \<Rightarrow> NodeID \<Rightarrow> string \<Rightarrow> u16 \<Rightarrow> PeerRotationManager \<Rightarrow> PeerRotationManager" where
  "register_connection now peer ip port m = m\<lparr>rm_connections := omap_set peer (ConnectionInfo_new now peer ip port) (rm_connections m)\<rparr>"

definition update_activity :: "u64 \<Rightarrow> NodeID \<Rightarrow> nat \<Rightarrow> nat \<Rightarrow> PeerRotationManager \<Rightarrow> PeerRotationManager" where
  "update_activity now peer sent received m =
     (case map_of (rm_connections m) peer of
        None \<Rightarrow> m
      | Some c \<Rightarrow> m\<lparr>rm_connections := omap_set peer
          (c\<lparr>ci_last_activity_time := now, ci_bytes_sent := ci_bytes_sent c + word_of_nat sent,
             ci_bytes_received := ci_bytes_received c + word_of_nat received,
             ci_messages_sent := (if sent > 0 then ci_messages_sent c + 1 else ci_messages_sent c),
             ci_messages_received := (if received > 0 then ci_messages_received c + 1 else ci_messages_received c)\<rparr>) (rm_connections m)\<rparr>)"

definition unregister_connection :: "NodeID \<Rightarrow> PeerRotationManager \<Rightarrow> PeerRotationManager" where
  "unregister_connection peer m =
     (case map_of (rm_connections m) peer of None \<Rightarrow> m | Some _ \<Rightarrow> m\<lparr>rm_connections := omap_erase peer (rm_connections m)\<rparr>)"

definition meets_rotation_criteria :: "u64 \<Rightarrow> PeerRotationPolicy \<Rightarrow> ConnectionInfo \<Rightarrow> bool" where
  "meets_rotation_criteria now policy c =
     (let duration = connection_duration now c in
      if duration < rp_min_duration policy then False
      else if duration \<ge> rp_max_duration policy then True
      else if connection_is_stale now (rp_activity_timeout policy) c then True
      else False)"

type_synonym duration_sort = "(NodeID \<times> u64) list \<Rightarrow> (NodeID \<times> u64) list"

definition rotation_candidates :: "u64 \<Rightarrow> PeerRotationManager \<Rightarrow> (NodeID \<times> u64) list" where
  "rotation_candidates now m =
     map (\<lambda>(peer, c). (peer, connection_duration now c)) (filter (\<lambda>(peer, c). meets_rotation_criteria now (rm_policy m) c) (rm_connections m))"

definition rotation_count :: "nat \<Rightarrow> f32 \<Rightarrow> nat option" where
  "rotation_count n percentage = map_option nat (f32_to_int 0 (2 ^ 64 - 1) (f32_mul (f32_of_int (int n)) percentage))"

definition select_peers_for_rotation :: "duration_sort \<Rightarrow> u64 \<Rightarrow> PeerRotationManager \<Rightarrow> (NodeID list \<times> PeerRotationManager) option" where
  "select_peers_for_rotation srt now m =
     (if length (rm_connections m) < rp_min_pool (rm_policy m) then Some ([], m)
      else if now - rm_last_rotation m < rp_interval (rm_policy m) then Some ([], m)
      else
        let candidates = srt (rotation_candidates now m) in
        case rotation_count (length (rm_connections m)) (rp_percentage (rm_policy m)) of
          None \<Rightarrow> None
        | Some n \<Rightarrow>
            let to_rotate = map fst (take (min n (length candidates)) candidates) in
            Some (to_rotate,
              if to_rotate \<noteq> []
              then m\<lparr>rm_last_rotation := now, rm_total_rotations := rm_total_rotations m + word_of_nat (length to_rotate)\<rparr>
              else m))"

definition should_rotate_peer :: "u64 \<Rightarrow> PeerRotationManager \<Rightarrow> NodeID \<Rightarrow> bool" where
  "should_rotate_peer now m peer =
     (case map_of (rm_connections m) peer of None \<Rightarrow> False | Some c \<Rightarrow> meets_rotation_criteria now (rm_policy m) c)"

definition time_until_next_rotation :: "u64 \<Rightarrow> PeerRotationManager \<Rightarrow> u64" where
  "time_until_next_rotation now m =
     (let elapsed = now - rm_last_rotation m in
      if elapsed \<ge> rp_interval (rm_policy m) then 0 else rp_interval (rm_policy m) - elapsed)"

definition rotation_connections :: "PeerRotationManager \<Rightarrow> ConnectionInfo list" where
  "rotation_connections m = map snd (rm_connections m)"

definition get_connection_info :: "PeerRotationManager \<Rightarrow> NodeID \<Rightarrow> ConnectionInfo option" where
  "get_connection_info m peer = map_of (rm_connections m) peer"

definition update_policy :: "PeerRotationPolicy \<Rightarrow> PeerRotationManager \<Rightarrow> PeerRotationManager" where
  "update_policy policy m = m\<lparr>rm_policy := policy\<rparr>"

section \<open>Ephemeral addresses\<close>

record EphemeralAddress =
  ea_ephemeral_id :: Hash256
  ea_creation_time :: u64
  ea_expiry_time :: u64
  ea_node_id :: NodeID

definition address_is_expired :: "u64 \<Rightarrow> EphemeralAddress \<Rightarrow> bool" where
  "address_is_expired now a \<longleftrightarrow> now \<ge> ea_expiry_time a"

definition time_remaining :: "u64 \<Rightarrow> EphemeralAddress \<Rightarrow> u64" where
  "time_remaining now a = (if now \<ge> ea_expiry_time a then 0 else ea_expiry_time a - now)"

record EphemeralAddressManager =
  em_addresses :: "(Hash256 \<times> EphemeralAddress) list"
  em_own_id :: Hash256
  em_default_ttl :: u64
  em_rotation_count :: u64

definition generate_ephemeral_id :: "(bytes \<Rightarrow> Hash256) \<Rightarrow> bytes \<Rightarrow> Hash256" where
  "generate_ephemeral_id H random_bytes = H random_bytes"

definition EphemeralAddressManager_init :: "(bytes \<Rightarrow> Hash256) \<Rightarrow> bytes \<Rightarrow> u64 \<Rightarrow> EphemeralAddressManager" where
  "EphemeralAddressManager_init H rnd ttl = \<lparr>em_addresses = [], em_own_id = generate_ephemeral_id H rnd, em_default_ttl = ttl, em_rotation_count = 0\<rparr>"

definition create_address :: "(bytes \<Rightarrow> Hash256) \<Rightarrow> u64 \<Rightarrow> bytes \<Rightarrow> NodeID \<Rightarrow> u64 \<Rightarrow> EphemeralAddressManager
    \<Rightarrow> EphemeralAddress \<times> EphemeralAddressManager" where
  "create_address H now rnd n ttl m =
     (let ttl = (if ttl = 0 then em_default_ttl m else ttl);
          a = \<lparr>ea_ephemeral_id = generate_ephemeral_id H rnd, ea_creation_time = now, ea_expiry_time = now + ttl, ea_node_id = n\<rparr>
      in (a, m\<lparr>em_addresses := omap_set (ea_ephemeral_id a) a (em_addresses m)\<rparr>))"

definition resolve_address :: "u64 \<Rightarrow> Hash256 \<Rightarrow> EphemeralAddressManager \<Rightarrow> NodeID option \<times> EphemeralAddressManager" where
  "resolve_address now i m =
     (case map_of (em_addresses m) i of
        None \<Rightarrow> (None, m)
      | Some a \<Rightarrow> if address_is_expired now a then (None, m\<lparr>em_addresses := omap_erase i (em_addresses m)\<rparr>) else (Some (ea_node_id a), m))"

definition revoke_address :: "Hash256 \<Rightarrow> EphemeralAddressManager \<Rightarrow> EphemeralAddressManager" where
  "revoke_address i m = m\<lparr>em_addresses := omap_erase i (em_addresses m)\<rparr>"

definition cleanup_expired :: "u64 \<Rightarrow> EphemeralAddressManager \<Rightarrow> EphemeralAddressManager" where
  "cleanup_expired now m =
     m\<lparr>em_addresses := fold omap_erase (map fst (filter (\<lambda>(i, a). address_is_expired now a) (em_addresses m))) (em_addresses m)\<rparr>"

definition get_current_ephemeral_id :: "EphemeralAddressManager \<Rightarrow> Hash256" where
  "get_current_ephemeral_id m = em_own_id m"

definition rotate_own_address :: "(bytes \<Rightarrow> Hash256) \<Rightarrow> bytes \<Rightarrow> EphemeralAddressManager \<Rightarrow> EphemeralAddressManager" where
  "rotate_own_address H rnd m = m\<lparr>em_own_id := generate_ephemeral_id H rnd, em_rotation_count := em_rotation_count m + 1\<rparr>"

section \<open>Padding\<close>

record TrafficPaddingEngine =
  pe_padding :: bool
  pe_dummy :: bool
  pe_jitter :: bool

definition TrafficPaddingEngine_init :: TrafficPaddingEngine where
  "TrafficPaddingEngine_init = \<lparr>pe_padding = True, pe_dummy = False, pe_jitter = True\<rparr>"

definition set_padding_enabled :: "bool \<Rightarrow> TrafficPaddingEngine \<Rightarrow> TrafficPaddingEngine" where
  "set_padding_enabled b e = e\<lparr>pe_padding := b\<rparr>"

definition set_dummy_traffic_enabled :: "bool \<Rightarrow> TrafficPaddingEngine \<Rightarrow> TrafficPaddingEngine" where
  "set_dummy_traffic_enabled b e = e\<lparr>pe_dummy := b\<rparr>"

definition set_jitter_enabled :: "bool \<Rightarrow> TrafficPaddingEngine \<Rightarrow> TrafficPaddingEngine" where
  "set_jitter_enabled b e = e\<lparr>pe_jitter := b\<rparr>"

definition calculate_padding_size :: "nat \<Rightarrow> nat \<Rightarrow> nat" where
  "calculate_padding_size random_extra message_size =
     (let padded_size = ((message_size + 128 - 1) div 128) * 128 in (padded_size - message_size) + random_extra)"

text \<open>\<open>random_bytes n\<close> are the \<open>n\<close> bytes that the generator returns.\<close>

definition add_padding :: "nat \<Rightarrow> (nat \<Rightarrow> bytes) \<Rightarrow> bytes \<Rightarrow> TrafficPaddingEngine \<Rightarrow> bytes" where
  "add_padding random_extra random_bytes message e =
     (if \<not> pe_padding e then message
      else let padding_size = calculate_padding_size random_extra (length message)
           in message @ le_bytes 2 (word_of_nat padding_size :: u16) @ random_bytes padding_size)"

definition remove_padding :: "bytes \<Rightarrow> TrafficPaddingEngine \<Rightarrow> bytes option" where
  "remove_padding padded e =
     (if \<not> pe_padding e \<or> length padded < 2 then Some padded
      else let message_end = length padded - 2 in
           if message_end < 2 then None
           else let pad_len = unat (le_word [padded ! (message_end - 2), padded ! (message_end - 1)] :: u16) in
                if message_end < 2 + pad_len then None
                else Some (take (message_end - 2) padded))"

definition calculate_jitter_delay :: "u64 \<Rightarrow> TrafficPaddingEngine \<Rightarrow> u64" where
  "calculate_jitter_delay draw e = (if \<not> pe_jitter e then 0 else draw)"

definition should_send_dummy :: "int \<Rightarrow> TrafficPaddingEngine \<Rightarrow> bool" where
  "should_send_dummy draw e = (if \<not> pe_dummy e then False else draw \<le> 5)"

definition generate_dummy_message :: "nat \<Rightarrow> (nat \<Rightarrow> bytes) \<Rightarrow> bytes" where
  "generate_dummy_message draw random_bytes = random_bytes draw"

section \<open>The coordinator\<close>

record IPProtectionCoordinator =
  ip_local :: NodeID
  ip_rotation :: PeerRotationManager
  ip_ephemeral :: EphemeralAddressManager
  ip_padding :: TrafficPaddingEngine
  ip_rotation_enabled :: bool
  ip_ephemeral_enabled :: bool
  ip_last_tick :: u64
  ip_messages_padded :: u64
  ip_dummy_messages_sent :: u64

definition IPProtectionCoordinator_init :: "(bytes \<Rightarrow> Hash256) \<Rightarrow> u64 \<Rightarrow> bytes \<Rightarrow> NodeID \<Rightarrow> PeerRotationPolicy \<Rightarrow> IPProtectionCoordinator" where
  "IPProtectionCoordinator_init H now rnd local policy = \<lparr>ip_local = local, ip_rotation = PeerRotationManager_init now policy,
     ip_ephemeral = EphemeralAddressManager_init H rnd 3600, ip_padding = TrafficPaddingEngine_init, ip_rotation_enabled = True,
     ip_ephemeral_enabled = True, ip_last_tick = now, ip_messages_padded = 0, ip_dummy_messages_sent = 0\<rparr>"

definition ip_on_connection_established :: "u64 \<Rightarrow> NodeID \<Rightarrow> string \<Rightarrow> u16 \<Rightarrow> IPProtectionCoordinator \<Rightarrow> IPProtectionCoordinator" where
  "ip_on_connection_established now peer ip port c =
     (if ip_rotation_enabled c then c\<lparr>ip_rotation := register_connection now peer ip port (ip_rotation c)\<rparr> else c)"

definition ip_on_connection_closed :: "NodeID \<Rightarrow> IPProtectionCoordinator \<Rightarrow> IPProtectionCoordinator" where
  "ip_on_connection_closed peer c = (if ip_rotation_enabled c then c\<lparr>ip_rotation := unregister_connection peer (ip_rotation c)\<rparr> else c)"

definition on_data_sent :: "u64 \<Rightarrow> NodeID \<Rightarrow> nat \<Rightarrow> IPProtectionCoordinator \<Rightarrow> IPProtectionCoordinator" where
  "on_data_sent now peer n c = (if ip_rotation_enabled c then c\<lparr>ip_rotation := update_activity now peer n 0 (ip_rotation c)\<rparr> else c)"

definition on_data_received :: "u64 \<Rightarrow> NodeID \<Rightarrow> nat \<Rightarrow> IPProtectionCoordinator \<Rightarrow> IPProtectionCoordinator" where
  "on_data_received now peer n c = (if ip_rotation_enabled c then c\<lparr>ip_rotation := update_activity now peer 0 n (ip_rotation c)\<rparr> else c)"

definition ip_tick :: "(bytes \<Rightarrow> Hash256) \<Rightarrow> u64 \<Rightarrow> bytes \<Rightarrow> IPProtectionCoordinator \<Rightarrow> IPProtectionCoordinator" where
  "ip_tick H now rnd c =
     (let e = ip_ephemeral c;
          e = (if ip_ephemeral_enabled c \<and> now - ip_last_tick c \<ge> 60 then cleanup_expired now e else e);
          e = (if ip_ephemeral_enabled c \<and> now - ip_last_tick c \<ge> 1800 then rotate_own_address H rnd e else e)
      in c\<lparr>ip_ephemeral := e, ip_last_tick := now\<rparr>)"

definition get_peers_to_rotate :: "duration_sort \<Rightarrow> u64 \<Rightarrow> IPProtectionCoordinator \<Rightarrow> (NodeID list \<times> IPProtectionCoordinator) option" where
  "get_peers_to_rotate srt now c =
     (if \<not> ip_rotation_enabled c then Some ([], c)
      else map_option (\<lambda>(peers, m). (peers, c\<lparr>ip_rotation := m\<rparr>)) (select_peers_for_rotation srt now (ip_rotation c)))"

definition create_ephemeral_address :: "(bytes \<Rightarrow> Hash256) \<Rightarrow> u64 \<Rightarrow> bytes \<Rightarrow> NodeID \<Rightarrow> IPProtectionCoordinator
    \<Rightarrow> EphemeralAddress \<times> IPProtectionCoordinator" where
  "create_ephemeral_address H now rnd n c = (let (a, e) = create_address H now rnd n 0 (ip_ephemeral c) in (a, c\<lparr>ip_ephemeral := e\<rparr>))"

definition resolve_ephemeral_address :: "u64 \<Rightarrow> Hash256 \<Rightarrow> IPProtectionCoordinator \<Rightarrow> NodeID option \<times> IPProtectionCoordinator" where
  "resolve_ephemeral_address now i c = (let (r, e) = resolve_address now i (ip_ephemeral c) in (r, c\<lparr>ip_ephemeral := e\<rparr>))"

definition prepare_outgoing_message :: "nat \<Rightarrow> (nat \<Rightarrow> bytes) \<Rightarrow> bytes \<Rightarrow> IPProtectionCoordinator \<Rightarrow> bytes \<times> IPProtectionCoordinator" where
  "prepare_outgoing_message random_extra random_bytes message c =
     (let padded = add_padding random_extra random_bytes message (ip_padding c)
      in (padded, if length padded \<noteq> length message then c\<lparr>ip_messages_padded := ip_messages_padded c + 1\<rparr> else c))"

definition process_incoming_message :: "bytes \<Rightarrow> IPProtectionCoordinator \<Rightarrow> bytes option" where
  "process_incoming_message message c = remove_padding message (ip_padding c)"

definition enable_peer_rotation :: "bool \<Rightarrow> IPProtectionCoordinator \<Rightarrow> IPProtectionCoordinator" where
  "enable_peer_rotation b c = c\<lparr>ip_rotation_enabled := b\<rparr>"

definition enable_ephemeral_addressing :: "bool \<Rightarrow> IPProtectionCoordinator \<Rightarrow> IPProtectionCoordinator" where
  "enable_ephemeral_addressing b c = c\<lparr>ip_ephemeral_enabled := b\<rparr>"

definition enable_traffic_padding :: "bool \<Rightarrow> IPProtectionCoordinator \<Rightarrow> IPProtectionCoordinator" where
  "enable_traffic_padding b c = c\<lparr>ip_padding := set_padding_enabled b (ip_padding c)\<rparr>"

record IPStatistics =
  is_total_rotations :: u64
  is_active_connections :: nat
  is_active_addresses :: nat
  is_messages_padded :: u64
  is_dummy_messages :: u64

definition ip_get_statistics :: "IPProtectionCoordinator \<Rightarrow> IPStatistics" where
  "ip_get_statistics c = \<lparr>is_total_rotations = rm_total_rotations (ip_rotation c), is_active_connections = length (rm_connections (ip_rotation c)),
     is_active_addresses = length (em_addresses (ip_ephemeral c)), is_messages_padded = ip_messages_padded c,
     is_dummy_messages = ip_dummy_messages_sent c\<rparr>"

section \<open>Which peers are rotated\<close>

lemma rotation_count_default:
  assumes "n < 2 ^ 24"
  shows "rotation_count n (Fin (1 / 4)) = Some (n div 4)"
proof -
  have quarter: "(of_int (int n) :: rat) * 2 powi (-2) = of_nat n * (1 / 4)" by (simp add: power_int_minus)
  have "representable 23 (-126) (of_int (int n) * 2 powi (-2))" by (rule representable_scaled) (use assms in auto)
  then have "representable 23 (-126) (of_nat n * (1 / 4))" unfolding quarter .
  moreover have "(of_nat n :: rat) < of_nat (2 ^ 24)" using assms by (subst of_nat_less_iff)
  ultimately have "f32_of_rat (of_nat n * (1 / 4)) = Fin (of_nat n / 4)" using f32_of_rat_id [of "of_nat n * (1 / 4)"] by simp
  moreover have "rat_trunc (of_nat n / 4) = int (n div 4)"
    by (simp add: rat_trunc_def floor_divide_of_nat_eq [of n 4, simplified])
  ultimately show ?thesis using assms by (simp add: rotation_count_def f32_to_int_def Let_def)
qed

lemma candidates_iff:
  assumes "omap_ok (rm_connections m)"
  shows "(peer, d) \<in> set (rotation_candidates now m) \<longleftrightarrow>
    should_rotate_peer now m peer \<and> (\<exists>c. map_of (rm_connections m) peer = Some c \<and> d = connection_duration now c)"
  using assms by (auto simp: rotation_candidates_def should_rotate_peer_def omap_find_iff [OF assms, symmetric])

lemma distinct_candidates: "omap_ok (rm_connections m) \<Longrightarrow> distinct (map fst (rotation_candidates now m))"
proof -
  assume "omap_ok (rm_connections m)"
  then have "distinct (map fst (rm_connections m))" by (rule omap_ok_distinct)
  then have "distinct (map fst (filter (\<lambda>(peer, c). meets_rotation_criteria now (rm_policy m) c) (rm_connections m)))" by (rule distinct_map_filter)
  then show ?thesis by (simp add: rotation_candidates_def comp_def case_prod_beta)
qed

text \<open>
  under the default policy a rotation happens only with at least eight connections and at least two minutes
  after the last one; it picks distinct peers that are due, at most a quarter of the connections, as many as that
  allows, no peer that is left over has been connected for longer than one that is picked, and none is
  picked again for two minutes.
\<close>

theorem rotation_picks_due:
  assumes "omap_ok (rm_connections m)" "rm_policy m = PeerRotationPolicy_default" "length (rm_connections m) < 2 ^ 24"
    and "\<And>xs. mset (srt xs) = mset xs" "\<And>xs. sorted_wrt (\<lambda>a b. snd b \<le> snd a) (srt xs)"
    and "now' - now < 120"
  shows "\<exists>peers m'. select_peers_for_rotation srt now m = Some (peers, m') \<and>
    (if length (rm_connections m) < 8 \<or> now - rm_last_rotation m < 120 then peers = [] \<and> m' = m
     else distinct peers \<and> list_all (should_rotate_peer now m) peers \<and>
       length peers = min (length (rm_connections m) div 4) (length (rotation_candidates now m)) \<and>
       list_all (\<lambda>(p, d). list_all (\<lambda>(q, e). if p \<in> set peers \<and> q \<notin> set peers then e \<le> d else True) (rotation_candidates now m))
         (rotation_candidates now m) \<and>
       (if peers = [] then m' = m else select_peers_for_rotation srt now' m' = Some ([], m')))"
proof (cases "length (rm_connections m) < 8 \<or> now - rm_last_rotation m < 120")
  case True
  then show ?thesis using assms(2) by (auto simp: select_peers_for_rotation_def PeerRotationPolicy_default_def)
next
  case False
  define cs where "cs = srt (rotation_candidates now m)"
  define n where "n = min (length (rm_connections m) div 4) (length cs)"
  define peers where "peers = map fst (take n cs)"
  define m' where "m' = (if peers \<noteq> [] then m\<lparr>rm_last_rotation := now, rm_total_rotations := rm_total_rotations m + word_of_nat (length peers)\<rparr> else m)"
  have sel: "select_peers_for_rotation srt now m = Some (peers, m')"
    using False assms(2) rotation_count_default [OF assms(3)]
    by (simp add: select_peers_for_rotation_def PeerRotationPolicy_default_def cs_def n_def peers_def m'_def Let_def)
  have perm: "set cs = set (rotation_candidates now m)" "length cs = length (rotation_candidates now m)" "distinct (map fst cs)"
    using assms(4) [of "rotation_candidates now m"] distinct_candidates [OF assms(1), of now] unfolding cs_def
    by (metis set_mset_mset, metis size_mset, metis mset_eq_imp_distinct_iff mset_map)
  have take: "set (take n cs) \<subseteq> set cs" by (rule set_take_subset)
  have dist: "distinct peers" using perm(3) by (simp add: peers_def take_map [symmetric])
  have due: "list_all (should_rotate_peer now m) peers"
    using take perm(1) candidates_iff [OF assms(1)] by (fastforce simp: peers_def list_all_iff)
  have order: "snd y \<le> snd x" if "x \<in> set (take n cs)" "y \<in> set (drop n cs)" for x y
  proof -
    have "sorted_wrt (\<lambda>a b. snd b \<le> snd a) (take n cs @ drop n cs)" unfolding append_take_drop_id cs_def by (rule assms(5))
    then show ?thesis using that unfolding sorted_wrt_append by blast
  qed
  have "e \<le> d" if pd: "(p, d) \<in> set cs" "(q, e) \<in> set cs" "p \<in> set peers" "q \<notin> set peers" for p d q e
  proof -
    obtain d' where d': "(p, d') \<in> set (take n cs)" using pd(3) by (auto simp: peers_def)
    then have "(p, d') \<in> set cs" using take by blast
    then have "d' = d" using pd(1) perm(3) by (auto dest: eq_key_imp_eq_value)
    moreover have "(q, e) \<in> set (drop n cs)"
    proof -
      have "(q, e) \<in> set (take n cs @ drop n cs)" using pd(2) by simp
      moreover have "(q, e) \<notin> set (take n cs)" using pd(4) by (force simp: peers_def)
      ultimately show ?thesis unfolding set_append by blast
    qed
    ultimately show ?thesis using order [OF d', of "(q, e)"] by simp
  qed
  then have longest: "list_all (\<lambda>(p, d). list_all (\<lambda>(q, e). if p \<in> set peers \<and> q \<notin> set peers then e \<le> d else True) (rotation_candidates now m))
      (rotation_candidates now m)" by (auto simp: list_all_iff perm(1) [symmetric])
  have again: "select_peers_for_rotation srt now' m' = Some ([], m')" if "peers \<noteq> []"
    using that assms(2,6) False by (auto simp: m'_def select_peers_for_rotation_def PeerRotationPolicy_default_def)
  have "length peers = min (length (rm_connections m) div 4) (length (rotation_candidates now m))" using perm(2) by (simp add: peers_def n_def)
  then show ?thesis using sel dist due longest again False by (auto simp: m'_def)
qed

definition eight_peers :: PeerRotationManager where
  "eight_peers = (PeerRotationManager_init 0 PeerRotationPolicy_default)\<lparr>rm_connections :=
     map (\<lambda>k. (NodeID [k], ConnectionInfo_new 0 (NodeID [k]) [] 0)) [1, 2, 3, 4, 5, 6, 7, 8]\<rparr>"

definition longest_first :: duration_sort where
  "longest_first xs = rev (sort_key snd xs)"

lemma longest_first_sorts: "mset (longest_first xs) = mset xs" "sorted_wrt (\<lambda>a b. snd b \<le> snd a) (longest_first xs)"
  using sorted_sort_key [of snd xs] by (simp_all add: longest_first_def sorted_wrt_rev sorted_map)

theorem rotation_picks_due_witness:
  "\<exists>peers m'. select_peers_for_rotation longest_first 2000 eight_peers = Some (peers, m') \<and> length peers = 2 \<and>
     select_peers_for_rotation longest_first 2100 m' = Some ([], m')"
proof -
  have "length (rotation_candidates 2000 eight_peers) = 8"
    by (simp add: rotation_candidates_def eight_peers_def PeerRotationManager_init_def PeerRotationPolicy_default_def meets_rotation_criteria_def
        connection_duration_def ConnectionInfo_new_def)
  moreover have facts: "length (rm_connections eight_peers) = 8" "omap_ok (rm_connections eight_peers)" "rm_policy eight_peers = PeerRotationPolicy_default"
      "rm_last_rotation eight_peers = 0"
    by (simp_all add: eight_peers_def PeerRotationManager_init_def omap_ok_def less_NodeID_def)
  moreover obtain peers m' where "select_peers_for_rotation longest_first 2000 eight_peers = Some (peers, m')"
      "length peers = min (length (rm_connections eight_peers) div 4) (length (rotation_candidates 2000 eight_peers))"
      "if peers = [] then m' = eight_peers else select_peers_for_rotation longest_first 2100 m' = Some ([], m')"
    using rotation_picks_due [where m = eight_peers and srt = longest_first and now = 2000 and now' = 2100, OF facts(2,3) _ longest_first_sorts] facts
    by auto
  ultimately show ?thesis by (intro exI [of _ peers] exI [of _ m']) (auto split: if_splits)
qed

section \<open>Which addresses resolve\<close>

text \<open>The node behind an identifier at a time, and what the operations mean for it.\<close>

definition live :: "u64 \<Rightarrow> EphemeralAddressManager \<Rightarrow> Hash256 \<Rightarrow> NodeID option" where
  "live now m i = (case map_of (em_addresses m) i of
     None \<Rightarrow> None | Some a \<Rightarrow> if address_is_expired now a then None else Some (ea_node_id a))"

datatype address_op =
    CreateAddress bytes NodeID u64
  | ResolveAddress Hash256
  | RevokeAddress Hash256
  | CleanupAddresses
  | RotateOwn bytes

fun address_step :: "(bytes \<Rightarrow> Hash256) \<Rightarrow> EphemeralAddressManager \<Rightarrow> u64 \<times> address_op \<Rightarrow> EphemeralAddressManager" where
  "address_step H m (now, CreateAddress rnd n ttl) = snd (create_address H now rnd n ttl m)"
| "address_step H m (now, ResolveAddress i) = snd (resolve_address now i m)"
| "address_step H m (now, RevokeAddress i) = revoke_address i m"
| "address_step H m (now, CleanupAddresses) = cleanup_expired now m"
| "address_step H m (now, RotateOwn rnd) = rotate_own_address H rnd m"

text \<open>The specification: a map from identifiers to a node and an expiry time that only creation and revocation change.\<close>

type_synonym address_book = "Hash256 \<Rightarrow> (NodeID \<times> u64) option"

fun book_step :: "(bytes \<Rightarrow> Hash256) \<Rightarrow> u64 \<Rightarrow> address_book \<Rightarrow> u64 \<times> address_op \<Rightarrow> address_book" where
  "book_step H d b (now, CreateAddress rnd n ttl) = b(H rnd := Some (n, now + (if ttl = 0 then d else ttl)))"
| "book_step H d b (now, RevokeAddress i) = b(i := None)"
| "book_step H d b _ = b"

definition book_live :: "u64 \<Rightarrow> address_book \<Rightarrow> Hash256 \<Rightarrow> NodeID option" where
  "book_live now b i = (case b i of None \<Rightarrow> None | Some (n, e) \<Rightarrow> if e \<le> now then None else Some n)"

text \<open>The manager has forgotten only entries of the book that have expired.\<close>

definition entry_ok :: "u64 \<Rightarrow> EphemeralAddress option \<Rightarrow> (NodeID \<times> u64) option \<Rightarrow> bool" where
  "entry_ok now x y = (case x of
     Some a \<Rightarrow> y = Some (ea_node_id a, ea_expiry_time a)
   | None \<Rightarrow> (case y of None \<Rightarrow> True | Some (n, e) \<Rightarrow> e \<le> now))"

definition book_ok :: "u64 \<Rightarrow> EphemeralAddressManager \<Rightarrow> address_book \<Rightarrow> bool" where
  "book_ok now m b \<longleftrightarrow> omap_ok (em_addresses m) \<and> (\<forall>i. entry_ok now (map_of (em_addresses m) i) (b i))"

lemma entry_ok_simps [simp]: "entry_ok now None None" "entry_ok now (Some a) (Some (ea_node_id a, ea_expiry_time a))"
  by (simp_all add: entry_ok_def)

lemma entry_ok_forget: "entry_ok now (Some a) y \<Longrightarrow> address_is_expired now a \<Longrightarrow> entry_ok now None y"
  by (simp add: entry_ok_def address_is_expired_def)

lemma entry_ok_later: "entry_ok now x y \<Longrightarrow> now \<le> later \<Longrightarrow> entry_ok later x y"
  by (auto simp: entry_ok_def split: option.splits)

lemma book_ok_live:
  assumes "book_ok now m b" "now \<le> later"
  shows "live later m i = book_live later b i"
proof -
  have "entry_ok now (map_of (em_addresses m) i) (b i)" using assms(1) by (simp add: book_ok_def)
  then show ?thesis using assms(2) by (auto simp: entry_ok_def live_def book_live_def address_is_expired_def split: option.splits)
qed

lemma book_ok_later: "book_ok now m b \<Longrightarrow> now \<le> later \<Longrightarrow> book_ok later m b"
  unfolding book_ok_def using entry_ok_later by blast

lemma map_of_erase_all: "map_of (fold omap_erase ks m) k = (if k \<in> set ks then None else map_of m k)"
  by (induction ks arbitrary: m) auto

lemma book_ok_erase:
  assumes "book_ok now m b" "\<And>i a. i \<in> set ks \<Longrightarrow> map_of (em_addresses m) i = Some a \<Longrightarrow> address_is_expired now a"
  shows "book_ok now (m\<lparr>em_addresses := fold omap_erase ks (em_addresses m)\<rparr>) b"
proof -
  have "entry_ok now None (b i)" if "i \<in> set ks" for i
  proof (cases "map_of (em_addresses m) i")
    case None
    then show ?thesis using assms(1) unfolding book_ok_def by metis
  next
    case (Some a)
    then have "entry_ok now (Some a) (b i)" using assms(1) unfolding book_ok_def by metis
    then show ?thesis using assms(2) [OF that Some] by (rule entry_ok_forget)
  qed
  then show ?thesis using assms(1) by (simp add: book_ok_def map_of_erase_all omap_ok_erase_all)
qed

lemma book_ok_step:
  assumes "book_ok now m b" "now \<le> later"
  shows "book_ok later (address_step H m (later, x)) (book_step H (em_default_ttl m) b (later, x)) \<and>
    em_default_ttl (address_step H m (later, x)) = em_default_ttl m"
proof (cases x)
  case (CreateAddress rnd n ttl)
  then show ?thesis using book_ok_later [OF assms] by (simp add: book_ok_def create_address_def generate_ephemeral_id_def Let_def entry_ok_def)
next
  case (ResolveAddress i)
  have "book_ok later (m\<lparr>em_addresses := omap_erase i (em_addresses m)\<rparr>) b" if "map_of (em_addresses m) i = Some a" "address_is_expired later a" for a
    using book_ok_erase [OF book_ok_later [OF assms], of "[i]"] that by auto
  then show ?thesis using ResolveAddress book_ok_later [OF assms] by (auto simp: resolve_address_def split: option.splits)
next
  case (RevokeAddress i)
  then show ?thesis using book_ok_later [OF assms] by (simp add: book_ok_def revoke_address_def)
next
  case CleanupAddresses
  have "address_is_expired later a" if "i \<in> set (map fst (filter (\<lambda>(i, a). address_is_expired later a) (em_addresses m)))"
      "map_of (em_addresses m) i = Some a" for i a
  proof -
    from that(1) obtain a' where "(i, a') \<in> set (em_addresses m)" "address_is_expired later a'" by auto
    then show ?thesis using that(2) assms(1) omap_find_iff [of "em_addresses m" i a'] by (simp add: book_ok_def)
  qed
  then have "book_ok later (cleanup_expired later m) b" unfolding cleanup_expired_def by (rule book_ok_erase [OF book_ok_later [OF assms]])
  then show ?thesis using CleanupAddresses by (simp add: cleanup_expired_def)
next
  case (RotateOwn rnd)
  then show ?thesis using book_ok_later [OF assms] by (simp add: book_ok_def rotate_own_address_def)
qed

lemma book_ok_run:
  "book_ok now m b \<Longrightarrow> sorted (now # map fst ops) \<Longrightarrow>
     book_ok (last (now # map fst ops)) (foldl (address_step H) m ops) (foldl (book_step H (em_default_ttl m)) b ops)"
proof (induction ops arbitrary: now m b)
  case Nil
  then show ?case by simp
next
  case (Cons y ops)
  obtain t x where y: "y = (t, x)" by (cases y)
  have "book_ok t (address_step H m y) (book_step H (em_default_ttl m) b y)" "em_default_ttl (address_step H m y) = em_default_ttl m"
    using book_ok_step [OF Cons.prems(1), of t H x] Cons.prems(2) y by simp_all
  with Cons.IH [OF this(1)] Cons.prems(2) y show ?case by (cases ops) simp_all
qed

text \<open>
  C29: the manager of ephemeral addresses implements a map from identifiers to a node and an expiry time that only
  creation and revocation change: after every sequence of operations an identifier resolves to the node of its last
  creation exactly as long as it is neither revoked nor expired, however often expired entries were cleaned up,
  resolved or the own address was rotated.
\<close>

theorem addresses_refine_book:
  assumes "sorted (0 # map fst ops @ [now])"
  shows "fst (resolve_address now i (foldl (address_step H) (EphemeralAddressManager_init H rnd ttl) ops)) =
    book_live now (foldl (book_step H ttl) (\<lambda>_. None) ops) i"
proof -
  let ?m = "EphemeralAddressManager_init H rnd ttl"
  have init: "book_ok 0 ?m (\<lambda>_. None)" "em_default_ttl ?m = ttl" by (simp_all add: book_ok_def EphemeralAddressManager_init_def)
  have "sorted (0 # map fst ops)" "last (0 # map fst ops) \<le> now"
    using assms last_in_set [of "0 # map fst ops"] by (auto simp: sorted_append split: if_splits)
  then have "live now (foldl (address_step H) ?m ops) i = book_live now (foldl (book_step H ttl) (\<lambda>_. None) ops) i"
    using book_ok_live [OF book_ok_run [OF init(1), of ops H]] init(2) by simp
  then show ?thesis by (auto simp: resolve_address_def live_def split: option.splits)
qed

theorem addresses_refine_book_witness:
  "fst (resolve_address 50 [9] (foldl (address_step (\<lambda>x. x)) (EphemeralAddressManager_init (\<lambda>x. x) [] 3600)
     [(10, CreateAddress [9] (NodeID [1]) 60), (20, CleanupAddresses), (30, CreateAddress [8] (NodeID [2]) 5), (40, ResolveAddress [8])])) = Some (NodeID [1])"
  using addresses_refine_book [where ops = "[(10, CreateAddress [9] (NodeID [1]) 60), (20, CleanupAddresses), (30, CreateAddress [8] (NodeID [2]) 5), (40, ResolveAddress [8])]"
      and now = 50 and i = "[9]" and H = "\<lambda>x. x" and rnd = "[]" and ttl = 3600] by (simp add: book_live_def)

section \<open>Padded messages\<close>

text \<open>
  the length of a padded message tells an observer no more than in which block of 128 bytes the message ends:
  it is the length rounded up to a multiple of 128, the random extra of at most 64 bytes, and two; the message is a
  prefix of it, and messages whose lengths round up to the same multiple become equally long.
\<close>

theorem padding_hides_length:
  assumes "pe_padding e" "\<And>n. length (random_bytes n) = n" "random_extra \<le> 64"
  shows "length (add_padding random_extra random_bytes message e) = (length message + 127) div 128 * 128 + random_extra + 2 \<and>
    length (add_padding random_extra random_bytes message e) \<le> length message + 127 + 64 + 2 \<and>
    take (length message) (add_padding random_extra random_bytes message e) = message \<and>
    ((length message + 127) div 128 = (length message' + 127) div 128 \<longrightarrow>
       length (add_padding random_extra random_bytes message e) = length (add_padding random_extra random_bytes message' e))"
proof -
  have "length (add_padding random_extra random_bytes x e) = (length x + 127) div 128 * 128 + random_extra + 2" for x
    using assms(1,2) by (simp add: add_padding_def calculate_padding_size_def Let_def)
  moreover have "(length message + 127) div 128 * 128 \<le> length message + 127" by simp
  ultimately show ?thesis using assms by (simp add: add_padding_def Let_def)
qed

theorem padding_hides_length_witness:
  "length (add_padding 10 (\<lambda>n. replicate n 0) [1, 2, 3] TrafficPaddingEngine_init) = 140"
  using padding_hides_length [where e = TrafficPaddingEngine_init and random_bytes = "\<lambda>n. replicate n 0" and random_extra = 10
      and message = "[1, 2, 3]"] by (simp add: TrafficPaddingEngine_init_def)

text \<open>
  The receiver looks for the length of the padding near the end of the padded message and cuts four bytes off,
  whatever the padding is: the message comes back only when the padding happens to be two bytes long.
\<close>

theorem padding_not_removed:
  assumes "pe_padding e" "\<And>n. length (random_bytes n) = n"
    and "remove_padding (add_padding random_extra random_bytes message e) e = Some message"
  shows "calculate_padding_size random_extra (length message) = 2"
proof -
  let ?p = "add_padding random_extra random_bytes message e"
  have len: "length ?p = length message + 2 + calculate_padding_size random_extra (length message)"
    using assms(1,2) by (simp add: add_padding_def Let_def)
  then have "message = take (length ?p - 2 - 2) ?p" "2 \<le> length ?p - 2"
    using assms(1,3) by (auto simp: remove_padding_def Let_def split: if_splits)
  then have "length message = length ?p - 4" by (metis diff_diff_left length_take min.absorb2 diff_le_self numeral_Bit0)
  then show ?thesis using len \<open>2 \<le> length ?p - 2\<close> by linarith
qed

text \<open>
  The coordinator measures the time since the last call of \<open>tick\<close>, not since the last cleanup: when it is called
  more often than once a minute, as its comment asks, expired addresses are never cleaned up and the own
  address is never rotated.
\<close>

theorem ticks_do_nothing:
  assumes "sorted (ip_last_tick c # map fst ts)" "list_all (\<lambda>(a, b). b - a < 60) (zip (ip_last_tick c # map fst ts) (map fst ts))"
  shows "ip_ephemeral (foldl (\<lambda>c (now, rnd). ip_tick H now rnd c) c ts) = ip_ephemeral c"
  using assms
proof (induction ts arbitrary: c)
  case Nil
  then show ?case by simp
next
  case (Cons t ts)
  obtain now rnd where t: "t = (now, rnd)" by (cases t)
  have gap: "now - ip_last_tick c < 60" using Cons.prems(2) t by simp
  then have "\<not> now - ip_last_tick c \<ge> 60" by simp
  moreover have "\<not> now - ip_last_tick c \<ge> 1800" using gap by (auto simp: word_le_nat_alt word_less_nat_alt)
  ultimately have tick: "ip_tick H now rnd c = c\<lparr>ip_last_tick := now\<rparr>" by (simp add: ip_tick_def Let_def)
  show ?case using Cons.IH [of "c\<lparr>ip_last_tick := now\<rparr>"] Cons.prems t tick by simp
qed

end
