(* ===== verification/Onion_Circuits.thy ===== *)
theory Onion_Circuits
  imports Sessions
begin

text \<open>
  Layered encryption along a path of nodes: \<open>src/security/onion_routing.cpp\<close>.

  X25519 and ChaCha20-Poly1305 are the fields of the library \<open>L\<close>; the ephemeral key pairs are given by
  \<open>gen\<close>, the pair of the \<open>k\<close>-th call of the generator being \<open>gen k\<close>, and the draws of the random distribution by \<open>dis\<close>,
  the index for the \<open>k\<close>-th choice among \<open>n\<close> nodes being \<open>dis k n\<close>. The output parameters of a call are passed
  and returned.
\<close>

section \<open>Layers\<close>

record OnionLayer =
  ol_ephemeral_key :: bytes
  ol_ciphertext :: bytes
  ol_mac :: bytes

definition OnionLayer_to_bytes :: "OnionLayer \<Rightarrow> bytes" where
  "OnionLayer_to_bytes l =
     ol_ephemeral_key l @ le_bytes 4 (word_of_nat (length (ol_ciphertext l)) :: u32) @ ol_ciphertext l @ ol_mac l"

definition OnionLayer_from_bytes :: "bytes \<Rightarrow> OnionLayer option" where
  "OnionLayer_from_bytes data =
     (if length data < 52 then None
      else let n = unat (le_word (slice 32 4 data) :: u32) in
           if 36 + n + 16 > length data then None
           else Some \<lparr>ol_ephemeral_key = slice 0 32 data, ol_ciphertext = slice 36 n data, ol_mac = slice (36 + n) 16 data\<rparr>)"

record OnionHop =
  oh_node_id :: NodeID
  oh_public_key :: bytes

section \<open>Building\<close>

definition derive_shared_secret :: "session_lib \<Rightarrow> bytes \<Rightarrow> bytes \<Rightarrow> bytes" where
  "derive_shared_secret L their_public our_secret =
     (case X25519_exchange L our_secret their_public of None \<Rightarrow> replicate 32 0 | Some k \<Rightarrow> k)"

definition zero_nonce :: bytes where
  "zero_nonce = replicate 12 0"

definition encrypt_layer :: "session_lib \<Rightarrow> bytes \<Rightarrow> bytes \<Rightarrow> bytes \<times> bytes" where
  "encrypt_layer L plaintext shared_secret =
     (let ciphertext = sl_encrypt L plaintext shared_secret zero_nonce in
      if length ciphertext \<ge> 16
      then (take (length ciphertext - 16) ciphertext, drop (length ciphertext - 16) ciphertext)
      else (ciphertext, replicate 16 0))"

definition onion_layer :: "session_lib \<Rightarrow> bytes \<times> bytes \<Rightarrow> OnionHop \<Rightarrow> bytes \<Rightarrow> OnionLayer" where
  "onion_layer L ephemeral hop payload =
     (let (ciphertext, mac) = encrypt_layer L payload (derive_shared_secret L (oh_public_key hop) (snd ephemeral))
      in \<lparr>ol_ephemeral_key = fst ephemeral, ol_ciphertext = ciphertext, ol_mac = mac\<rparr>)"

fun layers_loop :: "session_lib \<Rightarrow> (nat \<Rightarrow> bytes \<times> bytes) \<Rightarrow> nat \<Rightarrow> OnionHop list \<Rightarrow> bytes \<Rightarrow> OnionLayer list \<Rightarrow> OnionLayer list" where
  "layers_loop L gen k [] current_payload layers = layers"
| "layers_loop L gen k (hop # hops) current_payload layers =
     (let layer = onion_layer L (gen k) hop current_payload
      in layers_loop L gen (Suc k) hops (OnionLayer_to_bytes layer) (layers @ [layer]))"

definition build_layers :: "session_lib \<Rightarrow> (nat \<Rightarrow> bytes \<times> bytes) \<Rightarrow> OnionHop list \<Rightarrow> bytes \<Rightarrow> OnionLayer list" where
  "build_layers L gen route_hops payload =
     (if route_hops = [] then [] else rev (layers_loop L gen 0 (rev route_hops) payload []))"

fun routing_loop :: "session_lib \<Rightarrow> (nat \<Rightarrow> bytes \<times> bytes) \<Rightarrow> nat \<Rightarrow> OnionHop list \<Rightarrow> nat \<Rightarrow> bytes \<Rightarrow> OnionLayer list \<Rightarrow> OnionLayer list" where
  "routing_loop L gen k route_hops 0 current_payload layers = layers"
| "routing_loop L gen k route_hops (Suc i) current_payload layers =
     (let current_payload = (if Suc i < length route_hops then node_bytes (oh_node_id (route_hops ! Suc i)) @ current_payload
                             else current_payload);
          layer = onion_layer L (gen k) (route_hops ! i) current_payload
      in routing_loop L gen (Suc k) route_hops i (OnionLayer_to_bytes layer) (layers @ [layer]))"

definition build_layers_with_routing :: "session_lib \<Rightarrow> (nat \<Rightarrow> bytes \<times> bytes) \<Rightarrow> OnionHop list \<Rightarrow> bytes \<Rightarrow> OnionLayer list" where
  "build_layers_with_routing L gen route_hops payload =
     (if route_hops = [] then [] else rev (routing_loop L gen 0 route_hops (length route_hops) payload []))"

section \<open>Peeling\<close>

definition decrypt_layer :: "session_lib \<Rightarrow> bytes \<Rightarrow> bytes \<Rightarrow> bytes \<Rightarrow> bytes option" where
  "decrypt_layer L ciphertext shared_secret mac = ChaCha20Poly1305_decrypt L (ciphertext @ mac) shared_secret zero_nonce"

definition peel_layer :: "session_lib \<Rightarrow> bytes \<Rightarrow> OnionLayer \<Rightarrow> bytes option" where
  "peel_layer L secret l = decrypt_layer L (ol_ciphertext l) (derive_shared_secret L (ol_ephemeral_key l) secret) (ol_mac l)"

type_synonym peel_out = "NodeID \<times> OnionLayer list \<times> bytes"

definition peel_with_routing :: "session_lib \<Rightarrow> bytes \<Rightarrow> OnionLayer \<Rightarrow> peel_out \<Rightarrow> bool \<times> peel_out" where
  "peel_with_routing L secret layer out =
     (let (next_hop, remaining_layers, final_payload) = out in
      case peel_layer L secret layer of
        None \<Rightarrow> (False, out)
      | Some decrypted \<Rightarrow>
          if length decrypted < 32 then (True, next_hop, remaining_layers, decrypted)
          else
            let next_hop = NodeID (take 32 decrypted); remaining_data = drop 32 decrypted in
            case OnionLayer_from_bytes remaining_data of
              Some next_layer \<Rightarrow> (False, next_hop, remaining_layers @ [next_layer], final_payload)
            | None \<Rightarrow> (True, next_hop, remaining_layers, remaining_data))"

section \<open>Circuits\<close>

record OnionCircuitManager =
  oc_local_node :: NodeID
  oc_secret_key :: bytes
  oc_circuits_built :: u64
  oc_layers_peeled :: u64

definition OnionCircuitManager_init :: "NodeID \<Rightarrow> bytes \<Rightarrow> OnionCircuitManager" where
  "OnionCircuitManager_init n secret = \<lparr>oc_local_node = n, oc_secret_key = secret, oc_circuits_built = 0, oc_layers_peeled = 0\<rparr>"

definition OnionHop_empty :: OnionHop where
  "OnionHop_empty = \<lparr>oh_node_id = NodeID (replicate 32 0), oh_public_key = replicate 32 0\<rparr>"

definition select_random_node :: "(nat \<Rightarrow> nat) \<Rightarrow> OnionHop list \<Rightarrow> OnionHop" where
  "select_random_node dis candidates = (if candidates = [] then OnionHop_empty else candidates ! dis (length candidates))"

fun path_loop :: "(nat \<Rightarrow> nat \<Rightarrow> nat) \<Rightarrow> nat \<Rightarrow> nat \<Rightarrow> OnionHop list \<Rightarrow> OnionHop list \<Rightarrow> OnionHop list" where
  "path_loop dis k 0 candidates path = path"
| "path_loop dis k (Suc n) candidates path =
     (let node = select_random_node (dis k) candidates;
          candidates = filter (\<lambda>h. oh_node_id h \<noteq> oh_node_id node) candidates;
          path = path @ [node]
      in if candidates = [] then path else path_loop dis (Suc k) n candidates path)"

definition select_path :: "(nat \<Rightarrow> nat \<Rightarrow> nat) \<Rightarrow> OnionCircuitManager \<Rightarrow> OnionHop list \<Rightarrow> NodeID \<Rightarrow> nat \<Rightarrow> OnionHop list" where
  "select_path dis m available destination path_length =
     (if available = [] \<or> path_length = 0 then []
      else
        let candidates = filter (\<lambda>h. oh_node_id h \<noteq> oc_local_node m \<and> oh_node_id h \<noteq> destination) available in
        if candidates = [] then []
        else path_loop dis 0 (min path_length (length candidates)) candidates [])"

definition build_circuit :: "session_lib \<Rightarrow> (nat \<Rightarrow> bytes \<times> bytes) \<Rightarrow> (nat \<Rightarrow> nat \<Rightarrow> nat) \<Rightarrow> OnionHop \<Rightarrow> OnionHop list \<Rightarrow> bytes \<Rightarrow> OnionCircuitManager
    \<Rightarrow> OnionLayer list \<times> OnionCircuitManager" where
  "build_circuit L gen dis destination available payload m =
     (let path = select_path dis m available (oh_node_id destination) 3 @ [destination]
      in (build_layers_with_routing L gen path payload, m\<lparr>oc_circuits_built := oc_circuits_built m + 1\<rparr>))"

definition process_onion_request :: "session_lib \<Rightarrow> OnionLayer list \<Rightarrow> peel_out \<Rightarrow> OnionCircuitManager
    \<Rightarrow> (bool \<times> peel_out) \<times> OnionCircuitManager" where
  "process_onion_request L layers out m =
     (if layers = [] then ((False, out), m)
      else (peel_with_routing L (oc_secret_key m) (layers ! 0) out, m\<lparr>oc_layers_peeled := oc_layers_peeled m + 1\<rparr>))"

definition is_node_suitable_for_path :: "OnionHop \<Rightarrow> OnionHop list \<Rightarrow> bool" where
  "is_node_suitable_for_path node path \<longleftrightarrow> \<not> list_ex (\<lambda>hop. oh_node_id hop = oh_node_id node) path"

section \<open>Layers survive the wire\<close>

definition layer_ok :: "OnionLayer \<Rightarrow> bool" where
  "layer_ok l \<longleftrightarrow> length (ol_ephemeral_key l) = 32 \<and> length (ol_mac l) = 16 \<and> length (ol_ciphertext l) < 2 ^ 32"

lemma OnionLayer_dec_enc: "layer_ok l \<Longrightarrow> OnionLayer_from_bytes (OnionLayer_to_bytes l @ rest) = Some l"
  by (simp add: layer_ok_def OnionLayer_from_bytes_def OnionLayer_to_bytes_def codec_simps Let_def)

interpretation onion_codec: trailing_codec OnionLayer_to_bytes OnionLayer_from_bytes layer_ok
  by unfold_locales (rule OnionLayer_dec_enc)

lemma OnionLayer_to_bytes_length: "layer_ok l \<Longrightarrow> length (OnionLayer_to_bytes l) = length (ol_ciphertext l) + 52"
  by (simp add: layer_ok_def OnionLayer_to_bytes_def)

section \<open>A layer is peeled by its hop\<close>

text \<open>
  What is assumed of the library: decryption inverts encryption, which adds a tag of 16 bytes, and both sides of an
  exchange compute the same.
\<close>

definition exchange_ok :: "session_lib \<Rightarrow> (nat \<Rightarrow> bytes \<times> bytes) \<Rightarrow> (NodeID \<Rightarrow> bytes) \<Rightarrow> OnionHop \<Rightarrow> bool" where
  "exchange_ok L gen secret hop \<longleftrightarrow> length (node_bytes (oh_node_id hop)) = 32 \<and>
     (\<forall>k. length (fst (gen k)) = 32 \<and>
          sl_scalarmult L (snd (gen k)) (oh_public_key hop) = sl_scalarmult L (secret (oh_node_id hop)) (fst (gen k)))"

lemma encrypt_layer_parts:
  assumes "aead_ok L"
  shows "fst (encrypt_layer L p k) @ snd (encrypt_layer L p k) = sl_encrypt L p k zero_nonce"
    "length (fst (encrypt_layer L p k)) = length p" "length (snd (encrypt_layer L p k)) = 16"
  using assms by (simp_all add: encrypt_layer_def aead_ok_def Let_def)

lemma onion_layer_ok:
  assumes "aead_ok L" "exchange_ok L gen secret hop" "length p < 2 ^ 32"
  shows "layer_ok (onion_layer L (gen k) hop p)" "length (OnionLayer_to_bytes (onion_layer L (gen k) hop p)) = length p + 52"
    "peel_layer L (secret (oh_node_id hop)) (onion_layer L (gen k) hop p) = Some p"
proof -
  have same: "derive_shared_secret L (fst (gen k)) (secret (oh_node_id hop)) = derive_shared_secret L (oh_public_key hop) (snd (gen k))"
    using assms(2) by (simp add: exchange_ok_def derive_shared_secret_def X25519_exchange_def)
  obtain c t where ct: "encrypt_layer L p (derive_shared_secret L (oh_public_key hop) (snd (gen k))) = (c, t)" by fastforce
  then have parts: "c @ t = sl_encrypt L p (derive_shared_secret L (oh_public_key hop) (snd (gen k))) zero_nonce" "length c = length p" "length t = 16"
    using encrypt_layer_parts [OF assms(1), of p "derive_shared_secret L (oh_public_key hop) (snd (gen k))"] by simp_all
  show ok: "layer_ok (onion_layer L (gen k) hop p)"
    using parts(2,3) assms(2,3) by (simp add: onion_layer_def ct layer_ok_def exchange_ok_def)
  then show "length (OnionLayer_to_bytes (onion_layer L (gen k) hop p)) = length p + 52"
    using parts(2) by (simp add: OnionLayer_to_bytes_length onion_layer_def ct)
  show "peel_layer L (secret (oh_node_id hop)) (onion_layer L (gen k) hop p) = Some p"
    using assms(1) parts(1) by (simp add: peel_layer_def decrypt_layer_def onion_layer_def ct same aead_ok_def ChaCha20Poly1305_decrypt_def)
qed

section \<open>The layers of a route\<close>

text \<open>The layers outermost first, by recursion on the route.\<close>

fun routed :: "session_lib \<Rightarrow> (nat \<Rightarrow> bytes \<times> bytes) \<Rightarrow> OnionHop list \<Rightarrow> bytes \<Rightarrow> OnionLayer list" where
  "routed L gen [] p = []"
| "routed L gen [h] p = [onion_layer L (gen 0) h p]"
| "routed L gen (h # h' # hs) p =
     (let rest = routed L gen (h' # hs) p
      in onion_layer L (gen (length (h' # hs))) h (node_bytes (oh_node_id h') @ OnionLayer_to_bytes (hd rest)) # rest)"

lemma routed_not_Nil [simp]: "routed L gen hs p = [] \<longleftrightarrow> hs = []"
  by (cases "(L, gen, hs, p)" rule: routed.cases) (simp_all add: Let_def)

lemma routing_loop_routed:
  "routing_loop L gen (length ys) (xs @ ys) (length xs) (if ys = [] then p else OnionLayer_to_bytes (hd (routed L gen ys p))) (rev (routed L gen ys p))
     = rev (routed L gen (xs @ ys) p)"
proof (induction xs arbitrary: ys rule: rev_induct)
  case Nil
  then show ?case by simp
next
  case (snoc x xs)
  have "routed L gen (x # ys) p = onion_layer L (gen (length ys)) x
      (if ys = [] then p else node_bytes (oh_node_id (hd ys)) @ OnionLayer_to_bytes (hd (routed L gen ys p))) # routed L gen ys p"
    by (cases ys) (simp_all add: Let_def)
  moreover have "(xs @ x # ys) ! Suc (length xs) = hd ys" if "ys \<noteq> []" using that by (cases ys) (simp_all add: nth_append)
  ultimately show ?case using snoc [of "x # ys"] by (cases "ys = []") (simp_all add: Let_def nth_append)
qed

lemma build_with_routing: "build_layers_with_routing L gen hops p = routed L gen hops p"
  using routing_loop_routed [of L gen "[]" hops p] by (simp add: build_layers_with_routing_def)

text \<open>
  Where the layers go when every node hands what it gets to its circuit manager: the nodes that handle them
  in turn and the payload that comes out; \<open>None\<close> when a node cannot read its layer, or after \<open>n\<close> nodes.
\<close>

fun onion_walk :: "session_lib \<Rightarrow> (NodeID \<Rightarrow> bytes) \<Rightarrow> nat \<Rightarrow> NodeID \<Rightarrow> OnionLayer list \<Rightarrow> (NodeID list \<times> bytes) option" where
  "onion_walk L secret 0 node layers = None"
| "onion_walk L secret (Suc n) node layers =
     (case fst (process_onion_request L layers (NodeID [], [], []) (OnionCircuitManager_init node (secret node))) of
        (True, _, _, payload) \<Rightarrow> Some ([node], payload)
      | (False, next_hop, remaining_layers, _) \<Rightarrow>
          if remaining_layers = [] then None
          else map_option (\<lambda>(visited, payload). (node # visited, payload)) (onion_walk L secret n next_hop remaining_layers))"

lemma routed_length:
  assumes "aead_ok L" "list_all (exchange_ok L gen secret) (h # hs)" "length p < 32" "length hs < 2 ^ 24"
  shows "layer_ok (hd (routed L gen (h # hs) p))"
    "length (OnionLayer_to_bytes (hd (routed L gen (h # hs) p))) \<le> 84 + 84 * length hs"
  using assms(2,4)
proof (induction hs arbitrary: h)
  case Nil
  { case 1 then show ?case using onion_layer_ok(1) [OF assms(1), of gen secret h p 0] assms(3) by simp
  next case 2 then show ?case using onion_layer_ok(2) [OF assms(1), of gen secret h p 0] assms(3) by simp }
next
  case (Cons h' hs)
  let ?q = "node_bytes (oh_node_id h') @ OnionLayer_to_bytes (hd (routed L gen (h' # hs) p))"
  { case 1
    then have ok: "list_all (exchange_ok L gen secret) (h' # hs)" "length hs < 2 ^ 24" "exchange_ok L gen secret h" by simp_all
    have "length (node_bytes (oh_node_id h')) = 32" using ok(1) by (simp add: exchange_ok_def)
    then have "length ?q < 2 ^ 32" using Cons.IH(2) [OF ok(1,2)] ok(2) by simp
    then show ?case using onion_layer_ok(1) [OF assms(1) ok(3)] by (simp add: Let_def)
  next
    case 2
    then have ok: "list_all (exchange_ok L gen secret) (h' # hs)" "length hs < 2 ^ 24" "exchange_ok L gen secret h" by simp_all
    have "length (node_bytes (oh_node_id h')) = 32" using ok(1) by (simp add: exchange_ok_def)
    then have "length ?q < 2 ^ 32" "length ?q \<le> 116 + 84 * length hs" using Cons.IH(2) [OF ok(1,2)] ok(2) by simp_all
    then show ?case using onion_layer_ok(2) [OF assms(1) ok(3)] by (simp add: Let_def) }
qed

lemma walk_routed:
  assumes "aead_ok L" "list_all (exchange_ok L gen secret) (h # hs)" "length p < 32" "length hs < 2 ^ 24" "length hs < n"
  shows "onion_walk L secret n (oh_node_id h) (hd (routed L gen (h # hs) p) # rest) = Some (map oh_node_id (h # hs), p)"
  using assms(2,4,5)
proof (induction hs arbitrary: h n rest)
  case Nil
  then obtain k where n: "n = Suc k" by (cases n) simp_all
  have "peel_layer L (secret (oh_node_id h)) (onion_layer L (gen 0) h p) = Some p"
    using Nil assms(3) by (intro onion_layer_ok(3) [OF assms(1)]) simp_all
  then show ?case using assms(3) by (simp add: n process_onion_request_def OnionCircuitManager_init_def peel_with_routing_def)
next
  case (Cons h' hs)
  then obtain k where n: "n = Suc k" by (cases n) simp_all
  let ?l = "hd (routed L gen (h' # hs) p)" and ?q = "node_bytes (oh_node_id h') @ OnionLayer_to_bytes (hd (routed L gen (h' # hs) p))"
  have ok: "list_all (exchange_ok L gen secret) (h' # hs)" "length hs < 2 ^ 24" "exchange_ok L gen secret h" "length hs < k"
    using Cons.prems n by simp_all
  have id: "length (node_bytes (oh_node_id h')) = 32" using ok(1) by (simp add: exchange_ok_def)
  note inner = routed_length [OF assms(1) ok(1) assms(3) ok(2)]
  have "length ?q < 2 ^ 32" using inner(2) id ok(2) by simp
  then have "peel_layer L (secret (oh_node_id h)) (onion_layer L (gen (length (h' # hs))) h ?q) = Some ?q"
    by (rule onion_layer_ok(3) [OF assms(1) ok(3)])
  moreover have "OnionLayer_from_bytes (OnionLayer_to_bytes ?l) = Some ?l" using onion_codec.dec_enc [OF inner(1)] by simp
  moreover have "NodeID (node_bytes (oh_node_id h')) = oh_node_id h'" by simp
  ultimately show ?case using Cons.IH [OF ok(1,2,4), of "[]"] id
    by (simp add: n process_onion_request_def OnionCircuitManager_init_def peel_with_routing_def Let_def)
qed

section \<open>Paths\<close>

lemma path_loop_spec:
  assumes "\<And>k n. 0 < n \<Longrightarrow> dis k n < n" "cs \<noteq> []" "distinct (map oh_node_id path)" "set (map oh_node_id path) \<inter> set (map oh_node_id cs) = {}"
    and "0 < n"
  shows "\<exists>new. path_loop dis k n cs path = path @ new \<and> set new \<subseteq> set cs \<and> distinct (map oh_node_id (path @ new)) \<and>
    length new = min n (card (set (map oh_node_id cs)))"
  using assms(2-)
proof (induction n arbitrary: k cs path)
  case 0
  then show ?case by simp
next
  case (Suc n)
  define node where "node = select_random_node (dis k) cs"
  define cs' where "cs' = filter (\<lambda>h. oh_node_id h \<noteq> oh_node_id node) cs"
  have node: "node \<in> set cs" using assms(1) [of "length cs" k] Suc.prems(1) by (simp add: node_def select_random_node_def)
  have ids: "set (map oh_node_id cs') = set (map oh_node_id cs) - {oh_node_id node}" by (auto simp: cs'_def)
  have card: "card (set (map oh_node_id cs)) = Suc (card (set (map oh_node_id cs')))"
    unfolding ids using node by (subst card_Suc_Diff1) auto
  have d: "distinct (map oh_node_id (path @ [node]))" using Suc.prems(2,3) node by auto
  show ?case
  proof (cases "cs' = []")
    case True
    then have "path_loop dis k (Suc n) cs path = path @ [node]" by (simp add: node_def [symmetric] cs'_def [symmetric] Let_def)
    moreover have "card (set (map oh_node_id cs)) = 1" using card True by simp
    ultimately show ?thesis using d node by (intro exI [of _ "[node]"]) simp
  next
    case False
    have step: "path_loop dis k (Suc n) cs path = path_loop dis (Suc k) n cs' (path @ [node])"
      using False by (simp add: node_def [symmetric] cs'_def [symmetric] Let_def)
    show ?thesis
    proof (cases n)
      case 0
      have "card (set (map oh_node_id cs')) > 0" using False by (simp add: card_gt_0_iff)
      then show ?thesis using d node card step 0 by (intro exI [of _ "[node]"]) simp
    next
      case (Suc n')
      have "set (map oh_node_id (path @ [node])) \<inter> set (map oh_node_id cs') = {}" using Suc.prems(3) ids by auto
      from Suc.IH [OF False d this, of "Suc k"] Suc obtain new where new: "path_loop dis (Suc k) n cs' (path @ [node]) = (path @ [node]) @ new"
          "set new \<subseteq> set cs'" "distinct (map oh_node_id ((path @ [node]) @ new))" "length new = min n (card (set (map oh_node_id cs')))"
        by auto
      have "set (node # new) \<subseteq> set cs" using new(2) node by (auto simp: cs'_def)
      moreover have "length (node # new) = min (Suc n) (card (set (map oh_node_id cs)))" unfolding card using new(4) by simp
      ultimately show ?thesis using step new(1,3) by (intro exI [of _ "node # new"]) simp
    qed
  qed
qed

lemma select_path_spec:
  assumes "\<And>k n. 0 < n \<Longrightarrow> dis k n < n"
  shows "distinct (map oh_node_id (select_path dis m available destination k)) \<and>
    set (select_path dis m available destination k) \<subseteq> set available \<and>
    list_all (\<lambda>h. oh_node_id h \<noteq> oc_local_node m \<and> oh_node_id h \<noteq> destination) (select_path dis m available destination k) \<and>
    length (select_path dis m available destination k) =
      min k (card (set (map oh_node_id available) - {oc_local_node m, destination}))"
proof -
  define cs where "cs = filter (\<lambda>h. oh_node_id h \<noteq> oc_local_node m \<and> oh_node_id h \<noteq> destination) available"
  have ids: "set (map oh_node_id cs) = set (map oh_node_id available) - {oc_local_node m, destination}" by (auto simp: cs_def)
  show ?thesis
  proof (cases "k = 0 \<or> cs = []")
    case True
    then have "select_path dis m available destination k = []" by (auto simp: select_path_def cs_def)
    moreover have "min k (card (set (map oh_node_id available) - {oc_local_node m, destination})) = 0"
      using True unfolding ids [symmetric] by auto
    ultimately show ?thesis by simp
  next
    case False
    then have sel: "select_path dis m available destination k = path_loop dis 0 (min k (length cs)) cs []"
      by (auto simp: select_path_def cs_def [symmetric] Let_def) (simp add: cs_def)
    obtain new where new: "path_loop dis 0 (min k (length cs)) cs [] = [] @ new" "set new \<subseteq> set cs" "distinct (map oh_node_id ([] @ new))"
        "length new = min (min k (length cs)) (card (set (map oh_node_id cs)))"
      using path_loop_spec [where dis = dis and cs = cs and path = "[]" and n = "min k (length cs)" and k = 0, OF assms] False by auto
    have "card (set (map oh_node_id cs)) \<le> length cs" by (metis card_length length_map)
    then have "length new = min k (card (set (map oh_node_id cs)))" using new(4) by simp
    then show ?thesis unfolding sel using new(1-3) ids by (auto simp: cs_def list_all_iff)
  qed
qed

text \<open>
  C17: a circuit for a payload of less than 32 bytes delivers it. The path consists of different available nodes
  other than the sender and the destination, three or as many as there are; when each node hands the layers it
  receives to \<open>process_onion_request\<close> with its own key and sends what is left to the node named there, the layers
  visit exactly the nodes of the path and then the destination, where the payload comes out. Assumed are that
  decryption inverts encryption, which adds a tag of 16 bytes, that both sides of every key exchange compute the
  same, identifiers and ephemeral keys of 32 bytes, and a random index below its bound. (A longer payload is
  cut by the destination.)
\<close>

theorem circuit_delivers:
  assumes "aead_ok L" "list_all (exchange_ok L gen secret) (destination # available)" "\<And>k n. 0 < n \<Longrightarrow> dis k n < n" "length payload < 32"
  shows "\<exists>path layer layers m'. build_circuit L gen dis destination available payload m = (layer # layers, m') \<and>
    onion_walk L secret (Suc (length path)) (oh_node_id (hd (path @ [destination]))) (layer # layers) = Some (map oh_node_id path @ [oh_node_id destination], payload) \<and>
    length layers = length path \<and> distinct (map oh_node_id (path @ [destination])) \<and> set path \<subseteq> set available \<and>
    oc_local_node m \<notin> set (map oh_node_id path) \<and>
    length path = min 3 (card (set (map oh_node_id available) - {oc_local_node m, oh_node_id destination}))"
proof -
  let ?path = "select_path dis m available (oh_node_id destination) 3"
  note sp = select_path_spec [where dis = dis and m = m and available = available and destination = "oh_node_id destination" and k = 3, OF assms(3)]
  obtain h hs where hs: "?path @ [destination] = h # hs" by (cases "?path @ [destination]") auto
  have len: "length hs = length ?path" using arg_cong [OF hs, of length] by simp
  have ok: "list_all (exchange_ok L gen secret) (h # hs)" using assms(2) sp unfolding hs [symmetric] by (auto simp: list_all_iff)
  have "length hs < 2 ^ 24" using sp len by simp
  from walk_routed [OF assms(1) ok assms(4) this, of "Suc (length ?path)"]
  have walk: "onion_walk L secret (Suc (length ?path)) (oh_node_id h) (hd (routed L gen (h # hs) payload) # rest) =
      Some (map oh_node_id (h # hs), payload)" for rest
    using len by simp
  have count: "length (routed L gen xs p) = length xs" for xs p
    by (induction L gen xs p rule: routed.induct) (simp_all add: Let_def)
  obtain layer layers where layers: "routed L gen (h # hs) payload = layer # layers" by (cases "routed L gen (h # hs) payload") auto
  have "length layers = length ?path" using count [of "h # hs" payload] layers len by simp
  moreover have "build_circuit L gen dis destination available payload m = (layer # layers, m\<lparr>oc_circuits_built := oc_circuits_built m + 1\<rparr>)"
    by (simp add: build_circuit_def build_with_routing hs layers)
  moreover have "map oh_node_id (h # hs) = map oh_node_id ?path @ [oh_node_id destination]" unfolding hs [symmetric] by simp
  moreover have "distinct (map oh_node_id (?path @ [destination]))" "oc_local_node m \<notin> set (map oh_node_id ?path)" using sp by (auto simp: list_all_iff)
  ultimately show ?thesis using sp walk layers hs
    by (intro exI [of _ ?path] exI [of _ layer] exI [of _ layers] exI [of _ "m\<lparr>oc_circuits_built := oc_circuits_built m + 1\<rparr>"]) simp
qed

text \<open>The exchange and the cipher of the witness: the product of two numbers and a tag of zeros.\<close>

definition toy_lib :: session_lib where
  "toy_lib = \<lparr>sl_hash = (\<lambda>x. x), sl_scalarmult = (\<lambda>a b. Some [hd a * hd b]), sl_encrypt = (\<lambda>p k n. p @ replicate 16 0),
     sl_decrypt = (\<lambda>c k n. Some (take (length c - 16) c))\<rparr>"

definition toy_gen :: "nat \<Rightarrow> bytes \<times> bytes" where
  "toy_gen k = (replicate 32 5, [5])"

definition toy_hop :: "u8 \<Rightarrow> OnionHop" where
  "toy_hop x = \<lparr>oh_node_id = NodeID (replicate 32 x), oh_public_key = [x]\<rparr>"

definition toy_circuit :: "OnionLayer list" where
  "toy_circuit = fst (build_circuit toy_lib toy_gen (\<lambda>k n. 0) (toy_hop 9) [toy_hop 1, toy_hop 2] [7, 7] (OnionCircuitManager_init (NodeID []) []))"

theorem circuit_delivers_witness:
  "length toy_circuit = 3 \<and>
   (\<exists>path. set path = {toy_hop 1, toy_hop 2} \<and>
      onion_walk toy_lib (\<lambda>n. node_bytes n) 3 (oh_node_id (hd (path @ [toy_hop 9]))) toy_circuit =
        Some (map oh_node_id path @ [oh_node_id (toy_hop 9)], [7, 7]))"
proof -
  let ?m = "OnionCircuitManager_init (NodeID []) []"
  have ok: "aead_ok toy_lib" "list_all (exchange_ok toy_lib toy_gen (\<lambda>n. node_bytes n)) [toy_hop 9, toy_hop 1, toy_hop 2]"
    by (simp_all add: aead_ok_def toy_lib_def exchange_ok_def toy_gen_def toy_hop_def)
  have short: "length [7, 7 :: u8] < 32" by simp
  have card: "card (set (map oh_node_id [toy_hop 1, toy_hop 2]) - {oc_local_node ?m, oh_node_id (toy_hop 9)}) = 2"
    by (simp add: toy_hop_def OnionCircuitManager_init_def)
  obtain path layer layers m' where
    c: "build_circuit toy_lib toy_gen (\<lambda>k n. 0) (toy_hop 9) [toy_hop 1, toy_hop 2] [7, 7] ?m = (layer # layers, m')"
      "onion_walk toy_lib (\<lambda>n. node_bytes n) (Suc (length path)) (oh_node_id (hd (path @ [toy_hop 9]))) (layer # layers) =
         Some (map oh_node_id path @ [oh_node_id (toy_hop 9)], [7, 7])"
      "length layers = length path" "distinct (map oh_node_id (path @ [toy_hop 9]))" "set path \<subseteq> set [toy_hop 1, toy_hop 2]"
      "length path = min 3 (card (set (map oh_node_id [toy_hop 1, toy_hop 2]) - {oc_local_node ?m, oh_node_id (toy_hop 9)}))"
    using circuit_delivers [where dis = "\<lambda>k n. 0" and payload = "[7, 7]" and m = ?m, OF ok] short by blast
  from c(6) card have len: "length path = 2" by simp
  have "distinct path" using c(4) by (simp add: distinct_map)
  then have "card (set path) = 2" using len by (simp add: distinct_card)
  with c(5) have "set path = {toy_hop 1, toy_hop 2}" by (intro card_seteq) (simp_all add: card_insert_if)
  moreover have "Suc (length path) = 3" using len by simp
  ultimately show ?thesis using c(1-3) len unfolding toy_circuit_def by (auto simp del: onion_walk.simps)
qed

section \<open>Layers without routing\<close>

text \<open>Peeling one layer after the other with the keys of the hops.\<close>

fun peel_all :: "session_lib \<Rightarrow> bytes list \<Rightarrow> OnionLayer \<Rightarrow> bytes option" where
  "peel_all L [] layer = None"
| "peel_all L [secret] layer = peel_layer L secret layer"
| "peel_all L (secret # secrets) layer =
     (case peel_layer L secret layer of
        None \<Rightarrow> None
      | Some data \<Rightarrow> (case OnionLayer_from_bytes data of None \<Rightarrow> None | Some inner \<Rightarrow> peel_all L secrets inner))"

fun nested :: "session_lib \<Rightarrow> (nat \<Rightarrow> bytes \<times> bytes) \<Rightarrow> OnionHop list \<Rightarrow> bytes \<Rightarrow> OnionLayer list" where
  "nested L gen [] p = []"
| "nested L gen (h # hs) p =
     (let rest = nested L gen hs p
      in onion_layer L (gen (length hs)) h (if hs = [] then p else OnionLayer_to_bytes (hd rest)) # rest)"

lemma layers_loop_nested:
  "layers_loop L gen (length ys) xs (if ys = [] then p else OnionLayer_to_bytes (hd (nested L gen ys p))) (rev (nested L gen ys p)) =
     rev (nested L gen (rev xs @ ys) p)"
proof (induction xs arbitrary: ys)
  case (Cons x xs)
  then show ?case using Cons [of "x # ys"] by (cases "ys = []") (simp_all add: Let_def)
qed simp

lemma build_layers_nested: "build_layers L gen hops p = nested L gen hops p"
  using layers_loop_nested [of L gen "[]" "rev hops" p] by (simp add: build_layers_def)

lemma nested_ok:
  assumes "aead_ok L" "list_all (exchange_ok L gen secret) (h # hs)" "length p + 52 * length hs < 2 ^ 32"
  shows "layer_ok (hd (nested L gen (h # hs) p)) \<and> length (OnionLayer_to_bytes (hd (nested L gen (h # hs) p))) = length p + 52 * length (h # hs) \<and>
    peel_all L (map (\<lambda>h. secret (oh_node_id h)) (h # hs)) (hd (nested L gen (h # hs) p)) = Some p"
  using assms(2,3)
proof (induction hs arbitrary: h)
  case Nil
  then show ?case using onion_layer_ok [OF assms(1), of gen secret h p 0] by simp
next
  case (Cons h' hs)
  have IH: "layer_ok (hd (nested L gen (h' # hs) p))" "length (OnionLayer_to_bytes (hd (nested L gen (h' # hs) p))) = length p + 52 * length (h' # hs)"
      "peel_all L (map (\<lambda>h. secret (oh_node_id h)) (h' # hs)) (hd (nested L gen (h' # hs) p)) = Some p"
    using Cons.IH [of h'] Cons.prems by simp_all
  have "exchange_ok L gen secret h" "length (OnionLayer_to_bytes (hd (nested L gen (h' # hs) p))) < 2 ^ 32" using Cons.prems IH(2) by simp_all
  note l = onion_layer_ok [OF assms(1) this, of "length (h' # hs)"]
  have "nested L gen (h # h' # hs) p = onion_layer L (gen (length (h' # hs))) h (OnionLayer_to_bytes (hd (nested L gen (h' # hs) p))) # nested L gen (h' # hs) p"
    by (simp add: Let_def)
  then show ?case using l IH onion_codec.dec_enc [OF IH(1)] by (simp del: nested.simps)
qed

text \<open>
  the layers of a route are as many as its hops, and peeling the first with the keys of the hops in turn gives the
  payload back.
\<close>

theorem layers_peel:
  assumes "aead_ok L" "list_all (exchange_ok L gen secret) hops" "hops \<noteq> []" "length payload + 52 * length hops < 2 ^ 32"
  shows "length (build_layers L gen hops payload) = length hops \<and>
    peel_all L (map (\<lambda>h. secret (oh_node_id h)) hops) (hd (build_layers L gen hops payload)) = Some payload"
proof -
  obtain h hs where hops: "hops = h # hs" using assms(3) by (cases hops) auto
  have "length (nested L gen xs p) = length xs" for xs p by (induction xs) (simp_all add: Let_def)
  then show ?thesis using nested_ok [OF assms(1), of gen secret h hs payload] assms(2,4) unfolding build_layers_nested hops by (simp del: nested.simps)
qed

theorem layers_peel_witness:
  "peel_all toy_lib [replicate 32 1, replicate 32 2] (hd (build_layers toy_lib toy_gen [toy_hop 1, toy_hop 2] [3, 4])) = Some [3, 4]"
  using layers_peel [of toy_lib toy_gen "\<lambda>n. node_bytes n" "[toy_hop 1, toy_hop 2]" "[3, 4]"]
  by (simp add: aead_ok_def toy_lib_def exchange_ok_def toy_gen_def toy_hop_def)

section \<open>Long payloads\<close>

text \<open>
  The layer of the destination carries no routing prefix, but the destination reads one from every payload of
  at least 32 bytes: it loses the first 32 bytes, or takes the rest for a layer to relay.
\<close>

theorem long_payload_cut:
  assumes "aead_ok L" "exchange_ok L gen secret hop" "32 \<le> length payload" "length payload < 84"
  shows "peel_with_routing L (secret (oh_node_id hop)) (hd (build_layers_with_routing L gen [hop] payload)) (n, ls, p) =
    (True, NodeID (take 32 payload), ls, drop 32 payload)"
proof -
  have "peel_layer L (secret (oh_node_id hop)) (onion_layer L (gen 0) hop payload) = Some payload"
    by (rule onion_layer_ok(3) [OF assms(1,2)]) (use assms(4) in simp)
  then show ?thesis using assms(3,4) by (simp add: build_with_routing peel_with_routing_def OnionLayer_from_bytes_def Let_def)
qed

text \<open>A layer for a key with which the exchange fails is encrypted with a key of zeros.\<close>

theorem failed_exchange_readable:
  assumes "aead_ok L" "sl_scalarmult L (snd ephemeral) (oh_public_key hop) = None"
  shows "decrypt_layer L (ol_ciphertext (onion_layer L ephemeral hop payload)) (replicate 32 0) (ol_mac (onion_layer L ephemeral hop payload)) = Some payload"
proof -
  obtain c t where ct: "encrypt_layer L payload (replicate 32 0) = (c, t)" by fastforce
  then have "c @ t = sl_encrypt L payload (replicate 32 0) zero_nonce"
    using encrypt_layer_parts(1) [OF assms(1), of payload "replicate 32 0"] by simp
  then show ?thesis using assms by (simp add: onion_layer_def derive_shared_secret_def X25519_exchange_def ct decrypt_layer_def
      ChaCha20Poly1305_decrypt_def aead_ok_def)
qed

end
