(* ===== verification/Key_Store.thy ===== *)
theory Key_Store
  imports Keys
begin

text \<open>
  The files in which keys, transfers and vouches are kept: \<open>KeyStore\<close> of \<open>src/core/keys/key.cpp\<close>.

  The three directories are maps from file names to contents. What the operating system refuses, what it has
  written when it stops early and the order in which a directory is listed are the fields of \<open>store_io\<close>.
\<close>

type_synonym store_dir = "(string \<times> bytes) list"

record KeyStore =
  ks_keys :: store_dir
  ks_transfers :: store_dir
  ks_vouches :: store_dir

record store_io =
  si_create :: "string \<Rightarrow> bool"
  si_write :: "string \<Rightarrow> bytes \<Rightarrow> bool \<times> bytes"
  si_open :: "string \<Rightarrow> bool"
  si_list :: "store_dir \<Rightarrow> store_dir"

text \<open>The directories are created when they do not exist; files that are there stay.\<close>

definition KeyStore_open :: "KeyStore option \<Rightarrow> KeyStore" where
  "KeyStore_open existing = (case existing of None \<Rightarrow> \<lparr>ks_keys = [], ks_transfers = [], ks_vouches = []\<rparr> | Some s \<Rightarrow> s)"

definition get_key_path :: "string \<Rightarrow> string" where
  "get_key_path key_id = key_id @ ''.key''"

definition get_transfer_path :: "string \<Rightarrow> string" where
  "get_transfer_path transfer_id = transfer_id @ ''.transfer''"

definition get_vouch_path :: "string \<Rightarrow> string" where
  "get_vouch_path vouch_id = vouch_id @ ''.vouch''"

definition write_file :: "store_io \<Rightarrow> string \<Rightarrow> bytes \<Rightarrow> store_dir \<Rightarrow> bool \<times> store_dir" where
  "write_file io path data dir =
     (if \<not> si_create io path then (False, dir)
      else let (ok, written) = si_write io path data in (ok, omap_set path written dir))"

definition save_key :: "(bytes \<Rightarrow> Hash256) \<Rightarrow> store_io \<Rightarrow> Key \<Rightarrow> KeyStore \<Rightarrow> bool \<times> KeyStore" where
  "save_key H io k s =
     (let (ok, dir) = write_file io (get_key_path (get_key_id H k)) (Key_serialize k) (ks_keys s) in (ok, s\<lparr>ks_keys := dir\<rparr>))"

definition load_key :: "store_io \<Rightarrow> KeyStore \<Rightarrow> string \<Rightarrow> Key option" where
  "load_key io s key_id =
     (case map_of (ks_keys s) (get_key_path key_id) of
        None \<Rightarrow> None
      | Some data \<Rightarrow> if \<not> si_open io (get_key_path key_id) then None else Key_deserialize data)"

definition delete_key :: "string \<Rightarrow> KeyStore \<Rightarrow> bool \<times> KeyStore" where
  "delete_key key_id s =
     (map_of (ks_keys s) (get_key_path key_id) \<noteq> None, s\<lparr>ks_keys := omap_erase (get_key_path key_id) (ks_keys s)\<rparr>)"

definition load_dir :: "store_io \<Rightarrow> (bytes \<Rightarrow> 'a option) \<Rightarrow> store_dir \<Rightarrow> 'a list" where
  "load_dir io parse dir =
     List.map_filter (\<lambda>(path, data). if si_open io path then parse data else None) (si_list io dir)"

definition load_all_keys :: "store_io \<Rightarrow> KeyStore \<Rightarrow> Key list" where
  "load_all_keys io s = load_dir io Key_deserialize (ks_keys s)"

definition transfer_file_id :: "KeyTransfer \<Rightarrow> string" where
  "transfer_file_id t = tr_key_id t @ ''_'' @ decimal (unat (tr_timestamp t))"

definition save_transfer :: "store_io \<Rightarrow> KeyTransfer \<Rightarrow> KeyStore \<Rightarrow> bool \<times> KeyStore" where
  "save_transfer io t s =
     (let (ok, dir) = write_file io (get_transfer_path (transfer_file_id t)) (KeyTransfer_to_bytes t) (ks_transfers s) in (ok, s\<lparr>ks_transfers := dir\<rparr>))"

definition vouch_file_id :: "KeyVouch \<Rightarrow> string" where
  "vouch_file_id v = hash_to_hex (node_bytes (vo_vouchee v)) @ ''_'' @ decimal (unat (vo_timestamp v))"

definition save_vouch :: "store_io \<Rightarrow> KeyVouch \<Rightarrow> KeyStore \<Rightarrow> bool \<times> KeyStore" where
  "save_vouch io v s =
     (let (ok, dir) = write_file io (get_vouch_path (vouch_file_id v)) (KeyVouch_to_bytes v) (ks_vouches s) in (ok, s\<lparr>ks_vouches := dir\<rparr>))"

definition load_transfers :: "store_io \<Rightarrow> KeyStore \<Rightarrow> KeyTransfer list" where
  "load_transfers io s = load_dir io KeyTransfer_from_bytes (ks_transfers s)"

definition load_vouches :: "store_io \<Rightarrow> KeyStore \<Rightarrow> KeyVouch list" where
  "load_vouches io s = load_dir io KeyVouch_from_bytes (ks_vouches s)"

text \<open>\<open>remove_all\<close> counts the directory itself, so that it succeeds whenever the directory exists.\<close>

definition clear_all :: "KeyStore \<Rightarrow> bool \<times> KeyStore" where
  "clear_all s = (True, \<lparr>ks_keys = [], ks_transfers = [], ks_vouches = []\<rparr>)"

section \<open>Saved keys are found again\<close>

text \<open>An operating system that refuses nothing and lists a directory in some order.\<close>

definition io_ok :: "store_io \<Rightarrow> bool" where
  "io_ok io \<longleftrightarrow> (\<forall>path data. si_create io path \<and> si_write io path data = (True, data) \<and> si_open io path) \<and>
     (\<forall>dir. set (si_list io dir) = set dir)"

datatype store_op = SaveKey Key | DeleteKey string | SaveTransfer KeyTransfer | SaveVouch KeyVouch

fun store_step :: "(bytes \<Rightarrow> Hash256) \<Rightarrow> store_io \<Rightarrow> KeyStore \<Rightarrow> store_op \<Rightarrow> KeyStore" where
  "store_step H io s (SaveKey k) = snd (save_key H io k s)"
| "store_step H io s (DeleteKey i) = snd (delete_key i s)"
| "store_step H io s (SaveTransfer t) = snd (save_transfer io t s)"
| "store_step H io s (SaveVouch v) = snd (save_vouch io v s)"

fun key_book_step :: "(bytes \<Rightarrow> Hash256) \<Rightarrow> (string \<Rightarrow> Key option) \<Rightarrow> store_op \<Rightarrow> (string \<Rightarrow> Key option)" where
  "key_book_step H b (SaveKey k) = b(get_key_id H k \<mapsto> k)"
| "key_book_step H b (DeleteKey i) = b(i := None)"
| "key_book_step H b _ = b"

fun store_op_ok :: "store_op \<Rightarrow> bool" where
  "store_op_ok (SaveKey k) = wf_Key k"
| "store_op_ok _ = True"

definition holds :: "KeyStore \<Rightarrow> (string \<Rightarrow> Key option) \<Rightarrow> bool" where
  "holds s b \<longleftrightarrow> omap_ok (ks_keys s) \<and> (\<forall>path. map_of (ks_keys s) path =
     (case if length path \<ge> 4 \<and> drop (length path - 4) path = ''.key'' then b (take (length path - 4) path) else None of
        None \<Rightarrow> None | Some k \<Rightarrow> Some (Key_serialize k))) \<and> (\<forall>i k. b i = Some k \<longrightarrow> wf_Key k)"

lemma key_path_iff: "path = get_key_path i \<longleftrightarrow> length path \<ge> 4 \<and> drop (length path - 4) path = ''.key'' \<and> take (length path - 4) path = i"
  by (auto simp: get_key_path_def) (metis append_take_drop_id)

lemma key_path_parts [simp]: "length (get_key_path i) = length i + 4" "drop (length i) (get_key_path i) = ''.key''" "take (length i) (get_key_path i) = i"
  by (simp_all add: get_key_path_def)

lemma holds_save:
  assumes "holds s b" "io_ok io" "wf_Key k"
  shows "holds (snd (save_key H io k s)) (b(get_key_id H k \<mapsto> k))"
  using assms key_path_iff [of _ "get_key_id H k"]
  by (auto simp: holds_def save_key_def write_file_def io_ok_def)

lemma holds_delete: "holds s b \<Longrightarrow> holds (snd (delete_key i s)) (b(i := None))"
  using key_path_iff [of _ i] by (auto simp: holds_def delete_key_def)

lemma holds_step:
  assumes "holds s b" "io_ok io" "store_op_ok x"
  shows "holds (store_step H io s x) (key_book_step H b x)"
proof (cases x)
  case (SaveTransfer t)
  then show ?thesis using assms(1) by (simp add: save_transfer_def holds_def split: prod.splits)
next
  case (SaveVouch v)
  then show ?thesis using assms(1) by (simp add: save_vouch_def holds_def split: prod.splits)
qed (use assms in \<open>simp_all add: holds_save holds_delete\<close>)

lemma holds_run:
  "holds s b \<Longrightarrow> io_ok io \<Longrightarrow> list_all store_op_ok ops \<Longrightarrow> holds (foldl (store_step H io) s ops) (foldl (key_book_step H) b ops)"
  by (induction ops arbitrary: s b) (simp_all add: holds_step)

lemma holds_load:
  assumes "holds s b" "io_ok io"
  shows "load_key io s i = b i" "set (load_all_keys io s) = ran b"
proof -
  have ok: "b i = Some k \<Longrightarrow> Key_deserialize (Key_serialize k) = Some k" for i k
    using assms(1) keyc.dec_enc by (auto simp: holds_def)
  have at: "map_of (ks_keys s) (get_key_path i) = map_option Key_serialize (b i)" for i
    using assms(1) by (simp add: holds_def split: option.splits)
  show "load_key io s i = b i" for i
    using ok [of i] assms(2) by (simp add: load_key_def at io_ok_def split: option.splits)
  have entry: "(path, data) \<in> set (ks_keys s) \<longleftrightarrow> (\<exists>i k. path = get_key_path i \<and> b i = Some k \<and> data = Key_serialize k)" for path data
  proof -
    have find: "(path, data) \<in> set (ks_keys s) \<longleftrightarrow> map_of (ks_keys s) path = Some data" using assms(1) unfolding holds_def by (metis omap_find_iff)
    show ?thesis
    proof
      assume "(path, data) \<in> set (ks_keys s)"
      then have "length path \<ge> 4 \<and> drop (length path - 4) path = ''.key''" "\<exists>k. b (take (length path - 4) path) = Some k \<and> data = Key_serialize k"
        using assms(1) unfolding find by (simp_all add: holds_def split: option.splits if_splits)
      then show "\<exists>i k. path = get_key_path i \<and> b i = Some k \<and> data = Key_serialize k" using key_path_iff by blast
    qed (use find at in auto)
  qed
  show "set (load_all_keys io s) = ran b"
  proof (rule set_eqI)
    fix k
    have "k \<in> set (load_all_keys io s) \<longleftrightarrow> (\<exists>path data. (path, data) \<in> set (ks_keys s) \<and> Key_deserialize data = Some k)"
      using assms(2) by (force simp: load_all_keys_def load_dir_def io_ok_def map_filter_def)
    also have "\<dots> \<longleftrightarrow> (\<exists>i. b i = Some k)" unfolding entry using ok by (metis option.inject)
    finally show "k \<in> set (load_all_keys io s) \<longleftrightarrow> k \<in> ran b" by (simp add: ran_def)
  qed
qed

text \<open>
  as long as the file system refuses nothing, the key store is a map from key identifiers to keys: after every
  sequence of operations a key is loaded under its identifier exactly when it was saved and not deleted since, in
  the form in which it was saved last, and loading all keys gives exactly these.
\<close>

theorem key_store_is_a_map:
  assumes "io_ok io" "list_all store_op_ok ops"
  shows "load_key io (foldl (store_step H io) (KeyStore_open None) ops) i = foldl (key_book_step H) (\<lambda>_. None) ops i \<and>
    set (load_all_keys io (foldl (store_step H io) (KeyStore_open None) ops)) = ran (foldl (key_book_step H) (\<lambda>_. None) ops) \<and>
    fst (delete_key i (foldl (store_step H io) (KeyStore_open None) ops)) = (foldl (key_book_step H) (\<lambda>_. None) ops i \<noteq> None)"
proof -
  have "holds (KeyStore_open None) (\<lambda>_. None)" by (simp add: holds_def KeyStore_open_def)
  then have h: "holds (foldl (store_step H io) (KeyStore_open None) ops) (foldl (key_book_step H) (\<lambda>_. None) ops)"
    using assms by (rule holds_run)
  moreover have "(map_of (ks_keys s) (get_key_path i) \<noteq> None) = (b i \<noteq> None)" if "holds s b" for s b
    using that by (simp add: holds_def split: option.splits)
  ultimately show ?thesis using holds_load [OF h assms(1)] by (simp add: delete_key_def)
qed

definition plain_io :: store_io where
  "plain_io = \<lparr>si_create = (\<lambda>_. True), si_write = (\<lambda>_ data. (True, data)), si_open = (\<lambda>_. True), si_list = rev\<rparr>"

theorem key_store_is_a_map_witness:
  "load_key plain_io (foldl (store_step (\<lambda>_. []) plain_io) (KeyStore_open None) [SaveKey sample_key, DeleteKey ''x'']) (get_key_id (\<lambda>_. []) sample_key) = Some sample_key"
proof -
  have "wf_Key sample_key" by (simp add: sample_key_def Key_create_def wf_Key_def sample_node_def)
  moreover have "get_key_id (\<lambda>_. []) sample_key \<noteq> ''x''" by (simp add: get_key_id_def hash_to_hex_def)
  ultimately show ?thesis
    using key_store_is_a_map [of plain_io "[SaveKey sample_key, DeleteKey ''x'']" "\<lambda>_. []" "get_key_id (\<lambda>_. []) sample_key"]
    by (simp add: plain_io_def io_ok_def)
qed

text \<open>
  A transfer is filed under its key and its second, a vouch under the node that it is for and its second: the
  second of two vouches for a node in the same second replaces the first.
\<close>

theorem vouch_overwritten:
  assumes "vo_vouchee v = vo_vouchee w" "vo_timestamp v = vo_timestamp w" "wf_KeyVouch w" "io_ok io"
  shows "load_vouches io (snd (save_vouch io w (snd (save_vouch io v (KeyStore_open None))))) \<noteq> [] \<and>
    set (load_vouches io (snd (save_vouch io w (snd (save_vouch io v (KeyStore_open None)))))) = {w}"
proof -
  have "vouch_file_id v = vouch_file_id w" using assms(1,2) by (simp add: vouch_file_id_def)
  then have "ks_vouches (snd (save_vouch io w (snd (save_vouch io v (KeyStore_open None))))) = [(get_vouch_path (vouch_file_id w), KeyVouch_to_bytes w)]"
    using assms(4) by (simp add: save_vouch_def write_file_def io_ok_def KeyStore_open_def)
  moreover have "KeyVouch_from_bytes (KeyVouch_to_bytes w) = Some w" using assms(3) by (rule vouchc.dec_enc)
  ultimately have "set (load_vouches io (snd (save_vouch io w (snd (save_vouch io v (KeyStore_open None)))))) = {w}"
    using assms(4) by (auto simp: load_vouches_def load_dir_def io_ok_def map_filter_def)
  then show ?thesis by auto
qed

end
