(* ===== verification/Sanitizer.thy ===== *)
theory Sanitizer
  imports Keys
begin

text \<open>
  Types of contents and the sanitizer for HTML of the gateway's content renderer:
  \<open>src/gateway/content_renderer.cpp\<close>.

  The loops of the sanitizer are functions of the text and of the position; the one for \<open>iframe\<close> elements may run for
  ever, and \<open>None\<close> is a call that does not return. \<open>std::isalnum\<close> and \<open>std::isspace\<close> are those of the C locale.
\<close>

section \<open>Types of contents\<close>

datatype ContentType =
    HTML | JAVASCRIPT | CSS | IMAGE_PNG | IMAGE_JPEG | IMAGE_GIF | IMAGE_WEBP | VIDEO_MP4 | VIDEO_WEBM | AUDIO_MP3 | AUDIO_OGG
  | JSON | TEXT | BINARY | UNKNOWN

definition PNG_MAGIC :: bytes where "PNG_MAGIC = [0x89, 0x50, 0x4E, 0x47]"
definition JPEG_MAGIC :: bytes where "JPEG_MAGIC = [0xFF, 0xD8, 0xFF]"
definition GIF_MAGIC :: bytes where "GIF_MAGIC = [0x47, 0x49, 0x46]"
definition WEBP_MAGIC :: bytes where "WEBP_MAGIC = [0x52, 0x49, 0x46, 0x46]"

definition starts_with :: "bytes \<Rightarrow> bytes \<Rightarrow> bool" where
  "starts_with data p = (if length data < length p then False else take (length p) data = p)"

definition has_extension :: "string \<Rightarrow> string \<Rightarrow> bool" where
  "has_extension filename ext =
     (if length filename < length ext then False else drop (length filename - length ext) filename = ext)"

definition is_text_byte :: "u8 \<Rightarrow> bool" where
  "is_text_byte b \<longleftrightarrow> \<not> (b < 32 \<and> b \<noteq> 10 \<and> b \<noteq> 13 \<and> b \<noteq> 9)"

definition detect_content_type :: "bytes \<Rightarrow> string option \<Rightarrow> ContentType" where
  "detect_content_type data filename =
     (if starts_with data PNG_MAGIC then IMAGE_PNG
      else if starts_with data JPEG_MAGIC then IMAGE_JPEG
      else if starts_with data GIF_MAGIC then IMAGE_GIF
      else if starts_with data WEBP_MAGIC then IMAGE_WEBP
      else
        let by_name = (case filename of
              None \<Rightarrow> None
            | Some fname \<Rightarrow>
                if has_extension fname ''.html'' \<or> has_extension fname ''.htm'' then Some HTML
                else if has_extension fname ''.js'' then Some JAVASCRIPT
                else if has_extension fname ''.css'' then Some CSS
                else if has_extension fname ''.json'' then Some JSON
                else if has_extension fname ''.txt'' then Some TEXT
                else if has_extension fname ''.mp4'' then Some VIDEO_MP4
                else if has_extension fname ''.webm'' then Some VIDEO_WEBM
                else if has_extension fname ''.mp3'' then Some AUDIO_MP3
                else if has_extension fname ''.ogg'' then Some AUDIO_OGG
                else None)
        in case by_name of
             Some t \<Rightarrow> t
           | None \<Rightarrow> if 0 < length data \<and> length data < 1024 \<and> list_all is_text_byte data then TEXT else BINARY)"

fun get_mime_type :: "ContentType \<Rightarrow> string" where
  "get_mime_type HTML = ''text/html; charset=utf-8''"
| "get_mime_type JAVASCRIPT = ''application/javascript; charset=utf-8''"
| "get_mime_type CSS = ''text/css; charset=utf-8''"
| "get_mime_type IMAGE_PNG = ''image/png''"
| "get_mime_type IMAGE_JPEG = ''image/jpeg''"
| "get_mime_type IMAGE_GIF = ''image/gif''"
| "get_mime_type IMAGE_WEBP = ''image/webp''"
| "get_mime_type VIDEO_MP4 = ''video/mp4''"
| "get_mime_type VIDEO_WEBM = ''video/webm''"
| "get_mime_type AUDIO_MP3 = ''audio/mpeg''"
| "get_mime_type AUDIO_OGG = ''audio/ogg''"
| "get_mime_type JSON = ''application/json; charset=utf-8''"
| "get_mime_type TEXT = ''text/plain; charset=utf-8''"
| "get_mime_type BINARY = ''application/octet-stream''"
| "get_mime_type UNKNOWN = ''application/octet-stream''"

section \<open>Text\<close>

fun find_in :: "string \<Rightarrow> string \<Rightarrow> nat option" where
  "find_in pat [] = (if pat = [] then Some 0 else None)"
| "find_in pat (c # cs) = (if take (length pat) (c # cs) = pat then Some 0 else map_option Suc (find_in pat cs))"

definition find_from :: "string \<Rightarrow> string \<Rightarrow> nat \<Rightarrow> nat option" where
  "find_from s pat pos = (if length s < pos then None else map_option (\<lambda>n. pos + n) (find_in pat (drop pos s)))"

fun first_of :: "char list \<Rightarrow> string \<Rightarrow> nat option" where
  "first_of chars [] = None"
| "first_of chars (c # cs) = (if c \<in> set chars then Some 0 else map_option Suc (first_of chars cs))"

definition find_first_of :: "string \<Rightarrow> char list \<Rightarrow> nat \<Rightarrow> nat option" where
  "find_first_of s chars pos = (if length s < pos then None else map_option (\<lambda>n. pos + n) (first_of chars (drop pos s)))"

definition rfind_char :: "string \<Rightarrow> char \<Rightarrow> nat \<Rightarrow> nat option" where
  "rfind_char s c pos = (case first_of [c] (rev (take (Suc pos) s)) of None \<Rightarrow> None | Some n \<Rightarrow> Some (length (take (Suc pos) s) - 1 - n))"

definition erase_at :: "string \<Rightarrow> nat \<Rightarrow> nat \<Rightarrow> string" where
  "erase_at s pos n = take pos s @ drop (pos + n) s"

definition insert_at :: "string \<Rightarrow> nat \<Rightarrow> string \<Rightarrow> string" where
  "insert_at s pos t = take pos s @ t @ drop pos s"

definition isalnum :: "char \<Rightarrow> bool" where
  "isalnum c = (let n = (of_char c :: nat) in (48 \<le> n \<and> n \<le> 57) \<or> (65 \<le> n \<and> n \<le> 90) \<or> (97 \<le> n \<and> n \<le> 122))"

lemma find_in_Some: "find_in pat s = Some n \<Longrightarrow> n + length pat \<le> length s \<and> take (length pat) (drop n s) = pat"
proof (induction s arbitrary: n)
  case Nil
  then show ?case by (auto split: if_splits)
next
  case (Cons c cs)
  show ?case
  proof (cases "take (length pat) (c # cs) = pat")
    case True
    then have "length pat \<le> length (c # cs)" by (metis length_take min.bounded_iff order_refl)
    then show ?thesis using True Cons.prems by simp
  next
    case False
    then obtain m where "find_in pat cs = Some m" "n = Suc m" using Cons.prems by auto
    then show ?thesis using Cons.IH by simp
  qed
qed

lemma find_from_Some: "find_from s pat pos = Some n \<Longrightarrow> pos \<le> n \<and> n + length pat \<le> length s \<and> take (length pat) (drop n s) = pat"
  using find_in_Some [of pat "drop pos s"] by (fastforce simp: find_from_def add.commute split: if_splits)

lemma first_of_Some: "first_of chars s = Some n \<Longrightarrow> n < length s \<and> s ! n \<in> set chars"
  by (induction s arbitrary: n) (auto split: if_splits)

lemma find_first_of_Some: "find_first_of s chars pos = Some n \<Longrightarrow> pos \<le> n \<and> n < length s"
  using first_of_Some [of chars "drop pos s"] by (fastforce simp: find_first_of_def split: if_splits)

section \<open>Sanitizing\<close>

text \<open>1. \<open>script\<close> elements.\<close>

function strip_scripts :: "string \<Rightarrow> nat \<Rightarrow> string" where
  "strip_scripts s pos =
     (case find_from s ''<script'' pos of
        None \<Rightarrow> s
      | Some p \<Rightarrow>
          if p = 0 \<or> \<not> isalnum (s ! (p - 1)) then
            (case find_from s ''</script>'' p of
               Some e \<Rightarrow> strip_scripts (erase_at s p (e - p + 9)) p
             | None \<Rightarrow> take p s)
          else strip_scripts s (p + 1))"
  by pat_completeness auto

lemma erase_at_shorter: "0 < n \<Longrightarrow> pos + n \<le> length s \<Longrightarrow> length (erase_at s pos n) = length s - n"
  by (simp add: erase_at_def)

termination strip_scripts
proof (relation "measures [\<lambda>(s, pos). length s, \<lambda>(s, pos). length s - pos]", goal_cases)
  case (2 s pos p e)
  then show ?case using find_from_Some [of s "''</script>''" p e] by (auto simp: erase_at_def)
next
  case (3 s pos p)
  then show ?case using find_from_Some [of s "''<script''" pos p] by auto
qed simp

text \<open>2. \<open>iframe\<close> elements.\<close>

partial_function (option) strip_iframes :: "string \<Rightarrow> nat \<Rightarrow> string option" where
  "strip_iframes s pos =
     (case find_from s ''<iframe'' pos of
        None \<Rightarrow> Some s
      | Some p \<Rightarrow>
          (case find_from s ''</iframe>'' p of
             Some e \<Rightarrow> strip_iframes (erase_at s p (e - p + 9)) p
           | None \<Rightarrow>
               (case find_from s ''>'' p of
                  Some b \<Rightarrow> strip_iframes (erase_at s p (b - p + 1)) p
                | None \<Rightarrow> strip_iframes s p)))"

text \<open>3. \<open>object\<close>, \<open>embed\<close> and \<open>applet\<close> tags.\<close>

function strip_tag :: "string \<Rightarrow> string \<Rightarrow> nat \<Rightarrow> string" where
  "strip_tag tag s pos =
     (if tag = [] then s
      else case find_from s tag pos of
        None \<Rightarrow> s
      | Some p \<Rightarrow>
          (case find_from s ''>'' p of
             Some e \<Rightarrow> strip_tag tag (erase_at s p (e - p + 1)) p
           | None \<Rightarrow> strip_tag tag s (p + 1)))"
  by pat_completeness auto

termination strip_tag
proof (relation "measures [\<lambda>(tag, s, pos). length s, \<lambda>(tag, s, pos). length s - pos]", goal_cases)
  case (2 tag s pos p)
  then show ?case using find_from_Some [of s tag pos p] by (cases tag) auto
next
  case (3 tag s pos p e)
  then show ?case using find_from_Some [of s "''>''" p e] by (auto simp: erase_at_def)
qed simp

text \<open>4. Event handlers.\<close>

definition handler_end :: "string \<Rightarrow> nat \<Rightarrow> nat option" where
  "handler_end s p =
     (case find_from s ''='' p of
        None \<Rightarrow> None
      | Some eq \<Rightarrow>
          if eq - p < 20 then
            (case find_first_of s [CHR 0x22, CHR 0x27] eq of
               None \<Rightarrow> None
             | Some q \<Rightarrow> find_from s [s ! q] (q + 1))
          else None)"

function strip_handler :: "string \<Rightarrow> string \<Rightarrow> nat \<Rightarrow> string" where
  "strip_handler attr s pos =
     (if attr = [] then s
      else case find_from s attr pos of
        None \<Rightarrow> s
      | Some p \<Rightarrow>
          if p > 0 \<and> \<not> is_space (s ! (p - 1)) \<and> s ! (p - 1) \<noteq> CHR ''<'' then strip_handler attr s (p + 1)
          else
            (case handler_end s p of
               Some e \<Rightarrow> strip_handler attr (erase_at s p (e - p + 1)) p
             | None \<Rightarrow> strip_handler attr s (p + 1)))"
  by pat_completeness auto

lemma handler_end_Some: "handler_end s p = Some e \<Longrightarrow> p < e \<and> e < length s"
  using find_from_Some [of s "''=''" p] find_first_of_Some [of s "[CHR 0x22, CHR 0x27]"] find_from_Some [of s "[s ! _]" _ e]
  by (fastforce simp: handler_end_def split: option.splits if_splits)

termination strip_handler
proof (relation "measures [\<lambda>(attr, s, pos). length s, \<lambda>(attr, s, pos). length s - pos]", goal_cases)
  case (2 attr s pos p)
  then show ?case using find_from_Some [of s attr pos p] by (cases attr) auto
next
  case (3 attr s pos p)
  then show ?case using find_from_Some [of s attr pos p] by (cases attr) auto
next
  case (4 attr s pos p e)
  then show ?case using handler_end_Some [of s p e] by (auto simp: erase_at_def)
qed simp

definition event_attrs :: "string list" where
  "event_attrs = [''onclick'', ''ondblclick'', ''onmousedown'', ''onmouseup'', ''onmouseover'', ''onmouseout'', ''onmousemove'',
     ''onmouseenter'', ''onmouseleave'', ''onkeydown'', ''onkeyup'', ''onkeypress'', ''onload'', ''onunload'', ''onerror'', ''onabort'',
     ''onblur'', ''onchange'', ''onfocus'', ''onreset'', ''onselect'', ''onsubmit'', ''onscroll'', ''onresize'', ''ondrag'', ''ondrop'',
     ''oncontextmenu'', ''oninput'', ''oninvalid'', ''onsearch'']"

text \<open>5. \<open>javascript:\<close> addresses: the quoted text around one is replaced by an empty one.\<close>

definition quoted_around :: "string \<Rightarrow> nat \<Rightarrow> (nat \<times> nat) option" where
  "quoted_around s p =
     (case rfind_char s (CHR 0x22) p of
        None \<Rightarrow> None
      | Some a \<Rightarrow> (case find_from s [CHR 0x22] p of None \<Rightarrow> None | Some b \<Rightarrow> Some (a, b)))"

definition blank_quoted :: "string \<Rightarrow> nat \<Rightarrow> nat \<Rightarrow> string" where
  "blank_quoted s a b = insert_at (erase_at s a (b - a + 1)) a [CHR 0x22, CHR 0x22]"

function strip_javascript :: "string \<Rightarrow> nat \<Rightarrow> string" where
  "strip_javascript s pos =
     (case find_from s ''javascript:'' pos of
        None \<Rightarrow> s
      | Some p \<Rightarrow>
          (case quoted_around s p of
             Some (a, b) \<Rightarrow> strip_javascript (blank_quoted s a b) p
           | None \<Rightarrow> strip_javascript s (p + 1)))"
  by pat_completeness auto

lemma rfind_char_Some: "rfind_char s c p = Some a \<Longrightarrow> a \<le> p \<and> a < length s \<and> s ! a = c"
proof -
  assume "rfind_char s c p = Some a"
  then obtain n where n: "first_of [c] (rev (take (Suc p) s)) = Some n" "a = length (take (Suc p) s) - 1 - n"
    by (auto simp: rfind_char_def split: option.splits)
  have "n < length (take (Suc p) s)" "rev (take (Suc p) s) ! n = c" using first_of_Some [OF n(1)] by simp_all
  then show ?thesis using n(2) by (auto simp: rev_nth)
qed

text \<open>A quoted text around a position that does not hold a quote has at least three characters.\<close>

lemma quoted_around_Some:
  assumes "quoted_around s p = Some (a, b)" "s ! p \<noteq> CHR 0x22"
  shows "a < p \<and> p < b \<and> b < length s"
proof -
  have a: "a \<le> p \<and> s ! a = CHR 0x22" using assms(1) rfind_char_Some [of s "CHR 0x22" p] by (auto simp: quoted_around_def split: option.splits)
  have b: "p \<le> b \<and> b + 1 \<le> length s \<and> take 1 (drop b s) = [CHR 0x22]"
    using assms(1) find_from_Some [of s "[CHR 0x22]" p] by (auto simp: quoted_around_def split: option.splits)
  then have "s ! b = CHR 0x22" by (cases "drop b s") (auto simp: nth_via_drop)
  then show ?thesis using a b assms(2) by (metis Suc_eq_plus1 Suc_le_eq order_le_less)
qed

lemma find_from_char: "find_from s (c # cs) pos = Some p \<Longrightarrow> p < length s \<and> s ! p = c"
  using find_from_Some [of s "c # cs" pos p] by (cases "drop p s") (auto simp: nth_via_drop)

lemma blank_quoted_shorter: "a + 1 < p \<or> p + 1 < b \<Longrightarrow> a < p \<Longrightarrow> p < b \<Longrightarrow> b < length s \<Longrightarrow> length (blank_quoted s a b) < length s"
  by (auto simp: blank_quoted_def erase_at_def insert_at_def)

lemma quoted_pattern_shorter:
  assumes "find_from s (c # d # cs) pos = Some p" "quoted_around s p = Some (a, b)" "c \<noteq> CHR 0x22" "d \<noteq> CHR 0x22"
  shows "length (blank_quoted s a b) < length s"
proof -
  have p: "p < length s" "s ! p = c" using find_from_char [OF assms(1)] by simp_all
  note q = quoted_around_Some [OF assms(2)]
  have "take (length (c # d # cs)) (drop p s) = c # d # cs" using find_from_Some [OF assms(1)] by blast
  then obtain r where "drop p s = c # d # r" by (cases "drop p s"; cases "tl (drop p s)") auto
  then have "s ! Suc p = d" by (metis nth_via_drop Cons_nth_drop_Suc list.inject p(1))
  moreover have "s ! b = CHR 0x22"
    using assms(2) find_from_char [of s "CHR 0x22" "[]" p] by (auto simp: quoted_around_def split: option.splits)
  ultimately have "b \<noteq> Suc p" using assms(4) by auto
  then show ?thesis using q p assms(3) by (intro blank_quoted_shorter) auto
qed

termination strip_javascript
proof (relation "measures [\<lambda>(s, pos). length s, \<lambda>(s, pos). length s - pos]", goal_cases)
  case (2 s pos p)
  then show ?case using find_from_Some [of s "''javascript:''" pos p] by auto
next
  case (3 s pos p x a b)
  then show ?case using quoted_pattern_shorter [of s "CHR ''j''" "CHR ''a''" "''vascript:''" pos p a b] by simp
qed simp

text \<open>6. \<open>data:\<close> addresses, except near an image.\<close>

definition near_image :: "string \<Rightarrow> nat \<Rightarrow> bool" where
  "near_image s p =
     (let start = (if p > 20 then p - 20 else 0); ctx = take (p - start + 10) (drop start s)
      in \<not> (find_from ctx ''<img'' 0 = None \<and> find_from ctx ''src='' 0 = None))"

function strip_data :: "string \<Rightarrow> nat \<Rightarrow> string" where
  "strip_data s pos =
     (case find_from s ''data:'' pos of
        None \<Rightarrow> s
      | Some p \<Rightarrow>
          if \<not> near_image s p then
            (case quoted_around s p of
               Some (a, b) \<Rightarrow> strip_data (blank_quoted s a b) (p + 1)
             | None \<Rightarrow> strip_data s (p + 1))
          else strip_data s (p + 1))"
  by pat_completeness auto

termination strip_data
proof (relation "measures [\<lambda>(s, pos). length s, \<lambda>(s, pos). length s - pos]", goal_cases)
  case (2 s pos p)
  then show ?case using find_from_Some [of s "''data:''" pos p] by auto
next
  case (3 s pos p x a b)
  then show ?case using quoted_pattern_shorter [of s "CHR ''d''" "CHR ''a''" "''ta:''" pos p a b] by simp
next
  case (4 s pos p)
  then show ?case using find_from_Some [of s "''data:''" pos p] by auto
qed simp

text \<open>7. Styles.\<close>

definition dangerous_style :: "string \<Rightarrow> bool" where
  "dangerous_style t \<longleftrightarrow> find_from t ''expression'' 0 \<noteq> None \<or> find_from t ''behavior'' 0 \<noteq> None \<or>
     find_from t ''javascript:'' 0 \<noteq> None \<or> find_from t ''@import'' 0 \<noteq> None"

definition style_end :: "string \<Rightarrow> nat \<Rightarrow> nat option" where
  "style_end s p =
     (case find_first_of s [CHR 0x22, CHR 0x27] (p + 6) of
        None \<Rightarrow> None
      | Some q \<Rightarrow>
          (case find_from s [s ! q] (q + 1) of
             None \<Rightarrow> None
           | Some e \<Rightarrow> if dangerous_style (take (e - q - 1) (drop (q + 1) s)) then Some e else None))"

function strip_styles :: "string \<Rightarrow> nat \<Rightarrow> string" where
  "strip_styles s pos =
     (case find_from s ''style='' pos of
        None \<Rightarrow> s
      | Some p \<Rightarrow>
          (case style_end s p of
             Some e \<Rightarrow> strip_styles (erase_at s p (e - p + 1)) p
           | None \<Rightarrow> strip_styles s (p + 1)))"
  by pat_completeness auto

lemma style_end_Some:
  assumes "style_end s p = Some e"
  shows "p < e \<and> e < length s"
proof -
  obtain q where q: "find_first_of s [CHR 0x22, CHR 0x27] (p + 6) = Some q" "find_from s [s ! q] (q + 1) = Some e"
    using assms by (auto simp: style_end_def split: option.splits if_split_asm)
  then show ?thesis using find_first_of_Some [OF q(1)] find_from_Some [OF q(2)] by simp
qed

termination strip_styles
proof (relation "measures [\<lambda>(s, pos). length s, \<lambda>(s, pos). length s - pos]", goal_cases)
  case (2 s pos p)
  then show ?case using find_from_Some [of s "''style=''" pos p] by auto
next
  case (3 s pos p e)
  then show ?case using style_end_Some [of s p e] by (auto simp: erase_at_def)
qed simp

text \<open>8. A \<open>sandbox\<close> attribute for the \<open>iframe\<close> tags that are left.\<close>

definition SANDBOX :: string where
  "SANDBOX = '' sandbox='' @ [CHR 0x22, CHR 0x22]"

definition add_sandbox :: "string \<Rightarrow> nat \<Rightarrow> string" where
  "add_sandbox s p =
     (case find_from s ''>'' p of
        None \<Rightarrow> s
      | Some e \<Rightarrow> if find_from (take (e - p) (drop p s)) ''sandbox'' 0 = None then insert_at s e SANDBOX else s)"

function sandbox_iframes :: "string \<Rightarrow> nat \<Rightarrow> string" where
  "sandbox_iframes s pos =
     (case find_from s ''<iframe'' pos of
        None \<Rightarrow> s
      | Some p \<Rightarrow> sandbox_iframes (add_sandbox s p) (p + 1))"
  by pat_completeness auto

lemma add_sandbox_after:
  assumes "p < length s" "s ! p = CHR ''<''"
  shows "count_list (drop (p + 1) (add_sandbox s p)) (CHR ''<'') = count_list (drop (p + 1) s) (CHR ''<'')"
proof (cases "find_from s ''>'' p")
  case None
  then show ?thesis by (simp add: add_sandbox_def)
next
  case (Some e)
  have e: "p \<le> e" "e < length s" "s ! e = CHR ''>''"
    using find_from_Some [OF Some] find_from_char [of s "CHR ''>''" "[]" p e] Some by auto
  then have "p < e" using assms(2) by (cases "p = e") auto
  then have "drop (p + 1) (insert_at s e SANDBOX) = take (e - (p + 1)) (drop (p + 1) s) @ SANDBOX @ drop e s"
    using e by (simp add: insert_at_def drop_take)
  moreover have "drop (p + 1) s = take (e - (p + 1)) (drop (p + 1) s) @ drop e s"
    using \<open>p < e\<close> by (metis Suc_eq_plus1 Suc_leI append_take_drop_id drop_drop le_add_diff_inverse2)
  then have "count_list (drop (p + 1) s) (CHR ''<'') = count_list (take (e - (p + 1)) (drop (p + 1) s)) (CHR ''<'') + count_list (drop e s) (CHR ''<'')"
    by (metis count_list_append)
  moreover have "count_list SANDBOX (CHR ''<'') = 0" by (simp add: SANDBOX_def)
  ultimately show ?thesis using Some by (simp add: add_sandbox_def count_list_append del: drop_drop)
qed

termination sandbox_iframes
proof (relation "measure (\<lambda>(s, pos). count_list (drop pos s) (CHR ''<''))", goal_cases)
  case (2 s pos p)
  have p: "p < length s" "s ! p = CHR ''<''" "pos \<le> p" using find_from_char [OF 2] find_from_Some [OF 2] by auto
  have "drop pos s = take (p - pos) (drop pos s) @ s ! p # drop (p + 1) s"
    using p by (metis Cons_nth_drop_Suc Suc_eq_plus1 append_take_drop_id drop_drop le_add_diff_inverse2)
  then have "count_list (drop pos s) (CHR ''<'') = count_list (take (p - pos) (drop pos s) @ s ! p # drop (p + 1) s) (CHR ''<'')"
    by (rule arg_cong)
  then have "count_list (drop (p + 1) s) (CHR ''<'') < count_list (drop pos s) (CHR ''<'')" using p(2) by (simp add: count_list_append)
  then show ?case using add_sandbox_after [OF p(1,2)] by simp
qed simp

declare strip_scripts.simps [simp del] strip_tag.simps [simp del] strip_handler.simps [simp del] strip_javascript.simps [simp del]
  strip_data.simps [simp del] strip_styles.simps [simp del] sandbox_iframes.simps [simp del]

definition sanitize_html :: "bytes \<Rightarrow> bytes option" where
  "sanitize_html html =
     (case strip_iframes (strip_scripts (string_of_bytes html) 0) 0 of
        None \<Rightarrow> None
      | Some s \<Rightarrow>
          let s = fold (\<lambda>tag s. strip_tag tag s 0) [''<object'', ''<embed'', ''<applet''] s;
              s = fold (\<lambda>attr s. strip_handler attr s 0) event_attrs s;
              s = strip_javascript s 0;
              s = strip_data s 0;
              s = strip_styles s 0;
              s = sandbox_iframes s 0
          in Some (bytes_of_string s))"

section \<open>When the sanitizer returns\<close>

lemma find_from_short: "length s < pos + length pat \<Longrightarrow> find_from s pat pos = None"
  using find_from_Some [of s pat pos] by (cases "find_from s pat pos") fastforce+

text \<open>A removal keeps the end of the text, or removes it and leaves nothing behind the position.\<close>

lemma erase_keeps_end:
  assumes "s \<noteq> []" "p + n \<le> length s"
  shows "length (erase_at s p n) \<le> p \<or> (erase_at s p n \<noteq> [] \<and> last (erase_at s p n) = last s)"
  using assms by (cases "p + n = length s") (auto simp: erase_at_def)

lemma find_in_char: "c \<in> set s \<Longrightarrow> find_in [c] s \<noteq> None"
  by (induction s) auto

lemma find_closing:
  assumes "s \<noteq> []" "last s = c" "p < length s"
  obtains b where "find_from s [c] p = Some b" "p \<le> b" "b < length s"
proof -
  have "c \<in> set (drop p s)" using assms by (metis drop_eq_Nil last_drop last_in_set not_le)
  then have "find_in [c] (drop p s) \<noteq> None" by (rule find_in_char)
  then obtain b where b: "find_from s [c] p = Some b" using assms(3) by (auto simp: find_from_def)
  then show thesis using that find_from_Some [OF b] by simp
qed

lemma strip_iframes_returns:
  assumes "s = [] \<or> last s = CHR ''>'' \<or> length s \<le> pos"
  shows "\<exists>t. strip_iframes s pos = Some t"
  using assms
proof (induction "length s" arbitrary: s pos rule: less_induct)
  case less
  show ?case
  proof (cases "find_from s ''<iframe'' pos")
    case None
    then show ?thesis by (simp add: strip_iframes.simps [of s pos])
  next
    case (Some p)
    have p: "pos \<le> p" "p < length s" using find_from_Some [OF Some] by auto
    then have s: "s \<noteq> []" "last s = CHR ''>''" using less.prems by auto
    have again: "\<exists>t. strip_iframes (erase_at s p n) p = Some t" if "0 < n" "p + n \<le> length s" for n
      using less.hyps [of "erase_at s p n" p] erase_at_shorter [OF that] erase_keeps_end [OF s(1) that(2)] s(2) that p by auto
    show ?thesis
    proof (cases "find_from s ''</iframe>'' p")
      case None
      obtain b where "find_from s ''>'' p = Some b" "p \<le> b" "b < length s" using find_closing [OF s p(2)] .
      then show ?thesis using Some None again [of "b - p + 1"] by (simp add: strip_iframes.simps [of s pos])
    next
      case e: (Some e)
      then show ?thesis using Some again [of "e - p + 9"] find_from_Some [OF e] by (simp add: strip_iframes.simps [of s pos])
    qed
  qed
qed

text \<open>
  the sanitizer returns when the text that is left after the removal of scripts is empty or ends with the
  end of a tag, as every complete HTML document does.
\<close>

theorem sanitizer_returns:
  assumes "strip_scripts (string_of_bytes html) 0 = [] \<or> last (strip_scripts (string_of_bytes html) 0) = CHR ''>''"
  shows "\<exists>clean. sanitize_html html = Some clean"
proof -
  obtain t where "strip_iframes (strip_scripts (string_of_bytes html) 0) 0 = Some t"
    using strip_iframes_returns [of "strip_scripts (string_of_bytes html) 0" 0] assms by blast
  then show ?thesis by (simp add: sanitize_html_def Let_def)
qed

theorem sanitizer_returns_witness: "\<exists>clean. sanitize_html (bytes_of_string ''<p><iframe></p>'') = Some clean"
  by (rule sanitizer_returns) (simp add: strip_scripts.simps find_from_def)

text \<open>An \<open>iframe\<close> tag that is never closed keeps it busy for ever.\<close>

lemma strip_iframes_stuck:
  assumes "strip_iframes s pos = Some t"
  shows "\<not> (pos = 0 \<and> s = ''<iframe'')"
  by (rule strip_iframes.raw_induct [where P = "\<lambda>s pos t. \<not> (pos = 0 \<and> s = ''<iframe'')", OF _ assms])
    (auto simp: find_from_def, blast)

theorem open_iframe_never_ends: "sanitize_html (bytes_of_string ''<iframe'') = None"
proof -
  have "strip_iframes ''<iframe'' 0 = None" using strip_iframes_stuck [of "''<iframe''" 0] by (cases "strip_iframes ''<iframe'' 0") auto
  then show ?thesis by (simp add: sanitize_html_def strip_scripts.simps find_from_def)
qed

text \<open>A script that follows a letter or digit is not removed, nor is one that appears when another is removed.\<close>

theorem script_after_letter_survives: "strip_scripts ''a<script></script>'' 0 = ''a<script></script>''"
  by (simp add: strip_scripts.simps find_from_def isalnum_def)

theorem joined_script_survives: "strip_scripts ''<<script></script>script>'' 0 = ''<script>''"
  by (simp add: strip_scripts.simps find_from_def erase_at_def isalnum_def)

end
