(* ===== verification/Renderer.thy ===== *)
theory Renderer
  imports Sanitizer Content_Integrity Floats "HOL-Library.Signed_Division" "HOL-Library.Multiset"
begin

text \<open>
  The content renderer of the gateway with its cache, and the HTTP answers made from what it renders:
  \<open>src/gateway/content_renderer.cpp\<close>.

  The callback that fetches a content is a function of the renderer; an exception that it throws is caught and
  counts as \<open>None\<close>. The clock is read once in an operation, in nanoseconds. The cache is a
  \<open>std::unordered_map\<close>: \<open>ls\<close> stands for the order in which the search for the least recently used entry visits
  the keys. \<open>H\<close> is BLAKE3. An operation that may not return gives \<open>None\<close> when it does not.
\<close>

section \<open>State\<close>

record ContentMetadata =
  cm_content_hash :: Hash256
  cm_type :: ContentType
  cm_size_bytes :: nat
  cm_mime_type :: string
  cm_last_modified :: int
  cm_is_cacheable :: bool
  cm_filename :: "string option"

record CacheEntry =
  ce_metadata :: ContentMetadata
  ce_data :: bytes
  ce_cached_at :: int
  ce_last_accessed :: int
  ce_access_count :: u64

record ContentChunk =
  cc_offset :: nat
  cc_length :: nat
  cc_data :: bytes
  cc_is_final :: bool

record ContentRendererConfig =
  rc_max_cache_size_bytes :: nat
  rc_max_cached_items :: nat
  rc_cache_ttl :: int
  rc_chunk_size :: nat
  rc_enable_range_requests :: bool
  rc_sanitize_html :: bool
  rc_block_external_scripts :: bool
  rc_allowed_origins :: "string list"
  rc_max_concurrent_fetches :: nat
  rc_fetch_timeout :: int

definition ContentRendererConfig_default :: ContentRendererConfig where
  "ContentRendererConfig_default =
     \<lparr>rc_max_cache_size_bytes = 100 * 1024 * 1024, rc_max_cached_items = 1000, rc_cache_ttl = 3600, rc_chunk_size = 64 * 1024,
      rc_enable_range_requests = True, rc_sanitize_html = True, rc_block_external_scripts = True, rc_allowed_origins = [],
      rc_max_concurrent_fetches = 10, rc_fetch_timeout = 30\<rparr>"

record RenderResult =
  rr_metadata :: ContentMetadata
  rr_data :: bytes
  rr_is_partial :: bool
  rr_range_start :: nat
  rr_range_end :: nat

record CacheStatistics =
  cs_total_items :: nat
  cs_total_bytes :: nat
  cs_hit_count :: u64
  cs_miss_count :: u64
  cs_hit_ratio :: rat
  cs_eviction_count :: u64

type_synonym content_cache = "(Hash256 \<times> CacheEntry) list"

record ContentRenderer =
  cr_config :: ContentRendererConfig
  cr_fetch_callback :: "(Hash256 \<Rightarrow> bytes option) option"
  cr_cache :: content_cache
  cr_stats :: CacheStatistics

definition ContentRenderer_new :: "ContentRendererConfig \<Rightarrow> ContentRenderer" where
  "ContentRenderer_new config =
     \<lparr>cr_config = config, cr_fetch_callback = None, cr_cache = [],
      cr_stats = \<lparr>cs_total_items = 0, cs_total_bytes = 0, cs_hit_count = 0, cs_miss_count = 0, cs_hit_ratio = 0, cs_eviction_count = 0\<rparr>\<rparr>"

definition set_fetch_callback :: "(Hash256 \<Rightarrow> bytes option) option \<Rightarrow> ContentRenderer \<Rightarrow> ContentRenderer" where
  "set_fetch_callback f r = r\<lparr>cr_fetch_callback := f\<rparr>"

section \<open>The cache\<close>

definition extract_metadata :: "int \<Rightarrow> Hash256 \<Rightarrow> bytes \<Rightarrow> ContentMetadata" where
  "extract_metadata now content_hash data =
     (let t = detect_content_type data None
      in \<lparr>cm_content_hash = content_hash, cm_type = t, cm_size_bytes = length data, cm_mime_type = get_mime_type t,
          cm_last_modified = now, cm_is_cacheable = True, cm_filename = None\<rparr>)"

definition cache_bytes :: "content_cache \<Rightarrow> nat" where
  "cache_bytes c = sum_list (map (\<lambda>(h, e). length (ce_data e)) c)"

text \<open>The search: an entry replaces the candidate when it was accessed before it.\<close>

fun lru_loop :: "content_cache \<Rightarrow> Hash256 \<Rightarrow> int \<Rightarrow> Hash256 list \<Rightarrow> Hash256" where
  "lru_loop c lru oldest [] = lru"
| "lru_loop c lru oldest (k # ks) =
     (case map_of c k of
        None \<Rightarrow> lru_loop c lru oldest ks
      | Some e \<Rightarrow> if ce_last_accessed e < oldest then lru_loop c k (ce_last_accessed e) ks else lru_loop c lru oldest ks)"

definition bump_eviction :: "CacheStatistics \<Rightarrow> CacheStatistics" where
  "bump_eviction s = s\<lparr>cs_eviction_count := cs_eviction_count s + 1\<rparr>"

definition evict_lru :: "(Hash256 list \<Rightarrow> Hash256 list) \<Rightarrow> ContentRenderer \<Rightarrow> ContentRenderer" where
  "evict_lru ls r =
     (case ls (map fst (cr_cache r)) of
        [] \<Rightarrow> r
      | k # ks \<Rightarrow>
          (case map_of (cr_cache r) k of
             None \<Rightarrow> r
           | Some e \<Rightarrow>
               r\<lparr>cr_cache := omap_erase (lru_loop (cr_cache r) k (ce_last_accessed e) (k # ks)) (cr_cache r),
                 cr_stats := bump_eviction (cr_stats r)\<rparr>))"

definition add_to_cache :: "(Hash256 list \<Rightarrow> Hash256 list) \<Rightarrow> int \<Rightarrow> Hash256 \<Rightarrow> bytes \<Rightarrow> ContentRenderer \<Rightarrow> ContentRenderer" where
  "add_to_cache ls now content_hash data r =
     (let current_size = cache_bytes (cr_cache r);
          r1 = (if rc_max_cache_size_bytes (cr_config r) < current_size + length data \<or>
                   rc_max_cached_items (cr_config r) \<le> length (cr_cache r)
                then evict_lru ls r else r);
          entry = \<lparr>ce_metadata = extract_metadata now content_hash data, ce_data = data, ce_cached_at = now,
                   ce_last_accessed = now, ce_access_count = 0\<rparr>
      in r1\<lparr>cr_cache := omap_set content_hash entry (cr_cache r1)\<rparr>)"

definition get_from_cache :: "int \<Rightarrow> Hash256 \<Rightarrow> ContentRenderer \<Rightarrow> CacheEntry option \<times> ContentRenderer" where
  "get_from_cache now content_hash r =
     (case map_of (cr_cache r) content_hash of
        None \<Rightarrow> (None, r)
      | Some e \<Rightarrow>
          let e1 = e\<lparr>ce_last_accessed := now, ce_access_count := ce_access_count e + 1\<rparr>
          in (Some e1, r\<lparr>cr_cache := omap_set content_hash e1 (cr_cache r)\<rparr>))"

definition fetch_from_network :: "Hash256 \<Rightarrow> ContentRenderer \<Rightarrow> bytes option" where
  "fetch_from_network content_hash r =
     (case cr_fetch_callback r of None \<Rightarrow> None | Some f \<Rightarrow> f content_hash)"

definition is_cached :: "Hash256 \<Rightarrow> ContentRenderer \<Rightarrow> bool" where
  "is_cached content_hash r \<longleftrightarrow> map_of (cr_cache r) content_hash \<noteq> None"

definition prefetch :: "(Hash256 list \<Rightarrow> Hash256 list) \<Rightarrow> int \<Rightarrow> Hash256 \<Rightarrow> ContentRenderer \<Rightarrow> bool \<times> ContentRenderer" where
  "prefetch ls now content_hash r =
     (if is_cached content_hash r then (True, r)
      else case fetch_from_network content_hash r of
        None \<Rightarrow> (False, r)
      | Some data \<Rightarrow> (True, add_to_cache ls now content_hash data r))"

definition invalidate_cache :: "Hash256 option \<Rightarrow> ContentRenderer \<Rightarrow> ContentRenderer" where
  "invalidate_cache content_hash r =
     (case content_hash of
        Some h \<Rightarrow> (if is_cached h r then r\<lparr>cr_cache := omap_erase h (cr_cache r)\<rparr> else r)
      | None \<Rightarrow> r\<lparr>cr_cache := []\<rparr>)"

definition cleanup_expired :: "int \<Rightarrow> ContentRenderer \<Rightarrow> ContentRenderer" where
  "cleanup_expired now r =
     r\<lparr>cr_cache := filter (\<lambda>(h, e). \<not> rc_cache_ttl (cr_config r) < (now - ce_cached_at e) sdiv 1000000000) (cr_cache r)\<rparr>"

definition get_cache_stats :: "ContentRenderer \<Rightarrow> CacheStatistics" where
  "get_cache_stats r =
     (let stats = (cr_stats r)\<lparr>cs_total_items := length (cr_cache r), cs_total_bytes := cache_bytes (cr_cache r)\<rparr>;
          total_requests = cs_hit_count stats + cs_miss_count stats
      in if 0 < total_requests
         then stats\<lparr>cs_hit_ratio := fl_round 52 (-1022)
                (fl_round 52 (-1022) (of_nat (unat (cs_hit_count stats))) / fl_round 52 (-1022) (of_nat (unat total_requests)))\<rparr>
         else stats)"

section \<open>Rendering\<close>

definition count_hit :: "ContentRenderer \<Rightarrow> ContentRenderer" where
  "count_hit r = r\<lparr>cr_stats := (cr_stats r)\<lparr>cs_hit_count := cs_hit_count (cr_stats r) + 1\<rparr>\<rparr>"

definition count_miss :: "ContentRenderer \<Rightarrow> ContentRenderer" where
  "count_miss r = r\<lparr>cr_stats := (cr_stats r)\<lparr>cs_miss_count := cs_miss_count (cr_stats r) + 1\<rparr>\<rparr>"

text \<open>From the cache or, after the check of its hash, from the network.\<close>

definition obtain_content ::
    "(bytes \<Rightarrow> Hash256) \<Rightarrow> (Hash256 list \<Rightarrow> Hash256 list) \<Rightarrow> int \<Rightarrow> Hash256 \<Rightarrow> ContentRenderer \<Rightarrow> bytes option \<times> ContentRenderer" where
  "obtain_content H ls now content_hash r =
     (case get_from_cache now content_hash r of
        (Some e, r1) \<Rightarrow> (Some (ce_data e), count_hit r1)
      | (None, r1) \<Rightarrow>
          (case fetch_from_network content_hash r1 of
             None \<Rightarrow> (None, count_miss r1)
           | Some data \<Rightarrow>
               if \<not> vr_is_valid (verify_content H data content_hash) then (None, count_miss r1)
               else (Some data, count_miss (add_to_cache ls now content_hash data r1))))"

text \<open>The bytes that are asked for.\<close>

definition cut_range :: "ContentRendererConfig \<Rightarrow> (nat \<times> nat) option \<Rightarrow> ContentMetadata \<Rightarrow> bytes \<Rightarrow> RenderResult option" where
  "cut_range cfg rng metadata data =
     (case (if rc_enable_range_requests cfg then rng else None) of
        Some (range_start, range_end) \<Rightarrow>
          if length data \<le> range_start \<or> length data \<le> range_end \<or> range_end < range_start then None
          else Some \<lparr>rr_metadata = metadata, rr_data = take (range_end + 1 - range_start) (drop range_start data),
                     rr_is_partial = True, rr_range_start = range_start, rr_range_end = range_end\<rparr>
      | None \<Rightarrow> Some \<lparr>rr_metadata = metadata, rr_data = data, rr_is_partial = False, rr_range_start = 0, rr_range_end = 0\<rparr>)"

definition render_content ::
    "(bytes \<Rightarrow> Hash256) \<Rightarrow> (Hash256 list \<Rightarrow> Hash256 list) \<Rightarrow> int \<Rightarrow> Hash256 \<Rightarrow> (nat \<times> nat) option \<Rightarrow> ContentRenderer \<Rightarrow>
     (RenderResult option \<times> ContentRenderer) option" where
  "render_content H ls now content_hash rng r =
     (case obtain_content H ls now content_hash r of
        (None, r1) \<Rightarrow> Some (None, r1)
      | (Some data, r1) \<Rightarrow>
          let metadata = extract_metadata now content_hash data
          in case cut_range (cr_config r) rng metadata data of
               None \<Rightarrow> Some (None, r1)
             | Some result \<Rightarrow>
                 if rc_sanitize_html (cr_config r) \<and> cm_type metadata = HTML
                 then (case sanitize_html (rr_data result) of
                         None \<Rightarrow> None
                       | Some clean \<Rightarrow> Some (Some (result\<lparr>rr_data := clean\<rparr>), r1))
                 else Some (Some result, r1))"

partial_function (option) chunk_loop :: "nat \<Rightarrow> bytes \<Rightarrow> nat \<Rightarrow> ContentChunk list \<Rightarrow> ContentChunk list option" where
  "chunk_loop chunk_size data offset sent =
     (if offset < length data
      then let chunk_length = min chunk_size (length data - offset)
           in chunk_loop chunk_size data (offset + chunk_length)
                (sent @ [\<lparr>cc_offset = offset, cc_length = chunk_length, cc_data = take chunk_length (drop offset data),
                          cc_is_final = (length data \<le> offset + chunk_length)\<rparr>])
      else Some sent)"

text \<open>
  The chunks are those given to the callback. The message logged at the end divides by the size of a chunk.
\<close>

definition stream_content ::
    "(bytes \<Rightarrow> Hash256) \<Rightarrow> (Hash256 list \<Rightarrow> Hash256 list) \<Rightarrow> int \<Rightarrow> Hash256 \<Rightarrow> bool \<Rightarrow> ContentRenderer \<Rightarrow>
     (bool \<times> ContentChunk list \<times> ContentRenderer) option" where
  "stream_content H ls now content_hash chunk_callback r =
     (if \<not> chunk_callback then Some (False, [], r)
      else case render_content H ls now content_hash None r of
        None \<Rightarrow> None
      | Some (None, r1) \<Rightarrow> Some (False, [], r1)
      | Some (Some result, r1) \<Rightarrow>
          (case chunk_loop (rc_chunk_size (cr_config r)) (rr_data result) 0 [] of
             None \<Rightarrow> None
           | Some sent \<Rightarrow> if rc_chunk_size (cr_config r) = 0 then None else Some (True, sent, r1)))"

section \<open>HTTP answers\<close>

record ContentHttpResponse =
  hr_status_code :: int
  hr_headers :: "string \<rightharpoonup> string"
  hr_body :: bytes

definition from_render_result :: "RenderResult \<Rightarrow> bool \<Rightarrow> ContentHttpResponse" where
  "from_render_result result include_content_length =
     (let h = [''Content-Type'' \<mapsto> cm_mime_type (rr_metadata result)];
          h = (if include_content_length then h(''Content-Length'' \<mapsto> decimal (length (rr_data result))) else h);
          h = (if cm_is_cacheable (rr_metadata result)
               then h(''Cache-Control'' \<mapsto> ''public, max-age=3600'',
                      ''ETag'' \<mapsto> CHR 0x22 # hash_to_hex (cm_content_hash (rr_metadata result)) @ [CHR 0x22])
               else h(''Cache-Control'' \<mapsto> ''no-cache, no-store, must-revalidate''))
      in \<lparr>hr_status_code = 200, hr_headers = h, hr_body = rr_data result\<rparr>)"

definition not_found_body :: string where
  "not_found_body = ''{'' @ [CHR 0x22] @ ''error'' @ [CHR 0x22] @ '': '' @ [CHR 0x22] @ ''Content not found'' @ [CHR 0x22] @ ''}''"

definition not_found :: ContentHttpResponse where
  "not_found =
     \<lparr>hr_status_code = 404,
      hr_headers = [''Content-Type'' \<mapsto> ''application/json'', ''Content-Length'' \<mapsto> decimal (length not_found_body)],
      hr_body = bytes_of_string not_found_body\<rparr>"

definition partial_content :: "RenderResult \<Rightarrow> nat \<Rightarrow> ContentHttpResponse" where
  "partial_content result total_size =
     \<lparr>hr_status_code = 206,
      hr_headers = [''Content-Type'' \<mapsto> cm_mime_type (rr_metadata result),
         ''Content-Length'' \<mapsto> decimal (length (rr_data result)),
         ''Content-Range'' \<mapsto> ''bytes '' @ decimal (rr_range_start result) @ ''-'' @ decimal (rr_range_end result) @ ''/'' @ decimal total_size,
         ''Accept-Ranges'' \<mapsto> ''bytes''],
      hr_body = rr_data result\<rparr>"

definition range_not_satisfiable :: "nat \<Rightarrow> ContentHttpResponse" where
  "range_not_satisfiable total_size =
     \<lparr>hr_status_code = 416, hr_headers = [''Content-Range'' \<mapsto> ''bytes */'' @ decimal total_size], hr_body = []\<rparr>"

section \<open>What is served\<close>

text \<open>No name is given to the detection, so that no content counts as HTML and every rendering returns.\<close>

lemma detected_not_HTML: "detect_content_type data None \<noteq> HTML"
  by (simp add: detect_content_type_def Let_def)

lemma render_content_eq:
  "render_content H ls now h rng r =
     (case obtain_content H ls now h r of
        (None, r1) \<Rightarrow> Some (None, r1)
      | (Some d, r1) \<Rightarrow> Some (cut_range (cr_config r) rng (extract_metadata now h d) d, r1))"
  by (simp add: render_content_def extract_metadata_def Let_def detected_not_HTML split: prod.split option.split)

datatype renderer_op =
    Render int Hash256 "(nat \<times> nat) option"
  | Stream int Hash256
  | Prefetch int Hash256
  | Invalidate "Hash256 option"
  | Expire int
  | Set_fetch "(Hash256 \<Rightarrow> bytes option) option"

fun renderer_step :: "(bytes \<Rightarrow> Hash256) \<Rightarrow> (Hash256 list \<Rightarrow> Hash256 list) \<Rightarrow> renderer_op \<Rightarrow> ContentRenderer \<Rightarrow> ContentRenderer option" where
  "renderer_step H ls (Render now h rng) r = map_option snd (render_content H ls now h rng r)"
| "renderer_step H ls (Stream now h) r = map_option (snd \<circ> snd) (stream_content H ls now h True r)"
| "renderer_step H ls (Prefetch now h) r = Some (snd (prefetch ls now h r))"
| "renderer_step H ls (Invalidate h) r = Some (invalidate_cache h r)"
| "renderer_step H ls (Expire now) r = Some (cleanup_expired now r)"
| "renderer_step H ls (Set_fetch f) r = Some (set_fetch_callback f r)"

fun renderer_run :: "(bytes \<Rightarrow> Hash256) \<Rightarrow> (Hash256 list \<Rightarrow> Hash256 list) \<Rightarrow> renderer_op list \<Rightarrow> ContentRenderer \<Rightarrow> ContentRenderer option" where
  "renderer_run H ls [] r = Some r"
| "renderer_run H ls (x # xs) r = (case renderer_step H ls x r of None \<Rightarrow> None | Some r1 \<Rightarrow> renderer_run H ls xs r1)"

fun no_prefetch :: "renderer_op \<Rightarrow> bool" where
  "no_prefetch (Prefetch _ _) = False"
| "no_prefetch _ = True"

text \<open>Every cached content has the hash it is cached under.\<close>

definition cache_authentic :: "(bytes \<Rightarrow> Hash256) \<Rightarrow> content_cache \<Rightarrow> bool" where
  "cache_authentic H c \<longleftrightarrow> list_all (\<lambda>(h, e). H (ce_data e) = h) c"

lemma cache_authentic_find: "cache_authentic H c \<Longrightarrow> map_of c h = Some e \<Longrightarrow> H (ce_data e) = h"
  by (auto simp: cache_authentic_def list_all_iff dest!: map_of_SomeD)

lemma cache_authentic_set: "cache_authentic H c \<Longrightarrow> H (ce_data e) = h \<Longrightarrow> cache_authentic H (omap_set h e c)"
  using set_omap_set [of h e c] by (fastforce simp: cache_authentic_def list_all_iff)

lemma cache_authentic_filter: "cache_authentic H c \<Longrightarrow> cache_authentic H (filter P c)"
  by (auto simp: cache_authentic_def list_all_iff)

lemma evict_lru_cache: "\<exists>P. cr_cache (evict_lru ls r) = filter P (cr_cache r)"
  by (auto simp: evict_lru_def omap_erase_def intro: exI [of _ "\<lambda>_. True"] split: list.split option.split)

lemma evict_lru_config [simp]: "cr_config (evict_lru ls r) = cr_config r"
  by (simp add: evict_lru_def split: list.split option.split)

lemma add_to_cache_config [simp]: "cr_config (add_to_cache ls now h d r) = cr_config r"
  by (simp add: add_to_cache_def Let_def)

lemma add_to_cache_authentic:
  assumes "cache_authentic H (cr_cache r)" "H d = h"
  shows "cache_authentic H (cr_cache (add_to_cache ls now h d r))"
proof -
  obtain P where "cr_cache (evict_lru ls r) = filter P (cr_cache r)" using evict_lru_cache by blast
  then show ?thesis using assms by (simp add: add_to_cache_def Let_def cache_authentic_set cache_authentic_filter)
qed

lemma count_simps [simp]:
  "cr_cache (count_hit r) = cr_cache r" "cr_config (count_hit r) = cr_config r"
  "cr_cache (count_miss r) = cr_cache r" "cr_config (count_miss r) = cr_config r"
  by (simp_all add: count_hit_def count_miss_def)

lemma obtain_content_config: "cr_config (snd (obtain_content H ls now h r)) = cr_config r"
  by (simp add: obtain_content_def get_from_cache_def Let_def split: option.split)

lemma obtain_content_authentic:
  assumes "cache_authentic H (cr_cache r)" "obtain_content H ls now h r = (x, r1)"
  shows "cache_authentic H (cr_cache r1) \<and> (case x of None \<Rightarrow> True | Some d \<Rightarrow> H d = h)"
proof (cases "map_of (cr_cache r) h")
  case None
  then show ?thesis using assms add_to_cache_authentic [OF assms(1)]
    by (auto simp: obtain_content_def get_from_cache_def verify_content_def split: option.splits if_splits)
next
  case (Some e)
  then show ?thesis using assms cache_authentic_find [OF assms(1) Some]
    by (auto simp: obtain_content_def get_from_cache_def Let_def intro!: cache_authentic_set)
qed

lemma render_content_returns:
  obtains x r1 where "render_content H ls now h rng r = Some (x, r1)" "r1 = snd (obtain_content H ls now h r)"
  by (cases "obtain_content H ls now h r"; cases "fst (obtain_content H ls now h r)") (auto simp: render_content_eq)

section \<open>Streams\<close>

text \<open>Chunks that follow one another from an offset to the end of the content.\<close>

fun chunks_from :: "nat \<Rightarrow> bytes \<Rightarrow> nat \<Rightarrow> ContentChunk list \<Rightarrow> bool" where
  "chunks_from n d off [] \<longleftrightarrow> length d \<le> off"
| "chunks_from n d off (c # cs) \<longleftrightarrow>
     cc_offset c = off \<and> 0 < cc_length c \<and> cc_length c \<le> n \<and> off + cc_length c \<le> length d \<and>
     cc_data c = take (cc_length c) (drop off d) \<and> (cc_is_final c \<longleftrightarrow> cs = []) \<and> chunks_from n d (off + cc_length c) cs"

lemma chunks_from_concat: "chunks_from n d off cs \<Longrightarrow> concat (map cc_data cs) = drop off d"
proof (induction cs arbitrary: off)
  case (Cons c cs)
  then have "concat (map cc_data (c # cs)) = take (cc_length c) (drop off d) @ drop (cc_length c) (drop off d)"
    by (simp add: add.commute)
  then show ?case by (simp only: append_take_drop_id)
qed simp

lemma chunk_loop_sends:
  assumes "0 < n"
  shows "\<exists>cs. chunk_loop n d off sent = Some (sent @ cs) \<and> chunks_from n d off cs"
proof (induction "length d - off" arbitrary: off sent rule: less_induct)
  case less
  show ?case
  proof (cases "off < length d")
    case False
    then show ?thesis by (simp add: chunk_loop.simps [of n d off])
  next
    case True
    define l where "l = min n (length d - off)"
    define c where "c = \<lparr>cc_offset = off, cc_length = l, cc_data = take l (drop off d), cc_is_final = (length d \<le> off + l)\<rparr>"
    have l: "0 < l" "l \<le> n" "off + l \<le> length d" using True assms by (auto simp: l_def)
    have "length d - (off + l) < length d - off" using l(1) True by simp
    from less [OF this, of "sent @ [c]"]
    obtain cs where cs: "chunk_loop n d (off + l) (sent @ [c]) = Some ((sent @ [c]) @ cs)" "chunks_from n d (off + l) cs" by blast
    have "cs = [] \<longleftrightarrow> length d \<le> off + l" using cs(2) by (cases cs) auto
    then have "chunks_from n d off (c # cs)" using l cs(2) by (simp add: c_def)
    moreover have "chunk_loop n d off sent = Some (sent @ c # cs)"
      using True cs(1) by (simp add: chunk_loop.simps [of n d off] l_def [symmetric] c_def [symmetric] Let_def)
    ultimately show ?thesis by blast
  qed
qed

text \<open>
  streaming a content that can be rendered returns, if the configured size of a chunk is not zero. The
  chunks given to the callback follow one another without a gap, none is empty or longer than that size, exactly the last one is
  marked as final, and together they are the rendered content.
\<close>

theorem stream_complete:
  assumes "0 < rc_chunk_size (cr_config r)" "render_content H ls now h None r = Some (Some res, r1)"
  shows "\<exists>sent. stream_content H ls now h True r = Some (True, sent, r1) \<and>
     chunks_from (rc_chunk_size (cr_config r)) (rr_data res) 0 sent \<and> concat (map cc_data sent) = rr_data res"
proof -
  obtain cs where cs: "chunk_loop (rc_chunk_size (cr_config r)) (rr_data res) 0 [] = Some cs"
      "chunks_from (rc_chunk_size (cr_config r)) (rr_data res) 0 cs"
    using chunk_loop_sends [OF assms(1), of "rr_data res" 0 "[]"] by auto
  then show ?thesis using assms chunks_from_concat [OF cs(2)] by (simp add: stream_content_def)
qed

definition small_renderer :: ContentRenderer where
  "small_renderer =
     set_fetch_callback (Some (\<lambda>h. Some [1, 2, 3, 4, 5])) (ContentRenderer_new (ContentRendererConfig_default\<lparr>rc_chunk_size := 2, rc_max_cached_items := 1\<rparr>))"

lemma small_render:
  "render_content (\<lambda>d. d) id 0 [1, 2, 3, 4, 5] None small_renderer =
     Some (Some \<lparr>rr_metadata = extract_metadata 0 [1, 2, 3, 4, 5] [1, 2, 3, 4, 5], rr_data = [1, 2, 3, 4, 5], rr_is_partial = False,
                 rr_range_start = 0, rr_range_end = 0\<rparr>,
       count_miss (add_to_cache id 0 [1, 2, 3, 4, 5] [1, 2, 3, 4, 5] small_renderer))"
  by (simp add: render_content_eq obtain_content_def get_from_cache_def fetch_from_network_def verify_content_def small_renderer_def
    set_fetch_callback_def ContentRenderer_new_def cut_range_def)

theorem stream_complete_witness:
  "\<exists>sent r1. stream_content (\<lambda>d. d) id 0 [1, 2, 3, 4, 5] True small_renderer = Some (True, sent, r1) \<and>
     chunks_from 2 [1, 2, 3, 4, 5] 0 sent \<and> concat (map cc_data sent) = [1, 2, 3, 4, 5]"
proof -
  have "rc_chunk_size (cr_config small_renderer) = 2"
    by (simp add: small_renderer_def set_fetch_callback_def ContentRenderer_new_def)
  then show ?thesis using stream_complete [OF _ small_render] by auto
qed

lemma stream_content_state:
  assumes "0 < rc_chunk_size (cr_config r)"
  obtains ok sent where "stream_content H ls now h True r = Some (ok, sent, snd (obtain_content H ls now h r))"
proof -
  obtain x r1 where x: "render_content H ls now h None r = Some (x, r1)" "r1 = snd (obtain_content H ls now h r)"
    by (rule render_content_returns)
  obtain cs where "chunk_loop (rc_chunk_size (cr_config r)) (rr_data (the x)) 0 [] = Some cs"
    using chunk_loop_sends [OF assms, of "rr_data (the x)" 0 "[]"] by auto
  then show thesis using that x assms by (cases x) (auto simp: stream_content_def)
qed

section \<open>Authentic contents\<close>

text \<open>What a rendering may return for a content: the requested bytes of it.\<close>

definition served_from :: "bool \<Rightarrow> (nat \<times> nat) option \<Rightarrow> bytes \<Rightarrow> RenderResult \<Rightarrow> bool" where
  "served_from ranges rng d res =
     (case (if ranges then rng else None) of
        None \<Rightarrow> rr_data res = d \<and> \<not> rr_is_partial res
      | Some (a, b) \<Rightarrow> a \<le> b \<and> b < length d \<and> rr_is_partial res \<and> length (rr_data res) = b - a + 1 \<and>
          list_all (\<lambda>i. rr_data res ! i = d ! (a + i)) [0..<b - a + 1])"

lemma cut_range_served: "cut_range cfg rng m d = Some res \<Longrightarrow> served_from (rc_enable_range_requests cfg) rng d res"
  by (auto simp: cut_range_def served_from_def list_all_iff split: option.splits if_splits)

lemma renderer_step_authentic:
  assumes "cache_authentic H (cr_cache r)" "0 < rc_chunk_size (cr_config r)" "no_prefetch x"
  shows "\<exists>r1. renderer_step H ls x r = Some r1 \<and> cache_authentic H (cr_cache r1) \<and> cr_config r1 = cr_config r"
proof (cases x)
  case (Render now h rng)
  then show ?thesis using obtain_content_authentic [OF assms(1) prod.collapse [symmetric]] obtain_content_config
    by (rule_tac render_content_returns [of H ls now h rng r]) auto
next
  case (Stream now h)
  then show ?thesis using obtain_content_authentic [OF assms(1) prod.collapse [symmetric]] obtain_content_config
    by (rule_tac stream_content_state [OF assms(2), of H ls now h]) auto
next
  case (Invalidate h)
  then show ?thesis using assms(1)
    by (auto simp: invalidate_cache_def omap_erase_def cache_authentic_filter cache_authentic_def [of _ "[]"] split: option.split)
next
  case (Expire now)
  then show ?thesis using assms(1) by (simp add: cleanup_expired_def cache_authentic_filter)
qed (use assms in \<open>auto simp: set_fetch_callback_def\<close>)

lemma renderer_run_authentic:
  assumes "cache_authentic H (cr_cache r)" "0 < rc_chunk_size (cr_config r)" "list_all no_prefetch xs"
  shows "\<exists>r1. renderer_run H ls xs r = Some r1 \<and> cache_authentic H (cr_cache r1) \<and> cr_config r1 = cr_config r"
  using assms
proof (induction xs arbitrary: r)
  case (Cons x xs)
  obtain r1 where "renderer_step H ls x r = Some r1" "cache_authentic H (cr_cache r1)" "cr_config r1 = cr_config r"
    using renderer_step_authentic [of H r x ls] Cons.prems by auto
  then show ?case using Cons.IH [of r1] Cons.prems by simp
qed simp

text \<open>
  The bytes that are served for the requested part of a content: that part itself, or what the sanitizer
  makes of it when sanitizing is configured and the type found for the content is HTML.
\<close>

definition served_bytes :: "ContentRendererConfig \<Rightarrow> ContentMetadata \<Rightarrow> bytes \<Rightarrow> bytes option" where
  "served_bytes cfg metadata part =
     (if rc_sanitize_html cfg \<and> cm_type metadata = HTML then sanitize_html part else Some part)"

lemma render_content_served:
  assumes "obtain_content H ls now h r = (Some d, r1)" "render_content H ls now h rng r = Some (Some res, r2)"
  shows "\<exists>part. served_from (rc_enable_range_requests (cr_config r)) rng d (res\<lparr>rr_data := part\<rparr>) \<and>
    served_bytes (cr_config r) (rr_metadata res) part = Some (rr_data res)"
proof -
  let ?m = "extract_metadata now h d"
  obtain cut where c: "cut_range (cr_config r) rng ?m d = Some cut"
    using assms by (auto simp: render_content_def Let_def split: option.splits)
  have meta: "rr_metadata cut = ?m"
    using c by (auto simp: cut_range_def split: option.splits if_splits)
  have same: "res\<lparr>rr_data := rr_data cut\<rparr> = cut" "rr_metadata res = ?m"
    using assms c meta by (auto simp: render_content_def Let_def split: option.splits if_splits)
  have "served_bytes (cr_config r) ?m (rr_data cut) = Some (rr_data res)"
    using assms c by (auto simp: render_content_def served_bytes_def Let_def split: option.splits if_splits)
  with cut_range_served [OF c] same show ?thesis by metis
qed

text \<open>
  C15: whatever the fetch callbacks return, after any sequence of operations other than prefetching and
  with a size of chunks that is not zero, a request for a hash returns, and what it serves is made from the
  requested part of a content with that hash: the bytes of that part, or the output of the sanitizer for
  them when sanitizing is configured and the content was found to be HTML. The integrity check before the
  cache is what this rests on.
\<close>

theorem renderer_serves_authentic:
  assumes "0 < rc_chunk_size cfg" "list_all no_prefetch xs"
  shows "\<exists>r x r1. renderer_run H ls xs (ContentRenderer_new cfg) = Some r \<and> render_content H ls now h rng r = Some (x, r1) \<and>
     (case x of None \<Rightarrow> True
      | Some res \<Rightarrow> \<exists>d part. H d = h \<and> served_from (rc_enable_range_requests cfg) rng d (res\<lparr>rr_data := part\<rparr>) \<and>
          served_bytes cfg (rr_metadata res) part = Some (rr_data res))"
proof -
  have "cache_authentic H (cr_cache (ContentRenderer_new cfg))" "cr_config (ContentRenderer_new cfg) = cfg"
    by (simp_all add: ContentRenderer_new_def cache_authentic_def)
  then obtain r where r: "renderer_run H ls xs (ContentRenderer_new cfg) = Some r" "cache_authentic H (cr_cache r)" "cr_config r = cfg"
    using renderer_run_authentic [of H "ContentRenderer_new cfg" xs ls] assms by auto
  obtain x r1 where x: "render_content H ls now h rng r = Some (x, r1)" by (rule render_content_returns)
  obtain y r2 where y: "obtain_content H ls now h r = (y, r2)" by force
  have "\<exists>d part. H d = h \<and> served_from (rc_enable_range_requests cfg) rng d (res\<lparr>rr_data := part\<rparr>) \<and>
      served_bytes cfg (rr_metadata res) part = Some (rr_data res)" if res: "x = Some res" for res
  proof -
    obtain d where "y = Some d" using x y res by (cases y) (auto simp: render_content_eq)
    with render_content_served [of H ls now h r d r2] obtain_content_authentic [OF r(2) y] x y res r(3) show ?thesis by auto
  qed
  with r(1) x show ?thesis by (cases x) auto
qed

definition fetched_once :: "renderer_op list" where
  "fetched_once = [Set_fetch (Some (\<lambda>h. Some [1, 2, 3])), Render 0 [1, 2, 3] None, Set_fetch None]"

lemma served_again:
  "\<exists>r res r1. renderer_run (\<lambda>d. d) id fetched_once (ContentRenderer_new ContentRendererConfig_default) = Some r \<and>
     render_content (\<lambda>d. d) id 1 [1, 2, 3] (Some (1, 2)) r = Some (Some res, r1) \<and> rr_data res = [2, 3]"
  by (simp add: fetched_once_def render_content_eq obtain_content_def get_from_cache_def fetch_from_network_def verify_content_def
      set_fetch_callback_def ContentRenderer_new_def cut_range_def add_to_cache_def evict_lru_def count_miss_def Let_def
      ContentRendererConfig_default_def cache_bytes_def)

theorem renderer_serves_authentic_witness:
  "\<exists>r res r1. renderer_run (\<lambda>d. d) id fetched_once (ContentRenderer_new ContentRendererConfig_default) = Some r \<and>
     render_content (\<lambda>d. d) id 1 [1, 2, 3] (Some (1, 2)) r = Some (Some res, r1) \<and> rr_data res = [2, 3] \<and>
     (\<exists>d part. d = [1, 2, 3] \<and>
        served_from (rc_enable_range_requests ContentRendererConfig_default) (Some (1, 2)) d (res\<lparr>rr_data := part\<rparr>) \<and>
        served_bytes ContentRendererConfig_default (rr_metadata res) part = Some (rr_data res))"
proof -
  have "0 < rc_chunk_size ContentRendererConfig_default" "list_all no_prefetch fetched_once"
    by (simp_all add: ContentRendererConfig_default_def fetched_once_def)
  from renderer_serves_authentic [OF this, of "\<lambda>d. d" id 1 "[1, 2, 3]" "Some (1, 2)"]
  obtain r x r1 where 1: "renderer_run (\<lambda>d. d) id fetched_once (ContentRenderer_new ContentRendererConfig_default) = Some r"
    "render_content (\<lambda>d. d) id 1 [1, 2, 3] (Some (1, 2)) r = Some (x, r1)"
    "case x of None \<Rightarrow> True
     | Some res \<Rightarrow> \<exists>d part. d = [1, 2, 3] \<and>
         served_from (rc_enable_range_requests ContentRendererConfig_default) (Some (1, 2)) d (res\<lparr>rr_data := part\<rparr>) \<and>
         served_bytes ContentRendererConfig_default (rr_metadata res) part = Some (rr_data res)"
    by blast
  with served_again obtain res where "x = Some res" "rr_data res = [2, 3]" by auto
  with 1 show ?thesis by auto
qed

text \<open>Prefetching stores what the network gave without the check, and it is served from then on.\<close>

lemma prefetched_served_unchecked:
  assumes "fetch_from_network h r = Some d" "\<not> is_cached h r"
  shows "\<exists>res r1. render_content H ls now h None (snd (prefetch ls t h r)) = Some (Some res, r1) \<and> rr_data res = d"
  using assms
  by (auto simp: prefetch_def render_content_eq obtain_content_def get_from_cache_def add_to_cache_def Let_def cut_range_def)

text \<open>A content longer than the limit of the cache is cached none the less.\<close>

lemma byte_limit_exceeded: "length d \<le> cache_bytes (cr_cache (add_to_cache ls now h d r))"
proof -
  have "length (ce_data e) \<le> cache_bytes c" if "map_of c h = Some e" for c e
    using that by (induction c) (auto simp: cache_bytes_def split: if_splits)
  moreover obtain e where "map_of (cr_cache (add_to_cache ls now h d r)) h = Some e" "ce_data e = d"
    by (simp add: add_to_cache_def Let_def)
  ultimately show ?thesis by blast
qed

text \<open>With the sanitizer enabled, a script is served as it is.\<close>

lemma script_served:
  "\<exists>res r1. render_content (\<lambda>d. d) id 0 (bytes_of_string ''<script>x()</script>'') None
       (set_fetch_callback (Some Some) (ContentRenderer_new ContentRendererConfig_default)) = Some (Some res, r1) \<and>
     rr_data res = bytes_of_string ''<script>x()</script>''"
  by (simp add: render_content_eq obtain_content_def get_from_cache_def fetch_from_network_def verify_content_def
    set_fetch_callback_def ContentRenderer_new_def cut_range_def)

section \<open>The bound of the cache\<close>

lemma lru_loop_oldest:
  assumes "map_of c lru = Some e" "ce_last_accessed e = oldest"
  shows "\<exists>e'. map_of c (lru_loop c lru oldest ks) = Some e' \<and> ce_last_accessed e' \<le> oldest \<and>
     list_all (\<lambda>k. case map_of c k of None \<Rightarrow> True | Some e'' \<Rightarrow> ce_last_accessed e' \<le> ce_last_accessed e'') ks"
  using assms
proof (induction ks arbitrary: lru e oldest)
  case (Cons k ks)
  show ?case
  proof (cases "map_of c k")
    case None
    then show ?thesis using Cons by simp
  next
    case (Some f)
    then show ?thesis using Cons.IH [OF Cons.prems] Cons.IH [OF Some refl] by auto
  qed
qed simp

text \<open>
  eviction removes one entry, and it is one that no other entry has gone unused for longer than, in
  whatever order the table is visited.
\<close>

theorem evicts_least_recently_used:
  assumes "cr_cache r \<noteq> []" "omap_ok (cr_cache r)" "\<And>ks. mset (ls ks) = mset ks"
  shows "\<exists>k e. map_of (cr_cache r) k = Some e \<and> cr_cache (evict_lru ls r) = omap_erase k (cr_cache r) \<and>
     list_all (\<lambda>(k', e'). ce_last_accessed e \<le> ce_last_accessed e') (cr_cache r)"
proof -
  let ?c = "cr_cache r"
  have set: "set (ls (map fst ?c)) = fst ` set ?c" using mset_eq_setD [OF assms(3)] by simp
  then obtain k ks where ks: "ls (map fst ?c) = k # ks" using assms(1) by (cases "ls (map fst ?c)") auto
  have "k \<in> fst ` set ?c" using set ks by auto
  then obtain e where e: "map_of ?c k = Some e" by (metis domD dom_map_of_conv_image_fst)
  obtain e' where e': "map_of ?c (lru_loop ?c k (ce_last_accessed e) (k # ks)) = Some e'"
      "list_all (\<lambda>k. case map_of ?c k of None \<Rightarrow> True | Some e'' \<Rightarrow> ce_last_accessed e' \<le> ce_last_accessed e'') (k # ks)"
    using lru_loop_oldest [OF e refl, of "k # ks"] by blast
  have "ce_last_accessed e' \<le> ce_last_accessed f" if "(q, f) \<in> set ?c" for q f
  proof -
    have "q \<in> set (k # ks)" using that set ks by force
    moreover have "map_of ?c q = Some f" using that omap_find_iff [OF assms(2)] by simp
    ultimately show ?thesis using e'(2) by (auto simp: list_all_iff)
  qed
  then show ?thesis using e e'(1) ks by (auto simp: evict_lru_def list_all_iff simp del: lru_loop.simps)
qed

theorem evicts_least_recently_used_witness:
  "\<exists>k e. map_of (cr_cache (add_to_cache id 0 [1] [1] small_renderer)) k = Some e \<and>
     cr_cache (evict_lru id (add_to_cache id 0 [1] [1] small_renderer)) = omap_erase k (cr_cache (add_to_cache id 0 [1] [1] small_renderer)) \<and>
     list_all (\<lambda>(k', e'). ce_last_accessed e \<le> ce_last_accessed e') (cr_cache (add_to_cache id 0 [1] [1] small_renderer))"
proof (rule evicts_least_recently_used)
  have "omap_ok (cr_cache small_renderer)" by (simp add: small_renderer_def set_fetch_callback_def ContentRenderer_new_def)
  moreover have "evict_lru id small_renderer = small_renderer"
    by (simp add: evict_lru_def small_renderer_def set_fetch_callback_def ContentRenderer_new_def)
  ultimately show "omap_ok (cr_cache (add_to_cache id 0 [1] [1] small_renderer))" by (simp add: add_to_cache_def Let_def)
qed (simp_all add: add_to_cache_def Let_def)

text \<open>The cache keeps its keys apart and never holds more entries than configured (one at least).\<close>

definition cache_inv :: "ContentRenderer \<Rightarrow> bool" where
  "cache_inv r \<longleftrightarrow> omap_ok (cr_cache r) \<and> length (cr_cache r) \<le> max 1 (rc_max_cached_items (cr_config r))"

lemma evict_lru_smaller:
  assumes "omap_ok (cr_cache r)" "\<And>ks. mset (ls ks) = mset ks"
  shows "omap_ok (cr_cache (evict_lru ls r)) \<and> length (cr_cache (evict_lru ls r)) \<le> length (cr_cache r) - 1"
proof (cases "cr_cache r = []")
  case True
  then have "ls (map fst (cr_cache r)) = []" using assms(2) [of "[]"] by simp
  then show ?thesis using True by (simp add: evict_lru_def)
next
  case False
  then have "set (ls (map fst (cr_cache r))) = fst ` set (cr_cache r)" using mset_eq_setD [OF assms(2)] by simp
  then obtain k ks where ks: "ls (map fst (cr_cache r)) = k # ks" "k \<in> fst ` set (cr_cache r)"
    using False by (cases "ls (map fst (cr_cache r))") auto
  then obtain e where e: "map_of (cr_cache r) k = Some e" by (metis domD dom_map_of_conv_image_fst)
  obtain e' where "map_of (cr_cache r) (lru_loop (cr_cache r) k (ce_last_accessed e) (k # ks)) = Some e'"
    using lru_loop_oldest [OF e refl, of "k # ks"] by blast
  then have "map_of (cr_cache r) (lru_loop (cr_cache r) k (ce_last_accessed e) (k # ks)) \<noteq> None" by simp
  from length_omap_erase_present [OF this] show ?thesis
    using assms(1) ks e by (simp add: evict_lru_def del: lru_loop.simps)
qed

lemma add_to_cache_inv:
  assumes "cache_inv r" "\<And>ks. mset (ls ks) = mset ks"
  shows "cache_inv (add_to_cache ls now h d r)"
proof -
  let ?m = "rc_max_cached_items (cr_config r)"
  define r1 where "r1 = (if rc_max_cache_size_bytes (cr_config r) < cache_bytes (cr_cache r) + length d \<or> ?m \<le> length (cr_cache r)
    then evict_lru ls r else r)"
  have r: "omap_ok (cr_cache r)" "length (cr_cache r) \<le> max 1 ?m" using assms(1) by (simp_all add: cache_inv_def)
  have "omap_ok (cr_cache r1)" "Suc (length (cr_cache r1)) \<le> max 1 ?m"
    using r evict_lru_smaller [OF r(1) assms(2)] by (auto simp: r1_def max_def split: if_splits)
  moreover have "cr_config r1 = cr_config r" by (simp add: r1_def)
  ultimately show ?thesis using le_trans [OF length_omap_set]
    by (simp add: cache_inv_def add_to_cache_def Let_def r1_def [symmetric])
qed

lemma cache_inv_filter:
  assumes "cache_inv r"
  shows "cache_inv (r\<lparr>cr_cache := filter P (cr_cache r)\<rparr>)"
proof -
  have "omap_ok (cr_cache r)" "length (cr_cache r) \<le> max 1 (rc_max_cached_items (cr_config r))"
    using assms unfolding cache_inv_def by blast+
  then show ?thesis using le_trans [OF length_filter_le [of P "cr_cache r"]] by (simp add: cache_inv_def omap_ok_filter)
qed

lemma cache_inv_same: "cr_cache r' = cr_cache r \<Longrightarrow> cr_config r' = cr_config r \<Longrightarrow> cache_inv r' = cache_inv r"
  by (simp add: cache_inv_def)

lemma obtain_content_inv:
  assumes "cache_inv r" "\<And>ks. mset (ls ks) = mset ks"
  shows "cache_inv (snd (obtain_content H ls now h r))"
proof (cases "map_of (cr_cache r) h")
  case None
  then show ?thesis using assms(1) add_to_cache_inv [OF assms]
    by (auto simp: obtain_content_def get_from_cache_def cache_inv_same [OF count_simps(3,4)] split: option.split)
next
  case (Some e)
  then show ?thesis using assms(1)
    by (simp add: obtain_content_def get_from_cache_def Let_def cache_inv_def length_omap_set_old)
qed

lemma renderer_step_inv:
  assumes "cache_inv r" "\<And>ks. mset (ls ks) = mset ks" "renderer_step H ls x r = Some r1"
  shows "cache_inv r1 \<and> cr_config r1 = cr_config r"
proof (cases x)
  case (Render now h rng)
  then show ?thesis using assms(3) obtain_content_inv [OF assms(1,2)] obtain_content_config
    by (rule_tac render_content_returns [of H ls now h rng r]) auto
next
  case (Stream now h)
  show ?thesis
  proof (rule render_content_returns [of H ls now h None r])
    fix y r2
    assume "render_content H ls now h None r = Some (y, r2)" "r2 = snd (obtain_content H ls now h r)"
    moreover have "cache_inv r2 \<and> cr_config r2 = cr_config r"
      using obtain_content_inv [OF assms(1,2)] obtain_content_config calculation(2) by simp
    ultimately show ?thesis using assms(3) Stream
      by (auto simp: stream_content_def split: option.splits if_splits)
  qed
next
  case (Invalidate h)
  then show ?thesis using assms(1,3) cache_inv_filter [OF assms(1), of "\<lambda>p. False"] cache_inv_filter [OF assms(1)]
    by (auto simp: invalidate_cache_def omap_erase_def split: option.splits if_splits)
next
  case (Expire now)
  then show ?thesis using assms(3) cache_inv_filter [OF assms(1)] by (auto simp: cleanup_expired_def)
next
  case (Prefetch now h)
  then show ?thesis using assms(1,3) add_to_cache_inv [OF assms(1,2)] by (auto simp: prefetch_def split: option.splits if_splits)
next
  case (Set_fetch f)
  then show ?thesis using assms(1,3) by (auto simp: set_fetch_callback_def cache_inv_def)
qed

lemma renderer_run_inv:
  assumes "cache_inv r" "\<And>ks. mset (ls ks) = mset ks" "renderer_run H ls xs r = Some r1"
  shows "cache_inv r1 \<and> cr_config r1 = cr_config r"
  using assms(1,3)
proof (induction xs arbitrary: r)
  case (Cons x xs)
  then obtain r2 where r2: "renderer_step H ls x r = Some r2" "renderer_run H ls xs r2 = Some r1" by (auto split: option.splits)
  then show ?case using Cons.IH [OF _ r2(2)] renderer_step_inv [OF Cons.prems(1) assms(2) r2(1)] by simp
qed simp

text \<open>
  after any sequence of operations, prefetching included, the cache holds at most the configured number of
  entries (and one if that is zero): the eviction of one entry before an insertion is enough for the number, as it
  is not for the number of bytes.
\<close>

theorem renderer_cache_bounded:
  assumes "renderer_run H ls xs (ContentRenderer_new cfg) = Some r" "\<And>ks. mset (ls ks) = mset ks"
  shows "cs_total_items (get_cache_stats r) \<le> max 1 (rc_max_cached_items cfg)"
proof -
  have new: "cache_inv (ContentRenderer_new cfg)" by (simp add: cache_inv_def ContentRenderer_new_def)
  have "cache_inv r \<and> cr_config r = cfg"
    using renderer_run_inv [OF new assms(2,1)] by (simp add: ContentRenderer_new_def)
  then have "length (cr_cache r) \<le> max 1 (rc_max_cached_items cfg)" unfolding cache_inv_def by blast
  then show ?thesis by (simp add: get_cache_stats_def Let_def)
qed

theorem renderer_cache_bounded_witness:
  "cs_total_items (get_cache_stats (snd (prefetch id 1 [2] (snd (prefetch id 0 [1]
     (set_fetch_callback (Some Some) (ContentRenderer_new (ContentRendererConfig_default\<lparr>rc_max_cached_items := 1\<rparr>)))))))) \<le> max 1 1"
  using renderer_cache_bounded [of "\<lambda>d. d" id "[Set_fetch (Some Some), Prefetch 0 [1], Prefetch 1 [2]]"
    "ContentRendererConfig_default\<lparr>rc_max_cached_items := 1\<rparr>"] by simp

end
