(* ===== verification/Spec2Isabelle.thy ===== *)
theory Spec2Isabelle
  imports Serialization Reconciliation Thing Decay Token_Revocation Trust_Graph Reputation Networks Replication Routing Time_Utils Postake Hybrid Sessions Peer_Messages Peers Attack_Prevention Human_Identity Content_Integrity Connections Activity_Monitor Ip_Protection Onion_Circuits Key_Store Sanitizer Renderer
begin

text \<open>
  A model of the core of Cashew, a peer-to-peer framework in C++ in which nodes record what
  they do in an append-only ledger, earn participation keys by proof of work, contribution or
  vouching, and derive from the ledger who may host, join, route and post.

  \<^bold>\<open>Theories and the code they model\<close> (paths under \<open>src/\<close> of the repository)

  \<^item> \<open>Prelude\<close>: fixed-width integers as words, byte strings, little-endian encodings, slices.
  \<^item> \<open>Containers\<close>: \<open>std::map\<close> and \<open>std::set\<close> as ordered lists; the interfaces \<open>keyed_store\<close>
    (what a map lookup returns after stores and erases), \<open>codec\<close> and \<open>trailing_codec\<close> (the
    contract of a \<open>to_bytes\<close>/\<open>from_bytes\<close> pair) and \<open>invariant_machine\<close> (a component whose
    operations keep an invariant). Each is interpreted on the definitions of the model.
  \<^item> \<open>Common\<close>: \<open>common.cpp\<close> and \<open>include/cashew/common.hpp\<close>: identifiers and their orders,
    hexadecimal and base64. \<open>base64_encode\<close> is RFC 4648 and \<open>base64_decode\<close> inverts it;
    \<open>hex_to_hash\<close> inverts \<open>hash_to_hex\<close>, and accepts more than hexadecimal digits.
  \<^item> \<open>Keys\<close>: \<open>core/keys/key.cpp\<close>: keys, transfer and vouch records with their byte formats and
    signatures, and the \<open>KeyManager\<close> (inventory, owner index, transfers, vouching, decay). The
    process-wide nonce counter and the clock are arguments. The invariant \<open>km_inv\<close> says that
    inventory and index agree; transfers conserve keys, vouches issue exactly their keys.
  \<^item> \<open>Ledger_Data\<close>: \<open>core/ledger/ledger.cpp\<close>, lines 15 to 302: events and the four payloads as
    bytes. Round trips, soundness of the parser, what a signature covers.
  \<^item> \<open>Ledger_Index\<close>: \<open>LedgerIndex\<close>: the queries by node, network and Thing are scans of the log (the
    query for key events always answers with none, and events that remove are not indexed).
  \<^item> \<open>Ledger_Log\<close>: \<open>Ledger\<close>: recording, peer events, persistence, validation. The invariant
    \<open>ledger_inv\<close> (a hash chain from the zero hash, distinct identifiers, exact lookup and index)
    holds after every sequence of operations; the log is append-only and tamper-evident up to
    collisions of the hashed bytes; saving and loading is a round trip. What a truncated file makes
    \<open>load_from_file\<close> read from uninitialised variables is the argument \<open>junk\<close> of \<open>load_file\<close>.
  \<^item> \<open>State\<close>: \<open>core/ledger/state.cpp\<close>: the \<open>StateManager\<close>. Every query of a rebuilt state is a fold
    of the log's effects; the state invariant holds under every operation; capabilities,
    activity and cleanup are characterised exactly.
  \<^item> \<open>Pow\<close>: \<open>core/pow/pow.cpp\<close> and \<open>crypto/argon2.cpp\<close>: puzzles, solving, verification, difficulty.
  \<^item> \<open>Serialization\<close>: \<open>utils/serialization.cpp\<close>: tagged values and the binary format. Decoding inverts
    encoding, always ends, and refuses every truncated encoding with the end-of-data error.
  \<^item> \<open>Access\<close>: \<open>security/access.cpp\<close>: policies, access decisions and capability tokens over the state
    manager. A decision is the conjunction of the policy's requirements and agrees with the
    capability checks of the state manager; tokens live an hour and are not authenticated.
  \<^item> \<open>Gossip\<close>: \<open>network/gossip.cpp\<close>: message formats and the protocol object. Handlers and sends are a
    trace of calls. A message is delivered once and travels at most ten hops; the cache is bounded.
  \<^item> \<open>Ledger_Sync\<close>: \<open>network/ledger_sync.cpp\<close>: the bridge from gossip to ledger and state. Whatever
    arrives, the chain stays valid and the state is the one a rebuild gives; a sync response
    brings a lagging node up to date.
  \<^item> \<open>Reconciliation\<close>: \<open>network/state_reconciliation.cpp\<close>: conflict detection, merges, quorum rounds.
    On a ledger with an event they only append offered events, and the state stays the rebuilt one.
  \<^item> \<open>Storage\<close> and \<open>Thing\<close>: \<open>storage/storage.cpp\<close>, \<open>core/thing/thing.cpp\<close>: the store as a map from
    hashes to blobs, and content objects whose data always has the hash they are known by.
  \<^item> \<open>Decay\<close>: \<open>core/decay\<close>: which keys and Things decay, and the worker thread of the runner as an
    interleaving of atomic steps in which no trigger is lost and \<open>stop\<close> returns.
  \<^item> \<open>Identity\<close>: \<open>core/node/node_identity.cpp\<close>: key pairs, rotation certificates and the identity file.
    A rotation chain built by rotating always verifies; the file is a round trip.
  \<^item> \<open>Key_Revocation\<close> and \<open>Token_Revocation\<close>: \<open>security/key_revocation.cpp\<close> and
    \<open>security/token_revocation.cpp\<close>: record formats, storage and expiry. A key stays revoked until the
    record that revoked it expires, provided that no older record for it is accepted later (which
    would replace that record); the index of tokens by node finds what a scan finds; who may revoke
    is hardly checked.
  \<^item> \<open>Floats\<close>: the binary32 arithmetic the code computes weights and rates with: finite numbers as
    rationals, every operation rounded to nearest, ties to even.
  \<^item> \<open>Trust_Graph\<close> and \<open>Reputation\<close>: \<open>core/reputation\<close>: the weighted graph of who trusts whom with its
    searches (transitive trust, communities, distances, paths), reputation scores, attestations and
    the vouching workflow. Every search ends; distances are shortest and communities are what can be
    reached; scores, histories and weights stay within their limits.
  \<^item> \<open>Networks\<close> and \<open>Replication\<close>: \<open>network/network.cpp\<close>: networks of nodes around a Thing with members,
    invitations and replicas, their registry in a directory, and the queue of replication jobs.
    Adjusting the redundancy never takes a network that has its minimum of active replicas below it
    (the other operations on members and replicas do not look at the minimum); the registry is a
    round trip; the job that runs next has the highest priority.
  \<^item> \<open>Routing\<close>: \<open>network/router.cpp\<close>: message formats, routing table and router. What is delivered
    to the application has the hash it is delivered under; a request without onion layers is forwarded
    fewer times than its hop limit (an onion route of more than one node does not work); the index of
    contents has every advertisement of an entry.
  \<^item> \<open>Time_Utils\<close>, \<open>Postake\<close> and \<open>Hybrid\<close>: \<open>utils/time_utils.cpp\<close>, \<open>core/postake\<close>: epochs and rate limits,
    contributions and their scores, and the issuance that combines them with proof of work, which
    under the default policy, and for requests of at most a million keys, keeps to the limit of an epoch.
  \<^item> \<open>Sessions\<close>: \<open>network/session.cpp\<close>: the handshake (both ends derive the same keys), encrypted frames (no
    nonce is used twice under a key), the life of a session and the session manager.
  \<^item> \<open>Peer_Messages\<close> and \<open>Peers\<close>: \<open>network/peer.cpp\<close>: message formats, peer discovery and the peer manager
    with its connections. In every run in which the session manager frees no session that a connection points
    to, connections stay within the limits and their pointers are live; maintenance reaches the target when the
    candidates are ready to be connected.
  \<^item> \<open>Attack_Prevention\<close>: \<open>security/attack_prevention.cpp\<close>: request rates, Sybil groups, connection limits per
    address (while the mitigation is enabled), fork detection. \<open>Human_Identity\<close>: \<open>identity/human_identity.cpp\<close>: identities with several nodes,
    continuity proofs and the detection of impersonation.
  \<^item> \<open>Content_Integrity\<close>: \<open>security/content_integrity.cpp\<close>: content hashes and Merkle trees. The level-by-level
    construction is the recursive tree of RFC 6962, and its root binds the content up to collisions.
  \<^item> \<open>Connections\<close> and \<open>Activity_Monitor\<close>: \<open>network/connection.cpp\<close>, \<open>network/activity_monitor.cpp\<close>: addresses,
    bandwidth limits, TCP connections and their manager over the answers of the operating system, and the
    reports of network events to the contribution tracker. Exactly the open connections have a socket; there
    is one per address as long as no holder reconnects the connection it was given.
  \<^item> \<open>Ip_Protection\<close> and \<open>Onion_Circuits\<close>: \<open>security/ip_protection.cpp\<close>, \<open>security/onion_routing.cpp\<close>: rotation
    of peers, ephemeral addresses, padding; layered encryption, which one hop after the other peels (for payloads of less than 32 bytes when the
    layers name the next hop).
  \<^item> \<open>Key_Store\<close>: the files of \<open>KeyStore\<close> in \<open>core/keys/key.cpp\<close>: a map from identifiers to keys.
  \<^item> \<open>Sanitizer\<close> and \<open>Renderer\<close>: \<open>gateway/content_renderer.cpp\<close>: types of contents, the HTML sanitizer, the
    renderer with its cache and the HTTP answers. What is served comes from a content with the requested
    hash, unless it was prefetched; streams are complete; the cache is bounded and evicts the least recently used entry.
  \<^item> This theory: properties of several components together (a recorded event, the ledger and
    the state built from it).

  \<^bold>\<open>How state and effects are modelled.\<close> A class is a record of its fields; an operation is a
  function from the record (and its arguments) to its result and the new record. An
  exception, an early return or \<open>std::nullopt\<close> is a value of a sum or option type. Mutexes only
  serialise the operations and are left out. Logging is left out. Each reading of a clock is an
  argument. BLAKE3, Ed25519, Argon2 and the random generator are parameters; where a property
  needs something of them (a signature verifies, no collision occurs) it is a hypothesis or a
  disjunct of the conclusion.

  Three simplifications of what C++ leaves undefined or to the environment: sums of the signed 32-bit
  reputation in \<open>State\<close> wrap around, where a signed overflow is undefined; \<open>crypto_pwhash\<close> is a function of its
  arguments, so that it cannot fail for want of memory on one call and succeed on the next; and an empty
  string at the end of the input of \<open>decode_string\<close> is the empty string, although the code forms a reference
  to the byte behind the input.

  \<^bold>\<open>Bounds and fuel.\<close> Sizes are natural numbers where the code's \<open>size_t\<close> cannot wrap, words
  where it can (\<open>offset + len\<close> in \<open>Serialization\<close>). Three loops have fuel: \<open>solve_loop\<close> (with a limit of
  \<open>n\<close> attempts \<open>n + 1\<close> units are enough; without one the first working nonce ends it),
  \<open>benchmark_loop\<close> (ended by the clock) and the recursive decoder, whose caller gives it more
  units than the input has bytes, which is proved to be enough.

  Loops that may run for ever are partial functions whose value is then \<open>None\<close>: those over chunks in
  \<open>Content_Integrity\<close> and \<open>Renderer\<close> (they return when the size of a chunk is positive) and the removal of
  \<open>iframe\<close> elements in \<open>Sanitizer\<close>. \<open>send_loop\<close> recurses on the answers of the operating system. Every other
  loop is a total function.

  \<^bold>\<open>Not modelled.\<close> The HTTP server and WebSocket handler of the gateway, NAT traversal by STUN, hardware
  key stores, logging, configuration files, command line and start-up: they are input and output around the
  components above. The wrappers of BLAKE3 and libsodium are the parameters of the models that use them.
  Text that is only printed (statistics) is left out, as are socket options and the conversion of
  calendar times.
\<close>

section \<open>Properties that span components\<close>

text \<open>
  C4: the state can be maintained incrementally: when the ledger accepts an event, applying
  that event to a state built from the old ledger gives the state that a rebuild from the new
  ledger gives, whatever was in the state manager before either rebuild.
\<close>

theorem incremental_state:
  assumes "verify_event H clk L e"
  shows "rebuild_state (snd (add_event H clk e L)) now s =
    (apply_event e (rebuild_state L now' s'))\<lparr>sm_last_rebuild := now\<rparr>"
proof -
  define s0 where "s0 = s'\<lparr>sm_nodes := [], sm_networks := [], sm_things := []\<rparr>"
  have start: "s\<lparr>sm_nodes := [], sm_networks := [], sm_things := []\<rparr> = s0\<lparr>sm_last_rebuild := sm_last_rebuild s\<rparr>"
    by (simp add: s0_def)
  have "get_all_events (snd (add_event H clk e L)) = lg_events L @ [e]"
    using assms by (simp add: get_all_events_def add_event_cases appended_def)
  then show ?thesis
    unfolding rebuild_state_def start s0_def [symmetric]
    by (simp add: get_all_events_def apply_event_stamp fold_apply_stamp)
qed

theorem incremental_state_witness:
  "rebuild_state (snd (add_event toy_hash sample_clock (replica_event\<lparr>previous_hash := zero_hash\<rparr>)
     sample_ledger)) 9 member_state =
   (apply_event (replica_event\<lparr>previous_hash := zero_hash\<rparr>)
     (rebuild_state sample_ledger 8 empty_state))\<lparr>sm_last_rebuild := 9\<rparr>"
  by (rule incremental_state)
    (simp add: verify_event_def verify_event_chain_def Ledger_init_def replica_event_def sample_event_def
      sample_clock_def MAX_FUTURE_SKEW_SECONDS_def)

text \<open>
  issuing keys, end to end: when \<open>record_key_issued\<close> is called on a ledger whose latest hash
  is the tip, with a clock that does not run backwards and an unused identifier, the balance of
  the local node in the rebuilt state grows by the number of keys issued, for the issued type,
  and every other balance is as before; the ledger's index counts the same keys.
\<close>

theorem record_key_issued_raises_balance:
  assumes "latest_ok H L" "clock_ok clk" "length proof_hash = 32"
    and "map_of (lg_lookup L) (event_id (fst (create_event H clk KEY_ISSUED
      (KeyIssuanceData_to_bytes \<lparr>ki_key_type = kt, ki_count = cnt, ki_method = meth, ki_proof = proof_hash\<rparr>) L))) = None"
  defines "L' \<equiv> snd (record_key_issued H clk kt cnt meth proof_hash L)"
  shows "get_node_key_balance (rebuild_state L' now s) n t =
      get_node_key_balance (rebuild_state L now s) n t + (if n = lg_node L \<and> t = kt then cnt else 0) \<and>
    get_total_keys_issued (lg_index L') n t =
      get_total_keys_issued (lg_index L) n t + (if n = lg_node L \<and> t = kt then cnt else 0)"
proof -
  let ?d = "\<lparr>ki_key_type = kt, ki_count = cnt, ki_method = meth, ki_proof = proof_hash\<rparr>"
  define e where "e = fst (create_event H clk KEY_ISSUED (KeyIssuanceData_to_bytes ?d) L)"
  have dec: "KeyIssuanceData_from_bytes (KeyIssuanceData_to_bytes ?d) = Some ?d"
    by (rule keyissuec.dec_enc) (simp add: wf_KeyIssuanceData_def assms(3))
  have fields: "event_type e = KEY_ISSUED" "event_data e = KeyIssuanceData_to_bytes ?d" "source_node e = lg_node L"
    by (simp_all add: e_def create_event_def Let_def)
  have "record_event H clk KEY_ISSUED (KeyIssuanceData_to_bytes ?d) L =
      (event_id e, appended H e (L\<lparr>lg_counter := lg_counter L + 1\<rparr>))"
    unfolding e_def by (rule record_event_ok [OF assms(1,2,4)])
  then have L': "L' = appended H e (L\<lparr>lg_counter := lg_counter L + 1\<rparr>)"
    by (simp add: L'_def record_key_issued_def)
  have "get_node_key_balance (rebuild_state L' now s) n t =
      log_balance n t e (get_node_key_balance (rebuild_state L now s) n t)"
    by (simp add: L' appended_def rebuild_state_def get_all_events_def balance_step)
  moreover have "get_total_keys_issued (lg_index L') n t =
      get_total_keys_issued (lg_index L) n t + (if n = lg_node L \<and> t = kt then cnt else 0)"
    using dec fields
    by (simp add: L' appended_def LedgerIndex_add_event_def get_total_keys_issued_def Let_def event_type_defs)
  ultimately show ?thesis
    using dec fields by (simp add: log_balance_def event_type_defs)
qed

theorem record_key_issued_raises_balance_witness:
  "get_node_key_balance (rebuild_state (snd (record_key_issued toy_hash sample_clock SERVICE 3 POW
     (replicate 32 9) sample_ledger)) 0 empty_state) (lg_node sample_ledger) SERVICE = 3"
proof -
  have "map_of (lg_lookup sample_ledger) (event_id (fst (create_event toy_hash sample_clock KEY_ISSUED
      (KeyIssuanceData_to_bytes \<lparr>ki_key_type = SERVICE, ki_count = 3, ki_method = POW,
        ki_proof = replicate 32 9\<rparr>) sample_ledger))) = None"
    by (simp add: Ledger_init_def)
  from record_key_issued_raises_balance [OF latest_ok_init sample_clock_ok _ this, of 0 empty_state
      "lg_node sample_ledger" SERVICE]
  show ?thesis
    by (simp add: rebuild_state_def get_all_events_def Ledger_init_def empty_state_def get_node_key_balance_def)
qed

end
